(* ===== verification/Prelude.thy ===== *)
theory Prelude
  imports Main "HOL-Library.Word" "HOL-Library.Monad_Syntax"
begin

text \<open>
  Shared vocabulary of the development: bytes, the wrap-around of C integers of
  a given width on nat and int, the C string functions on lists, arrays updated
  by a copied window, and the small facts the component theories share.
\<close>

unbundle bit_operations_syntax

section \<open>Bytes and C integers\<close>

type_synonym byte = "8 word"

text \<open>Unsigned values of 8, 16 and 32 bits are kept as nat with the wrap written out.\<close>

definition u8 :: "nat \<Rightarrow> nat" where
  "u8 x = x mod 256"

definition u16 :: "nat \<Rightarrow> nat" where
  "u16 x = x mod 65536"

definition u32 :: "nat \<Rightarrow> nat" where
  "u32 x = x mod 4294967296"

text \<open>Unsigned subtraction wraps below zero.\<close>

definition sub_u16 :: "nat \<Rightarrow> nat \<Rightarrow> nat" where
  "sub_u16 a b = nat ((int a - int b) mod 65536)"

definition sub_u8 :: "nat \<Rightarrow> nat \<Rightarrow> nat" where
  "sub_u8 a b = nat ((int a - int b) mod 256)"

text \<open>The value of an int expression stored into a signed 32 bit variable.\<close>

definition s32 :: "int \<Rightarrow> int" where
  "s32 x = (x + 2147483648) mod 4294967296 - 2147483648"

named_theorems c_int \<open>unfolding the wrap-around of C integers\<close>

lemma u8_small [simp]: "x < 256 \<Longrightarrow> u8 x = x"
  by (simp add: u8_def)

lemma u16_small [simp]: "x < 65536 \<Longrightarrow> u16 x = x"
  by (simp add: u16_def)

lemma u32_small [simp]: "x < 4294967296 \<Longrightarrow> u32 x = x"
  by (simp add: u32_def)

lemma u8_bound [simp]: "u8 x < 256"
  by (simp add: u8_def)

lemma u16_bound [simp]: "u16 x < 65536"
  by (simp add: u16_def)

lemma u32_bound [simp]: "u32 x < 4294967296"
  by (simp add: u32_def)

lemma sub_u16_small [simp]: "b \<le> a \<Longrightarrow> a < 65536 \<Longrightarrow> sub_u16 a b = a - b"
  by (simp add: sub_u16_def nat_diff_distrib of_nat_diff [symmetric] del: of_nat_diff)

lemma sub_u8_small [simp]: "b \<le> a \<Longrightarrow> a < 256 \<Longrightarrow> sub_u8 a b = a - b"
  by (simp add: sub_u8_def nat_diff_distrib of_nat_diff [symmetric] del: of_nat_diff)

lemma s32_small [simp]: "-2147483648 \<le> x \<Longrightarrow> x < 2147483648 \<Longrightarrow> s32 x = x"
  by (simp add: s32_def)

lemma s32_range: "-2147483648 \<le> s32 x \<and> s32 x < 2147483648"
  by (simp add: s32_def)

lemmas c_int_defs [c_int] = u8_def u16_def u32_def sub_u16_def sub_u8_def s32_def

section \<open>Little-endian 16 bit fields\<close>

definition le16 :: "nat \<Rightarrow> byte list" where
  "le16 x = [of_nat (x mod 256), of_nat (x div 256 mod 256)]"

definition un_le16 :: "byte \<Rightarrow> byte \<Rightarrow> nat" where
  "un_le16 lo hi = unat lo + 256 * unat hi"

lemma unat_byte_bound [simp]: "unat (b :: byte) < 256"
proof -
  have "unat b < 2 ^ LENGTH(8)" by (rule unsigned_less)
  then show ?thesis by simp
qed

lemma unat_of_nat_byte [simp]: "unat (of_nat x :: byte) = x mod 256"
  by (simp add: unat_of_nat)

lemma un_le16_le16: "x < 65536 \<Longrightarrow>
  un_le16 (of_nat (x mod 256)) (of_nat (x div 256 mod 256)) = x"
  by (simp add: un_le16_def)

lemma un_le16_bound [simp]: "un_le16 a b < 65536"
  using unat_byte_bound [of a] unat_byte_bound [of b] unfolding un_le16_def by linarith

section \<open>Slices\<close>

text \<open>\<open>window off len xs\<close>: the \<open>len\<close> elements that start at index \<open>off\<close>.\<close>

definition window :: "nat \<Rightarrow> nat \<Rightarrow> 'a list \<Rightarrow> 'a list" where
  "window off len xs = take len (drop off xs)"

text \<open>\<open>overwrite off ys xs\<close>: the list after \<open>ys\<close> was copied over it at \<open>off\<close>.\<close>

definition overwrite :: "nat \<Rightarrow> 'a list \<Rightarrow> 'a list \<Rightarrow> 'a list" where
  "overwrite off ys xs = take off xs @ ys @ drop (off + length ys) xs"

lemma length_window [simp]: "off + len \<le> length xs \<Longrightarrow> length (window off len xs) = len"
  by (simp add: window_def)

lemma length_overwrite [simp]:
  "off + length ys \<le> length xs \<Longrightarrow> length (overwrite off ys xs) = length xs"
  by (simp add: overwrite_def)

lemma window_append_left: "length xs = off \<Longrightarrow> length ys = len \<Longrightarrow>
  window off len (xs @ ys @ zs) = ys"
  by (simp add: window_def)

lemma overwrite_all: "length v = length xs \<Longrightarrow> overwrite 0 v xs = v"
  by (simp add: overwrite_def)

lemma window_append_right: "length xs = a \<Longrightarrow> window (a + i) n (xs @ ys) = window i n ys"
  by (simp add: window_def)

lemma nth_overwrite: "off + length ys \<le> length xs \<Longrightarrow> i < length xs \<Longrightarrow>
  overwrite off ys xs ! i =
    (if off \<le> i \<and> i < off + length ys then ys ! (i - off) else xs ! i)"
  by (auto simp: overwrite_def nth_append min_def)

lemma window_overwrite_same: "off + length ys \<le> length xs \<Longrightarrow>
  window off (length ys) (overwrite off ys xs) = ys"
  by (simp add: window_def overwrite_def)

section \<open>Functions updated on an interval\<close>

text \<open>A memory with the bytes \<open>bs\<close> placed from address \<open>off\<close> on.\<close>

definition put :: "(nat \<Rightarrow> 'a) \<Rightarrow> nat \<Rightarrow> 'a list \<Rightarrow> nat \<Rightarrow> 'a" where
  "put m off bs = (\<lambda>a. if off \<le> a \<and> a < off + length bs then bs ! (a - off) else m a)"

definition get_range :: "(nat \<Rightarrow> 'a) \<Rightarrow> nat \<Rightarrow> nat \<Rightarrow> 'a list" where
  "get_range m off len = map m [off..<off + len]"

lemma length_get_range [simp]: "length (get_range m off len) = len"
  by (simp add: get_range_def)

lemma nth_get_range [simp]: "i < len \<Longrightarrow> get_range m off len ! i = m (off + i)"
  by (simp add: get_range_def)

lemma get_range_add: "get_range m off (a + b) = get_range m off a @ get_range m (off + a) b"
  by (rule nth_equalityI) (auto simp: nth_append)

lemma get_range_Suc: "get_range m off (Suc n) = m off # get_range m (Suc off) n"
  by (rule nth_equalityI) (auto simp: nth_Cons split: nat.splits)

lemma get_range_0 [simp]: "get_range m off 0 = []"
  by (simp add: get_range_def)

lemma get_range_put_same: "get_range (put m off bs) off (length bs) = bs"
  by (rule nth_equalityI) (auto simp: put_def)

lemma get_range_put_other: "a + n \<le> off \<or> off + length bs \<le> a \<Longrightarrow>
  get_range (put m off bs) a n = get_range m a n"
  by (rule nth_equalityI) (auto simp: put_def)

lemma get_range_eqI: "length xs = n \<Longrightarrow> (\<And>i. i < n \<Longrightarrow> m (off + i) = xs ! i) \<Longrightarrow>
  get_range m off n = xs"
  by (rule nth_equalityI) auto

section \<open>Searching lists\<close>

lemma find_SomeD: "find P xs = Some x \<Longrightarrow> x \<in> set xs \<and> P x"
  by (auto simp: find_Some_iff)

lemma find_append: "find P (xs @ ys) =
    (case find P xs of None \<Rightarrow> find P ys | Some x \<Rightarrow> Some x)"
  by (induction xs) auto

section \<open>Text\<close>

text \<open>C string literals as lists of bytes, and the conversions of \<open>snprintf\<close> in use.\<close>

definition str :: "string \<Rightarrow> byte list" where
  "str s = map of_char s"

lemma str_simps [simp]: "str [] = []" "str (c # cs) = of_char c # str cs"
  "str (xs @ ys) = str xs @ str ys" "length (str s) = length s"
  by (simp_all add: str_def)

fun dec_nat :: "nat \<Rightarrow> byte list" where
  "dec_nat n = (if n < 10 then [of_nat (48 + n)] else dec_nat (n div 10) @ [of_nat (48 + n mod 10)])"

declare dec_nat.simps [simp del]

definition dec_int :: "int \<Rightarrow> byte list" where
  "dec_int i = (if i < 0 then 45 # dec_nat (nat (- i)) else dec_nat (nat i))"

lemma dec_nat_small: "n < 10 \<Longrightarrow> dec_nat n = [of_nat (48 + n)]"
  by (simp add: dec_nat.simps)

definition hex_digit :: "nat \<Rightarrow> byte" where
  "hex_digit n = of_nat (if n < 10 then 48 + n else 87 + n)"

text \<open>What a C program sees of a buffer: the bytes before the first zero.\<close>

definition cstr :: "byte list \<Rightarrow> byte list" where
  "cstr = takeWhile (\<lambda>b. b \<noteq> 0)"

text \<open>
  \<open>snprintf(buf, n, ...)\<close> leaves at most \<open>n - 1\<close> bytes of the text in the buffer and
  returns the length of the whole text.
\<close>

definition snprintf :: "nat \<Rightarrow> byte list \<Rightarrow> byte list \<times> nat" where
  "snprintf n text = (take (n - 1) text, length text)"

text \<open>32 bit little-endian fields.\<close>

definition le32 :: "nat \<Rightarrow> byte list" where
  "le32 x = [of_nat (x mod 256), of_nat (x div 256 mod 256), of_nat (x div 65536 mod 256),
     of_nat (x div 16777216 mod 256)]"

definition un_le32 :: "byte list \<Rightarrow> nat" where
  "un_le32 bs = unat (bs ! 0) + 256 * unat (bs ! 1) + 65536 * unat (bs ! 2) + 16777216 * unat (bs ! 3)"

lemma length_le32 [simp]: "length (le32 x) = 4"
  by (simp add: le32_def)

lemma un_le32_le32:
  assumes "x < 4294967296"
  shows "un_le32 (le32 x) = x"
proof -
  have d: "x div 65536 = x div 256 div 256" "x div 16777216 = x div 256 div 256 div 256"
    by (simp_all flip: div_mult2_eq)
  have "x div 16777216 < 256" using assms by (simp add: less_mult_imp_div_less)
  then have m: "x div 256 div 256 div 256 mod 256 = x div 256 div 256 div 256" by (simp add: d)
  have "un_le32 (le32 x) = x mod 256 + 256 * (x div 256 mod 256)
      + 65536 * (x div 256 div 256 mod 256) + 16777216 * (x div 256 div 256 div 256)"
    unfolding un_le32_def le32_def d by (simp add: m)
  also have "\<dots> = x"
    using div_mult_mod_eq [of x 256] div_mult_mod_eq [of "x div 256" 256]
      div_mult_mod_eq [of "x div 256 div 256" 256] by linarith
  finally show ?thesis .
qed

section \<open>Reading a C string by index\<close>

text \<open>
  The bytes of a string without its terminator; index \<open>length m\<close> reads the terminating
  zero. The users of \<open>ch\<close> say what they do about indices beyond it.
\<close>

definition ch :: "byte list \<Rightarrow> nat \<Rightarrow> byte" where
  "ch m p = (if p < length m then m ! p else 0)"

lemma ch_nonzero: "ch m p \<noteq> 0 \<Longrightarrow> p < length m"
  by (simp add: ch_def split: if_splits)

lemma ch_nonzero_dec: "ch m p \<noteq> 0 \<Longrightarrow> length m - Suc p < length m - p"
  by (drule ch_nonzero) simp

lemma ch_append [simp]:
  "ch (xs @ ys) (length xs + i) = ch ys i" "ch (xs @ ys) (length xs) = ch ys 0"
  "ch (c # ys) 0 = c" "ch (c # ys) (Suc i) = ch ys i"
  by (auto simp: ch_def nth_append)

end
