(* ===== verification/Kv_Types.thy ===== *)
theory Kv_Types
  imports Prelude
begin

text \<open>
  Data of the key-value component (components/kv): the constants of kv_conf.h,
  kv_types.h and kv_api.h, the headers stored in flash and their byte layout, the
  management structures, the CRC-8 of an item and the platform services of
  kv_adapt.c. The configuration is the default of kv_conf.h (4 KB blocks, keys
  of at most 128 and values of at most 512 bytes) except for KV_TOTAL_SIZE, which
  is the number of blocks \<open>n\<close>: below 64 KB in total, \<open>kv_size_t\<close> is
  \<open>uint16_t\<close>. The target is the 32 bit one (\<open>sizeof(void *)\<close> is 4).
\<close>

section \<open>Result codes and constants\<close>

abbreviation (input) KV_OK :: int where "KV_OK \<equiv> 0"
abbreviation (input) KV_LOOP_CONTINUE :: int where "KV_LOOP_CONTINUE \<equiv> 10000"
abbreviation (input) KV_ERR_NO_SPACE :: int where "KV_ERR_NO_SPACE \<equiv> -10001"
abbreviation (input) KV_ERR_INVALID_PARAM :: int where "KV_ERR_INVALID_PARAM \<equiv> -10002"
abbreviation (input) KV_ERR_MALLOC_FAILED :: int where "KV_ERR_MALLOC_FAILED \<equiv> -10003"
abbreviation (input) KV_ERR_NOT_FOUND :: int where "KV_ERR_NOT_FOUND \<equiv> -10004"
abbreviation (input) KV_ERR_FLASH_READ :: int where "KV_ERR_FLASH_READ \<equiv> -10005"
abbreviation (input) KV_ERR_FLASH_WRITE :: int where "KV_ERR_FLASH_WRITE \<equiv> -10006"
abbreviation (input) KV_ERR_FLASH_ERASE :: int where "KV_ERR_FLASH_ERASE \<equiv> -10007"
abbreviation (input) KV_ERR_OS_LOCK :: int where "KV_ERR_OS_LOCK \<equiv> -10008"
abbreviation (input) KV_ERR_OS_SEM :: int where "KV_ERR_OS_SEM \<equiv> -10009"
abbreviation (input) KV_ERR_ENCRYPT :: int where "KV_ERR_ENCRYPT \<equiv> -10010"
abbreviation (input) KV_ERR_DECRYPT :: int where "KV_ERR_DECRYPT \<equiv> -10011"

abbreviation (input) KV_MAX_KEY_LEN :: nat where "KV_MAX_KEY_LEN \<equiv> 128"
abbreviation (input) KV_MAX_VAL_LEN :: nat where "KV_MAX_VAL_LEN \<equiv> 512"
abbreviation (input) KV_BLOCK_SIZE :: nat where "KV_BLOCK_SIZE \<equiv> 4096"
abbreviation (input) KV_BLOCK_HDR_SIZE :: nat where "KV_BLOCK_HDR_SIZE \<equiv> 4"
abbreviation (input) KV_ITEM_HDR_SIZE :: nat where "KV_ITEM_HDR_SIZE \<equiv> 8"
abbreviation (input) KV_ITEM_MAX_LEN :: nat where "KV_ITEM_MAX_LEN \<equiv> 648"
abbreviation (input) KV_RESERVED_BLOCKS :: nat where "KV_RESERVED_BLOCKS \<equiv> 1"
abbreviation (input) KV_STATE_OFFSET :: nat where "KV_STATE_OFFSET \<equiv> 1"

abbreviation (input) KV_BLOCK_STATE_USED :: byte where "KV_BLOCK_STATE_USED \<equiv> 0xCC"
abbreviation (input) KV_BLOCK_STATE_CLEAN :: byte where "KV_BLOCK_STATE_CLEAN \<equiv> 0xEE"
abbreviation (input) KV_BLOCK_STATE_DIRTY :: byte where "KV_BLOCK_STATE_DIRTY \<equiv> 0x44"
abbreviation (input) KV_ITEM_STATE_NORMAL :: byte where "KV_ITEM_STATE_NORMAL \<equiv> 0xEE"
abbreviation (input) KV_ITEM_STATE_DELETE :: byte where "KV_ITEM_STATE_DELETE \<equiv> 0x00"

text \<open>The magic numbers are the characters K and I.\<close>

abbreviation (input) KV_BLOCK_MAGIC_NUM :: byte where "KV_BLOCK_MAGIC_NUM \<equiv> 0x4B"
abbreviation (input) KV_ITEM_MAGIC_NUM :: byte where "KV_ITEM_MAGIC_NUM \<equiv> 0x49"

definition INVALID_BLK_STATE :: "byte \<Rightarrow> bool" where
  "INVALID_BLK_STATE st \<longleftrightarrow>
     st \<noteq> KV_BLOCK_STATE_USED \<and> st \<noteq> KV_BLOCK_STATE_CLEAN \<and> st \<noteq> KV_BLOCK_STATE_DIRTY"

text \<open>\<open>KV_ALIGN(x)\<close> rounds up to the next multiple of the pointer size.\<close>

definition KV_ALIGN :: "nat \<Rightarrow> nat" where
  "KV_ALIGN x = (x + 3) div 4 * 4"

text \<open>The two values of the \<open>flag\<close> argument of \<open>kv_item_del\<close>.\<close>

abbreviation (input) KV_DELETE_FLAG :: int where "KV_DELETE_FLAG \<equiv> 0"
abbreviation (input) KV_UPDATE_FLAG :: int where "KV_UPDATE_FLAG \<equiv> 1"

section \<open>Headers in flash\<close>

record block_hdr =
  bh_magic :: byte
  bh_state :: byte

record item_hdr =
  ih_magic :: byte
  ih_state :: byte
  ih_crc :: byte
  ih_key_len :: nat
  ih_val_len :: nat
  ih_origin_off :: nat

text \<open>The packed structures as the bytes that are read and written.\<close>

definition block_hdr_bytes :: "block_hdr \<Rightarrow> byte list" where
  "block_hdr_bytes h = [bh_magic h, bh_state h, 0, 0]"

definition block_hdr_of :: "byte list \<Rightarrow> block_hdr" where
  "block_hdr_of bs = \<lparr>bh_magic = bs ! 0, bh_state = bs ! 1\<rparr>"

definition item_hdr_bytes :: "item_hdr \<Rightarrow> byte list" where
  "item_hdr_bytes h =
     [ih_magic h, ih_state h, ih_crc h, of_nat (ih_key_len h)]
     @ le16 (ih_val_len h) @ le16 (ih_origin_off h)"

definition item_hdr_of :: "byte list \<Rightarrow> item_hdr" where
  "item_hdr_of bs =
     \<lparr>ih_magic = bs ! 0, ih_state = bs ! 1, ih_crc = bs ! 2, ih_key_len = unat (bs ! 3),
      ih_val_len = un_le16 (bs ! 4) (bs ! 5), ih_origin_off = un_le16 (bs ! 6) (bs ! 7)\<rparr>"

section \<open>Items and management state\<close>

record kv_item =
  it_hdr :: item_hdr
  it_store :: "byte list option"
  it_len :: nat
  it_pos :: nat

record block_info =
  bi_space :: nat
  bi_state :: byte

record kv_mgr =
  inited :: bool
  gc_trigger :: bool
  gc_waiter :: nat
  clean_blk_nums :: nat
  write_pos :: nat
  block_infos :: "block_info list"

section \<open>CRC-8\<close>

text \<open>One bit of the shift register: the poly is \<open>x^8 + x^5 + x^4 + 1\<close> (0x31).\<close>

definition crc8_bit :: "byte \<Rightarrow> byte" where
  "crc8_bit crc = (if crc AND 0x80 \<noteq> 0 then push_bit 1 crc XOR 0x31 else push_bit 1 crc)"

fun crc8_bits :: "nat \<Rightarrow> byte \<Rightarrow> byte" where
  "crc8_bits 0 crc = crc"
| "crc8_bits (Suc i) crc = crc8_bits i (crc8_bit crc)"

definition crc8_byte :: "byte \<Rightarrow> byte \<Rightarrow> byte" where
  "crc8_byte crc b = crc8_bits 8 (crc XOR b)"

definition calc_crc8 :: "byte list \<Rightarrow> byte" where
  "calc_crc8 buf = foldl crc8_byte 0 buf"

section \<open>The platform: flash, heap, lock and tasks\<close>

text \<open>
  The flash driver (\<open>amp_hal_flash_read\<close>, \<open>_write\<close>, \<open>_erase\<close> on the KV partition) is
  not under src/: it is a record of functions over a device state. A read gets the
  buffer as it was and returns what the buffer holds afterwards.
\<close>

record 'f flash_hal =
  hal_read :: "'f \<Rightarrow> nat \<Rightarrow> byte list \<Rightarrow> 'f \<times> int \<times> byte list"
  hal_write :: "'f \<Rightarrow> nat \<Rightarrow> byte list \<Rightarrow> 'f \<times> int"
  hal_erase :: "'f \<Rightarrow> nat \<Rightarrow> nat \<Rightarrow> 'f \<times> int"

text \<open>
  The state an operation works on: the global \<open>g_kv_mgr\<close>, the device, the heap (the
  \<open>i\<close>-th allocation succeeds when \<open>w_alloc i\<close>), the mutex and the number of GC tasks
  that were started and have not run yet.
\<close>

record 'f kv_world =
  w_mgr :: kv_mgr
  w_flash :: 'f
  w_alloc :: "nat \<Rightarrow> bool"
  w_allocs :: nat
  w_lock :: bool
  w_gc_tasks :: nat

definition kv_flash_read ::
  "'f flash_hal \<Rightarrow> nat \<Rightarrow> byte list \<Rightarrow> 'f kv_world \<Rightarrow> int \<times> byte list \<times> 'f kv_world" where
  "kv_flash_read hal off buf w =
     (case hal_read hal (w_flash w) off buf of (f, r, buf') \<Rightarrow> (r, buf', w\<lparr>w_flash := f\<rparr>))"

definition kv_flash_write ::
  "'f flash_hal \<Rightarrow> nat \<Rightarrow> byte list \<Rightarrow> 'f kv_world \<Rightarrow> int \<times> 'f kv_world" where
  "kv_flash_write hal off buf w =
     (case hal_write hal (w_flash w) off buf of (f, r) \<Rightarrow> (r, w\<lparr>w_flash := f\<rparr>))"

definition kv_flash_erase ::
  "'f flash_hal \<Rightarrow> nat \<Rightarrow> nat \<Rightarrow> 'f kv_world \<Rightarrow> int \<times> 'f kv_world" where
  "kv_flash_erase hal off sz w =
     (case hal_erase hal (w_flash w) off sz of (f, r) \<Rightarrow> (r, w\<lparr>w_flash := f\<rparr>))"

definition kv_malloc :: "'f kv_world \<Rightarrow> bool \<times> 'f kv_world" where
  "kv_malloc w = (w_alloc w (w_allocs w), w\<lparr>w_allocs := Suc (w_allocs w)\<rparr>)"

text \<open>
  Taking the mutex while it is held blocks for ever (None); \<open>kv_lock\<close> itself always
  returns 0.
\<close>

definition kv_lock :: "'f kv_world \<Rightarrow> (int \<times> 'f kv_world) option" where
  "kv_lock w = (if w_lock w then None else Some (0, w\<lparr>w_lock := True\<rparr>))"

definition kv_unlock :: "'f kv_world \<Rightarrow> 'f kv_world" where
  "kv_unlock w = w\<lparr>w_lock := False\<rparr>"

definition kv_start_task :: "'f kv_world \<Rightarrow> 'f kv_world" where
  "kv_start_task w = w\<lparr>w_gc_tasks := Suc (w_gc_tasks w)\<rparr>"

text \<open>Assignments to fields of \<open>g_kv_mgr\<close>.\<close>

definition upd_mgr :: "(kv_mgr \<Rightarrow> kv_mgr) \<Rightarrow> 'f kv_world \<Rightarrow> 'f kv_world" where
  "upd_mgr f w = w\<lparr>w_mgr := f (w_mgr w)\<rparr>"

definition get_info :: "'f kv_world \<Rightarrow> nat \<Rightarrow> block_info" where
  "get_info w i = block_infos (w_mgr w) ! i"

definition set_blk_state :: "nat \<Rightarrow> byte \<Rightarrow> 'f kv_world \<Rightarrow> 'f kv_world" where
  "set_blk_state i st = upd_mgr (\<lambda>m. m\<lparr>block_infos :=
     (block_infos m)[i := (block_infos m ! i)\<lparr>bi_state := st\<rparr>]\<rparr>)"

definition set_blk_space :: "nat \<Rightarrow> nat \<Rightarrow> 'f kv_world \<Rightarrow> 'f kv_world" where
  "set_blk_space i sp = upd_mgr (\<lambda>m. m\<lparr>block_infos :=
     (block_infos m)[i := (block_infos m ! i)\<lparr>bi_space := sp\<rparr>]\<rparr>)"

definition set_write_pos :: "nat \<Rightarrow> 'f kv_world \<Rightarrow> 'f kv_world" where
  "set_write_pos p = upd_mgr (\<lambda>m. m\<lparr>write_pos := p\<rparr>)"

definition set_clean_nums :: "nat \<Rightarrow> 'f kv_world \<Rightarrow> 'f kv_world" where
  "set_clean_nums k = upd_mgr (\<lambda>m. m\<lparr>clean_blk_nums := k\<rparr>)"

lemmas world_upd_defs = upd_mgr_def set_blk_state_def set_blk_space_def set_write_pos_def
  set_clean_nums_def

end
