(* ===== verification/Kv_Ops.thy ===== *)
theory Kv_Ops
  imports Kv_Types
begin

text \<open>
  The internal operations of components/kv/kv.c, in the order of the file: GC
  trigger, block and item states, formatting, the choice of the write position,
  item deletion, the callbacks, the traversal of a block, search, store, update,
  start-up and the garbage collection task. \<open>n\<close> is KV_BLOCK_NUMS. An operation
  takes and returns the world; where a loop of the code may not end the result is an
  option and None means that the call does not return.
\<close>

section \<open>Block and item states\<close>

definition kv_trigger_gc :: "'f kv_world \<Rightarrow> 'f kv_world" where
  "kv_trigger_gc w =
     (if gc_trigger (w_mgr w) then w
      else kv_start_task (upd_mgr (\<lambda>m. m\<lparr>gc_waiter := 0, gc_trigger := True\<rparr>) w))"

definition kv_set_block_state ::
  "'f flash_hal \<Rightarrow> nat \<Rightarrow> byte \<Rightarrow> 'f kv_world \<Rightarrow> int \<times> 'f kv_world" where
  "kv_set_block_state hal blk_idx st w =
     (let pos = u32 (blk_idx * KV_BLOCK_SIZE + KV_STATE_OFFSET);
          (ret, w1) = kv_flash_write hal pos [st] w
      in if ret \<noteq> KV_OK then (ret, w1)
         else (KV_OK, set_blk_state blk_idx st w1))"

definition kv_set_item_state ::
  "'f flash_hal \<Rightarrow> nat \<Rightarrow> byte \<Rightarrow> 'f kv_world \<Rightarrow> int \<times> 'f kv_world" where
  "kv_set_item_state hal pos st w = kv_flash_write hal (pos + KV_STATE_OFFSET) [st] w"

definition kv_block_format ::
  "'f flash_hal \<Rightarrow> nat \<Rightarrow> 'f kv_world \<Rightarrow> int \<times> 'f kv_world" where
  "kv_block_format hal blk_idx w =
     (let pos = u16 (blk_idx * KV_BLOCK_SIZE);
          (er, w1) = kv_flash_erase hal pos KV_BLOCK_SIZE w
      in if er \<noteq> 0 then (KV_ERR_FLASH_ERASE, w1)
         else
           let hdr = \<lparr>bh_magic = KV_BLOCK_MAGIC_NUM, bh_state = KV_BLOCK_STATE_CLEAN\<rparr>;
               (wr, w2) = kv_flash_write hal pos (block_hdr_bytes hdr) w1
           in if wr \<noteq> KV_OK then (KV_ERR_FLASH_WRITE, w2)
              else
                let w3 = set_blk_state blk_idx KV_BLOCK_STATE_CLEAN w2;
                    w4 = set_blk_space blk_idx (KV_BLOCK_SIZE - KV_BLOCK_HDR_SIZE) w3
                in (KV_OK, set_clean_nums (u8 (clean_blk_nums (w_mgr w4) + 1)) w4))"

section \<open>The write position\<close>

text \<open>
  The loop \<open>for (i = blk_idx + 1; i != blk_idx; i++)\<close> with its wrap from
  KV_BLOCK_NUMS to 0 inside the body. None: the loop does not end.
  The inner result is None when the loop ends without a block.
\<close>

partial_function (option) kv_calc_scan ::
  "'f flash_hal \<Rightarrow> nat \<Rightarrow> nat \<Rightarrow> nat \<Rightarrow> nat \<Rightarrow> 'f kv_world
     \<Rightarrow> (nat option \<times> 'f kv_world) option" where
  "kv_calc_scan hal n blk_idx len i0 w =
     (if i0 = blk_idx then Some (None, w)
      else
        let i = (if i0 = n then 0 else i0);
            info = get_info w i
        in if bi_space info > len then
             let w1 = set_write_pos
                        (u16 (i * KV_BLOCK_SIZE + sub_u16 KV_BLOCK_SIZE (bi_space info))) w
             in if bi_state info = KV_BLOCK_STATE_CLEAN then
                  let (ret, w2) = kv_set_block_state hal i KV_BLOCK_STATE_USED w1
                  in if ret \<noteq> KV_OK then Some (Some 0, w2)
                     else
                       let w3 = set_clean_nums (sub_u8 (clean_blk_nums (w_mgr w2)) 1) w2
                       in Some (Some (write_pos (w_mgr w3)), w3)
                else Some (Some (write_pos (w_mgr w1)), w1)
           else kv_calc_scan hal n blk_idx len (u8 (i + 1)) w)"

definition kv_calc_position ::
  "'f flash_hal \<Rightarrow> nat \<Rightarrow> nat \<Rightarrow> 'f kv_world \<Rightarrow> (nat \<times> 'f kv_world) option" where
  "kv_calc_position hal n len w =
     (let blk_idx = u8 (write_pos (w_mgr w) div KV_BLOCK_SIZE);
          sp = bi_space (get_info w blk_idx)
      in if sp > len then
           let w1 = (if sp - len < KV_ITEM_MAX_LEN
                       \<and> clean_blk_nums (w_mgr w) \<le> KV_RESERVED_BLOCKS
                     then kv_trigger_gc w else w)
           in Some (write_pos (w_mgr w1), w1)
         else if n > KV_RESERVED_BLOCKS + 1 then
           do {
             (found, w1) \<leftarrow> kv_calc_scan hal n blk_idx len (u8 (blk_idx + 1)) w;
             (case found of Some pos \<Rightarrow> Some (pos, w1)
              | None \<Rightarrow> Some (0, kv_trigger_gc w1))
           }
         else Some (0, kv_trigger_gc w))"

section \<open>Deleting an item\<close>

text \<open>The common tail of \<open>kv_item_del\<close>: the item at \<open>off\<close> and its block are marked.\<close>

definition kv_item_mark_deleted ::
  "'f flash_hal \<Rightarrow> nat \<Rightarrow> 'f kv_world \<Rightarrow> int \<times> 'f kv_world" where
  "kv_item_mark_deleted hal off w =
     (let (res, w1) = kv_set_item_state hal off KV_ITEM_STATE_DELETE w
      in if res \<noteq> KV_OK then (res, w1)
         else
           let i = u8 (off div KV_BLOCK_SIZE)
           in if bi_state (get_info w1 i) = KV_BLOCK_STATE_USED
              then kv_set_block_state hal i KV_BLOCK_STATE_DIRTY w1
              else (KV_OK, w1))"

definition kv_item_del ::
  "'f flash_hal \<Rightarrow> kv_item \<Rightarrow> int \<Rightarrow> 'f kv_world \<Rightarrow> int \<times> 'f kv_world" where
  "kv_item_del hal item flag w =
     (if flag = KV_DELETE_FLAG then kv_item_mark_deleted hal (it_pos item) w
      else if flag = KV_UPDATE_FLAG then
        let off = ih_origin_off (it_hdr item);
            (r, buf, w1) = kv_flash_read hal off (replicate KV_ITEM_HDR_SIZE 0) w
        in if r \<noteq> KV_OK then (KV_ERR_FLASH_READ, w1)
           else
             let hdr = item_hdr_of buf
             in if ih_magic hdr \<noteq> KV_ITEM_MAGIC_NUM \<or> ih_state hdr \<noteq> KV_ITEM_STATE_NORMAL
                   \<or> ih_key_len hdr \<noteq> ih_key_len (it_hdr item)
                then (KV_OK, w1)
                else
                  let (ok1, w2) = kv_malloc w1
                  in if \<not> ok1 then (KV_ERR_MALLOC_FAILED, w2)
                     else
                       let (ok2, w3) = kv_malloc w2
                       in if \<not> ok2 then (KV_ERR_MALLOC_FAILED, w3)
                          else
                            let (r1, ori, w4) = kv_flash_read hal (off + KV_ITEM_HDR_SIZE)
                                                  (replicate (ih_key_len hdr) 0) w3;
                                (r2, new, w5) = kv_flash_read hal (it_pos item + KV_ITEM_HDR_SIZE)
                                                  (replicate (ih_key_len hdr) 0) w4
                            in if ori \<noteq> new then (KV_OK, w5)
                               else kv_item_mark_deleted hal off w5
      else (KV_ERR_INVALID_PARAM, w))"

section \<open>Callbacks of the traversal\<close>

text \<open>A callback gets the item and the key and returns its code and the item.\<close>

type_synonym 'f item_func =
  "kv_item \<Rightarrow> byte list \<Rightarrow> 'f kv_world \<Rightarrow> int \<times> kv_item \<times> 'f kv_world"

definition item_recovery_cb :: "'f flash_hal \<Rightarrow> 'f item_func" where
  "item_recovery_cb hal item key w =
     (let (ok, w1) = kv_malloc w
      in if \<not> ok then (KV_ERR_MALLOC_FAILED, item, w1)
         else
           let (res, p, w2) = kv_flash_read hal (it_pos item + KV_ITEM_HDR_SIZE)
                                (replicate (it_len item) 0) w1
           in if res \<noteq> KV_OK then (KV_ERR_FLASH_READ, item, w2)
              else if ih_crc (it_hdr item) = calc_crc8 p then
                (if ih_origin_off (it_hdr item) \<noteq> 0
                    \<and> it_pos item \<noteq> ih_origin_off (it_hdr item)
                 then (KV_LOOP_CONTINUE, item, snd (kv_item_del hal item KV_UPDATE_FLAG w2))
                 else (KV_LOOP_CONTINUE, item, w2))
              else (KV_LOOP_CONTINUE, item, snd (kv_item_del hal item KV_DELETE_FLAG w2)))"

definition item_find_cb :: "'f flash_hal \<Rightarrow> 'f item_func" where
  "item_find_cb hal item key w =
     (if ih_key_len (it_hdr item) \<noteq> length key then (KV_LOOP_CONTINUE, item, w)
      else
        let (ok, w1) = kv_malloc w
        in if \<not> ok then (KV_ERR_MALLOC_FAILED, item, w1)
           else
             let (res, buf, w2) = kv_flash_read hal (it_pos item + KV_ITEM_HDR_SIZE)
                                    (replicate (it_len item) 0) w1;
                 item' = item\<lparr>it_store := Some buf\<rparr>
             in if res \<noteq> KV_OK then (KV_ERR_FLASH_READ, item', w2)
                else if take (length key) buf = key then (KV_OK, item', w2)
                else (KV_LOOP_CONTINUE, item', w2))"

definition item_gc_cb :: "'f flash_hal \<Rightarrow> 'f item_func" where
  "item_gc_cb hal item key w =
     (let len = u16 (KV_ALIGN (KV_ITEM_HDR_SIZE + it_len item));
          (ok, w1) = kv_malloc w
      in if \<not> ok then (KV_ERR_MALLOC_FAILED, item, w1)
         else
           let (r, p, w2) = kv_flash_read hal (it_pos item) (replicate len 0) w1
           in if r \<noteq> KV_OK then (KV_ERR_FLASH_READ, item, w2)
              else
                let (wr, w3) = kv_flash_write hal (write_pos (w_mgr w2)) p w2
                in if wr \<noteq> KV_OK then (KV_ERR_FLASH_WRITE, item, w3)
                   else
                     let w4 = set_write_pos (u16 (write_pos (w_mgr w3) + len)) w3;
                         idx = u8 (write_pos (w_mgr w4) div KV_BLOCK_SIZE)
                     in (KV_LOOP_CONTINUE, item,
                         set_blk_space idx (sub_u16 (bi_space (get_info w4 idx)) len) w4))"

text \<open>
  \<open>strncmp(key, prefix, strlen(prefix)) == 0\<close> on the key that was read: the key has no
  terminator of its own within \<open>key_len\<close>, the prefix has none at all.
\<close>

definition item_del_by_prefix_cb :: "'f flash_hal \<Rightarrow> 'f item_func" where
  "item_del_by_prefix_cb hal item prefix w =
     (if ih_key_len (it_hdr item) < length prefix then (KV_LOOP_CONTINUE, item, w)
      else
        let (ok, w1) = kv_malloc w
        in if \<not> ok then (KV_ERR_MALLOC_FAILED, item, w1)
           else
             let (r, key, w2) = kv_flash_read hal (it_pos item + KV_ITEM_HDR_SIZE)
                                  (replicate (ih_key_len (it_hdr item)) 0) w1
             in if take (length prefix) key = prefix
                then (KV_LOOP_CONTINUE, item, snd (kv_item_del hal item KV_DELETE_FLAG w2))
                else (KV_LOOP_CONTINUE, item, w2))"

section \<open>Traversal of a block\<close>

text \<open>The first address after the block, as a \<open>kv_size_t\<close>.\<close>

definition blk_end :: "nat \<Rightarrow> nat" where
  "blk_end blk_idx = u16 (blk_idx * KV_BLOCK_SIZE + KV_BLOCK_SIZE)"

definition traverse_finish :: "nat \<Rightarrow> nat \<Rightarrow> 'f kv_world \<Rightarrow> 'f kv_world" where
  "traverse_finish blk_idx pos w =
     (if blk_end blk_idx > pos then set_blk_space blk_idx (blk_end blk_idx - pos) w
      else set_blk_space blk_idx KV_ITEM_HDR_SIZE w)"

definition mark_used_dirty :: "'f flash_hal \<Rightarrow> nat \<Rightarrow> 'f kv_world \<Rightarrow> 'f kv_world" where
  "mark_used_dirty hal blk_idx w =
     (if bi_state (get_info w blk_idx) = KV_BLOCK_STATE_USED
      then snd (kv_set_block_state hal blk_idx KV_BLOCK_STATE_DIRTY w) else w)"

text \<open>
  One pass of the loop body: the traversal ends with a result (\<open>Inl\<close>, where the flag
  says whether the loop was left by \<open>break\<close>) or goes on at a new position (\<open>Inr\<close>).
\<close>

definition traverse_step ::
  "'f flash_hal \<Rightarrow> 'f item_func \<Rightarrow> nat \<Rightarrow> byte list \<Rightarrow> nat \<Rightarrow> 'f kv_world
     \<Rightarrow> ((kv_item option \<times> bool) + nat) \<times> 'f kv_world" where
  "traverse_step hal func blk_idx key pos w =
     (let (ok, w1) = kv_malloc w
      in if \<not> ok then (Inl (None, False), w1)
         else
           let (r, buf, w2) = kv_flash_read hal pos (replicate KV_ITEM_HDR_SIZE 0) w1
           in if r \<noteq> KV_OK then (Inl (None, False), w2)
              else
                let h0 = item_hdr_of buf
                in if ih_magic h0 \<noteq> KV_ITEM_MAGIC_NUM \<and> ih_magic h0 = 0xFF \<and> ih_state h0 = 0xFF
                   then (Inl (None, True), w2)
                   else
                     let hdr = (if ih_magic h0 \<noteq> KV_ITEM_MAGIC_NUM
                                then h0\<lparr>ih_val_len := 0xFFFF\<rparr> else h0)
                     in if ih_val_len hdr > KV_MAX_VAL_LEN \<or> ih_key_len hdr > KV_MAX_KEY_LEN
                           \<or> ih_val_len hdr = 0 \<or> ih_key_len hdr = 0
                        then (Inr (u16 (pos + KV_ITEM_HDR_SIZE)), mark_used_dirty hal blk_idx w2)
                        else
                          let len = u16 (KV_ALIGN (KV_ITEM_HDR_SIZE + ih_key_len hdr + ih_val_len hdr))
                          in if ih_state hdr = KV_ITEM_STATE_NORMAL then
                               let item = \<lparr>it_hdr = hdr, it_store = None,
                                           it_len = ih_key_len hdr + ih_val_len hdr,
                                           it_pos = pos\<rparr>;
                                   (res, item', w3) = func item key w2
                               in if res = KV_OK then (Inl (Some item', False), w3)
                                  else if res \<noteq> KV_LOOP_CONTINUE then (Inl (None, False), w3)
                                  else (Inr (u16 (pos + len)), w3)
                             else (Inr (u16 (pos + len)), mark_used_dirty hal blk_idx w2))"

text \<open>
  The loop is a do-while: the condition \<open>end > pos + KV_ITEM_HDR_SIZE\<close> is tested
  after each pass, also after a \<open>continue\<close>.
\<close>

lemma traverse_step_advance:
  assumes "traverse_step hal func blk_idx key pos w = (Inr pos', w')"
  shows "\<exists>d. 8 \<le> d \<and> d \<le> 648 \<and> pos' = u16 (pos + d)"
proof -
  have len: "8 \<le> u16 (KV_ALIGN (8 + k + v)) \<and> u16 (KV_ALIGN (8 + k + v)) \<le> 648"
    if "k \<le> 128" "v \<le> 512" for k v
  proof -
    have "(11 + (k + v)) div 4 * 4 \<le> 648" "8 \<le> (11 + (k + v)) div 4 * 4"
      using that by presburger+
    then show ?thesis by (simp add: KV_ALIGN_def)
  qed
  have "pos' = u16 (pos + 8) \<or>
    (\<exists>k v. k \<le> 128 \<and> v \<le> 512 \<and> pos' = u16 (pos + u16 (KV_ALIGN (8 + k + v))))"
    using assms unfolding traverse_step_def
    by (auto simp: Let_def not_less split: prod.splits if_splits)
  then show ?thesis
    using len by (metis le_refl numeral_le_iff semiring_norm(68) semiring_norm(69)
        semiring_norm(71))
qed

lemma blk_end_eq: "blk_end blk_idx = 4096 * ((blk_idx + 1) mod 16)"
proof -
  have "blk_idx * 4096 + 4096 = 4096 * (blk_idx + 1)" and "(65536::nat) = 4096 * 16"
    by simp_all
  then show ?thesis
    by (simp only: blk_end_def u16_def mod_mult_mult1)
qed

lemma blk_end_le: "blk_end blk_idx \<le> 61440"
proof -
  have "(blk_idx + 1) mod 16 \<le> 15" by (simp add: less_Suc_eq_le [symmetric])
  then show ?thesis by (simp add: blk_end_eq)
qed

function kv_traverse_loop ::
  "'f flash_hal \<Rightarrow> 'f item_func \<Rightarrow> nat \<Rightarrow> byte list \<Rightarrow> nat \<Rightarrow> 'f kv_world
     \<Rightarrow> kv_item option \<times> 'f kv_world" where
  "kv_traverse_loop hal func blk_idx key pos w =
     (case traverse_step hal func blk_idx key pos w of
        (Inl (res, brk), w1) \<Rightarrow>
          (if brk then (None, traverse_finish blk_idx pos w1) else (res, w1))
      | (Inr pos', w1) \<Rightarrow>
          (if blk_end blk_idx > pos' + KV_ITEM_HDR_SIZE
           then kv_traverse_loop hal func blk_idx key pos' w1
           else (None, traverse_finish blk_idx pos' w1)))"
  by pat_completeness auto
termination
proof (relation "measure (\<lambda>(hal, func, blk_idx, key, pos, w).
    if pos + 8 < blk_end blk_idx then 65536 - pos else 65537)", goal_cases)
  case 1
  show ?case by simp
next
  case (2 hal func blk_idx key pos w x y pos')
  then have "traverse_step hal func blk_idx key pos w = (Inr pos', y)" by simp
  from traverse_step_advance [OF this] obtain d
    where d: "8 \<le> d" "d \<le> 648" "pos' = u16 (pos + d)" by blast
  have e: "blk_end blk_idx \<le> 61440" by (rule blk_end_le)
  from 2 have g: "pos' + 8 < blk_end blk_idx" by simp
  show ?case
  proof (cases "pos + 8 < blk_end blk_idx")
    case True
    then have "pos' = pos + d" using d e by simp
    with True g d e show ?thesis by simp
  next
    case False
    with g show ?thesis by simp
  qed
qed

declare kv_traverse_loop.simps [simp del]

definition kv_item_traverse ::
  "'f flash_hal \<Rightarrow> 'f item_func \<Rightarrow> nat \<Rightarrow> byte list \<Rightarrow> 'f kv_world
     \<Rightarrow> kv_item option \<times> 'f kv_world" where
  "kv_item_traverse hal func blk_idx key w =
     kv_traverse_loop hal func blk_idx key
       (u16 (blk_idx * KV_BLOCK_SIZE + KV_BLOCK_HDR_SIZE)) w"

end
