(* ===== verification/Kv_Api.thy ===== *)
theory Kv_Api
  imports Kv_Ops
begin

text \<open>
  Search, store, update, start-up, the garbage collection task and the public
  interface of components/kv/kv.c. NULL pointers of the public functions are None.
  The setters that find \<open>gc_trigger\<close> set wait on the semaphore that the GC task posts,
  so the pending GC task runs before they go on.
\<close>

section \<open>Search and store\<close>

fun kv_search_from ::
  "'f flash_hal \<Rightarrow> nat list \<Rightarrow> byte list \<Rightarrow> 'f kv_world \<Rightarrow> kv_item option \<times> 'f kv_world" where
  "kv_search_from hal [] key w = (None, w)"
| "kv_search_from hal (i # is) key w =
     (if bi_state (get_info w i) \<noteq> KV_BLOCK_STATE_CLEAN then
        (case kv_item_traverse hal (item_find_cb hal) i key w of
           (Some item, w1) \<Rightarrow> (Some item, w1)
         | (None, w1) \<Rightarrow> kv_search_from hal is key w1)
      else kv_search_from hal is key w)"

definition kv_item_search ::
  "'f flash_hal \<Rightarrow> nat \<Rightarrow> byte list \<Rightarrow> 'f kv_world \<Rightarrow> kv_item option \<times> 'f kv_world" where
  "kv_item_search hal n key w = kv_search_from hal [0..<n] key w"

text \<open>The bytes of a new item: header, key, value, zeros up to the aligned length.\<close>

definition item_image :: "byte list \<Rightarrow> byte list \<Rightarrow> nat \<Rightarrow> nat \<Rightarrow> byte list" where
  "item_image key val len origin_off =
     (let klen = u8 (length key);
          vlen = u16 len;
          body = take klen key @ take vlen val;
          slen = u16 (KV_ALIGN (KV_ITEM_HDR_SIZE + klen + vlen));
          hdr = \<lparr>ih_magic = KV_ITEM_MAGIC_NUM, ih_state = KV_ITEM_STATE_NORMAL,
                 ih_crc = calc_crc8 body, ih_key_len = klen, ih_val_len = vlen,
                 ih_origin_off = origin_off\<rparr>
      in item_hdr_bytes hdr @ body @ replicate (slen - KV_ITEM_HDR_SIZE - length body) 0)"

definition kv_item_store ::
  "'f flash_hal \<Rightarrow> nat \<Rightarrow> byte list \<Rightarrow> byte list \<Rightarrow> nat \<Rightarrow> nat \<Rightarrow> 'f kv_world
     \<Rightarrow> (int \<times> 'f kv_world) option" where
  "kv_item_store hal n key val len origin_off w =
     (let slen = u16 (KV_ALIGN (KV_ITEM_HDR_SIZE + u8 (length key) + u16 len));
          (ok, w1) = kv_malloc w
      in if \<not> ok then Some (KV_ERR_MALLOC_FAILED, w1)
         else do {
           (pos, w2) \<leftarrow> kv_calc_position hal n slen w1;
           if pos > 0 then
             let (res, w3) = kv_flash_write hal pos (item_image key val len origin_off) w2
             in if res = KV_OK then
                  let w4 = set_write_pos (u16 (pos + slen)) w3;
                      idx = u8 (write_pos (w_mgr w4) div KV_BLOCK_SIZE)
                  in Some (res, set_blk_space idx (sub_u16 (bi_space (get_info w4 idx)) slen) w4)
                else Some (res, w3)
           else Some (KV_ERR_NO_SPACE, w2)
         })"

text \<open>\<open>item->store + key_len\<close> of an item found by the search.\<close>

definition item_val :: "kv_item \<Rightarrow> byte list" where
  "item_val item = (case it_store item of None \<Rightarrow> []
     | Some s \<Rightarrow> take (ih_val_len (it_hdr item)) (drop (ih_key_len (it_hdr item)) s))"

definition kv_item_update ::
  "'f flash_hal \<Rightarrow> nat \<Rightarrow> kv_item \<Rightarrow> byte list \<Rightarrow> byte list \<Rightarrow> nat \<Rightarrow> 'f kv_world
     \<Rightarrow> (int \<times> 'f kv_world) option" where
  "kv_item_update hal n item key val len w =
     (if ih_val_len (it_hdr item) = len \<and> item_val item = take len val then Some (KV_OK, w)
      else do {
        (res, w1) \<leftarrow> kv_item_store hal n key val len (it_pos item) w;
        if res \<noteq> KV_OK then Some (res, w1)
        else Some (kv_item_del hal item KV_DELETE_FLAG w1)
      })"

section \<open>Start-up\<close>

text \<open>
  The scan over all blocks; the unclean blocks are collected with the last one in
  front, the order in which the code takes them back.
\<close>

fun kv_init_scan ::
  "'f flash_hal \<Rightarrow> nat list \<Rightarrow> nat list \<Rightarrow> 'f kv_world \<Rightarrow> int \<times> nat list \<times> 'f kv_world" where
  "kv_init_scan hal [] unclean w = (KV_OK, unclean, w)"
| "kv_init_scan hal (i # is) unclean w =
     (let (r, buf, w1) = kv_flash_read hal (i * KV_BLOCK_SIZE) (replicate KV_BLOCK_HDR_SIZE 0) w;
          hdr = block_hdr_of buf
      in if bh_magic hdr = KV_BLOCK_MAGIC_NUM then
           if INVALID_BLK_STATE (bh_state hdr) then
             (let (res, w2) = kv_block_format hal i w1
              in if res \<noteq> KV_OK then (res, unclean, w2) else kv_init_scan hal is unclean w2)
           else
             let w2 = set_blk_state i (bh_state hdr) w1;
                 w3 = snd (kv_item_traverse hal (item_recovery_cb hal) i [] w2)
             in if bh_state hdr = KV_BLOCK_STATE_CLEAN then
                  if bi_space (get_info w3 i) \<noteq> KV_BLOCK_SIZE - KV_BLOCK_HDR_SIZE
                  then kv_init_scan hal is (i # unclean) w3
                  else kv_init_scan hal is unclean
                         (set_clean_nums (u8 (clean_blk_nums (w_mgr w3) + 1)) w3)
                else kv_init_scan hal is unclean w3
         else
           let (res, w2) = kv_block_format hal i w1
           in if res \<noteq> KV_OK then (res, unclean, w2) else kv_init_scan hal is unclean w2)"

fun kv_init_unclean ::
  "'f flash_hal \<Rightarrow> nat list \<Rightarrow> 'f kv_world \<Rightarrow> int \<times> 'f kv_world" where
  "kv_init_unclean hal [] w = (KV_OK, w)"
| "kv_init_unclean hal (i # is) w =
     (let (res, w1) = (if clean_blk_nums (w_mgr w) \<ge> KV_RESERVED_BLOCKS
                       then kv_set_block_state hal i KV_BLOCK_STATE_DIRTY w
                       else kv_block_format hal i w)
      in if res \<noteq> KV_OK then (res, w1) else kv_init_unclean hal is w1)"

text \<open>The first used or dirty block that is followed by a clean one is written next.\<close>

fun kv_init_write_pos :: "nat \<Rightarrow> nat list \<Rightarrow> 'f kv_world \<Rightarrow> 'f kv_world" where
  "kv_init_write_pos n [] w = w"
| "kv_init_write_pos n (i # is) w =
     (let next_i = (if i + 1 = n then 0 else i + 1)
      in if (bi_state (get_info w i) = KV_BLOCK_STATE_USED
             \<or> bi_state (get_info w i) = KV_BLOCK_STATE_DIRTY)
            \<and> bi_state (get_info w next_i) = KV_BLOCK_STATE_CLEAN
         then set_write_pos
                (u16 (i * KV_BLOCK_SIZE + sub_u16 KV_BLOCK_SIZE (bi_space (get_info w i)))) w
         else kv_init_write_pos n is w)"

definition kv_init_internal ::
  "'f flash_hal \<Rightarrow> nat \<Rightarrow> 'f kv_world \<Rightarrow> int \<times> 'f kv_world" where
  "kv_init_internal hal n w =
     (let (res, unclean, w1) = kv_init_scan hal [0..<n] [] w
      in if res \<noteq> KV_OK then (res, w1)
         else
           let (res2, w2) = kv_init_unclean hal unclean w1
           in if res2 \<noteq> KV_OK then (res2, w2)
              else
                let (res3, w3) = (if clean_blk_nums (w_mgr w2) = 0
                                  then kv_block_format hal 0 w2 else (KV_OK, w2))
                in if res3 \<noteq> KV_OK then (res3, w3)
                   else if clean_blk_nums (w_mgr w3) = n then
                     let w4 = set_write_pos KV_BLOCK_HDR_SIZE w3;
                         i = u8 (write_pos (w_mgr w4) div KV_BLOCK_SIZE * KV_BLOCK_SIZE);
                         (res4, w5) = kv_set_block_state hal i KV_BLOCK_STATE_USED w4
                     in if res4 \<noteq> KV_OK then (res4, w5)
                        else (KV_OK, set_clean_nums (sub_u8 (clean_blk_nums (w_mgr w5)) 1) w5)
                   else (KV_OK, kv_init_write_pos n [0..<n] w3))"

section \<open>The garbage collection task\<close>

text \<open>The loop over the blocks from the one after \<open>origin_pos\<close>: the result says whether a
  block was copied, and the early exit when formatting failed is the flag of \<open>Inl\<close>.\<close>

partial_function (option) kv_gc_scan ::
  "'f flash_hal \<Rightarrow> nat \<Rightarrow> nat \<Rightarrow> nat \<Rightarrow> nat \<Rightarrow> 'f kv_world \<Rightarrow> ((unit + bool) \<times> 'f kv_world) option"
  where
  "kv_gc_scan hal n gc_idx org_blk i0 w =
     (let i = (if i0 = n then 0 else i0)
      in if bi_state (get_info w i) = KV_BLOCK_STATE_DIRTY then
           let w1 = snd (kv_item_traverse hal (item_gc_cb hal) i [] w);
               (res, w2) = kv_block_format hal i w1
           in if res \<noteq> KV_OK then Some (Inl (), w2)
              else
                let w3 = snd (kv_set_block_state hal gc_idx KV_BLOCK_STATE_USED w2)
                in Some (Inr True, set_clean_nums (sub_u8 (clean_blk_nums (w_mgr w3)) 1) w3)
         else if i = org_blk then Some (Inr False, w)
         else kv_gc_scan hal n gc_idx org_blk (u8 (i + 1)) w)"

text \<open>The label \<open>exit\<close>.\<close>

definition kv_gc_exit :: "'f kv_world \<Rightarrow> 'f kv_world" where
  "kv_gc_exit w = kv_unlock (upd_mgr (\<lambda>m. m\<lparr>gc_trigger := False\<rparr>) w)"

definition first_clean :: "nat \<Rightarrow> 'f kv_world \<Rightarrow> nat option" where
  "first_clean n w = find (\<lambda>i. bi_state (get_info w i) = KV_BLOCK_STATE_CLEAN) [0..<n]"

definition kv_gc_task :: "'f flash_hal \<Rightarrow> nat \<Rightarrow> 'f kv_world \<Rightarrow> 'f kv_world option" where
  "kv_gc_task hal n w0 = do {
     (res, w) \<leftarrow> kv_lock w0;
     if res \<noteq> KV_OK then Some (kv_gc_exit w)
     else
       let origin_pos = write_pos (w_mgr w)
       in if clean_blk_nums (w_mgr w) = 0 then Some (kv_gc_exit w)
          else
            (case first_clean n w of
               None \<Rightarrow> Some (kv_gc_exit w)
             | Some gc_idx \<Rightarrow> do {
                 (r, w2) \<leftarrow> kv_gc_scan hal n gc_idx (origin_pos div KV_BLOCK_SIZE)
                              (u8 (origin_pos div KV_BLOCK_SIZE + 1))
                              (set_write_pos (u16 (gc_idx * KV_BLOCK_SIZE + KV_BLOCK_HDR_SIZE)) w);
                 (case r of
                    Inl _ \<Rightarrow> Some (kv_gc_exit w2)
                  | Inr gc_copy \<Rightarrow>
                      Some (kv_gc_exit (if gc_copy then w2 else set_write_pos origin_pos w2)))
               })
   }"

text \<open>The scheduler runs a GC task that was started.\<close>

definition run_gc :: "'f flash_hal \<Rightarrow> nat \<Rightarrow> 'f kv_world \<Rightarrow> 'f kv_world option" where
  "run_gc hal n w =
     (if w_gc_tasks w = 0 then None
      else kv_gc_task hal n (w\<lparr>w_gc_tasks := w_gc_tasks w - 1\<rparr>))"

section \<open>Public interface\<close>

text \<open>The platform may fail to create the mutex or the semaphore.\<close>

definition kv_init ::
  "'f flash_hal \<Rightarrow> nat \<Rightarrow> bool \<Rightarrow> bool \<Rightarrow> 'f kv_world \<Rightarrow> int \<times> 'f kv_world" where
  "kv_init hal n lock_ok sem_ok w =
     (if inited (w_mgr w) then (KV_OK, w)
      else if n \<le> KV_RESERVED_BLOCKS then (KV_ERR_INVALID_PARAM, w)
      else
        let w1 = w\<lparr>w_mgr := \<lparr>inited = False, gc_trigger = False, gc_waiter = 0,
                     clean_blk_nums = 0, write_pos = 0,
                     block_infos = replicate n \<lparr>bi_space = 0, bi_state = 0\<rparr>\<rparr>, w_lock := False\<rparr>
        in if \<not> lock_ok then (KV_ERR_OS_LOCK, w1)
           else if \<not> sem_ok then (KV_ERR_OS_SEM, w1)
           else
             let (res, w2) = kv_init_internal hal n w1
             in if res \<noteq> KV_OK then (res, w2)
                else
                  let w3 = upd_mgr (\<lambda>m. m\<lparr>inited := True\<rparr>) w2;
                      blk_idx = u8 (write_pos (w_mgr w3) div KV_BLOCK_SIZE)
                  in if bi_space (get_info w3 blk_idx) < KV_ITEM_MAX_LEN
                        \<and> clean_blk_nums (w_mgr w3) < KV_RESERVED_BLOCKS + 1
                     then (KV_OK, kv_trigger_gc w3) else (KV_OK, w3))"

definition kv_deinit :: "'f kv_world \<Rightarrow> 'f kv_world" where
  "kv_deinit w = upd_mgr (\<lambda>m. m\<lparr>inited := False\<rparr>) w"

text \<open>The wait of the setters: a waiter is counted, then the GC task runs and posts.\<close>

definition kv_wait_gc :: "'f flash_hal \<Rightarrow> nat \<Rightarrow> 'f kv_world \<Rightarrow> 'f kv_world option" where
  "kv_wait_gc hal n w =
     (if gc_trigger (w_mgr w)
      then run_gc hal n (upd_mgr (\<lambda>m. m\<lparr>gc_waiter := u8 (gc_waiter m + 1)\<rparr>) w)
      else Some w)"

text \<open>What a setter does with the mutex held: update the item or store a new one.\<close>

definition kv_set_locked ::
  "'f flash_hal \<Rightarrow> nat \<Rightarrow> byte list \<Rightarrow> byte list \<Rightarrow> nat \<Rightarrow> 'f kv_world
     \<Rightarrow> (int \<times> 'f kv_world) option" where
  "kv_set_locked hal n key val len w =
     (case kv_item_search hal n key w of
        (Some item, w1) \<Rightarrow> kv_item_update hal n item key val len w1
      | (None, w1) \<Rightarrow> kv_item_store hal n key val len 0 w1)"

definition set_params_bad :: "byte list option \<Rightarrow> byte list option \<Rightarrow> int \<Rightarrow> bool" where
  "set_params_bad key val len \<longleftrightarrow>
     key = None \<or> val = None \<or> len \<le> 0 \<or> length (the key) > KV_MAX_KEY_LEN
     \<or> len > int KV_MAX_VAL_LEN"

definition kv_item_set ::
  "'f flash_hal \<Rightarrow> nat \<Rightarrow> byte list option \<Rightarrow> byte list option \<Rightarrow> int \<Rightarrow> 'f kv_world
     \<Rightarrow> (int \<times> 'f kv_world) option" where
  "kv_item_set hal n key val len w =
     (if set_params_bad key val len then Some (KV_ERR_INVALID_PARAM, w)
      else do {
        w1 \<leftarrow> kv_wait_gc hal n w;
        (l, w2) \<leftarrow> kv_lock w1;
        if l \<noteq> KV_OK then Some (KV_ERR_OS_LOCK, w2)
        else do {
          (res, w3) \<leftarrow> kv_set_locked hal n (the key) (the val) (nat len) w2;
          Some (res, kv_unlock w3)
        }
      })"

text \<open>A getter returns its code, the value it copied (None: the buffer is untouched) and
  the new \<open>*buffer_len\<close>.\<close>

definition kv_item_get ::
  "'f flash_hal \<Rightarrow> nat \<Rightarrow> byte list option \<Rightarrow> int option \<Rightarrow> 'f kv_world
     \<Rightarrow> (int \<times> byte list option \<times> int option \<times> 'f kv_world) option" where
  "kv_item_get hal n key buffer_len w =
     (case (key, buffer_len) of
        (Some k, Some bl) \<Rightarrow>
          if bl \<le> 0 then Some (KV_ERR_INVALID_PARAM, None, buffer_len, w)
          else do {
            (l, w1) \<leftarrow> kv_lock w;
            if l \<noteq> KV_OK then Some (KV_ERR_OS_LOCK, None, buffer_len, w1)
            else
              let (found, w2) = kv_item_search hal n k w1;
                  w3 = kv_unlock w2
              in (case found of
                    None \<Rightarrow> Some (KV_ERR_NOT_FOUND, None, buffer_len, w3)
                  | Some item \<Rightarrow>
                      let vl = int (ih_val_len (it_hdr item))
                      in if bl < vl then Some (KV_ERR_NO_SPACE, None, Some vl, w3)
                         else Some (KV_OK, Some (item_val item), Some vl, w3))
          }
      | _ \<Rightarrow> Some (KV_ERR_INVALID_PARAM, None, buffer_len, w))"

definition kv_item_delete ::
  "'f flash_hal \<Rightarrow> nat \<Rightarrow> byte list \<Rightarrow> 'f kv_world \<Rightarrow> (int \<times> 'f kv_world) option" where
  "kv_item_delete hal n key w = do {
     (l, w1) \<leftarrow> kv_lock w;
     if l \<noteq> KV_OK then Some (KV_ERR_OS_LOCK, w1)
     else
       (case kv_item_search hal n key w1 of
          (None, w2) \<Rightarrow> Some (KV_ERR_NOT_FOUND, kv_unlock w2)
        | (Some item, w2) \<Rightarrow>
            let (res, w3) = kv_item_del hal item KV_DELETE_FLAG w2
            in Some (res, kv_unlock w3))
   }"

definition kv_item_delete_by_prefix ::
  "'f flash_hal \<Rightarrow> nat \<Rightarrow> byte list \<Rightarrow> 'f kv_world \<Rightarrow> (int \<times> 'f kv_world) option" where
  "kv_item_delete_by_prefix hal n prefix w = do {
     (l, w1) \<leftarrow> kv_lock w;
     if l \<noteq> KV_OK then Some (KV_ERR_OS_LOCK, w1)
     else Some (KV_OK, kv_unlock
            (fold (\<lambda>i u. snd (kv_item_traverse hal (item_del_by_prefix_cb hal) i prefix u)) [0..<n] w1))
   }"

section \<open>The encrypting variants\<close>

text \<open>
  With KV_SECURE_SUPPORT the value is encrypted by \<open>kv_secure_encrypt\<close>, whose key comes
  from the product and is a parameter: a function that may fail. Two exits of
  \<open>kv_item_secure_set\<close> return with the mutex held.
\<close>

definition kv_item_secure_set ::
  "'f flash_hal \<Rightarrow> nat \<Rightarrow> (byte list \<Rightarrow> byte list option) \<Rightarrow> byte list option \<Rightarrow> byte list option
     \<Rightarrow> int \<Rightarrow> 'f kv_world \<Rightarrow> (int \<times> 'f kv_world) option" where
  "kv_item_secure_set hal n encrypt key val len w =
     (if set_params_bad key val len then Some (KV_ERR_INVALID_PARAM, w)
      else do {
        w1 \<leftarrow> kv_wait_gc hal n w;
        (l, w2) \<leftarrow> kv_lock w1;
        if l \<noteq> KV_OK then Some (KV_ERR_OS_LOCK, w2)
        else
          let (ok, w3) = kv_malloc w2
          in if \<not> ok then Some (KV_ERR_NO_SPACE, w3)
             else
               (case encrypt (take (nat len) (the val)) of
                  None \<Rightarrow> Some (KV_ERR_ENCRYPT, w3)
                | Some data \<Rightarrow> do {
                    (res, w4) \<leftarrow> kv_set_locked hal n (the key) data (nat len) w3;
                    Some (res, kv_unlock w4)
                  })
      })"

definition kv_item_secure_get ::
  "'f flash_hal \<Rightarrow> nat \<Rightarrow> (byte list \<Rightarrow> byte list option) \<Rightarrow> byte list option \<Rightarrow> int option
     \<Rightarrow> 'f kv_world \<Rightarrow> (int \<times> byte list option \<times> int option \<times> 'f kv_world) option" where
  "kv_item_secure_get hal n decrypt key buffer_len w =
     (case (key, buffer_len) of
        (Some k, Some bl) \<Rightarrow>
          if bl \<le> 0 then Some (KV_ERR_INVALID_PARAM, None, buffer_len, w)
          else do {
            (l, w1) \<leftarrow> kv_lock w;
            if l \<noteq> KV_OK then Some (KV_ERR_OS_LOCK, None, buffer_len, w1)
            else
              let (found, w2) = kv_item_search hal n k w1;
                  w3 = kv_unlock w2
              in (case found of
                    None \<Rightarrow> Some (KV_ERR_NOT_FOUND, None, buffer_len, w3)
                  | Some item \<Rightarrow>
                      let vl = int (ih_val_len (it_hdr item))
                      in if bl < vl then Some (KV_ERR_NO_SPACE, None, Some vl, w3)
                         else
                           let (ok, w4) = kv_malloc w3
                           in if \<not> ok then Some (KV_ERR_NO_SPACE, None, buffer_len, w4)
                              else
                                (case decrypt (item_val item) of
                                   None \<Rightarrow> Some (KV_ERR_DECRYPT, None, buffer_len, w4)
                                 | Some data \<Rightarrow> Some (KV_OK, Some data, Some vl, w4)))
          }
      | _ \<Rightarrow> Some (KV_ERR_INVALID_PARAM, None, buffer_len, w))"

end
