(* ===== verification/Kv_Flash.thy ===== *)
theory Kv_Flash
  imports Kv_Api
begin

text \<open>
  The interface of the flash driver that kv.c relies on, as a locale: reads return
  the contents, a write clears bits (NOR flash: a byte becomes the conjunction of its
  old and new value), erasing a block sets all its bits. It is interpreted by a
  device that is a function from addresses to bytes.
\<close>

definition put_nor :: "(nat \<Rightarrow> byte) \<Rightarrow> nat \<Rightarrow> byte list \<Rightarrow> nat \<Rightarrow> byte" where
  "put_nor m off bs =
     (\<lambda>a. if off \<le> a \<and> a < off + length bs then m a AND bs ! (a - off) else m a)"

definition erase_range :: "(nat \<Rightarrow> byte) \<Rightarrow> nat \<Rightarrow> nat \<Rightarrow> nat \<Rightarrow> byte" where
  "erase_range m off sz = (\<lambda>a. if off \<le> a \<and> a < off + sz then 0xFF else m a)"

locale flash_dev =
  fixes hal :: "'f flash_hal"
    and mem :: "'f \<Rightarrow> nat \<Rightarrow> byte"
    and size_of :: nat
  assumes dev_read: "off + length buf \<le> size_of \<Longrightarrow>
      \<exists>f'. hal_read hal f off buf = (f', 0, get_range (mem f) off (length buf)) \<and> mem f' = mem f"
    and dev_write: "off + length bs \<le> size_of \<Longrightarrow>
      \<exists>f'. hal_write hal f off bs = (f', 0) \<and> mem f' = put_nor (mem f) off bs"
    and dev_erase: "off mod KV_BLOCK_SIZE = 0 \<Longrightarrow> off + KV_BLOCK_SIZE \<le> size_of \<Longrightarrow>
      \<exists>f'. hal_erase hal f off KV_BLOCK_SIZE = (f', 0)
        \<and> mem f' = erase_range (mem f) off KV_BLOCK_SIZE"
begin

lemma flash_read:
  assumes "off + length buf \<le> size_of"
  shows "\<exists>f'. kv_flash_read hal off buf w
      = (0, get_range (mem (w_flash w)) off (length buf), w\<lparr>w_flash := f'\<rparr>)
    \<and> mem f' = mem (w_flash w)"
  using dev_read [OF assms, of "w_flash w"] by (auto simp: kv_flash_read_def)

lemma flash_write:
  assumes "off + length bs \<le> size_of"
  shows "\<exists>f'. kv_flash_write hal off bs w = (0, w\<lparr>w_flash := f'\<rparr>)
    \<and> mem f' = put_nor (mem (w_flash w)) off bs"
  using dev_write [OF assms, of "w_flash w"] by (auto simp: kv_flash_write_def)

lemma flash_erase:
  assumes "off mod KV_BLOCK_SIZE = 0" "off + KV_BLOCK_SIZE \<le> size_of"
  shows "\<exists>f'. kv_flash_erase hal off KV_BLOCK_SIZE w = (0, w\<lparr>w_flash := f'\<rparr>)
    \<and> mem f' = erase_range (mem (w_flash w)) off KV_BLOCK_SIZE"
  using dev_erase [OF assms, of "w_flash w"] by (auto simp: kv_flash_erase_def)

end

section \<open>A device that keeps the promise\<close>

definition nor_hal :: "nat \<Rightarrow> (nat \<Rightarrow> byte) flash_hal" where
  "nor_hal sz =
     \<lparr>hal_read = (\<lambda>f off buf. if off + length buf \<le> sz
                   then (f, 0, get_range f off (length buf)) else (f, -1, buf)),
      hal_write = (\<lambda>f off bs. if off + length bs \<le> sz
                   then (put_nor f off bs, 0) else (f, -1)),
      hal_erase = (\<lambda>f off len. if off + len \<le> sz
                   then (erase_range f off len, 0) else (f, -1))\<rparr>"

interpretation nor: flash_dev "nor_hal sz" "\<lambda>f. f" sz
  by unfold_locales (auto simp: nor_hal_def)

section \<open>Writing to NOR flash\<close>

lemma put_nor_erased:
  assumes "\<And>a. off \<le> a \<Longrightarrow> a < off + length bs \<Longrightarrow> m a = 0xFF"
  shows "put_nor m off bs = put m off bs"
proof -
  have ff: "(0xFF :: byte) = mask 8" by (simp add: mask_eq_exp_minus_1)
  show ?thesis
    using assms by (auto simp: put_nor_def put_def fun_eq_iff ff
        simp del: mask_eq_exp_minus_1 intro!: bit_word_eqI simp: bit_and_iff bit_mask_iff)
qed

text \<open>
  The state bytes are chosen so that each transition only clears bits; that is what
  makes them writable without erasing.
\<close>

lemma state_transitions_clear_bits:
  "KV_BLOCK_STATE_CLEAN AND KV_BLOCK_STATE_USED = KV_BLOCK_STATE_USED"
  "KV_BLOCK_STATE_USED AND KV_BLOCK_STATE_DIRTY = KV_BLOCK_STATE_DIRTY"
  "KV_BLOCK_STATE_CLEAN AND KV_BLOCK_STATE_DIRTY = KV_BLOCK_STATE_DIRTY"
  "KV_ITEM_STATE_NORMAL AND KV_ITEM_STATE_DELETE = KV_ITEM_STATE_DELETE"
  by simp_all

end
