(* ===== verification/Crc.thy ===== *)
theory Crc
  imports Prelude
begin

text \<open>
  Cyclic redundancy checks over words of any width: the division register that
  shifts the message in at the low end (the augmented form, the polynomial
  division of the message followed by as many zeros as the register has bits),
  the register that feeds the message in at the high end, their equivalence, and
  that both are linear. The CRC-8 of the key-value store and the CRC-16 of the
  YMODEM receiver are instances.
\<close>

section \<open>The two registers\<close>

text \<open>One step of the division with a zero shifted in.\<close>

definition crc_shift :: "'a::len word \<Rightarrow> 'a word \<Rightarrow> 'a word" where
  "crc_shift p r = push_bit 1 r XOR (if bit r (LENGTH('a) - 1) then p else 0)"

definition crc_serial :: "'a::len word \<Rightarrow> 'a word \<Rightarrow> bool \<Rightarrow> 'a word" where
  "crc_serial p r b = crc_shift p r XOR (if b then 1 else 0)"

definition crc_direct :: "'a::len word \<Rightarrow> 'a word \<Rightarrow> bool \<Rightarrow> 'a word" where
  "crc_direct p r b = crc_shift p r XOR (if b then p else 0)"

lemma bit_crc_shift:
  assumes "n < LENGTH('a)"
  shows "bit (crc_shift (p :: 'a::len word) r) n
    \<longleftrightarrow> (0 < n \<and> bit r (n - 1)) \<noteq> (bit r (LENGTH('a) - 1) \<and> bit p n)"
proof -
  have "bit (push_bit 1 r) n \<longleftrightarrow> 0 < n \<and> bit r (n - 1)"
    using assms by (simp only: bit_push_bit_iff) (auto simp: Suc_le_eq)
  then show ?thesis
    by (simp add: crc_shift_def bit_xor_iff del: push_bit_Suc push_bit_of_1 One_nat_def)
qed

lemma crc_shift_0 [simp]: "crc_shift p 0 = 0"
  by (simp add: crc_shift_def)

lemma crc_shift_xor: "crc_shift p (a XOR b) = crc_shift p a XOR crc_shift p b"
  by (rule bit_word_eqI) (auto simp: bit_crc_shift bit_xor_iff)

lemma funpow_crc_shift_xor:
  "(crc_shift p ^^ k) (a XOR b) = (crc_shift p ^^ k) a XOR (crc_shift p ^^ k) b"
  by (induction k) (simp_all add: crc_shift_xor)

lemma funpow_crc_shift_0 [simp]: "(crc_shift p ^^ k) 0 = 0"
  by (induction k) simp_all

text \<open>The single bit \<open>1\<close> moves up until it leaves the register, which puts \<open>p\<close> there.\<close>

lemma bit_funpow_crc_shift_one:
  "k < LENGTH('a) \<Longrightarrow> n < LENGTH('a) \<Longrightarrow>
     bit ((crc_shift (p :: 'a::len word) ^^ k) 1) n \<longleftrightarrow> n = k"
proof (induction k arbitrary: n)
  case 0
  then show ?case by (simp add: bit_1_iff)
next
  case (Suc k)
  then have "bit ((crc_shift p ^^ k) 1) (LENGTH('a) - 1) \<longleftrightarrow> LENGTH('a) - 1 = k"
    by simp
  with Suc show ?case by (auto simp: bit_crc_shift)
qed

lemma funpow_crc_shift_length: "(crc_shift (p :: 'a::len word) ^^ LENGTH('a)) 1 = p"
proof -
  obtain k where k: "LENGTH('a) = Suc k"
    using len_gt_0 [where 'a = 'a] by (cases "LENGTH('a)") auto
  have "bit (crc_shift p ((crc_shift p ^^ k) 1)) n \<longleftrightarrow> bit p n" if "n < LENGTH('a)" for n
    using that k by (auto simp: bit_crc_shift bit_funpow_crc_shift_one)
  then show ?thesis
    by (intro bit_word_eqI) (simp add: k)
qed

section \<open>Equivalence\<close>

text \<open>
  The direct register holds what the serial one holds after as many zeros as the
  register is wide.
\<close>

lemma crc_direct_step:
  "crc_direct p ((crc_shift p ^^ LENGTH('a)) s) b
     = (crc_shift p ^^ LENGTH('a)) (crc_serial (p :: 'a::len word) s b)"
  by (auto simp: crc_direct_def crc_serial_def funpow_crc_shift_xor funpow_crc_shift_length
      funpow_swap1)

lemma crc_direct_foldl:
  "foldl (crc_direct p) ((crc_shift p ^^ LENGTH('a)) s) bs
     = (crc_shift p ^^ LENGTH('a)) (foldl (crc_serial (p :: 'a::len word)) s bs)"
  by (induction bs arbitrary: s) (simp_all add: crc_direct_step)

lemma crc_serial_zeros:
  "foldl (crc_serial p) s (replicate k False) = (crc_shift p ^^ k) s"
  by (induction k arbitrary: s) (simp_all add: crc_serial_def funpow_swap1)

theorem crc_direct_serial:
  "foldl (crc_direct p) 0 bs
     = foldl (crc_serial (p :: 'a::len word)) 0 (bs @ replicate LENGTH('a) False)"
  using crc_direct_foldl [of p 0 bs] by (simp add: crc_serial_zeros)

section \<open>The bits of a message, most significant first\<close>

definition byte_bits :: "byte \<Rightarrow> bool list" where
  "byte_bits b = map (bit b) [7, 6, 5, 4, 3, 2, 1, 0]"

definition msg_bits :: "byte list \<Rightarrow> bool list" where
  "msg_bits bs = concat (map byte_bits bs)"

lemma msg_bits_simps [simp]:
  "msg_bits [] = []"
  "msg_bits (b # bs) = byte_bits b @ msg_bits bs"
  "msg_bits (xs @ ys) = msg_bits xs @ msg_bits ys"
  by (simp_all add: msg_bits_def)

lemma byte_bits_zero [simp]: "byte_bits 0 = replicate 8 False"
  by (simp add: byte_bits_def eval_nat_numeral)

text \<open>As long as the register is not full the serial form just collects the bits.\<close>

lemma bit_crc_serial_collect:
  "length bs \<le> LENGTH('a) \<Longrightarrow> n < LENGTH('a) \<Longrightarrow>
     bit (foldl (crc_serial (p :: 'a::len word)) 0 bs) n \<longleftrightarrow> n < length bs \<and> rev bs ! n"
proof (induction bs arbitrary: n rule: rev_induct)
  case Nil
  then show ?case by simp
next
  case (snoc b bs)
  let ?r = "foldl (crc_serial p) 0 bs"
  have top: "\<not> bit ?r (LENGTH('a) - 1)"
    using snoc.prems by (subst snoc.IH) auto
  have "bit (crc_serial p ?r b) n \<longleftrightarrow> (0 < n \<and> bit ?r (n - 1)) \<noteq> (b \<and> n = 0)"
    using snoc.prems top by (auto simp: crc_serial_def bit_xor_iff bit_crc_shift bit_1_iff)
  also have "\<dots> \<longleftrightarrow> n < length (bs @ [b]) \<and> rev (bs @ [b]) ! n"
    using snoc.prems snoc.IH [of "n - 1"] by (cases n) auto
  finally show ?case by simp
qed

lemma crc_direct_xor:
  "foldl (crc_direct (p :: 'a::len word)) a bs
     = (crc_shift p ^^ length bs) a XOR foldl (crc_direct p) 0 bs"
proof (induction bs rule: rev_induct)
  case Nil
  then show ?case by simp
next
  case (snoc b bs)
  then show ?case
    by (auto simp: crc_direct_def crc_shift_xor xor.assoc)
qed

section \<open>Injectivity\<close>

lemma crc_shift_inj:
  assumes p: "bit (p :: 'a::len word) 0" and eq: "crc_shift p a = crc_shift p b"
  shows "a = b"
proof (rule bit_word_eqI)
  fix n assume n: "n < LENGTH('a)"
  let ?m = "LENGTH('a) - 1"
  have top: "bit a ?m = bit b ?m"
    using p arg_cong [OF eq, of "\<lambda>r. bit r 0"] by (simp add: bit_crc_shift)
  show "bit a n = bit b n"
  proof (cases "n = ?m")
    case True
    with top show ?thesis by simp
  next
    case False
    with n have "Suc n < LENGTH('a)" by simp
    then show ?thesis
      using top arg_cong [OF eq, of "\<lambda>r. bit r (Suc n)"] by (auto simp: bit_crc_shift)
  qed
qed

lemma funpow_crc_shift_inj:
  assumes "bit (p :: 'a::len word) 0"
  shows "(crc_shift p ^^ k) a = (crc_shift p ^^ k) b \<Longrightarrow> a = b"
proof (induction k)
  case 0
  then show ?case by simp
next
  case (Suc k)
  then show ?case using crc_shift_inj [OF assms] by auto
qed

lemma crc_direct_inj:
  assumes "bit (p :: 'a::len word) 0" "crc_direct p a x = crc_direct p b x"
  shows "a = b"
proof -
  have "crc_shift p a = crc_shift p b"
    using arg_cong [OF assms(2), of "\<lambda>y. y XOR (if x then p else 0)"]
    by (simp add: crc_direct_def xor.assoc split: if_splits)
  then show ?thesis using assms(1) by (rule crc_shift_inj [rotated])
qed

lemma crc_direct_foldl_inj:
  assumes "bit (p :: 'a::len word) 0"
  shows "foldl (crc_direct p) a bs = foldl (crc_direct p) b bs \<Longrightarrow> a = b"
  by (induction bs arbitrary: a b) (auto dest: crc_direct_inj [OF assms])

end
