(* ===== verification/Kv_Crc.thy ===== *)
theory Kv_Crc
  imports Crc Kv_Types
begin

text \<open>The CRC-8 of kv.c: it is the remainder of the polynomial division, and which
  corruptions of an item it detects.\<close>

lemma and_128_bit: "(crc :: byte) AND 0x80 \<noteq> 0 \<longleftrightarrow> bit crc 7"
  using and_exp_eq_0_iff_not_bit [of crc 7] by simp

lemma crc8_bit_shift: "crc8_bit crc = crc_shift 0x31 crc"
  by (simp only: crc8_bit_def crc_shift_def and_128_bit) simp

lemma crc8_bits_shift: "crc8_bits k crc = (crc_shift 0x31 ^^ k) crc"
  by (induction k arbitrary: crc) (simp_all add: crc8_bit_shift funpow_swap1)

lemma crc_serial_byte: "foldl (crc_serial p) 0 (byte_bits b) = (b :: byte)"
proof (rule bit_word_eqI)
  fix n assume n: "n < LENGTH(8)"
  then have "n \<in> {0, 1, 2, 3, 4, 5, 6, 7}" by auto
  then show "bit (foldl (crc_serial p) 0 (byte_bits b)) n = bit b n"
    using n by (subst bit_crc_serial_collect) (auto simp: byte_bits_def)
qed

text \<open>A whole byte of the code is eight steps of the direct register.\<close>

lemma crc8_byte_direct: "crc8_byte crc b = foldl (crc_direct 0x31) crc (byte_bits b)"
proof -
  have "foldl (crc_direct 0x31) crc (byte_bits b)
      = (crc_shift 0x31 ^^ 8) crc XOR foldl (crc_direct 0x31) 0 (byte_bits b)"
    by (subst crc_direct_xor) (simp add: byte_bits_def eval_nat_numeral)
  also have "foldl (crc_direct 0x31) 0 (byte_bits b) = (crc_shift 0x31 ^^ 8) b"
    using crc_direct_foldl [of "0x31 :: byte" 0 "byte_bits b"] by (simp add: crc_serial_byte)
  finally show ?thesis
    by (simp only: crc8_byte_def crc8_bits_shift funpow_crc_shift_xor)
qed

lemma foldl_crc8_byte: "foldl crc8_byte crc bs = foldl (crc_direct 0x31) crc (msg_bits bs)"
  by (induction bs arbitrary: crc) (simp_all add: crc8_byte_direct)

lemma crc8_poly_odd: "bit (0x31 :: byte) 0"
  by simp

lemma crc8_byte_inj_crc: "crc8_byte a x = crc8_byte b x \<Longrightarrow> a = b"
  unfolding crc8_byte_direct by (rule crc_direct_foldl_inj [OF crc8_poly_odd])

lemma crc8_byte_inj_byte:
  assumes "crc8_byte c x = crc8_byte c y"
  shows "x = y"
proof -
  have "c XOR x = c XOR y"
    using assms unfolding crc8_byte_def crc8_bits_shift
    by (rule funpow_crc_shift_inj [OF crc8_poly_odd])
  then have "c XOR (c XOR x) = c XOR (c XOR y)" by (rule arg_cong)
  then show ?thesis by (simp only: bit.xor_left_self)
qed

lemma foldl_crc8_inj: "foldl crc8_byte a zs = foldl crc8_byte b zs \<Longrightarrow> a = b"
  by (induction zs arbitrary: a b) (auto dest: crc8_byte_inj_crc)

lemma crc8_remainder:
  "calc_crc8 buf = foldl (crc_serial 0x31) 0 (msg_bits buf @ replicate 8 False)"
  using crc_direct_serial [of "0x31 :: byte" "msg_bits buf"]
  by (simp add: calc_crc8_def foldl_crc8_byte)

lemma crc8_detects: "calc_crc8 (xs @ a # zs) = calc_crc8 (xs @ b # zs) \<longleftrightarrow> a = b"
  by (auto simp: calc_crc8_def dest!: foldl_crc8_inj dest: crc8_byte_inj_byte)

end
