(* ===== verification/Kv_Layout.thy ===== *)
theory Kv_Layout
  imports Kv_Flash Kv_Crc
begin

text \<open>
  The abstract content of the key-value flash: a list of items per block, how a list
  of items is laid out in a block, and what one pass of the traversal does on an item
  and on free space.
\<close>

section \<open>Abstract items and their image\<close>

record aitem =
  ai_state :: byte
  ai_key :: "byte list"
  ai_val :: "byte list"
  ai_org :: nat

definition normal :: "aitem \<Rightarrow> bool" where
  "normal it \<longleftrightarrow> ai_state it = KV_ITEM_STATE_NORMAL"

definition wf_item :: "aitem \<Rightarrow> bool" where
  "wf_item it \<longleftrightarrow> 0 < length (ai_key it) \<and> length (ai_key it) \<le> KV_MAX_KEY_LEN
     \<and> 0 < length (ai_val it) \<and> length (ai_val it) \<le> KV_MAX_VAL_LEN \<and> ai_org it < 65536
     \<and> (normal it \<or> ai_state it = KV_ITEM_STATE_DELETE)"

definition item_len :: "aitem \<Rightarrow> nat" where
  "item_len it = KV_ALIGN (KV_ITEM_HDR_SIZE + length (ai_key it) + length (ai_val it))"

definition hdr_of :: "aitem \<Rightarrow> item_hdr" where
  "hdr_of it = \<lparr>ih_magic = KV_ITEM_MAGIC_NUM, ih_state = ai_state it,
     ih_crc = calc_crc8 (ai_key it @ ai_val it), ih_key_len = length (ai_key it),
     ih_val_len = length (ai_val it), ih_origin_off = ai_org it\<rparr>"

definition enc :: "aitem \<Rightarrow> byte list" where
  "enc it = item_hdr_bytes (hdr_of it) @ ai_key it @ ai_val it
     @ replicate (item_len it - KV_ITEM_HDR_SIZE - length (ai_key it) - length (ai_val it)) 0"

definition mk_item :: "nat \<Rightarrow> aitem \<Rightarrow> kv_item" where
  "mk_item p it = \<lparr>it_hdr = hdr_of it, it_store = None,
     it_len = length (ai_key it) + length (ai_val it), it_pos = p\<rparr>"

lemma KV_ALIGN_bounds: "x \<le> KV_ALIGN x" "KV_ALIGN x < x + 4" "4 dvd KV_ALIGN x"
proof -
  have e: "x + 3 = KV_ALIGN x + (x + 3) mod 4" by (simp add: KV_ALIGN_def)
  have r: "(x + 3) mod 4 < 4" by simp
  show "x \<le> KV_ALIGN x" using e r by linarith
  show "KV_ALIGN x < x + 4" using e by linarith
  show "4 dvd KV_ALIGN x" by (simp add: KV_ALIGN_def)
qed

lemma item_len_bounds:
  assumes "wf_item it"
  shows "12 \<le> item_len it" "item_len it \<le> 648" "4 dvd item_len it"
    "8 + length (ai_key it) + length (ai_val it) \<le> item_len it"
proof -
  note a = KV_ALIGN_bounds [of "8 + length (ai_key it) + length (ai_val it)"]
  show d: "4 dvd item_len it" and "8 + length (ai_key it) + length (ai_val it) \<le> item_len it"
    using a by (simp_all add: item_len_def)
  have "0 < length (ai_key it)" "0 < length (ai_val it)" "length (ai_key it) \<le> 128"
    "length (ai_val it) \<le> 512"
    using assms by (simp_all add: wf_item_def)
  then have lo: "10 \<le> item_len it" and hi: "item_len it < 652"
    using a unfolding item_len_def by linarith+
  show "12 \<le> item_len it" using lo d by presburger
  show "item_len it \<le> 648" using hi d by presburger
qed

lemma length_item_hdr_bytes [simp]: "length (item_hdr_bytes h) = 8"
  by (simp add: item_hdr_bytes_def le16_def)

lemma length_enc: "wf_item it \<Longrightarrow> length (enc it) = item_len it"
  using item_len_bounds(4) [of it] by (simp add: enc_def)

text \<open>Reading back a header that was written.\<close>

lemma item_hdr_roundtrip:
  assumes "ih_key_len h < 256" "ih_val_len h < 65536" "ih_origin_off h < 65536"
  shows "item_hdr_of (item_hdr_bytes h) = h"
  using assms un_le16_le16 [of "ih_val_len h"] un_le16_le16 [of "ih_origin_off h"]
  by (simp add: item_hdr_of_def item_hdr_bytes_def le16_def )

lemma item_hdr_of_append: "length xs = 8 \<Longrightarrow> item_hdr_of (xs @ ys) = item_hdr_of xs"
  by (simp add: item_hdr_of_def nth_append)

lemma hdr_of_bounds:
  "wf_item it \<Longrightarrow> ih_key_len (hdr_of it) < 256 \<and> ih_val_len (hdr_of it) < 65536
     \<and> ih_origin_off (hdr_of it) < 65536"
  by (auto simp: hdr_of_def wf_item_def)

lemma item_hdr_of_hdr_bytes: "wf_item it \<Longrightarrow> item_hdr_of (item_hdr_bytes (hdr_of it)) = hdr_of it"
  using hdr_of_bounds [of it] by (simp add: item_hdr_roundtrip)

text \<open>The parts of an image found in memory.\<close>

lemma get_range_sub:
  assumes "get_range m p n = xs" "a + b \<le> n"
  shows "get_range m (p + a) b = take b (drop a xs)"
proof (rule get_range_eqI)
  show "length (take b (drop a xs)) = b" using assms by (auto simp flip: assms(1))
next
  fix i assume "i < b"
  then show "m (p + a + i) = take b (drop a xs) ! i"
    using assms(2) by (simp add: add.assoc flip: assms(1))
qed

lemma enc_parts:
  assumes wf: "wf_item it" and m: "get_range m p (item_len it) = enc it"
  shows "get_range m p 8 = item_hdr_bytes (hdr_of it)"
    "get_range m (p + 8) (length (ai_key it) + length (ai_val it)) = ai_key it @ ai_val it"
    "get_range m (p + 8) (length (ai_key it)) = ai_key it"
    "m (p + 1) = ai_state it"
proof -
  note l = item_len_bounds [OF wf]
  show h: "get_range m p 8 = item_hdr_bytes (hdr_of it)"
    using get_range_sub [OF m, of 0 8] l by (simp add: enc_def)
  show "get_range m (p + 8) (length (ai_key it) + length (ai_val it)) = ai_key it @ ai_val it"
    using get_range_sub [OF m, of 8 "length (ai_key it) + length (ai_val it)"] l
    by (simp add: enc_def add.assoc)
  show "get_range m (p + 8) (length (ai_key it)) = ai_key it"
    using get_range_sub [OF m, of 8 "length (ai_key it)"] l by (simp add: enc_def)
  have "m (p + 1) = get_range m p 8 ! 1" by simp
  also have "\<dots> = ai_state it" by (simp only: h) (simp add: item_hdr_bytes_def hdr_of_def)
  finally show "m (p + 1) = ai_state it" .
qed

section \<open>Lists of items in a block\<close>

definition its_len :: "aitem list \<Rightarrow> nat" where
  "its_len its = sum_list (map item_len its)"

lemma its_len_simps [simp]:
  "its_len [] = 0" "its_len (it # its) = item_len it + its_len its"
  "its_len (xs @ ys) = its_len xs + its_len ys"
  by (simp_all add: its_len_def)

fun items_at :: "(nat \<Rightarrow> byte) \<Rightarrow> nat \<Rightarrow> aitem list \<Rightarrow> bool" where
  "items_at m p [] \<longleftrightarrow> True"
| "items_at m p (it # its) \<longleftrightarrow> wf_item it \<and> get_range m p (item_len it) = enc it
     \<and> items_at m (p + item_len it) its"

lemma items_at_append:
  "items_at m p (xs @ ys) \<longleftrightarrow> items_at m p xs \<and> items_at m (p + its_len xs) ys"
  by (induction xs arbitrary: p) (auto simp: add.assoc)

lemma items_at_wf: "items_at m p its \<Longrightarrow> it \<in> set its \<Longrightarrow> wf_item it"
  by (induction its arbitrary: p) auto

lemma items_at_cong:
  assumes "\<And>a. p \<le> a \<Longrightarrow> a < p + its_len its \<Longrightarrow> m' a = m a"
  shows "items_at m' p its = items_at m p its"
  using assms
proof (induction its arbitrary: p)
  case Nil
  then show ?case by simp
next
  case (Cons it its)
  have "get_range m' p (item_len it) = get_range m p (item_len it)"
    using Cons.prems by (intro nth_equalityI) auto
  moreover have "items_at m' (p + item_len it) its = items_at m (p + item_len it) its"
    by (rule Cons.IH) (use Cons.prems in auto)
  ultimately show ?case by simp
qed

lemma its_len_dvd4: "items_at m p its \<Longrightarrow> 4 dvd its_len its"
  by (induction its arbitrary: p) (auto dest: item_len_bounds(3))

text \<open>Block \<open>b\<close> holds a header with state \<open>st\<close>, the items and erased bytes after them.\<close>

definition blk_base :: "nat \<Rightarrow> nat" where
  "blk_base b = b * KV_BLOCK_SIZE"

definition blk_rep :: "(nat \<Rightarrow> byte) \<Rightarrow> nat \<Rightarrow> byte \<Rightarrow> aitem list \<Rightarrow> bool" where
  "blk_rep m b st its \<longleftrightarrow>
     m (blk_base b) = KV_BLOCK_MAGIC_NUM \<and> m (blk_base b + 1) = st
     \<and> items_at m (blk_base b + 4) its \<and> 4 + its_len its < KV_BLOCK_SIZE
     \<and> (\<forall>a. blk_base b + 4 + its_len its \<le> a \<and> a < blk_base b + KV_BLOCK_SIZE \<longrightarrow> m a = 0xFF)"

lemma blk_rep_cong:
  assumes "\<And>a. blk_base b \<le> a \<Longrightarrow> a < blk_base b + KV_BLOCK_SIZE \<Longrightarrow> m' a = m a"
  shows "blk_rep m' b st its = blk_rep m b st its"
proof (cases "4 + its_len its < KV_BLOCK_SIZE")
  case True
  then have "items_at m' (blk_base b + 4) its = items_at m (blk_base b + 4) its"
    by (intro items_at_cong) (use assms in auto)
  with True assms show ?thesis by (auto simp: blk_rep_def)
qed (simp add: blk_rep_def)

section \<open>Worlds that agree on all but the allocation counter\<close>

definition same :: "('f \<Rightarrow> nat \<Rightarrow> byte) \<Rightarrow> 'f kv_world \<Rightarrow> 'f kv_world \<Rightarrow> bool" where
  "same mem w w' \<longleftrightarrow> w_mgr w' = w_mgr w \<and> mem (w_flash w') = mem (w_flash w)
     \<and> w_alloc w' = w_alloc w \<and> w_lock w' = w_lock w \<and> w_gc_tasks w' = w_gc_tasks w"

definition heap_ok :: "'f kv_world \<Rightarrow> bool" where
  "heap_ok w \<longleftrightarrow> (\<forall>i. w_alloc w i)"

lemma same_refl [simp]: "same mem w w"
  by (simp add: same_def)

lemma same_trans [trans]: "same mem w w' \<Longrightarrow> same mem w' w'' \<Longrightarrow> same mem w w''"
  by (simp add: same_def)

lemma same_heap: "same mem w w' \<Longrightarrow> heap_ok w' = heap_ok w"
  by (simp add: same_def heap_ok_def)

lemma malloc_ok: "heap_ok w \<Longrightarrow> \<exists>w'. kv_malloc w = (True, w') \<and> same mem w w'"
  by (auto simp: kv_malloc_def heap_ok_def same_def)

context flash_dev
begin

lemma read_same:
  assumes "off + length buf \<le> size_of"
  shows "\<exists>w'. kv_flash_read hal off buf w
      = (0, get_range (mem (w_flash w)) off (length buf), w') \<and> same mem w w'"
  using flash_read [OF assms, of w] by (auto simp: same_def)

lemma step_item:
  assumes heap: "heap_ok w" and fits: "p + item_len it \<le> size_of" "p + item_len it < 65536"
    and wf: "wf_item it" and img: "get_range (mem (w_flash w)) p (item_len it) = enc it"
  shows "\<exists>w2. same mem w w2 \<and> traverse_step hal func b key p w =
     (if normal it then
        (case func (mk_item p it) key w2 of (res, item', w3) \<Rightarrow>
           if res = KV_OK then (Inl (Some item', False), w3)
           else if res \<noteq> KV_LOOP_CONTINUE then (Inl (None, False), w3)
           else (Inr (p + item_len it), w3))
      else (Inr (p + item_len it), mark_used_dirty hal b w2))"
proof -
  obtain w1 where w1: "kv_malloc w = (True, w1)" "same mem w w1"
    using malloc_ok [OF heap] by blast
  have "p + length (replicate 8 (0::byte)) \<le> size_of"
    using item_len_bounds(1) [OF wf] fits by simp
  from read_same [OF this, of w1] obtain w2 where
    w2: "kv_flash_read hal p (replicate 8 0) w1
           = (0, get_range (mem (w_flash w1)) p 8, w2)" "same mem w1 w2"
    by auto
  have "get_range (mem (w_flash w1)) p 8 = item_hdr_bytes (hdr_of it)"
    using enc_parts(1) [OF wf img] w1(2) by (simp add: same_def)
  then have h: "item_hdr_of (get_range (mem (w_flash w1)) p 8) = hdr_of it"
    by (simp add: item_hdr_of_hdr_bytes [OF wf])
  have len: "u16 (KV_ALIGN (8 + length (ai_key it) + length (ai_val it))) = item_len it"
    using item_len_bounds(2) [OF wf] by (simp add: item_len_def)
  have "same mem w w2" using w1(2) w2(2) by (rule same_trans)
  moreover have "traverse_step hal func b key p w =
     (if normal it then
        (case func (mk_item p it) key w2 of (res, item', w3) \<Rightarrow>
           if res = KV_OK then (Inl (Some item', False), w3)
           else if res \<noteq> KV_LOOP_CONTINUE then (Inl (None, False), w3)
           else (Inr (p + item_len it), w3))
      else (Inr (p + item_len it), mark_used_dirty hal b w2))"
    using wf fits(2) len
    unfolding traverse_step_def w1(1) Let_def prod.case w2(1) h
    by (auto simp: hdr_of_def wf_item_def normal_def mk_item_def split: prod.splits)
  ultimately show ?thesis by blast
qed

lemma step_free:
  assumes heap: "heap_ok w" and fits: "p + 8 \<le> size_of"
    and free: "\<And>a. p \<le> a \<Longrightarrow> a < p + 8 \<Longrightarrow> mem (w_flash w) a = 0xFF"
  shows "\<exists>w2. same mem w w2 \<and> traverse_step hal func b key p w = (Inl (None, True), w2)"
proof -
  obtain w1 where w1: "kv_malloc w = (True, w1)" "same mem w w1"
    using malloc_ok [OF heap] by blast
  from read_same [of p "replicate 8 0" w1] fits obtain w2 where
    w2: "kv_flash_read hal p (replicate 8 0) w1
           = (0, get_range (mem (w_flash w1)) p 8, w2)" "same mem w1 w2"
    by auto
  have "ih_magic (item_hdr_of (get_range (mem (w_flash w1)) p 8)) = 0xFF"
    "ih_state (item_hdr_of (get_range (mem (w_flash w1)) p 8)) = 0xFF"
    using free [of p] free [of "p + 1"] w1(2) by (simp_all add: item_hdr_of_def same_def)
  then have "traverse_step hal func b key p w = (Inl (None, True), w2)"
    unfolding traverse_step_def w1(1) Let_def prod.case w2(1) by simp
  then show ?thesis using same_trans [OF w1(2) w2(2)] by blast
qed

end

end
