(* ===== verification/Kv_Find.thy ===== *)
theory Kv_Find
  imports Kv_Layout "HOL-Library.Multiset"
begin

text \<open>
  The representation invariant of the key-value store: the management structure and
  the flash agree with an abstract list of blocks. The traversal with the search
  callback changes nothing and finds the live item of a key.
\<close>

section \<open>Representation invariant\<close>

abbreviation info :: "kv_mgr \<Rightarrow> nat \<Rightarrow> block_info" where
  "info mg b \<equiv> block_infos mg ! b"

definition blk_inv :: "(nat \<Rightarrow> byte) \<Rightarrow> nat \<Rightarrow> block_info \<Rightarrow> aitem list \<Rightarrow> bool" where
  "blk_inv m b i its \<longleftrightarrow> blk_rep m b (bi_state i) its \<and> bi_space i + 4 + its_len its = KV_BLOCK_SIZE
     \<and> (bi_state i = KV_BLOCK_STATE_CLEAN \<and> its = []
        \<or> bi_state i = KV_BLOCK_STATE_USED \<and> list_all normal its
        \<or> bi_state i = KV_BLOCK_STATE_DIRTY)"

definition clean_count :: "kv_mgr \<Rightarrow> nat" where
  "clean_count mg = length (filter (\<lambda>i. bi_state i = KV_BLOCK_STATE_CLEAN) (block_infos mg))"

definition kv_rep :: "nat \<Rightarrow> (nat \<Rightarrow> byte) \<Rightarrow> kv_mgr \<Rightarrow> aitem list list \<Rightarrow> bool" where
  "kv_rep n m mg blks \<longleftrightarrow> length blks = n \<and> length (block_infos mg) = n
     \<and> (\<forall>b<n. blk_inv m b (info mg b) (blks ! b)) \<and> clean_blk_nums mg = clean_count mg"

text \<open>The write position is the end of the items of a block that is in use.\<close>

definition wp_ok :: "nat \<Rightarrow> kv_mgr \<Rightarrow> aitem list list \<Rightarrow> bool" where
  "wp_ok n mg blks \<longleftrightarrow> (\<exists>b<n. bi_state (info mg b) \<noteq> KV_BLOCK_STATE_CLEAN
     \<and> write_pos mg = blk_base b + 4 + its_len (blks ! b))"

definition kv_inv ::
  "('f \<Rightarrow> nat \<Rightarrow> byte) \<Rightarrow> nat \<Rightarrow> 'f kv_world \<Rightarrow> aitem list list \<Rightarrow> bool" where
  "kv_inv mem n w blks \<longleftrightarrow> 2 \<le> n \<and> n \<le> 15 \<and> heap_ok w
     \<and> kv_rep n (mem (w_flash w)) (w_mgr w) blks \<and> wp_ok n (w_mgr w) blks
     \<and> (gc_trigger (w_mgr w) \<longrightarrow> 0 < w_gc_tasks w)"

text \<open>The live items of a key and the value that a lookup yields.\<close>

definition live :: "aitem list list \<Rightarrow> byte list \<Rightarrow> aitem multiset" where
  "live blks k = filter_mset (\<lambda>it. normal it \<and> ai_key it = k) (mset (concat blks))"

definition unique_keys :: "aitem list list \<Rightarrow> bool" where
  "unique_keys blks \<longleftrightarrow> (\<forall>k. size (live blks k) \<le> 1)"

definition kv_lookup :: "aitem list list \<Rightarrow> byte list \<Rightarrow> byte list option" where
  "kv_lookup blks k =
     map_option ai_val (find (\<lambda>it. normal it \<and> ai_key it = k) (concat blks))"

lemma kv_inv_same: "same mem w w' \<Longrightarrow> kv_inv mem n w' blks = kv_inv mem n w blks"
  by (simp add: kv_inv_def same_heap) (simp add: same_def)

lemma kv_lookup_None: "kv_lookup blks k = None \<longleftrightarrow> live blks k = {#}"
  by (auto simp: kv_lookup_def live_def find_None_iff filter_mset_eq_mempty_iff)

lemma kv_lookup_Some:
  assumes "live blks k = {#it#}"
  shows "kv_lookup blks k = Some (ai_val it)"
proof -
  have "live blks k \<noteq> {#}" using assms by simp
  then obtain it' where f: "find (\<lambda>it. normal it \<and> ai_key it = k) (concat blks) = Some it'"
    using kv_lookup_None [of blks k] by (auto simp: kv_lookup_def)
  then have "it' \<in> set (concat blks) \<and> normal it' \<and> ai_key it' = k"
    unfolding find_Some_iff by (metis nth_mem)
  then have "it' \<in># live blks k"
    by (simp add: live_def)
  with assms f show ?thesis by (simp add: kv_lookup_def)
qed

lemma live_singleton:
  assumes "unique_keys blks" "it \<in># live blks k"
  shows "live blks k = {#it#}"
proof -
  obtain M where M: "live blks k = add_mset it M"
    using assms(2) by (metis insert_DiffM)
  have "size (live blks k) \<le> 1" using assms(1) by (simp add: unique_keys_def)
  with M show ?thesis by simp
qed

lemma live_cong:
  "(\<And>k. live blks' k = live blks k) \<Longrightarrow> unique_keys blks
     \<Longrightarrow> unique_keys blks' \<and> kv_lookup blks' = kv_lookup blks"
proof -
  assume eq: "\<And>k. live blks' k = live blks k" and u: "unique_keys blks"
  have "kv_lookup blks' k = kv_lookup blks k" for k
  proof (cases "live blks k = {#}")
    case True
    then show ?thesis using eq kv_lookup_None by metis
  next
    case False
    then obtain it where "it \<in># live blks k" by auto
    from live_singleton [OF u this] show ?thesis using eq kv_lookup_Some by metis
  qed
  with eq u show ?thesis by (auto simp: unique_keys_def)
qed

section \<open>Blocks of the layout\<close>

lemma blk_end_base: "b < 15 \<Longrightarrow> blk_end b = blk_base b + 4096"
  by (simp add: blk_end_eq blk_base_def)

lemma blk_start: "b < 15 \<Longrightarrow> u16 (b * 4096 + 4) = blk_base b + 4"
  by (simp add: blk_base_def)

lemma blk_base_bound: "b < n \<Longrightarrow> n \<le> 15 \<Longrightarrow> blk_base b + 4096 \<le> n * 4096 \<and> blk_base b \<le> 57344"
  by (simp add: blk_base_def)

lemma blk_base_disjoint:
  "b \<noteq> c \<Longrightarrow> blk_base b + 4096 \<le> blk_base c \<or> blk_base c + 4096 \<le> blk_base b"
  by (auto simp: blk_base_def not_le neq_iff)

lemma blk_base_div: "x < 4096 \<Longrightarrow> (blk_base b + x) div 4096 = b"
  by (simp add: blk_base_def)

lemma kv_rep_blk: "kv_rep n m mg blks \<Longrightarrow> b < n \<Longrightarrow> blk_inv m b (info mg b) (blks ! b)"
  by (simp add: kv_rep_def)

section \<open>The traversal loop\<close>

lemma traverse_prefix:
  assumes step: "\<And>done it todo w. pre = done @ it # todo \<Longrightarrow> I done w \<Longrightarrow>
      \<exists>w'. traverse_step hal func b key (p + its_len done) w
             = (Inr (p + its_len done + item_len it), w') \<and> I (done @ [it]) w'"
    and more: "\<And>done it todo. pre = done @ it # todo \<Longrightarrow>
      p + its_len done + item_len it + 8 < blk_end b"
  shows "pre = done @ todo \<Longrightarrow> I done w \<Longrightarrow>
    \<exists>w'. I pre w' \<and> kv_traverse_loop hal func b key (p + its_len done) w
      = kv_traverse_loop hal func b key (p + its_len pre) w'"
proof (induction todo arbitrary: "done" w)
  case Nil
  then show ?case by auto
next
  case (Cons it todo)
  obtain w1 where w1: "traverse_step hal func b key (p + its_len done) w
      = (Inr (p + its_len done + item_len it), w1)" "I (done @ [it]) w1"
    using step Cons.prems by blast
  have "p + its_len done + item_len it + 8 < blk_end b"
    using more Cons.prems by blast
  then have "kv_traverse_loop hal func b key (p + its_len done) w
      = kv_traverse_loop hal func b key (p + its_len (done @ [it])) w1"
    by (subst kv_traverse_loop.simps) (simp add: w1(1) add.assoc)
  with Cons.IH [of "done @ [it]" w1] Cons.prems(1) w1(2) show ?case by simp
qed

lemma traverse_all:
  assumes step: "\<And>done it todo w. its = done @ it # todo \<Longrightarrow> I done w \<Longrightarrow>
      \<exists>w'. traverse_step hal func b key (p + its_len done) w
             = (Inr (p + its_len done + item_len it), w') \<and> I (done @ [it]) w'"
    and free: "\<And>w. I its w \<Longrightarrow> p + its_len its + 8 < blk_end b \<Longrightarrow>
      \<exists>w'. traverse_step hal func b key (p + its_len its) w = (Inl (None, True), w') \<and> I its w'"
    and fits: "p + its_len its < blk_end b" and len: "\<And>it. it \<in> set its \<Longrightarrow> 12 \<le> item_len it"
  shows "its = done @ todo \<Longrightarrow> I done w \<Longrightarrow> p + its_len done + 8 < blk_end b \<Longrightarrow>
    \<exists>w'. I its w' \<and> kv_traverse_loop hal func b key (p + its_len done) w
      = (None, traverse_finish b (p + its_len its) w')"
proof (induction todo arbitrary: "done" w)
  case Nil
  then have "I its w" "p + its_len its + 8 < blk_end b" by auto
  from free [OF this] obtain w' where
    "traverse_step hal func b key (p + its_len its) w = (Inl (None, True), w')" "I its w'"
    by blast
  with Nil show ?case by (subst kv_traverse_loop.simps) auto
next
  case (Cons it todo)
  obtain w1 where w1: "traverse_step hal func b key (p + its_len done) w
      = (Inr (p + its_len done + item_len it), w1)" "I (done @ [it]) w1"
    using step Cons.prems by blast
  show ?case
  proof (cases "p + its_len (done @ [it]) + 8 < blk_end b")
    case True
    then have "kv_traverse_loop hal func b key (p + its_len done) w
        = kv_traverse_loop hal func b key (p + its_len (done @ [it])) w1"
      by (subst kv_traverse_loop.simps) (simp add: w1(1) add.assoc)
    with Cons.IH [of "done @ [it]" w1] Cons.prems(1) w1(2) True show ?thesis by simp
  next
    case False
    have "todo = []"
    proof (rule ccontr)
      assume "todo \<noteq> []"
      then obtain x xs where x: "todo = x # xs" by (cases todo) auto
      then have "12 \<le> item_len x" using len Cons.prems(1) by simp
      then show False using False fits Cons.prems(1) x by simp
    qed
    with Cons.prems(1) have its: "its = done @ [it]" by simp
    have "kv_traverse_loop hal func b key (p + its_len done) w
        = (None, traverse_finish b (p + its_len its) w1)"
      using False by (subst kv_traverse_loop.simps) (simp add: w1(1) its add.assoc)
    then show ?thesis using w1(2) its by auto
  qed
qed

text \<open>Leaving the loop at the end of the items stores the space that is already recorded.\<close>

lemma traverse_finish_id:
  assumes "blk_inv m b (info (w_mgr w) b) its" "b < 15" "b < length (block_infos (w_mgr w))"
  shows "traverse_finish b (blk_base b + 4 + its_len its) w = w"
proof -
  have sp: "blk_base b + 4096 - (blk_base b + 4 + its_len its) = bi_space (info (w_mgr w) b)"
    and lt: "blk_base b + 4 + its_len its < blk_base b + 4096"
    using assms(1) by (auto simp: blk_inv_def blk_rep_def)
  have "(info (w_mgr w) b)\<lparr>bi_space := bi_space (info (w_mgr w) b)\<rparr> = info (w_mgr w) b"
    by simp
  then have "set_blk_space b (bi_space (info (w_mgr w) b)) w = w"
    by (simp add: set_blk_space_def upd_mgr_def)
  with lt show ?thesis
    by (simp add: traverse_finish_def blk_end_base [OF assms(2)] sp)
qed

section \<open>The search\<close>

definition found_item :: "nat \<Rightarrow> aitem \<Rightarrow> kv_item" where
  "found_item p it = (mk_item p it)\<lparr>it_store := Some (ai_key it @ ai_val it)\<rparr>"

definition matches :: "byte list \<Rightarrow> aitem \<Rightarrow> bool" where
  "matches k it \<longleftrightarrow> normal it \<and> ai_key it = k"

context flash_dev
begin

lemma find_cb:
  assumes heap: "heap_ok w" and wf: "wf_item it" and fits: "p + item_len it \<le> size_of"
    and img: "get_range (mem (w_flash w)) p (item_len it) = enc it"
  shows "\<exists>w' item'. same mem w w' \<and> item_find_cb hal (mk_item p it) key w =
    (if ai_key it = key then (KV_OK, found_item p it, w') else (KV_LOOP_CONTINUE, item', w'))"
proof (cases "length (ai_key it) = length key")
  case False
  then have "item_find_cb hal (mk_item p it) key w = (KV_LOOP_CONTINUE, mk_item p it, w)"
    by (simp add: item_find_cb_def mk_item_def hdr_of_def)
  moreover have "ai_key it \<noteq> key" using False by auto
  ultimately show ?thesis by auto
next
  case True
  obtain w1 where w1: "kv_malloc w = (True, w1)" "same mem w w1"
    using malloc_ok [OF heap] by blast
  let ?kv = "length (ai_key it) + length (ai_val it)"
  have "p + 8 + length (replicate ?kv (0::byte)) \<le> size_of"
    using item_len_bounds(4) [OF wf] fits by simp
  from read_same [OF this, of w1] obtain w2 where
    w2: "kv_flash_read hal (p + 8) (replicate ?kv 0) w1
           = (0, get_range (mem (w_flash w1)) (p + 8) ?kv, w2)" "same mem w1 w2"
    by auto
  have kv: "get_range (mem (w_flash w1)) (p + 8) ?kv = ai_key it @ ai_val it"
    using enc_parts(2) [OF wf img] w1(2) by (simp add: same_def)
  have "same mem w w2" using w1(2) w2(2) by (rule same_trans)
  moreover have "item_find_cb hal (mk_item p it) key w =
    (if ai_key it = key then (KV_OK, found_item p it, w2)
     else (KV_LOOP_CONTINUE, found_item p it, w2))"
    unfolding item_find_cb_def w1(1) Let_def prod.case
    by (simp add: mk_item_def hdr_of_def found_item_def True w2(1) [unfolded True] kv [unfolded True])
  ultimately show ?thesis by auto
qed

text \<open>What is known about block \<open>b\<close> while it is searched.\<close>

lemma find_in_block:
  assumes n: "n \<le> 15" "size_of = n * 4096" and b: "b < n" and heap: "heap_ok w"
    and inv: "blk_inv (mem (w_flash w)) b (info (w_mgr w) b) its"
    and len: "length (block_infos (w_mgr w)) = n"
  shows "\<exists>w' r. same mem w w' \<and> kv_item_traverse hal (item_find_cb hal) b key w = (r, w')
     \<and> (r = None \<and> (\<forall>it\<in>set its. \<not> matches key it)
        \<or> (\<exists>pre it post. its = pre @ it # post \<and> matches key it
             \<and> r = Some (found_item (blk_base b + 4 + its_len pre) it)))"
proof -
  let ?p = "blk_base b + 4"
  let ?I = "\<lambda>(_ :: aitem list) w'. same mem w w'"
  have b15: "b < 15" using n b by simp
  note base = blk_base_bound [OF b n(1)]
  have ends: "blk_end b = blk_base b + 4096" by (rule blk_end_base [OF b15])
  have at: "items_at (mem (w_flash w)) ?p its" and short: "4 + its_len its < 4096"
    and free: "\<forall>a. ?p + its_len its \<le> a \<and> a < blk_base b + 4096 \<longrightarrow> mem (w_flash w) a = 0xFF"
    using inv by (auto simp: blk_inv_def blk_rep_def)
  have step: "\<exists>w2. same mem w w2 \<and> traverse_step hal (item_find_cb hal) b key (?p + its_len done) w1 =
      (if matches key it then (Inl (Some (found_item (?p + its_len done) it), False), w2)
       else (Inr (?p + its_len done + item_len it), w2))"
    if its: "its = done @ it # todo" and s1: "same mem w w1" for "done" it todo w1
  proof -
    let ?q = "?p + its_len done"
    have m1: "mem (w_flash w1) = mem (w_flash w)" using s1 by (simp add: same_def)
    have wf: "wf_item it" using at its by (simp add: items_at_append)
    have img: "get_range (mem (w_flash w1)) ?q (item_len it) = enc it"
      using at unfolding its m1 items_at_append by simp
    have q: "?q + item_len it \<le> size_of" "?q + item_len it < 65536"
      using short its base n(2) by auto
    have h1: "heap_ok w1" using same_heap [OF s1] heap by simp
    from step_item [OF h1 q wf img, of "item_find_cb hal" b key] obtain w2 where
      w2: "same mem w1 w2" and st: "traverse_step hal (item_find_cb hal) b key ?q w1 =
        (if normal it then
          (case item_find_cb hal (mk_item ?q it) key w2 of (res, item', w3) \<Rightarrow>
             if res = KV_OK then (Inl (Some item', False), w3)
             else if res \<noteq> KV_LOOP_CONTINUE then (Inl (None, False), w3)
             else (Inr (?q + item_len it), w3))
        else (Inr (?q + item_len it), mark_used_dirty hal b w2))" by blast
    have s2: "same mem w w2" using s1 w2 by (rule same_trans)
    have img2: "get_range (mem (w_flash w2)) ?q (item_len it) = enc it"
      using img w2 by (simp add: same_def)
    have h2: "heap_ok w2" using same_heap [OF s2] heap by simp
    from find_cb [OF h2 wf q(1) img2, of key] obtain w3 item3 where
      w3: "same mem w2 w3" "item_find_cb hal (mk_item ?q it) key w2 =
        (if ai_key it = key then (KV_OK, found_item ?q it, w3)
         else (KV_LOOP_CONTINUE, item3, w3))" by blast
    have s3: "same mem w w3" using s2 w3(1) by (rule same_trans)
    show ?thesis
    proof (cases "normal it")
      case True
      then show ?thesis using st w3(2) s3 by (auto simp: matches_def)
    next
      case False
      then have "bi_state (info (w_mgr w) b) \<noteq> 0xCC"
        using inv its by (auto simp: blk_inv_def)
      then have "mark_used_dirty hal b w2 = w2"
        using s2 by (simp add: mark_used_dirty_def get_info_def same_def)
      then show ?thesis using False st s2 by (auto simp: matches_def)
    qed
  qed
  have start: "kv_item_traverse hal (item_find_cb hal) b key w
      = kv_traverse_loop hal (item_find_cb hal) b key ?p w"
    by (simp add: kv_item_traverse_def blk_start [OF b15])
  show ?thesis
  proof (cases "\<exists>it\<in>set its. matches key it")
    case True
    obtain pre it post where its: "its = pre @ it # post" and mt: "matches key it"
      and nm: "\<forall>x\<in>set pre. \<not> matches key x"
      using split_list_first_prop [OF True] by auto
    have wfs: "x \<in> set its \<Longrightarrow> 12 \<le> item_len x" for x
      using items_at_wf [OF at] item_len_bounds(1) by blast
    have "\<exists>w'. same mem w w' \<and> kv_traverse_loop hal (item_find_cb hal) b key (?p + its_len []) w
        = kv_traverse_loop hal (item_find_cb hal) b key (?p + its_len pre) w'"
    proof (rule traverse_prefix [where I = ?I and todo = pre])
      fix "done" x todo w1 assume pre: "pre = done @ x # todo" and s1: "same mem w w1"
      have "its = done @ x # (todo @ it # post)" using its pre by simp
      from step [OF this s1] nm pre show "\<exists>w'. traverse_step hal (item_find_cb hal) b key
          (?p + its_len done) w1 = (Inr (?p + its_len done + item_len x), w') \<and> same mem w w'"
        by auto
    next
      fix "done" x todo assume "pre = done @ x # todo"
      then show "?p + its_len done + item_len x + 8 < blk_end b"
        using wfs [of it] its short ends by simp
    qed simp_all
    then obtain w1 where s1: "same mem w w1"
      and l1: "kv_traverse_loop hal (item_find_cb hal) b key ?p w
        = kv_traverse_loop hal (item_find_cb hal) b key (?p + its_len pre) w1" by auto
    from step [OF its s1] mt obtain w2 where "same mem w w2"
      "traverse_step hal (item_find_cb hal) b key (?p + its_len pre) w1
        = (Inl (Some (found_item (?p + its_len pre) it), False), w2)" by auto
    then show ?thesis
      using its mt start l1
      by (intro exI [of _ w2] exI [of _ "Some (found_item (?p + its_len pre) it)"])
        (auto simp: kv_traverse_loop.simps [of _ _ _ _ _ w1])
  next
    case False
    have "\<exists>w'. same mem w w' \<and> kv_traverse_loop hal (item_find_cb hal) b key (?p + its_len []) w
        = (None, traverse_finish b (?p + its_len its) w')"
    proof (rule traverse_all [where I = ?I and todo = its])
      fix "done" x todo w1 assume i: "its = done @ x # todo" and s1: "same mem w w1"
      from step [OF i s1] False i show "\<exists>w'. traverse_step hal (item_find_cb hal) b key
          (?p + its_len done) w1 = (Inr (?p + its_len done + item_len x), w') \<and> same mem w w'"
        by auto
    next
      fix w1 assume s1: "same mem w w1" and g: "?p + its_len its + 8 < blk_end b"
      have "heap_ok w1" using same_heap [OF s1] heap by simp
      moreover have "?p + its_len its + 8 \<le> size_of" using g ends base n(2) by linarith
      moreover have "mem (w_flash w1) a = 0xFF"
        if "?p + its_len its \<le> a" "a < ?p + its_len its + 8" for a
        using free that g ends s1 by (simp add: same_def)
      ultimately have "\<exists>w2. same mem w1 w2 \<and> traverse_step hal (item_find_cb hal) b key
          (?p + its_len its) w1 = (Inl (None, True), w2)" by (rule step_free)
      then show "\<exists>w'. traverse_step hal (item_find_cb hal) b key (?p + its_len its) w1
          = (Inl (None, True), w') \<and> same mem w w'"
        using same_trans [OF s1] by blast
    next
      show "?p + its_len its < blk_end b" using short ends by simp
    next
      fix it assume "it \<in> set its"
      then show "12 \<le> item_len it" using items_at_wf [OF at] item_len_bounds(1) by blast
    next
      show "?p + its_len [] + 8 < blk_end b" using ends by simp
    qed simp_all
    then obtain w1 where s1: "same mem w w1" and l1: "kv_traverse_loop hal (item_find_cb hal) b key ?p w
        = (None, traverse_finish b (?p + its_len its) w1)" by auto
    have "traverse_finish b (?p + its_len its) w1 = w1"
      by (rule traverse_finish_id [where m = "mem (w_flash w)"])
        (use inv s1 b b15 len in \<open>auto simp: same_def\<close>)
    then show ?thesis using False start l1 s1 by auto
  qed
qed

end

end
