(* ===== verification/Kv_Refine.thy ===== *)
theory Kv_Refine
  imports Kv_Find
begin

text \<open>
  What the operations of kv.c do to the abstract list of blocks: the search finds the
  live item of a key, the choice of the write position keeps the invariant, a store
  appends an item, a deletion marks one.
\<close>

section \<open>Search over all blocks\<close>

definition found_at :: "aitem list list \<Rightarrow> byte list \<Rightarrow> kv_item \<Rightarrow> bool" where
  "found_at blks key item \<longleftrightarrow> (\<exists>b pre it post. b < length blks \<and> blks ! b = pre @ it # post
     \<and> matches key it \<and> item = found_item (blk_base b + 4 + its_len pre) it)"

lemma kv_inv_blk:
  "kv_inv mem n w blks \<Longrightarrow> b < n \<Longrightarrow> blk_inv (mem (w_flash w)) b (info (w_mgr w) b) (blks ! b)"
  by (simp add: kv_inv_def kv_rep_def)

lemma kv_inv_len: "kv_inv mem n w blks \<Longrightarrow> length blks = n \<and> length (block_infos (w_mgr w)) = n"
  by (simp add: kv_inv_def kv_rep_def)

lemma kv_inv_n: "kv_inv mem n w blks \<Longrightarrow> 2 \<le> n \<and> n \<le> 15"
  by (simp add: kv_inv_def)

lemma kv_inv_heap: "kv_inv mem n w blks \<Longrightarrow> heap_ok w"
  by (simp add: kv_inv_def)

context flash_dev
begin

lemma search_from:
  assumes inv: "kv_inv mem n w blks" and sz: "size_of = n * 4096" and idx: "\<forall>i\<in>set is. i < n"
  shows "\<exists>w' r. same mem w w' \<and> kv_search_from hal is key w = (r, w')
     \<and> (r = None \<and> (\<forall>i\<in>set is. \<forall>it\<in>set (blks ! i). \<not> matches key it)
        \<or> (\<exists>item. r = Some item \<and> found_at blks key item))"
  using inv idx
proof (induction "is" arbitrary: w)
  case Nil
  then show ?case by auto
next
  case (Cons i "is")
  note inv = Cons.prems(1)
  have i: "i < n" using Cons.prems by simp
  have idx: "\<forall>i\<in>set is. i < n" using Cons.prems by simp
  have bi: "blk_inv (mem (w_flash w)) i (info (w_mgr w) i) (blks ! i)"
    using kv_inv_blk [OF inv i] .
  show ?case
  proof (cases "bi_state (info (w_mgr w) i) = 0xEE")
    case True
    then have "blks ! i = []" using bi by (auto simp: blk_inv_def)
    moreover have "kv_search_from hal (i # is) key w = kv_search_from hal is key w"
      using True by (simp add: get_info_def)
    ultimately show ?thesis using Cons.IH [OF inv idx] by auto
  next
    case False
    obtain w1 r1 where w1: "same mem w w1"
      "kv_item_traverse hal (item_find_cb hal) i key w = (r1, w1)"
      and r1: "r1 = None \<and> (\<forall>it\<in>set (blks ! i). \<not> matches key it)
        \<or> (\<exists>pre it post. blks ! i = pre @ it # post \<and> matches key it
             \<and> r1 = Some (found_item (blk_base i + 4 + its_len pre) it))"
      using find_in_block [OF _ sz i kv_inv_heap [OF inv] bi, of key] kv_inv_len [OF inv]
        kv_inv_n [OF inv] by blast
    have inv1: "kv_inv mem n w1 blks" using kv_inv_same [OF w1(1)] inv by simp
    show ?thesis
    proof (cases r1)
      case None
      then have "kv_search_from hal (i # is) key w = kv_search_from hal is key w1"
        using False w1(2) by (simp add: get_info_def)
      moreover have "\<forall>it\<in>set (blks ! i). \<not> matches key it" using r1 None by auto
      ultimately show ?thesis
        using Cons.IH [OF inv1 idx] same_trans [OF w1(1)] by fastforce
    next
      case (Some item)
      then have "kv_search_from hal (i # is) key w = (Some item, w1)"
        using False w1(2) by (simp add: get_info_def)
      moreover have "found_at blks key item"
        using r1 Some i kv_inv_len [OF inv] unfolding found_at_def by auto
      ultimately show ?thesis using w1(1) by auto
    qed
  qed
qed

lemma search_ok:
  assumes inv: "kv_inv mem n w blks" and sz: "size_of = n * 4096"
  shows "\<exists>w' r. same mem w w' \<and> kv_item_search hal n key w = (r, w')
     \<and> (r = None \<and> live blks key = {#} \<or> (\<exists>item. r = Some item \<and> found_at blks key item))"
proof -
  have "\<forall>i\<in>set [0..<n]. i < n" by simp
  note s = search_from [OF inv sz this, of key]
  have "live blks key = {#}" if "\<forall>i\<in>set [0..<n]. \<forall>it\<in>set (blks ! i). \<not> matches key it"
    using that kv_inv_len [OF inv]
    by (fastforce simp: live_def filter_mset_eq_mempty_iff matches_def in_set_conv_nth [of _ blks])
  then show ?thesis using s unfolding kv_item_search_def by blast
qed

end

section \<open>Changing one block\<close>

lemma length_filter_update:
  "b < length xs \<Longrightarrow> length (filter P (xs[b := y])) + of_bool (P (xs ! b))
     = length (filter P xs) + of_bool (P y)"
proof (induction xs arbitrary: b)
  case (Cons x xs)
  then show ?case by (cases b) auto
qed simp

abbreviation is_clean :: "block_info \<Rightarrow> bool" where
  "is_clean i \<equiv> bi_state i = 0xEE"

lemma kv_rep_upd:
  assumes rep: "kv_rep n m mg blks" and b: "b < n" and inv: "blk_inv m' b i' its'"
    and oth: "\<And>a. a < blk_base b \<or> blk_base b + 4096 \<le> a \<Longrightarrow> m' a = m a"
    and infos: "block_infos mg' = (block_infos mg)[b := i']"
    and clean: "clean_blk_nums mg' + of_bool (is_clean (info mg b))
      = clean_blk_nums mg + of_bool (is_clean i')"
  shows "kv_rep n m' mg' (blks[b := its'])"
proof -
  have len: "length blks = n" "length (block_infos mg) = n" using rep by (simp_all add: kv_rep_def)
  have "blk_inv m' c (info mg' c) (blks[b := its'] ! c)" if c: "c < n" for c
  proof (cases "c = b")
    case True
    then show ?thesis using inv b len infos by simp
  next
    case False
    have "blk_rep m' c st its = blk_rep m c st its" for st its
      by (rule blk_rep_cong) (use oth blk_base_disjoint [OF False] in auto)
    then show ?thesis using kv_rep_blk [OF rep c] False c infos
      by (auto simp: blk_inv_def)
  qed
  moreover have "clean_blk_nums mg' = clean_count mg'"
    using length_filter_update [of b "block_infos mg" is_clean i'] len b clean rep
    by (simp add: clean_count_def infos kv_rep_def)
  ultimately show ?thesis using len by (simp add: kv_rep_def infos)
qed

lemma clean_pos:
  assumes "kv_rep n m mg blks" "b < n" "is_clean (info mg b)"
  shows "0 < clean_blk_nums mg \<and> clean_blk_nums mg \<le> n"
proof -
  have len: "length (block_infos mg) = n" and c: "clean_blk_nums mg = clean_count mg"
    using assms(1) by (simp_all add: kv_rep_def)
  have "info mg b \<in> set (filter is_clean (block_infos mg))" using assms len by auto
  then have "0 < clean_count mg" unfolding clean_count_def by (rule length_pos_if_in_set)
  moreover have "clean_count mg \<le> n" unfolding clean_count_def using len by (metis length_filter_le)
  ultimately show ?thesis using c by simp
qed

lemma clean_le: "kv_rep n m mg blks \<Longrightarrow> clean_blk_nums mg \<le> n"
  unfolding kv_rep_def clean_count_def by (metis length_filter_le)

section \<open>Writing in a block\<close>

lemma put_nor_byte: "put_nor m a [v] = m(a := m a AND v)"
  by (auto simp: put_nor_def fun_eq_iff)

lemma blk_rep_set_state:
  assumes "blk_rep m b st its"
  shows "blk_rep (put_nor m (blk_base b + 1) [v]) b (st AND v) its"
proof -
  have "items_at (put_nor m (blk_base b + 1) [v]) (blk_base b + 4) its
      = items_at m (blk_base b + 4) its"
    by (rule items_at_cong) (simp add: put_nor_byte)
  then show ?thesis using assms by (simp add: blk_rep_def put_nor_byte)
qed

lemma blk_rep_append:
  assumes rep: "blk_rep m b st its" and wf: "wf_item it"
    and fits: "4 + its_len its + item_len it < 4096"
  shows "blk_rep (put_nor m (blk_base b + 4 + its_len its) (enc it)) b st (its @ [it])"
proof -
  let ?p = "blk_base b + 4 + its_len its"
  have l: "length (enc it) = item_len it" by (rule length_enc [OF wf])
  have p: "put_nor m ?p (enc it) = put m ?p (enc it)"
    by (rule put_nor_erased) (use rep fits in \<open>auto simp: blk_rep_def l\<close>)
  have "items_at (put m ?p (enc it)) (blk_base b + 4) its"
    using rep items_at_cong [of "blk_base b + 4" its "put m ?p (enc it)" m]
    by (simp add: blk_rep_def put_def)
  moreover have "get_range (put m ?p (enc it)) ?p (item_len it) = enc it"
    using get_range_put_same [of m ?p "enc it"] by (simp add: l)
  ultimately show ?thesis using rep wf fits
    by (auto simp: blk_rep_def items_at_append p) (auto simp: put_def l)
qed

definition deleted :: "aitem \<Rightarrow> aitem" where
  "deleted it = it\<lparr>ai_state := KV_ITEM_STATE_DELETE\<rparr>"

lemma deleted_simps [simp]:
  "item_len (deleted it) = item_len it" "wf_item it \<Longrightarrow> wf_item (deleted it)"
  "\<not> normal (deleted it)" "ai_key (deleted it) = ai_key it" "ai_val (deleted it) = ai_val it"
  by (simp_all add: deleted_def item_len_def wf_item_def normal_def)

lemma enc_deleted:
  "enc (deleted it) = (enc it)[1 := 0]"
  by (simp add: enc_def item_hdr_bytes_def hdr_of_def deleted_def item_len_def)

lemma blk_rep_delete:
  assumes rep: "blk_rep m b st (pre @ it # post)"
  shows "blk_rep (put_nor m (blk_base b + 4 + its_len pre + 1) [0]) b st (pre @ deleted it # post)"
proof -
  define p where "p = blk_base b + 4 + its_len pre"
  define m2 where "m2 = put_nor m (p + 1) [0]"
  have m2: "m2 a = (if a = p + 1 then 0 else m a)" for a
    by (simp add: m2_def put_nor_byte)
  have at: "items_at m (blk_base b + 4) pre" "wf_item it"
    "get_range m p (item_len it) = enc it" "items_at m (p + item_len it) post"
    using rep by (simp_all add: blk_rep_def items_at_append p_def)
  have l: "12 \<le> item_len it" by (rule item_len_bounds(1) [OF at(2)])
  have "items_at m2 (blk_base b + 4) pre = items_at m (blk_base b + 4) pre"
    by (rule items_at_cong) (simp add: m2 p_def)
  moreover have "items_at m2 (p + item_len it) post = items_at m (p + item_len it) post"
    by (rule items_at_cong) (use l in \<open>simp add: m2\<close>)
  moreover have "get_range m2 p (item_len it) = enc (deleted it)"
  proof (rule get_range_eqI)
    show "length (enc (deleted it)) = item_len it" using length_enc at(2) by (simp add: enc_deleted)
    fix i assume i: "i < item_len it"
    have "m (p + i) = enc it ! i" using i by (simp flip: at(3))
    then show "m2 (p + i) = enc (deleted it) ! i"
      using i length_enc [OF at(2)] by (auto simp: m2 enc_deleted nth_list_update)
  qed
  ultimately have "items_at m2 (blk_base b + 4) (pre @ deleted it # post)"
    using at by (simp add: items_at_append p_def)
  then have "blk_rep m2 b st (pre @ deleted it # post)"
    using rep l by (auto simp: blk_rep_def m2 p_def)
  then show ?thesis by (simp only: m2_def p_def)
qed

section \<open>Choosing the write position\<close>

lemma trigger_inv: "kv_inv mem n w blks \<Longrightarrow> kv_inv mem n (kv_trigger_gc w) blks"
  by (auto simp: kv_inv_def kv_trigger_gc_def kv_start_task_def upd_mgr_def kv_rep_def wp_ok_def
      clean_count_def heap_ok_def)

lemma trigger_simps [simp]:
  "w_lock (kv_trigger_gc w) = w_lock w" "w_flash (kv_trigger_gc w) = w_flash w"
  "block_infos (w_mgr (kv_trigger_gc w)) = block_infos (w_mgr w)"
  "write_pos (w_mgr (kv_trigger_gc w)) = write_pos (w_mgr w)"
  by (simp_all add: kv_trigger_gc_def kv_start_task_def upd_mgr_def)

text \<open>The write position is at the end of a block in use with more than \<open>len\<close> bytes left.\<close>

definition ready_at :: "nat \<Rightarrow> 'f kv_world \<Rightarrow> aitem list list \<Rightarrow> nat \<Rightarrow> nat \<Rightarrow> bool" where
  "ready_at n w blks len pos \<longleftrightarrow> (\<exists>b<n. pos = blk_base b + 4 + its_len (blks ! b)
     \<and> write_pos (w_mgr w) = pos \<and> \<not> is_clean (info (w_mgr w) b)
     \<and> len < bi_space (info (w_mgr w) b))"

lemma write_block:
  assumes "kv_inv mem n w blks"
  shows "\<exists>b<n. u8 (write_pos (w_mgr w) div 4096) = b \<and> write_pos (w_mgr w) div 4096 = b
     \<and> write_pos (w_mgr w) = blk_base b + 4 + its_len (blks ! b)
     \<and> \<not> is_clean (info (w_mgr w) b)"
proof -
  obtain b where b: "b < n" "\<not> is_clean (info (w_mgr w) b)"
    "write_pos (w_mgr w) = blk_base b + 4 + its_len (blks ! b)"
    using assms by (auto simp: kv_inv_def wp_ok_def)
  have "4 + its_len (blks ! b) < 4096"
    using kv_inv_blk [OF assms b(1)] by (simp add: blk_inv_def blk_rep_def)
  then have "write_pos (w_mgr w) div 4096 = b"
    using blk_base_div [of "4 + its_len (blks ! b)" b] b(3) by (simp add: add.assoc)
  then show ?thesis using b kv_inv_n [OF assms] by auto
qed

lemma block_pos:
  assumes "blk_inv m i (info mg i) its" "i < n" "n \<le> 15"
  shows "u16 (i * 4096 + sub_u16 4096 (bi_space (info mg i))) = blk_base i + 4 + its_len its"
proof -
  have s: "bi_space (info mg i) + 4 + its_len its = 4096" using assms(1) by (simp add: blk_inv_def)
  then have "sub_u16 4096 (bi_space (info mg i)) = 4 + its_len its" by simp
  then show ?thesis using s assms(2,3) by (simp add: blk_base_def)
qed

context flash_dev
begin

lemma set_state_ok:
  assumes "i < n" "n \<le> 15" "size_of = n * 4096"
  shows "\<exists>f'. kv_set_block_state hal i st w = (0, set_blk_state i st (w\<lparr>w_flash := f'\<rparr>))
     \<and> mem f' = put_nor (mem (w_flash w)) (blk_base i + 1) [st]"
proof -
  have p: "u32 (Suc (i * 4096)) = Suc (blk_base i)" using assms by (simp add: blk_base_def)
  have "blk_base i + 1 + length [st] \<le> size_of"
    using blk_base_bound [OF assms(1,2)] assms(3) by simp
  from flash_write [OF this, of w] show ?thesis
    by (auto simp: kv_set_block_state_def p)
qed

text \<open>A clean block is put into use.\<close>

lemma use_block:
  assumes inv: "kv_inv mem n w blks" and i: "i < n" and sz: "size_of = n * 4096"
    and clean: "is_clean (info (w_mgr w) i)"
  defines "w1 \<equiv> set_write_pos (blk_base i + 4 + its_len (blks ! i)) w"
  shows "\<exists>w2. kv_set_block_state hal i 0xCC w1 = (0, w2)
     \<and> kv_inv mem n (set_clean_nums (sub_u8 (clean_blk_nums (w_mgr w2)) 1) w2) blks
     \<and> w_lock w2 = w_lock w
     \<and> block_infos (w_mgr w2) = (block_infos (w_mgr w))[i := (info (w_mgr w) i)\<lparr>bi_state := 0xCC\<rparr>]
     \<and> write_pos (w_mgr w2) = blk_base i + 4 + its_len (blks ! i)"
proof -
  have n: "2 \<le> n" "n \<le> 15" using kv_inv_n [OF inv] by simp_all
  have rep: "kv_rep n (mem (w_flash w)) (w_mgr w) blks" using inv by (simp add: kv_inv_def)
  obtain f' where f: "kv_set_block_state hal i 0xCC w1 = (0, set_blk_state i 0xCC (w1\<lparr>w_flash := f'\<rparr>))"
    "mem f' = put_nor (mem (w_flash w)) (blk_base i + 1) [0xCC]"
    using set_state_ok [OF i n(2) sz, of "0xCC" w1] by (auto simp: w1_def world_upd_defs)
  let ?w2 = "set_blk_state i 0xCC (w1\<lparr>w_flash := f'\<rparr>)"
  let ?w3 = "set_clean_nums (sub_u8 (clean_blk_nums (w_mgr ?w2)) 1) ?w2"
  have bi: "blk_inv (mem (w_flash w)) i (info (w_mgr w) i) (blks ! i)" by (rule kv_inv_blk [OF inv i])
  have cl: "0 < clean_blk_nums (w_mgr w)" "clean_blk_nums (w_mgr w) \<le> n"
    using clean_pos [OF rep i clean] by simp_all
  have bi2: "blk_inv (mem f') i ((info (w_mgr w) i)\<lparr>bi_state := 0xCC\<rparr>) (blks ! i)"
    using bi clean blk_rep_set_state [of _ i "0xEE" "blks ! i" "0xCC"]
    by (auto simp: blk_inv_def f(2))
  have "kv_rep n (mem f') (w_mgr ?w3) (blks[i := blks ! i])"
  proof (rule kv_rep_upd [OF rep i bi2])
    show "mem f' a = mem (w_flash w) a" if "a < blk_base i \<or> blk_base i + 4096 \<le> a" for a
      using that by (auto simp: f(2) put_nor_byte)
    show "block_infos (w_mgr ?w3) = (block_infos (w_mgr w))[i := (info (w_mgr w) i)\<lparr>bi_state := 0xCC\<rparr>]"
      by (simp add: w1_def world_upd_defs)
    show "clean_blk_nums (w_mgr ?w3) + of_bool (is_clean (info (w_mgr w) i))
        = clean_blk_nums (w_mgr w) + of_bool (is_clean ((info (w_mgr w) i)\<lparr>bi_state := 0xCC\<rparr>))"
      using cl n clean by (simp add: w1_def world_upd_defs)
  qed
  moreover have "wp_ok n (w_mgr ?w3) blks"
    unfolding wp_ok_def using i kv_inv_len [OF inv]
    by (intro exI [of _ i]) (simp add: w1_def world_upd_defs)
  ultimately have "kv_inv mem n ?w3 blks"
    using inv by (simp add: kv_inv_def heap_ok_def w1_def world_upd_defs)
  then show ?thesis
    using f(1) by (intro exI [of _ ?w2]) (simp add: w1_def world_upd_defs)
qed

end

text \<open>
  The blocks that the loop of \<open>kv_calc_position\<close> visits, and what it does with the
  first of them that has enough space.
\<close>

definition scan_order :: "nat \<Rightarrow> nat \<Rightarrow> nat list" where
  "scan_order n blk = [blk + 1..<n] @ [0..<blk]"

definition take_blk :: "'f flash_hal \<Rightarrow> nat \<Rightarrow> 'f kv_world \<Rightarrow> nat option \<times> 'f kv_world" where
  "take_blk hal i w =
     (let w1 = set_write_pos (u16 (i * 4096 + sub_u16 4096 (bi_space (get_info w i)))) w
      in if bi_state (get_info w i) = KV_BLOCK_STATE_CLEAN then
           let (ret, w2) = kv_set_block_state hal i KV_BLOCK_STATE_USED w1
           in if ret \<noteq> KV_OK then (Some 0, w2)
              else let w3 = set_clean_nums (sub_u8 (clean_blk_nums (w_mgr w2)) 1) w2
                   in (Some (write_pos (w_mgr w3)), w3)
         else (Some (write_pos (w_mgr w1)), w1))"

abbreviation has_space :: "'f kv_world \<Rightarrow> nat \<Rightarrow> nat \<Rightarrow> bool" where
  "has_space w len j \<equiv> len < bi_space (info (w_mgr w) j)"

lemma scan_unfold:
  "i0 \<noteq> blk \<Longrightarrow> kv_calc_scan hal n blk len i0 w =
    (let i = (if i0 = n then 0 else i0)
     in if has_space w len i then Some (take_blk hal i w)
        else kv_calc_scan hal n blk len (u8 (i + 1)) w)"
  by (subst kv_calc_scan.simps)
    (simp add: take_blk_def Let_def get_info_def split: prod.splits)

lemma scan_stop: "kv_calc_scan hal n blk len blk w = Some (None, w)"
  by (subst kv_calc_scan.simps) simp

lemma scan_upto:
  assumes "n \<le> 15"
  shows "i \<le> k \<Longrightarrow> k \<le> n \<Longrightarrow> blk < i \<or> k \<le> blk \<Longrightarrow> kv_calc_scan hal n blk len i w =
    (case find (has_space w len) [i..<k] of
       Some j \<Rightarrow> Some (take_blk hal j w) | None \<Rightarrow> kv_calc_scan hal n blk len k w)"
proof (induction "k - i" arbitrary: i)
  case 0
  then show ?case by simp
next
  case (Suc d)
  then have i: "i < k" "i \<noteq> blk" "i \<noteq> n" "d = k - Suc i" "[i..<k] = i # [Suc i..<k]"
    by (auto simp: upt_conv_Cons)
  have u: "u8 (Suc i) = Suc i" using i(1) Suc.prems(2) assms by simp
  have "blk < Suc i \<or> k \<le> blk" using Suc.prems(3) by auto
  with Suc.hyps(1) [OF i(4)] i(1) Suc.prems(2) show ?case
    unfolding scan_unfold [OF i(2)] Let_def i(5) using i(3) by (simp add: u)
qed

lemma scan_wrap: "blk \<noteq> 0 \<Longrightarrow> blk \<noteq> n \<Longrightarrow>
  kv_calc_scan hal n blk len n w = kv_calc_scan hal n blk len 0 w"
  using scan_unfold [of n blk hal n len w] scan_unfold [of 0 blk hal n len w] by simp

text \<open>With the write position in block 0 and no space anywhere the loop does not end.\<close>

lemma scan_diverges:
  assumes "kv_calc_scan hal n 0 len i0 w = Some rw" "\<forall>j<n. \<not> has_space w len j"
    "0 < n" "n \<le> 15" "i0 \<noteq> 0" "i0 \<le> n"
  shows False
proof -
  have "blk = 0 \<longrightarrow> (\<forall>j<n. \<not> has_space w len j) \<longrightarrow> 0 < n \<longrightarrow> n \<le> 15 \<longrightarrow> i0 \<noteq> 0 \<longrightarrow> i0 \<le> n \<longrightarrow> False"
    if "kv_calc_scan hal n blk len i0 w = Some rw" for hal n blk len i0 w rw
    using that
  proof (induction rule: kv_calc_scan.raw_induct [rotated, consumes 1])
    case (1 f hal n blk len i0 w rw)
    show ?case
    proof (intro impI)
      assume a: "blk = 0" "\<forall>j<n. \<not> has_space w len j" "0 < n" "n \<le> 15" "i0 \<noteq> 0" "i0 \<le> n"
      define i where "i = (if i0 = n then 0 else i0)"
      have i: "i < n" "u8 (i + 1) \<noteq> 0" "u8 (i + 1) \<le> n"
        using a by (auto simp: i_def)
      have "\<not> len < bi_space (get_info w i)" using a(2) i(1) by (simp add: get_info_def)
      then have "f hal n blk len (u8 (i + 1)) w = Some rw"
        using 1(2) a(1,5) unfolding i_def [symmetric] by (simp add: Let_def)
      from 1(1) [OF this] a i show False by simp
    qed
  qed
  with assms show False by blast
qed

theorem calc_scan_eq:
  assumes n: "n \<le> 15" and blk: "blk < n" "\<not> has_space w len blk"
  shows "kv_calc_scan hal n blk len (blk + 1) w =
    (case find (has_space w len) (scan_order n blk) of
       Some j \<Rightarrow> Some (take_blk hal j w)
     | None \<Rightarrow> if blk = 0 then None else Some (None, w))"
proof -
  let ?S = "kv_calc_scan hal n blk len"
  have up: "?S (blk + 1) w = (case find (has_space w len) [blk + 1..<n] of
      Some j \<Rightarrow> Some (take_blk hal j w) | None \<Rightarrow> ?S n w)"
    using scan_upto [OF n, of "blk + 1" n blk] blk(1) by simp
  show ?thesis
  proof (cases "blk = 0")
    case False
    have "?S n w = (case find (has_space w len) [0..<blk] of
        Some j \<Rightarrow> Some (take_blk hal j w) | None \<Rightarrow> Some (None, w))"
      using scan_upto [OF n, of 0 blk blk hal len w] scan_wrap [OF False, of n hal len w] blk(1)
      by (simp add: scan_stop split: option.splits)
    then show ?thesis using up False by (simp add: scan_order_def find_append split: option.splits)
  next
    case True
    have "?S n w = None" if none: "find (has_space w len) [1..<n] = None"
    proof (rule ccontr)
      assume "?S n w \<noteq> None"
      then obtain rw where rw: "kv_calc_scan hal n 0 len n w = Some rw" using True by auto
      have "\<forall>j<n. \<not> has_space w len j"
      proof (intro allI impI)
        fix j assume "j < n"
        then show "\<not> has_space w len j"
          using none blk True by (cases "j = 0") (auto simp: find_None_iff)
      qed
      from scan_diverges [OF rw this] blk n show False by simp
    qed
    then show ?thesis using up True by (auto simp: scan_order_def split: option.splits)
  qed
qed

text \<open>When \<open>kv_calc_position\<close> returns, and what it leaves behind.\<close>

lemma calc_position_none:
  assumes n: "n \<le> 15" and wp: "write_pos (w_mgr w) div 4096 < n"
  shows "kv_calc_position hal n len w = None \<longleftrightarrow>
    write_pos (w_mgr w) div 4096 = 0 \<and> 2 < n \<and> (\<forall>b<n. \<not> has_space w len b)"
proof -
  define b where "b = write_pos (w_mgr w) div 4096"
  have b: "b < n" "u8 (write_pos (w_mgr w) div 4096) = b" "write_pos (w_mgr w) div 4096 = b"
    "u8 (Suc b) = Suc b"
    using wp n by (simp_all add: b_def)
  show ?thesis
  proof (cases "has_space w len b \<or> n \<le> 2")
    case True
    then show ?thesis using b by (auto simp: kv_calc_position_def Let_def get_info_def)
  next
    case False
    then have ns: "\<not> has_space w len b" by simp
    have "find (has_space w len) (scan_order n b) = None \<longleftrightarrow> (\<forall>j<n. \<not> has_space w len j)"
      using ns b(1) by (auto simp: find_None_iff scan_order_def) (metis Suc_leI linorder_neqE_nat)
    moreover have "kv_calc_position hal n len w = None \<longleftrightarrow> kv_calc_scan hal n b len (b + 1) w = None"
      using False b n by (cases "kv_calc_scan hal n b len (b + 1) w")
        (auto simp: kv_calc_position_def Let_def get_info_def split: option.splits)
    ultimately show ?thesis
      using calc_scan_eq [OF n b(1) ns, of hal] False b(3) by (auto split: option.splits)
  qed
qed

text \<open>With space in some block a position is found.\<close>

lemma calc_position_room:
  assumes n: "2 < n" "n \<le> 15" and wp: "write_pos (w_mgr w) div 4096 < n" "0 < write_pos (w_mgr w)"
    and c: "c < n" "has_space w len c"
    and take: "\<And>j. j < n \<Longrightarrow> has_space w len j \<Longrightarrow> \<exists>pos w'. take_blk hal j w = (Some pos, w') \<and> 0 < pos"
  shows "\<exists>pos w'. kv_calc_position hal n len w = Some (pos, w') \<and> 0 < pos"
proof -
  define b where "b = write_pos (w_mgr w) div 4096"
  have b: "b < n" "u8 (write_pos (w_mgr w) div 4096) = b" "u8 (Suc b) = Suc b"
    using wp n by (simp_all add: b_def)
  show ?thesis
  proof (cases "has_space w len b")
    case True
    then show ?thesis using b wp by (auto simp: kv_calc_position_def Let_def get_info_def)
  next
    case False
    have "c \<noteq> b" using c False by auto
    then have "c \<in> set (scan_order n b)" using c(1) by (auto simp: scan_order_def)
    then obtain j where j: "find (has_space w len) (scan_order n b) = Some j"
      using c(2) by (cases "find (has_space w len) (scan_order n b)") (auto simp: find_None_iff)
    then have "j < n" "has_space w len j" using find_SomeD [OF j] b(1) by (auto simp: scan_order_def)
    from take [OF this] obtain pos w' where p: "take_blk hal j w = (Some pos, w')" "0 < pos" by blast
    have "kv_calc_scan hal n b len (Suc b) w = Some (Some pos, w')"
      using calc_scan_eq [OF n(2) b(1) False, of hal] j p(1) by simp
    then show ?thesis using p(2) False b n by (auto simp: kv_calc_position_def Let_def get_info_def)
  qed
qed

context flash_dev
begin

lemma take_blk_ok:
  assumes inv: "kv_inv mem n w blks" and i: "i < n" and sz: "size_of = n * 4096"
    and sp: "has_space w len i"
  shows "\<exists>pos w'. take_blk hal i w = (Some pos, w') \<and> kv_inv mem n w' blks
     \<and> w_lock w' = w_lock w \<and> ready_at n w' blks len pos"
proof -
  have n: "n \<le> 15" using kv_inv_n [OF inv] by simp
  have bi: "blk_inv (mem (w_flash w)) i (info (w_mgr w) i) (blks ! i)" by (rule kv_inv_blk [OF inv i])
  have pos: "u16 (i * 4096 + sub_u16 4096 (bi_space (get_info w i))) = blk_base i + 4 + its_len (blks ! i)"
    using block_pos [OF bi i n] by (simp add: get_info_def)
  show ?thesis
  proof (cases "is_clean (info (w_mgr w) i)")
    case True
    obtain w2 where w2: "kv_set_block_state hal i 0xCC (set_write_pos (blk_base i + 4 + its_len (blks ! i)) w)
        = (0, w2)"
      "kv_inv mem n (set_clean_nums (sub_u8 (clean_blk_nums (w_mgr w2)) 1) w2) blks"
      "w_lock w2 = w_lock w"
      "block_infos (w_mgr w2) = (block_infos (w_mgr w))[i := (info (w_mgr w) i)\<lparr>bi_state := 0xCC\<rparr>]"
      "write_pos (w_mgr w2) = blk_base i + 4 + its_len (blks ! i)"
      using use_block [OF inv i sz True] by blast
    let ?w3 = "set_clean_nums (sub_u8 (clean_blk_nums (w_mgr w2)) 1) w2"
    have "take_blk hal i w = (Some (blk_base i + 4 + its_len (blks ! i)), ?w3)"
      using True w2(1,5) [unfolded world_upd_defs] by (simp add: take_blk_def pos [unfolded get_info_def] Let_def get_info_def world_upd_defs)
    moreover have "ready_at n ?w3 blks len (blk_base i + 4 + its_len (blks ! i))"
      unfolding ready_at_def using i sp kv_inv_len [OF inv] w2(4,5)
      by (intro exI [of _ i]) (simp add: world_upd_defs)
    ultimately show ?thesis using w2(2,3) by (simp add: world_upd_defs)
  next
    case False
    let ?w1 = "set_write_pos (blk_base i + 4 + its_len (blks ! i)) w"
    have "take_blk hal i w = (Some (blk_base i + 4 + its_len (blks ! i)), ?w1)"
      using False by (simp add: take_blk_def pos [unfolded get_info_def] Let_def get_info_def world_upd_defs)
    moreover have "ready_at n ?w1 blks len (blk_base i + 4 + its_len (blks ! i))"
      unfolding ready_at_def using i sp False
      by (intro exI [of _ i]) (simp add: world_upd_defs)
    moreover have "kv_inv mem n ?w1 blks"
      using inv i False by (auto simp: kv_inv_def kv_rep_def wp_ok_def heap_ok_def clean_count_def world_upd_defs)
    ultimately show ?thesis by (simp add: world_upd_defs)
  qed
qed

lemma calc_position_ok:
  assumes inv: "kv_inv mem n w blks" and sz: "size_of = n * 4096"
    and run: "kv_calc_position hal n len w = Some (pos, w')"
  shows "kv_inv mem n w' blks \<and> w_lock w' = w_lock w \<and> (pos = 0 \<or> ready_at n w' blks len pos)"
proof -
  obtain b where b: "b < n" "u8 (write_pos (w_mgr w) div 4096) = b"
    "write_pos (w_mgr w) = blk_base b + 4 + its_len (blks ! b)" "\<not> is_clean (info (w_mgr w) b)"
    using write_block [OF inv] by auto
  have n: "n \<le> 15" "u8 (Suc b) = Suc b" using kv_inv_n [OF inv] b(1) by simp_all
  show ?thesis
  proof (cases "has_space w len b")
    case True
    then have "ready_at n w blks len (write_pos (w_mgr w))"
      using b by (auto simp: ready_at_def)
    moreover have "ready_at n (kv_trigger_gc w) blks len p = ready_at n w blks len p" for p
      by (simp add: ready_at_def)
    ultimately show ?thesis
      using run True b trigger_inv [OF inv] inv
      by (auto simp: kv_calc_position_def Let_def get_info_def split: if_splits)
  next
    case False
    show ?thesis
    proof (cases "n \<le> 2")
      case True
      then show ?thesis
        using run False b trigger_inv [OF inv] by (auto simp: kv_calc_position_def Let_def get_info_def)
    next
      case n2: False
      have body: "kv_calc_position hal n len w =
        (case kv_calc_scan hal n b len (b + 1) w of None \<Rightarrow> None
         | Some (Some p, w1) \<Rightarrow> Some (p, w1) | Some (None, w1) \<Rightarrow> Some (0, kv_trigger_gc w1))"
        using False n2 b n by (auto simp: kv_calc_position_def Let_def get_info_def split: option.splits)
      show ?thesis
      proof (cases "find (has_space w len) (scan_order n b)")
        case None
        then show ?thesis
          using run body calc_scan_eq [OF n(1) b(1) False, of hal] trigger_inv [OF inv]
          by (auto split: if_splits)
      next
        case (Some j)
        then have j: "j < n" "has_space w len j"
          using b(1) find_SomeD [OF Some] by (auto simp: scan_order_def)
        then show ?thesis
          using run body calc_scan_eq [OF n(1) b(1) False, of hal] Some take_blk_ok [OF inv j(1) sz j(2)]
          by auto
      qed
    qed
  qed
qed

end

section \<open>Storing an item\<close>

definition new_item :: "byte list \<Rightarrow> byte list \<Rightarrow> nat \<Rightarrow> aitem" where
  "new_item key val org = \<lparr>ai_state = KV_ITEM_STATE_NORMAL, ai_key = key, ai_val = val, ai_org = org\<rparr>"

definition add_item :: "nat \<Rightarrow> aitem \<Rightarrow> aitem list list \<Rightarrow> aitem list list" where
  "add_item b it blks = blks[b := blks ! b @ [it]]"

lemma item_image_enc:
  assumes "wf_item (new_item key (take len val) org)" "len \<le> length val"
  shows "item_image key val len org = enc (new_item key (take len val) org)"
    "u16 (KV_ALIGN (8 + u8 (length key) + u16 len)) = item_len (new_item key (take len val) org)"
proof -
  have l: "length key \<le> 128" "len \<le> 512"
    using assms by (simp_all add: wf_item_def new_item_def)
  have a: "KV_ALIGN (8 + length key + len) \<le> 648"
    using item_len_bounds(2) [OF assms(1)] assms(2) by (simp add: item_len_def new_item_def)
  then show "u16 (KV_ALIGN (8 + u8 (length key) + u16 len)) = item_len (new_item key (take len val) org)"
    using l assms(2) by (simp add: item_len_def new_item_def)
  show "item_image key val len org = enc (new_item key (take len val) org)"
    using a l assms(2)
    by (simp add: item_image_def enc_def hdr_of_def new_item_def item_len_def Let_def)
qed

context flash_dev
begin

lemma append_ok:
  assumes inv: "kv_inv mem n w blks" and sz: "size_of = n * 4096" and wf: "wf_item it"
    and nrm: "normal it" and rdy: "ready_at n w blks (item_len it) pos"
  shows "\<exists>w3 b. kv_flash_write hal pos (enc it) w = (0, w3) \<and> w_lock w3 = w_lock w \<and> b < n
     \<and> (let w4 = set_write_pos (u16 (pos + item_len it)) w3;
            idx = u8 (write_pos (w_mgr w4) div KV_BLOCK_SIZE)
        in kv_inv mem n (set_blk_space idx (sub_u16 (bi_space (get_info w4 idx)) (item_len it)) w4)
             (add_item b it blks))"
proof -
  have n: "2 \<le> n" "n \<le> 15" using kv_inv_n [OF inv] by simp_all
  have rep: "kv_rep n (mem (w_flash w)) (w_mgr w) blks" using inv by (simp add: kv_inv_def)
  obtain b where b: "b < n" "pos = blk_base b + 4 + its_len (blks ! b)"
    "\<not> is_clean (info (w_mgr w) b)" "item_len it < bi_space (info (w_mgr w) b)"
    using rdy by (auto simp: ready_at_def)
  have bi: "blk_inv (mem (w_flash w)) b (info (w_mgr w) b) (blks ! b)" by (rule kv_inv_blk [OF inv b(1)])
  then have sp: "bi_space (info (w_mgr w) b) + 4 + its_len (blks ! b) = 4096"
    by (simp add: blk_inv_def)
  then have fits: "4 + its_len (blks ! b) + item_len it < 4096" using b(4) by simp
  note base = blk_base_bound [OF b(1) n(2)]
  have "pos + length (enc it) \<le> size_of"
    using fits base b(2) sz by (simp add: length_enc [OF wf])
  from flash_write [OF this, of w] obtain f' where
    f: "kv_flash_write hal pos (enc it) w = (0, w\<lparr>w_flash := f'\<rparr>)"
    "mem f' = put_nor (mem (w_flash w)) pos (enc it)" by blast
  let ?w3 = "w\<lparr>w_flash := f'\<rparr>"
  let ?w4 = "set_write_pos (u16 (pos + item_len it)) ?w3"
  let ?i' = "(info (w_mgr w) b)\<lparr>bi_space := bi_space (info (w_mgr w) b) - item_len it\<rparr>"
  have wp: "u16 (pos + item_len it) = blk_base b + (4 + its_len (blks ! b) + item_len it)"
    using fits base b(2) by simp
  have idx: "u8 (u16 (pos + item_len it) div 4096) = b"
    using blk_base_div [OF fits, of b] b(1) n(2) by (simp add: wp)
  have sub: "sub_u16 (bi_space (info (w_mgr w) b)) (item_len it)
      = bi_space (info (w_mgr w) b) - item_len it" using b(4) sp by simp
  let ?w5 = "set_blk_space b (bi_space (info (w_mgr w) b) - item_len it) ?w4"
  have bi2: "blk_inv (mem f') b ?i' (blks ! b @ [it])"
    using bi blk_rep_append [OF _ wf fits, of _ b] nrm sp b(3,4)
    by (auto simp: blk_inv_def f(2) b(2))
  have out: "mem f' a = mem (w_flash w) a" if "a < blk_base b \<or> blk_base b + 4096 \<le> a" for a
    using that fits by (auto simp: f(2) put_nor_def length_enc [OF wf] b(2))
  have "kv_rep n (mem f') (w_mgr ?w5) (add_item b it blks)"
    unfolding add_item_def
    by (rule kv_rep_upd [OF rep b(1) bi2 out])
      (simp_all add: world_upd_defs)
  moreover have "wp_ok n (w_mgr ?w5) (add_item b it blks)"
    unfolding wp_ok_def using b(1,3) kv_inv_len [OF inv]
    by (intro exI [of _ b]) (simp add: world_upd_defs add_item_def wp)
  ultimately have "kv_inv mem n ?w5 (add_item b it blks)"
    using inv by (simp add: kv_inv_def heap_ok_def world_upd_defs)
  moreover have "write_pos (w_mgr ?w4) = u16 (pos + item_len it)"
    "get_info ?w4 b = info (w_mgr w) b"
    by (simp_all add: world_upd_defs get_info_def)
  ultimately show ?thesis
    using f(1) b(1) by (intro exI [of _ ?w3] exI [of _ b]) (simp add: Let_def idx sub)
qed

lemma store_ok:
  assumes inv: "kv_inv mem n w blks" and sz: "size_of = n * 4096"
    and wf: "wf_item (new_item key (take len val) org)" and len: "len \<le> length val"
    and run: "kv_item_store hal n key val len org w = Some (res, w')"
  shows "w_lock w' = w_lock w \<and>
    (res = KV_ERR_NO_SPACE \<and> kv_inv mem n w' blks
     \<or> res = KV_OK \<and> (\<exists>b<n. kv_inv mem n w' (add_item b (new_item key (take len val) org) blks)))"
proof -
  let ?it = "new_item key (take len val) org"
  obtain w1 where w1: "kv_malloc w = (True, w1)" "same mem w w1"
    using malloc_ok [OF kv_inv_heap [OF inv]] by blast
  have inv1: "kv_inv mem n w1 blks" and l1: "w_lock w1 = w_lock w"
    using kv_inv_same [OF w1(2)] inv w1(2) by (simp_all add: same_def)
  note img = item_image_enc [OF wf len]
  obtain pos w2 where c: "kv_calc_position hal n (item_len ?it) w1 = Some (pos, w2)"
    using run w1(1) unfolding kv_item_store_def img(2) Let_def
    by (auto simp: bind_eq_Some_conv)
  have c2: "kv_inv mem n w2 blks" "w_lock w2 = w_lock w1"
    "pos = 0 \<or> ready_at n w2 blks (item_len ?it) pos"
    using calc_position_ok [OF inv1 sz c] by auto
  show ?thesis
  proof (cases "pos = 0")
    case True
    then show ?thesis
      using run w1(1) c c2 l1 unfolding kv_item_store_def img(2) Let_def by simp
  next
    case False
    then have rdy: "ready_at n w2 blks (item_len ?it) pos" using c2 by simp
    have nrm: "normal ?it" by (simp add: normal_def new_item_def)
    from append_ok [OF c2(1) sz wf nrm rdy] obtain w3 b where
      w3: "kv_flash_write hal pos (enc ?it) w2 = (0, w3)" "w_lock w3 = w_lock w2" "b < n"
      and fin: "let w4 = set_write_pos (u16 (pos + item_len ?it)) w3;
            idx = u8 (write_pos (w_mgr w4) div KV_BLOCK_SIZE)
        in kv_inv mem n (set_blk_space idx (sub_u16 (bi_space (get_info w4 idx)) (item_len ?it)) w4)
             (add_item b ?it blks)" by blast
    have "res = KV_OK \<and> w' = (let w4 = set_write_pos (u16 (pos + item_len ?it)) w3;
            idx = u8 (write_pos (w_mgr w4) div KV_BLOCK_SIZE)
        in set_blk_space idx (sub_u16 (bi_space (get_info w4 idx)) (item_len ?it)) w4)"
      using run w1(1) c False w3(1) unfolding kv_item_store_def img Let_def by simp
    then show ?thesis using fin w3(2,3) c2(2) l1 by (auto simp: Let_def world_upd_defs)
  qed
qed

lemma store_room:
  assumes inv: "kv_inv mem n w blks" and sz: "size_of = n * 4096" and n: "2 < n"
    and wf: "wf_item (new_item key (take len val) org)" and len: "len \<le> length val"
    and c: "c < n" "has_space w (item_len (new_item key (take len val) org)) c"
  shows "\<exists>w'. kv_item_store hal n key val len org w = Some (KV_OK, w')"
proof -
  let ?it = "new_item key (take len val) org"
  obtain w1 where w1: "kv_malloc w = (True, w1)" "same mem w w1"
    using malloc_ok [OF kv_inv_heap [OF inv]] by blast
  have inv1: "kv_inv mem n w1 blks" using kv_inv_same [OF w1(2)] inv by simp
  have c1: "has_space w1 (item_len ?it) c" using c(2) w1(2) by (simp add: same_def)
  note img = item_image_enc [OF wf len]
  have wb: "write_pos (w_mgr w1) div 4096 < n" "0 < write_pos (w_mgr w1)"
    using write_block [OF inv1] by auto
  have "\<exists>pos w'. take_blk hal j w1 = (Some pos, w') \<and> 0 < pos"
    if "j < n" "has_space w1 (item_len ?it) j" for j
    using take_blk_ok [OF inv1 that(1) sz that(2)] by (auto simp: ready_at_def)
  from calc_position_room [OF n _ wb c(1) c1 this] kv_inv_n [OF inv] obtain pos w2 where
    p: "kv_calc_position hal n (item_len ?it) w1 = Some (pos, w2)" "0 < pos" by auto
  have c2: "kv_inv mem n w2 blks" "ready_at n w2 blks (item_len ?it) pos"
    using calc_position_ok [OF inv1 sz p(1)] p(2) by auto
  have nrm: "normal ?it" by (simp add: normal_def new_item_def)
  from append_ok [OF c2(1) sz wf nrm c2(2)] obtain w3 where
    "kv_flash_write hal pos (enc ?it) w2 = (0, w3)" by blast
  then show ?thesis
    using w1(1) p unfolding kv_item_store_def img Let_def by simp
qed

end

section \<open>Deleting an item\<close>

definition kill_item :: "nat \<Rightarrow> aitem list \<Rightarrow> aitem \<Rightarrow> aitem list \<Rightarrow> aitem list list \<Rightarrow> aitem list list" where
  "kill_item b pre it post blks = blks[b := pre @ deleted it # post]"

lemma wp_ok_kill:
  assumes "wp_ok n mg blks" "length blks = n" "blks ! b = pre @ it # post"
    "write_pos mg' = write_pos mg"
    "\<And>c. c < n \<Longrightarrow> \<not> is_clean (info mg c) \<Longrightarrow> \<not> is_clean (info mg' c)"
  shows "wp_ok n mg' (kill_item b pre it post blks)"
proof -
  have "its_len (kill_item b pre it post blks ! c) = its_len (blks ! c)" if "c < n" for c
    using assms(2,3) that by (cases "c = b") (simp_all add: kill_item_def)
  then show ?thesis using assms(1,4,5) unfolding wp_ok_def by metis
qed

context flash_dev
begin

lemma mark_deleted_ok:
  assumes inv: "kv_inv mem n w blks" and sz: "size_of = n * 4096"
    and b: "b < n" "blks ! b = pre @ it # post" and nrm: "normal it"
  shows "\<exists>w'. kv_item_mark_deleted hal (blk_base b + 4 + its_len pre) w = (0, w')
     \<and> w_lock w' = w_lock w \<and> kv_inv mem n w' (kill_item b pre it post blks)"
proof -
  have n: "2 \<le> n" "n \<le> 15" using kv_inv_n [OF inv] by simp_all
  have rep: "kv_rep n (mem (w_flash w)) (w_mgr w) blks" using inv by (simp add: kv_inv_def)
  have bi: "blk_inv (mem (w_flash w)) b (info (w_mgr w) b) (pre @ it # post)"
    using kv_inv_blk [OF inv b(1)] b(2) by simp
  define pos where "pos = blk_base b + 4 + its_len pre"
  note base = blk_base_bound [OF b(1) n(2)]
  have short: "4 + its_len pre + item_len it < 4096" "wf_item it"
    using bi by (auto simp: blk_inv_def blk_rep_def items_at_append)
  have l: "12 \<le> item_len it" by (rule item_len_bounds(1) [OF short(2)])
  have "pos + 1 + length [0 :: byte] \<le> size_of" using short l base sz by (simp add: pos_def)
  from flash_write [OF this, of w] obtain f' where
    f: "kv_flash_write hal (pos + 1) [0] w = (0, w\<lparr>w_flash := f'\<rparr>)"
    "mem f' = put_nor (mem (w_flash w)) (pos + 1) [0]" by blast
  let ?w1 = "w\<lparr>w_flash := f'\<rparr>"
  have idx: "u8 (pos div 4096) = b"
    using blk_base_div [of "4 + its_len pre" b] short b(1) n(2) by (simp add: pos_def add.assoc)
  have nclean: "\<not> is_clean (info (w_mgr w) b)" using bi by (auto simp: blk_inv_def)
  have r1: "blk_rep (mem f') b (bi_state (info (w_mgr w) b)) (pre @ deleted it # post)"
    using bi blk_rep_delete [of _ b _ pre it post] unfolding f(2) pos_def blk_inv_def by blast
  have out1: "mem f' a = mem (w_flash w) a" if "a < blk_base b \<or> blk_base b + 4096 \<le> a" for a
    using that short l by (auto simp: f(2) put_nor_byte pos_def)
  show ?thesis
  proof (cases "bi_state (info (w_mgr w) b) = 0xCC")
    case True
    obtain f2 where f2: "kv_set_block_state hal b 0x44 ?w1 = (0, set_blk_state b 0x44 (?w1\<lparr>w_flash := f2\<rparr>))"
      "mem f2 = put_nor (mem f') (blk_base b + 1) [0x44]"
      using set_state_ok [OF b(1) n(2) sz, of "0x44" ?w1] by auto
    let ?w2 = "set_blk_state b 0x44 (?w1\<lparr>w_flash := f2\<rparr>)"
    have "kv_item_mark_deleted hal pos w = (0, ?w2)"
      using True f(1) f2(1) by (simp add: kv_item_mark_deleted_def kv_set_item_state_def Let_def idx get_info_def)
    moreover have "kv_rep n (mem f2) (w_mgr ?w2) (kill_item b pre it post blks)"
      unfolding kill_item_def
    proof (rule kv_rep_upd [OF rep b(1)])
      show "blk_inv (mem f2) b ((info (w_mgr w) b)\<lparr>bi_state := 0x44\<rparr>) (pre @ deleted it # post)"
        using bi blk_rep_set_state [OF r1, of "0x44"] True by (auto simp: blk_inv_def f2(2))
      show "mem f2 a = mem (w_flash w) a" if "a < blk_base b \<or> blk_base b + 4096 \<le> a" for a
        using out1 that by (auto simp: f2(2) put_nor_byte)
    qed (use True in \<open>simp_all add: world_upd_defs\<close>)
    moreover have "wp_ok n (w_mgr ?w2) (kill_item b pre it post blks)"
      by (rule wp_ok_kill [of _ "w_mgr w"])
        (use inv b kv_inv_len [OF inv] in \<open>auto simp: kv_inv_def world_upd_defs nth_list_update\<close>)
    ultimately show ?thesis
      using inv unfolding pos_def
      by (intro exI [of _ ?w2]) (simp add: kv_inv_def heap_ok_def world_upd_defs)
  next
    case False
    then have dirty: "bi_state (info (w_mgr w) b) = 0x44" using bi nclean by (auto simp: blk_inv_def)
    have "kv_item_mark_deleted hal pos w = (0, ?w1)"
      using dirty f(1) by (simp add: kv_item_mark_deleted_def kv_set_item_state_def Let_def idx get_info_def)
    moreover have "kv_rep n (mem f') (w_mgr ?w1) (kill_item b pre it post blks)"
      unfolding kill_item_def
    proof (rule kv_rep_upd [OF rep b(1) _ out1])
      show "blk_inv (mem f') b (info (w_mgr w) b) (pre @ deleted it # post)"
        using bi r1 dirty by (auto simp: blk_inv_def)
    qed simp_all
    moreover have "wp_ok n (w_mgr ?w1) (kill_item b pre it post blks)"
      by (rule wp_ok_kill [of _ "w_mgr w"])
        (use inv b kv_inv_len [OF inv] in \<open>auto simp: kv_inv_def\<close>)
    ultimately show ?thesis
      using inv unfolding pos_def
      by (intro exI [of _ ?w1]) (simp add: kv_inv_def heap_ok_def)
  qed
qed

end

section \<open>The live items after a change\<close>

lemma mset_concat_update:
  "b < length blks \<Longrightarrow> mset (concat (blks[b := xs])) + mset (blks ! b) = mset (concat blks) + mset xs"
proof (induction blks arbitrary: b)
  case (Cons y ys)
  then show ?case by (cases b) (auto simp: ac_simps)
qed simp

lemma live_add:
  assumes "b < length blks" "normal it"
  shows "live (add_item b it blks) k = live blks k + (if ai_key it = k then {#it#} else {#})"
proof -
  have "mset (concat (add_item b it blks)) = mset (concat blks) + {#it#}"
    using mset_concat_update [OF assms(1), of "blks ! b @ [it]"]
    by (simp add: add_item_def)
  then show ?thesis using assms(2) by (simp add: live_def)
qed

lemma live_kill:
  assumes "b < length blks" "blks ! b = pre @ it # post" "normal it"
  shows "live blks k = live (kill_item b pre it post blks) k
     + (if ai_key it = k then {#it#} else {#})"
proof -
  have "add_mset it (mset (concat (kill_item b pre it post blks)))
      = add_mset (deleted it) (mset (concat blks))"
    using mset_concat_update [OF assms(1), of "pre @ deleted it # post"]
    by (simp add: kill_item_def assms(2))
  then have "filter_mset (\<lambda>it. normal it \<and> ai_key it = k) (add_mset it (mset (concat (kill_item b pre it post blks))))
      = filter_mset (\<lambda>it. normal it \<and> ai_key it = k) (add_mset (deleted it) (mset (concat blks)))"
    by simp
  then show ?thesis using assms(3) by (auto simp: live_def)
qed

end
