(* ===== verification/Kv_Gc.thy ===== *)
theory Kv_Gc
  imports Kv_Refine
begin

text \<open>
  Garbage collection of kv.c: formatting a block, copying the live items of a dirty
  block into a clean one, and the task as a whole. The task always ends, keeps the
  invariant and the live items of every key.
\<close>

section \<open>Formatting\<close>

abbreviation fresh_info :: block_info where
  "fresh_info \<equiv> \<lparr>bi_space = 4092, bi_state = 0xEE\<rparr>"

context flash_dev
begin

lemma format_ok:
  assumes b: "b < n" "n \<le> 15" and sz: "size_of = n * 4096"
    and len: "length (block_infos (w_mgr w)) = n"
  shows "\<exists>w'. kv_block_format hal b w = (0, w') \<and> blk_rep (mem (w_flash w')) b 0xEE []
     \<and> (\<forall>a. a < blk_base b \<or> blk_base b + 4096 \<le> a \<longrightarrow> mem (w_flash w') a = mem (w_flash w) a)
     \<and> w_mgr w' = (w_mgr w)\<lparr>block_infos := (block_infos (w_mgr w))[b := fresh_info],
                            clean_blk_nums := u8 (clean_blk_nums (w_mgr w) + 1)\<rparr>
     \<and> w_alloc w' = w_alloc w \<and> w_lock w' = w_lock w \<and> w_gc_tasks w' = w_gc_tasks w"
proof -
  have p: "u16 (b * 4096) = blk_base b" using b by (simp add: blk_base_def)
  note base = blk_base_bound [OF b]
  have "blk_base b mod 4096 = 0" "blk_base b + 4096 \<le> size_of"
    using base sz by (simp_all add: blk_base_def)
  from flash_erase [OF this, of w] obtain f1 where
    f1: "kv_flash_erase hal (blk_base b) 4096 w = (0, w\<lparr>w_flash := f1\<rparr>)"
    "mem f1 = erase_range (mem (w_flash w)) (blk_base b) 4096" by blast
  let ?h = "block_hdr_bytes \<lparr>bh_magic = 0x4B, bh_state = 0xEE\<rparr>"
  have "blk_base b + length ?h \<le> size_of" using base sz by (simp add: block_hdr_bytes_def)
  from flash_write [OF this, of "w\<lparr>w_flash := f1\<rparr>"] obtain f2 where
    f2: "kv_flash_write hal (blk_base b) ?h (w\<lparr>w_flash := f1\<rparr>) = (0, w\<lparr>w_flash := f2\<rparr>)"
    "mem f2 = put_nor (mem f1) (blk_base b) ?h" by auto
  have "put_nor (mem f1) (blk_base b) ?h = put (mem f1) (blk_base b) ?h"
    by (rule put_nor_erased) (auto simp: f1(2) erase_range_def block_hdr_bytes_def)
  then have m: "mem f2 = put (erase_range (mem (w_flash w)) (blk_base b) 4096) (blk_base b) ?h"
    using f1(2) f2(2) by simp
  let ?w' = "set_clean_nums (u8 (clean_blk_nums (w_mgr w) + 1)) (set_blk_space b 4092
       (set_blk_state b 0xEE (w\<lparr>w_flash := f2\<rparr>)))"
  have "kv_block_format hal b w = (0, ?w')"
    unfolding kv_block_format_def p by (simp add: f1(1) f2(1) Let_def) (simp add: world_upd_defs)
  moreover have "blk_rep (mem f2) b 0xEE []"
    by (auto simp: blk_rep_def m put_def erase_range_def block_hdr_bytes_def)
  moreover have "mem f2 a = mem (w_flash w) a" if "a < blk_base b \<or> blk_base b + 4096 \<le> a" for a
    using that by (auto simp: m put_def erase_range_def block_hdr_bytes_def)
  moreover have fi: "i\<lparr>bi_state := 0xEE, bi_space := 4092\<rparr> = fresh_info" for i :: block_info
    by (cases i) simp
  moreover have "w_mgr ?w' = (w_mgr w)\<lparr>block_infos := (block_infos (w_mgr w))[b := fresh_info],
      clean_blk_nums := u8 (clean_blk_nums (w_mgr w) + 1)\<rparr>"
    using b len by (simp add: world_upd_defs fi)
  moreover have "w_flash ?w' = f2" "w_alloc ?w' = w_alloc w" "w_lock ?w' = w_lock w"
    "w_gc_tasks ?w' = w_gc_tasks w"
    by (simp_all add: world_upd_defs)
  ultimately show ?thesis
    by (intro exI [of _ ?w']) simp
qed

end

section \<open>Copying the live items\<close>

text \<open>What holds while block \<open>gc\<close> receives the live items among \<open>done\<close>.\<close>

definition copying ::
  "('f \<Rightarrow> nat \<Rightarrow> byte) \<Rightarrow> nat \<Rightarrow> 'f kv_world \<Rightarrow> aitem list \<Rightarrow> 'f kv_world \<Rightarrow> bool" where
  "copying mem gc w done w' \<longleftrightarrow>
     w_mgr w' = (w_mgr w)\<lparr>write_pos := blk_base gc + 4 + its_len (filter normal done),
       block_infos := (block_infos (w_mgr w))[gc :=
         (info (w_mgr w) gc)\<lparr>bi_space := 4092 - its_len (filter normal done)\<rparr>]\<rparr>
     \<and> blk_rep (mem (w_flash w')) gc 0xEE (filter normal done)
     \<and> (\<forall>a. a < blk_base gc \<or> blk_base gc + 4096 \<le> a \<longrightarrow> mem (w_flash w') a = mem (w_flash w) a)
     \<and> w_alloc w' = w_alloc w \<and> w_lock w' = w_lock w \<and> w_gc_tasks w' = w_gc_tasks w"

lemma copying_same: "copying mem gc w done w1 \<Longrightarrow> same mem w1 w2 \<Longrightarrow> copying mem gc w done w2"
  by (simp add: copying_def same_def)

lemma copying_heap: "copying mem gc w done w1 \<Longrightarrow> heap_ok w \<Longrightarrow> heap_ok w1"
  by (simp add: copying_def heap_ok_def)

lemma its_len_filter_le: "its_len (filter P xs) \<le> its_len xs"
  by (induction xs) auto

context flash_dev
begin

lemma gc_cb_ok:
  assumes cp: "copying mem gc w done w1" and heap: "heap_ok w" and gc: "gc < n" "n \<le> 15"
    and sz: "size_of = n * 4096" and len: "length (block_infos (w_mgr w)) = n"
    and wf: "wf_item it" and nrm: "normal it" and fits: "4 + its_len (done @ [it]) < 4096"
    and img: "get_range (mem (w_flash w1)) q (item_len it) = enc it" "q + item_len it \<le> size_of"
  shows "\<exists>w2. item_gc_cb hal (mk_item q it) key w1 = (KV_LOOP_CONTINUE, mk_item q it, w2)
     \<and> copying mem gc w (done @ [it]) w2"
proof -
  let ?d = "filter normal done"
  have dl: "its_len ?d \<le> its_len done" by (rule its_len_filter_le)
  have fits2: "4 + its_len ?d + item_len it < 4096" using fits dl by simp
  note base = blk_base_bound [OF gc]
  have l: "u16 (KV_ALIGN (8 + it_len (mk_item q it))) = item_len it"
    using item_len_bounds(2) [OF wf] by (simp add: mk_item_def item_len_def add.assoc)
  obtain w2 where w2: "kv_malloc w1 = (True, w2)" "same mem w1 w2"
    using malloc_ok [OF copying_heap [OF cp heap]] by blast
  have "q + length (replicate (item_len it) (0 :: byte)) \<le> size_of" using img(2) by simp
  from read_same [OF this, of w2] obtain w3 where
    w3: "kv_flash_read hal q (replicate (item_len it) 0) w2 = (0, enc it, w3)" "same mem w2 w3"
    using img(1) w2(2) by (auto simp: same_def)
  have cp3: "copying mem gc w done w3"
    using copying_same [OF copying_same [OF cp w2(2)] w3(2)] .
  let ?p = "blk_base gc + 4 + its_len ?d"
  have wp: "write_pos (w_mgr w3) = ?p" using cp3 by (simp add: copying_def)
  have "?p + length (enc it) \<le> size_of" using fits2 base sz by (simp add: length_enc [OF wf])
  from flash_write [OF this, of w3] obtain f4 where
    f4: "kv_flash_write hal ?p (enc it) w3 = (0, w3\<lparr>w_flash := f4\<rparr>)"
    "mem f4 = put_nor (mem (w_flash w3)) ?p (enc it)" by blast
  have p2: "u16 (?p + item_len it) = blk_base gc + (4 + its_len ?d + item_len it)"
    using fits2 base by simp
  have idx: "u8 (u16 (?p + item_len it) div 4096) = gc"
    using blk_base_div [OF fits2, of gc] gc by (simp add: p2)
  let ?w4 = "set_write_pos (u16 (?p + item_len it)) (w3\<lparr>w_flash := f4\<rparr>)"
  let ?w5 = "set_blk_space gc (sub_u16 (bi_space (get_info ?w4 gc)) (item_len it)) ?w4"
  have "item_gc_cb hal (mk_item q it) key w1 = (KV_LOOP_CONTINUE, mk_item q it, ?w5)"
    unfolding item_gc_cb_def l w2(1) Let_def
    using w3(1) wp f4(1) idx
    by (simp add: mk_item_def world_upd_defs)
  moreover have "bi_space (get_info ?w4 gc) = 4092 - its_len ?d"
    using cp3 gc len by (simp add: copying_def get_info_def world_upd_defs)
  moreover have "sub_u16 (4092 - its_len ?d) (item_len it) = 4092 - its_len (filter normal (done @ [it]))"
    using fits2 nrm by simp
  moreover have "blk_rep (mem f4) gc 0xEE (filter normal (done @ [it]))"
    using blk_rep_append [OF _ wf fits2, of "mem (w_flash w3)" gc "0xEE"] cp3 nrm
    by (simp add: copying_def f4(2))
  moreover have "mem f4 a = mem (w_flash w) a" if "a < blk_base gc \<or> blk_base gc + 4096 \<le> a" for a
    using that cp3 fits2 by (auto simp: copying_def f4(2) put_nor_def length_enc [OF wf])
  ultimately have "copying mem gc w (done @ [it]) ?w5"
    using cp3 nrm gc len p2 by (simp add: copying_def world_upd_defs)
  then show ?thesis using \<open>item_gc_cb hal (mk_item q it) key w1 = _\<close> by blast
qed

text \<open>The traversal of the dirty block \<open>b\<close> copies its live items.\<close>

lemma gc_traverse:
  assumes rep: "kv_rep n (mem (w_flash w)) (w_mgr w) blks" and heap: "heap_ok w"
    and n: "n \<le> 15" "size_of = n * 4096" and gc: "gc < n" "is_clean (info (w_mgr w) gc)"
    and b: "b < n" "bi_state (info (w_mgr w) b) = 0x44"
    and start: "copying mem gc w [] w"
  shows "\<exists>w'. kv_item_traverse hal (item_gc_cb hal) b key w = (None, w')
     \<and> copying mem gc w (blks ! b) w'"
proof -
  let ?p = "blk_base b + 4" and ?its = "blks ! b"
  have b15: "b < 15" and ne: "gc \<noteq> b" using n b gc by auto
  have len: "length (block_infos (w_mgr w)) = n" using rep by (simp add: kv_rep_def)
  have inv: "blk_inv (mem (w_flash w)) b (info (w_mgr w) b) ?its" by (rule kv_rep_blk [OF rep b(1)])
  note base = blk_base_bound [OF b(1) n(1)]
  have ends: "blk_end b = blk_base b + 4096" by (rule blk_end_base [OF b15])
  have at: "items_at (mem (w_flash w)) ?p ?its" and short: "4 + its_len ?its < 4096"
    and free: "\<forall>a. ?p + its_len ?its \<le> a \<and> a < blk_base b + 4096 \<longrightarrow> mem (w_flash w) a = 0xFF"
    using inv by (auto simp: blk_inv_def blk_rep_def)
  have keep: "mem (w_flash w1) a = mem (w_flash w) a"
    if "copying mem gc w d w1" "blk_base b \<le> a" "a < blk_base b + 4096" for d w1 a
    using that blk_base_disjoint [OF ne] by (auto simp: copying_def)
  have st: "bi_state (info (w_mgr w1) b) = 0x44 \<and> info (w_mgr w1) b = info (w_mgr w) b"
    if "copying mem gc w d w1" for d w1
    using that ne b by (simp add: copying_def)
  have "\<exists>w'. copying mem gc w ?its w' \<and> kv_traverse_loop hal (item_gc_cb hal) b key (?p + its_len []) w
      = (None, traverse_finish b (?p + its_len ?its) w')"
  proof (rule traverse_all [where I = "copying mem gc w" and todo = ?its])
    fix "done" it todo w1
    assume its: "?its = done @ it # todo" and cp: "copying mem gc w done w1"
    let ?q = "?p + its_len done"
    have wf: "wf_item it" using at its by (simp add: items_at_append)
    have img0: "get_range (mem (w_flash w)) ?q (item_len it) = enc it"
      using at unfolding its items_at_append by simp
    have q: "?q + item_len it \<le> size_of" "?q + item_len it < 65536"
      "?q + item_len it < blk_base b + 4096"
      using short its base n(2) by auto
    have "get_range (mem (w_flash w1)) ?q (item_len it) = get_range (mem (w_flash w)) ?q (item_len it)"
      by (rule get_range_eqI) (use keep [OF cp] q in auto)
    then have img: "get_range (mem (w_flash w1)) ?q (item_len it) = enc it" using img0 by simp
    have h1: "heap_ok w1" by (rule copying_heap [OF cp heap])
    from step_item [OF h1 q(1,2) wf img, of "item_gc_cb hal" b key] obtain w2 where
      w2: "same mem w1 w2" and stp: "traverse_step hal (item_gc_cb hal) b key ?q w1 =
        (if normal it then
          (case item_gc_cb hal (mk_item ?q it) key w2 of (res, item', w3) \<Rightarrow>
             if res = KV_OK then (Inl (Some item', False), w3)
             else if res \<noteq> KV_LOOP_CONTINUE then (Inl (None, False), w3)
             else (Inr (?q + item_len it), w3))
        else (Inr (?q + item_len it), mark_used_dirty hal b w2))" by blast
    have cp2: "copying mem gc w done w2" by (rule copying_same [OF cp w2])
    show "\<exists>w'. traverse_step hal (item_gc_cb hal) b key ?q w1 = (Inr (?q + item_len it), w')
        \<and> copying mem gc w (done @ [it]) w'"
    proof (cases "normal it")
      case True
      have fits: "4 + its_len (done @ [it]) < 4096" using short its by simp
      have img2: "get_range (mem (w_flash w2)) ?q (item_len it) = enc it"
        using img w2 by (simp add: same_def)
      from gc_cb_ok [OF cp2 heap gc(1) n(1) n(2) len wf True fits img2 q(1), of key]
      show ?thesis using stp True by auto
    next
      case False
      have "mark_used_dirty hal b w2 = w2"
        using st [OF cp2] b(2) by (simp add: mark_used_dirty_def get_info_def)
      moreover have "copying mem gc w (done @ [it]) w2" using cp2 False by (simp add: copying_def)
      ultimately show ?thesis using stp False by auto
    qed
  next
    fix w1 assume cp: "copying mem gc w ?its w1" and g: "?p + its_len ?its + 8 < blk_end b"
    have h1: "heap_ok w1" by (rule copying_heap [OF cp heap])
    moreover have "?p + its_len ?its + 8 \<le> size_of" using g ends base n(2) by linarith
    moreover have "mem (w_flash w1) a = 0xFF"
      if "?p + its_len ?its \<le> a" "a < ?p + its_len ?its + 8" for a
      using free that g ends keep [OF cp, of a] by simp
    ultimately have "\<exists>w2. same mem w1 w2 \<and> traverse_step hal (item_gc_cb hal) b key
        (?p + its_len ?its) w1 = (Inl (None, True), w2)" by (rule step_free)
    then show "\<exists>w'. traverse_step hal (item_gc_cb hal) b key (?p + its_len ?its) w1
        = (Inl (None, True), w') \<and> copying mem gc w ?its w'"
      using copying_same [OF cp] by blast
  next
    show "?p + its_len ?its < blk_end b" using short ends by simp
  next
    fix it assume "it \<in> set ?its"
    then show "12 \<le> item_len it" using items_at_wf [OF at] item_len_bounds(1) by blast
  next
    show "?p + its_len [] + 8 < blk_end b" using ends by simp
  qed (use start in simp_all)
  then obtain w1 where cp: "copying mem gc w ?its w1"
    and l1: "kv_traverse_loop hal (item_gc_cb hal) b key ?p w
      = (None, traverse_finish b (?p + its_len ?its) w1)" by auto
  have "traverse_finish b (?p + its_len ?its) w1 = w1"
    by (rule traverse_finish_id [where m = "mem (w_flash w)"])
      (use inv st [OF cp] cp b b15 len in \<open>auto simp: copying_def\<close>)
  then show ?thesis using l1 cp by (simp add: kv_item_traverse_def blk_start [OF b15])
qed

end

section \<open>One block is collected\<close>

definition gc_blk :: "'f flash_hal \<Rightarrow> nat \<Rightarrow> nat \<Rightarrow> 'f kv_world \<Rightarrow> (unit + bool) \<times> 'f kv_world" where
  "gc_blk hal gc_idx i w =
     (let w1 = snd (kv_item_traverse hal (item_gc_cb hal) i [] w);
          (res, w2) = kv_block_format hal i w1
      in if res \<noteq> KV_OK then (Inl (), w2)
         else let w3 = snd (kv_set_block_state hal gc_idx KV_BLOCK_STATE_USED w2)
              in (Inr True, set_clean_nums (sub_u8 (clean_blk_nums (w_mgr w3)) 1) w3))"

definition collected :: "nat \<Rightarrow> nat \<Rightarrow> aitem list list \<Rightarrow> aitem list list" where
  "collected gc b blks = blks[gc := filter normal (blks ! b), b := []]"

lemma live_collected:
  assumes "gc < length blks" "b < length blks" "gc \<noteq> b" "blks ! gc = []"
  shows "live (collected gc b blks) k = live blks k"
proof -
  have "mset (concat (blks[gc := filter normal (blks ! b)]))
      = mset (concat blks) + mset (filter normal (blks ! b))"
    using mset_concat_update [OF assms(1), of "filter normal (blks ! b)"] assms(4) by simp
  moreover have "mset (concat (collected gc b blks)) + mset (blks ! b)
      = mset (concat (blks[gc := filter normal (blks ! b)]))"
    using mset_concat_update [of b "blks[gc := filter normal (blks ! b)]" "[]"] assms
    by (simp add: collected_def)
  ultimately have e: "mset (concat (collected gc b blks)) + mset (blks ! b)
      = mset (concat blks) + mset (filter normal (blks ! b))" by simp
  let ?P = "\<lambda>it. normal it \<and> ai_key it = k"
  have "filter_mset ?P (mset (filter normal (blks ! b))) = filter_mset ?P (mset (blks ! b))"
    by (simp add: filter_filter_mset flip: mset_filter)
  moreover have "filter_mset ?P (mset (concat (collected gc b blks))) + filter_mset ?P (mset (blks ! b))
      = filter_mset ?P (mset (concat blks)) + filter_mset ?P (mset (filter normal (blks ! b)))"
    using arg_cong [OF e, of "filter_mset ?P"] by simp
  ultimately show ?thesis unfolding live_def by simp
qed

context flash_dev
begin

lemma gc_blk_ok:
  assumes rep: "kv_rep n (mem (w_flash w)) (w_mgr w) blks" and heap: "heap_ok w"
    and n: "2 \<le> n" "n \<le> 15" "size_of = n * 4096"
    and gc: "gc < n" "is_clean (info (w_mgr w) gc)"
    and b: "b < n" "bi_state (info (w_mgr w) b) = 0x44"
    and wp: "write_pos (w_mgr w) = blk_base gc + 4"
  shows "\<exists>w'. gc_blk hal gc b w = (Inr True, w') \<and> w_lock w' = w_lock w
     \<and> heap_ok w' \<and> w_gc_tasks w' = w_gc_tasks w
     \<and> kv_rep n (mem (w_flash w')) (w_mgr w') (collected gc b blks)
     \<and> wp_ok n (w_mgr w') (collected gc b blks)"
proof -
  have ne: "gc \<noteq> b" using gc b by auto
  have len: "length blks = n" "length (block_infos (w_mgr w)) = n"
    using rep by (simp_all add: kv_rep_def)
  have bgc: "blk_inv (mem (w_flash w)) gc (info (w_mgr w) gc) (blks ! gc)" by (rule kv_rep_blk [OF rep gc(1)])
  then have gce: "blks ! gc = []" "bi_space (info (w_mgr w) gc) = 4092"
    "blk_rep (mem (w_flash w)) gc 0xEE []"
    using gc(2) by (auto simp: blk_inv_def)
  have igc: "(info (w_mgr w) gc)\<lparr>bi_space := 4092\<rparr> = info (w_mgr w) gc"
    using gce(2) by (cases "info (w_mgr w) gc") simp
  have "(w_mgr w)\<lparr>write_pos := blk_base gc + 4, block_infos := (block_infos (w_mgr w))[gc :=
      (info (w_mgr w) gc)\<lparr>bi_space := 4092\<rparr>]\<rparr> = w_mgr w"
    unfolding igc using wp by (cases "w_mgr w") simp
  then have "copying mem gc w [] w"
    using gce by (simp add: copying_def)
  from gc_traverse [OF rep heap n(2,3) gc b this, of "[]"] obtain w1 where
    w1: "kv_item_traverse hal (item_gc_cb hal) b [] w = (None, w1)" "copying mem gc w (blks ! b) w1"
    by blast
  let ?F = "filter normal (blks ! b)"
  have l1: "length (block_infos (w_mgr w1)) = n" using w1(2) len by (simp add: copying_def)
  from format_ok [OF b(1) n(2,3) l1] obtain w2 where
    w2: "kv_block_format hal b w1 = (0, w2)" "blk_rep (mem (w_flash w2)) b 0xEE []"
    "\<forall>a. a < blk_base b \<or> blk_base b + 4096 \<le> a \<longrightarrow> mem (w_flash w2) a = mem (w_flash w1) a"
    "w_mgr w2 = (w_mgr w1)\<lparr>block_infos := (block_infos (w_mgr w1))[b := fresh_info],
                            clean_blk_nums := u8 (clean_blk_nums (w_mgr w1) + 1)\<rparr>"
    "w_alloc w2 = w_alloc w1" "w_lock w2 = w_lock w1" "w_gc_tasks w2 = w_gc_tasks w1"
    by blast
  from set_state_ok [OF gc(1) n(2,3), of "0xCC" w2] obtain f3 where
    f3: "kv_set_block_state hal gc 0xCC w2 = (0, set_blk_state gc 0xCC (w2\<lparr>w_flash := f3\<rparr>))"
    "mem f3 = put_nor (mem (w_flash w2)) (blk_base gc + 1) [0xCC]" by blast
  let ?w3 = "set_blk_state gc 0xCC (w2\<lparr>w_flash := f3\<rparr>)"
  let ?w4 = "set_clean_nums (sub_u8 (clean_blk_nums (w_mgr ?w3)) 1) ?w3"
  have run: "gc_blk hal gc b w = (Inr True, ?w4)"
    by (simp add: gc_blk_def w1(1) w2(1) f3(1) Let_def)
  note disj = blk_base_disjoint [OF ne]
  have cl: "clean_blk_nums (w_mgr w) \<le> n" by (rule clean_le [OF rep])
  have short: "4 + its_len ?F < 4096" using w1(2) by (simp add: copying_def blk_rep_def)
  let ?igc = "(info (w_mgr w) gc)\<lparr>bi_space := 4092 - its_len ?F, bi_state := 0xCC\<rparr>"
  have infos: "block_infos (w_mgr ?w4) = (block_infos (w_mgr w))[gc := ?igc, b := fresh_info]"
    using w1(2) w2(4) ne gc(1) b(1) len
    by (simp add: copying_def world_upd_defs list_update_swap [of gc b])
  have "blk_rep (mem (w_flash w2)) gc 0xEE ?F = blk_rep (mem (w_flash w1)) gc 0xEE ?F"
    by (rule blk_rep_cong) (use w2(3) disj in auto)
  then have "blk_rep (mem (w_flash w2)) gc 0xEE ?F" using w1(2) by (simp add: copying_def)
  from blk_rep_set_state [OF this, of "0xCC"]
  have rgc: "blk_rep (mem f3) gc 0xCC ?F" by (simp add: f3(2))
  have "blk_rep (mem f3) b 0xEE [] = blk_rep (mem (w_flash w2)) b 0xEE []"
    by (rule blk_rep_cong) (use disj in \<open>auto simp: f3(2) put_nor_byte\<close>)
  then have rb: "blk_rep (mem f3) b 0xEE []" using w2(2) by simp
  have oth: "blk_rep (mem f3) c st its = blk_rep (mem (w_flash w)) c st its"
    if "c \<noteq> gc" "c \<noteq> b" for c st its
  proof (rule blk_rep_cong)
    fix a assume a: "blk_base c \<le> a" "a < blk_base c + 4096"
    then show "mem f3 a = mem (w_flash w) a"
      using blk_base_disjoint [OF that(1)] blk_base_disjoint [OF that(2)] w1(2) w2(3)
      by (auto simp: f3(2) put_nor_byte copying_def)
  qed
  have "blk_inv (mem f3) c (info (w_mgr ?w4) c) (collected gc b blks ! c)" if c: "c < n" for c
  proof -
    consider "c = b" | "c = gc" | "c \<noteq> gc" "c \<noteq> b" by blast
    then show ?thesis
    proof cases
      case 1
      then show ?thesis unfolding infos using rb b(1) len by (simp add: collected_def blk_inv_def)
    next
      case 2
      then show ?thesis unfolding infos using rgc gc(1) ne len short
        by (simp add: collected_def blk_inv_def list_all_iff)
    next
      case 3
      then show ?thesis unfolding infos using kv_rep_blk [OF rep c] oth [OF 3]
        by (simp add: collected_def blk_inv_def)
    qed
  qed
  moreover have "clean_blk_nums (w_mgr ?w4) = clean_count (w_mgr ?w4)"
  proof -
    have "length (filter is_clean ((block_infos (w_mgr w))[gc := ?igc])) + 1
        = length (filter is_clean (block_infos (w_mgr w)))"
      using length_filter_update [of gc "block_infos (w_mgr w)" is_clean ?igc] gc len by simp
    moreover have "length (filter is_clean ((block_infos (w_mgr w))[gc := ?igc, b := fresh_info]))
        = length (filter is_clean ((block_infos (w_mgr w))[gc := ?igc])) + 1"
      using length_filter_update [of b "(block_infos (w_mgr w))[gc := ?igc]" is_clean fresh_info] b len ne
      by simp
    ultimately have "clean_count (w_mgr ?w4) = clean_blk_nums (w_mgr w)"
      using rep unfolding clean_count_def infos kv_rep_def by simp
    moreover have "clean_blk_nums (w_mgr ?w4) = clean_blk_nums (w_mgr w)"
      using w1(2) w2(4) cl n(2) by (simp add: copying_def world_upd_defs)
    ultimately show ?thesis by simp
  qed
  ultimately have "kv_rep n (mem f3) (w_mgr ?w4) (collected gc b blks)"
    using len unfolding kv_rep_def infos by (simp add: collected_def)
  moreover have "wp_ok n (w_mgr ?w4) (collected gc b blks)"
    unfolding wp_ok_def
  proof (intro exI [of _ gc] conjI)
    show "bi_state (info (w_mgr ?w4) gc) \<noteq> 0xEE" unfolding infos using gc(1) ne len by simp
    show "write_pos (w_mgr ?w4) = blk_base gc + 4 + its_len (collected gc b blks ! gc)"
      using w1(2) w2(4) gc(1) ne len by (simp add: copying_def world_upd_defs collected_def)
  qed (rule gc(1))
  moreover have "w_lock ?w4 = w_lock w" "heap_ok ?w4" "w_gc_tasks ?w4 = w_gc_tasks w"
    "w_flash ?w4 = f3"
    using w1(2) w2(5-7) heap by (simp_all add: copying_def world_upd_defs heap_ok_def)
  ultimately show ?thesis using run by auto
qed

end

section \<open>The scan for a dirty block\<close>

definition gc_order :: "nat \<Rightarrow> nat \<Rightarrow> nat list" where
  "gc_order n org = [org + 1..<n] @ [0..<org + 1]"

abbreviation is_dirty :: "'f kv_world \<Rightarrow> nat \<Rightarrow> bool" where
  "is_dirty w i \<equiv> bi_state (info (w_mgr w) i) = 0x44"

lemma gc_unfold:
  "kv_gc_scan hal n gc org i0 w =
    (let i = (if i0 = n then 0 else i0)
     in if is_dirty w i then Some (gc_blk hal gc i w)
        else if i = org then Some (Inr False, w)
        else kv_gc_scan hal n gc org (u8 (i + 1)) w)"
  by (subst kv_gc_scan.simps) (simp add: gc_blk_def Let_def get_info_def split: prod.splits)

lemma gc_upto:
  assumes "n \<le> 15"
  shows "i \<le> k \<Longrightarrow> k \<le> n \<Longrightarrow> org < i \<or> k \<le> org \<Longrightarrow> kv_gc_scan hal n gc org i w =
    (case find (is_dirty w) [i..<k] of
       Some j \<Rightarrow> Some (gc_blk hal gc j w) | None \<Rightarrow> kv_gc_scan hal n gc org k w)"
proof (induction "k - i" arbitrary: i)
  case 0
  then show ?case by simp
next
  case (Suc d)
  then have i: "i < k" "i \<noteq> org" "i \<noteq> n" "d = k - Suc i" "[i..<k] = i # [Suc i..<k]"
    by (auto simp: upt_conv_Cons)
  have u: "u8 (Suc i) = Suc i" using i(1) Suc.prems(2) assms by simp
  have "org < Suc i \<or> k \<le> org" using Suc.prems(3) by auto
  with Suc.hyps(1) [OF i(4)] i(1) Suc.prems(2) show ?case
    unfolding gc_unfold [of hal n gc org i] Let_def i(5) using i(2,3) by (simp add: u)
qed

lemma gc_scan_eq:
  assumes n: "n \<le> 15" and org: "org < n"
  shows "kv_gc_scan hal n gc org (org + 1) w =
    Some (case find (is_dirty w) (gc_order n org) of
       Some j \<Rightarrow> gc_blk hal gc j w | None \<Rightarrow> (Inr False, w))"
proof -
  let ?S = "kv_gc_scan hal n gc org"
  have "?S (org + 1) w = (case find (is_dirty w) [org + 1..<n] of
      Some j \<Rightarrow> Some (gc_blk hal gc j w) | None \<Rightarrow> ?S n w)"
    using gc_upto [OF n, of "org + 1" n org] org by simp
  moreover have "?S n w = ?S 0 w"
    unfolding gc_unfold [of hal n gc org n] gc_unfold [of hal n gc org 0] by simp
  moreover have "?S 0 w = (case find (is_dirty w) [0..<org] of
      Some j \<Rightarrow> Some (gc_blk hal gc j w) | None \<Rightarrow> ?S org w)"
    using gc_upto [OF n, of 0 org org] org by simp
  moreover have "?S org w = Some (if is_dirty w org then gc_blk hal gc org w else (Inr False, w))"
    unfolding gc_unfold [of hal n gc org org] using org by simp
  ultimately show ?thesis
    by (simp add: gc_order_def find_append split: option.splits)
qed

section \<open>The task\<close>

context flash_dev
begin

lemma gc_task_ok:
  assumes n: "2 \<le> n" "n \<le> 15" "size_of = n * 4096" and heap: "heap_ok w0"
    and rep: "kv_rep n (mem (w_flash w0)) (w_mgr w0) blks" and wp: "wp_ok n (w_mgr w0) blks"
    and lock: "\<not> w_lock w0"
  shows "\<exists>w' blks'. kv_gc_task hal n w0 = Some w' \<and> \<not> w_lock w' \<and> \<not> gc_trigger (w_mgr w')
     \<and> w_gc_tasks w' = w_gc_tasks w0 \<and> kv_inv mem n w' blks'
     \<and> (blks' = blks \<or> (\<exists>gc b. gc < n \<and> b < n \<and> gc \<noteq> b \<and> blks ! gc = [] \<and> blks' = collected gc b blks))"
proof -
  let ?w = "w0\<lparr>w_lock := True\<rparr>"
  let ?org = "write_pos (w_mgr w0) div 4096"
  have lk: "kv_lock w0 = Some (0, ?w)" using lock by (simp add: kv_lock_def)
  have fin: "\<not> w_lock (kv_gc_exit u) \<and> \<not> gc_trigger (w_mgr (kv_gc_exit u))
      \<and> w_gc_tasks (kv_gc_exit u) = w_gc_tasks u
      \<and> (kv_rep n (mem (w_flash u)) (w_mgr u) bs \<longrightarrow> wp_ok n (w_mgr u) bs \<longrightarrow> heap_ok u
          \<longrightarrow> kv_inv mem n (kv_gc_exit u) bs)" for u bs
    using n by (auto simp: kv_gc_exit_def kv_unlock_def upd_mgr_def kv_inv_def kv_rep_def wp_ok_def
        heap_ok_def clean_count_def)
  have h: "heap_ok ?w" using heap by (simp add: heap_ok_def)
  show ?thesis
  proof (cases "clean_blk_nums (w_mgr w0) = 0 \<or> first_clean n ?w = None")
    case True
    then have "kv_gc_task hal n w0 = Some (kv_gc_exit ?w)"
      by (auto simp: kv_gc_task_def lk Let_def split: option.splits)
    then show ?thesis using fin [of ?w blks] rep wp h by auto
  next
    case False
    then obtain gc where "first_clean n ?w = Some gc" by auto
    then have gc: "gc < n" "is_clean (info (w_mgr w0) gc)"
      by (auto simp: first_clean_def get_info_def dest!: find_SomeD)
    have gce: "blks ! gc = []" using kv_rep_blk [OF rep gc(1)] gc(2) by (auto simp: blk_inv_def)
    let ?w1 = "set_write_pos (u16 (gc * 4096 + 4)) ?w"
    have "kv_inv mem n (w0\<lparr>w_gc_tasks := 1\<rparr>) blks"
      using rep wp heap n by (simp add: kv_inv_def heap_ok_def)
    from write_block [OF this] have org: "?org < n" "u8 (?org + 1) = ?org + 1" using n by auto
    have wp1: "write_pos (w_mgr ?w1) = blk_base gc + 4"
      using blk_start [of gc] gc n by (simp add: world_upd_defs)
    have rep1: "kv_rep n (mem (w_flash ?w1)) (w_mgr ?w1) blks"
      using rep by (simp add: kv_rep_def clean_count_def world_upd_defs)
    have h1: "heap_ok ?w1" using h by (simp add: heap_ok_def world_upd_defs)
    have task: "kv_gc_task hal n w0 =
      (case kv_gc_scan hal n gc ?org (?org + 1) ?w1 of None \<Rightarrow> None
       | Some (Inl _, w2) \<Rightarrow> Some (kv_gc_exit w2)
       | Some (Inr gc_copy, w2) \<Rightarrow>
           Some (kv_gc_exit (if gc_copy then w2 else set_write_pos (write_pos (w_mgr w0)) w2)))"
      using False \<open>first_clean n ?w = Some gc\<close> org(2)
      by (cases "kv_gc_scan hal n gc ?org (?org + 1) ?w1")
        (auto simp: kv_gc_task_def lk Let_def split: option.splits sum.splits)
    show ?thesis
    proof (cases "find (is_dirty ?w1) (gc_order n ?org)")
      case None
      have "kv_gc_task hal n w0 = Some (kv_gc_exit (set_write_pos (write_pos (w_mgr w0)) ?w1))"
        unfolding task gc_scan_eq [OF n(2) org(1)] None by simp
      moreover have "set_write_pos (write_pos (w_mgr w0)) ?w1 = ?w"
        by (cases w0) (simp add: world_upd_defs)
      ultimately show ?thesis using fin [of ?w blks] rep wp h by auto
    next
      case (Some b)
      then have b: "b < n" "is_dirty ?w1 b"
        using org(1) by (auto simp: gc_order_def dest!: find_SomeD)
      have gc1: "is_clean (info (w_mgr ?w1) gc)" using gc by (simp add: world_upd_defs)
      from gc_blk_ok [OF rep1 h1 n gc(1) gc1 b wp1] obtain w2 where
        w2: "gc_blk hal gc b ?w1 = (Inr True, w2)" "w_lock w2 = w_lock ?w1" "heap_ok w2"
          "w_gc_tasks w2 = w_gc_tasks ?w1"
          "kv_rep n (mem (w_flash w2)) (w_mgr w2) (collected gc b blks)"
          "wp_ok n (w_mgr w2) (collected gc b blks)" by blast
      have "kv_gc_task hal n w0 = Some (kv_gc_exit w2)"
        unfolding task gc_scan_eq [OF n(2) org(1)] Some by (simp add: w2(1))
      moreover have "gc \<noteq> b" using gc1 b(2) by auto
      moreover have "w_gc_tasks w2 = w_gc_tasks w0" using w2(4) by (simp add: world_upd_defs)
      ultimately show ?thesis
        using fin [of w2 "collected gc b blks"] w2 gc(1) b(1) gce by auto
    qed
  qed
qed

end

end
