(* ===== verification/Kv_Spec.thy ===== *)
theory Kv_Spec
  imports Kv_Gc
begin

text \<open>
  The abstract specification of the key-value store: \<open>kv_holds\<close> says that the mutex is
  free and that the store holds a map from keys to values. The contracts of the public
  functions of kv.c are stated over it.
\<close>

definition kv_holds ::
  "('f \<Rightarrow> nat \<Rightarrow> byte) \<Rightarrow> nat \<Rightarrow> 'f kv_world \<Rightarrow> (byte list \<rightharpoonup> byte list) \<Rightarrow> bool" where
  "kv_holds mem n w m \<longleftrightarrow> \<not> w_lock w \<and>
     (\<exists>blks. kv_inv mem n w blks \<and> unique_keys blks \<and> kv_lookup blks = m)"

text \<open>The state with the mutex held, inside an operation.\<close>

definition kv_within ::
  "('f \<Rightarrow> nat \<Rightarrow> byte) \<Rightarrow> nat \<Rightarrow> 'f kv_world \<Rightarrow> (byte list \<rightharpoonup> byte list) \<Rightarrow> bool" where
  "kv_within mem n w m \<longleftrightarrow> w_lock w \<and>
     (\<exists>blks. kv_inv mem n w blks \<and> unique_keys blks \<and> kv_lookup blks = m)"

lemma kv_inv_set_lock: "kv_inv mem n (w\<lparr>w_lock := l\<rparr>) blks = kv_inv mem n w blks"
  by (simp add: kv_inv_def heap_ok_def)

lemma kv_lock_enter: "kv_holds mem n w m \<Longrightarrow>
  \<exists>w1. kv_lock w = Some (0, w1) \<and> kv_within mem n w1 m"
  by (auto simp: kv_holds_def kv_within_def kv_lock_def kv_inv_set_lock)

lemma kv_unlock_leave: "kv_within mem n w m \<Longrightarrow> kv_holds mem n (kv_unlock w) m"
  by (auto simp: kv_holds_def kv_within_def kv_unlock_def kv_inv_set_lock)

lemma kv_within_same: "kv_within mem n w m \<Longrightarrow> same mem w w' \<Longrightarrow> kv_within mem n w' m"
  using kv_inv_same [of mem w w'] by (auto simp: kv_within_def same_def)

section \<open>Lookups after a change\<close>

lemma lookup_live:
  assumes "unique_keys blks" "it \<in># live blks k"
  shows "kv_lookup blks k = Some (ai_val it)"
  using kv_lookup_Some [OF live_singleton [OF assms]] .

lemma lookup_eqI:
  "live blks' k = live blks k \<Longrightarrow> unique_keys blks \<Longrightarrow> kv_lookup blks' k = kv_lookup blks k"
proof (cases "live blks k = {#}")
  case True
  moreover assume "live blks' k = live blks k"
  ultimately show ?thesis using kv_lookup_None by metis
next
  case False
  assume e: "live blks' k = live blks k" and u: "unique_keys blks"
  obtain it where it: "it \<in># live blks k" using False by auto
  show ?thesis using kv_lookup_Some live_singleton [OF u it] e by metis
qed

lemma in_live:
  assumes "b < length blks" "blks ! b = pre @ it # post" "normal it"
  shows "it \<in># live blks (ai_key it)"
proof -
  have "blks ! b \<in> set blks" using assms(1) by (rule nth_mem)
  moreover have "it \<in> set (blks ! b)" using assms(2) by simp
  ultimately have "it \<in> set (concat blks)" by auto
  then show ?thesis using assms(3) by (simp add: live_def)
qed

lemma found_live: "found_at blks key item \<Longrightarrow> \<exists>b pre it post. b < length blks
    \<and> blks ! b = pre @ it # post \<and> normal it \<and> ai_key it = key \<and> it \<in># live blks key
    \<and> item = found_item (blk_base b + 4 + its_len pre) it"
  unfolding found_at_def matches_def using in_live by metis

lemma found_item_simps [simp]:
  "it_pos (found_item p it) = p"
  "ih_val_len (it_hdr (found_item p it)) = length (ai_val it)"
  "item_val (found_item p it) = ai_val it"
  by (simp_all add: found_item_def mk_item_def hdr_of_def item_val_def)

text \<open>A new item under a key that has none.\<close>

lemma add_fresh:
  fixes key val :: "byte list" and org :: nat
  assumes u: "unique_keys blks" and b: "b < length blks" and none: "live blks key = {#}"
  defines "blks' \<equiv> add_item b (new_item key val org) blks"
  shows "unique_keys blks' \<and> kv_lookup blks' = (kv_lookup blks)(key \<mapsto> val)"
proof -
  have l: "live blks' k = live blks k + (if key = k then {#new_item key val org#} else {#})" for k
    unfolding blks'_def using live_add [OF b, of "new_item key val org" k]
    by (simp add: normal_def new_item_def)
  have "size (live blks' k) \<le> 1" for k
    using u none by (cases "k = key") (auto simp: l unique_keys_def)
  moreover have "kv_lookup blks' k = ((kv_lookup blks)(key \<mapsto> val)) k" for k
  proof (cases "k = key")
    case True
    then have "live blks' key = {#new_item key val org#}" using none by (simp add: l)
    then show ?thesis using True kv_lookup_Some by (fastforce simp: new_item_def)
  next
    case False
    then show ?thesis using lookup_eqI [of blks' k blks] u by (simp add: l)
  qed
  ultimately show ?thesis by (auto simp: unique_keys_def)
qed

text \<open>The live item of a key is removed.\<close>

lemma kill_live:
  assumes u: "unique_keys blks" and b: "b < length blks" "blks ! b = pre @ it # post" and nrm: "normal it"
  defines "blks' \<equiv> kill_item b pre it post blks"
  shows "unique_keys blks' \<and> kv_lookup blks' = (kv_lookup blks)(ai_key it := None)"
proof -
  have l: "live blks k = live blks' k + (if ai_key it = k then {#it#} else {#})" for k
    unfolding blks'_def by (rule live_kill [OF b nrm])
  have le: "size (live blks' k) \<le> 1" for k
    using u by (simp add: unique_keys_def l) (metis add_leD1)
  have "live blks' (ai_key it) = {#}"
    using u l [of "ai_key it"] by (simp add: unique_keys_def) (metis Suc_le_mono add_Suc_right
        le_zero_eq size_eq_0_iff_empty size_add_mset)
  then have "kv_lookup blks' (ai_key it) = None" using kv_lookup_None by metis
  moreover have "kv_lookup blks' k = kv_lookup blks k" if "k \<noteq> ai_key it" for k
    using lookup_eqI [of blks' k blks] u that by (simp add: l)
  ultimately show ?thesis using le by (auto simp: unique_keys_def)
qed

text \<open>The old item is removed after the new one was added.\<close>

lemma add_then_kill:
  fixes val :: "byte list" and org :: nat
  assumes u: "unique_keys blks" and c: "c < length blks"
    and b: "b < length blks" "blks ! b = pre @ it # post" and nrm: "normal it"
  defines "new \<equiv> new_item (ai_key it) val org"
  defines "blks1 \<equiv> add_item c new blks"
  defines "post1 \<equiv> (if c = b then post @ [new] else post)"
  shows "blks1 ! b = pre @ it # post1"
    "unique_keys (kill_item b pre it post1 blks1)"
    "kv_lookup (kill_item b pre it post1 blks1) = (kv_lookup blks)(ai_key it \<mapsto> val)"
proof -
  show at: "blks1 ! b = pre @ it # post1"
    using b c by (auto simp: blks1_def add_item_def post1_def)
  let ?B = "kill_item b pre it post1 blks1"
  have len: "b < length blks1" using b by (simp add: blks1_def add_item_def)
  have nn: "normal new" by (simp add: new_def normal_def new_item_def)
  have kn: "ai_key new = ai_key it" "ai_val new = val" by (simp_all add: new_def new_item_def)
  have "live ?B k + (if ai_key it = k then {#it#} else {#})
      = live blks k + (if ai_key it = k then {#new#} else {#})" for k
    using live_kill [OF len at nrm, of k] live_add [OF c nn, of k] kn
    unfolding blks1_def [symmetric] by simp
  note l = this
  have live_it: "it \<in># live blks (ai_key it)"
    using in_live [OF b nrm] .
  have lk: "live ?B (ai_key it) = {#new#}"
    using l [of "ai_key it"] live_singleton [OF u live_it] by simp
  have lo: "live ?B k = live blks k" if "k \<noteq> ai_key it" for k
    using l [of k] that by simp
  show "unique_keys ?B"
    unfolding unique_keys_def
  proof
    fix k show "size (live ?B k) \<le> 1"
      using lk lo u by (cases "k = ai_key it") (auto simp: unique_keys_def)
  qed
  show "kv_lookup ?B = (kv_lookup blks)(ai_key it \<mapsto> val)"
  proof
    fix k show "kv_lookup ?B k = ((kv_lookup blks)(ai_key it \<mapsto> val)) k"
      using kv_lookup_Some [OF lk] lookup_eqI [OF lo u] kn by (cases "k = ai_key it") auto
  qed
qed

section \<open>Contracts of the operations\<close>

context flash_dev
begin

text \<open>The search yields the value that the map has for the key.\<close>

lemma search_contract:
  assumes "kv_within mem n w m" "size_of = n * 4096"
  shows "\<exists>w' r. kv_item_search hal n key w = (r, w') \<and> same mem w w' \<and> kv_within mem n w' m
     \<and> (case r of None \<Rightarrow> m key = None
        | Some item \<Rightarrow> m key = Some (item_val item) \<and> ih_val_len (it_hdr item) = length (item_val item))"
proof -
  obtain blks where b: "kv_inv mem n w blks" "unique_keys blks" "kv_lookup blks = m"
    using assms(1) by (auto simp: kv_within_def)
  from search_ok [OF b(1) assms(2), of key] obtain w' r where
    s: "same mem w w'" "kv_item_search hal n key w = (r, w')"
    and r: "r = None \<and> live blks key = {#} \<or> (\<exists>item. r = Some item \<and> found_at blks key item)"
    by blast
  have "case r of None \<Rightarrow> m key = None
        | Some item \<Rightarrow> m key = Some (item_val item) \<and> ih_val_len (it_hdr item) = length (item_val item)"
    using r
  proof (elim disjE exE conjE)
    fix item assume i: "r = Some item" "found_at blks key item"
    then obtain bl pre it where "it \<in># live blks key"
      "item = found_item (blk_base bl + 4 + its_len pre) it"
      using found_live [OF i(2)] by auto
    then show ?thesis using i(1) lookup_live [OF b(2)] b(3) by auto
  qed (use b(3) kv_lookup_None in auto)
  then show ?thesis using s kv_within_same [OF assms(1) s(1)] by blast
qed

lemma set_locked_contract:
  assumes w: "kv_within mem n w m" and sz: "size_of = n * 4096"
    and key: "0 < length key" "length key \<le> 128"
    and len: "0 < len" "len \<le> 512" "len \<le> length val"
    and run: "kv_set_locked hal n key val len w = Some (res, w')"
  shows "res = KV_OK \<and> kv_within mem n w' (m(key \<mapsto> take len val))
     \<or> res = KV_ERR_NO_SPACE \<and> kv_within mem n w' m"
proof -
  let ?v = "take len val"
  obtain blks where b: "kv_inv mem n w blks" "unique_keys blks" "kv_lookup blks = m"
    using w by (auto simp: kv_within_def)
  have wl: "w_lock w" using w by (simp add: kv_within_def)
  have wf: "wf_item (new_item key ?v org)" if "org < 65536" for org
    using key len that by (simp add: wf_item_def new_item_def normal_def)
  from search_ok [OF b(1) sz, of key] obtain w1 r where
    s: "same mem w w1" "kv_item_search hal n key w = (r, w1)"
    and r: "r = None \<and> live blks key = {#} \<or> (\<exists>item. r = Some item \<and> found_at blks key item)"
    by blast
  have inv1: "kv_inv mem n w1 blks" using kv_inv_same [OF s(1)] b(1) by simp
  have l1: "w_lock w1" using s(1) wl by (simp add: same_def)
  have nlen: "length blks = n" using kv_inv_len [OF b(1)] by simp
  show ?thesis
  proof (cases r)
    case None
    then have none: "live blks key = {#}" using r by simp
    have st: "kv_item_store hal n key val len 0 w1 = Some (res, w')"
      using run None s(2) by (simp add: kv_set_locked_def)
    note so = store_ok [OF inv1 sz wf [of 0] len(3) st]
    have fresh: "c < n \<Longrightarrow> unique_keys (add_item c (new_item key ?v 0) blks)
        \<and> kv_lookup (add_item c (new_item key ?v 0) blks) = m(key \<mapsto> ?v)" for c
      using add_fresh [OF b(2) _ none] nlen b(3) by simp
    from so have "w_lock w'" using l1 by simp
    with so fresh b(2,3) show ?thesis by (auto simp: kv_within_def)
  next
    case (Some item)
    then have "found_at blks key item" using r by auto
    from found_live [OF this] obtain bl pre it post where
      f: "bl < length blks" "blks ! bl = pre @ it # post" "normal it" "ai_key it = key"
        "it \<in># live blks key" "item = found_item (blk_base bl + 4 + its_len pre) it" by blast
    have lk: "m key = Some (ai_val it)" using lookup_live [OF b(2) f(5)] b(3) by simp
    have run2: "kv_item_update hal n item key val len w1 = Some (res, w')"
      using run Some s(2) by (simp add: kv_set_locked_def)
    show ?thesis
    proof (cases "length (ai_val it) = len \<and> ai_val it = ?v")
      case True
      then have "res = KV_OK" "w' = w1"
        using run2 f(6) unfolding kv_item_update_def by (simp_all split: if_splits)
      moreover have "m(key \<mapsto> ?v) = m" using lk True by (metis fun_upd_triv)
      ultimately show ?thesis using kv_within_same [OF w s(1)] by simp
    next
      case False
      let ?p = "blk_base bl + 4 + its_len pre"
      have bn: "bl < n" using f(1) nlen by simp
      have p: "?p < 65536"
        using kv_inv_blk [OF b(1) bn] f(2) blk_base_bound [OF bn] kv_inv_n [OF b(1)]
        by (auto simp: blk_inv_def blk_rep_def)
      obtain res1 w2 where st: "kv_item_store hal n key val len ?p w1 = Some (res1, w2)"
        using run2 False f(6) by (cases "kv_item_store hal n key val len ?p w1")
          (auto simp: kv_item_update_def split: if_splits)
      note so = store_ok [OF inv1 sz wf [OF p] len(3) st]
      show ?thesis
      proof (cases "res1 = KV_OK")
        case False
        then have "res = KV_ERR_NO_SPACE" "w' = w2" "kv_inv mem n w2 blks" "w_lock w2"
          using so run2 st f(6) l1 \<open>\<not> (length (ai_val it) = len \<and> ai_val it = ?v)\<close>
          by (auto simp: kv_item_update_def split: if_splits)
        then show ?thesis using b(2,3) by (auto simp: kv_within_def)
      next
        case True
        then obtain c where c: "c < n" "kv_inv mem n w2 (add_item c (new_item key ?v ?p) blks)"
          and l2: "w_lock w2" using so l1 by auto
        have del: "kv_item_mark_deleted hal ?p w2 = (res, w')"
          using True run2 st f(6) False by (auto simp: kv_item_update_def kv_item_del_def split: if_splits)
        have cl: "c < length blks" using c nlen by simp
        note ak = add_then_kill [OF b(2) cl f(1,2,3), of ?v ?p, unfolded f(4)]
        from mark_deleted_ok [OF c(2) sz bn ak(1) f(3)] del
        have "res = 0 \<and> w_lock w' = w_lock w2 \<and> kv_inv mem n w'
            (kill_item bl pre it (if c = bl then post @ [new_item key ?v ?p] else post)
              (add_item c (new_item key ?v ?p) blks))" by auto
        then show ?thesis using ak(2,3) l2 b(3) unfolding kv_within_def by auto
      qed
    qed
  qed
qed

text \<open>With room for the item a set succeeds.\<close>

lemma set_locked_room:
  assumes w: "kv_within mem n w m" and sz: "size_of = n * 4096" and n: "2 < n"
    and key: "0 < length key" "length key \<le> 128"
    and len: "0 < len" "len \<le> 512" "len \<le> length val"
    and c: "c < n" "has_space w (KV_ALIGN (8 + length key + len)) c"
  shows "\<exists>w'. kv_set_locked hal n key val len w = Some (KV_OK, w')"
proof -
  obtain blks where b: "kv_inv mem n w blks" "unique_keys blks" "kv_lookup blks = m"
    using w by (auto simp: kv_within_def)
  have wf: "wf_item (new_item key (take len val) org)" if "org < 65536" for org
    using key len that by (simp add: wf_item_def new_item_def normal_def)
  have il: "item_len (new_item key (take len val) org) = KV_ALIGN (8 + length key + len)" for org
    using len by (simp add: item_len_def new_item_def)
  from search_ok [OF b(1) sz, of key] obtain w1 r where
    s: "same mem w w1" "kv_item_search hal n key w = (r, w1)"
    and r: "r = None \<and> live blks key = {#} \<or> (\<exists>item. r = Some item \<and> found_at blks key item)"
    by blast
  have inv1: "kv_inv mem n w1 blks" using kv_inv_same [OF s(1)] b(1) by simp
  have c1: "has_space w1 (item_len (new_item key (take len val) org)) c" for org
    using c(2) s(1) by (simp add: same_def il)
  have nlen: "length blks = n" using kv_inv_len [OF b(1)] by simp
  note room = store_room [OF inv1 sz n wf len(3) c(1) c1]
  show ?thesis
  proof (cases r)
    case None
    then show ?thesis using room [of 0] s(2) by (auto simp: kv_set_locked_def)
  next
    case (Some item)
    then have "found_at blks key item" using r by auto
    from found_live [OF this] obtain bl pre it post where
      f: "bl < length blks" "blks ! bl = pre @ it # post" "normal it" "ai_key it = key"
        "item = found_item (blk_base bl + 4 + its_len pre) it" by blast
    let ?p = "blk_base bl + 4 + its_len pre"
    have bn: "bl < n" using f(1) nlen by simp
    have p: "?p < 65536"
      using kv_inv_blk [OF b(1) bn] f(2) blk_base_bound [OF bn] kv_inv_n [OF b(1)]
      by (auto simp: blk_inv_def blk_rep_def)
    obtain w2 where st: "kv_item_store hal n key val len ?p w1 = Some (0, w2)"
      using room [OF p] by blast
    obtain d where d: "d < n" "kv_inv mem n w2 (add_item d (new_item key (take len val) ?p) blks)"
      using store_ok [OF inv1 sz wf [OF p] len(3) st] by auto
    have dl: "d < length blks" using d nlen by simp
    note ak = add_then_kill [OF b(2) dl f(1,2,3), of "take len val" ?p, unfolded f(4)]
    from mark_deleted_ok [OF d(2) sz bn ak(1) f(3)] obtain w3 where
      "kv_item_mark_deleted hal ?p w2 = (0, w3)" by blast
    then show ?thesis
      using Some s(2) st f(5) by (simp add: kv_set_locked_def kv_item_update_def kv_item_del_def)
  qed
qed

text \<open>Waiting for the collector keeps the map and always comes back.\<close>

lemma run_gc_contract:
  assumes w: "kv_holds mem n w m" and sz: "size_of = n * 4096" and t: "0 < w_gc_tasks w"
  shows "\<exists>w'. run_gc hal n w = Some w' \<and> kv_holds mem n w' m \<and> \<not> gc_trigger (w_mgr w')"
proof -
  obtain blks where b: "kv_inv mem n w blks" "unique_keys blks" "kv_lookup blks = m" "\<not> w_lock w"
    using w by (auto simp: kv_holds_def)
  let ?w0 = "w\<lparr>w_gc_tasks := w_gc_tasks w - 1\<rparr>"
  have a: "2 \<le> n" "n \<le> 15" "heap_ok ?w0" "kv_rep n (mem (w_flash ?w0)) (w_mgr ?w0) blks"
    "wp_ok n (w_mgr ?w0) blks" "\<not> w_lock ?w0"
    using b by (simp_all add: kv_inv_def heap_ok_def)
  from gc_task_ok [OF a(1,2) sz a(3-6)] obtain w' blks' where
    g: "kv_gc_task hal n ?w0 = Some w'" "\<not> w_lock w'" "\<not> gc_trigger (w_mgr w')"
      "kv_inv mem n w' blks'"
      "blks' = blks \<or> (\<exists>gc b. gc < n \<and> b < n \<and> gc \<noteq> b \<and> blks ! gc = [] \<and> blks' = collected gc b blks)"
    by blast
  have "live blks' k = live blks k" for k
    using g(5) live_collected kv_inv_len [OF b(1)] by auto
  from live_cong [OF this b(2)] have "unique_keys blks'" "kv_lookup blks' = m" using b(3) by simp_all
  then have "kv_holds mem n w' m" using g by (auto simp: kv_holds_def)
  then show ?thesis using g t by (auto simp: run_gc_def)
qed

lemma wait_gc_contract:
  assumes w: "kv_holds mem n w m" and sz: "size_of = n * 4096"
  shows "\<exists>w'. kv_wait_gc hal n w = Some w' \<and> kv_holds mem n w' m \<and> \<not> gc_trigger (w_mgr w')"
proof (cases "gc_trigger (w_mgr w)")
  case False
  then show ?thesis using w by (simp add: kv_wait_gc_def)
next
  case True
  let ?w1 = "upd_mgr (\<lambda>m. m\<lparr>gc_waiter := u8 (gc_waiter m + 1)\<rparr>) w"
  have inv: "kv_inv mem n ?w1 blks = kv_inv mem n w blks" for blks
    by (simp add: kv_inv_def kv_rep_def wp_ok_def clean_count_def heap_ok_def upd_mgr_def)
  have lk: "w_lock ?w1 = w_lock w" by (simp add: upd_mgr_def)
  have h: "kv_holds mem n ?w1 m" using w unfolding kv_holds_def inv lk .
  moreover have "0 < w_gc_tasks ?w1"
    using w True by (auto simp: kv_holds_def kv_inv_def upd_mgr_def)
  ultimately show ?thesis using run_gc_contract [OF h sz] True by (simp add: kv_wait_gc_def)
qed

lemma set_contract:
  assumes w: "kv_holds mem n w m" and sz: "size_of = n * 4096"
    and key: "0 < length key" "length key \<le> 128"
    and len: "0 < len" "len \<le> 512" "len \<le> int (length val)"
    and run: "kv_item_set hal n (Some key) (Some val) len w = Some (res, w')"
  shows "res = KV_OK \<and> kv_holds mem n w' (m(key \<mapsto> take (nat len) val))
     \<or> res = KV_ERR_NO_SPACE \<and> kv_holds mem n w' m"
proof -
  obtain w1 where w1: "kv_wait_gc hal n w = Some w1" "kv_holds mem n w1 m"
    using wait_gc_contract [OF w sz] by blast
  obtain w2 where w2: "kv_lock w1 = Some (0, w2)" "kv_within mem n w2 m"
    using kv_lock_enter [OF w1(2)] by blast
  have good: "\<not> set_params_bad (Some key) (Some val) len"
    using key len by (simp add: set_params_bad_def)
  obtain w3 where w3: "kv_set_locked hal n key val (nat len) w2 = Some (res, w3)" "w' = kv_unlock w3"
    using run good w1(1) w2(1) by (auto simp: kv_item_set_def bind_eq_Some_conv)
  have "0 < nat len" "nat len \<le> 512" "nat len \<le> length val" using len by simp_all
  from set_locked_contract [OF w2(2) sz key this w3(1)] kv_unlock_leave [of mem n w3]
  show ?thesis unfolding w3(2) by blast
qed

lemma set_room_contract:
  assumes w: "kv_holds mem n w m" and sz: "size_of = n * 4096" and n: "2 < n"
    and key: "0 < length key" "length key \<le> 128"
    and len: "0 < len" "len \<le> 512" "len \<le> int (length val)"
    and idle: "\<not> gc_trigger (w_mgr w)"
    and room: "c < n" "has_space w (KV_ALIGN (8 + length key + nat len)) c"
  shows "\<exists>w'. kv_item_set hal n (Some key) (Some val) len w = Some (KV_OK, w')
     \<and> kv_holds mem n w' (m(key \<mapsto> take (nat len) val))"
proof -
  obtain w2 where w2: "kv_lock w = Some (0, w2)" "kv_within mem n w2 m"
    using kv_lock_enter [OF w] by blast
  have good: "\<not> set_params_bad (Some key) (Some val) len"
    using key len by (simp add: set_params_bad_def)
  have l: "0 < nat len" "nat len \<le> 512" "nat len \<le> length val" using len by simp_all
  have "w_mgr w2 = w_mgr w" using w2(1) by (auto simp: kv_lock_def split: if_splits)
  then have c2: "has_space w2 (KV_ALIGN (8 + length key + nat len)) c" using room(2) by simp
  obtain w3 where w3: "kv_set_locked hal n key val (nat len) w2 = Some (0, w3)"
    using set_locked_room [OF w2(2) sz n key l room(1) c2] by blast
  have "kv_item_set hal n (Some key) (Some val) len w = Some (0, kv_unlock w3)"
    using good idle w2(1) w3 by (simp add: kv_item_set_def kv_wait_gc_def)
  moreover have "kv_holds mem n (kv_unlock w3) (m(key \<mapsto> take (nat len) val))"
    using set_locked_contract [OF w2(2) sz key l w3] kv_unlock_leave by auto
  ultimately show ?thesis by blast
qed

lemma get_contract:
  assumes w: "kv_holds mem n w m" and sz: "size_of = n * 4096" and bl: "0 < bl"
  shows "\<exists>w'. kv_holds mem n w' m \<and> kv_item_get hal n (Some key) (Some bl) w =
    Some (case m key of
        None \<Rightarrow> (KV_ERR_NOT_FOUND, None, Some bl, w')
      | Some v \<Rightarrow> if bl < int (length v) then (KV_ERR_NO_SPACE, None, Some (int (length v)), w')
                 else (KV_OK, Some v, Some (int (length v)), w'))"
proof -
  obtain w1 where w1: "kv_lock w = Some (0, w1)" "kv_within mem n w1 m"
    using kv_lock_enter [OF w] by blast
  from search_contract [OF w1(2) sz, of key] obtain w2 r where
    s: "kv_item_search hal n key w1 = (r, w2)" "kv_within mem n w2 m"
      "case r of None \<Rightarrow> m key = None
        | Some item \<Rightarrow> m key = Some (item_val item) \<and> ih_val_len (it_hdr item) = length (item_val item)"
    by blast
  show ?thesis
    using s(3) kv_unlock_leave [OF s(2)] bl
    by (intro exI [of _ "kv_unlock w2"])
      (auto simp: kv_item_get_def w1(1) s(1) Let_def split: option.splits)
qed

lemma delete_contract:
  assumes w: "kv_holds mem n w m" and sz: "size_of = n * 4096"
  shows "\<exists>w'. kv_item_delete hal n key w
      = Some (if m key = None then KV_ERR_NOT_FOUND else KV_OK, w') \<and> kv_holds mem n w' (m(key := None))"
proof -
  obtain w1 where w1: "kv_lock w = Some (0, w1)" "kv_within mem n w1 m"
    using kv_lock_enter [OF w] by blast
  obtain blks where b: "kv_inv mem n w1 blks" "unique_keys blks" "kv_lookup blks = m"
    using w1(2) by (auto simp: kv_within_def)
  from search_ok [OF b(1) sz, of key] obtain w2 r where
    s: "same mem w1 w2" "kv_item_search hal n key w1 = (r, w2)"
    and r: "r = None \<and> live blks key = {#} \<or> (\<exists>item. r = Some item \<and> found_at blks key item)"
    by blast
  have inv2: "kv_inv mem n w2 blks" using kv_inv_same [OF s(1)] b(1) by simp
  have in2: "kv_within mem n w2 m" by (rule kv_within_same [OF w1(2) s(1)])
  show ?thesis
  proof (cases r)
    case None
    then have "m key = None" using r b(3) kv_lookup_None by auto
    moreover from this have "m(key := None) = m" by (metis fun_upd_triv)
    ultimately show ?thesis
      using None kv_unlock_leave [OF in2] by (simp add: kv_item_delete_def w1(1) s(2))
  next
    case (Some item)
    then have "found_at blks key item" using r by auto
    from found_live [OF this] obtain bl pre it post where
      f: "bl < length blks" "blks ! bl = pre @ it # post" "normal it" "ai_key it = key"
        "it \<in># live blks key" "item = found_item (blk_base bl + 4 + its_len pre) it" by blast
    have bn: "bl < n" using f(1) kv_inv_len [OF b(1)] by simp
    have mk: "m key \<noteq> None" using lookup_live [OF b(2) f(5)] b(3) by simp
    from mark_deleted_ok [OF inv2 sz bn f(2,3)] obtain w3 where
      w3: "kv_item_mark_deleted hal (blk_base bl + 4 + its_len pre) w2 = (0, w3)" "w_lock w3 = w_lock w2"
        "kv_inv mem n w3 (kill_item bl pre it post blks)" by blast
    have "w_lock w3" using w3(2) in2 by (simp add: kv_within_def)
    then have "kv_within mem n w3 (m(key := None))"
      using w3(3) kill_live [OF b(2) f(1,2,3)] b(3) f(4) by (auto simp: kv_within_def)
    then show ?thesis
      using Some kv_unlock_leave mk w3(1) f(6)
      by (auto simp: kv_item_delete_def w1(1) s(2) kv_item_del_def)
  qed
qed

end

section \<open>Start-up on an unformatted device\<close>

text \<open>The first \<open>k\<close> blocks were formatted.\<close>

definition formatted :: "('f \<Rightarrow> nat \<Rightarrow> byte) \<Rightarrow> nat \<Rightarrow> nat \<Rightarrow> 'f kv_world \<Rightarrow> bool" where
  "formatted mem n k w \<longleftrightarrow> length (block_infos (w_mgr w)) = n \<and> clean_blk_nums (w_mgr w) = k
     \<and> (\<forall>b<k. blk_rep (mem (w_flash w)) b 0xEE [] \<and> info (w_mgr w) b = fresh_info)"

context flash_dev
begin

lemma init_scan_format:
  assumes n: "n \<le> 15" and sz: "size_of = n * 4096"
  shows "k \<le> n \<Longrightarrow> formatted mem n k w \<Longrightarrow> (\<forall>b. k \<le> b \<longrightarrow> b < n \<longrightarrow> mem (w_flash w) (blk_base b) \<noteq> 0x4B)
    \<Longrightarrow> \<exists>w'. kv_init_scan hal [k..<n] un w = (0, un, w') \<and> formatted mem n n w'
      \<and> w_alloc w' = w_alloc w \<and> w_lock w' = w_lock w \<and> w_gc_tasks w' = w_gc_tasks w
      \<and> gc_trigger (w_mgr w') = gc_trigger (w_mgr w)"
proof (induction "n - k" arbitrary: k w)
  case 0
  then show ?case by simp
next
  case (Suc d)
  have k: "k < n" "[k..<n] = k # [Suc k..<n]" "d = n - Suc k"
    using Suc.hyps(2) by (auto simp: upt_conv_Cons)
  have kb: "k * 4096 = blk_base k" by (simp add: blk_base_def)
  have "blk_base k + length (replicate 4 (0::byte)) \<le> size_of"
    using blk_base_bound [OF k(1) n] sz by simp
  from flash_read [OF this, of w] obtain f1 where
    f1: "kv_flash_read hal (blk_base k) (replicate 4 0) w
      = (0, get_range (mem (w_flash w)) (blk_base k) 4, w\<lparr>w_flash := f1\<rparr>)"
      "mem f1 = mem (w_flash w)" by auto
  let ?w1 = "w\<lparr>w_flash := f1\<rparr>"
  have mg: "bh_magic (block_hdr_of (get_range (mem (w_flash w)) (blk_base k) 4)) \<noteq> 0x4B"
    using Suc.prems(3) k(1) by (simp add: block_hdr_of_def)
  have len: "length (block_infos (w_mgr ?w1)) = n" using Suc.prems(2) by (simp add: formatted_def)
  from format_ok [OF k(1) n sz len] obtain w2 where
    w2: "kv_block_format hal k ?w1 = (0, w2)" "blk_rep (mem (w_flash w2)) k 0xEE []"
    "\<forall>a. a < blk_base k \<or> blk_base k + 4096 \<le> a \<longrightarrow> mem (w_flash w2) a = mem (w_flash w) a"
    "w_mgr w2 = (w_mgr w)\<lparr>block_infos := (block_infos (w_mgr w))[k := fresh_info],
                            clean_blk_nums := u8 (clean_blk_nums (w_mgr w) + 1)\<rparr>"
    "w_alloc w2 = w_alloc w" "w_lock w2 = w_lock w" "w_gc_tasks w2 = w_gc_tasks w"
    using f1(2) by auto
  have old: "blk_rep (mem (w_flash w2)) b 0xEE [] = blk_rep (mem (w_flash w)) b 0xEE []" if "b < k" for b
    by (rule blk_rep_cong) (use w2(3) blk_base_disjoint [of b k] that in auto)
  have fm: "formatted mem n (Suc k) w2"
    using Suc.prems(2) old w2(2,4) k(1) n
    by (auto simp: formatted_def nth_list_update less_Suc_eq)
  have rest: "\<forall>b. Suc k \<le> b \<longrightarrow> b < n \<longrightarrow> mem (w_flash w2) (blk_base b) \<noteq> 0x4B"
  proof (intro allI impI)
    fix b assume b: "Suc k \<le> b" "b < n"
    then have "blk_base k + 4096 \<le> blk_base b" by (simp add: blk_base_def)
    then show "mem (w_flash w2) (blk_base b) \<noteq> 0x4B" using w2(3) Suc.prems(3) b by simp
  qed
  have "kv_init_scan hal [k..<n] un w = kv_init_scan hal [Suc k..<n] un w2"
    unfolding k(2) by (simp add: kb f1(1) Let_def mg w2(1))
  moreover have "Suc k \<le> n" using k(1) by simp
  ultimately show ?case
    using Suc.hyps(1) [OF k(3) _ fm rest] w2(4-7) by auto
qed

lemma init_blank_contract:
  assumes n: "2 \<le> n" "n \<le> 15" and sz: "size_of = n * 4096" and heap: "heap_ok w"
    and fresh: "\<not> inited (w_mgr w)"
    and blank: "\<forall>b<n. mem (w_flash w) (blk_base b) \<noteq> 0x4B"
  shows "\<exists>w'. kv_init hal n True True w = (KV_OK, w') \<and> inited (w_mgr w') \<and> kv_holds mem n w' Map.empty
     \<and> \<not> gc_trigger (w_mgr w') \<and> write_pos (w_mgr w') = KV_BLOCK_HDR_SIZE
     \<and> (\<forall>b<n. bi_space (info (w_mgr w') b) = KV_BLOCK_SIZE - KV_BLOCK_HDR_SIZE)"
proof -
  let ?mg = "\<lparr>inited = False, gc_trigger = False, gc_waiter = 0, clean_blk_nums = 0, write_pos = 0,
      block_infos = replicate n \<lparr>bi_space = 0, bi_state = 0\<rparr>\<rparr>"
  let ?w1 = "w\<lparr>w_mgr := ?mg, w_lock := False\<rparr>"
  have "formatted mem n 0 ?w1" by (simp add: formatted_def)
  from init_scan_format [OF n(2) sz _ this, of "[]"] blank obtain w2 where
    w2: "kv_init_scan hal [0..<n] [] ?w1 = (0, [], w2)" "formatted mem n n w2"
      "w_alloc w2 = w_alloc w" "\<not> w_lock w2" "\<not> gc_trigger (w_mgr w2)" by auto
  let ?w3 = "set_write_pos 4 w2"
  have n0: "0 < n" using n by simp
  from set_state_ok [OF n0 n(2) sz, of "0xCC" ?w3] obtain f' where
    f: "kv_set_block_state hal 0 0xCC ?w3 = (0, set_blk_state 0 0xCC (?w3\<lparr>w_flash := f'\<rparr>))"
      "mem f' = put_nor (mem (w_flash w2)) (blk_base 0 + 1) [0xCC]"
    by (auto simp: world_upd_defs)
  let ?w4 = "set_blk_state 0 0xCC (?w3\<lparr>w_flash := f'\<rparr>)"
  let ?w5 = "set_clean_nums (sub_u8 (clean_blk_nums (w_mgr ?w4)) 1) ?w4"
  have cn: "clean_blk_nums (w_mgr w2) = n" using w2(2) by (simp add: formatted_def)
  have run: "kv_init_internal hal n ?w1 = (0, ?w5)"
    using n cn by (simp add: kv_init_internal_def w2(1) Let_def f(1))
      (simp add: world_upd_defs f(1) [unfolded world_upd_defs])
  let ?w6 = "upd_mgr (\<lambda>m. m\<lparr>inited := True\<rparr>) ?w5"
  have sp: "bi_space (get_info ?w6 0) = 4092"
    using w2(2) n0 by (simp add: formatted_def get_info_def world_upd_defs)
  have wp6: "write_pos (w_mgr ?w6) = 4" by (simp add: world_upd_defs)
  have sp6: "\<forall>b<n. bi_space (info (w_mgr ?w6) b) = 4092"
    using w2(2) by (auto simp: formatted_def world_upd_defs nth_list_update)
  have gc6: "\<not> gc_trigger (w_mgr ?w6)" using w2(5) by (simp add: world_upd_defs)
  have "kv_init hal n True True w = (KV_OK, ?w6)"
    using fresh n run sp wp6 by (simp add: kv_init_def)
  moreover have "inited (w_mgr ?w6)" by (simp add: world_upd_defs)
  moreover have "kv_holds mem n ?w6 Map.empty"
  proof -
    let ?blks = "replicate n ([] :: aitem list)"
    let ?mg2 = "w_mgr w2"
    have "filter is_clean (block_infos ?mg2) = block_infos ?mg2"
      by (rule filter_True) (use w2(2) in \<open>auto simp: in_set_conv_nth formatted_def\<close>)
    then have rep2: "kv_rep n (mem (w_flash w2)) ?mg2 ?blks"
      using w2(2) by (simp add: kv_rep_def formatted_def blk_inv_def clean_count_def)
    have len: "length (block_infos ?mg2) = n" using rep2 by (simp add: kv_rep_def)
    have i0: "info ?mg2 0 = fresh_info" "blk_rep (mem (w_flash w2)) 0 0xEE []"
      using w2(2) n0 by (simp_all add: formatted_def)
    have "kv_rep n (mem f') (w_mgr ?w6) (?blks[0 := []])"
    proof (rule kv_rep_upd [OF rep2 n0])
      show "blk_inv (mem f') 0 (fresh_info\<lparr>bi_state := 0xCC\<rparr>) []"
        using blk_rep_set_state [OF i0(2), of "0xCC"] by (simp add: blk_inv_def f(2))
      show "mem f' a = mem (w_flash w2) a" if "a < blk_base 0 \<or> blk_base 0 + 4096 \<le> a" for a
        using that by (auto simp: f(2) put_nor_byte)
      show "block_infos (w_mgr ?w6) = (block_infos ?mg2)[0 := fresh_info\<lparr>bi_state := 0xCC\<rparr>]"
        using i0(1) by (simp add: world_upd_defs)
      show "clean_blk_nums (w_mgr ?w6) + of_bool (is_clean (info ?mg2 0))
          = clean_blk_nums ?mg2 + of_bool (is_clean (fresh_info\<lparr>bi_state := 0xCC\<rparr>))"
        using cn n i0(1) by (simp add: world_upd_defs)
    qed
    moreover have "?blks[0 := []] = ?blks" by (rule nth_equalityI) (auto simp: nth_list_update)
    moreover have "wp_ok n (w_mgr ?w6) ?blks"
      unfolding wp_ok_def using n0 len
      by (intro exI [of _ 0]) (simp add: world_upd_defs blk_base_def)
    ultimately have "kv_inv mem n ?w6 ?blks"
      using n w2(3,5) heap by (simp add: kv_inv_def heap_ok_def world_upd_defs)
    moreover have "concat ?blks = []" by (induction n) auto
    then have "unique_keys ?blks" "kv_lookup ?blks = Map.empty"
      by (simp_all add: unique_keys_def live_def kv_lookup_def fun_eq_iff)
    moreover have "\<not> w_lock ?w6" using w2(4) by (simp add: world_upd_defs)
    ultimately show ?thesis unfolding kv_holds_def by blast
  qed
  ultimately show ?thesis using sp6 wp6 gc6 by auto
qed

end

end
