(* ===== verification/Store.thy ===== *)
theory Store
  imports Prelude
begin

text \<open>
  The interface of a persistent key-value store (adapter/include/amp_kv.h:
  \<open>amp_kv_set\<close>, \<open>amp_kv_get\<close>, \<open>amp_kv_delete\<close>) as locales. \<open>holds s m\<close> says that the
  state \<open>s\<close> represents the map \<open>m\<close>. The flash store of components/kv and the file
  store of adapter/platform/linux provide it; components/und is a client.
\<close>

type_synonym kv_map = "byte list \<rightharpoonup> byte list"

locale kv_store =
  fixes holds :: "'s \<Rightarrow> kv_map \<Rightarrow> bool"
    and set_op :: "byte list \<Rightarrow> byte list \<Rightarrow> 's \<Rightarrow> (int \<times> 's) option"
    and get_op :: "byte list \<Rightarrow> nat \<Rightarrow> 's \<Rightarrow> (byte list option \<times> 's) option"
    and key_ok :: "byte list \<Rightarrow> bool"
    and val_ok :: "byte list \<Rightarrow> bool"
  assumes set_law: "holds s m \<Longrightarrow> key_ok k \<Longrightarrow> val_ok v \<Longrightarrow> set_op k v s = Some (r, s')
      \<Longrightarrow> r = 0 \<and> holds s' (m(k \<mapsto> v)) \<or> r \<noteq> 0 \<and> holds s' m"
    and get_law: "holds s m \<Longrightarrow> key_ok k \<Longrightarrow> 0 < len \<Longrightarrow> (\<And>v. m k = Some v \<Longrightarrow> length v \<le> len)
      \<Longrightarrow> \<exists>s'. get_op k len s = Some (m k, s') \<and> holds s' m"
begin

lemma get_after_set:
  assumes "holds s m" "key_ok k" "val_ok v" "set_op k v s = Some (0, s')"
    "length v \<le> len" "0 < len"
  shows "\<exists>s''. get_op k len s' = Some (Some v, s'') \<and> holds s'' (m(k \<mapsto> v))"
proof -
  have "holds s' (m(k \<mapsto> v))" using set_law [OF assms(1-4)] by simp
  from get_law [OF this assms(2,6)] assms(5) show ?thesis by simp
qed

text \<open>Writing a list of pairs one after the other, going on after a failure.\<close>

fun set_all :: "(byte list \<times> byte list) list \<Rightarrow> 's \<Rightarrow> (int list \<times> 's) option" where
  "set_all [] s = Some ([], s)"
| "set_all ((k, v) # kvs) s =
     (case set_op k v s of None \<Rightarrow> None
      | Some (r, s1) \<Rightarrow>
          (case set_all kvs s1 of None \<Rightarrow> None | Some (rs, s2) \<Rightarrow> Some (r # rs, s2)))"

lemma set_all_holds:
  assumes "set_all kvs s = Some (rs, s')" "holds s m"
    "\<forall>(k, v) \<in> set kvs. key_ok k \<and> val_ok v" "\<forall>r \<in> set rs. r = 0"
  shows "holds s' (m ++ map_of (rev kvs))"
  using assms
proof (induction kvs arbitrary: s m rs)
  case Nil
  then show ?case by simp
next
  case (Cons kv kvs)
  obtain k v where kv: "kv = (k, v)" by (cases kv)
  from Cons.prems(1) obtain r s1 rs1 where
    s1: "set_op k v s = Some (r, s1)" "set_all kvs s1 = Some (rs1, s')" "rs = r # rs1"
    by (auto simp: kv split: option.splits prod.splits)
  have "holds s1 (m(k \<mapsto> v))"
    using set_law [OF Cons.prems(2) _ _ s1(1)] Cons.prems(3,4) s1(3) kv by auto
  moreover have "m ++ map_of (rev (kv # kvs)) = m(k \<mapsto> v) ++ map_of (rev kvs)"
    by (rule ext) (simp add: kv map_add_def split: option.splits)
  ultimately show ?case
    using Cons.IH [OF s1(2)] Cons.prems(3,4) s1(3) by simp
qed

end

locale kv_store_del = kv_store holds set_op get_op key_ok val_ok
  for holds :: "'s \<Rightarrow> kv_map \<Rightarrow> bool" and set_op get_op key_ok val_ok +
  fixes del_op :: "byte list \<Rightarrow> 's \<Rightarrow> (int \<times> 's) option"
  assumes del_law: "holds s m \<Longrightarrow> key_ok k \<Longrightarrow>
      \<exists>r s'. del_op k s = Some (r, s') \<and> holds s' (m(k := None))"
begin

lemma get_after_del:
  assumes "holds s m" "key_ok k" "0 < len"
  shows "\<exists>r s' s''. del_op k s = Some (r, s') \<and> get_op k len s' = Some (None, s'')"
proof -
  obtain r s' where d: "del_op k s = Some (r, s')" "holds s' (m(k := None))"
    using del_law [OF assms(1,2)] by blast
  from get_law [OF d(2) assms(2,3)] d(1) show ?thesis by auto
qed

lemma del_after_set:
  assumes "holds s m" "key_ok k" "val_ok v" "set_op k v s = Some (0, s')"
  shows "\<exists>r s''. del_op k s' = Some (r, s'') \<and> holds s'' (m(k := None))"
proof -
  have "holds s' (m(k \<mapsto> v))" using set_law [OF assms] by simp
  from del_law [OF this assms(2)] show ?thesis by simp
qed

end

end
