(* ===== verification/Kv_Store.thy ===== *)
theory Kv_Store
  imports Kv_Spec Store
begin

text \<open>
  The flash store as a provider of the store interface: on every device that keeps the
  promise of \<open>flash_dev\<close>, \<open>kv_item_set\<close>, \<open>kv_item_get\<close> and \<open>kv_item_delete\<close>
  satisfy the laws of \<open>kv_store_del\<close>.
\<close>

definition flash_set ::
  "'f flash_hal \<Rightarrow> nat \<Rightarrow> byte list \<Rightarrow> byte list \<Rightarrow> 'f kv_world \<Rightarrow> (int \<times> 'f kv_world) option" where
  "flash_set hal n k v w = kv_item_set hal n (Some k) (Some v) (int (length v)) w"

definition flash_get ::
  "'f flash_hal \<Rightarrow> nat \<Rightarrow> byte list \<Rightarrow> nat \<Rightarrow> 'f kv_world \<Rightarrow> (byte list option \<times> 'f kv_world) option"
  where
  "flash_get hal n k len w =
     map_option (\<lambda>(r, v, _, w'). (if r = KV_OK then v else None, w'))
       (kv_item_get hal n (Some k) (Some (int len)) w)"

definition flash_key_ok :: "byte list \<Rightarrow> bool" where
  "flash_key_ok k \<longleftrightarrow> 0 < length k \<and> length k \<le> KV_MAX_KEY_LEN"

definition flash_val_ok :: "byte list \<Rightarrow> bool" where
  "flash_val_ok v \<longleftrightarrow> 0 < length v \<and> length v \<le> KV_MAX_VAL_LEN"

definition flash_holds ::
  "('f \<Rightarrow> nat \<Rightarrow> byte) \<Rightarrow> nat \<Rightarrow> 'f kv_world \<Rightarrow> kv_map \<Rightarrow> bool" where
  "flash_holds mem sz w m \<longleftrightarrow> kv_holds mem (sz div KV_BLOCK_SIZE) w m
     \<and> sz = sz div KV_BLOCK_SIZE * KV_BLOCK_SIZE"

sublocale flash_dev \<subseteq> fkv: kv_store_del "flash_holds mem size_of"
  "flash_set hal (size_of div KV_BLOCK_SIZE)" "flash_get hal (size_of div KV_BLOCK_SIZE)"
  flash_key_ok flash_val_ok "kv_item_delete hal (size_of div KV_BLOCK_SIZE)"
proof
  fix s :: "'f kv_world" and m k v r s'
  assume a: "flash_holds mem size_of s m" "flash_key_ok k" "flash_val_ok v"
    "flash_set hal (size_of div 4096) k v s = Some (r, s')"
  let ?n = "size_of div 4096"
  have h: "kv_holds mem ?n s m" "size_of = ?n * 4096" using a(1) by (simp_all add: flash_holds_def)
  have k: "0 < length k" "length k \<le> 128" using a(2) by (simp_all add: flash_key_ok_def)
  have v: "0 < int (length v)" "int (length v) \<le> 512" "int (length v) \<le> int (length v)"
    using a(3) by (simp_all add: flash_val_ok_def)
  from set_contract [OF h k v a(4) [unfolded flash_set_def]] h(2)
  show "r = 0 \<and> flash_holds mem size_of s' (m(k \<mapsto> v)) \<or> r \<noteq> 0 \<and> flash_holds mem size_of s' m"
    by (auto simp: flash_holds_def)
next
  fix s :: "'f kv_world" and m k and len :: nat
  assume a: "flash_holds mem size_of s m" "flash_key_ok k" "0 < len"
    "\<And>v. m k = Some v \<Longrightarrow> length v \<le> len"
  have h: "kv_holds mem (size_of div 4096) s m" "size_of = size_of div 4096 * 4096"
    using a(1) by (simp_all add: flash_holds_def)
  have "0 < int len" using a(3) by simp
  from get_contract [OF h this, of k] obtain w' where
    w': "kv_holds mem (size_of div 4096) w' m"
    and g: "kv_item_get hal (size_of div 4096) (Some k) (Some (int len)) s =
      Some (case m k of
        None \<Rightarrow> (KV_ERR_NOT_FOUND, None, Some (int len), w')
      | Some v \<Rightarrow> if int len < int (length v) then (KV_ERR_NO_SPACE, None, Some (int (length v)), w')
                 else (KV_OK, Some v, Some (int (length v)), w'))" by blast
  have "flash_get hal (size_of div 4096) k len s = Some (m k, w')"
    unfolding flash_get_def g using a(4) by (cases "m k") auto
  then show "\<exists>s'. flash_get hal (size_of div 4096) k len s = Some (m k, s') \<and> flash_holds mem size_of s' m"
    using w' h(2) by (simp add: flash_holds_def)
next
  fix s :: "'f kv_world" and m k
  assume a: "flash_holds mem size_of s m" "flash_key_ok k"
  have h: "kv_holds mem (size_of div 4096) s m" "size_of = size_of div 4096 * 4096"
    using a(1) by (simp_all add: flash_holds_def)
  from delete_contract [OF h, of k] h(2)
  show "\<exists>r s'. kv_item_delete hal (size_of div 4096) k s = Some (r, s')
      \<and> flash_holds mem size_of s' (m(k := None))"
    by (auto simp: flash_holds_def)
qed

end
