(* ===== verification/Kv_Boot.thy ===== *)
theory Kv_Boot
  imports Kv_Spec
begin

text \<open>
  Start-up on a flash that is in use: the recovery scan of \<open>kv_init_internal\<close> rebuilds
  the management structure from the flash, and the store holds the map it held before.
  An item carries the offset of the item it replaced; the recovery deletes what it finds
  there, so the offsets must not point at bytes that look like a live item of the key.
\<close>

section \<open>Offsets of replaced items\<close>

text \<open>
  What \<open>kv_item_del\<close> takes for the replaced item of \<open>key\<close> at \<open>off\<close>. A key that
  would reach over the end of the flash counts as equal.
\<close>

definition lookalike :: "(nat \<Rightarrow> byte) \<Rightarrow> nat \<Rightarrow> nat \<Rightarrow> byte list \<Rightarrow> bool" where
  "lookalike m sz off key \<longleftrightarrow> m off = KV_ITEM_MAGIC_NUM \<and> m (off + 1) = KV_ITEM_STATE_NORMAL \<and>
     unat (m (off + 3)) = length key \<and>
     (off + KV_ITEM_HDR_SIZE + length key \<le> sz \<longrightarrow> get_range m (off + KV_ITEM_HDR_SIZE) (length key) = key)"

definition origin_ok :: "(nat \<Rightarrow> byte) \<Rightarrow> nat \<Rightarrow> nat \<Rightarrow> aitem \<Rightarrow> bool" where
  "origin_ok m sz p it \<longleftrightarrow> ai_org it = 0 \<or> ai_org it = p \<or>
     ai_org it + KV_ITEM_HDR_SIZE \<le> sz \<and> \<not> lookalike m sz (ai_org it) (ai_key it)"

fun origins_at :: "(nat \<Rightarrow> byte) \<Rightarrow> nat \<Rightarrow> nat \<Rightarrow> aitem list \<Rightarrow> bool" where
  "origins_at m sz p [] \<longleftrightarrow> True"
| "origins_at m sz p (it # its) \<longleftrightarrow>
     (normal it \<longrightarrow> origin_ok m sz p it) \<and> origins_at m sz (p + item_len it) its"

definition origins_ok :: "(nat \<Rightarrow> byte) \<Rightarrow> nat \<Rightarrow> aitem list list \<Rightarrow> bool" where
  "origins_ok m sz blks \<longleftrightarrow> (\<forall>b<length blks. origins_at m sz (blk_base b + KV_BLOCK_HDR_SIZE) (blks ! b))"

lemma origins_append:
  "origins_at m sz p (xs @ ys) \<longleftrightarrow> origins_at m sz p xs \<and> origins_at m sz (p + its_len xs) ys"
  by (induction xs arbitrary: p) (auto simp: add.assoc)

section \<open>Recovery of one block\<close>

context flash_dev
begin

lemma del_origin_quiet:
  assumes heap: "heap_ok w" and wf: "wf_item it" and fits: "p + item_len it \<le> size_of"
    and img: "get_range (mem (w_flash w)) p (item_len it) = enc it"
    and org: "ai_org it + 8 \<le> size_of" "\<not> lookalike (mem (w_flash w)) size_of (ai_org it) (ai_key it)"
  shows "\<exists>r w'. kv_item_del hal (mk_item p it) KV_UPDATE_FLAG w = (r, w') \<and> same mem w w'"
proof -
  let ?o = "ai_org it" and ?k = "length (ai_key it)"
  have "?o + length (replicate 8 (0::byte)) \<le> size_of" using org(1) by simp
  from read_same [OF this, of w] obtain w1 where
    w1: "kv_flash_read hal ?o (replicate 8 0) w = (0, get_range (mem (w_flash w)) ?o 8, w1)" "same mem w w1"
    by auto
  define hdr where "hdr = item_hdr_of (get_range (mem (w_flash w)) ?o 8)"
  have h: "ih_magic hdr = mem (w_flash w) ?o" "ih_state hdr = mem (w_flash w) (?o + 1)"
    "ih_key_len hdr = unat (mem (w_flash w) (?o + 3))"
    by (simp_all add: hdr_def item_hdr_of_def)
  show ?thesis
  proof (cases "ih_magic hdr \<noteq> 0x49 \<or> ih_state hdr \<noteq> 0xEE \<or> ih_key_len hdr \<noteq> ?k")
    case True
    then have "kv_item_del hal (mk_item p it) 1 w = (0, w1)"
      using w1(1) by (simp add: kv_item_del_def mk_item_def hdr_of_def Let_def hdr_def)
    then show ?thesis using w1(2) by blast
  next
    case False
    then have o: "?o + 8 + ?k \<le> size_of" "get_range (mem (w_flash w)) (?o + 8) ?k \<noteq> ai_key it"
      using org(2) h by (auto simp: lookalike_def)
    obtain w2 where w2: "kv_malloc w1 = (True, w2)" "same mem w1 w2"
      using malloc_ok same_heap [OF w1(2)] heap by blast
    have s2: "same mem w w2" using w1(2) w2(2) by (rule same_trans)
    obtain w3 where w3: "kv_malloc w2 = (True, w3)" "same mem w2 w3"
      using malloc_ok same_heap [OF s2] heap by blast
    have s3: "same mem w w3" using s2 w3(2) by (rule same_trans)
    from read_same [of "?o + 8" "replicate ?k 0" w3] o(1) obtain w4 where
      w4: "kv_flash_read hal (?o + 8) (replicate ?k 0) w3
        = (0, get_range (mem (w_flash w3)) (?o + 8) ?k, w4)" "same mem w3 w4" by auto
    have s4: "same mem w w4" using s3 w4(2) by (rule same_trans)
    have "p + 8 + length (replicate ?k (0::byte)) \<le> size_of" using item_len_bounds(4) [OF wf] fits by simp
    from read_same [OF this, of w4] obtain w5 where
      w5: "kv_flash_read hal (p + 8) (replicate ?k 0) w4
        = (0, get_range (mem (w_flash w4)) (p + 8) ?k, w5)" "same mem w4 w5" by auto
    have m: "mem (w_flash w3) = mem (w_flash w)" "mem (w_flash w4) = mem (w_flash w)"
      using s3 s4 by (simp_all add: same_def)
    have "get_range (mem (w_flash w)) (p + 8) ?k = ai_key it" using enc_parts(3) [OF wf img] .
    then have "kv_item_del hal (mk_item p it) 1 w = (0, w5)"
      using False w1(1) w2(1) w3(1) w4(1) w5(1) o(2) m
      by (simp add: kv_item_del_def mk_item_def hdr_of_def Let_def hdr_def [symmetric])
    then show ?thesis using same_trans [OF s4 w5(2)] by blast
  qed
qed

lemma recovery_cb_ok:
  assumes heap: "heap_ok w" and wf: "wf_item it" and fits: "p + item_len it \<le> size_of"
    and img: "get_range (mem (w_flash w)) p (item_len it) = enc it"
    and org: "origin_ok (mem (w_flash w)) size_of p it"
  shows "\<exists>w'. same mem w w' \<and>
    item_recovery_cb hal (mk_item p it) key w = (KV_LOOP_CONTINUE, mk_item p it, w')"
proof -
  obtain w1 where w1: "kv_malloc w = (True, w1)" "same mem w w1" using malloc_ok [OF heap] by blast
  let ?kv = "length (ai_key it) + length (ai_val it)"
  have "p + 8 + length (replicate ?kv (0::byte)) \<le> size_of" using item_len_bounds(4) [OF wf] fits by simp
  from read_same [OF this, of w1] obtain w2 where
    w2: "kv_flash_read hal (p + 8) (replicate ?kv 0) w1 = (0, get_range (mem (w_flash w1)) (p + 8) ?kv, w2)"
      "same mem w1 w2" by auto
  have s2: "same mem w w2" using w1(2) w2(2) by (rule same_trans)
  have kv: "get_range (mem (w_flash w1)) (p + 8) ?kv = ai_key it @ ai_val it"
    using enc_parts(2) [OF wf img] w1(2) by (simp add: same_def)
  show ?thesis
  proof (cases "ai_org it = 0 \<or> ai_org it = p")
    case True
    then have "item_recovery_cb hal (mk_item p it) key w = (KV_LOOP_CONTINUE, mk_item p it, w2)"
      using w1(1) w2(1) kv by (auto simp: item_recovery_cb_def mk_item_def hdr_of_def Let_def)
    then show ?thesis using s2 by blast
  next
    case False
    then have o: "ai_org it + 8 \<le> size_of" "\<not> lookalike (mem (w_flash w2)) size_of (ai_org it) (ai_key it)"
      using org s2 by (auto simp: origin_ok_def same_def)
    have i2: "get_range (mem (w_flash w2)) p (item_len it) = enc it" using img s2 by (simp add: same_def)
    have h2: "heap_ok w2" using same_heap [OF s2] heap by simp
    obtain r w3 where w3: "kv_item_del hal (mk_item p it) 1 w2 = (r, w3)" "same mem w2 w3"
      using del_origin_quiet [OF h2 wf fits i2 o] by blast
    have "item_recovery_cb hal (mk_item p it) key w = (KV_LOOP_CONTINUE, mk_item p it, w3)"
      using False w1(1) w2(1) kv w3(1) by (simp add: item_recovery_cb_def mk_item_def hdr_of_def Let_def)
    then show ?thesis using same_trans [OF s2 w3(2)] by blast
  qed
qed

text \<open>The traversal finds the items of the block and records the space behind them.\<close>

lemma recover_block:
  assumes n: "n \<le> 15" "size_of = n * 4096" and b: "b < n" and heap: "heap_ok w"
    and rep: "blk_rep (mem (w_flash w)) b st its" and used: "st = 0xCC \<longrightarrow> list_all normal its"
    and st: "bi_state (get_info w b) = st"
    and org: "origins_at (mem (w_flash w)) size_of (blk_base b + 4) its"
  shows "\<exists>w'. same mem w w' \<and> snd (kv_item_traverse hal (item_recovery_cb hal) b key w)
    = set_blk_space b (4092 - its_len its) w'"
proof -
  let ?p = "blk_base b + 4"
  let ?f = "item_recovery_cb hal"
  let ?I = "\<lambda>(_ :: aitem list) w'. same mem w w'"
  have b15: "b < 15" using n b by simp
  note base = blk_base_bound [OF b n(1)]
  have ends: "blk_end b = blk_base b + 4096" by (rule blk_end_base [OF b15])
  have at: "items_at (mem (w_flash w)) ?p its" and short: "4 + its_len its < 4096"
    and free: "\<forall>a. ?p + its_len its \<le> a \<and> a < blk_base b + 4096 \<longrightarrow> mem (w_flash w) a = 0xFF"
    using rep by (auto simp: blk_rep_def)
  have start: "kv_item_traverse hal ?f b key w = kv_traverse_loop hal ?f b key ?p w"
    by (simp add: kv_item_traverse_def blk_start [OF b15])
  have "\<exists>w'. same mem w w' \<and> kv_traverse_loop hal ?f b key (?p + its_len []) w
      = (None, traverse_finish b (?p + its_len its) w')"
  proof (rule traverse_all [where I = ?I and todo = its])
    fix "done" it todo w1 assume i: "its = done @ it # todo" and s1: "same mem w w1"
    let ?q = "?p + its_len done"
    have m1: "mem (w_flash w1) = mem (w_flash w)" using s1 by (simp add: same_def)
    have wf: "wf_item it" using at i by (simp add: items_at_append)
    have img: "get_range (mem (w_flash w1)) ?q (item_len it) = enc it"
      using at unfolding i m1 items_at_append by simp
    have q: "?q + item_len it \<le> size_of" "?q + item_len it < 65536"
      using short i base n(2) by auto
    have h1: "heap_ok w1" using same_heap [OF s1] heap by simp
    from step_item [OF h1 q wf img, of ?f b key] obtain w2 where
      w2: "same mem w1 w2" and stp: "traverse_step hal ?f b key ?q w1 =
        (if normal it then
          (case ?f (mk_item ?q it) key w2 of (res, item', w3) \<Rightarrow>
             if res = KV_OK then (Inl (Some item', False), w3)
             else if res \<noteq> KV_LOOP_CONTINUE then (Inl (None, False), w3)
             else (Inr (?q + item_len it), w3))
        else (Inr (?q + item_len it), mark_used_dirty hal b w2))" by blast
    have s2: "same mem w w2" using s1 w2 by (rule same_trans)
    show "\<exists>w'. traverse_step hal ?f b key ?q w1 = (Inr (?q + item_len it), w') \<and> same mem w w'"
    proof (cases "normal it")
      case True
      have m2: "mem (w_flash w2) = mem (w_flash w)" using s2 by (simp add: same_def)
      have img2: "get_range (mem (w_flash w2)) ?q (item_len it) = enc it" using img m1 m2 by simp
      have h2: "heap_ok w2" using same_heap [OF s2] heap by simp
      have o2: "origin_ok (mem (w_flash w2)) size_of ?q it"
        using org True m2 unfolding i origins_append by simp
      from recovery_cb_ok [OF h2 wf q(1) img2 o2, of key] obtain w3 where
        w3: "same mem w2 w3" "?f (mk_item ?q it) key w2 = (KV_LOOP_CONTINUE, mk_item ?q it, w3)" by blast
      then show ?thesis using stp True same_trans [OF s2 w3(1)] by simp
    next
      case False
      then have "st \<noteq> 0xCC" using used i by auto
      then have "mark_used_dirty hal b w2 = w2"
        using st s2 by (simp add: mark_used_dirty_def get_info_def same_def)
      then show ?thesis using False stp s2 by auto
    qed
  next
    fix w1 assume s1: "same mem w w1" and g: "?p + its_len its + 8 < blk_end b"
    have "heap_ok w1" using same_heap [OF s1] heap by simp
    moreover have "?p + its_len its + 8 \<le> size_of" using g ends base n(2) by linarith
    moreover have "mem (w_flash w1) a = 0xFF" if "?p + its_len its \<le> a" "a < ?p + its_len its + 8" for a
      using free that g ends s1 by (simp add: same_def)
    ultimately have "\<exists>w2. same mem w1 w2 \<and> traverse_step hal ?f b key (?p + its_len its) w1 = (Inl (None, True), w2)"
      by (rule step_free)
    then show "\<exists>w'. traverse_step hal ?f b key (?p + its_len its) w1 = (Inl (None, True), w') \<and> same mem w w'"
      using same_trans [OF s1] by blast
  next
    show "?p + its_len its < blk_end b" using short ends by simp
  next
    fix it assume "it \<in> set its"
    then show "12 \<le> item_len it" using items_at_wf [OF at] item_len_bounds(1) by blast
  next
    show "?p + its_len [] + 8 < blk_end b" using ends by simp
  qed simp_all
  then obtain w1 where s1: "same mem w w1"
    and l1: "kv_traverse_loop hal ?f b key ?p w = (None, traverse_finish b (?p + its_len its) w1)" by auto
  have "traverse_finish b (?p + its_len its) w1 = set_blk_space b (4092 - its_len its) w1"
    using short ends by (simp add: traverse_finish_def)
  then show ?thesis using s1 l1 start by auto
qed


end

section \<open>The scan\<close>

text \<open>The scan makes the block table of \<open>mg\<close> again, up to block \<open>k\<close>.\<close>

definition rebuilt :: "kv_mgr \<Rightarrow> nat \<Rightarrow> kv_mgr \<Rightarrow> bool" where
  "rebuilt mg k mg' \<longleftrightarrow> length (block_infos mg') = length (block_infos mg)
     \<and> (\<forall>b<k. info mg' b = info mg b)
     \<and> clean_blk_nums mg' = length (filter is_clean (take k (block_infos mg)))"

text \<open>What the scan leaves alone.\<close>

definition untouched :: "('f \<Rightarrow> nat \<Rightarrow> byte) \<Rightarrow> 'f kv_world \<Rightarrow> 'f kv_world \<Rightarrow> bool" where
  "untouched mem w w' \<longleftrightarrow> mem (w_flash w') = mem (w_flash w) \<and> w_alloc w' = w_alloc w
     \<and> w_lock w' = w_lock w \<and> w_gc_tasks w' = w_gc_tasks w
     \<and> gc_trigger (w_mgr w') = gc_trigger (w_mgr w)"

lemma untouched_trans: "untouched mem w w' \<Longrightarrow> untouched mem w' w'' \<Longrightarrow> untouched mem w w''"
  by (simp add: untouched_def)

context flash_dev
begin

lemma scan_step:
  assumes n: "n \<le> 15" "size_of = n * 4096" and k: "k < n" and heap: "heap_ok w"
    and inv: "blk_inv (mem (w_flash w)) k (info mg k) its" and len: "length (block_infos mg) = n"
    and org: "origins_at (mem (w_flash w)) size_of (blk_base k + 4) its"
    and r: "rebuilt mg k (w_mgr w)"
  shows "\<exists>w'. kv_init_scan hal (k # js) [] w = kv_init_scan hal js [] w'
    \<and> rebuilt mg (Suc k) (w_mgr w') \<and> untouched mem w w'"
proof -
  let ?st = "bi_state (info mg k)"
  have rep: "blk_rep (mem (w_flash w)) k ?st its" and sp: "bi_space (info mg k) = 4092 - its_len its"
    and sum: "bi_space (info mg k) + 4 + its_len its = 4096"
    and st: "?st = 0xEE \<and> its = [] \<or> ?st = 0xCC \<and> list_all normal its \<or> ?st = 0x44"
    using inv by (auto simp: blk_inv_def)
  have kb: "k * 4096 = blk_base k" by (simp add: blk_base_def)
  have "blk_base k + length (replicate 4 (0::byte)) \<le> size_of"
    using blk_base_bound [OF k n(1)] n(2) by simp
  from read_same [OF this, of w] obtain w1 where
    w1: "kv_flash_read hal (blk_base k) (replicate 4 0) w = (0, get_range (mem (w_flash w)) (blk_base k) 4, w1)"
      "same mem w w1" by auto
  define hdr where "hdr = block_hdr_of (get_range (mem (w_flash w)) (blk_base k) 4)"
  have hdr: "bh_magic hdr = 0x4B" "bh_state hdr = ?st"
    using rep by (simp_all add: hdr_def block_hdr_of_def blk_rep_def)
  let ?w2 = "set_blk_state k ?st w1"
  have len1: "length (block_infos (w_mgr w1)) = n"
    using r len w1(2) by (simp add: rebuilt_def same_def)
  have s2: "mem (w_flash ?w2) = mem (w_flash w)" "heap_ok ?w2" "bi_state (get_info ?w2 k) = ?st"
    using w1(2) heap len1 k by (simp_all add: world_upd_defs same_def heap_ok_def get_info_def)
  have "\<exists>w3. same mem ?w2 w3 \<and> snd (kv_item_traverse hal (item_recovery_cb hal) k [] ?w2)
      = set_blk_space k (4092 - its_len its) w3"
    by (rule recover_block [OF n k s2(2) _ _ s2(3)]) (use rep st org s2(1) in auto)
  then obtain w3 where w3: "same mem ?w2 w3"
    "snd (kv_item_traverse hal (item_recovery_cb hal) k [] ?w2) = set_blk_space k (bi_space (info mg k)) w3"
    unfolding sp by blast
  let ?w4 = "set_blk_space k (bi_space (info mg k)) w3"
  have mg3: "w_mgr w3 = w_mgr ?w2" using w3(1) by (simp add: same_def)
  have mg4: "info (w_mgr ?w4) k = info mg k" "clean_blk_nums (w_mgr ?w4) = clean_blk_nums (w_mgr w)"
    "b < k \<Longrightarrow> info (w_mgr ?w4) b = info mg b" "length (block_infos (w_mgr ?w4)) = n" for b
    using mg3 w1(2) r len len1 k by (auto simp: world_upd_defs same_def rebuilt_def)
  have u4: "untouched mem w ?w4"
    using w3(1) w1(2) by (simp add: untouched_def same_def world_upd_defs)
  have take: "take (Suc k) (block_infos mg) = take k (block_infos mg) @ [info mg k]"
    using k len by (simp add: take_Suc_conv_app_nth)
  have cn: "clean_blk_nums (w_mgr w) = length (filter is_clean (take k (block_infos mg)))"
    using r by (simp add: rebuilt_def)
  have bound: "clean_blk_nums (w_mgr w) \<le> k"
    unfolding cn by (rule order_trans [OF length_filter_le]) simp
  have valid: "\<not> INVALID_BLK_STATE ?st" and sp0: "is_clean (info mg k) \<longrightarrow> bi_space (info mg k) = 4092"
    using st sum by (auto simp: INVALID_BLK_STATE_def)
  have gen: "kv_init_scan hal (k # js) [] w =
      (let w' = snd (kv_item_traverse hal (item_recovery_cb hal) k [] ?w2)
       in if is_clean (info mg k)
          then if bi_space (get_info w' k) \<noteq> 4092 then kv_init_scan hal js [k] w'
               else kv_init_scan hal js [] (set_clean_nums (u8 (clean_blk_nums (w_mgr w') + 1)) w')
          else kv_init_scan hal js [] w')"
    by (simp add: kb w1(1) Let_def hdr_def [symmetric] hdr valid)
  have run: "kv_init_scan hal (k # js) [] w = (if is_clean (info mg k)
      then kv_init_scan hal js [] (set_clean_nums (u8 (clean_blk_nums (w_mgr ?w4) + 1)) ?w4)
      else kv_init_scan hal js [] ?w4)"
    unfolding gen w3(2) Let_def get_info_def mg4(1) using sp0 by (cases "is_clean (info mg k)") simp_all
  show ?thesis
  proof (cases "is_clean (info mg k)")
    case True
    let ?w5 = "set_clean_nums (u8 (clean_blk_nums (w_mgr ?w4) + 1)) ?w4"
    have "rebuilt mg (Suc k) (w_mgr ?w5)"
      using mg4 bound k n(1) True cn len
      by (simp add: rebuilt_def take less_Suc_eq all_conj_distrib) (auto simp: world_upd_defs)
    moreover have "untouched mem w ?w5" using u4 by (simp add: untouched_def world_upd_defs)
    ultimately show ?thesis using run True by auto
  next
    case False
    then have "rebuilt mg (Suc k) (w_mgr ?w4)"
      using mg4 cn len by (auto simp: rebuilt_def take less_Suc_eq)
    then show ?thesis using run False u4 by auto
  qed
qed

lemma scan_rebuilds:
  assumes n: "n \<le> 15" "size_of = n * 4096"
    and rep: "kv_rep n m mg blks" and org: "origins_ok m size_of blks"
  shows "k \<le> n \<Longrightarrow> heap_ok w \<Longrightarrow> mem (w_flash w) = m \<Longrightarrow> rebuilt mg k (w_mgr w)
    \<Longrightarrow> \<exists>w'. kv_init_scan hal [k..<n] [] w = (0, [], w') \<and> rebuilt mg n (w_mgr w') \<and> untouched mem w w'"
proof (induction "n - k" arbitrary: k w)
  case 0
  then show ?case by (auto simp: untouched_def)
next
  case (Suc d)
  have k: "k < n" "[k..<n] = k # [Suc k..<n]" "d = n - Suc k" "Suc k \<le> n"
    using Suc.hyps(2) by (auto simp: upt_conv_Cons)
  have b: "blk_inv (mem (w_flash w)) k (info mg k) (blks ! k)" "length (block_infos mg) = n"
    "origins_at (mem (w_flash w)) size_of (blk_base k + 4) (blks ! k)"
    using rep org k(1) Suc.prems(3) by (auto simp: kv_rep_def origins_ok_def)
  from scan_step [OF n k(1) Suc.prems(2) b Suc.prems(4), of "[Suc k..<n]"] obtain w1 where
    w1: "kv_init_scan hal [k..<n] [] w = kv_init_scan hal [Suc k..<n] [] w1"
      "rebuilt mg (Suc k) (w_mgr w1)" "untouched mem w w1" unfolding k(2) by blast
  have "heap_ok w1" "mem (w_flash w1) = m"
    using w1(3) Suc.prems(2,3) by (simp_all add: untouched_def heap_ok_def)
  from Suc.hyps(1) [OF k(3,4) this w1(2)] show ?case
    using w1(1) untouched_trans [OF w1(3)] by fastforce
qed

end

section \<open>The write position\<close>

lemma cyclic_change:
  assumes ij: "i < n" "\<not> P i" "j < n" "P (j::nat)"
  shows "\<exists>b<n. \<not> P b \<and> P (if b + 1 = n then 0 else b + 1)"
proof (rule ccontr)
  assume "\<not> ?thesis"
  then have step: "\<not> P (if b + 1 = n then 0 else b + 1)" if "b < n" "\<not> P b" for b
    using that by blast
  have up: "\<not> P (b + d)" if "b + d < n" "\<not> P b" for b d
    using that
  proof (induction d)
    case (Suc d)
    then show ?case using step [of "b + d"] by (auto split: if_splits)
  qed simp
  have "\<not> P (n - 1)" using up [of i "n - 1 - i"] ij by simp
  then have "\<not> P 0" using step [of "n - 1"] ij by (auto split: if_splits)
  then show False using up [of 0 j] ij by simp
qed

lemma init_write_pos_found:
  assumes "\<exists>b\<in>set bs. bi_state (get_info w b) \<noteq> 0xEE
      \<and> bi_state (get_info w (if b + 1 = n then 0 else b + 1)) = 0xEE"
    and "\<forall>b\<in>set bs. bi_state (get_info w b) \<in> {0xEE, 0xCC, 0x44}"
  shows "\<exists>b\<in>set bs. bi_state (get_info w b) \<noteq> 0xEE
    \<and> kv_init_write_pos n bs w = set_write_pos (u16 (b * 4096 + sub_u16 4096 (bi_space (get_info w b)))) w"
  using assms by (induction bs) (auto simp: Let_def)

section \<open>Start-up\<close>

context flash_dev
begin

lemma restart_contract:
  assumes sz: "size_of = n * 4096" and inv: "kv_inv mem n w blks" and uniq: "unique_keys blks"
    and clean: "0 < clean_blk_nums (w_mgr w)" and org: "origins_ok (mem (w_flash w)) size_of blks"
    and fl: "mem (w_flash w0) = mem (w_flash w)" and heap: "heap_ok w0" and fresh: "\<not> inited (w_mgr w0)"
  shows "\<exists>w'. kv_init hal n True True w0 = (KV_OK, w') \<and> inited (w_mgr w')
    \<and> mem (w_flash w') = mem (w_flash w) \<and> kv_holds mem n w' (kv_lookup blks)"
proof -
  let ?m = "mem (w_flash w)" and ?mg = "w_mgr w"
  have n: "2 \<le> n" "n \<le> 15" and rep: "kv_rep n ?m ?mg blks" and wp: "wp_ok n ?mg blks"
    using inv by (auto simp: kv_inv_def)
  have len: "length (block_infos ?mg) = n" and binv: "b < n \<Longrightarrow> blk_inv ?m b (info ?mg b) (blks ! b)"
    and count: "clean_blk_nums ?mg = clean_count ?mg" for b using rep by (auto simp: kv_rep_def)
  let ?w1 = "w0\<lparr>w_mgr := \<lparr>inited = False, gc_trigger = False, gc_waiter = 0, clean_blk_nums = 0,
      write_pos = 0, block_infos = replicate n \<lparr>bi_space = 0, bi_state = 0\<rparr>\<rparr>, w_lock := False\<rparr>"
  have "rebuilt ?mg 0 (w_mgr ?w1)" "heap_ok ?w1" "mem (w_flash ?w1) = ?m"
    using len heap fl by (simp_all add: rebuilt_def heap_ok_def)
  with scan_rebuilds [OF n(2) sz rep org, of 0 ?w1] obtain w2 where
    w2: "kv_init_scan hal [0..<n] [] ?w1 = (0, [], w2)" "rebuilt ?mg n (w_mgr w2)" "untouched mem ?w1 w2"
    by blast
  have same2: "block_infos (w_mgr w2) = block_infos ?mg"
    by (rule nth_equalityI) (use w2(2) len in \<open>auto simp: rebuilt_def\<close>)
  have cn2: "clean_blk_nums (w_mgr w2) = clean_blk_nums ?mg"
    using w2(2) len count by (simp add: rebuilt_def clean_count_def)
  obtain i where i: "i < n" "\<not> is_clean (info ?mg i)" using wp by (auto simp: wp_ok_def)
  have "filter is_clean (block_infos ?mg) \<noteq> []" using clean count by (simp add: clean_count_def)
  then obtain j where j: "j < n" "is_clean (info ?mg j)"
    using len by (auto simp: filter_empty_conv in_set_conv_nth)
  have "clean_blk_nums ?mg \<noteq> n"
    using i len count length_filter_less [of "info ?mg i" "block_infos ?mg" is_clean]
    by (auto simp: clean_count_def)
  then have run: "kv_init_internal hal n ?w1 = (0, kv_init_write_pos n [0..<n] w2)"
    using clean by (simp add: kv_init_internal_def w2(1) Let_def cn2)
  have "bi_state (info ?mg b) \<in> {0xEE, 0xCC, 0x44}" if "b < n" for b
    using binv [OF that] by (auto simp: blk_inv_def)
  then have "\<forall>b\<in>set [0..<n]. bi_state (get_info w2 b) \<in> {0xEE, 0xCC, 0x44}"
    by (simp add: get_info_def same2)
  moreover have "\<exists>b\<in>set [0..<n]. bi_state (get_info w2 b) \<noteq> 0xEE
      \<and> bi_state (get_info w2 (if b + 1 = n then 0 else b + 1)) = 0xEE"
    using cyclic_change [of i n "\<lambda>b. is_clean (info ?mg b)" j] i j
    by (auto simp: get_info_def same2 simp del: One_nat_def)
  ultimately obtain b where b: "b < n" "\<not> is_clean (info ?mg b)"
    "kv_init_write_pos n [0..<n] w2 = set_write_pos (u16 (b * 4096 + sub_u16 4096 (bi_space (info ?mg b)))) w2"
    using init_write_pos_found [of "[0..<n]" w2 n] by (auto simp: get_info_def same2)
  have bi: "bi_space (info ?mg b) + 4 + its_len (blks ! b) = 4096" using binv [OF b(1)] by (simp add: blk_inv_def)
  have pos: "u16 (b * 4096 + sub_u16 4096 (bi_space (info ?mg b))) = blk_base b + 4 + its_len (blks ! b)"
  proof -
    have "nat (4096 - int (bi_space (info ?mg b))) = 4 + its_len (blks ! b)" using bi by linarith
    then show ?thesis using bi blk_base_bound [OF b(1) n(2)] by (simp add: sub_u16_def blk_base_def)
  qed
  let ?w3 = "upd_mgr (\<lambda>m. m\<lparr>inited := True\<rparr>) (set_write_pos (blk_base b + 4 + its_len (blks ! b)) w2)"
  have w3: "mem (w_flash ?w3) = ?m" "\<not> w_lock ?w3" "block_infos (w_mgr ?w3) = block_infos ?mg"
    "clean_blk_nums (w_mgr ?w3) = clean_blk_nums ?mg"
    using w2(3) fl same2 cn2 by (simp_all add: untouched_def world_upd_defs)
  have "kv_inv mem n ?w3 blks"
    using n rep w2(3) heap fl same2 cn2 b(1,2)
    by (auto simp: kv_inv_def untouched_def world_upd_defs heap_ok_def kv_rep_def wp_ok_def clean_count_def)
  then have inv3: "kv_inv mem n ?w3 blks" "kv_inv mem n (kv_trigger_gc ?w3) blks"
    using trigger_inv by blast+
  have ini: "inited (w_mgr ?w3)" "inited (w_mgr (kv_trigger_gc ?w3))"
    by (simp_all add: kv_trigger_gc_def kv_start_task_def world_upd_defs)
  have holds: "kv_inv mem n w' blks" "\<not> w_lock w'" "inited (w_mgr w')" "mem (w_flash w') = ?m"
    if "w' = ?w3 \<or> w' = kv_trigger_gc ?w3" for w'
    using that inv3 ini w3(1,2) by auto
  have "\<exists>w'. kv_init hal n True True w0 = (KV_OK, w') \<and> (w' = ?w3 \<or> w' = kv_trigger_gc ?w3)"
    using fresh n run b(3) pos by (simp add: kv_init_def Let_def)
  then show ?thesis using holds uniq unfolding kv_holds_def by blast
qed

end

end
