(* ===== verification/Kv_Demo.thy ===== *)
theory Kv_Demo
  imports Kv_Store Kv_Boot
begin

text \<open>
  A concrete store: four blocks of erased flash on the device \<open>nor_hal\<close>, with an
  unlimited heap, after \<open>kv_init\<close>. The examples of the development use it.
\<close>

type_synonym nor_world = "(nat \<Rightarrow> byte) kv_world"

definition blank_world :: nor_world where
  "blank_world =
     \<lparr>w_mgr = \<lparr>inited = False, gc_trigger = False, gc_waiter = 0, clean_blk_nums = 0,
        write_pos = 0, block_infos = []\<rparr>,
      w_flash = (\<lambda>_. 0xFF), w_alloc = (\<lambda>_. True), w_allocs = 0, w_lock = False, w_gc_tasks = 0\<rparr>"

definition demo_hal :: "(nat \<Rightarrow> byte) flash_hal" where
  "demo_hal = nor_hal 16384"

definition demo_world :: nor_world where
  "demo_world = snd (kv_init demo_hal 4 True True blank_world)"

lemma demo_dev: "flash_dev demo_hal (\<lambda>f. f) (4 * 4096)"
  using nor.flash_dev_axioms [of 16384] by (simp add: demo_hal_def)

lemma demo_facts:
  "kv_init demo_hal 4 True True blank_world = (0, demo_world)"
  "inited (w_mgr demo_world)" "kv_holds (\<lambda>f. f) 4 demo_world Map.empty"
  "\<not> gc_trigger (w_mgr demo_world)" "write_pos (w_mgr demo_world) = 4"
  "b < 4 \<Longrightarrow> bi_space (info (w_mgr demo_world) b) = 4092"
proof -
  have "\<exists>w'. kv_init demo_hal 4 True True blank_world = (0, w') \<and> inited (w_mgr w')
     \<and> kv_holds (\<lambda>f. f) 4 w' Map.empty \<and> \<not> gc_trigger (w_mgr w') \<and> write_pos (w_mgr w') = 4
     \<and> (\<forall>b<4. bi_space (info (w_mgr w') b) = 4092)"
    using flash_dev.init_blank_contract [OF demo_dev, of 4 blank_world]
    by (simp add: blank_world_def heap_ok_def)
  then show "kv_init demo_hal 4 True True blank_world = (0, demo_world)"
    "inited (w_mgr demo_world)" "kv_holds (\<lambda>f. f) 4 demo_world Map.empty"
    "\<not> gc_trigger (w_mgr demo_world)" "write_pos (w_mgr demo_world) = 4"
    "b < 4 \<Longrightarrow> bi_space (info (w_mgr demo_world) b) = 4092"
    by (auto simp: demo_world_def)
qed

lemma demo_lock: "\<not> w_lock demo_world"
  using demo_facts(3) by (simp add: kv_holds_def)

text \<open>A key and a value, and the store that holds them.\<close>

definition demo_key :: "byte list" where
  "demo_key = str ''app''"

definition demo_val :: "byte list" where
  "demo_val = str ''v1.0''"

text \<open>The management state of the demo store allows a set that triggers nothing.\<close>

lemma demo_set:
  "\<exists>w'. kv_item_set demo_hal 4 (Some demo_key) (Some demo_val) 4 demo_world = Some (0, w')
     \<and> kv_holds (\<lambda>f. f) 4 w' [demo_key \<mapsto> demo_val]"
  using flash_dev.set_room_contract [OF demo_dev demo_facts(3), where key = demo_key and val = demo_val
      and len = 4 and c = 1] demo_facts(4) demo_facts(6) [of 1]
  by (simp add: demo_key_def demo_val_def KV_ALIGN_def)

definition demo_world1 :: nor_world where
  "demo_world1 = snd (the (kv_item_set demo_hal 4 (Some demo_key) (Some demo_val) 4 demo_world))"

lemma demo1_facts:
  "kv_item_set demo_hal 4 (Some demo_key) (Some demo_val) 4 demo_world = Some (0, demo_world1)"
  "kv_holds (\<lambda>f. f) 4 demo_world1 [demo_key \<mapsto> demo_val]"
  using demo_set by (auto simp: demo_world1_def)

text \<open>A store whose four blocks are full.\<close>

definition full_world :: nor_world where
  "full_world = blank_world\<lparr>w_mgr := \<lparr>inited = True, gc_trigger = False, gc_waiter = 0, clean_blk_nums = 0,
     write_pos = 4092, block_infos = replicate 4 \<lparr>bi_space = 8, bi_state = KV_BLOCK_STATE_USED\<rparr>\<rparr>\<rparr>"

lemma demo_secure_fails:
  "\<exists>w'. kv_item_secure_set demo_hal 4 (\<lambda>_. None) (Some demo_key) (Some demo_val) 4 demo_world
     = Some (KV_ERR_ENCRYPT, w')"
proof -
  have "kv_lock demo_world = Some (0, demo_world\<lparr>w_lock := True\<rparr>)"
    using demo_lock by (simp add: kv_lock_def)
  moreover have "w_alloc demo_world i" for i
    using demo_facts(3) by (auto simp: kv_holds_def kv_inv_def heap_ok_def)
  ultimately show ?thesis
    using demo_facts(4)
    by (simp add: kv_item_secure_set_def set_params_bad_def kv_wait_gc_def kv_malloc_def demo_key_def)
qed

lemma demo1_triggered:
  "kv_holds (\<lambda>f. f) 4 (kv_trigger_gc demo_world1) [demo_key \<mapsto> demo_val]"
  "0 < w_gc_tasks (kv_trigger_gc demo_world1)"
proof -
  show h: "kv_holds (\<lambda>f. f) 4 (kv_trigger_gc demo_world1) [demo_key \<mapsto> demo_val]"
    using demo1_facts(2) trigger_inv by (fastforce simp: kv_holds_def)
  have "gc_trigger (w_mgr (kv_trigger_gc demo_world1))"
    by (simp add: kv_trigger_gc_def kv_start_task_def upd_mgr_def)
  with h show "0 < w_gc_tasks (kv_trigger_gc demo_world1)"
    by (auto simp: kv_holds_def kv_inv_def)
qed

section \<open>A flash in use\<close>

text \<open>The key was set twice: the first item is deleted, the second names its offset.\<close>

definition old_item :: aitem where
  "old_item = \<lparr>ai_state = KV_ITEM_STATE_DELETE, ai_key = demo_key, ai_val = str ''v0'', ai_org = 0\<rparr>"

definition new_item :: aitem where
  "new_item = \<lparr>ai_state = KV_ITEM_STATE_NORMAL, ai_key = demo_key, ai_val = demo_val, ai_org = 4\<rparr>"

definition used_blks :: "aitem list list" where
  "used_blks = [[old_item, new_item], [], [], []]"

definition used_img :: "byte list" where
  "used_img = [0x4B, 0x44, 0, 0] @ enc old_item @ enc new_item"

definition used_mem :: "nat \<Rightarrow> byte" where
  "used_mem a = (if a < 36 then used_img ! a
     else if a \<in> {4096, 8192, 12288} then 0x4B else if a \<in> {4097, 8193, 12289} then 0xEE else 0xFF)"

definition used_world :: nor_world where
  "used_world = blank_world\<lparr>w_flash := used_mem, w_mgr := \<lparr>inited = True, gc_trigger = False, gc_waiter = 0,
     clean_blk_nums = 3, write_pos = 36, block_infos = \<lparr>bi_space = 4060, bi_state = 0x44\<rparr> #
       replicate 3 \<lparr>bi_space = 4092, bi_state = 0xEE\<rparr>\<rparr>\<rparr>"

lemma used_items: "wf_item old_item" "wf_item new_item" "item_len old_item = 16" "item_len new_item = 16"
  "\<not> normal old_item" "normal new_item"
  by (simp_all add: wf_item_def normal_def old_item_def new_item_def item_len_def KV_ALIGN_def demo_key_def
      demo_val_def)

lemma used_img_len: "length used_img = 36" "length (enc old_item) = 16" "length (enc new_item) = 16"
  by (simp_all add: used_img_def length_enc used_items)

lemma used_ranges: "get_range used_mem 4 16 = enc old_item" "get_range used_mem 20 16 = enc new_item"
  by (rule get_range_eqI; simp add: used_img_len used_mem_def used_img_def nth_append)+

lemma used_inv: "kv_inv (\<lambda>f. f) 4 used_world used_blks"
proof -
  have "blk_rep used_mem 0 0x44 [old_item, new_item]"
    by (simp add: blk_rep_def blk_base_def used_items used_ranges) (simp add: used_mem_def used_img_def)
  moreover have "blk_rep used_mem b 0xEE []" if "b \<in> {1, 2, 3}" for b
    using that by (auto simp: blk_rep_def blk_base_def used_mem_def)
  ultimately have "blk_inv used_mem b (info (w_mgr used_world) b) (used_blks ! b)"
    if "b = 0 \<or> b = 1 \<or> b = 2 \<or> b = 3" for b
    using that by (elim disjE) (simp_all add: blk_inv_def used_world_def used_blks_def used_items numeral_3_eq_3)
  moreover have "b = 0 \<or> b = 1 \<or> b = 2 \<or> b = 3" if "b < 4" for b :: nat using that by linarith
  ultimately have "kv_rep 4 used_mem (w_mgr used_world) used_blks"
    by (simp add: kv_rep_def) (simp add: used_world_def used_blks_def clean_count_def numeral_3_eq_3)
  moreover have "wp_ok 4 (w_mgr used_world) used_blks"
    unfolding wp_ok_def by (intro exI [of _ 0])
      (simp add: used_world_def used_blks_def blk_base_def used_items)
  ultimately show ?thesis
    by (simp add: kv_inv_def heap_ok_def used_world_def blank_world_def)
qed

lemma used_facts: "unique_keys used_blks" "kv_lookup used_blks = [demo_key \<mapsto> demo_val]"
  "origins_ok used_mem 16384 used_blks"
proof -
  have k: "ai_key old_item = demo_key" "ai_key new_item = demo_key" "ai_val new_item = demo_val"
    "ai_org new_item = 4" by (simp_all add: old_item_def new_item_def)
  show "unique_keys used_blks" by (auto simp: unique_keys_def live_def used_blks_def used_items)
  show "kv_lookup used_blks = [demo_key \<mapsto> demo_val]"
    by (rule ext) (simp add: kv_lookup_def used_blks_def used_items k)
  have "used_mem 5 = 0" using enc_parts(4) [OF used_items(1), of used_mem 4] used_ranges(1) used_items(3)
    by (simp add: old_item_def)
  then have "origins_at used_mem 16384 (blk_base b + 4) (used_blks ! b)"
    if "b = 0 \<or> b = 1 \<or> b = 2 \<or> b = 3" for b
    using that by (elim disjE)
      (simp_all add: used_blks_def used_items blk_base_def origin_ok_def lookalike_def k numeral_3_eq_3)
  moreover have "b = 0 \<or> b = 1 \<or> b = 2 \<or> b = 3" if "b < 4" for b :: nat using that by linarith
  ultimately show "origins_ok used_mem 16384 used_blks"
    by (simp add: origins_ok_def used_blks_def)
qed
section \<open>Consequences for single calls\<close>

text \<open>When \<open>kv_item_store\<close> does not return.\<close>

lemma store_none:
  assumes "n \<le> 15" "write_pos (w_mgr w) div KV_BLOCK_SIZE < n"
  shows "kv_item_store hal n key val len origin_off w = None \<longleftrightarrow>
    fst (kv_malloc w) \<and> write_pos (w_mgr w) div KV_BLOCK_SIZE = 0 \<and> 2 < n
    \<and> (\<forall>b<n. bi_space (get_info w b) \<le> u16 (KV_ALIGN (KV_ITEM_HDR_SIZE + u8 (length key) + u16 len)))"
proof -
  let ?len = "u16 (KV_ALIGN (8 + u8 (length key) + u16 len))"
  obtain ok w1 where m: "kv_malloc w = (ok, w1)" by fastforce
  have mg: "w_mgr w1 = w_mgr w" using m by (auto simp: kv_malloc_def)
  have "kv_item_store hal n key val len origin_off w = None \<longleftrightarrow> ok \<and> kv_calc_position hal n ?len w1 = None"
    by (auto simp: kv_item_store_def m Let_def bind_eq_None_conv split: prod.splits if_splits)
  then show ?thesis
    using calc_position_none [OF assms(1), of w1 hal ?len] assms(2) m
    by (auto simp: mg get_info_def not_less)
qed

text \<open>With the mutex held nothing returns; a failed encryption leaves it held.\<close>

lemma held_get: "w_lock w \<Longrightarrow> 0 < bl \<Longrightarrow> kv_item_get hal n (Some k) (Some bl) w = None"
  by (simp add: kv_item_get_def kv_lock_def)

lemma held_delete: "w_lock w \<Longrightarrow> kv_item_delete hal n k w = None"
  by (simp add: kv_item_delete_def kv_lock_def)

lemma held_set: "w_lock w \<Longrightarrow> \<not> set_params_bad key val len \<Longrightarrow> kv_item_set hal n key val len w = None"
  by (simp add: kv_item_set_def kv_wait_gc_def run_gc_def kv_gc_task_def kv_lock_def upd_mgr_def)

lemma held_secure_set:
  "w_lock w \<Longrightarrow> \<not> set_params_bad key val len \<Longrightarrow> kv_item_secure_set hal n encrypt key val len w = None"
  by (simp add: kv_item_secure_set_def kv_wait_gc_def run_gc_def kv_gc_task_def kv_lock_def upd_mgr_def)

lemma secure_set_leak:
  assumes "encrypt (take (nat len) val) = None" "res \<noteq> KV_ERR_INVALID_PARAM"
    and "kv_item_secure_set hal n encrypt (Some key) (Some val) len w = Some (res, w')"
  shows "w_lock w' \<and> \<not> set_params_bad (Some key) (Some val) len"
  using assms
  by (auto simp: kv_item_secure_set_def bind_eq_Some_conv kv_lock_def kv_malloc_def Let_def
      split: if_splits)

end
