(* ===== verification/Und_Cap.thy ===== *)
theory Und_Cap
  imports Store
begin

text \<open>
  components/und: the captures of network failures and exceptions (und_manage.c),
  their state, the update of a counter, the task that writes changed captures to the
  key-value store and the start-up that reads them back. The store is a record of
  operations, provided by amp_kv.c.
\<close>

section \<open>Codes, captures and state\<close>

abbreviation (input) UND_SUCCESS :: int where "UND_SUCCESS \<equiv> 0"
abbreviation (input) UND_ERR :: int where "UND_ERR \<equiv> -1"
abbreviation (input) UND_MEM_ERR :: int where "UND_MEM_ERR \<equiv> -2"
abbreviation (input) UND_PARAM_ERR :: int where "UND_PARAM_ERR \<equiv> -3"

abbreviation (input) UND_ELEM_MAX_CNT_PER_TARGET :: int where "UND_ELEM_MAX_CNT_PER_TARGET \<equiv> 8"
abbreviation (input) UND_TARGETS :: nat where "UND_TARGETS \<equiv> 6"
abbreviation (input) UND_SAVE_SCHED_CYCLE_MS :: nat where "UND_SAVE_SCHED_CYCLE_MS \<equiv> 5000"
abbreviation (input) UND_REPORT_SCHED_CYCLE_MS :: nat where "UND_REPORT_SCHED_CYCLE_MS \<equiv> 5000"
abbreviation (input) UND_REPORT_WIRELESS_INFO_CYCLE_MS :: nat where
  "UND_REPORT_WIRELESS_INFO_CYCLE_MS \<equiv> 600000"
abbreviation (input) UND_REPORT_BUF_LEN_MAX :: nat where "UND_REPORT_BUF_LEN_MAX \<equiv> 1536"
abbreviation (input) UND_REPORT_TARGET_BUF_LEN :: nat where "UND_REPORT_TARGET_BUF_LEN \<equiv> 1344"
abbreviation (input) UND_TOPIC_BUF_LEN_MAX :: nat where "UND_TOPIC_BUF_LEN_MAX \<equiv> 192"

text \<open>\<open>UND_CAPTURE_IDX\<close> and \<open>UND_CAPTURE_GROUP\<close>.\<close>

definition capture_idx :: "int \<Rightarrow> int" where
  "capture_idx idx = idx div 16"

definition capture_group :: "nat \<Rightarrow> nat" where
  "capture_group i = i * 16"

datatype cap_state = UND_CAP_STATE_INIT | UND_CAP_STATE_UPDATE | UND_CAP_STATE_REPORT
  | UND_CAP_STATE_RESYNC

record cap_elem =
  ce_cnt :: nat
  ce_reason :: int

record cap_target =
  ct_size :: int
  ct_idx :: int
  ct_caps :: "cap_elem list"

text \<open>
  The contexts of all files of the component; a context is ready when its mutex was
  made. A timer is the period it is armed with. Allocations (of memory, mutexes and
  timers) succeed as \<open>uw_alloc\<close> says.
\<close>

record 's und_world =
  uw_store :: 's
  uw_alloc :: "nat \<Rightarrow> bool"
  uw_allocs :: nat
  und_ready :: bool
  cap_ready :: bool
  cap_targets :: "cap_target option list"
  cap_wb :: "bool list"
  cap_save :: bool
  cap_save_armed :: "nat option"
  sch_ready :: bool
  sch_armed :: "nat option"
  pkt_ready :: bool
  pkt_id :: int
  rep_ready :: bool
  rep_buf :: "byte list option"
  rep_update :: cap_state
  rep_fast :: bool
  und_sent :: "(byte list \<times> byte list) list"

record 's kv_ops =
  kvo_set :: "byte list \<Rightarrow> byte list \<Rightarrow> 's \<Rightarrow> (int \<times> 's) option"
  kvo_get :: "byte list \<Rightarrow> nat \<Rightarrow> 's \<Rightarrow> (byte list option \<times> 's) option"
  kvo_del :: "byte list \<Rightarrow> 's \<Rightarrow> (int \<times> 's) option"

definition und_alloc :: "'s und_world \<Rightarrow> bool \<times> 's und_world" where
  "und_alloc w = (uw_alloc w (uw_allocs w), w\<lparr>uw_allocs := Suc (uw_allocs w)\<rparr>)"

text \<open>\<open>UND_KV_KEY\<close>.\<close>

definition und_kv_key :: "nat \<Rightarrow> byte list" where
  "und_kv_key i = str ''und_key#'' @ dec_nat i"

section \<open>The stored form of a target\<close>

definition to_u :: "nat \<Rightarrow> int \<Rightarrow> nat" where
  "to_u n x = nat (x mod 2 ^ n)"

definition of_u :: "nat \<Rightarrow> nat \<Rightarrow> int" where
  "of_u n x = (if x < 2 ^ (n - 1) then int x else int x - 2 ^ n)"

definition enc_elem :: "cap_elem \<Rightarrow> byte list" where
  "enc_elem e = le32 (ce_cnt e) @ le32 (to_u 32 (ce_reason e))"

definition dec_elem :: "byte list \<Rightarrow> cap_elem" where
  "dec_elem bs = \<lparr>ce_cnt = un_le32 (take 4 bs), ce_reason = of_u 32 (un_le32 (drop 4 bs))\<rparr>"

definition enc_target :: "cap_target \<Rightarrow> byte list" where
  "enc_target t = le16 (to_u 16 (ct_size t)) @ le16 (to_u 16 (ct_idx t))
     @ concat (map enc_elem (ct_caps t))"

definition und_target_len :: nat where
  "und_target_len = 68"

text \<open>What the bytes of \<open>struct und_cap_manage_t\<close> mean.\<close>

definition dec_target :: "byte list \<Rightarrow> cap_target" where
  "dec_target bs =
     \<lparr>ct_size = of_u 16 (un_le16 (bs ! 0) (bs ! 1)), ct_idx = of_u 16 (un_le16 (bs ! 2) (bs ! 3)),
      ct_caps = map (\<lambda>j. dec_elem (window (4 + 8 * j) 8 bs)) [0..<8]\<rparr>"

definition new_target :: cap_target where
  "new_target = \<lparr>ct_size = UND_ELEM_MAX_CNT_PER_TARGET, ct_idx = 0,
     ct_caps = replicate 8 \<lparr>ce_cnt = 0, ce_reason = 0\<rparr>\<rparr>"

section \<open>Updating a capture\<close>

text \<open>The body of \<open>und_update_cap\<close> on an allocated target; None: no space.\<close>

definition bump :: "int \<Rightarrow> cap_target \<Rightarrow> cap_target option" where
  "bump reason t =
     (if ct_idx t \<ge> ct_size t then None
      else
        let k = nat (ct_idx t);
            i = (case find (\<lambda>i. ce_reason (ct_caps t ! i) = reason) [0..<k] of
                   Some i \<Rightarrow> i | None \<Rightarrow> k);
            e = ct_caps t ! i
        in if i < k then
             Some (t\<lparr>ct_caps := (ct_caps t)[i := e\<lparr>ce_cnt := u32 (ce_cnt e + 1)\<rparr>]\<rparr>)
           else
             Some (t\<lparr>ct_caps := (ct_caps t)[k := e\<lparr>ce_cnt := u32 (ce_cnt e + 1), ce_reason := reason\<rparr>],
                     ct_idx := ct_idx t + 1\<rparr>))"

definition und_update_cap :: "int \<Rightarrow> int \<Rightarrow> bool \<Rightarrow> 's und_world \<Rightarrow> int \<times> 's und_world" where
  "und_update_cap cap_idx reason_code wb w =
     (if cap_idx > int UND_TARGETS - 1 \<or> cap_idx < 0 then (UND_PARAM_ERR, w)
      else if \<not> cap_ready w then (UND_ERR, w)
      else
        let ci = nat cap_idx;
            (ok, w1) = (case cap_targets w ! ci of
                Some _ \<Rightarrow> (True, w)
              | None \<Rightarrow>
                  let (ok, w') = und_alloc w
                  in if ok then (True, w'\<lparr>cap_targets := (cap_targets w')[ci := Some new_target]\<rparr>)
                     else (False, w'))
        in if \<not> ok then (UND_MEM_ERR, w1)
           else (case bump reason_code (the (cap_targets w1 ! ci)) of
               None \<Rightarrow> (UND_ERR, w1)
             | Some t \<Rightarrow>
                 let w2 = w1\<lparr>cap_targets := (cap_targets w1)[ci := Some t]\<rparr>;
                     w3 = (if wb then w2\<lparr>cap_wb := (cap_wb w2)[ci := True]\<rparr> else w2);
                     w4 = (if cap_wb w3 ! ci
                           then w3\<lparr>cap_save_armed := Some UND_SAVE_SCHED_CYCLE_MS\<rparr> else w3)
                 in (UND_SUCCESS, w4)))"

section \<open>Writing back\<close>

fun save_targets ::
  "'s kv_ops \<Rightarrow> nat list \<Rightarrow> bool \<Rightarrow> 's und_world \<Rightarrow> (bool \<times> 's und_world) option" where
  "save_targets kv [] res_sched w = Some (res_sched, w)"
| "save_targets kv (i # is) res_sched w =
     (if \<not> cap_wb w ! i then save_targets kv is res_sched w
      else (case cap_targets w ! i of
          None \<Rightarrow> save_targets kv is True w
        | Some t \<Rightarrow>
            (case kvo_set kv (und_kv_key i) (enc_target t) (uw_store w) of
               None \<Rightarrow> None
             | Some (res, s) \<Rightarrow>
                 if res \<noteq> 0 then save_targets kv is True (w\<lparr>uw_store := s\<rparr>)
                 else save_targets kv is res_sched
                        (w\<lparr>uw_store := s, cap_wb := (cap_wb w)[i := False]\<rparr>))))"

definition und_cap_manage_save_task :: "'s kv_ops \<Rightarrow> 's und_world \<Rightarrow> 's und_world option" where
  "und_cap_manage_save_task kv w =
     (if \<not> cap_ready w then Some w
      else (case save_targets kv [0..<UND_TARGETS] False (w\<lparr>cap_save_armed := None\<rparr>) of
          None \<Rightarrow> None
        | Some (res_sched, w1) \<Rightarrow>
            Some (if res_sched then w1\<lparr>cap_save_armed := Some UND_SAVE_SCHED_CYCLE_MS\<rparr> else w1)))"

section \<open>Clearing\<close>

fun del_keys :: "'s kv_ops \<Rightarrow> nat list \<Rightarrow> 's \<Rightarrow> 's option" where
  "del_keys kv [] s = Some s"
| "del_keys kv (i # is) s =
     (case kvo_del kv (und_kv_key i) s of None \<Rightarrow> None | Some (r, s1) \<Rightarrow> del_keys kv is s1)"

definition und_cap_manage_clear_kv :: "'s kv_ops \<Rightarrow> 's und_world \<Rightarrow> (int \<times> 's und_world) option" where
  "und_cap_manage_clear_kv kv w =
     (if \<not> cap_ready w then Some (UND_ERR, w)
      else (case del_keys kv [0..<UND_TARGETS] (uw_store w) of
          None \<Rightarrow> None
        | Some s \<Rightarrow> Some (UND_SUCCESS, w\<lparr>uw_store := s, cap_targets := replicate UND_TARGETS None,
                       cap_wb := replicate UND_TARGETS False\<rparr>)))"

section \<open>Start and stop\<close>

text \<open>\<open>while (0 < target.caps[j].cnt --)\<close>.\<close>

fun restore_cnt :: "nat \<Rightarrow> int \<Rightarrow> nat \<Rightarrow> 's und_world \<Rightarrow> int \<times> 's und_world" where
  "restore_cnt i reason 0 w = (UND_SUCCESS, w)"
| "restore_cnt i reason (Suc c) w =
     (let (res, w1) = und_update_cap (int i) reason False w
      in if res \<noteq> UND_SUCCESS then (res, w1) else restore_cnt i reason c w1)"

fun restore_caps :: "nat \<Rightarrow> cap_elem list \<Rightarrow> 's und_world \<Rightarrow> int \<times> 's und_world" where
  "restore_caps i [] w = (UND_SUCCESS, w)"
| "restore_caps i (e # es) w =
     (let (res, w1) = restore_cnt i (ce_reason e) (ce_cnt e) w
      in if res \<noteq> UND_SUCCESS then (res, w1) else restore_caps i es w1)"

text \<open>A failed read leaves the zeroed target.\<close>

fun restore_targets ::
  "'s kv_ops \<Rightarrow> nat list \<Rightarrow> 's und_world \<Rightarrow> (int \<times> 's und_world) option" where
  "restore_targets kv [] w = Some (UND_SUCCESS, w)"
| "restore_targets kv (i # is) w =
     (case kvo_get kv (und_kv_key i) und_target_len (uw_store w) of
        None \<Rightarrow> None
      | Some (v, s) \<Rightarrow>
          let bs = overwrite 0 (case v of None \<Rightarrow> [] | Some x \<Rightarrow> x) (replicate und_target_len 0);
              target = dec_target bs;
              (res, w1) = restore_caps i (map (\<lambda>j. ct_caps target ! j) [0..<nat (ct_idx target)])
                            (w\<lparr>uw_store := s\<rparr>)
          in if res \<noteq> UND_SUCCESS then Some (res, w1) else restore_targets kv is w1)"

definition cap_ctx_zero :: "'s und_world \<Rightarrow> 's und_world" where
  "cap_ctx_zero w = w\<lparr>cap_ready := False, cap_targets := replicate UND_TARGETS None,
     cap_wb := replicate UND_TARGETS False, cap_save := False, cap_save_armed := None\<rparr>"

definition und_cap_manage_init :: "'s kv_ops \<Rightarrow> 's und_world \<Rightarrow> (int \<times> 's und_world) option" where
  "und_cap_manage_init kv w =
     (if cap_ready w then Some (UND_SUCCESS, w)
      else
        let (ok, w1) = und_alloc w
        in if \<not> ok then Some (UND_MEM_ERR, w1)
           else
             let w2 = w1\<lparr>cap_ready := True, cap_targets := replicate UND_TARGETS None\<rparr>;
                 (ok2, w3) = und_alloc w2
             in if \<not> ok2 then Some (UND_MEM_ERR, cap_ctx_zero w3)
                else (case restore_targets kv [0..<UND_TARGETS] (w3\<lparr>cap_save := True\<rparr>) of
                    None \<Rightarrow> None
                  | Some (res, w4) \<Rightarrow>
                      if res \<noteq> UND_SUCCESS then Some (res, cap_ctx_zero w4)
                      else Some (UND_SUCCESS, w4\<lparr>cap_wb := replicate UND_TARGETS False\<rparr>)))"

definition und_cap_manage_deinit :: "'s und_world \<Rightarrow> int \<times> 's und_world" where
  "und_cap_manage_deinit w =
     (if \<not> cap_ready w then (UND_ERR, w) else (UND_SUCCESS, cap_ctx_zero w))"

end
