(* ===== verification/Und_Report.thy ===== *)
theory Und_Report
  imports Und_Cap
begin

text \<open>
  components/und: packing of the captures (und_manage.c), packets and topics
  (und_packet.c), the MQTT adapter (und_adapter.c), the report timer (und_sched.c),
  the report state machine (und_report.c) and the interface (und.c). A result of
  None says that the call does not return normally: the store does not return or a
  NULL pointer is written through.
\<close>

section \<open>Environment\<close>

text \<open>
  What the platform and the MQTT client return, the device name, and the byte that
  happens to lie before the report buffer on the heap.
\<close>

record und_env =
  ue_connected :: int
  ue_subscribe :: int
  ue_publish :: int
  ue_device_name :: "byte list"
  ue_wireless :: "(int \<times> int \<times> int) option"
  ue_before :: byte

section \<open>Packing the captures\<close>

text \<open>\<open>und_package_wireless_info\<close>: the defaults stand when the platform has no data.\<close>

definition wireless_info :: "und_env \<Rightarrow> int \<times> int \<times> int" where
  "wireless_info env = (case ue_wireless env of None \<Rightarrow> (-1, 80, 0) | Some x \<Rightarrow> x)"

definition und_update_report_cycle :: "bool \<Rightarrow> 's und_world \<Rightarrow> int \<times> 's und_world" where
  "und_update_report_cycle fast w =
     (if \<not> rep_ready w then (UND_ERR, w) else (UND_SUCCESS, w\<lparr>rep_fast := fast\<rparr>))"

definition und_package_wireless_info ::
  "und_env \<Rightarrow> 's und_world \<Rightarrow> (int \<times> int \<times> int) \<times> 's und_world" where
  "und_package_wireless_info env w =
     (let (rssi, snr, per) = wireless_info env
      in ((rssi, snr, per), snd (und_update_report_cycle (per \<noteq> 0) w)))"

definition hex2 :: "nat \<Rightarrow> byte list" where
  "hex2 n = [hex_digit (n div 16), hex_digit (n mod 16)]"

definition capture_text :: "int \<times> int \<times> int \<Rightarrow> nat \<Rightarrow> cap_elem \<Rightarrow> byte list" where
  "capture_text info i e =
     (case info of (rssi, snr, per) \<Rightarrow>
        str ''{\"wifi\":{\"rssi\":'' @ dec_int rssi @ str '',\"snr\":'' @ dec_int snr
        @ str '',\"per\":'' @ dec_int per @ str '',\"err_stats\":\"0x'' @ hex2 (capture_group i)
        @ str '','' @ dec_int (ce_reason e) @ str '','' @ dec_nat (ce_cnt e)
        @ str ''\"},\"_time\":'' @ dec_nat 0 @ str ''}'')"

text \<open>
  An \<open>int\<close> that is passed as the \<open>size_t\<close> argument of \<open>snprintf\<close>: a negative
  one becomes a huge size (32 bit addresses).
\<close>

definition size_arg :: "int \<Rightarrow> nat" where
  "size_arg x = nat (x mod 2 ^ 32)"

text \<open>
  Writing \<open>piece\<close> at the offset \<open>len\<close>: the bytes that have been written from the start
  of the buffer on, up to the last one before the closing zero. Bytes that were left
  between are zero. Nothing keeps the list within the size of the buffer.
\<close>

definition write_at :: "byte list \<Rightarrow> nat \<Rightarrow> byte list \<Rightarrow> byte list" where
  "write_at out len piece = (if piece = [] then out else out @ replicate (len - length out) 0 @ piece)"

text \<open>
  The inner loop over the captures of target \<open>i\<close>: the bytes in the buffer, the count
  \<open>len\<close> (which may exceed them by the byte that \<open>snprintf\<close> cuts), \<open>not_first\<close>,
  and whether the loop was left before its end. The count and the size are \<open>int\<close>s in
  the source, so their difference may be negative.
\<close>

fun package_elems ::
  "und_env \<Rightarrow> nat \<Rightarrow> cap_elem list \<Rightarrow> nat \<Rightarrow> byte list \<times> nat \<times> bool \<Rightarrow> 's und_world
     \<Rightarrow> (byte list \<times> nat \<times> bool) \<times> bool \<times> 's und_world" where
  "package_elems env i [] buf_len st w = (st, False, w)"
| "package_elems env i (e # es) buf_len (out, len, not_first) w =
     (let (info, w1) = und_package_wireless_info env w;
          (cur_ex, temp_len) = snprintf 256 (capture_text info i e)
      in if len + temp_len + of_bool not_first > buf_len then ((out, len, not_first), True, w1)
         else
           let (piece, l) = snprintf (size_arg (int buf_len - int len)) ((if not_first then [44] else []) @ cur_ex)
           in package_elems env i es buf_len (write_at out len piece, len + l, True) w1)"

fun package_targets ::
  "und_env \<Rightarrow> nat list \<Rightarrow> nat \<Rightarrow> byte list \<times> nat \<times> bool \<Rightarrow> 's und_world
     \<Rightarrow> (byte list \<times> nat \<times> bool) \<times> 's und_world" where
  "package_targets env [] buf_len st w = (st, w)"
| "package_targets env (i # is) buf_len st w =
     (case cap_targets w ! i of
        None \<Rightarrow> package_targets env is buf_len st w
      | Some t \<Rightarrow>
          if ct_idx t \<le> 0 then package_targets env is buf_len st w
          else
            let (st1, brk, w1) = package_elems env i
                  (map (\<lambda>j. ct_caps t ! j) [0..<nat (ct_idx t)]) buf_len st w
            in if brk then (st1, w1) else package_targets env is buf_len st1 w1)"

definition has_capture :: "'s und_world \<Rightarrow> bool" where
  "has_capture w \<longleftrightarrow> (\<exists>i\<in>{1..<UND_TARGETS}. case cap_targets w ! i of None \<Rightarrow> False | Some t \<Rightarrow> 0 < ct_idx t)"

text \<open>
  The buffer \<open>cur_ex\<close> is allocated but the check after it looks at the mutex: without
  memory the first capture is written through NULL.
\<close>

definition und_package_capture ::
  "und_env \<Rightarrow> nat \<Rightarrow> 's und_world \<Rightarrow> (int \<times> byte list \<times> 's und_world) option" where
  "und_package_capture env buf_len w =
     (if buf_len > UND_REPORT_TARGET_BUF_LEN \<or> buf_len < 1 then Some (UND_PARAM_ERR, [], w)
      else
        let (ok, w1) = und_alloc w
        in if \<not> cap_ready w1 then Some (UND_MEM_ERR, [], w1)
           else if \<not> ok \<and> has_capture w1 then None
           else
             let ((out, len, _), w2) = package_targets env [1..<UND_TARGETS] buf_len ([], 0, False) w1
             in Some (int len, out, w2))"

text \<open>
  The text that is put at \<open>buf\<close> and the result. Without a split in front the removal of
  the trailing comma looks at the byte before the buffer.
\<close>

definition und_collect_package ::
  "und_env \<Rightarrow> nat \<Rightarrow> bool \<Rightarrow> bool \<Rightarrow> 's und_world \<Rightarrow> (int \<times> byte list \<times> 's und_world) option" where
  "und_collect_package env buf_len insert_split with_exception w =
     (if buf_len > UND_REPORT_TARGET_BUF_LEN \<or> buf_len < 1 then Some (UND_PARAM_ERR, [], w)
      else if \<not> cap_ready w then Some (UND_ERR, [], w)
      else if \<not> with_exception then Some (0, [], w)
      else
        let len = (if insert_split then 1 else 0 :: nat)
        in (case und_package_capture env (buf_len - len) w of
              None \<Rightarrow> None
            | Some (l, out, w1) \<Rightarrow>
                if l > 0 then Some (int len + l, (if insert_split then [44] else []) @ out, w1)
                else if insert_split then Some (0, [], w1)
                else if ue_before env = 44 then Some (-1, [], w1)
                else Some (0, [], w1)))"

section \<open>Packets and topics\<close>

definition und_packet_id :: "'s und_world \<Rightarrow> int \<times> 's und_world" where
  "und_packet_id w =
     (if \<not> pkt_ready w then (UND_ERR, w)
      else
        let id = pkt_id w;
            nxt = s32 (id + 1)
        in (id, w\<lparr>pkt_id := (if nxt = 0 then 1 else nxt)\<rparr>))"

definition und_packet_ctx_init :: "'s und_world \<Rightarrow> int \<times> 's und_world" where
  "und_packet_ctx_init w =
     (if pkt_ready w then (UND_SUCCESS, w)
      else
        let (ok, w1) = und_alloc w
        in if \<not> ok then (UND_MEM_ERR, w1)
           else (UND_SUCCESS, w1\<lparr>pkt_ready := True, pkt_id := 1\<rparr>))"

definition und_packet_ctx_deinit :: "'s und_world \<Rightarrow> int \<times> 's und_world" where
  "und_packet_ctx_deinit w =
     (if \<not> pkt_ready w then (UND_ERR, w) else (UND_SUCCESS, w\<lparr>pkt_ready := False, pkt_id := 0\<rparr>))"

definition product_key_name :: "byte list" where
  "product_key_name = str ''_amp_internal_productkey''"

text \<open>The topics \<open>UND_TOPIC_REPORT\<close> and \<open>UND_TOPIC_REPORT_REPLY\<close>.\<close>

definition und_build_topic ::
  "'s kv_ops \<Rightarrow> und_env \<Rightarrow> byte list \<Rightarrow> nat \<Rightarrow> 's und_world \<Rightarrow> (int \<times> byte list \<times> 's und_world) option"
  where
  "und_build_topic kv env suffix topic_buf_len w =
     (if topic_buf_len > UND_TOPIC_BUF_LEN_MAX \<or> topic_buf_len < 1 then Some (UND_PARAM_ERR, [], w)
      else (case kvo_get kv product_key_name 20 (uw_store w) of
          None \<Rightarrow> None
        | Some (v, s) \<Rightarrow>
            let pk = cstr (case v of None \<Rightarrow> [] | Some x \<Rightarrow> x);
                dn = take 32 (cstr (ue_device_name env));
                (text, len) = snprintf topic_buf_len
                  (str ''/sys/'' @ pk @ str ''/'' @ dn @ str ''/_thing/diag/'' @ suffix)
            in Some (int len, text, w\<lparr>uw_store := s\<rparr>)))"

definition und_build_packet :: "byte list \<Rightarrow> nat \<Rightarrow> 's und_world \<Rightarrow> int \<times> byte list \<times> 's und_world" where
  "und_build_packet param buf_len w =
     (if buf_len > UND_REPORT_BUF_LEN_MAX \<or> buf_len < 1 then (UND_PARAM_ERR, [], w)
      else
        let (id, w1) = und_packet_id w;
            (text, len) = snprintf buf_len
              (str ''{\"id\":\"'' @ dec_nat (to_u 32 id) @ str ''\",\"version\":\"1.0\",\"params\":''
               @ param @ str ''}'')
        in (int len, text, w1))"

definition und_build_packet_param :: "byte list \<Rightarrow> nat \<Rightarrow> int \<times> byte list" where
  "und_build_packet_param content param_len =
     (if param_len > UND_REPORT_BUF_LEN_MAX \<or> param_len < 1 then (UND_PARAM_ERR, [])
      else
        let (text, len) = snprintf param_len
              (str ''{\"p\":['' @ content
               @ str ''],\"model\":\"format=simple|quantity=batch|time=history\"}'')
        in (int len, text))"

section \<open>The adapter\<close>

definition und_conn_register_cb :: "und_env \<Rightarrow> int" where
  "und_conn_register_cb env = (if ue_subscribe env < 0 then UND_ERR else UND_SUCCESS)"

definition und_conn_send ::
  "und_env \<Rightarrow> byte list \<Rightarrow> byte list \<Rightarrow> int \<Rightarrow> 's und_world \<Rightarrow> int \<times> 's und_world" where
  "und_conn_send env topic data len w =
     (if len > int UND_REPORT_TARGET_BUF_LEN \<or> len < 1 then (UND_PARAM_ERR, w)
      else (ue_publish env, w\<lparr>und_sent := und_sent w @ [(topic, data)]\<rparr>))"

definition und_conn_is_connected :: "und_env \<Rightarrow> int" where
  "und_conn_is_connected env = ue_connected env"

section \<open>The report timer\<close>

definition und_sched_start :: "nat \<Rightarrow> 's und_world \<Rightarrow> int \<times> 's und_world" where
  "und_sched_start cycle_ms w =
     (if \<not> sch_ready w then (UND_ERR, w) else (UND_SUCCESS, w\<lparr>sch_armed := Some cycle_ms\<rparr>))"

definition und_sched_deinit :: "'s und_world \<Rightarrow> int \<times> 's und_world" where
  "und_sched_deinit w =
     (if \<not> sch_ready w then (UND_ERR, w) else (UND_SUCCESS, w\<lparr>sch_ready := False, sch_armed := None\<rparr>))"

definition und_sched_init :: "'s und_world \<Rightarrow> int \<times> 's und_world" where
  "und_sched_init w =
     (if sch_ready w then (UND_SUCCESS, w)
      else
        let (ok, w1) = und_alloc w
        in if \<not> ok then (UND_MEM_ERR, w1)
           else
             let (ok2, w2) = und_alloc w1
             in if \<not> ok2 then (UND_MEM_ERR, w2) else (UND_SUCCESS, w2\<lparr>sch_ready := True\<rparr>))"

section \<open>The report state machine\<close>

definition und_report_init :: "'s und_world \<Rightarrow> int \<times> 's und_world" where
  "und_report_init w =
     (if rep_ready w then (UND_SUCCESS, w)
      else
        let (ok, w1) = und_alloc w
        in if \<not> ok then (UND_MEM_ERR, w1)
           else (UND_SUCCESS, w1\<lparr>rep_ready := True, rep_update := UND_CAP_STATE_INIT\<rparr>))"

definition und_report_deinit :: "'s und_world \<Rightarrow> int \<times> 's und_world" where
  "und_report_deinit w =
     (if \<not> rep_ready w then (UND_ERR, w)
      else (UND_SUCCESS, w\<lparr>rep_ready := False, rep_buf := None, rep_update := UND_CAP_STATE_INIT,
              rep_fast := False\<rparr>))"

definition und_update_report :: "'s und_world \<Rightarrow> int \<times> 's und_world" where
  "und_update_report w =
     (if \<not> rep_ready w then (UND_ERR, w)
      else (UND_SUCCESS, w\<lparr>rep_update := (case rep_update w of
          UND_CAP_STATE_REPORT \<Rightarrow> UND_CAP_STATE_RESYNC
        | UND_CAP_STATE_INIT \<Rightarrow> UND_CAP_STATE_UPDATE
        | u \<Rightarrow> u)\<rparr>))"

text \<open>\<open>received\<close>: the event of the message is a received publish.\<close>

definition und_target_report_reply ::
  "'s kv_ops \<Rightarrow> bool \<Rightarrow> 's und_world \<Rightarrow> 's und_world option" where
  "und_target_report_reply kv received w =
     (if \<not> received \<or> \<not> rep_ready w then Some w
      else (case und_cap_manage_clear_kv kv w of
          None \<Rightarrow> None
        | Some (_, w1) \<Rightarrow>
            let w2 = w1\<lparr>rep_update := (case rep_update w1 of
                  UND_CAP_STATE_RESYNC \<Rightarrow> UND_CAP_STATE_UPDATE
                | UND_CAP_STATE_REPORT \<Rightarrow> UND_CAP_STATE_INIT
                | u \<Rightarrow> u)\<rparr>
            in Some (snd (if rep_fast w2 \<or> rep_update w2 \<noteq> UND_CAP_STATE_INIT
                          then und_sched_start UND_REPORT_SCHED_CYCLE_MS w2
                          else und_sched_start UND_REPORT_WIRELESS_INFO_CYCLE_MS w2))))"

definition und_build_package :: "und_env \<Rightarrow> 's und_world \<Rightarrow> (int \<times> 's und_world) option" where
  "und_build_package env w =
     (let w1 = (case rep_buf w of
            Some _ \<Rightarrow> w
          | None \<Rightarrow> let (ok, w') = und_alloc w in if ok then w'\<lparr>rep_buf := Some []\<rparr> else w')
      in (case rep_buf w1 of
            None \<Rightarrow> Some (UND_MEM_ERR, w1)
          | Some b \<Rightarrow>
              let w2 = (if length b + 128 > UND_REPORT_TARGET_BUF_LEN
                        then w1\<lparr>rep_buf := Some [], rep_update := UND_CAP_STATE_UPDATE\<rparr> else w1);
                  len = length (the (rep_buf w2))
              in (case und_collect_package env (UND_REPORT_TARGET_BUF_LEN - len) (len \<noteq> 0)
                         (rep_update w2 \<noteq> UND_CAP_STATE_INIT) w2 of
                    None \<Rightarrow> None
                  | Some (r, text, w3) \<Rightarrow>
                      Some (r, w3\<lparr>rep_buf := Some (the (rep_buf w2) @ text)\<rparr>))))"

text \<open>
  The body of the do-while of \<open>und_targets_report\<close> once the three buffers are there;
  every \<open>break\<close> returns the world.
\<close>

definition report_body :: "'s kv_ops \<Rightarrow> und_env \<Rightarrow> 's und_world \<Rightarrow> 's und_world option" where
  "report_body kv env w =
     (case und_build_package env w of
        None \<Rightarrow> None
      | Some (_, w1) \<Rightarrow>
          (case rep_buf w1 of
             None \<Rightarrow> Some w1
           | Some b \<Rightarrow>
               if b = [] then Some w1
               else
                 let (pkt, plen) = snprintf UND_REPORT_BUF_LEN_MAX b
                 in if plen \<le> 3 then Some w1
                    else
                      let (res, target) = und_build_packet_param pkt UND_REPORT_BUF_LEN_MAX
                      in if res < 0 then Some w1
                         else
                           let (plen2, pkt2, w2) = und_build_packet target UND_REPORT_BUF_LEN_MAX w1
                           in if plen2 < 0 then Some w2
                              else (case und_build_topic kv env (str ''post_reply'') UND_TOPIC_BUF_LEN_MAX w2 of
                                  None \<Rightarrow> None
                                | Some (r1, _, w3) \<Rightarrow>
                                    if r1 < 0 then Some w3
                                    else (case und_build_topic kv env (str ''post'') UND_TOPIC_BUF_LEN_MAX w3 of
                                        None \<Rightarrow> None
                                      | Some (r2, topic, w4) \<Rightarrow>
                                          if r2 < 0 then Some w4
                                          else
                                            let (r3, w5) = und_conn_send env topic pkt2 plen2 w4
                                            in if r3 = 0 then
                                                 Some (w5\<lparr>rep_update := UND_CAP_STATE_REPORT, rep_buf := None\<rparr>)
                                               else Some w5))))"

text \<open>
  Neither UND_CONFIG_USE_MQTT (defined in und_adapter.c only) nor
  UND_CONFIG_USE_UAGENT is defined in und_report.c: the timer is started again only
  in the state INIT.
\<close>

definition und_targets_report :: "'s kv_ops \<Rightarrow> und_env \<Rightarrow> 's und_world \<Rightarrow> 's und_world option" where
  "und_targets_report kv env w0 =
     (let w = w0\<lparr>sch_armed := None\<rparr>
      in if \<not> rep_ready w then Some w
         else if und_conn_is_connected env \<le> 0 then Some (snd (und_sched_start UND_REPORT_SCHED_CYCLE_MS w))
         else
           let (ok1, w1) = und_alloc w; (ok2, w2) = und_alloc w1; (ok3, w3) = und_alloc w2
           in (case (if ok1 \<and> ok2 \<and> ok3 then report_body kv env w3 else Some w3) of
                 None \<Rightarrow> None
               | Some w4 \<Rightarrow>
                   Some (if rep_update w4 = UND_CAP_STATE_INIT
                         then snd (und_sched_start UND_REPORT_WIRELESS_INFO_CYCLE_MS w4) else w4)))"

section \<open>Interface\<close>

definition und_init_fail :: "int \<Rightarrow> 's und_world \<Rightarrow> int \<times> 's und_world" where
  "und_init_fail res w =
     (let w1 = snd (und_sched_deinit w); w2 = snd (und_cap_manage_deinit w1);
          w3 = snd (und_packet_ctx_deinit w2); w4 = snd (und_report_deinit w3)
      in (res, w4\<lparr>und_ready := False\<rparr>))"

text \<open>\<open>und_init\<close> up to the first capture that it records itself.\<close>

definition und_init_ctx :: "'s kv_ops \<Rightarrow> 's und_world \<Rightarrow> (int \<times> 's und_world) option" where
  "und_init_ctx kv w =
     (let (ok, w1) = und_alloc w
      in if \<not> ok then Some (UND_MEM_ERR, w1)
         else
           let w2 = w1\<lparr>und_ready := True\<rparr>;
               (r1, w3) = und_packet_ctx_init w2
           in if r1 \<noteq> UND_SUCCESS then Some (und_init_fail r1 w3)
              else (case und_cap_manage_init kv w3 of
                  None \<Rightarrow> None
                | Some (r2, w4) \<Rightarrow>
                    if r2 \<noteq> UND_SUCCESS then Some (und_init_fail r2 w4)
                    else
                      let (r3, w5) = und_sched_init w4
                      in if r3 \<noteq> UND_SUCCESS then Some (und_init_fail r3 w5)
                         else
                           let (r4, w6) = und_report_init w5
                           in if r4 \<noteq> UND_SUCCESS then Some (und_init_fail r4 w6)
                              else Some (UND_SUCCESS, w6)))"

text \<open>\<open>und_update_statis\<close> once the component is initialised.\<close>

definition und_update_ready :: "int \<Rightarrow> int \<Rightarrow> 's und_world \<Rightarrow> int \<times> 's und_world" where
  "und_update_ready cap_idx reason_code w =
     (let (res, w1) = und_update_cap (capture_idx cap_idx) reason_code True w
      in if res = UND_SUCCESS
         then und_sched_start UND_REPORT_SCHED_CYCLE_MS (snd (und_update_report w1))
         else (res, w1))"

abbreviation (input) UND_STATIS_DEV_EXCEPTION_IDX :: int where "UND_STATIS_DEV_EXCEPTION_IDX \<equiv> 0x30"
abbreviation (input) UND_STATIS_DEV_REPOWER_REASON :: int where "UND_STATIS_DEV_REPOWER_REASON \<equiv> 3"

definition und_init :: "'s kv_ops \<Rightarrow> 's und_world \<Rightarrow> (int \<times> 's und_world) option" where
  "und_init kv w =
     (if und_ready w then Some (UND_SUCCESS, w)
      else (case und_init_ctx kv w of
          None \<Rightarrow> None
        | Some (res, w1) \<Rightarrow>
            if res \<noteq> UND_SUCCESS then Some (res, w1)
            else Some (UND_SUCCESS, snd (und_update_ready UND_STATIS_DEV_EXCEPTION_IDX
                         UND_STATIS_DEV_REPOWER_REASON w1))))"

definition und_deinit :: "'s und_world \<Rightarrow> int \<times> 's und_world" where
  "und_deinit w =
     (if \<not> und_ready w then (UND_ERR, w)
      else
        let w1 = snd (und_sched_deinit w); w2 = snd (und_cap_manage_deinit w1);
            (res, w3) = und_packet_ctx_deinit w2
        in (res, w3\<lparr>und_ready := False\<rparr>))"

definition und_update_statis ::
  "'s kv_ops \<Rightarrow> int \<Rightarrow> int \<Rightarrow> 's und_world \<Rightarrow> (int \<times> 's und_world) option" where
  "und_update_statis kv cap_idx reason_code w =
     (if und_ready w then Some (und_update_ready cap_idx reason_code w)
      else (case und_init kv w of
          None \<Rightarrow> None
        | Some (res, w1) \<Rightarrow>
            if res \<noteq> UND_SUCCESS then Some (res, w1)
            else Some (und_update_ready cap_idx reason_code w1)))"

end
