(* ===== verification/Linux_Kv.thy ===== *)
theory Linux_Kv
  imports Store
begin

text \<open>
  adapter/platform/linux/amp_kv.c: a key-value store in a file of 384 rows with two
  slots each, found by a hash of the key. Strings are lists of bytes without their
  terminator; the locks of the file are balanced in every function and not modelled.
\<close>

section \<open>Slots, file and environment\<close>

abbreviation (input) TABLE_COL_SIZE :: nat where "TABLE_COL_SIZE \<equiv> 384"
abbreviation (input) TABLE_ROW_SIZE :: nat where "TABLE_ROW_SIZE \<equiv> 2"
abbreviation (input) ITEM_MAX_KEY_LEN :: nat where "ITEM_MAX_KEY_LEN \<equiv> 128"
abbreviation (input) ITEM_MAX_VAL_LEN :: nat where "ITEM_MAX_VAL_LEN \<equiv> 512"

text \<open>\<open>kv_item_t\<close>: the key as a string, the value array and the value length.\<close>

record slot =
  sl_key :: "byte list"
  sl_val :: "byte list"
  sl_len :: nat

definition zero_slot :: slot where
  "zero_slot = \<lparr>sl_key = [], sl_val = replicate ITEM_MAX_VAL_LEN 0, sl_len = 0\<rparr>"

text \<open>
  The outcome of the system calls of one access: all succeed, one fails, or a write
  is cut short and leaves something else in the row.
\<close>

datatype io = Io_ok | Io_fail | Io_torn "slot list"

record lk_world =
  lk_rows :: "slot list list option"
  lk_handle :: bool
  lk_alloc :: "nat \<Rightarrow> bool"
  lk_allocs :: nat
  lk_io :: "nat \<Rightarrow> io"
  lk_ios :: nat

definition lk_malloc :: "lk_world \<Rightarrow> bool \<times> lk_world" where
  "lk_malloc w = (lk_alloc w (lk_allocs w), w\<lparr>lk_allocs := Suc (lk_allocs w)\<rparr>)"

definition lk_next :: "lk_world \<Rightarrow> io \<times> lk_world" where
  "lk_next w = (lk_io w (lk_ios w), w\<lparr>lk_ios := Suc (lk_ios w)\<rparr>)"

section \<open>The hash\<close>

text \<open>\<open>char\<close> is signed: a byte is sign-extended to the 32 bits of the hash.\<close>

definition hash_step :: "32 word \<Rightarrow> byte \<Rightarrow> 32 word" where
  "hash_step h c = push_bit 5 h + h + scast c"

definition hash_gen :: "byte list \<Rightarrow> nat" where
  "hash_gen key = unat (foldl hash_step 0 key) mod TABLE_COL_SIZE"

section \<open>File access\<close>

definition read_kv_item :: "nat \<Rightarrow> lk_world \<Rightarrow> int \<times> slot list \<times> lk_world" where
  "read_kv_item location w =
     (case lk_rows w of
        None \<Rightarrow> (-1, [], w)
      | Some rows \<Rightarrow>
          let (r, w1) = lk_next w
          in if r \<noteq> Io_ok then (-1, [], w1)
             else if length rows < location + 1 then (-1, [], w1)
             else (0, rows ! location, w1))"

definition write_kv_item :: "slot list \<Rightarrow> nat \<Rightarrow> lk_world \<Rightarrow> int \<times> lk_world" where
  "write_kv_item row location w =
     (case lk_rows w of
        None \<Rightarrow> (-1, w)
      | Some rows \<Rightarrow>
          let (r, w1) = lk_next w
          in if length rows < location + 1 then (-1, w1)
             else (case r of
                 Io_ok \<Rightarrow> (0, w1\<lparr>lk_rows := Some (rows[location := row])\<rparr>)
               | Io_fail \<Rightarrow> (-1, w1)
               | Io_torn row' \<Rightarrow> (-1, w1\<lparr>lk_rows := Some (rows[location := row'])\<rparr>)))"

text \<open>\<open>create_hash_file\<close>: the rows are appended one by one, then the file is synced.\<close>

fun create_rows :: "nat \<Rightarrow> lk_world \<Rightarrow> int \<times> lk_world" where
  "create_rows 0 w = (let (r, w1) = lk_next w in (if r = Io_ok then 0 else -1, w1))"
| "create_rows (Suc i) w =
     (let (r, w1) = lk_next w
      in if r = Io_ok then
           create_rows i (w1\<lparr>lk_rows := map_option (\<lambda>rs. rs @ [replicate TABLE_ROW_SIZE zero_slot])
             (lk_rows w1)\<rparr>)
         else (-1, w1))"

definition create_hash_file :: "lk_world \<Rightarrow> int \<times> lk_world" where
  "create_hash_file w =
     (let (r, w1) = lk_next w
      in if r \<noteq> Io_ok then (-1, w1)
         else create_rows TABLE_COL_SIZE
           (w1\<lparr>lk_rows := Some (case lk_rows w1 of None \<Rightarrow> [] | Some rs \<Rightarrow> rs)\<rparr>))"

definition kv_open :: "lk_world \<Rightarrow> bool \<times> lk_world" where
  "kv_open w =
     (let (ok, w1) = lk_malloc w
      in if \<not> ok then (False, w1)
         else if lk_rows w1 = None then
           (let (r, w2) = create_hash_file w1
            in if r < 0 then (False, w2) else (True, w2\<lparr>lk_handle := True\<rparr>))
         else (True, w1\<lparr>lk_handle := True\<rparr>))"

section \<open>Rows\<close>

text \<open>The loop of \<open>hash_table_put\<close> and the insertion after it; None: the row is full.\<close>

fun put_row :: "byte list \<Rightarrow> byte list \<Rightarrow> slot list \<Rightarrow> slot list option" where
  "put_row key value [] = None"
| "put_row key value (s # ss) =
     (if sl_len s = 0 then
        Some (s\<lparr>sl_key := take (ITEM_MAX_KEY_LEN - 1) key,
                sl_val := overwrite 0 value (sl_val s), sl_len := length value\<rparr> # ss)
      else if sl_key s = key then
        Some (s\<lparr>sl_val := overwrite 0 value (replicate ITEM_MAX_VAL_LEN 0),
                sl_len := length value\<rparr> # ss)
      else map_option (Cons s) (put_row key value ss))"

fun get_row :: "byte list \<Rightarrow> slot list \<Rightarrow> slot option" where
  "get_row key [] = None"
| "get_row key (s # ss) =
     (if sl_len s = 0 then None else if key = sl_key s then Some s else get_row key ss)"

fun rm_row :: "byte list \<Rightarrow> slot list \<Rightarrow> slot list" where
  "rm_row key [] = []"
| "rm_row key (s # ss) =
     (if sl_len s = 0 then s # ss
      else (if key = sl_key s then zero_slot else s) # rm_row key ss)"

section \<open>Table operations\<close>

text \<open>\<open>value\<close> is the buffer that the pointer addresses, at least \<open>value_len\<close> bytes.\<close>

definition hash_table_put ::
  "byte list option \<Rightarrow> byte list option \<Rightarrow> int \<Rightarrow> lk_world \<Rightarrow> int \<times> lk_world" where
  "hash_table_put key value value_len w =
     (if key = None \<or> value = None \<or> value_len \<le> 0 then (-1, w)
      else
        let vl = nat (if value_len > int ITEM_MAX_VAL_LEN then int ITEM_MAX_VAL_LEN else value_len);
            i = hash_gen (the key);
            (ok, w1) = lk_malloc w
        in if \<not> ok then (-1, w1)
           else
             let (r, row, w2) = read_kv_item i w1
             in if r \<noteq> 0 then (-1, w2)
                else (case put_row (the key) (take vl (the value)) row of
                    None \<Rightarrow> (-1, w2)
                  | Some row' \<Rightarrow>
                      let (r2, w3) = write_kv_item row' i w2
                      in if r2 < 0 then (-1, w3) else (0, w3)))"

text \<open>The result is the code, the bytes copied to the buffer and the new \<open>*len\<close>.\<close>

definition hash_table_get ::
  "byte list option \<Rightarrow> bool \<Rightarrow> int option \<Rightarrow> lk_world \<Rightarrow> int \<times> byte list option \<times> int option \<times> lk_world"
  where
  "hash_table_get key has_buf len w =
     (if key = None \<or> \<not> has_buf \<or> len = None \<or> the len \<le> 0 then (-1, None, len, w)
      else
        let i = hash_gen (the key);
            (ok, w1) = lk_malloc w
        in if \<not> ok then (-1, None, len, w1)
           else
             let (r, row, w2) = read_kv_item i w1
             in if r \<noteq> 0 then (-1, None, len, w2)
                else (case get_row (the key) row of
                    None \<Rightarrow> (-1, None, len, w2)
                  | Some p \<Rightarrow>
                      let n = (if int (sl_len p) < the len then int (sl_len p) else the len)
                      in (0, Some (take (nat n) (sl_val p)), Some n, w2)))"

definition hash_table_rm :: "byte list option \<Rightarrow> lk_world \<Rightarrow> int \<times> lk_world" where
  "hash_table_rm key w =
     (if key = None then (-1, w)
      else
        let i = hash_gen (the key) mod TABLE_COL_SIZE;
            (ok, w1) = lk_malloc w
        in if \<not> ok then (-1, w1)
           else
             let (r, row, w2) = read_kv_item i w1
             in if r \<noteq> 0 then (-1, w2)
                else
                  let (r2, w3) = write_kv_item (rm_row (the key) row) i w2
                  in if r2 < 0 then (-1, w3) else (0, w3))"

section \<open>Public interface\<close>

text \<open>\<open>kv_set\<close>, \<open>kv_get\<close> and \<open>kv_del\<close> open the file on first use.\<close>

definition with_handle :: "lk_world \<Rightarrow> bool \<times> lk_world" where
  "with_handle w = (if lk_handle w then (True, w) else kv_open w)"

definition amp_kv_set ::
  "byte list option \<Rightarrow> byte list option \<Rightarrow> int \<Rightarrow> lk_world \<Rightarrow> int \<times> lk_world" where
  "amp_kv_set key val len w =
     (let (ok, w1) = with_handle w
      in if \<not> ok then (-1, w1)
         else if key = None \<or> val = None \<or> len \<le> 0 then (-1, w1)
         else hash_table_put key val len w1)"

definition amp_kv_get ::
  "byte list option \<Rightarrow> bool \<Rightarrow> int option \<Rightarrow> lk_world \<Rightarrow> int \<times> byte list option \<times> int option \<times> lk_world"
  where
  "amp_kv_get key has_buf buffer_len w =
     (let (ok, w1) = with_handle w
      in if \<not> ok then (-1, None, buffer_len, w1)
         else if key = None \<or> \<not> has_buf \<or> buffer_len = None \<or> the buffer_len \<le> 0
              then (-1, None, buffer_len, w1)
         else hash_table_get key has_buf buffer_len w1)"

definition amp_kv_del :: "byte list option \<Rightarrow> lk_world \<Rightarrow> int \<times> lk_world" where
  "amp_kv_del key w =
     (let (ok, w1) = with_handle w
      in if \<not> ok then (-1, w1)
         else if key = None then (-1, w1) else hash_table_rm key w1)"

section \<open>Rows without holes\<close>

text \<open>No slot in use comes after an empty one; the loops rely on it.\<close>

fun compact :: "slot list \<Rightarrow> bool" where
  "compact [] \<longleftrightarrow> True"
| "compact (s # ss) \<longleftrightarrow> (if sl_len s = 0 then (\<forall>t\<in>set ss. sl_len t = 0) else compact ss)"

definition slot_ok :: "slot \<Rightarrow> bool" where
  "slot_ok s \<longleftrightarrow> length (sl_val s) = ITEM_MAX_VAL_LEN \<and> sl_len s \<le> ITEM_MAX_VAL_LEN"

definition slot_val :: "slot \<Rightarrow> byte list" where
  "slot_val s = take (sl_len s) (sl_val s)"

definition row_map :: "slot list \<Rightarrow> byte list \<Rightarrow> byte list option" where
  "row_map row k = map_option slot_val (get_row k row)"

lemma get_row_empty: "\<forall>t\<in>set ss. sl_len t = 0 \<Longrightarrow> get_row k ss = None"
  by (cases ss) auto

lemma take_overwrite: "length v \<le> length xs \<Longrightarrow> take (length v) (overwrite 0 v xs) = v"
  by (simp add: overwrite_def)

lemma put_row_spec:
  assumes "put_row k v row = Some row'" "compact row" "\<forall>s\<in>set row. slot_ok s"
    "length k \<le> 127" "0 < length v" "length v \<le> 512"
  shows "compact row' \<and> (\<forall>s\<in>set row'. slot_ok s) \<and> length row' = length row
     \<and> row_map row' = (row_map row)(k \<mapsto> v)"
  using assms
proof (induction row arbitrary: row')
  case Nil
  then show ?case by simp
next
  case (Cons s ss)
  have sok: "length (sl_val s) = 512" using Cons.prems(3) by (simp add: slot_ok_def)
  consider "sl_len s = 0" | "sl_len s \<noteq> 0" "sl_key s = k" | "sl_len s \<noteq> 0" "sl_key s \<noteq> k" by blast
  then show ?case
  proof cases
    case 1
    then have e: "\<forall>t\<in>set ss. sl_len t = 0" using Cons.prems(2) by simp
    then have "compact ss" by (cases ss) auto
    moreover have "row' = s\<lparr>sl_key := k, sl_val := overwrite 0 v (sl_val s), sl_len := length v\<rparr> # ss"
      using Cons.prems(1,4) 1 by simp
    ultimately show ?thesis
      using Cons.prems(3,5,6) 1 sok e
      by (auto simp: row_map_def fun_eq_iff slot_ok_def slot_val_def take_overwrite get_row_empty)
  next
    case 2
    then have "row' = s\<lparr>sl_val := overwrite 0 v (replicate 512 0), sl_len := length v\<rparr> # ss"
      using Cons.prems(1) by simp
    then show ?thesis
      using Cons.prems(2,3,5,6) 2
      by (auto simp: row_map_def fun_eq_iff slot_ok_def slot_val_def take_overwrite)
  next
    case 3
    then obtain ss' where ss': "put_row k v ss = Some ss'" "row' = s # ss'"
      using Cons.prems(1) by auto
    have pre: "compact ss" "\<forall>s\<in>set ss. slot_ok s" using Cons.prems(2,3) 3 by simp_all
    have ih: "compact ss'" "\<forall>s\<in>set ss'. slot_ok s" "length ss' = length ss"
      "row_map ss' = (row_map ss)(k \<mapsto> v)"
      using Cons.IH [OF ss'(1) pre Cons.prems(4-6)] by blast+
    have cons: "row_map (s # ts) a = (if a = sl_key s then Some (slot_val s) else row_map ts a)"
      for ts a using 3 by (simp add: row_map_def)
    have "row_map (s # ss') = (row_map (s # ss))(k \<mapsto> v)"
    proof
      fix a show "row_map (s # ss') a = ((row_map (s # ss))(k \<mapsto> v)) a"
        unfolding fun_upd_apply cons ih(4) using 3 by auto
    qed
    then show ?thesis using 3 ih(1-3) ss'(2) Cons.prems(3) by simp
  qed
qed

section \<open>The store\<close>

definition rows_map :: "slot list list \<Rightarrow> kv_map" where
  "rows_map rows k = row_map (rows ! hash_gen k) k"

definition lk_healthy :: "lk_world \<Rightarrow> bool" where
  "lk_healthy w \<longleftrightarrow> (\<forall>i. lk_alloc w i) \<and> (\<forall>i. lk_io w i = Io_ok)"

definition lk_holds :: "lk_world \<Rightarrow> kv_map \<Rightarrow> bool" where
  "lk_holds w m \<longleftrightarrow> lk_healthy w \<and> lk_handle w \<and> (\<exists>rows. lk_rows w = Some rows
     \<and> length rows = TABLE_COL_SIZE \<and> (\<forall>row\<in>set rows. compact row \<and> (\<forall>s\<in>set row. slot_ok s))
     \<and> m = rows_map rows)"

lemma hash_gen_less [simp]: "hash_gen k < 384"
  by (simp add: hash_gen_def)

lemma lk_healthy_simps [simp]:
  "lk_healthy (w\<lparr>lk_allocs := a\<rparr>) = lk_healthy w" "lk_healthy (w\<lparr>lk_ios := b\<rparr>) = lk_healthy w"
  "lk_healthy (w\<lparr>lk_rows := c\<rparr>) = lk_healthy w" "lk_healthy (w\<lparr>lk_handle := d\<rparr>) = lk_healthy w"
  by (simp_all add: lk_healthy_def)

text \<open>In a healthy environment an operation reads its row and may write it back.\<close>

lemma healthy_malloc: "lk_healthy w \<Longrightarrow> lk_malloc w = (True, w\<lparr>lk_allocs := Suc (lk_allocs w)\<rparr>)"
  by (simp add: lk_malloc_def lk_healthy_def)

lemma healthy_read: "lk_healthy w \<Longrightarrow> lk_rows w = Some rows \<Longrightarrow> i < length rows
  \<Longrightarrow> read_kv_item i w = (0, rows ! i, w\<lparr>lk_ios := Suc (lk_ios w)\<rparr>)"
  by (simp add: read_kv_item_def lk_next_def lk_healthy_def Let_def)

lemma healthy_write: "lk_healthy w \<Longrightarrow> lk_rows w = Some rows \<Longrightarrow> i < length rows
  \<Longrightarrow> write_kv_item row i w =
        (0, w\<lparr>lk_ios := Suc (lk_ios w), lk_rows := Some (rows[i := row])\<rparr>)"
  by (simp add: write_kv_item_def lk_next_def lk_healthy_def Let_def)

lemma set_healthy:
  assumes "lk_healthy w" "lk_handle w" "lk_rows w = Some rows" "length rows = 384"
    "0 < length v" "length v \<le> 512"
  shows "amp_kv_set (Some k) (Some v) (int (length v)) w =
    (case put_row k v (rows ! hash_gen k) of
       None \<Rightarrow> (-1, w\<lparr>lk_allocs := Suc (lk_allocs w), lk_ios := Suc (lk_ios w)\<rparr>)
     | Some row' \<Rightarrow> (0, w\<lparr>lk_allocs := Suc (lk_allocs w), lk_ios := Suc (Suc (lk_ios w)),
                          lk_rows := Some (rows[hash_gen k := row'])\<rparr>))"
  using assms
  by (auto simp: amp_kv_set_def with_handle_def hash_table_put_def healthy_malloc healthy_read
      healthy_write Let_def split: option.splits)

lemma get_healthy:
  assumes "lk_healthy w" "lk_handle w" "lk_rows w = Some rows" "length rows = 384" "0 < len"
  shows "amp_kv_get (Some k) True (Some len) w =
    (let w' = w\<lparr>lk_allocs := Suc (lk_allocs w), lk_ios := Suc (lk_ios w)\<rparr>
     in case get_row k (rows ! hash_gen k) of
       None \<Rightarrow> (-1, None, Some len, w')
     | Some p \<Rightarrow> let n = (if int (sl_len p) < len then int (sl_len p) else len)
                 in (0, Some (take (nat n) (sl_val p)), Some n, w'))"
  using assms
  by (auto simp: amp_kv_get_def with_handle_def hash_table_get_def healthy_malloc healthy_read
      Let_def split: option.splits)

lemma del_healthy:
  assumes "lk_healthy w" "lk_handle w" "lk_rows w = Some rows" "length rows = 384"
  shows "amp_kv_del (Some k) w =
    (0, w\<lparr>lk_allocs := Suc (lk_allocs w), lk_ios := Suc (Suc (lk_ios w)),
         lk_rows := Some (rows[hash_gen k := rm_row k (rows ! hash_gen k)])\<rparr>)"
  using assms
  by (simp add: amp_kv_del_def with_handle_def hash_table_rm_def healthy_malloc healthy_read
      healthy_write Let_def)

definition lk_set_op :: "byte list \<Rightarrow> byte list \<Rightarrow> lk_world \<Rightarrow> (int \<times> lk_world) option" where
  "lk_set_op k v w = Some (amp_kv_set (Some k) (Some v) (int (length v)) w)"

definition lk_get_op :: "byte list \<Rightarrow> nat \<Rightarrow> lk_world \<Rightarrow> (byte list option \<times> lk_world) option" where
  "lk_get_op k len w =
     (case amp_kv_get (Some k) True (Some (int len)) w of
        (r, v, _, w') \<Rightarrow> Some (if r = 0 then v else None, w'))"

definition lk_key_ok :: "byte list \<Rightarrow> bool" where
  "lk_key_ok k \<longleftrightarrow> length k < ITEM_MAX_KEY_LEN"

definition lk_val_ok :: "byte list \<Rightarrow> bool" where
  "lk_val_ok v \<longleftrightarrow> 0 < length v \<and> length v \<le> ITEM_MAX_VAL_LEN"

lemma lk_set_contract:
  assumes h: "lk_holds w m" and k: "lk_key_ok k" and v: "lk_val_ok v"
    and run: "amp_kv_set (Some k) (Some v) (int (length v)) w = (r, w')"
  shows "r = 0 \<and> lk_holds w' (m(k \<mapsto> v)) \<or> r = -1 \<and> lk_holds w' m"
proof -
  obtain rows where rows: "lk_healthy w" "lk_handle w" "lk_rows w = Some rows" "length rows = 384"
    "\<forall>row\<in>set rows. compact row \<and> (\<forall>s\<in>set row. slot_ok s)" "m = rows_map rows"
    using h by (auto simp: lk_holds_def)
  have vl: "0 < length v" "length v \<le> 512" using v by (simp_all add: lk_val_ok_def)
  let ?i = "hash_gen k"
  have "rows ! ?i \<in> set rows" using rows(4) by (simp add: nth_mem)
  then have ri: "compact (rows ! ?i)" "\<forall>s\<in>set (rows ! ?i). slot_ok s"
    using rows(5) by blast+
  note set = set_healthy [OF rows(1-4) vl, of k]
  show ?thesis
  proof (cases "put_row k v (rows ! ?i)")
    case None
    then show ?thesis using run set rows by (auto simp: lk_holds_def)
  next
    case (Some row')
    have kl: "length k \<le> 127" using k by (simp add: lk_key_ok_def)
    note sp = put_row_spec [OF Some ri kl vl]
    have "rows_map (rows[?i := row']) = m(k \<mapsto> v)"
    proof
      fix k' show "rows_map (rows[?i := row']) k' = (m(k \<mapsto> v)) k'"
        using sp rows(4,6) by (cases "hash_gen k' = ?i") (auto simp: rows_map_def)
    qed
    moreover have "\<forall>row\<in>set (rows[?i := row']). compact row \<and> (\<forall>s\<in>set row. slot_ok s)"
      using rows(5) sp by (auto dest!: set_update_subset_insert [THEN subsetD])
    ultimately show ?thesis using run set Some rows by (auto simp: lk_holds_def)
  qed
qed

text \<open>Every slot of the row of a key is taken by another key: no room for it.\<close>

definition row_full :: "lk_world \<Rightarrow> byte list \<Rightarrow> bool" where
  "row_full w k \<longleftrightarrow> (\<exists>rows. lk_rows w = Some rows
     \<and> (\<forall>s\<in>set (rows ! hash_gen k). sl_len s \<noteq> 0 \<and> sl_key s \<noteq> k))"

lemma put_row_None: "put_row k v row = None \<longleftrightarrow> (\<forall>s\<in>set row. sl_len s \<noteq> 0 \<and> sl_key s \<noteq> k)"
  by (induction row) auto

lemma lk_set_code:
  assumes h: "lk_holds w m" and v: "lk_val_ok v"
    and run: "amp_kv_set (Some k) (Some v) (int (length v)) w = (r, w')"
  shows "r = (if row_full w k then -1 else 0)"
proof -
  obtain rows where rows: "lk_healthy w" "lk_handle w" "lk_rows w = Some rows" "length rows = 384"
    using h by (auto simp: lk_holds_def)
  have vl: "0 < length v" "length v \<le> 512" using v by (simp_all add: lk_val_ok_def)
  show ?thesis
    using run set_healthy [OF rows vl, of k] rows(3) put_row_None [of k v "rows ! hash_gen k"]
    by (auto simp: row_full_def split: option.splits)
qed

lemma get_row_in: "get_row k row = Some p \<Longrightarrow> p \<in> set row"
  by (induction row) (auto split: if_splits)

lemma present_not_full:
  assumes "lk_holds w m" and "m k \<noteq> None"
  shows "\<not> row_full w k"
proof -
  obtain rows p where r: "lk_rows w = Some rows" "get_row k (rows ! hash_gen k) = Some p"
    using assms by (auto simp: lk_holds_def rows_map_def row_map_def)
  have "get_row k row = Some p \<Longrightarrow> sl_key p = k \<and> p \<in> set row" for row
    by (induction row) (auto split: if_splits)
  then show ?thesis using r by (auto simp: row_full_def)
qed

lemma lk_get_contract:
  assumes h: "lk_holds w m" and len: "0 < len"
  shows "\<exists>w'. lk_holds w' m \<and> amp_kv_get (Some k) True (Some len) w =
    (case m k of None \<Rightarrow> (-1, None, Some len, w')
     | Some v \<Rightarrow> (0, Some (take (nat len) v), Some (min len (int (length v))), w'))"
proof -
  obtain rows where rows: "lk_healthy w" "lk_handle w" "lk_rows w = Some rows" "length rows = 384"
    "\<forall>row\<in>set rows. compact row \<and> (\<forall>s\<in>set row. slot_ok s)" "m = rows_map rows"
    using h by (auto simp: lk_holds_def)
  let ?row = "rows ! hash_gen k"
  have "?row \<in> set rows" using rows(4) by (simp add: nth_mem)
  then have ok: "slot_ok p" if "get_row k ?row = Some p" for p
    using get_row_in [OF that] rows(5) by blast
  let ?w' = "w\<lparr>lk_allocs := Suc (lk_allocs w), lk_ios := Suc (lk_ios w)\<rparr>"
  have "lk_holds ?w' m" using rows by (auto simp: lk_holds_def)
  moreover have "take (nat (int (sl_len p))) (sl_val p) = take (nat len) (slot_val p)"
    if "slot_ok p" "int (sl_len p) < len" for p
    using that by (simp add: slot_val_def slot_ok_def)
  moreover have "take (nat len) (sl_val p) = take (nat len) (slot_val p)" if "\<not> int (sl_len p) < len" for p
  proof -
    have "nat len \<le> sl_len p" using that by linarith
    then show ?thesis by (simp add: slot_val_def min_def)
  qed
  moreover have "int (length (slot_val p)) = int (sl_len p)" if "slot_ok p" for p
    using that by (simp add: slot_val_def slot_ok_def)
  ultimately show ?thesis
    unfolding get_healthy [OF rows(1-4) len]
    by (intro exI [of _ ?w'])
      (auto simp: rows(6) rows_map_def row_map_def Let_def min_def ok split: option.splits)
qed

interpretation lkv: kv_store lk_holds lk_set_op lk_get_op lk_key_ok lk_val_ok
proof
  fix s :: lk_world and m k v r s'
  assume "lk_holds s m" "lk_key_ok k" "lk_val_ok v" "lk_set_op k v s = Some (r, s')"
  then show "r = 0 \<and> lk_holds s' (m(k \<mapsto> v)) \<or> r \<noteq> 0 \<and> lk_holds s' m"
    using lk_set_contract [of s m k v r s'] by (auto simp: lk_set_op_def)
next
  fix s :: lk_world and m k and len :: nat
  assume a: "lk_holds s m" "lk_key_ok k" "0 < len" "\<And>v. m k = Some v \<Longrightarrow> length v \<le> len"
  have "0 < int len" using a(3) by simp
  from lk_get_contract [OF a(1) this, of k] a(4)
  show "\<exists>s'. lk_get_op k len s = Some (m k, s') \<and> lk_holds s' m"
    by (auto simp: lk_get_op_def split: option.splits)
qed

section \<open>A new file\<close>

definition empty_row :: "slot list" where
  "empty_row = replicate TABLE_ROW_SIZE zero_slot"

lemma create_rows_healthy:
  "lk_healthy w \<Longrightarrow> lk_rows w = Some rows \<Longrightarrow> \<exists>w'. create_rows k w = (0, w')
     \<and> lk_healthy w' \<and> lk_rows w' = Some (rows @ replicate k empty_row)"
proof (induction k arbitrary: w rows)
  case 0
  then show ?case by (auto simp: lk_next_def lk_healthy_def)
next
  case (Suc k)
  let ?w1 = "w\<lparr>lk_ios := Suc (lk_ios w), lk_rows := Some (rows @ [empty_row])\<rparr>"
  have "create_rows (Suc k) w = create_rows k ?w1"
    using Suc.prems by (simp add: lk_next_def lk_healthy_def Let_def empty_row_def)
  with Suc.IH [of ?w1 "rows @ [empty_row]"] Suc.prems show ?case by simp
qed

lemma rows_map_fresh: "rows_map (replicate 384 empty_row) = Map.empty"
  by (simp add: fun_eq_iff rows_map_def row_map_def empty_row_def numeral_2_eq_2 zero_slot_def)

lemma kv_open_fresh:
  assumes "lk_healthy w" "lk_rows w = None"
  shows "\<exists>w'. kv_open w = (True, w') \<and> lk_holds w' Map.empty
     \<and> lk_rows w' = Some (replicate TABLE_COL_SIZE empty_row)"
proof -
  let ?w1 = "w\<lparr>lk_allocs := Suc (lk_allocs w), lk_ios := Suc (lk_ios w), lk_rows := Some []\<rparr>"
  from create_rows_healthy [of ?w1 "[]" 384] assms obtain w' where
    w': "create_rows 384 ?w1 = (0, w')" "lk_healthy w'" "lk_rows w' = Some (replicate 384 empty_row)"
    by auto
  have "kv_open w = (True, w'\<lparr>lk_handle := True\<rparr>)"
    using assms w'(1) by (simp add: kv_open_def healthy_malloc Let_def create_hash_file_def
        lk_next_def lk_healthy_def)
  moreover have "\<forall>row\<in>set (replicate 384 empty_row). compact row \<and> (\<forall>s\<in>set row. slot_ok s)"
    by (simp add: empty_row_def numeral_2_eq_2 zero_slot_def slot_ok_def)
  ultimately show ?thesis
    using w' rows_map_fresh by (auto simp: lk_holds_def)
qed

section \<open>Removal\<close>

text \<open>Two keys of one row: removing the first leaves a hole that hides the second.\<close>

lemma rm_hides:
  assumes "lk_healthy w" "lk_handle w" "lk_rows w = Some (replicate TABLE_COL_SIZE empty_row)"
    and h: "hash_gen a = hash_gen b" and ne: "a \<noteq> b"
    and k: "lk_key_ok a" "lk_key_ok b" and v: "lk_val_ok va" "lk_val_ok vb"
  shows "\<exists>w1 w2 w3 w4 w5. amp_kv_set (Some a) (Some va) (int (length va)) w = (0, w1)
     \<and> amp_kv_set (Some b) (Some vb) (int (length vb)) w1 = (0, w2)
     \<and> amp_kv_get (Some b) True (Some 512) w2 = (0, Some vb, Some (int (length vb)), w3)
     \<and> amp_kv_del (Some a) w2 = (0, w4)
     \<and> amp_kv_get (Some b) True (Some 512) w4 = (-1, None, Some 512, w5)"
proof -
  let ?i = "hash_gen b"
  let ?sa = "zero_slot\<lparr>sl_key := a, sl_val := overwrite 0 va (sl_val zero_slot), sl_len := length va\<rparr>"
  let ?sb = "zero_slot\<lparr>sl_key := b, sl_val := overwrite 0 vb (sl_val zero_slot), sl_len := length vb\<rparr>"
  let ?E = "replicate 384 empty_row"
  have vl: "0 < length va" "length va \<le> 512" "0 < length vb" "length vb \<le> 512"
    using v by (simp_all add: lk_val_ok_def)
  have er: "empty_row = [zero_slot, zero_slot]" by (simp add: empty_row_def numeral_2_eq_2)
  have z: "sl_len zero_slot = 0" by (simp add: zero_slot_def)
  have p1: "put_row a va (?E ! ?i) = Some [?sa, zero_slot]"
    using k by (simp add: er z lk_key_ok_def)
  let ?w1 = "w\<lparr>lk_allocs := Suc (lk_allocs w), lk_ios := Suc (Suc (lk_ios w)),
      lk_rows := Some (?E[?i := [?sa, zero_slot]])\<rparr>"
  have s1: "amp_kv_set (Some a) (Some va) (int (length va)) w = (0, ?w1)"
    using set_healthy [OF assms(1-3) _ vl(1,2), of a] h p1 by simp
  have p2: "put_row b vb (?E[?i := [?sa, zero_slot]] ! ?i) = Some [?sa, ?sb]"
    using k vl ne by (simp add: z lk_key_ok_def)
  let ?R = "?E[?i := [?sa, ?sb]]"
  let ?w2 = "?w1\<lparr>lk_allocs := Suc (lk_allocs ?w1), lk_ios := Suc (Suc (lk_ios ?w1)), lk_rows := Some ?R\<rparr>"
  have s2: "amp_kv_set (Some b) (Some vb) (int (length vb)) ?w1 = (0, ?w2)"
    using set_healthy [of ?w1 "?E[?i := [?sa, zero_slot]]" vb b] assms(1,2) vl p2 by simp
  have g2: "\<exists>w3. amp_kv_get (Some b) True (Some 512) ?w2 = (0, Some vb, Some (int (length vb)), w3)"
    using get_healthy [of ?w2 ?R 512 b] assms(1,2) vl ne
    by (auto simp: Let_def take_overwrite overwrite_all zero_slot_def)
  have r: "rm_row a (?R ! ?i) = [zero_slot, ?sb]" using vl ne by simp
  let ?w4 = "?w2\<lparr>lk_allocs := Suc (lk_allocs ?w2), lk_ios := Suc (Suc (lk_ios ?w2)),
      lk_rows := Some (?R[?i := [zero_slot, ?sb]])\<rparr>"
  have d: "amp_kv_del (Some a) ?w2 = (0, ?w4)"
    using del_healthy [of ?w2 ?R a] assms(1,2) h r by simp
  have g4: "\<exists>w5. amp_kv_get (Some b) True (Some 512) ?w4 = (-1, None, Some 512, w5)"
    using get_healthy [of ?w4 "?R[?i := [zero_slot, ?sb]]" 512 b] assms(1,2)
    by (auto simp: Let_def z)
  show ?thesis using s1 s2 g2 d g4 by blast
qed

text \<open>A key of 128 bytes or more is cut when it is stored, so it is never found again.\<close>

lemma long_key_lost:
  assumes "lk_healthy w" "lk_handle w" "lk_rows w = Some (replicate TABLE_COL_SIZE empty_row)"
    and k: "ITEM_MAX_KEY_LEN \<le> length key" and v: "lk_val_ok val"
  shows "\<exists>w1 w2. amp_kv_set (Some key) (Some val) (int (length val)) w = (0, w1)
     \<and> amp_kv_get (Some key) True (Some 512) w1 = (-1, None, Some 512, w2)"
proof -
  let ?i = "hash_gen key" and ?E = "replicate 384 empty_row"
  have vl: "0 < length val" "length val \<le> 512" using v by (simp_all add: lk_val_ok_def)
  have er: "empty_row = [zero_slot, zero_slot]" by (simp add: empty_row_def numeral_2_eq_2)
  have z: "sl_len zero_slot = 0" by (simp add: zero_slot_def)
  let ?s = "zero_slot\<lparr>sl_key := take 127 key, sl_val := overwrite 0 val (sl_val zero_slot),
      sl_len := length val\<rparr>"
  have p: "put_row key val (?E ! ?i) = Some [?s, zero_slot]" by (simp add: er z)
  let ?w1 = "w\<lparr>lk_allocs := Suc (lk_allocs w), lk_ios := Suc (Suc (lk_ios w)),
      lk_rows := Some (?E[?i := [?s, zero_slot]])\<rparr>"
  have s: "amp_kv_set (Some key) (Some val) (int (length val)) w = (0, ?w1)"
    using set_healthy [OF assms(1-3) _ vl, of key] p by simp
  have "length (take 127 key) \<noteq> length key" using k by simp
  then have "key \<noteq> take 127 key" by metis
  then have "\<exists>w2. amp_kv_get (Some key) True (Some 512) ?w1 = (-1, None, Some 512, w2)"
    using get_healthy [of ?w1 "?E[?i := [?s, zero_slot]]" 512 key] assms(1,2) vl
    by (auto simp: Let_def z)
  then show ?thesis using s by blast
qed

end
