(* ===== verification/Und_Save.thy ===== *)
theory Und_Save
  imports Und_Cap Linux_Kv
begin

text \<open>
  Persistence of the captures: the bytes of a target decode to the target, and the
  start-up replays the stored counters into the same targets. The proofs are carried
  out against the store interface and instantiated with the file store.
\<close>

section \<open>Well-formed targets\<close>

abbreviation zero_elem :: cap_elem where
  "zero_elem \<equiv> \<lparr>ce_cnt = 0, ce_reason = 0\<rparr>"

text \<open>
  The captures in use have pairwise different reasons and were counted at least once;
  the last capture of a full target was counted exactly once, as a full target accepts
  no update.
\<close>

definition cap_ok :: "cap_target \<Rightarrow> bool" where
  "cap_ok t \<longleftrightarrow> ct_size t = 8 \<and> 0 \<le> ct_idx t \<and> ct_idx t \<le> 8 \<and> length (ct_caps t) = 8
     \<and> distinct (map ce_reason (take (nat (ct_idx t)) (ct_caps t)))
     \<and> (\<forall>j<nat (ct_idx t). 0 < ce_cnt (ct_caps t ! j) \<and> ce_cnt (ct_caps t ! j) < 2 ^ 32
          \<and> - (2 ^ 31) \<le> ce_reason (ct_caps t ! j) \<and> ce_reason (ct_caps t ! j) < 2 ^ 31)
     \<and> (\<forall>j<8. nat (ct_idx t) \<le> j \<longrightarrow> ct_caps t ! j = zero_elem)
     \<and> (ct_idx t = 8 \<longrightarrow> ce_cnt (ct_caps t ! 7) = 1)"

lemma cap_ok_len:
  assumes "cap_ok t"
  shows "length (ct_caps t) = 8" "nat (ct_idx t) \<le> 8"
    "distinct (map ce_reason (take (nat (ct_idx t)) (ct_caps t)))"
  using assms unfolding cap_ok_def by (blast | linarith)+

lemma find_reason:
  assumes "distinct (map ce_reason (take k caps))" "k \<le> length caps" "j < k"
  shows "find (\<lambda>i. ce_reason (caps ! i) = ce_reason (caps ! j)) [0..<k] = Some j"
proof -
  have inj: "ce_reason (caps ! a) = ce_reason (caps ! b) \<Longrightarrow> a = b" if "a < k" "b < k" for a b
    using assms(1,2) that nth_eq_iff_index_eq [OF assms(1), of a b] by simp
  show ?thesis
    unfolding find_Some_iff
  proof (intro exI [of _ j] conjI allI impI)
    fix i assume "i < j"
    then show "ce_reason (caps ! ([0..<k] ! i)) \<noteq> ce_reason (caps ! j)"
      using inj [of i j] assms(3) by auto
  qed (use assms(3) in auto)
qed

lemma find_reason_None:
  "\<forall>i<k. ce_reason (caps ! i) \<noteq> r \<Longrightarrow> find (\<lambda>i. ce_reason (caps ! i) = r) [0..<k] = None"
  by (auto simp: find_None_iff)

text \<open>An update keeps a target well formed as long as the counter does not wrap.\<close>

lemma bump_ok:
  assumes ok: "cap_ok t" and r: "- (2 ^ 31) \<le> r" "r < 2 ^ 31" and b: "bump r t = Some t'"
    and cnt: "\<And>j. j < nat (ct_idx t) \<Longrightarrow> ce_reason (ct_caps t ! j) = r \<Longrightarrow> ce_cnt (ct_caps t ! j) < 2 ^ 32 - 1"
  shows "cap_ok t'"
proof -
  let ?k = "nat (ct_idx t)"
  have lt: "ct_idx t < 8" using b ok by (auto simp: bump_def cap_ok_def split: if_splits)
  have k: "0 \<le> ct_idx t" "length (ct_caps t) = 8" "?k < 8" using ok lt by (auto simp: cap_ok_def)
  have d: "distinct (map ce_reason (take ?k (ct_caps t)))" using ok by (simp add: cap_ok_def)
  show ?thesis
  proof (cases "\<exists>j<?k. ce_reason (ct_caps t ! j) = r")
    case True
    then obtain j where j: "j < ?k" "ce_reason (ct_caps t ! j) = r" by blast
    have f: "find (\<lambda>i. ce_reason (ct_caps t ! i) = r) [0..<?k] = Some j"
      using find_reason [OF d _ j(1)] k j(2) by simp
    have t': "t' = t\<lparr>ct_caps := (ct_caps t)[j := (ct_caps t ! j)\<lparr>ce_cnt := ce_cnt (ct_caps t ! j) + 1\<rparr>]\<rparr>"
      using b lt ok j(1) cnt [OF j] by (simp add: bump_def f cap_ok_def Let_def)
    have e: "(map ce_reason (ct_caps t))[j := r] = map ce_reason (ct_caps t)"
      using j k by (metis length_map list_update_id nth_map less_trans)
    have "map ce_reason (take ?k (ct_caps t')) = map ce_reason (take ?k (ct_caps t))"
      unfolding t' using j e by (simp add: map_update flip: take_map)
    moreover have "ct_idx t' = ct_idx t" "ct_size t' = ct_size t" "length (ct_caps t') = 8"
      using k by (simp_all add: t')
    ultimately show ?thesis
      using ok cnt [OF j] j k lt r unfolding cap_ok_def
      by (auto simp: t' nth_list_update)
  next
    case False
    then have f: "find (\<lambda>i. ce_reason (ct_caps t ! i) = r) [0..<?k] = None"
      by (intro find_reason_None) auto
    have z: "ct_caps t ! ?k = zero_elem" using ok k by (simp add: cap_ok_def)
    have t': "t' = t\<lparr>ct_caps := (ct_caps t)[?k := \<lparr>ce_cnt = 1, ce_reason = r\<rparr>], ct_idx := ct_idx t + 1\<rparr>"
      using b lt ok f z by (simp add: bump_def cap_ok_def Let_def)
    have k1: "nat (ct_idx t + 1) = Suc ?k" using k by simp
    have "take (Suc ?k) ((ct_caps t)[?k := \<lparr>ce_cnt = 1, ce_reason = r\<rparr>])
        = take ?k (ct_caps t) @ [\<lparr>ce_cnt = 1, ce_reason = r\<rparr>]"
      using k by (simp add: take_Suc_conv_app_nth)
    moreover have "r \<notin> ce_reason ` set (take ?k (ct_caps t))"
      using False k by (fastforce simp: in_set_conv_nth)
    ultimately have "distinct (map ce_reason (take (nat (ct_idx t')) (ct_caps t')))"
      using d by (simp add: t' k1)
    moreover have "ct_idx t' = 8 \<longrightarrow> ce_cnt (ct_caps t' ! 7) = 1"
    proof
      assume "ct_idx t' = 8"
      then have "?k = 7" by (simp add: t')
      then show "ce_cnt (ct_caps t' ! 7) = 1" using k by (simp add: t')
    qed
    ultimately show ?thesis
      using ok k lt r unfolding cap_ok_def
      by (auto simp: t' k1 nth_list_update less_Suc_eq)
  qed
qed

section \<open>The stored form\<close>

lemma of_u_to_u: "0 < n \<Longrightarrow> - (2 ^ (n - 1)) \<le> x \<Longrightarrow> x < 2 ^ (n - 1) \<Longrightarrow> of_u n (to_u n x) = x"
proof -
  assume a: "0 < n" "- (2 ^ (n - 1)) \<le> x" "x < (2 :: int) ^ (n - 1)"
  have p: "(2 :: int) ^ n = 2 * 2 ^ (n - 1)" using a(1) by (metis power_minus_mult mult.commute)
  show ?thesis
  proof (cases "0 \<le> x")
    case True
    then have "x mod 2 ^ n = x" using a p by simp
    moreover have "nat x < 2 ^ (n - 1)" using True a(3) by (simp add: nat_less_iff)
    ultimately show ?thesis using True by (simp add: to_u_def of_u_def)
  next
    case False
    have "x mod 2 ^ n = (x + 2 ^ n) mod 2 ^ n" by simp
    also have "\<dots> = x + 2 ^ n" using False a p by (intro mod_pos_pos_trivial) auto
    finally have m: "x mod 2 ^ n = x + 2 ^ n" .
    have "\<not> nat (x + 2 ^ n) < 2 ^ (n - 1)"
      using False a p by (simp add: nat_less_iff)
    then show ?thesis using m False a p by (simp add: to_u_def of_u_def)
  qed
qed

lemma to_u_bound: "to_u n x < 2 ^ n"
  by (simp add: to_u_def nat_less_iff)

lemma length_enc_elem [simp]: "length (enc_elem e) = 8"
  by (simp add: enc_elem_def)

lemma dec_enc_elem:
  "ce_cnt e < 2 ^ 32 \<Longrightarrow> - (2 ^ 31) \<le> ce_reason e \<Longrightarrow> ce_reason e < 2 ^ 31 \<Longrightarrow> dec_elem (enc_elem e) = e"
  using to_u_bound [of 32 "ce_reason e"] of_u_to_u [of 32 "ce_reason e"]
  by (simp add: dec_elem_def enc_elem_def un_le32_le32)

lemma window_concat:
  "\<forall>x\<in>set xs. length (f x) = n \<Longrightarrow> j < length xs \<Longrightarrow> window (n * j) n (concat (map f xs)) = f (xs ! j)"
proof (induction xs arbitrary: j)
  case Nil
  then show ?case by simp
next
  case (Cons x xs)
  then show ?case by (cases j) (auto simp: window_def)
qed

lemma length_concat_const:
  "\<forall>x\<in>set xs. length (f x) = n \<Longrightarrow> length (concat (map f xs)) = n * length xs"
  by (induction xs) auto

lemma length_enc_target: "length (ct_caps t) = 8 \<Longrightarrow> length (enc_target t) = und_target_len"
  using length_concat_const [of "ct_caps t" enc_elem 8]
  by (simp add: enc_target_def le16_def und_target_len_def)

lemma dec_enc_target:
  assumes ok: "cap_ok t"
  shows "dec_target (enc_target t) = t"
proof -
  have l: "length (ct_caps t) = 8" using ok by (simp add: cap_ok_def)
  have hdr: "enc_target t = le16 (to_u 16 (ct_size t)) @ le16 (to_u 16 (ct_idx t))
      @ concat (map enc_elem (ct_caps t))" by (simp add: enc_target_def)
  have w: "window (4 + 8 * j) 8 (enc_target t) = enc_elem (ct_caps t ! j)" if "j < 8" for j
  proof -
    have "window (4 + 8 * j) 8 (enc_target t) = window (8 * j) 8 (concat (map enc_elem (ct_caps t)))"
      unfolding hdr append_assoc [symmetric] by (rule window_append_right) (simp add: le16_def)
    then show ?thesis using window_concat [of "ct_caps t" enc_elem 8 j] that l by simp
  qed
  have e: "dec_elem (enc_elem (ct_caps t ! j)) = ct_caps t ! j" if "j < 8" for j
  proof (cases "j < nat (ct_idx t)")
    case True
    then show ?thesis using ok by (intro dec_enc_elem) (auto simp: cap_ok_def)
  next
    case False
    then have "ct_caps t ! j = zero_elem" using ok that by (simp add: cap_ok_def)
    then show ?thesis by (simp add: dec_enc_elem)
  qed
  have "map (\<lambda>j. dec_elem (window (4 + 8 * j) 8 (enc_target t))) [0..<8] = ct_caps t"
    by (rule nth_equalityI) (use w e l in auto)
  moreover have "of_u 16 (un_le16 (enc_target t ! 0) (enc_target t ! 1)) = ct_size t"
    "of_u 16 (un_le16 (enc_target t ! 2) (enc_target t ! 3)) = ct_idx t"
    using ok un_le16_le16 [of "to_u 16 (ct_size t)"] un_le16_le16 [of "to_u 16 (ct_idx t)"]
      to_u_bound [of 16 "ct_size t"] to_u_bound [of 16 "ct_idx t"]
      of_u_to_u [of 16 "ct_size t"] of_u_to_u [of 16 "ct_idx t"]
    by (simp_all add: hdr le16_def cap_ok_def)
  ultimately show ?thesis by (simp add: dec_target_def)
qed

section \<open>Replaying the counters\<close>

text \<open>The target after the first \<open>j\<close> captures of \<open>t\<close>, and while capture \<open>j\<close> stands at \<open>c\<close>.\<close>

definition prefix_target :: "cap_target \<Rightarrow> nat \<Rightarrow> cap_target" where
  "prefix_target t j = \<lparr>ct_size = 8, ct_idx = int j,
     ct_caps = take j (ct_caps t) @ replicate (8 - j) zero_elem\<rparr>"

definition mid_target :: "cap_target \<Rightarrow> nat \<Rightarrow> nat \<Rightarrow> cap_target" where
  "mid_target t j c = \<lparr>ct_size = 8, ct_idx = int (Suc j),
     ct_caps = take j (ct_caps t) @ \<lparr>ce_cnt = c, ce_reason = ce_reason (ct_caps t ! j)\<rparr>
       # replicate (7 - j) zero_elem\<rparr>"

lemma prefix_0 [simp]: "prefix_target t 0 = new_target"
  by (simp add: prefix_target_def new_target_def)

lemma mid_full:
  assumes "j < 8" "length (ct_caps t) = 8"
  shows "mid_target t j (ce_cnt (ct_caps t ! j)) = prefix_target t (Suc j)"
proof -
  have "\<lparr>ce_cnt = ce_cnt (ct_caps t ! j), ce_reason = ce_reason (ct_caps t ! j)\<rparr> = ct_caps t ! j"
    by simp
  then show ?thesis using assms
    by (simp add: mid_target_def prefix_target_def take_Suc_conv_app_nth)
qed

lemma prefix_all:
  assumes "cap_ok t"
  shows "prefix_target t (nat (ct_idx t)) = t"
proof -
  let ?k = "nat (ct_idx t)"
  have "take ?k (ct_caps t) @ replicate (8 - ?k) zero_elem = ct_caps t"
    by (rule nth_equalityI) (use assms in \<open>auto simp: cap_ok_def nth_append\<close>)
  then show ?thesis using assms by (simp add: prefix_target_def cap_ok_def)
qed

lemma bump_first:
  assumes ok: "cap_ok t" and j: "j < nat (ct_idx t)"
  shows "bump (ce_reason (ct_caps t ! j)) (prefix_target t j) = Some (mid_target t j 1)"
proof -
  note l = cap_ok_len [OF ok]
  have ne: "ce_reason (ct_caps t ! i) \<noteq> ce_reason (ct_caps t ! j)" if "i < j" for i
    using find_reason [OF l(3) _ j] l(1,2) j that by (auto simp: find_Some_iff)
  have f: "find (\<lambda>i. ce_reason (ct_caps (prefix_target t j) ! i) = ce_reason (ct_caps t ! j)) [0..<j] = None"
    by (rule find_reason_None) (use ne j l in \<open>auto simp: prefix_target_def nth_append\<close>)
  have "replicate (8 - j) zero_elem = zero_elem # replicate (7 - j) zero_elem"
    using j l(2) by (simp flip: replicate_Suc add: Suc_diff_le)
  then have c: "ct_caps (prefix_target t j) = take j (ct_caps t) @ zero_elem # replicate (7 - j) zero_elem"
    by (simp add: prefix_target_def)
  have i: "ct_idx (prefix_target t j) = int j" "ct_size (prefix_target t j) = 8"
    by (simp_all add: prefix_target_def)
  have "length (take j (ct_caps t)) = j" using j l by simp
  note n = nth_append_length [of "take j (ct_caps t)", unfolded this]
    list_update_length [of "take j (ct_caps t)", unfolded this]
  show ?thesis
    unfolding bump_def i Let_def nat_int f using j l
    by (simp add: c n) (simp add: prefix_target_def mid_target_def)
qed

lemma bump_more:
  assumes ok: "cap_ok t" and j: "j < nat (ct_idx t)" "j < 7" and c: "c + 1 < 2 ^ 32"
  shows "bump (ce_reason (ct_caps t ! j)) (mid_target t j c) = Some (mid_target t j (c + 1))"
proof -
  note l = cap_ok_len [OF ok]
  have len: "length (take j (ct_caps t)) = j" using j l by simp
  let ?m = "ct_caps (mid_target t j c)"
  have "distinct (map ce_reason (take (Suc j) ?m)) \<longleftrightarrow> distinct (map ce_reason (take (Suc j) (ct_caps t)))"
    using l j by (simp add: mid_target_def take_Suc_conv_app_nth)
  moreover have "distinct (map ce_reason (take (Suc j) (ct_caps t)))"
    using distinct_take [OF l(3), of "Suc j"] j(1) by (simp add: take_map min_def)
  moreover have "ce_reason (?m ! j) = ce_reason (ct_caps t ! j)"
    by (simp add: mid_target_def nth_append_length [of "take j (ct_caps t)", unfolded len])
  moreover have "Suc j \<le> length ?m" using l j by (simp add: mid_target_def)
  ultimately have f: "find (\<lambda>i. ce_reason (?m ! i) = ce_reason (ct_caps t ! j)) [0..<Suc j] = Some j"
    using find_reason [of "Suc j" ?m j] by simp
  have i: "ct_idx (mid_target t j c) = int (Suc j)" "ct_size (mid_target t j c) = 8"
    by (simp_all add: mid_target_def)
  have "?m ! j = \<lparr>ce_cnt = c, ce_reason = ce_reason (ct_caps t ! j)\<rparr>"
    by (simp add: mid_target_def nth_append_length [of "take j (ct_caps t)", unfolded len])
  moreover have "?m[j := e] = take j (ct_caps t) @ e # replicate (7 - j) zero_elem" for e
    by (simp add: mid_target_def list_update_length [of "take j (ct_caps t)", unfolded len])
  ultimately show ?thesis
    unfolding bump_def i Let_def nat_int f using j(2) c
    by simp (simp add: mid_target_def)
qed

text \<open>A world that differs from \<open>w\<close> in the target \<open>i\<close> and the allocations only.\<close>

definition put_target :: "nat \<Rightarrow> cap_target \<Rightarrow> 's und_world \<Rightarrow> 's und_world \<Rightarrow> bool" where
  "put_target i t w w' \<longleftrightarrow>
     (\<exists>a. w' = w\<lparr>uw_allocs := a, cap_targets := (cap_targets w)[i := Some t]\<rparr>)"

definition cap_world :: "'s und_world \<Rightarrow> bool" where
  "cap_world w \<longleftrightarrow> cap_ready w \<and> length (cap_targets w) = UND_TARGETS
     \<and> cap_wb w = replicate UND_TARGETS False \<and> (\<forall>i. uw_alloc w i)"

lemma cap_world_put: "cap_world w \<Longrightarrow> put_target i t w w' \<Longrightarrow> cap_world w'"
  by (auto simp: cap_world_def put_target_def)

lemma put_target_trans: "put_target i t w w1 \<Longrightarrow> put_target i t' w1 w2 \<Longrightarrow> put_target i t' w w2"
  by (auto simp: put_target_def)

lemma update_quiet:
  assumes w: "cap_world w" and i: "i < 6"
    and b: "bump r (case cap_targets w ! i of None \<Rightarrow> new_target | Some t \<Rightarrow> t) = Some t'"
  shows "\<exists>w'. und_update_cap (int i) r False w = (0, w') \<and> put_target i t' w w'"
proof (cases "cap_targets w ! i")
  case None
  then have "und_update_cap (int i) r False w
      = (0, w\<lparr>uw_allocs := Suc (uw_allocs w), cap_targets := (cap_targets w)[i := Some t']\<rparr>)"
    using w i b by (simp add: und_update_cap_def cap_world_def und_alloc_def Let_def)
  then show ?thesis unfolding put_target_def by blast
next
  case (Some t)
  then have "und_update_cap (int i) r False w = (0, w\<lparr>cap_targets := (cap_targets w)[i := Some t']\<rparr>)"
    using w i b by (simp add: und_update_cap_def cap_world_def Let_def)
  moreover have "w\<lparr>cap_targets := (cap_targets w)[i := Some t']\<rparr>
      = w\<lparr>uw_allocs := uw_allocs w, cap_targets := (cap_targets w)[i := Some t']\<rparr>" by simp
  ultimately show ?thesis unfolding put_target_def by metis
qed

lemma restore_cnt_more:
  assumes ok: "cap_ok t" and j: "j < nat (ct_idx t)" and i: "i < 6"
  shows "cap_world w \<Longrightarrow> cap_targets w ! i = Some (mid_target t j c) \<Longrightarrow> c + d < 2 ^ 32
    \<Longrightarrow> d = 0 \<or> j < 7 \<Longrightarrow>
    \<exists>w'. restore_cnt i (ce_reason (ct_caps t ! j)) d w = (0, w') \<and> put_target i (mid_target t j (c + d)) w w'"
proof (induction d arbitrary: c w)
  case 0
  have "w = w\<lparr>uw_allocs := uw_allocs w, cap_targets := (cap_targets w)[i := Some (mid_target t j c)]\<rparr>"
    using 0(2) by (simp flip: 0(2))
  then show ?case unfolding put_target_def by (auto intro!: exI [of _ "uw_allocs w"])
next
  case (Suc d)
  have "bump (ce_reason (ct_caps t ! j)) (mid_target t j c) = Some (mid_target t j (c + 1))"
    using bump_more [OF ok j] Suc.prems by simp
  with update_quiet [OF Suc.prems(1) i, of "ce_reason (ct_caps t ! j)" "mid_target t j (c + 1)"]
  obtain w1 where w1: "und_update_cap (int i) (ce_reason (ct_caps t ! j)) False w = (0, w1)"
    "put_target i (mid_target t j (c + 1)) w w1" using Suc.prems(2) by auto
  have "cap_targets w1 ! i = Some (mid_target t j (c + 1))"
    using w1(2) i Suc.prems(1) by (auto simp: put_target_def cap_world_def)
  from Suc.IH [OF cap_world_put [OF Suc.prems(1) w1(2)] this] Suc.prems(3,4) obtain w2 where
    w2: "restore_cnt i (ce_reason (ct_caps t ! j)) d w1 = (0, w2)"
    "put_target i (mid_target t j (c + 1 + d)) w1 w2" by auto
  then show ?case using w1 put_target_trans [OF w1(2) w2(2)] by simp
qed

lemma restore_caps_ok:
  assumes ok: "cap_ok t" and i: "i < 6"
  shows "j \<le> nat (ct_idx t) \<Longrightarrow> cap_world w
    \<Longrightarrow> (case cap_targets w ! i of None \<Rightarrow> new_target | Some x \<Rightarrow> x) = prefix_target t j
    \<Longrightarrow> j < nat (ct_idx t) \<Longrightarrow>
    \<exists>w'. restore_caps i (map (\<lambda>k. ct_caps t ! k) [j..<nat (ct_idx t)]) w = (0, w') \<and> put_target i t w w'"
proof (induction "nat (ct_idx t) - j" arbitrary: j w)
  case 0
  then show ?case by simp
next
  case (Suc d)
  let ?k = "nat (ct_idx t)" and ?r = "ce_reason (ct_caps t ! j)"
  note j = Suc.prems(4)
  note l = cap_ok_len(1,2) [OF ok]
  have cnt: "0 < ce_cnt (ct_caps t ! j)" "ce_cnt (ct_caps t ! j) < 2 ^ 32" "j = 7 \<longrightarrow> ce_cnt (ct_caps t ! j) = 1"
    using ok j by (auto simp: cap_ok_def)
  obtain c where c: "ce_cnt (ct_caps t ! j) = Suc c" using cnt(1) gr0_implies_Suc by blast
  from update_quiet [OF Suc.prems(2) i, of ?r "mid_target t j 1"] bump_first [OF ok j] Suc.prems(3)
  obtain w1 where w1: "und_update_cap (int i) ?r False w = (0, w1)" "put_target i (mid_target t j 1) w w1"
    by auto
  have cw1: "cap_world w1" by (rule cap_world_put [OF Suc.prems(2) w1(2)])
  have t1: "cap_targets w1 ! i = Some (mid_target t j 1)"
    using w1(2) i Suc.prems(2) by (auto simp: put_target_def cap_world_def)
  have "j < 7 \<or> j = 7" using j l(2) by linarith
  then have "1 + c < 2 ^ 32" "c = 0 \<or> j < 7" using cnt c by auto
  from restore_cnt_more [OF ok j i cw1 t1 this] obtain w2 where
    w2: "restore_cnt i ?r c w1 = (0, w2)" "put_target i (mid_target t j (1 + c)) w1 w2" by blast
  have m: "mid_target t j (1 + c) = prefix_target t (Suc j)"
    using mid_full [of j t] c j l by simp
  have cw2: "cap_world w2" by (rule cap_world_put [OF cw1 w2(2)])
  have p2: "put_target i (prefix_target t (Suc j)) w w2"
    using put_target_trans [OF w1(2) w2(2)] unfolding m .
  have t2: "cap_targets w2 ! i = Some (prefix_target t (Suc j))"
    using p2 i Suc.prems(2) by (auto simp: put_target_def cap_world_def)
  have one: "restore_cnt i ?r (ce_cnt (ct_caps t ! j)) w = (0, w2)"
    by (simp add: c w1(1) w2(1))
  show ?case
  proof (cases "Suc j = ?k")
    case True
    then have "[j..<?k] = [j]" by (simp flip: True)
    then show ?thesis using one p2 prefix_all [OF ok] True by simp
  next
    case False
    then have sj: "Suc j < ?k" "Suc j \<le> ?k" "d = ?k - Suc j" using j Suc.hyps(2) by simp_all
    from Suc.hyps(1) [OF sj(3,2) cw2 _ sj(1)] t2 obtain w3 where
      w3: "restore_caps i (map (\<lambda>k. ct_caps t ! k) [Suc j..<?k]) w2 = (0, w3)" "put_target i t w2 w3" by auto
    have "[j..<?k] = j # [Suc j..<?k]" using j by (simp add: upt_conv_Cons)
    then show ?thesis using one w3 put_target_trans [OF p2 w3(2)] by simp
  qed
qed

section \<open>Keys\<close>

lemma und_kv_key_small: "i < 6 \<Longrightarrow> und_kv_key i = str ''und_key#'' @ [of_nat (48 + i)]"
  by (simp add: und_kv_key_def dec_nat_small)

lemma und_kv_key_inj: "i < 6 \<Longrightarrow> j < 6 \<Longrightarrow> und_kv_key i = und_kv_key j \<longleftrightarrow> i = j"
proof -
  assume ij: "i < 6" "j < 6"
  have u: "unat (of_nat (48 + x) :: byte) = 48 + x" if "x < 6" for x
    using that by (simp only: unat_of_nat_byte) simp
  have "(of_nat (48 + i) :: byte) = of_nat (48 + j) \<longleftrightarrow> i = j"
    using u [OF ij(1)] u [OF ij(2)] by (metis add_left_cancel)
  then show ?thesis unfolding und_kv_key_small [OF ij(1)] und_kv_key_small [OF ij(2)] by blast
qed

section \<open>Saving and restoring on a store\<close>

text \<open>The map \<open>m\<close> has what target \<open>i\<close> should be after a restart.\<close>

definition stored :: "kv_map \<Rightarrow> cap_target option \<Rightarrow> nat \<Rightarrow> bool" where
  "stored m t i \<longleftrightarrow> (case t of None \<Rightarrow> m (und_kv_key i) = None
     | Some x \<Rightarrow> m (und_kv_key i) = Some (enc_target x) \<and> cap_ok x \<and> 0 < ct_idx x)"

definition store_ops ::
  "(byte list \<Rightarrow> byte list \<Rightarrow> 's \<Rightarrow> (int \<times> 's) option) \<Rightarrow>
   (byte list \<Rightarrow> nat \<Rightarrow> 's \<Rightarrow> (byte list option \<times> 's) option) \<Rightarrow>
   (byte list \<Rightarrow> 's \<Rightarrow> (int \<times> 's) option) \<Rightarrow> 's kv_ops" where
  "store_ops s g d = \<lparr>kvo_set = s, kvo_get = g, kvo_del = d\<rparr>"

lemma store_ops_simps [simp]:
  "kvo_set (store_ops s g d) = s" "kvo_get (store_ops s g d) = g" "kvo_del (store_ops s g d) = d"
  by (simp_all add: store_ops_def)

lemma zero_target_idx: "ct_idx (dec_target (replicate und_target_len 0)) = 0"
  by (simp add: dec_target_def und_target_len_def un_le16_def of_u_def)

lemma save_targets_sched: "save_targets kv is True w = Some (rs, w') \<Longrightarrow> rs"
proof (induction "is" arbitrary: w)
  case Nil
  then show ?case by simp
next
  case (Cons i "is")
  show ?case
    using Cons.prems by (auto split: option.splits if_splits dest: Cons.IH)
qed

text \<open>The map after all dirty targets of \<open>is\<close> were written.\<close>

definition saved_map :: "nat list \<Rightarrow> 's und_world \<Rightarrow> kv_map \<Rightarrow> kv_map" where
  "saved_map is w m = (\<lambda>k. case find (\<lambda>i. cap_wb w ! i \<and> k = und_kv_key i) is of
     None \<Rightarrow> m k | Some i \<Rightarrow> map_option enc_target (cap_targets w ! i))"

lemma saved_map_Cons:
  assumes "i < 6" "\<forall>j\<in>set is. j < 6 \<and> j \<noteq> i" "cap_wb w ! i" "cap_targets w ! i = Some t"
  shows "saved_map is w (m(und_kv_key i \<mapsto> enc_target t)) = saved_map (i # is) w m"
proof
  fix k show "saved_map is w (m(und_kv_key i \<mapsto> enc_target t)) k = saved_map (i # is) w m k"
  proof (cases "k = und_kv_key i")
    case True
    then have "find (\<lambda>i. cap_wb w ! i \<and> k = und_kv_key i) is = None"
      using assms(1,2) und_kv_key_inj by (auto simp: find_None_iff)
    then show ?thesis using assms(3,4) True by (simp add: saved_map_def)
  next
    case False
    then show ?thesis by (simp add: saved_map_def split: option.splits)
  qed
qed

lemma saved_map_key:
  assumes "i < 6"
  shows "saved_map [0..<6] w m (und_kv_key i)
    = (if cap_wb w ! i then map_option enc_target (cap_targets w ! i) else m (und_kv_key i))"
proof (cases "cap_wb w ! i")
  case True
  have "find (\<lambda>j. cap_wb w ! j \<and> und_kv_key i = und_kv_key j) [0..<6] = Some i"
    unfolding find_Some_iff
    using assms True und_kv_key_inj [OF assms] by (intro exI [of _ i]) auto
  then show ?thesis using True by (simp add: saved_map_def)
next
  case False
  have "find (\<lambda>j. cap_wb w ! j \<and> und_kv_key i = und_kv_key j) [0..<6] = None"
    unfolding find_None_iff using False und_kv_key_inj [OF assms] by auto
  then show ?thesis using False by (simp add: saved_map_def)
qed

context kv_store
begin

lemma restore_targets_ok:
  assumes key: "\<forall>i<6. key_ok (und_kv_key i)"
  shows "cap_world w \<Longrightarrow> holds (uw_store w) m \<Longrightarrow> distinct is \<Longrightarrow>
    \<forall>i\<in>set is. i < 6 \<and> cap_targets w ! i = None \<and> stored m (ts ! i) i \<Longrightarrow>
    \<exists>w'. restore_targets (store_ops set_op get_op d) is w = Some (0, w') \<and> cap_world w'
      \<and> holds (uw_store w') m \<and> cap_save w' = cap_save w
      \<and> (\<forall>i<6. cap_targets w' ! i = (if i \<in> set is then ts ! i else cap_targets w ! i))"
proof (induction "is" arbitrary: w)
  case Nil
  then show ?case by auto
next
  case (Cons i "is")
  have i: "i < 6" "cap_targets w ! i = None" "stored m (ts ! i) i" "i \<notin> set is" using Cons.prems by auto
  let ?k = "und_kv_key i"
  have len: "length v \<le> und_target_len" if "m ?k = Some v" for v
    using i(3) that length_enc_target cap_ok_len(1)
    by (fastforce simp: stored_def split: option.splits)
  have "0 < und_target_len" by (simp add: und_target_len_def)
  from get_law [OF Cons.prems(2) _ this len] key i(1) obtain s1 where
    s1: "get_op ?k und_target_len (uw_store w) = Some (m ?k, s1)" "holds s1 m" by blast
  let ?w1 = "w\<lparr>uw_store := s1\<rparr>"
  have cw1: "cap_world ?w1" using Cons.prems(1) by (simp add: cap_world_def)
  let ?bs = "overwrite 0 (case m ?k of None \<Rightarrow> [] | Some x \<Rightarrow> x) (replicate und_target_len 0)"
  let ?es = "map (\<lambda>j. ct_caps (dec_target ?bs) ! j) [0..<nat (ct_idx (dec_target ?bs))]"
  have "\<exists>w2. restore_caps i ?es ?w1 = (0, w2) \<and> cap_world w2 \<and> uw_store w2 = s1
      \<and> cap_save w2 = cap_save w
      \<and> (\<forall>j<6. cap_targets w2 ! j = (if j = i then ts ! i else cap_targets w ! j))"
  proof (cases "ts ! i")
    case None
    then have "?bs = replicate und_target_len 0" using i(3) by (simp add: stored_def overwrite_def)
    then have "?es = []" by (simp add: zero_target_idx)
    then show ?thesis using cw1 None i(2) by simp
  next
    case (Some t)
    then have t: "m ?k = Some (enc_target t)" "cap_ok t" "0 < nat (ct_idx t)"
      using i(3) by (simp_all add: stored_def)
    have "?bs = enc_target t"
      using t(1) length_enc_target [OF cap_ok_len(1) [OF t(2)]] by (simp add: overwrite_all)
    then have dt: "dec_target ?bs = t" using dec_enc_target [OF t(2)] by simp
    from restore_caps_ok [OF t(2) i(1) _ cw1 _ t(3)] i(2) obtain w2 where
      w2: "restore_caps i (map (\<lambda>k. ct_caps t ! k) [0..<nat (ct_idx t)]) ?w1 = (0, w2)"
        "put_target i t ?w1 w2" by auto
    have "cap_targets w2 ! j = (if j = i then Some t else cap_targets w ! j)" if "j < 6" for j
      using w2(2) Cons.prems(1) that by (auto simp: put_target_def cap_world_def)
    moreover have "uw_store w2 = s1" "cap_save w2 = cap_save w" using w2(2) by (auto simp: put_target_def)
    ultimately show ?thesis using w2(1) cap_world_put [OF cw1 w2(2)] Some unfolding dt by auto
  qed
  then obtain w2 where w2: "restore_caps i ?es ?w1 = (0, w2)" "cap_world w2" "uw_store w2 = s1"
    "cap_save w2 = cap_save w"
    "\<forall>j<6. cap_targets w2 ! j = (if j = i then ts ! i else cap_targets w ! j)" by blast
  have "holds (uw_store w2) m" using s1(2) w2(3) by simp
  moreover have "\<forall>j\<in>set is. j < 6 \<and> cap_targets w2 ! j = None \<and> stored m (ts ! j) j"
    using Cons.prems(4) w2(5) i(4) by auto
  ultimately obtain w3 where
    w3: "restore_targets (store_ops set_op get_op d) is w2 = Some (0, w3)" "cap_world w3"
      "holds (uw_store w3) m" "cap_save w3 = cap_save w2"
      "\<forall>j<6. cap_targets w3 ! j = (if j \<in> set is then ts ! j else cap_targets w2 ! j)"
    using Cons.IH [OF w2(2)] Cons.prems(3) by auto
  have "restore_targets (store_ops set_op get_op d) (i # is) w = Some (0, w3)"
    using s1(1) w2(1) w3(1) by (simp add: Let_def)
  then show ?case using w2(4,5) w3(2-5) i(4) by auto
qed

lemma save_targets_ok:
  assumes key: "\<forall>i<6. key_ok (und_kv_key i)"
  shows "save_targets (store_ops set_op get_op d) is False w = Some (False, w') \<Longrightarrow>
    holds (uw_store w) m \<Longrightarrow> distinct is \<Longrightarrow> length (cap_wb w) = 6 \<Longrightarrow>
    \<forall>i\<in>set is. i < 6 \<and> (cap_wb w ! i \<longrightarrow> (\<exists>t. cap_targets w ! i = Some t \<and> val_ok (enc_target t))) \<Longrightarrow>
    holds (uw_store w') (saved_map is w m) \<and> cap_save_armed w' = cap_save_armed w"
proof (induction "is" arbitrary: w m)
  case Nil
  then show ?case by (simp add: saved_map_def)
next
  case (Cons i "is")
  show ?case
  proof (cases "cap_wb w ! i")
    case False
    have "save_targets (store_ops set_op get_op d) is False w = Some (False, w')"
      using Cons.prems(1) False by simp
    from Cons.IH [OF this Cons.prems(2)] Cons.prems(3-5) False show ?thesis
      by (simp add: saved_map_def)
  next
    case True
    then obtain t where t: "cap_targets w ! i = Some t" "val_ok (enc_target t)" and i: "i < 6"
      using Cons.prems(5) by auto
    obtain res s where s: "set_op (und_kv_key i) (enc_target t) (uw_store w) = Some (res, s)"
      using Cons.prems(1) True t(1) by (auto split: option.splits)
    have r: "res = 0"
      using Cons.prems(1) True t(1) s save_targets_sched by (fastforce split: if_splits)
    let ?w1 = "w\<lparr>uw_store := s, cap_wb := (cap_wb w)[i := False]\<rparr>"
    have run: "save_targets (store_ops set_op get_op d) is False ?w1 = Some (False, w')"
      using Cons.prems(1) True t(1) s r by simp
    have h: "holds (uw_store ?w1) (m(und_kv_key i \<mapsto> enc_target t))"
      using set_law [OF Cons.prems(2) _ t(2) s] key i r by simp
    have ne: "\<forall>j\<in>set is. j < 6 \<and> j \<noteq> i" using Cons.prems(3,5) by auto
    have d: "distinct is" "length (cap_wb ?w1) = 6" using Cons.prems(3,4) by simp_all
    have "\<forall>j\<in>set is. j < 6 \<and> (cap_wb ?w1 ! j \<longrightarrow> (\<exists>t. cap_targets ?w1 ! j = Some t \<and> val_ok (enc_target t)))"
      using Cons.prems(5) ne by auto
    note ih = Cons.IH [OF run h d this]
    have "holds (uw_store w') (saved_map is ?w1 (m(und_kv_key i \<mapsto> enc_target t)))"
      using ih by (rule conjunct1)
    moreover have "cap_save_armed w' = cap_save_armed w" using ih by simp
    moreover have "saved_map is ?w1 m' = saved_map is w m'" for m'
    proof
      fix k
      have "find (\<lambda>i. cap_wb ?w1 ! i \<and> k = und_kv_key i) is = find (\<lambda>i. cap_wb w ! i \<and> k = und_kv_key i) is"
        using ne by (intro find_cong) auto
      then show "saved_map is ?w1 m' k = saved_map is w m' k"
        by (simp add: saved_map_def split: option.splits)
    qed
    ultimately show ?thesis using saved_map_Cons [OF i ne True t(1)] by simp
  qed
qed

text \<open>The captures survive a restart.\<close>

lemma saved_restored:
  assumes key: "\<forall>i<6. key_ok (und_kv_key i)" and val: "\<And>t. cap_ok t \<Longrightarrow> val_ok (enc_target t)"
    and w: "cap_ready w" "length (cap_targets w) = 6" "length (cap_wb w) = 6" "holds (uw_store w) m"
    and caps: "\<forall>i<6. case cap_targets w ! i of
        None \<Rightarrow> \<not> cap_wb w ! i \<and> m (und_kv_key i) = None
      | Some t \<Rightarrow> cap_ok t \<and> 0 < ct_idx t \<and> (cap_wb w ! i \<or> m (und_kv_key i) = Some (enc_target t))"
    and save: "und_cap_manage_save_task (store_ops set_op get_op d) w = Some w1" "cap_save_armed w1 = None"
    and boot: "uw_store w2 = uw_store w1" "\<not> cap_ready w2" "\<forall>i. uw_alloc w2 i"
      "cap_wb w2 = replicate 6 False"
  shows "\<exists>w3. und_cap_manage_init (store_ops set_op get_op d) w2 = Some (0, w3)
     \<and> cap_targets w3 = cap_targets w"
proof -
  let ?w0 = "w\<lparr>cap_save_armed := None\<rparr>"
  obtain rs u where run: "save_targets (store_ops set_op get_op d) [0..<6] False ?w0 = Some (rs, u)"
    "w1 = (if rs then u\<lparr>cap_save_armed := Some 5000\<rparr> else u)"
    using save(1) w(1)
    by (cases "save_targets (store_ops set_op get_op d) [0..<6] False ?w0")
      (auto simp: und_cap_manage_save_task_def)
  have "\<not> rs" using run(2) save(2) by auto
  then have run: "save_targets (store_ops set_op get_op d) [0..<6] False ?w0 = Some (False, w1)"
    using run by simp
  have dirty: "\<forall>i\<in>set [0..<6]. i < 6 \<and> (cap_wb ?w0 ! i \<longrightarrow>
      (\<exists>t. cap_targets ?w0 ! i = Some t \<and> val_ok (enc_target t)))"
  proof (intro ballI conjI impI)
    fix i :: nat assume "i \<in> set [0..<6]"
    then show i: "i < 6" by simp
    assume "cap_wb ?w0 ! i"
    then show "\<exists>t. cap_targets ?w0 ! i = Some t \<and> val_ok (enc_target t)"
      using caps [rule_format, OF i] val by (simp split: option.splits)
  qed
  have len: "holds (uw_store ?w0) m" "distinct [0..<6::nat]" "length (cap_wb ?w0) = 6" using w by simp_all
  have "saved_map [0..<6] ?w0 m = saved_map [0..<6] w m"
    by (rule ext) (simp add: saved_map_def split: option.splits)
  then have h: "holds (uw_store w1) (saved_map [0..<6] w m)"
    using save_targets_ok [OF key run len dirty] by simp
  have st: "stored (saved_map [0..<6] w m) (cap_targets w ! i) i" if i: "i < 6" for i
    using caps [rule_format, OF i]
    by (auto simp: stored_def saved_map_key [OF i] split: option.splits)
  let ?w3 = "w2\<lparr>cap_ready := True, cap_targets := replicate 6 None,
      uw_allocs := Suc (Suc (uw_allocs w2)), cap_save := True\<rparr>"
  have "cap_world ?w3" using boot by (simp add: cap_world_def)
  from restore_targets_ok [OF key this _ _ , of "saved_map [0..<6] w m" "[0..<6]" "cap_targets w" d]
    h boot(1) st obtain w4 where
    w4: "restore_targets (store_ops set_op get_op d) [0..<6] ?w3 = Some (0, w4)" "cap_world w4"
      "\<forall>i<6. cap_targets w4 ! i = cap_targets w ! i" by auto
  have "und_cap_manage_init (store_ops set_op get_op d) w2
      = Some (0, w4\<lparr>cap_wb := replicate 6 False\<rparr>)"
    using boot w4(1) by (simp add: und_cap_manage_init_def und_alloc_def Let_def)
  moreover have "cap_targets w4 = cap_targets w"
    by (rule nth_equalityI) (use w4(2,3) w(2) in \<open>auto simp: cap_world_def\<close>)
  ultimately show ?thesis by simp
qed

end

end
