(* ===== verification/Und_Machine.thy ===== *)
theory Und_Machine
  imports Und_Report Und_Save
begin

text \<open>
  What the operations of components/und guarantee: counting, packet identifiers, the
  size of the packed text, and the report state machine with its lost updates, lost
  timer and oversized packets.
\<close>

section \<open>Counting\<close>

text \<open>How often a reason was counted in a target.\<close>

definition captured :: "cap_target option \<Rightarrow> int \<Rightarrow> nat" where
  "captured t r = (case t of None \<Rightarrow> 0 | Some x \<Rightarrow>
     (case find (\<lambda>i. ce_reason (ct_caps x ! i) = r) [0..<nat (ct_idx x)] of
        None \<Rightarrow> 0 | Some i \<Rightarrow> ce_cnt (ct_caps x ! i)))"

lemma find_upt_Suc: "find P [0..<Suc k] = (case find P [0..<k] of None \<Rightarrow> if P k then Some k else None | Some i \<Rightarrow> Some i)"
  by (simp add: find_append split: option.splits)

lemma find_upt_cong: "(\<And>i. i < k \<Longrightarrow> P i = Q i) \<Longrightarrow> find P [0..<k] = find Q [0..<k]"
  by (rule find_cong) auto

lemma bump_captured:
  assumes ok: "cap_ok t" and b: "bump r t = Some t'"
    and cnt: "captured (Some t) r < 2 ^ 32 - 1"
  shows "captured (Some t') q = captured (Some t) q + (if q = r then 1 else 0)"
proof -
  let ?k = "nat (ct_idx t)"
  let ?F = "\<lambda>x q. find (\<lambda>i. ce_reason (ct_caps x ! i) = q) [0..<nat (ct_idx x)]"
  have lt: "ct_idx t < 8" using b ok by (auto simp: bump_def cap_ok_def split: if_splits)
  note l = cap_ok_len [OF ok]
  have k: "0 \<le> ct_idx t" "?k < 8" using ok lt by (auto simp: cap_ok_def)
  show ?thesis
  proof (cases "?F t r")
    case (Some j)
    then have j: "j < ?k" "ce_reason (ct_caps t ! j) = r" by (auto simp: find_Some_iff)
    have c: "ce_cnt (ct_caps t ! j) < 2 ^ 32 - 1" using cnt Some by (simp add: captured_def)
    have t': "t' = t\<lparr>ct_caps := (ct_caps t)[j := (ct_caps t ! j)\<lparr>ce_cnt := ce_cnt (ct_caps t ! j) + 1\<rparr>]\<rparr>"
      using b lt ok j(1) c by (simp add: bump_def Some cap_ok_def Let_def)
    have same: "ce_reason (ct_caps t' ! i) = ce_reason (ct_caps t ! i)" if "i < ?k" for i
      using that l k j by (cases "i = j") (simp_all add: t')
    have f: "?F t' q = ?F t q" for q
      using same by (simp add: t') (rule find_upt_cong, simp)
    show ?thesis
    proof (cases "q = r")
      case True
      then show ?thesis using Some f [of r] j l k by (simp add: captured_def t')
    next
      case False
      have "i \<noteq> j" if "?F t q = Some i" for i using that False j(2) by (auto simp: find_Some_iff)
      then show ?thesis using f [of q] False by (auto simp: captured_def t' split: option.splits)
    qed
  next
    case None
    have z: "ct_caps t ! ?k = zero_elem" using ok k by (simp add: cap_ok_def)
    have t': "t' = t\<lparr>ct_caps := (ct_caps t)[?k := \<lparr>ce_cnt = 1, ce_reason = r\<rparr>], ct_idx := ct_idx t + 1\<rparr>"
      using b lt ok None z by (simp add: bump_def cap_ok_def Let_def)
    have k1: "nat (ct_idx t') = Suc ?k" using k by (simp add: t')
    have f: "find (\<lambda>i. ce_reason (ct_caps t' ! i) = q) [0..<?k] = ?F t q" for q
      by (rule find_upt_cong) (simp add: t')
    have nk: "ct_caps t' ! ?k = \<lparr>ce_cnt = 1, ce_reason = r\<rparr>" using l k by (simp add: t')
    have other: "ct_caps t' ! i = ct_caps t ! i" if "i < ?k" for i using that by (simp add: t')
    have lt': "i < ?k" if "?F t q = Some i" for i using that by (auto simp: find_Some_iff)
    have "captured (Some t') q = (case ?F t q of Some i \<Rightarrow> ce_cnt (ct_caps t' ! i)
        | None \<Rightarrow> if r = q then 1 else 0)"
      unfolding captured_def option.case k1 find_upt_Suc f
      by (cases "?F t q") (simp_all add: nk)
    then show ?thesis
      using None other lt' by (cases "?F t q") (auto simp: captured_def)
  qed
qed

lemma update_cap_ready:
  assumes "cap_ready w" "i < 6" "cap_targets w ! i = Some t"
  shows "und_update_cap (int i) r wb w = (case bump r t of
      None \<Rightarrow> (UND_ERR, w)
    | Some t' \<Rightarrow>
        let w2 = w\<lparr>cap_targets := (cap_targets w)[i := Some t']\<rparr>;
            w3 = (if wb then w2\<lparr>cap_wb := (cap_wb w2)[i := True]\<rparr> else w2)
        in (UND_SUCCESS, if cap_wb w3 ! i then w3\<lparr>cap_save_armed := Some 5000\<rparr> else w3))"
  using assms by (auto simp: und_update_cap_def Let_def split: option.splits)

text \<open>A full target refuses every update, also of a reason it already has.\<close>

lemma full_refuses: "ct_size t \<le> ct_idx t \<Longrightarrow> bump r t = None"
  by (simp add: bump_def)

section \<open>Packet identifiers\<close>

lemma packet_id_nonzero:
  assumes "pkt_ready w" "pkt_id w \<noteq> 0"
  shows "fst (und_packet_id w) \<noteq> 0 \<and> pkt_ready (snd (und_packet_id w)) \<and> pkt_id (snd (und_packet_id w)) \<noteq> 0"
  using assms by (simp add: und_packet_id_def Let_def)

section \<open>Size of the packed text\<close>

lemma size_arg_nonneg [simp]: "len \<le> n \<Longrightarrow> n < 2 ^ 32 \<Longrightarrow> size_arg (int n - int len) = n - len"
  by (simp add: size_arg_def nat_diff_distrib)

lemma write_at_bound:
  assumes "length out \<le> len" "length out < n" "len \<le> n"
  shows "length (write_at out len (take (n - len - 1) p)) \<le> len + length p
    \<and> length (write_at out len (take (n - len - 1) p)) < n"
proof (cases "take (n - len - 1) p = []")
  case True
  then show ?thesis using assms by (simp add: write_at_def)
next
  case False
  then have "len + 1 < n" by auto
  then show ?thesis using False assms by (auto simp: write_at_def)
qed

lemma package_elems_bound:
  assumes "package_elems env i es n (out, len, nf) w = ((out', len', nf'), brk, w')"
    "length out \<le> len" "len \<le> n" "length out < n" and n: "n < 2 ^ 32"
  shows "length out' \<le> len' \<and> len' \<le> n \<and> length out' < n"
  using assms(1-4)
proof (induction es arbitrary: out len nf w)
  case Nil
  then show ?case by simp
next
  case (Cons e es)
  obtain info w1 where w1: "und_package_wireless_info env w = (info, w1)" by fastforce
  let ?T = "capture_text info i e"
  let ?p = "(if nf then [44] else []) @ take 255 ?T"
  show ?case
  proof (cases "len + length ?T + of_bool nf > n")
    case True
    then show ?thesis using Cons.prems w1 by (auto simp: snprintf_def Let_def)
  next
    case False
    have pl: "length ?p \<le> length ?T + of_bool nf" by auto
    have run: "package_elems env i es n (write_at out len (take (n - len - 1) ?p), len + length ?p, True) w1
        = ((out', len', nf'), brk, w')"
      using Cons.prems(1,3) w1 False n by (simp add: snprintf_def Let_def)
    have "len + length ?p \<le> n" using pl False by simp
    then show ?thesis using Cons.IH [OF run] write_at_bound [OF Cons.prems(2,4,3), of ?p] by blast
  qed
qed

lemma package_targets_bound:
  assumes "package_targets env is n (out, len, nf) w = ((out', len', nf'), w')"
    "length out \<le> len" "len \<le> n" "length out < n" and n: "n < 2 ^ 32"
  shows "length out' \<le> len' \<and> len' \<le> n \<and> length out' < n"
  using assms(1-4)
proof (induction "is" arbitrary: out len nf w)
  case Nil
  then show ?case by simp
next
  case (Cons i "is")
  show ?case
  proof (cases "cap_targets w ! i")
    case None
    then show ?thesis using Cons.IH [OF _ Cons.prems(2-4)] Cons.prems(1) by simp
  next
    case (Some t)
    show ?thesis
    proof (cases "ct_idx t \<le> 0")
      case True
      then show ?thesis using Cons.IH [OF _ Cons.prems(2-4)] Cons.prems(1) Some by simp
    next
      case False
      obtain o1 l1 n1 brk w1 where e: "package_elems env i
          (map (\<lambda>j. ct_caps t ! j) [0..<nat (ct_idx t)]) n (out, len, nf) w = ((o1, l1, n1), brk, w1)"
        by (metis prod_cases3)
      note b = package_elems_bound [OF e Cons.prems(2-4) n]
      show ?thesis
        using Cons.prems(1) Some False e b Cons.IH [of o1 l1 n1 w1] by (auto split: if_splits)
    qed
  qed
qed

lemma package_capture_bound:
  assumes "und_package_capture env n w = Some (l, out, w')"
  shows "l \<le> int n \<and> (out = [] \<or> length out < n)"
proof (cases "n > 1344 \<or> n < 1")
  case True
  then show ?thesis using assms by (auto simp: und_package_capture_def)
next
  case False
  obtain ok w1 where a: "und_alloc w = (ok, w1)" by fastforce
  obtain st w2 where p0: "package_targets env [1..<6] n ([], 0, False) w1 = (st, w2)"
    by (rule prod.exhaust)
  obtain o2 l2 n2 where "st = (o2, l2, n2)" by (rule prod_cases3)
  then have p: "package_targets env [1..<6] n ([], 0, False) w1 = ((o2, l2, n2), w2)"
    using p0 by simp
  have b: "length o2 \<le> l2 \<and> l2 \<le> n \<and> length o2 < n"
    using package_targets_bound [OF p] False by simp
  have "und_package_capture env n w = (if \<not> cap_ready w1 then Some (-2, [], w1)
      else if \<not> ok \<and> has_capture w1 then None else Some (int l2, o2, w2))"
    using False unfolding und_package_capture_def Let_def a prod.case p by simp
  then have "l = -2 \<and> out = [] \<or> l = int l2 \<and> out = o2"
    using assms by (simp split: if_splits)
  then show ?thesis using b by auto
qed

lemma collect_bound:
  assumes "und_collect_package env n split ex w = Some (r, tx, w')"
  shows "tx = [] \<or> length tx < n"
proof (cases "n > 1344 \<or> n < 1 \<or> \<not> cap_ready w \<or> \<not> ex")
  case True
  then show ?thesis using assms by (auto simp: und_collect_package_def split: if_splits)
next
  case False
  let ?l = "if split then 1 else 0 :: nat"
  obtain l out w1 where p: "und_package_capture env (n - ?l) w = Some (l, out, w1)"
    using assms False unfolding und_collect_package_def Let_def
    by (cases "und_package_capture env (n - ?l) w") auto
  have b: "l \<le> int (n - ?l)" "out = [] \<or> length out < n - ?l"
    using package_capture_bound [OF p] by simp_all
  have "tx = [] \<or> tx = (if split then [44] else []) @ out \<and> 0 < l"
    using assms False p by (simp add: und_collect_package_def Let_def split: if_splits)
  then show ?thesis using b by (auto split: if_splits)
qed

text \<open>The report buffer never overflows.\<close>

lemma build_package_bound:
  assumes "und_build_package env w = Some (r, w')" "\<And>b. rep_buf w = Some b \<Longrightarrow> length b < 1344"
    and "rep_buf w' = Some b'"
  shows "length b' < 1344"
proof -
  obtain w1 where w1: "(case rep_buf w of Some _ \<Rightarrow> w
      | None \<Rightarrow> let (ok, w') = und_alloc w in if ok then w'\<lparr>rep_buf := Some []\<rparr> else w') = w1" by blast
  show ?thesis
  proof (cases "rep_buf w1")
    case None
    then show ?thesis using assms(1,3) w1 by (simp add: und_build_package_def)
  next
    case (Some b)
    have bl: "length b < 1344"
      using Some w1 assms(2)
      by (auto simp: und_alloc_def Let_def split: option.splits if_splits)
    let ?w2 = "if length b + 128 > 1344 then w1\<lparr>rep_buf := Some [], rep_update := UND_CAP_STATE_UPDATE\<rparr> else w1"
    let ?b = "the (rep_buf ?w2)"
    have b2: "length ?b < 1344" using bl Some by simp
    obtain r3 tx w3 where c: "und_collect_package env (1344 - length ?b) (length ?b \<noteq> 0)
        (rep_update ?w2 \<noteq> UND_CAP_STATE_INIT) ?w2 = Some (r3, tx, w3)" and b': "b' = ?b @ tx"
      using assms(1,3) w1 Some by (auto simp: und_build_package_def Let_def split: option.splits if_splits)
    have "tx = [] \<or> length tx < 1344 - length ?b"
      using collect_bound [OF c] by simp
    then show ?thesis using b' b2 by auto
  qed
qed

section \<open>The report state machine\<close>

text \<open>
  What each call makes of the state: a capture was updated, a reply was received, the
  report task ran. The task enters REPORT when a packet was handed to the network
  (\<open>sent\<close>), otherwise UPDATE when the kept buffer was dropped.
\<close>

fun after_update :: "cap_state \<Rightarrow> cap_state" where
  "after_update UND_CAP_STATE_INIT = UND_CAP_STATE_UPDATE"
| "after_update UND_CAP_STATE_REPORT = UND_CAP_STATE_RESYNC"
| "after_update u = u"

fun after_reply :: "cap_state \<Rightarrow> cap_state" where
  "after_reply UND_CAP_STATE_RESYNC = UND_CAP_STATE_UPDATE"
| "after_reply UND_CAP_STATE_REPORT = UND_CAP_STATE_INIT"
| "after_reply u = u"

definition after_task :: "bool \<Rightarrow> bool \<Rightarrow> cap_state \<Rightarrow> cap_state" where
  "after_task sent dropped u =
     (if sent then UND_CAP_STATE_REPORT else if dropped then UND_CAP_STATE_UPDATE else u)"

text \<open>The kept report is dropped when fewer than 128 bytes are left of its buffer.\<close>

definition buffer_full :: "'s und_world \<Rightarrow> bool" where
  "buffer_full w \<longleftrightarrow> (\<exists>b. rep_buf w = Some b \<and> UND_REPORT_TARGET_BUF_LEN < length b + 128)"

lemma update_state:
  "rep_ready w \<Longrightarrow> und_update_report w = (UND_SUCCESS, w\<lparr>rep_update := after_update (rep_update w)\<rparr>)"
  by (cases "rep_update w") (simp_all add: und_update_report_def)

lemma clear_kv_keeps:
  "und_cap_manage_clear_kv kv w = Some (r, w1) \<Longrightarrow> rep_update w1 = rep_update w \<and> rep_fast w1 = rep_fast w
     \<and> rep_buf w1 = rep_buf w \<and> rep_ready w1 = rep_ready w \<and> und_sent w1 = und_sent w \<and> (cap_ready w \<longrightarrow> cap_targets w1 = replicate 6 None)"
  by (auto simp: und_cap_manage_clear_kv_def split: if_splits option.splits)

lemma sched_start_keeps:
  "rep_update (snd (und_sched_start c w)) = rep_update w" "cap_targets (snd (und_sched_start c w)) = cap_targets w"
  "rep_buf (snd (und_sched_start c w)) = rep_buf w" "rep_ready (snd (und_sched_start c w)) = rep_ready w"
  "und_sent (snd (und_sched_start c w)) = und_sent w"
  by (simp_all add: und_sched_start_def)

lemma reply_result:
  assumes "und_target_report_reply kv True w = Some w'" "rep_ready w" "cap_ready w"
  shows "cap_targets w' = replicate 6 None \<and> rep_update w' = (case rep_update w of
      UND_CAP_STATE_RESYNC \<Rightarrow> UND_CAP_STATE_UPDATE | UND_CAP_STATE_REPORT \<Rightarrow> UND_CAP_STATE_INIT | u \<Rightarrow> u)"
proof -
  obtain r w1 where c: "und_cap_manage_clear_kv kv w = Some (r, w1)"
    using assms by (auto simp: und_target_report_reply_def split: option.splits)
  show ?thesis
    using assms(1,2) clear_kv_keeps [OF c] assms(3) unfolding und_target_report_reply_def c
    by (auto simp: Let_def sched_start_keeps split: if_splits)
qed

lemma reply_state:
  assumes "und_target_report_reply kv True w = Some w'" "rep_ready w"
  shows "rep_update w' = after_reply (rep_update w) \<and> rep_ready w' \<and> und_sent w' = und_sent w"
proof -
  obtain r w1 where c: "und_cap_manage_clear_kv kv w = Some (r, w1)"
    using assms by (auto simp: und_target_report_reply_def split: option.splits)
  show ?thesis
    using assms clear_kv_keeps [OF c] unfolding und_target_report_reply_def c
    by (cases "rep_update w") (auto simp: Let_def sched_start_keeps split: if_splits)
qed

lemma no_reply: "\<not> received \<Longrightarrow> und_target_report_reply kv received w = Some w"
  by (simp add: und_target_report_reply_def)

text \<open>Building a report keeps the state, or sets UPDATE when the buffer was dropped.\<close>

lemma wireless_keeps: "rep_update (snd (und_package_wireless_info env w)) = rep_update w
    \<and> cap_targets (snd (und_package_wireless_info env w)) = cap_targets w
    \<and> und_sent (snd (und_package_wireless_info env w)) = und_sent w
    \<and> sch_armed (snd (und_package_wireless_info env w)) = sch_armed w
    \<and> rep_ready (snd (und_package_wireless_info env w)) = rep_ready w"
  by (cases "wireless_info env") (simp add: und_package_wireless_info_def und_update_report_cycle_def)

lemma package_elems_keeps:
  "rep_update (snd (snd (package_elems env i es n st w))) = rep_update w
   \<and> cap_targets (snd (snd (package_elems env i es n st w))) = cap_targets w
   \<and> und_sent (snd (snd (package_elems env i es n st w))) = und_sent w
   \<and> sch_armed (snd (snd (package_elems env i es n st w))) = sch_armed w
   \<and> rep_ready (snd (snd (package_elems env i es n st w))) = rep_ready w"
proof (induction es arbitrary: st w)
  case Nil
  then show ?case by simp
next
  case (Cons e es)
  obtain info w1 where w1: "und_package_wireless_info env w = (info, w1)" by fastforce
  obtain out len nf where st: "st = (out, len, nf)" by (rule prod_cases3)
  show ?case
    using wireless_keeps [of env w] Cons.IH by (simp add: st w1 Let_def snprintf_def)
qed

lemma package_targets_keeps:
  "rep_update (snd (package_targets env is n st w)) = rep_update w
   \<and> und_sent (snd (package_targets env is n st w)) = und_sent w
   \<and> sch_armed (snd (package_targets env is n st w)) = sch_armed w
   \<and> rep_ready (snd (package_targets env is n st w)) = rep_ready w"
proof (induction "is" arbitrary: st w)
  case Nil
  then show ?case by simp
next
  case (Cons i "is")
  show ?case
  proof (cases "\<exists>t. cap_targets w ! i = Some t \<and> 0 < ct_idx t")
    case False
    then show ?thesis using Cons.IH by (auto split: option.splits)
  next
    case True
    then obtain t where t: "cap_targets w ! i = Some t" "\<not> ct_idx t \<le> 0" by auto
    obtain st1 brk w1 where e: "package_elems env i (map (\<lambda>j. ct_caps t ! j) [0..<nat (ct_idx t)]) n st w
        = (st1, brk, w1)" by (rule prod_cases3)
    show ?thesis
      using t e package_elems_keeps [of env i "map (\<lambda>j. ct_caps t ! j) [0..<nat (ct_idx t)]" n st w]
        Cons.IH [of st1 w1] by simp
  qed
qed

lemma alloc_keeps [simp]:
  "rep_update (snd (und_alloc w)) = rep_update w" "und_sent (snd (und_alloc w)) = und_sent w"
  "sch_armed (snd (und_alloc w)) = sch_armed w" "rep_buf (snd (und_alloc w)) = rep_buf w"
  "cap_targets (snd (und_alloc w)) = cap_targets w" "rep_ready (snd (und_alloc w)) = rep_ready w"
  by (simp_all add: und_alloc_def)

definition rep_same :: "'s und_world \<Rightarrow> 's und_world \<Rightarrow> bool" where
  "rep_same w w' \<longleftrightarrow> rep_update w' = rep_update w \<and> und_sent w' = und_sent w \<and> sch_armed w' = sch_armed w
     \<and> rep_ready w' = rep_ready w"

lemma rep_same_refl [simp]: "rep_same w w"
  by (simp add: rep_same_def)

lemma rep_same_trans: "rep_same w w1 \<Longrightarrow> rep_same w1 w2 \<Longrightarrow> rep_same w w2"
  by (simp add: rep_same_def)

lemma package_capture_keeps:
  assumes "und_package_capture env n w = Some (l, out, w')"
  shows "rep_same w w'"
proof (cases "n > 1344 \<or> n < 1")
  case True
  then show ?thesis using assms by (auto simp: und_package_capture_def)
next
  case False
  obtain ok w1 where a: "und_alloc w = (ok, w1)" by fastforce
  obtain st w2 where p: "package_targets env [1..<6] n ([], 0, False) w1 = (st, w2)"
    by (rule prod.exhaust)
  have "w' = w1 \<or> w' = w2"
    using False assms unfolding und_package_capture_def Let_def a prod.case p
    by (cases st) (simp split: if_splits)
  then show ?thesis
    using package_targets_keeps [of env "[1..<6]" n "([], 0, False)" w1] alloc_keeps [of w] a p
    by (auto simp: rep_same_def)
qed

lemma collect_keeps:
  assumes "und_collect_package env n split ex w = Some (r, tx, w')"
  shows "rep_same w w'"
proof (cases "n > 1344 \<or> n < 1 \<or> \<not> cap_ready w \<or> \<not> ex")
  case True
  then show ?thesis using assms by (auto simp: und_collect_package_def split: if_splits)
next
  case False
  let ?l = "if split then 1 else 0 :: nat"
  obtain l out w1 where p: "und_package_capture env (n - ?l) w = Some (l, out, w1)"
    using assms False unfolding und_collect_package_def Let_def
    by (cases "und_package_capture env (n - ?l) w") auto
  have "w' = w1"
    using assms False p by (simp add: und_collect_package_def Let_def split: if_splits)
  then show ?thesis using package_capture_keeps [OF p] by simp
qed

lemma build_package_state:
  assumes "und_build_package env w = Some (r, w')"
  shows "und_sent w' = und_sent w \<and> sch_armed w' = sch_armed w \<and> rep_ready w' = rep_ready w
    \<and> rep_update w' = after_task False (buffer_full w) (rep_update w)"
proof -
  obtain w1 where w1: "(case rep_buf w of Some _ \<Rightarrow> w
      | None \<Rightarrow> let (ok, w') = und_alloc w in if ok then w'\<lparr>rep_buf := Some []\<rparr> else w') = w1" by blast
  have s1: "rep_same w w1"
    using w1 alloc_keeps [of w]
    by (cases "und_alloc w") (auto simp: rep_same_def split: option.splits if_splits)
  show ?thesis
  proof (cases "rep_buf w1")
    case None
    then have "rep_buf w = None" using w1 by (auto split: option.splits)
    then show ?thesis using assms w1 s1 None
      by (simp add: und_build_package_def rep_same_def after_task_def buffer_full_def)
  next
    case (Some b)
    have full: "buffer_full w \<longleftrightarrow> length b + 128 > 1344"
      using w1 Some alloc_keeps(4) [of w]
      by (cases "und_alloc w") (auto simp: buffer_full_def split: option.splits if_splits)
    let ?w2 = "if length b + 128 > 1344 then w1\<lparr>rep_buf := Some [], rep_update := UND_CAP_STATE_UPDATE\<rparr> else w1"
    let ?b = "the (rep_buf ?w2)"
    obtain r3 tx w3 where c: "und_collect_package env (1344 - length ?b) (length ?b \<noteq> 0)
        (rep_update ?w2 \<noteq> UND_CAP_STATE_INIT) ?w2 = Some (r3, tx, w3)"
      and w': "w' = w3\<lparr>rep_buf := Some (?b @ tx)\<rparr>"
      using assms w1 Some by (auto simp: und_build_package_def Let_def split: option.splits if_splits)
    show ?thesis using collect_keeps [OF c] s1 w' full by (auto simp: rep_same_def after_task_def split: if_splits)
  qed
qed

lemma build_package_keeps:
  assumes "und_build_package env w = Some (r, w')"
  shows "und_sent w' = und_sent w \<and> sch_armed w' = sch_armed w
    \<and> (rep_update w' = rep_update w \<or> rep_update w' = UND_CAP_STATE_UPDATE)"
  using build_package_state [OF assms] by (simp add: after_task_def)

section \<open>Reporting\<close>

lemma build_topic_keeps:
  "und_build_topic kv env sfx n w = Some (r, x, w') \<Longrightarrow> rep_same w w' \<and> rep_buf w' = rep_buf w"
  by (auto simp: und_build_topic_def rep_same_def snprintf_def Let_def split: if_splits option.splits)

lemma build_packet_keeps:
  "und_build_packet p n w = (r, x, w') \<Longrightarrow> rep_same w w' \<and> rep_buf w' = rep_buf w"
  by (auto simp: und_build_packet_def und_packet_id_def rep_same_def snprintf_def Let_def split: if_splits)

text \<open>The whole packet is longer than the text by 96 bytes at least.\<close>

lemma packet_overhead:
  assumes "und_build_packet_param b 1536 = (res, target)" "und_build_packet target 1536 w = (plen, pkt, w')"
    "length b + 61 < 1536"
  shows "plen \<ge> int (length b) + 96"
proof -
  have "target = str ''{\"p\":['' @ b @ str ''],\"model\":\"format=simple|quantity=batch|time=history\"}''"
    using assms(1,3) by (auto simp: und_build_packet_param_def snprintf_def)
  then have tl: "length target = length b + 60" by simp
  obtain id w1 where "und_packet_id w = (id, w1)" by fastforce
  moreover have "0 < length (dec_nat k)" for k by (simp add: dec_nat.simps [of k])
  then have "1 \<le> length (dec_nat (to_u 32 id))" by (simp add: Suc_le_eq)
  ultimately show ?thesis
    using assms(2) tl by (auto simp: und_build_packet_def snprintf_def)
qed

lemma conn_send_keeps:
  "und_conn_send env tp pkt len w = (r, w') \<Longrightarrow> rep_update w' = rep_update w \<and> sch_armed w' = sch_armed w
     \<and> rep_buf w' = rep_buf w \<and> rep_ready w' = rep_ready w \<and> (1344 < len \<longrightarrow> und_sent w' = und_sent w \<and> r \<noteq> 0)"
  by (auto simp: und_conn_send_def split: if_splits)

text \<open>The publish succeeded exactly when a packet went out and the client returned zero.\<close>

lemma conn_send_sent:
  "und_conn_send env tp pkt len w = (r, w') \<Longrightarrow>
     (und_sent w' = und_sent w \<or> und_sent w' = und_sent w @ [(tp, pkt)])
     \<and> (r = 0 \<longleftrightarrow> und_sent w' \<noteq> und_sent w \<and> ue_publish env = 0)"
  by (auto simp: und_conn_send_def split: if_splits)

text \<open>
  What the body of a report does after the package was built: nothing, or it sends the
  packet whose length is known.
\<close>

lemma report_body_cases:
  assumes run: "report_body kv env w = Some w'" and build: "und_build_package env w = Some (r, w1)"
  shows "rep_same w1 w' \<and> rep_buf w' = rep_buf w1
    \<or> (\<exists>b plen pkt tp w4 r3 w5. rep_buf w1 = Some b \<and> rep_same w1 w4 \<and> rep_buf w4 = rep_buf w1
        \<and> (length b + 61 < 1536 \<longrightarrow> int (length b) + 96 \<le> plen)
        \<and> und_conn_send env tp pkt plen w4 = (r3, w5)
        \<and> w' = (if r3 = 0 then w5\<lparr>rep_update := UND_CAP_STATE_REPORT, rep_buf := None\<rparr> else w5))"
proof (cases "rep_buf w1")
  case None
  then show ?thesis using run build by (simp add: report_body_def)
next
  case (Some b)
  let ?pkt = "take 1535 b"
  obtain res target where p: "und_build_packet_param ?pkt 1536 = (res, target)" by fastforce
  obtain plen pkt w2 where k: "und_build_packet target 1536 w1 = (plen, pkt, w2)" by (rule prod_cases3)
  note k2 = build_packet_keeps [OF k]
  have ov: "int (length b) + 96 \<le> plen" if "length b + 61 < 1536"
    using packet_overhead [OF _ k, of b res] p that by simp
  show ?thesis
  proof (cases "b = [] \<or> length b \<le> 3 \<or> res < 0")
    case True
    then have "w' = w1" using run build Some p
      by (auto simp: report_body_def snprintf_def split: if_splits)
    then show ?thesis by simp
  next
    case False
    show ?thesis
    proof (cases "plen < 0")
      case True
      then have "w' = w2" using run build Some p k False
        by (simp add: report_body_def snprintf_def split: if_splits)
      then show ?thesis using k2 by simp
    next
      case nonneg: False
      obtain r1 x1 w3 where t1: "und_build_topic kv env (str ''post_reply'') 192 w2 = Some (r1, x1, w3)"
        using run build Some p k False nonneg
        by (cases "und_build_topic kv env (str ''post_reply'') 192 w2")
          (auto simp: report_body_def snprintf_def simp del: str_simps)
      note t1k = build_topic_keeps [OF t1]
      have s3: "rep_same w1 w3 \<and> rep_buf w3 = rep_buf w1" using k2 t1k rep_same_trans by auto
      show ?thesis
      proof (cases "r1 < 0")
        case True
        then have "w' = w3" using run build Some p k False nonneg t1
          by (simp add: report_body_def snprintf_def del: str_simps)
        then show ?thesis using s3 by simp
      next
        case r1: False
        obtain r2 tp w4 where t2: "und_build_topic kv env (str ''post'') 192 w3 = Some (r2, tp, w4)"
          using run build Some p k False nonneg t1 r1
          by (cases "und_build_topic kv env (str ''post'') 192 w3")
            (auto simp: report_body_def snprintf_def simp del: str_simps)
        have s4: "rep_same w1 w4 \<and> rep_buf w4 = rep_buf w1"
          using s3 build_topic_keeps [OF t2] rep_same_trans by auto
        show ?thesis
        proof (cases "r2 < 0")
          case True
          then have "w' = w4" using run build Some p k False nonneg t1 r1 t2
            by (simp add: report_body_def snprintf_def del: str_simps)
          then show ?thesis using s4 by simp
        next
          case r2: False
          obtain r3 w5 where s: "und_conn_send env tp pkt plen w4 = (r3, w5)" by fastforce
          have "w' = (if r3 = 0 then w5\<lparr>rep_update := UND_CAP_STATE_REPORT, rep_buf := None\<rparr> else w5)"
            using run build Some p k False nonneg t1 r1 t2 r2 s
            by (simp add: report_body_def snprintf_def del: str_simps split: if_splits)
          then show ?thesis using s s4 ov Some by blast
        qed
      qed
    qed
  qed
qed

lemma report_body_build: "report_body kv env w = Some w' \<Longrightarrow> \<exists>r w1. und_build_package env w = Some (r, w1)"
  by (auto simp: report_body_def split: option.splits)

text \<open>A packet went out between two states, and the client took it.\<close>

definition packet_sent :: "und_env \<Rightarrow> 's und_world \<Rightarrow> 's und_world \<Rightarrow> bool" where
  "packet_sent env w w' \<longleftrightarrow> ue_publish env = 0 \<and> (\<exists>p. und_sent w' = und_sent w @ [p])"

lemma report_body_state:
  assumes "report_body kv env w = Some w'"
  shows "sch_armed w' = sch_armed w \<and> rep_ready w' = rep_ready w
    \<and> (und_sent w' = und_sent w \<or> (\<exists>p. und_sent w' = und_sent w @ [p]))
    \<and> rep_update w' = after_task (packet_sent env w w') (buffer_full w) (rep_update w)"
proof -
  obtain r w1 where b: "und_build_package env w = Some (r, w1)" using report_body_build [OF assms] by blast
  note s = build_package_state [OF b]
  from report_body_cases [OF assms b] show ?thesis
  proof (elim disjE exE conjE)
    assume "rep_same w1 w'"
    then show ?thesis using s by (auto simp: rep_same_def packet_sent_def after_task_def)
  next
    fix ba plen pkt tp w4 r3 w5
    assume a: "rep_same w1 w4" "und_conn_send env tp pkt plen w4 = (r3, w5)"
      "w' = (if r3 = 0 then w5\<lparr>rep_update := UND_CAP_STATE_REPORT, rep_buf := None\<rparr> else w5)"
    show ?thesis using s a(1,3) conn_send_keeps [OF a(2)] conn_send_sent [OF a(2)]
      by (auto simp: rep_same_def packet_sent_def after_task_def)
  qed
qed

text \<open>A package of 1249 bytes or more makes a packet that is never sent.\<close>

lemma oversized_not_sent:
  assumes run: "report_body kv env w = Some w'" and build: "und_build_package env w = Some (r, w1)"
    and b: "rep_buf w1 = Some b" "1249 \<le> length b" "length b < 1344"
  shows "und_sent w' = und_sent w \<and> rep_buf w' = Some b
    \<and> (rep_update w' = rep_update w \<or> rep_update w' = UND_CAP_STATE_UPDATE)"
  using report_body_cases [OF run build]
proof (elim disjE exE conjE)
  assume "rep_same w1 w'" "rep_buf w' = rep_buf w1"
  then show ?thesis using b build_package_keeps [OF build] by (auto simp: rep_same_def)
next
  fix ba plen pkt tp w4 r3 w5
  assume a: "rep_buf w1 = Some ba" "rep_same w1 w4" "rep_buf w4 = rep_buf w1"
    "length ba + 61 < 1536 \<longrightarrow> int (length ba) + 96 \<le> plen"
    "und_conn_send env tp pkt plen w4 = (r3, w5)"
    "w' = (if r3 = 0 then w5\<lparr>rep_update := UND_CAP_STATE_REPORT, rep_buf := None\<rparr> else w5)"
  then have "1344 < plen" using b by auto
  then show ?thesis using a b conn_send_keeps [OF a(5)] build_package_keeps [OF build]
    by (auto simp: rep_same_def)
qed

text \<open>A report that leaves the state INIT leaves the report timer stopped.\<close>

lemma report_stops_timer:
  assumes run: "und_targets_report kv env w = Some w'" and rdy: "rep_ready w" "0 < ue_connected env"
    and st: "rep_update w' \<noteq> UND_CAP_STATE_INIT"
  shows "sch_armed w' = None"
proof -
  let ?w0 = "w\<lparr>sch_armed := None\<rparr>"
  obtain ok1 w1 where a1: "und_alloc ?w0 = (ok1, w1)" by fastforce
  obtain ok2 w2 where a2: "und_alloc w1 = (ok2, w2)" by fastforce
  obtain ok3 w3 where a3: "und_alloc w2 = (ok3, w3)" by fastforce
  have s3: "sch_armed w3 = None"
    using alloc_keeps(3) [of ?w0] alloc_keeps(3) [of w1] alloc_keeps(3) [of w2] a1 a2 a3 by simp
  obtain w4 where w4: "(if ok1 \<and> ok2 \<and> ok3 then report_body kv env w3 else Some w3) = Some w4"
    and w': "w' = (if rep_update w4 = UND_CAP_STATE_INIT then snd (und_sched_start 600000 w4) else w4)"
    using run rdy a1 a2 a3
    by (auto simp: und_targets_report_def und_conn_is_connected_def Let_def split: option.splits)
  have "sch_armed w4 = None" using w4 s3 by (auto split: if_splits dest: report_body_state)
  then show ?thesis using w' st by (auto simp: sched_start_keeps)
qed

section \<open>Single calls\<close>

text \<open>
  The report task: without a connection, or without memory for its three buffers,
  nothing is sent and nothing is dropped.
\<close>

definition task_runs :: "und_env \<Rightarrow> 's und_world \<Rightarrow> bool" where
  "task_runs env w \<longleftrightarrow> 0 < ue_connected env \<and>
     (let (ok1, w1) = und_alloc w; (ok2, w2) = und_alloc w1; (ok3, w3) = und_alloc w2 in ok1 \<and> ok2 \<and> ok3)"

lemma task_state:
  assumes "und_targets_report kv env w = Some w'" "rep_ready w"
  shows "rep_ready w' \<and> (und_sent w' = und_sent w \<or> (\<exists>p. und_sent w' = und_sent w @ [p]))
    \<and> rep_update w' = after_task (packet_sent env w w') (task_runs env w \<and> buffer_full w) (rep_update w)"
proof (cases "0 < ue_connected env")
  case False
  then show ?thesis using assms
    by (auto simp: und_targets_report_def und_conn_is_connected_def sched_start_keeps packet_sent_def
        after_task_def task_runs_def)
next
  case True
  let ?w0 = "w\<lparr>sch_armed := None\<rparr>"
  obtain ok1 w1 where a1: "und_alloc ?w0 = (ok1, w1)" by fastforce
  obtain ok2 w2 where a2: "und_alloc w1 = (ok2, w2)" by fastforce
  obtain ok3 w3 where a3: "und_alloc w2 = (ok3, w3)" by fastforce
  have s3: "rep_update w3 = rep_update w" "und_sent w3 = und_sent w" "rep_buf w3 = rep_buf w" "rep_ready w3"
    using alloc_keeps [of ?w0] alloc_keeps [of w1] alloc_keeps [of w2] a1 a2 a3 assms(2) by simp_all
  have runs: "task_runs env w \<longleftrightarrow> ok1 \<and> ok2 \<and> ok3"
    using True a1 a2 a3 by (auto simp: task_runs_def und_alloc_def)
  obtain w4 where w4: "(if ok1 \<and> ok2 \<and> ok3 then report_body kv env w3 else Some w3) = Some w4"
    and w': "w' = (if rep_update w4 = UND_CAP_STATE_INIT then snd (und_sched_start 600000 w4) else w4)"
    using assms True a1 a2 a3
    by (auto simp: und_targets_report_def und_conn_is_connected_def Let_def split: option.splits)
  have p: "packet_sent env w w' = packet_sent env w3 w4" "rep_update w' = rep_update w4" "und_sent w' = und_sent w4"
    "rep_ready w' = rep_ready w4" "buffer_full w = buffer_full w3"
    using w' s3 by (auto simp: packet_sent_def buffer_full_def sched_start_keeps)
  have "(und_sent w4 = und_sent w3 \<or> (\<exists>p. und_sent w4 = und_sent w3 @ [p])) \<and> rep_ready w4
    \<and> rep_update w4 = after_task (packet_sent env w3 w4) (task_runs env w \<and> buffer_full w3) (rep_update w3)"
  proof (cases "ok1 \<and> ok2 \<and> ok3")
    case True
    then have "report_body kv env w3 = Some w4" using w4 by simp
    then show ?thesis using report_body_state [of kv env w3 w4] s3(4) True by (simp add: runs)
  next
    case False
    then have "w4 = w3" using w4 by (simp split: if_splits)
    then show ?thesis using False s3(4) by (auto simp: packet_sent_def runs after_task_def)
  qed
  then show ?thesis unfolding p s3(1,2) by blast
qed

lemma targets_report_state:
  assumes "und_targets_report kv env w = Some w'" "rep_ready w"
  shows "rep_update w' = rep_update w \<or> rep_update w' = UND_CAP_STATE_REPORT \<or> rep_update w' = UND_CAP_STATE_UPDATE"
  using task_state [OF assms] by (simp add: after_task_def)

section \<open>Sequences of calls\<close>

text \<open>The three calls that reach the state, and a sequence of them in the order of the mutex.\<close>

datatype report_call = Update_Call | Reply_Call bool | Task_Call und_env

fun run_call :: "'s kv_ops \<Rightarrow> report_call \<Rightarrow> 's und_world \<Rightarrow> 's und_world option" where
  "run_call kv Update_Call w = Some (snd (und_update_report w))"
| "run_call kv (Reply_Call received) w = und_target_report_reply kv received w"
| "run_call kv (Task_Call env) w = und_targets_report kv env w"

fun report_calls :: "'s kv_ops \<Rightarrow> report_call list \<Rightarrow> 's und_world \<Rightarrow> 's und_world option" where
  "report_calls kv [] w = Some w"
| "report_calls kv (c # cs) w = (case run_call kv c w of None \<Rightarrow> None | Some w1 \<Rightarrow> report_calls kv cs w1)"

lemma run_call_keeps:
  assumes "run_call kv c w = Some w1" "rep_ready w"
  shows "rep_ready w1 \<and> (\<exists>ps. und_sent w1 = und_sent w @ ps)"
proof (cases c)
  case Update_Call
  then show ?thesis using assms by (auto simp: update_state)
next
  case (Reply_Call received)
  then show ?thesis using assms reply_state [of kv w w1] no_reply [of received kv w] by (cases received) auto
next
  case (Task_Call env)
  then show ?thesis using assms task_state [of kv env w w1] by auto
qed

lemma report_calls_append:
  "report_calls kv (as @ bs) w = (case report_calls kv as w of None \<Rightarrow> None | Some w1 \<Rightarrow> report_calls kv bs w1)"
  by (induction "as" arbitrary: w) (auto split: option.splits)

text \<open>INIT is left alone by all calls but an update and a dropped buffer; it is entered by a reply only.\<close>

lemma enters_init:
  assumes "run_call kv c w = Some w1" "rep_ready w" "rep_update w1 = UND_CAP_STATE_INIT" "rep_update w \<noteq> UND_CAP_STATE_INIT"
  shows "c = Reply_Call True \<and> rep_update w = UND_CAP_STATE_REPORT"
proof (cases c)
  case Update_Call
  then show ?thesis using assms by (cases "rep_update w") (auto simp: update_state)
next
  case (Reply_Call received)
  then show ?thesis using assms reply_state [of kv w w1] no_reply [of received kv w]
    by (cases received; cases "rep_update w") auto
next
  case (Task_Call env)
  then show ?thesis using assms task_state [of kv env w w1] by (auto simp: after_task_def split: if_splits)
qed

lemma enters_resync:
  assumes "run_call kv c w = Some w1" "rep_ready w" "rep_update w1 = UND_CAP_STATE_RESYNC" "rep_update w \<noteq> UND_CAP_STATE_RESYNC"
  shows "c = Update_Call \<and> rep_update w = UND_CAP_STATE_REPORT"
proof (cases c)
  case Update_Call
  then show ?thesis using assms by (cases "rep_update w") (auto simp: update_state)
next
  case (Reply_Call received)
  then show ?thesis using assms reply_state [of kv w w1] no_reply [of received kv w]
    by (cases received; cases "rep_update w") auto
next
  case (Task_Call env)
  then show ?thesis using assms task_state [of kv env w w1] by (auto simp: after_task_def split: if_splits)
qed

lemma enters_report:
  assumes "run_call kv c w = Some w1" "rep_ready w" "rep_update w1 = UND_CAP_STATE_REPORT" "rep_update w \<noteq> UND_CAP_STATE_REPORT"
  shows "\<exists>env. c = Task_Call env \<and> packet_sent env w w1"
proof (cases c)
  case Update_Call
  then show ?thesis using assms by (cases "rep_update w") (auto simp: update_state)
next
  case (Reply_Call received)
  then show ?thesis using assms reply_state [of kv w w1] no_reply [of received kv w]
    by (cases received; cases "rep_update w") auto
next
  case (Task_Call env)
  then show ?thesis using assms task_state [of kv env w w1] by (auto simp: after_task_def split: if_splits)
qed

lemma entered:
  assumes "run_call kv c w = Some w1" "rep_ready w" "rep_update w1 \<noteq> rep_update w"
  shows "(rep_update w1 = UND_CAP_STATE_RESYNC \<longrightarrow> c = Update_Call \<and> rep_update w = UND_CAP_STATE_REPORT)
    \<and> (rep_update w1 = UND_CAP_STATE_INIT \<longrightarrow> c = Reply_Call True \<and> rep_update w = UND_CAP_STATE_REPORT)
    \<and> (rep_update w1 = UND_CAP_STATE_REPORT \<longrightarrow> (\<exists>env. c = Task_Call env \<and> packet_sent env w w1))"
  using enters_resync [OF assms(1,2)] enters_init [OF assms(1,2)] enters_report [OF assms(1,2)] assms(3)
  by (metis (full_types))

text \<open>A run that leaves a set of states passes a call that leaves it.\<close>

lemma run_enters:
  assumes "report_calls kv cs w = Some w'" "rep_ready w" "rep_update w \<noteq> u" "rep_update w' = u"
  shows "\<exists>as c bs w1 w2. cs = as @ c # bs \<and> report_calls kv as w = Some w1 \<and> rep_ready w1 \<and> rep_update w1 \<noteq> u
    \<and> run_call kv c w1 = Some w2 \<and> rep_update w2 = u"
  using assms
proof (induction cs arbitrary: w)
  case Nil
  then show ?case by simp
next
  case (Cons c cs)
  obtain w1 where w1: "run_call kv c w = Some w1" "report_calls kv cs w1 = Some w'"
    using Cons.prems(1) by (auto split: option.splits)
  show ?case
  proof (cases "rep_update w1 = u")
    case True
    then have "c # cs = [] @ c # cs \<and> report_calls kv [] w = Some w \<and> rep_ready w \<and> rep_update w \<noteq> u
      \<and> run_call kv c w = Some w1 \<and> rep_update w1 = u" using Cons.prems w1 by simp
    then show ?thesis by blast
  next
    case False
    obtain as d bs v1 v2 where i: "cs = as @ d # bs" "report_calls kv as w1 = Some v1" "rep_ready v1"
      "rep_update v1 \<noteq> u" "run_call kv d v1 = Some v2" "rep_update v2 = u"
      using Cons.IH [OF w1(2) _ False Cons.prems(4)] run_call_keeps [OF w1(1) Cons.prems(2)] by blast
    then have "c # cs = (c # as) @ d # bs \<and> report_calls kv (c # as) w = Some v1 \<and> rep_ready v1 \<and> rep_update v1 \<noteq> u
      \<and> run_call kv d v1 = Some v2 \<and> rep_update v2 = u" using w1(1) by simp
    then show ?thesis by blast
  qed
qed

text \<open>After an update the component is idle again only when a report was sent and then answered.\<close>

lemma update_reported:
  assumes "report_calls kv cs (snd (und_update_report w)) = Some w'" "rep_ready w" "rep_update w' = UND_CAP_STATE_INIT"
  shows "\<exists>as env bs ds w1 w2. cs = as @ Task_Call env # bs @ Reply_Call True # ds
    \<and> report_calls kv as (snd (und_update_report w)) = Some w1 \<and> und_targets_report kv env w1 = Some w2 \<and> packet_sent env w1 w2"
proof -
  let ?w = "snd (und_update_report w)"
  have w: "rep_ready ?w" "rep_update ?w \<noteq> UND_CAP_STATE_INIT" "rep_update ?w \<noteq> UND_CAP_STATE_REPORT"
    using assms(2) by (cases "rep_update w"; simp add: update_state)+
  obtain as c ds v1 v2 where i: "cs = as @ c # ds" "report_calls kv as ?w = Some v1" "rep_ready v1"
    "rep_update v1 \<noteq> UND_CAP_STATE_INIT" "run_call kv c v1 = Some v2" "rep_update v2 = UND_CAP_STATE_INIT"
    using run_enters [OF assms(1) w(1,2) assms(3)] by blast
  have c: "c = Reply_Call True" "rep_update v1 = UND_CAP_STATE_REPORT" using enters_init [OF i(5,3,6,4)] by simp_all
  obtain a2 d bs u1 u2 where j: "as = a2 @ d # bs" "report_calls kv a2 ?w = Some u1" "rep_ready u1"
    "rep_update u1 \<noteq> UND_CAP_STATE_REPORT" "run_call kv d u1 = Some u2" "rep_update u2 = UND_CAP_STATE_REPORT"
    using run_enters [OF i(2) w(1,3) c(2)] by blast
  obtain env where d: "d = Task_Call env" "packet_sent env u1 u2" using enters_report [OF j(5,3,6,4)] by blast
  have "cs = a2 @ Task_Call env # bs @ Reply_Call True # ds" using i(1) j(1) c(1) d(1) by simp
  then show ?thesis using j(2,5) d by auto
qed

lemma update_counts:
  assumes "cap_ready w" "i < UND_TARGETS" "cap_targets w ! i = Some t" "cap_ok t"
    and "- (2 ^ 31) \<le> r" "r < 2 ^ 31" "captured (Some t) r < 2 ^ 32 - 1"
    and "und_update_cap (int i) r wb w = (UND_SUCCESS, w')"
  shows "\<exists>t'. cap_targets w' = (cap_targets w)[i := Some t'] \<and> cap_ok t'
     \<and> (\<forall>q. captured (Some t') q = captured (Some t) q + (if q = r then 1 else 0))"
proof -
  obtain t' where b: "bump r t = Some t'" and w': "cap_targets w' = (cap_targets w)[i := Some t']"
    using assms(8) unfolding update_cap_ready [OF assms(1-3)]
    by (auto simp: Let_def split: option.splits if_splits)
  have "ce_cnt (ct_caps t ! j) < 2 ^ 32 - 1" if "j < nat (ct_idx t)" "ce_reason (ct_caps t ! j) = r" for j
  proof -
    have "find (\<lambda>i. ce_reason (ct_caps t ! i) = r) [0..<nat (ct_idx t)] = Some j"
      using find_reason [OF cap_ok_len(3) [OF assms(4)] _ that(1)] cap_ok_len [OF assms(4)] that(2) by simp
    then show ?thesis using assms(7) by (simp add: captured_def)
  qed
  from bump_ok [OF assms(4,5,6) b this] have "cap_ok t'" .
  then show ?thesis using w' bump_captured [OF assms(4) b assms(7)] by blast
qed

end
