(* ===== verification/Und_Demo.thy ===== *)
theory Und_Demo
  imports Und_Machine
begin

text \<open>
  Concrete states of the file store and of the diagnosis component: a fresh file, and
  captures in memory over it. The examples of the development use them.
\<close>

section \<open>A fresh file\<close>

definition lk_blank :: lk_world where
  "lk_blank = \<lparr>lk_rows = None, lk_handle = False, lk_alloc = (\<lambda>_. True), lk_allocs = 0,
     lk_io = (\<lambda>_. Io_ok), lk_ios = 0\<rparr>"

definition lk_demo :: lk_world where
  "lk_demo = snd (kv_open lk_blank)"

lemma lk_demo_facts:
  "kv_open lk_blank = (True, lk_demo)" "lk_holds lk_demo Map.empty"
  "lk_rows lk_demo = Some (replicate 384 empty_row)" "lk_healthy lk_demo" "lk_handle lk_demo"
proof -
  have "\<exists>w'. kv_open lk_blank = (True, w') \<and> lk_holds w' Map.empty
     \<and> lk_rows w' = Some (replicate 384 empty_row)"
    by (rule kv_open_fresh) (simp_all add: lk_blank_def lk_healthy_def)
  then show "kv_open lk_blank = (True, lk_demo)" "lk_holds lk_demo Map.empty"
    "lk_rows lk_demo = Some (replicate 384 empty_row)" "lk_healthy lk_demo" "lk_handle lk_demo"
    by (auto simp: lk_demo_def lk_holds_def)
qed

lemma lk_demo_set:
  assumes "0 < length v" "length v \<le> 512" "length k \<le> 127"
  shows "\<exists>w'. amp_kv_set (Some k) (Some v) (int (length v)) lk_demo = (0, w')
     \<and> lk_holds w' [k \<mapsto> v]"
proof -
  have row: "replicate 384 empty_row ! hash_gen k = [zero_slot, zero_slot]"
    by (simp add: empty_row_def numeral_2_eq_2)
  obtain w' where w': "amp_kv_set (Some k) (Some v) (int (length v)) lk_demo = (0, w')"
    using set_healthy [OF lk_demo_facts(4,5,3) _ assms(1,2), of k] row by (simp add: zero_slot_def)
  have "lk_key_ok k" "lk_val_ok v" using assms by (simp_all add: lk_key_ok_def lk_val_ok_def)
  from lk_set_contract [OF lk_demo_facts(2) this w'] w' show ?thesis by simp
qed

text \<open>The operations of the file store for the diagnosis component.\<close>

definition lk_del_op :: "byte list \<Rightarrow> lk_world \<Rightarrow> (int \<times> lk_world) option" where
  "lk_del_op k w = Some (amp_kv_del (Some k) w)"

definition lk_ops :: "lk_world kv_ops" where
  "lk_ops = store_ops lk_set_op lk_get_op lk_del_op"

lemma lk_und_keys: "\<forall>i<6. lk_key_ok (und_kv_key i)"
  by (simp add: lk_key_ok_def und_kv_key_small)

lemma lk_target_val: "cap_ok t \<Longrightarrow> lk_val_ok (enc_target t)"
  using length_enc_target [OF cap_ok_len(1)] by (simp add: lk_val_ok_def und_target_len_def)

section \<open>Captures\<close>

definition demo_target :: cap_target where
  "demo_target = \<lparr>ct_size = 8, ct_idx = 1,
     ct_caps = \<lparr>ce_cnt = 2, ce_reason = 5\<rparr> # replicate 7 \<lparr>ce_cnt = 0, ce_reason = 0\<rparr>\<rparr>"

lemma demo_target_ok: "cap_ok demo_target"
  by (auto simp: cap_ok_def demo_target_def nth_Cons')

definition und_blank :: "lk_world und_world" where
  "und_blank = \<lparr>uw_store = lk_demo, uw_alloc = (\<lambda>_. True), uw_allocs = 0, und_ready = False,
     cap_ready = False, cap_targets = replicate 6 None, cap_wb = replicate 6 False, cap_save = False,
     cap_save_armed = None, sch_ready = False, sch_armed = None, pkt_ready = False, pkt_id = 0,
     rep_ready = False, rep_buf = None, rep_update = UND_CAP_STATE_INIT, rep_fast = False, und_sent = []\<rparr>"

text \<open>One target with a capture that is to be written.\<close>

definition und_demo :: "lk_world und_world" where
  "und_demo = und_blank\<lparr>und_ready := True, cap_ready := True, cap_targets := (replicate 6 None)[1 := Some demo_target],
     cap_wb := (replicate 6 False)[1 := True], sch_ready := True, pkt_ready := True, pkt_id := 1,
     rep_ready := True, rep_update := UND_CAP_STATE_UPDATE\<rparr>"

lemma und_demo_save:
  "\<exists>w1. und_cap_manage_save_task lk_ops und_demo = Some w1 \<and> cap_save_armed w1 = None"
proof -
  have l: "length (enc_target demo_target) = 68"
    using length_enc_target [OF cap_ok_len(1) [OF demo_target_ok]] by (simp add: und_target_len_def)
  have "length (und_kv_key 1) \<le> 127" by (simp add: und_kv_key_small)
  with lk_demo_set [of "enc_target demo_target" "und_kv_key 1"] l obtain s where
    "amp_kv_set (Some (und_kv_key 1)) (Some (enc_target demo_target)) 68 lk_demo = (0, s)" by auto
  then have s: "lk_set_op (und_kv_key (Suc 0)) (enc_target demo_target) lk_demo = Some (0, s)"
    using l by (simp add: lk_set_op_def)
  have u: "[0..<6] = [0, 1, 2, 3, 4, 5 :: nat]" by (simp add: upt_rec)
  show ?thesis
    by (simp add: und_cap_manage_save_task_def u und_demo_def und_blank_def lk_ops_def s)
qed

section \<open>Reports\<close>

definition und_demo_env :: und_env where
  "und_demo_env = \<lparr>ue_connected = 1, ue_subscribe = 0, ue_publish = 0, ue_device_name = str ''dev'',
     ue_wireless = None, ue_before = 0\<rparr>"

text \<open>The text for the capture of \<open>demo_target\<close>.\<close>

definition demo_text :: "byte list" where
  "demo_text = capture_text (-1, 80, 0) 1 \<lparr>ce_cnt = 2, ce_reason = 5\<rparr>"

lemma length_demo_text: "length demo_text = 70"
  by (simp add: demo_text_def capture_text_def hex2_def dec_int_def dec_nat_small)
    (simp add: dec_nat.simps)

lemma package_demo:
  assumes "cap_ready w" "cap_targets w = (replicate 6 None)[1 := Some demo_target]" "uw_alloc w (uw_allocs w)"
    "rep_ready w" "n \<le> 1344" "100 \<le> n"
  shows "\<exists>w'. und_package_capture und_demo_env n w = Some (70, demo_text, w') \<and> pkt_ready w' = pkt_ready w \<and> pkt_id w' = pkt_id w"
proof -
  have t: "capture_text (-1, 80, 0) (Suc 0) \<lparr>ce_cnt = 2, ce_reason = 5\<rparr> = demo_text"
    by (simp add: demo_text_def)
  have l: "length demo_text = 70" by (rule length_demo_text)
  have u: "[Suc 0..<6] = [1, 2, 3, 4, 5 :: nat]" by (simp add: upt_rec)
  have z: "size_arg (int n) = n" using size_arg_nonneg [of 0 n] assms(5) by simp
  show ?thesis
    using assms l t z
    by (simp add: und_package_capture_def Let_def und_alloc_def u demo_target_def
        und_package_wireless_info_def wireless_info_def und_demo_env_def snprintf_def
        und_update_report_cycle_def write_at_def)
qed

text \<open>A state with 1210 bytes of an earlier report in the buffer.\<close>

definition und_demo_sent :: "lk_world und_world" where
  "und_demo_sent = und_demo\<lparr>rep_buf := Some (replicate 1210 48)\<rparr>"

lemma und_demo_build:
  "\<exists>r w' b'. und_build_package und_demo_env und_demo_sent = Some (r, w') \<and> rep_buf w' = Some b' \<and> length b' = 1281"
proof -
  have cap: "\<exists>w'. und_package_capture und_demo_env 133 und_demo_sent = Some (70, demo_text, w')"
    using package_demo [of und_demo_sent 133] by (auto simp: und_demo_sent_def und_demo_def und_blank_def)
  then obtain w' where w': "und_package_capture und_demo_env 133 und_demo_sent = Some (70, demo_text, w')" ..
  have s: "rep_buf und_demo_sent = Some (replicate 1210 48)" "cap_ready und_demo_sent"
    "rep_update und_demo_sent = UND_CAP_STATE_UPDATE"
    by (simp_all add: und_demo_sent_def und_demo_def)
  show ?thesis
    using w' s length_demo_text
    by (simp add: und_build_package_def und_collect_package_def Let_def)
qed

text \<open>The operations of the file store always return, so the calls over them do.\<close>

lemma lk_ops_simps [simp]:
  "kvo_set lk_ops = lk_set_op" "kvo_get lk_ops = lk_get_op" "kvo_del lk_ops = lk_del_op"
  by (simp_all add: lk_ops_def)

lemma lk_del_keys_total: "\<exists>s'. del_keys lk_ops is s = Some s'"
  by (induction "is" arbitrary: s) (auto simp: lk_del_op_def split: prod.splits)

lemma lk_reply_total: "\<exists>w'. und_target_report_reply lk_ops received w = Some w'"
  using lk_del_keys_total [of "[0..<6]" "uw_store w"]
  by (auto simp: und_target_report_reply_def und_cap_manage_clear_kv_def Let_def)

lemma lk_topic_None [simp]: "und_build_topic lk_ops env sfx n w \<noteq> None"
  by (simp add: und_build_topic_def lk_get_op_def Let_def snprintf_def split: prod.splits)

lemma lk_report_total:
  assumes "und_build_package env w = Some (r, w1)"
  shows "\<exists>w'. report_body lk_ops env w = Some w'"
proof -
  have "report_body lk_ops env w \<noteq> None"
    using assms lk_topic_None [simplified not_None_eq]
    by (auto simp: report_body_def Let_def snprintf_def simp del: str_simps not_None_eq
        split: prod.splits option.splits)
  then show ?thesis by simp
qed

lemma und_demo_report: "\<exists>w'. und_targets_report lk_ops und_demo_env und_demo_sent = Some w'"
proof -
  let ?w3 = "und_demo_sent\<lparr>sch_armed := None, uw_allocs := Suc (Suc (Suc (uw_allocs und_demo_sent)))\<rparr>"
  have al: "uw_alloc und_demo_sent i" for i by (simp add: und_demo_sent_def und_demo_def und_blank_def)
  obtain w' where w': "und_package_capture und_demo_env 133 ?w3 = Some (70, demo_text, w')"
    using package_demo [of ?w3 133] by (auto simp: und_demo_sent_def und_demo_def und_blank_def)
  have s: "rep_buf ?w3 = Some (replicate 1210 48)" "cap_ready ?w3" "rep_update ?w3 = UND_CAP_STATE_UPDATE"
    by (simp_all add: und_demo_sent_def und_demo_def)
  have "\<exists>r w1. und_build_package und_demo_env ?w3 = Some (r, w1)"
    using w' s by (simp add: und_build_package_def und_collect_package_def Let_def)
  then obtain w4 where "report_body lk_ops und_demo_env ?w3 = Some w4" using lk_report_total by blast
  moreover have "rep_ready und_demo_sent" by (simp add: und_demo_sent_def und_demo_def)
  ultimately show ?thesis
    using al by (simp add: und_targets_report_def und_conn_is_connected_def und_demo_env_def und_alloc_def Let_def)
qed

text \<open>A run: the report task sends the captures, the answer comes back.\<close>

definition und_demo_calls :: "report_call list" where
  "und_demo_calls = [Task_Call und_demo_env, Reply_Call True]"

lemma lk_topic_some:
  "\<exists>r x w'. und_build_topic lk_ops env sfx 192 w = Some (r, x, w') \<and> 0 \<le> r"
  by (simp add: und_build_topic_def lk_get_op_def Let_def snprintf_def split: prod.splits)

lemma demo_body:
  assumes "und_package_capture und_demo_env 1344 w = Some (70, demo_text, w1)" "rep_buf w = Some []"
    "cap_ready w" "rep_update w \<noteq> UND_CAP_STATE_INIT" "pkt_ready w1" "pkt_id w1 = 1"
  shows "\<exists>w'. report_body lk_ops und_demo_env w = Some w' \<and> rep_update w' = UND_CAP_STATE_REPORT"
proof -
  note l = length_demo_text
  have ne: "demo_text \<noteq> []" using l by auto
  let ?w1 = "w1\<lparr>rep_buf := Some demo_text\<rparr>"
  have b: "und_build_package und_demo_env w = Some (70, ?w1)"
    using assms by (simp add: und_build_package_def und_collect_package_def Let_def)
  obtain res target where p: "und_build_packet_param demo_text 1536 = (res, target)" by fastforce
  have tl: "length target = 130" "0 \<le> res" using p l by (auto simp: und_build_packet_param_def snprintf_def)
  obtain plen pkt w2 where k: "und_build_packet target 1536 ?w1 = (plen, pkt, w2)" by (rule prod_cases3)
  have id: "dec_nat (to_u 32 1) = [49]" by (simp add: to_u_def dec_nat_small)
  have pl: "1 \<le> plen" "plen \<le> 1344"
    using k tl assms(5,6) id by (auto simp: und_build_packet_def und_packet_id_def snprintf_def)
  obtain r1 x1 w3 where t1: "und_build_topic lk_ops und_demo_env (str ''post_reply'') 192 w2 = Some (r1, x1, w3)" "0 \<le> r1"
    using lk_topic_some by blast
  obtain r2 x2 w4 where t2: "und_build_topic lk_ops und_demo_env (str ''post'') 192 w3 = Some (r2, x2, w4)" "0 \<le> r2"
    using lk_topic_some by blast
  have s: "und_conn_send und_demo_env x2 pkt plen w4 = (0, w4\<lparr>und_sent := und_sent w4 @ [(x2, pkt)]\<rparr>)"
    using pl by (simp add: und_conn_send_def und_demo_env_def)
  have "rep_buf ?w1 = Some demo_text" by simp
  moreover have "take 1535 demo_text = demo_text" using l by simp
  ultimately show ?thesis using b p k tl(2) pl t1 t2 s l ne
    by (simp add: report_body_def snprintf_def del: str_simps)
qed

definition und_demo_empty :: "lk_world und_world" where
  "und_demo_empty = und_demo\<lparr>rep_buf := Some []\<rparr>"

lemma und_demo_calls_run:
  "\<exists>w'. report_calls lk_ops und_demo_calls (snd (und_update_report und_demo_empty)) = Some w'
     \<and> rep_update w' = UND_CAP_STATE_INIT"
proof -
  let ?w = und_demo_empty
  let ?w3 = "?w\<lparr>sch_armed := None, uw_allocs := Suc (Suc (Suc (uw_allocs ?w)))\<rparr>"
  have r: "rep_ready ?w" "rep_update ?w = UND_CAP_STATE_UPDATE" by (simp_all add: und_demo_empty_def und_demo_def)
  then have u: "snd (und_update_report ?w) = ?w" by (simp add: update_state)
  have al: "uw_alloc ?w i" for i by (simp add: und_demo_empty_def und_demo_def und_blank_def)
  have s: "rep_buf ?w3 = Some []" "cap_ready ?w3" "rep_update ?w3 \<noteq> UND_CAP_STATE_INIT"
    by (simp_all add: und_demo_empty_def und_demo_def)
  obtain w1 where w1: "und_package_capture und_demo_env 1344 ?w3 = Some (70, demo_text, w1)" "pkt_ready w1" "pkt_id w1 = 1"
    using package_demo [of ?w3 1344] by (auto simp: und_demo_empty_def und_demo_def und_blank_def)
  obtain w2 where w2: "report_body lk_ops und_demo_env ?w3 = Some w2" "rep_update w2 = UND_CAP_STATE_REPORT"
    using demo_body [OF w1(1) s w1(2,3)] by blast
  then have t: "und_targets_report lk_ops und_demo_env ?w = Some w2"
    using al r by (simp add: und_targets_report_def und_conn_is_connected_def und_demo_env_def und_alloc_def Let_def)
  have r2: "rep_ready w2" using task_state [OF t r(1)] by simp
  obtain w3 where w3: "und_target_report_reply lk_ops True w2 = Some w3" using lk_reply_total by blast
  then have "rep_update w3 = UND_CAP_STATE_INIT" using reply_state [OF w3 r2] w2(2) by simp
  then show ?thesis using u t w3 by (simp add: und_demo_calls_def)
qed

lemma demo_collision: "hash_gen [65] = hash_gen [35, 62]"
  by (simp add: hash_gen_def hash_step_def)

end
