(* ===== verification/Ymodem.thy ===== *)
theory Ymodem
  imports Crc
begin

text \<open>
  services/recovery/ymodem.c: the YMODEM receiver that takes a new application over
  the serial line. The line is a list of what the calls of \<open>uart_recv_byte\<close> find: a
  byte, or nothing before the time-out; after the list the line is idle. The buffers,
  whose allocation the code does not check, are assumed to exist.
\<close>

section \<open>Constants and state\<close>

abbreviation (input) YMODEM_OK :: int where "YMODEM_OK \<equiv> 0"
abbreviation (input) YMODEM_ERR :: int where "YMODEM_ERR \<equiv> -1"
abbreviation (input) YMODEM_FILE_TOOBIG :: int where "YMODEM_FILE_TOOBIG \<equiv> -2"

abbreviation (input) YMODEM_SOH :: byte where "YMODEM_SOH \<equiv> 0x01"
abbreviation (input) YMODEM_STX :: byte where "YMODEM_STX \<equiv> 0x02"
abbreviation (input) YMODEM_EOT :: byte where "YMODEM_EOT \<equiv> 0x04"
abbreviation (input) YMODEM_ACK :: byte where "YMODEM_ACK \<equiv> 0x06"
abbreviation (input) YMODEM_NAK :: byte where "YMODEM_NAK \<equiv> 0x15"
abbreviation (input) YMODEM_CCHAR :: byte where "YMODEM_CCHAR \<equiv> 0x43"
abbreviation (input) UART_RECV_TIMEOUT :: nat where "UART_RECV_TIMEOUT \<equiv> 400000"
abbreviation (input) YMODEM_ERR_NAK_NUM :: nat where "YMODEM_ERR_NAK_NUM \<equiv> 5"
abbreviation (input) ymodem_max_write_size :: nat where "ymodem_max_write_size \<equiv> 41943040"

datatype ym_phase = YMODEM_STATE_INIT | YMODEM_STATE_WAIT_HEAD | YMODEM_STATE_WAIT_DATA
  | YMODEM_STATE_WAIT_END | YMODEM_STATE_WAIT_NEXT

record ym_world =
  uart_in :: "byte option list"
  uart_out :: "byte list"
  ymodem_written :: "byte list list"
  ymodem_flash_size :: nat

record ym_state =
  ym_phase :: ym_phase
  ym_i :: nat
  ym_end_flag :: bool
  ym_c :: byte

definition uart_send_byte :: "byte \<Rightarrow> ym_world \<Rightarrow> ym_world" where
  "uart_send_byte c w = w\<lparr>uart_out := uart_out w @ [c]\<rparr>"

section \<open>CRC-16\<close>

definition crc16_step :: "32 word \<times> 32 word \<Rightarrow> 32 word \<times> 32 word" where
  "crc16_step st =
     (let crc = push_bit 1 (fst st);
          inw = push_bit 1 (snd st);
          crc1 = (if inw AND 0x100 \<noteq> 0 then crc + 1 else crc);
          crc2 = (if crc1 AND 0x10000 \<noteq> 0 then crc1 XOR 0x1021 else crc1)
      in (crc2, inw))"

text \<open>The do-while loop; \<open>in\<close> has one bit above the byte, which ends it after 8 rounds.\<close>

fun crc16_loop :: "nat \<Rightarrow> 32 word \<times> 32 word \<Rightarrow> 32 word option" where
  "crc16_loop 0 st = None"
| "crc16_loop (Suc fuel) st =
     (let st' = crc16_step st
      in if snd st' AND 0x10000 \<noteq> 0 then Some (fst st') else crc16_loop fuel st')"

definition UpdateCRC16 :: "16 word \<Rightarrow> byte \<Rightarrow> 16 word" where
  "UpdateCRC16 crcIn b = ucast (the (crc16_loop 8 (ucast crcIn, ucast b OR 0x100)))"

definition CRC16_Update :: "16 word \<Rightarrow> byte list \<Rightarrow> 16 word" where
  "CRC16_Update crc src = foldl UpdateCRC16 crc src"

definition CRC16_Final :: "16 word \<Rightarrow> 16 word" where
  "CRC16_Final crc = UpdateCRC16 (UpdateCRC16 crc 0) 0"

definition crc16_computer :: "byte list \<Rightarrow> 16 word" where
  "crc16_computer buf = CRC16_Final (CRC16_Update 0 buf)"

section \<open>Reading\<close>

text \<open>\<open>buf\<close> is the memory from the pointer on; the loop may look at two bytes more than
  \<open>buf_len\<close> after the prefix 0x.\<close>

fun str2int_loop :: "int \<Rightarrow> nat \<Rightarrow> byte list \<Rightarrow> int \<Rightarrow> int" where
  "str2int_loop type 0 buf val = val"
| "str2int_loop type (Suc n) [] val = val"
| "str2int_loop type (Suc n) (b # buf) val =
     (if b = 0 then val
      else if 48 \<le> b \<and> b \<le> 57 then str2int_loop type n buf (s32 (val * type + uint b - 48))
      else if type = 10 then val
      else if 65 \<le> b \<and> b \<le> 70 then str2int_loop type n buf (s32 (val * 16 + uint b - 65 + 10))
      else if 97 \<le> b \<and> b \<le> 102 then str2int_loop type n buf (s32 (val * 16 + uint b - 97 + 10))
      else val)"

definition ymodem_str2int :: "byte list \<Rightarrow> nat \<Rightarrow> nat" where
  "ymodem_str2int buf buf_len =
     nat ((if buf ! 0 = 48 \<and> (buf ! 1 = 120 \<or> buf ! 1 = 88)
           then str2int_loop 16 buf_len (drop 2 buf) 0
           else str2int_loop 10 buf_len buf 0) mod 4294967296)"

text \<open>The bytes that \<open>ymodem_recv_bytes\<close> puts into the buffer and the rest of the line.\<close>

fun recv_bytes :: "nat \<Rightarrow> nat \<Rightarrow> byte option list \<Rightarrow> byte list \<times> byte option list" where
  "recv_bytes n t [] = ([], [])"
| "recv_bytes n t (x # xs) =
     (if n = 0 \<or> t = 0 then ([], x # xs)
      else (case x of
          None \<Rightarrow> recv_bytes n (t - 1) xs
        | Some c \<Rightarrow> let (cs, r) = recv_bytes (n - 1) (t - 1) xs in (c # cs, r)))"

definition ymodem_recv_bytes :: "nat \<Rightarrow> nat \<Rightarrow> ym_world \<Rightarrow> byte list \<times> ym_world" where
  "ymodem_recv_bytes nbytes timeout w =
     (let (cs, r) = recv_bytes nbytes timeout (uart_in w) in (cs, w\<lparr>uart_in := r\<rparr>))"

section \<open>Blocks\<close>

definition block_len :: "byte \<Rightarrow> nat" where
  "block_len data_type = (if data_type = YMODEM_SOH then 128 else 1024) + 4"

text \<open>The two CRC bytes at the end of a block against the payload.\<close>

definition block_crc_ok :: "byte list \<Rightarrow> bool" where
  "block_crc_ok buffer =
     (let n = length buffer;
          crc = crc16_computer (take (n - 4) (drop 2 buffer))
      in ucast (drop_bit 8 crc) = buffer ! (n - 2) \<and> ucast (crc AND 0xFF) = buffer ! (n - 1))"

text \<open>
  The loop over the header that looks for the two zero bytes around the file length:
  the code to leave with (\<open>Inl\<close>) or the file size, when one was found (\<open>Inr\<close>).
\<close>

fun head_scan :: "byte list \<Rightarrow> nat list \<Rightarrow> nat \<Rightarrow> (int \<times> nat option) + nat option" where
  "head_scan buffer [] lp = Inr None"
| "head_scan buffer (i # is) lp =
     (if buffer ! i = 0 \<and> lp = 0 then head_scan buffer is (i + 1)
      else if buffer ! i = 0 \<and> lp \<noteq> 0 then
        (let val = ymodem_str2int (drop lp buffer) (i - lp)
         in if val = 0 then Inl (YMODEM_ERR, None)
            else if val > ymodem_max_write_size then Inl (YMODEM_FILE_TOOBIG, Some val)
            else Inr (Some val))
      else head_scan buffer is lp)"

definition set_flash_size :: "nat option \<Rightarrow> ym_world \<Rightarrow> ym_world" where
  "set_flash_size s w = (case s of None \<Rightarrow> w | Some v \<Rightarrow> w\<lparr>ymodem_flash_size := v\<rparr>)"

definition ymodem_data_head_parse :: "byte \<Rightarrow> ym_world \<Rightarrow> int \<times> ym_world" where
  "ymodem_data_head_parse data_type w =
     (let buf_len = block_len data_type;
          (buffer, w1) = ymodem_recv_bytes buf_len UART_RECV_TIMEOUT w
      in if buf_len \<noteq> length buffer \<or> buffer ! 0 \<noteq> 0 \<or> buffer ! 1 \<noteq> 0xFF then (YMODEM_ERR, w1)
         else if \<not> block_crc_ok buffer then (YMODEM_ERR, w1)
         else (case head_scan buffer [2..<buf_len - 2] 0 of
             Inl (ret, s) \<Rightarrow> (ret, set_flash_size s w1)
           | Inr s \<Rightarrow>
               (if \<exists>i\<in>set [2..<buf_len - 4]. buffer ! i \<noteq> 0 then YMODEM_OK else YMODEM_ERR,
                set_flash_size s w1)))"

text \<open>The block number is only compared with its complement.\<close>

definition ymodem_data_parse :: "byte \<Rightarrow> ym_world \<Rightarrow> int \<times> ym_world" where
  "ymodem_data_parse data_type w =
     (let buf_len = block_len data_type;
          (buffer, w1) = ymodem_recv_bytes buf_len UART_RECV_TIMEOUT w
      in if buf_len \<noteq> length buffer \<or> unat (buffer ! 0) + unat (buffer ! 1) \<noteq> 0xFF then (YMODEM_ERR, w1)
         else if \<not> block_crc_ok buffer then (YMODEM_ERR, w1)
         else (YMODEM_OK, w1\<lparr>ymodem_written := ymodem_written w1 @ [take (buf_len - 4) (drop 2 buffer)]\<rparr>))"

section \<open>The receiver\<close>

definition ym_init :: ym_state where
  "ym_init = \<lparr>ym_phase = YMODEM_STATE_INIT, ym_i = 0, ym_end_flag = False, ym_c = 0\<rparr>"

text \<open>One round of the endless loop: a return value or the state of the next round.\<close>

definition ym_step :: "ym_state \<Rightarrow> ym_world \<Rightarrow> (int + ym_state) \<times> ym_world" where
  "ym_step st w0 =
     (let (got, w) = (if ym_phase st = YMODEM_STATE_INIT then ([], w0)
                      else ymodem_recv_bytes 1 5000 w0);
          c = (case got of [] \<Rightarrow> ym_c st | x # _ \<Rightarrow> x);
          st = st\<lparr>ym_c := c\<rparr>
      in case ym_phase st of
           YMODEM_STATE_INIT \<Rightarrow>
             (Inr (st\<lparr>ym_phase := YMODEM_STATE_WAIT_HEAD\<rparr>),
              if ym_i st mod 200 = 0 then uart_send_byte YMODEM_CCHAR w else w)
         | YMODEM_STATE_WAIT_HEAD \<Rightarrow>
             if length got \<noteq> 1 then
               (Inr (st\<lparr>ym_i := ym_i st + 1, ym_phase := YMODEM_STATE_INIT\<rparr>), w)
             else if c = YMODEM_SOH \<or> c = YMODEM_STX then
               (let (ret, w1) = ymodem_data_head_parse c w
                in if ret = YMODEM_OK then
                     (Inr (st\<lparr>ym_phase := YMODEM_STATE_WAIT_DATA\<rparr>),
                      uart_send_byte YMODEM_CCHAR (uart_send_byte YMODEM_ACK w1))
                   else if ym_end_flag st then (Inl YMODEM_OK, uart_send_byte YMODEM_ACK w1)
                   else (Inl ret, (uart_send_byte YMODEM_NAK ^^ YMODEM_ERR_NAK_NUM)
                                    (uart_send_byte YMODEM_ACK w1)))
             else if c = 3 then (Inl YMODEM_ERR, w)
             else (Inr st, w)
         | YMODEM_STATE_WAIT_DATA \<Rightarrow>
             if length got = 1 \<and> (c = YMODEM_SOH \<or> c = YMODEM_STX) then
               (let (ret, w1) = ymodem_data_parse c w
                in (Inr st, if ret = YMODEM_OK then uart_send_byte YMODEM_ACK w1 else w1))
             else if length got = 1 \<and> c = YMODEM_EOT then
               (Inr (st\<lparr>ym_phase := YMODEM_STATE_WAIT_END\<rparr>), uart_send_byte YMODEM_NAK w)
             else (Inr st, w)
         | YMODEM_STATE_WAIT_END \<Rightarrow>
             if length got = 1 \<and> c = YMODEM_EOT then
               (Inr (st\<lparr>ym_i := 0, ym_phase := YMODEM_STATE_INIT, ym_end_flag := True\<rparr>),
                uart_send_byte YMODEM_ACK w)
             else (Inr st, w)
         | YMODEM_STATE_WAIT_NEXT \<Rightarrow> (Inr (st\<lparr>ym_phase := YMODEM_STATE_INIT\<rparr>), w))"

partial_function (option) ym_run :: "ym_state \<Rightarrow> ym_world \<Rightarrow> (int \<times> ym_world) option" where
  "ym_run st w = (case ym_step st w of
     (Inl ret, w') \<Rightarrow> Some (ret, w') | (Inr st', w') \<Rightarrow> ym_run st' w')"

definition ymodem_recv_file :: "ym_world \<Rightarrow> (int \<times> ym_world) option" where
  "ymodem_recv_file w = ym_run ym_init w"

text \<open>
  The loop after a failure ends at its first call: \<open>uart_recv_byte\<close> returns 1 or, for a
  time-out, \<open>-1\<close> as an unsigned char, and neither is zero.
\<close>

definition ymodem_upgrade :: "ym_world \<Rightarrow> (int \<times> ym_world) option" where
  "ymodem_upgrade w =
     (case ymodem_recv_file w of
        None \<Rightarrow> None
      | Some (ret, w1) \<Rightarrow>
          Some (ret, if ret \<noteq> YMODEM_OK then w1\<lparr>uart_in := tl (uart_in w1)\<rparr> else w1))"

section \<open>The CRC is the polynomial remainder\<close>

lemma bit_shift1: "Suc n < 32 \<Longrightarrow> bit (push_bit 1 (c :: 32 word)) (Suc n) \<longleftrightarrow> bit c n"
  by (simp only: bit_push_bit_iff) simp

lemma crc16_in_bit: "push_bit 1 (inw :: 32 word) AND 0x100 \<noteq> 0 \<longleftrightarrow> bit inw 7"
  using and_exp_eq_0_iff_not_bit [of "push_bit 1 inw" 8] bit_shift1 [of 7 inw]
  by (simp del: push_bit_Suc One_nat_def)

lemma crc16_top_bit: "(c :: 32 word) AND 0x10000 \<noteq> 0 \<longleftrightarrow> bit c 16"
  using and_exp_eq_0_iff_not_bit [of c 16] by simp

lemma crc16_add_bit: "push_bit 1 (c :: 32 word) + 1 = push_bit 1 c XOR 1"
proof -
  have "push_bit 1 c AND 1 = 0"
    by (rule bit_word_eqI) (auto simp: bit_and_iff bit_push_bit_iff bit_1_iff
        simp del: push_bit_Suc One_nat_def)
  then show ?thesis by (rule disjunctive_add_eq_xor)
qed

lemma crc16_step_low:
  "ucast (fst (crc16_step (c, inw))) = crc_serial 0x1021 (ucast c :: 16 word) (bit inw 7)"
proof -
  let ?m = "if bit inw 7 then 1 else 0 :: 32 word"
  have c1: "(if push_bit 1 inw AND 0x100 \<noteq> 0 then push_bit 1 c + 1 else push_bit 1 c)
      = push_bit 1 c XOR ?m"
    by (simp only: crc16_in_bit crc16_add_bit) simp
  have top: "(push_bit 1 c XOR ?m) AND 0x10000 \<noteq> 0 \<longleftrightarrow> bit c 15"
    using bit_shift1 [of 15 c] unfolding crc16_top_bit
    by (simp add: bit_xor_iff bit_1_iff del: push_bit_Suc One_nat_def)
  have st: "fst (crc16_step (c, inw)) = (push_bit 1 c XOR ?m) XOR (if bit c 15 then 0x1021 else 0)"
    by (simp only: crc16_step_def Let_def fst_conv snd_conv c1 top) simp
  have push: "(ucast (push_bit 1 c) :: 16 word) = push_bit 1 (ucast c)"
    by (rule bit_word_eqI) (auto simp: bit_unsigned_iff bit_push_bit_iff simp del: push_bit_Suc One_nat_def)
  have top': "bit (ucast c :: 16 word) 15 = bit c 15" by (simp add: bit_unsigned_iff)
  show ?thesis
    unfolding st unsigned_xor_eq crc_serial_def crc_shift_def push
    by (simp add: top' ac_simps del: push_bit_Suc One_nat_def)
qed

lemma crc16_guard: "bit (0x100 :: 32 word) n \<longleftrightarrow> n = 8"
  using bit_exp_iff [where 'a = "32 word", of 8 n] by auto

text \<open>After \<open>7 - n\<close> rounds \<open>n + 1\<close> bits of the byte are left; the guard bit ends the loop.\<close>

lemma crc16_loop_low:
  assumes "n < 8"
  shows "\<exists>c'. crc16_loop (Suc n) (c, push_bit (7 - n) (ucast (b :: byte) OR 0x100)) = Some c'
    \<and> ucast c' = foldl (crc_serial 0x1021) (ucast c :: 16 word) (map (bit b) (rev [0..<Suc n]))"
  using assms
proof (induction n arbitrary: c)
  case 0
  let ?i = "push_bit 7 (ucast b OR 0x100) :: 32 word"
  have "snd (crc16_step (c, ?i)) AND 0x10000 \<noteq> 0"
    unfolding crc16_top_bit crc16_step_def Let_def snd_conv push_bit_push_bit
    by (simp only: bit_push_bit_iff bit_or_iff crc16_guard) simp
  moreover have "bit ?i 7 = bit b 0"
    by (simp only: bit_push_bit_iff bit_or_iff crc16_guard) (simp add: bit_unsigned_iff)
  ultimately show ?case
    using crc16_step_low [of c ?i] by (simp add: Let_def)
next
  case (Suc n)
  let ?i = "push_bit (7 - Suc n) (ucast b OR 0x100) :: 32 word"
  let ?st = "crc16_step (c, ?i)"
  have i: "snd ?st = push_bit (7 - n) (ucast b OR 0x100)"
    using Suc.prems by (simp add: crc16_step_def Let_def push_bit_push_bit Suc_diff_Suc
        del: push_bit_Suc One_nat_def)
  have "\<not> bit (snd ?st) 16"
    unfolding i using Suc.prems
    by (simp only: bit_push_bit_iff bit_or_iff crc16_guard) (auto simp: bit_unsigned_iff dest: bit_imp_le_length)
  then have nt: "snd ?st AND 0x10000 = 0"
    using crc16_top_bit [of "snd ?st"] by simp
  have b7: "bit ?i 7 = bit b (Suc n)"
    using Suc.prems by (simp only: bit_push_bit_iff bit_or_iff crc16_guard) (auto simp: bit_unsigned_iff)
  have eq: "crc16_loop (Suc (Suc n)) (c, ?i) = crc16_loop (Suc n) (fst ?st, snd ?st)"
    using nt by (simp add: Let_def del: crc16_loop.simps) (subst crc16_loop.simps(2), simp add: Let_def nt)
  from Suc.IH [of "fst ?st"] Suc.prems show ?case
    unfolding eq i crc16_step_low b7 by simp
qed

lemma UpdateCRC16_serial: "UpdateCRC16 r b = foldl (crc_serial 0x1021) r (byte_bits b)"
proof -
  have w: "(ucast (ucast r :: 32 word) :: 16 word) = r"
    by (rule bit_word_eqI) (simp add: bit_unsigned_iff)
  have bits: "map (bit b) (rev [0..<Suc 7]) = byte_bits b"
    unfolding byte_bits_def by (rule arg_cong [where f = "map (bit b)"]) (simp add: upt_rec)
  obtain c' where "crc16_loop (Suc 7) (ucast r, push_bit (7 - 7) (ucast b OR 0x100)) = Some c'"
    and c': "ucast c' = foldl (crc_serial 0x1021) r (byte_bits b)"
    using crc16_loop_low [of 7 "ucast r" b] unfolding w bits by auto
  then have "crc16_loop 8 (ucast r, ucast b OR 0x100) = Some c'"
    by (simp del: crc16_loop.simps)
  with c' show ?thesis unfolding UpdateCRC16_def by (simp del: crc16_loop.simps)
qed

lemma CRC16_Update_serial: "CRC16_Update r bs = foldl (crc_serial 0x1021) r (msg_bits bs)"
  unfolding CRC16_Update_def by (induction bs arbitrary: r) (simp_all add: UpdateCRC16_serial)

lemma crc16_serial:
  "crc16_computer bs = foldl (crc_serial 0x1021) 0 (msg_bits bs @ replicate 16 False)"
proof -
  have "replicate 16 False = replicate 8 False @ replicate 8 False"
    by (simp flip: replicate_add)
  then show ?thesis
    by (simp add: crc16_computer_def CRC16_Final_def CRC16_Update_serial UpdateCRC16_serial)
qed

section \<open>A complete transfer\<close>

text \<open>What a sender puts on the line: a block, the header, the data blocks, the end.\<close>

definition crc16_bytes :: "byte list \<Rightarrow> byte list" where
  "crc16_bytes payload = (let crc = crc16_computer payload
     in [ucast (drop_bit 8 crc), ucast (crc AND 0xFF)])"

definition ym_block :: "byte \<Rightarrow> byte list \<Rightarrow> byte list" where
  "ym_block num payload =
     (if length payload = 128 then YMODEM_SOH else YMODEM_STX) # num # (255 - num)
       # payload @ crc16_bytes payload"

definition ym_header :: "byte list \<Rightarrow> nat \<Rightarrow> byte list" where
  "ym_header name sz =
     (let fields = name @ [0] @ dec_nat sz @ [0] in fields @ replicate (128 - length fields) 0)"

definition ym_transfer :: "byte list \<Rightarrow> nat \<Rightarrow> (byte \<times> byte list) list \<Rightarrow> byte list" where
  "ym_transfer name sz blocks =
     ym_block 0 (ym_header name sz) @ concat (map (\<lambda>(k, p). ym_block k p) blocks)
       @ [YMODEM_EOT, YMODEM_EOT] @ ym_block 0 (replicate 128 0)"

definition line_of :: "byte list \<Rightarrow> byte option list" where
  "line_of bs = map Some bs"

lemma recv_bytes_line:
  "length cs \<le> t \<Longrightarrow> recv_bytes (length cs) t (map Some cs @ rest) = (cs, rest)"
proof (induction cs arbitrary: t)
  case Nil
  then show ?case by (cases rest) auto
next
  case (Cons c cs)
  then show ?case by (auto simp: Let_def split: prod.split)
qed

lemma ymodem_recv_bytes_line:
  "uart_in w = map Some cs @ rest \<Longrightarrow> n = length cs \<Longrightarrow> length cs \<le> t \<Longrightarrow>
     ymodem_recv_bytes n t w = (cs, w\<lparr>uart_in := rest\<rparr>)"
  by (simp add: ymodem_recv_bytes_def recv_bytes_line)

lemma block_crc_ok_block:
  "length p \<ge> 1 \<Longrightarrow> block_crc_ok (a # b # p @ crc16_bytes p)"
  by (simp add: block_crc_ok_def crc16_bytes_def Let_def nth_append nth_Cons')

lemma length_crc16_bytes [simp]: "length (crc16_bytes p) = 2"
  by (simp add: crc16_bytes_def Let_def)

lemma block_num_sum: "unat (k :: byte) + unat (255 - k) = 255"
proof -
  have "unat (255 - k) = unat (255 :: byte) - unat k"
    by (rule unat_sub) (use unat_byte_bound [of k] in \<open>simp add: word_le_nat_alt, linarith\<close>)
  moreover have "unat k \<le> 255" using unat_byte_bound [of k] by linarith
  ultimately show ?thesis by simp
qed

lemma ymodem_data_parse_block:
  assumes "length p = 128 \<or> length p = 1024"
    and "uart_in w = map Some (k # (255 - k) # p @ crc16_bytes p) @ rest"
  shows "ymodem_data_parse (if length p = 128 then YMODEM_SOH else YMODEM_STX) w
    = (YMODEM_OK, w\<lparr>uart_in := rest, ymodem_written := ymodem_written w @ [p]\<rparr>)"
proof -
  have n: "block_len (if length p = 128 then YMODEM_SOH else YMODEM_STX) = length p + 4"
    using assms(1) by (auto simp: block_len_def)
  have r: "ymodem_recv_bytes (length p + 4) UART_RECV_TIMEOUT w
      = (k # (255 - k) # p @ crc16_bytes p, w\<lparr>uart_in := rest\<rparr>)"
    using assms by (intro ymodem_recv_bytes_line) auto
  show ?thesis
    unfolding ymodem_data_parse_def n r Let_def prod.case
    using assms(1) block_crc_ok_block [of p k "255 - k"] block_num_sum [of k] by auto
qed

lemma set_dec_nat: "b \<in> set (dec_nat n) \<Longrightarrow> 48 \<le> b \<and> b \<le> 57"
proof (induction n rule: dec_nat.induct)
  case (1 n)
  have digit: "48 \<le> (of_nat (48 + d) :: byte) \<and> (of_nat (48 + d) :: byte) \<le> 57" if "d < 10" for d
    using that by (simp add: word_le_nat_alt unat_of_nat del: of_nat_add)
  show ?case
  proof (cases "n < 10")
    case True
    with 1 digit show ?thesis by (auto simp: dec_nat.simps [of n] simp del: of_nat_add)
  next
    case False
    with 1 digit [of "n mod 10"] show ?thesis
      by (auto simp: dec_nat.simps [of n] simp del: of_nat_add)
  qed
qed

lemma dec_nat_nonempty [simp]: "dec_nat n \<noteq> []"
  by (subst dec_nat.simps) simp

lemma hd_dec_nat: "0 < n \<Longrightarrow> hd (dec_nat n) \<noteq> 48"
proof (induction n rule: dec_nat.induct)
  case (1 n)
  show ?case
  proof (cases "n < 10")
    case True
    have "(of_nat (48 + n) :: byte) \<noteq> 48"
    proof
      assume "(of_nat (48 + n) :: byte) = 48"
      then have "unat (of_nat (48 + n) :: byte) = unat (48 :: byte)" by (rule arg_cong)
      with True 1 show False by (simp add: unat_of_nat del: of_nat_add)
    qed
    with True show ?thesis by (simp add: dec_nat.simps [of n] del: of_nat_add)
  next
    case False
    with 1 show ?thesis by (simp add: dec_nat.simps [of n] div_greater_zero_iff)
  qed
qed

lemma str2int_dec_nat:
  "n < 214748364 \<Longrightarrow>
     str2int_loop 10 (length (dec_nat n) + k) (dec_nat n @ rest) 0 = str2int_loop 10 k rest (int n)"
proof (induction n arbitrary: k rest rule: dec_nat.induct)
  case (1 n)
  have digit: "48 \<le> (of_nat (48 + d) :: byte) \<and> (of_nat (48 + d) :: byte) \<le> 57
      \<and> (of_nat (48 + d) :: byte) \<noteq> 0 \<and> uint (of_nat (48 + d) :: byte) = 48 + int d" if "d < 10" for d
    using that by (auto simp: word_le_nat_alt unat_of_nat uint_nat word_unat_eq_iff simp del: of_nat_add)
  show ?case
  proof (cases "n < 10")
    case True
    with digit [OF True] show ?thesis by (simp add: dec_nat.simps [of n] del: of_nat_add)
  next
    case False
    have m: "n mod 10 < 10" by simp
    have v: "int (n div 10) * 10 + int (n mod 10) = int n" by (simp add: zmod_int zdiv_int)
    have "str2int_loop 10 (length (dec_nat n) + k) (dec_nat n @ rest) 0
        = str2int_loop 10 (Suc k) (of_nat (48 + n mod 10) # rest) (int (n div 10))"
      using "1.IH" [OF False, of "Suc k" "of_nat (48 + n mod 10) # rest"] "1.prems" False
      by (simp add: dec_nat.simps [of n] del: of_nat_add)
    also have "\<dots> = str2int_loop 10 k rest (int n)"
      using digit [OF m] "1.prems" v by (simp del: of_nat_add)
    finally show ?thesis .
  qed
qed

lemma head_scan_skip:
  "\<forall>i\<in>set js. buffer ! i \<noteq> 0 \<Longrightarrow> head_scan buffer (js @ is) lp = head_scan buffer is lp"
  by (induction js) auto

lemma upt_split: "a \<le> b \<Longrightarrow> b \<le> c \<Longrightarrow> [a..<c] = [a..<b] @ [b..<c]"
  using upt_add_eq_append [of a b "c - b"] by simp

lemma head_scan_fields:
  assumes "length pre = a" "0 \<notin> set name" "0 < n" "n \<le> ymodem_max_write_size"
    and b: "b = a + length name" and c: "c = b + 1 + length (dec_nat n)" and d: "c < d"
  shows "head_scan (pre @ name @ [0] @ dec_nat n @ [0] @ rest) [a..<d] 0 = Inr (Some n)"
proof -
  let ?B = "pre @ name @ [0] @ dec_nat n @ [0] @ rest"
  have len: "0 < length (dec_nat n)" by simp
  have split: "[a..<d] = [a..<b] @ b # [b + 1..<c] @ c # [c + 1..<d]"
  proof -
    have "[a..<d] = [a..<b] @ [b..<d]" using b c d upt_split [of a b d] by simp
    also have "[b..<d] = b # [b + 1..<d]" using c d by (simp add: upt_conv_Cons)
    also have "[b + 1..<d] = [b + 1..<c] @ [c..<d]" using c d upt_split [of "b + 1" c d] by simp
    also have "[c..<d] = c # [c + 1..<d]" using d by (simp add: upt_conv_Cons)
    finally show ?thesis .
  qed
  have n1: "\<forall>i\<in>set [a..<b]. ?B ! i \<noteq> 0"
  proof
    fix i assume "i \<in> set [a..<b]"
    then have "?B ! i = name ! (i - a)" "i - a < length name"
      using assms(1) b by (auto simp: nth_append)
    then show "?B ! i \<noteq> 0" using assms(2) by (metis nth_mem)
  qed
  have zb: "?B ! b = 0" using assms(1) b by (simp add: nth_append)
  have n2: "\<forall>i\<in>set [b + 1..<c]. ?B ! i \<noteq> 0"
  proof
    fix i assume i: "i \<in> set [b + 1..<c]"
    then have "?B ! i = dec_nat n ! (i - (b + 1))" "i - (b + 1) < length (dec_nat n)"
      using assms(1) b c by (auto simp: nth_append)
    then have "?B ! i \<in> set (dec_nat n)" by simp
    then show "?B ! i \<noteq> 0" using set_dec_nat [of "?B ! i" n] by auto
  qed
  have zc: "?B ! c = 0" using assms(1) b c by (simp add: nth_append)
  have dr: "drop (b + 1) ?B = dec_nat n @ 0 # rest" using assms(1) b by simp
  have h: "(dec_nat n @ 0 # rest) ! 0 \<noteq> 48"
    using hd_dec_nat [OF assms(3)] len by (simp add: nth_append hd_conv_nth)
  have v: "ymodem_str2int (drop (b + 1) ?B) (c - (b + 1)) = n"
    unfolding dr ymodem_str2int_def using h str2int_dec_nat [of n 0 "0 # rest"] assms(4) c by simp
  have "head_scan ?B [a..<d] 0 = head_scan ?B (b # [b + 1..<c] @ c # [c + 1..<d]) 0"
    unfolding split by (rule head_scan_skip [OF n1])
  also have "\<dots> = head_scan ?B ([b + 1..<c] @ c # [c + 1..<d]) (b + 1)"
    by (simp only: head_scan.simps zb simp_thms if_True)
  also have "\<dots> = head_scan ?B (c # [c + 1..<d]) (b + 1)" by (rule head_scan_skip [OF n2])
  also have "\<dots> = Inr (Some n)"
    using assms(3,4) by (simp only: head_scan.simps zc v Let_def) simp
  finally show ?thesis .
qed

text \<open>The file name and size fit the header of 128 bytes, and the size is acceptable.\<close>

definition ym_fits :: "byte list \<Rightarrow> nat \<Rightarrow> bool" where
  "ym_fits name sz \<longleftrightarrow> name \<noteq> [] \<and> 0 \<notin> set name \<and> 0 < sz \<and> sz \<le> ymodem_max_write_size
     \<and> length name + length (dec_nat sz) + 2 \<le> 128"

lemma length_ym_header: "ym_fits name sz \<Longrightarrow> length (ym_header name sz) = 128"
  by (simp add: ym_fits_def ym_header_def Let_def)

lemma ymodem_head_parse_header:
  assumes fits: "ym_fits name sz"
    and w: "uart_in w = map Some (0 # 255 # ym_header name sz @ crc16_bytes (ym_header name sz)) @ rest"
  shows "ymodem_data_head_parse YMODEM_SOH w
    = (YMODEM_OK, w\<lparr>uart_in := rest, ymodem_flash_size := sz\<rparr>)"
proof -
  let ?h = "ym_header name sz"
  let ?B = "0 # 255 # ?h @ crc16_bytes ?h"
  have n: "block_len YMODEM_SOH = 132" by (simp add: block_len_def)
  have lh: "length ?h = 128" using fits by (rule length_ym_header)
  have r: "ymodem_recv_bytes 132 UART_RECV_TIMEOUT w = (?B, w\<lparr>uart_in := rest\<rparr>)"
    using w lh by (intro ymodem_recv_bytes_line) auto
  have ok: "block_crc_ok ?B" using lh by (intro block_crc_ok_block) simp
  obtain pad where h: "?h = name @ [0] @ dec_nat sz @ [0] @ pad"
    by (simp add: ym_header_def Let_def)
  have B: "?B = [0, 255] @ name @ [0] @ dec_nat sz @ [0] @ (pad @ crc16_bytes ?h)"
    by (subst h) simp
  have scan: "head_scan ?B [2..<132 - 2] 0 = Inr (Some sz)"
    unfolding B using fits by (intro head_scan_fields) (auto simp: ym_fits_def)
  have "?B ! 2 \<noteq> 0"
    unfolding B using fits by (cases name) (auto simp: ym_fits_def)
  then have nz: "\<exists>i\<in>set [2..<132 - 4]. ?B ! i \<noteq> 0" by (intro bexI [of _ 2]) auto
  have len: "length ?B = 132" using lh by simp
  have b01: "?B ! 0 = 0" "?B ! 1 = 255" by simp_all
  show ?thesis
    unfolding ymodem_data_head_parse_def n r Let_def prod.case scan sum.case len
    by (simp only: ok nz b01 simp_thms if_True if_False) (simp add: set_flash_size_def)
qed

lemma ymodem_head_parse_null:
  assumes "uart_in w = map Some (0 # 255 # replicate 128 0 @ crc16_bytes (replicate 128 0)) @ rest"
  shows "ymodem_data_head_parse YMODEM_SOH w = (YMODEM_ERR, w\<lparr>uart_in := rest\<rparr>)"
proof -
  let ?B = "0 # 255 # replicate 128 0 @ crc16_bytes (replicate 128 0)"
  have n: "block_len YMODEM_SOH = 132" by (simp add: block_len_def)
  have r: "ymodem_recv_bytes 132 UART_RECV_TIMEOUT w = (?B, w\<lparr>uart_in := rest\<rparr>)"
    using assms by (intro ymodem_recv_bytes_line) auto
  have len: "length ?B = 132" by simp
  have upt: "[2..<132 - 2] = 2 # 3 # [4..<130 :: nat]" by (simp add: upt_conv_Cons)
  have rep: "replicate 128 0 = 0 # 0 # replicate 126 (0 :: byte)"
    by (simp add: numeral_eq_Suc)
  have "?B ! 2 = 0" "?B ! 3 = 0" by (simp_all add: nth_append nth_Cons')
  moreover have "ymodem_str2int (drop 3 ?B) 0 = 0"
    by (simp add: ymodem_str2int_def nth_append nth_Cons' drop_Cons')
  ultimately have scan: "head_scan ?B [2..<132 - 2] 0 = Inl (YMODEM_ERR, None)"
    unfolding upt by (simp only: head_scan.simps simp_thms if_True if_False Let_def) simp
  have b01: "?B ! 0 = 0" "?B ! 1 = 255" by simp_all
  show ?thesis
    unfolding ymodem_data_head_parse_def n r Let_def prod.case scan sum.case len
    by (simp only: b01 simp_thms if_True if_False) (simp add: set_flash_size_def)
qed

lemma ym_block_128: "length p = 128 \<Longrightarrow> ym_block k p = YMODEM_SOH # k # (255 - k) # p @ crc16_bytes p"
  by (simp add: ym_block_def)

lemma recv_one: "uart_in w = Some c # rest \<Longrightarrow> ymodem_recv_bytes 1 5000 w = ([c], w\<lparr>uart_in := rest\<rparr>)"
  using ymodem_recv_bytes_line [of w "[c]" rest 1 5000] by simp

text \<open>The rounds of a transfer, one per message of the sender.\<close>

lemma ym_run_init:
  "ym_phase st = YMODEM_STATE_INIT \<Longrightarrow> ym_i st = 0 \<Longrightarrow>
     ym_run st w = ym_run (st\<lparr>ym_phase := YMODEM_STATE_WAIT_HEAD\<rparr>) (uart_send_byte YMODEM_CCHAR w)"
  by (subst ym_run.simps) (simp add: ym_step_def)

lemma ym_run_head:
  assumes "ym_phase st = YMODEM_STATE_WAIT_HEAD" "ym_fits name sz"
    and "uart_in w = map Some (ym_block 0 (ym_header name sz)) @ rest"
  shows "ym_run st w = ym_run (st\<lparr>ym_c := YMODEM_SOH, ym_phase := YMODEM_STATE_WAIT_DATA\<rparr>)
     (w\<lparr>uart_in := rest, ymodem_flash_size := sz, uart_out := uart_out w @ [YMODEM_ACK, YMODEM_CCHAR]\<rparr>)"
proof -
  let ?p = "0 # 255 # ym_header name sz @ crc16_bytes (ym_header name sz)"
  let ?w = "w\<lparr>uart_in := map Some ?p @ rest\<rparr>"
  have one: "ymodem_recv_bytes 1 5000 w = ([YMODEM_SOH], ?w)"
    using assms(3) by (intro recv_one) (simp add: ym_block_128 length_ym_header [OF assms(2)])
  have head: "ymodem_data_head_parse YMODEM_SOH ?w
      = (YMODEM_OK, ?w\<lparr>uart_in := rest, ymodem_flash_size := sz\<rparr>)"
    by (rule ymodem_head_parse_header [OF assms(2)]) simp
  show ?thesis
    by (subst ym_run.simps) (simp add: ym_step_def assms(1) one [simplified] head [simplified] uart_send_byte_def)
qed

lemma ym_run_data:
  assumes "ym_phase st = YMODEM_STATE_WAIT_DATA" "length p = 128 \<or> length p = 1024"
    and "uart_in w = map Some (ym_block k p) @ rest"
  shows "ym_run st w = ym_run (st\<lparr>ym_c := if length p = 128 then YMODEM_SOH else YMODEM_STX\<rparr>)
     (w\<lparr>uart_in := rest, uart_out := uart_out w @ [YMODEM_ACK], ymodem_written := ymodem_written w @ [p]\<rparr>)"
proof -
  let ?t = "if length p = 128 then YMODEM_SOH else YMODEM_STX"
  let ?w = "w\<lparr>uart_in := map Some (k # (255 - k) # p @ crc16_bytes p) @ rest\<rparr>"
  have one: "ymodem_recv_bytes 1 5000 w = ([?t], ?w)"
    using assms(3) by (intro recv_one) (simp add: ym_block_def)
  have t: "?t = YMODEM_SOH \<or> ?t = YMODEM_STX" by simp
  have data: "ymodem_data_parse ?t ?w
      = (YMODEM_OK, ?w\<lparr>uart_in := rest, ymodem_written := ymodem_written ?w @ [p]\<rparr>)"
    by (rule ymodem_data_parse_block [OF assms(2)]) simp
  have "ym_step st w = (Inr (st\<lparr>ym_c := ?t\<rparr>), w\<lparr>uart_in := rest,
      uart_out := uart_out w @ [YMODEM_ACK], ymodem_written := ymodem_written w @ [p]\<rparr>)"
    unfolding ym_step_def assms(1) Let_def one
    by (simp only: ym_phase.distinct if_False prod.case list.case ym_phase.case data t simp_thms)
      (simp add: assms(1) uart_send_byte_def data [simplified])
  then show ?thesis by (subst ym_run.simps) simp
qed

lemma ym_run_eots:
  assumes "ym_phase st = YMODEM_STATE_WAIT_DATA" "uart_in w = [Some YMODEM_EOT, Some YMODEM_EOT] @ rest"
  shows "ym_run st w = ym_run (st\<lparr>ym_c := YMODEM_EOT, ym_i := 0, ym_phase := YMODEM_STATE_INIT, ym_end_flag := True\<rparr>)
     (w\<lparr>uart_in := rest, uart_out := uart_out w @ [YMODEM_NAK, YMODEM_ACK]\<rparr>)"
proof -
  have one: "ymodem_recv_bytes 1 5000 w = ([YMODEM_EOT], w\<lparr>uart_in := Some YMODEM_EOT # rest\<rparr>)"
    using assms(2) by (intro recv_one) simp
  let ?w = "w\<lparr>uart_in := Some YMODEM_EOT # rest, uart_out := uart_out w @ [YMODEM_NAK]\<rparr>"
  have two: "ymodem_recv_bytes 1 5000 ?w = ([YMODEM_EOT], ?w\<lparr>uart_in := rest\<rparr>)"
    by (intro recv_one) simp
  have "ym_run st w = ym_run (st\<lparr>ym_c := YMODEM_EOT, ym_phase := YMODEM_STATE_WAIT_END\<rparr>) ?w"
    by (subst ym_run.simps) (simp add: ym_step_def assms(1) one [simplified] uart_send_byte_def)
  also have "\<dots> = ym_run (st\<lparr>ym_c := YMODEM_EOT, ym_i := 0, ym_phase := YMODEM_STATE_INIT, ym_end_flag := True\<rparr>)
     (w\<lparr>uart_in := rest, uart_out := uart_out w @ [YMODEM_NAK, YMODEM_ACK]\<rparr>)"
    by (subst ym_run.simps) (simp add: ym_step_def two [simplified] uart_send_byte_def)
  finally show ?thesis .
qed

lemma ym_run_end:
  assumes "ym_phase st = YMODEM_STATE_WAIT_HEAD" "ym_end_flag st"
    and "uart_in w = map Some (ym_block 0 (replicate 128 0)) @ rest"
  shows "ym_run st w = Some (YMODEM_OK, w\<lparr>uart_in := rest, uart_out := uart_out w @ [YMODEM_ACK]\<rparr>)"
proof -
  let ?p = "0 # 255 # replicate 128 0 @ crc16_bytes (replicate 128 0)"
  let ?w = "w\<lparr>uart_in := map Some ?p @ rest\<rparr>"
  have one: "ymodem_recv_bytes 1 5000 w = ([YMODEM_SOH], ?w)"
    using assms(3) by (intro recv_one) (simp add: ym_block_128)
  have head: "ymodem_data_head_parse YMODEM_SOH ?w = (YMODEM_ERR, ?w\<lparr>uart_in := rest\<rparr>)"
    by (rule ymodem_head_parse_null) simp
  show ?thesis
    by (subst ym_run.simps) (simp add: ym_step_def assms(1,2) one [simplified] head [simplified] uart_send_byte_def)
qed

lemma ym_run_blocks:
  assumes "ym_phase st = YMODEM_STATE_WAIT_DATA"
    and "\<forall>(k, p)\<in>set blocks. length p = 128 \<or> length p = 1024"
    and "uart_in w = map Some (concat (map (\<lambda>(k, p). ym_block k p) blocks)) @ rest"
  shows "\<exists>c. ym_run st w = ym_run (st\<lparr>ym_c := c\<rparr>)
     (w\<lparr>uart_in := rest, uart_out := uart_out w @ replicate (length blocks) YMODEM_ACK,
        ymodem_written := ymodem_written w @ map snd blocks\<rparr>)"
  using assms
proof (induction blocks arbitrary: st w)
  case Nil
  have "ym_run st w = ym_run (st\<lparr>ym_c := ym_c st\<rparr>) (w\<lparr>uart_in := rest,
      uart_out := uart_out w, ymodem_written := ymodem_written w\<rparr>)"
    using Nil.prems by (cases w) simp
  then show ?case by (intro exI [of _ "ym_c st"]) simp
next
  case (Cons b blocks)
  obtain k p where b: "b = (k, p)" by (cases b)
  let ?r = "map Some (concat (map (\<lambda>(k, p). ym_block k p) blocks)) @ rest"
  let ?st = "st\<lparr>ym_c := if length p = 128 then YMODEM_SOH else YMODEM_STX\<rparr>"
  let ?w = "w\<lparr>uart_in := ?r, uart_out := uart_out w @ [YMODEM_ACK], ymodem_written := ymodem_written w @ [p]\<rparr>"
  have "ym_run st w = ym_run ?st ?w"
    using Cons.prems b by (intro ym_run_data) auto
  moreover obtain c where "ym_run ?st ?w = ym_run (?st\<lparr>ym_c := c\<rparr>)
     (?w\<lparr>uart_in := rest, uart_out := uart_out ?w @ replicate (length blocks) YMODEM_ACK,
        ymodem_written := ymodem_written ?w @ map snd blocks\<rparr>)"
    using Cons.IH [of ?st ?w] Cons.prems by auto
  ultimately show ?case using b by auto
qed

text \<open>What the receiver answers to a transfer of \<open>n\<close> blocks.\<close>

definition ym_answers :: "nat \<Rightarrow> byte list" where
  "ym_answers n = [YMODEM_CCHAR, YMODEM_ACK, YMODEM_CCHAR] @ replicate n YMODEM_ACK
     @ [YMODEM_NAK, YMODEM_ACK, YMODEM_CCHAR, YMODEM_ACK]"

lemma transfer_received:
  assumes fits: "ym_fits name sz" and blocks: "\<forall>(k, p)\<in>set blocks. length p = 128 \<or> length p = 1024"
    and line: "uart_in w = line_of (ym_transfer name sz blocks)"
  shows "ymodem_recv_file w = Some (YMODEM_OK, w\<lparr>uart_in := [],
     uart_out := uart_out w @ ym_answers (length blocks),
     ymodem_written := ymodem_written w @ map snd blocks, ymodem_flash_size := sz\<rparr>)"
proof -
  let ?e = "map Some ([YMODEM_EOT, YMODEM_EOT] @ ym_block 0 (replicate 128 0))"
  let ?d = "map Some (concat (map (\<lambda>(k, p). ym_block k p) blocks)) @ ?e"
  let ?st1 = "ym_init\<lparr>ym_phase := YMODEM_STATE_WAIT_HEAD\<rparr>"
  let ?w1 = "uart_send_byte YMODEM_CCHAR w"
  have "ymodem_recv_file w = ym_run ?st1 ?w1"
    unfolding ymodem_recv_file_def by (rule ym_run_init) (simp_all add: ym_init_def)
  also have "\<dots> = ym_run (?st1\<lparr>ym_c := YMODEM_SOH, ym_phase := YMODEM_STATE_WAIT_DATA\<rparr>)
     (?w1\<lparr>uart_in := ?d, ymodem_flash_size := sz, uart_out := uart_out ?w1 @ [YMODEM_ACK, YMODEM_CCHAR]\<rparr>)"
    (is "_ = ym_run ?st2 ?w2")
    using line fits
    by (intro ym_run_head) (simp_all add: line_of_def ym_transfer_def uart_send_byte_def)
  also obtain c where "ym_run ?st2 ?w2 = ym_run (?st2\<lparr>ym_c := c\<rparr>)
     (?w2\<lparr>uart_in := ?e, uart_out := uart_out ?w2 @ replicate (length blocks) YMODEM_ACK,
        ymodem_written := ymodem_written ?w2 @ map snd blocks\<rparr>)"
    (is "_ = ym_run ?st3 ?w3")
    using ym_run_blocks [of ?st2 blocks ?w2 ?e] blocks by auto
  also have "ym_run ?st3 ?w3 = ym_run (?st3\<lparr>ym_c := YMODEM_EOT, ym_i := 0,
       ym_phase := YMODEM_STATE_INIT, ym_end_flag := True\<rparr>)
     (?w3\<lparr>uart_in := map Some (ym_block 0 (replicate 128 0)), uart_out := uart_out ?w3 @ [YMODEM_NAK, YMODEM_ACK]\<rparr>)"
    (is "_ = ym_run ?st4 ?w4")
    by (rule ym_run_eots) simp_all
  also have "\<dots> = ym_run (?st4\<lparr>ym_phase := YMODEM_STATE_WAIT_HEAD\<rparr>) (uart_send_byte YMODEM_CCHAR ?w4)"
    by (rule ym_run_init) simp_all
  also have "\<dots> = Some (YMODEM_OK, (uart_send_byte YMODEM_CCHAR ?w4)\<lparr>uart_in := [],
     uart_out := uart_out (uart_send_byte YMODEM_CCHAR ?w4) @ [YMODEM_ACK]\<rparr>)"
    by (rule ym_run_end) (simp_all add: uart_send_byte_def)
  finally show ?thesis by (simp add: uart_send_byte_def ym_answers_def)
qed

section \<open>What is written\<close>

text \<open>A block is written only with the CRC of its payload behind it.\<close>

lemma length_recv_bytes: "length (fst (recv_bytes n t xs)) \<le> n"
  by (induction n t xs rule: recv_bytes.induct) (auto simp: Let_def split: option.splits prod.splits)

lemma block_crc_ok_iff:
  assumes "length buf = n + 4"
  shows "block_crc_ok buf \<longleftrightarrow> drop (n + 2) buf = crc16_bytes (take n (drop 2 buf))"
proof -
  have "drop (n + 2) buf = [buf ! (n + 2), buf ! (n + 3)]"
    using Cons_nth_drop_Suc [of "n + 2" buf] Cons_nth_drop_Suc [of "n + 3" buf] assms
    by (simp add: eval_nat_numeral)
  then show ?thesis
    using assms by (auto simp: block_crc_ok_def crc16_bytes_def Let_def add.commute [of n])
qed

lemma data_parse_writes:
  "ymodem_written (snd (ymodem_data_parse t w)) \<noteq> ymodem_written w \<Longrightarrow>
     \<exists>k k' p. fst (ymodem_data_parse t w) = YMODEM_OK \<and> length p = block_len t - 4
       \<and> unat k + unat k' = 255
       \<and> fst (ymodem_recv_bytes (block_len t) UART_RECV_TIMEOUT w) = k # k' # p @ crc16_bytes p
       \<and> ymodem_written (snd (ymodem_data_parse t w)) = ymodem_written w @ [p]"
proof -
  assume changed: "ymodem_written (snd (ymodem_data_parse t w)) \<noteq> ymodem_written w"
  obtain buf w1 where r: "ymodem_recv_bytes (block_len t) UART_RECV_TIMEOUT w = (buf, w1)"
    by (cases "ymodem_recv_bytes (block_len t) UART_RECV_TIMEOUT w")
  have w1: "ymodem_written w1 = ymodem_written w"
    using r by (auto simp: ymodem_recv_bytes_def split: prod.splits)
  obtain n where n: "block_len t = n + 4" by (simp add: block_len_def)
  have ok: "length buf = n + 4" "unat (buf ! 0) + unat (buf ! 1) = 255" "block_crc_ok buf"
    using changed by (auto simp: ymodem_data_parse_def r [unfolded n] w1 n Let_def split: if_splits)
  obtain k k' tl where buf: "buf = k # k' # tl"
    using ok(1) by (cases buf; cases "tl buf") auto
  have "tl = take n tl @ crc16_bytes (take n tl)"
    using ok(3) block_crc_ok_iff [OF ok(1)] by (simp add: buf) (metis append_take_drop_id)
  moreover have "ymodem_data_parse t w = (YMODEM_OK, w1\<lparr>ymodem_written := ymodem_written w @ [take n tl]\<rparr>)"
    using ok by (simp add: ymodem_data_parse_def r [unfolded n] w1 n Let_def buf)
  ultimately show ?thesis
    using ok(1,2) n by (intro exI [of _ k] exI [of _ k'] exI [of _ "take n tl"])
      (simp add: r [unfolded n] buf)
qed

section \<open>What the CRC-16 detects\<close>

lemma crc16_direct: "crc16_computer bs = foldl (crc_direct 0x1021) 0 (msg_bits bs)"
  using crc_direct_serial [of "0x1021 :: 16 word" "msg_bits bs"] by (simp add: crc16_serial)

lemma crc16_poly_odd: "bit (0x1021 :: 16 word) 0"
  by simp

lemma crc16_byte_inj:
  assumes "foldl (crc_direct (0x1021 :: 16 word)) c (byte_bits x) = foldl (crc_direct 0x1021) c (byte_bits y)"
  shows "x = y"
proof -
  let ?p = "0x1021 :: 16 word"
  have "foldl (crc_direct ?p) 0 (byte_bits x) = foldl (crc_direct ?p) 0 (byte_bits y)"
  proof -
    let ?c = "(crc_shift ?p ^^ 8) c"
    have "foldl (crc_direct ?p) c (byte_bits b) = ?c XOR foldl (crc_direct ?p) 0 (byte_bits b)" for b
      by (subst crc_direct_xor) (simp add: byte_bits_def eval_nat_numeral)
    then have "?c XOR foldl (crc_direct ?p) 0 (byte_bits x) = ?c XOR foldl (crc_direct ?p) 0 (byte_bits y)"
      using assms by simp
    then have "?c XOR (?c XOR foldl (crc_direct ?p) 0 (byte_bits x))
        = ?c XOR (?c XOR foldl (crc_direct ?p) 0 (byte_bits y))" by (rule arg_cong)
    then show ?thesis by (simp only: bit.xor_left_self)
  qed
  then have "(crc_shift ?p ^^ 16) (foldl (crc_serial ?p) 0 (byte_bits x))
      = (crc_shift ?p ^^ 16) (foldl (crc_serial ?p) 0 (byte_bits y))"
    using crc_direct_foldl [of ?p 0 "byte_bits x"] crc_direct_foldl [of ?p 0 "byte_bits y"] by simp
  then have eq: "foldl (crc_serial ?p) 0 (byte_bits x) = foldl (crc_serial ?p) 0 (byte_bits y)"
    by (rule funpow_crc_shift_inj [OF crc16_poly_odd])
  show ?thesis
  proof (rule bit_word_eqI)
    fix n assume "n < LENGTH(8)"
    then have n: "n \<in> {0, 1, 2, 3, 4, 5, 6, 7}" by auto
    have "bit (foldl (crc_serial ?p) 0 (byte_bits b)) n = bit b n" for b
      using n by (subst bit_crc_serial_collect) (auto simp: byte_bits_def)
    with eq show "bit x n = bit y n" by metis
  qed
qed

lemma crc16_detects: "crc16_computer (xs @ a # zs) = crc16_computer (xs @ b # zs) \<longleftrightarrow> a = b"
  by (auto simp: crc16_direct dest!: crc_direct_foldl_inj [OF crc16_poly_odd] dest: crc16_byte_inj)

section \<open>An example line\<close>

definition demo_line :: ym_world where
  "demo_line = \<lparr>uart_in = map Some (1 # (255 - 1) # replicate 128 7 @ crc16_bytes (replicate 128 7)),
     uart_out = [], ymodem_written = [], ymodem_flash_size = 0\<rparr>"

lemma demo_line_parse: "ymodem_written (snd (ymodem_data_parse YMODEM_SOH demo_line)) \<noteq> ymodem_written demo_line"
  using ymodem_data_parse_block [of "replicate 128 7" demo_line 1 "[]"] by (simp add: demo_line_def)

end
