(* ===== verification/Json.thy ===== *)
theory Json
  imports Prelude
begin

text \<open>
  linkkit/infra/infra_json_parser.c: the reader of JSON texts in place. A pointer into
  the text is an index, the text is the list of its bytes and the terminating zero is
  what index \<open>length m\<close> reads; an index beyond it is outside the buffer.
\<close>

section \<open>Types\<close>

datatype jtype = JNONE | JSTRING | JOBJECT | JARRAY | JNUMBER | JBOOLEAN

record json_item =
  ji_key :: nat
  ji_klen :: nat
  ji_val :: nat
  ji_vlen :: nat
  ji_vtype :: jtype
  ji_next :: nat

text \<open>
  What \<open>json_get_next_object\<close> ends with: a null pointer, a write through the null
  \<open>key\<close> of an array iteration, or an item (with \<open>ji_next\<close> the returned pointer).
\<close>

datatype json_next = Json_null | Json_fault | Json_item json_item

abbreviation (input) JSON_RESULT_ERR :: int where "JSON_RESULT_ERR \<equiv> -1"
abbreviation (input) JSON_RESULT_OK :: int where "JSON_RESULT_OK \<equiv> 0"

datatype json_code = JSON_PARSE_ERR | JSON_PARSE_OK | JSON_PARSE_FINISH

section \<open>Reading the text\<close>

text \<open>The C library's \<open>strchr\<close> from index \<open>p\<close> on.\<close>

function strchr :: "byte list \<Rightarrow> byte \<Rightarrow> nat \<Rightarrow> nat option" where
  "strchr m c p = (if ch m p = c then Some p else if ch m p = 0 then None else strchr m c (Suc p))"
  by pat_completeness auto
termination
  by (relation "measure (\<lambda>(m, c, p). length m - p)")
     (simp_all only: wf_measure in_measure split_conv ch_nonzero_dec de_Morgan_disj not_False_eq_True)

declare strchr.simps [simp del]

definition json_open :: "jtype \<Rightarrow> byte" where
  "json_open t = (if t = JOBJECT then 123 else 91)"

definition json_close :: "jtype \<Rightarrow> byte" where
  "json_close t = (if t = JOBJECT then 125 else 93)"

function json_get_object :: "jtype \<Rightarrow> byte list \<Rightarrow> nat \<Rightarrow> nat \<Rightarrow> nat option" where
  "json_get_object t m p e =
     (if ch m p = 0 \<or> e \<le> p then None
      else if ch m p = 32 then json_get_object t m (Suc p) e
      else if ch m p = json_open t then Some p else None)"
  by pat_completeness auto
termination
  by (relation "measure (\<lambda>(t, m, p, e). length m - p)")
     (simp_all only: wf_measure in_measure split_conv ch_nonzero_dec de_Morgan_disj not_False_eq_True)

declare json_get_object.simps [simp del]

definition is_digit :: "byte \<Rightarrow> bool" where
  "is_digit c \<longleftrightarrow> 48 \<le> c \<and> c \<le> 57"

text \<open>The first loop: the type and the place of the value, and where scanning goes on.\<close>

function json_find_value :: "byte list \<Rightarrow> nat \<Rightarrow> nat \<Rightarrow> (jtype \<times> nat \<times> nat) option" where
  "json_find_value m e p =
     (if ch m p = 0 \<or> e \<le> p then None
      else if ch m p = 34 then Some (JSTRING, Suc p, Suc p)
      else if ch m p = 123 then Some (JOBJECT, p, Suc p)
      else if ch m p = 91 then Some (JARRAY, p, Suc p)
      else if ch m p = 45 \<or> is_digit (ch m p) then Some (JNUMBER, p, Suc p)
      else if ch m p = 116 \<or> ch m p = 84 \<or> ch m p = 102 \<or> ch m p = 70 then Some (JBOOLEAN, p, p)
      else json_find_value m e (Suc p))"
  by pat_completeness auto
termination
  by (relation "measure (\<lambda>(m, e, p). length m - p)")
     (simp_all only: wf_measure in_measure split_conv ch_nonzero_dec de_Morgan_disj not_False_eq_True)

declare json_find_value.simps [simp del]

definition json_true_at :: "byte list \<Rightarrow> nat \<Rightarrow> bool" where
  "json_true_at m v \<longleftrightarrow> window v 4 m = str ''true'' \<or> window v 4 m = str ''TRUE''"

definition json_false_at :: "byte list \<Rightarrow> nat \<Rightarrow> bool" where
  "json_false_at m v \<longleftrightarrow> window v 5 m = str ''false'' \<or> window v 5 m = str ''FALSE''"

definition num_char :: "byte \<Rightarrow> bool" where
  "num_char c \<longleftrightarrow> is_digit c \<or> c \<in> {46, 43, 45, 101, 69}"

text \<open>
  The second loop: \<open>iValueLen\<close> of the value at \<open>v\<close>, scanning from \<open>p\<close> with
  \<open>iMarkDepth\<close> \<open>d\<close> and \<open>iStringDepth\<close> \<open>s\<close>; it stays 0 when the scan reaches the end.
\<close>

function json_value_len :: "jtype \<Rightarrow> byte list \<Rightarrow> nat \<Rightarrow> nat \<Rightarrow> nat \<Rightarrow> nat \<Rightarrow> bool \<Rightarrow> nat" where
  "json_value_len t m e v p d s =
     (if ch m p = 0 \<or> e \<le> p \<or> t = JNONE then 0
      else if t = JBOOLEAN then
        (if json_true_at m v then 4
         else if json_false_at m v then 5
         else json_value_len t m e v (Suc p) d s)
      else if t = JNUMBER then
        (if \<not> num_char (ch m p) then p - v else json_value_len t m e v (Suc p) d s)
      else if t = JSTRING then
        (if ch m p = 34 then p - v else json_value_len t m e v (Suc p) d s)
      else if ch m p = json_close t then
        (if s then json_value_len t m e v (Suc p) d s
         else if d = 0 then p - v + 1
         else json_value_len t m e v (Suc p) (d - 1) s)
      else if ch m p = json_open t then
        (if s then json_value_len t m e v (Suc p) d s
         else json_value_len t m e v (Suc p) (Suc d) s)
      else if ch m p = 34 then json_value_len t m e v (Suc p) d (\<not> s)
      else json_value_len t m e v (Suc p) d s)"
  by pat_completeness auto
termination
  by (relation "measure (\<lambda>(t, m, e, v, p, d, s). length m - p)")
     (simp_all only: wf_measure in_measure split_conv ch_nonzero_dec de_Morgan_disj not_False_eq_True)

declare json_value_len.simps [simp del]

text \<open>From the start of the value search to the end of the function.\<close>

definition json_item_from :: "jtype \<Rightarrow> byte list \<Rightarrow> nat \<Rightarrow> nat \<Rightarrow> nat \<Rightarrow> nat option \<Rightarrow> json_next" where
  "json_item_from type m e name nlen p =
     (case Option.bind p (json_find_value m e) of
        None \<Rightarrow> Json_null
      | Some (t, v, q) \<Rightarrow>
          let len = json_value_len t m e v q 0 False
          in if type = JOBJECT \<and> e < name + nlen then Json_null
             else if e < v + len then (if type = JOBJECT then Json_null else Json_fault)
             else Json_item \<lparr>ji_key = name, ji_klen = nlen, ji_val = v, ji_vlen = len,
               ji_vtype = t, ji_next = (if t = JSTRING then v + len + 1 else v + len)\<rparr>)"

definition json_get_next_object :: "jtype \<Rightarrow> byte list \<Rightarrow> nat \<Rightarrow> nat \<Rightarrow> json_next" where
  "json_get_next_object type m p e =
     (if type = JOBJECT then
        (case strchr m 34 p of
           None \<Rightarrow> Json_null
         | Some q \<Rightarrow>
             (case strchr m 34 (Suc q) of
                None \<Rightarrow> Json_null
              | Some q' \<Rightarrow> json_item_from type m e (Suc q) (q' - Suc q) (strchr m 58 q')))
      else json_item_from type m e 0 0 (Some p))"

section \<open>Progress\<close>

lemma strchr_Some: "strchr m c p = Some q \<Longrightarrow> p \<le> q \<and> ch m q = c \<and> q \<le> max p (length m)"
proof (induction m c p rule: strchr.induct)
  case (1 m c p)
  show ?case
    using "1.prems" "1.IH" by (subst (asm) strchr.simps) (auto split: if_splits dest: ch_nonzero)
qed

lemma json_find_value_ge: "json_find_value m e p = Some (t, v, q) \<Longrightarrow>
  p \<le> v \<and> v \<le> q \<and> q \<le> Suc v \<and> v \<le> length m \<and> v \<le> e \<and> t \<noteq> JNONE"
proof (induction m e p rule: json_find_value.induct)
  case (1 m e p)
  have l: "\<not> (ch m p = 0 \<or> e \<le> p)"
    using "1.prems" by (subst (asm) json_find_value.simps) (auto split: if_splits)
  then have "p < length m" by (auto dest: ch_nonzero)
  then show ?case
    using "1.prems" l "1.IH" by (subst (asm) json_find_value.simps) (auto split: if_splits)
qed

lemma json_next_progress:
  assumes "json_get_next_object JOBJECT m p e = Json_item it"
  shows "p < ji_next it"
proof -
  obtain q q' where q: "strchr m 34 p = Some q" "strchr m 34 (Suc q) = Some q'"
    and i: "json_item_from JOBJECT m e (Suc q) (q' - Suc q) (strchr m 58 q') = Json_item it"
    using assms by (auto simp: json_get_next_object_def split: option.splits)
  obtain c t v r where c: "strchr m 58 q' = Some c" "json_find_value m e c = Some (t, v, r)"
    and n: "v \<le> ji_next it"
    using i by (cases "strchr m 58 q'") (auto simp: json_item_from_def Let_def split: option.splits if_splits)
  show ?thesis
    using strchr_Some [OF q(1)] strchr_Some [OF q(2)] strchr_Some [OF c(1)] json_find_value_ge [OF c(2)] n
    by linarith
qed

section \<open>Iteration\<close>

text \<open>
  The loop of \<open>json_object_for_each_kv\<close> with the body of \<open>json_parse_name_value\<close>:
  None when \<open>*pos\<close> reads outside the buffer.
\<close>

type_synonym 'd json_cb = "byte list \<Rightarrow> json_item \<Rightarrow> 'd \<Rightarrow> json_code \<times> 'd"

function json_kv_loop :: "byte list \<Rightarrow> nat \<Rightarrow> 'd json_cb \<Rightarrow> nat \<Rightarrow> int \<Rightarrow> 'd \<Rightarrow> (int \<times> 'd) option" where
  "json_kv_loop m e cb p ret d =
     (if length m < p then None
      else if ch m p = 0 then Some (ret, d)
      else (case json_get_next_object JOBJECT m p e of
          Json_null \<Rightarrow> Some (ret, d)
        | Json_fault \<Rightarrow> None
        | Json_item it \<Rightarrow>
            if ji_klen it \<noteq> 0 \<and> ji_vlen it \<noteq> 0 then
              (let (code, d') = cb m it d
               in if code = JSON_PARSE_FINISH then Some (JSON_RESULT_OK, d')
                  else json_kv_loop m e cb (ji_next it) JSON_RESULT_OK d')
            else json_kv_loop m e cb (ji_next it) ret d))"
  by pat_completeness auto
termination
  by (relation "measure (\<lambda>(m, e, cb, p, ret, d). Suc (length m) - p)")
     (auto dest!: ch_nonzero json_next_progress)

declare json_kv_loop.simps [simp del]

text \<open>\<open>p\<close> and \<open>len\<close> are the arguments \<open>p_cJsonStr\<close> and \<open>iStrLen\<close>.\<close>

definition json_parse_name_value :: "byte list \<Rightarrow> nat \<Rightarrow> nat \<Rightarrow> 'd json_cb \<Rightarrow> 'd \<Rightarrow> (int \<times> 'd) option" where
  "json_parse_name_value m p len cb d =
     (if len = 0 then Some (JSON_RESULT_ERR, d)
      else (case json_get_object JOBJECT m p (p + len) of
          None \<Rightarrow> Some (JSON_RESULT_ERR, d)
        | Some pos \<Rightarrow> json_kv_loop m (p + len) cb pos JSON_RESULT_ERR d))"

section \<open>Look-up\<close>

text \<open>The value part of \<open>JSON_NV\<close>: place, length and type, or the null pointer.\<close>

type_synonym json_found = "(nat \<times> nat \<times> jtype) option"

definition json_get_value_by_name_cb :: "byte list \<Rightarrow> json_found json_cb" where
  "json_get_value_by_name_cb name m it nv =
     (if ji_klen it = length name \<and> window (ji_key it) (length name) m = name
      then (JSON_PARSE_FINISH, Some (ji_val it, ji_vlen it, ji_vtype it))
      else (JSON_PARSE_OK, nv))"

definition json_get_value_by_name_len :: "byte list \<Rightarrow> nat \<Rightarrow> nat \<Rightarrow> byte list \<Rightarrow> json_found option" where
  "json_get_value_by_name_len m p len name =
     map_option snd (json_parse_name_value m p len (json_get_value_by_name_cb name) None)"

text \<open>The name is a C string here.\<close>

definition json_get_value_by_name :: "byte list \<Rightarrow> nat \<Rightarrow> nat \<Rightarrow> byte list \<Rightarrow> json_found option" where
  "json_get_value_by_name m p len name = json_get_value_by_name_len m p len (cstr name)"

text \<open>
  The loop over the dots of the key: the window of the last object, or no value. The
  outer None is a read outside the buffer.
\<close>

function json_descend :: "byte list \<Rightarrow> nat \<Rightarrow> nat \<Rightarrow> byte list \<Rightarrow> ((nat \<times> nat \<times> byte list) option) option" where
  "json_descend m p len key =
     (if 46 \<in> set key then
        (case json_get_value_by_name_len m p len (takeWhile (\<lambda>c. c \<noteq> 46) key) of
           None \<Rightarrow> None
         | Some None \<Rightarrow> Some None
         | Some (Some (v, vlen, t)) \<Rightarrow> json_descend m v vlen (tl (dropWhile (\<lambda>c. c \<noteq> 46) key)))
      else Some (Some (p, len, key)))"
  by pat_completeness auto
termination
proof (relation "measure (\<lambda>(m, p, len, key). length key)", goal_cases)
  case (2 m p len key a b c d e)
  have "length (dropWhile (\<lambda>c. c \<noteq> 46) key) \<le> length key" by (rule length_dropWhile_le)
  moreover have "key \<noteq> []" using 2 by auto
  ultimately show ?case by (cases key) auto
qed simp

declare json_descend.simps [simp del]

text \<open>\<open>ok\<close> is the outcome of the allocation; the result is the string in the new buffer.\<close>

definition LITE_json_value_of :: "bool \<Rightarrow> byte list \<Rightarrow> byte list \<Rightarrow> byte list option option" where
  "LITE_json_value_of ok key m =
     (case json_descend m 0 (length (cstr m)) (cstr key) of
        None \<Rightarrow> None
      | Some None \<Rightarrow> Some None
      | Some (Some (p, len, name)) \<Rightarrow>
          (case json_get_value_by_name_len m p len name of
             None \<Rightarrow> None
           | Some None \<Rightarrow> Some None
           | Some (Some (v, vlen, t)) \<Rightarrow>
               Some (if ok then Some (fst (snprintf (vlen + 1) (cstr (drop v m)))) else None)))"

section \<open>Texts of JSON values\<close>

text \<open>
  The values the reader is used on, and their text without white space. The reader
  knows no escapes, so a string holds no quote; a null value is not among them.
\<close>

datatype jval = JStr "byte list" | JNum "byte list" | JBool bool
  | JObj "(byte list \<times> jval) list" | JArr "jval list"

definition quoted :: "byte list \<Rightarrow> byte list" where
  "quoted s = 34 # s @ [34]"

fun jtext :: "jval \<Rightarrow> byte list"
  and jmembers :: "(byte list \<times> jval) list \<Rightarrow> byte list"
  and jelems :: "jval list \<Rightarrow> byte list" where
  "jtext (JStr s) = quoted s"
| "jtext (JNum n) = n"
| "jtext (JBool b) = (if b then str ''true'' else str ''false'')"
| "jtext (JObj ms) = 123 # jmembers ms @ [125]"
| "jtext (JArr vs) = 91 # jelems vs @ [93]"
| "jmembers [] = []"
| "jmembers ((k, v) # ms) =
     quoted k @ 58 # jtext v @ (if ms = [] then [] else 44 # jmembers ms)"
| "jelems [] = []"
| "jelems (v # vs) = jtext v @ (if vs = [] then [] else 44 # jelems vs)"

lemma length_quoted [simp]: "length (quoted s) = Suc (Suc (length s))"
  by (simp add: quoted_def)

definition plain :: "byte list \<Rightarrow> bool" where
  "plain s \<longleftrightarrow> 34 \<notin> set s \<and> 0 \<notin> set s"

definition number :: "byte list \<Rightarrow> bool" where
  "number n \<longleftrightarrow> n \<noteq> [] \<and> (hd n = 45 \<or> is_digit (hd n)) \<and> list_all num_char n"

fun jwf :: "jval \<Rightarrow> bool" where
  "jwf (JStr s) \<longleftrightarrow> plain s"
| "jwf (JNum n) \<longleftrightarrow> number n"
| "jwf (JBool b) \<longleftrightarrow> True"
| "jwf (JObj ms) \<longleftrightarrow> (\<forall>(k, v)\<in>set ms. plain k \<and> jwf v)"
| "jwf (JArr vs) \<longleftrightarrow> (\<forall>v\<in>set vs. jwf v)"

text \<open>The text a look-up returns: a string without its quotes.\<close>

fun jcontent :: "jval \<Rightarrow> byte list" where
  "jcontent (JStr s) = s"
| "jcontent v = jtext v"

fun jtype_of :: "jval \<Rightarrow> jtype" where
  "jtype_of (JStr s) = JSTRING"
| "jtype_of (JNum n) = JNUMBER"
| "jtype_of (JBool b) = JBOOLEAN"
| "jtype_of (JObj ms) = JOBJECT"
| "jtype_of (JArr vs) = JARRAY"

section \<open>Scanning well-formed text\<close>

text \<open>One character in the scan of an object or array, when it does not end the scan.\<close>

definition scan1 :: "jtype \<Rightarrow> byte \<Rightarrow> nat \<times> bool \<Rightarrow> (nat \<times> bool) option" where
  "scan1 t c st =
     (let (d, s) = st
      in if c = 0 then None
         else if c = json_close t then
           (if s then Some (d, s) else if d = 0 then None else Some (d - 1, s))
         else if c = json_open t then (if s then Some (d, s) else Some (Suc d, s))
         else if c = 34 then Some (d, \<not> s)
         else Some (d, s))"

fun scan :: "jtype \<Rightarrow> byte list \<Rightarrow> nat \<times> bool \<Rightarrow> (nat \<times> bool) option" where
  "scan t [] st = Some st"
| "scan t (c # cs) st = (case scan1 t c st of None \<Rightarrow> None | Some st' \<Rightarrow> scan t cs st')"

lemma scan_append: "scan t (xs @ ys) st = (case scan t xs st of None \<Rightarrow> None | Some st' \<Rightarrow> scan t ys st')"
  by (induction xs arbitrary: st) (auto split: option.splits)

lemma json_value_len_scan:
  assumes "t = JOBJECT \<or> t = JARRAY" and "scan t cs (d, s) = Some (d', s')"
    and "p + length cs \<le> e"
    and "\<And>i. i < length cs \<Longrightarrow> ch m (p + i) = cs ! i"
  shows "json_value_len t m e v p d s = json_value_len t m e v (p + length cs) d' s'"
  using assms(2-)
proof (induction cs arbitrary: p d s)
  case (Cons c cs)
  obtain d1 s1 where st: "scan1 t c (d, s) = Some (d1, s1)" "scan t cs (d1, s1) = Some (d', s')"
    using Cons.prems(1) by (auto split: option.splits)
  have c: "ch m p = c" using Cons.prems(3) [of 0] by simp
  have "json_value_len t m e v p d s = json_value_len t m e v (Suc p) d1 s1"
    using assms(1) st(1) c Cons.prems(2)
    by (elim disjE; subst json_value_len.simps; auto simp: scan1_def json_open_def json_close_def split: if_splits)
  also have "\<dots> = json_value_len t m e v (Suc p + length cs) d' s'"
    using Cons.prems(2) Cons.prems(3) [of "Suc _"] by (intro Cons.IH st(2)) auto
  finally show ?case by simp
qed simp

lemma scan_plain: "list_all (\<lambda>c. c \<noteq> 0 \<and> c \<noteq> 34 \<and> c \<noteq> json_open t \<and> c \<noteq> json_close t) cs \<Longrightarrow>
  scan t cs st = Some st"
  by (induction cs) (auto simp: scan1_def Let_def split: prod.splits)

lemma scan_in_string: "plain cs \<Longrightarrow> scan t cs (d, True) = Some (d, True)"
  by (induction cs) (auto simp: scan1_def plain_def)

lemma scan_quoted:
  assumes "plain s" and "t = JOBJECT \<or> t = JARRAY"
  shows "scan t (quoted s) (d, False) = Some (d, False)"
proof -
  have q: "scan1 t 34 (d, b) = Some (d, \<not> b)" for b
    using assms(2) by (auto simp: scan1_def json_open_def json_close_def)
  show ?thesis by (simp add: quoted_def q scan_append scan_in_string [OF assms(1)])
qed

lemma num_char_plain: "num_char c \<Longrightarrow> c \<noteq> 0 \<and> c \<noteq> 34 \<and> c \<noteq> json_open t \<and> c \<noteq> json_close t"
  by (auto simp: num_char_def is_digit_def json_open_def json_close_def word_le_nat_alt)

lemma scan_value:
  assumes t: "t = JOBJECT \<or> t = JARRAY"
  shows "jwf v \<Longrightarrow> scan t (jtext v) (d, False) = Some (d, False)"
    "\<forall>(k, v)\<in>set ms. plain k \<and> jwf v \<Longrightarrow> scan t (jmembers ms) (d, False) = Some (d, False)"
    "\<forall>v\<in>set vs. jwf v \<Longrightarrow> scan t (jelems vs) (d, False) = Some (d, False)"
proof (induction v and ms and vs arbitrary: d and d and d rule: jtext_jmembers_jelems.induct)
  case (2 n)
  then have "list_all num_char n" by (simp add: number_def)
  then have "list_all (\<lambda>c. c \<noteq> 0 \<and> c \<noteq> 34 \<and> c \<noteq> json_open t \<and> c \<noteq> json_close t) n"
    by (rule list.pred_mono_strong) (rule num_char_plain)
  then show ?case by (simp add: scan_plain)
next
  case (3 b)
  show ?case using t by (auto simp: scan1_def json_open_def json_close_def)
next
  case (7 k v ms)
  have "scan1 t 58 (d, False) = Some (d, False)" "scan1 t 44 (d, False) = Some (d, False)" for d
    using t by (auto simp: scan1_def json_open_def json_close_def)
  with 7 show ?case by (simp add: scan_append scan_quoted [OF _ t])
next
  case (9 v vs)
  have "scan1 t 44 (d, False) = Some (d, False)" for d
    using t by (auto simp: scan1_def json_open_def json_close_def)
  with 9 show ?case by (simp add: scan_append)
qed (use t in \<open>auto simp: scan_quoted scan_append scan1_def json_open_def json_close_def\<close>)

section \<open>The text at a place\<close>

definition reads :: "byte list \<Rightarrow> nat \<Rightarrow> byte list \<Rightarrow> bool" where
  "reads m p cs \<longleftrightarrow> (\<forall>i<length cs. ch m (p + i) = cs ! i)"

lemma reads_Nil [simp]: "reads m p []"
  by (simp add: reads_def)

lemma reads_Cons [simp]: "reads m p (c # cs) \<longleftrightarrow> ch m p = c \<and> reads m (Suc p) cs"
  by (auto simp: reads_def nth_Cons less_Suc_eq_0_disj split: nat.splits)

lemma reads_append [simp]:
  "reads m p (xs @ ys) \<longleftrightarrow> reads m p xs \<and> reads m (p + length xs) ys"
  by (induction xs arbitrary: p) auto

lemma reads_self: "reads (xs @ cs @ ys) (length xs) cs"
  by (auto simp: reads_def ch_def nth_append)

lemma reads_window: "reads m p cs \<Longrightarrow> 0 \<notin> set cs \<Longrightarrow> window p (length cs) m = cs"
proof (induction cs arbitrary: p)
  case (Cons c cs)
  then have l: "p < length m" by (intro ch_nonzero) auto
  then have "window p (Suc (length cs)) m = m ! p # window (Suc p) (length cs) m"
    by (simp add: window_def Cons_nth_drop_Suc [symmetric])
  then show ?case using Cons l by (simp add: ch_def)
qed (simp add: window_def)

lemma reads_bound: "reads m p cs \<Longrightarrow> 0 \<notin> set cs \<Longrightarrow> cs \<noteq> [] \<Longrightarrow> p + length cs \<le> length m"
proof -
  assume r: "reads m p cs" and z: "0 \<notin> set cs" and n: "cs \<noteq> []"
  have "ch m (p + (length cs - 1)) = cs ! (length cs - 1)" using r n by (auto simp: reads_def)
  moreover have "cs ! (length cs - 1) \<in> set cs" using n by simp
  ultimately have "ch m (p + (length cs - 1)) \<noteq> 0" using z by metis
  then show ?thesis using ch_nonzero n by fastforce
qed

lemma strchr_skip: "reads m p cs \<Longrightarrow> c \<notin> set cs \<Longrightarrow> 0 \<notin> set cs \<Longrightarrow>
  strchr m c p = strchr m c (p + length cs)"
proof (induction cs arbitrary: p)
  case (Cons a cs)
  then have "strchr m c p = strchr m c (Suc p)" by (subst strchr.simps) auto
  with Cons show ?case by auto
qed simp

lemma strchr_here: "ch m p = c \<Longrightarrow> strchr m c p = Some p"
  by (subst strchr.simps) simp

lemma strchr_quoted: "reads m p (quoted k) \<Longrightarrow> plain k \<Longrightarrow>
  strchr m 34 p = Some p \<and> strchr m 34 (Suc p) = Some (Suc p + length k)"
  using strchr_skip [of m "Suc p" k 34] by (auto simp: quoted_def plain_def strchr_here)

text \<open>A value followed by a separator or a closing bracket.\<close>

definition jstart :: "jval \<Rightarrow> nat" where
  "jstart v = (case v of JStr s \<Rightarrow> 1 | _ \<Rightarrow> 0)"

lemma json_string_len: "reads m p (s @ [34]) \<Longrightarrow> plain s \<Longrightarrow> p + length s < e \<Longrightarrow> v \<le> p \<Longrightarrow>
  json_value_len JSTRING m e v p 0 False = p + length s - v"
proof (induction s arbitrary: p)
  case (Cons c s)
  then show ?case
    by (subst json_value_len.simps) (auto simp: plain_def)
qed (subst json_value_len.simps; auto)

lemma json_number_len: "reads m p (s @ [b]) \<Longrightarrow> list_all num_char s \<Longrightarrow> \<not> num_char b \<Longrightarrow> b \<noteq> 0 \<Longrightarrow>
  p + length s < e \<Longrightarrow> v \<le> p \<Longrightarrow> json_value_len JNUMBER m e v p 0 False = p + length s - v"
proof (induction s arbitrary: p)
  case (Cons c s)
  then have "c \<noteq> 0" using num_char_plain by auto
  with Cons show ?case by (subst json_value_len.simps) auto
qed (subst json_value_len.simps; auto)

lemma json_nested_len:
  assumes "reads m (Suc p) (cs @ [json_close t])" and "t = JOBJECT \<or> t = JARRAY"
    and "scan t cs (0, False) = Some (0, False)" and "Suc p + length cs < e"
  shows "json_value_len t m e p (Suc p) 0 False = length cs + 2"
proof -
  have "json_value_len t m e p (Suc p) 0 False = json_value_len t m e p (Suc p + length cs) 0 False"
    using assms by (intro json_value_len_scan) (auto simp: reads_def nth_append)
  also have "\<dots> = length cs + 2"
    using assms by (subst json_value_len.simps) (auto simp: json_close_def)
  finally show ?thesis .
qed

lemma is_digit_facts: "is_digit c \<Longrightarrow> c \<noteq> 0 \<and> c \<noteq> 34 \<and> c \<noteq> 123 \<and> c \<noteq> 91"
  by (auto simp: is_digit_def word_le_nat_alt)

lemma json_value_at:
  assumes "reads m p (jtext v @ [b])" and "b = 44 \<or> b = 125 \<or> b = 93" and "jwf v"
    and "p + length (jtext v) < e"
  shows "\<exists>q. json_find_value m e p = Some (jtype_of v, p + jstart v, q) \<and>
    json_value_len (jtype_of v) m e (p + jstart v) q 0 False = length (jcontent v)"
proof (cases v)
  case (JStr s)
  then show ?thesis
    using assms json_string_len [of m "Suc p" s e "Suc p"]
    by (subst json_find_value.simps) (auto simp: quoted_def jstart_def)
next
  case (JNum n)
  then obtain c cs where n: "n = c # cs" "c = 45 \<or> is_digit c" "list_all num_char cs"
    using assms by (cases n) (auto simp: number_def)
  have "\<not> num_char b" using assms(2) by (auto simp: num_char_def is_digit_def word_le_nat_alt)
  then have "json_value_len JNUMBER m e p (Suc p) 0 False = length n"
    using assms JNum n json_number_len [of m "Suc p" cs b e p] by auto
  then show ?thesis
    using assms JNum n is_digit_facts by (subst json_find_value.simps) (auto simp: jstart_def)
next
  case (JBool x)
  then have "reads m p (if x then str ''true'' else str ''false'')" using assms(1) by auto
  moreover have "0 \<notin> set (if x then str ''true'' else str ''false'')" by auto
  ultimately have w: "window p (if x then 4 else 5) m = (if x then str ''true'' else str ''false'')"
    using reads_window [of m p "if x then str ''true'' else str ''false''"]
    by (cases x) (auto simp: eval_nat_numeral)
  show ?thesis
  proof (cases x)
    case True
    then show ?thesis
      using assms JBool w
      by (subst json_find_value.simps, subst json_value_len.simps)
         (auto simp: jstart_def json_true_at_def is_digit_def)
  next
    case False
    have "window p 4 m = take 4 (window p 5 m)" by (simp add: window_def)
    then show ?thesis
      using assms JBool w False
      by (subst json_find_value.simps, subst json_value_len.simps)
         (auto simp: jstart_def json_true_at_def json_false_at_def is_digit_def)
  qed
next
  case (JObj ms)
  then show ?thesis
    using assms json_nested_len [of m p "jmembers ms" JOBJECT e] scan_value(2) [of JOBJECT ms 0]
    by (subst json_find_value.simps) (auto simp: jstart_def json_close_def)
next
  case (JArr vs)
  then show ?thesis
    using assms json_nested_len [of m p "jelems vs" JARRAY e] scan_value(3) [of JARRAY vs 0]
    by (subst json_find_value.simps) (auto simp: jstart_def json_close_def)
qed

section \<open>Iteration over the members\<close>

definition member_item :: "nat \<Rightarrow> byte list \<Rightarrow> jval \<Rightarrow> json_item" where
  "member_item p k v = (let q = p + length k + 3 in
     \<lparr>ji_key = Suc p, ji_klen = length k, ji_val = q + jstart v, ji_vlen = length (jcontent v),
      ji_vtype = jtype_of v, ji_next = q + length (jtext v)\<rparr>)"

lemma json_next_member:
  assumes r: "reads m p (quoted k @ 58 # jtext v @ [b])" and k: "plain k" and v: "jwf v"
    and b: "b = 44 \<or> b = 125" and e: "p + length k + 3 + length (jtext v) < e"
  shows "json_get_next_object JOBJECT m p e = Json_item (member_item p k v)"
proof -
  let ?c = "p + length k + 2"
  have l: "length (quoted k) = length k + 2" by (simp add: quoted_def)
  have q: "strchr m 34 p = Some p" "strchr m 34 (Suc p) = Some (Suc p + length k)"
    using r k strchr_quoted by auto
  have c58: "ch m ?c = 58" and rv: "reads m (Suc ?c) (jtext v @ [b])"
    using r l by (auto simp: add.commute add.left_commute)
  have q': "ch m (Suc (p + length k)) = 34" using r by (auto simp: quoted_def)
  have colon: "strchr m 58 (Suc p + length k) = Some ?c"
    using q' c58 by (subst strchr.simps) (simp add: strchr_here)
  obtain x where x: "json_find_value m e (Suc ?c) = Some (jtype_of v, Suc ?c + jstart v, x)"
    "json_value_len (jtype_of v) m e (Suc ?c + jstart v) x 0 False = length (jcontent v)"
    using json_value_at [OF rv _ v, of e] b e by auto
  have f: "json_find_value m e ?c = json_find_value m e (Suc ?c)"
    using c58 e by (subst json_find_value.simps) (simp add: is_digit_def)
  have t: "jstart v + length (jcontent v) + (if jtype_of v = JSTRING then 1 else 0) = length (jtext v)"
    by (cases v) (auto simp: jstart_def quoted_def)
  show ?thesis
    using q colon x f t e
    by (auto simp: json_get_next_object_def json_item_from_def member_item_def Let_def)
qed

lemma json_next_none:
  assumes "\<And>q. strchr m 34 p = Some q \<Longrightarrow> e \<le> q"
  shows "json_get_next_object JOBJECT m p e = Json_null"
  using assms by (auto simp: json_get_next_object_def json_item_from_def Let_def split: option.splits)

text \<open>The items of an object whose members start at index \<open>p\<close>.\<close>

fun items :: "nat \<Rightarrow> (byte list \<times> jval) list \<Rightarrow> json_item list" where
  "items p [] = []"
| "items p ((k, v) # ms) = member_item p k v # items (p + length k + 4 + length (jtext v)) ms"

text \<open>What a callback sees of them, and the result of \<open>json_parse_name_value\<close>.\<close>

fun visit :: "byte list \<Rightarrow> 'd json_cb \<Rightarrow> json_item list \<Rightarrow> int \<Rightarrow> 'd \<Rightarrow> int \<times> 'd" where
  "visit m cb [] ret d = (ret, d)"
| "visit m cb (it # its) ret d =
     (if ji_klen it \<noteq> 0 \<and> ji_vlen it \<noteq> 0 then
        (let (code, d') = cb m it d
         in if code = JSON_PARSE_FINISH then (JSON_RESULT_OK, d')
            else visit m cb its JSON_RESULT_OK d')
      else visit m cb its ret d)"

definition members_ok :: "(byte list \<times> jval) list \<Rightarrow> bool" where
  "members_ok ms \<longleftrightarrow> (\<forall>(k, v)\<in>set ms. plain k \<and> jwf v)"

lemma num_nonzero: "list_all num_char n \<Longrightarrow> 0 \<notin> set n"
  using num_char_plain by (auto simp: list_all_iff)

lemma jtext_nonzero:
  "jwf v \<Longrightarrow> 0 \<notin> set (jtext v)"
  "\<forall>(k, v)\<in>set ms. plain k \<and> jwf v \<Longrightarrow> 0 \<notin> set (jmembers ms)"
  "\<forall>v\<in>set vs. jwf v \<Longrightarrow> 0 \<notin> set (jelems vs)"
  by (induction v and ms and vs rule: jtext_jmembers_jelems.induct)
     (auto simp: quoted_def plain_def number_def num_nonzero split: if_splits)

lemma strchr_quote_skip1: "ch m p = c \<Longrightarrow> c \<noteq> 34 \<Longrightarrow> c \<noteq> 0 \<Longrightarrow> strchr m 34 p = strchr m 34 (Suc p)"
  by (subst strchr.simps) simp

lemma json_next_skip1: "ch m p = c \<Longrightarrow> c \<noteq> 34 \<Longrightarrow> c \<noteq> 0 \<Longrightarrow>
  json_get_next_object JOBJECT m p e = json_get_next_object JOBJECT m (Suc p) e"
  by (simp add: json_get_next_object_def strchr_quote_skip1)

lemma json_next_end:
  assumes "ch m p = 125" and "e \<le> Suc p"
  shows "json_get_next_object JOBJECT m p e = Json_null"
proof (rule json_next_none)
  fix q
  assume "strchr m 34 p = Some q"
  then have "strchr m 34 (Suc p) = Some q" using assms(1) strchr_quote_skip1 by simp
  then show "e \<le> q" using assms(2) strchr_Some by fastforce
qed

text \<open>From the byte before the first member (a brace or a comma) to the closing brace.\<close>

lemma json_kv_loop_members:
  assumes "members_ok ms" and "reads m p (c # jmembers ms @ [125])" and "c = 123 \<or> c = 44"
    and "e = p + length (jmembers ms) + 2"
  shows "json_kv_loop m e cb p ret d = Some (visit m cb (items (Suc p) ms) ret d)"
  using assms
proof (induction ms arbitrary: p c ret d)
  case Nil
  have e: "json_get_next_object JOBJECT m p e = Json_null"
    using Nil json_next_end [of m "Suc p" e] json_next_skip1 [of m p c e] by auto
  have "ch m p \<noteq> 0" using Nil by auto
  then show ?case using e ch_nonzero [of m p] by (subst json_kv_loop.simps) auto
next
  case (Cons kv ms)
  obtain k v where kv: "kv = (k, v)" by force
  let ?it = "member_item (Suc p) k v" and ?t = "if ms = [] then [] else 44 # jmembers ms"
  have w: "plain k" "jwf v" "members_ok ms" using Cons.prems(1) kv by (auto simp: members_ok_def)
  have r: "reads m (Suc p) (quoted k @ 58 # jtext v @ ?t @ [125])"
    using Cons.prems(2) kv by simp
  obtain b rest where b: "?t @ [125] = b # rest" "b = 44 \<or> b = 125"
    by (cases "ms = []") auto
  have len: "length (quoted k) = length k + 2" by (simp add: quoted_def)
  have e: "e = p + length k + length (jtext v) + length ?t + 5"
    using Cons.prems(4) kv len by simp
  have r1: "reads m (Suc p) (quoted k @ 58 # jtext v @ [b])"
    using r b(1) by (metis append_Cons append_Nil append_assoc reads_append)
  have nx: "json_get_next_object JOBJECT m p e = Json_item ?it"
    using json_next_skip1 [of m p c e] Cons.prems(2,3) json_next_member [OF r1 w(1,2) b(2)] e by auto
  have nxt: "ji_next ?it = p + length k + 4 + length (jtext v)"
    by (simp add: member_item_def Let_def)
  have rest: "json_kv_loop m e cb (ji_next ?it) ret' d' =
    Some (visit m cb (items (Suc (ji_next ?it)) ms) ret' d')" for ret' d'
  proof (cases "ms = []")
    case True
    have c: "ch m (ji_next ?it) = 125" using r True nxt len by (simp add: eval_nat_numeral ac_simps)
    then have "json_get_next_object JOBJECT m (ji_next ?it) e = Json_null"
      using json_next_end e nxt True by simp
    then show ?thesis
      using c True ch_nonzero [of m "ji_next ?it"] by (subst json_kv_loop.simps) auto
  next
    case False
    have "reads m (ji_next ?it) (44 # jmembers ms @ [125])"
      using r False nxt len by (simp add: eval_nat_numeral ac_simps)
    moreover have "e = ji_next ?it + length (jmembers ms) + 2" using e nxt False by simp
    ultimately show ?thesis using Cons.IH [OF w(3), of "ji_next ?it" 44] by blast
  qed
  have "ch m p \<noteq> 0" using Cons.prems by auto
  then have p: "\<not> length m < p" "ch m p \<noteq> 0" using ch_nonzero [of m p] by auto
  show ?case
    by (subst json_kv_loop.simps) (use p nx rest nxt kv in \<open>simp add: split_def Let_def algebra_simps\<close>)
qed

lemma json_parse_members:
  assumes w: "members_ok ms" and r: "reads m p (jtext (JObj ms))"
  shows "json_parse_name_value m p (length (jtext (JObj ms))) cb d =
    Some (visit m cb (items (Suc p) ms) JSON_RESULT_ERR d)"
proof -
  have "json_get_object JOBJECT m p (p + (length (jmembers ms) + 2)) = Some p"
    using r by (subst json_get_object.simps) (simp add: json_open_def)
  then show ?thesis
    using json_kv_loop_members [OF w, of m p 123 "p + length (jmembers ms) + 2" cb] r
    by (simp add: json_parse_name_value_def add.assoc)
qed

section \<open>Look-up in an object\<close>

definition jget :: "byte list \<Rightarrow> (byte list \<times> jval) list \<Rightarrow> jval option" where
  "jget k ms = map_option snd (find (\<lambda>(n, v). n = k \<and> jcontent v \<noteq> []) ms)"

lemma reads_members_Cons:
  "reads m p (jmembers ((k, v) # ms)) \<longleftrightarrow> reads m p (quoted k @ 58 # jtext v) \<and>
     (ms \<noteq> [] \<longrightarrow> reads m (p + length k + 3 + length (jtext v)) (44 # jmembers ms))"
  by (auto simp: quoted_def eval_nat_numeral ac_simps)

lemma reads_quoted_key: "reads m p (quoted k) \<Longrightarrow> plain k \<Longrightarrow> window (Suc p) (length k) m = k"
  using reads_window [of m "Suc p" k] by (simp add: quoted_def plain_def)

lemma reads_content: "reads m p (jtext v) \<Longrightarrow> reads m (p + jstart v) (jcontent v)"
  by (cases v) (auto simp: quoted_def jstart_def)

lemma visit_by_name:
  assumes "members_ok ms" and "reads m p (jmembers ms)" and "k \<noteq> []"
  shows "\<exists>q. snd (visit m (json_get_value_by_name_cb k) (items p ms) ret d) =
      (case jget k ms of None \<Rightarrow> d | Some v \<Rightarrow> Some (q + jstart v, length (jcontent v), jtype_of v)) \<and>
    (\<forall>v. jget k ms = Some v \<longrightarrow> jwf v \<and> reads m q (jtext v))"
  using assms(1,2)
proof (induction ms arbitrary: p ret)
  case Nil
  then show ?case by (simp add: jget_def)
next
  case (Cons kv ms)
  obtain n v where kv: "kv = (n, v)" by force
  let ?it = "member_item p n v"
  have w: "plain n" "jwf v" "members_ok ms" using Cons.prems(1) kv by (auto simp: members_ok_def)
  have "reads m p (quoted n @ 58 # jtext v)"
    and rs: "ms \<noteq> [] \<Longrightarrow> reads m (p + length n + 4 + length (jtext v)) (jmembers ms)"
    using Cons.prems(2) unfolding kv reads_members_Cons by (simp_all add: eval_nat_numeral)
  then have r: "reads m p (quoted n)" "reads m (p + length n + 3) (jtext v)"
    by (simp_all add: eval_nat_numeral)
  have f: "ji_key ?it = Suc p" "ji_klen ?it = length n" "ji_val ?it = p + length n + 3 + jstart v"
    "ji_vlen ?it = length (jcontent v)" "ji_vtype ?it = jtype_of v"
    by (simp_all add: member_item_def Let_def)
  have hit: "(ji_klen ?it = length k \<and> window (ji_key ?it) (length k) m = k) = (n = k)"
    unfolding f using reads_quoted_key [OF r(1) w(1)] by metis
  have rs': "reads m (p + length n + 4 + length (jtext v)) (jmembers ms)"
    using rs by (cases "ms = []") auto
  let ?cb = "json_get_value_by_name_cb k" and ?p = "p + length n + 4 + length (jtext v)"
  have cb: "?cb m ?it nv = (if n = k then (JSON_PARSE_FINISH,
      Some (p + length n + 3 + jstart v, length (jcontent v), jtype_of v)) else (JSON_PARSE_OK, nv))" for nv
    unfolding json_get_value_by_name_cb_def hit by (simp only: f)
  have vis: "visit m ?cb (items p (kv # ms)) ret d =
     (if n \<noteq> [] \<and> jcontent v \<noteq> [] then
        (if n = k then (JSON_RESULT_OK, Some (p + length n + 3 + jstart v, length (jcontent v), jtype_of v))
         else visit m ?cb (items ?p ms) JSON_RESULT_OK d)
      else visit m ?cb (items ?p ms) ret d)"
    by (simp add: kv cb f)
  show ?case
  proof (cases "n = k \<and> jcontent v \<noteq> []")
    case True
    then have "jget k (kv # ms) = Some v" by (simp add: jget_def kv)
    then show ?thesis using True vis assms(3) w(2) r(2) by auto
  next
    case False
    then have g: "jget k (kv # ms) = jget k ms" by (auto simp: jget_def kv)
    have "visit m ?cb (items p (kv # ms)) ret d =
        visit m ?cb (items ?p ms) (if n \<noteq> [] \<and> jcontent v \<noteq> [] then JSON_RESULT_OK else ret) d"
      using False vis assms(3) by auto
    then show ?thesis unfolding g by (simp only: Cons.IH [OF w(3) rs'])
  qed
qed

lemma json_get_value_member:
  assumes "jwf (JObj ms)" and "reads m p (jtext (JObj ms))" and "k \<noteq> []"
  shows "\<exists>q. json_get_value_by_name_len m p (length (jtext (JObj ms))) k =
      Some (map_option (\<lambda>v. (q + jstart v, length (jcontent v), jtype_of v)) (jget k ms)) \<and>
    (\<forall>v. jget k ms = Some v \<longrightarrow> jwf v \<and> reads m q (jtext v))"
proof -
  have w: "members_ok ms" using assms(1) by (simp add: members_ok_def)
  have r: "reads m (Suc p) (jmembers ms)" using assms(2) by simp
  show ?thesis
    unfolding json_get_value_by_name_len_def json_parse_members [OF w assms(2)]
    using visit_by_name [OF w r assms(3), of JSON_RESULT_ERR None] by (cases "jget k ms") auto
qed

section \<open>Look-up along a path\<close>

fun jwalk :: "jval \<Rightarrow> byte list list \<Rightarrow> jval option" where
  "jwalk v [] = Some v"
| "jwalk (JObj ms) (k # ks) = (case jget k ms of None \<Rightarrow> None | Some v \<Rightarrow> jwalk v ks)"
| "jwalk v (k # ks) = None"

text \<open>Every look-up of the path is in an object.\<close>

fun jpath_objects :: "jval \<Rightarrow> byte list list \<Rightarrow> bool" where
  "jpath_objects v [] = True"
| "jpath_objects (JObj ms) (k # ks) = (case jget k ms of None \<Rightarrow> True | Some v \<Rightarrow> jpath_objects v ks)"
| "jpath_objects v (k # ks) = False"

fun dotted :: "byte list list \<Rightarrow> byte list" where
  "dotted [] = []"
| "dotted [k] = k"
| "dotted (k # ks) = k @ 46 # dotted ks"

definition path_ok :: "byte list list \<Rightarrow> bool" where
  "path_ok ks \<longleftrightarrow> ks \<noteq> [] \<and> (\<forall>k\<in>set ks. k \<noteq> [] \<and> 46 \<notin> set k \<and> 0 \<notin> set k)"

lemma dotted_split: "46 \<notin> set k \<Longrightarrow>
  takeWhile (\<lambda>c. c \<noteq> 46) (k @ 46 # r) = k \<and> dropWhile (\<lambda>c. c \<noteq> 46) (k @ 46 # r) = 46 # r"
  by (induction k) auto

lemma dotted_nonzero: "path_ok ks \<Longrightarrow> 0 \<notin> set (dotted ks)"
  by (induction ks rule: dotted.induct) (auto simp: path_ok_def)

lemma jpath_objects_head: "jpath_objects v (k # ks) \<Longrightarrow> \<exists>ms. v = JObj ms"
  by (cases v) auto

lemma json_descend_path:
  assumes "jwf v" and "reads m p (jtext v)" and "path_ok ks" and "jpath_objects v ks"
  shows "\<exists>q. (case json_descend m p (length (jtext v)) (dotted ks) of
       Some (Some (p', len, name)) \<Rightarrow> json_get_value_by_name_len m p' len name
     | Some None \<Rightarrow> Some None | None \<Rightarrow> None)
    = Some (map_option (\<lambda>w. (q + jstart w, length (jcontent w), jtype_of w)) (jwalk v ks)) \<and>
    (\<forall>w. jwalk v ks = Some w \<longrightarrow> jwf w \<and> reads m q (jtext w))"
  using assms
proof (induction ks arbitrary: v p rule: dotted.induct)
  case 1
  then show ?case by (simp add: path_ok_def)
next
  case (2 k)
  obtain ms where v: "v = JObj ms" using "2.prems"(4) jpath_objects_head by blast
  have k: "46 \<notin> set k" "k \<noteq> []" using "2.prems"(3) by (auto simp: path_ok_def)
  have d: "json_descend m p (length (jtext v)) (dotted [k]) = Some (Some (p, length (jtext v), k))"
    using k by (subst json_descend.simps) simp
  have "jwalk v [k] = jget k ms" by (simp add: v split: option.splits)
  then show ?case
    using json_get_value_member [of ms m p k] "2.prems"(1,2) v k(2) unfolding d by simp
next
  case (3 k k' ks)
  obtain ms where v: "v = JObj ms" using "3.prems"(4) jpath_objects_head by blast
  have k: "46 \<notin> set k" "k \<noteq> []" and ok: "path_ok (k' # ks)"
    using "3.prems"(3) by (auto simp: path_ok_def)
  have "jwf (JObj ms)" "reads m p (jtext (JObj ms))" using "3.prems"(1,2) v by simp_all
  from json_get_value_member [OF this k(2)] obtain q
    where g: "json_get_value_by_name_len m p (length (jtext v)) k =
      Some (map_option (\<lambda>v. (q + jstart v, length (jcontent v), jtype_of v)) (jget k ms))"
    and q: "\<And>v. jget k ms = Some v \<Longrightarrow> jwf v \<and> reads m q (jtext v)"
    unfolding v by blast
  have d: "dotted (k # k' # ks) = k @ 46 # dotted (k' # ks)" by simp
  show ?case
  proof (cases "jget k ms")
    case None
    then show ?thesis
      using g v dotted_split [OF k(1)] by (subst json_descend.simps) (simp add: d del: dotted.simps)
  next
    case (Some u)
    then obtain us where u: "u = JObj us"
      using "3.prems"(4) v jpath_objects_head [of u k' ks] by auto
    have "json_descend m p (length (jtext v)) (dotted (k # k' # ks)) =
        json_descend m q (length (jtext u)) (dotted (k' # ks))"
      using g v Some u dotted_split [OF k(1)]
      by (subst json_descend.simps) (simp add: d jstart_def del: dotted.simps)
    then show ?thesis
      using "3.IH" [of u q] q [OF Some] ok "3.prems"(4) v Some by simp
  qed
qed

lemma cstr_nonzero: "0 \<notin> set cs \<Longrightarrow> cstr cs = cs"
  by (auto simp: cstr_def takeWhile_eq_all_conv)

lemma cstr_drop_window:
  assumes "reads m p cs" and "0 \<notin> set m" and "0 \<notin> set cs"
  shows "take (length cs) (cstr (drop p m)) = cs"
proof -
  have "0 \<notin> set (drop p m)" using assms(2) by (meson in_set_dropD)
  then show ?thesis using reads_window [OF assms(1,3)] by (simp add: cstr_nonzero window_def)
qed

lemma LITE_json_value_of_path:
  assumes "jwf v" and "path_ok ks" and "jpath_objects v ks"
  shows "LITE_json_value_of True (dotted ks) (jtext v) = Some (map_option jcontent (jwalk v ks))"
proof -
  let ?m = "jtext v"
  have z: "0 \<notin> set ?m" using jtext_nonzero(1) assms(1) .
  have r: "reads ?m 0 (jtext v)" using reads_self [of "[]" "jtext v" "[]"] by simp
  have c: "cstr ?m = ?m" "cstr (dotted ks) = dotted ks"
    using z dotted_nonzero [OF assms(2)] by (simp_all add: cstr_nonzero)
  obtain q where d: "(case json_descend ?m 0 (length ?m) (dotted ks) of
       Some (Some (p', len, name)) \<Rightarrow> json_get_value_by_name_len ?m p' len name
     | Some None \<Rightarrow> Some None | None \<Rightarrow> None)
    = Some (map_option (\<lambda>w. (q + jstart w, length (jcontent w), jtype_of w)) (jwalk v ks))"
    and q: "\<And>w. jwalk v ks = Some w \<Longrightarrow> jwf w \<and> reads ?m q (jtext w)"
    using json_descend_path [OF assms(1) r assms(2,3)] by metis
  have cont: "take (length (jcontent w)) (cstr (drop (q + jstart w) ?m)) = jcontent w"
    if "jwalk v ks = Some w" for w
  proof -
    have "reads ?m (q + jstart w) (jcontent w)" using q [OF that] reads_content by blast
    moreover have "0 \<notin> set (jcontent w)"
      using q [OF that] jtext_nonzero(1) [of w] by (cases w) (auto simp: plain_def)
    ultimately show ?thesis using cstr_drop_window z by blast
  qed
  show ?thesis
    using d cont unfolding LITE_json_value_of_def c
    by (cases "jwalk v ks") (auto simp: snprintf_def split: option.splits)
qed

section \<open>Any text\<close>

definition json_collect :: "json_item list json_cb" where
  "json_collect m it its = (JSON_PARSE_OK, its @ [it])"

definition in_window :: "nat \<Rightarrow> nat \<Rightarrow> json_item \<Rightarrow> bool" where
  "in_window p e it \<longleftrightarrow> p < ji_key it \<and> ji_key it + ji_klen it \<le> e \<and>
     ji_key it + ji_klen it < ji_val it \<and> ji_val it + ji_vlen it \<le> e"

lemma json_next_window:
  assumes "json_get_next_object JOBJECT m p e = Json_item it"
  shows "in_window p e it"
proof -
  obtain q q' where q: "strchr m 34 p = Some q" "strchr m 34 (Suc q) = Some q'"
    and i: "json_item_from JOBJECT m e (Suc q) (q' - Suc q) (strchr m 58 q') = Json_item it"
    using assms by (auto simp: json_get_next_object_def split: option.splits)
  obtain c t v r where c: "strchr m 58 q' = Some c" "json_find_value m e c = Some (t, v, r)"
    and n: "ji_key it = Suc q" "ji_klen it = q' - Suc q" "ji_val it = v"
      "Suc q + (q' - Suc q) \<le> e" "v + ji_vlen it \<le> e"
    using i by (cases "strchr m 58 q'") (auto simp: json_item_from_def Let_def split: option.splits if_splits)
  have "c \<noteq> q'" using strchr_Some [OF q(2)] strchr_Some [OF c(1)] by auto
  then show ?thesis
    using strchr_Some [OF q(1)] strchr_Some [OF q(2)] strchr_Some [OF c(1)] json_find_value_ge [OF c(2)] n
    by (auto simp: in_window_def)
qed

lemma json_kv_loop_window:
  "json_kv_loop m e json_collect p ret d = Some (ret', its) \<Longrightarrow> \<forall>it\<in>set d. in_window p0 e it \<Longrightarrow>
   p0 \<le> p \<Longrightarrow> \<forall>it\<in>set its. in_window p0 e it"
proof (induction m e "json_collect :: json_item list json_cb" p ret d rule: json_kv_loop.induct [case_names loop])
  case (loop m e p ret d)
  show ?case
  proof (cases "length m < p \<or> ch m p = 0")
    case True
    then show ?thesis using loop.prems by (subst (asm) json_kv_loop.simps) (auto split: if_splits)
  next
    case False
    show ?thesis
    proof (cases "json_get_next_object JOBJECT m p e")
      case (Json_item it)
      have w: "in_window p0 e it" "p0 \<le> ji_next it"
        using json_next_window [OF Json_item] json_next_progress [OF Json_item] loop.prems(3)
        by (auto simp: in_window_def)
      show ?thesis
        using loop.prems loop.hyps [OF _ _ Json_item] False Json_item w
        by (subst (asm) json_kv_loop.simps) (auto simp: json_collect_def split: if_splits)
    qed (use loop.prems False in \<open>subst (asm) json_kv_loop.simps; auto\<close>)+
  qed
qed

lemma json_get_object_ge: "json_get_object t m p e = Some q \<Longrightarrow> p \<le> q"
proof (induction t m p e rule: json_get_object.induct)
  case (1 t m p e)
  then show ?case by (subst (asm) (2) json_get_object.simps) (auto split: if_splits)
qed

lemma json_collect_window:
  assumes "json_parse_name_value m p len json_collect [] = Some (ret, its)" and "it \<in> set its"
  shows "in_window p (p + len) it"
  using assms json_get_object_ge
  by (fastforce simp: json_parse_name_value_def split: if_splits option.splits
      dest: json_kv_loop_window [where ?p0.0 = p])

lemma Suc_add_num: "Suc (n + numeral i) = n + numeral (i + Num.One)"
  by (simp only: add_Suc_right [symmetric] Suc_numeral)

lemma strchr_colon: "ch m p = 34 \<Longrightarrow> ch m (Suc p) = 58 \<Longrightarrow> strchr m 58 p = Some (Suc p)"
  by (subst strchr.simps) (simp add: strchr_here)

lemma json_find_skip: "ch m p \<in> {58, 110, 117, 108, 44} \<Longrightarrow> p < e \<Longrightarrow>
  json_find_value m e p = json_find_value m e (Suc p)"
  by (subst json_find_value.simps) (auto simp: is_digit_def)

lemma json_find_quote: "ch m p = 34 \<Longrightarrow> p < e \<Longrightarrow>
  json_find_value m e p = Some (JSTRING, Suc p, Suc p)"
  by (subst json_find_value.simps) simp

text \<open>A text that ends after the opening quote of a value.\<close>

lemma json_truncated_reads_outside:
  assumes "plain k"
  shows "json_parse_name_value (123 # quoted k @ [58, 34]) 0 (length k + 5) cb d = None"
proof -
  let ?m = "123 # quoted k @ [58, 34]"
  have r: "reads ?m 0 ?m" using reads_self [of "[]" ?m "[]"] by simp
  have q: "reads ?m 1 (quoted k)" "ch ?m (length k + 3) = 58" "ch ?m (length k + 4) = 34"
    using r by (simp_all add: eval_nat_numeral)
  have q': "ch ?m (length k + 2) = 34" using q(1) by (auto simp: quoted_def)
  have z: "ch ?m (length k + 5) = 0" by (simp add: ch_def)
  have "strchr ?m 34 0 = strchr ?m 34 1" using strchr_quote_skip1 [of ?m 0 123] by simp
  then have s: "strchr ?m 34 0 = Some 1" "strchr ?m 34 2 = Some (length k + 2)"
    using strchr_quoted [OF q(1) assms] by (simp_all add: numeral_2_eq_2)
  have c: "strchr ?m 58 (length k + 2) = Some (length k + 3)"
    using strchr_colon [of ?m "length k + 2"] q' q(2) by (simp add: numeral_3_eq_3)
  have f: "json_find_value ?m (length k + 5) (length k + 3) = Some (JSTRING, length k + 5, length k + 5)"
    using q json_find_skip [of ?m "length k + 3" "length k + 5"]
      json_find_quote [of ?m "length k + 4" "length k + 5"] by (simp add: Suc_add_num)
  have l: "json_value_len JSTRING ?m (length k + 5) (length k + 5) (length k + 5) 0 False = 0"
    by (subst json_value_len.simps) simp
  have "json_get_next_object JOBJECT ?m 0 (length k + 5) = Json_item \<lparr>ji_key = 2, ji_klen = length k,
      ji_val = length k + 5, ji_vlen = 0, ji_vtype = JSTRING, ji_next = length k + 6\<rparr>"
    using s c f l by (simp add: json_get_next_object_def json_item_from_def eval_nat_numeral)
  moreover have "json_kv_loop ?m (length k + 5) cb (length k + 6) (-1) d = None"
    by (subst json_kv_loop.simps) simp
  moreover have "json_get_object JOBJECT ?m 0 (length k + 5) = Some 0"
    by (subst json_get_object.simps) (simp add: json_open_def ch_def)
  ultimately show ?thesis
    by (simp add: json_parse_name_value_def, subst json_kv_loop.simps) (simp add: ch_def)
qed

text \<open>A null value: the reader takes the next key for the value.\<close>

lemma json_null_takes_next_key:
  assumes "plain k" "plain k2" "k \<noteq> []" "k2 \<noteq> []"
    and m: "m = 123 # quoted k @ 58 # str ''null,'' @ quoted k2 @ 58 # rest"
  shows "json_get_value_by_name_len m 0 (length m) k = Some (Some (length k + 10, length k2, JSTRING))"
proof -
  have r: "reads m 0 m" using reads_self [of "[]" m "[]"] by simp
  have q: "reads m 1 (quoted k)" "reads m (length k + 3) (58 # str ''null,'')"
    "reads m (length k + 9) (quoted k2)"
    using r unfolding m by (simp_all add: eval_nat_numeral)
  have n: "length m = length k + length k2 + length rest + 12"
    by (simp add: m)
  have q': "ch m (length k + 2) = 34" using q(1) by (auto simp: quoted_def)
  have m0: "ch m 0 = 123" by (simp add: m)
  have "strchr m 34 0 = strchr m 34 1" using strchr_quote_skip1 [of m 0 123] m0 by simp
  then have s: "strchr m 34 0 = Some 1" "strchr m 34 2 = Some (length k + 2)"
    using strchr_quoted [OF q(1) assms(1)] by (simp_all add: numeral_2_eq_2)
  have c: "strchr m 58 (length k + 2) = Some (length k + 3)"
    using strchr_colon [of m "length k + 2"] q' q(2) by (simp add: numeral_3_eq_3)
  have f: "json_find_value m (length m) (length k + 3) = Some (JSTRING, length k + 10, length k + 10)"
  proof -
    have n: "length k + 9 < length m" using n by simp
    have "ch m (length k + 3) = 58" "ch m (length k + 4) = 110" "ch m (length k + 5) = 117"
      "ch m (length k + 6) = 108" "ch m (length k + 7) = 108" "ch m (length k + 8) = 44"
      "ch m (length k + 9) = 34"
      using q(2,3) by (simp_all add: quoted_def Suc_add_num)
    then show ?thesis
      using n json_find_quote [of m "length k + 9" "length m"]
      by (simp add: json_find_skip Suc_add_num)
  qed
  have l: "json_value_len JSTRING m (length m) (length k + 10) (length k + 10) 0 False = length k2"
    using q(3) n json_string_len [of m "length k + 10" k2 "length m" "length k + 10"] assms(2)
    by (simp add: quoted_def Suc_add_num)
  have it: "json_get_next_object JOBJECT m 0 (length m) = Json_item \<lparr>ji_key = 2, ji_klen = length k,
      ji_val = length k + 10, ji_vlen = length k2, ji_vtype = JSTRING, ji_next = length k + 11 + length k2\<rparr>"
    using s c f l n by (simp add: json_get_next_object_def json_item_from_def Let_def eval_nat_numeral)
  have w: "window 2 (length k) m = k"
    using reads_quoted_key [OF q(1) assms(1)] by (simp add: eval_nat_numeral)
  have "json_kv_loop m (length m) (json_get_value_by_name_cb k) 0 (-1) None =
      Some (0, Some (length k + 10, length k2, JSTRING))"
    using it w assms(3,4) m0 by (subst json_kv_loop.simps) (simp add: json_get_value_by_name_cb_def)
  moreover have "json_get_object JOBJECT m 0 (length m) = Some 0"
    using m0 n by (subst json_get_object.simps) (simp add: json_open_def)
  ultimately show ?thesis
    using n by (simp add: json_get_value_by_name_len_def json_parse_name_value_def)
qed

end
