(* ===== verification/Lexer.thy ===== *)
theory Lexer
  imports Prelude "HOL-Library.While_Combinator"
begin

text \<open>
  engine/lite_engine/core/be_lex.c with the character tables and the integer reader of
  be_utils.c: the lexical analyser of the JavaScript engine. A loop of the C code is
  \<open>while_option\<close>, with None for a loop that never ends. What the table of character
  attributes yields beyond its 128 entries is the parameter \<open>oob\<close>.
\<close>

section \<open>Characters\<close>

definition FL_PRINT :: byte where "FL_PRINT = 0x01"
definition FL_SPACE :: byte where "FL_SPACE = 0x02"
definition FL_DIGIT :: byte where "FL_DIGIT = 0x04"
definition FL_ALPHA :: byte where "FL_ALPHA = 0x08"
definition FL_UPPER :: byte where "FL_UPPER = 0x10"
definition FL_LOWER :: byte where "FL_LOWER = 0x20"
definition FL_XDIGIT :: byte where "FL_XDIGIT = 0x40"

named_theorems attr_flags \<open>the attribute flags\<close>

lemmas flags_defs [attr_flags] = FL_PRINT_def FL_SPACE_def FL_DIGIT_def FL_ALPHA_def FL_UPPER_def
  FL_LOWER_def FL_XDIGIT_def

text \<open>The table, run by run.\<close>

definition attr :: "byte list" where
  "attr =
     (let pr = FL_PRINT; sp = FL_SPACE OR FL_PRINT; di = FL_DIGIT OR FL_PRINT OR FL_XDIGIT;
          al = FL_ALPHA OR FL_PRINT; up = FL_UPPER OR FL_ALPHA OR FL_PRINT;
          lo = FL_LOWER OR FL_ALPHA OR FL_PRINT;
          ux = FL_UPPER OR FL_ALPHA OR FL_PRINT OR FL_XDIGIT;
          lx = FL_LOWER OR FL_ALPHA OR FL_PRINT OR FL_XDIGIT
      in replicate 9 0 @ replicate 5 sp @ replicate 18 0 @ replicate 1 sp @ replicate 15 pr
         @ replicate 10 di @ replicate 7 pr @ replicate 6 ux @ replicate 20 up @ replicate 4 pr
         @ replicate 1 al @ replicate 1 pr @ replicate 6 lx @ replicate 20 lo @ replicate 4 pr
         @ replicate 1 0)"

definition attr_at :: "(byte \<Rightarrow> byte) \<Rightarrow> byte \<Rightarrow> byte" where
  "attr_at oob c = (if unat c < 128 then attr ! unat c else oob c)"

definition is_whitespace :: "(byte \<Rightarrow> byte) \<Rightarrow> byte \<Rightarrow> bool" where
  "is_whitespace oob c \<longleftrightarrow> attr_at oob c AND FL_SPACE \<noteq> 0"

definition is_numeric :: "(byte \<Rightarrow> byte) \<Rightarrow> byte \<Rightarrow> bool" where
  "is_numeric oob c \<longleftrightarrow> attr_at oob c AND FL_DIGIT \<noteq> 0"

definition is_hex_decimal :: "(byte \<Rightarrow> byte) \<Rightarrow> byte \<Rightarrow> bool" where
  "is_hex_decimal oob c \<longleftrightarrow> attr_at oob c AND FL_XDIGIT \<noteq> 0"

definition is_alpha :: "(byte \<Rightarrow> byte) \<Rightarrow> byte \<Rightarrow> bool" where
  "is_alpha oob c \<longleftrightarrow> attr_at oob c AND FL_ALPHA \<noteq> 0"

text \<open>The same classes by ranges, as the code that the table replaces had them.\<close>

definition ref_whitespace :: "byte \<Rightarrow> bool" where
  "ref_whitespace c \<longleftrightarrow> c = 32 \<or> c = 9 \<or> c = 10 \<or> c = 13"

definition ref_numeric :: "byte \<Rightarrow> bool" where
  "ref_numeric c \<longleftrightarrow> 48 \<le> c \<and> c \<le> 57"

definition ref_hex_decimal :: "byte \<Rightarrow> bool" where
  "ref_hex_decimal c \<longleftrightarrow> (48 \<le> c \<and> c \<le> 57) \<or> (97 \<le> c \<and> c \<le> 102) \<or> (65 \<le> c \<and> c \<le> 70)"

definition ref_alpha :: "byte \<Rightarrow> bool" where
  "ref_alpha c \<longleftrightarrow> (97 \<le> c \<and> c \<le> 122) \<or> (65 \<le> c \<and> c \<le> 90) \<or> c = 95"

text \<open>A property of all ASCII characters holds when it holds for the codes below 128.\<close>

lemma ascii_cases:
  assumes "list_all (\<lambda>n. P (of_nat n :: byte)) [0..<128]" and "unat (c :: byte) < 128"
  shows "P c"
proof -
  have "unat c \<in> set [0..<128]" using assms(2) by simp
  with assms(1) have "P (of_nat (unat c) :: byte)" unfolding list_all_iff by (rule bspec)
  then show ?thesis by simp
qed

lemma table_ascii:
  assumes "unat c < 128"
  shows "is_whitespace oob c = (ref_whitespace c \<or> c = 11 \<or> c = 12)"
    "is_numeric oob c = ref_numeric c" "is_hex_decimal oob c = ref_hex_decimal c"
    "is_alpha oob c = ref_alpha c"
proof -
  let ?a = "\<lambda>c :: byte. attr ! unat c"
  have "list_all (\<lambda>n. let c = of_nat n :: byte in
      (?a c AND FL_SPACE \<noteq> 0) = (ref_whitespace c \<or> c = 11 \<or> c = 12) \<and>
      (?a c AND FL_DIGIT \<noteq> 0) = ref_numeric c \<and>
      (?a c AND FL_XDIGIT \<noteq> 0) = ref_hex_decimal c \<and>
      (?a c AND FL_ALPHA \<noteq> 0) = ref_alpha c) [0..<128]"
    by code_simp
  from ascii_cases [where P = "\<lambda>c. (?a c AND FL_SPACE \<noteq> 0) = (ref_whitespace c \<or> c = 11 \<or> c = 12) \<and>
      (?a c AND FL_DIGIT \<noteq> 0) = ref_numeric c \<and> (?a c AND FL_XDIGIT \<noteq> 0) = ref_hex_decimal c \<and>
      (?a c AND FL_ALPHA \<noteq> 0) = ref_alpha c" and c = c, OF this [unfolded Let_def] assms]
  show "is_whitespace oob c = (ref_whitespace c \<or> c = 11 \<or> c = 12)"
    "is_numeric oob c = ref_numeric c" "is_hex_decimal oob c = ref_hex_decimal c"
    "is_alpha oob c = ref_alpha c"
    using assms
    by (simp_all add: is_whitespace_def is_numeric_def is_hex_decimal_def is_alpha_def attr_at_def)
qed

section \<open>Reading integers\<close>

definition s64 :: "int \<Rightarrow> int" where
  "s64 x = (x + 9223372036854775808) mod 18446744073709551616 - 9223372036854775808"

lemma s64_small [simp]: "-9223372036854775808 \<le> x \<Longrightarrow> x < 9223372036854775808 \<Longrightarrow> s64 x = x"
  by (simp add: s64_def)

definition chtod :: "byte \<Rightarrow> int" where
  "chtod c =
     (if 48 \<le> c \<and> c \<le> 57 then uint c - 48
      else if 97 \<le> c \<and> c \<le> 122 then 10 + uint c - 97
      else if 65 \<le> c \<and> c \<le> 90 then 10 + uint c - 65
      else -1)"

text \<open>The loop of \<open>get_radix\<close> that looks for a sign of a decimal number after a zero.\<close>

fun radix_scan :: "byte list \<Rightarrow> nat \<Rightarrow> nat" where
  "radix_scan [] r = r"
| "radix_scan (c # cs) r =
     (if c = 46 \<or> c = 56 \<or> c = 57 then radix_scan cs 10
      else if c < 48 \<or> 57 < c then r
      else radix_scan cs r)"

text \<open>
  The radix, the string after the prefix, and whether \<open>*hasError\<close> was set. A string is
  its bytes before the terminating zero.
\<close>

definition get_radix :: "byte list \<Rightarrow> nat \<Rightarrow> nat \<times> byte list \<times> bool" where
  "get_radix s force =
     (if 36 < force then (0, s, True)
      else if ch s 0 = 48 then
        (let s1 = tl s;
             forced = (\<lambda>r t. (if 0 < force then force else r, t, False))
         in if ch s1 0 = 111 \<or> ch s1 0 = 79 then
              (if force \<noteq> 0 \<and> force \<noteq> 8 \<and> force < 25 then (0, s1, False) else forced 8 (tl s1))
            else if ch s1 0 = 120 \<or> ch s1 0 = 88 then
              (if force \<noteq> 0 \<and> force \<noteq> 16 \<and> force < 34 then (0, s1, False) else forced 16 (tl s1))
            else if ch s1 0 = 98 \<or> ch s1 0 = 66 then
              (if force \<noteq> 0 \<and> force \<noteq> 2 \<and> force < 12 then (0, s1, False) else forced 2 (tl s1))
            else if force = 0 then (radix_scan s1 8, s1, False)
            else forced 8 s1)
      else (if 0 < force then force else 10, s, False))"

fun read_digits :: "nat \<Rightarrow> byte list \<Rightarrow> int \<Rightarrow> int \<times> byte list" where
  "read_digits radix [] v = (v, [])"
| "read_digits radix (c # cs) v =
     (if chtod c < 0 \<or> int radix \<le> chtod c then (v, c # cs)
      else read_digits radix cs (s64 (v * int radix + chtod c)))"

text \<open>The number and the error flag.\<close>

definition string_to_intr :: "(byte \<Rightarrow> byte) \<Rightarrow> byte list \<Rightarrow> nat \<Rightarrow> int \<times> bool" where
  "string_to_intr oob s force =
     (let s0 = dropWhile (is_whitespace oob) s;
          neg = ch s0 0 = 45;
          s1 = (if ch s0 0 = 45 \<or> ch s0 0 = 43 then tl s0 else s0);
          (radix, s2, e) = get_radix s1 force
      in if radix = 0 then (0, e)
         else (let (v, s3) = read_digits radix s2 0
               in (if neg then s64 (- v) else v, s3 = s1)))"

definition string_to_int :: "(byte \<Rightarrow> byte) \<Rightarrow> byte list \<Rightarrow> int" where
  "string_to_int oob s = fst (string_to_intr oob (cstr s) 0)"

section \<open>Tokens and state\<close>

text \<open>
  A token kind is a character code or a member of the enumeration; the code 0 is
  \<open>BE_TOKEN_END\<close>.
\<close>

datatype tok = TK byte
  | BE_TOKEN_ID | BE_TOKEN_INT | BE_TOKEN_FLOAT | BE_TOKEN_STR
  | BE_TOKEN_OP_EQUAL | BE_TOKEN_OP_STRICT_EQUAL | BE_TOKEN_OP_NEQUAL | BE_TOKEN_OP_STRICT_NEQUAL
  | BE_TOKEN_OP_LESS_EQUAL | BE_TOKEN_OP_LEFT_SHIFT | BE_TOKEN_OP_LEFT_SHIFT_EQL
  | BE_TOKEN_OP_MORE_EQUAL | BE_TOKEN_OP_RIGHT_SHIFT | BE_TOKEN_OP_RIGHT_SHIFT_UNSIGN
  | BE_TOKEN_OP_RIGHT_SHIFT_EQUAL | BE_TOKEN_OP_PLUS_EQUAL | BE_TOKEN_OP_MINUS_EQUAL
  | BE_TOKEN_OP_MUL_EQUAL | BE_TOKEN_OP_DIV_EQUAL | BE_TOKEN_OP_PLUS_PLUS
  | BE_TOKEN_OP_MINUS_MINUS | BE_TOKEN_OP_AND_EQUAL | BE_TOKEN_OP_LOGIC_AND
  | BE_TOKEN_OP_OR_EQUAL | BE_TOKEN_OP_LOGIC_OR | BE_TOKEN_OP_XOR_EQUAL
  | BE_TOKEN_KW_IF | BE_TOKEN_KW_ELSE | BE_TOKEN_KW_DO | BE_TOKEN_KW_WHILE | BE_TOKEN_KW_FOR
  | BE_TOKEN_KW_IN | BE_TOKEN_KW_BREAK | BE_TOKEN_KW_CONTINUE | BE_TOKEN_KW_SWITCH
  | BE_TOKEN_KW_CASE | BE_TOKEN_KW_DEFAULT | BE_TOKEN_KW_NEW | BE_TOKEN_KW_VAR
  | BE_TOKEN_KW_FUNCTION | BE_TOKEN_KW_RETURN | BE_TOKEN_KW_TRUE | BE_TOKEN_KW_FALSE
  | BE_TOKEN_KW_NULL | BE_TOKEN_KW_UNDEFINED

abbreviation (input) BE_TOKEN_END :: tok where "BE_TOKEN_END \<equiv> TK 0"
abbreviation (input) MAX_TOKEN_LENGTH :: nat where "MAX_TOKEN_LENGTH \<equiv> 64"

text \<open>
  \<open>lx_token\<close> holds the first \<open>token_len\<close> bytes of the array. \<open>lx_warned\<close> records that a
  character was dropped from a token; the reporting call of that branch, whose name is
  damaged in the source, is reduced to this flag.
\<close>

record lexer =
  lx_tk :: tok
  token_start :: int
  token_end :: int
  token_last_end :: int
  lx_token :: "byte list"
  curr_char :: byte
  next_char :: byte
  lx_src :: "byte list option"
  start_pos :: int
  end_pos :: int
  curr_pos :: int
  lx_warned :: bool

definition src_at :: "byte list \<Rightarrow> int \<Rightarrow> byte" where
  "src_at s i = (if i < 0 then 0 else ch s (nat i))"

definition append_char :: "lexer \<Rightarrow> byte \<Rightarrow> lexer" where
  "append_char lx c =
     (if length (lx_token lx) < MAX_TOKEN_LENGTH - 1 then lx\<lparr>lx_token := lx_token lx @ [c]\<rparr>
      else lx\<lparr>lx_warned := True\<rparr>)"

definition lexer_seekto_char :: "lexer \<Rightarrow> int \<Rightarrow> lexer" where
  "lexer_seekto_char lx pos = (if lx_src lx \<noteq> None then lx\<lparr>curr_pos := pos\<rparr> else lx)"

definition lexer_get_next_char :: "lexer \<Rightarrow> lexer" where
  "lexer_get_next_char lx =
     (case lx_src lx of
        None \<Rightarrow> lx
      | Some s \<Rightarrow> lx\<lparr>curr_char := next_char lx,
          next_char := (if curr_pos lx < end_pos lx then src_at s (curr_pos lx) else 0),
          curr_pos := curr_pos lx + 1\<rparr>)"

text \<open>The token so far against a constant, from an offset on.\<close>

definition be_jse_lexer_is_token :: "byte list \<Rightarrow> byte list \<Rightarrow> nat \<Rightarrow> bool" where
  "be_jse_lexer_is_token t c off \<longleftrightarrow>
     list_all (\<lambda>i. t ! i = ch c i) [off..<length t] \<and> ch c (length t) = 0"

section \<open>The parts of next_token\<close>

definition take_char :: "lexer \<Rightarrow> lexer" where
  "take_char lx = lexer_get_next_char (append_char lx (curr_char lx))"

definition skip_whitespace :: "(byte \<Rightarrow> byte) \<Rightarrow> lexer \<Rightarrow> lexer option" where
  "skip_whitespace oob =
     while_option (\<lambda>l. curr_char l \<noteq> 0 \<and> is_whitespace oob (curr_char l)) lexer_get_next_char"

definition skip_line :: "lexer \<Rightarrow> lexer option" where
  "skip_line lx = map_option lexer_get_next_char
     (while_option (\<lambda>l. curr_char l \<noteq> 0 \<and> curr_char l \<noteq> 10) lexer_get_next_char lx)"

definition skip_block :: "lexer \<Rightarrow> lexer option" where
  "skip_block lx = map_option (\<lambda>l. lexer_get_next_char (lexer_get_next_char l))
     (while_option (\<lambda>l. curr_char l \<noteq> 0 \<and> (curr_char l \<noteq> 42 \<or> next_char l \<noteq> 47))
        lexer_get_next_char lx)"

text \<open>The switch over the first character.\<close>

definition keyword_switch :: "byte list \<Rightarrow> tok" where
  "keyword_switch t =
     (let is = (\<lambda>w. be_jse_lexer_is_token t (str w) 1); c = ch t 0
      in if c = of_char CHR ''b'' then
           (if is ''break'' then BE_TOKEN_KW_BREAK else BE_TOKEN_ID)
         else if c = of_char CHR ''c'' then
           (if is ''case'' then BE_TOKEN_KW_CASE
            else if is ''continue'' then BE_TOKEN_KW_CONTINUE else BE_TOKEN_ID)
         else if c = of_char CHR ''d'' then
           (if is ''default'' then BE_TOKEN_KW_DEFAULT
            else if is ''do'' then BE_TOKEN_KW_DO else BE_TOKEN_ID)
         else if c = of_char CHR ''e'' then
           (if is ''else'' then BE_TOKEN_KW_ELSE else BE_TOKEN_ID)
         else if c = of_char CHR ''f'' then
           (if is ''false'' then BE_TOKEN_KW_FALSE
            else if is ''for'' then BE_TOKEN_KW_FOR
            else if is ''function'' then BE_TOKEN_KW_FUNCTION else BE_TOKEN_ID)
         else if c = of_char CHR ''i'' then
           (if is ''if'' then BE_TOKEN_KW_IF
            else if is ''in'' then BE_TOKEN_KW_IN else BE_TOKEN_ID)
         else if c = of_char CHR ''n'' then
           (if is ''new'' then BE_TOKEN_KW_NEW
            else if is ''null'' then BE_TOKEN_KW_NULL else BE_TOKEN_ID)
         else if c = of_char CHR ''r'' then
           (if is ''return'' then BE_TOKEN_KW_RETURN else BE_TOKEN_ID)
         else if c = of_char CHR ''s'' then
           (if is ''switch'' then BE_TOKEN_KW_SWITCH else BE_TOKEN_ID)
         else if c = of_char CHR ''t'' then
           (if is ''true'' then BE_TOKEN_KW_TRUE else BE_TOKEN_ID)
         else if c = of_char CHR ''u'' then
           (if is ''undefined'' then BE_TOKEN_KW_UNDEFINED else BE_TOKEN_ID)
         else if c = of_char CHR ''w'' then
           (if is ''while'' then BE_TOKEN_KW_WHILE else BE_TOKEN_ID)
         else if c = of_char CHR ''v'' then
           (if is ''var'' then BE_TOKEN_KW_VAR else BE_TOKEN_ID)
         else BE_TOKEN_ID)"

definition set_tk :: "tok \<Rightarrow> lexer \<Rightarrow> lexer" where
  "set_tk t lx = lx\<lparr>lx_tk := t\<rparr>"

definition scan_word :: "(byte \<Rightarrow> byte) \<Rightarrow> lexer \<Rightarrow> lexer option" where
  "scan_word oob lx = map_option (\<lambda>l. set_tk (keyword_switch (lx_token l)) l)
     (while_option (\<lambda>l. is_alpha oob (curr_char l) \<or> is_numeric oob (curr_char l)) take_char lx)"

definition take_digits :: "(byte \<Rightarrow> byte) \<Rightarrow> lexer \<Rightarrow> lexer option" where
  "take_digits oob = while_option (\<lambda>l. is_numeric oob (curr_char l)) take_char"

definition scan_number :: "(byte \<Rightarrow> byte) \<Rightarrow> lexer \<Rightarrow> lexer option" where
  "scan_number oob lx = do {
     let l1 = (if curr_char lx = 48 then take_char lx else lx);
     let prefixed = (curr_char l1 = 120 \<or> curr_char l1 = 98);
     let l2 = set_tk BE_TOKEN_INT (if prefixed then take_char l1 else l1);
     l3 \<leftarrow> while_option (\<lambda>l. is_numeric oob (curr_char l)
             \<or> (prefixed \<and> is_hex_decimal oob (curr_char l))) take_char l2;
     l4 \<leftarrow> (if \<not> prefixed \<and> curr_char l3 = 46
            then take_digits oob (take_char (set_tk BE_TOKEN_FLOAT l3)) else Some l3);
     if \<not> prefixed \<and> (curr_char l4 = 101 \<or> curr_char l4 = 69)
     then (let l5 = take_char (set_tk BE_TOKEN_FLOAT l4)
           in take_digits oob (if curr_char l5 = 45 then take_char l5 else l5))
     else Some l4
   }"

text \<open>One round of the loop over a string in double quotes.\<close>

definition dstring_step :: "lexer \<Rightarrow> lexer" where
  "dstring_step lx =
     lexer_get_next_char
       (if curr_char lx = 92 then
          (let l = lexer_get_next_char lx
           in append_char l (if curr_char l = 110 then 10 else curr_char l))
        else append_char lx (curr_char lx))"

text \<open>One round of the loop over a string in single quotes.\<close>

definition sstring_escape :: "(byte \<Rightarrow> byte) \<Rightarrow> lexer \<Rightarrow> lexer" where
  "sstring_escape oob l =
     (let c = curr_char l
      in if c = 110 then append_char l 10
         else if c = 97 then append_char l 7
         else if c = 114 then append_char l 13
         else if c = 116 then append_char l 9
         else if c = 39 then append_char l 39
         else if c = 92 then append_char l 92
         else if c = 120 then
           (let l1 = lexer_get_next_char l; l2 = lexer_get_next_char l1
            in append_char l2 (of_int (string_to_int oob [48, 120, curr_char l1, curr_char l2])))
         else if 48 \<le> c \<and> c \<le> 55 then
           (let l1 = lexer_get_next_char l; l2 = lexer_get_next_char l1
            in append_char l2 (of_int (string_to_int oob [48, c, curr_char l1, curr_char l2])))
         else append_char l c)"

definition sstring_step :: "(byte \<Rightarrow> byte) \<Rightarrow> lexer \<Rightarrow> lexer" where
  "sstring_step oob lx =
     lexer_get_next_char
       (if curr_char lx = 92 then sstring_escape oob (lexer_get_next_char lx)
        else append_char lx (curr_char lx))"

definition scan_string :: "byte \<Rightarrow> (lexer \<Rightarrow> lexer) \<Rightarrow> lexer \<Rightarrow> lexer option" where
  "scan_string q step lx = map_option (\<lambda>l. set_tk BE_TOKEN_STR (lexer_get_next_char l))
     (while_option (\<lambda>l. curr_char l \<noteq> 0 \<and> curr_char l \<noteq> q) step (lexer_get_next_char lx))"

text \<open>The operators; \<open>eat t\<close> is the assignment of a kind followed by a step.\<close>

definition eat :: "tok \<Rightarrow> lexer \<Rightarrow> lexer" where
  "eat t lx = lexer_get_next_char (set_tk t lx)"

definition eat_if :: "byte \<Rightarrow> tok \<Rightarrow> lexer \<Rightarrow> lexer" where
  "eat_if c t lx = (if curr_char lx = c then eat t lx else lx)"

definition scan_operator :: "lexer \<Rightarrow> lexer" where
  "scan_operator lx =
     (let k = curr_char lx;
          l = (if k \<noteq> 0 then lexer_get_next_char (set_tk (TK k) lx) else set_tk (TK k) lx);
          c = curr_char l
      in if k = 61 \<and> c = 61 then eat_if 61 BE_TOKEN_OP_STRICT_EQUAL (eat BE_TOKEN_OP_EQUAL l)
         else if k = 33 \<and> c = 61 then eat_if 61 BE_TOKEN_OP_STRICT_NEQUAL (eat BE_TOKEN_OP_NEQUAL l)
         else if k = 60 \<and> c = 61 then eat BE_TOKEN_OP_LESS_EQUAL l
         else if k = 60 \<and> c = 60 then eat_if 61 BE_TOKEN_OP_LEFT_SHIFT_EQL (eat BE_TOKEN_OP_LEFT_SHIFT l)
         else if k = 62 \<and> c = 61 then eat BE_TOKEN_OP_MORE_EQUAL l
         else if k = 62 \<and> c = 62 then
           (let l1 = eat BE_TOKEN_OP_RIGHT_SHIFT l
            in if curr_char l1 = 61 then eat BE_TOKEN_OP_RIGHT_SHIFT_EQUAL l1
               else eat_if 62 BE_TOKEN_OP_RIGHT_SHIFT_UNSIGN l1)
         else if k = 43 \<and> c = 61 then eat BE_TOKEN_OP_PLUS_EQUAL l
         else if k = 45 \<and> c = 61 then eat BE_TOKEN_OP_MINUS_EQUAL l
         else if k = 42 \<and> c = 61 then eat BE_TOKEN_OP_MUL_EQUAL l
         else if k = 47 \<and> c = 61 then eat BE_TOKEN_OP_DIV_EQUAL l
         else if k = 43 \<and> c = 43 then eat BE_TOKEN_OP_PLUS_PLUS l
         else if k = 45 \<and> c = 45 then eat BE_TOKEN_OP_MINUS_MINUS l
         else if k = 38 \<and> c = 61 then eat BE_TOKEN_OP_AND_EQUAL l
         else if k = 38 \<and> c = 38 then eat BE_TOKEN_OP_LOGIC_AND l
         else if k = 124 \<and> c = 61 then eat BE_TOKEN_OP_OR_EQUAL l
         else if k = 124 \<and> c = 124 then eat BE_TOKEN_OP_LOGIC_OR l
         else if k = 94 \<and> c = 61 then eat BE_TOKEN_OP_XOR_EQUAL l
         else l)"

definition scan_token :: "(byte \<Rightarrow> byte) \<Rightarrow> lexer \<Rightarrow> lexer option" where
  "scan_token oob lx =
     (if is_alpha oob (curr_char lx) then scan_word oob lx
      else if is_numeric oob (curr_char lx) then scan_number oob lx
      else if curr_char lx = 34 then scan_string 34 dstring_step lx
      else if curr_char lx = 39 then scan_string 39 (sstring_step oob) lx
      else Some (scan_operator lx))"

definition token_done :: "lexer \<Rightarrow> lexer" where
  "token_done lx = lx\<lparr>token_last_end := token_end lx, token_end := curr_pos lx - 3\<rparr>"

partial_function (option) next_token :: "(byte \<Rightarrow> byte) \<Rightarrow> lexer \<Rightarrow> lexer option" where
  "next_token oob lx = do {
     l \<leftarrow> skip_whitespace oob (lx\<lparr>lx_tk := BE_TOKEN_END, lx_token := []\<rparr>);
     if curr_char l = 47 \<and> next_char l = 47 then do { l' \<leftarrow> skip_line l; next_token oob l' }
     else if curr_char l = 47 \<and> next_char l = 42 then do { l' \<leftarrow> skip_block l; next_token oob l' }
     else map_option token_done (scan_token oob (l\<lparr>token_start := curr_pos l - 2\<rparr>))
   }"

section \<open>Initialisation\<close>

definition be_jse_lexer_reset :: "(byte \<Rightarrow> byte) \<Rightarrow> lexer \<Rightarrow> lexer option" where
  "be_jse_lexer_reset oob lx =
     next_token oob (lexer_get_next_char (lexer_get_next_char (lexer_seekto_char lx (start_pos lx))))"

text \<open>
  The two look-ahead characters keep what the memory of the context held. With a
  negative \<open>e\<close> the length of the source is taken, which is None for a null pointer.
\<close>

definition be_jse_lexer_init ::
  "(byte \<Rightarrow> byte) \<Rightarrow> lexer \<Rightarrow> byte list option \<Rightarrow> int \<Rightarrow> int \<Rightarrow> lexer option" where
  "be_jse_lexer_init oob lx src start e = do {
     e' \<leftarrow> (if e < 0 then map_option (\<lambda>s. int (length (cstr s))) src else Some e);
     be_jse_lexer_reset oob
       (lx\<lparr>lx_src := src, start_pos := start, end_pos := e', curr_pos := 0,
          lx_tk := TK 0, token_start := 0, token_end := 0, token_last_end := 0, lx_token := []\<rparr>)
   }"

definition be_jse_lexer_init2 :: "(byte \<Rightarrow> byte) \<Rightarrow> lexer \<Rightarrow> lexer \<Rightarrow> int \<Rightarrow> lexer option" where
  "be_jse_lexer_init2 oob lx from_lex start =
     (let idx = (if end_pos from_lex \<le> token_last_end from_lex + 1 then end_pos from_lex
                 else token_last_end from_lex + 1)
      in if lx_src from_lex \<noteq> None then be_jse_lexer_init oob lx (lx_src from_lex) start idx
         else Some lx)"

definition be_jse_lexer_deinit :: "lexer \<Rightarrow> lexer" where
  "be_jse_lexer_deinit lx = lx\<lparr>lx_tk := BE_TOKEN_END, lx_src := None\<rparr>"

section \<open>Positions and expected tokens\<close>

text \<open>The loop of \<open>lexer_dump_line_and_col\<close> over the line, the column and the lexer.\<close>

definition dump_step :: "int \<times> int \<times> lexer \<Rightarrow> int \<times> int \<times> lexer" where
  "dump_step st = (case st of (line, col, l) \<Rightarrow>
     (if curr_char l = 10 then line + 1 else line, if curr_char l = 10 then 0 else col + 1,
      lexer_get_next_char l))"

definition lexer_dump_line_and_col :: "lexer \<Rightarrow> int \<Rightarrow> (int \<times> int \<times> lexer) option" where
  "lexer_dump_line_and_col lx char_pos =
     map_option (\<lambda>(line, col, l). (line, col,
         lexer_get_next_char (lexer_get_next_char (lexer_seekto_char l (curr_pos lx - 2)))))
       (while_option (\<lambda>(line, col, l). curr_char l \<noteq> 0 \<and> curr_pos l < char_pos - 1) dump_step
          (1, 1, lexer_get_next_char (lexer_seekto_char lx 0)))"

text \<open>A mismatch is reported with the position of the token; then the token is skipped.\<close>

definition lexer_token_cmp :: "(byte \<Rightarrow> byte) \<Rightarrow> lexer \<Rightarrow> tok \<Rightarrow> (bool \<times> lexer) option" where
  "lexer_token_cmp oob lx expected =
     (if lx_tk lx \<noteq> expected then do {
        (line, col, l) \<leftarrow> lexer_dump_line_and_col lx (token_start lx);
        map_option (Pair False) (next_token oob l)
      }
      else map_option (Pair True) (next_token oob lx))"

definition lexer_get_token :: "lexer \<Rightarrow> byte list" where
  "lexer_get_token lx = cstr (lx_token lx)"

section \<open>Names of tokens\<close>

fun tok_code :: "tok \<Rightarrow> nat" where
  "tok_code (TK c) = unat c"
| "tok_code BE_TOKEN_ID = 256"
| "tok_code BE_TOKEN_INT = 257"
| "tok_code BE_TOKEN_FLOAT = 258"
| "tok_code BE_TOKEN_STR = 259"
| "tok_code BE_TOKEN_OP_EQUAL = 260"
| "tok_code BE_TOKEN_OP_STRICT_EQUAL = 261"
| "tok_code BE_TOKEN_OP_NEQUAL = 262"
| "tok_code BE_TOKEN_OP_STRICT_NEQUAL = 263"
| "tok_code BE_TOKEN_OP_LESS_EQUAL = 264"
| "tok_code BE_TOKEN_OP_LEFT_SHIFT = 265"
| "tok_code BE_TOKEN_OP_LEFT_SHIFT_EQL = 266"
| "tok_code BE_TOKEN_OP_MORE_EQUAL = 267"
| "tok_code BE_TOKEN_OP_RIGHT_SHIFT = 268"
| "tok_code BE_TOKEN_OP_RIGHT_SHIFT_UNSIGN = 269"
| "tok_code BE_TOKEN_OP_RIGHT_SHIFT_EQUAL = 270"
| "tok_code BE_TOKEN_OP_PLUS_EQUAL = 271"
| "tok_code BE_TOKEN_OP_MINUS_EQUAL = 272"
| "tok_code BE_TOKEN_OP_MUL_EQUAL = 273"
| "tok_code BE_TOKEN_OP_DIV_EQUAL = 274"
| "tok_code BE_TOKEN_OP_PLUS_PLUS = 275"
| "tok_code BE_TOKEN_OP_MINUS_MINUS = 276"
| "tok_code BE_TOKEN_OP_AND_EQUAL = 277"
| "tok_code BE_TOKEN_OP_LOGIC_AND = 278"
| "tok_code BE_TOKEN_OP_OR_EQUAL = 279"
| "tok_code BE_TOKEN_OP_LOGIC_OR = 280"
| "tok_code BE_TOKEN_OP_XOR_EQUAL = 281"
| "tok_code BE_TOKEN_KW_IF = 282"
| "tok_code BE_TOKEN_KW_ELSE = 283"
| "tok_code BE_TOKEN_KW_DO = 284"
| "tok_code BE_TOKEN_KW_WHILE = 285"
| "tok_code BE_TOKEN_KW_FOR = 286"
| "tok_code BE_TOKEN_KW_IN = 287"
| "tok_code BE_TOKEN_KW_BREAK = 288"
| "tok_code BE_TOKEN_KW_CONTINUE = 289"
| "tok_code BE_TOKEN_KW_SWITCH = 290"
| "tok_code BE_TOKEN_KW_CASE = 291"
| "tok_code BE_TOKEN_KW_DEFAULT = 292"
| "tok_code BE_TOKEN_KW_NEW = 293"
| "tok_code BE_TOKEN_KW_VAR = 294"
| "tok_code BE_TOKEN_KW_FUNCTION = 295"
| "tok_code BE_TOKEN_KW_RETURN = 296"
| "tok_code BE_TOKEN_KW_TRUE = 297"
| "tok_code BE_TOKEN_KW_FALSE = 298"
| "tok_code BE_TOKEN_KW_NULL = 299"
| "tok_code BE_TOKEN_KW_UNDEFINED = 300"

text \<open>The switch of \<open>lexer_token_to_str\<close>.\<close>

fun token_name :: "tok \<Rightarrow> string option" where
  "token_name BE_TOKEN_ID = Some ''ID''"
| "token_name BE_TOKEN_INT = Some ''INT''"
| "token_name BE_TOKEN_FLOAT = Some ''FLOAT''"
| "token_name BE_TOKEN_STR = Some ''STRING''"
| "token_name BE_TOKEN_OP_EQUAL = Some ''==''"
| "token_name BE_TOKEN_OP_STRICT_EQUAL = Some ''===''"
| "token_name BE_TOKEN_OP_NEQUAL = Some ''!=''"
| "token_name BE_TOKEN_OP_STRICT_NEQUAL = Some ''!==''"
| "token_name BE_TOKEN_OP_LESS_EQUAL = Some ''<=''"
| "token_name BE_TOKEN_OP_LEFT_SHIFT = Some ''<<''"
| "token_name BE_TOKEN_OP_LEFT_SHIFT_EQL = Some ''<<=''"
| "token_name BE_TOKEN_OP_MORE_EQUAL = Some ''>=''"
| "token_name BE_TOKEN_OP_RIGHT_SHIFT = Some ''>>''"
| "token_name BE_TOKEN_OP_RIGHT_SHIFT_UNSIGN = Some ''>>''"
| "token_name BE_TOKEN_OP_RIGHT_SHIFT_EQUAL = Some ''>>=''"
| "token_name BE_TOKEN_OP_PLUS_EQUAL = Some ''+=''"
| "token_name BE_TOKEN_OP_MUL_EQUAL = Some ''*=''"
| "token_name BE_TOKEN_OP_DIV_EQUAL = Some ''/=''"
| "token_name BE_TOKEN_OP_MINUS_EQUAL = Some ''-=''"
| "token_name BE_TOKEN_OP_PLUS_PLUS = Some ''++''"
| "token_name BE_TOKEN_OP_MINUS_MINUS = Some ''--''"
| "token_name BE_TOKEN_OP_AND_EQUAL = Some ''&=''"
| "token_name BE_TOKEN_OP_LOGIC_AND = Some ''&&''"
| "token_name BE_TOKEN_OP_OR_EQUAL = Some ''|=''"
| "token_name BE_TOKEN_OP_LOGIC_OR = Some ''||''"
| "token_name BE_TOKEN_OP_XOR_EQUAL = Some ''^=''"
| "token_name BE_TOKEN_KW_IF = Some ''if''"
| "token_name BE_TOKEN_KW_ELSE = Some ''else''"
| "token_name BE_TOKEN_KW_DO = Some ''do''"
| "token_name BE_TOKEN_KW_WHILE = Some ''while''"
| "token_name BE_TOKEN_KW_FOR = Some ''for''"
| "token_name BE_TOKEN_KW_BREAK = Some ''return''"
| "token_name BE_TOKEN_KW_CONTINUE = Some ''continue''"
| "token_name BE_TOKEN_KW_FUNCTION = Some ''function''"
| "token_name BE_TOKEN_KW_RETURN = Some ''return''"
| "token_name BE_TOKEN_KW_VAR = Some ''var''"
| "token_name BE_TOKEN_KW_TRUE = Some ''true''"
| "token_name BE_TOKEN_KW_FALSE = Some ''false''"
| "token_name BE_TOKEN_KW_NULL = Some ''null''"
| "token_name BE_TOKEN_KW_UNDEFINED = Some ''undefined''"
| "token_name BE_TOKEN_KW_NEW = Some ''new''"
| "token_name BE_TOKEN_KW_IN = Some ''in''"
| "token_name (TK c) = (if c = 0 then Some ''EOF'' else None)"
| "token_name BE_TOKEN_KW_SWITCH = None"
| "token_name BE_TOKEN_KW_CASE = None"
| "token_name BE_TOKEN_KW_DEFAULT = None"

text \<open>The string that is left in a buffer of \<open>len\<close> bytes; it has no terminator when it fills it.\<close>

definition lexer_token_to_str :: "tok \<Rightarrow> nat \<Rightarrow> byte list" where
  "lexer_token_to_str t len =
     (if 32 < tok_code t \<and> tok_code t < 128 then [39, of_nat (tok_code t), 39]
      else (case token_name t of
          Some w \<Rightarrow> take len (str w)
        | None \<Rightarrow> str ''?['' @ dec_nat (tok_code t) @ str '']''))"

definition lexer_get_token_str :: "lexer \<Rightarrow> nat \<Rightarrow> byte list" where
  "lexer_get_token_str lx len =
     (if lx_tk lx = BE_TOKEN_ID then take len (str ''ID:'') @ take len (lexer_get_token lx)
      else if lx_tk lx = BE_TOKEN_STR then
        take len (str ''String:'' @ [39]) @ take len (lexer_get_token lx) @ take len [39]
      else lexer_token_to_str (lx_tk lx) len)"

section \<open>The scanner returns\<close>

definition lx_measure :: "lexer \<Rightarrow> nat" where
  "lx_measure l = 2 * nat (end_pos l - curr_pos l)
     + (if next_char l \<noteq> 0 then 2 else if curr_char l \<noteq> 0 then 1 else 0)"

definition lx_ok :: "byte list \<Rightarrow> int \<Rightarrow> nat \<Rightarrow> lexer \<Rightarrow> bool" where
  "lx_ok s e n l \<longleftrightarrow> lx_src l = Some s \<and> end_pos l = e \<and> length (lx_token l) < MAX_TOKEN_LENGTH \<and> lx_measure l \<le> n"

lemma measure_fields [simp]:
  "lx_measure (l\<lparr>token_start := i\<rparr>) = lx_measure l" "lx_measure (l\<lparr>lx_tk := t\<rparr>) = lx_measure l"
  "lx_measure (l\<lparr>lx_token := w\<rparr>) = lx_measure l" "lx_measure (l\<lparr>token_end := i\<rparr>) = lx_measure l"
  "lx_measure (l\<lparr>token_last_end := i\<rparr>) = lx_measure l"
  by (simp_all add: lx_measure_def)

lemma lx_ok_next: "lx_ok s e n l \<Longrightarrow> lx_ok s e n (lexer_get_next_char l)"
  by (auto simp: lx_ok_def lexer_get_next_char_def lx_measure_def)

lemma measure_next_less: "lx_src l \<noteq> None \<Longrightarrow> curr_char l \<noteq> 0 \<Longrightarrow>
  lx_measure (lexer_get_next_char l) < lx_measure l"
  by (auto simp: lexer_get_next_char_def lx_measure_def split: if_splits)

lemma measure_next_le: "lx_measure (lexer_get_next_char l) \<le> lx_measure l"
  by (auto simp: lexer_get_next_char_def lx_measure_def split: option.splits)

lemma lx_ok_append: "lx_ok s e n l \<Longrightarrow> lx_ok s e n (append_char l c)"
  by (auto simp: lx_ok_def append_char_def lx_measure_def)

lemma measure_append [simp]: "lx_measure (append_char l c) = lx_measure l"
  "lx_src (append_char l c) = lx_src l" "curr_char (append_char l c) = curr_char l"
  by (auto simp: append_char_def lx_measure_def)

lemma lx_ok_set_tk: "lx_ok s e n l \<Longrightarrow> lx_ok s e n (set_tk t l)"
  by (auto simp: lx_ok_def set_tk_def lx_measure_def)

lemma measure_set_tk [simp]: "lx_measure (set_tk t l) = lx_measure l"
  "lx_src (set_tk t l) = lx_src l" "curr_char (set_tk t l) = curr_char l"
  by (auto simp: set_tk_def lx_measure_def)

lemma src_next [simp]: "lx_src (lexer_get_next_char l) = lx_src l"
  by (simp add: lexer_get_next_char_def split: option.splits)

lemma lx_ok_take: "lx_ok s e n l \<Longrightarrow> lx_ok s e n (take_char l)"
  by (simp add: take_char_def lx_ok_next lx_ok_append)

lemma measure_take_less: "lx_src l \<noteq> None \<Longrightarrow> curr_char l \<noteq> 0 \<Longrightarrow> lx_measure (take_char l) < lx_measure l"
  using measure_next_less [of "append_char l (curr_char l)"] by (simp add: take_char_def)

lemmas lx_ok_steps = lx_ok_next lx_ok_append lx_ok_set_tk lx_ok_take

text \<open>A loop whose rounds start on a character and consume it ends, and keeps the invariant.\<close>

lemma while_lexer:
  assumes step: "\<And>l. lx_ok s e n l \<Longrightarrow> b l \<Longrightarrow> lx_ok s e n (c l) \<and> lx_measure (c l) < lx_measure l"
    and l: "lx_ok s e n l"
  shows "\<exists>l'. while_option b c l = Some l' \<and> lx_ok s e n l' \<and> lx_measure l' \<le> lx_measure l \<and>
    (b l \<longrightarrow> lx_measure l' < lx_measure l)"
proof -
  have loop: "\<exists>l'. while_option b c k = Some l' \<and> lx_ok s e n l' \<and> lx_measure l' \<le> lx_measure k"
    if k: "lx_ok s e n k" for k
  proof -
    let ?I = "\<lambda>l. lx_ok s e n l \<and> lx_measure l \<le> lx_measure k"
    obtain l' where w: "while_option b c k = Some l'"
      using measure_while_option_Some [of ?I b c lx_measure k] step k by fastforce
    have "?I l'" by (rule while_option_rule [OF _ w]) (use step k in fastforce)+
    then show ?thesis using w by blast
  qed
  show ?thesis
  proof (cases "b l")
    case True
    have "while_option b c l = while_option b c (c l)" using True by (subst while_option_unfold) simp
    then show ?thesis using loop [of "c l"] step [OF l True] by fastforce
  next
    case False
    then show ?thesis using loop [OF l] by blast
  qed
qed

lemma attr_at_zero [simp]: "attr_at oob 0 = 0"
proof -
  have "attr ! 0 = 0" by code_simp
  then show ?thesis by (simp add: attr_at_def)
qed

lemma class_nonzero: "is_alpha oob c \<Longrightarrow> c \<noteq> 0" "is_numeric oob c \<Longrightarrow> c \<noteq> 0"
  "is_hex_decimal oob c \<Longrightarrow> c \<noteq> 0" "is_whitespace oob c \<Longrightarrow> c \<noteq> 0"
  by (auto simp: is_alpha_def is_numeric_def is_hex_decimal_def is_whitespace_def)

lemma lx_ok_src: "lx_ok s e n l \<Longrightarrow> lx_src l \<noteq> None"
  by (simp add: lx_ok_def)

lemma while_take:
  assumes "\<And>l. b l \<Longrightarrow> curr_char l \<noteq> 0" and "lx_ok s e n l"
  shows "\<exists>l'. while_option b take_char l = Some l' \<and> lx_ok s e n l' \<and> lx_measure l' \<le> lx_measure l \<and>
    (b l \<longrightarrow> lx_measure l' < lx_measure l)"
  using assms lx_ok_take lx_ok_src measure_take_less by (intro while_lexer) blast+

lemma while_next:
  assumes "\<And>l. b l \<Longrightarrow> curr_char l \<noteq> 0" and "lx_ok s e n l"
  shows "\<exists>l'. while_option b lexer_get_next_char l = Some l' \<and> lx_ok s e n l' \<and>
    lx_measure l' \<le> lx_measure l \<and> (b l \<longrightarrow> lx_measure l' < lx_measure l)"
  using assms lx_ok_next lx_ok_src measure_next_less by (intro while_lexer) blast+

lemma skip_whitespace_returns: "lx_ok s e n l \<Longrightarrow> \<exists>l'. skip_whitespace oob l = Some l' \<and> lx_ok s e n l' \<and>
  lx_measure l' \<le> lx_measure l"
  unfolding skip_whitespace_def
  using while_next [of "\<lambda>l. curr_char l \<noteq> 0 \<and> is_whitespace oob (curr_char l)"] by blast

lemma skip_line_returns: "lx_ok s e n l \<Longrightarrow> curr_char l = 47 \<Longrightarrow>
  \<exists>l'. skip_line l = Some l' \<and> lx_ok s e n l' \<and> lx_measure l' < lx_measure l"
proof -
  assume l: "lx_ok s e n l" and c: "curr_char l = 47"
  obtain k where k: "while_option (\<lambda>l. curr_char l \<noteq> 0 \<and> curr_char l \<noteq> 10) lexer_get_next_char l = Some k"
    "lx_ok s e n k" "lx_measure k < lx_measure l"
    using while_next [of "\<lambda>l. curr_char l \<noteq> 0 \<and> curr_char l \<noteq> 10", OF _ l] c by auto
  then show ?thesis
    using lx_ok_next [OF k(2)] measure_next_le [of k] by (auto simp: skip_line_def)
qed

lemma skip_block_returns: "lx_ok s e n l \<Longrightarrow> curr_char l = 47 \<Longrightarrow>
  \<exists>l'. skip_block l = Some l' \<and> lx_ok s e n l' \<and> lx_measure l' < lx_measure l"
proof -
  let ?b = "\<lambda>l. curr_char l \<noteq> 0 \<and> (curr_char l \<noteq> 42 \<or> next_char l \<noteq> 47)"
  assume l: "lx_ok s e n l" and c: "curr_char l = 47"
  obtain k where k: "while_option ?b lexer_get_next_char l = Some k"
    "lx_ok s e n k" "lx_measure k < lx_measure l"
    using while_next [of ?b, OF _ l] c by auto
  then show ?thesis
    using lx_ok_next [OF lx_ok_next [OF k(2)]] measure_next_le [of k]
      measure_next_le [of "lexer_get_next_char k"] by (auto simp: skip_block_def)
qed

lemma scan_word_returns: "lx_ok s e n l \<Longrightarrow> is_alpha oob (curr_char l) \<Longrightarrow>
  \<exists>l'. scan_word oob l = Some l' \<and> lx_ok s e n l' \<and> lx_measure l' < lx_measure l"
  using while_take [of "\<lambda>l. is_alpha oob (curr_char l) \<or> is_numeric oob (curr_char l)" s e n l]
    class_nonzero lx_ok_set_tk
  by (fastforce simp: scan_word_def)

lemma take_digits_returns: "lx_ok s e n l \<Longrightarrow>
  \<exists>l'. take_digits oob l = Some l' \<and> lx_ok s e n l' \<and> lx_measure l' \<le> lx_measure l"
  using while_take [of "\<lambda>l. is_numeric oob (curr_char l)" s e n l] class_nonzero(2)
  by (auto simp: take_digits_def)

lemma scan_number_returns:
  assumes l: "lx_ok s e n l" and c: "is_numeric oob (curr_char l)"
  shows "\<exists>l'. scan_number oob l = Some l' \<and> lx_ok s e n l' \<and> lx_measure l' < lx_measure l"
proof -
  define l1 where "l1 = (if curr_char l = 48 then take_char l else l)"
  define pre where "pre = (curr_char l1 = 120 \<or> curr_char l1 = 98)"
  define l2 where "l2 = set_tk BE_TOKEN_INT (if pre then take_char l1 else l1)"
  let ?b = "\<lambda>l. is_numeric oob (curr_char l) \<or> (pre \<and> is_hex_decimal oob (curr_char l))"
  have less: "lx_measure (take_char k) \<le> lx_measure k" for k
    using measure_next_le [of "append_char k (curr_char k)"] by (simp add: take_char_def)
  have cl: "curr_char l \<noteq> 0" using c class_nonzero(2) by blast
  have l1: "lx_ok s e n l1" "lx_measure l1 \<le> lx_measure l" using l lx_ok_take less by (auto simp: l1_def)
  have l2: "lx_ok s e n l2" "lx_measure l2 \<le> lx_measure l1"
    using l1 lx_ok_steps less by (auto simp: l2_def)
  obtain l3 where l3: "while_option ?b take_char l2 = Some l3" "lx_ok s e n l3"
    "lx_measure l3 \<le> lx_measure l2" "?b l2 \<Longrightarrow> lx_measure l3 < lx_measure l2"
    using while_take [of ?b s e n l2] class_nonzero l2 by blast
  have dec: "lx_measure l3 < lx_measure l"
  proof (cases "curr_char l = 48")
    case True
    then have "lx_measure l1 < lx_measure l" using measure_take_less lx_ok_src [OF l] cl by (simp add: l1_def)
    then show ?thesis using l2 l3 by simp
  next
    case False
    then have "curr_char l1 = curr_char l" by (simp add: l1_def)
    moreover from this have "\<not> pre" if "\<not> pre" using that by blast
    ultimately show ?thesis
      using c l1 l2 l3 False cl lx_ok_src [OF l1(1)] measure_take_less [of l1]
      by (cases pre) (auto simp: l2_def)
  qed
  obtain l4 where l4: "(if \<not> pre \<and> curr_char l3 = 46
      then take_digits oob (take_char (set_tk BE_TOKEN_FLOAT l3)) else Some l3) = Some l4"
    "lx_ok s e n l4" "lx_measure l4 \<le> lx_measure l3"
    using take_digits_returns [of s e n "take_char (set_tk BE_TOKEN_FLOAT l3)" oob] l3(2) lx_ok_steps
      less [of "set_tk BE_TOKEN_FLOAT l3"] by (fastforce split: if_splits)
  define l5 where "l5 = take_char (set_tk BE_TOKEN_FLOAT l4)"
  have l5: "lx_ok s e n l5" "lx_measure l5 \<le> lx_measure l4"
    using l4 lx_ok_steps less [of "set_tk BE_TOKEN_FLOAT l4"] by (auto simp: l5_def)
  obtain l6 where l6: "take_digits oob (if curr_char l5 = 45 then take_char l5 else l5) = Some l6"
    "lx_ok s e n l6" "lx_measure l6 \<le> lx_measure l5"
    using take_digits_returns [of s e n "if curr_char l5 = 45 then take_char l5 else l5" oob] l5 lx_ok_take
      less [of l5] by (fastforce split: if_splits)
  show ?thesis
    unfolding scan_number_def Let_def
    using l3 l4 l5 l6 dec
    by (simp only: l1_def [symmetric] pre_def [symmetric] l2_def [symmetric] l5_def [symmetric]
        bind.bind_lunit) auto
qed

lemma sstring_escape_ok: "lx_ok s e n l \<Longrightarrow> lx_ok s e n (sstring_escape oob l) \<and>
  lx_measure (sstring_escape oob l) \<le> lx_measure l"
  using measure_next_le [of l] measure_next_le [of "lexer_get_next_char l"]
  by (auto simp: sstring_escape_def Let_def intro!: lx_ok_steps)

lemma string_step_ok:
  assumes "lx_ok s e n l" and "curr_char l \<noteq> 0"
  shows "lx_ok s e n (dstring_step l) \<and> lx_measure (dstring_step l) < lx_measure l"
    and "lx_ok s e n (sstring_step oob l) \<and> lx_measure (sstring_step oob l) < lx_measure l"
proof -
  let ?n = "lexer_get_next_char l"
  have n: "lx_ok s e n ?n" "lx_measure ?n < lx_measure l"
    using assms lx_ok_next measure_next_less lx_ok_src by blast+
  have a: "lx_measure (lexer_get_next_char (append_char l c)) < lx_measure l" for c
    using measure_next_less [of "append_char l c"] assms lx_ok_src by simp
  have b: "lx_measure (lexer_get_next_char (append_char ?n c)) < lx_measure l" for c
    using measure_next_le [of "append_char ?n c"] n by simp
  show "lx_ok s e n (dstring_step l) \<and> lx_measure (dstring_step l) < lx_measure l"
    using assms(1) a b n by (auto simp: dstring_step_def Let_def intro!: lx_ok_steps)
  show "lx_ok s e n (sstring_step oob l) \<and> lx_measure (sstring_step oob l) < lx_measure l"
    using assms(1) a n sstring_escape_ok [OF n(1), of oob] measure_next_le [of "sstring_escape oob ?n"]
    by (auto simp: sstring_step_def intro!: lx_ok_next lx_ok_append)
qed

lemma scan_string_returns:
  assumes l: "lx_ok s e n l" and c: "curr_char l \<noteq> 0"
    and st: "\<And>l. lx_ok s e n l \<Longrightarrow> curr_char l \<noteq> 0 \<Longrightarrow>
      lx_ok s e n (step l) \<and> lx_measure (step l) < lx_measure l"
  shows "\<exists>l'. scan_string q step l = Some l' \<and> lx_ok s e n l' \<and> lx_measure l' < lx_measure l"
proof -
  let ?n = "lexer_get_next_char l"
  have n: "lx_ok s e n ?n" "lx_measure ?n < lx_measure l"
    using l c lx_ok_next measure_next_less lx_ok_src by blast+
  obtain k where k: "while_option (\<lambda>l. curr_char l \<noteq> 0 \<and> curr_char l \<noteq> q) step ?n = Some k"
    "lx_ok s e n k" "lx_measure k \<le> lx_measure ?n"
    using while_lexer [of s e n "\<lambda>l. curr_char l \<noteq> 0 \<and> curr_char l \<noteq> q" step ?n] st n by blast
  then show ?thesis
    using n lx_ok_steps measure_next_le [of k] by (auto simp: scan_string_def)
qed

lemma scan_operator_returns:
  assumes l: "lx_ok s e n l"
  shows "lx_ok s e n (scan_operator l) \<and> lx_measure (scan_operator l) \<le> lx_measure l \<and>
    (lx_tk (scan_operator l) \<noteq> BE_TOKEN_END \<longrightarrow> lx_measure (scan_operator l) < lx_measure l)"
proof -
  let ?k = "lexer_get_next_char (set_tk (TK (curr_char l)) l)"
  let ?G = "\<lambda>j. lx_ok s e n j \<and> lx_measure j \<le> lx_measure ?k"
  have eat: "?G j \<Longrightarrow> ?G (eat t j)" for t j
    using lx_ok_steps measure_next_le [of "set_tk t j"] by (auto simp: eat_def)
  have branch: "?G i \<Longrightarrow> ?G j \<Longrightarrow> ?G (if c then i else j)" for c i j
    by simp
  have eat_if: "?G j \<Longrightarrow> ?G (eat_if c t j)" for c t j
    using eat by (simp add: eat_if_def)
  show ?thesis
  proof (cases "curr_char l = 0")
    case True
    then show ?thesis using l lx_ok_set_tk by (simp add: scan_operator_def Let_def) (simp add: set_tk_def)
  next
    case False
    have k: "lx_ok s e n ?k" "lx_measure ?k < lx_measure l"
      using l lx_ok_steps measure_next_less [of "set_tk (TK (curr_char l)) l"] False lx_ok_src [OF l] by auto
    then have g: "?G ?k" by simp
    have "?G (scan_operator l)"
      unfolding scan_operator_def Let_def if_P [OF False]
      by (intro branch eat_if eat g)
    then show ?thesis using k by auto
  qed
qed

lemma scan_token_returns:
  assumes l: "lx_ok s e n l"
  shows "\<exists>l'. scan_token oob l = Some l' \<and> lx_ok s e n l' \<and> lx_measure l' \<le> lx_measure l \<and>
    (lx_tk l' \<noteq> BE_TOKEN_END \<longrightarrow> lx_measure l' < lx_measure l)"
proof -
  consider (w) "is_alpha oob (curr_char l)" | (n) "\<not> is_alpha oob (curr_char l)" "is_numeric oob (curr_char l)"
    | (d) "\<not> is_alpha oob (curr_char l)" "\<not> is_numeric oob (curr_char l)" "curr_char l = 34"
    | (s) "\<not> is_alpha oob (curr_char l)" "\<not> is_numeric oob (curr_char l)" "curr_char l = 39"
    | (o) "\<not> is_alpha oob (curr_char l)" "\<not> is_numeric oob (curr_char l)" "curr_char l \<noteq> 34" "curr_char l \<noteq> 39"
    by blast
  then show ?thesis
  proof cases
    case w
    then show ?thesis using scan_word_returns [OF l, of oob] by (auto simp: scan_token_def)
  next
    case n
    then show ?thesis using scan_number_returns [OF l, of oob] by (auto simp: scan_token_def)
  next
    case d
    then show ?thesis
      using scan_string_returns [OF l _ string_step_ok(1), of 34] by (auto simp: scan_token_def)
  next
    case s
    then show ?thesis
      using scan_string_returns [OF l _ string_step_ok(2) [where oob = oob], of 39] by (auto simp: scan_token_def)
  next
    case o
    then show ?thesis using scan_operator_returns [OF l] by (simp add: scan_token_def)
  qed
qed

lemma next_token_returns:
  assumes "lx_src l = Some s" and "end_pos l = e"
  shows "\<exists>l'. next_token oob l = Some l' \<and> lx_ok s e (lx_measure l) l' \<and>
    (lx_tk l' \<noteq> BE_TOKEN_END \<longrightarrow> lx_measure l' < lx_measure l)"
  using assms
proof (induction "lx_measure l" arbitrary: l rule: less_induct)
  case less
  let ?n = "lx_measure l"
  let ?l0 = "l\<lparr>lx_tk := BE_TOKEN_END, lx_token := []\<rparr>"
  have "lx_ok s e ?n ?l0" using less.prems by (simp add: lx_ok_def)
  then obtain k where k: "skip_whitespace oob ?l0 = Some k" "lx_ok s e ?n k"
    using skip_whitespace_returns by blast
  have again: "\<exists>l'. next_token oob j = Some l' \<and> lx_ok s e ?n l' \<and>
      (lx_tk l' \<noteq> BE_TOKEN_END \<longrightarrow> lx_measure l' < ?n)"
    if "lx_ok s e ?n j" "lx_measure j < lx_measure k" for j
  proof -
    have "lx_measure j < ?n" "lx_src j = Some s" "end_pos j = e" using that k(2) by (auto simp: lx_ok_def)
    from less.hyps [OF this] this(1) show ?thesis by (auto simp: lx_ok_def)
  qed
  show ?case
  proof (cases "curr_char k = 47 \<and> (next_char k = 47 \<or> next_char k = 42)")
    case True
    then show ?thesis
      using k(1) skip_line_returns [OF k(2)] skip_block_returns [OF k(2)] again
      by (subst next_token.simps) fastforce
  next
    case False
    let ?k = "k\<lparr>token_start := curr_pos k - 2\<rparr>"
    have o: "lx_ok s e ?n ?k" using k(2) by (simp add: lx_ok_def)
    obtain j where j: "scan_token oob ?k = Some j" "lx_ok s e ?n j"
      "lx_tk j \<noteq> BE_TOKEN_END \<longrightarrow> lx_measure j < lx_measure ?k"
      using scan_token_returns [OF o] by blast
    have "lx_measure ?k \<le> ?n" using o by (simp add: lx_ok_def)
    then have "lx_ok s e ?n (token_done j)" "lx_tk (token_done j) \<noteq> BE_TOKEN_END \<longrightarrow> lx_measure (token_done j) < ?n"
      using j(2,3) by (auto simp: lx_ok_def token_done_def)
    then show ?thesis using k(1) j(1) False by (subst next_token.simps) auto
  qed
qed

end
