(* ===== verification/Lexer_Spec.thy ===== *)
theory Lexer_Spec
  imports Lexer
begin

text \<open>
  What the lexical analyser computes: the keyword switch against the table of keywords,
  and the tokens of a source text written with white space and comments between them.
\<close>

section \<open>Keywords\<close>

definition keyword_table :: "(byte list \<times> tok) list" where
  "keyword_table =
     [(str ''if'', BE_TOKEN_KW_IF), (str ''else'', BE_TOKEN_KW_ELSE), (str ''do'', BE_TOKEN_KW_DO),
      (str ''while'', BE_TOKEN_KW_WHILE), (str ''for'', BE_TOKEN_KW_FOR),
      (str ''break'', BE_TOKEN_KW_BREAK), (str ''continue'', BE_TOKEN_KW_CONTINUE),
      (str ''function'', BE_TOKEN_KW_FUNCTION), (str ''return'', BE_TOKEN_KW_RETURN),
      (str ''var'', BE_TOKEN_KW_VAR), (str ''true'', BE_TOKEN_KW_TRUE),
      (str ''false'', BE_TOKEN_KW_FALSE), (str ''null'', BE_TOKEN_KW_NULL),
      (str ''undefined'', BE_TOKEN_KW_UNDEFINED), (str ''new'', BE_TOKEN_KW_NEW),
      (str ''in'', BE_TOKEN_KW_IN), (str ''switch'', BE_TOKEN_KW_SWITCH),
      (str ''case'', BE_TOKEN_KW_CASE), (str ''default'', BE_TOKEN_KW_DEFAULT)]"

definition keyword_of :: "byte list \<Rightarrow> tok" where
  "keyword_of t = (case map_of keyword_table t of None \<Rightarrow> BE_TOKEN_ID | Some k \<Rightarrow> k)"

lemma is_token_eq:
  assumes "0 \<notin> set t" and "0 \<notin> set c" and "t \<noteq> []" and "c \<noteq> []" and "t ! 0 = c ! 0"
  shows "be_jse_lexer_is_token t c 1 \<longleftrightarrow> t = c"
proof
  assume a: "be_jse_lexer_is_token t c 1"
  have eq: "t ! i = ch c i" if "i < length t" for i
    using a that assms by (cases i) (auto simp: be_jse_lexer_is_token_def list_all_iff ch_def)
  have le: "length t \<le> length c"
  proof (rule ccontr)
    assume "\<not> length t \<le> length c"
    then have "t ! length c = 0" using eq by (simp add: ch_def)
    then show False using assms(1) \<open>\<not> length t \<le> length c\<close> by (metis not_le nth_mem)
  qed
  have "ch c (length t) = 0" using a by (simp add: be_jse_lexer_is_token_def)
  then have "length t = length c"
    using le assms(2) by (metis ch_def nth_mem le_neq_implies_less)
  then show "t = c" using eq by (intro nth_equalityI) (auto simp: ch_def)
qed (auto simp: be_jse_lexer_is_token_def list_all_iff ch_def)

lemma keyword_switch_table:
  assumes "0 \<notin> set t" and "t \<noteq> []"
  shows "keyword_switch t = keyword_of t"
proof -
  obtain c cs where t: "t = c # cs" using assms(2) by (cases t) auto
  have eq: "c = d \<Longrightarrow> 0 \<notin> set (d # ds) \<Longrightarrow>
      be_jse_lexer_is_token (d # cs) (d # ds) (Suc 0) \<longleftrightarrow> cs = ds" for d ds
    using is_token_eq [of t "d # ds"] assms by (simp add: t)
  show ?thesis
  proof (cases "c \<in> {98, 99, 100, 101, 102, 105, 110, 114, 115, 116, 117, 119, 118}")
    case True
    then show ?thesis
      unfolding keyword_switch_def Let_def t
      by (elim insertE emptyE) (simp_all add: eq keyword_of_def keyword_table_def)
  next
    case False
    then show ?thesis
      unfolding keyword_switch_def Let_def t
      by (simp add: keyword_of_def keyword_table_def)
  qed
qed

section \<open>What is left of the source\<close>

text \<open>
  \<open>lx_view s ts l k w r\<close>: the lexer works on \<open>s\<close>, has the token kind \<open>k\<close> with the bytes
  \<open>w\<close> and the token start \<open>ts\<close>, and its look-ahead characters are the first two of the
  rest \<open>r\<close> of the source.
\<close>

definition lx_view :: "byte list \<Rightarrow> int \<Rightarrow> lexer \<Rightarrow> tok \<Rightarrow> byte list \<Rightarrow> byte list \<Rightarrow> bool" where
  "lx_view s ts l k w r \<longleftrightarrow>
     lx_src l = Some s \<and> 0 \<le> end_pos l \<and> end_pos l \<le> int (length s) \<and> 2 \<le> curr_pos l \<and>
     r = drop (nat (curr_pos l - 2)) (take (nat (end_pos l)) s) \<and>
     curr_char l = ch r 0 \<and> next_char l = ch r 1 \<and>
     lx_tk l = k \<and> lx_token l = w \<and> token_start l = ts"

lemma view_chars:
  "lx_view s ts l k w r \<Longrightarrow> curr_char l = ch r 0"
  "lx_view s ts l k w r \<Longrightarrow> next_char l = ch r 1"
  by (simp_all add: lx_view_def)

lemma view_next:
  assumes "lx_view s ts l k w r"
  shows "lx_view s ts (lexer_get_next_char l) k w (tl r)"
proof -
  let ?p = "nat (curr_pos l - 2)" and ?e = "nat (end_pos l)"
  have s: "lx_src l = Some s" and r: "r = drop ?p (take ?e s)" and e: "0 \<le> end_pos l" "?e \<le> length s"
    and p: "2 \<le> curr_pos l" using assms by (auto simp: lx_view_def)
  have n: "nat (curr_pos l + 1 - 2) = Suc ?p" using p by simp
  have t: "tl r = drop (nat (curr_pos l + 1 - 2)) (take ?e s)"
    unfolding r n by (simp only: tl_drop drop_Suc)
  have "ch (tl r) 1 = (if curr_pos l < end_pos l then src_at s (curr_pos l) else 0)"
  proof (cases "curr_pos l < end_pos l")
    case True
    have "nat (curr_pos l + 1 - 2) + 1 = nat (curr_pos l)" using p by simp
    then show ?thesis using True p e unfolding t by (auto simp: ch_def src_at_def)
  next
    case False
    then show ?thesis using p e unfolding t by (auto simp: ch_def)
  qed
  moreover have "ch (tl r) 0 = ch r 1" by (cases r) (auto simp: ch_def)
  ultimately show ?thesis
    using assms s t by (simp add: lx_view_def lexer_get_next_char_def)
qed

lemma view_append: "lx_view s ts l k w r \<Longrightarrow> length w < 63 \<Longrightarrow> lx_view s ts (append_char l c) k (w @ [c]) r"
  by (simp add: lx_view_def append_char_def)

lemma view_set_tk: "lx_view s ts l k w r \<Longrightarrow> lx_view s ts (set_tk t l) t w r"
  by (simp add: lx_view_def set_tk_def)

lemma view_take:
  assumes "lx_view s ts l k w (c # r)" and "length w < 63"
  shows "lx_view s ts (take_char l) k (w @ [c]) r"
  using view_next [OF view_append [OF assms]] view_chars(1) [OF assms(1)] by (simp add: take_char_def)

lemma while_take_view:
  assumes "lx_view s ts l k w (u @ r)" and "\<forall>c\<in>set u. P c" and "\<not> P (ch r 0)"
    and "length w + length u \<le> 63"
  shows "\<exists>l'. while_option (\<lambda>l. P (curr_char l)) take_char l = Some l' \<and> lx_view s ts l' k (w @ u) r"
  using assms
proof (induction u arbitrary: l w)
  case Nil
  then show ?case using view_chars(1) [OF Nil.prems(1)] by (subst while_option_unfold) auto
next
  case (Cons c u)
  have "curr_char l = c" using view_chars(1) [OF Cons.prems(1)] by simp
  then have "while_option (\<lambda>l. P (curr_char l)) take_char l =
      while_option (\<lambda>l. P (curr_char l)) take_char (take_char l)"
    using Cons.prems(2) by (subst while_option_unfold) simp
  then show ?case using Cons.IH [of "take_char l" "w @ [c]"] view_take Cons.prems by simp
qed

text \<open>Skipping with a condition on both look-ahead characters.\<close>

fun skips :: "(byte \<Rightarrow> byte \<Rightarrow> bool) \<Rightarrow> byte list \<Rightarrow> byte list \<Rightarrow> bool" where
  "skips b [] r = (\<not> b (ch r 0) (ch r 1))"
| "skips b (c # u) r = (b c (ch (u @ r) 0) \<and> skips b u r)"

lemma while_next_view:
  assumes "lx_view s ts l k w (u @ r)" and "skips b u r"
  shows "\<exists>l'. while_option (\<lambda>l. b (curr_char l) (next_char l)) lexer_get_next_char l = Some l' \<and>
    lx_view s ts l' k w r"
  using assms
proof (induction u arbitrary: l)
  case Nil
  then show ?case using view_chars [OF Nil.prems(1)] by (subst while_option_unfold) auto
next
  case (Cons c u)
  have "curr_char l = c" "next_char l = ch (u @ r) 0"
    using view_chars [OF Cons.prems(1)] by (simp_all add: ch_def nth_Cons')
  then have "while_option (\<lambda>l. b (curr_char l) (next_char l)) lexer_get_next_char l =
      while_option (\<lambda>l. b (curr_char l) (next_char l)) lexer_get_next_char (lexer_get_next_char l)"
    using Cons.prems(2) by (subst while_option_unfold) simp
  then show ?case using Cons.IH [of "lexer_get_next_char l"] view_next Cons.prems by force
qed

lemma skips_all: "\<forall>c\<in>set u. P c \<Longrightarrow> \<not> P (ch r 0) \<Longrightarrow> skips (\<lambda>c d. P c) u r"
  by (induction u) auto

section \<open>White space and comments\<close>

datatype gap = Space byte | Line_comment "byte list" | Block_comment "byte list"

fun gap_text :: "gap \<Rightarrow> byte list" where
  "gap_text (Space c) = [c]"
| "gap_text (Line_comment u) = 47 # 47 # u @ [10]"
| "gap_text (Block_comment u) = 47 # 42 # u @ [42, 47]"

text \<open>A byte pair of a star and a slash.\<close>

fun closes :: "byte list \<Rightarrow> bool" where
  "closes (a # b # u) = (a = 42 \<and> b = 47 \<or> closes (b # u))"
| "closes u = False"

fun gap_ok :: "gap \<Rightarrow> bool" where
  "gap_ok (Space c) = (ref_whitespace c \<or> c = 11 \<or> c = 12)"
| "gap_ok (Line_comment u) = (0 \<notin> set u \<and> 10 \<notin> set u)"
| "gap_ok (Block_comment u) = (0 \<notin> set u \<and> \<not> closes (42 # u @ [42]))"

lemma gap_ok_space: "gap_ok (Space c) \<Longrightarrow> is_whitespace oob c \<and> c \<noteq> 0"
proof -
  assume c: "gap_ok (Space c)"
  then have "unat c < 128" by (auto simp: ref_whitespace_def)
  then show ?thesis using c table_ascii(1) [of c oob] by (auto simp: ref_whitespace_def)
qed

lemma skip_line_view:
  assumes "lx_view s ts l k w (gap_text (Line_comment u) @ r)" and "gap_ok (Line_comment u)"
  shows "\<exists>l'. skip_line l = Some l' \<and> lx_view s ts l' k w r"
proof -
  have "lx_view s ts l k w ((47 # 47 # u) @ 10 # r)" using assms(1) by simp
  moreover have "skips (\<lambda>c d. c \<noteq> 0 \<and> c \<noteq> 10) (47 # 47 # u) (10 # r)"
    using assms(2) by (intro skips_all) auto
  ultimately obtain l' where "while_option (\<lambda>l. curr_char l \<noteq> 0 \<and> curr_char l \<noteq> 10) lexer_get_next_char l = Some l'"
    "lx_view s ts l' k w (10 # r)"
    using while_next_view [where b = "\<lambda>c d. c \<noteq> 0 \<and> c \<noteq> 10"] by blast
  then show ?thesis using view_next [of s ts l' k w "10 # r"] by (simp add: skip_line_def)
qed

lemma skips_block: "\<not> closes (c # u @ [42]) \<Longrightarrow> 0 \<notin> set (c # u) \<Longrightarrow>
  skips (\<lambda>c d. c \<noteq> 0 \<and> (c \<noteq> 42 \<or> d \<noteq> 47)) (c # u) (42 # 47 # r)"
proof (induction u arbitrary: c)
  case (Cons d u)
  then show ?case by auto
qed auto

lemma skip_block_view:
  assumes "lx_view s ts l k w (gap_text (Block_comment u) @ r)" and "gap_ok (Block_comment u)"
  shows "\<exists>l'. skip_block l = Some l' \<and> lx_view s ts l' k w r"
proof -
  let ?b = "\<lambda>c d. c \<noteq> 0 \<and> (c \<noteq> 42 \<or> d \<noteq> (47 :: byte))"
  have "lx_view s ts l k w ((47 # 42 # u) @ 42 # 47 # r)" using assms(1) by simp
  moreover have "skips ?b (47 # 42 # u) (42 # 47 # r)"
    using skips_block [of 42 u] assms(2) by (simp add: ch_def)
  ultimately obtain l' where "while_option (\<lambda>l. ?b (curr_char l) (next_char l)) lexer_get_next_char l = Some l'"
    "lx_view s ts l' k w (42 # 47 # r)"
    using while_next_view [where b = ?b] by blast
  then show ?thesis
    using view_next [of s ts "lexer_get_next_char l'" k w "47 # r"] view_next [of s ts l' k w "42 # 47 # r"]
    by (simp add: skip_block_def)
qed

lemma next_reset: "lexer_get_next_char (l\<lparr>lx_tk := t, lx_token := w\<rparr>) =
  lexer_get_next_char l\<lparr>lx_tk := t, lx_token := w\<rparr>"
  by (simp add: lexer_get_next_char_def split: option.splits)

lemma next_token_space: "is_whitespace oob (curr_char l) \<Longrightarrow>
  next_token oob l = next_token oob (lexer_get_next_char l)"
proof -
  assume w: "is_whitespace oob (curr_char l)"
  let ?z = "\<lambda>l. l\<lparr>lx_tk := BE_TOKEN_END, lx_token := []\<rparr>"
  have "skip_whitespace oob (?z l) = skip_whitespace oob (?z (lexer_get_next_char l))"
    unfolding skip_whitespace_def using w class_nonzero(4)
    by (subst while_option_unfold) (auto simp: next_reset)
  then show ?thesis by (subst (1 2) next_token.simps) simp
qed

lemma view_reset: "lx_view s ts l k w r \<Longrightarrow>
  lx_view s ts (l\<lparr>lx_tk := t, lx_token := v\<rparr>) t v r"
  by (simp add: lx_view_def)

lemma skip_whitespace_none: "\<not> is_whitespace oob (curr_char l) \<Longrightarrow> skip_whitespace oob l = Some l"
  unfolding skip_whitespace_def by (subst while_option_unfold) simp

lemma slash_no_space [simp]: "\<not> is_whitespace oob 47"
  using table_ascii(1) [of 47 oob] by (simp add: ref_whitespace_def)

lemma next_token_gap:
  assumes v: "lx_view s ts l k w (gap_text g @ r)" and g: "gap_ok g"
  shows "\<exists>l' k' w'. next_token oob l = next_token oob l' \<and> lx_view s ts l' k' w' r"
proof (cases g)
  case (Space c)
  then show ?thesis
    using next_token_space [of oob l] gap_ok_space [of c oob] view_chars(1) [OF v] view_next [OF v] g
    by auto
next
  case (Line_comment u)
  let ?l = "l\<lparr>lx_tk := BE_TOKEN_END, lx_token := []\<rparr>"
  have v': "lx_view s ts ?l BE_TOKEN_END [] (gap_text (Line_comment u) @ r)"
    using view_reset [OF v] Line_comment by simp
  then have c: "curr_char ?l = 47" "next_char ?l = 47" by (simp_all add: view_chars)
  obtain l' where "skip_line ?l = Some l'" "lx_view s ts l' BE_TOKEN_END [] r"
    using skip_line_view [OF v'] g Line_comment by blast
  then show ?thesis
    using c skip_whitespace_none [of oob ?l] by (subst next_token.simps) auto
next
  case (Block_comment u)
  let ?l = "l\<lparr>lx_tk := BE_TOKEN_END, lx_token := []\<rparr>"
  have v': "lx_view s ts ?l BE_TOKEN_END [] (gap_text (Block_comment u) @ r)"
    using view_reset [OF v] Block_comment by simp
  then have c: "curr_char ?l = 47" "next_char ?l = 42" by (simp_all add: view_chars)
  obtain l' where "skip_block ?l = Some l'" "lx_view s ts l' BE_TOKEN_END [] r"
    using skip_block_view [OF v'] g Block_comment by blast
  then show ?thesis
    using c skip_whitespace_none [of oob ?l] by (subst next_token.simps) auto
qed

lemma next_token_gaps:
  assumes "lx_view s ts l k w (concat (map gap_text gs) @ r)" and "list_all gap_ok gs"
  shows "\<exists>l' k' w'. next_token oob l = next_token oob l' \<and> lx_view s ts l' k' w' r"
  using assms
proof (induction gs arbitrary: l k w)
  case Nil
  then show ?case by auto
next
  case (Cons g gs)
  then show ?case using next_token_gap [of s ts l k w g "concat (map gap_text gs) @ r" oob] by fastforce
qed

lemma next_token_here:
  assumes v: "lx_view s ts l k w r" and "\<not> is_whitespace oob (ch r 0)"
    and "\<not> (ch r 0 = 47 \<and> (ch r 1 = 47 \<or> ch r 1 = 42))"
  shows "\<exists>l'. next_token oob l = map_option token_done (scan_token oob l') \<and>
    lx_view s (curr_pos l - 2) l' BE_TOKEN_END [] r \<and> curr_pos l' = curr_pos l"
proof -
  let ?l = "l\<lparr>lx_tk := BE_TOKEN_END, lx_token := []\<rparr>"
  have "lx_view s (curr_pos l - 2) (?l\<lparr>token_start := curr_pos ?l - 2\<rparr>) BE_TOKEN_END [] r"
    using v by (simp add: lx_view_def)
  moreover have "skip_whitespace oob ?l = Some ?l"
    using skip_whitespace_none [of oob ?l] view_chars(1) [OF v] assms(2) by simp
  ultimately show ?thesis
    using view_chars [OF v] assms(3) by (subst next_token.simps) auto
qed

section \<open>Lexemes\<close>

text \<open>
  Words and decimal numbers as they stand, strings in double quotes, operators. The
  separators after a lexeme are white space and the end of the source.
\<close>

datatype lexeme = LWord "byte list" | LInt "byte list" | LStr "byte list" | LOp tok

definition op_table :: "(tok \<times> string) list" where
  "op_table =
     [(BE_TOKEN_OP_EQUAL, ''==''), (BE_TOKEN_OP_STRICT_EQUAL, ''===''), (BE_TOKEN_OP_NEQUAL, ''!=''),
      (BE_TOKEN_OP_STRICT_NEQUAL, ''!==''), (BE_TOKEN_OP_LESS_EQUAL, ''<=''),
      (BE_TOKEN_OP_LEFT_SHIFT, ''<<''), (BE_TOKEN_OP_LEFT_SHIFT_EQL, ''<<=''),
      (BE_TOKEN_OP_MORE_EQUAL, ''>=''), (BE_TOKEN_OP_RIGHT_SHIFT, ''>>''),
      (BE_TOKEN_OP_RIGHT_SHIFT_UNSIGN, ''>>>''), (BE_TOKEN_OP_RIGHT_SHIFT_EQUAL, ''>>=''),
      (BE_TOKEN_OP_PLUS_EQUAL, ''+=''), (BE_TOKEN_OP_MINUS_EQUAL, ''-=''),
      (BE_TOKEN_OP_MUL_EQUAL, ''*=''), (BE_TOKEN_OP_DIV_EQUAL, ''/=''),
      (BE_TOKEN_OP_PLUS_PLUS, ''++''), (BE_TOKEN_OP_MINUS_MINUS, ''--''),
      (BE_TOKEN_OP_AND_EQUAL, ''&=''), (BE_TOKEN_OP_LOGIC_AND, ''&&''),
      (BE_TOKEN_OP_OR_EQUAL, ''|=''), (BE_TOKEN_OP_LOGIC_OR, ''||''), (BE_TOKEN_OP_XOR_EQUAL, ''^='')]"

definition op_text :: "tok \<Rightarrow> byte list" where
  "op_text t = (case t of TK c \<Rightarrow> [c]
     | _ \<Rightarrow> (case map_of op_table t of Some w \<Rightarrow> str w | None \<Rightarrow> []))"

definition punct :: "byte \<Rightarrow> bool" where
  "punct c \<longleftrightarrow> 32 < c \<and> c < 127 \<and> \<not> ref_alpha c \<and> \<not> ref_numeric c \<and> c \<noteq> 34 \<and> c \<noteq> 39"

definition dquote :: "byte \<Rightarrow> byte list" where
  "dquote c = (if c = 10 then [92, 110] else if c = 34 then [92, 34] else if c = 92 then [92, 92] else [c])"

fun lexeme_text :: "lexeme \<Rightarrow> byte list" where
  "lexeme_text (LWord w) = w"
| "lexeme_text (LInt w) = w"
| "lexeme_text (LStr w) = 34 # concat (map dquote w) @ [34]"
| "lexeme_text (LOp t) = op_text t"

fun lexeme_ok :: "lexeme \<Rightarrow> bool" where
  "lexeme_ok (LWord w) = (w \<noteq> [] \<and> ref_alpha (hd w) \<and>
     list_all (\<lambda>c. ref_alpha c \<or> ref_numeric c) w \<and> length w \<le> 63)"
| "lexeme_ok (LInt w) = (w \<noteq> [] \<and> list_all ref_numeric w \<and> length w \<le> 63)"
| "lexeme_ok (LStr w) = (0 \<notin> set w \<and> length w \<le> 63)"
| "lexeme_ok (LOp t) = (case t of TK c \<Rightarrow> punct c | _ \<Rightarrow> t \<in> fst ` set op_table)"

fun lexeme_tok :: "lexeme \<Rightarrow> tok" where
  "lexeme_tok (LWord w) = keyword_of w"
| "lexeme_tok (LInt w) = BE_TOKEN_INT"
| "lexeme_tok (LStr w) = BE_TOKEN_STR"
| "lexeme_tok (LOp t) = t"

fun lexeme_bytes :: "lexeme \<Rightarrow> byte list" where
  "lexeme_bytes (LOp t) = []"
| "lexeme_bytes (LWord w) = w"
| "lexeme_bytes (LInt w) = w"
| "lexeme_bytes (LStr w) = w"

definition separator :: "byte \<Rightarrow> bool" where
  "separator c \<longleftrightarrow> c = 0 \<or> ref_whitespace c"

lemma ref_ascii: "ref_alpha c \<Longrightarrow> unat c < 128" "ref_numeric c \<Longrightarrow> unat c < 128"
  "separator c \<Longrightarrow> unat c < 128" "punct c \<Longrightarrow> unat c < 128"
  by (auto simp: ref_alpha_def ref_numeric_def separator_def ref_whitespace_def punct_def
      word_le_nat_alt word_less_nat_alt)

lemmas byte_nat = word_le_nat_alt word_less_nat_alt word_unat_eq_iff

lemma ref_disjoint:
  "ref_numeric c \<Longrightarrow> \<not> ref_alpha c"
  "separator c \<Longrightarrow> \<not> ref_alpha c \<and> \<not> ref_numeric c"
  "punct c \<Longrightarrow> \<not> ref_alpha c \<and> \<not> ref_numeric c \<and> \<not> separator c \<and> c \<noteq> 11 \<and> c \<noteq> 12"
  "ref_alpha c \<or> ref_numeric c \<Longrightarrow> \<not> separator c \<and> c \<noteq> 11 \<and> c \<noteq> 12 \<and> c \<noteq> 47 \<and> c \<noteq> 34 \<and> c \<noteq> 39"
  by (auto simp: ref_numeric_def ref_alpha_def separator_def ref_whitespace_def punct_def byte_nat)

lemma class_ref:
  "ref_alpha c \<Longrightarrow> is_alpha oob c" "ref_numeric c \<Longrightarrow> is_numeric oob c"
  "ref_numeric c \<Longrightarrow> \<not> is_alpha oob c"
  "separator c \<Longrightarrow> \<not> is_alpha oob c" "separator c \<Longrightarrow> \<not> is_numeric oob c"
  "punct c \<Longrightarrow> \<not> is_alpha oob c" "punct c \<Longrightarrow> \<not> is_numeric oob c"
  "ref_alpha c \<Longrightarrow> \<not> is_whitespace oob c" "ref_numeric c \<Longrightarrow> \<not> is_whitespace oob c"
  "punct c \<Longrightarrow> \<not> is_whitespace oob c"
  using ref_ascii [of c] table_ascii [of c oob] ref_disjoint [of c]
  by (simp_all add: separator_def)

lemma ref_not_quote: "ref_alpha c \<or> ref_numeric c \<Longrightarrow> c \<noteq> 47 \<and> c \<noteq> 34 \<and> c \<noteq> 39"
  using ref_disjoint(4) by blast

lemma scan_word_view:
  assumes v: "lx_view s ts l k [] (w @ r)" and ok: "lexeme_ok (LWord w)" and r: "separator (ch r 0)"
  shows "\<exists>l'. scan_token oob l = Some l' \<and> lx_view s ts l' (keyword_of w) w r"
proof -
  let ?P = "\<lambda>c. is_alpha oob c \<or> is_numeric oob c"
  have c: "curr_char l = hd w" using view_chars(1) [OF v] ok by (cases w) auto
  have a: "is_alpha oob (curr_char l)" using ok class_ref(1) c by simp
  have "\<forall>c\<in>set w. ?P c" using ok class_ref(1,2) by (auto simp: list_all_iff)
  moreover have "\<not> ?P (ch r 0)" using class_ref(4,5) [OF r] by simp
  ultimately obtain l' where l': "while_option (\<lambda>l. ?P (curr_char l)) take_char l = Some l'"
    "lx_view s ts l' k w r"
    using while_take_view [of s ts l k "[]" w r ?P] v ok by auto
  have "0 \<notin> set w" using ok class_ref(1,2) class_nonzero(1,2) by (fastforce simp: list_all_iff)
  then have "keyword_switch w = keyword_of w" using ok keyword_switch_table by simp
  moreover have "lx_token l' = w" using l'(2) by (simp add: lx_view_def)
  ultimately show ?thesis
    using a l' view_set_tk [OF l'(2)] by (simp add: scan_token_def scan_word_def)
qed

lemma scan_int_view:
  assumes v: "lx_view s ts l k [] (w @ r)" and ok: "lexeme_ok (LInt w)" and r: "separator (ch r 0)"
  shows "\<exists>l'. scan_token oob l = Some l' \<and> lx_view s ts l' BE_TOKEN_INT w r"
proof -
  let ?P = "is_numeric oob"
  obtain c u where w: "w = c # u" using ok by (cases w) auto
  have cc: "curr_char l = c" using view_chars(1) [OF v] w by simp
  have num: "ref_numeric c" "list_all ref_numeric u" "length u \<le> 62" using ok w by auto
  have n: "\<not> is_alpha oob c" "is_numeric oob c" using class_ref num(1) by blast+
  have stop: "ch r 0 \<noteq> 120" "ch r 0 \<noteq> 98" "ch r 0 \<noteq> 46" "ch r 0 \<noteq> 101" "ch r 0 \<noteq> 69" "\<not> ?P (ch r 0)"
    using r class_ref(5) [OF r] by (auto simp: separator_def ref_whitespace_def)
  define l1 where "l1 = (if c = 48 then take_char l else l)"
  obtain p q where pq: "w = p @ q" "lx_view s ts l1 k p (q @ r)"
    using view_take [of s ts l k "[]" c "u @ r"] v w that [of "[c]" u] that [of "[]" w]
    by (cases "c = 48") (auto simp: l1_def cc)
  have q: "list_all ref_numeric q" "length p + length q \<le> 63" using ok pq(1) by auto
  have cq: "curr_char l1 = ch (q @ r) 0" using view_chars(1) [OF pq(2)] .
  have np: "curr_char l1 \<noteq> 120" "curr_char l1 \<noteq> 98"
    using cq q(1) stop by (cases q; auto simp: ref_numeric_def word_le_nat_alt)+
  obtain l3 where l3: "while_option (\<lambda>l. ?P (curr_char l)) take_char (set_tk BE_TOKEN_INT l1) = Some l3"
    "lx_view s ts l3 BE_TOKEN_INT w r"
    using while_take_view [OF view_set_tk [OF pq(2)], of ?P BE_TOKEN_INT] q stop class_ref(2) pq(1)
    by (auto simp: list_all_iff)
  have "scan_number oob l = Some l3"
    using l3(1) np stop view_chars(1) [OF l3(2)]
    by (simp add: scan_number_def cc l1_def [symmetric])
  then show ?thesis using n cc l3(2) by (auto simp: scan_token_def)
qed

lemma dstring_step_view:
  assumes v: "lx_view s ts l k w (dquote c @ r)" and "length w < 63" and "c \<noteq> 0"
  shows "lx_view s ts (dstring_step l) k (w @ [c]) r"
proof (cases "c = 10 \<or> c = 34 \<or> c = 92")
  case True
  then obtain d where d: "dquote c = [92, d]" "(if d = 110 then 10 else d) = c"
    by (auto simp: dquote_def)
  have n: "lx_view s ts (lexer_get_next_char l) k w (d # r)" using view_next [OF v] d by simp
  have "curr_char l = 92" "curr_char (lexer_get_next_char l) = d"
    using view_chars(1) [OF v] view_chars(1) [OF n] d by simp_all
  then show ?thesis
    using view_next [OF view_append [OF n assms(2)], of c] d(2) by (auto simp: dstring_step_def Let_def)
next
  case False
  then have "dquote c = [c]" by (simp add: dquote_def)
  moreover from this have "curr_char l = c" using view_chars(1) [OF v] by simp
  ultimately show ?thesis
    using view_next [OF view_append [OF v assms(2)]] False by (simp add: dstring_step_def)
qed

lemma dstring_loop_view:
  assumes "lx_view s ts l k w (concat (map dquote u) @ 34 # r)" and "0 \<notin> set u"
    and "length w + length u \<le> 63"
  shows "\<exists>l'. while_option (\<lambda>l. curr_char l \<noteq> 0 \<and> curr_char l \<noteq> 34) dstring_step l = Some l' \<and>
    lx_view s ts l' k (w @ u) (34 # r)"
  using assms
proof (induction u arbitrary: l w)
  case Nil
  then show ?case using view_chars(1) [of s ts l k w "34 # r"] by (subst while_option_unfold) auto
next
  case (Cons c u)
  have v: "lx_view s ts l k w (dquote c @ concat (map dquote u) @ 34 # r)" using Cons.prems(1) by simp
  have c: "c \<noteq> 0" using Cons.prems(2) by auto
  have "curr_char l \<noteq> 0 \<and> curr_char l \<noteq> 34" using view_chars(1) [OF v] c by (auto simp: dquote_def)
  moreover have "lx_view s ts (dstring_step l) k (w @ [c]) (concat (map dquote u) @ 34 # r)"
    using dstring_step_view [OF v _ c] Cons.prems(3) by simp
  ultimately show ?case
    using Cons.IH [of "dstring_step l" "w @ [c]"] Cons.prems by (subst while_option_unfold) auto
qed

lemma quote_classes: "\<not> is_alpha oob 34" "\<not> is_numeric oob 34" "\<not> is_whitespace oob 34"
  using table_ascii [of 34 oob] by (auto simp: ref_alpha_def ref_numeric_def ref_whitespace_def)

lemma scan_str_view:
  assumes v: "lx_view s ts l k [] (lexeme_text (LStr w) @ r)" and ok: "lexeme_ok (LStr w)"
  shows "\<exists>l'. scan_token oob l = Some l' \<and> lx_view s ts l' BE_TOKEN_STR w r"
proof -
  let ?n = "lexer_get_next_char l"
  have c: "curr_char l = 34" using view_chars(1) [OF v] by simp
  have "lx_view s ts ?n k [] (concat (map dquote w) @ 34 # r)" using view_next [OF v] by simp
  then obtain l' where l': "while_option (\<lambda>l. curr_char l \<noteq> 0 \<and> curr_char l \<noteq> 34) dstring_step ?n = Some l'"
    "lx_view s ts l' k w (34 # r)"
    using dstring_loop_view [of s ts ?n k "[]" w r] ok by auto
  then show ?thesis
    using c quote_classes view_set_tk [OF view_next [OF l'(2)]]
    by (simp add: scan_token_def scan_string_def)
qed

end
