(* ===== verification/Lexer_Trip.thy ===== *)
theory Lexer_Trip
  imports Lexer_Spec
begin

text \<open>
  Reading back whole source texts, the positions the lexer reports, and what it does on
  long words, null sources and the names of its own tokens.
\<close>

section \<open>Operators\<close>

lemma scan_op_char:
  assumes v: "lx_view s ts l k [] (c # r)" and c: "punct c" and r: "separator (ch r 0)"
  shows "lx_view s ts (scan_operator l) (TK c) [] r"
proof -
  let ?l = "lexer_get_next_char (set_tk (TK c) l)"
  have "lx_view s ts ?l (TK c) [] r" using view_next [OF view_set_tk [OF v]] by simp
  moreover from this have "curr_char ?l = ch r 0" by (rule view_chars(1))
  moreover have "curr_char l = c" "c \<noteq> 0" using view_chars(1) [OF v] c by (auto simp: punct_def)
  moreover have "ch r 0 \<notin> {61, 60, 62, 43, 45, 38, 124}"
    using r by (auto simp: separator_def ref_whitespace_def)
  ultimately show ?thesis by (simp add: scan_operator_def)
qed

lemma eat_view:
  assumes "lx_view s ts l k w (c # r)"
  shows "lx_view s ts (eat t l) t w r" "curr_char (eat t l) = ch r 0"
  using view_next [OF view_set_tk [OF assms, of t]] view_chars(1) by (auto simp: eat_def)

lemma scan_op_table:
  assumes v: "lx_view s ts l k [] (str x @ r)" and t: "(t, x) \<in> set op_table" and r: "separator (ch r 0)"
  shows "lx_view s ts (scan_operator l) t [] r"
proof -
  have e: "curr_char l = ch (str x @ r) 0" using view_chars(1) [OF v] .
  have no: "ch r 0 \<noteq> 61" "ch r 0 \<noteq> 62" using r by (auto simp: separator_def ref_whitespace_def)
  let ?k = "\<lambda>a. eat (TK a) l"
  have two: "curr_char l = a \<and> curr_char (?k a) = b \<and> lx_view s ts (eat t (?k a)) t [] r \<and>
      curr_char (eat t (?k a)) = ch r 0" if "str x = [a, b]" for a b t
    using v that e eat_view [of s ts l k "[]" a "b # r" "TK a"] eat_view [of s ts "?k a" "TK a" "[]" b r t] by simp
  have three: "curr_char l = a \<and> curr_char (?k a) = b \<and> curr_char (eat t (?k a)) = c \<and>
      lx_view s ts (eat u (eat t (?k a))) u [] r" if "str x = [a, b, c]" for a b c t u
    using v that e eat_view [of s ts l k "[]" a "b # c # r" "TK a"]
      eat_view [of s ts "?k a" "TK a" "[]" b "c # r" t] eat_view [of s ts "eat t (?k a)" t "[]" c r u] by simp
  have k: "lexer_get_next_char (set_tk (TK a) l) = ?k a" for a by (simp add: eat_def)
  show ?thesis
    using t unfolding op_table_def
    by (simp, elim disjE)
       (use two three no in \<open>simp_all add: scan_operator_def Let_def k eat_if_def\<close>)
qed

lemma op_table_first: "(t, x) \<in> set op_table \<Longrightarrow>
  \<exists>c d u. str x = c # d # u \<and> punct c \<and> (c = 47 \<longrightarrow> d = 61)"
  unfolding op_table_def
  by (simp, elim disjE) (simp_all add: punct_def ref_alpha_def ref_numeric_def)

lemma op_text_cases:
  assumes "lexeme_ok (LOp t)"
  obtains c where "t = TK c" "punct c" "op_text t = [c]" "lexeme_tok (LOp t) = TK c"
  | x where "(t, x) \<in> set op_table" "op_text t = str x"
proof (cases "\<exists>c. t = TK c")
  case True
  then show ?thesis using that(1) assms by (auto simp: op_text_def)
next
  case False
  then have "t \<in> fst ` set op_table" using assms by (auto split: tok.splits)
  then obtain x where x: "map_of op_table t = Some x" by (metis map_of_eq_None_iff not_Some_eq)
  then have "op_text t = str x" using False by (cases t) (simp_all add: op_text_def)
  then show ?thesis using that(2) map_of_SomeD [OF x] by blast
qed

lemma punct_classes: "punct c \<Longrightarrow> \<not> is_alpha oob c \<and> \<not> is_numeric oob c \<and> c \<noteq> 34 \<and> c \<noteq> 39"
  using class_ref(6,7) by (auto simp: punct_def)

lemma scan_op_view:
  assumes v: "lx_view s ts l k [] (op_text t @ r)" and ok: "lexeme_ok (LOp t)" and r: "separator (ch r 0)"
  shows "\<exists>l'. scan_token oob l = Some l' \<and> lx_view s ts l' t [] r"
  using ok
proof (cases rule: op_text_cases)
  case (1 c)
  have "curr_char l = c" using view_chars(1) [OF v] 1(3) by simp
  then have "scan_token oob l = Some (scan_operator l)"
    using punct_classes [OF 1(2)] by (simp add: scan_token_def)
  then show ?thesis using scan_op_char [of s ts l k c r] v 1 r by simp
next
  case (2 x)
  obtain c d u where c: "str x = c # d # u" "punct c" using op_table_first [OF 2(1)] by blast
  have "curr_char l = c" using view_chars(1) [OF v] 2(2) c(1) by simp
  then have "scan_token oob l = Some (scan_operator l)"
    using punct_classes [OF c(2)] by (simp add: scan_token_def)
  then show ?thesis using scan_op_table [OF _ 2(1) r] v 2(2) by auto
qed

section \<open>One lexeme\<close>

lemma scan_lexeme_view:
  assumes "lx_view s ts l k [] (lexeme_text x @ r)" and "lexeme_ok x" and "separator (ch r 0)"
  shows "\<exists>l'. scan_token oob l = Some l' \<and> lx_view s ts l' (lexeme_tok x) (lexeme_bytes x) r"
  using assms scan_word_view [of s ts l k _ r oob] scan_int_view [of s ts l k _ r oob]
    scan_str_view [of s ts l k _ r oob] scan_op_view [of s ts l k _ r oob]
  by (cases x) auto

lemma lexeme_first:
  assumes ok: "lexeme_ok x" and r: "separator (ch r 0)"
  shows "\<not> is_whitespace oob (ch (lexeme_text x @ r) 0) \<and>
    \<not> (ch (lexeme_text x @ r) 0 = 47 \<and> (ch (lexeme_text x @ r) 1 = 47 \<or> ch (lexeme_text x @ r) 1 = 42))"
proof (cases x)
  case (LWord w)
  then show ?thesis
    using ok class_ref(8) [of "hd w" oob] ref_not_quote [of "hd w"] by (cases w) auto
next
  case (LInt w)
  then show ?thesis
    using ok class_ref(9) [of "hd w" oob] ref_not_quote [of "hd w"] by (cases w) auto
next
  case (LStr w)
  then show ?thesis using quote_classes by simp
next
  case (LOp t)
  then have "lexeme_ok (LOp t)" using ok by simp
  then show ?thesis
  proof (cases rule: op_text_cases)
    case (1 c)
    then show ?thesis
      using class_ref(10) [of c oob] r LOp by (auto simp: separator_def ref_whitespace_def)
  next
    case (2 xs)
    then show ?thesis
      using op_table_first [OF 2(1)] class_ref(10) LOp by fastforce
  qed
qed

lemma view_position:
  assumes "lx_view s ts l k w r" and "r \<noteq> []"
  shows "curr_pos l = int (length (take (nat (end_pos l)) s) - length r) + 2"
  using assms by (auto simp: lx_view_def not_le)

lemma view_done: "lx_view s ts l k w r \<Longrightarrow> lx_view s ts (token_done l) k w r"
  by (simp add: lx_view_def token_done_def)

lemma next_token_lexeme:
  assumes v: "lx_view s ts l k w (concat (map gap_text gs) @ lexeme_text x @ r)"
    and gs: "list_all gap_ok gs" and x: "lexeme_ok x" and r: "separator (ch r 0)"
  shows "\<exists>l' p. next_token oob l = Some l' \<and>
    lx_view s p l' (lexeme_tok x) (lexeme_bytes x) r"
proof -
  obtain l1 k1 w1 where l1: "next_token oob l = next_token oob l1" "lx_view s ts l1 k1 w1 (lexeme_text x @ r)"
    using next_token_gaps [OF v gs] by blast
  obtain l2 where l2: "next_token oob l1 = map_option token_done (scan_token oob l2)"
    "lx_view s (curr_pos l1 - 2) l2 BE_TOKEN_END [] (lexeme_text x @ r)"
    using next_token_here [OF l1(2)] lexeme_first [OF x r] by blast
  obtain l3 where "scan_token oob l2 = Some l3"
    "lx_view s (curr_pos l1 - 2) l3 (lexeme_tok x) (lexeme_bytes x) r"
    using scan_lexeme_view [OF l2(2) x r] by blast
  then show ?thesis using l1(1) l2(1) view_done by fastforce
qed

section \<open>A whole source\<close>

text \<open>The tokens of a lexer up to the end of the source, at most \<open>n\<close> of them.\<close>

fun token_list :: "(byte \<Rightarrow> byte) \<Rightarrow> nat \<Rightarrow> lexer \<Rightarrow> (tok \<times> byte list) list option" where
  "token_list oob 0 l = (if lx_tk l = BE_TOKEN_END then Some [] else None)"
| "token_list oob (Suc n) l =
     (if lx_tk l = BE_TOKEN_END then Some []
      else do { l' \<leftarrow> next_token oob l; ts \<leftarrow> token_list oob n l'; Some ((lx_tk l, lexer_get_token l) # ts) })"

fun source_text :: "(gap list \<times> lexeme) list \<Rightarrow> byte list" where
  "source_text [] = []"
| "source_text ((gs, x) # xs) = concat (map gap_text gs) @ lexeme_text x @ 32 # source_text xs"

definition source_ok :: "(gap list \<times> lexeme) list \<Rightarrow> bool" where
  "source_ok xs \<longleftrightarrow> list_all (\<lambda>(gs, x). list_all gap_ok gs \<and> lexeme_ok x) xs"

lemma lexeme_tok_not_end: "lexeme_ok x \<Longrightarrow> lexeme_tok x \<noteq> BE_TOKEN_END"
proof (cases x)
  case (LWord w)
  have "k \<noteq> BE_TOKEN_END" if "(v, k) \<in> set keyword_table" for v k
    using that unfolding keyword_table_def by auto
  then show ?thesis using LWord by (auto simp: keyword_of_def split: option.splits dest: map_of_SomeD)
qed (auto simp: punct_def)

lemma gap_nonzero: "gap_ok g \<Longrightarrow> 0 \<notin> set (gap_text g)"
  by (cases g) (auto simp: ref_whitespace_def)

lemma op_text_nonzero:
  assumes "lexeme_ok (LOp t)"
  shows "0 \<notin> set (op_text t)"
  using assms
proof (cases rule: op_text_cases)
  case (2 x)
  then show ?thesis unfolding op_table_def by auto
qed (auto simp: punct_def)

lemma lexeme_nonzero: "lexeme_ok x \<Longrightarrow> 0 \<notin> set (lexeme_text x) \<and> 0 \<notin> set (lexeme_bytes x)"
  using op_text_nonzero
  by (cases x) (auto simp: list_all_iff dquote_def ref_alpha_def ref_numeric_def split: if_splits)

lemma source_nonzero: "source_ok xs \<Longrightarrow> 0 \<notin> set (source_text xs)"
  using gap_nonzero lexeme_nonzero
  by (induction xs rule: source_text.induct) (auto simp: source_ok_def list_all_iff)

lemma next_token_end:
  assumes v: "lx_view s ts l k w (concat (map gap_text gs))" and gs: "list_all gap_ok gs"
  shows "\<exists>l'. next_token oob l = Some l' \<and> lx_tk l' = BE_TOKEN_END"
proof -
  obtain l1 k1 w1 where l1: "next_token oob l = next_token oob l1" "lx_view s ts l1 k1 w1 []"
    using next_token_gaps [of s ts l k w gs "[]" oob] v gs by auto
  have z: "ch [] i = 0" for i by (simp add: ch_def)
  obtain l2 where l2: "next_token oob l1 = map_option token_done (scan_token oob l2)"
    "lx_view s (curr_pos l1 - 2) l2 BE_TOKEN_END [] []"
    using next_token_here [OF l1(2)] class_nonzero(4) z by fastforce
  have "curr_char l2 = 0" using view_chars(1) [OF l2(2)] z by simp
  moreover have "\<not> is_alpha oob 0" "\<not> is_numeric oob 0" using class_nonzero(1,2) by blast+
  ultimately show ?thesis
    using l1(1) l2(1) by (simp add: scan_token_def scan_operator_def token_done_def set_tk_def)
qed

lemma token_list_source:
  assumes "lx_view s ts l k w (concat (map gap_text pre) @ source_text xs)" and "list_all gap_ok pre"
    and "source_ok xs"
  shows "\<exists>l'. next_token oob l = Some l' \<and>
    token_list oob (length xs) l' = Some (map (\<lambda>(gs, x). (lexeme_tok x, lexeme_bytes x)) xs)"
  using assms
proof (induction xs arbitrary: pre l k w ts)
  case Nil
  then show ?case using next_token_end [of s ts l k w pre oob] by auto
next
  case (Cons gx xs)
  obtain gs x where gx: "gx = (gs, x)" by force
  have ok: "list_all gap_ok (pre @ gs)" "lexeme_ok x" "source_ok xs"
    using Cons.prems gx by (auto simp: source_ok_def)
  obtain l1 p where l1: "next_token oob l = Some l1"
    "lx_view s p l1 (lexeme_tok x) (lexeme_bytes x) (32 # source_text xs)"
    using next_token_lexeme [of s ts l k w "pre @ gs" x "32 # source_text xs" oob] Cons.prems(1) gx ok
    by (auto simp: separator_def ref_whitespace_def)
  have "lx_view s p l1 (lexeme_tok x) (lexeme_bytes x) (concat (map gap_text [Space 32]) @ source_text xs)"
    using l1(2) by simp
  then obtain l2 where l2: "next_token oob l1 = Some l2"
    "token_list oob (length xs) l2 = Some (map (\<lambda>(gs, x). (lexeme_tok x, lexeme_bytes x)) xs)"
    using Cons.IH [OF _ _ ok(3), of p l1 "lexeme_tok x" "lexeme_bytes x" "[Space 32]"]
    by (auto simp: ref_whitespace_def)
  have "lx_tk l1 = lexeme_tok x" "lexer_get_token l1 = lexeme_bytes x"
    using l1(2) lexeme_nonzero [OF ok(2)]
    by (auto simp: lx_view_def lexer_get_token_def cstr_def takeWhile_eq_all_conv)
  then show ?case using l1(1) l2 lexeme_tok_not_end [OF ok(2)] gx by simp
qed

lemma reset_view:
  assumes "lx_src l = Some s" and "start_pos l = 0" and "end_pos l = int (length s)"
  shows "\<exists>l'. be_jse_lexer_reset oob l = next_token oob l' \<and>
    lx_view s (token_start l) l' (lx_tk l) (lx_token l) s"
  using assms
  by (auto simp: be_jse_lexer_reset_def lx_view_def lexer_seekto_char_def lexer_get_next_char_def
      src_at_def ch_def intro!: exI [of _ "lexer_get_next_char (lexer_get_next_char (lexer_seekto_char l 0))"])

lemma lexer_reads_source_lemma:
  assumes "source_ok xs"
  shows "\<exists>l'. be_jse_lexer_init oob l (Some (source_text xs)) 0 (-1) = Some l' \<and>
    token_list oob (length xs) l' = Some (map (\<lambda>(gs, x). (lexeme_tok x, lexeme_bytes x)) xs)"
proof -
  let ?s = "source_text xs"
  have "cstr ?s = ?s" using source_nonzero [OF assms] by (auto simp: cstr_def takeWhile_eq_all_conv)
  then have e: "be_jse_lexer_init oob l (Some ?s) 0 (-1) = be_jse_lexer_reset oob
       (l\<lparr>lx_src := Some ?s, start_pos := 0, end_pos := int (length ?s), curr_pos := 0,
          lx_tk := TK 0, token_start := 0, token_end := 0, token_last_end := 0, lx_token := []\<rparr>)"
    by (simp add: be_jse_lexer_init_def)
  obtain l1 where l1: "be_jse_lexer_init oob l (Some ?s) 0 (-1) = next_token oob l1"
    "lx_view ?s 0 l1 (TK 0) [] ?s"
    unfolding e using reset_view [where s = ?s and oob = oob] by force
  show ?thesis
    unfolding l1(1) using token_list_source [of ?s 0 l1 "TK 0" "[]" "[]" xs oob] l1(2) assms by simp
qed

section \<open>Words that are too long\<close>

lemma view_append_cut: "lx_view s ts l k w r \<Longrightarrow> length w \<le> 63 \<Longrightarrow>
  lx_view s ts (append_char l c) k (take 63 (w @ [c])) r"
  by (auto simp: lx_view_def append_char_def)

lemma while_take_cut:
  assumes "lx_view s ts l k w (u @ r)" and "\<forall>c\<in>set u. P c" and "\<not> P (ch r 0)" and "length w \<le> 63"
  shows "\<exists>l'. while_option (\<lambda>l. P (curr_char l)) take_char l = Some l' \<and>
    lx_view s ts l' k (take 63 (w @ u)) r"
  using assms
proof (induction u arbitrary: l w)
  case Nil
  then show ?case using view_chars(1) [OF Nil.prems(1)] by (subst while_option_unfold) auto
next
  case (Cons c u)
  have c: "curr_char l = c" using view_chars(1) [OF Cons.prems(1)] by simp
  then have w: "while_option (\<lambda>l. P (curr_char l)) take_char l =
      while_option (\<lambda>l. P (curr_char l)) take_char (take_char l)"
    using Cons.prems(2) by (subst while_option_unfold) simp
  have "lx_view s ts (take_char l) k (take 63 (w @ [c])) (u @ r)"
    using view_next [OF view_append_cut [OF Cons.prems(1,4), of c]] c by (simp add: take_char_def)
  from Cons.IH [OF this] Cons.prems(2,3)
  show ?case using w Cons.prems(4) by (cases "length w = 63") (auto simp: min_def)
qed

lemma keyword_short: "w \<in> fst ` set keyword_table \<Longrightarrow> length w \<le> 9"
  by (auto simp: keyword_table_def)

lemma keyword_of_long: "9 < length w \<Longrightarrow> keyword_of w = BE_TOKEN_ID"
proof -
  assume "9 < length w"
  then have "map_of keyword_table w = None" using keyword_short by (fastforce simp: map_of_eq_None_iff)
  then show ?thesis by (simp add: keyword_of_def)
qed

definition long_word :: "byte list \<Rightarrow> bool" where
  "long_word w \<longleftrightarrow> 63 \<le> length w \<and> ref_alpha (hd w) \<and> list_all (\<lambda>c. ref_alpha c \<or> ref_numeric c) w"

lemma next_token_long:
  assumes v: "lx_view s ts l k v (w @ r)" and w: "long_word w" and r: "separator (ch r 0)"
  shows "\<exists>l' p. next_token oob l = Some l' \<and> lx_view s p l' BE_TOKEN_ID (take 63 w) r"
proof -
  let ?P = "\<lambda>c. is_alpha oob c \<or> is_numeric oob c"
  obtain c u where cu: "w = c # u" "ref_alpha c" using w by (cases w) (auto simp: long_word_def)
  have first: "\<not> is_whitespace oob (ch (w @ r) 0)" "ch (w @ r) 0 \<noteq> 47"
    using cu class_ref(8) ref_not_quote by auto
  obtain l2 where l2: "next_token oob l = map_option token_done (scan_token oob l2)"
    "lx_view s (curr_pos l - 2) l2 BE_TOKEN_END [] (w @ r)"
    using next_token_here [OF v] first by blast
  have "\<forall>c\<in>set w. ?P c" using w class_ref(1,2) by (auto simp: list_all_iff long_word_def)
  moreover have "\<not> ?P (ch r 0)" using class_ref(4,5) [OF r] by simp
  ultimately obtain l3 where l3: "while_option (\<lambda>l. ?P (curr_char l)) take_char l2 = Some l3"
    "lx_view s (curr_pos l - 2) l3 BE_TOKEN_END (take 63 w) r"
    using while_take_cut [of s "curr_pos l - 2" l2 BE_TOKEN_END "[]" w r ?P] l2(2) by auto
  have "0 \<notin> set (take 63 w)"
    using w class_ref(1,2) class_nonzero(1,2) by (fastforce simp: list_all_iff long_word_def dest: in_set_takeD)
  then have "keyword_switch (take 63 w) = BE_TOKEN_ID"
    using keyword_switch_table [of "take 63 w"] keyword_of_long [of "take 63 w"] w cu(1)
    by (auto simp: long_word_def)
  moreover have "lx_token l3 = take 63 w" using l3(2) by (simp add: lx_view_def)
  moreover have "is_alpha oob (curr_char l2)" using view_chars(1) [OF l2(2)] cu class_ref(1) by simp
  ultimately have "scan_token oob l2 = Some (set_tk BE_TOKEN_ID l3)"
    using l3(1) by (simp add: scan_token_def scan_word_def)
  then show ?thesis using l2(1) view_done [OF view_set_tk [OF l3(2)]] by auto
qed

section \<open>A null source\<close>

lemma next_char_null: "lx_src l = None \<Longrightarrow> lexer_get_next_char l = l"
  by (simp add: lexer_get_next_char_def)

lemma scan_word_null:
  assumes "lx_src l = None" and "is_alpha oob (curr_char l)"
  shows "scan_word oob l = None"
proof (rule ccontr)
  let ?b = "\<lambda>l. is_alpha oob (curr_char l) \<or> is_numeric oob (curr_char l)"
  let ?I = "\<lambda>l. lx_src l = None \<and> is_alpha oob (curr_char l)"
  assume "scan_word oob l \<noteq> None"
  then obtain t where t: "while_option ?b take_char l = Some t" by (auto simp: scan_word_def)
  have "?I t"
    by (rule while_option_rule [OF _ t]) (use assms in \<open>auto simp: take_char_def next_char_null\<close>)
  then show False using while_option_stop [OF t] by blast
qed

lemma reset_null:
  assumes "lx_src l = None" and "is_alpha oob (curr_char l)" and "\<not> is_whitespace oob (curr_char l)"
    and "curr_char l \<noteq> 47"
  shows "be_jse_lexer_reset oob l = None"
proof -
  let ?l = "l\<lparr>lx_tk := BE_TOKEN_END, lx_token := []\<rparr>"
  have "next_token oob l = map_option token_done (scan_token oob (?l\<lparr>token_start := curr_pos ?l - 2\<rparr>))"
    using skip_whitespace_none [of oob ?l] assms(3,4) by (subst next_token.simps) simp
  also have "\<dots> = None" using assms(1,2) scan_word_null by (simp add: scan_token_def)
  finally show ?thesis
    using assms(1) by (simp add: be_jse_lexer_reset_def lexer_seekto_char_def next_char_null)
qed

section \<open>Reported positions\<close>

lemma dump_returns:
  assumes "lx_src l = Some s"
  shows "\<exists>line col a b p. while_option (\<lambda>(line, col, l). curr_char l \<noteq> 0 \<and> curr_pos l < char_pos - 1) dump_step
     (line0, col0, l) = Some (line, col, l\<lparr>curr_char := a, next_char := b, curr_pos := p\<rparr>)"
proof -
  let ?b = "\<lambda>(line, col, l). curr_char l \<noteq> 0 \<and> curr_pos l < char_pos - 1"
  let ?I = "\<lambda>(line, col, k). \<exists>a b p. k = l\<lparr>curr_char := a, next_char := b, curr_pos := p\<rparr>"
  let ?f = "\<lambda>(line :: int, col :: int, k). lx_measure k"
  have step: "?I (dump_step x) \<and> ?f (dump_step x) < ?f x" if "?I x" "?b x" for x
  proof -
    obtain line col k a b p where x: "x = (line, col, k)" "k = l\<lparr>curr_char := a, next_char := b, curr_pos := p\<rparr>"
      using \<open>?I x\<close> by (cases x) auto
    have "lx_src k = Some s" using x(2) assms by simp
    moreover have "curr_char k \<noteq> 0" using \<open>?b x\<close> x(1) by simp
    ultimately have "lx_measure (lexer_get_next_char k) < lx_measure k" by (intro measure_next_less) auto
    moreover have "\<exists>a b p. lexer_get_next_char k = l\<lparr>curr_char := a, next_char := b, curr_pos := p\<rparr>"
      using x(2) assms by (auto simp: lexer_get_next_char_def)
    ultimately show ?thesis using x(1) by (simp add: dump_step_def)
  qed
  have i: "?I (line0, col0, l)"
  proof -
    have "l = l\<lparr>curr_char := curr_char l, next_char := next_char l, curr_pos := curr_pos l\<rparr>" by simp
    then show ?thesis unfolding split_conv by blast
  qed
  obtain t where t: "while_option ?b dump_step (line0, col0, l) = Some t"
    using measure_while_option_Some [of ?I ?b dump_step ?f] step i by blast
  have "?I t" by (rule while_option_rule [where P = ?I, OF step [THEN conjunct1] t i])
  then show ?thesis using t by (cases t) auto
qed

lemma dump_restores:
  assumes v: "lx_view s ts l k w r"
  shows "\<exists>line col. lexer_dump_line_and_col l char_pos = Some (line, col, l)"
proof -
  have src: "lx_src l = Some s" and p: "2 \<le> curr_pos l" "0 \<le> end_pos l" "nat (end_pos l) \<le> length s"
    and r: "r = drop (nat (curr_pos l - 2)) (take (nat (end_pos l)) s)"
    and c: "curr_char l = ch r 0" "next_char l = ch r 1"
    using v by (auto simp: lx_view_def)
  let ?at = "\<lambda>i. if i < end_pos l then src_at s i else 0"
  have n: "nat (curr_pos l - 1) = Suc (nat (curr_pos l - 2))" using p by simp
  have at: "?at (curr_pos l - 2) = curr_char l" "?at (curr_pos l - 1) = next_char l"
    using p unfolding c r by (auto simp: ch_def src_at_def n)
  let ?k = "lexer_get_next_char (lexer_seekto_char l 0)"
  obtain line col a b q where w: "while_option (\<lambda>(line, col, l). curr_char l \<noteq> 0 \<and> curr_pos l < char_pos - 1)
      dump_step (1, 1, ?k) = Some (line, col, ?k\<lparr>curr_char := a, next_char := b, curr_pos := q\<rparr>)"
    using dump_returns [of ?k s char_pos 1 1] src by (auto simp: lexer_seekto_char_def)
  have "lexer_get_next_char (lexer_get_next_char (lexer_seekto_char
      (?k\<lparr>curr_char := a, next_char := b, curr_pos := q\<rparr>) (curr_pos l - 2)))
    = l\<lparr>curr_char := ?at (curr_pos l - 2), next_char := ?at (curr_pos l - 1)\<rparr>"
    using src by (simp add: lexer_get_next_char_def lexer_seekto_char_def)
  also have "\<dots> = l" unfolding at by simp
  finally have "lexer_get_next_char (lexer_get_next_char (lexer_seekto_char
      (?k\<lparr>curr_char := a, next_char := b, curr_pos := q\<rparr>) (curr_pos l - 2))) = l" .
  then show ?thesis using w by (simp add: lexer_dump_line_and_col_def)
qed

lemma dump_at_end:
  assumes "lx_view s ts l k w r" and "next_char l = 0"
  shows "lexer_dump_line_and_col l char_pos = Some (1, 1, l)"
proof -
  have "lx_src l = Some s" using assms(1) by (simp add: lx_view_def)
  then have "curr_char (lexer_get_next_char (lexer_seekto_char l 0)) = 0"
    using assms(2) by (simp add: lexer_get_next_char_def lexer_seekto_char_def)
  then have "while_option (\<lambda>(line, col, l). curr_char l \<noteq> 0 \<and> curr_pos l < char_pos - 1) dump_step
      (1, 1, lexer_get_next_char (lexer_seekto_char l 0)) = Some (1, 1, lexer_get_next_char (lexer_seekto_char l 0))"
    by (subst while_option_unfold) simp
  then show ?thesis using dump_restores [OF assms(1), of char_pos] by (auto simp: lexer_dump_line_and_col_def)
qed

section \<open>Integers\<close>

definition dec_value :: "int \<Rightarrow> byte list \<Rightarrow> int" where
  "dec_value v ds = foldl (\<lambda>v c. v * 10 + (uint c - 48)) v ds"

lemma chtod_digit: "ref_numeric c \<Longrightarrow> chtod c = uint c - 48 \<and> 0 \<le> chtod c \<and> chtod c < 10"
proof -
  assume c: "ref_numeric c"
  then have "48 \<le> uint c" "uint c \<le> 57" by (simp_all add: ref_numeric_def word_le_def)
  then show ?thesis using c by (simp add: chtod_def ref_numeric_def)
qed

lemma digit_byte:
  assumes "m < 10"
  shows "unat (of_nat (48 + m) :: byte) = 48 + m"
proof -
  have "unat (of_nat (48 + m) :: byte) = (48 + m) mod 256" by (rule unat_of_nat_byte)
  also have "\<dots> = 48 + m" using assms by simp
  finally show ?thesis .
qed

lemma dec_value_ge: "list_all ref_numeric ds \<Longrightarrow> 0 \<le> v \<Longrightarrow> v \<le> dec_value v ds"
proof (induction ds arbitrary: v)
  case (Cons c ds)
  have "v \<le> v * 10 + (uint c - 48)" using Cons.prems chtod_digit [of c] by auto
  then show ?case using Cons.IH [of "v * 10 + (uint c - 48)"] Cons.prems by (auto simp: dec_value_def)
qed (simp add: dec_value_def)

lemma read_digits_dec:
  assumes "list_all ref_numeric ds" and "0 \<le> v" and "dec_value v ds < 9223372036854775808"
  shows "read_digits 10 ds v = (dec_value v ds, [])"
  using assms
proof (induction ds arbitrary: v)
  case (Cons c ds)
  let ?v = "v * 10 + (uint c - 48)"
  have c: "chtod c = uint c - 48" "0 \<le> chtod c" "chtod c < 10" using chtod_digit [of c] Cons.prems(1) by auto
  have "?v \<le> dec_value ?v ds" using dec_value_ge [of ds ?v] Cons.prems c by auto
  then have "s64 ?v = ?v" using Cons.prems(2,3) c by (intro s64_small) (auto simp: dec_value_def)
  then show ?case using Cons.IH [of ?v] Cons.prems c by (simp add: dec_value_def)
qed (simp add: dec_value_def)

lemma dec_nat_digits: "list_all ref_numeric (dec_nat n)"
proof (induction n rule: dec_nat.induct)
  case (1 n)
  have d: "ref_numeric (of_nat (48 + m))" if "m < 10" for m
    unfolding ref_numeric_def word_le_nat_alt digit_byte [OF that] using that by simp
  show ?case using "1.IH" d by (subst dec_nat.simps) auto
qed

lemma dec_value_dec_nat: "dec_value 0 (dec_nat n) = int n"
proof (induction n rule: dec_nat.induct)
  case (1 n)
  have u: "uint (of_nat (48 + m) :: byte) = 48 + int m" if "m < 10" for m
    unfolding uint_nat digit_byte [OF that] by simp
  show ?case
  proof (cases "n < 10")
    case True
    then show ?thesis using u [of n] by (subst dec_nat.simps) (simp add: dec_value_def)
  next
    case False
    have "dec_value 0 (dec_nat n) = dec_value 0 (dec_nat (n div 10)) * 10 + int (n mod 10)"
      using False u [of "n mod 10"] by (subst dec_nat.simps) (simp add: dec_value_def)
    also have "\<dots> = int (n div 10) * 10 + int (n mod 10)" using "1.IH" False by simp
    also have "\<dots> = int n"
      using arg_cong [OF div_mult_mod_eq [of n 10], of int] by (simp only: of_nat_add of_nat_mult of_nat_numeral)
    finally show ?thesis .
  qed
qed

lemma unat_48: "unat (48 :: byte) = 48"
  by simp

lemma dec_nat_first: "0 < n \<Longrightarrow> dec_nat n \<noteq> [] \<and> hd (dec_nat n) \<noteq> 48"
proof (induction n rule: dec_nat.induct)
  case (1 n)
  show ?case
  proof (cases "n < 10")
    case True
    then have "(of_nat (48 + n) :: byte) \<noteq> 48"
      using "1.prems" digit_byte [OF True] unat_48 by (metis add_cancel_left_right not_gr_zero)
    then show ?thesis using True by (subst (1 2) dec_nat.simps) (simp only: if_True list.sel not_False_eq_True list.distinct)
  next
    case False
    then show ?thesis using "1.IH" by (subst (1 2) dec_nat.simps) simp
  qed
qed

lemma string_to_int_dec:
  assumes "n < 9223372036854775808"
  shows "string_to_int oob (dec_nat n) = int n"
proof (cases "n = 0")
  case True
  have "\<not> is_whitespace oob 48" using class_ref(9) [of 48 oob] by (simp add: ref_numeric_def)
  then show ?thesis
    using True by (simp add: dec_nat_small string_to_int_def string_to_intr_def cstr_def get_radix_def ch_def)
next
  case False
  let ?s = "dec_nat n"
  obtain c cs where s: "?s = c # cs" "c \<noteq> 48" using dec_nat_first [of n] False by (cases ?s) auto
  have c: "ref_numeric c" using dec_nat_digits [of n] s by simp
  have nz: "0 \<notin> set ?s"
    using dec_nat_digits [of n] by (auto simp: list_all_iff ref_numeric_def)
  then have "cstr ?s = ?s" by (auto simp: cstr_def takeWhile_eq_all_conv)
  moreover have "dropWhile (is_whitespace oob) ?s = ?s" using s class_ref(9) [OF c] by simp
  moreover have "c \<noteq> 45" "c \<noteq> 43" using c by (auto simp: ref_numeric_def word_le_nat_alt)
  moreover have "read_digits 10 ?s 0 = (int n, [])"
    using read_digits_dec [OF dec_nat_digits, of 0 n] assms dec_value_dec_nat by simp
  ultimately show ?thesis
    using s by (simp add: string_to_int_def string_to_intr_def get_radix_def ch_def)
qed

section \<open>To the end of any source\<close>

lemma token_list_ends:
  assumes "lx_src l = Some s" and "lx_measure l < n"
  shows "\<exists>ts. token_list oob n l = Some ts"
  using assms
proof (induction n arbitrary: l)
  case (Suc n)
  obtain l' where l': "next_token oob l = Some l'" "lx_src l' = Some s"
    "lx_tk l' \<noteq> BE_TOKEN_END \<longrightarrow> lx_measure l' < lx_measure l"
    using next_token_returns [OF Suc.prems(1) refl, of oob] by (auto simp: lx_ok_def)
  have "\<exists>ts. token_list oob n l' = Some ts"
  proof (cases "lx_tk l' = BE_TOKEN_END")
    case True
    then show ?thesis by (cases n) auto
  next
    case False
    then show ?thesis using Suc l' by simp
  qed
  then show ?case using l'(1) by auto
qed simp

section \<open>A lexer to start from\<close>

definition no_oob :: "byte \<Rightarrow> byte" where
  "no_oob c = 0"

definition blank_lexer :: "byte \<Rightarrow> lexer" where
  "blank_lexer c = \<lparr>lx_tk = TK 0, token_start = 0, token_end = 0, token_last_end = 0, lx_token = [],
     curr_char = c, next_char = 0, lx_src = None, start_pos = 0, end_pos = 0, curr_pos = 0,
     lx_warned = False\<rparr>"

text \<open>The lexer in front of the last byte of a source.\<close>

definition last_lexer :: "byte list \<Rightarrow> lexer" where
  "last_lexer s = (blank_lexer (last s))\<lparr>lx_src := Some s, end_pos := int (length s),
     curr_pos := int (length s) + 1\<rparr>"

lemma last_lexer_view: "s \<noteq> [] \<Longrightarrow> lx_view s 0 (last_lexer s) (TK 0) [] [last s]"
proof -
  assume s: "s \<noteq> []"
  then have n: "1 \<le> int (length s)" by (cases s) auto
  have "drop (nat (int (length s) - 1)) s = [last s]"
    using s by (cases s rule: rev_cases) auto
  then show ?thesis using n by (simp add: lx_view_def last_lexer_def blank_lexer_def ch_def)
qed

end
