(* ===== verification/Sym.thy ===== *)
theory Sym
  imports Prelude "HOL-Library.While_Combinator"
begin

text \<open>
  engine/lite_engine/core/be_symbol.c: the table of symbols of the JavaScript engine. A
  node is addressed by its number (from 1, with 0 for none), the table is a function from
  numbers to nodes. A result None is a failed assertion, which aborts, or a loop that does
  not end. Blocks of the table are always allocated, and a long has 64 bits.
\<close>

section \<open>Nodes\<close>

record sym =
  s_refs :: nat
  s_locks :: nat
  s_flags :: "32 word"
  s_data :: "byte list"
  s_next :: nat
  s_prev :: nat
  s_first :: nat
  s_last :: nat

record sympool =
  tab :: "nat \<Rightarrow> sym"
  sym_size :: nat
  sym_free :: nat
  sym_usage :: int
  sym_max_usage :: int

abbreviation (input) SYM_TABLE_UNUSED_REF :: nat where "SYM_TABLE_UNUSED_REF \<equiv> 65535"
abbreviation (input) BE_JSE_SYMBOL_TABLE_BLOCK_SIZE :: nat where "BE_JSE_SYMBOL_TABLE_BLOCK_SIZE \<equiv> 512"
abbreviation (input) BE_SYM_TYPE_MASK :: "32 word" where "BE_SYM_TYPE_MASK \<equiv> 15"
abbreviation (input) BE_SYM_NULL :: "32 word" where "BE_SYM_NULL \<equiv> 1"
abbreviation (input) BE_SYM_STRING :: "32 word" where "BE_SYM_STRING \<equiv> 2"
abbreviation (input) BE_SYM_STRING_EXT :: "32 word" where "BE_SYM_STRING_EXT \<equiv> 3"
abbreviation (input) BE_SYM_ARRAY :: "32 word" where "BE_SYM_ARRAY \<equiv> 4"
abbreviation (input) BE_SYM_OBJECT :: "32 word" where "BE_SYM_OBJECT \<equiv> 5"
abbreviation (input) BE_SYM_FUNCTION :: "32 word" where "BE_SYM_FUNCTION \<equiv> 6"
abbreviation (input) BE_SYM_INTEGER :: "32 word" where "BE_SYM_INTEGER \<equiv> 8"
abbreviation (input) BE_SYM_FLOAT :: "32 word" where "BE_SYM_FLOAT \<equiv> 9"
abbreviation (input) BE_SYM_NAME :: "32 word" where "BE_SYM_NAME \<equiv> 16"
abbreviation (input) BE_SYM_FUNCTION_ARGVS :: "32 word" where "BE_SYM_FUNCTION_ARGVS \<equiv> 22"
abbreviation (input) BE_SYM_ROOT :: "32 word" where "BE_SYM_ROOT \<equiv> 37"

definition upd :: "nat \<Rightarrow> (sym \<Rightarrow> sym) \<Rightarrow> sympool \<Rightarrow> sympool" where
  "upd i f p = p\<lparr>tab := (tab p)(i := f (tab p i))\<rparr>"

definition sym_type :: "sym \<Rightarrow> 32 word" where
  "sym_type s = s_flags s AND BE_SYM_TYPE_MASK"

definition symbol_is_string :: "sym \<Rightarrow> bool" where
  "symbol_is_string s \<longleftrightarrow> sym_type s = BE_SYM_STRING"

definition symbol_is_string_ext :: "sym \<Rightarrow> bool" where
  "symbol_is_string_ext s \<longleftrightarrow> sym_type s = BE_SYM_STRING_EXT"

definition symbol_is_int :: "sym \<Rightarrow> bool" where
  "symbol_is_int s \<longleftrightarrow> sym_type s = BE_SYM_INTEGER"

definition symbol_is_float :: "sym \<Rightarrow> bool" where
  "symbol_is_float s \<longleftrightarrow> sym_type s = BE_SYM_FLOAT"

definition symbol_is_number :: "sym \<Rightarrow> bool" where
  "symbol_is_number s \<longleftrightarrow> s_flags s AND 8 \<noteq> 0"

definition symbol_is_null :: "sym \<Rightarrow> bool" where
  "symbol_is_null s \<longleftrightarrow> sym_type s = BE_SYM_NULL"

definition symbol_is_array :: "sym \<Rightarrow> bool" where
  "symbol_is_array s \<longleftrightarrow> sym_type s = BE_SYM_ARRAY"

definition symbol_is_object :: "sym \<Rightarrow> bool" where
  "symbol_is_object s \<longleftrightarrow> sym_type s = BE_SYM_OBJECT"

definition symbol_is_function :: "sym \<Rightarrow> bool" where
  "symbol_is_function s \<longleftrightarrow> sym_type s = BE_SYM_FUNCTION"

text \<open>The mask has no bit of \<open>BE_SYM_NATIVE\<close>, so this test never holds.\<close>

definition symbol_is_root :: "sym \<Rightarrow> bool" where
  "symbol_is_root s \<longleftrightarrow> sym_type s = BE_SYM_ROOT"

definition symbol_is_function_argv :: "sym \<Rightarrow> bool" where
  "symbol_is_function_argv s \<longleftrightarrow> s_flags s AND BE_SYM_FUNCTION_ARGVS = BE_SYM_FUNCTION_ARGVS"

definition symbol_is_name :: "sym \<Rightarrow> bool" where
  "symbol_is_name s \<longleftrightarrow> s_flags s AND BE_SYM_NAME \<noteq> 0"

definition symbol_has_characterdata :: "sym \<Rightarrow> bool" where
  "symbol_has_characterdata s \<longleftrightarrow>
     symbol_is_string s \<or> symbol_is_string_ext s \<or> symbol_is_function_argv s"

named_theorems sym_kinds \<open>the tests on the type of a symbol\<close>

lemmas kind_defs [sym_kinds] = symbol_is_string_def symbol_is_string_ext_def symbol_is_int_def
  symbol_is_float_def symbol_is_number_def symbol_is_null_def symbol_is_array_def symbol_is_object_def
  symbol_is_function_def symbol_is_root_def symbol_is_function_argv_def symbol_is_name_def
  symbol_has_characterdata_def sym_type_def

text \<open>
  The characters of a node: the data, and in an extension also the three node numbers
  that follow it in the packed structure.
\<close>

definition sym_bytes :: "sym \<Rightarrow> byte list" where
  "sym_bytes s = s_data s @ le16 (s_next s) @ le16 (s_prev s) @ le16 (s_first s)"

definition set_sym_bytes :: "byte list \<Rightarrow> sym \<Rightarrow> sym" where
  "set_sym_bytes bs s =
     (let b = overwrite 0 bs (sym_bytes s)
      in s\<lparr>s_data := take 8 b, s_next := un_le16 (b ! 8) (b ! 9),
         s_prev := un_le16 (b ! 10) (b ! 11), s_first := un_le16 (b ! 12) (b ! 13)\<rparr>)"

text \<open>Outside character data the C function fails an assertion.\<close>

definition symbol_get_max_char_len :: "sym \<Rightarrow> nat option" where
  "symbol_get_max_char_len s =
     (if symbol_is_string_ext s then Some 14
      else if symbol_has_characterdata s then Some 8 else None)"

section \<open>The table\<close>

definition init_step :: "nat \<times> sympool \<Rightarrow> nat \<times> sympool" where
  "init_step ip = (case ip of (i, p) \<Rightarrow>
     (u16 (i + 1),
      upd i (\<lambda>s. s\<lparr>s_refs := SYM_TABLE_UNUSED_REF, s_locks := 0, s_next := u16 (i + 1)\<rparr>) p))"

text \<open>The counter of the loop is a node number of 16 bits, the bound is not.\<close>

definition symbol_table_init :: "nat \<Rightarrow> nat \<Rightarrow> sympool \<Rightarrow> (nat \<times> sympool) option" where
  "symbol_table_init start count p =
     map_option (\<lambda>(i, p). (start, upd (u16 (start + count - 1)) (\<lambda>s. s\<lparr>s_next := 0\<rparr>) p))
       (while_option (\<lambda>(i, p). i < start + count) init_step (start, p))"

definition zero_sym :: sym where
  "zero_sym = \<lparr>s_refs = 0, s_locks = 0, s_flags = 0, s_data = replicate 8 0, s_next = 0, s_prev = 0,
     s_first = 0, s_last = 0\<rparr>"

definition be_jse_symbol_table_init :: "sympool \<Rightarrow> sympool option" where
  "be_jse_symbol_table_init p = do {
     (first, p1) \<leftarrow> symbol_table_init 1 BE_JSE_SYMBOL_TABLE_BLOCK_SIZE
        (p\<lparr>tab := (\<lambda>_. zero_sym), sym_size := BE_JSE_SYMBOL_TABLE_BLOCK_SIZE\<rparr>);
     Some (p1\<lparr>sym_free := first\<rparr>)
   }"

definition be_jse_symbol_table_deinit :: "sympool \<Rightarrow> sympool" where
  "be_jse_symbol_table_deinit p = p\<lparr>sym_size := 0\<rparr>"

definition be_jse_set_symbol_table_size :: "nat \<Rightarrow> sympool \<Rightarrow> sympool option" where
  "be_jse_set_symbol_table_size newSize p =
     (if newSize \<le> sym_size p then Some p
      else if sym_free p \<noteq> 0 then None
      else (let old = sym_size p;
                new = (newSize + BE_JSE_SYMBOL_TABLE_BLOCK_SIZE - 1) div BE_JSE_SYMBOL_TABLE_BLOCK_SIZE
                      * BE_JSE_SYMBOL_TABLE_BLOCK_SIZE;
                t = (\<lambda>i. if old < i \<and> i \<le> new then zero_sym else tab p i)
            in do {
              (first, p1) \<leftarrow> symbol_table_init (u16 (old + 1)) (new - old) (p\<lparr>tab := t, sym_size := new\<rparr>);
              Some (p1\<lparr>sym_free := first\<rparr>)
            }))"

section \<open>Locks and references\<close>

definition symbol_lock :: "nat \<Rightarrow> sympool \<Rightarrow> sympool option" where
  "symbol_lock i p =
     (if i = 0 then None else Some (upd i (\<lambda>s. s\<lparr>s_locks := u8 (s_locks s + 1)\<rparr>) p))"

definition symbol_relock :: "nat \<Rightarrow> sympool \<Rightarrow> sympool option" where
  "symbol_relock i p = symbol_lock i p"

definition INC_SYMBL_REF :: "nat \<Rightarrow> sympool \<Rightarrow> sympool option" where
  "INC_SYMBL_REF i p =
     (if i = 0 then None else Some (upd i (\<lambda>s. s\<lparr>s_refs := u16 (s_refs s + 1)\<rparr>) p))"

text \<open>
  \<open>free_symbol_node\<close>, \<open>DEC_SYMBL_REF\<close>, \<open>symbol_unlock\<close> and the loop over the children
  in \<open>free_symbol_node\<close> call each other; they are the jobs of one recursive function.
\<close>

datatype job = Free nat | Dec nat | Unlock nat | Children nat

definition release :: "nat \<Rightarrow> sympool \<Rightarrow> sympool" where
  "release i p = (upd i (\<lambda>s. s\<lparr>s_refs := SYM_TABLE_UNUSED_REF, s_next := sym_free p\<rparr>) p)\<lparr>sym_free := i\<rparr>"

text \<open>The references of an extension whose count is not one are set to one.\<close>

definition unlink_ext :: "sym \<Rightarrow> sym" where
  "unlink_ext c = (let c1 = c\<lparr>s_prev := 0, s_next := 0\<rparr>
     in if 1 < s_refs c1 \<or> 1 < s_locks c1 then c1\<lparr>s_locks := 1, s_refs := 1\<rparr> else c1)"

partial_function (option) run :: "job \<Rightarrow> sympool \<Rightarrow> sympool option" where
  "run j p = (case j of
     Dec i \<Rightarrow>
       if i = 0 \<or> s_refs (tab p i) = 0 then None
       else (let p1 = upd i (\<lambda>s. s\<lparr>s_refs := s_refs s - 1\<rparr>) p
             in if s_locks (tab p1 i) = 0 \<and> s_refs (tab p1 i) = 0 then run (Free i) p1 else Some p1)
   | Unlock i \<Rightarrow>
       if i = 0 then Some p
       else if s_locks (tab p i) = 0 then None
       else (let p1 = upd i (\<lambda>s. s\<lparr>s_locks := s_locks s - 1\<rparr>) p
             in if s_locks (tab p1 i) = 0 \<and> s_refs (tab p1 i) = 0 then run (Free i) p1 else Some p1)
   | Children c \<Rightarrow>
       if c = 0 then Some p
       else do {
         p1 \<leftarrow> symbol_lock c p;
         if \<not> symbol_is_name (tab p1 c) then None
         else do {
           p2 \<leftarrow> run (Dec c) (upd c (\<lambda>s. s\<lparr>s_prev := 0, s_next := 0\<rparr>) p1);
           p3 \<leftarrow> run (Unlock c) p2;
           run (Children (s_next (tab p1 c))) p3
         }
       }
   | Free i \<Rightarrow>
       if \<not> (symbol_is_string_ext (tab p i) \<or> (s_next (tab p i) = 0 \<and> s_prev (tab p i) = 0)) then None
       else do {
         let p0 = p\<lparr>sym_usage := sym_usage p - 1\<rparr>;
         p1 \<leftarrow> (if symbol_is_name (tab p0 i) \<and> s_first (tab p0 i) \<noteq> 0 then do {
              let c = s_first (tab p0 i);
              q \<leftarrow> symbol_lock c p0;
              q1 \<leftarrow> run (Dec c) q;
              run (Unlock c) (upd i (\<lambda>s. s\<lparr>s_first := 0\<rparr>) q1)
            } else Some p0);
         p2 \<leftarrow> (if symbol_is_string (tab p1 i) \<or> symbol_is_string_ext (tab p1 i) then do {
              let c = s_last (tab p1 i);
              let q = upd i (\<lambda>s. s\<lparr>s_last := 0\<rparr>) p1;
              if c = 0 then Some q
              else do {
                q1 \<leftarrow> symbol_lock c q;
                if \<not> symbol_is_string_ext (tab q1 c) then None
                else do {
                  q2 \<leftarrow> run (Dec c) (upd c unlink_ext q1);
                  run (Unlock c) q2
                }
              }
            } else if symbol_is_object (tab p1 i) \<or> symbol_is_function (tab p1 i)
                \<or> symbol_is_array (tab p1 i) \<or> symbol_is_root (tab p1 i) then
              run (Children (s_first (tab p1 i))) (upd i (\<lambda>s. s\<lparr>s_first := 0, s_last := 0\<rparr>) p1)
            else if s_first (tab p1 i) \<noteq> 0 \<or> s_last (tab p1 i) \<noteq> 0 then None
            else Some p1);
         Some (release i p2)
       })"

definition free_symbol_node :: "nat \<Rightarrow> sympool \<Rightarrow> sympool option" where
  "free_symbol_node i = run (Free i)"

definition DEC_SYMBL_REF :: "nat \<Rightarrow> sympool \<Rightarrow> sympool option" where
  "DEC_SYMBL_REF i = run (Dec i)"

definition symbol_unlock :: "nat \<Rightarrow> sympool \<Rightarrow> sympool option" where
  "symbol_unlock i = run (Unlock i)"

definition DEC_SYMBL_REF_BY_ID :: "nat \<Rightarrow> sympool \<Rightarrow> sympool option" where
  "DEC_SYMBL_REF_BY_ID i p = do { p1 \<leftarrow> symbol_lock i p; p2 \<leftarrow> DEC_SYMBL_REF i p1; symbol_unlock i p2 }"

definition INC_SYMBL_REF_BY_ID :: "nat \<Rightarrow> sympool \<Rightarrow> sympool option" where
  "INC_SYMBL_REF_BY_ID i p = do { p1 \<leftarrow> symbol_lock i p; p2 \<leftarrow> INC_SYMBL_REF i p1; symbol_unlock i p2 }"

section \<open>New symbols\<close>

definition take_node :: "sympool \<Rightarrow> (nat \<times> sympool) option" where
  "take_node p =
     (let i = sym_free p; s = tab p i
      in if s_refs s \<noteq> SYM_TABLE_UNUSED_REF then None
         else Some (i, (upd i (\<lambda>s. zero_sym\<lparr>s_locks := 1\<rparr>) p)\<lparr>sym_free := s_next s,
           sym_usage := sym_usage p + 1, sym_max_usage := max (sym_max_usage p) (sym_usage p + 1)\<rparr>))"

text \<open>After the table has grown there is a free slot, so the recursive call takes it.\<close>

definition new_symbol_node :: "sympool \<Rightarrow> (nat \<times> sympool) option" where
  "new_symbol_node p =
     (if sym_free p \<noteq> 0 then take_node p
      else do {
        p1 \<leftarrow> be_jse_set_symbol_table_size (sym_size p + BE_JSE_SYMBOL_TABLE_BLOCK_SIZE) p;
        if sym_free p1 \<noteq> 0 then take_node p1 else None
      })"

definition new_symbol :: "32 word \<Rightarrow> sympool \<Rightarrow> (nat \<times> sympool) option" where
  "new_symbol t p = do { (i, p1) \<leftarrow> new_symbol_node p; Some (i, upd i (\<lambda>s. s\<lparr>s_flags := t\<rparr>) p1) }"

text \<open>An integer in the eight bytes of the data.\<close>

definition le64 :: "int \<Rightarrow> byte list" where
  "le64 v = map (\<lambda>k. of_int (v div 256 ^ k)) [0..<8]"

definition new_int_symbol :: "int \<Rightarrow> sympool \<Rightarrow> (nat \<times> sympool) option" where
  "new_int_symbol v p = do {
     (i, p1) \<leftarrow> new_symbol_node p;
     Some (i, upd i (\<lambda>s. s\<lparr>s_flags := BE_SYM_INTEGER, s_data := le64 v\<rparr>) p1)
   }"

definition new_bool_symbol :: "bool \<Rightarrow> sympool \<Rightarrow> (nat \<times> sympool) option" where
  "new_bool_symbol b = new_int_symbol (if b then 1 else 0)"

definition new_named_symbol :: "nat \<Rightarrow> nat \<Rightarrow> sympool \<Rightarrow> (nat \<times> sympool) option" where
  "new_named_symbol i v p =
     (if i = 0 then Some (0, p)
      else if s_refs (tab p i) \<noteq> 0 then None
      else do {
        let p1 = upd i (\<lambda>s. s\<lparr>s_flags := s_flags s OR BE_SYM_NAME\<rparr>) p;
        if v \<noteq> 0 then do { p2 \<leftarrow> INC_SYMBL_REF v p1; Some (i, upd i (\<lambda>s. s\<lparr>s_first := v\<rparr>) p2) }
        else Some (i, p1)
      })"

text \<open>
  The loop of \<open>new_str_symbol\<close> with the rest of the string and the node to fill: a block
  is filled to its end, with zeros after the string.
\<close>

partial_function (option) fill_blocks :: "byte list \<Rightarrow> nat \<Rightarrow> sympool \<Rightarrow> sympool option" where
  "fill_blocks cs i p =
     (if cs = [] then symbol_unlock i p
      else do {
        n \<leftarrow> symbol_get_max_char_len (tab p i);
        let p1 = upd i (set_sym_bytes (take n (cs @ replicate n 0))) p;
        if drop n cs = [] then symbol_unlock i p1
        else do {
          (j, p2) \<leftarrow> new_symbol_node p1;
          p3 \<leftarrow> INC_SYMBL_REF j p2;
          p4 \<leftarrow> symbol_unlock i (upd i (\<lambda>s. s\<lparr>s_last := j\<rparr>) (upd j (\<lambda>s. s\<lparr>s_flags := BE_SYM_STRING_EXT\<rparr>) p3));
          fill_blocks (drop n cs) j p4
        }
      })"

definition new_str_symbol :: "byte list \<Rightarrow> sympool \<Rightarrow> (nat \<times> sympool) option" where
  "new_str_symbol cs p = do {
     (i, p1) \<leftarrow> new_symbol_node p;
     p2 \<leftarrow> symbol_relock i p1;
     p3 \<leftarrow> fill_blocks cs i
        (upd i (\<lambda>s. s\<lparr>s_flags := BE_SYM_STRING, s_data := (s_data s)[0 := 0]\<rparr>) p2);
     Some (i, p3)
   }"

section \<open>Strings\<close>

text \<open>The comparison of a block with a string: a verdict, or the rest of the string.\<close>

fun cmp_block :: "byte list \<Rightarrow> byte list \<Rightarrow> bool + byte list" where
  "cmp_block [] cs = Inr cs"
| "cmp_block (b # bs) cs =
     (if b \<noteq> ch cs 0 then Inl False
      else if cs = [] then Inl True
      else cmp_block bs (tl cs))"

text \<open>The loop of \<open>symbol_str_equal\<close>; the string is given by its bytes before the zero.\<close>

partial_function (option) str_equal_loop :: "nat \<Rightarrow> byte list \<Rightarrow> sympool \<Rightarrow> (bool \<times> sympool) option" where
  "str_equal_loop v cs p = do {
     n \<leftarrow> symbol_get_max_char_len (tab p v);
     (case cmp_block (take n (sym_bytes (tab p v))) cs of
        Inl b \<Rightarrow> map_option (Pair b) (symbol_unlock v p)
      | Inr rest \<Rightarrow> do {
          let next = s_last (tab p v);
          p1 \<leftarrow> symbol_unlock v p;
          if rest = [] then Some (next = 0, p1)
          else if next = 0 then Some (False, p1)
          else do { p2 \<leftarrow> symbol_lock next p1; str_equal_loop next rest p2 }
        })
   }"

definition symbol_str_equal :: "nat \<Rightarrow> byte list \<Rightarrow> sympool \<Rightarrow> (bool \<times> sympool) option" where
  "symbol_str_equal i cs p =
     (if \<not> symbol_has_characterdata (tab p i) then Some (False, p)
      else do { p1 \<leftarrow> symbol_relock i p; str_equal_loop i cs p1 })"

text \<open>The length; extensions are locked while they are looked at.\<close>

partial_function (option) str_len_loop :: "nat \<Rightarrow> bool \<Rightarrow> nat \<Rightarrow> sympool \<Rightarrow> (nat \<times> sympool) option" where
  "str_len_loop v locked len p = do {
     n \<leftarrow> symbol_get_max_char_len (tab p v);
     let next = s_last (tab p v);
     let len' = (if next \<noteq> 0 then len + n
                 else len + length (takeWhile (\<lambda>c. c \<noteq> 0) (take n (sym_bytes (tab p v)))));
     p1 \<leftarrow> (if locked then symbol_unlock v p else Some p);
     if next = 0 then Some (len', p1)
     else do { p2 \<leftarrow> symbol_lock next p1; str_len_loop next True len' p2 }
   }"

definition symbol_str_len :: "nat \<Rightarrow> sympool \<Rightarrow> (nat \<times> sympool) option" where
  "symbol_str_len v p =
     (if v = 0 \<or> \<not> symbol_is_string (tab p v) then Some (0, p) else str_len_loop v False 0 p)"

text \<open>
  The string branch of \<open>symbol_to_str\<close>: the characters written, at most \<open>len\<close>, before
  the terminating zero.
\<close>

partial_function (option) to_str_loop :: "nat \<Rightarrow> nat \<Rightarrow> byte list \<Rightarrow> sympool \<Rightarrow> (byte list \<times> sympool) option" where
  "to_str_loop v len out p = do {
     n \<leftarrow> symbol_get_max_char_len (tab p v);
     let w = takeWhile (\<lambda>c. c \<noteq> 0) (take n (sym_bytes (tab p v)));
     if len < length w then map_option (Pair (out @ take len w)) (symbol_unlock v p)
     else do {
       let next = s_last (tab p v);
       p1 \<leftarrow> symbol_unlock v p;
       if next = 0 then Some (out @ w, p1)
       else do { p2 \<leftarrow> symbol_lock next p1; to_str_loop next (len - length w) (out @ w) p2 }
     }
   }"

text \<open>Floating point numbers are printed by the parameter \<open>ftoa\<close>.\<close>

definition sym_int :: "sym \<Rightarrow> int" where
  "sym_int s = sint (word_rcat (rev (take 8 (s_data s))) :: 64 word)"

definition symbol_to_str :: "(byte list \<Rightarrow> byte list) \<Rightarrow> nat \<Rightarrow> nat \<Rightarrow> sympool \<Rightarrow> (byte list \<times> sympool) option" where
  "symbol_to_str ftoa i len p =
     (let s = tab p i
      in if i = 0 then Some (take (len - 1) (str ''undefined''), p)
         else if symbol_is_int s then Some (dec_int (s32 (sym_int s)), p)
         else if symbol_is_float s then Some (ftoa (s_data s), p)
         else if symbol_is_null s then Some (take len (str ''null''), p)
         else if symbol_is_string s \<or> symbol_is_string_ext s \<or> symbol_is_name s \<or> symbol_is_function_argv s
         then do { p1 \<leftarrow> symbol_relock i p; to_str_loop i len [] p1 }
         else if symbol_is_function s then Some (take len (str ''function''), p)
         else if symbol_is_array s then Some (take len (str ''array''), p)
         else Some (str '' '', p))"

text \<open>
  The comparison of two strings in \<open>symbol_type_equal\<close>. The next blocks are taken from
  the first nodes \<open>a\<close> and \<open>b\<close> each time, and the last ones stay locked.
\<close>

fun cmp_bytes :: "byte list \<Rightarrow> byte list \<Rightarrow> bool option" where
  "cmp_bytes [] ys = None"
| "cmp_bytes (x # xs) ys =
     (if x \<noteq> ch ys 0 then Some False else if x = 0 then Some True else cmp_bytes xs (tl ys))"

partial_function (option) type_equal_loop :: "nat \<Rightarrow> nat \<Rightarrow> nat \<Rightarrow> nat \<Rightarrow> sympool \<Rightarrow> (bool \<times> sympool) option" where
  "type_equal_loop a b va vb p = do {
     n \<leftarrow> symbol_get_max_char_len (tab p va);
     (case cmp_bytes (take n (sym_bytes (tab p va))) (sym_bytes (tab p vb)) of
        Some r \<Rightarrow> Some (r, p)
      | None \<Rightarrow>
          let var = s_last (tab p a); vbr = s_last (tab p b)
          in if var = 0 \<and> vbr = 0 then Some (True, p)
             else if (var = 0) \<noteq> (vbr = 0) then Some (False, p)
             else do {
               p1 \<leftarrow> (if va \<noteq> a then symbol_unlock va p else Some p);
               p2 \<leftarrow> (if vb \<noteq> b then symbol_unlock vb p1 else Some p1);
               p3 \<leftarrow> symbol_lock var p2;
               p4 \<leftarrow> symbol_lock vbr p3;
               type_equal_loop a b var vbr p4
             })
   }"

text \<open>Numbers of which one is floating are compared by the parameter \<open>feq\<close>.\<close>

definition symbol_type_equal :: "(sym \<Rightarrow> sym \<Rightarrow> bool) \<Rightarrow> nat \<Rightarrow> nat \<Rightarrow> sympool \<Rightarrow> (bool \<times> sympool) option" where
  "symbol_type_equal feq a b p =
     (if a = b then Some (True, p)
      else if a = 0 \<or> b = 0 then Some (False, p)
      else if symbol_is_number (tab p a) \<and> symbol_is_number (tab p b) then
        (if symbol_is_int (tab p a) \<and> symbol_is_int (tab p b)
         then Some (sym_int (tab p a) = sym_int (tab p b), p)
         else if (symbol_is_int (tab p a) \<or> symbol_is_float (tab p a))
           \<and> (symbol_is_int (tab p b) \<or> symbol_is_float (tab p b))
         then Some (feq (tab p a) (tab p b), p) else None)
      else if symbol_is_string (tab p a) \<and> symbol_is_string (tab p b) then type_equal_loop a b a b p
      else Some (False, p))"

section \<open>Children\<close>

definition add_symbol_node :: "nat \<Rightarrow> nat \<Rightarrow> sympool \<Rightarrow> sympool option" where
  "add_symbol_node parent c p = do {
     p1 \<leftarrow> INC_SYMBL_REF c p;
     if \<not> symbol_is_name (tab p1 c) then None
     else (let l = s_last (tab p1 parent)
           in if l \<noteq> 0 then do {
                p2 \<leftarrow> symbol_lock l p1;
                p3 \<leftarrow> symbol_unlock l (upd l (\<lambda>s. s\<lparr>s_next := c\<rparr>) p2);
                let p4 = upd c (\<lambda>s. s\<lparr>s_prev := s_last (tab p3 parent)\<rparr>) p3;
                Some (upd parent (\<lambda>s. s\<lparr>s_last := c\<rparr>) p4)
              }
              else Some (upd parent (\<lambda>s. s\<lparr>s_first := c, s_last := c\<rparr>) p1))
   }"

definition add_symbol_node_name :: "nat \<Rightarrow> nat \<Rightarrow> byte list \<Rightarrow> sympool \<Rightarrow> (nat \<times> sympool) option" where
  "add_symbol_node_name parent v name p = do {
     (i, p1) \<leftarrow> new_str_symbol name p;
     (j, p2) \<leftarrow> new_named_symbol i v p1;
     if j = 0 then Some (0, p2)
     else map_option (Pair j) (add_symbol_node parent j p2)
   }"

definition set_symbol_node_name :: "nat \<Rightarrow> nat \<Rightarrow> sympool \<Rightarrow> sympool option" where
  "set_symbol_node_name name src p =
     (if name = 0 \<or> \<not> symbol_is_name (tab p name) \<or> name = src then None
      else do {
        p1 \<leftarrow> (if s_first (tab p name) \<noteq> 0 then DEC_SYMBL_REF_BY_ID (s_first (tab p name)) p else Some p);
        p2 \<leftarrow> (if src \<noteq> 0 then INC_SYMBL_REF src p1 else Some p1);
        Some (upd name (\<lambda>s. s\<lparr>s_first := src\<rparr>) p2)
      })"

text \<open>The child that is found is returned locked.\<close>

partial_function (option) lookup_loop :: "nat \<Rightarrow> byte list \<Rightarrow> sympool \<Rightarrow> (nat \<times> sympool) option" where
  "lookup_loop c name p =
     (if c = 0 then Some (0, p)
      else do {
        p1 \<leftarrow> symbol_lock c p;
        (eq, p2) \<leftarrow> symbol_str_equal c name p1;
        if eq then Some (c, p2)
        else do {
          let next = s_next (tab p2 c);
          p3 \<leftarrow> symbol_unlock c p2;
          lookup_loop next name p3
        }
      })"

definition lookup_named_child_symbol :: "nat \<Rightarrow> byte list \<Rightarrow> bool \<Rightarrow> sympool \<Rightarrow> (nat \<times> sympool) option" where
  "lookup_named_child_symbol parent name create p = do {
     p1 \<leftarrow> symbol_lock parent p;
     (c, p2) \<leftarrow> lookup_loop (s_first (tab p1 parent)) name p1;
     if c \<noteq> 0 then map_option (Pair c) (symbol_unlock parent p2)
     else if create then do {
       (i, p3) \<leftarrow> new_str_symbol name p2;
       (j, p4) \<leftarrow> new_named_symbol i 0 p3;
       p5 \<leftarrow> (if j \<noteq> 0 then add_symbol_node parent j p4 else Some p4);
       map_option (Pair j) (symbol_unlock parent p5)
     }
     else map_option (Pair 0) (symbol_unlock parent p2)
   }"

definition remove_child_symbol :: "nat \<Rightarrow> nat \<Rightarrow> sympool \<Rightarrow> sympool option" where
  "remove_child_symbol parent c p =
     (if \<not> (symbol_is_array (tab p parent) \<or> symbol_is_object (tab p parent) \<or> symbol_is_function (tab p parent))
      then None
      else do {
        let p1 = (if s_first (tab p parent) = c
                  then upd parent (\<lambda>s. s\<lparr>s_first := s_next (tab p c)\<rparr>) p else p);
        let p2 = (if s_last (tab p1 parent) = c
                  then upd parent (\<lambda>s. s\<lparr>s_last := s_prev (tab p1 c)\<rparr>) p1 else p1);
        p3 \<leftarrow> (if s_prev (tab p2 c) \<noteq> 0 then do {
             let v = s_prev (tab p2 c);
             q \<leftarrow> symbol_lock v p2;
             symbol_unlock v (upd v (\<lambda>s. s\<lparr>s_next := s_next (tab q c)\<rparr>) q)
           } else Some p2);
        p4 \<leftarrow> (if s_next (tab p3 c) \<noteq> 0 then do {
             let v = s_next (tab p3 c);
             q \<leftarrow> symbol_lock v p3;
             symbol_unlock v (upd v (\<lambda>s. s\<lparr>s_prev := s_prev (tab q c)\<rparr>) q)
           } else Some p3);
        DEC_SYMBL_REF c (upd c (\<lambda>s. s\<lparr>s_prev := 0, s_next := 0\<rparr>) p4)
      })"

end
