(* ===== verification/Sym_Pool.thy ===== *)
theory Sym_Pool
  imports Sym
begin

text \<open>
  The free list of the symbol table, the strings that are kept in chains of nodes, and
  the operations on them: taking nodes, filling, comparing and freeing chains.
\<close>

section \<open>Updates of the table\<close>

lemma upd_sel [simp]:
  "tab (upd i f p) = (tab p)(i := f (tab p i))" "sym_free (upd i f p) = sym_free p"
  "sym_size (upd i f p) = sym_size p" "sym_usage (upd i f p) = sym_usage p"
  "sym_max_usage (upd i f p) = sym_max_usage p"
  by (simp_all add: upd_def)

lemma upd_upd [simp]: "upd i f (upd i g p) = upd i (\<lambda>s. f (g s)) p"
  by (simp add: upd_def)

lemma upd_same: "f (tab p i) = tab p i \<Longrightarrow> upd i f p = p"
  by (simp add: upd_def)

text \<open>A node whose lock counter has room and that is not freed by unlocking.\<close>

definition held :: "sympool \<Rightarrow> nat \<Rightarrow> bool" where
  "held p i \<longleftrightarrow> i \<noteq> 0 \<and> s_locks (tab p i) < 255 \<and> (0 < s_refs (tab p i) \<or> 0 < s_locks (tab p i))"

definition locked :: "nat \<Rightarrow> sympool \<Rightarrow> sympool" where
  "locked i p = upd i (\<lambda>s. s\<lparr>s_locks := s_locks s + 1\<rparr>) p"

lemma lock_held: "held p i \<Longrightarrow> symbol_lock i p = Some (locked i p)"
  by (simp add: symbol_lock_def held_def locked_def upd_def)

lemma unlock_simps:
  "symbol_unlock i p = (if i = 0 then Some p
    else if s_locks (tab p i) = 0 then None
    else (let p1 = upd i (\<lambda>s. s\<lparr>s_locks := s_locks s - 1\<rparr>) p
          in if s_locks (tab p1 i) = 0 \<and> s_refs (tab p1 i) = 0 then free_symbol_node i p1 else Some p1))"
  unfolding symbol_unlock_def free_symbol_node_def by (subst run.simps) simp

lemma unlock_locked: "held p i \<Longrightarrow> symbol_unlock i (locked i p) = Some p"
  by (auto simp: unlock_simps held_def locked_def Let_def upd_same)

lemma locked_sel [simp]:
  "s_last (tab (locked i p) j) = s_last (tab p j)" "s_next (tab (locked i p) j) = s_next (tab p j)"
  "s_first (tab (locked i p) j) = s_first (tab p j)" "s_flags (tab (locked i p) j) = s_flags (tab p j)"
  "sym_bytes (tab (locked i p) j) = sym_bytes (tab p j)" "s_refs (tab (locked i p) j) = s_refs (tab p j)"
  "s_data (tab (locked i p) j) = s_data (tab p j)"
  by (auto simp: locked_def sym_bytes_def)

lemma kind_cong: "s_flags s = s_flags t \<Longrightarrow>
  symbol_is_string s = symbol_is_string t \<and> symbol_is_string_ext s = symbol_is_string_ext t \<and>
  symbol_has_characterdata s = symbol_has_characterdata t \<and>
  symbol_get_max_char_len s = symbol_get_max_char_len t \<and> symbol_is_name s = symbol_is_name t"
  by (simp add: sym_kinds symbol_get_max_char_len_def)

lemma kind_locked [simp]:
  "symbol_get_max_char_len (tab (locked i p) j) = symbol_get_max_char_len (tab p j)"
  "symbol_has_characterdata (tab (locked i p) j) = symbol_has_characterdata (tab p j)"
  "symbol_is_string (tab (locked i p) j) = symbol_is_string (tab p j)"
  using kind_cong [of "tab (locked i p) j" "tab p j"] by simp_all

section \<open>The free list\<close>

fun free_from :: "(nat \<Rightarrow> sym) \<Rightarrow> nat \<Rightarrow> nat list \<Rightarrow> bool" where
  "free_from t i [] = (i = 0)"
| "free_from t i (f # fs) =
     (i = f \<and> f \<noteq> 0 \<and> s_refs (t f) = SYM_TABLE_UNUSED_REF \<and> free_from t (s_next (t f)) fs)"

definition free_list :: "sympool \<Rightarrow> nat list \<Rightarrow> bool" where
  "free_list p fs \<longleftrightarrow> free_from (tab p) (sym_free p) fs \<and> distinct fs"

lemma free_from_frame: "(\<And>f. f \<in> set fs \<Longrightarrow> t' f = t f) \<Longrightarrow> free_from t' i fs = free_from t i fs"
  by (induction fs arbitrary: i) auto

lemma free_from_upd: "i \<notin> set fs \<Longrightarrow> free_from (t(i := s)) k fs = free_from t k fs"
  by (rule free_from_frame) auto

lemma free_list_upd: "i \<notin> set fs \<Longrightarrow> free_list (upd i f p) fs = free_list p fs"
  by (simp add: free_list_def free_from_upd)

lemma free_list_nonzero: "free_list p fs \<Longrightarrow> 0 \<notin> set fs"
proof -
  have "free_from t i fs \<Longrightarrow> 0 \<notin> set fs" for t i by (induction fs arbitrary: i) auto
  then show "free_list p fs \<Longrightarrow> 0 \<notin> set fs" by (auto simp: free_list_def)
qed

text \<open>The pool after the first free node was taken.\<close>

definition taken :: "nat \<Rightarrow> sympool \<Rightarrow> sympool" where
  "taken i p = (upd i (\<lambda>s. zero_sym\<lparr>s_locks := 1\<rparr>) p)\<lparr>sym_free := s_next (tab p i),
     sym_usage := sym_usage p + 1, sym_max_usage := max (sym_max_usage p) (sym_usage p + 1)\<rparr>"

lemma new_node_free:
  assumes "free_list p (f # fs)"
  shows "new_symbol_node p = Some (f, taken f p)" "free_list (taken f p) fs"
    "f \<noteq> 0" "f \<notin> set fs"
  using assms
  by (auto simp: free_list_def new_symbol_node_def take_node_def taken_def Let_def free_from_upd)

lemma taken_sel [simp]:
  "tab (taken i p) = (tab p)(i := zero_sym\<lparr>s_locks := 1\<rparr>)" "sym_usage (taken i p) = sym_usage p + 1"
  "sym_size (taken i p) = sym_size p"
  by (simp_all add: taken_def)

lemma release_free_list:
  assumes "free_list p fs" and "i \<noteq> 0" and "i \<notin> set fs"
  shows "free_list (release i p) (i # fs)"
  using assms by (auto simp: free_list_def release_def free_from_upd)

lemma release_sel [simp]:
  "j \<noteq> i \<Longrightarrow> tab (release i p) j = tab p j" "sym_usage (release i p) = sym_usage p"
  by (simp_all add: release_def)

section \<open>Growing the table\<close>

lemma init_loop:
  assumes "start + n \<le> 65535"
  shows "while_option (\<lambda>(i, p). i < start + n) init_step (start, p) = Some (start + n,
    p\<lparr>tab := (\<lambda>i. if start \<le> i \<and> i < start + n
       then (tab p i)\<lparr>s_refs := 65535, s_locks := 0, s_next := i + 1\<rparr> else tab p i)\<rparr>)"
  using assms
proof (induction n arbitrary: start p)
  case 0
  have "(\<lambda>i. if start \<le> i \<and> i < start + 0 then (tab p i)\<lparr>s_refs := 65535, s_locks := 0, s_next := i + 1\<rparr>
    else tab p i) = tab p" by auto
  then show ?case by (subst while_option_unfold) simp
next
  case (Suc n)
  let ?p = "upd start (\<lambda>s. s\<lparr>s_refs := 65535, s_locks := 0, s_next := start + 1\<rparr>) p"
  have u: "u16 (start + 1) = start + 1" using Suc.prems by simp
  have "while_option (\<lambda>(i, p). i < start + Suc n) init_step (start, p) =
      while_option (\<lambda>(i, p). i < Suc start + n) init_step (Suc start, ?p)"
    using u by (subst while_option_unfold) (simp add: init_step_def)
  also have "\<dots> = Some (Suc start + n, ?p\<lparr>tab := (\<lambda>i. if Suc start \<le> i \<and> i < Suc start + n
       then (tab ?p i)\<lparr>s_refs := 65535, s_locks := 0, s_next := i + 1\<rparr> else tab ?p i)\<rparr>)"
    using Suc.prems by (intro Suc.IH) simp
  also have "(\<lambda>i. if Suc start \<le> i \<and> i < Suc start + n
       then (tab ?p i)\<lparr>s_refs := 65535, s_locks := 0, s_next := i + 1\<rparr> else tab ?p i)
    = (\<lambda>i. if start \<le> i \<and> i < start + Suc n
       then (tab p i)\<lparr>s_refs := 65535, s_locks := 0, s_next := i + 1\<rparr> else tab p i)"
    by (rule ext) auto
  finally show ?case by (simp add: upd_def)
qed

lemma free_from_upto: "0 < a \<Longrightarrow> a \<le> b \<Longrightarrow>
  (\<And>i. a \<le> i \<Longrightarrow> i \<le> b \<Longrightarrow> s_refs (t i) = 65535 \<and> s_next (t i) = (if i = b then 0 else i + 1)) \<Longrightarrow>
  free_from t a [a..<Suc b]"
proof (induction "b - a" arbitrary: a)
  case 0
  then show ?case by simp
next
  case (Suc n)
  have "[a..<Suc b] = a # [Suc a..<Suc b]" using Suc.prems by (intro upt_conv_Cons) simp
  then show ?case using Suc.hyps(1) [of "Suc a"] Suc.hyps(2) Suc.prems by auto
qed

lemma table_init_returns:
  assumes "0 < start" and "0 < n" and "start + n \<le> 65535"
  shows "\<exists>p'. symbol_table_init start n p = Some (start, p') \<and>
    free_from (tab p') start [start..<start + n] \<and> (\<forall>i. \<not> (start \<le> i \<and> i < start + n) \<longrightarrow> tab p' i = tab p i) \<and>
    sym_size p' = sym_size p \<and> sym_usage p' = sym_usage p"
proof -
  have u: "u16 (start + n - 1) = start + n - 1" using assms by simp
  obtain b where b: "start + n = Suc b" using assms by (cases "start + n") auto
  let ?q = "p\<lparr>tab := (\<lambda>i. if start \<le> i \<and> i < start + n
       then (tab p i)\<lparr>s_refs := 65535, s_locks := 0, s_next := i + 1\<rparr> else tab p i)\<rparr>"
  let ?p = "upd (start + n - 1) (\<lambda>s. s\<lparr>s_next := 0\<rparr>) ?q"
  have "symbol_table_init start n p = Some (start, ?p)"
    by (simp only: symbol_table_init_def init_loop [OF assms(3)] option.map split_conv u)
  moreover have "free_from (tab ?p) start [start..<start + n]"
    unfolding b using assms b by (intro free_from_upto) auto
  ultimately show ?thesis using b by auto
qed

lemma table_init_loops:
  assumes "65535 < start + n" and "start < 65536"
  shows "symbol_table_init start n p = None"
proof -
  have "while_option (\<lambda>(i, p). i < start + n) init_step (start, p) = None"
  proof (rule ccontr)
    assume "while_option (\<lambda>(i, p). i < start + n) init_step (start, p) \<noteq> None"
    then obtain t where t: "while_option (\<lambda>(i, p). i < start + n) init_step (start, p) = Some t" by blast
    have "fst t < 65536"
      by (rule while_option_rule [OF _ t]) (use assms in \<open>auto simp: init_step_def u16_def\<close>)
    then show False using while_option_stop [OF t] assms by (auto simp: split_def)
  qed
  then show ?thesis by (simp add: symbol_table_init_def)
qed

lemma grow_returns:
  assumes "sym_free p = 0" and "sym_size p = 512 * k" and "0 < k" and "k < 127"
  shows "\<exists>p'. be_jse_set_symbol_table_size (sym_size p + 512) p = Some p' \<and>
    free_list p' [sym_size p + 1..<sym_size p + 513] \<and> sym_size p' = sym_size p + 512 \<and>
    (\<forall>i\<le> sym_size p. tab p' i = tab p i) \<and> sym_usage p' = sym_usage p"
proof -
  let ?s = "sym_size p"
  have d: "(?s + 512 + 512 - 1) div 512 * 512 = ?s + 512"
  proof -
    have "(?s + 512 + 512 - 1) div 512 = k + 1" using assms(2) by simp
    then show ?thesis using assms(2) by simp
  qed
  let ?t = "\<lambda>i. if ?s < i \<and> i \<le> ?s + 512 then zero_sym else tab p i"
  have u: "u16 (?s + 1) = ?s + 1" using assms by simp
  obtain q where q: "symbol_table_init (?s + 1) 512 (p\<lparr>tab := ?t, sym_size := ?s + 512\<rparr>) = Some (?s + 1, q)"
    "free_from (tab q) (?s + 1) [?s + 1..<?s + 1 + 512]"
    "\<forall>i. \<not> (?s + 1 \<le> i \<and> i < ?s + 1 + 512) \<longrightarrow> tab q i = ?t i" "sym_size q = ?s + 512" "sym_usage q = sym_usage p"
    using table_init_returns [of "?s + 1" 512 "p\<lparr>tab := ?t, sym_size := ?s + 512\<rparr>"] assms by auto
  have r: "be_jse_set_symbol_table_size (?s + 512) p = Some (q\<lparr>sym_free := ?s + 1\<rparr>)"
    using assms(1) q(1) u d by (simp add: be_jse_set_symbol_table_size_def Let_def)
  have "free_list (q\<lparr>sym_free := ?s + 1\<rparr>) [?s + 1..<?s + 513]"
    using q(2) by (simp add: free_list_def add.commute)
  then show ?thesis using r q(3-5) by (intro exI [of _ "q\<lparr>sym_free := ?s + 1\<rparr>"]) auto
qed

lemma new_node_grows:
  assumes "sym_free p = 0" and "sym_size p = 512 * k" and "0 < k" and "k < 127"
  shows "\<exists>p'. new_symbol_node p = Some (sym_size p + 1, p') \<and>
    free_list p' [sym_size p + 2..<sym_size p + 513] \<and> sym_size p' = sym_size p + 512 \<and>
    tab p' (sym_size p + 1) = zero_sym\<lparr>s_locks := 1\<rparr> \<and> (\<forall>i\<le> sym_size p. tab p' i = tab p i)"
proof -
  let ?s = "sym_size p"
  obtain q where q: "be_jse_set_symbol_table_size (?s + 512) p = Some q"
    "free_list q [?s + 1..<?s + 513]" "sym_size q = ?s + 512" "\<forall>i\<le>?s. tab q i = tab p i"
    using grow_returns [OF assms] by blast
  have c: "[?s + 1..<?s + 513] = (?s + 1) # [?s + 2..<?s + 513]" by (subst upt_conv_Cons) simp_all
  note n = new_node_free [OF q(2) [unfolded c]]
  have f: "sym_free q = ?s + 1" using q(2) unfolding free_list_def c by simp
  have "take_node q = Some (?s + 1, taken (?s + 1) q)" using n(1) f by (simp add: new_symbol_node_def)
  then show ?thesis
    using n(2) q f assms(1) by (intro exI [of _ "taken (?s + 1) q"]) (auto simp: new_symbol_node_def)
qed

lemma new_node_hangs:
  assumes "sym_free p = 0" and "sym_size p = 65024"
  shows "new_symbol_node p = None"
  using assms table_init_loops [of 65025 512]
  by (simp add: new_symbol_node_def be_jse_set_symbol_table_size_def Let_def u16_def)

end
