(* ===== verification/Sym_Str.thy ===== *)
theory Sym_Str
  imports Sym_Pool
begin

text \<open>
  Strings as chains of nodes: the first block has 8 characters, each extension 14. The
  theory follows the functions of be_symbol.c on such chains and states what they do in
  terms of the string.
\<close>

section \<open>Blocks\<close>

lemma le16_un_le16 [simp]: "le16 (un_le16 a b) = [a, b]"
proof -
  have "unat a + 256 * unat b mod 65536 = unat a + 256 * unat b" by simp
  have "(unat a + 256 * unat b) div 256 = unat b" by simp
  then show ?thesis by (simp add: le16_def un_le16_def)
qed

lemma length_le16 [simp]: "length (le16 x) = 2"
  by (simp add: le16_def)

lemma length_sym_bytes: "length (s_data s) = 8 \<Longrightarrow> length (sym_bytes s) = 14"
  by (simp add: sym_bytes_def)

lemma list14:
  assumes "length b = 14"
  shows "take 8 b @ [b ! 8, b ! 9] @ [b ! 10, b ! 11] @ [b ! 12, b ! 13] = b"
proof (rule nth_equalityI)
  show "length (take 8 b @ [b ! 8, b ! 9] @ [b ! 10, b ! 11] @ [b ! 12, b ! 13]) = length b"
    using assms by simp
  fix i
  assume "i < length (take 8 b @ [b ! 8, b ! 9] @ [b ! 10, b ! 11] @ [b ! 12, b ! 13])"
  then have "i < 8 \<or> i = 8 \<or> i = 9 \<or> i = 10 \<or> i = 11 \<or> i = 12 \<or> i = 13" using assms by auto
  then show "(take 8 b @ [b ! 8, b ! 9] @ [b ! 10, b ! 11] @ [b ! 12, b ! 13]) ! i = b ! i"
    using assms by (auto simp: nth_append)
qed

lemma set_bytes_ext:
  assumes "length bs = 14" and "length (s_data s) = 8"
  shows "sym_bytes (set_sym_bytes bs s) = bs" "length (s_data (set_sym_bytes bs s)) = 8"
  using assms list14 [OF assms(1)]
  by (simp_all add: set_sym_bytes_def sym_bytes_def overwrite_def Let_def)

lemma set_bytes_str:
  assumes "length bs = 8" and "length (s_data s) = 8" and "s_next s = 0" "s_prev s = 0" "s_first s = 0"
  shows "set_sym_bytes bs s = s\<lparr>s_data := bs\<rparr>"
  using assms
  by (simp add: set_sym_bytes_def sym_bytes_def overwrite_def Let_def nth_append le16_def un_le16_def)

lemma set_bytes_sel [simp]:
  "s_refs (set_sym_bytes bs s) = s_refs s" "s_locks (set_sym_bytes bs s) = s_locks s"
  "s_flags (set_sym_bytes bs s) = s_flags s" "s_last (set_sym_bytes bs s) = s_last s"
  by (simp_all add: set_sym_bytes_def Let_def)

section \<open>Chains\<close>

text \<open>
  \<open>blocks_at t n i js cs\<close>: the string \<open>cs\<close> is in the node \<open>i\<close>, which holds \<open>n\<close>
  characters, and the extensions \<open>js\<close>.
\<close>

fun blocks_at :: "(nat \<Rightarrow> sym) \<Rightarrow> nat \<Rightarrow> nat \<Rightarrow> nat list \<Rightarrow> byte list \<Rightarrow> bool" where
  "blocks_at t n i [] cs \<longleftrightarrow>
     length cs \<le> n \<and> take n (sym_bytes (t i)) = cs @ replicate (n - length cs) 0 \<and> s_last (t i) = 0"
| "blocks_at t n i (j # js) cs \<longleftrightarrow>
     n < length cs \<and> take n (sym_bytes (t i)) = take n cs \<and> s_last (t i) = j \<and>
     blocks_at t 14 j js (drop n cs)"

definition ext_ok :: "(nat \<Rightarrow> sym) \<Rightarrow> nat \<Rightarrow> bool" where
  "ext_ok t j \<longleftrightarrow> j \<noteq> 0 \<and> s_flags (t j) = BE_SYM_STRING_EXT \<and> s_refs (t j) = 1 \<and> s_locks (t j) = 0 \<and>
     length (s_data (t j)) = 8"

lemma blocks_frame: "(\<And>k. k \<in> set (i # js) \<Longrightarrow> sym_bytes (t' k) = sym_bytes (t k) \<and> s_last (t' k) = s_last (t k)) \<Longrightarrow>
  blocks_at t' n i js cs = blocks_at t n i js cs"
  by (induction js arbitrary: n i cs) auto

lemma ext_chars: "ext_ok t j \<Longrightarrow> symbol_get_max_char_len (t j) = Some 14 \<and> symbol_is_string_ext (t j)"
  by (simp add: ext_ok_def symbol_get_max_char_len_def sym_kinds)

lemma unlock_keep: "i \<noteq> 0 \<Longrightarrow> 0 < s_locks (tab p i) \<Longrightarrow> 1 < s_locks (tab p i) \<or> 0 < s_refs (tab p i) \<Longrightarrow>
  symbol_unlock i p = Some (upd i (\<lambda>s. s\<lparr>s_locks := s_locks s - 1\<rparr>) p)"
  by (auto simp: unlock_simps Let_def)

text \<open>The node that is filled, with the extensions that the loop takes from the free list.\<close>

definition fillable :: "sympool \<Rightarrow> nat \<Rightarrow> nat \<Rightarrow> bool" where
  "fillable p n i \<longleftrightarrow> i \<noteq> 0 \<and> symbol_get_max_char_len (tab p i) = Some n \<and> length (s_data (tab p i)) = 8 \<and>
     s_last (tab p i) = 0 \<and> 0 < s_locks (tab p i) \<and> (1 < s_locks (tab p i) \<or> 0 < s_refs (tab p i)) \<and>
     (n = 14 \<or> n = 8 \<and> s_next (tab p i) = 0 \<and> s_prev (tab p i) = 0 \<and> s_first (tab p i) = 0)"

text \<open>What the loop leaves of the node: all but the characters, the lock and the link.\<close>

definition filled :: "nat \<Rightarrow> sym \<Rightarrow> sym \<Rightarrow> bool" where
  "filled n s s' \<longleftrightarrow> s_refs s' = s_refs s \<and> s_locks s' = s_locks s - 1 \<and> s_flags s' = s_flags s \<and>
     length (s_data s') = 8 \<and>
     (n = 8 \<longrightarrow> s_next s' = 0 \<and> s_prev s' = 0 \<and> s_first s' = 0)"

lemma set_block:
  assumes "fillable p n i"
  shows "take n (sym_bytes (set_sym_bytes (take n (cs @ replicate n 0)) (tab p i))) = take n (cs @ replicate n 0)"
    "filled n (tab p i) (set_sym_bytes (take n (cs @ replicate n 0)) (tab p i)\<lparr>s_locks := s_locks (tab p i) - 1\<rparr>)"
proof -
  let ?b = "take n (cs @ replicate n 0)"
  consider (e) "n = 14" | (f) "n = 8" "s_next (tab p i) = 0" "s_prev (tab p i) = 0" "s_first (tab p i) = 0"
    using assms by (auto simp: fillable_def)
  then have "take n (sym_bytes (set_sym_bytes ?b (tab p i))) = ?b \<and>
    filled n (tab p i) (set_sym_bytes ?b (tab p i)\<lparr>s_locks := s_locks (tab p i) - 1\<rparr>)"
  proof cases
    case e
    then have l: "length ?b = 14" by simp
    show ?thesis using set_bytes_ext [OF l, of "tab p i"] e assms by (auto simp: filled_def fillable_def)
  next
    case f
    then have l: "length ?b = 8" by simp
    show ?thesis
      using set_bytes_str [OF l, of "tab p i"] f l assms by (simp add: filled_def fillable_def sym_bytes_def)
  qed
  then show "take n (sym_bytes (set_sym_bytes ?b (tab p i))) = ?b"
    "filled n (tab p i) (set_sym_bytes ?b (tab p i)\<lparr>s_locks := s_locks (tab p i) - 1\<rparr>)" by blast+
qed

lemma fill_last:
  assumes "fillable p n i" and "cs \<noteq> []" and "drop n cs = []" and "free_list p fs" and "i \<notin> set fs"
  shows "\<exists>p'. fill_blocks cs i p = Some p' \<and> blocks_at (tab p') n i [] cs \<and> free_list p' fs \<and>
    (\<forall>k. k \<noteq> i \<longrightarrow> tab p' k = tab p k) \<and> filled n (tab p i) (tab p' i) \<and> sym_usage p' = sym_usage p"
proof -
  define b where "b = take n (cs @ replicate n 0)"
  have i: "i \<noteq> 0" "symbol_get_max_char_len (tab p i) = Some n" "s_last (tab p i) = 0"
    using assms(1) by (auto simp: fillable_def)
  note s = set_block [OF assms(1), of cs, folded b_def]
  let ?p1 = "upd i (set_sym_bytes b) p"
  define p2 where "p2 = upd i (\<lambda>s. s\<lparr>s_locks := s_locks s - 1\<rparr>) ?p1"
  have t: "tab p2 i = set_sym_bytes b (tab p i)\<lparr>s_locks := s_locks (tab p i) - 1\<rparr>"
    by (simp add: p2_def)
  have u: "symbol_unlock i ?p1 = Some p2"
    unfolding p2_def using assms(1) by (intro unlock_keep) (auto simp: fillable_def)
  have f: "fill_blocks cs i p = Some p2"
    using i assms(2,3) u by (subst fill_blocks.simps) (simp add: b_def)
  have "b = cs @ replicate (n - length cs) 0" using assms(3) by (simp add: b_def)
  then have "blocks_at (tab p2) n i [] cs"
    using s(1) assms(3) i(3) by (simp add: t sym_bytes_def)
  moreover have "filled n (tab p i) (tab p2 i)" using s(2) t by simp
  moreover have "free_list p2 fs" using assms(4,5) by (simp add: p2_def free_list_upd)
  ultimately show ?thesis using f by (intro exI [of _ p2]) (simp add: p2_def)
qed

lemma fill_blocks_chain:
  assumes "fillable p n i" and "cs \<noteq> []" and "free_list p fs" and "i \<notin> set fs"
    and "length cs \<le> n + 14 * length fs"
  shows "\<exists>js fs' p'. fs = js @ fs' \<and> fill_blocks cs i p = Some p' \<and> blocks_at (tab p') n i js cs \<and>
    (\<forall>j\<in>set js. ext_ok (tab p') j) \<and> free_list p' fs' \<and> (\<forall>k. k \<noteq> i \<and> k \<notin> set js \<longrightarrow> tab p' k = tab p k) \<and>
    filled n (tab p i) (tab p' i) \<and> sym_usage p' = sym_usage p + int (length js)"
  using assms
proof (induction fs arbitrary: p n i cs)
  case (Cons f fs)
  have i: "i \<noteq> 0" "symbol_get_max_char_len (tab p i) = Some n" using Cons.prems(1) by (auto simp: fillable_def)
  let ?b = "take n (cs @ replicate n 0)"
  let ?p1 = "upd i (set_sym_bytes ?b) p"
  note b = set_block [OF Cons.prems(1), of cs]
  show ?case
  proof (cases "drop n cs = []")
    case True
    then obtain p' where "fill_blocks cs i p = Some p'" "blocks_at (tab p') n i [] cs" "free_list p' (f # fs)"
      "\<forall>k. k \<noteq> i \<longrightarrow> tab p' k = tab p k" "filled n (tab p i) (tab p' i)" "sym_usage p' = sym_usage p"
      using fill_last [OF Cons.prems(1,2) _ Cons.prems(3,4)] by blast
    then show ?thesis by (intro exI [of _ "[]"] exI [of _ "f # fs"] exI [of _ p']) simp
  next
    case False
    have f1: "free_list ?p1 (f # fs)" using Cons.prems(3,4) by (simp add: free_list_upd)
    note nf = new_node_free [OF f1]
    have fi: "f \<noteq> i" using Cons.prems(4) by auto
    let ?p3 = "upd i (\<lambda>s. s\<lparr>s_last := f\<rparr>) (upd f (\<lambda>s. s\<lparr>s_flags := BE_SYM_STRING_EXT\<rparr>)
      (upd f (\<lambda>s. s\<lparr>s_refs := u16 (s_refs s + 1)\<rparr>) (taken f ?p1)))"
    let ?p4 = "upd i (\<lambda>s. s\<lparr>s_locks := s_locks s - 1\<rparr>) ?p3"
    have u: "symbol_unlock i ?p3 = Some ?p4"
      using Cons.prems(1) fi by (intro unlock_keep) (auto simp: fillable_def)
    have tf: "tab ?p4 f = zero_sym\<lparr>s_locks := 1, s_refs := 1, s_flags := BE_SYM_STRING_EXT\<rparr>"
      using fi by (simp add: zero_sym_def)
    have ti: "tab ?p4 i = set_sym_bytes ?b (tab p i)\<lparr>s_last := f, s_locks := s_locks (tab p i) - 1\<rparr>"
      using fi by simp
    have fill: "fillable ?p4 14 f"
      unfolding fillable_def tf using nf(3)
      by (simp add: zero_sym_def symbol_get_max_char_len_def sym_kinds)
    have fl: "free_list ?p4 fs" using nf(2,4) Cons.prems(4) by (simp add: free_list_upd)
    have l: "length (drop n cs) \<le> 14 + 14 * length fs" using Cons.prems(5) by simp
    obtain js fs' p' where r: "fs = js @ fs'" "fill_blocks (drop n cs) f ?p4 = Some p'"
      "blocks_at (tab p') 14 f js (drop n cs)" "\<forall>j\<in>set js. ext_ok (tab p') j" "free_list p' fs'"
      "\<forall>k. k \<noteq> f \<and> k \<notin> set js \<longrightarrow> tab p' k = tab ?p4 k" "filled 14 (tab ?p4 f) (tab p' f)"
      "sym_usage p' = sym_usage ?p4 + int (length js)"
      using Cons.IH [OF fill False fl nf(4) l] by blast
    have ni: "i \<notin> set js" using r(1) Cons.prems(4) by auto
    then have pi: "tab p' i = tab ?p4 i" using fi by (intro mp [OF spec [OF r(6)]]) simp
    have run: "fill_blocks cs i p = Some p'"
      using i Cons.prems(2) False nf(1,3) u r(2)
      by (subst fill_blocks.simps) (simp add: INC_SYMBL_REF_def)
    have nb: "?b = take n cs" using False by simp
    have "take n (sym_bytes (tab p' i)) = take n cs" "s_last (tab p' i) = f"
      using b(1) fi unfolding pi ti nb by (auto simp: sym_bytes_def)
    then have "blocks_at (tab p') n i (f # js) cs" using r(3) False by simp
    moreover have "ext_ok (tab p') f"
      using r(7) nf(3) unfolding tf by (simp add: ext_ok_def filled_def zero_sym_def)
    moreover have "filled n (tab p i) (tab p' i)"
      using b(2) unfolding pi ti by (simp add: filled_def)
    moreover have "sym_usage p' = sym_usage p + int (length (f # js))" using r(8) by simp
    moreover have "tab p' k = tab p k" if "k \<noteq> i \<and> k \<notin> set (f # js)" for k
      using that r(6) fi by (auto simp: taken_def)
    ultimately show ?thesis
      using run r(1,4,5) by (intro exI [of _ "f # js"] exI [of _ fs'] exI [of _ p']) auto
  qed
next
  case Nil
  have d: "drop n cs = []" using Nil.prems(5) by simp
  obtain p' where "fill_blocks cs i p = Some p'" "blocks_at (tab p') n i [] cs" "free_list p' []"
    "\<forall>k. k \<noteq> i \<longrightarrow> tab p' k = tab p k" "filled n (tab p i) (tab p' i)" "sym_usage p' = sym_usage p"
    using fill_last [OF Nil.prems(1,2) d Nil.prems(3,4)] by blast
  then show ?case by (intro exI [of _ "[]"] exI [of _ p']) simp
qed

section \<open>String symbols\<close>

text \<open>\<open>str_chain p i js cs\<close>: the symbol \<open>i\<close> is the string \<open>cs\<close>, with the extensions \<open>js\<close>.\<close>

definition str_chain :: "sympool \<Rightarrow> nat \<Rightarrow> nat list \<Rightarrow> byte list \<Rightarrow> bool" where
  "str_chain p i js cs \<longleftrightarrow> i \<noteq> 0 \<and> symbol_is_string (tab p i) \<and> length (s_data (tab p i)) = 8 \<and>
     blocks_at (tab p) 8 i js cs \<and> (\<forall>j\<in>set js. ext_ok (tab p) j) \<and> distinct (i # js)"

text \<open>A string symbol that nothing refers to, as \<open>new_str_symbol\<close> returns it.\<close>

definition fresh_str :: "sym \<Rightarrow> bool" where
  "fresh_str s \<longleftrightarrow> s_flags s = BE_SYM_STRING \<and> s_refs s = 0 \<and> s_locks s = 1 \<and> s_next s = 0 \<and>
     s_prev s = 0 \<and> s_first s = 0"

lemma string_chars: "symbol_is_string s \<Longrightarrow> symbol_get_max_char_len s = Some 8"
  by (simp add: symbol_get_max_char_len_def sym_kinds)

lemma blocks_at_empty: "take 8 (sym_bytes (t i)) = replicate 8 0 \<Longrightarrow> s_last (t i) = 0 \<Longrightarrow> blocks_at t 8 i [] []"
  by simp

lemma new_str_chain:
  assumes "free_list p (i # fs)" and "length cs \<le> 8 + 14 * length fs"
  shows "\<exists>js fs' p'. fs = js @ fs' \<and> new_str_symbol cs p = Some (i, p') \<and> str_chain p' i js cs \<and>
    fresh_str (tab p' i) \<and> free_list p' fs' \<and> (\<forall>k. k \<noteq> i \<and> k \<notin> set js \<longrightarrow> tab p' k = tab p k) \<and>
    sym_usage p' = sym_usage p + 1 + int (length js)"
proof -
  note nf = new_node_free [OF assms(1)]
  define q where "q = upd i (\<lambda>s. s\<lparr>s_flags := BE_SYM_STRING, s_data := (s_data s)[0 := 0]\<rparr>)
    (upd i (\<lambda>s. s\<lparr>s_locks := u8 (s_locks s + 1)\<rparr>) (taken i p))"
  have ti: "tab q i = zero_sym\<lparr>s_locks := 2, s_flags := BE_SYM_STRING\<rparr>"
    by (simp add: q_def zero_sym_def list_update_same_conv)
  have tk: "tab q k = tab p k" if "k \<noteq> i" for k using that by (simp add: q_def)
  have n: "new_str_symbol cs p = map_option (Pair i) (fill_blocks cs i q)"
    using nf(1,3) by (cases "fill_blocks cs i q")
      (simp_all add: new_str_symbol_def symbol_relock_def symbol_lock_def q_def)
  have fill: "fillable q 8 i"
    unfolding fillable_def ti using nf(3) by (simp add: zero_sym_def symbol_get_max_char_len_def sym_kinds)
  have fl: "free_list q fs" using nf(2,4) by (simp add: q_def free_list_upd)
  have us: "sym_usage q = sym_usage p + 1" by (simp add: q_def)
  have d: "distinct (i # fs)" using assms(1) by (simp add: free_list_def)
  show ?thesis
  proof (cases "cs = []")
    case True
    define q' where "q' = upd i (\<lambda>s. s\<lparr>s_locks := s_locks s - 1\<rparr>) q"
    have "symbol_unlock i q = Some q'" unfolding q'_def using nf(3) ti by (intro unlock_keep) auto
    then have "new_str_symbol cs p = Some (i, q')" using n True by (subst (asm) fill_blocks.simps) simp
    moreover have ti': "tab q' i = zero_sym\<lparr>s_locks := 1, s_flags := BE_SYM_STRING\<rparr>" by (simp add: q'_def ti)
    moreover have "blocks_at (tab q') 8 i [] []"
      by (rule blocks_at_empty) (simp_all add: ti' zero_sym_def sym_bytes_def)
    then have "str_chain q' i [] cs"
      using nf(3) True ti' by (simp add: str_chain_def sym_kinds zero_sym_def)
    moreover have "fresh_str (tab q' i)" unfolding ti' by (simp add: fresh_str_def zero_sym_def)
    moreover have "free_list q' fs" using fl nf(4) by (simp add: q'_def free_list_upd)
    ultimately show ?thesis
      using tk us by (intro exI [of _ "[]"] exI [of _ fs] exI [of _ q']) (simp add: q'_def)
  next
    case False
    obtain js fs' p' where r: "fs = js @ fs'" "fill_blocks cs i q = Some p'" "blocks_at (tab p') 8 i js cs"
      "\<forall>j\<in>set js. ext_ok (tab p') j" "free_list p' fs'" "\<forall>k. k \<noteq> i \<and> k \<notin> set js \<longrightarrow> tab p' k = tab q k"
      "filled 8 (tab q i) (tab p' i)" "sym_usage p' = sym_usage q + int (length js)"
      using fill_blocks_chain [OF fill False fl nf(4) assms(2)] by blast
    have "fresh_str (tab p' i)" "symbol_is_string (tab p' i)" "length (s_data (tab p' i)) = 8"
      using r(7) unfolding ti by (simp_all add: filled_def fresh_str_def zero_sym_def sym_kinds)
    then have "str_chain p' i js cs" "fresh_str (tab p' i)"
      using r(1,3,4) d nf(3) by (simp_all add: str_chain_def)
    then show ?thesis using n r tk us by (intro exI [of _ js] exI [of _ fs'] exI [of _ p']) simp
  qed
qed

section \<open>Freeing a string\<close>

fun links :: "(nat \<Rightarrow> sym) \<Rightarrow> nat \<Rightarrow> nat list \<Rightarrow> bool" where
  "links t i [] = (s_last (t i) = 0)"
| "links t i (j # js) = (s_last (t i) = j \<and> links t j js)"

lemma blocks_links: "blocks_at t n i js cs \<Longrightarrow> links t i js"
  by (induction js arbitrary: n i cs) auto

lemma links_frame: "(\<And>k. k \<in> set (i # js) \<Longrightarrow> s_last (t' k) = s_last (t k)) \<Longrightarrow> links t' i js = links t i js"
  by (induction js arbitrary: i) auto

definition freeable :: "sym \<Rightarrow> bool" where
  "freeable s \<longleftrightarrow> (symbol_is_string_ext s \<or> symbol_is_string s \<and> s_next s = 0 \<and> s_prev s = 0) \<and>
     (symbol_is_name s \<longrightarrow> s_first s = 0)"

lemma freeable_locks [simp]:
  "freeable (s\<lparr>s_locks := n\<rparr>) = freeable s" "freeable (s\<lparr>s_refs := n\<rparr>) = freeable s"
  by (simp_all add: freeable_def sym_kinds)

text \<open>The extension is unlinked, its last reference dropped and its lock released.\<close>

definition unref :: "nat \<Rightarrow> sympool \<Rightarrow> sympool" where
  "unref j p = upd j (\<lambda>s. s\<lparr>s_prev := 0, s_next := 0, s_refs := 0, s_locks := 0\<rparr>) p"

lemma unlink_steps:
  assumes "ext_ok (tab p) j"
  shows "do { q1 \<leftarrow> symbol_lock j p;
      if \<not> symbol_is_string_ext (tab q1 j) then None
      else do { q2 \<leftarrow> run (Dec j) (upd j unlink_ext q1); run (Unlock j) q2 } } = run (Free j) (unref j p)"
proof -
  have e: "j \<noteq> 0" "s_flags (tab p j) = 3" "s_refs (tab p j) = 1" "s_locks (tab p j) = 0"
    using assms by (auto simp: ext_ok_def)
  have 1: "symbol_lock j p = Some (upd j (\<lambda>s. s\<lparr>s_locks := 1\<rparr>) p)"
    using e by (simp add: symbol_lock_def upd_def)
  have 2: "upd j unlink_ext (upd j (\<lambda>s. s\<lparr>s_locks := 1\<rparr>) p) =
    upd j (\<lambda>s. s\<lparr>s_locks := 1, s_prev := 0, s_next := 0\<rparr>) p" (is "_ = ?q")
    using e by (simp add: upd_def unlink_ext_def)
  have 3: "run (Dec j) ?q = Some (upd j (\<lambda>s. s\<lparr>s_locks := 1, s_prev := 0, s_next := 0, s_refs := 0\<rparr>) p)"
    using e by (subst run.simps) (simp add: upd_def)
  have 4: "run (Unlock j) (upd j (\<lambda>s. s\<lparr>s_locks := 1, s_prev := 0, s_next := 0, s_refs := 0\<rparr>) p) =
    run (Free j) (unref j p)"
    using e by (subst run.simps) (simp add: upd_def unref_def)
  show ?thesis using e by (simp add: 1 2 3 4 sym_kinds del: upd_upd One_nat_def)
qed

lemma run_free_str:
  assumes "freeable (tab p i)"
  shows "run (Free i) p = do {
     let q = upd i (\<lambda>s. s\<lparr>s_last := 0\<rparr>) (p\<lparr>sym_usage := sym_usage p - 1\<rparr>);
     p2 \<leftarrow> (let c = s_last (tab p i) in if c = 0 then Some q
       else do {
         q1 \<leftarrow> symbol_lock c q;
         if \<not> symbol_is_string_ext (tab q1 c) then None
         else do { q2 \<leftarrow> run (Dec c) (upd c unlink_ext q1); run (Unlock c) q2 } });
     Some (release i p2) }"
  using assms by (subst run.simps) (auto simp: freeable_def Let_def)

lemma free_chain:
  assumes "links (tab p) i js" and "freeable (tab p i)" and "\<forall>j\<in>set js. ext_ok (tab p) j"
    and "distinct (i # js @ fs)" and "i \<noteq> 0" and "free_list p fs"
  shows "\<exists>p'. run (Free i) p = Some p' \<and> free_list p' (i # js @ fs) \<and>
    (\<forall>k. k \<noteq> i \<and> k \<notin> set js \<longrightarrow> tab p' k = tab p k) \<and> sym_usage p' = sym_usage p - 1 - int (length js)"
  using assms
proof (induction js arbitrary: p i)
  case Nil
  let ?q = "upd i (\<lambda>s. s\<lparr>s_last := 0\<rparr>) (p\<lparr>sym_usage := sym_usage p - 1\<rparr>)"
  have "run (Free i) p = Some (release i ?q)" using Nil.prems(1,2) by (simp add: run_free_str Let_def)
  moreover have "free_list ?q fs" using Nil.prems(4,6) by (simp add: free_list_upd) (simp add: free_list_def)
  then have "free_list (release i ?q) (i # fs)" using Nil.prems(4,5) by (intro release_free_list) auto
  ultimately show ?case by simp
next
  case (Cons j js)
  let ?q = "upd i (\<lambda>s. s\<lparr>s_last := 0\<rparr>) (p\<lparr>sym_usage := sym_usage p - 1\<rparr>)"
  let ?r = "unref j ?q"
  have ij: "i \<noteq> j" "i \<notin> set js" "j \<notin> set js" "i \<notin> set fs" "j \<notin> set fs" using Cons.prems(4) by auto
  have e: "ext_ok (tab p) j" "s_last (tab p i) = j" using Cons.prems(1,3) by auto
  then have eq: "ext_ok (tab ?q) j" "j \<noteq> 0" using ij by (auto simp: ext_ok_def)
  have 1: "links (tab ?r) j js"
    using Cons.prems(1) ij by (subst links_frame [of j js _ "tab p"]) (auto simp: unref_def)
  have 2: "freeable (tab ?r j)"
    using e(1) ij by (simp add: unref_def freeable_def sym_kinds ext_ok_def)
  have 3: "\<forall>k\<in>set js. ext_ok (tab ?r) k"
    using Cons.prems(3) ij by (auto simp: unref_def ext_ok_def)
  have 4: "distinct (j # js @ fs)" using Cons.prems(4) by simp
  have 5: "free_list ?r fs"
    using Cons.prems(6) ij by (simp add: unref_def free_list_upd) (simp add: free_list_def)
  obtain p' where r: "run (Free j) ?r = Some p'" "free_list p' (j # js @ fs)"
    "\<forall>k. k \<noteq> j \<and> k \<notin> set js \<longrightarrow> tab p' k = tab ?r k" "sym_usage p' = sym_usage ?r - 1 - int (length js)"
    using Cons.IH [OF 1 2 3 4 eq(2) 5] by blast
  have "run (Free i) p = Some (release i p')"
    using Cons.prems(2) e(2) eq(2) unlink_steps [OF eq(1)] r(1) by (simp add: run_free_str Let_def del: Option.bind_assoc)
  moreover have "free_list (release i p') (i # (j # js) @ fs)"
    using release_free_list [OF r(2) Cons.prems(5)] ij by simp
  moreover have "tab (release i p') k = tab p k" if "k \<noteq> i \<and> k \<notin> set (j # js)" for k
    using that r(3) by (simp add: unref_def)
  ultimately show ?case using r(4) by (intro exI [of _ "release i p'"]) (simp add: unref_def)
qed

lemma string_returns_nodes:
  assumes "free_list p (i # fs)" and "length cs \<le> 8 + 14 * length fs"
  shows "\<exists>js q p'. new_str_symbol cs p = Some (i, q) \<and> str_chain q i js cs \<and> symbol_unlock i q = Some p' \<and>
    free_list p' (i # fs) \<and> sym_usage p' = sym_usage p \<and> (\<forall>k. k \<notin> set (i # fs) \<longrightarrow> tab p' k = tab p k)"
proof -
  obtain js fs' q where n: "fs = js @ fs'" "new_str_symbol cs p = Some (i, q)" "str_chain q i js cs"
    "fresh_str (tab q i)" "free_list q fs'" "\<forall>k. k \<noteq> i \<and> k \<notin> set js \<longrightarrow> tab q k = tab p k"
    "sym_usage q = sym_usage p + 1 + int (length js)"
    using new_str_chain [OF assms] by blast
  define q0 where "q0 = upd i (\<lambda>s. s\<lparr>s_locks := 0\<rparr>) q"
  have i: "i \<noteq> 0" "distinct (i # js @ fs')" using n(1,3) assms(1) by (auto simp: str_chain_def free_list_def)
  have t: "tab q0 k = (if k = i then (tab q i)\<lparr>s_locks := 0\<rparr> else tab q k)" for k by (simp add: q0_def)
  have u: "symbol_unlock i q = free_symbol_node i q0"
    using n(4) i(1) by (simp add: unlock_simps fresh_str_def q0_def upd_def)
  have 1: "links (tab q0) i js"
    using n(3) by (subst links_frame [of i js _ "tab q"]) (auto simp: t str_chain_def blocks_links)
  have 2: "freeable (tab q0 i)"
    using n(3,4) by (simp add: t freeable_def str_chain_def fresh_str_def sym_kinds)
  have 3: "\<forall>j\<in>set js. ext_ok (tab q0) j" using n(3) i(2) by (auto simp: t str_chain_def ext_ok_def)
  have 4: "free_list q0 fs'" using n(5) i(2) by (simp add: q0_def free_list_upd)
  obtain p' where "run (Free i) q0 = Some p'" "free_list p' (i # js @ fs')"
    "\<forall>k. k \<noteq> i \<and> k \<notin> set js \<longrightarrow> tab p' k = tab q0 k" "sym_usage p' = sym_usage q0 - 1 - int (length js)"
    using free_chain [OF 1 2 3 i(2,1) 4] by blast
  then show ?thesis
    using n(1,2,3,6,7) u by (intro exI [of _ js] exI [of _ q] exI [of _ p'])
      (auto simp: free_symbol_node_def t q0_def)
qed

section \<open>Reading a string\<close>

lemma ext_held: "ext_ok (tab p) j \<Longrightarrow> held p j"
  by (simp add: ext_ok_def held_def)

lemma ch_tl: "0 \<notin> set cs \<Longrightarrow> b \<noteq> 0 \<Longrightarrow> b = ch cs 0 \<Longrightarrow> \<exists>r. cs = b # r"
  by (cases cs) (auto simp: ch_def)

lemma cmp_block_chars:
  assumes "0 \<notin> set bs" and "0 \<notin> set cs"
  shows "cmp_block (bs @ zs) cs =
    (if take (length bs) cs = bs then cmp_block zs (drop (length bs) cs) else Inl False)"
  using assms
proof (induction bs arbitrary: cs)
  case (Cons b bs)
  then show ?case by (cases cs) (auto simp: ch_def)
qed simp

lemma cmp_block_zeros:
  "0 \<notin> set cs \<Longrightarrow> cmp_block (replicate k 0) cs = (if k = 0 then Inr cs else Inl (cs = []))"
  by (cases k; cases cs) (auto simp: ch_def)

lemma str_equal_chain:
  assumes "blocks_at (tab p) n v js cs" and "symbol_get_max_char_len (tab p v) = Some n" and "held p v"
    and "\<forall>j\<in>set js. ext_ok (tab p) j" and "0 \<notin> set cs" and "0 \<notin> set xs"
  shows "str_equal_loop v xs (locked v p) = Some (cs = xs, p)"
  using assms
proof (induction js arbitrary: n v cs xs)
  case Nil
  have z: "0 \<notin> set (drop (length cs) xs)" using Nil.prems(6) by (auto dest: in_set_dropD)
  have d: "take (length cs) xs = cs \<Longrightarrow> (length xs \<le> length cs) = (xs = cs)"
    by (metis order_refl take_all)
  have c: "cmp_block (cs @ replicate (n - length cs) 0) xs =
    (if take (length cs) xs = cs then if n = length cs then Inr (drop n xs) else Inl (xs = cs) else Inl False)"
    using Nil.prems(1,5,6) cmp_block_chars [OF Nil.prems(5,6)]
    by (simp add: cmp_block_zeros [OF z] d)
  have b: "take n (sym_bytes (tab p v)) = cs @ replicate (n - length cs) 0" "s_last (tab p v) = 0"
    using Nil.prems(1) by simp_all
  show ?case
    using Nil.prems(2,3) b c unlock_locked [OF Nil.prems(3)]
    by (subst str_equal_loop.simps) (auto simp: Let_def)
next
  case (Cons j js)
  have b: "take n (sym_bytes (tab p v)) = take n cs" "s_last (tab p v) = j" "n < length cs"
    "blocks_at (tab p) 14 j js (drop n cs)" using Cons.prems(1) by simp_all
  have "0 \<notin> set (take n cs)" using Cons.prems(5) by (auto dest: in_set_takeD)
  from cmp_block_chars [OF this Cons.prems(6), of "[]"]
  have c: "cmp_block (take n cs) xs = (if take n xs = take n cs then Inr (drop n xs) else Inl False)"
    using b(3) by simp
  have e: "ext_ok (tab p) j" "j \<noteq> 0" using Cons.prems(4) by (auto simp: ext_ok_def)
  have d: "0 \<notin> set (drop n cs)" "0 \<notin> set (drop n xs)" using Cons.prems(5,6) by (auto dest: in_set_dropD)
  have IH: "str_equal_loop j (drop n xs) (locked j p) = Some (drop n cs = drop n xs, p)"
    using Cons.prems(4) ext_chars [OF e(1)] ext_held [OF e(1)] d b(4) by (intro Cons.IH) auto
  have eq: "cs = xs \<longleftrightarrow> take n xs = take n cs \<and> drop n cs = drop n xs"
    by (metis append_take_drop_id)
  have ne: "drop n cs \<noteq> []" using b(3) by simp
  show ?case
    using Cons.prems(2) b(1,2) c e(2) ne unlock_locked [OF Cons.prems(3)] lock_held [OF ext_held [OF e(1)]] IH
    by (subst str_equal_loop.simps) (auto simp: Let_def eq)
qed

lemma str_equal_compares:
  assumes "str_chain p i js cs" and "held p i" and "0 \<notin> set cs" and "0 \<notin> set xs"
  shows "symbol_str_equal i xs p = Some (cs = xs, p)"
  using assms lock_held [OF assms(2)] str_equal_chain [of p 8 i js cs xs]
  by (simp add: symbol_str_equal_def symbol_relock_def str_chain_def string_chars
      symbol_has_characterdata_def)

end
