(* ===== verification/Sym_Read.thy ===== *)
theory Sym_Read
  imports Sym_Str
begin

text \<open>
  The other functions that read string symbols: the length, the conversion to characters
  and the comparison of two symbols.
\<close>

section \<open>Length and characters\<close>

lemma takeWhile_block:
  assumes "0 \<notin> set cs"
  shows "takeWhile (\<lambda>c. c \<noteq> 0) (cs @ replicate k 0) = cs"
proof -
  have "takeWhile (\<lambda>c. c \<noteq> 0) (replicate k 0 :: byte list) = []" by (cases k) simp_all
  then show ?thesis using assms by (subst takeWhile_append2) auto
qed

lemma unlock_if_locked:
  "held p v \<Longrightarrow> (if b then symbol_unlock v (if b then locked v p else p) else Some (if b then locked v p else p)) = Some p"
  by (simp add: unlock_locked)

lemma str_len_chain:
  assumes "blocks_at (tab p) n v js cs" and "symbol_get_max_char_len (tab p v) = Some n" and "held p v"
    and "\<forall>j\<in>set js. ext_ok (tab p) j" and "0 \<notin> set cs"
  shows "str_len_loop v b m (if b then locked v p else p) = Some (m + length cs, p)"
  using assms
proof (induction js arbitrary: n v b m cs)
  case Nil
  have "take n (sym_bytes (tab p v)) = cs @ replicate (n - length cs) 0" "s_last (tab p v) = 0"
    using Nil.prems(1) by simp_all
  then show ?case
    using Nil.prems(2,5) unlock_locked [OF Nil.prems(3)]
    by (subst str_len_loop.simps) (auto simp: Let_def takeWhile_block)
next
  case (Cons j js)
  have b: "s_last (tab p v) = j" "n < length cs" "blocks_at (tab p) 14 j js (drop n cs)"
    using Cons.prems(1) by simp_all
  have e: "ext_ok (tab p) j" "j \<noteq> 0" using Cons.prems(4) by (auto simp: ext_ok_def)
  have "str_len_loop j True (m + n) (if True then locked j p else p) = Some ((m + n) + length (drop n cs), p)"
    using Cons.prems(4,5) ext_chars [OF e(1)] ext_held [OF e(1)] b(3)
    by (intro Cons.IH) (auto dest: in_set_dropD)
  then show ?case
    using Cons.prems(2) b(1,2) e(2) unlock_locked [OF Cons.prems(3)] lock_held [OF ext_held [OF e(1)]]
    by (subst str_len_loop.simps) (auto simp: Let_def)
qed

lemma str_len_counts:
  assumes "str_chain p i js cs" and "held p i" and "0 \<notin> set cs"
  shows "symbol_str_len i p = Some (length cs, p)"
  using assms str_len_chain [of p 8 i js cs False 0]
  by (simp add: symbol_str_len_def str_chain_def string_chars)

lemma to_str_chain:
  assumes "blocks_at (tab p) n v js cs" and "symbol_get_max_char_len (tab p v) = Some n" and "held p v"
    and "\<forall>j\<in>set js. ext_ok (tab p) j" and "0 \<notin> set cs"
  shows "to_str_loop v m out (locked v p) = Some (out @ take m cs, p)"
  using assms
proof (induction js arbitrary: n v m out cs)
  case Nil
  have "take n (sym_bytes (tab p v)) = cs @ replicate (n - length cs) 0" "s_last (tab p v) = 0"
    using Nil.prems(1) by simp_all
  then show ?case
    using Nil.prems(2,5) unlock_locked [OF Nil.prems(3)]
    by (subst to_str_loop.simps) (auto simp: Let_def takeWhile_block)
next
  case (Cons j js)
  have b: "take n (sym_bytes (tab p v)) = take n cs" "s_last (tab p v) = j" "n < length cs"
    "blocks_at (tab p) 14 j js (drop n cs)" using Cons.prems(1) by simp_all
  have w: "takeWhile (\<lambda>c. c \<noteq> 0) (take n cs) = take n cs"
    using takeWhile_block [of "take n cs" 0] Cons.prems(5) by (auto dest: in_set_takeD)
  have e: "ext_ok (tab p) j" "j \<noteq> 0" using Cons.prems(4) by (auto simp: ext_ok_def)
  have IH: "to_str_loop j (m - n) (out @ take n cs) (locked j p) =
      Some ((out @ take n cs) @ take (m - n) (drop n cs), p)"
    using Cons.prems(4,5) ext_chars [OF e(1)] ext_held [OF e(1)] b(4)
    by (intro Cons.IH) (auto dest: in_set_dropD)
  have "take m cs = take n cs @ take (m - n) (drop n cs)" if "n \<le> m"
    using that by (metis le_add_diff_inverse take_add)
  then show ?case
    using Cons.prems(2) b(1-3) w e(2) IH unlock_locked [OF Cons.prems(3)] lock_held [OF ext_held [OF e(1)]]
    by (subst to_str_loop.simps) (auto simp: Let_def min_absorb1 simp del: takeWhile_eq_all_conv)
qed

lemma to_str_writes:
  assumes "str_chain p i js cs" and "held p i" and "0 \<notin> set cs"
  shows "symbol_to_str ftoa i m p = Some (take m cs, p)"
proof -
  have k: "i \<noteq> 0" "sym_type (tab p i) = 2" using assms(1) by (auto simp: str_chain_def symbol_is_string_def)
  have "symbol_to_str ftoa i m p = to_str_loop i m [] (locked i p)"
    using k lock_held [OF assms(2)]
    by (simp add: symbol_to_str_def symbol_relock_def Let_def symbol_is_int_def symbol_is_float_def
        symbol_is_null_def symbol_is_string_def)
  then show ?thesis
    using assms to_str_chain [of p 8 i js cs m "[]"] by (simp add: str_chain_def string_chars)
qed

section \<open>Comparing two symbols\<close>

lemma locked_commute: "i \<noteq> j \<Longrightarrow> locked i (locked j p) = locked j (locked i p)"
  by (simp add: locked_def upd_def fun_upd_twist)

lemma held_locked: "i \<noteq> j \<Longrightarrow> held (locked j p) i = held p i"
  by (simp add: held_def locked_def)

lemma cmp_bytes_same:
  assumes "0 \<notin> set bs"
  shows "cmp_bytes bs (bs @ zs) = None"
  using assms by (induction bs) (auto simp: ch_def)

text \<open>Once both first extensions are compared and equal, the loop is where it was.\<close>

lemma type_equal_turns:
  assumes "s_last (tab p a) = x" and "s_last (tab p b) = y" and "ext_ok (tab p) x" and "ext_ok (tab p) y"
    and "distinct [a, b, x, y]" and "0 \<notin> set bs" and "sym_bytes (tab p x) = bs" and "sym_bytes (tab p y) = bs"
    and "length bs = 14"
  shows "type_equal_loop a b x y (locked y (locked x p)) = None"
proof -
  let ?q = "locked y (locked x p)"
  note hx = ext_held [OF assms(3)] and hy = ext_held [OF assms(4)]
  have d: "x \<noteq> y" "x \<noteq> a" "y \<noteq> b" "x \<noteq> 0" "y \<noteq> 0" using assms(3-5) by (auto simp: ext_ok_def)
  have u: "symbol_unlock x ?q = Some (locked y p)" "symbol_unlock y (locked y p) = Some p"
    using d hx hy by (simp_all add: locked_commute [of y x] unlock_locked held_locked)
  have l: "symbol_lock x p = Some (locked x p)" "symbol_lock y (locked x p) = Some ?q"
    using d hx hy by (simp_all add: lock_held held_locked)
  have c: "cmp_bytes (take 14 (sym_bytes (tab ?q x))) (sym_bytes (tab ?q y)) = None"
    using cmp_bytes_same [OF assms(6), of "[]"] assms(7-9) by simp
  have s: "s_last (tab ?q a) = x" "s_last (tab ?q b) = y" using assms(1,2) by simp_all
  have n: "symbol_get_max_char_len (tab ?q x) = Some 14" using ext_chars [OF assms(3)] by simp
  have "\<not> (a' = a \<and> b' = b \<and> x' = x \<and> y' = y \<and> p' = ?q)"
    if "type_equal_loop a' b' x' y' p' = Some r" for a' b' x' y' p' r
  proof (rule type_equal_loop.raw_induct
      [where P = "\<lambda>a' b' x' y' p' r. \<not> (a' = a \<and> b' = b \<and> x' = x \<and> y' = y \<and> p' = ?q)", OF _ that])
    fix f :: "nat \<Rightarrow> nat \<Rightarrow> nat \<Rightarrow> nat \<Rightarrow> sympool \<Rightarrow> (bool \<times> sympool) option"
    fix a' b' x' y' p' r
    assume IH: "\<And>a' b' x' y' p' r. f a' b' x' y' p' = Some r \<Longrightarrow>
      \<not> (a' = a \<and> b' = b \<and> x' = x \<and> y' = y \<and> p' = ?q)"
    assume body: "Option.bind (symbol_get_max_char_len (tab p' x')) (\<lambda>n. 
      (case cmp_bytes (take n (sym_bytes (tab p' x'))) (sym_bytes (tab p' y')) of
        Some r \<Rightarrow> Some (r, p')
      | None \<Rightarrow>
          let var = s_last (tab p' a'); vbr = s_last (tab p' b')
          in if var = 0 \<and> vbr = 0 then Some (True, p')
             else if (var = 0) \<noteq> (vbr = 0) then Some (False, p')
             else do {
               p1 \<leftarrow> (if x' \<noteq> a' then symbol_unlock x' p' else Some p');
               p2 \<leftarrow> (if y' \<noteq> b' then symbol_unlock y' p1 else Some p1);
               p3 \<leftarrow> symbol_lock var p2;
               p4 \<leftarrow> symbol_lock vbr p3;
               f a' b' var vbr p4
             })) = Some r"
    show "\<not> (a' = a \<and> b' = b \<and> x' = x \<and> y' = y \<and> p' = ?q)"
    proof
      assume "a' = a \<and> b' = b \<and> x' = x \<and> y' = y \<and> p' = ?q"
      then have "f a b x y ?q = Some r" using body d u l c s n by (simp add: Let_def)
      then show False using IH by blast
    qed
  qed
  then show ?thesis by (metis option.exhaust)
qed

lemma blocks_full: "blocks_at t n i js cs \<Longrightarrow> n \<le> length cs \<Longrightarrow> take n (sym_bytes (t i)) = take n cs"
  by (cases js) auto

lemma ext_bytes: "ext_ok t j \<Longrightarrow> blocks_at t 14 j js cs \<Longrightarrow> 14 \<le> length cs \<Longrightarrow> sym_bytes (t j) = take 14 cs"
  using blocks_full [of t 14 j js cs] by (simp add: ext_ok_def length_sym_bytes)

lemma string_not_number: "symbol_is_string s \<Longrightarrow> \<not> symbol_is_number s"
proof -
  assume "symbol_is_string s"
  then have "s_flags s AND 15 = 2" by (simp add: sym_kinds)
  moreover have "s_flags s AND 8 = (s_flags s AND 15) AND 8" by (simp add: and.assoc)
  ultimately show ?thesis by (simp add: sym_kinds)
qed

lemma type_equal_hangs:
  assumes "str_chain p a js xs" and "str_chain p b ks ys" and "distinct (a # js @ b # ks)"
    and "0 \<notin> set xs" and "22 \<le> length xs" and "22 \<le> length ys" and "take 22 xs = take 22 ys"
  shows "symbol_type_equal feq a b p = None"
proof -
  obtain x js' where js: "js = x # js'" using assms(1,5) by (cases js) (auto simp: str_chain_def)
  obtain y ks' where ks: "ks = y # ks'" using assms(2,6) by (cases ks) (auto simp: str_chain_def)
  have t: "take 8 xs = take 8 ys" "take 14 (drop 8 xs) = take 14 (drop 8 ys)"
    using arg_cong [OF assms(7), of "take 8"] arg_cong [OF assms(7), of "drop 8"] by (simp_all add: drop_take)
  have x: "s_last (tab p a) = x" "ext_ok (tab p) x" "take 8 (sym_bytes (tab p a)) = take 8 xs"
    "sym_bytes (tab p x) = take 14 (drop 8 xs)"
    using assms(1,5) ext_bytes [of "tab p" x js' "drop 8 xs"] by (auto simp: js str_chain_def)
  have y: "s_last (tab p b) = y" "ext_ok (tab p) y" "take 8 (sym_bytes (tab p b)) = take 8 xs"
    "sym_bytes (tab p y) = take 14 (drop 8 xs)"
    using assms(2,6) ext_bytes [of "tab p" y ks' "drop 8 ys"] t by (auto simp: ks str_chain_def)
  have d: "distinct [a, b, x, y]" "x \<noteq> 0" "y \<noteq> 0" "a \<noteq> 0" "b \<noteq> 0"
    using assms(1-3) x(2) y(2) by (auto simp: js ks ext_ok_def str_chain_def)
  have z: "0 \<notin> set (take 8 xs)" "0 \<notin> set (take 14 (drop 8 xs))"
    using assms(4) by (auto dest: in_set_takeD in_set_dropD)
  have turns: "type_equal_loop a b x y (locked y (locked x p)) = None"
    using assms(5) by (intro type_equal_turns [OF x(1) y(1) x(2) y(2) d(1) z(2) x(4) y(4)]) simp
  have l: "symbol_lock x p = Some (locked x p)" "symbol_lock y (locked x p) = Some (locked y (locked x p))"
    using d ext_held [OF x(2)] ext_held [OF y(2)] by (simp_all add: lock_held held_locked)
  have "sym_bytes (tab p b) = take 8 xs @ drop 8 (sym_bytes (tab p b))"
    using y(3) by (metis append_take_drop_id)
  then have c: "cmp_bytes (take 8 (sym_bytes (tab p a))) (sym_bytes (tab p b)) = None"
    using cmp_bytes_same [OF z(1)] x(3) by metis
  have n: "symbol_get_max_char_len (tab p a) = Some 8" "symbol_is_string (tab p a)" "symbol_is_string (tab p b)"
    using assms(1,2) by (simp_all add: str_chain_def string_chars)
  have "type_equal_loop a b a b p = None"
    using c d l n x(1) y(1) turns by (subst type_equal_loop.simps) (simp add: Let_def)
  then show ?thesis using d n(2,3) string_not_number by (simp add: symbol_type_equal_def)
qed

end
