(* ===== verification/Sym_Obj.thy ===== *)
theory Sym_Obj
  imports Sym_Read
begin

text \<open>
  Objects: the names of an object are its children, in a doubly linked list of string
  symbols. The theory relates the list to the sequence of the names, and the look up and
  the creation of a name to operations on that sequence.
\<close>

section \<open>Lists of children\<close>

text \<open>A child: its node, the extensions of its name, and the name.\<close>

type_synonym kid = "nat \<times> nat list \<times> byte list"

definition kid_nodes :: "kid list \<Rightarrow> nat list" where
  "kid_nodes ks = concat (map (\<lambda>(k, js, _). k # js) ks)"

definition kid_ok :: "sympool \<Rightarrow> nat \<Rightarrow> nat list \<Rightarrow> byte list \<Rightarrow> bool" where
  "kid_ok p k js nm \<longleftrightarrow> str_chain p k js nm \<and> 0 \<notin> set nm \<and> 0 < s_refs (tab p k) \<and> s_locks (tab p k) < 254"

fun kids :: "sympool \<Rightarrow> nat \<Rightarrow> kid list \<Rightarrow> bool" where
  "kids p c [] \<longleftrightarrow> c = 0"
| "kids p c ((k, js, nm) # ks) \<longleftrightarrow> c = k \<and> kid_ok p k js nm \<and> kids p (s_next (tab p k)) ks"

text \<open>The first child of a name.\<close>

definition find_kid :: "byte list \<Rightarrow> kid list \<Rightarrow> kid option" where
  "find_kid name ks = find (\<lambda>(k, js, nm). nm = name) ks"

definition object_at :: "sympool \<Rightarrow> nat \<Rightarrow> kid list \<Rightarrow> bool" where
  "object_at p ob ks \<longleftrightarrow> ob \<noteq> 0 \<and> kids p (s_first (tab p ob)) ks \<and>
     s_last (tab p ob) = (if ks = [] then 0 else fst (last ks)) \<and> distinct (ob # kid_nodes ks)"

lemma kid_nodes_simps [simp]:
  "kid_nodes [] = []" "kid_nodes ((k, js, nm) # ks) = k # js @ kid_nodes ks"
  "kid_nodes (ks @ ms) = kid_nodes ks @ kid_nodes ms"
  by (simp_all add: kid_nodes_def)

lemma find_kid_simps [simp]:
  "find_kid name [] = None"
  "find_kid name ((k, js, nm) # ks) = (if nm = name then Some (k, js, nm) else find_kid name ks)"
  by (simp_all add: find_kid_def)

text \<open>What a child needs of its node: all but the links and the room for locks.\<close>

definition same_str :: "sym \<Rightarrow> sym \<Rightarrow> bool" where
  "same_str s s' \<longleftrightarrow> s_flags s' = s_flags s \<and> s_data s' = s_data s \<and> s_last s' = s_last s"

lemma blocks_frame8:
  assumes "length (s_data (t i)) = 8" and "s_data (t' i) = s_data (t i)" and "s_last (t' i) = s_last (t i)"
    and "\<forall>k\<in>set js. t' k = t k" and "blocks_at t 8 i js cs"
  shows "blocks_at t' 8 i js cs"
proof (cases js)
  case Nil
  then show ?thesis using assms by (simp add: sym_bytes_def)
next
  case (Cons j ks)
  have "blocks_at t' 14 j ks (drop 8 cs) = blocks_at t 14 j ks (drop 8 cs)"
    using assms(4) by (intro blocks_frame) (auto simp: Cons)
  then show ?thesis using assms by (simp add: Cons sym_bytes_def)
qed

lemma str_chain_frame:
  assumes "str_chain p i js cs" and "same_str (tab p i) (tab p' i)" and "\<forall>k\<in>set js. tab p' k = tab p k"
  shows "str_chain p' i js cs"
  using assms blocks_frame8 [of "tab p" i "tab p'" js cs] kind_cong [of "tab p i" "tab p' i"]
  by (auto simp: str_chain_def same_str_def ext_ok_def)

lemma kid_ok_frame:
  assumes "kid_ok p k js nm" and "same_str (tab p k) (tab p' k)" and "\<forall>j\<in>set js. tab p' j = tab p j"
    and "0 < s_refs (tab p' k)" and "s_locks (tab p' k) < 254"
  shows "kid_ok p' k js nm"
  using assms by (auto simp: kid_ok_def intro: str_chain_frame)

lemma kids_frame:
  "\<forall>k\<in>set (kid_nodes ks). tab p' k = tab p k \<Longrightarrow> kids p' c ks = kids p c ks"
proof (induction ks arbitrary: c)
  case (Cons x ks)
  obtain k js nm where x: "x = (k, js, nm)" by (cases x)
  have e: "tab p' k = tab p k" "\<forall>j\<in>set js. tab p' j = tab p j" using Cons.prems by (auto simp: x)
  have s: "same_str (tab p k) (tab p' k)" "same_str (tab p' k) (tab p k)" using e(1) by (simp_all add: same_str_def)
  have "kid_ok p' k js nm" if "kid_ok p k js nm"
    using that s(1) e by (intro kid_ok_frame [OF that]) (auto simp: kid_ok_def)
  moreover have "kid_ok p k js nm" if "kid_ok p' k js nm"
    using that s(2) e by (intro kid_ok_frame [OF that]) (auto simp: kid_ok_def)
  ultimately show ?case using Cons e(1) by (auto simp: x)
qed simp

section \<open>Looking up a name\<close>

lemma kid_equal:
  assumes "kid_ok p k js nm" and "0 \<notin> set name"
  shows "symbol_str_equal k name (locked k p) = Some (nm = name, locked k p)"
proof -
  have k: "str_chain p k js nm" "k \<notin> set js" "k \<noteq> 0" "s_locks (tab p k) < 254" "0 < s_refs (tab p k)"
    using assms(1) by (simp_all add: kid_ok_def str_chain_def)
  have "\<forall>j\<in>set js. tab (locked k p) j = tab p j" using k(2) by (auto simp: locked_def)
  then have "str_chain (locked k p) k js nm"
    by (intro str_chain_frame [OF k(1)]) (simp_all add: same_str_def)
  moreover have "held (locked k p) k"
    using k(3-5) by (simp add: held_def locked_def)
  ultimately show ?thesis using assms by (intro str_equal_compares) (auto simp: kid_ok_def)
qed

lemma kid_held: "kid_ok p k js nm \<Longrightarrow> held p k"
  by (simp add: kid_ok_def held_def str_chain_def)

lemma lookup_loop_finds:
  assumes "kids p c ks" and "0 \<notin> set name"
  shows "lookup_loop c name p =
    (case find_kid name ks of None \<Rightarrow> Some (0, p) | Some (k, _) \<Rightarrow> Some (k, locked k p))"
  using assms(1)
proof (induction ks arbitrary: c)
  case Nil
  then show ?case by (subst lookup_loop.simps) simp
next
  case (Cons x ks)
  obtain k js nm where x: "x = (k, js, nm)" by (cases x)
  have k: "c = k" "kid_ok p k js nm" "kids p (s_next (tab p k)) ks" using Cons.prems by (auto simp: x)
  have "k \<noteq> 0" using k(2) by (simp add: kid_ok_def str_chain_def)
  then show ?case
    using k Cons.IH [OF k(3)] kid_equal [OF k(2) assms(2)] lock_held [OF kid_held [OF k(2)]]
      unlock_locked [OF kid_held [OF k(2)]]
    by (subst lookup_loop.simps) (simp add: x)
qed

lemma find_kid_in: "find_kid name ks = Some (k, js, nm) \<Longrightarrow> kids p c ks \<Longrightarrow>
  k \<in> set (kid_nodes ks) \<and> kid_ok p k js nm \<and> nm = name"
proof (induction ks arbitrary: c)
  case (Cons x ks)
  obtain k' js' nm' where x: "x = (k', js', nm')" by (cases x)
  show ?case using Cons.IH [of "s_next (tab p k')"] Cons.prems by (auto simp: x split: if_splits)
qed simp

lemma lookup_named_finds:
  assumes "object_at p ob ks" and "held p ob" and "0 \<notin> set name"
    and "find_kid name ks = Some (k, js, name)"
  shows "lookup_named_child_symbol ob name create p = Some (k, locked k p)"
proof -
  have ob: "kids p (s_first (tab p ob)) ks" "ob \<notin> set (kid_nodes ks)" using assms(1) by (auto simp: object_at_def)
  have k: "k \<in> set (kid_nodes ks)" "kid_ok p k js name" using find_kid_in [OF assms(4) ob(1)] by auto
  have "kids (locked ob p) (s_first (tab p ob)) ks"
    using ob by (subst kids_frame [of _ _ p]) (auto simp: locked_def)
  from lookup_loop_finds [OF this assms(3)]
  have "lookup_loop (s_first (tab p ob)) name (locked ob p) = Some (k, locked k (locked ob p))"
    using assms(4) by simp
  moreover have "k \<noteq> ob" "k \<noteq> 0" using k ob(2) by (auto simp: kid_ok_def str_chain_def)
  moreover from this have "symbol_unlock ob (locked k (locked ob p)) = Some (locked k p)"
    using assms(2) by (simp add: locked_commute [of k ob] unlock_locked held_locked)
  ultimately show ?thesis using lock_held [OF assms(2)] by (simp add: lookup_named_child_symbol_def)
qed

lemma lookup_named_misses:
  assumes "object_at p ob ks" and "held p ob" and "0 \<notin> set name" and "find_kid name ks = None"
  shows "lookup_named_child_symbol ob name False p = Some (0, p)"
proof -
  have ob: "kids p (s_first (tab p ob)) ks" "ob \<notin> set (kid_nodes ks)" using assms(1) by (auto simp: object_at_def)
  have "kids (locked ob p) (s_first (tab p ob)) ks"
    using ob by (subst kids_frame [of _ _ p]) (auto simp: locked_def)
  from lookup_loop_finds [OF this assms(3)] show ?thesis
    using assms(4) lock_held [OF assms(2)] unlock_locked [OF assms(2)]
    by (simp add: lookup_named_child_symbol_def)
qed

section \<open>Adding a child\<close>

lemma object_frame:
  assumes "object_at p ob ks" and "\<forall>k\<in>set (kid_nodes ks). tab p' k = tab p k"
    and "s_first (tab p' ob) = s_first (tab p ob)" and "s_last (tab p' ob) = s_last (tab p ob)"
  shows "object_at p' ob ks"
  using assms kids_frame [OF assms(2)] by (simp add: object_at_def)

lemma kids_append:
  assumes "kids p x ks" and "ks \<noteq> []" and "distinct (kid_nodes ks)" and "l = fst (last ks)"
    and "tab p' l = (tab p l)\<lparr>s_next := c\<rparr>" and "\<forall>k\<in>set (kid_nodes ks). k \<noteq> l \<longrightarrow> tab p' k = tab p k"
    and "kids p' c ms"
  shows "kids p' x (ks @ ms)"
  using assms
proof (induction ks arbitrary: x)
  case (Cons y ks)
  obtain k js nm where y: "y = (k, js, nm)" by (cases y)
  have k: "x = k" "kid_ok p k js nm" "kids p (s_next (tab p k)) ks" using Cons.prems(1) by (auto simp: y)
  have d: "k \<notin> set js" "k \<notin> set (kid_nodes ks)" "set js \<inter> set (kid_nodes ks) = {}" "distinct (kid_nodes ks)"
    using Cons.prems(3) by (auto simp: y)
  have i: "fst (last ks) \<in> set (kid_nodes ks)" if "ks \<noteq> []"
    using that by (induction ks) (auto simp: split_def kid_nodes_def)
  have same: "same_str (tab p k) (tab p' k)" "s_refs (tab p' k) = s_refs (tab p k)"
    "s_locks (tab p' k) = s_locks (tab p k)"
    using Cons.prems(5,6) by (cases "k = l"; simp add: same_str_def y)+
  have lk: "ks \<noteq> [] \<Longrightarrow> l = fst (last ks)" "ks = [] \<Longrightarrow> l = k" using Cons.prems(4) by (simp_all add: y)
  have nj: "l \<notin> set js" using d(1,3) i lk by (cases "ks = []") auto
  have ok: "kid_ok p' k js nm"
    using same k(2) Cons.prems(6) nj by (intro kid_ok_frame [OF k(2)]) (auto simp: y kid_ok_def)
  show ?case
  proof (cases "ks = []")
    case True
    then show ?thesis using ok k(1) Cons.prems(5,7) lk(2) by (simp add: y)
  next
    case False
    have "k \<noteq> l" using d(2) i [OF False] lk(1) [OF False] by auto
    then have "tab p' k = tab p k" using Cons.prems(6) by (simp add: y)
    moreover have "kids p' (s_next (tab p k)) (ks @ ms)"
      using Cons.IH [OF k(3) False d(4) lk(1) [OF False] Cons.prems(5) _ Cons.prems(7)] Cons.prems(6)
      by (auto simp: y)
    ultimately show ?thesis using ok k(1) by (simp add: y)
  qed
qed simp

lemma last_kid:
  assumes "kids p x ks" and "ks \<noteq> []"
  shows "held p (fst (last ks)) \<and> fst (last ks) \<noteq> 0 \<and> fst (last ks) \<in> set (kid_nodes ks)"
  using assms
proof (induction ks arbitrary: x)
  case (Cons y ks)
  obtain k js nm where y: "y = (k, js, nm)" by (cases y)
  show ?case
    using Cons.IH [of "s_next (tab p k)"] Cons.prems(1) kid_held [of p k js nm]
    by (cases "ks = []") (auto simp: y held_def)
qed simp

lemma lock_link: "(s :: sym)\<lparr>s_locks := n, s_next := c\<rparr> = s\<lparr>s_next := c, s_locks := n\<rparr>"
  by (cases s) simp

lemma add_node_steps:
  assumes "c \<noteq> 0" and "symbol_is_name (tab p c)" and "l = s_last (tab p ob)" and "l \<noteq> 0 \<Longrightarrow> held p l"
    and "l \<noteq> c" and "ob \<noteq> l" and "ob \<noteq> c"
  shows "add_symbol_node ob c p = Some (upd ob (\<lambda>s. if l = 0 then s\<lparr>s_first := c, s_last := c\<rparr> else s\<lparr>s_last := c\<rparr>)
    (upd c (\<lambda>s. s\<lparr>s_refs := u16 (s_refs s + 1), s_prev := if l = 0 then s_prev s else l\<rparr>)
    (if l = 0 then p else upd l (\<lambda>s. s\<lparr>s_next := c\<rparr>) p)))"
proof -
  let ?p1 = "upd c (\<lambda>s. s\<lparr>s_refs := u16 (s_refs s + 1)\<rparr>) p"
  have nm: "symbol_is_name (tab ?p1 c)" using assms(2) by (simp add: sym_kinds)
  show ?thesis
  proof (cases "l = 0")
    case True
    then show ?thesis
      using assms nm by (simp add: add_symbol_node_def INC_SYMBL_REF_def Let_def)
  next
    case False
    have h: "held ?p1 l" using assms(4) [OF False] assms(5) by (simp add: held_def)
    have "upd l (\<lambda>s. s\<lparr>s_next := c\<rparr>) (locked l ?p1) = locked l (upd l (\<lambda>s. s\<lparr>s_next := c\<rparr>) ?p1)"
      by (simp add: locked_def lock_link)
    moreover have "held (upd l (\<lambda>s. s\<lparr>s_next := c\<rparr>) ?p1) l" using h by (simp add: held_def)
    ultimately have u: "symbol_unlock l (upd l (\<lambda>s. s\<lparr>s_next := c\<rparr>) (locked l ?p1)) =
      Some (upd l (\<lambda>s. s\<lparr>s_next := c\<rparr>) ?p1)" by (simp add: unlock_locked)
    have "add_symbol_node ob c p = Some (upd ob (\<lambda>s. s\<lparr>s_last := c\<rparr>)
      (upd c (\<lambda>s. s\<lparr>s_prev := l\<rparr>) (upd l (\<lambda>s. s\<lparr>s_next := c\<rparr>) ?p1)))"
      using assms False nm u lock_held [OF h] by (simp add: add_symbol_node_def INC_SYMBL_REF_def Let_def)
    moreover have "upd c (\<lambda>s. s\<lparr>s_prev := l\<rparr>) (upd l (\<lambda>s. s\<lparr>s_next := c\<rparr>) ?p1) =
      upd c (\<lambda>s. s\<lparr>s_refs := u16 (s_refs s + 1), s_prev := l\<rparr>) (upd l (\<lambda>s. s\<lparr>s_next := c\<rparr>) p)"
      using assms(5) by (simp add: upd_def fun_upd_twist)
    ultimately show ?thesis using False by simp
  qed
qed

lemma add_node_appends:
  assumes "object_at p ob ks" and "str_chain p c js nm" and "0 \<notin> set nm" and "symbol_is_name (tab p c)"
    and "s_refs (tab p c) < 65535" and "s_locks (tab p c) < 254" and "s_next (tab p c) = 0"
    and "set (c # js) \<inter> set (ob # kid_nodes ks) = {}"
  shows "\<exists>p'. add_symbol_node ob c p = Some p' \<and> object_at p' ob (ks @ [(c, js, nm)]) \<and>
    s_refs (tab p' c) = s_refs (tab p c) + 1 \<and> s_locks (tab p' c) = s_locks (tab p c) \<and>
    s_first (tab p' c) = s_first (tab p c) \<and> s_locks (tab p' ob) = s_locks (tab p ob) \<and>
    s_refs (tab p' ob) = s_refs (tab p ob) \<and> sym_free p' = sym_free p \<and>
    (\<forall>k. k \<notin> set (c # ob # kid_nodes ks) \<longrightarrow> tab p' k = tab p k)"
proof -
  let ?l = "s_last (tab p ob)"
  have ob: "kids p (s_first (tab p ob)) ks" "distinct (ob # kid_nodes ks)" "ob \<noteq> 0"
    "?l = (if ks = [] then 0 else fst (last ks))" using assms(1) by (auto simp: object_at_def)
  have c: "c \<noteq> 0" "c \<noteq> ob" "c \<notin> set (kid_nodes ks)" "c \<notin> set js" "ob \<notin> set js"
    "set js \<inter> set (kid_nodes ks) = {}" "distinct js"
    using assms(2,8) by (auto simp: str_chain_def)
  have l: "?l \<noteq> 0 \<Longrightarrow> held p ?l" "?l \<noteq> 0 \<Longrightarrow> ?l \<in> set (kid_nodes ks)" "ks \<noteq> [] \<Longrightarrow> ?l \<noteq> 0"
    using last_kid [OF ob(1)] ob(4) by auto
  have n: "?l \<noteq> c" "ob \<noteq> ?l" "?l \<notin> set js" if "?l \<noteq> 0" using l(2) [OF that] c ob(2) by auto
  have n0: "?l \<noteq> c" "ob \<noteq> ?l" using n c ob(3) by (metis)+
  note steps = add_node_steps [OF c(1) assms(4) refl l(1) n0(1) n0(2) c(2) [symmetric]]
  define p' where "p' = upd ob (\<lambda>s. if ?l = 0 then s\<lparr>s_first := c, s_last := c\<rparr> else s\<lparr>s_last := c\<rparr>)
    (upd c (\<lambda>s. s\<lparr>s_refs := u16 (s_refs s + 1), s_prev := if ?l = 0 then s_prev s else ?l\<rparr>)
    (if ?l = 0 then p else upd ?l (\<lambda>s. s\<lparr>s_next := c\<rparr>) p))"
  have tc: "tab p' c = (tab p c)\<lparr>s_refs := s_refs (tab p c) + 1, s_prev := if ?l = 0 then s_prev (tab p c) else ?l\<rparr>"
    using c(2) n0 assms(5) by (simp add: p'_def)
  have tob: "tab p' ob = (if ?l = 0 then (tab p ob)\<lparr>s_first := c, s_last := c\<rparr> else (tab p ob)\<lparr>s_last := c\<rparr>)"
    using c(2) n0 by (simp add: p'_def)
  have tl: "tab p' ?l = (tab p ?l)\<lparr>s_next := c\<rparr>" if "?l \<noteq> 0"
    using that c(2) n0 by (simp add: p'_def)
  have tk: "tab p' k = tab p k" if "k \<noteq> ob" "k \<noteq> c" "k \<noteq> ?l \<or> ?l = 0" for k
    using that by (auto simp: p'_def)
  have kc: "kid_ok p' c js nm"
  proof -
    have "\<forall>j\<in>set js. tab p' j = tab p j" using c n(3) by (auto intro!: tk)
    then have "str_chain p' c js nm" by (intro str_chain_frame [OF assms(2)]) (simp_all add: tc same_str_def)
    then show ?thesis using assms(3,6) by (simp add: kid_ok_def tc)
  qed
  have ms: "kids p' c [(c, js, nm)]" using kc assms(7) by (simp add: tc)
  have ks: "kids p' (s_first (tab p' ob)) (ks @ [(c, js, nm)])"
  proof (cases "ks = []")
    case True
    then show ?thesis using ms ob(4) tob by simp
  next
    case False
    have "\<forall>k\<in>set (kid_nodes ks). k \<noteq> ?l \<longrightarrow> tab p' k = tab p k" using ob(2) c(3) by (auto intro!: tk)
    then show ?thesis
      using kids_append [OF ob(1) False _ _ tl _ ms] ob(2,4) l(3) [OF False] False tob by simp
  qed
  have o': "object_at p' ob (ks @ [(c, js, nm)])"
    using ks tob ob(2,3) c by (auto simp: object_at_def)
  have run: "add_symbol_node ob c p = Some p'" unfolding p'_def by (rule steps)
  have f: "sym_free p' = sym_free p" by (simp add: p'_def)
  have fr: "\<forall>k. k \<notin> set (c # ob # kid_nodes ks) \<longrightarrow> tab p' k = tab p k" using l(2) by (auto intro!: tk)
  show ?thesis
    by (rule exI [of _ p']) (use run o' tc tob f fr in simp)
qed

section \<open>Creating a name\<close>

text \<open>The new string is marked as a name, with no value yet.\<close>

lemma named_str:
  assumes "str_chain p i js cs" and "fresh_str (tab p i)"
    and q: "q = upd i (\<lambda>s. s\<lparr>s_flags := BE_SYM_STRING OR BE_SYM_NAME\<rparr>) p"
  shows "new_named_symbol i 0 p = Some (i, q)"
    and "str_chain q i js cs" and "symbol_is_name (tab q i)"
proof -
  have s: "i \<noteq> 0" "s_refs (tab p i) = 0" "s_flags (tab p i) = 2" "i \<notin> set js"
    using assms by (auto simp: fresh_str_def str_chain_def)
  then show "new_named_symbol i 0 p = Some (i, q)" by (simp add: new_named_symbol_def Let_def upd_def q)
  have k: "tab q k = tab p k" if "k \<in> set js" for k using that s(4) by (auto simp: q)
  have i: "tab q i = (tab p i)\<lparr>s_flags := 18\<rparr>" by (simp add: q)
  have c: "length (s_data (tab p i)) = 8" "blocks_at (tab p) 8 i js cs" "\<forall>j\<in>set js. ext_ok (tab p) j"
    "distinct (i # js)" using assms(1) by (simp_all add: str_chain_def)
  have "blocks_at (tab q) 8 i js cs"
    by (rule blocks_frame8 [OF c(1) _ _ _ c(2)]) (simp_all add: i k)
  moreover have "\<forall>j\<in>set js. ext_ok (tab q) j" using c(3) k by (simp add: ext_ok_def)
  ultimately show "str_chain q i js cs" using c s(1) by (simp add: str_chain_def i sym_kinds)
  show "symbol_is_name (tab q i)" by (simp add: sym_kinds q)
qed

lemma lookup_named_creates:
  assumes "object_at p ob ks" and "held p ob" and "0 \<notin> set name" and "find_kid name ks = None"
    and "free_list p (i # fs)" and "length name \<le> 8 + 14 * length fs"
    and "set (ob # kid_nodes ks) \<inter> set (i # fs) = {}"
  shows "\<exists>js fs' p'. fs = js @ fs' \<and> lookup_named_child_symbol ob name True p = Some (i, p') \<and>
    object_at p' ob (ks @ [(i, js, name)]) \<and> free_list p' fs' \<and> held p' ob \<and>
    s_refs (tab p' i) = 1 \<and> s_locks (tab p' i) = 1 \<and> s_first (tab p' i) = 0"
proof -
  have o: "kids p (s_first (tab p ob)) ks" "ob \<notin> set (kid_nodes ks)" "ob \<noteq> 0"
    using assms(1) by (auto simp: object_at_def)
  let ?p1 = "locked ob p"
  have "kids ?p1 (s_first (tab p ob)) ks" using o by (subst kids_frame [of _ _ p]) (auto simp: locked_def)
  from lookup_loop_finds [OF this assms(3)]
  have miss: "lookup_loop (s_first (tab p ob)) name ?p1 = Some (0, ?p1)" using assms(4) by simp
  have d: "ob \<noteq> i" "ob \<notin> set fs" "i \<notin> set (kid_nodes ks)" "set fs \<inter> set (kid_nodes ks) = {}" "distinct (i # fs)"
    using assms(5,7) by (auto simp: free_list_def)
  have fl: "free_list ?p1 (i # fs)" using assms(5) d by (simp add: locked_def free_list_upd)
  obtain js fs' p3 where n: "fs = js @ fs'" "new_str_symbol name ?p1 = Some (i, p3)" "str_chain p3 i js name"
    "fresh_str (tab p3 i)" "free_list p3 fs'" "\<forall>k. k \<noteq> i \<and> k \<notin> set js \<longrightarrow> tab p3 k = tab ?p1 k"
    using new_str_chain [OF fl assms(6)] by blast
  define p4 where "p4 = upd i (\<lambda>s. s\<lparr>s_flags := BE_SYM_STRING OR BE_SYM_NAME\<rparr>) p3"
  note nm = named_str [OF n(3,4) p4_def]
  have ti: "tab p4 i = (tab p3 i)\<lparr>s_flags := 18\<rparr>" by (simp add: p4_def)
  have tk: "tab p4 k = tab ?p1 k" if "k \<noteq> i" "k \<notin> set js" for k using that n(6) by (simp add: p4_def)
  have kk: "tab p4 k = tab p k" if "k \<in> set (kid_nodes ks)" for k
  proof -
    have "k \<noteq> i" "k \<notin> set js" "k \<noteq> ob" using that d n(1) o(2) by auto
    then show ?thesis using tk [of k] by (simp add: locked_def)
  qed
  have tob: "tab p4 ob = tab ?p1 ob" using d n(1) by (intro tk) auto
  have o4: "object_at p4 ob ks" using object_frame [OF assms(1), of p4] kk tob by simp
  have fr: "s_refs (tab p4 i) = 0" "s_locks (tab p4 i) = 1" "s_next (tab p4 i) = 0" "s_first (tab p4 i) = 0"
    using n(4) unfolding ti by (simp_all add: fresh_str_def)
  have dj: "set (i # js) \<inter> set (ob # kid_nodes ks) = {}" using d n(1) by auto
  obtain p5 where a: "add_symbol_node ob i p4 = Some p5" "object_at p5 ob (ks @ [(i, js, name)])"
    "s_refs (tab p5 i) = s_refs (tab p4 i) + 1" "s_locks (tab p5 i) = s_locks (tab p4 i)"
    "s_first (tab p5 i) = s_first (tab p4 i)" "s_locks (tab p5 ob) = s_locks (tab p4 ob)"
    "s_refs (tab p5 ob) = s_refs (tab p4 ob)" "sym_free p5 = sym_free p4"
    "\<forall>k. k \<notin> set (i # ob # kid_nodes ks) \<longrightarrow> tab p5 k = tab p4 k"
    using add_node_appends [OF o4 nm(2) assms(3) nm(3) _ _ fr(3) dj] fr by auto
  define p6 where "p6 = upd ob (\<lambda>s. s\<lparr>s_locks := s_locks s - 1\<rparr>) p5"
  have lo: "s_locks (tab p5 ob) = s_locks (tab p ob) + 1" "s_refs (tab p5 ob) = s_refs (tab p ob)"
    using a(6,7) tob by (simp_all add: locked_def)
  have u: "symbol_unlock ob p5 = Some p6"
    unfolding p6_def using lo assms(2) o(3) by (intro unlock_keep) (auto simp: held_def)
  have o6: "object_at p6 ob (ks @ [(i, js, name)])"
    using a(2) by (intro object_frame [OF a(2)]) (auto simp: p6_def object_at_def)
  have "free_list p4 fs'" using n(1,5) d by (simp add: p4_def free_list_upd)
  moreover have "free_from (tab p6) k fs' = free_from (tab p4) k fs'" for k
    using a(9) d n(1) by (intro free_from_frame) (auto simp: p6_def)
  ultimately have fl6: "free_list p6 fs'" using a(8) by (simp add: free_list_def p6_def)
  have h6: "held p6 ob" using lo assms(2) by (auto simp: p6_def held_def)
  have "i \<noteq> 0" using n(3) by (simp add: str_chain_def)
  then have "lookup_named_child_symbol ob name True p = Some (i, p6)"
    using lock_held [OF assms(2)] miss n(2) nm(1) a(1) u by (simp add: lookup_named_child_symbol_def)
  then show ?thesis
    using n(1) o6 fl6 h6 a(3-5) fr d(1)
    by (intro exI [of _ js] exI [of _ fs'] exI [of _ p6]) (simp add: p6_def)
qed

end
