(* ===== verification/Func_Code.thy ===== *)
theory Func_Code
  imports Sym_Str Lexer_Trip
begin

text \<open>
  The text of a function in be_symbol.c: \<open>new_func_code_symbol\<close> copies the source of a
  function into a string symbol and drops comments and repeated blanks on the way. The
  theory shows that the text keeps its tokens, for comments without two stars in a row.
\<close>

section \<open>The code\<close>

definition is_space :: "byte \<Rightarrow> bool" where
  "is_space c \<longleftrightarrow> c = 32 \<or> c = 9"

text \<open>The character for the output, the next state, and the flag for the character before.\<close>

definition change_state :: "byte \<Rightarrow> nat \<Rightarrow> byte \<times> nat \<times> bool" where
  "change_state c state =
     (if state = 0 \<or> state = 9 then
        (if c = 47 then (0, 1, False)
         else if c = 34 then (c, 5, False)
         else if c = 39 then (c, 6, False)
         else if is_space c then (if state = 0 then (c, 9, False) else (0, state, False))
         else (c, 0, False))
      else if state = 1 then
        (if c = 47 then (0, 2, False) else if c = 42 then (0, 3, False) else (c, 0, True))
      else if state = 2 then (if c = 10 then (c, 0, False) else (0, 2, False))
      else if state = 3 then (if c = 42 then (0, 4, False) else (0, 3, False))
      else if state = 4 then (if c = 47 then (0, 0, False) else (0, 3, False))
      else if state = 5 then (c, if c = 34 then 0 else if c = 92 then 7 else 5, False)
      else if state = 6 then (c, if c = 39 then 0 else if c = 92 then 8 else 6, False)
      else if state = 7 then (c, 5, False)
      else if state = 8 then (c, 6, False)
      else (0, state, False))"

text \<open>The loop over the text, with the state and the character before.\<close>

fun strip_loop :: "byte list \<Rightarrow> nat \<Rightarrow> byte \<Rightarrow> byte list" where
  "strip_loop [] state pc = []"
| "strip_loop (c # cs) state pc =
     (case change_state c state of (chout, state', with_last) \<Rightarrow>
        (if chout \<noteq> 0 then (if with_last then [pc, chout] else [chout]) else []) @ strip_loop cs state' c)"

text \<open>
  The text from \<open>charFrom\<close> to \<open>charTo\<close>, which have to be positions of the source. The
  allocation of the buffer is not checked in the code and assumed to succeed.
\<close>

definition new_func_code_symbol :: "byte list \<Rightarrow> nat \<Rightarrow> nat \<Rightarrow> sympool \<Rightarrow> (nat \<times> sympool) option" where
  "new_func_code_symbol src charFrom charTo p =
     (if charFrom \<le> charTo \<and> charTo \<le> length src
      then new_str_symbol (strip_loop (take (charTo - charFrom) (drop charFrom src)) 0 0) p
      else None)"

section \<open>The loop over parts of the text\<close>

definition end_state :: "byte list \<Rightarrow> nat \<Rightarrow> nat" where
  "end_state cs st = foldl (\<lambda>st c. fst (snd (change_state c st))) st cs"

lemma end_state_simps [simp]:
  "end_state [] st = st" "end_state (c # cs) st = end_state cs (fst (snd (change_state c st)))"
  "end_state (a @ b) st = end_state b (end_state a st)"
  by (simp_all add: end_state_def)

text \<open>What a part adds to the output is told apart from what follows.\<close>

lemma strip_append: "strip_loop (a @ b) st c = strip_loop a st c @ strip_loop b (end_state a st) (last (c # a))"
  by (induction a arbitrary: st c) (auto split: prod.split)

text \<open>The buffer of the length of the text and one is not overrun.\<close>

lemma change_state_counts:
  assumes "change_state c st = (out, st', l)"
  shows "(l \<longrightarrow> st = 1) \<and> (st' = 1 \<longrightarrow> out = 0 \<and> st \<noteq> 1)"
  using assms unfolding change_state_def by (simp split: if_split_asm) auto

lemma strip_length: "length (strip_loop cs st c) \<le> length cs + (if st = 1 then 1 else 0)"
proof (induction cs arbitrary: st c)
  case (Cons x cs)
  obtain out st' l where s: "change_state x st = (out, st', l)" by (cases "change_state x st")
  then show ?case
    using change_state_counts [OF s] Cons.IH [of st' x] by (cases "st' = 1"; cases l; cases "out = 0") auto
qed simp

definition outside :: "nat \<Rightarrow> bool" where
  "outside st \<longleftrightarrow> st = 0 \<or> st = 9"

section \<open>Lexemes\<close>

definition code_char :: "byte \<Rightarrow> bool" where
  "code_char c \<longleftrightarrow> c \<noteq> 0 \<and> c \<noteq> 34 \<and> c \<noteq> 39 \<and> c \<noteq> 47 \<and> \<not> is_space c"

lemma strip_plain:
  "list_all code_char w \<Longrightarrow> outside st \<Longrightarrow> w \<noteq> [] \<Longrightarrow> strip_loop w st c = w \<and> end_state w st = 0"
proof (induction w arbitrary: st c)
  case (Cons x w)
  have x: "change_state x st = (x, 0, False)" "x \<noteq> 0"
    using Cons.prems by (auto simp: code_char_def outside_def change_state_def)
  then show ?case using Cons by (cases "w = []") (auto simp: outside_def)
qed simp

lemma strip_quoted:
  "0 \<notin> set w \<Longrightarrow> strip_loop (concat (map dquote w)) 5 c = concat (map dquote w) \<and>
    end_state (concat (map dquote w)) 5 = 5"
proof (induction w arbitrary: c)
  case (Cons x w)
  have "strip_loop (dquote x) 5 c = dquote x \<and> end_state (dquote x) 5 = 5"
    using Cons.prems by (auto simp: dquote_def change_state_def)
  then show ?case using Cons by (simp add: strip_append)
qed simp

lemma strip_blank_after:
  assumes "strip_loop w st c = w \<and> end_state w st = 0"
  shows "strip_loop (w @ [32]) st c = w @ [32] \<and> outside (end_state (w @ [32]) st)"
  using assms by (auto simp: strip_append change_state_def is_space_def outside_def)

lemma alnum_code_char: "ref_alpha c \<or> ref_numeric c \<Longrightarrow> code_char c"
  by (auto simp: code_char_def is_space_def ref_alpha_def ref_numeric_def)

lemma op_plain:
  assumes "(t, w) \<in> set op_table" and "t \<noteq> BE_TOKEN_OP_DIV_EQUAL"
  shows "list_all code_char (str w) \<and> str w \<noteq> []"
  using assms unfolding op_table_def by (auto simp: code_char_def is_space_def)

text \<open>A lexeme with the blank after it is copied as it is.\<close>

lemma strip_lexeme:
  assumes "lexeme_ok x" and "outside st"
  shows "strip_loop (lexeme_text x @ [32]) st c = lexeme_text x @ [32] \<and>
    outside (end_state (lexeme_text x @ [32]) st)"
proof (cases x)
  case (LWord w)
  then have "list_all code_char w" "w \<noteq> []" using assms(1) alnum_code_char by (auto simp: list_all_iff)
  then show ?thesis using strip_plain assms(2) LWord by (intro strip_blank_after) auto
next
  case (LInt w)
  then have "list_all code_char w" "w \<noteq> []" using assms(1) alnum_code_char by (auto simp: list_all_iff)
  then show ?thesis using strip_plain assms(2) LInt by (intro strip_blank_after) auto
next
  case (LStr w)
  have o: "change_state 34 st = (34, 5, False)" using assms(2) by (auto simp: change_state_def outside_def)
  show ?thesis
    using LStr assms(1) strip_quoted [of w 34] by (intro strip_blank_after)
      (simp add: o strip_append, simp add: change_state_def)
next
  case (LOp t)
  show ?thesis
  proof (cases "t = TK 47 \<or> t = BE_TOKEN_OP_DIV_EQUAL")
    case True
    then show ?thesis
      using assms(2) LOp by (auto simp: op_text_def op_table_def change_state_def outside_def is_space_def)
  next
    case False
    have "list_all code_char (op_text t) \<and> op_text t \<noteq> []"
    proof (cases "\<exists>d. t = TK d")
      case True
      then show ?thesis
        using assms(1) False LOp by (auto simp: op_text_def code_char_def punct_def is_space_def)
    next
      case nt: False
      then have "t \<in> fst ` set op_table" using assms(1) LOp by (auto split: tok.splits)
      then obtain w where w: "map_of op_table t = Some w" using map_of_eq_None_iff [of op_table t] by auto
      have "op_text t = str w" using nt w by (auto simp: op_text_def split: tok.splits)
      then show ?thesis using op_plain [OF map_of_SomeD [OF w]] False by simp
    qed
    then show ?thesis using strip_plain assms(2) LOp by (intro strip_blank_after) auto
  qed
qed

section \<open>Gaps\<close>

text \<open>A comment whose stars are not followed by another star.\<close>

fun two_stars :: "byte list \<Rightarrow> bool" where
  "two_stars (a # b # u) = (a = 42 \<and> b = 42 \<or> two_stars (b # u))"
| "two_stars u = False"

fun gap_plain :: "gap \<Rightarrow> bool" where
  "gap_plain (Block_comment u) = (\<not> two_stars (u @ [42]))"
| "gap_plain g = True"

lemma strip_block:
  assumes "\<not> two_stars (x # u @ [42])" and "\<not> closes (x # u @ [42])"
  shows "strip_loop u (if x = 42 then 4 else 3) c = [] \<and> end_state u (if x = 42 then 4 else 3) = 3"
  using assms
proof (induction u arbitrary: x c)
  case (Cons y u)
  have "change_state y (if x = 42 then 4 else 3) = (0, if y = 42 then 4 else 3, False)"
    using Cons.prems by (auto simp: change_state_def)
  moreover have "strip_loop u (if y = 42 then 4 else 3) y = [] \<and> end_state u (if y = 42 then 4 else 3) = 3"
    using Cons.prems by (intro Cons.IH) auto
  ultimately show ?case by simp
qed (auto split: if_splits)

lemma strip_line: "10 \<notin> set u \<Longrightarrow> strip_loop u 2 c = [] \<and> end_state u 2 = 2"
proof (induction u arbitrary: c)
  case (Cons x u)
  then have "change_state x 2 = (0, 2, False)" by (auto simp: change_state_def)
  then show ?case using Cons by simp
qed simp

lemma strip_gap:
  assumes "gap_ok g" and "gap_plain g" and "outside st"
  shows "\<exists>hs. list_all gap_ok hs \<and> strip_loop (gap_text g) st c = concat (map gap_text hs) \<and>
    outside (end_state (gap_text g) st)"
proof (cases g)
  case (Space d)
  have d: "d \<noteq> 0" "d \<noteq> 34" "d \<noteq> 39" "d \<noteq> 47" using assms(1) Space by (auto simp: ref_whitespace_def)
  show ?thesis
  proof (cases "is_space d \<and> st = 9")
    case True
    then show ?thesis using Space d by (intro exI [of _ "[]"]) (auto simp: change_state_def outside_def)
  next
    case False
    then show ?thesis
      using Space d assms(1,3) by (intro exI [of _ "[Space d]"]) (auto simp: change_state_def outside_def)
  qed
next
  case (Line_comment u)
  have 1: "change_state 47 st = (0, 1, False)" "change_state 47 1 = (0, 2, False)" "change_state 10 2 = (10, 0, False)"
    using assms(3) by (auto simp: change_state_def outside_def)
  have n: "gap_ok (Space 10)" by (simp add: ref_whitespace_def)
  show ?thesis
    using Line_comment assms(1) strip_line [of u 47] 1 n
    by (intro exI [of _ "[Space 10]"]) (simp add: strip_append outside_def del: gap_ok.simps(1))
next
  case (Block_comment u)
  have 1: "change_state 47 st = (0, 1, False)" "change_state 42 1 = (0, 3, False)"
    "change_state 42 3 = (0, 4, False)" "change_state 47 4 = (0, 0, False)"
    using assms(3) by (auto simp: change_state_def outside_def)
  have "strip_loop u 3 42 = [] \<and> end_state u 3 = 3"
  proof (cases u)
    case (Cons y v)
    have y: "\<not> two_stars (y # v @ [42])" "\<not> closes (y # v @ [42])"
      using assms(1,2) Block_comment Cons by auto
    have "change_state y 3 = (0, if y = 42 then 4 else 3, False)" by (simp add: change_state_def)
    then show ?thesis using strip_block [OF y, of y] Cons by simp
  qed simp
  then show ?thesis
    using Block_comment 1 by (intro exI [of _ "[]"]) (simp add: strip_append outside_def)
qed

lemma strip_gaps:
  assumes "list_all gap_ok gs" and "list_all gap_plain gs" and "outside st"
  shows "\<exists>hs. list_all gap_ok hs \<and> strip_loop (concat (map gap_text gs)) st c = concat (map gap_text hs) \<and>
    outside (end_state (concat (map gap_text gs)) st)"
  using assms
proof (induction gs arbitrary: st c)
  case (Cons g gs)
  obtain hs where hs: "list_all gap_ok hs" "strip_loop (gap_text g) st c = concat (map gap_text hs)"
    "outside (end_state (gap_text g) st)"
    using strip_gap [of g st c] Cons.prems by auto
  obtain ms where ms: "list_all gap_ok ms"
    "strip_loop (concat (map gap_text gs)) (end_state (gap_text g) st) (last (c # gap_text g)) = concat (map gap_text ms)"
    "outside (end_state (concat (map gap_text gs)) (end_state (gap_text g) st))"
    using Cons.IH [OF _ _ hs(3)] Cons.prems by auto
  show ?case
    using hs ms by (intro exI [of _ "hs @ ms"]) (simp add: strip_append)
qed (auto intro: exI [of _ "[]"])

section \<open>Whole texts\<close>

definition source_plain :: "(gap list \<times> lexeme) list \<Rightarrow> bool" where
  "source_plain xs \<longleftrightarrow> list_all (\<lambda>(gs, x). list_all gap_plain gs) xs"

lemma strip_source:
  assumes "source_ok xs" and "source_plain xs" and "outside st"
  shows "\<exists>ys. source_ok ys \<and> map snd ys = map snd xs \<and> strip_loop (source_text xs) st c = source_text ys"
  using assms
proof (induction xs arbitrary: st c)
  case (Cons gx xs)
  obtain gs x where gx: "gx = (gs, x)" by (cases gx)
  have ok: "list_all gap_ok gs" "list_all gap_plain gs" "lexeme_ok x" "source_ok xs" "source_plain xs"
    using Cons.prems by (auto simp: gx source_ok_def source_plain_def)
  let ?g = "concat (map gap_text gs)" and ?x = "lexeme_text x @ [32]"
  obtain hs where hs: "list_all gap_ok hs" "strip_loop ?g st c = concat (map gap_text hs)" "outside (end_state ?g st)"
    using strip_gaps [OF ok(1,2) Cons.prems(3)] by blast
  note x = strip_lexeme [OF ok(3) hs(3), of "last (c # ?g)"]
  obtain ys where ys: "source_ok ys" "map snd ys = map snd xs"
    "strip_loop (source_text xs) (end_state ?x (end_state ?g st)) (last (last (c # ?g) # ?x)) = source_text ys"
    using Cons.IH [OF ok(4,5)] x by blast
  have s: "source_text (gx # xs) = ?g @ ?x @ source_text xs" by (simp add: gx)
  have "strip_loop (source_text (gx # xs)) st c = source_text ((hs, x) # ys)"
    unfolding s strip_append [of ?g] strip_append [of ?x] using hs(2) x ys(3) by simp
  then show ?case
    using hs(1) ok(3) ys(1,2) by (intro exI [of _ "(hs, x) # ys"]) (simp add: gx source_ok_def)
qed (simp add: source_ok_def)

text \<open>The tokens of a text: those that \<open>be_jse_lexer_init\<close> and \<open>next_token\<close> read up to the end.\<close>

definition reads_tokens :: "(byte \<Rightarrow> byte) \<Rightarrow> lexer \<Rightarrow> byte list \<Rightarrow> nat \<Rightarrow> (tok \<times> byte list) list \<Rightarrow> bool" where
  "reads_tokens oob l s n ts \<longleftrightarrow>
     (case be_jse_lexer_init oob l (Some s) 0 (-1) of None \<Rightarrow> False
      | Some l' \<Rightarrow> token_list oob n l' = Some ts)"

lemma source_reads:
  "source_ok xs \<Longrightarrow> reads_tokens oob l (source_text xs) (length xs) (map (\<lambda>x. (lexeme_tok x, lexeme_bytes x)) (map snd xs))"
  using lexer_reads_source_lemma [of xs oob l] by (auto simp: reads_tokens_def split_def comp_def)

lemma func_code_tokens:
  assumes "source_ok xs" and "source_plain xs" and "free_list p (i # fs)"
    and "length (source_text xs) \<le> 8 + 14 * length fs"
  shows "\<exists>q js cs ts. new_func_code_symbol (pre @ source_text xs @ post) (length pre)
      (length pre + length (source_text xs)) p = Some (i, q) \<and> str_chain q i js cs \<and>
    reads_tokens oob l (source_text xs) (length xs) ts \<and> reads_tokens oob l cs (length xs) ts"
proof -
  obtain ys where ys: "source_ok ys" "map snd ys = map snd xs" "strip_loop (source_text xs) 0 0 = source_text ys"
    using strip_source [OF assms(1,2), of 0 0] by (auto simp: outside_def)
  have len: "length xs = length ys" using arg_cong [OF ys(2), of length] by simp
  have "length (source_text ys) \<le> 8 + 14 * length fs"
    using strip_length [of "source_text xs" 0 0] assms(4) ys(3) by simp
  then obtain js q where q: "new_str_symbol (source_text ys) p = Some (i, q)" "str_chain q i js (source_text ys)"
    using new_str_chain [OF assms(3)] by blast
  have "new_func_code_symbol (pre @ source_text xs @ post) (length pre) (length pre + length (source_text xs)) p = Some (i, q)"
    using q(1) ys(3) by (simp add: new_func_code_symbol_def)
  then show ?thesis
    using q(2) source_reads [OF assms(1), of oob l] source_reads [OF ys(1), of oob l] ys(2) len by metis
qed

text \<open>
  When an even number of stars precedes the closing slash, the end of the comment is
  missed and the rest of the text is dropped. And a comment between two words joins them.
\<close>

lemma strip_three_stars:
  assumes "42 \<notin> set r"
  shows "strip_loop (str ''/***/'' @ r) 0 0 = []"
proof -
  have "strip_loop r 3 c = []" for c using assms by (induction r arbitrary: c) (auto simp: change_state_def)
  then show ?thesis by (simp add: change_state_def)
qed

lemma strip_joins_words: "strip_loop (str ''return/**/x'') 0 0 = str ''returnx''"
  by (simp add: change_state_def is_space_def)

text \<open>A quote right after a division is not seen: the string loses what looks like a comment.\<close>

lemma strip_division_quote: "strip_loop (str ''a/'' @ [34] @ str ''//'' @ [34]) 0 0 = str ''a/'' @ [34]"
  by (simp add: change_state_def is_space_def)

end
