(* ===== verification/Sym_Demo.thy ===== *)
theory Sym_Demo
  imports Sym_Obj Func_Code
begin

text \<open>Concrete tables of symbols.\<close>

text \<open>Nodes 1 to 6 are free, node 9 is an object without names.\<close>

definition demo_pool :: sympool where
  "demo_pool = \<lparr>tab = (\<lambda>i. if i = 9 then zero_sym\<lparr>s_flags := BE_SYM_OBJECT, s_refs := 1\<rparr>
     else zero_sym\<lparr>s_refs := SYM_TABLE_UNUSED_REF, s_next := (if i < 6 then i + 1 else 0)\<rparr>),
     sym_size = 512, sym_free = 1, sym_usage = 1, sym_max_usage = 1\<rparr>"

lemma demo_free: "free_list demo_pool [1, 2, 3, 4, 5, 6]"
  by (simp add: demo_pool_def free_list_def)

lemma demo_object: "object_at demo_pool 9 []" "held demo_pool 9"
  by (simp_all add: demo_pool_def object_at_def held_def zero_sym_def)

text \<open>The strings of 22 letters a in the nodes 1, 2 and 3, 4, and an object with the first as name.\<close>

definition full_sym :: "32 word \<Rightarrow> nat \<Rightarrow> nat \<Rightarrow> sym" where
  "full_sym t b l = \<lparr>s_refs = 1, s_locks = 0, s_flags = t, s_data = replicate 8 97, s_next = b,
     s_prev = b, s_first = b, s_last = l\<rparr>"

definition long_pool :: sympool where
  "long_pool = demo_pool\<lparr>tab := (\<lambda>i. if i = 1 then full_sym BE_SYM_STRING 0 2 else if i = 3 then full_sym BE_SYM_STRING 0 4
     else if i = 5 then zero_sym\<lparr>s_flags := BE_SYM_OBJECT, s_refs := 1, s_first := 1, s_last := 1\<rparr>
     else full_sym BE_SYM_STRING_EXT 24929 0)\<rparr>"

lemma replicate_14: "replicate 14 x = replicate 8 x @ [x, x] @ [x, x] @ [x, x]"
  by (simp add: eval_nat_numeral)

lemma le16_letters: "le16 24929 = [97, 97]"
  by (simp add: le16_def)

lemma long_chars: "take 14 (sym_bytes (full_sym t 24929 l)) = replicate 14 97"
  "take 8 (sym_bytes (full_sym t b l)) = replicate 8 97"
  by (simp_all add: full_sym_def sym_bytes_def le16_letters replicate_14)

lemma long_chains: "str_chain long_pool 1 [2] (replicate 22 97)" "str_chain long_pool 3 [4] (replicate 22 97)"
  by (simp_all add: long_pool_def str_chain_def long_chars)
     (simp_all add: full_sym_def sym_kinds ext_ok_def)

lemma long_held: "held long_pool 1" "held long_pool 5"
  by (simp_all add: long_pool_def held_def full_sym_def zero_sym_def)

lemma long_object: "object_at long_pool 5 [(1, [2], replicate 22 97)]"
  using long_chains(1)
  by (simp add: object_at_def kid_ok_def) (simp add: long_pool_def full_sym_def)

end
