(* ===== verification/Mqtt_Packet.thy ===== *)
theory Mqtt_Packet
  imports Prelude "HOL-Library.Signed_Division"
begin

text \<open>
  The packet functions of linkkit/mqtt (MQTTPacket.c and the serializers and
  deserializers beside it). A buffer that is written is a list of bytes with a position
  (\<open>wbuf\<close>); a buffer that is read is a list of bytes, pointers into it are positions, and a
  pointer that is handed out is the list of the bytes from there on. None is an access
  outside of the buffer.
\<close>

section \<open>Types and constants\<close>

definition MQTTPACKET_BUFFER_TOO_SHORT :: int where "MQTTPACKET_BUFFER_TOO_SHORT = -2"
definition MQTTPACKET_READ_ERROR :: int where "MQTTPACKET_READ_ERROR = -1"

definition CONNECT :: byte where "CONNECT = 1"
definition CONNACK :: byte where "CONNACK = 2"
definition PUBLISH :: byte where "PUBLISH = 3"
definition PUBACK :: byte where "PUBACK = 4"
definition PUBREC :: byte where "PUBREC = 5"
definition PUBREL :: byte where "PUBREL = 6"
definition SUBSCRIBE :: byte where "SUBSCRIBE = 8"
definition SUBACK :: byte where "SUBACK = 9"
definition UNSUBSCRIBE :: byte where "UNSUBSCRIBE = 10"
definition UNSUBACK :: byte where "UNSUBACK = 11"
definition PINGREQ :: byte where "PINGREQ = 12"
definition PINGRESP :: byte where "PINGRESP = 13"
definition DISCONNECT :: byte where "DISCONNECT = 14"

lemmas mqtt_types = CONNECT_def CONNACK_def PUBLISH_def PUBACK_def PUBREC_def PUBREL_def SUBSCRIBE_def
  SUBACK_def UNSUBSCRIBE_def UNSUBACK_def PINGREQ_def PINGRESP_def DISCONNECT_def

definition MQTT_HEADER_GET_TYPE :: "byte \<Rightarrow> byte" where
  "MQTT_HEADER_GET_TYPE head = drop_bit 4 (head AND 0xF0)"

definition MQTT_HEADER_GET_DUP :: "byte \<Rightarrow> byte" where
  "MQTT_HEADER_GET_DUP head = drop_bit 3 (head AND 0x08)"

definition MQTT_HEADER_GET_QOS :: "byte \<Rightarrow> byte" where
  "MQTT_HEADER_GET_QOS head = drop_bit 1 (head AND 0x06)"

definition MQTT_HEADER_GET_RETAIN :: "byte \<Rightarrow> byte" where
  "MQTT_HEADER_GET_RETAIN head = head AND 0x01"

definition MQTT_HEADER_SET_TYPE :: "byte \<Rightarrow> byte \<Rightarrow> byte" where
  "MQTT_HEADER_SET_TYPE head t = head OR (push_bit 4 t AND 0xF0)"

definition MQTT_HEADER_SET_DUP :: "byte \<Rightarrow> byte \<Rightarrow> byte" where
  "MQTT_HEADER_SET_DUP head dup = head OR (push_bit 3 dup AND 0x08)"

definition MQTT_HEADER_SET_QOS :: "byte \<Rightarrow> int \<Rightarrow> byte" where
  "MQTT_HEADER_SET_QOS head qos = head OR word_of_int (push_bit 1 qos AND 0x06)"

definition MQTT_HEADER_SET_RETAIN :: "byte \<Rightarrow> byte \<Rightarrow> byte" where
  "MQTT_HEADER_SET_RETAIN head retain = head OR (retain AND 0x01)"

lemmas mqtt_header_defs = MQTT_HEADER_GET_TYPE_def MQTT_HEADER_GET_DUP_def MQTT_HEADER_GET_QOS_def
  MQTT_HEADER_GET_RETAIN_def MQTT_HEADER_SET_TYPE_def MQTT_HEADER_SET_DUP_def MQTT_HEADER_SET_QOS_def
  MQTT_HEADER_SET_RETAIN_def

text \<open>The data of a C string is without its terminating zero; a null pointer is None.\<close>

record MQTTString =
  cstring :: "byte list option"
  ls_len :: int
  ls_data :: "byte list option"

definition MQTTString_initializer :: MQTTString where
  "MQTTString_initializer = \<lparr>cstring = None, ls_len = 0, ls_data = None\<rparr>"

section \<open>Writing\<close>

type_synonym wbuf = "byte list \<times> nat"

definition writeChar :: "byte \<Rightarrow> wbuf \<Rightarrow> wbuf option" where
  "writeChar c s = (if snd s < length (fst s) then Some ((fst s)[snd s := c], snd s + 1) else None)"

text \<open>A memcpy to the position, which is then moved behind the data.\<close>

definition write_bytes :: "byte list \<Rightarrow> wbuf \<Rightarrow> wbuf option" where
  "write_bytes xs s = (if snd s + length xs \<le> length (fst s)
     then Some (overwrite (snd s) xs (fst s), snd s + length xs) else None)"

definition writeInt :: "int \<Rightarrow> wbuf \<Rightarrow> wbuf option" where
  "writeInt anInt s = do {
     s1 \<leftarrow> writeChar (word_of_int (anInt sdiv 256)) s;
     writeChar (word_of_int (anInt smod 256)) s1
   }"

definition writeCString :: "byte list \<Rightarrow> wbuf \<Rightarrow> wbuf option" where
  "writeCString cs s = do {
     s1 \<leftarrow> writeInt (int (length cs)) s;
     write_bytes cs s1
   }"

definition writeMQTTString :: "MQTTString \<Rightarrow> wbuf \<Rightarrow> wbuf option" where
  "writeMQTTString ms s =
     (if ls_len ms > 0 then do {
        s1 \<leftarrow> writeInt (ls_len ms) s;
        d \<leftarrow> ls_data ms;
        if int (length d) < ls_len ms then None else write_bytes (take (nat (ls_len ms)) d) s1
      }
      else case cstring ms of
        Some cs \<Rightarrow> writeCString cs s
      | None \<Rightarrow> writeInt 0 s)"

definition MQTTstrlen :: "MQTTString \<Rightarrow> int" where
  "MQTTstrlen ms = (case cstring ms of Some cs \<Rightarrow> int (length cs) | None \<Rightarrow> ls_len ms)"

text \<open>The remaining length in groups of seven bits; the result is the position behind it.\<close>

function MQTTPacket_encode :: "int \<Rightarrow> wbuf \<Rightarrow> wbuf option" where
  "MQTTPacket_encode len s =
     (let d = word_of_int (len smod 128);
          len' = len sdiv 128
      in do {
        s' \<leftarrow> writeChar (if len' > 0 then d OR 0x80 else d) s;
        if len' > 0 then MQTTPacket_encode len' s' else Some s'
      })"
  by pat_completeness auto

termination
proof (relation "measure (\<lambda>(len, _). nat len)")
  show "((len', s'), (len, s)) \<in> measure (\<lambda>(len, _). nat len)"
    if "d = word_of_int (len smod 128)" "len' = len sdiv 128" "len' > 0"
    for len len' :: int and d :: byte and s s' :: wbuf
  proof -
    have "0 < len" using that by (auto simp: signed_divide_int_def sgn_if split: if_splits)
    then have "len sdiv 128 < len" by (simp add: signed_divide_int_def sgn_if)
    then show ?thesis using that \<open>0 < len\<close> by simp
  qed
qed simp

declare MQTTPacket_encode.simps [simp del]

definition MQTTPacket_len :: "int \<Rightarrow> int" where
  "MQTTPacket_len rem_len =
     (let r = rem_len + 1
      in if r < 128 then r + 1 else if r < 16384 then r + 2 else if r < 2097151 then r + 3 else r + 4)"

section \<open>Reading\<close>

definition readChar :: "byte list \<Rightarrow> nat \<Rightarrow> (byte \<times> nat) option" where
  "readChar m p = (if p < length m then Some (m ! p, p + 1) else None)"

definition readInt :: "byte list \<Rightarrow> nat \<Rightarrow> (int \<times> nat) option" where
  "readInt m p = (if p + 1 < length m
     then Some (256 * uint (m ! p) + uint (m ! (p + 1)), p + 2) else None)"

definition MAX_NO_OF_REMAINING_LENGTH_BYTES :: int where "MAX_NO_OF_REMAINING_LENGTH_BYTES = 4"

text \<open>\<open>getcharfn\<close> returns its result and the byte; the rest is a state of its own.\<close>

function decode_loop ::
  "('s \<Rightarrow> (int \<times> byte \<times> 's) option) \<Rightarrow> int \<Rightarrow> int \<Rightarrow> int \<Rightarrow> 's \<Rightarrow> (int \<times> int \<times> 's) option" where
  "decode_loop getcharfn multiplier len0 val s =
     (let len = len0 + 1
      in if len > MAX_NO_OF_REMAINING_LENGTH_BYTES then Some (len, val, s)
         else do {
           (rc, c, s') \<leftarrow> getcharfn s;
           if rc \<noteq> 1 then Some (len, val, s')
           else
             let val' = val + uint (c AND 127) * multiplier
             in if c AND 128 \<noteq> 0 then decode_loop getcharfn (multiplier * 128) len val' s'
                else Some (len, val', s')
         })"
  by pat_completeness auto

termination
  by (relation "measure (\<lambda>(_, _, len, _, _). nat (4 - len))")
    (auto simp: MAX_NO_OF_REMAINING_LENGTH_BYTES_def)

declare decode_loop.simps [simp del]

definition MQTTPacket_decode ::
  "('s \<Rightarrow> (int \<times> byte \<times> 's) option) \<Rightarrow> 's \<Rightarrow> (int \<times> int \<times> 's) option" where
  "MQTTPacket_decode getcharfn s = decode_loop getcharfn 1 0 0 s"

text \<open>The static \<open>bufptr\<close> is the state; every byte of the count goes to the same place.\<close>

fun bufchar :: "byte list \<Rightarrow> nat \<Rightarrow> byte \<Rightarrow> nat \<Rightarrow> (byte \<times> nat) option" where
  "bufchar m 0 c p = Some (c, p)"
| "bufchar m (Suc i) c p = do {
     (c', p') \<leftarrow> readChar m p;
     bufchar m i c' p'
   }"

definition bufchar_fn :: "byte list \<Rightarrow> nat \<Rightarrow> (int \<times> byte \<times> nat) option" where
  "bufchar_fn m p = do { (c, p') \<leftarrow> bufchar m 1 0 p; Some (1, c, p') }"

definition MQTTPacket_decodeBuf :: "byte list \<Rightarrow> nat \<Rightarrow> (int \<times> int) option" where
  "MQTTPacket_decodeBuf m p = do {
     (len, val, _) \<leftarrow> MQTTPacket_decode (bufchar_fn m) p;
     Some (len, val)
   }"

text \<open>The result is the code, the string and the position; \<open>enddata\<close> may lie before it.\<close>

definition readMQTTLenString ::
  "byte list \<Rightarrow> MQTTString \<Rightarrow> nat \<Rightarrow> int \<Rightarrow> (int \<times> MQTTString \<times> nat) option" where
  "readMQTTLenString m ms p enddata =
     (if enddata - int p > 1 then do {
        (n, p1) \<leftarrow> readInt m p;
        if int p1 + n \<le> enddata
        then Some (1, ms\<lparr>ls_len := n, ls_data := Some (drop p1 m), cstring := None\<rparr>, p1 + nat n)
        else Some (0, ms\<lparr>ls_len := n, cstring := None\<rparr>, p1)
      }
      else Some (0, ms\<lparr>cstring := None\<rparr>, p))"

text \<open>Without WITH_MQTT_ZIP_TOPIC; memcmp reads as many bytes as the first string has.\<close>

definition MQTTPacket_equals :: "MQTTString \<Rightarrow> byte list \<Rightarrow> bool option" where
  "MQTTPacket_equals a b =
     (case cstring a of
        Some cs \<Rightarrow> Some (cs = b)
      | None \<Rightarrow>
          if ls_len a \<noteq> int (length b) then Some False
          else do {
            d \<leftarrow> ls_data a;
            if length d < length b then None else Some (take (length b) d = b)
          })"

section \<open>Publish and acknowledge\<close>

definition MQTTSerialize_publishLength :: "int \<Rightarrow> MQTTString \<Rightarrow> int \<Rightarrow> int" where
  "MQTTSerialize_publishLength qos topicName payloadlen =
     2 + MQTTstrlen topicName + payloadlen + (if qos > 0 then 2 else 0)"

text \<open>The result is the return value and the buffer.\<close>

definition MQTTSerialize_publish ::
  "byte list \<Rightarrow> int \<Rightarrow> byte \<Rightarrow> int \<Rightarrow> byte \<Rightarrow> int \<Rightarrow> MQTTString \<Rightarrow> byte list \<Rightarrow> int \<Rightarrow> (int \<times> byte list) option"
  where
  "MQTTSerialize_publish buf buflen dup qos retained packetid topicName payload payloadlen =
     (let rem_len = MQTTSerialize_publishLength qos topicName payloadlen
      in if MQTTPacket_len rem_len > buflen then Some (MQTTPACKET_BUFFER_TOO_SHORT, buf)
         else
           let header = MQTT_HEADER_SET_RETAIN (MQTT_HEADER_SET_QOS
                 (MQTT_HEADER_SET_DUP (MQTT_HEADER_SET_TYPE 0 PUBLISH) dup) qos) retained
           in do {
             s1 \<leftarrow> writeChar header (buf, 0);
             s2 \<leftarrow> MQTTPacket_encode rem_len s1;
             s3 \<leftarrow> writeMQTTString topicName s2;
             s4 \<leftarrow> (if qos > 0 then writeInt packetid s3 else Some s3);
             (if payloadlen < 0 \<or> int (length payload) < payloadlen then None
              else do {
                (b, p) \<leftarrow> write_bytes (take (nat payloadlen) payload) s4;
                Some (int p, b)
              })
           })"

definition MQTTSerialize_ack ::
  "byte list \<Rightarrow> int \<Rightarrow> byte \<Rightarrow> byte \<Rightarrow> int \<Rightarrow> (int \<times> byte list) option" where
  "MQTTSerialize_ack buf buflen packettype dup packetid =
     (if buflen < 4 then Some (MQTTPACKET_BUFFER_TOO_SHORT, buf)
      else
        let header = MQTT_HEADER_SET_QOS (MQTT_HEADER_SET_DUP (MQTT_HEADER_SET_TYPE 0 packettype) dup)
              (if packettype = PUBREL then 1 else 0)
        in do {
          s1 \<leftarrow> writeChar header (buf, 0);
          s2 \<leftarrow> MQTTPacket_encode 2 s1;
          (b, p) \<leftarrow> writeInt packetid s2;
          Some (int p, b)
        })"

text \<open>What the caller gets through the pointers; a field that is not written keeps its value.\<close>

record publish_out =
  po_dup :: byte
  po_qos :: int
  po_retained :: byte
  po_packetid :: int
  po_topic :: MQTTString
  po_payload :: "byte list option"
  po_payloadlen :: int

definition MQTTDeserialize_publish :: "publish_out \<Rightarrow> byte list \<Rightarrow> (int \<times> publish_out) option" where
  "MQTTDeserialize_publish out buf = do {
     (header, p) \<leftarrow> readChar buf 0;
     (if MQTT_HEADER_GET_TYPE header \<noteq> PUBLISH then Some (0, out)
      else
        let out1 = out\<lparr>po_dup := MQTT_HEADER_GET_DUP header, po_qos := uint (MQTT_HEADER_GET_QOS header),
              po_retained := MQTT_HEADER_GET_RETAIN header\<rparr>
        in do {
          (rc, mylen) \<leftarrow> MQTTPacket_decodeBuf buf p;
          let p1 = p + nat rc;
          let enddata = int p1 + mylen;
          (ok, topic, p2) \<leftarrow> readMQTTLenString buf (po_topic out1) p1 enddata;
          let out2 = out1\<lparr>po_topic := topic\<rparr>;
          (if ok = 0 \<or> enddata - int p2 < 0 then Some (rc, out2)
           else do {
             (pid, p3) \<leftarrow> (if po_qos out2 > 0 then readInt buf p2 else Some (po_packetid out2, p2));
             Some (1, out2\<lparr>po_packetid := pid, po_payloadlen := enddata - int p3,
               po_payload := Some (drop p3 buf)\<rparr>)
           })
        })
   }"

text \<open>The result: the return value, type, dup flag and, when it was read, the identifier.\<close>

definition MQTTDeserialize_ack :: "byte list \<Rightarrow> (int \<times> byte \<times> byte \<times> int option) option" where
  "MQTTDeserialize_ack buf = do {
     (header, p) \<leftarrow> readChar buf 0;
     (rc, mylen) \<leftarrow> MQTTPacket_decodeBuf buf p;
     let t = MQTT_HEADER_GET_TYPE header;
     let dup = MQTT_HEADER_GET_DUP header;
     let p1 = p + nat rc;
     (if mylen < 2 then Some (rc, t, dup, None)
      else do {
        (pid, _) \<leftarrow> readInt buf p1;
        Some (1, t, dup, Some pid)
      })
   }"

section \<open>Connect\<close>

record MQTTPacket_willOptions =
  will_topicName :: MQTTString
  will_message :: MQTTString
  will_retained :: byte
  will_qos :: int

record MQTTPacket_connectData =
  MQTTVersion :: nat
  clientID :: MQTTString
  keepAliveInterval :: nat
  cleansession :: byte
  willFlag :: byte
  will :: MQTTPacket_willOptions
  username :: MQTTString
  password :: MQTTString

definition has_string :: "MQTTString \<Rightarrow> bool" where
  "has_string ms \<longleftrightarrow> cstring ms \<noteq> None \<or> ls_data ms \<noteq> None"

definition MQTTSerialize_connectLength :: "MQTTPacket_connectData \<Rightarrow> int" where
  "MQTTSerialize_connectLength options =
     (if MQTTVersion options = 3 then 12 else if MQTTVersion options = 4 then 10 else 0)
     + (MQTTstrlen (clientID options) + 2)
     + (if willFlag options \<noteq> 0 then MQTTstrlen (will_topicName (will options)) + 2
          + MQTTstrlen (will_message (will options)) + 2 else 0)
     + (if has_string (username options) then MQTTstrlen (username options) + 2 else 0)
     + (if has_string (password options) then MQTTstrlen (password options) + 2 else 0)"

definition connect_flags :: "MQTTPacket_connectData \<Rightarrow> byte" where
  "connect_flags options =
     (let f0 = (if cleansession options \<noteq> 0 then 0x02 else 0) OR (if willFlag options \<noteq> 0 then 0x04 else 0);
          f1 = (if f0 AND 0x04 \<noteq> 0
                then f0 OR word_of_int (push_bit 3 (will_qos (will options) AND 0x03))
                       OR (if will_retained (will options) \<noteq> 0 then 0x20 else 0)
                else f0)
      in f1 OR (if has_string (username options) then 0x80 else 0)
            OR (if has_string (password options) then 0x40 else 0))"

definition MQTTSerialize_connect ::
  "byte list \<Rightarrow> int \<Rightarrow> MQTTPacket_connectData \<Rightarrow> (int \<times> byte list) option" where
  "MQTTSerialize_connect buf buflen options =
     (let len = MQTTSerialize_connectLength options; flags = connect_flags options
      in if MQTTPacket_len len > buflen then Some (MQTTPACKET_BUFFER_TOO_SHORT, buf)
         else do {
           s1 \<leftarrow> writeChar (MQTT_HEADER_SET_TYPE 0 CONNECT) (buf, 0);
           s2 \<leftarrow> MQTTPacket_encode len s1;
           s3 \<leftarrow> (if MQTTVersion options = 4
                  then do { t \<leftarrow> writeCString [0x4D, 0x51, 0x54, 0x54] s2; writeChar 4 t }
                  else do { t \<leftarrow> writeCString [0x4D, 0x51, 0x49, 0x73, 0x64, 0x70] s2; writeChar 3 t });
           s4 \<leftarrow> writeChar flags s3;
           s5 \<leftarrow> writeInt (int (keepAliveInterval options)) s4;
           s6 \<leftarrow> writeMQTTString (clientID options) s5;
           s7 \<leftarrow> (if willFlag options \<noteq> 0
                  then do { t \<leftarrow> writeMQTTString (will_topicName (will options)) s6;
                            writeMQTTString (will_message (will options)) t }
                  else Some s6);
           s8 \<leftarrow> (if flags AND 0x80 \<noteq> 0 then writeMQTTString (username options) s7 else Some s7);
           (b, p) \<leftarrow> (if flags AND 0x40 \<noteq> 0 then writeMQTTString (password options) s8 else Some s8);
           Some (int p, b)
         })"

text \<open>The result: the return value, and session flag and return code when they were read.
  The bit field of a little-endian machine takes the session flag from bit 7.\<close>

definition MQTTDeserialize_connack :: "byte list \<Rightarrow> (int \<times> (byte \<times> byte) option) option" where
  "MQTTDeserialize_connack buf = do {
     (header, p) \<leftarrow> readChar buf 0;
     (if MQTT_HEADER_GET_TYPE header \<noteq> CONNACK then Some (0, None)
      else do {
        (rc, mylen) \<leftarrow> MQTTPacket_decodeBuf buf p;
        let p1 = p + nat rc;
        (if mylen < 2 then Some (rc, None)
         else do {
           (flags, p2) \<leftarrow> readChar buf p1;
           (code, _) \<leftarrow> readChar buf p2;
           Some (1, Some (drop_bit 7 flags, code))
         })
      })
   }"

definition MQTTSerialize_zero :: "byte list \<Rightarrow> int \<Rightarrow> byte \<Rightarrow> (int \<times> byte list) option" where
  "MQTTSerialize_zero buf buflen packettype =
     (if buflen < 2 then Some (MQTTPACKET_BUFFER_TOO_SHORT, buf)
      else do {
        s1 \<leftarrow> writeChar (MQTT_HEADER_SET_TYPE 0 packettype) (buf, 0);
        (b, p) \<leftarrow> MQTTPacket_encode 0 s1;
        Some (int p, b)
      })"

definition MQTTSerialize_disconnect :: "byte list \<Rightarrow> int \<Rightarrow> (int \<times> byte list) option" where
  "MQTTSerialize_disconnect buf buflen = MQTTSerialize_zero buf buflen DISCONNECT"

definition MQTTSerialize_pingreq :: "byte list \<Rightarrow> int \<Rightarrow> (int \<times> byte list) option" where
  "MQTTSerialize_pingreq buf buflen = MQTTSerialize_zero buf buflen PINGREQ"

section \<open>Subscribe and unsubscribe\<close>

text \<open>The arrays of filters and of requested levels are one list of pairs.\<close>

definition MQTTSerialize_subscribeLength :: "MQTTString list \<Rightarrow> int" where
  "MQTTSerialize_subscribeLength topicFilters =
     2 + (\<Sum>f\<leftarrow>topicFilters. 2 + MQTTstrlen f + 1)"

fun write_subscriptions :: "(MQTTString \<times> int) list \<Rightarrow> wbuf \<Rightarrow> wbuf option" where
  "write_subscriptions [] s = Some s"
| "write_subscriptions ((f, q) # fs) s = do {
     s1 \<leftarrow> writeMQTTString f s;
     s2 \<leftarrow> writeChar (word_of_int q) s1;
     write_subscriptions fs s2
   }"

definition MQTTSerialize_subscribe ::
  "byte list \<Rightarrow> int \<Rightarrow> byte \<Rightarrow> int \<Rightarrow> (MQTTString \<times> int) list \<Rightarrow> (int \<times> byte list) option" where
  "MQTTSerialize_subscribe buf buflen dup packetid subs =
     (let rem_len = MQTTSerialize_subscribeLength (map fst subs)
      in if MQTTPacket_len rem_len > buflen then Some (MQTTPACKET_BUFFER_TOO_SHORT, buf)
         else do {
           s1 \<leftarrow> writeChar (MQTT_HEADER_SET_QOS (MQTT_HEADER_SET_DUP
                   (MQTT_HEADER_SET_TYPE 0 SUBSCRIBE) dup) 1) (buf, 0);
           s2 \<leftarrow> MQTTPacket_encode rem_len s1;
           s3 \<leftarrow> writeInt packetid s2;
           (b, p) \<leftarrow> write_subscriptions subs s3;
           Some (int p, b)
         })"

definition MQTTSerialize_unsubscribeLength :: "MQTTString list \<Rightarrow> int" where
  "MQTTSerialize_unsubscribeLength topicFilters = 2 + (\<Sum>f\<leftarrow>topicFilters. 2 + MQTTstrlen f)"

fun write_filters :: "MQTTString list \<Rightarrow> wbuf \<Rightarrow> wbuf option" where
  "write_filters [] s = Some s"
| "write_filters (f # fs) s = do {
     s1 \<leftarrow> writeMQTTString f s;
     write_filters fs s1
   }"

definition MQTTSerialize_unsubscribe ::
  "byte list \<Rightarrow> int \<Rightarrow> byte \<Rightarrow> int \<Rightarrow> MQTTString list \<Rightarrow> (int \<times> byte list) option" where
  "MQTTSerialize_unsubscribe buf buflen dup packetid topicFilters =
     (let rem_len = MQTTSerialize_unsubscribeLength topicFilters
      in if MQTTPacket_len rem_len > buflen then Some (MQTTPACKET_BUFFER_TOO_SHORT, buf)
         else do {
           s1 \<leftarrow> writeChar (MQTT_HEADER_SET_QOS (MQTT_HEADER_SET_DUP
                   (MQTT_HEADER_SET_TYPE 0 UNSUBSCRIBE) dup) 1) (buf, 0);
           s2 \<leftarrow> MQTTPacket_encode rem_len s1;
           s3 \<leftarrow> writeInt packetid s2;
           (b, p) \<leftarrow> write_filters topicFilters s3;
           Some (int p, b)
         })"

text \<open>The loop over the granted levels; \<open>maxcount\<close> is the size of the array.\<close>

function read_granted :: "byte list \<Rightarrow> int \<Rightarrow> int \<Rightarrow> nat \<Rightarrow> int list \<Rightarrow> (int \<times> int list) option" where
  "read_granted m maxcount enddata p granted =
     (if int p < enddata then
        if int (length granted) \<ge> maxcount then Some (-1, granted)
        else do {
          (c, p') \<leftarrow> readChar m p;
          read_granted m maxcount enddata p' (granted @ [sint c])
        }
      else Some (1, granted))"
  by pat_completeness auto

termination
  by (relation "measure (\<lambda>(m, _, _, p, _). length m - p)") (auto simp: readChar_def split: if_splits)

declare read_granted.simps [simp del]

text \<open>The result: the return value and, when they were read, identifier and granted levels.\<close>

definition MQTTDeserialize_suback :: "int \<Rightarrow> byte list \<Rightarrow> (int \<times> (int \<times> int list) option) option" where
  "MQTTDeserialize_suback maxcount buf = do {
     (header, p) \<leftarrow> readChar buf 0;
     (if MQTT_HEADER_GET_TYPE header \<noteq> SUBACK then Some (0, None)
      else do {
        (rc, mylen) \<leftarrow> MQTTPacket_decodeBuf buf p;
        let p1 = p + nat rc;
        (if mylen < 2 then Some (rc, None)
         else do {
           (pid, p2) \<leftarrow> readInt buf p1;
           (r, granted) \<leftarrow> read_granted buf maxcount (int p1 + mylen) p2 [];
           Some (r, Some (pid, granted))
         })
      })
   }"

definition MQTTDeserialize_unsuback :: "byte list \<Rightarrow> (int \<times> int option) option" where
  "MQTTDeserialize_unsuback buf = do {
     (rc, t, _, pid) \<leftarrow> MQTTDeserialize_ack buf;
     Some (if t = UNSUBACK then 1 else rc, pid)
   }"

end
