(* ===== verification/Mqtt_Topic.thy ===== *)
theory Mqtt_Topic
  imports Mqtt_Packet
begin

text \<open>
  Topics of linkkit/mqtt/iotx_mqtt_client.c: the match of a received topic against a filter,
  with the matching of MQTT level by level as its specification, and the check of a topic
  before it is used, with infra_strtok of linkkit/infra/infra_string.c.
\<close>

section \<open>Matching\<close>

abbreviation SLASH :: byte where "SLASH \<equiv> 47"
abbreviation PLUS :: byte where "PLUS \<equiv> 43"
abbreviation HASH :: byte where "HASH \<equiv> 35"

text \<open>The loop, on what \<open>curf\<close> and \<open>curn\<close> still have before them; the inner loop of the plus
  sign leaves \<open>curn\<close> before the next separator.\<close>

fun topic_loop :: "byte list \<Rightarrow> byte list \<Rightarrow> byte list \<times> byte list" where
  "topic_loop (f # fs) (n # ns) =
     (if n = SLASH \<and> f \<noteq> SLASH then (f # fs, n # ns)
      else if f \<noteq> PLUS \<and> f \<noteq> HASH \<and> f \<noteq> n then (f # fs, n # ns)
      else if f = PLUS then topic_loop fs (dropWhile (\<lambda>c. c \<noteq> SLASH) ns)
      else if f = HASH then topic_loop fs []
      else topic_loop fs ns)"
| "topic_loop fs ns = (fs, ns)"

definition iotx_mc_is_topic_matched :: "byte list option \<Rightarrow> MQTTString option \<Rightarrow> bool option" where
  "iotx_mc_is_topic_matched topicFilter topicName =
     (case (topicFilter, topicName) of
        (Some f, Some t) \<Rightarrow> do {
          d \<leftarrow> (if ls_len t \<le> 0 then Some [] else ls_data t);
          if int (length d) < ls_len t then None
          else
            let (curf, curn) = topic_loop f (take (nat (ls_len t)) d)
            in Some (curn = [] \<and> curf = [])
        }
      | _ \<Rightarrow> Some False)"

section \<open>The levels of a topic\<close>

fun levels :: "byte list \<Rightarrow> byte list list" where
  "levels [] = [[]]"
| "levels (c # cs) = (if c = SLASH then [] # levels cs
     else case levels cs of l # ls \<Rightarrow> (c # l) # ls | [] \<Rightarrow> [[c]])"

lemma levels_nonempty [simp]: "levels cs \<noteq> []"
  by (cases cs) (auto split: list.splits)

lemma levels_plain: "SLASH \<notin> set l \<Longrightarrow> levels l = [l]"
  by (induction l) auto

lemma levels_slash: "SLASH \<notin> set l \<Longrightarrow> levels (l @ SLASH # cs) = l # levels cs"
  by (induction l) auto

text \<open>The matching of the MQTT standard (4.7): a plus sign is one level, a number sign at the
  end is the parent level and everything below it.\<close>

fun mqtt_match :: "byte list list \<Rightarrow> byte list list \<Rightarrow> bool" where
  "mqtt_match [] ns \<longleftrightarrow> ns = []"
| "mqtt_match (f # fs) ns \<longleftrightarrow>
     (if f = [HASH] \<and> fs = [] then True
      else case ns of [] \<Rightarrow> False | n # ns' \<Rightarrow> (f = [PLUS] \<or> f = n) \<and> mqtt_match fs ns')"

text \<open>A valid filter: wildcards take whole levels, and a number sign the last one.\<close>

fun filter_ok :: "byte list list \<Rightarrow> bool" where
  "filter_ok [] \<longleftrightarrow> True"
| "filter_ok (f # fs) \<longleftrightarrow> (f = [HASH] \<and> fs = [] \<or> f = [PLUS] \<or> HASH \<notin> set f \<and> PLUS \<notin> set f) \<and> filter_ok fs"

text \<open>What the code leaves out: a wildcard never stands for an empty level or for nothing.\<close>

definition wildcards_filled :: "byte list list \<Rightarrow> byte list list \<Rightarrow> bool" where
  "wildcards_filled fs ns \<longleftrightarrow> length fs \<le> length ns
     \<and> (\<forall>i<length fs. fs ! i = [PLUS] \<or> fs ! i = [HASH] \<longrightarrow> ns ! i \<noteq> [])"

lemma wildcards_filled_Cons [simp]:
  "wildcards_filled (f # fs) (n # ns) \<longleftrightarrow>
     (f = [PLUS] \<or> f = [HASH] \<longrightarrow> n \<noteq> []) \<and> wildcards_filled fs ns"
  by (auto simp: wildcards_filled_def nth_Cons split: nat.splits)

section \<open>The loop follows the levels\<close>

text \<open>The match of the code on texts, as one predicate.\<close>

definition text_match :: "byte list \<Rightarrow> byte list \<Rightarrow> bool" where
  "text_match f n \<longleftrightarrow> topic_loop f n = ([], [])"

lemma text_match_simps [simp]:
  "text_match [] n \<longleftrightarrow> n = []" "text_match (c # f) [] \<longleftrightarrow> False"
  "text_match (SLASH # f) (SLASH # n) \<longleftrightarrow> text_match f n"
  "text_match [HASH] (c # n) \<longleftrightarrow> c \<noteq> SLASH"
  by (auto simp: text_match_def)

lemma text_match_char:
  "c \<noteq> PLUS \<Longrightarrow> c \<noteq> HASH \<Longrightarrow> text_match (c # f) (d # n) \<longleftrightarrow> c = d \<and> text_match f n"
  by (auto simp: text_match_def)

lemma text_match_plus: "text_match (PLUS # f) (c # n) \<longleftrightarrow>
    c \<noteq> SLASH \<and> text_match f (dropWhile (\<lambda>c. c \<noteq> SLASH) n)"
  by (auto simp: text_match_def)

lemma split_level: "\<exists>l r. cs = l @ r \<and> SLASH \<notin> set l \<and> (r = [] \<or> (\<exists>r'. r = SLASH # r'))"
proof (intro exI conjI)
  show "cs = takeWhile (\<lambda>c. c \<noteq> SLASH) cs @ dropWhile (\<lambda>c. c \<noteq> SLASH) cs" by simp
  show "SLASH \<notin> set (takeWhile (\<lambda>c. c \<noteq> SLASH) cs)" using set_takeWhileD by fastforce
  show "dropWhile (\<lambda>c. c \<noteq> SLASH) cs = [] \<or> (\<exists>r'. dropWhile (\<lambda>c. c \<noteq> SLASH) cs = SLASH # r')"
    by (cases "dropWhile (\<lambda>c. c \<noteq> SLASH) cs") (auto simp: dropWhile_eq_Cons_conv)
qed

lemma dropWhile_level: "SLASH \<notin> set l \<Longrightarrow> r = [] \<or> (\<exists>r'. r = SLASH # r')
    \<Longrightarrow> dropWhile (\<lambda>c. c \<noteq> SLASH) (l @ r) = r"
  by (induction l) auto

text \<open>A literal level compares character by character.\<close>

lemma text_match_literal:
  assumes "SLASH \<notin> set l" "HASH \<notin> set l" "PLUS \<notin> set l" "SLASH \<notin> set k"
    and "r = [] \<or> (\<exists>r'. r = SLASH # r')" "s = [] \<or> (\<exists>s'. s = SLASH # s')"
  shows "text_match (l @ r) (k @ s) \<longleftrightarrow> l = k \<and> text_match r s"
  using assms(1-4)
proof (induction l arbitrary: k)
  case Nil
  show ?case
  proof (cases k)
    case Nil
    then show ?thesis by simp
  next
    case (Cons d k')
    then have "\<not> text_match r (k @ s)"
      using assms(5) Nil.prems(4) by (auto simp: text_match_char)
    then show ?thesis using Cons by simp
  qed
next
  case (Cons c l)
  then have c: "c \<noteq> PLUS" "c \<noteq> HASH" "c \<noteq> SLASH" by auto
  show ?case
  proof (cases k)
    case Nil
    have "\<not> text_match ((c # l) @ r) s" using assms(6) c by (auto simp: text_match_char)
    then show ?thesis using Nil by simp
  next
    case (Cons d k')
    then show ?thesis using Cons.IH [of k'] Cons.prems c by (auto simp: text_match_char)
  qed
qed

lemma text_match_levels:
  "filter_ok (levels f) \<Longrightarrow>
    text_match f n \<longleftrightarrow> mqtt_match (levels f) (levels n) \<and> wildcards_filled (levels f) (levels n)"
proof (induction "length f" arbitrary: f n rule: less_induct)
  case less
  obtain l r where f: "f = l @ r" "SLASH \<notin> set l" "r = [] \<or> (\<exists>r'. r = SLASH # r')"
    using split_level by blast
  obtain k s where n: "n = k @ s" "SLASH \<notin> set k" "s = [] \<or> (\<exists>s'. s = SLASH # s')"
    using split_level by blast
  define fs where "fs = (if r = [] then [] else levels (tl r))"
  define ns where "ns = (if s = [] then [] else levels (tl s))"
  have lf: "levels f = l # fs" using f by (auto simp: fs_def levels_plain levels_slash)
  have ln: "levels n = k # ns" using n by (auto simp: ns_def levels_plain levels_slash)
  have rest: "text_match r s \<longleftrightarrow> mqtt_match fs ns \<and> wildcards_filled fs ns"
  proof (cases r)
    case Nil
    then show ?thesis using n(3) by (auto simp: fs_def ns_def wildcards_filled_def)
  next
    case (Cons c r')
    then have r: "r = SLASH # r'" using f(3) by simp
    show ?thesis
    proof (cases s)
      case Nil
      then show ?thesis using r by (auto simp: fs_def ns_def wildcards_filled_def)
    next
      case (Cons d s')
      then have s: "s = SLASH # s'" using n(3) by simp
      have "filter_ok (levels r')" using less.prems r lf by (simp add: fs_def)
      then have "text_match r' s' \<longleftrightarrow> mqtt_match (levels r') (levels s') \<and> wildcards_filled (levels r') (levels s')"
        using less.hyps f(1) r by simp
      then show ?thesis using r s by (simp add: fs_def ns_def)
    qed
  qed
  consider "l = [HASH]" "fs = []" | "l = [PLUS]" | "HASH \<notin> set l" "PLUS \<notin> set l"
    using less.prems lf by auto
  then show ?case
  proof cases
    case 1
    then have "r = []" by (auto simp: fs_def split: if_splits)
    then show ?thesis
      using 1 f n lf ln by (cases k) (auto simp: wildcards_filled_def)
  next
    case 2
    show ?thesis
    proof (cases k)
      case Nil
      then have "\<not> text_match f n" using 2 f n by (cases s) (auto simp: text_match_plus)
      then show ?thesis using Nil 2 lf ln by simp
    next
      case (Cons c k')
      then have "text_match f n \<longleftrightarrow> text_match r s"
        using 2 f n by (auto simp: text_match_plus dropWhile_level)
      then show ?thesis using Cons 2 lf ln rest by auto
    qed
  next
    case 3
    then have "text_match f n \<longleftrightarrow> l = k \<and> text_match r s"
      using text_match_literal [of l k r s] f n by simp
    moreover have "l \<noteq> [HASH]" "l \<noteq> [PLUS]" using 3 by auto
    ultimately show ?thesis using lf ln rest by auto
  qed
qed

lemma topic_matched_iff:
  assumes "str_data = take (nat (ls_len t)) d" "ls_data t = Some d" "0 \<le> ls_len t" "ls_len t \<le> int (length d)"
    and "filter_ok (levels f)"
  shows "iotx_mc_is_topic_matched (Some f) (Some t) = Some
    (mqtt_match (levels f) (levels str_data) \<and> wildcards_filled (levels f) (levels str_data))"
  using text_match_levels [OF assms(5), of str_data] assms(1-4)
  by (auto simp: iotx_mc_is_topic_matched_def text_match_def split: prod.splits if_splits)

end
