(* ===== verification/Mqtt_Client.thy ===== *)
theory Mqtt_Client
  imports Mqtt_Topic
begin

text \<open>
  The MQTT client of linkkit/mqtt/iotx_mqtt_client.c (with dynamic memory and dynamic
  buffers, without zipped topics and without an asynchronous protocol stack): its state,
  the timers of linkkit/infra/infra_timer.c, the buffers, and the transfer of packets.
  A function takes and returns the client; None is an access outside of a buffer, the use
  of a variable that was not set, or a
  loop that does not end. Mutexes are taken and given back in pairs and are left out, and
  so is the flag that a callback is running.
\<close>

section \<open>Result codes\<close>

definition STATE_USER_INPUT_INVALID :: int where "STATE_USER_INPUT_INVALID = -0x113"
definition STATE_SYS_DEPEND_MALLOC :: int where "STATE_SYS_DEPEND_MALLOC = -0x201"
definition STATE_SYS_DEPEND_NWK_CLOSE :: int where "STATE_SYS_DEPEND_NWK_CLOSE = -0x208"
definition STATE_SYS_DEPEND_NWK_READ_ERROR :: int where "STATE_SYS_DEPEND_NWK_READ_ERROR = -0x20B"
definition STATE_MQTT_PACKET_READ_ERROR :: int where "STATE_MQTT_PACKET_READ_ERROR = -0x316"

lemmas state_codes = STATE_USER_INPUT_INVALID_def STATE_SYS_DEPEND_MALLOC_def STATE_SYS_DEPEND_NWK_CLOSE_def
  STATE_SYS_DEPEND_NWK_READ_ERROR_def STATE_MQTT_PACKET_READ_ERROR_def

section \<open>The client\<close>

datatype mc_state = IOTX_MC_STATE_INVALID | IOTX_MC_STATE_INITIALIZED | IOTX_MC_STATE_CONNECTED
  | IOTX_MC_STATE_DISCONNECTED | IOTX_MC_STATE_DISCONNECTED_RECONNECTING | IOTX_MC_STATE_CONNECT_BLOCK

datatype node_state = IOTX_MC_NODE_STATE_NORMANL | IOTX_MC_NODE_STATE_INVALID

text \<open>A callback and its context are numbers; a null function is None.\<close>

record event_handle =
  h_fp :: "nat option"
  pcontext :: nat

record topic_handle =
  th_filter :: "byte list"
  th_handle :: event_handle

record pub_info =
  pub_start_time :: nat
  pub_node_state :: node_state
  pub_msg_id :: nat
  pub_buf :: "byte list"

datatype ack_type = ACK_UNDEF | ACK_SUCCESS | ACK_NACK

record sub_sync =
  ss_packet_id :: int
  ss_ack :: ack_type

record topic_info =
  ti_packet_id :: int
  ti_qos :: int
  ti_dup :: byte
  ti_retain :: byte
  ti_topic :: "byte list"
  ti_payload_len :: nat
  ti_payload :: "byte list option"

text \<open>What a callback is called with.\<close>

datatype event_msg = EVENT_DISCONNECT | EVENT_RECONNECT
  | EVENT_SUBCRIBE_SUCCESS int | EVENT_SUBCRIBE_NACK int | EVENT_UNSUBCRIBE_SUCCESS int
  | EVENT_PUBLISH_SUCCESS int | EVENT_PUBLISH_RECEIVED topic_info | EVENT_BUFFER_OVERFLOW

text \<open>\<open>mc_calls\<close> are the calls of callbacks so far; \<open>mc_net\<close> is the state of the platform.\<close>

record 'n mc =
  mc_packet_id :: nat
  mc_request_timeout :: nat
  mc_cycle_timeout :: nat
  mc_buf_send :: "byte list option"
  mc_buf_size_send :: nat
  mc_buf_size_send_max :: nat
  mc_buf_read :: "byte list option"
  mc_buf_size_read :: nat
  mc_buf_size_read_max :: nat
  mc_keepalive_probes :: nat
  mc_list_sub_handle :: "topic_handle list"
  mc_next_ping_time :: nat
  mc_client_state :: mc_state
  mc_reconnect_next_time :: nat
  mc_reconnect_interval_ms :: nat
  mc_connect_data :: MQTTPacket_connectData
  mc_list_pub_wait_ack :: "pub_info list"
  mc_list_sub_sync_ack :: "sub_sync list"
  mc_handle_event :: event_handle
  mc_net :: 'n
  mc_calls :: "(event_handle \<times> event_msg) list"

text \<open>
  The platform below the client: the stream of utils_network_t (a read returns its code and
  the bytes it put into the buffer), the clock in milliseconds, the heap, what is done
  about the answer to an identity request, and the sizes of two structures with pointers.
\<close>

record 'n platform =
  pf_read :: "nat \<Rightarrow> nat \<Rightarrow> 'n \<Rightarrow> (int \<times> byte list) \<times> 'n"
  pf_write :: "byte list \<Rightarrow> nat \<Rightarrow> 'n \<Rightarrow> int \<times> 'n"
  pf_connect :: "'n \<Rightarrow> int \<times> 'n"
  pf_disconnect :: "'n \<Rightarrow> 'n"
  pf_uptime :: "'n \<Rightarrow> nat \<times> 'n"
  pf_msleep :: "nat \<Rightarrow> 'n \<Rightarrow> 'n"
  pf_malloc :: "nat \<Rightarrow> 'n \<Rightarrow> bool \<times> 'n"
  pf_identity :: "topic_info \<Rightarrow> 'n \<Rightarrow> 'n"
  pf_sizeof_handle :: nat
  pf_sizeof_pub :: nat

definition plat :: "('n \<Rightarrow> 'a \<times> 'n) \<Rightarrow> 'n mc \<Rightarrow> 'a \<times> 'n mc" where
  "plat f c = (let (r, n) = f (mc_net c) in (r, c\<lparr>mc_net := n\<rparr>))"

definition plat_do :: "('n \<Rightarrow> 'n) \<Rightarrow> 'n mc \<Rightarrow> 'n mc" where
  "plat_do f c = c\<lparr>mc_net := f (mc_net c)\<rparr>"

section \<open>Timers\<close>

definition sub_u32 :: "nat \<Rightarrow> nat \<Rightarrow> nat" where
  "sub_u32 a b = nat ((int a - int b) mod 4294967296)"

definition uptime32 :: "'n platform \<Rightarrow> 'n mc \<Rightarrow> nat \<times> 'n mc" where
  "uptime32 pf c = (let (t, c1) = plat (pf_uptime pf) c in (u32 t, c1))"

definition utils_time_is_expired :: "'n platform \<Rightarrow> nat \<Rightarrow> 'n mc \<Rightarrow> bool \<times> 'n mc" where
  "utils_time_is_expired pf timer c =
     (let (cur_time, c1) = uptime32 pf c in (sub_u32 cur_time timer < 4294967295 div 2, c1))"

definition iotx_time_left :: "'n platform \<Rightarrow> nat \<Rightarrow> 'n mc \<Rightarrow> nat \<times> 'n mc" where
  "iotx_time_left pf end_time c =
     (let (expired, c1) = utils_time_is_expired pf end_time c
      in if expired then (0, c1)
         else let (now, c2) = uptime32 pf c1 in (sub_u32 end_time now, c2))"

definition utils_time_spend :: "'n platform \<Rightarrow> nat \<Rightarrow> 'n mc \<Rightarrow> nat \<times> 'n mc" where
  "utils_time_spend pf start c = (let (now, c1) = uptime32 pf c in (sub_u32 now start, c1))"

text \<open>The time of the timer: \<open>iotx_time_start\<close> and \<open>utils_time_countdown_ms\<close>.\<close>

definition iotx_time_start :: "'n platform \<Rightarrow> 'n mc \<Rightarrow> nat \<times> 'n mc" where
  "iotx_time_start pf c = uptime32 pf c"

definition utils_time_countdown_ms :: "'n platform \<Rightarrow> nat \<Rightarrow> 'n mc \<Rightarrow> nat \<times> 'n mc" where
  "utils_time_countdown_ms pf ms c = (let (now, c1) = plat (pf_uptime pf) c in (u32 (now + ms), c1))"

text \<open>The time left, at least one millisecond.\<close>

definition left_time :: "'n platform \<Rightarrow> nat \<Rightarrow> 'n mc \<Rightarrow> nat \<times> 'n mc" where
  "left_time pf timer c = (let (t, c1) = iotx_time_left pf timer c in (if t = 0 then 1 else t, c1))"

section \<open>Buffers\<close>

definition MQTT_DYNBUF_SEND_MARGIN :: nat where "MQTT_DYNBUF_SEND_MARGIN = 64"
definition MQTT_DYNBUF_RECV_MARGIN :: nat where "MQTT_DYNBUF_RECV_MARGIN = 8"

definition reset_send_buffer :: "'n mc \<Rightarrow> 'n mc" where
  "reset_send_buffer c = (if mc_buf_send c = None then c else c\<lparr>mc_buf_send := None, mc_buf_size_send := 0\<rparr>)"

definition reset_recv_buffer :: "'n mc \<Rightarrow> 'n mc" where
  "reset_recv_buffer c = (if mc_buf_read c = None then c else c\<lparr>mc_buf_read := None, mc_buf_size_read := 0\<rparr>)"

definition alloc_send_buffer :: "'n platform \<Rightarrow> nat \<Rightarrow> 'n mc \<Rightarrow> int \<times> 'n mc" where
  "alloc_send_buffer pf len c =
     (let tmp_len = min (MQTT_DYNBUF_SEND_MARGIN + len) (mc_buf_size_send_max c);
          (ok, c1) = plat (pf_malloc pf tmp_len) c
      in if ok then (0, c1\<lparr>mc_buf_send := Some (replicate tmp_len 0), mc_buf_size_send := tmp_len\<rparr>)
         else (STATE_SYS_DEPEND_MALLOC, c1\<lparr>mc_buf_send := None\<rparr>))"

definition alloc_recv_buffer :: "'n platform \<Rightarrow> nat \<Rightarrow> 'n mc \<Rightarrow> int \<times> 'n mc" where
  "alloc_recv_buffer pf len c =
     (let tmp_len = min (MQTT_DYNBUF_RECV_MARGIN + len) (mc_buf_size_read_max c);
          (ok, c1) = plat (pf_malloc pf tmp_len) c
      in if \<not> ok then (STATE_SYS_DEPEND_MALLOC,
                     (case mc_buf_read c of Some _ \<Rightarrow> c1 | None \<Rightarrow> c1\<lparr>mc_buf_read := None\<rparr>))
         else
           let new = (case mc_buf_read c of
                 Some old \<Rightarrow> overwrite 0 (take (min (mc_buf_size_read c) tmp_len) old) (replicate tmp_len 0)
               | None \<Rightarrow> replicate tmp_len 0)
           in (0, c1\<lparr>mc_buf_read := Some new, mc_buf_size_read := tmp_len\<rparr>))"

section \<open>Sending\<close>

text \<open>The loop returns the number of bytes that were sent.\<close>

partial_function (option) send_loop ::
  "'n platform \<Rightarrow> byte list \<Rightarrow> nat \<Rightarrow> nat \<Rightarrow> 'n mc \<Rightarrow> (nat \<times> 'n mc) option" where
  "send_loop pf buf time sent c =
     (if sent < length buf then
        let (expired, c1) = utils_time_is_expired pf time c
        in if expired then Some (sent, c1)
           else
             let (left_t, c2) = left_time pf time c1;
                 (rc, c3) = plat (pf_write pf (drop sent buf) left_t) c2
             in if rc < 0 then Some (sent, c3) else send_loop pf buf time (sent + nat rc) c3
      else Some (sent, c))"

definition iotx_mc_send_packet ::
  "'n platform \<Rightarrow> byte list \<Rightarrow> nat \<Rightarrow> 'n mc \<Rightarrow> (int \<times> 'n mc) option" where
  "iotx_mc_send_packet pf buf time c = do {
     (sent, c1) \<leftarrow> send_loop pf buf time 0 c;
     Some (if sent = length buf then 0 else STATE_SYS_DEPEND_NWK_CLOSE, c1)
   }"

text \<open>The first bytes of the send buffer are sent.\<close>

definition send_buffer :: "'n platform \<Rightarrow> int \<Rightarrow> nat \<Rightarrow> 'n mc \<Rightarrow> (int \<times> 'n mc) option" where
  "send_buffer pf len time c = do {
     buf \<leftarrow> mc_buf_send c;
     if length buf < nat len then None else iotx_mc_send_packet pf (take (nat len) buf) time c
   }"

section \<open>Receiving\<close>

text \<open>A read into the read buffer.\<close>

definition read_into :: "'n platform \<Rightarrow> nat \<Rightarrow> nat \<Rightarrow> nat \<Rightarrow> 'n mc \<Rightarrow> (int \<times> 'n mc) option" where
  "read_into pf off len timeout c =
     (let ((rc, bs), c1) = plat (pf_read pf len timeout) c
      in do {
        buf \<leftarrow> mc_buf_read c1;
        if off + length bs > length buf then None
        else Some (rc, c1\<lparr>mc_buf_read := Some (overwrite off bs buf)\<rparr>)
      })"

text \<open>The result is the number of bytes or an error, and the value.\<close>

function mc_decode_loop ::
  "'n platform \<Rightarrow> nat \<Rightarrow> int \<Rightarrow> int \<Rightarrow> int \<Rightarrow> 'n mc \<Rightarrow> (int \<times> int \<times> 'n mc) option" where
  "mc_decode_loop pf timeout multiplier len0 val c =
     (let len = len0 + 1
      in if len > MAX_NO_OF_REMAINING_LENGTH_BYTES then Some (MQTTPACKET_READ_ERROR, val, c)
         else
           let ((rc, bs), c1) = plat (pf_read pf 1 (if timeout = 0 then 1 else timeout)) c
           in if rc \<le> 0 then Some (STATE_SYS_DEPEND_NWK_CLOSE, val, c1)
              else (case bs of
                  [] \<Rightarrow> None
                | i # _ \<Rightarrow>
                    let val' = val + uint (i AND 127) * multiplier
                    in if i AND 128 \<noteq> 0 then mc_decode_loop pf timeout (multiplier * 128) len val' c1
                       else Some (len, val', c1)))"
  by pat_completeness auto

termination
  by (relation "measure (\<lambda>(_, _, _, len, _, _). nat (4 - len))")
    (auto simp: MAX_NO_OF_REMAINING_LENGTH_BYTES_def)

declare mc_decode_loop.simps [simp del]

definition iotx_mc_decode_packet :: "'n platform \<Rightarrow> nat \<Rightarrow> 'n mc \<Rightarrow> (int \<times> int \<times> 'n mc) option" where
  "iotx_mc_decode_packet pf timeout c = mc_decode_loop pf timeout 1 0 0 c"

definition handle_event :: "event_handle \<Rightarrow> event_msg \<Rightarrow> 'n mc \<Rightarrow> 'n mc" where
  "handle_event h msg c = (if h_fp h = None then c else c\<lparr>mc_calls := mc_calls c @ [(h, msg)]\<rparr>)"

text \<open>A packet that does not fit is read in pieces into the buffer; the flag says whether all came.\<close>

partial_function (option) skip_loop :: "'n platform \<Rightarrow> nat \<Rightarrow> nat \<Rightarrow> 'n mc \<Rightarrow> (bool \<times> 'n mc) option" where
  "skip_loop pf left_t rem_len c =
     (let needReadLen = (if rem_len > mc_buf_size_read c then mc_buf_size_read c else rem_len)
      in do {
        (rc, c1) \<leftarrow> read_into pf 0 needReadLen left_t c;
        if rc \<noteq> int needReadLen then Some (False, c1)
        else if rem_len - needReadLen = 0 then Some (True, c1)
        else skip_loop pf left_t (rem_len - needReadLen) c1
      })"

text \<open>The result is the return value and the packet type (0 when there was none).\<close>

definition read_body ::
  "'n platform \<Rightarrow> nat \<Rightarrow> nat \<Rightarrow> nat \<Rightarrow> 'n mc \<Rightarrow> (int \<times> byte \<times> 'n mc) option" where
  "read_body pf timer len rem_len c =
     (if 0 < rem_len \<and> mc_buf_size_read c < rem_len + len then
        let (left_t, c1) = left_time pf timer c
        in do {
          (ok, c2) \<leftarrow> skip_loop pf left_t rem_len c1;
          if \<not> ok then Some (STATE_SYS_DEPEND_NWK_READ_ERROR, 0, c2)
          else Some (0, 0, handle_event (mc_handle_event c2) EVENT_BUFFER_OVERFLOW c2)
        }
      else
        let (left_t, c1) = left_time pf timer c
        in do {
          (rc, c2) \<leftarrow> read_into pf len rem_len left_t c1;
          if 0 < rem_len \<and> rc < 0 then Some (STATE_SYS_DEPEND_NWK_CLOSE, 0, c2)
          else if 0 < rem_len \<and> rc \<noteq> int rem_len then Some (STATE_MQTT_PACKET_READ_ERROR, 0, c2)
          else do {
            buf \<leftarrow> mc_buf_read c2;
            (header, _) \<leftarrow> readChar buf 0;
            if len + rem_len < mc_buf_size_read c2 then do {
              (buf', _) \<leftarrow> writeChar 0 (buf, len + rem_len);
              Some (0, MQTT_HEADER_GET_TYPE header, c2\<lparr>mc_buf_read := Some buf'\<rparr>)
            }
            else Some (0, MQTT_HEADER_GET_TYPE header, c2)
          }
        })"

definition iotx_mc_read_packet :: "'n platform \<Rightarrow> nat \<Rightarrow> 'n mc \<Rightarrow> (int \<times> byte \<times> 'n mc) option" where
  "iotx_mc_read_packet pf timer c =
     (let (rc0, c1) = alloc_recv_buffer pf 0 c
      in if rc0 < 0 then Some (rc0, 0, c1)
         else
           let (left_t, c2) = left_time pf timer c1
           in do {
             (rc, c3) \<leftarrow> read_into pf 0 1 left_t c2;
             if rc = 0 then Some (0, 0, c3)
             else if rc < 0 then Some (STATE_SYS_DEPEND_NWK_CLOSE, 0, c3)
             else
               let (left_t2, c4) = left_time pf timer c3
               in do {
                 (rc2, rem_len, c5) \<leftarrow> iotx_mc_decode_packet pf left_t2 c4;
                 if rc2 < 0 then Some (rc2, 0, c5)
                 else do {
                   buf \<leftarrow> mc_buf_read c5;
                   (buf', p) \<leftarrow> MQTTPacket_encode rem_len (buf, 1);
                   let (rc3, c6) = alloc_recv_buffer pf (nat rem_len + p) (c5\<lparr>mc_buf_read := Some buf'\<rparr>);
                   if rc3 < 0 then Some (rc3, 0, c6) else read_body pf timer p (nat rem_len) c6
                 }
               }
           })"

end
