(* ===== verification/Mqtt_Handle.thy ===== *)
theory Mqtt_Handle
  imports Mqtt_Client
begin

text \<open>
  What the client does with a packet it has received (iotx_mqtt_client.c), the list of
  publications that wait for an acknowledgement, and one cycle of the client.
\<close>

section \<open>Result codes\<close>

definition STATE_MQTT_BASE :: int where "STATE_MQTT_BASE = -0x300"
definition STATE_MQTT_CONNACK_VERSION_UNACCEPT :: int where "STATE_MQTT_CONNACK_VERSION_UNACCEPT = -0x301"
definition STATE_MQTT_CONNACK_NOT_AUTHORIZED :: int where "STATE_MQTT_CONNACK_NOT_AUTHORIZED = -0x304"
definition STATE_MQTT_SERIALIZE_PUBACK_ERROR :: int where "STATE_MQTT_SERIALIZE_PUBACK_ERROR = -0x30D"
definition STATE_MQTT_DESERIALIZE_CONNACK_ERROR :: int where "STATE_MQTT_DESERIALIZE_CONNACK_ERROR = -0x312"
definition STATE_MQTT_DESERIALIZE_SUBACK_ERROR :: int where "STATE_MQTT_DESERIALIZE_SUBACK_ERROR = -0x313"
definition STATE_MQTT_DESERIALIZE_PUB_ERROR :: int where "STATE_MQTT_DESERIALIZE_PUB_ERROR = -0x314"
definition STATE_MQTT_DESERIALIZE_UNSUBACK_ERROR :: int where "STATE_MQTT_DESERIALIZE_UNSUBACK_ERROR = -0x315"
definition STATE_MQTT_TX_BUFFER_TOO_SHORT :: int where "STATE_MQTT_TX_BUFFER_TOO_SHORT = -0x319"
definition STATE_MQTT_QOS1_REPUB_EXCEED_MAX :: int where "STATE_MQTT_QOS1_REPUB_EXCEED_MAX = -0x31C"
definition STATE_MQTT_PUB_QOS_INVALID :: int where "STATE_MQTT_PUB_QOS_INVALID = -0x31D"
definition STATE_MQTT_IN_OFFLINE_STATUS :: int where "STATE_MQTT_IN_OFFLINE_STATUS = -0x31E"
definition STATE_MQTT_RECV_UNKNOWN_PACKET :: int where "STATE_MQTT_RECV_UNKNOWN_PACKET = -0x31F"
definition MQTT_PUBLISH_PACKET_ERROR :: int where "MQTT_PUBLISH_PACKET_ERROR = -21"
definition MQTT_PUBLISH_ACK_PACKET_ERROR :: int where "MQTT_PUBLISH_ACK_PACKET_ERROR = -19"

definition MUTLI_SUBSCIRBE_MAX :: int where "MUTLI_SUBSCIRBE_MAX = 5"
definition IOTX_MC_REPUB_NUM_MAX :: nat where "IOTX_MC_REPUB_NUM_MAX = 10"
definition IOTX_MC_KEEPALIVE_PROBE_MAX :: nat where "IOTX_MC_KEEPALIVE_PROBE_MAX = 2"

lemmas mqtt_state_codes = state_codes STATE_MQTT_CONNACK_VERSION_UNACCEPT_def STATE_MQTT_CONNACK_NOT_AUTHORIZED_def
  STATE_MQTT_SERIALIZE_PUBACK_ERROR_def STATE_MQTT_DESERIALIZE_CONNACK_ERROR_def
  STATE_MQTT_DESERIALIZE_SUBACK_ERROR_def STATE_MQTT_DESERIALIZE_PUB_ERROR_def
  STATE_MQTT_DESERIALIZE_UNSUBACK_ERROR_def STATE_MQTT_TX_BUFFER_TOO_SHORT_def
  STATE_MQTT_QOS1_REPUB_EXCEED_MAX_def STATE_MQTT_PUB_QOS_INVALID_def STATE_MQTT_IN_OFFLINE_STATUS_def
  STATE_MQTT_RECV_UNKNOWN_PACKET_def MQTT_PUBLISH_PACKET_ERROR_def MQTT_PUBLISH_ACK_PACKET_ERROR_def
  MQTTPACKET_BUFFER_TOO_SHORT_def

definition set_client_state :: "mc_state \<Rightarrow> 'n mc \<Rightarrow> 'n mc" where
  "set_client_state s c = c\<lparr>mc_client_state := s\<rparr>"

section \<open>Writing and sending a packet\<close>

text \<open>A serializer runs on the send buffer.\<close>

definition serialize ::
  "(byte list \<Rightarrow> int \<Rightarrow> (int \<times> byte list) option) \<Rightarrow> 'n mc \<Rightarrow> (int \<times> 'n mc) option" where
  "serialize f c = do {
     buf \<leftarrow> mc_buf_send c;
     (len, buf') \<leftarrow> f buf (int (mc_buf_size_send c));
     Some (len, c\<lparr>mc_buf_send := Some buf'\<rparr>)
   }"

definition MQTTPuback :: "'n platform \<Rightarrow> int \<Rightarrow> byte \<Rightarrow> 'n mc \<Rightarrow> (int \<times> 'n mc) option" where
  "MQTTPuback pf msgId t c =
     (let (timer, c1) = utils_time_countdown_ms pf (mc_request_timeout c) c
      in if t \<noteq> PUBACK then Some (STATE_MQTT_SERIALIZE_PUBACK_ERROR, c1)
         else
           let (rc, c2) = alloc_send_buffer pf 0 c1
           in if rc < 0 then Some (rc, c2)
              else do {
                (len, c3) \<leftarrow> serialize (\<lambda>buf size. MQTTSerialize_ack buf size PUBACK 0 msgId) c2;
                if len \<le> 0 then Some (STATE_MQTT_SERIALIZE_PUBACK_ERROR, reset_send_buffer c3)
                else do {
                  (rc2, c4) \<leftarrow> send_buffer pf len timer c3;
                  Some (if rc2 < 0 then rc2 else 0, reset_send_buffer c4)
                }
              })"

section \<open>Publications that wait for an acknowledgement\<close>

definition iotx_mc_push_pubInfo_to :: "'n platform \<Rightarrow> int \<Rightarrow> nat \<Rightarrow> 'n mc \<Rightarrow> (int \<times> 'n mc) option" where
  "iotx_mc_push_pubInfo_to pf len msgId c =
     (if len < 0 \<or> len > int (mc_buf_size_send c) then Some (STATE_MQTT_TX_BUFFER_TOO_SHORT, c)
      else if length (mc_list_pub_wait_ack c) \<ge> IOTX_MC_REPUB_NUM_MAX then
        Some (STATE_MQTT_QOS1_REPUB_EXCEED_MAX, c)
      else
        let (ok, c1) = plat (pf_malloc pf (pf_sizeof_pub pf + nat len)) c
        in if \<not> ok then Some (STATE_SYS_DEPEND_MALLOC, c1)
           else
             let (now, c2) = iotx_time_start pf c1
             in do {
               buf \<leftarrow> mc_buf_send c2;
               if length buf < nat len then None
               else Some (0, c2\<lparr>mc_list_pub_wait_ack := mc_list_pub_wait_ack c2 @
                 [\<lparr>pub_start_time = now, pub_node_state = IOTX_MC_NODE_STATE_NORMANL,
                   pub_msg_id = msgId, pub_buf = take (nat len) buf\<rparr>]\<rparr>)
             })"

definition iotx_mc_mask_pubInfo_from :: "int \<Rightarrow> 'n mc \<Rightarrow> 'n mc" where
  "iotx_mc_mask_pubInfo_from msgId c = c\<lparr>mc_list_pub_wait_ack :=
     map (\<lambda>node. if int (pub_msg_id node) = msgId then node\<lparr>pub_node_state := IOTX_MC_NODE_STATE_INVALID\<rparr>
       else node) (mc_list_pub_wait_ack c)\<rparr>"

definition MQTTRePublish :: "'n platform \<Rightarrow> byte list \<Rightarrow> 'n mc \<Rightarrow> (int \<times> 'n mc) option" where
  "MQTTRePublish pf buf c =
     (let (timer, c1) = utils_time_countdown_ms pf (mc_request_timeout c) c
      in do {
        (rc, c2) \<leftarrow> iotx_mc_send_packet pf buf timer c1;
        Some (if rc \<noteq> 0 then STATE_SYS_DEPEND_NWK_CLOSE else 0, c2)
      })"

text \<open>The loop over the list; the result is the list that is left.\<close>

fun pub_info_loop :: "'n platform \<Rightarrow> pub_info list \<Rightarrow> 'n mc \<Rightarrow> (pub_info list \<times> 'n mc) option" where
  "pub_info_loop pf [] c = Some ([], c)"
| "pub_info_loop pf (node # nodes) c =
     (if pub_node_state node = IOTX_MC_NODE_STATE_INVALID then pub_info_loop pf nodes c
      else if mc_client_state c \<noteq> IOTX_MC_STATE_CONNECTED then do {
        (rest, c1) \<leftarrow> pub_info_loop pf nodes c;
        Some (node # rest, c1)
      }
      else
        let (spent, c1) = utils_time_spend pf (pub_start_time node) c
        in if spent \<le> u32 (mc_request_timeout c1 * 2) then do {
             (rest, c2) \<leftarrow> pub_info_loop pf nodes c1;
             Some (node # rest, c2)
           }
           else do {
             (rc, c2) \<leftarrow> MQTTRePublish pf (pub_buf node) c1;
             let (now, c3) = iotx_time_start pf c2;
             let node' = node\<lparr>pub_start_time := now\<rparr>;
             if rc = STATE_SYS_DEPEND_NWK_CLOSE then
               Some (node' # nodes, set_client_state IOTX_MC_STATE_DISCONNECTED c3)
             else do {
               (rest, c4) \<leftarrow> pub_info_loop pf nodes c3;
               Some (node' # rest, c4)
             }
           })"

definition MQTTPubInfoProc :: "'n platform \<Rightarrow> 'n mc \<Rightarrow> (int \<times> 'n mc) option" where
  "MQTTPubInfoProc pf c = do {
     (nodes, c1) \<leftarrow> pub_info_loop pf (mc_list_pub_wait_ack c) c;
     Some (0, c1\<lparr>mc_list_pub_wait_ack := nodes\<rparr>)
   }"

section \<open>Received packets\<close>

text \<open>\<open>connack_rc\<close> is 255 until it is read.\<close>

definition iotx_mc_handle_recv_CONNACK :: "'n mc \<Rightarrow> (int \<times> 'n mc) option" where
  "iotx_mc_handle_recv_CONNACK c = do {
     buf \<leftarrow> mc_buf_read c;
     (rc, out) \<leftarrow> MQTTDeserialize_connack buf;
     if rc \<noteq> 1 then Some (STATE_MQTT_DESERIALIZE_CONNACK_ERROR, c)
     else
       let connack_rc = (case out of Some (_, code) \<Rightarrow> code | None \<Rightarrow> 255)
       in Some (if connack_rc = 0 then 0
                else if connack_rc = 1 then -0x301
                else if connack_rc = 2 then -0x302
                else if connack_rc = 3 then -0x303
                else if connack_rc = 5 then -0x304
                else if connack_rc = 4 then -0x305
                else -0x317, c)
   }"

text \<open>An identifier that was not read is an uninitialised variable here.\<close>

definition iotx_mc_handle_recv_PUBACK :: "'n mc \<Rightarrow> (int \<times> 'n mc) option" where
  "iotx_mc_handle_recv_PUBACK c = do {
     buf \<leftarrow> mc_buf_read c;
     (rc, _, _, pid) \<leftarrow> MQTTDeserialize_ack buf;
     if rc \<noteq> 1 then Some (MQTT_PUBLISH_ACK_PACKET_ERROR, c)
     else do {
       mypacketid \<leftarrow> pid;
       let c1 = iotx_mc_mask_pubInfo_from mypacketid c;
       Some (0, handle_event (mc_handle_event c1) (EVENT_PUBLISH_SUCCESS mypacketid) c1)
     }
   }"

definition event_handle_sub :: "int \<Rightarrow> ack_type \<Rightarrow> 'n mc \<Rightarrow> 'n mc" where
  "event_handle_sub packet_id t c = c\<lparr>mc_list_sub_sync_ack :=
     map (\<lambda>node. if ss_packet_id node = packet_id then node\<lparr>ss_ack := t\<rparr> else node) (mc_list_sub_sync_ack c)\<rparr>"

text \<open>The flag after the loop over the granted levels: that of the last one.\<close>

definition suback_fail_flag :: "int list \<Rightarrow> int" where
  "suback_fail_flag granted = foldl (\<lambda>_ q. if q mod 256 = 0x80 then 1 else 0) (-1) granted"

definition iotx_mc_handle_recv_SUBACK :: "'n mc \<Rightarrow> (int \<times> 'n mc) option" where
  "iotx_mc_handle_recv_SUBACK c = do {
     buf \<leftarrow> mc_buf_read c;
     (rc, out) \<leftarrow> MQTTDeserialize_suback MUTLI_SUBSCIRBE_MAX buf;
     if rc < 0 then Some (STATE_MQTT_DESERIALIZE_SUBACK_ERROR, c)
     else do {
       (mypacketid, granted) \<leftarrow> out;
       let nack = (suback_fail_flag granted = 1);
       let c1 = event_handle_sub mypacketid (if nack then ACK_NACK else ACK_SUCCESS) c;
       Some (0, handle_event (mc_handle_event c1)
         (if nack then EVENT_SUBCRIBE_NACK mypacketid else EVENT_SUBCRIBE_SUCCESS mypacketid) c1)
     }
   }"

definition identify_topic :: "byte list" where
  "identify_topic = str ''/ext/auth/identity/response''"

definition iotx_mc_parse_identity_response :: "'n platform \<Rightarrow> topic_info \<Rightarrow> 'n mc \<Rightarrow> 'n mc" where
  "iotx_mc_parse_identity_response pf msg c =
     (if ti_topic msg = identify_topic then plat_do (pf_identity pf msg) c else c)"

text \<open>The loop over the handlers; the flag says whether one was called.\<close>

fun deliver_loop ::
  "topic_handle list \<Rightarrow> MQTTString \<Rightarrow> topic_info \<Rightarrow> bool \<Rightarrow> 'n mc \<Rightarrow> (bool \<times> 'n mc) option" where
  "deliver_loop [] topic msg flag c = Some (flag, c)"
| "deliver_loop (node # nodes) topic msg flag c = do {
     eq \<leftarrow> MQTTPacket_equals topic (th_filter node);
     hit \<leftarrow> (if eq then Some True else iotx_mc_is_topic_matched (Some (th_filter node)) (Some topic));
     if hit \<and> h_fp (th_handle node) \<noteq> None then
       deliver_loop nodes topic msg True (handle_event (th_handle node) (EVENT_PUBLISH_RECEIVED msg) c)
     else deliver_loop nodes topic msg flag c
   }"

definition iotx_mc_deliver_message ::
  "'n platform \<Rightarrow> MQTTString \<Rightarrow> topic_info \<Rightarrow> 'n mc \<Rightarrow> 'n mc option" where
  "iotx_mc_deliver_message pf topic msg0 c = do {
     d \<leftarrow> ls_data topic;
     let msg = msg0\<lparr>ti_topic := take (nat (ls_len topic)) d\<rparr>;
     let c1 = iotx_mc_parse_identity_response pf msg c;
     (flag, c2) \<leftarrow> deliver_loop (mc_list_sub_handle c1) topic msg False c1;
     Some (if flag then c2 else handle_event (mc_handle_event c2) (EVENT_PUBLISH_RECEIVED msg) c2)
   }"

definition publish_zero :: publish_out where
  "publish_zero = \<lparr>po_dup = 0, po_qos = 0, po_retained = 0, po_packetid = 0,
     po_topic = MQTTString_initializer, po_payload = None, po_payloadlen = 0\<rparr>"

definition iotx_mc_handle_recv_PUBLISH :: "'n platform \<Rightarrow> 'n mc \<Rightarrow> (int \<times> 'n mc) option" where
  "iotx_mc_handle_recv_PUBLISH pf c = do {
     buf \<leftarrow> mc_buf_read c;
     (rc, out) \<leftarrow> MQTTDeserialize_publish publish_zero buf;
     if rc \<noteq> 1 then Some (MQTT_PUBLISH_PACKET_ERROR, c)
     else if ls_len (po_topic out) = 0 \<or> ls_data (po_topic out) = None then
       Some (STATE_MQTT_DESERIALIZE_PUB_ERROR, c)
     else do {
       c1 \<leftarrow> iotx_mc_deliver_message pf (po_topic out)
         \<lparr>ti_packet_id = po_packetid out, ti_qos = po_qos out, ti_dup = po_dup out,
          ti_retain = po_retained out, ti_topic = [],
          ti_payload_len = nat (po_payloadlen out mod 4294967296), ti_payload = po_payload out\<rparr> c;
       if po_qos out = 0 then Some (0, c1)
       else if po_qos out = 1 then MQTTPuback pf (po_packetid out) PUBACK c1
       else if po_qos out = 2 then MQTTPuback pf (po_packetid out) PUBREC c1
       else Some (STATE_MQTT_PUB_QOS_INVALID, c1)
     }
   }"

definition iotx_mc_handle_recv_UNSUBACK :: "'n mc \<Rightarrow> (int \<times> 'n mc) option" where
  "iotx_mc_handle_recv_UNSUBACK c = do {
     buf \<leftarrow> mc_buf_read c;
     (rc, pid) \<leftarrow> MQTTDeserialize_unsuback buf;
     if rc \<noteq> 1 then Some (STATE_MQTT_DESERIALIZE_UNSUBACK_ERROR, c)
     else Some (0, handle_event (mc_handle_event c)
       (EVENT_UNSUBCRIBE_SUCCESS (case pid of Some p \<Rightarrow> p | None \<Rightarrow> 0)) c)
   }"

section \<open>One cycle\<close>

definition handle_packet :: "'n platform \<Rightarrow> byte \<Rightarrow> int \<Rightarrow> 'n mc \<Rightarrow> (int \<times> 'n mc) option" where
  "handle_packet pf packetType rc c =
     (if packetType = CONNACK then Some (rc, c)
      else if packetType = PUBACK then iotx_mc_handle_recv_PUBACK c
      else if packetType = SUBACK then iotx_mc_handle_recv_SUBACK c
      else if packetType = PUBLISH then iotx_mc_handle_recv_PUBLISH pf c
      else if packetType = UNSUBACK then iotx_mc_handle_recv_UNSUBACK c
      else if packetType = PINGRESP then Some (0, c)
      else Some (STATE_MQTT_RECV_UNKNOWN_PACKET, c))"

definition iotx_mc_cycle :: "'n platform \<Rightarrow> nat \<Rightarrow> 'n mc \<Rightarrow> (int \<times> 'n mc) option" where
  "iotx_mc_cycle pf timer c =
     (if mc_client_state c \<noteq> IOTX_MC_STATE_CONNECTED then Some (STATE_MQTT_IN_OFFLINE_STATUS, c)
      else if IOTX_MC_KEEPALIVE_PROBE_MAX < mc_keepalive_probes c then
        Some (STATE_MQTT_IN_OFFLINE_STATUS,
          (set_client_state IOTX_MC_STATE_DISCONNECTED c)\<lparr>mc_keepalive_probes := 0\<rparr>)
      else do {
        (rc, packetType, c1) \<leftarrow> iotx_mc_read_packet pf timer c;
        if rc \<noteq> 0 then
          let c2 = reset_recv_buffer c1
          in Some (STATE_SYS_DEPEND_NWK_CLOSE,
               if rc = STATE_SYS_DEPEND_NWK_CLOSE then set_client_state IOTX_MC_STATE_DISCONNECTED c2 else c2)
        else if packetType = 0 then Some (0, reset_recv_buffer c1)
        else do {
          (rc2, c2) \<leftarrow> handle_packet pf packetType rc (c1\<lparr>mc_keepalive_probes := 0\<rparr>);
          Some (rc2, reset_recv_buffer c2)
        }
      })"

end
