(* ===== verification/Mqtt_Wire.thy ===== *)
theory Mqtt_Wire
  imports Mqtt_Packet
begin

text \<open>
  What the serializers put on the wire: every writer is a \<open>write_bytes\<close> of bytes given in
  closed form, so packets are compositions of fields, stay inside the buffer, and the
  deserializers read them back field by field.
\<close>

section \<open>Writers as bytes\<close>

text \<open>Facts that turn a writer into \<open>write_bytes\<close>.\<close>

named_theorems wire \<open>writers in closed form\<close>

lemma write_bytes_append:
  "write_bytes (xs @ ys) s = (write_bytes xs s \<bind> write_bytes ys)"
  by (auto simp: write_bytes_def overwrite_def ac_simps)

lemma write_bytes_Nil: "snd s \<le> length (fst s) \<Longrightarrow> write_bytes [] s = Some s"
  by (cases s) (simp add: write_bytes_def overwrite_def)

lemma write_then_Nil: "(write_bytes xs s \<bind> write_bytes []) = write_bytes xs s"
  by (simp flip: write_bytes_append)

lemma writeChar_wire [wire]: "writeChar c = write_bytes [c]"
proof
  fix s :: wbuf
  show "writeChar c s = write_bytes [c] s"
    by (cases s) (auto simp: writeChar_def write_bytes_def overwrite_def upd_conv_take_nth_drop)
qed

text \<open>A 16 bit field, most significant byte first.\<close>

definition be16 :: "nat \<Rightarrow> byte list" where
  "be16 n = [of_nat (n div 256), of_nat (n mod 256)]"

lemma length_be16 [simp]: "length (be16 n) = 2"
  by (simp add: be16_def)

lemma uint_of_nat_byte: "k < 256 \<Longrightarrow> uint (of_nat k :: byte) = int k"
  by (simp add: unsigned_of_nat take_bit_nat_eq_self_iff)

lemma be16_value:
  assumes "n < 65536"
  shows "256 * uint (of_nat (n div 256) :: byte) + uint (of_nat (n mod 256) :: byte) = int n"
proof -
  have "n div 256 < 256" using assms by (simp add: less_mult_imp_div_less)
  then have "256 * uint (of_nat (n div 256) :: byte) + uint (of_nat (n mod 256) :: byte)
      = int (256 * (n div 256) + n mod 256)"
    using uint_of_nat_byte [of "n div 256"] uint_of_nat_byte [of "n mod 256"]
    by (simp add: zdiv_int zmod_int)
  then show ?thesis by (simp only: mult_div_mod_eq)
qed

lemma sdiv_smod_nat [simp]: "int n sdiv 256 = int (n div 256)" "int n smod 256 = int (n mod 256)"
  "int n sdiv 128 = int (n div 128)" "int n smod 128 = int (n mod 128)"
  by (simp_all add: signed_divide_int_def signed_modulo_int_def sgn_if zdiv_int zmod_int)

lemma writeInt_wire [wire]: "writeInt (int n) = write_bytes (be16 n)"
proof
  fix s
  show "writeInt (int n) s = write_bytes (be16 n) s"
    using write_bytes_append [of "[of_nat (n div 256)]" "[of_nat (n mod 256)]" s]
    by (simp add: writeInt_def be16_def writeChar_wire)
qed

lemma writeCString_wire [wire]: "writeCString cs = write_bytes (be16 (length cs) @ cs)"
  by (rule ext) (simp add: writeCString_def writeInt_wire write_bytes_append)

text \<open>A string that has a C string or a pointer with a length, not both.\<close>

definition str_ok :: "MQTTString \<Rightarrow> bool" where
  "str_ok ms \<longleftrightarrow> (case cstring ms of
       Some cs \<Rightarrow> ls_len ms \<le> 0 \<and> length cs < 65536
     | None \<Rightarrow> 0 \<le> ls_len ms \<and> ls_len ms < 65536
         \<and> (0 < ls_len ms \<longrightarrow> (\<exists>d. ls_data ms = Some d \<and> ls_len ms \<le> int (length d))))"

definition str_bytes :: "MQTTString \<Rightarrow> byte list" where
  "str_bytes ms = (case cstring ms of
       Some cs \<Rightarrow> cs
     | None \<Rightarrow> (case ls_data ms of Some d \<Rightarrow> take (nat (ls_len ms)) d | None \<Rightarrow> []))"

lemma str_ok_length:
  assumes "str_ok ms"
  shows "MQTTstrlen ms = int (length (str_bytes ms))" "length (str_bytes ms) < 65536"
  using assms
  by (auto simp: str_ok_def MQTTstrlen_def str_bytes_def min_def split: option.splits)

definition str_field :: "MQTTString \<Rightarrow> byte list" where
  "str_field ms = be16 (length (str_bytes ms)) @ str_bytes ms"

lemma length_str_field [simp]: "length (str_field ms) = 2 + length (str_bytes ms)"
  by (simp add: str_field_def)

lemma writeMQTTString_wire:
  assumes "str_ok ms"
  shows "writeMQTTString ms s = write_bytes (str_field ms) s"
proof (cases "cstring ms")
  case (Some cs)
  then show ?thesis
    using assms by (simp add: writeMQTTString_def str_ok_def writeCString_wire str_field_def str_bytes_def)
next
  case None
  show ?thesis
  proof (cases "0 < ls_len ms")
    case True
    obtain d where d: "ls_data ms = Some d" "ls_len ms \<le> int (length d)"
      using assms None True by (auto simp: str_ok_def)
    obtain n where n: "ls_len ms = int n" using True nonneg_int_cases [of "ls_len ms"] by auto
    have "str_bytes ms = take n d" "n \<le> length d" using None d n by (simp_all add: str_bytes_def)
    then show ?thesis
      using True d n by (simp add: writeMQTTString_def str_field_def writeInt_wire write_bytes_append min_def)
  next
    case False
    then have "ls_len ms = 0" using assms None by (simp add: str_ok_def)
    then show ?thesis
      using None writeInt_wire [of 0]
      by (simp add: writeMQTTString_def str_field_def str_bytes_def split: option.split)
  qed
qed

section \<open>The remaining length\<close>

text \<open>Groups of seven bits, least significant first, with a continuation bit.\<close>

fun varint :: "nat \<Rightarrow> byte list" where
  "varint n = (if n < 128 then [of_nat n] else (of_nat (n mod 128) OR 0x80) # varint (n div 128))"

declare varint.simps [simp del]

lemma MQTTPacket_encode_wire [wire]: "MQTTPacket_encode (int n) = write_bytes (varint n)"
proof
  show "MQTTPacket_encode (int n) s = write_bytes (varint n) s" for s
  proof (induction n arbitrary: s rule: varint.induct)
    case (1 n)
    show ?case
    proof (cases "n < 128")
      case True
      then have "int n sdiv 128 = 0" "varint n = [of_nat n]" by (simp_all add: varint.simps [of n])
      then show ?thesis
        using True by (simp only: MQTTPacket_encode.simps [of "int n"] Let_def writeChar_wire) simp
    next
      case False
      then have "write_bytes (varint n) s
          = (write_bytes [of_nat (n mod 128) OR 0x80] s \<bind> write_bytes (varint (n div 128)))"
        using write_bytes_append [of "[of_nat (n mod 128) OR 0x80]" "varint (n div 128)" s]
        by (simp add: varint.simps [of n])
      moreover have "0 < n div 128" using False by (simp add: div_greater_zero_iff)
      then have "MQTTPacket_encode (int n) s
          = (write_bytes [of_nat (n mod 128) OR 0x80] s \<bind> MQTTPacket_encode (int (n div 128)))"
        by (simp only: MQTTPacket_encode.simps [of "int n"] Let_def writeChar_wire sdiv_smod_nat) simp
      moreover have "MQTTPacket_encode (int (n div 128)) = write_bytes (varint (n div 128))"
        by (rule ext) (rule 1 [OF False])
      ultimately show ?thesis by simp
    qed
  qed
qed

lemma varint_length:
  "length (varint n) = (if n < 128 then 1 else if n < 16384 then 2 else if n < 2097152 then 3
     else if n < 268435456 then 4 else 4 + length (varint (n div 268435456)))"
proof -
  have "length (varint n) = (if n < 128 then 1 else Suc (length (varint (n div 128))))" for n
    by (simp add: varint.simps [of n])
  note e = this
  have d: "n div 128 div 128 = n div 16384" "n div 16384 div 128 = n div 2097152"
    "n div 2097152 div 128 = n div 268435456" by (simp_all flip: div_mult2_eq)
  show ?thesis
    using e [of n] e [of "n div 128"] e [of "n div 16384"] e [of "n div 2097152"] d
    by (auto simp: div_less_iff_less_mult)
qed

lemma varint_pos: "0 < length (varint n)"
  by (simp add: varint.simps [of n])

text \<open>The check of the serializers leaves room for the whole packet.\<close>

lemma packet_fits:
  assumes "n < 268435456"
  shows "int (1 + length (varint n) + n) \<le> MQTTPacket_len (int n)"
  using assms by (auto simp: MQTTPacket_len_def varint_length [of n] Let_def)

section \<open>Readers\<close>

lemma readChar_at: "drop p m = c # rest \<Longrightarrow> readChar m p = Some (c, p + 1)"
  by (cases "p < length m") (auto simp: readChar_def Cons_nth_drop_Suc [symmetric])

lemma drop_next: "drop p m = xs @ rest \<Longrightarrow> drop (p + length xs) m = rest"
  by (metis add.commute append_eq_conv_conj drop_drop)

lemma readInt_at:
  assumes "drop p m = be16 n @ rest" "n < 65536"
  shows "readInt m p = Some (int n, p + 2)"
proof -
  have l: "p + 1 < length m"
    using arg_cong [OF assms(1), of length] by simp
  have "m ! p = drop p m ! 0" "m ! (p + 1) = drop p m ! 1" using l by simp_all
  then have "m ! p = of_nat (n div 256)" "m ! (p + 1) = of_nat (n mod 256)"
    using assms(1) by (simp_all add: be16_def)
  then show ?thesis using l be16_value [OF assms(2)] by (simp add: readInt_def)
qed

lemma bufchar_fn_at: "drop p m = c # rest \<Longrightarrow> bufchar_fn m p = Some (1, c, p + 1)"
  by (simp add: bufchar_fn_def readChar_at)

lemma group_bits:
  assumes "x < 128"
  shows "uint ((of_nat x :: byte) AND 127) = int x" "(of_nat x :: byte) AND 128 = 0"
    "uint ((of_nat x OR 0x80 :: byte) AND 127) = int x" "(of_nat x OR 0x80 :: byte) AND 128 \<noteq> 0"
proof -
  have "\<forall>x<128. uint ((of_nat x :: byte) AND 127) = int x \<and> (of_nat x :: byte) AND 128 = 0
    \<and> uint ((of_nat x OR 0x80 :: byte) AND 127) = int x \<and> (of_nat x OR 0x80 :: byte) AND 128 \<noteq> 0"
    unfolding atLeastLessThan_iff [of _ 0 128, symmetric, simplified] Ball_def [symmetric] by code_simp
  then show "uint ((of_nat x :: byte) AND 127) = int x" "(of_nat x :: byte) AND 128 = 0"
    "uint ((of_nat x OR 0x80 :: byte) AND 127) = int x" "(of_nat x OR 0x80 :: byte) AND 128 \<noteq> 0"
    using assms by blast+
qed

lemma decode_loop_at:
  assumes "drop p m = varint n @ rest" "len + int (length (varint n)) \<le> 4"
  shows "decode_loop (bufchar_fn m) mult len val p
    = Some (len + int (length (varint n)), val + mult * int n, p + length (varint n))"
  using assms
proof (induction n arbitrary: p mult len val rule: varint.induct)
  case (1 n)
  show ?case
  proof (cases "n < 128")
    case True
    then have "bufchar_fn m p = Some (1, of_nat n, p + 1)"
      using 1(2) by (intro bufchar_fn_at) (simp add: varint.simps [of n])
    then show ?thesis
      using True 1(3) group_bits [OF True]
      by (subst decode_loop.simps) (simp add: MAX_NO_OF_REMAINING_LENGTH_BYTES_def varint.simps [of n])
  next
    case False
    let ?c = "of_nat (n mod 128) OR 0x80 :: byte"
    have v: "varint n = ?c # varint (n div 128)" using False by (simp add: varint.simps [of n])
    have b: "bufchar_fn m p = Some (1, ?c, p + 1)" using 1(2) v by (intro bufchar_fn_at) simp
    have d: "drop (p + 1) m = varint (n div 128) @ rest"
      using drop_next [of p m "[?c]"] 1(2) v by simp
    have l: "len + 1 + int (length (varint (n div 128))) \<le> 4" using 1(3) v by simp
    note g = group_bits [of "n mod 128", simplified]
    have "int n = 128 * int (n div 128) + int (n mod 128)"
      unfolding of_nat_mod of_nat_div by simp
    then have e: "val + mult * int n = val + int (n mod 128) * mult + mult * 128 * int (n div 128)"
      by (simp add: algebra_simps)
    show ?thesis
      using 1(1) [OF False d l] l b g(3,4) e
      by (subst decode_loop.simps) (simp add: MAX_NO_OF_REMAINING_LENGTH_BYTES_def v)
  qed
qed

lemma decodeBuf_at:
  assumes "drop p m = varint n @ rest" "n < 268435456"
  shows "MQTTPacket_decodeBuf m p = Some (int (length (varint n)), int n)"
proof -
  have "int (length (varint n)) \<le> 4" using assms(2) by (simp add: varint_length [of n])
  then show ?thesis
    using decode_loop_at [OF assms(1), of 0 1 0] by (simp add: MQTTPacket_decodeBuf_def MQTTPacket_decode_def)
qed


section \<open>Packets\<close>

lemma wire_seq [wire]:
  "(write_bytes xs s \<bind> (\<lambda>t. write_bytes ys t \<bind> f)) = (write_bytes (xs @ ys) s \<bind> f)"
  by (simp add: write_bytes_append)

lemma wire_end [wire]:
  "(write_bytes xs (buf, 0) \<bind> (\<lambda>(b, p). Some (int p, b)))
    = (if length xs \<le> length buf then Some (int (length xs), overwrite 0 xs buf) else None)"
  by (simp add: write_bytes_def)

text \<open>What a serializer may do: report that the buffer is too short and leave it alone, or
  write a packet to its beginning.\<close>

definition emits :: "byte list \<Rightarrow> int \<Rightarrow> byte list \<Rightarrow> (int \<times> byte list) option \<Rightarrow> bool" where
  "emits buf buflen xs r \<longleftrightarrow> r = Some (MQTTPACKET_BUFFER_TOO_SHORT, buf)
     \<or> int (length xs) \<le> buflen \<and> 0 < length xs \<and> r = Some (int (length xs), overwrite 0 xs buf)"

definition packet :: "byte \<Rightarrow> byte list \<Rightarrow> byte list" where
  "packet header body = header # varint (length body) @ body"

lemma length_packet: "length (packet h body) = 1 + length (varint (length body)) + length body"
  by (simp add: packet_def)

text \<open>The common end of the serializers: \<open>g\<close> writes the body.\<close>

definition fin :: "wbuf \<Rightarrow> (int \<times> byte list) option" where
  "fin = (\<lambda>(b, p). Some (int p, b))"

lemma emits_packet:
  assumes g: "\<And>s. g s = (write_bytes body s \<bind> fin)"
    and small: "length body < 268435456" and buf: "buflen \<le> int (length buf)"
  shows "emits buf buflen (packet h body)
    (if MQTTPacket_len (int (length body)) > buflen then Some (MQTTPACKET_BUFFER_TOO_SHORT, buf)
     else writeChar h (buf, 0) \<bind> (\<lambda>s1. MQTTPacket_encode (int (length body)) s1 \<bind> g))"
proof -
  have "(writeChar h (buf, 0) \<bind> (\<lambda>s1. MQTTPacket_encode (int (length body)) s1 \<bind> g))
      = (write_bytes (packet h body) (buf, 0) \<bind> fin)"
    unfolding g by (simp add: wire packet_def)
  also have "\<dots> = (if length (packet h body) \<le> length buf
      then Some (int (length (packet h body)), overwrite 0 (packet h body) buf) else None)"
    by (simp add: fin_def wire_end)
  finally show ?thesis
    using packet_fits [OF small] buf by (auto simp: emits_def length_packet)
qed

text \<open>The bodies of the packets.\<close>

definition publish_body :: "int \<Rightarrow> nat \<Rightarrow> MQTTString \<Rightarrow> byte list \<Rightarrow> byte list" where
  "publish_body qos pid topic payload = str_field topic @ (if qos > 0 then be16 pid else []) @ payload"

definition publish_header :: "byte \<Rightarrow> int \<Rightarrow> byte \<Rightarrow> byte" where
  "publish_header dup qos retained = MQTT_HEADER_SET_RETAIN (MQTT_HEADER_SET_QOS
     (MQTT_HEADER_SET_DUP (MQTT_HEADER_SET_TYPE 0 PUBLISH) dup) qos) retained"

lemma publish_wire:
  assumes t: "str_ok topic" and p: "plen \<le> length payload"
    and body: "body = publish_body qos pid topic (take plen payload)"
    and small: "length body < 268435456" and buf: "buflen \<le> int (length buf)"
  shows "emits buf buflen (packet (publish_header dup qos retained) body)
    (MQTTSerialize_publish buf buflen dup qos retained (int pid) topic payload (int plen))"
proof -
  have len: "MQTTSerialize_publishLength qos topic (int plen) = int (length body)"
    using p by (simp add: MQTTSerialize_publishLength_def body publish_body_def str_ok_length(1) [OF t] min_def)
  have "(writeMQTTString topic s \<bind> (\<lambda>s3. (if qos > 0 then writeInt (int pid) s3 else Some s3) \<bind>
      (\<lambda>s4. write_bytes (take plen payload) s4 \<bind> fin))) = (write_bytes body s \<bind> fin)" for s
    by (cases "qos > 0") (simp_all add: wire writeMQTTString_wire [OF t] body publish_body_def)
  from emits_packet [OF this small buf, of "publish_header dup qos retained"] show ?thesis
    unfolding MQTTSerialize_publish_def len Let_def publish_header_def [symmetric]
    using p by (simp flip: fin_def cong: if_cong split del: if_split)
qed

definition ack_header :: "byte \<Rightarrow> byte \<Rightarrow> byte" where
  "ack_header t dup = MQTT_HEADER_SET_QOS (MQTT_HEADER_SET_DUP (MQTT_HEADER_SET_TYPE 0 t) dup)
     (if t = PUBREL then 1 else 0)"

lemma ack_wire:
  assumes "buflen \<le> int (length buf)"
  shows "emits buf buflen (packet (ack_header t dup) (be16 pid)) (MQTTSerialize_ack buf buflen t dup (int pid))"
proof -
  have v: "MQTTPacket_encode 2 = write_bytes [2]" "varint 2 = [2]"
    using MQTTPacket_encode_wire [of 2] by (simp_all add: varint.simps [of 2])
  show ?thesis
    unfolding MQTTSerialize_ack_def Let_def ack_header_def [symmetric]
    using assms by (simp add: wire v packet_def emits_def)
qed

lemma zero_wire:
  assumes "buflen \<le> int (length buf)"
  shows "emits buf buflen (packet (MQTT_HEADER_SET_TYPE 0 t) []) (MQTTSerialize_zero buf buflen t)"
proof -
  have v: "MQTTPacket_encode 0 = write_bytes [0]" "varint 0 = [0]"
    using MQTTPacket_encode_wire [of 0] by (simp_all add: varint.simps [of 0])
  show ?thesis
    unfolding MQTTSerialize_zero_def using assms by (simp add: wire v packet_def emits_def)
qed


fun subs_body :: "(MQTTString \<times> int) list \<Rightarrow> byte list" where
  "subs_body [] = []"
| "subs_body ((f, q) # fs) = str_field f @ word_of_int q # subs_body fs"

fun filters_body :: "MQTTString list \<Rightarrow> byte list" where
  "filters_body [] = []"
| "filters_body (f # fs) = str_field f @ filters_body fs"

lemma write_subscriptions_wire:
  "list_all (\<lambda>(f, _). str_ok f) subs
    \<Longrightarrow> (write_subscriptions subs s \<bind> fin) = (write_bytes (subs_body subs) s \<bind> fin)"
  if "snd s \<le> length (fst s)"
  using that
proof (induction subs arbitrary: s)
  case Nil
  then show ?case by (simp add: write_bytes_Nil)
next
  case (Cons x subs)
  obtain f q where x: "x = (f, q)" by fastforce
  have ok: "str_ok f" "list_all (\<lambda>(f, _). str_ok f) subs" using Cons.prems x by simp_all
  have step: "(write_subscriptions subs t \<bind> fin) = (write_bytes (subs_body subs) t \<bind> fin)"
    if "write_bytes xs s = Some t" for xs t
    using that by (intro Cons.IH ok) (auto simp: write_bytes_def split: if_splits)
  have "(write_subscriptions (x # subs) s \<bind> fin)
      = (write_bytes (str_field f @ [word_of_int q]) s \<bind> (\<lambda>t. write_subscriptions subs t \<bind> fin))"
    by (simp add: x writeMQTTString_wire [OF ok(1)] writeChar_wire write_bytes_append)
  also have "\<dots> = (write_bytes (str_field f @ [word_of_int q]) s \<bind> (\<lambda>t. write_bytes (subs_body subs) t \<bind> fin))"
    using step by (cases "write_bytes (str_field f @ [word_of_int q]) s") simp_all
  finally show ?case using wire_seq [of "str_field f @ [word_of_int q]" s "subs_body subs" fin] x by simp
qed

lemma write_filters_wire:
  "list_all str_ok fs \<Longrightarrow> (write_filters fs s \<bind> fin) = (write_bytes (filters_body fs) s \<bind> fin)"
  if "snd s \<le> length (fst s)"
  using that
proof (induction fs arbitrary: s)
  case Nil
  then show ?case by (simp add: write_bytes_Nil)
next
  case (Cons f fs)
  have ok: "str_ok f" "list_all str_ok fs" using Cons.prems by simp_all
  have step: "(write_filters fs t \<bind> fin) = (write_bytes (filters_body fs) t \<bind> fin)"
    if "write_bytes xs s = Some t" for xs t
    using that by (intro Cons.IH ok) (auto simp: write_bytes_def split: if_splits)
  have "(write_filters (f # fs) s \<bind> fin)
      = (write_bytes (str_field f) s \<bind> (\<lambda>t. write_bytes (filters_body fs) t \<bind> fin))"
    using step by (simp add: writeMQTTString_wire [OF ok(1)])
      (cases "write_bytes (str_field f) s"; simp)
  then show ?case using wire_seq [of "str_field f" s "filters_body fs" fin] by simp
qed

lemma subs_length:
  "list_all (\<lambda>(f, _). str_ok f) subs
    \<Longrightarrow> MQTTSerialize_subscribeLength (map fst subs) = int (length (be16 pid @ subs_body subs))"
  by (induction subs rule: subs_body.induct)
    (auto simp: MQTTSerialize_subscribeLength_def str_ok_length(1))

lemma filters_length:
  "list_all str_ok fs
    \<Longrightarrow> MQTTSerialize_unsubscribeLength fs = int (length (be16 pid @ filters_body fs))"
  by (induction fs) (auto simp: MQTTSerialize_unsubscribeLength_def str_ok_length(1))

definition request_header :: "byte \<Rightarrow> byte \<Rightarrow> byte" where
  "request_header t dup = MQTT_HEADER_SET_QOS (MQTT_HEADER_SET_DUP (MQTT_HEADER_SET_TYPE 0 t) dup) 1"

lemma write_bytes_in: "write_bytes xs s = Some t \<Longrightarrow> snd t \<le> length (fst t)"
  by (auto simp: write_bytes_def split: if_splits)

lemma then_body:
  assumes "\<And>t. snd t \<le> length (fst t) \<Longrightarrow> g t = (write_bytes ys t \<bind> f)"
  shows "(write_bytes xs s \<bind> g) = (write_bytes (xs @ ys) s \<bind> f)"
proof (cases "write_bytes xs s")
  case (Some t)
  then show ?thesis using assms [OF write_bytes_in] by (simp add: write_bytes_append)
qed (simp add: write_bytes_append)

lemma subscribe_wire:
  assumes ok: "list_all (\<lambda>(f, _). str_ok f) subs" and body: "body = be16 pid @ subs_body subs"
    and small: "length body < 268435456" and buf: "buflen \<le> int (length buf)"
  shows "emits buf buflen (packet (request_header SUBSCRIBE dup) body)
    (MQTTSerialize_subscribe buf buflen dup (int pid) subs)"
proof -
  have "(writeInt (int pid) s \<bind> (\<lambda>s3. write_subscriptions subs s3 \<bind> fin)) = (write_bytes body s \<bind> fin)" for s
    unfolding writeInt_wire body by (rule then_body) (rule write_subscriptions_wire [OF _ ok])
  from emits_packet [OF this small buf, of "request_header SUBSCRIBE dup"] show ?thesis
    unfolding MQTTSerialize_subscribe_def subs_length [OF ok, of pid] body [symmetric] Let_def
      request_header_def [symmetric]
    by (simp flip: fin_def cong: if_cong split del: if_split)
qed

lemma unsubscribe_wire:
  assumes ok: "list_all str_ok fs" and body: "body = be16 pid @ filters_body fs"
    and small: "length body < 268435456" and buf: "buflen \<le> int (length buf)"
  shows "emits buf buflen (packet (request_header UNSUBSCRIBE dup) body)
    (MQTTSerialize_unsubscribe buf buflen dup (int pid) fs)"
proof -
  have "(writeInt (int pid) s \<bind> (\<lambda>s3. write_filters fs s3 \<bind> fin)) = (write_bytes body s \<bind> fin)" for s
    unfolding writeInt_wire body by (rule then_body) (rule write_filters_wire [OF _ ok])
  from emits_packet [OF this small buf, of "request_header UNSUBSCRIBE dup"] show ?thesis
    unfolding MQTTSerialize_unsubscribe_def filters_length [OF ok, of pid] body [symmetric] Let_def
      request_header_def [symmetric]
    by (simp flip: fin_def cong: if_cong split del: if_split)
qed


lemma opt_step:
  assumes g: "\<And>t. snd t \<le> length (fst t) \<Longrightarrow> g t = (write_bytes ys t \<bind> f)"
    and s: "snd s \<le> length (fst s)" and w: "c \<Longrightarrow> w s = write_bytes xs s"
  shows "((if c then w s else Some s) \<bind> g) = (write_bytes ((if c then xs else []) @ ys) s \<bind> f)"
  using g [OF s] w then_body [OF g, of xs s] by simp

section \<open>The connect packet\<close>

lemma connect_flags_user: "connect_flags d AND 0x80 \<noteq> 0 \<longleftrightarrow> has_string (username d)"
  and connect_flags_password: "connect_flags d AND 0x40 \<noteq> 0 \<longleftrightarrow> has_string (password d)"
proof -
  have "will_qos (will d) AND mask 2 = will_qos (will d) mod 4"
    by (simp only: take_bit_eq_mask [symmetric] take_bit_eq_mod) simp
  then have "will_qos (will d) AND 3 = will_qos (will d) mod 4" by (simp add: mask_eq_exp_minus_1)
  then consider "will_qos (will d) AND 3 = 0" | "will_qos (will d) AND 3 = 1"
    | "will_qos (will d) AND 3 = 2" | "will_qos (will d) AND 3 = 3" by linarith
  then show "connect_flags d AND 0x80 \<noteq> 0 \<longleftrightarrow> has_string (username d)"
    "connect_flags d AND 0x40 \<noteq> 0 \<longleftrightarrow> has_string (password d)"
    by (cases; simp add: connect_flags_def Let_def)+
qed

definition connect_body :: "MQTTPacket_connectData \<Rightarrow> byte list" where
  "connect_body d =
     (if MQTTVersion d = 4 then be16 4 @ [0x4D, 0x51, 0x54, 0x54, 4]
      else be16 6 @ [0x4D, 0x51, 0x49, 0x73, 0x64, 0x70, 3])
     @ connect_flags d # be16 (keepAliveInterval d) @ str_field (clientID d)
     @ (if willFlag d \<noteq> 0 then str_field (will_topicName (will d)) @ str_field (will_message (will d)) else [])
     @ (if has_string (username d) then str_field (username d) else [])
     @ (if has_string (password d) then str_field (password d) else [])"

definition connect_ok :: "MQTTPacket_connectData \<Rightarrow> bool" where
  "connect_ok d \<longleftrightarrow> MQTTVersion d \<in> {3, 4} \<and> str_ok (clientID d) \<and> str_ok (username d) \<and> str_ok (password d)
     \<and> (willFlag d \<noteq> 0 \<longrightarrow> str_ok (will_topicName (will d)) \<and> str_ok (will_message (will d)))"

lemma connect_length:
  assumes "connect_ok d"
  shows "MQTTSerialize_connectLength d = int (length (connect_body d))"
  using assms unfolding connect_ok_def
  by (auto simp: MQTTSerialize_connectLength_def connect_body_def str_ok_length(1))

lemma connect_wire:
  assumes ok: "connect_ok d" and body: "body = connect_body d"
    and small: "length body < 268435456" and buf: "buflen \<le> int (length buf)"
  shows "emits buf buflen (packet (MQTT_HEADER_SET_TYPE 0 CONNECT) body) (MQTTSerialize_connect buf buflen d)"
proof -
  let ?pw = "if has_string (password d) then str_field (password d) else []"
  let ?us = "(if has_string (username d) then str_field (username d) else []) @ ?pw"
  let ?wl = "(if willFlag d \<noteq> 0 then str_field (will_topicName (will d)) @ str_field (will_message (will d)) else []) @ ?us"
  have sok: "str_ok (clientID d)" "str_ok (username d)" "str_ok (password d)"
    "willFlag d \<noteq> 0 \<Longrightarrow> str_ok (will_topicName (will d))" "willFlag d \<noteq> 0 \<Longrightarrow> str_ok (will_message (will d))"
    using ok by (simp_all add: connect_ok_def)
  have pw: "((if has_string (password d) then writeMQTTString (password d) s else Some s) \<bind> fin)
      = (write_bytes ?pw s \<bind> fin)" if "snd s \<le> length (fst s)" for s
    using opt_step [where g = fin and f = fin and ys = "[]", OF _ that]
    by (simp add: write_bytes_Nil writeMQTTString_wire [OF sok(3)])
  have us: "((if has_string (username d) then writeMQTTString (username d) s else Some s)
        \<bind> (\<lambda>s8. (if has_string (password d) then writeMQTTString (password d) s8 else Some s8) \<bind> fin))
      = (write_bytes ?us s \<bind> fin)" if "snd s \<le> length (fst s)" for s
    by (rule opt_step [OF pw that]) (simp_all add: writeMQTTString_wire [OF sok(2)])
  let ?g7 = "\<lambda>s7. (if has_string (username d) then writeMQTTString (username d) s7 else Some s7)
        \<bind> (\<lambda>s8. (if has_string (password d) then writeMQTTString (password d) s8 else Some s8) \<bind> fin)"
  have wl: "((if willFlag d \<noteq> 0 then writeMQTTString (will_topicName (will d)) s \<bind> writeMQTTString (will_message (will d))
        else Some s) \<bind> ?g7) = (write_bytes ?wl s \<bind> fin)" if "snd s \<le> length (fst s)" for s
    by (rule opt_step [OF us that])
      (simp_all add: writeMQTTString_wire [OF sok(4)] writeMQTTString_wire [OF sok(5)] write_bytes_append)
  let ?g6 = "\<lambda>s6. (if willFlag d \<noteq> 0 then writeMQTTString (will_topicName (will d)) s6 \<bind> writeMQTTString (will_message (will d))
        else Some s6) \<bind> ?g7"
  let ?hd = "\<lambda>s. if MQTTVersion d = 4 then writeCString [0x4D, 0x51, 0x54, 0x54] s \<bind> writeChar 4
       else writeCString [0x4D, 0x51, 0x49, 0x73, 0x64, 0x70] s \<bind> writeChar 3"
  let ?hb = "if MQTTVersion d = 4 then be16 4 @ [0x4D, 0x51, 0x54, 0x54, 4]
      else be16 6 @ [0x4D, 0x51, 0x49, 0x73, 0x64, 0x70, 3]"
  have hd: "?hd s = write_bytes ?hb s" for s
    using write_bytes_append [of "be16 4 @ [0x4D, 0x51, 0x54, 0x54]" "[4]" s]
      write_bytes_append [of "be16 6 @ [0x4D, 0x51, 0x49, 0x73, 0x64, 0x70]" "[3]" s]
    by (simp add: wire numeral_eq_Suc)
  let ?mb = "[connect_flags d] @ be16 (keepAliveInterval d) @ str_field (clientID d)"
  let ?g3 = "\<lambda>s3. writeChar (connect_flags d) s3 \<bind> (\<lambda>s4. writeInt (int (keepAliveInterval d)) s4
      \<bind> (\<lambda>s5. writeMQTTString (clientID d) s5 \<bind> ?g6))"
  have mid: "?g3 s = (write_bytes (?mb @ ?wl) s \<bind> fin)" for s
  proof -
    have "?g3 s = (write_bytes ?mb s \<bind> ?g6)"
      unfolding writeChar_wire writeInt_wire writeMQTTString_wire [OF sok(1)] wire_seq ..
    also have "\<dots> = (write_bytes (?mb @ ?wl) s \<bind> fin)" by (rule then_body [OF wl])
    finally show ?thesis .
  qed
  have "(?hd s \<bind> ?g3) = (write_bytes body s \<bind> fin)" for s
  proof -
    have "(?hd s \<bind> ?g3) = (write_bytes (?hb @ ?mb @ ?wl) s \<bind> fin)"
      unfolding hd by (rule then_body [OF mid])
    also have "?hb @ ?mb @ ?wl = body" by (simp add: body connect_body_def)
    finally show ?thesis .
  qed
  from emits_packet [OF this small buf, of "MQTT_HEADER_SET_TYPE 0 CONNECT"] show ?thesis
    unfolding MQTTSerialize_connect_def connect_length [OF ok] body [symmetric] Let_def
      connect_flags_user connect_flags_password
    by (simp flip: fin_def cong: if_cong split del: if_split)
qed

end
