(* ===== verification/Mqtt_Trip.thy ===== *)
theory Mqtt_Trip
  imports Mqtt_Wire
begin

text \<open>
  The deserializers on packets given by their bytes, the round trips with the serializers,
  and what happens on packets whose remaining length is too small.
\<close>

section \<open>The head of a packet\<close>

lemma packet_head:
  assumes "m = packet h body @ tail" "length body < 268435456"
  shows "readChar m 0 = Some (h, 1)"
    "MQTTPacket_decodeBuf m 1 = Some (int (length (varint (length body))), int (length body))"
    "drop (1 + length (varint (length body))) m = body @ tail"
    "1 + length (varint (length body)) + length body \<le> length m"
proof -
  have d: "drop 1 m = varint (length body) @ body @ tail" using assms(1) by (simp add: packet_def)
  show "readChar m 0 = Some (h, 1)" using assms(1) by (simp add: packet_def readChar_def)
  show "MQTTPacket_decodeBuf m 1 = Some (int (length (varint (length body))), int (length body))"
    by (rule decodeBuf_at [OF d assms(2)])
  show "drop (1 + length (varint (length body))) m = body @ tail"
    using drop_next [OF d] by simp
  show "1 + length (varint (length body)) + length body \<le> length m"
    using assms(1) by (simp add: packet_def)
qed

lemma readMQTTLenString_at:
  assumes "drop p m = be16 (length t) @ t @ rest" "length t < 65536" "int (p + 2 + length t) \<le> e"
  shows "readMQTTLenString m ms p e = Some (1, ms\<lparr>ls_len := int (length t), ls_data := Some (t @ rest),
    cstring := None\<rparr>, p + 2 + length t)"
proof -
  have "drop (p + 2) m = t @ rest" using drop_next [OF assms(1)] by simp
  then show ?thesis
    using readInt_at [OF assms(1,2)] assms(3) by (simp add: readMQTTLenString_def)
qed

lemma length_roundtrip:
  assumes n: "n < 268435456" and run: "MQTTPacket_encode (int n) (b, p) = Some (b', p')"
  shows "p < p' \<and> p' \<le> p + 4 \<and> MQTTPacket_decodeBuf b' p = Some (int (p' - p), int n)
    \<and> take p b' = take p b \<and> drop p' b' = drop p' b"
proof -
  have r: "p + length (varint n) \<le> length b" "b' = overwrite p (varint n) b" "p' = p + length (varint n)"
    using run by (auto simp: MQTTPacket_encode_wire write_bytes_def split: if_splits)
  have "drop p b' = varint n @ drop p' b" using r by (simp add: overwrite_def min_def)
  from decodeBuf_at [OF this n] show ?thesis
    using r varint_pos [of n] n by (simp add: overwrite_def min_def varint_length [of n])
qed

section \<open>Publish\<close>

lemma two_values: "(x :: byte) \<le> 1 \<Longrightarrow> x = 0 \<or> x = 1"
proof -
  assume "x \<le> 1"
  then have "unat x = 0 \<or> unat x = unat (1 :: byte)" by (auto simp: word_le_nat_alt)
  then show ?thesis by (metis unat_eq_zero word_unat_eq_iff)
qed

lemma publish_header_fields:
  assumes "dup \<le> 1" "0 \<le> qos" "qos \<le> 3" "retained \<le> 1"
  shows "MQTT_HEADER_GET_TYPE (publish_header dup qos retained) = PUBLISH"
    "MQTT_HEADER_GET_DUP (publish_header dup qos retained) = dup"
    "uint (MQTT_HEADER_GET_QOS (publish_header dup qos retained)) = qos"
    "MQTT_HEADER_GET_RETAIN (publish_header dup qos retained) = retained"
proof -
  have q: "qos = 0 \<or> qos = 1 \<or> qos = 2 \<or> qos = 3" using assms by linarith
  have "dup = 0 \<or> dup = 1" "retained = 0 \<or> retained = 1" using assms two_values by blast+
  with q show "MQTT_HEADER_GET_TYPE (publish_header dup qos retained) = PUBLISH"
    "MQTT_HEADER_GET_DUP (publish_header dup qos retained) = dup"
    "uint (MQTT_HEADER_GET_QOS (publish_header dup qos retained)) = qos"
    "MQTT_HEADER_GET_RETAIN (publish_header dup qos retained) = retained"
    by (elim disjE; simp add: publish_header_def mqtt_header_defs mqtt_types)+
qed

lemma deserialize_publish_at:
  assumes m: "m = packet h body @ tail" and small: "length body < 268435456"
    and body: "body = be16 (length t) @ t @ (if qos > 0 then be16 pid else []) @ payload"
    and t: "length t < 65536" and pid: "pid < 65536"
    and h: "MQTT_HEADER_GET_TYPE h = PUBLISH" "uint (MQTT_HEADER_GET_QOS h) = qos"
  shows "MQTTDeserialize_publish out m = Some (1, out\<lparr>po_dup := MQTT_HEADER_GET_DUP h, po_qos := qos,
      po_retained := MQTT_HEADER_GET_RETAIN h,
      po_topic := (po_topic out)\<lparr>ls_len := int (length t),
        ls_data := Some (t @ (if qos > 0 then be16 pid else []) @ payload @ tail), cstring := None\<rparr>,
      po_packetid := (if qos > 0 then int pid else po_packetid out),
      po_payloadlen := int (length payload), po_payload := Some (payload @ tail)\<rparr>)"
proof -
  note head = packet_head [OF m small]
  let ?p1 = "1 + length (varint (length body))"
  let ?opt = "if qos > 0 then be16 pid else []"
  have d1: "drop ?p1 m = be16 (length t) @ t @ ?opt @ payload @ tail"
    using head(3) by (simp add: body)
  have len: "length body = 2 + length t + length ?opt + length payload" by (simp add: body)
  have str: "readMQTTLenString m ms ?p1 (int ?p1 + int (length body)) = Some (1,
      ms\<lparr>ls_len := int (length t), ls_data := Some (t @ ?opt @ payload @ tail), cstring := None\<rparr>,
      ?p1 + 2 + length t)" for ms
    by (rule readMQTTLenString_at [OF d1 t]) (simp add: len)
  have d2: "drop (?p1 + 2 + length t) m = ?opt @ payload @ tail"
    using drop_next [of ?p1 m "be16 (length t) @ t"] d1 by simp
  have d3: "drop (?p1 + 2 + length t + length ?opt) m = payload @ tail"
    using drop_next [OF d2] .
  show ?thesis
  proof (cases "qos > 0")
    case True
    then have "readInt m (?p1 + 2 + length t) = Some (int pid, ?p1 + 2 + length t + 2)"
      using readInt_at [of "?p1 + 2 + length t" m pid] d2 pid by simp
    then show ?thesis
      using True head(1,2) str h d3 len by (simp add: MQTTDeserialize_publish_def Let_def)
  next
    case False
    then show ?thesis
      using head(1,2) str h d3 len by (simp add: MQTTDeserialize_publish_def Let_def)
  qed
qed


text \<open>What \<open>emits\<close> says of a call that succeeded.\<close>

lemma emits_success:
  assumes "emits buf buflen xs (Some (rc, b))" "0 < rc"
  shows "rc = int (length xs)" "rc \<le> buflen" "b = overwrite 0 xs buf" "take (nat rc) b = xs"
    "drop (nat rc) b = drop (nat rc) buf"
proof -
  show r: "rc = int (length xs)" "b = overwrite 0 xs buf" and "rc \<le> buflen"
    using assms by (auto simp: emits_def MQTTPACKET_BUFFER_TOO_SHORT_def)
  show "take (nat rc) b = xs" "drop (nat rc) b = drop (nat rc) buf"
    using r by (simp_all add: overwrite_def)
qed

lemma publish_roundtrip:
  assumes t: "str_ok topic" and p: "plen \<le> length payload" and pid: "pid < 65536"
    and h: "dup \<le> 1" "0 \<le> qos" "qos \<le> 3" "retained \<le> 1"
    and small: "length (publish_body qos pid topic (take plen payload)) < 268435456"
    and buf: "buflen \<le> int (length buf)"
    and run: "MQTTSerialize_publish buf buflen dup qos retained (int pid) topic payload (int plen) = Some (rc, b)"
      "0 < rc"
  shows "rc \<le> buflen \<and> drop (nat rc) b = drop (nat rc) buf \<and>
    (\<exists>out'. MQTTDeserialize_publish out (take (nat rc) b @ tail) = Some (1, out')
      \<and> po_dup out' = dup \<and> po_qos out' = qos \<and> po_retained out' = retained
      \<and> (0 < qos \<longrightarrow> po_packetid out' = int pid) \<and> str_bytes (po_topic out') = str_bytes topic
      \<and> po_payloadlen out' = int plen \<and> map_option (take plen) (po_payload out') = Some (take plen payload))"
proof -
  let ?body = "publish_body qos pid topic (take plen payload)"
  let ?h = "publish_header dup qos retained"
  note e = emits_success [OF publish_wire [OF t p refl small buf, of dup retained, unfolded run(1)] run(2)]
  note f = publish_header_fields [OF h]
  have b: "?body = be16 (length (str_bytes topic)) @ str_bytes topic @ (if qos > 0 then be16 pid else []) @ take plen payload"
    by (simp add: publish_body_def str_field_def)
  show ?thesis
    using deserialize_publish_at [OF _ small b str_ok_length(2) [OF t] pid f(1,3), of _ tail out] e f p
    by (simp add: str_bytes_def min_def)
qed

section \<open>Acknowledgements\<close>

lemma deserialize_ack_at:
  assumes m: "m = packet h (be16 pid @ extra) @ tail" and small: "length extra < 268435454" and pid: "pid < 65536"
  shows "MQTTDeserialize_ack m = Some (1, MQTT_HEADER_GET_TYPE h, MQTT_HEADER_GET_DUP h, Some (int pid))"
proof -
  have small': "length (be16 pid @ extra) < 268435456" using small by simp
  note head = packet_head [OF m small']
  have "drop (1 + length (varint (length (be16 pid @ extra)))) m = be16 pid @ extra @ tail"
    using head(3) by simp
  from readInt_at [OF this pid] show ?thesis
    using head(1,2) by (simp add: MQTTDeserialize_ack_def)
qed

lemma ack_header_fields:
  assumes "t \<in> {PUBACK, PUBREC, PUBREL, UNSUBACK}" "dup \<le> 1"
  shows "MQTT_HEADER_GET_TYPE (ack_header t dup) = t" "MQTT_HEADER_GET_DUP (ack_header t dup) = dup"
  using assms(1) two_values [OF assms(2)]
  by (elim insertE disjE; simp add: ack_header_def mqtt_header_defs mqtt_types)+

lemma ack_roundtrip:
  assumes "t \<in> {PUBACK, PUBREC, PUBREL, UNSUBACK}" "dup \<le> 1" "pid < 65536" "4 \<le> buflen" "buflen \<le> int (length buf)"
  shows "\<exists>b. MQTTSerialize_ack buf buflen t dup (int pid) = Some (4, b) \<and> drop 4 b = drop 4 buf
    \<and> MQTTDeserialize_ack (take 4 b @ tail) = Some (1, t, dup, Some (int pid))"
proof -
  let ?xs = "packet (ack_header t dup) (be16 pid)"
  have len: "length ?xs = 4" by (simp add: packet_def varint.simps [of 2])
  obtain rc b where r: "MQTTSerialize_ack buf buflen t dup (int pid) = Some (rc, b)" "0 < rc"
  proof -
    have "MQTTSerialize_ack buf buflen t dup (int pid) \<noteq> Some (MQTTPACKET_BUFFER_TOO_SHORT, buf)"
      using assms(4) by (auto simp: MQTTSerialize_ack_def Let_def MQTTPACKET_BUFFER_TOO_SHORT_def bind_eq_Some_conv)
    then show thesis using that ack_wire [OF assms(5), of t dup pid] by (auto simp: emits_def)
  qed
  note e = emits_success [OF ack_wire [OF assms(5), of t dup pid, unfolded r(1)] r(2)]
  have "MQTTDeserialize_ack (?xs @ tail) = Some (1, t, dup, Some (int pid))"
    using deserialize_ack_at [of _ "ack_header t dup" pid "[]" tail, OF _ _ assms(3)] ack_header_fields [OF assms(1,2)]
    by simp
  then show ?thesis using r e len by simp
qed

section \<open>The other answers of the server\<close>

lemma deserialize_connack_at:
  assumes "m = packet h (flags # code # extra) @ tail" "length extra < 268435454"
    and "MQTT_HEADER_GET_TYPE h = CONNACK"
  shows "MQTTDeserialize_connack m = Some (1, Some (drop_bit 7 flags, code))"
proof -
  have small: "length (flags # code # extra) < 268435456" using assms(2) by simp
  note head = packet_head [OF assms(1) small]
  let ?p = "1 + length (varint (length (flags # code # extra)))"
  have d: "drop ?p m = flags # code # extra @ tail" using head(3) by simp
  have "drop (?p + 1) m = code # extra @ tail" using drop_next [of ?p m "[flags]"] d by simp
  from readChar_at [OF this] readChar_at [OF d] show ?thesis
    using head(1,2) assms(3) by (simp add: MQTTDeserialize_connack_def)
qed

lemma read_granted_at:
  assumes "drop p m = codes @ rest"
  shows "read_granted m maxcount (int (p + length codes)) p granted =
    (if int (length granted + length codes) \<le> maxcount \<or> codes = [] then Some (1, granted @ map sint codes)
     else Some (-1, granted @ map sint (take (nat (maxcount - int (length granted))) codes)))"
  using assms
proof (induction codes arbitrary: p granted)
  case Nil
  then show ?case by (simp add: read_granted.simps)
next
  case (Cons c cs)
  have d: "drop (p + 1) m = cs @ rest" using drop_next [of p m "[c]"] Cons.prems by simp
  have r: "readChar m p = Some (c, p + 1)" using Cons.prems by (intro readChar_at) simp
  note ih = Cons.IH [OF d, of "granted @ [sint c]"]
  show ?case
  proof (cases "int (length granted) \<ge> maxcount")
    case True
    then show ?thesis by (subst read_granted.simps) simp
  next
    case False
    then have "nat (maxcount - int (length granted)) = Suc (nat (maxcount - int (length (granted @ [sint c]))))"
      by simp
    then show ?thesis
      using False r ih by (subst read_granted.simps) (auto simp: add.assoc)
  qed
qed

lemma deserialize_suback_at:
  assumes "m = packet h (be16 pid @ codes) @ tail" "length codes < 268435454" "pid < 65536"
    and "MQTT_HEADER_GET_TYPE h = SUBACK"
  shows "MQTTDeserialize_suback maxcount m =
    (if int (length codes) \<le> maxcount \<or> codes = [] then Some (1, Some (int pid, map sint codes))
     else Some (-1, Some (int pid, map sint (take (nat maxcount) codes))))"
proof -
  have small: "length (be16 pid @ codes) < 268435456" using assms(2) by simp
  note head = packet_head [OF assms(1) small]
  let ?p = "1 + length (varint (length (be16 pid @ codes)))"
  have d: "drop ?p m = be16 pid @ codes @ tail" using head(3) by simp
  have "drop (?p + 2) m = codes @ tail" using drop_next [OF d] by simp
  note g = read_granted_at [OF this, of maxcount "[]"]
  have "int ?p + int (length (be16 pid @ codes)) = int (?p + 2 + length codes)" by simp
  then show ?thesis
    using head(1,2) readInt_at [OF d assms(3)] g assms(4)
    by (simp add: MQTTDeserialize_suback_def)
qed

section \<open>Packets that are too short\<close>

text \<open>The result of the length decoder is returned: with a length of one byte that is success.\<close>

lemma short_packet_head:
  assumes "m = h # of_nat n # tail" "n < 2"
  shows "readChar m 0 = Some (h, 1)" "MQTTPacket_decodeBuf m 1 = Some (1, int n)"
proof -
  show "readChar m 0 = Some (h, 1)" using assms(1) by (simp add: readChar_def)
  have "varint n = [of_nat n]" using assms(2) by (simp add: varint.simps [of n])
  then show "MQTTPacket_decodeBuf m 1 = Some (1, int n)"
    using decodeBuf_at [of 1 m n tail] assms by simp
qed

lemma short_accepted:
  assumes "m = h # of_nat n # tail" "n < 2"
  shows "MQTTDeserialize_ack m = Some (1, MQTT_HEADER_GET_TYPE h, MQTT_HEADER_GET_DUP h, None)"
    "MQTT_HEADER_GET_TYPE h = CONNACK \<Longrightarrow> MQTTDeserialize_connack m = Some (1, None)"
    "MQTT_HEADER_GET_TYPE h = SUBACK \<Longrightarrow> MQTTDeserialize_suback maxcount m = Some (1, None)"
    "MQTT_HEADER_GET_TYPE h = PUBLISH \<Longrightarrow> fst (the (MQTTDeserialize_publish out m)) = 1"
  using short_packet_head [OF assms] assms(2)
  by (simp_all add: MQTTDeserialize_ack_def MQTTDeserialize_connack_def MQTTDeserialize_suback_def
      MQTTDeserialize_publish_def readMQTTLenString_def Let_def)

end
