(* ===== verification/Mqtt_Stream.thy ===== *)
theory Mqtt_Stream
  imports Mqtt_Handle Mqtt_Trip
begin

text \<open>
  The client above a byte stream: what a platform promises is the locale \<open>byte_stream\<close>, and
  under it \<open>iotx_mc_read_packet\<close> takes exactly one packet from the stream, whether it fits
  the buffer or not.
\<close>

text \<open>A quantity of the client that reading does not touch: it survives whole packets.\<close>

locale untouched =
  fixes pf :: "'n platform" and g :: "'n mc \<Rightarrow> 'a"
  assumes read_kept: "plat (pf_read pf len t) c = (r, c') \<Longrightarrow> g c' = g c"
    and uptime_kept: "plat (pf_uptime pf) c = (n, c') \<Longrightarrow> g c' = g c"
    and malloc_kept: "plat (pf_malloc pf k) c = (ok, c') \<Longrightarrow> g c' = g c"
    and updates_kept [simp]: "g (c\<lparr>mc_buf_read := b\<rparr>) = g c" "g (c\<lparr>mc_buf_size_read := k\<rparr>) = g c"
      "g (c\<lparr>mc_calls := e\<rparr>) = g c"
begin

lemma left_kept: "left_time pf t c = (l, c') \<Longrightarrow> g c' = g c"
  by (auto simp: left_time_def iotx_time_left_def utils_time_is_expired_def uptime32_def split: prod.splits if_splits
      dest!: uptime_kept)

lemma read_into_kept: "read_into pf off len t c = Some (rc, c') \<Longrightarrow> g c' = g c"
  by (auto simp: read_into_def bind_eq_Some_conv split: prod.splits if_splits dest!: read_kept)

lemma alloc_recv_kept: "alloc_recv_buffer pf len c = (r, c') \<Longrightarrow> g c' = g c"
  by (auto simp: alloc_recv_buffer_def Let_def split: prod.splits if_splits option.splits dest!: malloc_kept)

lemma decode_kept: "mc_decode_loop pf t mult len val c = Some (rc, v, c') \<Longrightarrow> g c' = g c"
proof (induction "nat (4 - len)" arbitrary: mult len val c rule: less_induct)
  case less
  obtain r bs c1 where r: "plat (pf_read pf 1 (if t = 0 then 1 else t)) c = ((r, bs), c1)" by (metis prod.exhaust)
  note h = read_kept [OF r]
  show ?case
  proof (cases "len + 1 > 4")
    case True
    then show ?thesis using less.prems
      by (subst (asm) mc_decode_loop.simps) (simp add: MAX_NO_OF_REMAINING_LENGTH_BYTES_def)
  next
    case False
    then have "nat (4 - (len + 1)) < nat (4 - len)" by simp
    note IH = less.hyps [OF this]
    have "mc_decode_loop pf t mult len val c = (if r \<le> 0 then Some (STATE_SYS_DEPEND_NWK_CLOSE, val, c1)
        else case bs of [] \<Rightarrow> None | i # _ \<Rightarrow>
          if i AND 128 \<noteq> 0 then mc_decode_loop pf t (mult * 128) (len + 1) (val + uint (i AND 127) * mult) c1
          else Some (len + 1, val + uint (i AND 127) * mult, c1))"
      unfolding mc_decode_loop.simps [of pf t mult len val c] Let_def r case_prod_conv
      using False by (simp add: MAX_NO_OF_REMAINING_LENGTH_BYTES_def)
    then show ?thesis
      using less.prems h by (auto split: if_splits list.splits) (metis IH)
  qed
qed

lemma skip_kept:
  assumes "skip_loop pf l k c = Some r"
  shows "g (snd r) = g c"
proof -
  have "pf' = pf \<longrightarrow> g (snd r) = g c" if "skip_loop pf' l k c = Some r" for pf' l k c r
  proof (rule skip_loop.raw_induct [where P = "\<lambda>pf' l k c r. pf' = pf \<longrightarrow> g (snd r) = g c", OF _ that], goal_cases)
    case (1 f pf' l k c r)
    show ?case
    proof
      assume pf: "pf' = pf"
      obtain m rc c1 where m: "m = (if k > mc_buf_size_read c then mc_buf_size_read c else k)"
        "read_into pf 0 m l c = Some (rc, c1)" using 1(2) pf by (auto simp: Let_def bind_eq_Some_conv)
      show "g (snd r) = g c"
        using 1(2) pf read_into_kept [OF m(2)] m by (auto simp: Let_def split: if_splits dest!: 1(1))
    qed
  qed
  then show ?thesis using assms by blast
qed

lemma body_kept:
  assumes "read_body pf timer l k c = Some (rc, ty, c')"
  shows "g c' = g c"
proof -
  obtain lt c1 where t: "left_time pf timer c = (lt, c1)" by fastforce
  note ht = left_kept [OF t]
  show ?thesis
  proof (cases "0 < k \<and> mc_buf_size_read c < k + l")
    case True
    obtain ok c2 where s: "skip_loop pf lt k c1 = Some (ok, c2)" and
      r: "c' = c2 \<or> c' = handle_event (mc_handle_event c2) EVENT_BUFFER_OVERFLOW c2"
      using assms True by (auto simp: read_body_def t bind_eq_Some_conv split: if_splits)
    then show ?thesis
      using ht skip_kept [OF s] by (auto simp: handle_event_def)
  next
    case False
    obtain rc2 c2 where s: "read_into pf l k lt c1 = Some (rc2, c2)" and
      r: "c' = c2 \<or> (\<exists>b. c' = c2\<lparr>mc_buf_read := b\<rparr>)"
      using assms unfolding read_body_def if_not_P [OF False] t Let_def case_prod_conv
      by (auto simp: bind_eq_Some_conv split: if_splits)
    then show ?thesis
      using ht read_into_kept [OF s] by auto
  qed
qed

lemma packet_kept:
  assumes "iotx_mc_read_packet pf timer c = Some (rc, ty, c')"
  shows "g c' = g c"
proof -
  obtain r0 c1 where a: "alloc_recv_buffer pf 0 c = (r0, c1)" by fastforce
  obtain l1 c2 where l1: "left_time pf timer c1 = (l1, c2)" by fastforce
  have h2: "g c1 = g c" "g c2 = g c" using alloc_recv_kept [OF a] left_kept [OF l1] by simp_all
  show ?thesis
  proof (cases "r0 < 0")
    case True
    then show ?thesis using assms a h2 by (simp add: iotx_mc_read_packet_def)
  next
    case False
    then obtain r3 c3 where r3: "read_into pf 0 1 l1 c2 = Some (r3, c3)"
      using assms a l1 by (auto simp: iotx_mc_read_packet_def bind_eq_Some_conv)
    obtain l2 c4 where l2: "left_time pf timer c3 = (l2, c4)" by fastforce
    have h4: "g c3 = g c" "g c4 = g c" using h2(2) read_into_kept [OF r3] left_kept [OF l2] by simp_all
    show ?thesis
    proof (cases "r3 = 0 \<or> r3 < 0")
      case True
      then show ?thesis using assms a l1 r3 False h4 by (auto simp: iotx_mc_read_packet_def)
    next
      case r3n: False
      then obtain rc5 v c5 where d: "iotx_mc_decode_packet pf l2 c4 = Some (rc5, v, c5)"
        using assms a l1 r3 False l2 by (auto simp: iotx_mc_read_packet_def bind_eq_Some_conv)
      have h5: "g c5 = g c" using h4(2) decode_kept d by (simp add: iotx_mc_decode_packet_def)
      show ?thesis
      proof (cases "rc5 < 0")
        case True
        then show ?thesis using assms a l1 r3 False l2 r3n d h5 by (simp add: iotx_mc_read_packet_def)
      next
        case rc5: False
        then obtain buf buf' p where b: "mc_buf_read c5 = Some buf" "MQTTPacket_encode v (buf, 1) = Some (buf', p)"
          using assms a l1 r3 False l2 r3n d by (auto simp: iotx_mc_read_packet_def bind_eq_Some_conv)
        obtain r6 c6 where a6: "alloc_recv_buffer pf (nat v + p) (c5\<lparr>mc_buf_read := Some buf'\<rparr>) = (r6, c6)" by fastforce
        have h6: "g c6 = g c" using alloc_recv_kept [OF a6] h5 by simp
        have "c' = c6 \<or> (\<exists>rc ty. read_body pf timer p (nat v) c6 = Some (rc, ty, c'))"
          using assms a l1 r3 False l2 r3n d rc5 b a6 by (auto simp: iotx_mc_read_packet_def split: if_splits)
        then show ?thesis using h6 body_kept by metis
      qed
    qed
  qed
qed

end

locale byte_stream =
  fixes pf :: "'n platform" and stream :: "'n \<Rightarrow> byte list"
  assumes read_bytes: "0 < len \<Longrightarrow> 0 < t \<Longrightarrow> len \<le> length (stream n)
      \<Longrightarrow> \<exists>n'. pf_read pf len t n = ((int len, take len (stream n)), n') \<and> stream n' = drop len (stream n)"
    and read_nothing: "0 < t \<Longrightarrow> \<exists>rc n'. pf_read pf 0 t n = ((rc, []), n') \<and> stream n' = stream n"
    and uptime_keeps: "stream (snd (pf_uptime pf n)) = stream n"
    and malloc_ok: "fst (pf_malloc pf k n)" "stream (snd (pf_malloc pf k n)) = stream n"
begin

text \<open>The client with another state of the platform but the same stream.\<close>

definition moved :: "'n mc \<Rightarrow> 'n mc \<Rightarrow> bool" where
  "moved c c' \<longleftrightarrow> (\<exists>n. c' = c\<lparr>mc_net := n\<rparr> \<and> stream n = stream (mc_net c))"

lemma moved_trans: "moved c c' \<Longrightarrow> moved c' c'' \<Longrightarrow> moved c c''"
  by (auto simp: moved_def)

lemma uptime_moved: "moved c (snd (uptime32 pf c))"
  using uptime_keeps [of "mc_net c"]
  by (cases "pf_uptime pf (mc_net c)") (auto simp: moved_def uptime32_def plat_def)

lemma expired_moved: "moved c (snd (utils_time_is_expired pf t c))"
  using uptime_moved [of c] by (cases "uptime32 pf c") (simp add: utils_time_is_expired_def)

lemma left_moved: "moved c (snd (left_time pf t c))"
proof (cases "utils_time_is_expired pf t c")
  case (Pair e c1)
  have "moved c c1" using expired_moved [of c t] Pair by simp
  moreover have "moved c1 (snd (uptime32 pf c1))" by (rule uptime_moved)
  ultimately show ?thesis
    using Pair by (cases "uptime32 pf c1") (auto simp: left_time_def iotx_time_left_def elim: moved_trans)
qed

lemma left_timeE:
  obtains l n where "left_time pf t c = (l, c\<lparr>mc_net := n\<rparr>)" "stream n = stream (mc_net c)" "0 < l"
proof -
  have "0 < fst (left_time pf t c)" by (simp add: left_time_def split: prod.split)
  then show thesis
    using that left_moved [of c t] by (cases "left_time pf t c") (auto simp: moved_def)
qed

lemma alloc_recv:
  "\<exists>n. alloc_recv_buffer pf len c = (0, c\<lparr>mc_net := n,
      mc_buf_read := Some (case mc_buf_read c of
          Some old \<Rightarrow> overwrite 0 (take (min (mc_buf_size_read c) (min (8 + len) (mc_buf_size_read_max c))) old)
             (replicate (min (8 + len) (mc_buf_size_read_max c)) 0)
        | None \<Rightarrow> replicate (min (8 + len) (mc_buf_size_read_max c)) 0),
      mc_buf_size_read := min (8 + len) (mc_buf_size_read_max c)\<rparr>) \<and> stream n = stream (mc_net c)"
proof -
  let ?k = "min (8 + len) (mc_buf_size_read_max c)"
  obtain n where n: "pf_malloc pf ?k (mc_net c) = (True, n)" "stream n = stream (mc_net c)"
    using malloc_ok [of ?k "mc_net c"] by (cases "pf_malloc pf ?k (mc_net c)") auto
  show ?thesis
    by (rule exI [of _ n]) (simp add: alloc_recv_buffer_def plat_def MQTT_DYNBUF_RECV_MARGIN_def n Let_def split: option.split)
qed

lemma read_intoE:
  assumes "len \<le> length (stream (mc_net c))" "mc_buf_read c = Some buf" "off + len \<le> length buf" "0 < t"
  obtains rc n where "read_into pf off len t c = Some (rc, c\<lparr>mc_net := n,
      mc_buf_read := Some (overwrite off (take len (stream (mc_net c))) buf)\<rparr>)"
    "stream n = drop len (stream (mc_net c))" "0 < len \<Longrightarrow> rc = int len"
proof -
  obtain rc n where n: "pf_read pf len t (mc_net c) = ((rc, take len (stream (mc_net c))), n)"
    "stream n = drop len (stream (mc_net c))" "0 < len \<Longrightarrow> rc = int len"
    using read_bytes [OF _ assms(4,1)] read_nothing [OF assms(4), of "mc_net c"] by (cases "len = 0") auto
  show thesis
    by (rule that [OF _ n(2,3)]) (use n(1) assms in \<open>simp_all add: read_into_def plat_def min_def\<close>)
qed

lemma mc_decode_step:
  assumes "stream (mc_net c) = i # more_bytes" "len + 1 \<le> 4"
  shows "\<exists>n. stream n = more_bytes \<and> mc_decode_loop pf t mult len val c =
    (if i AND 128 \<noteq> 0 then mc_decode_loop pf t (mult * 128) (len + 1) (val + uint (i AND 127) * mult) (c\<lparr>mc_net := n\<rparr>)
     else Some (len + 1, val + uint (i AND 127) * mult, c\<lparr>mc_net := n\<rparr>))"
proof -
  have t: "0 < (if t = 0 then 1 else t)" by simp
  obtain n where n: "pf_read pf 1 (if t = 0 then 1 else t) (mc_net c) = ((1, [i]), n)" "stream n = more_bytes"
    using read_bytes [OF _ t, of 1 "mc_net c"] assms(1) by auto
  have p: "plat (pf_read pf 1 (if t = 0 then 1 else t)) c = ((1, [i]), c\<lparr>mc_net := n\<rparr>)"
    using n(1) by (simp only: plat_def Let_def case_prod_conv)
  show ?thesis
    using assms(2) n(2) unfolding mc_decode_loop.simps [of pf t mult len val c] Let_def p
    by (intro exI [of _ n]) (simp add: MAX_NO_OF_REMAINING_LENGTH_BYTES_def)
qed

lemma mc_decode_at:
  assumes "stream (mc_net c) = varint v @ rest" "len + int (length (varint v)) \<le> 4"
  shows "\<exists>n. mc_decode_loop pf t mult len val c
    = Some (len + int (length (varint v)), val + mult * int v, c\<lparr>mc_net := n\<rparr>) \<and> stream n = rest"
  using assms
proof (induction v arbitrary: c mult len val rule: varint.induct)
  case (1 v)
  show ?case
  proof (cases "v < 128")
    case True
    then have v: "varint v = [of_nat v]" by (simp add: varint.simps [of v])
    then have "stream (mc_net c) = of_nat v # rest" "len + 1 \<le> 4" using 1(2,3) by simp_all
    from mc_decode_step [OF this, of t mult val] show ?thesis
      using group_bits [OF True] v by (auto simp: ac_simps)
  next
    case False
    let ?c = "of_nat (v mod 128) OR 0x80 :: byte"
    have v: "varint v = ?c # varint (v div 128)" using False by (simp add: varint.simps [of v])
    have s: "stream (mc_net c) = ?c # varint (v div 128) @ rest" using 1(2) v by simp
    have l: "len + 1 + int (length (varint (v div 128))) \<le> 4" using 1(3) v by simp
    then have "len + 1 \<le> 4" by linarith
    note g = group_bits [of "v mod 128", simplified]
    from mc_decode_step [OF s \<open>len + 1 \<le> 4\<close>, of t mult val] obtain n where
      n: "stream n = varint (v div 128) @ rest" "mc_decode_loop pf t mult len val c =
        mc_decode_loop pf t (mult * 128) (len + 1) (val + int (v mod 128) * mult) (c\<lparr>mc_net := n\<rparr>)"
      using g(3,4) by auto
    have s': "stream (mc_net (c\<lparr>mc_net := n\<rparr>)) = varint (v div 128) @ rest" using n(1) by simp
    have "int v = 128 * int (v div 128) + int (v mod 128)"
      unfolding of_nat_mod of_nat_div by simp
    then have e: "val + mult * int v = val + int (v mod 128) * mult + mult * 128 * int (v div 128)"
      by (simp add: algebra_simps)
    show ?thesis
      using 1(1) [OF False s' l, of "mult * 128" "val + int (v mod 128) * mult"] n(2) e v by (simp add: add.assoc)
  qed
qed

lemma skip_all:
  assumes "stream (mc_net c) = body @ rest" "mc_buf_read c = Some buf"
    and "mc_buf_size_read c = length buf" "0 < length buf" "0 < l" "body \<noteq> []"
  shows "\<exists>n buf'. skip_loop pf l (length body) c = Some (True, c\<lparr>mc_net := n, mc_buf_read := Some buf'\<rparr>)
    \<and> stream n = rest \<and> length buf' = length buf"
  using assms
proof (induction "length body" arbitrary: body c buf rule: less_induct)
  case less
  define k where "k = (if length body > mc_buf_size_read c then mc_buf_size_read c else length body)"
  have k: "k \<le> length (stream (mc_net c))" "0 + k \<le> length buf" "k \<le> length body" "0 < k"
    using less.prems by (simp_all add: k_def)
  obtain n where n: "read_into pf 0 k l c = Some (int k, c\<lparr>mc_net := n,
      mc_buf_read := Some (overwrite 0 (take k (stream (mc_net c))) buf)\<rparr>)"
    "stream n = drop k (stream (mc_net c))"
    by (rule read_intoE [OF k(1) less.prems(2) k(2) less.prems(5)]) (use k(4) in simp)
  let ?buf = "overwrite 0 (take k (stream (mc_net c))) buf"
  let ?c = "c\<lparr>mc_net := n, mc_buf_read := Some ?buf\<rparr>"
  have lb: "length ?buf = length buf" using k by simp
  have step: "skip_loop pf l (length body) c =
      (if length body - k = 0 then Some (True, ?c) else skip_loop pf l (length body - k) ?c)"
    using n(1) by (subst skip_loop.simps) (simp flip: k_def)
  show ?case
  proof (cases "length body - k = 0")
    case True
    then have e: "k = length body" using k(3) by simp
    have "stream n = rest" using n(2) less.prems(1) unfolding e by simp
    then show ?thesis using step True lb by (intro exI [of _ n] exI [of _ ?buf]) simp
  next
    case False
    then have big: "k = length buf" using less.prems(3) by (auto simp: k_def split: if_splits)
    have s: "stream (mc_net ?c) = drop k body @ rest" using n(2) less.prems(1) k(3) by simp
    have short: "length (drop k body) < length body"
      unfolding length_drop using big less.prems(4) False by linarith
    have "mc_buf_read ?c = Some ?buf" "mc_buf_size_read ?c = length ?buf" "0 < length ?buf"
      "0 < l" "drop k body \<noteq> []"
      using lb less.prems(3,4,5) False by simp_all
    from less.hyps [OF short s this] obtain n' buf' where
      "skip_loop pf l (length (drop k body)) ?c = Some (True, ?c\<lparr>mc_net := n', mc_buf_read := Some buf'\<rparr>)"
      "stream n' = rest" "length buf' = length ?buf" by blast
    then show ?thesis
      using step False lb by (intro exI [of _ n'] exI [of _ buf']) simp
  qed
qed

section \<open>Reading a packet\<close>

lemma read_packet_start:
  assumes str: "stream (mc_net c) = packet h body @ rest" and small: "length body < 268435456"
    and empty: "mc_buf_read c = None" and room: "5 \<le> mc_buf_size_read_max c"
  shows "\<exists>n tail. iotx_mc_read_packet pf timer c
    = read_body pf timer (1 + length (varint (length body))) (length body)
        (c\<lparr>mc_net := n, mc_buf_read := Some (h # varint (length body) @ tail),
           mc_buf_size_read := min (9 + length (varint (length body)) + length body) (mc_buf_size_read_max c)\<rparr>)
    \<and> stream n = body @ rest
    \<and> length (h # varint (length body) @ tail)
      = min (9 + length (varint (length body)) + length body) (mc_buf_size_read_max c)"
proof -
  let ?v = "varint (length body)"
  let ?s0 = "min 8 (mc_buf_size_read_max c)"
  let ?s1 = "min (8 + (length body + (1 + length ?v))) (mc_buf_size_read_max c)"
  have v4: "length ?v \<le> 4" using small by (simp add: varint_length [of "length body"])
  obtain n1 where n1: "alloc_recv_buffer pf 0 c = (0, c\<lparr>mc_net := n1, mc_buf_read := Some (replicate ?s0 0),
      mc_buf_size_read := ?s0\<rparr>)" "stream n1 = stream (mc_net c)"
    using alloc_recv [of 0 c] empty by auto
  let ?c1 = "c\<lparr>mc_net := n1, mc_buf_read := Some (replicate ?s0 0), mc_buf_size_read := ?s0\<rparr>"
  obtain l n2 where n2: "left_time pf timer ?c1 = (l, ?c1\<lparr>mc_net := n2\<rparr>)" "stream n2 = stream (mc_net ?c1)"
    and l: "0 < l" by (rule left_timeE)
  let ?c2 = "?c1\<lparr>mc_net := n2\<rparr>"
  have s2: "stream (mc_net ?c2) = h # ?v @ body @ rest" using n2(2) n1(2) str by (simp add: packet_def)
  obtain n3 where n3: "read_into pf 0 1 l ?c2 = Some (int 1, ?c2\<lparr>mc_net := n3,
      mc_buf_read := Some (overwrite 0 (take 1 (stream (mc_net ?c2))) (replicate ?s0 0))\<rparr>)"
    "stream n3 = drop 1 (stream (mc_net ?c2))"
  proof (rule read_intoE)
    show "1 \<le> length (stream (mc_net ?c2))" using s2 by simp
    show "mc_buf_read ?c2 = Some (replicate ?s0 0)" by simp
    show "0 + 1 \<le> length (replicate ?s0 (0::byte))" using room by simp
    show "0 < l" by (rule l)
  qed simp
  let ?b3 = "h # replicate (?s0 - 1) 0"
  let ?c3 = "?c2\<lparr>mc_net := n3, mc_buf_read := Some ?b3\<rparr>"
  have b3: "overwrite 0 (take 1 (stream (mc_net ?c2))) (replicate ?s0 0) = ?b3"
    unfolding s2 by (simp add: overwrite_def)
  obtain l' n4 where n4: "left_time pf timer ?c3 = (l', ?c3\<lparr>mc_net := n4\<rparr>)" "stream n4 = stream (mc_net ?c3)"
    by (rule left_timeE)
  let ?c4 = "?c3\<lparr>mc_net := n4\<rparr>"
  have s4: "stream (mc_net ?c4) = ?v @ body @ rest" using n4(2) n3(2) s2 by simp
  obtain n5 where n5: "iotx_mc_decode_packet pf l' ?c4 = Some (int (length ?v), int (length body), ?c4\<lparr>mc_net := n5\<rparr>)"
    "stream n5 = body @ rest"
    using mc_decode_at [OF s4, of 0 l' 1 0] v4 by (auto simp: iotx_mc_decode_packet_def)
  let ?b5 = "h # ?v @ replicate (?s0 - 1 - length ?v) 0"
  have enc: "MQTTPacket_encode (int (length body)) (?b3, 1) = Some (?b5, 1 + length ?v)"
    using room v4 by (auto simp: MQTTPacket_encode_wire write_bytes_def overwrite_def)
  let ?c5 = "?c4\<lparr>mc_net := n5, mc_buf_read := Some ?b5\<rparr>"
  have pre: "\<exists>tail. overwrite 0 (take (min ?s0 ?s1) ?b5) (replicate ?s1 0) = h # ?v @ tail
      \<and> length (h # ?v @ tail) = ?s1"
  proof -
    have "?s0 \<le> ?s1" "1 + length ?v \<le> ?s0" using room v4 by auto
    then have "take (min ?s0 ?s1) ?b5 = ?b5" by simp
    then show ?thesis using \<open>?s0 \<le> ?s1\<close> \<open>1 + length ?v \<le> ?s0\<close>
      by (intro exI [of _ "replicate (?s0 - 1 - length ?v) 0 @ replicate (?s1 - ?s0) 0"]) (simp add: overwrite_def)
  qed
  obtain n6 where n6: "alloc_recv_buffer pf (length body + (1 + length ?v)) ?c5 = (0, ?c5\<lparr>mc_net := n6,
      mc_buf_read := Some (overwrite 0 (take (min ?s0 ?s1) ?b5) (replicate ?s1 0)),
      mc_buf_size_read := ?s1\<rparr>)" "stream n6 = stream (mc_net ?c5)"
    using alloc_recv [of "length body + (1 + length ?v)" ?c5] by auto
  obtain tail where tail: "overwrite 0 (take (min ?s0 ?s1) ?b5) (replicate ?s1 0) = h # ?v @ tail"
    "length (h # ?v @ tail) = ?s1" using pre by blast
  have run: "iotx_mc_read_packet pf timer c = read_body pf timer (1 + length ?v) (length body)
      (c\<lparr>mc_net := n6, mc_buf_read := Some (h # ?v @ tail), mc_buf_size_read := ?s1\<rparr>)"
    unfolding iotx_mc_read_packet_def n1(1) Let_def case_prod_conv n2(1) n3(1) b3 Option.bind.bind_lunit
      n4(1) n5(1)
    using enc n6(1) tail(1) by simp
  show ?thesis
    using run n6(2) n5(2) tail(2) by (intro exI [of _ n6] exI [of _ tail]) (simp add: ac_simps)
qed

text \<open>A packet that fits is in the buffer afterwards, a longer one is skipped and reported.\<close>

lemma read_packet_fits:
  assumes str: "stream (mc_net c) = packet h body @ rest" and small: "length body < 268435456"
    and empty: "mc_buf_read c = None" and room: "5 \<le> mc_buf_size_read_max c"
    and fits: "length (packet h body) \<le> mc_buf_size_read_max c \<or> body = []"
  shows "\<exists>n tail k. iotx_mc_read_packet pf timer c = Some (0, MQTT_HEADER_GET_TYPE h,
      c\<lparr>mc_net := n, mc_buf_read := Some (packet h body @ tail), mc_buf_size_read := k\<rparr>) \<and> stream n = rest"
proof -
  let ?v = "varint (length body)"
  let ?k = "min (9 + length ?v + length body) (mc_buf_size_read_max c)"
  obtain n tail where s: "iotx_mc_read_packet pf timer c = read_body pf timer (1 + length ?v) (length body)
      (c\<lparr>mc_net := n, mc_buf_read := Some (h # ?v @ tail), mc_buf_size_read := ?k\<rparr>)"
    "stream n = body @ rest" "length (h # ?v @ tail) = ?k"
    using read_packet_start [OF str small empty room] by blast
  let ?c = "c\<lparr>mc_net := n, mc_buf_read := Some (h # ?v @ tail), mc_buf_size_read := ?k\<rparr>"
  have v4: "length ?v \<le> 4" using small by (simp add: varint_length [of "length body"])
  have fit: "1 + length ?v + length body \<le> ?k" using fits room v4 by (auto simp: length_packet)
  obtain l n2 where l: "left_time pf timer ?c = (l, ?c\<lparr>mc_net := n2\<rparr>)" "stream n2 = stream (mc_net ?c)" "0 < l"
    by (rule left_timeE)
  let ?c2 = "?c\<lparr>mc_net := n2\<rparr>"
  obtain rc n3 where n3: "read_into pf (1 + length ?v) (length body) l ?c2 = Some (rc, ?c2\<lparr>mc_net := n3,
      mc_buf_read := Some (overwrite (1 + length ?v) (take (length body) (stream (mc_net ?c2))) (h # ?v @ tail))\<rparr>)"
    "stream n3 = drop (length body) (stream (mc_net ?c2))" "0 < length body \<Longrightarrow> rc = int (length body)"
  proof (rule read_intoE)
    show "length body \<le> length (stream (mc_net ?c2))" using l(2) s(2) by simp
    show "mc_buf_read ?c2 = Some (h # ?v @ tail)" by simp
    show "1 + length ?v + length body \<le> length (h # ?v @ tail)" using fit s(3) by simp
    show "0 < l" by (rule l(3))
  qed (rule that)
  let ?t = "drop (length body) tail"
  have buf: "overwrite (1 + length ?v) (take (length body) (stream (mc_net ?c2))) (h # ?v @ tail)
      = packet h body @ ?t"
    using l(2) s(2) by (simp add: overwrite_def packet_def)
  have len: "length (packet h body @ ?t) = ?k" using s(3) fit by (simp add: length_packet)
  let ?c3 = "?c2\<lparr>mc_net := n3, mc_buf_read := Some (packet h body @ ?t)\<rparr>"
  have rd: "readChar (packet h body @ ?t) 0 = Some (h, 1)" by (simp add: readChar_def packet_def)
  have rest: "stream n3 = rest" using n3(2) l(2) s(2) by simp
  have no: "\<not> (0 < length body \<and> mc_buf_size_read ?c < length body + (1 + length ?v))"
  proof -
    have "mc_buf_size_read ?c = ?k" by simp
    then show ?thesis using fit by linarith
  qed
  have ok: "\<not> (0 < length body \<and> rc < 0)" "\<not> (0 < length body \<and> rc \<noteq> int (length body))"
    using n3(3) by auto
  have body: "read_body pf timer (1 + length ?v) (length body) ?c =
      (if 1 + length ?v + length body < ?k then do {
         (buf', _) \<leftarrow> writeChar 0 (packet h body @ ?t, 1 + length ?v + length body);
         Some (0, MQTT_HEADER_GET_TYPE h, ?c3\<lparr>mc_buf_read := Some buf'\<rparr>)
       } else Some (0, MQTT_HEADER_GET_TYPE h, ?c3))"
    unfolding read_body_def if_not_P [OF no] l(1) Let_def case_prod_conv n3(1) Option.bind.bind_lunit buf if_not_P [OF ok(1)] if_not_P [OF ok(2)]
    by (simp add: rd)
  show ?thesis
  proof (cases "1 + length ?v + length body < ?k")
    case True
    then obtain x xs where t: "?t = x # xs" using len by (cases ?t) (auto simp: length_packet)
    have w: "writeChar 0 (packet h body @ ?t, 1 + length ?v + length body)
        = Some (packet h body @ 0 # xs, 1 + length ?v + length body + 1)"
      unfolding t writeChar_def by (simp add: length_packet list_update_append)
    have "iotx_mc_read_packet pf timer c = Some (0, MQTT_HEADER_GET_TYPE h,
        c\<lparr>mc_net := n3, mc_buf_read := Some (packet h body @ 0 # xs), mc_buf_size_read := ?k\<rparr>)"
      using s(1) body True w by simp
    then show ?thesis using rest by blast
  next
    case False
    then have "iotx_mc_read_packet pf timer c = Some (0, MQTT_HEADER_GET_TYPE h,
        c\<lparr>mc_net := n3, mc_buf_read := Some (packet h body @ ?t), mc_buf_size_read := ?k\<rparr>)"
      using s(1) body by simp
    then show ?thesis using rest by blast
  qed
qed

lemma read_packet_skips:
  assumes str: "stream (mc_net c) = packet h body @ rest" and small: "length body < 268435456"
    and empty: "mc_buf_read c = None" and room: "5 \<le> mc_buf_size_read_max c"
    and long: "mc_buf_size_read_max c < length (packet h body)" "body \<noteq> []"
  shows "\<exists>n b k. iotx_mc_read_packet pf timer c = Some (0, 0, handle_event (mc_handle_event c) EVENT_BUFFER_OVERFLOW
      (c\<lparr>mc_net := n, mc_buf_read := b, mc_buf_size_read := k\<rparr>)) \<and> stream n = rest"
proof -
  let ?v = "varint (length body)"
  let ?k = "min (9 + length ?v + length body) (mc_buf_size_read_max c)"
  obtain n tail where s: "iotx_mc_read_packet pf timer c = read_body pf timer (1 + length ?v) (length body)
      (c\<lparr>mc_net := n, mc_buf_read := Some (h # ?v @ tail), mc_buf_size_read := ?k\<rparr>)"
    "stream n = body @ rest" "length (h # ?v @ tail) = ?k"
    using read_packet_start [OF str small empty room] by blast
  let ?c = "c\<lparr>mc_net := n, mc_buf_read := Some (h # ?v @ tail), mc_buf_size_read := ?k\<rparr>"
  have yes: "0 < length body \<and> mc_buf_size_read ?c < length body + (1 + length ?v)"
    using long by (simp add: length_packet)
  obtain l n2 where l: "left_time pf timer ?c = (l, ?c\<lparr>mc_net := n2\<rparr>)" "stream n2 = stream (mc_net ?c)" "0 < l"
    by (rule left_timeE)
  let ?c2 = "?c\<lparr>mc_net := n2\<rparr>"
  have "stream (mc_net ?c2) = body @ rest" using l(2) s(2) by simp
  moreover have "mc_buf_read ?c2 = Some (h # ?v @ tail)" by simp
  moreover have "mc_buf_size_read ?c2 = length (h # ?v @ tail)" using s(3) by simp
  moreover have "0 < length (h # ?v @ tail)" by simp
  moreover note l(3) long(2)
  ultimately obtain n3 buf' where sk: "skip_loop pf l (length body) ?c2
      = Some (True, ?c2\<lparr>mc_net := n3, mc_buf_read := Some buf'\<rparr>)" "stream n3 = rest"
    using skip_all by blast
  have "read_body pf timer (1 + length ?v) (length body) ?c = Some (0, 0,
      handle_event (mc_handle_event c) EVENT_BUFFER_OVERFLOW (?c2\<lparr>mc_net := n3, mc_buf_read := Some buf'\<rparr>))"
    unfolding read_body_def if_P [OF yes] l(1) Let_def case_prod_conv sk(1) Option.bind.bind_lunit by simp
  moreover have "?c2\<lparr>mc_net := n3, mc_buf_read := Some buf'\<rparr>
      = c\<lparr>mc_net := n3, mc_buf_read := Some buf', mc_buf_size_read := ?k\<rparr>" by (cases c) simp
  ultimately show ?thesis using s(1) sk(2) by metis
qed

end

end
