(* ===== verification/Mqtt_Api.thy ===== *)
theory Mqtt_Api
  imports Mqtt_Handle
begin

text \<open>
  The operations of the MQTT client (iotx_mqtt_client.c): the check of a topic with
  infra_strtok of linkkit/infra/infra_string.c, publish, subscribe and unsubscribe,
  connecting, keeping the connection alive and reconnecting, and the public calls.
\<close>

definition STATE_MQTT_SERIALIZE_CONN_ERROR :: int where "STATE_MQTT_SERIALIZE_CONN_ERROR = -0x30C"
definition STATE_MQTT_SERIALIZE_PINGREQ_ERROR :: int where "STATE_MQTT_SERIALIZE_PINGREQ_ERROR = -0x30E"
definition STATE_MQTT_SERIALIZE_SUB_ERROR :: int where "STATE_MQTT_SERIALIZE_SUB_ERROR = -0x30F"
definition STATE_MQTT_SERIALIZE_UNSUB_ERROR :: int where "STATE_MQTT_SERIALIZE_UNSUB_ERROR = -0x310"
definition STATE_MQTT_SERIALIZE_PUB_ERROR :: int where "STATE_MQTT_SERIALIZE_PUB_ERROR = -0x311"
definition STATE_MQTT_WAIT_RECONN_TIMER :: int where "STATE_MQTT_WAIT_RECONN_TIMER = -0x306"
definition STATE_MQTT_TOPIC_BUF_TOO_SHORT :: int where "STATE_MQTT_TOPIC_BUF_TOO_SHORT = -0x31A"
definition STATE_MQTT_CONN_RETRY_EXCEED_MAX :: int where "STATE_MQTT_CONN_RETRY_EXCEED_MAX = -0x31B"
definition STATE_MQTT_UNEXP_TOPIC_FORMAT :: int where "STATE_MQTT_UNEXP_TOPIC_FORMAT = -0x322"

lemmas mqtt_api_codes = mqtt_state_codes STATE_MQTT_SERIALIZE_CONN_ERROR_def STATE_MQTT_SERIALIZE_PINGREQ_ERROR_def
  STATE_MQTT_SERIALIZE_SUB_ERROR_def STATE_MQTT_SERIALIZE_UNSUB_ERROR_def STATE_MQTT_SERIALIZE_PUB_ERROR_def
  STATE_MQTT_WAIT_RECONN_TIMER_def STATE_MQTT_TOPIC_BUF_TOO_SHORT_def STATE_MQTT_CONN_RETRY_EXCEED_MAX_def
  STATE_MQTT_UNEXP_TOPIC_FORMAT_def

definition IOTX_MC_PACKET_ID_MAX :: nat where "IOTX_MC_PACKET_ID_MAX = 65535"
definition IOTX_MC_RECONNECT_INTERVAL_MIN_MS :: nat where "IOTX_MC_RECONNECT_INTERVAL_MIN_MS = 1000"
definition IOTX_MC_RECONNECT_INTERVAL_MAX_MS :: nat where "IOTX_MC_RECONNECT_INTERVAL_MAX_MS = 30000"
definition CONFIG_MQTT_TOPIC_MAXLEN :: nat where "CONFIG_MQTT_TOPIC_MAXLEN = 128"
definition CONFIG_MQTT_KEEPALIVE_INTERVAL_MAX :: nat where "CONFIG_MQTT_KEEPALIVE_INTERVAL_MAX = 1200"

section \<open>Tokens\<close>

text \<open>The loop of infra_strtok for a delimiter that is not empty. \<open>tok\<close> is what lies between
  \<open>target\<close> and \<open>pos\<close>, and \<open>pos\<close> the string from there; the result is the token and what
  the static \<open>pos\<close> points at.\<close>

function strtok_loop ::
  "byte \<Rightarrow> byte list \<Rightarrow> byte list \<Rightarrow> byte list \<Rightarrow> bool \<Rightarrow> byte list option \<times> byte list" where
  "strtok_loop d ds tok pos only_delim =
     (if length pos < length (d # ds) then (Some (tok @ pos), pos)
      else if take (length (d # ds)) pos \<noteq> d # ds then
        strtok_loop d ds (tok @ [hd pos]) (tl pos) False
      else if length pos = length (d # ds) then (if only_delim then None else Some tok, [])
      else if tok = [] then strtok_loop d ds [] (drop (length (d # ds)) pos) only_delim
      else (Some tok, drop (length (d # ds)) pos))"
  by pat_completeness auto

termination
  by (relation "measure (\<lambda>(_, _, _, pos, _). length pos)") auto

declare strtok_loop.simps [simp del]

definition infra_strtok ::
  "byte \<Rightarrow> byte list \<Rightarrow> byte list option \<Rightarrow> byte list option \<Rightarrow> byte list option \<times> byte list option" where
  "infra_strtok d ds s static_pos =
     (case (case s of None \<Rightarrow> static_pos | Some _ \<Rightarrow> s) of
        None \<Rightarrow> (None, None)
      | Some pos \<Rightarrow>
          if length pos \<le> length (d # ds) then (None, Some pos)
          else let (t, pos') = strtok_loop d ds [] pos True in (t, Some pos'))"

lemma strtok_loop_shorter:
  "strtok_loop d ds tok pos b = (r, pos') \<Longrightarrow> length pos' \<le> length pos"
proof (induction d ds tok pos b arbitrary: r pos' rule: strtok_loop.induct)
  case (1 d ds tok pos b)
  show ?case
  proof (cases "length pos < length (d # ds) \<or> length pos = length (d # ds) \<and> take (length (d # ds)) pos = d # ds
      \<or> take (length (d # ds)) pos = d # ds \<and> tok \<noteq> []")
    case True
    then show ?thesis using 1(3) by (subst (asm) strtok_loop.simps) (auto split: if_splits)
  next
    case False
    then show ?thesis
      using 1(3) 1(1) [of r pos'] 1(2) [of r pos'] by (subst (asm) strtok_loop.simps) (auto split: if_splits)
  qed
qed

lemma strtok_loop_consumes:
  assumes "length (d # ds) \<le> length pos" "strtok_loop d ds tok pos b = (r, pos')"
  shows "length pos' < length pos"
proof -
  have pos: "0 < length pos" using assms(1) by auto
  show ?thesis
    using assms(2) pos
    by (subst (asm) strtok_loop.simps)
      (use assms(1) in \<open>auto split: if_splits dest!: strtok_loop_shorter\<close>)
qed

section \<open>The check of a topic\<close>

datatype topic_type = TOPIC_NAME_TYPE | TOPIC_FILTER_TYPE

fun check_chars :: "topic_type \<Rightarrow> nat \<Rightarrow> byte list \<Rightarrow> int" where
  "check_chars ty len [] = 0"
| "check_chars ty len (i # is) =
     (if (i = PLUS \<or> i = HASH) \<and> (ty = TOPIC_FILTER_TYPE \<longrightarrow> len \<noteq> 1) then STATE_MQTT_UNEXP_TOPIC_FORMAT
      else if sint i < 32 \<or> sint i \<ge> 127 then STATE_MQTT_UNEXP_TOPIC_FORMAT
      else check_chars ty len is)"

definition iotx_mc_check_rule :: "byte list option \<Rightarrow> topic_type \<Rightarrow> int" where
  "iotx_mc_check_rule iterm ty =
     (case iterm of None \<Rightarrow> STATE_USER_INPUT_INVALID | Some s \<Rightarrow> check_chars ty (length s) s)"

text \<open>The endless loop over the further tokens; \<open>hash_seen\<close> is the variable mask.\<close>

function check_topic_loop :: "topic_type \<Rightarrow> bool \<Rightarrow> byte list option \<Rightarrow> int" where
  "check_topic_loop ty hash_seen pos =
     (case infra_strtok SLASH [] None pos of
        (None, _) \<Rightarrow> 0
      | (Some iterm, pos') \<Rightarrow>
          if hash_seen then STATE_MQTT_UNEXP_TOPIC_FORMAT
          else
            let res = iotx_mc_check_rule (Some iterm) ty
            in if res < 0 then res
               else check_topic_loop ty (hash_seen \<or> (iterm \<noteq> [] \<and> hd iterm = HASH)) pos')"
  by pat_completeness auto

termination
proof (relation "measure (\<lambda>(_, _, pos). case pos of None \<Rightarrow> 0 | Some p \<Rightarrow> length p)", goal_cases)
  case (2 ty hash_seen pos r iterm pos')
  then show ?case
    by (auto simp: infra_strtok_def split: option.splits if_splits prod.splits)
      (use strtok_loop_consumes [of SLASH "[]"] in force)
qed simp

declare check_topic_loop.simps [simp del]

definition iotx_mc_check_topic :: "byte list option \<Rightarrow> topic_type \<Rightarrow> int" where
  "iotx_mc_check_topic topicName ty =
     (case topicName of
        None \<Rightarrow> STATE_MQTT_UNEXP_TOPIC_FORMAT
      | Some s \<Rightarrow>
          if length s > CONFIG_MQTT_TOPIC_MAXLEN then STATE_MQTT_TOPIC_BUF_TOO_SHORT
          else
            let topicString = take (CONFIG_MQTT_TOPIC_MAXLEN - 1) s;
                (iterm, pos) = infra_strtok SLASH [] (Some topicString) None;
                res = iotx_mc_check_rule iterm ty
            in if res < 0 then res else check_topic_loop ty False pos)"


section \<open>Publishing\<close>

definition iotx_mc_get_next_packetid :: "'n mc \<Rightarrow> nat \<times> 'n mc" where
  "iotx_mc_get_next_packetid c =
     (let id = (if mc_packet_id c = IOTX_MC_PACKET_ID_MAX then 1 else mc_packet_id c + 1)
      in (id, c\<lparr>mc_packet_id := id\<rparr>))"

definition cstring_of :: "byte list \<Rightarrow> MQTTString" where
  "cstring_of s = MQTTString_initializer\<lparr>cstring := Some s\<rparr>"

text \<open>A message to publish: identifier, quality, retain flag and payload with its length.\<close>

record pub_msg =
  pm_packet_id :: nat
  pm_qos :: int
  pm_retain :: byte
  pm_payload :: "byte list option"
  pm_payload_len :: nat

definition MQTTPublish :: "'n platform \<Rightarrow> byte list \<Rightarrow> pub_msg \<Rightarrow> 'n mc \<Rightarrow> (int \<times> 'n mc) option" where
  "MQTTPublish pf topicName msg c =
     (let (timer, c1) = utils_time_countdown_ms pf (mc_request_timeout c) c;
          (res, c2) = alloc_send_buffer pf (length topicName + pm_payload_len msg) c1
      in if res < 0 then Some (res, c2)
         else do {
           payload \<leftarrow> pm_payload msg;
           (len, c3) \<leftarrow> serialize (\<lambda>buf size. MQTTSerialize_publish buf size 0 (pm_qos msg) (pm_retain msg)
             (int (pm_packet_id msg)) (cstring_of topicName) payload (int (pm_payload_len msg))) c2;
           if len \<le> 0 then Some (STATE_MQTT_SERIALIZE_PUB_ERROR, reset_send_buffer c3)
           else do {
             (res2, c4) \<leftarrow> (if pm_qos msg > 0 then iotx_mc_push_pubInfo_to pf len (pm_packet_id msg) c3
                            else Some (0, c3));
             if res2 < 0 then Some (res2, reset_send_buffer c4)
             else do {
               (rc, c5) \<leftarrow> send_buffer pf len timer c4;
               if rc \<noteq> 0 then
                 let c6 = (if pm_qos msg > 0
                           then c5\<lparr>mc_list_pub_wait_ack := butlast (mc_list_pub_wait_ack c5)\<rparr> else c5)
                 in Some (STATE_SYS_DEPEND_NWK_CLOSE, reset_send_buffer c6)
               else Some (0, reset_send_buffer c5)
             }
           }
         })"

definition wrapper_mqtt_check_state :: "'n mc \<Rightarrow> bool" where
  "wrapper_mqtt_check_state c \<longleftrightarrow> mc_client_state c = IOTX_MC_STATE_CONNECTED"

definition closed_if :: "int \<Rightarrow> 'n mc \<Rightarrow> 'n mc" where
  "closed_if rc c = (if rc = STATE_SYS_DEPEND_NWK_CLOSE then set_client_state IOTX_MC_STATE_DISCONNECTED c else c)"

definition wrapper_mqtt_publish ::
  "'n platform \<Rightarrow> byte list option \<Rightarrow> pub_msg option \<Rightarrow> 'n mc \<Rightarrow> (int \<times> 'n mc) option" where
  "wrapper_mqtt_publish pf topicName topic_msg c =
     (case (topicName, topic_msg) of
        (Some t, Some msg) \<Rightarrow>
          if pm_payload msg = None then Some (STATE_USER_INPUT_INVALID, c)
          else
            let rc = iotx_mc_check_topic (Some t) TOPIC_NAME_TYPE
            in if rc < 0 then Some (rc, c)
               else if \<not> wrapper_mqtt_check_state c then Some (STATE_MQTT_IN_OFFLINE_STATUS, c)
               else
                 let (msg_id, c1) = (if pm_qos msg = 1 \<or> pm_qos msg = 2 then iotx_mc_get_next_packetid c
                                     else (0, c));
                     msg' = (if pm_qos msg = 1 \<or> pm_qos msg = 2 then msg\<lparr>pm_packet_id := msg_id\<rparr> else msg)
                 in if pm_qos msg = 2 then Some (STATE_MQTT_PUB_QOS_INVALID, c1)
                    else do {
                      (rc2, c2) \<leftarrow> MQTTPublish pf t msg' c1;
                      if rc2 < 0 then Some (rc2, closed_if rc2 c2) else Some (int msg_id, c2)
                    }
      | _ \<Rightarrow> Some (STATE_USER_INPUT_INVALID, c))"

section \<open>Subscribing\<close>

definition handle_is_identical :: "topic_handle \<Rightarrow> topic_handle \<Rightarrow> bool" where
  "handle_is_identical a b \<longleftrightarrow> th_filter a = th_filter b
     \<and> h_fp (th_handle a) = h_fp (th_handle b) \<and> pcontext (th_handle a) = pcontext (th_handle b)"

text \<open>A handler that is already in the list is not added again.\<close>

definition add_handle :: "topic_handle \<Rightarrow> 'n mc \<Rightarrow> 'n mc" where
  "add_handle h c = (if list_ex (\<lambda>node. handle_is_identical node h) (mc_list_sub_handle c) then c
     else c\<lparr>mc_list_sub_handle := mc_list_sub_handle c @ [h]\<rparr>)"

definition IOTX_MQTT_QOS3_SUB_LOCAL :: int where "IOTX_MQTT_QOS3_SUB_LOCAL = 3"

definition MQTTSubscribe ::
  "'n platform \<Rightarrow> byte list \<Rightarrow> int \<Rightarrow> nat \<Rightarrow> event_handle \<Rightarrow> 'n mc \<Rightarrow> (int \<times> 'n mc) option" where
  "MQTTSubscribe pf topicFilter qos msgId h c =
     (let (timer, c1) = utils_time_countdown_ms pf (mc_request_timeout c) c;
          (ok, c2) = plat (pf_malloc pf (pf_sizeof_handle pf)) c1
      in if \<not> ok then Some (STATE_SYS_DEPEND_MALLOC, c2)
         else
           let (ok2, c3) = plat (pf_malloc pf (length topicFilter + 1)) c2;
               handler = \<lparr>th_filter = topicFilter, th_handle = h\<rparr>
           in if \<not> ok2 then Some (STATE_SYS_DEPEND_MALLOC, c3)
              else if qos = IOTX_MQTT_QOS3_SUB_LOCAL then Some (0, add_handle handler c3)
              else
                let (res, c4) = alloc_send_buffer pf (length topicFilter) c3
                in if res < 0 then Some (res, c4)
                   else do {
                     (len, c5) \<leftarrow> serialize (\<lambda>buf size. MQTTSerialize_subscribe buf size 0 (int msgId)
                       [(cstring_of topicFilter, qos)]) c4;
                     if len \<le> 0 then Some (STATE_MQTT_SERIALIZE_SUB_ERROR, reset_send_buffer c5)
                     else do {
                       (rc, c6) \<leftarrow> send_buffer pf len timer c5;
                       if rc \<noteq> 0 then Some (STATE_SYS_DEPEND_NWK_CLOSE, reset_send_buffer c6)
                       else Some (0, add_handle handler (reset_send_buffer c6))
                     }
                   })"

definition wrapper_mqtt_subscribe ::
  "'n platform \<Rightarrow> byte list option \<Rightarrow> int \<Rightarrow> event_handle \<Rightarrow> 'n mc \<Rightarrow> (int \<times> 'n mc) option" where
  "wrapper_mqtt_subscribe pf topicFilter qos h c =
     (case topicFilter of
        None \<Rightarrow> Some (STATE_USER_INPUT_INVALID, c)
      | Some f \<Rightarrow>
          if f = [] \<or> h_fp h = None then Some (STATE_USER_INPUT_INVALID, c)
          else
            let (msgId, c1) = iotx_mc_get_next_packetid c
            in if \<not> wrapper_mqtt_check_state c1 then Some (STATE_MQTT_IN_OFFLINE_STATUS, c1)
               else
                 let rc = iotx_mc_check_topic (Some f) TOPIC_FILTER_TYPE
                 in if rc < 0 then Some (rc, c1)
                    else do {
                      (rc2, c2) \<leftarrow> MQTTSubscribe pf f qos msgId h c1;
                      if rc2 < 0 then Some (rc2, closed_if rc2 c2) else Some (int msgId, c2)
                    })"

text \<open>The handlers that are left: those whose filter neither equals the topic nor matches it.\<close>

fun drop_handles :: "byte list \<Rightarrow> topic_handle list \<Rightarrow> topic_handle list option" where
  "drop_handles t [] = Some []"
| "drop_handles t (node # nodes) = do {
     let cur_topic = \<lparr>cstring = None, ls_len = int (length t), ls_data = Some t\<rparr>;
     eq \<leftarrow> MQTTPacket_equals cur_topic (th_filter node);
     hit \<leftarrow> (if eq then Some True else iotx_mc_is_topic_matched (Some (th_filter node)) (Some cur_topic));
     rest \<leftarrow> drop_handles t nodes;
     Some (if hit then rest else node # rest)
   }"

definition MQTTUnsubscribe :: "'n platform \<Rightarrow> byte list \<Rightarrow> nat \<Rightarrow> 'n mc \<Rightarrow> (int \<times> 'n mc) option" where
  "MQTTUnsubscribe pf topicFilter msgId c =
     (let (timer, c1) = utils_time_countdown_ms pf (mc_request_timeout c) c;
          (ok, c2) = plat (pf_malloc pf (pf_sizeof_handle pf)) c1
      in if \<not> ok then Some (STATE_SYS_DEPEND_MALLOC, c2)
         else
           let (ok2, c3) = plat (pf_malloc pf (length topicFilter + 1)) c2
           in if \<not> ok2 then Some (STATE_SYS_DEPEND_MALLOC, c3)
              else
                let (res, c4) = alloc_send_buffer pf (length topicFilter) c3
                in if res < 0 then Some (res, c4)
                   else do {
                     (len, c5) \<leftarrow> serialize (\<lambda>buf size. MQTTSerialize_unsubscribe buf size 0 (int msgId)
                       [cstring_of topicFilter]) c4;
                     if len \<le> 0 then Some (STATE_MQTT_SERIALIZE_UNSUB_ERROR, reset_send_buffer c5)
                     else do {
                       (rc, c6) \<leftarrow> send_buffer pf len timer c5;
                       if rc \<noteq> 0 then Some (STATE_SYS_DEPEND_NWK_CLOSE, reset_send_buffer c6)
                       else do {
                         nodes \<leftarrow> drop_handles topicFilter (mc_list_sub_handle c6);
                         Some (0, reset_send_buffer (c6\<lparr>mc_list_sub_handle := nodes\<rparr>))
                       }
                     }
                   })"

definition wrapper_mqtt_unsubscribe ::
  "'n platform \<Rightarrow> byte list option \<Rightarrow> 'n mc \<Rightarrow> (int \<times> 'n mc) option" where
  "wrapper_mqtt_unsubscribe pf topicFilter c =
     (case topicFilter of
        None \<Rightarrow> Some (STATE_USER_INPUT_INVALID, c)
      | Some f \<Rightarrow>
          let (msgId, c1) = iotx_mc_get_next_packetid c;
              rc = iotx_mc_check_topic (Some f) TOPIC_FILTER_TYPE
          in if rc < 0 then Some (rc, c1)
             else if \<not> wrapper_mqtt_check_state c1 then Some (STATE_MQTT_IN_OFFLINE_STATUS, c1)
             else do {
               (rc2, c2) \<leftarrow> MQTTUnsubscribe pf f msgId c1;
               if rc2 < 0 then Some (rc2, closed_if rc2 c2) else Some (int msgId, c2)
             })"

end
