(* ===== verification/Mqtt_Conn.thy ===== *)
theory Mqtt_Conn
  imports Mqtt_Api
begin

text \<open>
  Connections of the MQTT client (iotx_mqtt_client.c): connecting with retries, the ping,
  the reconnection with a growing interval, the loop of cycles, and the public calls that
  drive them.
\<close>

section \<open>Connecting\<close>

definition MQTTConnect :: "'n platform \<Rightarrow> 'n mc \<Rightarrow> (int \<times> 'n mc) option" where
  "MQTTConnect pf c =
     (let len = MQTTPacket_len (MQTTSerialize_connectLength (mc_connect_data c));
          (res, c1) = alloc_send_buffer pf (nat len) c
      in if res < 0 then Some (res, c1)
         else do {
           (n, c2) \<leftarrow> serialize (\<lambda>buf size. MQTTSerialize_connect buf size (mc_connect_data c1)) c1;
           if n \<le> 0 then Some (STATE_MQTT_SERIALIZE_CONN_ERROR, reset_send_buffer c2)
           else do {
             let (timer, c3) = utils_time_countdown_ms pf (mc_request_timeout c2) c2;
             (rc, c4) \<leftarrow> send_buffer pf n timer c3;
             Some (if rc < 0 then rc else 0, reset_send_buffer c4)
           }
         })"

definition WAIT_CONNACK_MAX :: nat where "WAIT_CONNACK_MAX = 10"

text \<open>The loop that reads up to the CONNACK; the result is 0 or an error.\<close>

function wait_connack_loop :: "'n platform \<Rightarrow> nat \<Rightarrow> nat \<Rightarrow> 'n mc \<Rightarrow> (int \<times> 'n mc) option" where
  "wait_connack_loop pf timer wait_connack c = do {
     (rc, packetType, c1) \<leftarrow> iotx_mc_read_packet pf timer c;
     if rc < 0 then Some (rc, c1)
     else if wait_connack + 1 > WAIT_CONNACK_MAX then Some (STATE_SYS_DEPEND_NWK_CLOSE, c1)
     else if packetType \<noteq> CONNACK then wait_connack_loop pf timer (wait_connack + 1) c1
     else Some (0, c1)
   }"
  by pat_completeness auto

termination
  by (relation "measure (\<lambda>(_, _, wait_connack, _). WAIT_CONNACK_MAX - wait_connack)") auto

declare wait_connack_loop.simps [simp del]

definition iotx_mc_wait_CONNACK :: "'n platform \<Rightarrow> 'n mc \<Rightarrow> (int \<times> 'n mc) option" where
  "iotx_mc_wait_CONNACK pf c =
     (let (timer, c1) = utils_time_countdown_ms pf (mc_request_timeout c) c
      in do {
        (rc, c2) \<leftarrow> wait_connack_loop pf timer 0 c1;
        if rc < 0 then Some (rc, reset_recv_buffer c2)
        else do {
          (rc2, c3) \<leftarrow> iotx_mc_handle_recv_CONNACK c2;
          Some (rc2, reset_recv_buffer c3)
        }
      })"

definition set_keepalive :: "nat \<Rightarrow> 'n mc \<Rightarrow> 'n mc" where
  "set_keepalive k c = c\<lparr>mc_connect_data := (mc_connect_data c)\<lparr>keepAliveInterval := k\<rparr>\<rparr>"

definition RETRY_INTV_PERIOD :: nat where "RETRY_INTV_PERIOD = 2000"

text \<open>The attempts that are left, eight at first; the flag says whether one succeeded.\<close>

fun connect_tries :: "'n platform \<Rightarrow> nat \<Rightarrow> nat \<Rightarrow> 'n mc \<Rightarrow> ((int + bool) \<times> 'n mc) option" where
  "connect_tries pf userKeepAliveInterval 0 c = Some (Inr False, c)"
| "connect_tries pf userKeepAliveInterval (Suc tries) c = do {
     (rc, c1) \<leftarrow> MQTTConnect pf c;
     let c2 = set_keepalive userKeepAliveInterval c1;
     if rc < 0 then Some (Inl rc, plat_do (pf_disconnect pf) c2)
     else do {
       (rc2, c3) \<leftarrow> iotx_mc_wait_CONNACK pf c2;
       if rc2 \<le> STATE_MQTT_CONNACK_VERSION_UNACCEPT \<and> rc2 \<ge> STATE_MQTT_CONNACK_NOT_AUTHORIZED then
         Some (Inl rc2, plat_do (pf_disconnect pf) c3)
       else if rc2 \<noteq> 0 then
         let c4 = plat_do (pf_disconnect pf) (plat_do (pf_msleep pf RETRY_INTV_PERIOD) c3);
             (_, c5) = plat (pf_connect pf) c4
         in connect_tries pf userKeepAliveInterval tries c5
       else Some (Inr True, c3)
     }
   }"

definition mqtt_connect :: "'n platform \<Rightarrow> 'n mc \<Rightarrow> (int \<times> 'n mc) option" where
  "mqtt_connect pf c =
     (let userKeepAliveInterval = keepAliveInterval (mc_connect_data c);
          doubled = u16 (userKeepAliveInterval * 2);
          k = (if doubled > CONFIG_MQTT_KEEPALIVE_INTERVAL_MAX then CONFIG_MQTT_KEEPALIVE_INTERVAL_MAX else doubled)
      in do {
        (r, c1) \<leftarrow> connect_tries pf userKeepAliveInterval 8 (set_keepalive k c);
        case r of
          Inl rc \<Rightarrow> Some (rc, c1)
        | Inr False \<Rightarrow> Some (STATE_MQTT_CONN_RETRY_EXCEED_MAX, c1)
        | Inr True \<Rightarrow>
            let c2 = set_client_state IOTX_MC_STATE_CONNECTED (c1\<lparr>mc_keepalive_probes := 0\<rparr>);
                (t, c3) = utils_time_countdown_ms pf (keepAliveInterval (mc_connect_data c2) * 1000) c2
            in Some (0, c3\<lparr>mc_next_ping_time := t\<rparr>)
      })"

definition ERROR_CERTIFICATE_EXPIRED :: int where "ERROR_CERTIFICATE_EXPIRED = -1015"
definition ERROR_CERT_VERIFY_FAIL :: int where "ERROR_CERT_VERIFY_FAIL = -309"

text \<open>Three attempts to open the stream.\<close>

fun nwk_connect_tries :: "'n platform \<Rightarrow> nat \<Rightarrow> int \<Rightarrow> 'n mc \<Rightarrow> int \<times> 'n mc" where
  "nwk_connect_tries pf 0 prev c = (prev, c)"
| "nwk_connect_tries pf (Suc tries) prev c =
     (let (rc, c1) = plat (pf_connect pf) c
      in if rc \<noteq> 0 then
           nwk_connect_tries pf tries
             (if rc = ERROR_CERTIFICATE_EXPIRED then ERROR_CERT_VERIFY_FAIL else STATE_SYS_DEPEND_NWK_CLOSE)
             (plat_do (pf_msleep pf 1000) (plat_do (pf_disconnect pf) c1))
         else (rc, c1))"

definition mqtt_nwk_connect :: "'n platform \<Rightarrow> 'n mc \<Rightarrow> int \<times> 'n mc" where
  "mqtt_nwk_connect pf c = nwk_connect_tries pf 3 0 c"

definition wrapper_mqtt_connect :: "'n platform \<Rightarrow> 'n mc \<Rightarrow> (int \<times> 'n mc) option" where
  "wrapper_mqtt_connect pf c =
     (let (rc, c1) = mqtt_nwk_connect pf c in if rc \<noteq> 0 then Some (rc, c1) else mqtt_connect pf c1)"

section \<open>Keeping the connection alive\<close>

definition MQTTKeepalive :: "'n platform \<Rightarrow> 'n mc \<Rightarrow> (int \<times> 'n mc) option" where
  "MQTTKeepalive pf c =
     (let (timer, c1) = utils_time_countdown_ms pf 1000 c;
          (rc, c2) = alloc_send_buffer pf 0 c1
      in if rc < 0 then Some (rc, c2)
         else do {
           (len, c3) \<leftarrow> serialize MQTTSerialize_pingreq c2;
           if len \<le> 0 then Some (STATE_MQTT_SERIALIZE_PINGREQ_ERROR, reset_send_buffer c3)
           else do {
             (rc2, c4) \<leftarrow> send_buffer pf len timer c3;
             Some (if rc2 < 0 then STATE_SYS_DEPEND_NWK_CLOSE else 0, reset_send_buffer c4)
           }
         })"

definition iotx_mc_keepalive_sub :: "'n platform \<Rightarrow> 'n mc \<Rightarrow> (int \<times> 'n mc) option" where
  "iotx_mc_keepalive_sub pf c =
     (if \<not> wrapper_mqtt_check_state c then Some (0, c)
      else
        let (expired, c1) = utils_time_is_expired pf (mc_next_ping_time c) c
        in if \<not> expired then Some (0, c1)
           else
             let (t, c2) = utils_time_countdown_ms pf (keepAliveInterval (mc_connect_data c1) * 1000) c1
             in do {
               (rc, c3) \<leftarrow> MQTTKeepalive pf (c2\<lparr>mc_next_ping_time := t\<rparr>);
               if rc < 0 then Some (rc, closed_if rc c3)
               else Some (0, c3\<lparr>mc_keepalive_probes := u8 (mc_keepalive_probes c3 + 1)\<rparr>)
             })"

section \<open>Reconnecting\<close>

definition iotx_mc_attempt_reconnect :: "'n platform \<Rightarrow> 'n mc \<Rightarrow> (int \<times> 'n mc) option" where
  "iotx_mc_attempt_reconnect pf c =
     (let (_, c1) = mqtt_nwk_connect pf (plat_do (pf_disconnect pf) c) in mqtt_connect pf c1)"

definition STATE_MQTT_ASYNC_STACK_CONN_IN_PROG :: int where "STATE_MQTT_ASYNC_STACK_CONN_IN_PROG = -0x324"

definition iotx_mc_handle_reconnect :: "'n platform \<Rightarrow> 'n mc \<Rightarrow> (int \<times> 'n mc) option" where
  "iotx_mc_handle_reconnect pf c =
     (let (expired, c1) = utils_time_is_expired pf (mc_reconnect_next_time c) c
      in if \<not> expired then Some (STATE_MQTT_WAIT_RECONN_TIMER, plat_do (pf_msleep pf 100) c1)
         else do {
           (rc, c2) \<leftarrow> iotx_mc_attempt_reconnect pf c1;
           if rc = 0 then Some (0, set_client_state IOTX_MC_STATE_CONNECTED c2)
           else if rc = STATE_MQTT_ASYNC_STACK_CONN_IN_PROG then Some (rc, c2)
           else
             let c3 = c2\<lparr>mc_reconnect_interval_ms :=
                   (if IOTX_MC_RECONNECT_INTERVAL_MAX_MS > mc_reconnect_interval_ms c2
                    then u32 (mc_reconnect_interval_ms c2 * 2) else IOTX_MC_RECONNECT_INTERVAL_MAX_MS)\<rparr>;
                 interval_ms = (if IOTX_MC_RECONNECT_INTERVAL_MAX_MS < mc_reconnect_interval_ms c3
                   then IOTX_MC_RECONNECT_INTERVAL_MAX_MS else mc_reconnect_interval_ms c3);
                 (t, c4) = utils_time_countdown_ms pf interval_ms c3
             in Some (rc, c4\<lparr>mc_reconnect_next_time := t\<rparr>)
         })"

definition iotx_mc_keepalive :: "'n platform \<Rightarrow> 'n mc \<Rightarrow> 'n mc option" where
  "iotx_mc_keepalive pf c = do {
     (_, c1) \<leftarrow> iotx_mc_keepalive_sub pf c;
     if mc_client_state c1 = IOTX_MC_STATE_DISCONNECTED_RECONNECTING
        \<or> mc_client_state c1 = IOTX_MC_STATE_CONNECT_BLOCK then do {
       (rc, c2) \<leftarrow> iotx_mc_handle_reconnect pf c1;
       Some (if rc < 0 then c2
         else (handle_event (mc_handle_event c2) EVENT_RECONNECT c2)
                \<lparr>mc_reconnect_interval_ms := IOTX_MC_RECONNECT_INTERVAL_MIN_MS\<rparr>)
     }
     else if mc_client_state c1 = IOTX_MC_STATE_DISCONNECTED then
       let c2 = (handle_event (mc_handle_event c1) EVENT_DISCONNECT c1)
             \<lparr>mc_reconnect_interval_ms := IOTX_MC_RECONNECT_INTERVAL_MIN_MS\<rparr>;
           (t, c3) = utils_time_countdown_ms pf (mc_reconnect_interval_ms c2) c2
       in Some (set_client_state IOTX_MC_STATE_DISCONNECTED_RECONNECTING
            (plat_do (pf_disconnect pf) (c3\<lparr>mc_reconnect_next_time := t\<rparr>)))
     else Some c1
   }"

section \<open>The loop of cycles\<close>

partial_function (option) cycle_loop :: "'n platform \<Rightarrow> nat \<Rightarrow> 'n mc \<Rightarrow> 'n mc option" where
  "cycle_loop pf time c = do {
     (rc, c1) \<leftarrow> iotx_mc_cycle pf time c;
     c2 \<leftarrow> (if rc = 0 then do { (_, c') \<leftarrow> MQTTPubInfoProc pf c1; Some c' } else Some c1);
     let (left_t, c3) = iotx_time_left pf time c2;
     let c4 = plat_do (pf_msleep pf (if left_t < 10 then left_t else 10)) c3;
     let (expired, c5) = utils_time_is_expired pf time c4;
     if expired then Some c5 else cycle_loop pf time c5
   }"

definition mqtt_cycle :: "'n platform \<Rightarrow> 'n mc \<Rightarrow> 'n mc option" where
  "mqtt_cycle pf c =
     (let (time, c1) = utils_time_countdown_ms pf (mc_cycle_timeout c) c in cycle_loop pf time c1)"

definition wrapper_mqtt_yield :: "'n platform \<Rightarrow> int \<Rightarrow> 'n mc \<Rightarrow> (int \<times> 'n mc) option" where
  "wrapper_mqtt_yield pf timeout_ms c =
     (if timeout_ms < 0 then Some (STATE_USER_INPUT_INVALID, c)
      else do {
        c1 \<leftarrow> iotx_mc_keepalive pf (c\<lparr>mc_cycle_timeout := (if timeout_ms = 0 then 10 else nat timeout_ms)\<rparr>);
        c2 \<leftarrow> mqtt_cycle pf c1;
        Some (0, c2)
      })"

section \<open>Disconnecting\<close>

definition MQTTDisconnect :: "'n platform \<Rightarrow> 'n mc \<Rightarrow> (int \<times> 'n mc) option" where
  "MQTTDisconnect pf c =
     (let (res, c1) = alloc_send_buffer pf 0 c
      in if res < 0 then Some (res, c1)
         else do {
           (len, c2) \<leftarrow> serialize MQTTSerialize_disconnect c1;
           let (timer, c3) = utils_time_countdown_ms pf (mc_request_timeout c2) c2;
           (rc, c4) \<leftarrow> (if len > 0 then send_buffer pf len timer c3 else Some (0, c3));
           Some (rc, reset_send_buffer c4)
         })"

definition iotx_mc_disconnect :: "'n platform \<Rightarrow> 'n mc \<Rightarrow> (int \<times> 'n mc) option" where
  "iotx_mc_disconnect pf c = do {
     c1 \<leftarrow> (if wrapper_mqtt_check_state c then do { (_, c') \<leftarrow> MQTTDisconnect pf c; Some c' } else Some c);
     Some (0, set_client_state IOTX_MC_STATE_INITIALIZED (plat_do (pf_disconnect pf) c1))
   }"

end
