(* ===== verification/Mqtt_Flow.thy ===== *)
theory Mqtt_Flow
  imports Mqtt_Stream Mqtt_Conn
begin

text \<open>
  What the client does over time: the delivery of a received message to the handlers, the
  list of publications that wait for an acknowledgement as a queue of identifiers and
  packets, and both directions over a stream that works in time (\<open>duplex\<close>).
\<close>

section \<open>Delivery\<close>

definition hears :: "byte list \<Rightarrow> topic_handle \<Rightarrow> bool" where
  "hears t h \<longleftrightarrow> th_filter h = t \<or> text_match (th_filter h) t"

definition told :: "byte list \<Rightarrow> topic_handle list \<Rightarrow> event_handle list" where
  "told t nodes = map th_handle (filter (\<lambda>h. hears t h \<and> h_fp (th_handle h) \<noteq> None) nodes)"

lemma told_simps [simp]: "told t [] = []"
  "told t (h # hs) = (if hears t h \<and> h_fp (th_handle h) \<noteq> None then [th_handle h] else []) @ told t hs"
  by (simp_all add: told_def)

definition called :: "event_handle list \<Rightarrow> event_msg \<Rightarrow> 'n mc \<Rightarrow> 'n mc" where
  "called hs e c = c\<lparr>mc_calls := mc_calls c @ map (\<lambda>h. (h, e)) hs\<rparr>"

lemma called_Nil [simp]: "called [] e c = c"
  by (simp add: called_def)

lemma called_fold: "called hs' e (called hs e c) = called (hs @ hs') e c"
  by (simp add: called_def)

lemma handle_event_called: "handle_event h e c = called (if h_fp h = None then [] else [h]) e c"
  by (simp add: handle_event_def called_def)

text \<open>A topic that was read from a packet.\<close>

definition topic_is :: "byte list \<Rightarrow> MQTTString \<Rightarrow> bool" where
  "topic_is t ms \<longleftrightarrow> cstring ms = None \<and> ls_len ms = int (length t)
     \<and> (\<exists>rest. ls_data ms = Some (t @ rest))"

lemma topic_hit:
  assumes "topic_is t ms"
  shows "(MQTTPacket_equals ms f \<bind> (\<lambda>eq. if eq then Some True
      else iotx_mc_is_topic_matched (Some f) (Some ms))) = Some (f = t \<or> text_match f t)"
  using assms
  by (auto simp: topic_is_def MQTTPacket_equals_def iotx_mc_is_topic_matched_def text_match_def
      split: prod.splits)

lemma deliver_loop_calls:
  assumes "topic_is t ms"
  shows "deliver_loop nodes ms msg flag c
    = Some (flag \<or> told t nodes \<noteq> [], called (told t nodes) (EVENT_PUBLISH_RECEIVED msg) c)"
proof (induction nodes arbitrary: flag c)
  case Nil
  then show ?case by simp
next
  case (Cons node nodes)
  obtain eq where e: "MQTTPacket_equals ms (th_filter node) = Some eq"
    "(if eq then Some True else iotx_mc_is_topic_matched (Some (th_filter node)) (Some ms)) = Some (hears t node)"
    using topic_hit [OF assms, of "th_filter node"] by (auto simp: hears_def bind_eq_Some_conv)
  show ?case
    by (auto simp: e Cons.IH handle_event_called called_fold)
qed

lemma deliver_calls:
  assumes "topic_is t ms" "t \<noteq> identify_topic"
  shows "iotx_mc_deliver_message pf ms msg c = Some (let hs = told t (mc_list_sub_handle c) in
    called (if hs \<noteq> [] then hs else if h_fp (mc_handle_event c) = None then [] else [mc_handle_event c])
      (EVENT_PUBLISH_RECEIVED (msg\<lparr>ti_topic := t\<rparr>)) c)"
proof -
  obtain rest where r: "ls_data ms = Some (t @ rest)" "ls_len ms = int (length t)"
    using assms(1) by (auto simp: topic_is_def)
  show ?thesis
    using assms(2) by (simp add: iotx_mc_deliver_message_def r iotx_mc_parse_identity_response_def
        handle_event_called Let_def deliver_loop_calls [OF assms(1)])
qed

text \<open>The message that the handlers get for a PUBLISH packet.\<close>

definition heard :: "byte \<Rightarrow> int \<Rightarrow> byte \<Rightarrow> nat \<Rightarrow> byte list \<Rightarrow> byte list \<Rightarrow> byte list \<Rightarrow> topic_info" where
  "heard dup qos retained pid t payload tail = \<lparr>ti_packet_id = (if qos > 0 then int pid else 0), ti_qos = qos,
     ti_dup = dup, ti_retain = retained, ti_topic = t, ti_payload_len = length payload,
     ti_payload = Some (payload @ tail)\<rparr>"

definition deliver :: "byte list \<Rightarrow> topic_info \<Rightarrow> 'n mc \<Rightarrow> 'n mc" where
  "deliver t msg c = (let hs = told t (mc_list_sub_handle c) in
     called (if hs \<noteq> [] then hs else if h_fp (mc_handle_event c) = None then [] else [mc_handle_event c])
       (EVENT_PUBLISH_RECEIVED msg) c)"

lemma recv_publish:
  assumes buf: "mc_buf_read c = Some (packet (publish_header dup qos retained) body @ tail)"
    and body: "body = be16 (length t) @ t @ (if qos > 0 then be16 pid else []) @ payload"
    and small: "length body < 268435456"
    and t: "t \<noteq> []" "length t < 65536" "t \<noteq> identify_topic" and pid: "pid < 65536"
    and h: "dup \<le> 1" "retained \<le> 1" and qos: "qos = 0 \<or> qos = 1"
  shows "iotx_mc_handle_recv_PUBLISH pf c =
    (let c1 = deliver t (heard dup qos retained pid t payload tail) c
     in if qos = 0 then Some (0, c1) else MQTTPuback pf (int pid) PUBACK c1)"
proof -
  have q: "0 \<le> qos" "qos \<le> 3" using qos by auto
  note f = publish_header_fields [OF h(1) q h(2)]
  have len: "length payload < 4294967296" using small by (simp add: body)
  define opt where "opt = (if qos > 0 then be16 pid else [])"
  define ms where "ms = \<lparr>cstring = None, ls_len = int (length t), ls_data = Some (t @ opt @ payload @ tail)\<rparr>"
  have ms: "topic_is t ms" by (simp add: topic_is_def ms_def)
  have d: "MQTTDeserialize_publish publish_zero (packet (publish_header dup qos retained) body @ tail)
    = Some (1, \<lparr>po_dup = dup, po_qos = qos, po_retained = retained,
        po_packetid = (if qos > 0 then int pid else 0), po_topic = ms,
        po_payload = Some (payload @ tail), po_payloadlen = int (length payload)\<rparr>)"
    using deserialize_publish_at [OF refl small body t(2) pid f(1,3), of publish_zero tail] f(2,4)
    by (simp add: publish_zero_def ms_def opt_def)
  have l: "ls_len ms \<noteq> 0" "ls_data ms \<noteq> None" using t(1) by (simp_all add: ms_def)
  show ?thesis
    unfolding iotx_mc_handle_recv_PUBLISH_def buf Option.bind.bind_lunit d case_prod_conv
    using l len qos
    by (auto simp: deliver_calls [OF ms t(3)] deliver_def heard_def Let_def)
qed

section \<open>Publications that wait\<close>

definition pending_of :: "pub_info list \<Rightarrow> (nat \<times> byte list) list" where
  "pending_of nodes = map (\<lambda>p. (pub_msg_id p, pub_buf p))
     (filter (\<lambda>p. pub_node_state p = IOTX_MC_NODE_STATE_NORMANL) nodes)"

abbreviation pending :: "'n mc \<Rightarrow> (nat \<times> byte list) list" where
  "pending c \<equiv> pending_of (mc_list_pub_wait_ack c)"

lemma pending_of_simps [simp]: "pending_of [] = []"
  "pending_of (p # ps) = (if pub_node_state p = IOTX_MC_NODE_STATE_NORMANL then [(pub_msg_id p, pub_buf p)] else [])
     @ pending_of ps"
  "pending_of (ps @ qs) = pending_of ps @ pending_of qs"
  by (simp_all add: pending_of_def)

lemma mask_pending:
  "pending (iotx_mc_mask_pubInfo_from msgId c) = filter (\<lambda>(i, _). int i \<noteq> msgId) (pending c)"
proof -
  have "pending_of (map (\<lambda>node. if int (pub_msg_id node) = msgId
      then node\<lparr>pub_node_state := IOTX_MC_NODE_STATE_INVALID\<rparr> else node) nodes)
    = filter (\<lambda>(i, _). int i \<noteq> msgId) (pending_of nodes)" for nodes
    by (induction nodes) auto
  then show ?thesis by (simp add: iotx_mc_mask_pubInfo_from_def)
qed

lemma recv_PUBACK:
  assumes "mc_buf_read c = Some (packet h (be16 pid @ extra) @ tail)" "length extra < 268435454" "pid < 65536"
  shows "\<exists>c'. iotx_mc_handle_recv_PUBACK c = Some (0, c')
    \<and> pending c' = filter (\<lambda>(i, _). i \<noteq> pid) (pending c)
    \<and> mc_calls c' = mc_calls c @ (if h_fp (mc_handle_event c) = None then []
        else [(mc_handle_event c, EVENT_PUBLISH_SUCCESS (int pid))])"
proof -
  have m: "mc_handle_event (iotx_mc_mask_pubInfo_from (int pid) c) = mc_handle_event c"
    "mc_calls (iotx_mc_mask_pubInfo_from (int pid) c) = mc_calls c"
    by (simp_all add: iotx_mc_mask_pubInfo_from_def)
  show ?thesis
    using deserialize_ack_at [OF refl assms(2,3), of h tail] assms(1) mask_pending [of "int pid" c]
    by (simp add: iotx_mc_handle_recv_PUBACK_def handle_event_def m Let_def)
qed

text \<open>The functions of the platform change nothing else of the client.\<close>

definition quiet :: "'n mc \<Rightarrow> 'n mc \<Rightarrow> bool" where
  "quiet c c' \<longleftrightarrow> (\<exists>n. c' = c\<lparr>mc_net := n\<rparr>)"

lemma quiet_refl [simp]: "quiet c c"
  unfolding quiet_def by (rule exI [of _ "mc_net c"]) simp

lemma quiet_trans: "quiet c c1 \<Longrightarrow> quiet c1 c2 \<Longrightarrow> quiet c c2"
  by (auto simp: quiet_def)

named_theorems quiet \<open>calls that only change the state of the platform\<close>

lemma plat_quiet [quiet]: "plat f c = (r, c') \<Longrightarrow> quiet c c'"
  by (auto simp: plat_def quiet_def split: prod.splits)

lemma uptime32_quiet [quiet]: "uptime32 pf c = (r, c') \<Longrightarrow> quiet c c'"
  by (auto simp: uptime32_def dest!: plat_quiet split: prod.splits)

lemma expired_quiet [quiet]: "utils_time_is_expired pf t c = (r, c') \<Longrightarrow> quiet c c'"
  by (auto simp: utils_time_is_expired_def dest!: uptime32_quiet split: prod.splits)

lemma time_left_quiet [quiet]: "iotx_time_left pf t c = (r, c') \<Longrightarrow> quiet c c'"
  by (auto simp: iotx_time_left_def dest!: uptime32_quiet expired_quiet split: prod.splits if_splits elim: quiet_trans)

lemma left_quiet [quiet]: "left_time pf t c = (r, c') \<Longrightarrow> quiet c c'"
  by (auto simp: left_time_def dest!: time_left_quiet split: prod.splits)

lemma spend_quiet [quiet]: "utils_time_spend pf t c = (r, c') \<Longrightarrow> quiet c c'"
  by (auto simp: utils_time_spend_def dest!: uptime32_quiet split: prod.splits)

lemma start_quiet [quiet]: "iotx_time_start pf c = (r, c') \<Longrightarrow> quiet c c'"
  by (simp add: iotx_time_start_def uptime32_quiet)

lemma countdown_quiet [quiet]: "utils_time_countdown_ms pf t c = (r, c') \<Longrightarrow> quiet c c'"
  by (auto simp: utils_time_countdown_ms_def dest!: plat_quiet split: prod.splits)

lemma quiet_keeps:
  assumes "quiet c c'"
  shows "mc_list_pub_wait_ack c' = mc_list_pub_wait_ack c" "mc_client_state c' = mc_client_state c"
    "mc_list_sub_handle c' = mc_list_sub_handle c" "mc_buf_send c' = mc_buf_send c"
    "mc_packet_id c' = mc_packet_id c"
  using assms by (auto simp: quiet_def)

lemma send_loop_quiet:
  assumes "send_loop pf buf time l c = Some r"
  shows "quiet c (snd r)"
proof (rule send_loop.raw_induct [where P = "\<lambda>pf buf time l c r. quiet c (snd r)", OF _ assms], goal_cases)
  case (1 f pf buf time l c r)
  obtain e c1 where e: "utils_time_is_expired pf time c = (e, c1)" by fastforce
  obtain t c2 where t: "left_time pf time c1 = (t, c2)" by fastforce
  obtain rc c3 where w: "plat (pf_write pf (drop l buf) t) c2 = (rc, c3)" by fastforce
  have q: "quiet c c1" "quiet c c3"
    using expired_quiet [OF e] left_quiet [OF t] plat_quiet [OF w] by (metis quiet_trans)+
  show ?case
    using 1(2) q by (auto simp: e t w split: if_splits dest!: 1(1) elim: quiet_trans)
qed

lemma send_packet_quiet [quiet]: "iotx_mc_send_packet pf buf t c = Some (rc, c') \<Longrightarrow> quiet c c'"
  by (auto simp: iotx_mc_send_packet_def bind_eq_Some_conv dest!: send_loop_quiet)

lemma send_buffer_quiet [quiet]: "send_buffer pf len t c = Some (rc, c') \<Longrightarrow> quiet c c'"
  by (auto simp: send_buffer_def bind_eq_Some_conv dest!: send_packet_quiet split: if_splits)

lemma republish_quiet [quiet]: "MQTTRePublish pf buf c = Some (rc, c') \<Longrightarrow> quiet c c'"
  by (auto simp: MQTTRePublish_def bind_eq_Some_conv dest!: send_packet_quiet countdown_quiet
      split: prod.splits elim: quiet_trans)

text \<open>The loop over the list keeps every publication that waits, in its order, and removes the
  acknowledged ones up to the first send that failed.\<close>

lemma pub_info_loop_Cons:
  assumes run: "pub_info_loop pf (node # nodes) c = Some (nodes', c')"
    and valid: "pub_node_state node \<noteq> IOTX_MC_NODE_STATE_INVALID"
  shows "\<exists>t rest. nodes' = node\<lparr>pub_start_time := t\<rparr> # rest
    \<and> (rest = nodes \<and> (\<exists>c1. quiet c c1 \<and> c' = set_client_state IOTX_MC_STATE_DISCONNECTED c1)
      \<or> (\<exists>c1. quiet c c1 \<and> pub_info_loop pf nodes c1 = Some (rest, c')))"
proof -
  obtain spent c1 where s: "utils_time_spend pf (pub_start_time node) c = (spent, c1)" by fastforce
  note q1 = spend_quiet [OF s]
  have old: "\<exists>t. node = node\<lparr>pub_start_time := t\<rparr>" by (rule exI [of _ "pub_start_time node"]) simp
  show ?thesis
  proof (cases "mc_client_state c \<noteq> IOTX_MC_STATE_CONNECTED \<or> spent \<le> u32 (mc_request_timeout c1 * 2)")
    case True
    then obtain c2 rest where c2: "c2 = c \<or> c2 = c1" "pub_info_loop pf nodes c2 = Some (rest, c')" "nodes' = node # rest"
      using run valid by (auto simp: s bind_eq_Some_conv split: if_splits)
    then have "quiet c c2" using q1 quiet_refl by blast
    then show ?thesis using old c2(2,3) by blast
  next
    case False
    obtain rc c2 where r: "MQTTRePublish pf (pub_buf node) c1 = Some (rc, c2)"
      using run valid False by (auto simp: s bind_eq_Some_conv)
    obtain now c3 where n: "iotx_time_start pf c2 = (now, c3)" by fastforce
    have q3: "quiet c c3" using q1 republish_quiet [OF r] start_quiet [OF n] quiet_trans by blast
    show ?thesis
    proof (cases "rc = STATE_SYS_DEPEND_NWK_CLOSE")
      case True
      then have "nodes' = node\<lparr>pub_start_time := now\<rparr> # nodes" "c' = set_client_state IOTX_MC_STATE_DISCONNECTED c3"
        using run valid False by (simp_all add: s r n)
      then show ?thesis using q3 by blast
    next
      case False
      then obtain rest where "pub_info_loop pf nodes c3 = Some (rest, c')" "nodes' = node\<lparr>pub_start_time := now\<rparr> # rest"
        using run valid \<open>\<not> (_ \<or> _)\<close> by (auto simp: s r n bind_eq_Some_conv)
      then show ?thesis using q3 by blast
    qed
  qed
qed

lemma pub_info_loop_pending:
  assumes "pub_info_loop pf nodes c = Some (nodes', c')"
  shows "pending_of nodes' = pending_of nodes \<and> length nodes' \<le> length nodes"
  using assms
proof (induction nodes arbitrary: c nodes')
  case Nil
  then show ?case by simp
next
  case (Cons node nodes)
  show ?case
  proof (cases "pub_node_state node = IOTX_MC_NODE_STATE_INVALID")
    case True
    then show ?thesis using Cons.IH [of c nodes'] Cons.prems by simp
  next
    case False
    then obtain t rest where n: "nodes' = node\<lparr>pub_start_time := t\<rparr> # rest"
      and "rest = nodes \<or> (\<exists>c1. pub_info_loop pf nodes c1 = Some (rest, c'))"
      using pub_info_loop_Cons [OF Cons.prems False] by blast
    then have "pending_of rest = pending_of nodes" "length rest \<le> length nodes" using Cons.IH by auto
    then show ?thesis using n by simp
  qed
qed

lemma proc_pending:
  assumes "MQTTPubInfoProc pf c = Some (rc, c')"
  shows "pending c' = pending c" "length (mc_list_pub_wait_ack c') \<le> length (mc_list_pub_wait_ack c)"
proof -
  obtain nodes c1 where "pub_info_loop pf (mc_list_pub_wait_ack c) c = Some (nodes, c1)"
    "c' = c1\<lparr>mc_list_pub_wait_ack := nodes\<rparr>"
    using assms by (auto simp: MQTTPubInfoProc_def bind_eq_Some_conv)
  from pub_info_loop_pending [OF this(1)] this(2)
  show "pending c' = pending c" "length (mc_list_pub_wait_ack c') \<le> length (mc_list_pub_wait_ack c)" by simp_all
qed

text \<open>When the connection survives, only the waiting publications are left.\<close>

lemma pub_info_loop_drops:
  assumes "pub_info_loop pf nodes c = Some (nodes', c')" "mc_client_state c' \<noteq> IOTX_MC_STATE_DISCONNECTED"
  shows "\<forall>p\<in>set nodes'. pub_node_state p = IOTX_MC_NODE_STATE_NORMANL"
  using assms(1)
proof (induction nodes arbitrary: c nodes')
  case Nil
  then show ?case by simp
next
  case (Cons node nodes)
  show ?case
  proof (cases "pub_node_state node = IOTX_MC_NODE_STATE_INVALID")
    case True
    then show ?thesis using Cons by simp
  next
    case False
    then obtain t rest c1 where n: "nodes' = node\<lparr>pub_start_time := t\<rparr> # rest"
      and "pub_info_loop pf nodes c1 = Some (rest, c')"
      using pub_info_loop_Cons [OF Cons.prems False] assms(2) by (auto simp: set_client_state_def)
    moreover have "pub_node_state node = IOTX_MC_NODE_STATE_NORMANL" using False by (cases "pub_node_state node") auto
    ultimately show ?thesis using Cons.IH by auto
  qed
qed

text \<open>A publication of quality 1 is in the list exactly when the call succeeds.\<close>

lemma push_pending:
  assumes "iotx_mc_push_pubInfo_to pf len msgId c = Some (rc, c')"
  shows "rc < 0 \<and> quiet c c' \<or> rc = 0 \<and> length (mc_list_pub_wait_ack c) < 10 \<and> (\<exists>buf t n.
    mc_buf_send c = Some buf \<and> nat len \<le> length buf \<and> c' = c\<lparr>mc_net := n, mc_list_pub_wait_ack := mc_list_pub_wait_ack c @
      [\<lparr>pub_start_time = t, pub_node_state = IOTX_MC_NODE_STATE_NORMANL, pub_msg_id = msgId,
        pub_buf = take (nat len) buf\<rparr>]\<rparr>)"
proof -
  obtain ok c1 where m: "plat (pf_malloc pf (pf_sizeof_pub pf + nat len)) c = (ok, c1)" by fastforce
  obtain now c2 where t: "iotx_time_start pf c1 = (now, c2)" by fastforce
  have q: "quiet c c1" "quiet c c2" using plat_quiet [OF m] start_quiet [OF t] quiet_trans by blast+
  then obtain n where n: "c2 = c\<lparr>mc_net := n\<rparr>" by (auto simp: quiet_def)
  consider (size) "len < 0 \<or> len > int (mc_buf_size_send c)"
    | (full) "\<not> (len < 0 \<or> len > int (mc_buf_size_send c))" "length (mc_list_pub_wait_ack c) \<ge> IOTX_MC_REPUB_NUM_MAX"
    | (heap) "\<not> (len < 0 \<or> len > int (mc_buf_size_send c))" "\<not> length (mc_list_pub_wait_ack c) \<ge> IOTX_MC_REPUB_NUM_MAX" "\<not> ok"
    | (ok) "\<not> (len < 0 \<or> len > int (mc_buf_size_send c))" "\<not> length (mc_list_pub_wait_ack c) \<ge> IOTX_MC_REPUB_NUM_MAX" "ok"
    by blast
  then show ?thesis
  proof cases
    case size
    then have "rc = STATE_MQTT_TX_BUFFER_TOO_SHORT" "c' = c" using assms by (simp_all add: iotx_mc_push_pubInfo_to_def)
    then show ?thesis by (simp add: mqtt_state_codes)
  next
    case full
    then have "rc = STATE_MQTT_QOS1_REPUB_EXCEED_MAX" "c' = c" using assms by (simp_all add: iotx_mc_push_pubInfo_to_def)
    then show ?thesis by (simp add: mqtt_state_codes)
  next
    case heap
    then have "rc = STATE_SYS_DEPEND_MALLOC" "c' = c1" using assms by (simp_all add: iotx_mc_push_pubInfo_to_def m)
    then show ?thesis using q by (simp add: mqtt_state_codes)
  next
    case ok
    have n: "c2 = c\<lparr>mc_net := n\<rparr>" by (rule n)
    obtain buf where "mc_buf_send c2 = Some buf" "\<not> length buf < nat len" "rc = 0"
      "c' = c2\<lparr>mc_list_pub_wait_ack := mc_list_pub_wait_ack c2 @
        [\<lparr>pub_start_time = now, pub_node_state = IOTX_MC_NODE_STATE_NORMANL, pub_msg_id = msgId,
          pub_buf = take (nat len) buf\<rparr>]\<rparr>"
      using assms unfolding iotx_mc_push_pubInfo_to_def if_not_P [OF ok(1)] if_not_P [OF ok(2)] m t Let_def case_prod_conv
      using ok(3) by (cases "mc_buf_send c2") (simp_all split: if_split_asm)
    then show ?thesis using ok(2) unfolding n IOTX_MC_REPUB_NUM_MAX_def by (intro disjI2 conjI exI [of _ buf] exI [of _ now] exI [of _ n]) simp_all
  qed
qed

section \<open>Publishing\<close>

lemma alloc_send_cases:
  assumes "alloc_send_buffer pf len c = (r, c')"
  shows "\<exists>n. r < 0 \<and> c' = c\<lparr>mc_net := n, mc_buf_send := None\<rparr>
    \<or> r = 0 \<and> (let k = min (64 + len) (mc_buf_size_send_max c) in
        c' = c\<lparr>mc_net := n, mc_buf_send := Some (replicate k 0), mc_buf_size_send := k\<rparr>)"
  using assms
  by (auto simp: alloc_send_buffer_def plat_def MQTT_DYNBUF_SEND_MARGIN_def mqtt_state_codes Let_def
      split: prod.splits if_splits)

lemma serialize_list:
  "serialize f c = Some (len, c') \<Longrightarrow> mc_list_pub_wait_ack c' = mc_list_pub_wait_ack c"
  by (auto simp: serialize_def bind_eq_Some_conv)

lemma reset_send_list [simp]: "mc_list_pub_wait_ack (reset_send_buffer c) = mc_list_pub_wait_ack c"
  by (simp add: reset_send_buffer_def)

lemma serialize_emits:
  assumes "serialize f c = Some (len, c')" "mc_buf_send c = Some buf" "0 < len"
    and "emits buf (int (mc_buf_size_send c)) xs (f buf (int (mc_buf_size_send c)))"
  shows "len = int (length xs)" "length xs \<le> mc_buf_size_send c" "c' = c\<lparr>mc_buf_send := Some (overwrite 0 xs buf)\<rparr>"
proof -
  obtain b where b: "f buf (int (mc_buf_size_send c)) = Some (len, b)" "c' = c\<lparr>mc_buf_send := Some b\<rparr>"
    using assms(1,2) by (auto simp: serialize_def bind_eq_Some_conv)
  note e = emits_success [OF assms(4) [unfolded b(1)] assms(3)]
  show "len = int (length xs)" "length xs \<le> mc_buf_size_send c" "c' = c\<lparr>mc_buf_send := Some (overwrite 0 xs buf)\<rparr>"
    using e b by auto
qed

text \<open>The packet of a message.\<close>

definition publish_packet :: "byte list \<Rightarrow> pub_msg \<Rightarrow> byte list" where
  "publish_packet t msg = packet (publish_header 0 (pm_qos msg) (pm_retain msg))
     (publish_body (pm_qos msg) (pm_packet_id msg) (cstring_of t)
       (take (pm_payload_len msg) (the (pm_payload msg))))"

definition msg_ok :: "byte list \<Rightarrow> pub_msg \<Rightarrow> bool" where
  "msg_ok t msg \<longleftrightarrow> length t < 65536 \<and> pm_payload msg \<noteq> None \<and> pm_payload_len msg \<le> length (the (pm_payload msg))
     \<and> length (publish_packet t msg) < 268435456"

lemma publish_emits:
  assumes "msg_ok t msg" "buflen \<le> int (length buf)"
  shows "emits buf buflen (publish_packet t msg) (MQTTSerialize_publish buf buflen 0 (pm_qos msg) (pm_retain msg)
    (int (pm_packet_id msg)) (cstring_of t) (the (pm_payload msg)) (int (pm_payload_len msg)))"
proof -
  have "str_ok (cstring_of t)" using assms(1) by (simp add: msg_ok_def str_ok_def cstring_of_def MQTTString_initializer_def)
  moreover have "length (publish_body (pm_qos msg) (pm_packet_id msg) (cstring_of t)
      (take (pm_payload_len msg) (the (pm_payload msg)))) < 268435456"
    using assms(1) by (simp add: msg_ok_def publish_packet_def length_packet)
  ultimately show ?thesis
    using publish_wire [OF _ _ refl _ assms(2)] assms(1) by (simp add: msg_ok_def publish_packet_def)
qed

lemma publish_pending:
  assumes run: "MQTTPublish pf t msg c = Some (rc, c')" and ok: "msg_ok t msg" and qos: "0 < pm_qos msg"
  shows "rc = 0 \<and> pending c' = pending c @ [(pm_packet_id msg, publish_packet t msg)]
      \<and> length (mc_list_pub_wait_ack c) < 10 \<and> length (mc_list_pub_wait_ack c') = length (mc_list_pub_wait_ack c) + 1
    \<or> rc < 0 \<and> mc_list_pub_wait_ack c' = mc_list_pub_wait_ack c"
proof -
  obtain timer c1 where t: "utils_time_countdown_ms pf (mc_request_timeout c) c = (timer, c1)" by fastforce
  obtain res c2 where a: "alloc_send_buffer pf (length t + pm_payload_len msg) c1 = (res, c2)" by fastforce
  have l1: "mc_list_pub_wait_ack c1 = mc_list_pub_wait_ack c" using quiet_keeps(1) [OF countdown_quiet [OF t]] .
  have l2: "mc_list_pub_wait_ack c2 = mc_list_pub_wait_ack c"
    using alloc_send_cases [OF a] l1 by (auto simp: Let_def)
  obtain payload where p: "pm_payload msg = Some payload" using ok by (auto simp: msg_ok_def)
  show ?thesis
  proof (cases "res < 0")
    case True
    then show ?thesis using run l2 by (simp add: MQTTPublish_def t a)
  next
    case False
    then obtain buf where b: "mc_buf_send c2 = Some buf" "int (mc_buf_size_send c2) \<le> int (length buf)"
      using alloc_send_cases [OF a] by (auto simp: Let_def)
    let ?f = "\<lambda>buf size. MQTTSerialize_publish buf size 0 (pm_qos msg) (pm_retain msg)
             (int (pm_packet_id msg)) (cstring_of t) payload (int (pm_payload_len msg))"
    obtain len c3 where s: "serialize ?f c2 = Some (len, c3)"
      using run False by (auto simp: MQTTPublish_def t a p bind_eq_Some_conv)
    have l3: "mc_list_pub_wait_ack c3 = mc_list_pub_wait_ack c" using serialize_list [OF s] l2 by simp
    show ?thesis
    proof (cases "len \<le> 0")
      case True
      then show ?thesis using run False l3 by (auto simp: MQTTPublish_def t a p s mqtt_api_codes)
    next
      case pos: False
      then have "0 < len" by simp
      from publish_emits [OF ok b(2)] have "emits buf (int (mc_buf_size_send c2)) (publish_packet t msg)
          (?f buf (int (mc_buf_size_send c2)))" by (simp add: p)
      note e = serialize_emits [OF s b(1) \<open>0 < len\<close> this]
      have bytes: "mc_buf_send c3 = Some (overwrite 0 (publish_packet t msg) buf)"
        "take (nat len) (overwrite 0 (publish_packet t msg) buf) = publish_packet t msg"
        using e by (simp_all add: overwrite_def)
      obtain res2 c4 where q: "iotx_mc_push_pubInfo_to pf len (pm_packet_id msg) c3 = Some (res2, c4)"
        using run False pos qos by (auto simp: MQTTPublish_def t a p s bind_eq_Some_conv)
      from push_pending [OF q] show ?thesis
      proof (elim disjE conjE exE)
        assume "res2 < 0" "quiet c3 c4"
        then show ?thesis
          using run False pos qos l3 quiet_keeps(1) [of c3 c4] by (auto simp: MQTTPublish_def t a p s q)
      next
        fix b2 now n
        let ?node = "\<lparr>pub_start_time = now, pub_node_state = IOTX_MC_NODE_STATE_NORMANL,
          pub_msg_id = pm_packet_id msg, pub_buf = take (nat len) b2\<rparr>"
        assume r: "res2 = 0" "length (mc_list_pub_wait_ack c3) < 10" "mc_buf_send c3 = Some b2"
          "c4 = c3\<lparr>mc_net := n, mc_list_pub_wait_ack := mc_list_pub_wait_ack c3 @ [?node]\<rparr>"
        have l4: "mc_list_pub_wait_ack c4 = mc_list_pub_wait_ack c @ [?node]" using r(4) l3 by simp
        obtain rc3 c5 where w: "send_buffer pf len timer c4 = Some (rc3, c5)"
          using run False pos qos r(1) by (auto simp: MQTTPublish_def t a p s q bind_eq_Some_conv)
        have l5: "mc_list_pub_wait_ack c5 = mc_list_pub_wait_ack c @ [?node]"
          using quiet_keeps(1) [OF send_buffer_quiet [OF w]] l4 by simp
        show ?thesis
          using run False pos qos r(1,2,3) l5 l3 bytes
          by (cases "rc3 = 0") (auto simp: MQTTPublish_def t a p s q w mqtt_api_codes)
      qed
    qed
  qed
qed

section \<open>Both directions in time\<close>

text \<open>The platform with a clock that does not move while the client works, and a stream that
  takes what is written: \<open>sent n\<close> is what the server got.\<close>

text \<open>Between two calls the buffers are given back, and the request timeout is sensible.\<close>

definition send_rest :: "'n mc \<Rightarrow> bool" where
  "send_rest c \<longleftrightarrow> mc_buf_send c = None \<and> mc_buf_size_send c = 0
     \<and> 0 < mc_request_timeout c \<and> mc_request_timeout c \<le> 2147483648"

definition at_rest :: "'n mc \<Rightarrow> bool" where
  "at_rest c \<longleftrightarrow> send_rest c \<and> mc_buf_read c = None \<and> mc_buf_size_read c = 0"

lemma ack_success:
  assumes "4 \<le> buflen" "buflen \<le> int (length buf)"
  shows "MQTTSerialize_ack buf buflen t dup (int pid) = Some (4, overwrite 0 (packet (ack_header t dup) (be16 pid)) buf)"
proof -
  have "MQTTSerialize_ack buf buflen t dup (int pid) \<noteq> Some (MQTTPACKET_BUFFER_TOO_SHORT, buf)"
    using assms by (auto simp: MQTTSerialize_ack_def Let_def MQTTPACKET_BUFFER_TOO_SHORT_def bind_eq_Some_conv)
  then show ?thesis
    using ack_wire [OF assms(2), of t dup pid] by (auto simp: emits_def length_packet varint_length [of 2])
qed

lemma publish_success:
  assumes "msg_ok t msg" "buflen \<le> int (length buf)" "int (length (publish_packet t msg)) + 1 \<le> buflen"
  shows "MQTTSerialize_publish buf buflen 0 (pm_qos msg) (pm_retain msg)
    (int (pm_packet_id msg)) (cstring_of t) (the (pm_payload msg)) (int (pm_payload_len msg))
    = Some (int (length (publish_packet t msg)), overwrite 0 (publish_packet t msg) buf)"
    (is "?run = _")
proof -
  have str: "str_ok (cstring_of t)" "str_bytes (cstring_of t) = t"
    using assms(1) by (simp_all add: msg_ok_def str_ok_def str_bytes_def cstring_of_def MQTTString_initializer_def)
  let ?n = "length (publish_body (pm_qos msg) (pm_packet_id msg) (cstring_of t)
      (take (pm_payload_len msg) (the (pm_payload msg))))"
  have n: "?n < 268435456" "length (publish_packet t msg) = 1 + length (varint ?n) + ?n"
    using assms(1) by (simp_all add: msg_ok_def publish_packet_def length_packet)
  have l: "MQTTSerialize_publishLength (pm_qos msg) (cstring_of t) (int (pm_payload_len msg)) = int ?n"
    using assms(1) str by (simp add: MQTTSerialize_publishLength_def msg_ok_def publish_body_def str_ok_length(1) [OF str(1)])
  have "MQTTPacket_len (int ?n) \<le> int (length (publish_packet t msg)) + 1"
    unfolding n(2) using n(1) by (auto simp: MQTTPacket_len_def varint_length [of ?n] Let_def)
  then have "?run \<noteq> Some (MQTTPACKET_BUFFER_TOO_SHORT, buf)"
    using assms(3) l by (auto simp: MQTTSerialize_publish_def MQTTPACKET_BUFFER_TOO_SHORT_def bind_eq_Some_conv)
  then show ?thesis using publish_emits [OF assms(1,2)] by (auto simp: emits_def)
qed

lemma publish_packet_length:
  assumes "msg_ok t msg"
  shows "length (publish_packet t msg) < 64 + (length t + pm_payload_len msg)" "0 < length (publish_packet t msg)"
proof -
  let ?n = "length (publish_body (pm_qos msg) (pm_packet_id msg) (cstring_of t)
      (take (pm_payload_len msg) (the (pm_payload msg))))"
  have n: "length (publish_packet t msg) = 1 + length (varint ?n) + ?n" "?n < 268435456"
    using assms by (simp_all add: publish_packet_def length_packet msg_ok_def)
  have "?n \<le> length t + pm_payload_len msg + 4"
    using assms by (auto simp: publish_body_def str_bytes_def cstring_of_def MQTTString_initializer_def)
  then show "length (publish_packet t msg) < 64 + (length t + pm_payload_len msg)" "0 < length (publish_packet t msg)"
    using n by (simp_all add: varint_length [of ?n])
qed

locale duplex = byte_stream pf stream
  for pf :: "'n platform" and stream :: "'n \<Rightarrow> byte list" +
  fixes sent :: "'n \<Rightarrow> byte list" and clock :: "'n \<Rightarrow> nat"
  assumes write_all: "0 < t \<Longrightarrow> \<exists>n'. pf_write pf buf t n = (int (length buf), n')
      \<and> sent n' = sent n @ buf \<and> stream n' = stream n \<and> clock n' = clock n"
    and uptime_clock: "pf_uptime pf n = (t, n') \<Longrightarrow> t = clock n \<and> clock n' = clock n \<and> sent n' = sent n"
    and malloc_quiet: "pf_malloc pf k n = (ok, n') \<Longrightarrow> clock n' = clock n \<and> sent n' = sent n"
    and read_quiet: "pf_read pf len t n = (r, n') \<Longrightarrow> sent n' = sent n"
begin

text \<open>Only the state of the platform changed, and there only what the client does not see.\<close>

definition still :: "'n mc \<Rightarrow> 'n mc \<Rightarrow> bool" where
  "still c c' \<longleftrightarrow> (\<exists>n. c' = c\<lparr>mc_net := n\<rparr> \<and> stream n = stream (mc_net c) \<and> sent n = sent (mc_net c)
     \<and> clock n = clock (mc_net c))"

lemma still_trans: "still c c' \<Longrightarrow> still c' c'' \<Longrightarrow> still c c''"
  by (auto simp: still_def)

lemma uptime_still: "\<exists>c'. uptime32 pf c = (u32 (clock (mc_net c)), c') \<and> still c c'"
proof -
  obtain t n where u: "pf_uptime pf (mc_net c) = (t, n)" by fastforce
  have "stream n = stream (mc_net c)" using uptime_keeps [of "mc_net c"] u by simp
  then show ?thesis using uptime_clock [OF u] by (auto simp: uptime32_def plat_def u still_def)
qed

lemma countdown_still:
  "\<exists>c'. utils_time_countdown_ms pf ms c = (u32 (clock (mc_net c) + ms), c') \<and> still c c'"
proof -
  obtain t n where u: "pf_uptime pf (mc_net c) = (t, n)" by fastforce
  have "stream n = stream (mc_net c)" using uptime_keeps [of "mc_net c"] u by simp
  then show ?thesis using uptime_clock [OF u] by (auto simp: utils_time_countdown_ms_def plat_def u still_def)
qed

lemma not_yet:
  assumes "0 < ms" "ms \<le> 2147483648"
  shows "\<not> sub_u32 (u32 now) (u32 (now + ms)) < 4294967295 div 2"
proof -
  have "(int (now mod 4294967296) - int ((now + ms) mod 4294967296)) mod 4294967296 = (- int ms) mod 4294967296"
    unfolding of_nat_mod by (simp add: mod_diff_eq)
  also have "\<dots> = 4294967296 - int ms"
    using assms by (simp add: zmod_zminus1_eq_if)
  finally show ?thesis using assms by (simp add: sub_u32_def u32_def)
qed

lemma expired_still:
  assumes "0 < ms" "ms \<le> 2147483648"
  shows "\<exists>c'. utils_time_is_expired pf (u32 (clock (mc_net c) + ms)) c = (False, c') \<and> still c c'"
  using uptime_still [of c] not_yet [OF assms, of "clock (mc_net c)"] by (auto simp: utils_time_is_expired_def)

lemma left_still:
  assumes "0 < ms" "ms \<le> 2147483648"
  shows "\<exists>l c'. left_time pf (u32 (clock (mc_net c) + ms)) c = (l, c') \<and> 0 < l \<and> still c c'"
proof -
  obtain c1 where e: "utils_time_is_expired pf (u32 (clock (mc_net c) + ms)) c = (False, c1)" "still c c1"
    using expired_still [OF assms] by blast
  obtain c2 where u: "uptime32 pf c1 = (u32 (clock (mc_net c1)), c2)" "still c1 c2" using uptime_still by blast
  show ?thesis
    using e u still_trans by (auto simp: left_time_def iotx_time_left_def)
qed

lemma send_packet_all:
  assumes "0 < ms" "ms \<le> 2147483648"
  shows "\<exists>n. iotx_mc_send_packet pf buf (u32 (clock (mc_net c) + ms)) c = Some (0, c\<lparr>mc_net := n\<rparr>)
    \<and> sent n = sent (mc_net c) @ buf \<and> stream n = stream (mc_net c) \<and> clock n = clock (mc_net c)"
proof (cases "buf = []")
  case True
  then have "send_loop pf buf t 0 c = Some (0, c)" for t by (subst send_loop.simps) simp
  then show ?thesis using True by (intro exI [of _ "mc_net c"]) (simp add: iotx_mc_send_packet_def)
next
  case False
  let ?t = "u32 (clock (mc_net c) + ms)"
  obtain c1 where e: "utils_time_is_expired pf ?t c = (False, c1)" "still c c1"
    using expired_still [OF assms] by blast
  have k1: "clock (mc_net c1) = clock (mc_net c)" using e(2) by (auto simp: still_def)
  obtain l c2 where l: "left_time pf ?t c1 = (l, c2)" "0 < l" "still c1 c2"
    using left_still [OF assms, of c1] unfolding k1 by blast
  obtain n1 where n1: "c2 = c\<lparr>mc_net := n1\<rparr>" "stream n1 = stream (mc_net c)" "sent n1 = sent (mc_net c)"
    "clock n1 = clock (mc_net c)" using still_trans [OF e(2) l(3)] by (auto simp: still_def)
  obtain n where w: "pf_write pf buf l n1 = (int (length buf), n)" "sent n = sent n1 @ buf" "stream n = stream n1"
    "clock n = clock n1" using write_all [OF l(2), of buf n1] by blast
  have "send_loop pf buf ?t (length buf) (c\<lparr>mc_net := n\<rparr>) = Some (length buf, c\<lparr>mc_net := n\<rparr>)"
    by (subst send_loop.simps) simp
  then have "send_loop pf buf ?t 0 c = Some (length buf, c\<lparr>mc_net := n\<rparr>)"
    using False by (subst send_loop.simps) (simp add: e(1) l(1) plat_def n1(1) w(1))
  then show ?thesis using w n1 by (intro exI [of _ n]) (simp add: iotx_mc_send_packet_def)
qed

lemma alloc_send_still:
  "\<exists>n. alloc_send_buffer pf len c = (let k = min (64 + len) (mc_buf_size_send_max c) in
      (0, c\<lparr>mc_net := n, mc_buf_send := Some (replicate k 0), mc_buf_size_send := k\<rparr>))
    \<and> stream n = stream (mc_net c) \<and> sent n = sent (mc_net c) \<and> clock n = clock (mc_net c)"
proof -
  let ?k = "min (64 + len) (mc_buf_size_send_max c)"
  obtain n where n: "pf_malloc pf ?k (mc_net c) = (True, n)" "stream n = stream (mc_net c)"
    using malloc_ok [of ?k "mc_net c"] by (cases "pf_malloc pf ?k (mc_net c)") auto
  then show ?thesis using malloc_quiet [OF n(1)]
    by (intro exI [of _ n]) (simp add: alloc_send_buffer_def plat_def MQTT_DYNBUF_SEND_MARGIN_def Let_def)
qed

lemma puback_sends:
  assumes rest: "send_rest c" and room: "4 \<le> mc_buf_size_send_max c"
  shows "\<exists>n. MQTTPuback pf (int pid) PUBACK c = Some (0, c\<lparr>mc_net := n\<rparr>)
    \<and> sent n = sent (mc_net c) @ packet (ack_header PUBACK 0) (be16 pid) \<and> stream n = stream (mc_net c)"
proof -
  let ?ms = "mc_request_timeout c" and ?t = "u32 (clock (mc_net c) + mc_request_timeout c)"
  let ?k = "min 64 (mc_buf_size_send_max c)" and ?xs = "packet (ack_header PUBACK 0) (be16 pid)"
  obtain n1 where t: "utils_time_countdown_ms pf ?ms c = (?t, c\<lparr>mc_net := n1\<rparr>)"
    and k1: "stream n1 = stream (mc_net c)" "sent n1 = sent (mc_net c)" "clock n1 = clock (mc_net c)"
    using countdown_still [of ?ms c] by (auto simp: still_def)
  obtain n2 where a: "alloc_send_buffer pf 0 (c\<lparr>mc_net := n1\<rparr>)
      = (0, c\<lparr>mc_net := n2, mc_buf_send := Some (replicate ?k 0), mc_buf_size_send := ?k\<rparr>)"
    and k2: "stream n2 = stream n1" "sent n2 = sent n1" "clock n2 = clock n1"
    using alloc_send_still [of 0 "c\<lparr>mc_net := n1\<rparr>"] by (auto simp: Let_def)
  let ?c2 = "c\<lparr>mc_net := n2, mc_buf_send := Some (replicate ?k 0), mc_buf_size_send := ?k\<rparr>"
  let ?c3 = "c\<lparr>mc_net := n2, mc_buf_send := Some (overwrite 0 ?xs (replicate ?k 0)), mc_buf_size_send := ?k\<rparr>"
  have len: "length ?xs = 4" by (simp add: length_packet varint_length [of 2])
  have s: "serialize (\<lambda>buf size. MQTTSerialize_ack buf size PUBACK 0 (int pid)) ?c2 = Some (4, ?c3)"
    using ack_success [of "int ?k" "replicate ?k 0" PUBACK 0 pid] room by (simp add: serialize_def)
  have b: "take 4 (overwrite 0 ?xs (replicate ?k 0)) = ?xs" "4 \<le> length (overwrite 0 ?xs (replicate ?k 0))"
    using len room by (simp_all add: overwrite_def)
  have "clock (mc_net ?c3) = clock (mc_net c)" using k1 k2 by simp
  then obtain n3 where w: "iotx_mc_send_packet pf ?xs ?t ?c3 = Some (0, ?c3\<lparr>mc_net := n3\<rparr>)"
    "sent n3 = sent n2 @ ?xs" "stream n3 = stream n2"
    using send_packet_all [of ?ms ?xs ?c3] rest by (auto simp: send_rest_def)
  have sb: "send_buffer pf 4 ?t ?c3 = Some (0, ?c3\<lparr>mc_net := n3\<rparr>)"
    using w(1) b by (simp add: send_buffer_def)
  have "MQTTPuback pf (int pid) PUBACK c = Some (0, reset_send_buffer (?c3\<lparr>mc_net := n3\<rparr>))"
    unfolding MQTTPuback_def t Let_def case_prod_conv a using s sb by simp
  moreover have "reset_send_buffer (?c3\<lparr>mc_net := n3\<rparr>) = c\<lparr>mc_net := n3\<rparr>"
    using rest by (cases c) (simp add: reset_send_buffer_def send_rest_def)
  ultimately show ?thesis using w(2,3) k1 k2 by (intro exI [of _ n3]) simp
qed

lemma push_keeps:
  assumes "0 \<le> len" "len \<le> int (mc_buf_size_send c)" "length (mc_list_pub_wait_ack c) < 10"
    and "mc_buf_send c = Some buf" "nat len \<le> length buf"
  shows "\<exists>n start. iotx_mc_push_pubInfo_to pf len msgId c = Some (0, c\<lparr>mc_net := n, mc_list_pub_wait_ack :=
      mc_list_pub_wait_ack c @ [\<lparr>pub_start_time = start, pub_node_state = IOTX_MC_NODE_STATE_NORMANL,
        pub_msg_id = msgId, pub_buf = take (nat len) buf\<rparr>]\<rparr>)
    \<and> stream n = stream (mc_net c) \<and> sent n = sent (mc_net c) \<and> clock n = clock (mc_net c)"
proof -
  let ?k = "pf_sizeof_pub pf + nat len"
  obtain n where n: "pf_malloc pf ?k (mc_net c) = (True, n)" "stream n = stream (mc_net c)"
    using malloc_ok [of ?k "mc_net c"] by (cases "pf_malloc pf ?k (mc_net c)") auto
  obtain c2 where u: "iotx_time_start pf (c\<lparr>mc_net := n\<rparr>) = (u32 (clock n), c2)" "still (c\<lparr>mc_net := n\<rparr>) c2"
    using uptime_still [of "c\<lparr>mc_net := n\<rparr>"] by (auto simp: iotx_time_start_def)
  obtain n2 where n2: "c2 = c\<lparr>mc_net := n2\<rparr>" "stream n2 = stream n" "sent n2 = sent n" "clock n2 = clock n"
    using u(2) by (auto simp: still_def)
  have m: "plat (pf_malloc pf ?k) c = (True, c\<lparr>mc_net := n\<rparr>)" by (simp add: plat_def n(1))
  have g: "\<not> (len < 0 \<or> len > int (mc_buf_size_send c))" "\<not> length (mc_list_pub_wait_ack c) \<ge> IOTX_MC_REPUB_NUM_MAX"
    using assms(1-3) by (auto simp: IOTX_MC_REPUB_NUM_MAX_def)
  show ?thesis
    unfolding iotx_mc_push_pubInfo_to_def if_not_P [OF g(1)] if_not_P [OF g(2)] m Let_def case_prod_conv u(1)
    using assms(4,5) n2 n(2) malloc_quiet [OF n(1)] by (intro exI [of _ n2] exI [of _ "u32 (clock n)"]) simp
qed

lemma publish_sends:
  assumes rest: "send_rest c" and ok: "msg_ok t msg" and qos: "pm_qos msg = 0 \<or> pm_qos msg = 1"
    and room: "length (publish_packet t msg) < mc_buf_size_send_max c"
    and list: "pm_qos msg = 1 \<longrightarrow> length (mc_list_pub_wait_ack c) < 10"
  shows "\<exists>n start. MQTTPublish pf t msg c = Some (0, c\<lparr>mc_net := n, mc_list_pub_wait_ack := mc_list_pub_wait_ack c @
      (if pm_qos msg = 1 then [\<lparr>pub_start_time = start, pub_node_state = IOTX_MC_NODE_STATE_NORMANL,
        pub_msg_id = pm_packet_id msg, pub_buf = publish_packet t msg\<rparr>] else [])\<rparr>)
    \<and> sent n = sent (mc_net c) @ publish_packet t msg \<and> stream n = stream (mc_net c)"
proof -
  let ?ms = "mc_request_timeout c" and ?t = "u32 (clock (mc_net c) + mc_request_timeout c)"
  let ?k = "min (64 + (length t + pm_payload_len msg)) (mc_buf_size_send_max c)" and ?xs = "publish_packet t msg"
  let ?same = "\<lambda>n. stream n = stream (mc_net c) \<and> sent n = sent (mc_net c) \<and> clock n = clock (mc_net c)"
  obtain payload where p: "pm_payload msg = Some payload" using ok by (auto simp: msg_ok_def)
  obtain n1 where t: "utils_time_countdown_ms pf ?ms c = (?t, c\<lparr>mc_net := n1\<rparr>)" and k1: "?same n1"
    using countdown_still [of ?ms c] by (auto simp: still_def)
  obtain n2 where a: "alloc_send_buffer pf (length t + pm_payload_len msg) (c\<lparr>mc_net := n1\<rparr>)
      = (0, c\<lparr>mc_net := n2, mc_buf_send := Some (replicate ?k 0), mc_buf_size_send := ?k\<rparr>)" and k2: "?same n2"
    using alloc_send_still [of "length t + pm_payload_len msg" "c\<lparr>mc_net := n1\<rparr>"] k1 by (auto simp: Let_def)
  let ?c2 = "c\<lparr>mc_net := n2, mc_buf_send := Some (replicate ?k 0), mc_buf_size_send := ?k\<rparr>"
  let ?b = "overwrite 0 ?xs (replicate ?k 0)"
  let ?c3 = "\<lambda>n l. c\<lparr>mc_net := n, mc_buf_send := Some ?b, mc_buf_size_send := ?k, mc_list_pub_wait_ack := l\<rparr>"
  let ?l = "mc_list_pub_wait_ack c"
  have len: "length ?xs < ?k" "0 < length ?xs" using publish_packet_length [OF ok] room by simp_all
  have s: "serialize (\<lambda>buf size. MQTTSerialize_publish buf size 0 (pm_qos msg) (pm_retain msg)
      (int (pm_packet_id msg)) (cstring_of t) payload (int (pm_payload_len msg))) ?c2 = Some (int (length ?xs), ?c3 n2 ?l)"
    using publish_success [OF ok, of "int ?k" "replicate ?k 0"] len p by (simp add: serialize_def)
  have b: "take (length ?xs) ?b = ?xs" "length ?xs \<le> length ?b"
    using len by (simp_all add: overwrite_def)
  let ?node = "\<lambda>start. \<lparr>pub_start_time = start, pub_node_state = IOTX_MC_NODE_STATE_NORMANL,
        pub_msg_id = pm_packet_id msg, pub_buf = ?xs\<rparr>"
  obtain n4 start where q: "(if pm_qos msg > 0 then iotx_mc_push_pubInfo_to pf (int (length ?xs)) (pm_packet_id msg) (?c3 n2 ?l)
      else Some (0, ?c3 n2 ?l)) = Some (0, ?c3 n4 (?l @ (if pm_qos msg = 1 then [?node start] else [])))" and k4: "?same n4"
  proof (cases "pm_qos msg = 1")
    case False
    then show thesis using qos k2 by (intro that [of 0 n2]) simp_all
  next
    case True
    obtain start n4 where "iotx_mc_push_pubInfo_to pf (int (length ?xs)) (pm_packet_id msg) (?c3 n2 ?l) =
        Some (0, (?c3 n2 ?l)\<lparr>mc_net := n4, mc_list_pub_wait_ack := ?l @ [\<lparr>pub_start_time = start,
          pub_node_state = IOTX_MC_NODE_STATE_NORMANL, pub_msg_id = pm_packet_id msg,
          pub_buf = take (length ?xs) ?b\<rparr>]\<rparr>)" "?same n4"
      using push_keeps [where len = "int (length ?xs)" and c = "?c3 n2 ?l" and buf = ?b and msgId = "pm_packet_id msg"] list True len b(2) k2 by auto
    then show thesis using True b(1) by (intro that [of start n4]) simp_all
  qed
  let ?l4 = "?l @ (if pm_qos msg = 1 then [?node start] else [])"
  obtain n5 where w: "iotx_mc_send_packet pf ?xs ?t (?c3 n4 ?l4) = Some (0, ?c3 n5 ?l4)"
    "sent n5 = sent n4 @ ?xs" "stream n5 = stream n4"
  proof -
    have c: "(?c3 n4 ?l4)\<lparr>mc_net := n\<rparr> = ?c3 n ?l4" for n by (cases c) simp
    have "clock (mc_net (?c3 n4 ?l4)) = clock (mc_net c)" using k4 by simp
    then show thesis
      using that send_packet_all [of ?ms ?xs "?c3 n4 ?l4"] rest unfolding c by (auto simp: send_rest_def)
  qed
  have sb: "send_buffer pf (int (length ?xs)) ?t (?c3 n4 ?l4) = Some (0, ?c3 n5 ?l4)"
    using w(1) b by (simp add: send_buffer_def)
  have "MQTTPublish pf t msg c = Some (0, reset_send_buffer (?c3 n5 ?l4))"
  proof -
    have g: "\<not> (0 :: int) < 0" "\<not> int (length ?xs) \<le> 0" "\<not> (0 :: int) \<noteq> 0" using len(2) by simp_all
    show ?thesis
      unfolding MQTTPublish_def t Let_def case_prod_conv a p Option.bind.bind_lunit if_not_P [OF g(1)] s
        if_not_P [OF g(2)] q sb if_not_P [OF g(3)] ..
  qed
  moreover have "reset_send_buffer (?c3 n5 ?l4) = c\<lparr>mc_net := n5, mc_list_pub_wait_ack := ?l4\<rparr>"
    using rest by (cases c) (simp add: reset_send_buffer_def send_rest_def)
  ultimately show ?thesis using w(2,3) k4 by (intro exI [of _ n5] exI [of _ start]) simp
qed

end

text \<open>Reading a packet sends nothing.\<close>

sublocale duplex \<subseteq> sending: untouched pf "\<lambda>c. sent (mc_net c)"
proof unfold_locales
  fix c c' :: "'n mc" and r len t
  show "plat (pf_read pf len t) c = (r, c') \<Longrightarrow> sent (mc_net c') = sent (mc_net c)"
    using read_quiet [of len t "mc_net c" r] by (auto simp: plat_def split: prod.splits)
next
  fix c c' :: "'n mc" and r
  show "plat (pf_uptime pf) c = (r, c') \<Longrightarrow> sent (mc_net c') = sent (mc_net c)"
    using uptime_clock by (auto simp: plat_def split: prod.splits)
next
  fix c c' :: "'n mc" and r k
  show "plat (pf_malloc pf k) c = (r, c') \<Longrightarrow> sent (mc_net c') = sent (mc_net c)"
    using malloc_quiet by (auto simp: plat_def split: prod.splits)
qed simp_all

lemma deliver_update [simp]:
  "deliver t msg (c\<lparr>mc_net := n\<rparr>) = (deliver t msg c)\<lparr>mc_net := n\<rparr>"
  "deliver t msg (c\<lparr>mc_keepalive_probes := k\<rparr>) = (deliver t msg c)\<lparr>mc_keepalive_probes := k\<rparr>"
  "deliver t msg (c\<lparr>mc_buf_read := b\<rparr>) = (deliver t msg c)\<lparr>mc_buf_read := b\<rparr>"
  "deliver t msg (c\<lparr>mc_buf_size_read := m\<rparr>) = (deliver t msg c)\<lparr>mc_buf_size_read := m\<rparr>"
  by (simp_all add: deliver_def called_def Let_def)

lemma deliver_keeps [simp]:
  "mc_net (deliver t msg c) = mc_net c" "mc_buf_send (deliver t msg c) = mc_buf_send c"
  "mc_buf_size_send (deliver t msg c) = mc_buf_size_send c"
  "mc_buf_size_send_max (deliver t msg c) = mc_buf_size_send_max c"
  "mc_request_timeout (deliver t msg c) = mc_request_timeout c"
  "mc_buf_read (deliver t msg c) = mc_buf_read c" "mc_buf_size_read (deliver t msg c) = mc_buf_size_read c"
  by (simp_all add: deliver_def called_def Let_def)

context duplex
begin

text \<open>A message that the server sent reaches its handlers, once and whole, and a message of
  quality 1 is acknowledged.\<close>

lemma cycle_delivers:
  assumes rest: "at_rest c" and up: "mc_client_state c = IOTX_MC_STATE_CONNECTED" "mc_keepalive_probes c \<le> 2"
    and room: "5 \<le> mc_buf_size_read_max c" "4 \<le> mc_buf_size_send_max c"
    and str: "stream (mc_net c) = packet (publish_header dup qos retained) body @ more_bytes"
    and fits: "length (packet (publish_header dup qos retained) body) \<le> mc_buf_size_read_max c"
    and body: "body = be16 (length t) @ t @ (if qos > 0 then be16 pid else []) @ payload"
    and small: "length body < 268435456"
    and t: "t \<noteq> []" "length t < 65536" "t \<noteq> identify_topic" and pid: "pid < 65536"
    and h: "dup \<le> 1" "retained \<le> 1" and qos: "qos = 0 \<or> qos = 1"
  shows "\<exists>n tail. iotx_mc_cycle pf timer c
      = Some (0, (deliver t (heard dup qos retained pid t payload tail) c)\<lparr>mc_keepalive_probes := 0, mc_net := n\<rparr>)
    \<and> stream n = more_bytes
    \<and> sent n = sent (mc_net c) @ (if qos = 1 then packet (ack_header PUBACK 0) (be16 pid) else [])"
proof -
  let ?h = "publish_header dup qos retained"
  have empty: "mc_buf_read c = None" using rest by (simp add: at_rest_def)
  obtain n tail k where r: "iotx_mc_read_packet pf timer c = Some (0, MQTT_HEADER_GET_TYPE ?h,
      c\<lparr>mc_net := n, mc_buf_read := Some (packet ?h body @ tail), mc_buf_size_read := k\<rparr>)" "stream n = more_bytes"
    using read_packet_fits [OF str small empty room(1)] fits by blast
  have sn: "sent n = sent (mc_net c)" using sending.packet_kept [OF r(1)] by simp
  have ty: "MQTT_HEADER_GET_TYPE ?h = PUBLISH" using publish_header_fields [OF h(1) _ _ h(2)] qos by auto
  let ?msg = "heard dup qos retained pid t payload tail"
  let ?c1 = "c\<lparr>mc_net := n, mc_buf_read := Some (packet ?h body @ tail), mc_buf_size_read := k, mc_keepalive_probes := 0\<rparr>"
  let ?c2 = "deliver t ?msg ?c1"
  have b: "mc_buf_read ?c1 = Some (packet ?h body @ tail)" by simp
  note p = recv_publish [OF b body small t pid h qos, of pf]
  obtain n2 where n2: "handle_packet pf PUBLISH 0 ?c1 = Some (0, ?c2\<lparr>mc_net := n2\<rparr>)"
    "stream n2 = more_bytes" "sent n2 = sent n @ (if qos = 1 then packet (ack_header PUBACK 0) (be16 pid) else [])"
  proof (cases "qos = 0")
    case True
    then have "handle_packet pf PUBLISH 0 ?c1 = Some (0, ?c2\<lparr>mc_net := n\<rparr>)"
      using p by (simp add: handle_packet_def mqtt_types)
    then show thesis using that [of n] True r(2) by simp
  next
    case False
    have "send_rest ?c2" "4 \<le> mc_buf_size_send_max ?c2"
      using rest room(2) by (simp_all add: at_rest_def send_rest_def)
    then obtain n2 where "MQTTPuback pf (int pid) PUBACK ?c2 = Some (0, ?c2\<lparr>mc_net := n2\<rparr>)"
      "sent n2 = sent (mc_net ?c2) @ packet (ack_header PUBACK 0) (be16 pid)" "stream n2 = stream (mc_net ?c2)"
      using puback_sends by blast
    then show thesis using that [of n2] False p r(2) qos by (simp add: handle_packet_def mqtt_types)
  qed
  have g: "\<not> mc_client_state c \<noteq> IOTX_MC_STATE_CONNECTED" "\<not> IOTX_MC_KEEPALIVE_PROBE_MAX < mc_keepalive_probes c"
    using up by (simp_all add: IOTX_MC_KEEPALIVE_PROBE_MAX_def)
  have nz: "PUBLISH \<noteq> 0" by (simp add: mqtt_types)
  have "iotx_mc_cycle pf timer c = Some (0, reset_recv_buffer (?c2\<lparr>mc_net := n2\<rparr>))"
    unfolding iotx_mc_cycle_def if_not_P [OF g(1)] if_not_P [OF g(2)] r(1) ty Option.bind.bind_lunit case_prod_conv
    using n2(1) nz by simp
  moreover have "reset_recv_buffer (?c2\<lparr>mc_net := n2\<rparr>)
      = (deliver t ?msg c)\<lparr>mc_keepalive_probes := 0, mc_net := n2\<rparr>"
    using rest by (cases c) (simp add: reset_recv_buffer_def at_rest_def deliver_def called_def Let_def)
  ultimately show ?thesis using n2(2,3) sn by (intro exI [of _ n2] exI [of _ tail]) simp
qed

end

end
