(* ===== verification/Tcp.thy ===== *)
theory Tcp
  imports Prelude
begin

text \<open>
  The TCP stream of the Linux adapter (adapter/platform/linux/network/amp_tcp.c): reading and
  writing with a time limit above the sockets of the system. A socket function returns what
  the C function returns, the bytes it delivered, and whether errno is EINTR; the system is
  the parameter \<open>os\<close> of the model. A loop that does not end is None.
\<close>

record 'n sockets =
  os_time :: "'n \<Rightarrow> nat \<times> 'n"
  os_select_read :: "nat \<Rightarrow> nat \<Rightarrow> 'n \<Rightarrow> (int \<times> bool) \<times> 'n"
  os_select_write :: "nat \<Rightarrow> nat \<Rightarrow> 'n \<Rightarrow> (int \<times> bool \<times> bool) \<times> 'n"
  os_recv :: "nat \<Rightarrow> nat \<Rightarrow> 'n \<Rightarrow> (int \<times> byte list \<times> bool) \<times> 'n"
  os_send :: "nat \<Rightarrow> byte list \<Rightarrow> 'n \<Rightarrow> (int \<times> bool) \<times> 'n"

definition FD_SETSIZE :: nat where "FD_SETSIZE = 1024"

definition linux_time_left :: "nat \<Rightarrow> nat \<Rightarrow> nat" where
  "linux_time_left t_end t_now = (if t_end > t_now then t_end - t_now else 0)"

section \<open>Reading\<close>

text \<open>One round of the loop: \<open>Inl\<close> goes to the condition of the loop with the bytes so far,
  \<open>Inr\<close> leaves it with an error code.\<close>

definition read_round ::
  "'n sockets \<Rightarrow> nat \<Rightarrow> nat \<Rightarrow> nat \<Rightarrow> byte list \<Rightarrow> 'n
    \<Rightarrow> (byte list \<times> 'n) + (byte list \<times> int \<times> 'n)" where
  "read_round os fd len t_end buf n =
     (let (now, n1) = os_time os n;
          t_left = linux_time_left t_end now
      in if t_left = 0 then Inr (buf, 0, n1)
         else
           let ((ret, eintr), n2) = os_select_read os fd t_left n1
           in if ret > 0 then
                let ((ret2, bs, eintr2), n3) = os_recv os fd (len - length buf) n2
                in if ret2 > 0 then Inl (buf @ take (nat ret2) bs, n3)
                   else if ret2 = 0 then Inr (buf, -1, n3)
                   else if eintr2 then Inl (buf, n3)
                   else Inr (buf, -2, n3)
              else if ret = 0 then Inr (buf, 0, n2)
              else if eintr then Inl (buf, n2)
              else Inr (buf, -2, n2))"

partial_function (option) read_loop ::
  "'n sockets \<Rightarrow> nat \<Rightarrow> nat \<Rightarrow> nat \<Rightarrow> byte list \<Rightarrow> 'n \<Rightarrow> (byte list \<times> int \<times> 'n) option" where
  "read_loop os fd len t_end buf n =
     (case read_round os fd len t_end buf n of
        Inr r \<Rightarrow> Some r
      | Inl (buf', n') \<Rightarrow>
          if length buf' < len then read_loop os fd len t_end buf' n' else Some (buf', 0, n'))"

definition amp_tcp_read ::
  "'n sockets \<Rightarrow> nat \<Rightarrow> nat \<Rightarrow> nat \<Rightarrow> 'n \<Rightarrow> ((int \<times> byte list) \<times> 'n) option" where
  "amp_tcp_read os fd len timeout_ms n =
     (let (now, n1) = os_time os n
      in if fd \<ge> FD_SETSIZE then Some ((-1, []), n1)
         else do {
           (buf, err_code, n2) \<leftarrow> read_loop os fd len (now + timeout_ms) [] n1;
           Some ((if buf \<noteq> [] then int (length buf) else err_code, buf), n2)
         })"

section \<open>Writing\<close>

text \<open>The number of bytes sent, the variable ret, and \<open>Inr\<close> when the loop is left with the flag net_err.\<close>

definition write_round ::
  "'n sockets \<Rightarrow> nat \<Rightarrow> byte list \<Rightarrow> nat \<Rightarrow> nat \<Rightarrow> int \<Rightarrow> 'n
    \<Rightarrow> (nat \<times> int \<times> 'n) + (nat \<times> bool \<times> 'n)" where
  "write_round os fd buf t_end len_sent ret0 n =
     (let (now, n1) = os_time os n;
          t_left = linux_time_left t_end now;
          waited = (if t_left = 0 then Inl (ret0, n1)
            else
              let ((ret, isset, eintr), n2) = os_select_write os fd t_left n1
              in if ret > 0 then (if \<not> isset then Inr (Inl (len_sent, 0, n2)) else Inl (ret, n2))
                 else if ret = 0 then Inr (Inr (len_sent, False, n2))
                 else if eintr then Inr (Inl (len_sent, ret, n2))
                 else Inr (Inr (len_sent, True, n2)))
      in case waited of
           Inr r \<Rightarrow> r
         | Inl (ret, n2) \<Rightarrow>
             if ret > 0 then
               let ((ret2, eintr), n3) = os_send os fd (drop len_sent buf) n2
               in if ret2 > 0 then Inl (len_sent + nat ret2, ret2, n3)
                  else if ret2 = 0 then Inl (len_sent, 0, n3)
                  else if eintr then Inl (len_sent, ret2, n3)
                  else Inr (len_sent, True, n3)
             else Inl (len_sent, ret, n2))"

partial_function (option) write_loop ::
  "'n sockets \<Rightarrow> nat \<Rightarrow> byte list \<Rightarrow> nat \<Rightarrow> nat \<Rightarrow> int \<Rightarrow> 'n \<Rightarrow> (nat \<times> bool \<times> 'n) option" where
  "write_loop os fd buf t_end len_sent ret n =
     (case write_round os fd buf t_end len_sent ret n of
        Inr r \<Rightarrow> Some r
      | Inl (len_sent', ret', n') \<Rightarrow>
          if len_sent' < length buf then
            let (now, n2) = os_time os n'
            in if linux_time_left t_end now > 0 then write_loop os fd buf t_end len_sent' ret' n2
               else Some (len_sent', False, n2)
          else Some (len_sent', False, n'))"

definition amp_tcp_write :: "'n sockets \<Rightarrow> nat \<Rightarrow> byte list \<Rightarrow> nat \<Rightarrow> 'n \<Rightarrow> (int \<times> 'n) option" where
  "amp_tcp_write os fd buf timeout_ms n =
     (let (now, n1) = os_time os n
      in if fd \<ge> FD_SETSIZE then Some (-1, n1)
         else do {
           (len_sent, net_err, n2) \<leftarrow> write_loop os fd buf (now + timeout_ms) 0 1 n1;
           Some (if net_err then -1 else int len_sent, n2)
         })"

section \<open>Any socket\<close>

text \<open>What the system promises of a stream socket: \<open>sent n\<close> is what was handed to the peer so
  far, \<open>stream n\<close> what the peer sends and was not received yet.\<close>

locale socket =
  fixes os :: "'n sockets" and sent :: "'n \<Rightarrow> byte list" and stream :: "'n \<Rightarrow> byte list"
  assumes time_keeps: "os_time os n = (t, n') \<Longrightarrow> sent n' = sent n \<and> stream n' = stream n"
    and select_read_keeps: "os_select_read os fd l n = (r, n') \<Longrightarrow> sent n' = sent n \<and> stream n' = stream n"
    and select_write_keeps: "os_select_write os fd l n = (w, n') \<Longrightarrow> sent n' = sent n \<and> stream n' = stream n"
    and recv_takes: "os_recv os fd len n = ((ret, bs, e), n') \<Longrightarrow> sent n' = sent n
      \<and> (if ret > 0 then int (length bs) = ret \<and> length bs \<le> len \<and> stream n = bs @ stream n' else stream n' = stream n)"
    and send_puts: "os_send os fd buf n = ((ret, e), n') \<Longrightarrow> stream n' = stream n
      \<and> ret \<le> int (length buf) \<and> sent n' = sent n @ take (nat ret) buf"
begin

lemma read_round_takes:
  assumes "length buf \<le> len"
  shows "case read_round os fd len t_end buf n of
      Inl (buf', n') \<Rightarrow> \<exists>new. buf' = buf @ new \<and> stream n = new @ stream n' \<and> sent n' = sent n \<and> length buf' \<le> len
    | Inr (buf', e, n') \<Rightarrow> buf' = buf \<and> stream n' = stream n \<and> sent n' = sent n \<and> e \<le> 0"
proof -
  obtain now n1 where t: "os_time os n = (now, n1)" by fastforce
  obtain ret e n2 where s: "os_select_read os fd (linux_time_left t_end now) n1 = ((ret, e), n2)" by (metis prod.exhaust)
  obtain ret2 bs e2 n3 where r: "os_recv os fd (len - length buf) n2 = ((ret2, bs, e2), n3)" by (metis prod.exhaust)
  show ?thesis
    using time_keeps [OF t] select_read_keeps [OF s] recv_takes [OF r] assms
    by (auto simp: read_round_def t s r Let_def split: if_splits)
qed

abbreviation read_spec :: "nat \<Rightarrow> byte list \<Rightarrow> 'n \<Rightarrow> byte list \<times> int \<times> 'n \<Rightarrow> bool" where
  "read_spec len buf n r \<equiv> (case r of (buf', e, n') \<Rightarrow> \<exists>new. buf' = buf @ new \<and> stream n = new @ stream n'
     \<and> sent n' = sent n \<and> length buf' \<le> len \<and> e \<le> 0)"

lemma read_loop_takes:
  assumes "read_loop os fd len t_end buf n = Some r" "length buf \<le> len"
  shows "read_spec len buf n r"
proof -
  have "os' = os \<longrightarrow> length buf \<le> len' \<longrightarrow> read_spec len' buf n r"
    if "read_loop os' fd' len' t_end' buf n = Some r" for os' fd' len' t_end' buf n r
  proof (rule read_loop.raw_induct [where P = "\<lambda>os' fd' len' t_end' buf n r.
      os' = os \<longrightarrow> length buf \<le> len' \<longrightarrow> read_spec len' buf n r", OF _ that], goal_cases)
    case (1 f os' fd' len' t_end' buf n r)
    show ?case
    proof (intro impI)
      assume a: "os' = os" "length buf \<le> len'"
      note step = read_round_takes [OF a(2), where fd = fd' and t_end = t_end' and n = n]
      show "read_spec len' buf n r"
      proof (cases "read_round os fd' len' t_end' buf n")
        case (Inr q)
        then show ?thesis using 1(2) a step by auto
      next
        case (Inl q)
        then obtain buf1 n1 where q: "q = (buf1, n1)" by fastforce
        then obtain new where new: "buf1 = buf @ new" "stream n = new @ stream n1" "sent n1 = sent n" "length buf1 \<le> len'"
          using step Inl by auto
        show ?thesis
        proof (cases "length buf1 < len'")
          case True
          then have "f os' fd' len' t_end' buf1 n1 = Some r" using 1(2) Inl q a by simp
          then have "read_spec len' buf1 n1 r" using 1(1) a new(4) by blast
          then show ?thesis using new by auto
        next
          case False
          then show ?thesis using 1(2) Inl q a new by auto
        qed
      qed
    qed
  qed
  then show ?thesis using assms by blast
qed

text \<open>A read takes the next bytes of the stream, in order and each once.\<close>

lemma tcp_read_takes:
  assumes "amp_tcp_read os fd len timeout n = Some ((rc, bs), n')"
  shows "stream n = bs @ stream n'" "length bs \<le> len" "sent n' = sent n"
    "bs \<noteq> [] \<Longrightarrow> rc = int (length bs)" "bs = [] \<Longrightarrow> rc \<le> 0"
proof -
  obtain now n1 where t: "os_time os n = (now, n1)" by fastforce
  have "stream n = bs @ stream n' \<and> length bs \<le> len \<and> sent n' = sent n
      \<and> (bs \<noteq> [] \<longrightarrow> rc = int (length bs)) \<and> (bs = [] \<longrightarrow> rc \<le> 0)"
    using assms time_keeps [OF t] read_loop_takes [of fd len "now + timeout" "[]" n1]
    by (auto simp: amp_tcp_read_def t bind_eq_Some_conv split: if_splits)
  then show "stream n = bs @ stream n'" "length bs \<le> len" "sent n' = sent n"
    "bs \<noteq> [] \<Longrightarrow> rc = int (length bs)" "bs = [] \<Longrightarrow> rc \<le> 0" by auto
qed

abbreviation write_spec :: "byte list \<Rightarrow> nat \<Rightarrow> 'n \<Rightarrow> nat \<Rightarrow> 'n \<Rightarrow> bool" where
  "write_spec buf l n l' n' \<equiv> l \<le> l' \<and> l' \<le> length buf \<and> stream n' = stream n
     \<and> sent n' = sent n @ take (l' - l) (drop l buf)"

lemma write_spec_trans: "write_spec buf l n l1 n1 \<Longrightarrow> write_spec buf l1 n1 l2 n2 \<Longrightarrow> write_spec buf l n l2 n2"
proof -
  assume a: "write_spec buf l n l1 n1" "write_spec buf l1 n1 l2 n2"
  then have "take (l2 - l) (drop l buf) = take (l1 - l) (drop l buf) @ take (l2 - l1) (drop l1 buf)"
    using take_add [of "l1 - l" "l2 - l1" "drop l buf"] by simp
  with a show ?thesis by simp
qed

lemma write_round_puts:
  assumes "l \<le> length buf"
  shows "case write_round os fd buf t_end l ret n of
      Inl (l', ret', n') \<Rightarrow> write_spec buf l n l' n'
    | Inr (l', err, n') \<Rightarrow> write_spec buf l n l' n'"
proof -
  obtain now n1 where t: "os_time os n = (now, n1)" by fastforce
  obtain r i e n2 where s: "os_select_write os fd (linux_time_left t_end now) n1 = ((r, i, e), n2)" by (metis prod.exhaust)
  obtain r2 e2 n3 where w: "os_send os fd (drop l buf) n2 = ((r2, e2), n3)" by (metis prod.exhaust)
  obtain r3 e3 n4 where w': "os_send os fd (drop l buf) n1 = ((r3, e3), n4)" by (metis prod.exhaust)
  show ?thesis
    using time_keeps [OF t] select_write_keeps [OF s] send_puts [OF w] send_puts [OF w'] assms
    by (auto simp: write_round_def t s w w' Let_def split: if_splits)
qed

lemma write_loop_puts:
  assumes "write_loop os fd buf t_end l ret n = Some (l', err, n')" "l \<le> length buf"
  shows "write_spec buf l n l' n'"
proof -
  have "os' = os \<longrightarrow> l \<le> length buf \<longrightarrow> write_spec buf l n (fst r) (snd (snd r))"
    if "write_loop os' fd' buf t_end' l ret n = Some r" for os' fd' buf t_end' l ret n r
  proof (rule write_loop.raw_induct [where P = "\<lambda>os' fd' buf t_end' l ret n r.
      os' = os \<longrightarrow> l \<le> length buf \<longrightarrow> write_spec buf l n (fst r) (snd (snd r))", OF _ that], goal_cases)
    case (1 f os' fd' buf t_end' l ret n r)
    show ?case
    proof (intro impI)
      assume a: "os' = os" "l \<le> length buf"
      note step = write_round_puts [OF a(2), where fd = fd' and t_end = t_end' and n = n and ret = ret]
      show "write_spec buf l n (fst r) (snd (snd r))"
      proof (cases "write_round os fd' buf t_end' l ret n")
        case (Inr q)
        then show ?thesis using 1(2) a(1) step by auto
      next
        case (Inl q)
        obtain l1 ret1 n1 where q: "q = (l1, ret1, n1)" by (metis prod.exhaust)
        obtain now n2 where t: "os_time os n1 = (now, n2)" by fastforce
        have w: "write_spec buf l n l1 n1" using step Inl q by simp
        then have w2: "write_spec buf l n l1 n2" using time_keeps [OF t] by simp
        show ?thesis
        proof (cases "l1 < length buf \<and> linux_time_left t_end' now > 0")
          case True
          then have "f os' fd' buf t_end' l1 ret1 n2 = Some r" using 1(2) Inl q a(1) t by simp
          then have "write_spec buf l1 n2 (fst r) (snd (snd r))" using 1(1) a(1) True by simp
          from write_spec_trans [OF w2 this] show ?thesis .
        next
          case False
          then show ?thesis using 1(2) Inl q a(1) t w w2 by (auto split: if_splits)
        qed
      qed
    qed
  qed
  from this [OF assms(1)] show ?thesis using assms(2) by simp
qed

text \<open>A write hands a prefix of the buffer to the peer; the return value is its length, or -1.\<close>

lemma tcp_write_puts:
  assumes "amp_tcp_write os fd buf timeout n = Some (rc, n')"
  shows "\<exists>k\<le>length buf. sent n' = sent n @ take k buf \<and> stream n' = stream n \<and> (rc = int k \<or> rc = -1)"
proof -
  obtain now n1 where t: "os_time os n = (now, n1)" by fastforce
  show ?thesis
  proof (cases "fd \<ge> FD_SETSIZE")
    case True
    then show ?thesis using assms t time_keeps [OF t] by (auto simp: amp_tcp_write_def intro: exI [of _ 0])
  next
    case False
    then obtain l err where l: "write_loop os fd buf (now + timeout) 0 1 n1 = Some (l, err, n')" "rc = (if err then -1 else int l)"
      using assms t by (auto simp: amp_tcp_write_def bind_eq_Some_conv)
    from write_loop_puts [OF l(1)] show ?thesis
      using time_keeps [OF t] l(2) by (intro exI [of _ l]) auto
  qed
qed

end

section \<open>A socket without delay\<close>

text \<open>The further promise of a socket whose peer is ahead of the reader: bytes that are in the
  stream are ready at once, and time passes only where a call waits.\<close>

locale prompt_socket = socket os sent stream
  for os :: "'n sockets" and sent :: "'n \<Rightarrow> byte list" and stream :: "'n \<Rightarrow> byte list" +
  fixes clock :: "'n \<Rightarrow> nat"
  assumes time_clock: "os_time os n = (t, n') \<Longrightarrow> t = clock n \<and> clock n' = clock n"
    and select_ready: "os_select_read os fd l n = ((ret, e), n') \<Longrightarrow>
      (if stream n \<noteq> [] then ret > 0 \<and> clock n' = clock n else ret = 0)"
    and recv_ready: "os_recv os fd len n = ((ret, bs, e), n') \<Longrightarrow> stream n \<noteq> [] \<Longrightarrow>
      (if 0 < len then ret > 0 else ret = 0) \<and> clock n' = clock n"
    and select_writable: "os_select_write os fd l n = ((ret, i, e), n') \<Longrightarrow> ret > 0 \<and> i \<and> clock n' = clock n"
    and send_some: "os_send os fd buf n = ((ret, e), n') \<Longrightarrow> clock n' = clock n \<and> (buf \<noteq> [] \<longrightarrow> ret > 0)
      \<and> (buf = [] \<longrightarrow> ret = 0)"
begin

lemma read_round_ready:
  assumes "length buf < len" "len - length buf \<le> length (stream n)" "clock n < t_end"
  shows "\<exists>new n'. read_round os fd len t_end buf n = Inl (buf @ new, n') \<and> new \<noteq> [] \<and> clock n' = clock n
    \<and> stream n = new @ stream n' \<and> length (buf @ new) \<le> len"
proof -
  obtain now n1 where t: "os_time os n = (now, n1)" by fastforce
  obtain ret e n2 where s: "os_select_read os fd (linux_time_left t_end now) n1 = ((ret, e), n2)" by (metis prod.exhaust)
  obtain ret2 bs e2 n3 where r: "os_recv os fd (len - length buf) n2 = ((ret2, bs, e2), n3)" by (metis prod.exhaust)
  have n: "stream n \<noteq> []" using assms by auto
  have 1: "now = clock n" "clock n1 = clock n" "stream n1 = stream n"
    using time_clock [OF t] time_keeps [OF t] by auto
  have 2: "ret > 0" "clock n2 = clock n" "stream n2 = stream n"
    using select_ready [OF s] select_read_keeps [OF s] 1 n by auto
  have 3: "ret2 > 0" "clock n3 = clock n" "int (length bs) = ret2" "length bs \<le> len - length buf" "stream n = bs @ stream n3"
    using recv_ready [OF r] recv_takes [OF r] 2 n assms(1) by auto
  have "linux_time_left t_end now \<noteq> 0" using 1(1) assms(3) by (simp add: linux_time_left_def)
  then have "read_round os fd len t_end buf n = Inl (buf @ bs, n3)"
    using 2(1) 3(1,3) by (auto simp: read_round_def t s r Let_def)
  then show ?thesis using 3 assms(1) by (intro exI [of _ bs] exI [of _ n3]) auto
qed

lemma read_loop_ready:
  assumes "length buf < len" "len - length buf \<le> length (stream n)" "clock n < t_end"
  shows "\<exists>n'. read_loop os fd len t_end buf n = Some (buf @ take (len - length buf) (stream n), 0, n')
    \<and> stream n' = drop (len - length buf) (stream n)"
  using assms
proof (induction "len - length buf" arbitrary: buf n rule: less_induct)
  case less
  obtain new n1 where r: "read_round os fd len t_end buf n = Inl (buf @ new, n1)" "new \<noteq> []" "clock n1 = clock n"
    "stream n = new @ stream n1" "length (buf @ new) \<le> len" using read_round_ready [OF less.prems] by blast
  show ?case
  proof (cases "length (buf @ new) < len")
    case True
    have "len - length (buf @ new) < len - length buf" using r(2) less.prems(1) by (cases new) auto
    moreover have "len - length (buf @ new) \<le> length (stream n1)" using less.prems(2) r(4) by simp
    ultimately obtain n' where
      "read_loop os fd len t_end (buf @ new) n1 = Some ((buf @ new) @ take (len - length (buf @ new)) (stream n1), 0, n')"
      "stream n' = drop (len - length (buf @ new)) (stream n1)"
      using less.hyps [OF _ True] r(3) less.prems(3) by metis
    then show ?thesis
      using True r by (subst read_loop.simps) (auto simp: take_append)
  next
    case False
    then have "length new = len - length buf" using r(5) by simp
    then show ?thesis using False r by (subst read_loop.simps) simp
  qed
qed

lemma read_loop_empty:
  assumes "clock n < t_end"
  shows "\<exists>e n'. read_loop os fd 0 t_end [] n = Some ([], e, n') \<and> stream n' = stream n"
proof -
  obtain now n1 where t: "os_time os n = (now, n1)" by fastforce
  obtain ret e n2 where s: "os_select_read os fd (linux_time_left t_end now) n1 = ((ret, e), n2)" by (metis prod.exhaust)
  obtain ret2 bs e2 n3 where r: "os_recv os fd 0 n2 = ((ret2, bs, e2), n3)" by (metis prod.exhaust)
  have k: "stream n2 = stream n" "stream n1 = stream n" using time_keeps [OF t] select_read_keeps [OF s] by auto
  show ?thesis
  proof (cases "stream n = []")
    case True
    then show ?thesis
      using select_ready [OF s] k by (subst read_loop.simps) (auto simp: read_round_def t s Let_def)
  next
    case False
    then have "ret2 = 0" "stream n3 = stream n" using recv_ready [OF r] recv_takes [OF r] k by auto
    then show ?thesis
      using select_ready [OF s] k False by (subst read_loop.simps) (auto simp: read_round_def t s r Let_def)
  qed
qed

text \<open>Bytes that are in the stream are read in full.\<close>

lemma tcp_read_full:
  assumes "fd < FD_SETSIZE" "0 < timeout" "0 < len" "len \<le> length (stream n)"
  shows "\<exists>n'. amp_tcp_read os fd len timeout n = Some ((int len, take len (stream n)), n')
    \<and> stream n' = drop len (stream n)"
proof -
  obtain now n1 where t: "os_time os n = (now, n1)" by fastforce
  have k: "now = clock n1" "stream n1 = stream n" using time_clock [OF t] time_keeps [OF t] by auto
  then have "\<exists>n'. read_loop os fd len (now + timeout) [] n1 = Some (take len (stream n), 0, n') \<and> stream n' = drop len (stream n)"
    using read_loop_ready [of "[]" len n1 "now + timeout" fd] assms by auto
  then show ?thesis using assms t by (auto simp: amp_tcp_read_def)
qed

lemma tcp_read_none:
  assumes "fd < FD_SETSIZE" "0 < timeout"
  shows "\<exists>rc n'. amp_tcp_read os fd 0 timeout n = Some ((rc, []), n') \<and> stream n' = stream n"
proof -
  obtain now n1 where t: "os_time os n = (now, n1)" by fastforce
  have k: "now = clock n1" "stream n1 = stream n" using time_clock [OF t] time_keeps [OF t] by auto
  then show ?thesis
    using read_loop_empty [of n1 "now + timeout" fd] assms t by (auto simp: amp_tcp_read_def)
qed

text \<open>Every read ends.\<close>

lemma read_loop_ends:
  assumes "length buf \<le> len"
  shows "read_loop os fd len t_end buf n \<noteq> None"
  using assms
proof (induction "length (stream n)" arbitrary: buf n rule: less_induct)
  case less
  obtain now n1 where t: "os_time os n = (now, n1)" by fastforce
  obtain ret e n2 where s: "os_select_read os fd (linux_time_left t_end now) n1 = ((ret, e), n2)" by (metis prod.exhaust)
  obtain ret2 bs e2 n3 where r: "os_recv os fd (len - length buf) n2 = ((ret2, bs, e2), n3)" by (metis prod.exhaust)
  have k: "stream n1 = stream n" "stream n2 = stream n" using time_keeps [OF t] select_read_keeps [OF s] by auto
  have e: "read_loop os fd len t_end buf n =
      (case read_round os fd len t_end buf n of Inr q \<Rightarrow> Some q
        | Inl (buf', n') \<Rightarrow> if length buf' < len then read_loop os fd len t_end buf' n' else Some (buf', 0, n'))"
    by (rule read_loop.simps)
  show ?case
  proof (cases "read_round os fd len t_end buf n")
    case (Inr q)
    then show ?thesis using e by simp
  next
    case (Inl q)
    then obtain buf1 m where q: "q = (buf1, m)" by fastforce
    obtain new where new: "buf1 = buf @ new" "stream n = new @ stream m" "length buf1 \<le> len"
      using read_round_takes [OF less.prems, where fd = fd and t_end = t_end and n = n] Inl q by auto
    have "new \<noteq> []"
    proof (cases "stream n = []")
      case True
      then have "ret = 0" using select_ready [OF s] k by simp
      then show ?thesis using Inl by (simp add: read_round_def t s Let_def split: if_splits)
    next
      case False
      then have "ret2 > 0 \<or> ret2 = 0" "ret2 > 0 \<Longrightarrow> int (length bs) = ret2"
        using recv_ready [OF r] recv_takes [OF r] k by (auto split: if_splits)
      then show ?thesis using Inl q new(1) select_ready [OF s] False k
        by (auto simp: read_round_def t s r Let_def split: if_splits)
    qed
    then have "length (stream m) < length (stream n)" using new(2) by simp
    from less.hyps [OF this new(3)] show ?thesis using e Inl q by simp
  qed
qed

lemma tcp_read_ends: "amp_tcp_read os fd len timeout n \<noteq> None"
proof -
  obtain now n1 where t: "os_time os n = (now, n1)" by fastforce
  obtain r where "read_loop os fd len (now + timeout) [] n1 = Some r"
    using read_loop_ends [of "[]" len fd "now + timeout" n1] by (cases "read_loop os fd len (now + timeout) [] n1") auto
  then show ?thesis by (cases r) (simp add: amp_tcp_read_def t)
qed

text \<open>A buffer is written in full.\<close>

lemma write_loop_full:
  assumes "l \<le> length buf" "clock n < t_end"
  shows "\<exists>n'. write_loop os fd buf t_end l ret n = Some (length buf, False, n') \<and> clock n' = clock n"
  using assms
proof (induction "length buf - l" arbitrary: l ret n rule: less_induct)
  case less
  obtain now n1 where t: "os_time os n = (now, n1)" by fastforce
  obtain r i e n2 where s: "os_select_write os fd (linux_time_left t_end now) n1 = ((r, i, e), n2)" by (metis prod.exhaust)
  obtain r2 e2 n3 where w: "os_send os fd (drop l buf) n2 = ((r2, e2), n3)" by (metis prod.exhaust)
  obtain now' n4 where t': "os_time os n3 = (now', n4)" by fastforce
  have k: "now = clock n" "clock n3 = clock n" "now' = clock n" "clock n4 = clock n" "r > 0" "i"
    using time_clock [OF t] select_writable [OF s] send_some [OF w] time_clock [OF t'] by auto
  then have left: "linux_time_left t_end now > 0" "linux_time_left t_end now' > 0"
    using less.prems by (auto simp: linux_time_left_def)
  moreover have "r2 > 0 \<or> r2 = 0" using send_some [OF w] by blast
  ultimately have round: "write_round os fd buf t_end l ret n = (if r2 > 0 then Inl (l + nat r2, r2, n3) else Inl (l, 0, n3))"
    using k(5,6) by (elim disjE) (simp_all add: write_round_def t s w Let_def)
  show ?case
  proof (cases "l < length buf")
    case False
    then show ?thesis
      using round send_some [OF w] less.prems(1) k(2) by (subst write_loop.simps) (auto simp: t')
  next
    case True
    then have r2: "r2 > 0" "r2 \<le> int (length buf - l)" using send_some [OF w] send_puts [OF w] by auto
    show ?thesis
    proof (cases "l + nat r2 < length buf")
      case True
      have "length buf - (l + nat r2) < length buf - l" "l + nat r2 \<le> length buf" using r2 True by linarith+
      then obtain n' where "write_loop os fd buf t_end (l + nat r2) r2 n4 = Some (length buf, False, n')" "clock n' = clock n4"
        using less.hyps [of "l + nat r2" n4 r2] k less.prems(2) by auto
      then show ?thesis
        using True round r2 left(2) k(4) by (subst write_loop.simps) (simp add: t')
    next
      case False
      then have "l + nat r2 = length buf" using r2 less.prems(1) by linarith
      then show ?thesis using round r2 k(2) by (subst write_loop.simps) simp
    qed
  qed
qed

lemma tcp_write_full:
  assumes "fd < FD_SETSIZE" "0 < timeout"
  shows "\<exists>n'. amp_tcp_write os fd buf timeout n = Some (int (length buf), n') \<and> sent n' = sent n @ buf
    \<and> stream n' = stream n \<and> clock n' = clock n"
proof -
  obtain now n1 where t: "os_time os n = (now, n1)" by fastforce
  have k: "now = clock n1" "clock n1 = clock n" using time_clock [OF t] by auto
  obtain n' where w: "write_loop os fd buf (now + timeout) 0 1 n1 = Some (length buf, False, n')" "clock n' = clock n"
    using write_loop_full [of 0 buf n1 "now + timeout" fd 1] k assms by auto
  from write_loop_puts [OF w(1)] show ?thesis
    using assms t w time_keeps [OF t] by (auto simp: amp_tcp_write_def)
qed

end

end
