(* ===== verification/Mqtt_Tcp.thy ===== *)
theory Mqtt_Tcp
  imports Mqtt_Flow Tcp
begin

text \<open>
  The MQTT client above the TCP stream of the Linux adapter: the functions of
  linkkit/infra/infra_net.c without TLS give the stream of the client, and a socket that
  works in time gives the stream that the client relies on. At the end a socket of lists,
  for the examples.
\<close>

section \<open>The stream of infra_net.c\<close>

definition read_tcp :: "'n sockets \<Rightarrow> nat \<Rightarrow> nat \<Rightarrow> nat \<Rightarrow> 'n \<Rightarrow> ((int \<times> byte list) \<times> 'n) option" where
  "read_tcp os handle len timeout_ms n = amp_tcp_read os handle len timeout_ms n"

definition write_tcp :: "'n sockets \<Rightarrow> nat \<Rightarrow> byte list \<Rightarrow> nat \<Rightarrow> 'n \<Rightarrow> (int \<times> 'n) option" where
  "write_tcp os handle buf timeout_ms n = amp_tcp_write os handle buf timeout_ms n"

text \<open>The stream of the client. A call that does not end has no value here.\<close>

definition tcp_platform :: "'n sockets \<Rightarrow> nat \<Rightarrow> 'n platform \<Rightarrow> 'n platform" where
  "tcp_platform os handle pf = pf\<lparr>
     pf_read := (\<lambda>len t n. the (read_tcp os handle len t n)),
     pf_write := (\<lambda>buf t n. the (write_tcp os handle buf t n))\<rparr>"

locale tcp_stream = prompt_socket os sent stream clock
  for os :: "'n sockets" and sent :: "'n \<Rightarrow> byte list" and stream :: "'n \<Rightarrow> byte list" and clock :: "'n \<Rightarrow> nat" +
  fixes fd :: nat and pf :: "'n platform"
  assumes fd: "fd < FD_SETSIZE"
    and uptime: "pf_uptime pf n = (t, n') \<Longrightarrow> t = clock n \<and> clock n' = clock n \<and> sent n' = sent n \<and> stream n' = stream n"
    and malloc: "pf_malloc pf k n = (ok, n') \<Longrightarrow> ok \<and> clock n' = clock n \<and> sent n' = sent n \<and> stream n' = stream n"

sublocale tcp_stream \<subseteq> duplex "tcp_platform os fd pf" stream sent clock
proof unfold_locales
  fix len t :: nat and n
  assume "0 < len" "0 < t" "len \<le> length (stream n)"
  then show "\<exists>n'. pf_read (tcp_platform os fd pf) len t n = ((int len, take len (stream n)), n') \<and> stream n' = drop len (stream n)"
    using tcp_read_full [OF fd, of t len n] by (auto simp: tcp_platform_def read_tcp_def)
next
  fix t :: nat and n
  assume "0 < t"
  then show "\<exists>rc n'. pf_read (tcp_platform os fd pf) 0 t n = ((rc, []), n') \<and> stream n' = stream n"
    using tcp_read_none [OF fd, of t n] by (auto simp: tcp_platform_def read_tcp_def)
next
  fix n k
  show "stream (snd (pf_uptime (tcp_platform os fd pf) n)) = stream n"
    using uptime by (cases "pf_uptime pf n") (simp add: tcp_platform_def)
  show "fst (pf_malloc (tcp_platform os fd pf) k n)" "stream (snd (pf_malloc (tcp_platform os fd pf) k n)) = stream n"
    using malloc by (cases "pf_malloc pf k n"; auto simp: tcp_platform_def)+
next
  fix t :: nat and buf n
  assume "0 < t"
  then show "\<exists>n'. pf_write (tcp_platform os fd pf) buf t n = (int (length buf), n')
      \<and> sent n' = sent n @ buf \<and> stream n' = stream n \<and> clock n' = clock n"
    using tcp_write_full [OF fd, of t buf n] by (auto simp: tcp_platform_def write_tcp_def)
next
  fix n t n'
  assume "pf_uptime (tcp_platform os fd pf) n = (t, n')"
  then show "t = clock n \<and> clock n' = clock n \<and> sent n' = sent n"
    using uptime by (simp add: tcp_platform_def)
next
  fix k n ok n'
  assume "pf_malloc (tcp_platform os fd pf) k n = (ok, n')"
  then show "clock n' = clock n \<and> sent n' = sent n"
    using malloc by (auto simp: tcp_platform_def)
next
  fix len t n r n'
  assume run: "pf_read (tcp_platform os fd pf) len t n = (r, n')"
  obtain q where q: "amp_tcp_read os fd len t n = Some q" using tcp_read_ends [of fd len t n] by auto
  then have "amp_tcp_read os fd len t n = Some ((fst r, snd r), n')"
    using run by (simp add: tcp_platform_def read_tcp_def)
  from tcp_read_takes(3) [OF this] show "sent n' = sent n" .
qed

section \<open>A socket of lists\<close>

text \<open>What the peer sends, what it got, the time, and the most bytes of one call.\<close>

record list_sock =
  ls_in :: "byte list"
  ls_out :: "byte list"
  ls_now :: nat

definition list_os :: "list_sock sockets" where
  "list_os = \<lparr>os_time = (\<lambda>n. (ls_now n, n)),
     os_select_read = (\<lambda>fd l n. ((if ls_in n \<noteq> [] then 1 else 0, False), n)),
     os_select_write = (\<lambda>fd l n. ((1, True, False), n)),
     os_recv = (\<lambda>fd len n. let bs = take (min len 7) (ls_in n)
       in ((int (length bs), bs, False), n\<lparr>ls_in := drop (length bs) (ls_in n)\<rparr>)),
     os_send = (\<lambda>fd buf n. let bs = take 7 buf
       in ((int (length bs), False), n\<lparr>ls_out := ls_out n @ bs\<rparr>))\<rparr>"

definition list_base :: "list_sock platform" where
  "list_base = \<lparr>pf_read = (\<lambda>len t n. ((-1, []), n)), pf_write = (\<lambda>buf t n. (-1, n)), pf_connect = (\<lambda>n. (0, n)),
     pf_disconnect = (\<lambda>n. n), pf_uptime = (\<lambda>n. (ls_now n, n)), pf_msleep = (\<lambda>ms n. n\<lparr>ls_now := ls_now n + ms\<rparr>),
     pf_malloc = (\<lambda>k n. (True, n)), pf_identity = (\<lambda>m n. n), pf_sizeof_handle = 24, pf_sizeof_pub = 40\<rparr>"

interpretation listed: tcp_stream list_os ls_out ls_in ls_now 3 list_base
proof unfold_locales
qed (auto simp: list_os_def list_base_def FD_SETSIZE_def Let_def min_def split: if_splits)

definition list_platform :: "list_sock platform" where
  "list_platform = tcp_platform list_os 3 list_base"

end
