(* ===== verification/Mqtt_Rules.thy ===== *)
theory Mqtt_Rules
  imports Mqtt_Flow
begin

text \<open>
  Rules of the operations of the MQTT client that need no platform: packet identifiers, the
  list of handlers, the check of topics; and publishing through the public call.
\<close>

section \<open>Packet identifiers\<close>

definition ids_from :: "nat \<Rightarrow> nat \<Rightarrow> nat" where
  "ids_from start k = (start + k) mod 65535 + 1"

text \<open>The identifier of the next request after k requests.\<close>

lemma next_packetid:
  assumes "mc_packet_id c \<le> 65535"
  shows "iotx_mc_get_next_packetid c = (ids_from (mc_packet_id c) 0, c\<lparr>mc_packet_id := ids_from (mc_packet_id c) 0\<rparr>)"
  using assms by (auto simp: iotx_mc_get_next_packetid_def IOTX_MC_PACKET_ID_MAX_def ids_from_def Let_def)

lemma ids_from_next: "ids_from (ids_from s 0) k = ids_from s (Suc k)"
proof -
  have "(s mod 65535 + (1 + k)) mod 65535 = (s + (1 + k)) mod 65535" by (rule mod_add_left_eq)
  then show ?thesis by (simp add: ids_from_def)
qed

lemma nth_packetid:
  assumes "mc_packet_id c \<le> 65535"
  shows "fst (iotx_mc_get_next_packetid (((\<lambda>c. snd (iotx_mc_get_next_packetid c)) ^^ k) c)) = ids_from (mc_packet_id c) k"
  using assms
proof (induction k arbitrary: c)
  case 0
  then show ?case by (simp add: next_packetid)
next
  case (Suc k)
  have "ids_from (mc_packet_id c) 0 \<le> 65535" by (simp add: ids_from_def Suc_le_eq)
  then show ?case
    using Suc.IH [of "snd (iotx_mc_get_next_packetid c)"] Suc.prems
    by (simp add: next_packetid funpow_Suc_right ids_from_next del: funpow.simps)
qed

lemma ids_from_inj:
  assumes "i < j" "j < i + 65535"
  shows "ids_from s i \<noteq> ids_from s j"
proof
  assume "ids_from s i = ids_from s j"
  then have "(s + j) mod 65535 = (s + i) mod 65535" by (simp add: ids_from_def)
  then have "65535 dvd (s + j) - (s + i)" using assms(1) by (metis mod_eq_dvd_iff_nat nat_add_left_cancel_le order.strict_implies_order)
  then show False using assms by (auto dest: dvd_imp_le)
qed

section \<open>Handlers\<close>

lemma drop_handles_filter: "drop_handles t nodes = Some (filter (\<lambda>h. \<not> hears t h) nodes)"
proof (induction nodes)
  case Nil
  then show ?case by simp
next
  case (Cons node nodes)
  have "topic_is t \<lparr>cstring = None, ls_len = int (length t), ls_data = Some t\<rparr>"
    by (simp add: topic_is_def)
  from topic_hit [OF this, of "th_filter node"] obtain eq where
    "MQTTPacket_equals \<lparr>cstring = None, ls_len = int (length t), ls_data = Some t\<rparr> (th_filter node) = Some eq"
    "(if eq then Some True else iotx_mc_is_topic_matched (Some (th_filter node))
      (Some \<lparr>cstring = None, ls_len = int (length t), ls_data = Some t\<rparr>)) = Some (hears t node)"
    by (auto simp: hears_def bind_eq_Some_conv)
  then show ?case by (simp add: Cons.IH Let_def)
qed

lemma identical_iff: "handle_is_identical a b \<longleftrightarrow> a = b"
  by (cases a; cases b) (auto simp: handle_is_identical_def intro: event_handle.equality)

lemma add_handle_once:
  assumes "distinct (mc_list_sub_handle c)"
  shows "distinct (mc_list_sub_handle (add_handle h c))"
    "set (mc_list_sub_handle (add_handle h c)) = insert h (set (mc_list_sub_handle c))"
  using assms by (auto simp: add_handle_def identical_iff list_ex_iff)

section \<open>The check of a topic\<close>

text \<open>A last level of one character behind a level that is not empty is not looked at.\<close>

lemma strtok_loop_tail:
  assumes "y \<noteq> SLASH"
  shows "(\<exists>tok' p'. length p' < length p \<and> strtok_loop SLASH [] tok (p @ [y, SLASH, x]) b = (Some tok', p' @ [y, SLASH, x])
      \<and> strtok_loop SLASH [] tok (p @ [y, SLASH]) b = (Some tok', p' @ [y, SLASH]))
    \<or> (\<exists>tok'. strtok_loop SLASH [] tok (p @ [y, SLASH, x]) b = (Some tok', [x])
      \<and> strtok_loop SLASH [] tok (p @ [y, SLASH]) b = (Some tok', []))"
proof (induction p arbitrary: tok b)
  case Nil
  have "strtok_loop SLASH [] tok [y, SLASH, x] b = (Some (tok @ [y]), [x])"
    by (subst strtok_loop.simps, simp add: assms) (subst strtok_loop.simps, simp)
  moreover have "strtok_loop SLASH [] tok [y, SLASH] b = (Some (tok @ [y]), [])"
    by (subst strtok_loop.simps, simp add: assms) (subst strtok_loop.simps, simp)
  ultimately show ?case by simp
next
  case (Cons a p)
  show ?case
  proof (cases "a = SLASH")
    case False
    have "strtok_loop SLASH [] tok ((a # p) @ q) b = strtok_loop SLASH [] (tok @ [a]) (p @ q) False" for q
      using False by (subst strtok_loop.simps) simp
    then show ?thesis using Cons.IH [of "tok @ [a]" False] by (metis length_Cons less_Suc_eq)
  next
    case True
    have "strtok_loop SLASH [] tok ((a # p) @ y # q) b =
        (if tok = [] then strtok_loop SLASH [] [] (p @ y # q) b else (Some tok, p @ y # q))" for q
      using True by (subst strtok_loop.simps) simp
    then show ?thesis
      using Cons.IH [of "[]" b] by (cases "tok = []") (simp, metis less_Suc_eq, auto)
  qed
qed

lemma check_loop_tail:
  assumes "y \<noteq> SLASH"
  shows "check_topic_loop ty hs (Some (p @ [y, SLASH, x])) = check_topic_loop ty hs (Some (p @ [y, SLASH]))"
proof (induction "length p" arbitrary: p hs rule: less_induct)
  case less
  have end0: "check_topic_loop ty hs (Some q) = 0" if "length q \<le> 1" for q hs
    using that by (subst check_topic_loop.simps) (simp add: infra_strtok_def)
  have i: "infra_strtok SLASH [] None (Some (p @ y # SLASH # q))
      = (let (t, pos') = strtok_loop SLASH [] [] (p @ y # SLASH # q) True in (t, Some pos'))" for q
    by (simp add: infra_strtok_def)
  from strtok_loop_tail [OF assms, of p "[]" x True] show ?case
  proof (elim disjE exE conjE)
    fix tok' p'
    assume "length p' < length p" "strtok_loop SLASH [] [] (p @ [y, SLASH, x]) True = (Some tok', p' @ [y, SLASH, x])"
      "strtok_loop SLASH [] [] (p @ [y, SLASH]) True = (Some tok', p' @ [y, SLASH])"
    then show ?thesis
      using less.hyps [of p'] by (subst (1 2) check_topic_loop.simps) (simp add: i Let_def)
  next
    fix tok'
    assume "strtok_loop SLASH [] [] (p @ [y, SLASH, x]) True = (Some tok', [x])"
      "strtok_loop SLASH [] [] (p @ [y, SLASH]) True = (Some tok', [])"
    then show ?thesis
      by (subst (1 2) check_topic_loop.simps) (simp add: i Let_def end0)
  qed
qed

lemma check_topic_tail:
  assumes "y \<noteq> SLASH" "length p \<le> 124"
  shows "iotx_mc_check_topic (Some (p @ [y, SLASH, x])) ty = iotx_mc_check_topic (Some (p @ [y, SLASH])) ty"
proof -
  have end0: "check_topic_loop ty hs (Some q) = 0" if "length q \<le> 1" for q hs
    using that by (subst check_topic_loop.simps) (simp add: infra_strtok_def)
  have t: "take 127 (p @ [y, SLASH, x]) = p @ [y, SLASH, x]" "take 127 (p @ [y, SLASH]) = p @ [y, SLASH]"
    using assms(2) by simp_all
  have i: "infra_strtok SLASH [] (Some (p @ y # SLASH # q)) None
      = (let (t, pos') = strtok_loop SLASH [] [] (p @ y # SLASH # q) True in (t, Some pos'))" for q
    by (simp add: infra_strtok_def)
  from strtok_loop_tail [OF assms(1), of p "[]" x True] show ?thesis
  proof (elim disjE exE conjE)
    fix tok' p'
    assume "strtok_loop SLASH [] [] (p @ [y, SLASH, x]) True = (Some tok', p' @ [y, SLASH, x])"
      "strtok_loop SLASH [] [] (p @ [y, SLASH]) True = (Some tok', p' @ [y, SLASH])"
    then show ?thesis
      using check_loop_tail [OF assms(1)] assms(2)
      by (simp add: iotx_mc_check_topic_def CONFIG_MQTT_TOPIC_MAXLEN_def t i Let_def del: take_append)
  next
    fix tok'
    assume "strtok_loop SLASH [] [] (p @ [y, SLASH, x]) True = (Some tok', [x])"
      "strtok_loop SLASH [] [] (p @ [y, SLASH]) True = (Some tok', [])"
    then show ?thesis
      using assms(2)
      by (simp add: iotx_mc_check_topic_def CONFIG_MQTT_TOPIC_MAXLEN_def t i Let_def end0 del: take_append)
  qed
qed

section \<open>The public call\<close>

text \<open>The message with the identifier that the call gives it.\<close>

definition numbered :: "pub_msg \<Rightarrow> 'n mc \<Rightarrow> pub_msg" where
  "numbered msg c = (if pm_qos msg = 1 then msg\<lparr>pm_packet_id := fst (iotx_mc_get_next_packetid c)\<rparr> else msg)"

lemma publish_packet_body:
  "publish_packet t msg = packet (publish_header 0 (pm_qos msg) (pm_retain msg))
    (be16 (length t) @ t @ (if pm_qos msg > 0 then be16 (pm_packet_id msg) else [])
      @ take (pm_payload_len msg) (the (pm_payload msg)))"
  by (simp add: publish_packet_def publish_body_def str_field_def str_bytes_def cstring_of_def MQTTString_initializer_def)

lemma next_packetid_keeps:
  "snd (iotx_mc_get_next_packetid c) = c\<lparr>mc_packet_id := fst (iotx_mc_get_next_packetid c)\<rparr>"
  by (simp add: iotx_mc_get_next_packetid_def Let_def)

context duplex
begin

lemma wrapper_publish_sends:
  assumes rest: "send_rest c" and up: "mc_client_state c = IOTX_MC_STATE_CONNECTED"
    and topic: "0 \<le> iotx_mc_check_topic (Some t) TOPIC_NAME_TYPE"
    and qos: "pm_qos msg = 0 \<or> pm_qos msg = 1" and ok: "msg_ok t (numbered msg c)"
    and room: "length (publish_packet t (numbered msg c)) < mc_buf_size_send_max c"
    and list: "pm_qos msg = 1 \<longrightarrow> length (mc_list_pub_wait_ack c) < 10"
  shows "\<exists>id c'. wrapper_mqtt_publish pf (Some t) (Some msg) c = Some (int id, c')
    \<and> id = (if pm_qos msg = 1 then fst (iotx_mc_get_next_packetid c) else 0)
    \<and> sent (mc_net c') = sent (mc_net c) @ publish_packet t (numbered msg c)
    \<and> stream (mc_net c') = stream (mc_net c)
    \<and> pending c' = pending c @ (if pm_qos msg = 1 then [(id, publish_packet t (numbered msg c))] else [])"
proof -
  let ?c1 = "if pm_qos msg = 1 then snd (iotx_mc_get_next_packetid c) else c"
  let ?msg = "numbered msg c"
  have q: "pm_qos ?msg = pm_qos msg" "pm_payload msg \<noteq> None"
    using ok by (simp_all add: numbered_def msg_ok_def split: if_splits)
  have c1: "send_rest ?c1" "mc_buf_size_send_max ?c1 = mc_buf_size_send_max c"
    "mc_list_pub_wait_ack ?c1 = mc_list_pub_wait_ack c" "mc_net ?c1 = mc_net c"
    using rest by (simp_all add: next_packetid_keeps send_rest_def)
  obtain n start where p: "MQTTPublish pf t ?msg ?c1 = Some (0, ?c1\<lparr>mc_net := n, mc_list_pub_wait_ack :=
      mc_list_pub_wait_ack ?c1 @ (if pm_qos ?msg = 1 then [\<lparr>pub_start_time = start,
        pub_node_state = IOTX_MC_NODE_STATE_NORMANL, pub_msg_id = pm_packet_id ?msg, pub_buf = publish_packet t ?msg\<rparr>] else [])\<rparr>)"
    and n: "sent n = sent (mc_net ?c1) @ publish_packet t ?msg" "stream n = stream (mc_net ?c1)"
    using publish_sends [OF c1(1) ok] qos q(1) room list c1(2,3) by auto
  show ?thesis
  proof (cases "pm_qos msg = 1")
    case True
    obtain id c2 where g: "iotx_mc_get_next_packetid c = (id, c2)" by fastforce
    then have m: "?msg = msg\<lparr>pm_packet_id := id\<rparr>" using True by (simp add: numbered_def)
    show ?thesis
      using p n topic up True q(2) m c1 by (auto simp: wrapper_mqtt_publish_def wrapper_mqtt_check_state_def g)
  next
    case False
    then have "?msg = msg" "pm_qos msg = 0" using qos by (simp_all add: numbered_def)
    then show ?thesis
      using p n topic up q(2) by (auto simp: wrapper_mqtt_publish_def wrapper_mqtt_check_state_def)
  qed
qed

end

text \<open>What one client sent, a server passed on, and another client received.\<close>

lemma publish_heard:
  assumes d: "duplex pf stream sent clock" and rest: "at_rest c"
    and up: "mc_client_state c = IOTX_MC_STATE_CONNECTED" "mc_keepalive_probes c \<le> 2"
    and room: "5 \<le> mc_buf_size_read_max c" "4 \<le> mc_buf_size_send_max c"
    and str: "stream (mc_net c) = publish_packet t msg @ more_bytes"
    and fits: "length (publish_packet t msg) \<le> mc_buf_size_read_max c"
    and ok: "msg_ok t msg" and t: "t \<noteq> []" "t \<noteq> identify_topic"
    and qos: "pm_qos msg = 0 \<or> pm_qos msg = 1" and pid: "pm_packet_id msg < 65536" and retain: "pm_retain msg \<le> 1"
  shows "\<exists>n tail. iotx_mc_cycle pf timer c = Some (0,
      (deliver t (heard 0 (pm_qos msg) (pm_retain msg) (pm_packet_id msg) t
        (take (pm_payload_len msg) (the (pm_payload msg))) tail) c)\<lparr>mc_keepalive_probes := 0, mc_net := n\<rparr>)
    \<and> stream n = more_bytes
    \<and> sent n = sent (mc_net c) @ (if pm_qos msg = 1 then packet (ack_header PUBACK 0) (be16 (pm_packet_id msg)) else [])"
  using duplex.cycle_delivers [OF d rest up room str [unfolded publish_packet_body] fits [unfolded publish_packet_body]
      refl _ t(1) _ t(2) pid _ retain qos] ok
  by (auto simp: msg_ok_def publish_packet_body length_packet)

text \<open>A client that can send a message, and one that can receive a packet of k bytes.\<close>

definition may_send :: "byte list \<Rightarrow> pub_msg \<Rightarrow> 'n mc \<Rightarrow> bool" where
  "may_send t msg c \<longleftrightarrow> send_rest c \<and> mc_client_state c = IOTX_MC_STATE_CONNECTED
     \<and> 0 \<le> iotx_mc_check_topic (Some t) TOPIC_NAME_TYPE \<and> (pm_qos msg = 0 \<or> pm_qos msg = 1)
     \<and> msg_ok t (numbered msg c) \<and> length (publish_packet t (numbered msg c)) < mc_buf_size_send_max c
     \<and> (pm_qos msg = 1 \<longrightarrow> length (mc_list_pub_wait_ack c) < 10)
     \<and> mc_packet_id c \<le> 65535 \<and> pm_packet_id msg \<le> 65535 \<and> pm_retain msg \<le> 1"

definition may_hear :: "byte list \<Rightarrow> nat \<Rightarrow> 'n mc \<Rightarrow> bool" where
  "may_hear t k c \<longleftrightarrow> at_rest c \<and> mc_client_state c = IOTX_MC_STATE_CONNECTED \<and> mc_keepalive_probes c \<le> 2
     \<and> k \<le> mc_buf_size_read_max c \<and> 5 \<le> mc_buf_size_read_max c \<and> 4 \<le> mc_buf_size_send_max c
     \<and> t \<noteq> [] \<and> t \<noteq> identify_topic"

lemma numbered_fields:
  "pm_qos (numbered msg c) = pm_qos msg" "pm_retain (numbered msg c) = pm_retain msg"
  "pm_payload (numbered msg c) = pm_payload msg" "pm_payload_len (numbered msg c) = pm_payload_len msg"
  by (simp_all add: numbered_def)

lemma numbered_id: "mc_packet_id c \<le> 65535 \<Longrightarrow> pm_packet_id msg \<le> 65535 \<Longrightarrow> pm_packet_id (numbered msg c) < 65536"
  by (auto simp: numbered_def iotx_mc_get_next_packetid_def IOTX_MC_PACKET_ID_MAX_def Let_def)

lemma send_then_hear:
  assumes "duplex pa sa oa ka" "duplex pb sb ob kb" "may_send t msg a"
    and "may_hear t (length (publish_packet t (numbered msg a))) b"
  shows "\<exists>id a'. wrapper_mqtt_publish pa (Some t) (Some msg) a = Some (int id, a')
    \<and> oa (mc_net a') = oa (mc_net a) @ publish_packet t (numbered msg a)
    \<and> (\<forall>rest. sb (mc_net b) = publish_packet t (numbered msg a) @ rest \<longrightarrow>
      (\<exists>b' tail. iotx_mc_cycle pb timer b = Some (0, b') \<and> sb (mc_net b') = rest
        \<and> mc_calls b' = mc_calls (deliver t (heard 0 (pm_qos msg) (pm_retain msg) (pm_packet_id (numbered msg a)) t
            (take (pm_payload_len msg) (the (pm_payload msg))) tail) b)
        \<and> ob (mc_net b') = ob (mc_net b) @ (if pm_qos msg = 1 then packet (ack_header PUBACK 0) (be16 id) else [])))"
proof -
  let ?m = "numbered msg a"
  obtain id a' where s: "wrapper_mqtt_publish pa (Some t) (Some msg) a = Some (int id, a')"
    "id = (if pm_qos msg = 1 then fst (iotx_mc_get_next_packetid a) else 0)"
    "oa (mc_net a') = oa (mc_net a) @ publish_packet t ?m"
    using duplex.wrapper_publish_sends [OF assms(1), of a t msg] assms(3) by (auto simp: may_send_def)
  have id: "pm_qos msg = 1 \<Longrightarrow> pm_packet_id ?m = id" using s(2) by (simp add: numbered_def)
  have "\<exists>b' tail. iotx_mc_cycle pb timer b = Some (0, b') \<and> sb (mc_net b') = rest
        \<and> mc_calls b' = mc_calls (deliver t (heard 0 (pm_qos msg) (pm_retain msg) (pm_packet_id ?m) t
            (take (pm_payload_len msg) (the (pm_payload msg))) tail) b)
        \<and> ob (mc_net b') = ob (mc_net b) @ (if pm_qos msg = 1 then packet (ack_header PUBACK 0) (be16 id) else [])"
    if r: "sb (mc_net b) = publish_packet t ?m @ rest" for rest
  proof -
    have h: "at_rest b" "mc_client_state b = IOTX_MC_STATE_CONNECTED" "mc_keepalive_probes b \<le> 2"
      "5 \<le> mc_buf_size_read_max b" "4 \<le> mc_buf_size_send_max b" "length (publish_packet t ?m) \<le> mc_buf_size_read_max b"
      "msg_ok t ?m" "t \<noteq> []" "t \<noteq> identify_topic" "pm_qos ?m = 0 \<or> pm_qos ?m = 1" "pm_packet_id ?m < 65536"
      "pm_retain ?m \<le> 1"
      using assms(3,4) numbered_id [of a msg] by (simp_all add: may_send_def may_hear_def numbered_fields)
    from publish_heard [OF assms(2) h(1-5) r h(6-12), of timer] show ?thesis
      unfolding numbered_fields using id by fastforce
  qed
  then show ?thesis using s(1,3) by blast
qed

end
