(* ===== verification/Mqtt_Inv.thy ===== *)
theory Mqtt_Inv
  imports Mqtt_Rules
begin

text \<open>
  The invariant of the MQTT client over all its public calls and any platform: the packet
  identifier has 16 bits, at most ten publications wait, no handler is twice in the list, and
  every publication that waits has an identifier of 16 bits.
\<close>

definition core :: "'n mc \<Rightarrow> nat \<times> pub_info list \<times> topic_handle list" where
  "core c = (mc_packet_id c, mc_list_pub_wait_ack c, mc_list_sub_handle c)"

definition client_ok :: "'n mc \<Rightarrow> bool" where
  "client_ok c \<longleftrightarrow> mc_packet_id c \<le> 65535 \<and> length (mc_list_pub_wait_ack c) \<le> 10
     \<and> (\<forall>p\<in>set (mc_list_pub_wait_ack c). pub_msg_id p \<le> 65535) \<and> distinct (mc_list_sub_handle c)"

lemma core_ok: "core c' = core c \<Longrightarrow> client_ok c' \<longleftrightarrow> client_ok c"
  by (simp add: core_def client_ok_def)

section \<open>Calls that leave the lists alone\<close>

lemma core_updates [simp]:
  "core (c\<lparr>mc_net := n\<rparr>) = core c" "core (c\<lparr>mc_buf_send := b\<rparr>) = core c" "core (c\<lparr>mc_buf_size_send := k\<rparr>) = core c"
  "core (c\<lparr>mc_buf_read := b\<rparr>) = core c" "core (c\<lparr>mc_buf_size_read := k\<rparr>) = core c"
  "core (c\<lparr>mc_calls := e\<rparr>) = core c" "core (c\<lparr>mc_keepalive_probes := k\<rparr>) = core c"
  "core (c\<lparr>mc_client_state := s\<rparr>) = core c" "core (c\<lparr>mc_list_sub_sync_ack := a\<rparr>) = core c"
  "core (c\<lparr>mc_connect_data := d\<rparr>) = core c" "core (c\<lparr>mc_next_ping_time := k\<rparr>) = core c"
  "core (c\<lparr>mc_reconnect_next_time := k\<rparr>) = core c" "core (c\<lparr>mc_reconnect_interval_ms := k\<rparr>) = core c"
  "core (c\<lparr>mc_cycle_timeout := k\<rparr>) = core c"
  by (simp_all add: core_def)

lemma core_small [simp]:
  "core (set_client_state s c) = core c" "core (reset_send_buffer c) = core c" "core (reset_recv_buffer c) = core c"
  "core (handle_event h e c) = core c" "core (plat_do g c) = core c" "core (set_keepalive k c) = core c"
  "core (closed_if rc c) = core c" "core (event_handle_sub i a c) = core c"
  by (simp_all add: set_client_state_def reset_send_buffer_def reset_recv_buffer_def handle_event_def plat_do_def
      set_keepalive_def closed_if_def event_handle_sub_def)

lemma quiet_core: "quiet c c' \<Longrightarrow> core c' = core c"
  by (auto simp: quiet_def)

lemmas quiets = plat_quiet uptime32_quiet expired_quiet time_left_quiet left_quiet spend_quiet start_quiet
  countdown_quiet send_packet_quiet send_buffer_quiet republish_quiet

lemmas quiet_cores = quiets [THEN quiet_core]

lemma alloc_core:
  "alloc_send_buffer pf len c = (r, c') \<Longrightarrow> core c' = core c"
  "alloc_recv_buffer pf len c = (r, c') \<Longrightarrow> core c' = core c"
  by (auto simp: alloc_send_buffer_def alloc_recv_buffer_def Let_def dest!: quiet_cores split: prod.splits if_splits option.splits)

lemma serialize_core: "serialize f c = Some (len, c') \<Longrightarrow> core c' = core c"
  by (auto simp: serialize_def bind_eq_Some_conv)

lemmas call_core = quiet_cores alloc_core serialize_core

lemma puback_core: "MQTTPuback pf i t c = Some (rc, c') \<Longrightarrow> core c' = core c"
  by (auto simp: MQTTPuback_def bind_eq_Some_conv Let_def dest!: call_core split: prod.splits if_splits)

text \<open>Reading a packet is one of them.\<close>

interpretation cores: untouched pf "core :: 'n mc \<Rightarrow> _" for pf :: "'n platform"
  by unfold_locales (auto dest!: call_core)

section \<open>Received packets\<close>

lemma deliver_loop_core: "deliver_loop nodes t m b c = Some (b', c') \<Longrightarrow> core c' = core c"
  by (induction nodes t m b c rule: deliver_loop.induct) (auto simp: bind_eq_Some_conv split: if_splits)

lemma deliver_core: "iotx_mc_deliver_message pf t m c = Some c' \<Longrightarrow> core c' = core c"
  by (auto simp: iotx_mc_deliver_message_def iotx_mc_parse_identity_response_def bind_eq_Some_conv Let_def
      dest!: deliver_loop_core split: if_splits)

lemma mask_ok: "client_ok c \<Longrightarrow> client_ok (iotx_mc_mask_pubInfo_from i c)"
  by (auto simp: client_ok_def iotx_mc_mask_pubInfo_from_def)

lemma handle_packet_ok:
  assumes "handle_packet pf ty rc c = Some (rc', c')" "client_ok c"
  shows "client_ok c'"
proof -
  have "core c' = core c \<or> (\<exists>i. core c' = core (iotx_mc_mask_pubInfo_from i c))"
    using assms(1)
    unfolding handle_packet_def iotx_mc_handle_recv_PUBACK_def iotx_mc_handle_recv_SUBACK_def
      iotx_mc_handle_recv_PUBLISH_def iotx_mc_handle_recv_UNSUBACK_def
    by (auto simp: bind_eq_Some_conv Let_def dest!: deliver_core puback_core split: if_splits)
  then show ?thesis using assms(2) core_ok mask_ok by metis
qed

lemma cycle_ok:
  assumes "iotx_mc_cycle pf timer c = Some (rc, c')" "client_ok c"
  shows "client_ok c'"
proof (cases "mc_client_state c \<noteq> IOTX_MC_STATE_CONNECTED \<or> IOTX_MC_KEEPALIVE_PROBE_MAX < mc_keepalive_probes c")
  case True
  then have "core c' = core c" using assms(1) by (auto simp: iotx_mc_cycle_def split: if_splits)
  then show ?thesis using core_ok assms(2) by metis
next
  case False
  then obtain r ty c1 where r: "iotx_mc_read_packet pf timer c = Some (r, ty, c1)"
    using assms(1) by (auto simp: iotx_mc_cycle_def bind_eq_Some_conv)
  have k: "core c1 = core c" using cores.packet_kept [OF r] .
  show ?thesis
  proof (cases "r \<noteq> 0 \<or> ty = 0")
    case True
    then have "core c' = core c1" using assms(1) False r by (auto simp: iotx_mc_cycle_def Let_def split: if_splits)
    then show ?thesis using core_ok assms(2) k by metis
  next
    case ty: False
    then obtain rc2 c2 where h: "handle_packet pf ty r (c1\<lparr>mc_keepalive_probes := 0\<rparr>) = Some (rc2, c2)"
      "c' = reset_recv_buffer c2" using assms(1) False r by (auto simp: iotx_mc_cycle_def bind_eq_Some_conv)
    have "client_ok (c1\<lparr>mc_keepalive_probes := 0\<rparr>)" using core_ok [of "c1\<lparr>mc_keepalive_probes := 0\<rparr>" c] k assms(2) by simp
    from handle_packet_ok [OF h(1) this] show ?thesis using core_ok [of c' c2] h(2) by simp
  qed
qed

section \<open>The waiting publications\<close>

lemma pub_info_loop_ok:
  assumes "pub_info_loop pf nodes c = Some (nodes', c')"
  shows "core c' = core c \<and> length nodes' \<le> length nodes \<and> pub_msg_id ` set nodes' \<subseteq> pub_msg_id ` set nodes"
  using assms
proof (induction nodes arbitrary: c nodes')
  case Nil
  then show ?case by simp
next
  case (Cons node nodes)
  show ?case
  proof (cases "pub_node_state node = IOTX_MC_NODE_STATE_INVALID")
    case True
    then show ?thesis using Cons.IH [of c nodes'] Cons.prems by auto
  next
    case False
    then obtain t rest where n: "nodes' = node\<lparr>pub_start_time := t\<rparr> # rest"
      and r: "rest = nodes \<and> (\<exists>c1. quiet c c1 \<and> c' = set_client_state IOTX_MC_STATE_DISCONNECTED c1)
        \<or> (\<exists>c1. quiet c c1 \<and> pub_info_loop pf nodes c1 = Some (rest, c'))"
      using pub_info_loop_Cons [OF Cons.prems False] by blast
    have "core c' = core c \<and> length rest \<le> length nodes \<and> pub_msg_id ` set rest \<subseteq> pub_msg_id ` set nodes"
      using r
    proof (elim disjE conjE exE)
      fix c1
      assume "quiet c c1" "pub_info_loop pf nodes c1 = Some (rest, c')"
      then show ?thesis using Cons.IH [of c1 rest] quiet_core [of c c1] by simp
    qed (simp add: quiet_core)
    then show ?thesis using n by auto
  qed
qed

lemma proc_ok:
  assumes "MQTTPubInfoProc pf c = Some (rc, c')" "client_ok c"
  shows "client_ok c'"
proof -
  obtain nodes c1 where n: "pub_info_loop pf (mc_list_pub_wait_ack c) c = Some (nodes, c1)"
    "c' = c1\<lparr>mc_list_pub_wait_ack := nodes\<rparr>"
    using assms by (auto simp: MQTTPubInfoProc_def bind_eq_Some_conv)
  from pub_info_loop_ok [OF n(1)] show ?thesis
    using n(2) assms(2) by (fastforce simp: client_ok_def core_def)
qed

section \<open>Publishing and subscribing\<close>

lemma next_packetid_ok:
  assumes "iotx_mc_get_next_packetid c = (i, c')" "client_ok c"
  shows "client_ok c'" "i \<le> 65535"
  using assms by (auto simp: iotx_mc_get_next_packetid_def IOTX_MC_PACKET_ID_MAX_def client_ok_def Let_def split: if_splits)

lemma push_ok:
  assumes "iotx_mc_push_pubInfo_to pf len i c = Some (rc, c')" "client_ok c" "i \<le> 65535"
  shows "client_ok c'"
  using push_pending [OF assms(1)]
proof (elim disjE conjE exE)
  assume "rc < 0" "quiet c c'"
  then show ?thesis using quiet_core core_ok assms(2) by metis
next
  fix buf t n
  assume "length (mc_list_pub_wait_ack c) < 10" "c' = c\<lparr>mc_net := n, mc_list_pub_wait_ack := mc_list_pub_wait_ack c @
      [\<lparr>pub_start_time = t, pub_node_state = IOTX_MC_NODE_STATE_NORMANL, pub_msg_id = i, pub_buf = take (nat len) buf\<rparr>]\<rparr>"
  then show ?thesis using assms(2,3) by (auto simp: client_ok_def)
qed

lemma butlast_ok: "client_ok c \<Longrightarrow> client_ok (c\<lparr>mc_list_pub_wait_ack := butlast (mc_list_pub_wait_ack c)\<rparr>)"
  by (auto simp: client_ok_def dest: in_set_butlastD)

lemma publish_ok:
  assumes run: "MQTTPublish pf t msg c = Some (rc, c')" and ok: "client_ok c" "pm_packet_id msg \<le> 65535"
  shows "client_ok c'"
proof -
  obtain timer c1 where t: "utils_time_countdown_ms pf (mc_request_timeout c) c = (timer, c1)" by fastforce
  obtain res c2 where a: "alloc_send_buffer pf (length t + pm_payload_len msg) c1 = (res, c2)" by fastforce
  have k2: "core c2 = core c" using call_core t a by metis
  show ?thesis
  proof (cases "res < 0")
    case True
    then show ?thesis using run k2 core_ok ok(1) by (auto simp: MQTTPublish_def t a)
  next
    case False
    then obtain payload len c3 where p: "pm_payload msg = Some payload" "serialize (\<lambda>buf size. MQTTSerialize_publish buf size 0
        (pm_qos msg) (pm_retain msg) (int (pm_packet_id msg)) (cstring_of t) payload (int (pm_payload_len msg))) c2 = Some (len, c3)"
      using run by (auto simp: MQTTPublish_def t a bind_eq_Some_conv)
    have ok3: "client_ok c3" using serialize_core [OF p(2)] k2 core_ok ok(1) by metis
    show ?thesis
    proof (cases "len \<le> 0")
      case True
      then have "core c' = core c3" using run False by (auto simp: MQTTPublish_def t a p)
      then show ?thesis using core_ok ok3 by metis
    next
      case len: False
      then obtain res2 c4 where q: "(if pm_qos msg > 0 then iotx_mc_push_pubInfo_to pf len (pm_packet_id msg) c3
          else Some (0, c3)) = Some (res2, c4)"
        using run False by (auto simp: MQTTPublish_def t a p bind_eq_Some_conv)
      have ok4: "client_ok c4" using q ok3 push_ok ok(2) by (metis option.inject prod.inject)
      show ?thesis
      proof (cases "res2 < 0")
        case True
        then have "core c' = core c4" using run False len q by (auto simp: MQTTPublish_def t a p)
        then show ?thesis using core_ok ok4 by metis
      next
        case res2: False
        then obtain rc5 c5 where w: "send_buffer pf len timer c4 = Some (rc5, c5)"
          using run False len q by (auto simp: MQTTPublish_def t a p bind_eq_Some_conv)
        have ok5: "client_ok c5" using call_core w core_ok ok4 by metis
        have "c' = reset_send_buffer c5 \<or> c' = reset_send_buffer (c5\<lparr>mc_list_pub_wait_ack := butlast (mc_list_pub_wait_ack c5)\<rparr>)"
          using run False len q res2 w by (auto simp: MQTTPublish_def t a p Let_def split: if_splits)
        then show ?thesis using core_small(2) core_ok ok5 butlast_ok by metis
      qed
    qed
  qed
qed

lemma add_handle_ok: "client_ok c \<Longrightarrow> client_ok (add_handle h c)"
  using add_handle_once [of c h] by (auto simp: client_ok_def add_handle_def)

lemma subscribe_ok:
  assumes "MQTTSubscribe pf f qos i h c = Some (rc, c')" "client_ok c"
  shows "client_ok c'"
proof -
  have "\<exists>c1 k. core c1 = core c \<and> (c' = c1 \<or> c' = add_handle k c1)"
    using assms(1) unfolding MQTTSubscribe_def
    by (auto simp: bind_eq_Some_conv Let_def dest!: call_core split: prod.splits if_splits) (metis core_small(2))+
  then show ?thesis using assms(2) core_ok add_handle_ok by metis
qed

lemma unsubscribe_ok:
  assumes "MQTTUnsubscribe pf f i c = Some (rc, c')" "client_ok c"
  shows "client_ok c'"
proof -
  have "core c' = core c \<or> (\<exists>c1. core c1 = core c \<and>
      c' = reset_send_buffer (c1\<lparr>mc_list_sub_handle := filter (\<lambda>h. \<not> hears f h) (mc_list_sub_handle c1)\<rparr>))"
    using assms(1) unfolding MQTTUnsubscribe_def drop_handles_filter Option.bind.bind_lunit
    by (auto simp: bind_eq_Some_conv Let_def dest!: call_core split: prod.splits if_splits)
  moreover have "client_ok (reset_send_buffer (c1\<lparr>mc_list_sub_handle := filter (\<lambda>h. \<not> hears f h) (mc_list_sub_handle c1)\<rparr>))"
    if "core c1 = core c" for c1
    using core_ok [OF that] assms(2) by (auto simp: client_ok_def reset_send_buffer_def)
  ultimately show ?thesis using assms(2) core_ok by metis
qed

section \<open>Connections\<close>

lemma connect_core: "MQTTConnect pf c = Some (rc, c') \<Longrightarrow> core c' = core c"
  by (auto simp: MQTTConnect_def bind_eq_Some_conv Let_def dest!: call_core split: prod.splits if_splits)

lemma wait_loop_core: "wait_connack_loop pf timer k c = Some (rc, c') \<Longrightarrow> core c' = core c"
proof (induction pf timer k c rule: wait_connack_loop.induct)
  case (1 pf timer k c)
  from 1(2) obtain r ty c1 where r: "iotx_mc_read_packet pf timer c = Some (r, ty, c1)"
    by (subst (asm) wait_connack_loop.simps) (auto simp: bind_eq_Some_conv)
  have k1: "core c1 = core c" using cores.packet_kept [OF r] .
  have "wait_connack_loop pf timer k c = (if r < 0 then Some (r, c1)
      else if k + 1 > WAIT_CONNACK_MAX then Some (STATE_SYS_DEPEND_NWK_CLOSE, c1)
      else if ty \<noteq> CONNACK then wait_connack_loop pf timer (k + 1) c1 else Some (0, c1))"
    by (subst wait_connack_loop.simps) (simp add: r)
  then show ?case
    using 1(2) k1 1(1) [OF r refl refl] by (auto split: if_splits)
qed

lemma wait_core: "iotx_mc_wait_CONNACK pf c = Some (rc, c') \<Longrightarrow> core c' = core c"
  by (auto simp: iotx_mc_wait_CONNACK_def iotx_mc_handle_recv_CONNACK_def bind_eq_Some_conv Let_def
      dest!: call_core wait_loop_core split: prod.splits if_splits)

lemma tries_core: "connect_tries pf k tries c = Some (r, c') \<Longrightarrow> core c' = core c"
proof (induction tries arbitrary: c)
  case 0
  then show ?case by simp
next
  case (Suc tries)
  obtain rc c1 where c1: "MQTTConnect pf c = Some (rc, c1)" using Suc.prems by (auto simp: bind_eq_Some_conv)
  have k1: "core (set_keepalive k c1) = core c" using connect_core [OF c1] by simp
  show ?case
  proof (cases "rc < 0")
    case True
    then have "c' = plat_do (pf_disconnect pf) (set_keepalive k c1)" using Suc.prems by (simp add: c1 Let_def)
    then show ?thesis using k1 by simp
  next
    case False
    then obtain rc2 c3 where c3: "iotx_mc_wait_CONNACK pf (set_keepalive k c1) = Some (rc2, c3)"
      using Suc.prems by (auto simp: c1 bind_eq_Some_conv Let_def)
    have k3: "core c3 = core c" using wait_core [OF c3] k1 by simp
    obtain v c5 where c5: "plat (pf_connect pf) (plat_do (pf_disconnect pf) (plat_do (pf_msleep pf RETRY_INTV_PERIOD) c3)) = (v, c5)"
      by fastforce
    have k5: "core c5 = core c" using quiet_core [OF plat_quiet [OF c5]] k3 by simp
    have "c' = plat_do (pf_disconnect pf) c3 \<or> c' = c3 \<or> connect_tries pf k tries c5 = Some (r, c')"
      using Suc.prems False by (auto simp: c1 c3 c5 Let_def split: if_splits)
    then show ?thesis using k3 k5 Suc.IH [of c5] by auto
  qed
qed

lemma mqtt_connect_core: "mqtt_connect pf c = Some (rc, c') \<Longrightarrow> core c' = core c"
proof -
  assume run: "mqtt_connect pf c = Some (rc, c')"
  define k where "k = (if u16 (keepAliveInterval (mc_connect_data c) * 2) > CONFIG_MQTT_KEEPALIVE_INTERVAL_MAX
    then CONFIG_MQTT_KEEPALIVE_INTERVAL_MAX else u16 (keepAliveInterval (mc_connect_data c) * 2))"
  obtain r c1 where c1: "connect_tries pf (keepAliveInterval (mc_connect_data c)) 8 (set_keepalive k c) = Some (r, c1)"
    using run unfolding k_def by (auto simp: mqtt_connect_def Let_def bind_eq_Some_conv)
  have k1: "core c1 = core c" using tries_core [OF c1] by simp
  let ?c2 = "set_client_state IOTX_MC_STATE_CONNECTED (c1\<lparr>mc_keepalive_probes := 0\<rparr>)"
  obtain t c3 where c3: "utils_time_countdown_ms pf (keepAliveInterval (mc_connect_data ?c2) * 1000) ?c2 = (t, c3)" by fastforce
  have k3: "core c3 = core c" using quiet_core [OF countdown_quiet [OF c3]] k1 by simp
  have "c' = c1 \<or> c' = c3\<lparr>mc_next_ping_time := t\<rparr>"
    using run unfolding mqtt_connect_def Let_def k_def [symmetric] c1 Option.bind.bind_lunit case_prod_conv c3
    by (auto split: sum.splits bool.splits)
  then show ?thesis using k1 k3 by auto
qed

lemma nwk_tries_core: "nwk_connect_tries pf tries prev c = (r, c') \<Longrightarrow> core c' = core c"
  by (induction pf tries prev c rule: nwk_connect_tries.induct)
    (auto simp: Let_def dest!: call_core split: prod.splits if_splits)

lemma nwk_core: "mqtt_nwk_connect pf c = (r, c') \<Longrightarrow> core c' = core c"
  by (simp add: mqtt_nwk_connect_def nwk_tries_core)

lemma wrapper_connect_core: "wrapper_mqtt_connect pf c = Some (rc, c') \<Longrightarrow> core c' = core c"
  by (auto simp: wrapper_mqtt_connect_def dest!: nwk_core mqtt_connect_core split: prod.splits if_splits)

lemma ping_core: "MQTTKeepalive pf c = Some (rc, c') \<Longrightarrow> core c' = core c"
  by (auto simp: MQTTKeepalive_def bind_eq_Some_conv dest!: call_core split: prod.splits if_splits)

lemma keepalive_sub_core: "iotx_mc_keepalive_sub pf c = Some (rc, c') \<Longrightarrow> core c' = core c"
  by (auto simp: iotx_mc_keepalive_sub_def bind_eq_Some_conv dest!: call_core ping_core split: prod.splits if_splits)

lemma reconnect_core: "iotx_mc_handle_reconnect pf c = Some (rc, c') \<Longrightarrow> core c' = core c"
  by (auto simp: iotx_mc_handle_reconnect_def iotx_mc_attempt_reconnect_def bind_eq_Some_conv Let_def
      dest!: call_core nwk_core mqtt_connect_core split: prod.splits if_splits)

lemma keepalive_core: "iotx_mc_keepalive pf c = Some c' \<Longrightarrow> core c' = core c"
  by (auto simp: iotx_mc_keepalive_def bind_eq_Some_conv Let_def
      dest!: call_core keepalive_sub_core reconnect_core split: prod.splits if_splits)

lemma bye_core: "MQTTDisconnect pf c = Some (rc, c') \<Longrightarrow> core c' = core c"
proof -
  assume run: "MQTTDisconnect pf c = Some (rc, c')"
  obtain res c1 where a: "alloc_send_buffer pf 0 c = (res, c1)" by fastforce
  note k1 = alloc_core(1) [OF a]
  show ?thesis
  proof (cases "res < 0")
    case True
    then show ?thesis using run k1 by (simp add: MQTTDisconnect_def a)
  next
    case False
    then obtain len c2 where s: "serialize MQTTSerialize_disconnect c1 = Some (len, c2)"
      using run by (auto simp: MQTTDisconnect_def a bind_eq_Some_conv)
    obtain t c3 where t: "utils_time_countdown_ms pf (mc_request_timeout c2) c2 = (t, c3)" by fastforce
    obtain c4 where "c' = reset_send_buffer c4" "c4 = c3 \<or> (\<exists>r. send_buffer pf len t c3 = Some (r, c4))"
      using run False by (auto simp: MQTTDisconnect_def a s t bind_eq_Some_conv split: if_splits)
    then show ?thesis
      using k1 serialize_core [OF s] quiet_core [OF countdown_quiet [OF t]] by (auto dest!: send_buffer_quiet [THEN quiet_core])
  qed
qed

lemma disconnect_core: "iotx_mc_disconnect pf c = Some (rc, c') \<Longrightarrow> core c' = core c"
  by (auto simp: iotx_mc_disconnect_def bind_eq_Some_conv dest!: bye_core split: if_splits)

section \<open>The loop of cycles\<close>

lemma cycle_loop_ok:
  assumes "cycle_loop pf time c = Some c'" "client_ok c"
  shows "client_ok c'"
proof -
  have "client_ok c \<longrightarrow> client_ok c'" if "cycle_loop pf time c = Some c'" for pf :: "'a platform" and time c c'
  proof (rule cycle_loop.raw_induct [where P = "\<lambda>pf time c c'. client_ok c \<longrightarrow> client_ok c'", OF _ that], goal_cases)
    case (1 f pf time c c')
    show ?case
    proof
      assume ok: "client_ok c"
      obtain rc c1 where c1: "iotx_mc_cycle pf time c = Some (rc, c1)" using 1(2) by (auto simp: bind_eq_Some_conv)
      obtain c2 where c2: "(if rc = 0 then do { (_, c') \<leftarrow> MQTTPubInfoProc pf c1; Some c' } else Some c1) = Some c2"
        using 1(2) c1 by (auto simp: bind_eq_Some_conv)
      obtain lt c3 where c3: "iotx_time_left pf time c2 = (lt, c3)" by fastforce
      obtain e c5 where c5: "utils_time_is_expired pf time (plat_do (pf_msleep pf (if lt < 10 then lt else 10)) c3) = (e, c5)"
        by fastforce
      have "client_ok c2"
        using c2 cycle_ok [OF c1 ok] proc_ok by (auto simp: bind_eq_Some_conv split: if_splits)
      moreover have "core c5 = core c2" using quiet_core [OF time_left_quiet [OF c3]] quiet_core [OF expired_quiet [OF c5]] by simp
      ultimately have ok5: "client_ok c5" using core_ok by metis
      have "(if e then Some c5 else f pf time c5) = Some c'"
        using 1(2) c1 c2 c3 c5 by (simp add: Let_def)
      then show "client_ok c'" using ok5 1(1) by (auto split: if_splits)
    qed
  qed
  then show ?thesis using assms by blast
qed

lemma yield_ok:
  assumes "wrapper_mqtt_yield pf timeout c = Some (rc, c')" "client_ok c"
  shows "client_ok c'"
proof (cases "timeout < 0")
  case True
  then show ?thesis using assms by (simp add: wrapper_mqtt_yield_def)
next
  case False
  then obtain k c1 where c1: "iotx_mc_keepalive pf (c\<lparr>mc_cycle_timeout := k\<rparr>) = Some c1" "mqtt_cycle pf c1 = Some c'"
    using assms(1) by (auto simp: wrapper_mqtt_yield_def bind_eq_Some_conv)
  obtain time c2 where t: "utils_time_countdown_ms pf (mc_cycle_timeout c1) c1 = (time, c2)" by fastforce
  have "core c2 = core c" using quiet_core [OF countdown_quiet [OF t]] keepalive_core [OF c1(1)] by simp
  then have "client_ok c2" using core_ok assms(2) by metis
  then show ?thesis using c1(2) t cycle_loop_ok by (auto simp: mqtt_cycle_def)
qed

section \<open>All public calls\<close>

datatype mqtt_call = Connect | Publish "byte list option" "pub_msg option" | Subscribe "byte list option" int event_handle
  | Unsubscribe "byte list option" | Yield int | Disconnect

fun mqtt_do :: "'n platform \<Rightarrow> mqtt_call \<Rightarrow> 'n mc \<Rightarrow> (int \<times> 'n mc) option" where
  "mqtt_do pf Connect c = wrapper_mqtt_connect pf c"
| "mqtt_do pf (Publish t msg) c = wrapper_mqtt_publish pf t msg c"
| "mqtt_do pf (Subscribe f qos h) c = wrapper_mqtt_subscribe pf f qos h c"
| "mqtt_do pf (Unsubscribe f) c = wrapper_mqtt_unsubscribe pf f c"
| "mqtt_do pf (Yield t) c = wrapper_mqtt_yield pf t c"
| "mqtt_do pf Disconnect c = iotx_mc_disconnect pf c"

text \<open>The values of the C types: the identifier of a message has 16 bits.\<close>

fun call_typed :: "mqtt_call \<Rightarrow> bool" where
  "call_typed (Publish t (Some msg)) \<longleftrightarrow> pm_packet_id msg \<le> 65535"
| "call_typed _ \<longleftrightarrow> True"

inductive mqtt_reaches :: "'n platform \<Rightarrow> 'n mc \<Rightarrow> 'n mc \<Rightarrow> bool" for pf where
  stay: "mqtt_reaches pf c c"
| call: "mqtt_reaches pf c c1 \<Longrightarrow> call_typed k \<Longrightarrow> mqtt_do pf k c1 = Some (rc, c2) \<Longrightarrow> mqtt_reaches pf c c2"

lemma wrapper_publish_ok:
  assumes "wrapper_mqtt_publish pf t msg c = Some (rc, c')" "client_ok c" "call_typed (Publish t msg)"
  shows "client_ok c'"
proof (cases "t = None \<or> msg = None")
  case True
  then have "c' = c" using assms(1) by (auto simp: wrapper_mqtt_publish_def split: option.splits)
  then show ?thesis using assms(2) by simp
next
  case False
  then obtain t1 m where tm: "t = Some t1" "msg = Some m" by auto
  obtain i c1 where g: "iotx_mc_get_next_packetid c = (i, c1)" by fastforce
  note ok1 = next_packetid_ok [OF g assms(2)]
  have "c' = c \<or> c' = c1 \<or> (\<exists>m' c0 rc2 c2. (c0 = c \<or> c0 = c1) \<and> pm_packet_id m' \<le> 65535
      \<and> MQTTPublish pf t1 m' c0 = Some (rc2, c2) \<and> (c' = closed_if rc2 c2 \<or> c' = c2))"
  proof (cases "pm_qos m = 1 \<or> pm_qos m = 2")
    case True
    then have "c' = c \<or> c' = c1 \<or> (\<exists>rc2 c2. MQTTPublish pf t1 (m\<lparr>pm_packet_id := i\<rparr>) c1 = Some (rc2, c2)
        \<and> (c' = closed_if rc2 c2 \<or> c' = c2))"
      using assms(1) unfolding tm
      by (auto simp: wrapper_mqtt_publish_def g bind_eq_Some_conv Let_def split: if_splits)
    moreover have "pm_packet_id (m\<lparr>pm_packet_id := i\<rparr>) \<le> 65535" using ok1(2) by simp
    ultimately show ?thesis by blast
  next
    case False
    then have "c' = c \<or> (\<exists>rc2 c2. MQTTPublish pf t1 m c = Some (rc2, c2) \<and> (c' = closed_if rc2 c2 \<or> c' = c2))"
      using assms(1) unfolding tm
      by (auto simp: wrapper_mqtt_publish_def bind_eq_Some_conv Let_def split: if_splits)
    then show ?thesis using assms(3) tm by auto
  qed
  then show ?thesis using assms(2) ok1(1) publish_ok core_ok core_small(7) by metis
qed

lemma wrapper_subscribe_ok:
  assumes "wrapper_mqtt_subscribe pf f qos h c = Some (rc, c')" "client_ok c"
  shows "client_ok c'"
proof -
  obtain i c1 where g: "iotx_mc_get_next_packetid c = (i, c1)" by fastforce
  note ok1 = next_packetid_ok(1) [OF g assms(2)]
  have "c' = c \<or> c' = c1 \<or> (\<exists>f rc2 c2. MQTTSubscribe pf f qos i h c1 = Some (rc2, c2) \<and> (c' = closed_if rc2 c2 \<or> c' = c2))"
    using assms(1) by (fastforce simp: wrapper_mqtt_subscribe_def g bind_eq_Some_conv Let_def split: option.splits if_splits)
  then show ?thesis using assms(2) ok1 subscribe_ok core_ok core_small(7) by metis
qed

lemma wrapper_unsubscribe_ok:
  assumes "wrapper_mqtt_unsubscribe pf f c = Some (rc, c')" "client_ok c"
  shows "client_ok c'"
proof -
  obtain i c1 where g: "iotx_mc_get_next_packetid c = (i, c1)" by fastforce
  note ok1 = next_packetid_ok(1) [OF g assms(2)]
  have "c' = c \<or> c' = c1 \<or> (\<exists>f rc2 c2. MQTTUnsubscribe pf f i c1 = Some (rc2, c2) \<and> (c' = closed_if rc2 c2 \<or> c' = c2))"
    using assms(1) by (fastforce simp: wrapper_mqtt_unsubscribe_def g bind_eq_Some_conv Let_def split: option.splits if_splits)
  then show ?thesis using assms(2) ok1 unsubscribe_ok core_ok core_small(7) by metis
qed

lemma call_ok:
  assumes "mqtt_do pf k c = Some (rc, c')" "call_typed k" "client_ok c"
  shows "client_ok c'"
proof (cases k)
  case Connect
  then show ?thesis using assms wrapper_connect_core core_ok by (metis mqtt_do.simps(1))
next
  case (Publish t msg)
  then show ?thesis using assms wrapper_publish_ok by simp
next
  case (Subscribe f qos h)
  then show ?thesis using assms wrapper_subscribe_ok by simp
next
  case (Unsubscribe f)
  then show ?thesis using assms wrapper_unsubscribe_ok by simp
next
  case (Yield t)
  then show ?thesis using assms yield_ok by simp
next
  case Disconnect
  then show ?thesis using assms disconnect_core core_ok by (metis mqtt_do.simps(6))
qed

lemma reaches_ok: "mqtt_reaches pf c c' \<Longrightarrow> client_ok c \<Longrightarrow> client_ok c'"
  by (induction rule: mqtt_reaches.induct) (auto dest: call_ok)

end
