(* ===== verification/Mqtt_Demo.thy ===== *)
theory Mqtt_Demo
  imports Mqtt_Tcp Mqtt_Inv
begin

text \<open>A concrete client above the socket of lists, for the examples.\<close>

definition demo_connect :: MQTTPacket_connectData where
  "demo_connect = \<lparr>MQTTVersion = 4, clientID = cstring_of (str ''dev''), keepAliveInterval = 60, cleansession = 1,
     willFlag = 0, will = \<lparr>will_topicName = MQTTString_initializer, will_message = MQTTString_initializer,
       will_retained = 0, will_qos = 0\<rparr>,
     username = cstring_of (str ''user''), password = cstring_of (str ''secret'')\<rparr>"

definition demo_handles :: "topic_handle list" where
  "demo_handles = [\<lparr>th_filter = str ''room/+'', th_handle = \<lparr>h_fp = Some 1, pcontext = 5\<rparr>\<rparr>,
     \<lparr>th_filter = str ''hall/lamp'', th_handle = \<lparr>h_fp = Some 2, pcontext = 6\<rparr>\<rparr>,
     \<lparr>th_filter = str ''room/#'', th_handle = \<lparr>h_fp = Some 3, pcontext = 7\<rparr>\<rparr>]"

definition demo_client :: "byte list \<Rightarrow> list_sock mc" where
  "demo_client bytes = \<lparr>mc_packet_id = 41, mc_request_timeout = 2000, mc_cycle_timeout = 10,
     mc_buf_send = None, mc_buf_size_send = 0, mc_buf_size_send_max = 512,
     mc_buf_read = None, mc_buf_size_read = 0, mc_buf_size_read_max = 64,
     mc_keepalive_probes = 0, mc_list_sub_handle = demo_handles, mc_next_ping_time = 60000,
     mc_client_state = IOTX_MC_STATE_CONNECTED, mc_reconnect_next_time = 0, mc_reconnect_interval_ms = 1000,
     mc_connect_data = demo_connect, mc_list_pub_wait_ack = [], mc_list_sub_sync_ack = [],
     mc_handle_event = \<lparr>h_fp = Some 9, pcontext = 0\<rparr>,
     mc_net = \<lparr>ls_in = bytes, ls_out = [], ls_now = 100\<rparr>, mc_calls = []\<rparr>"

definition demo_msg :: pub_msg where
  "demo_msg = \<lparr>pm_packet_id = 0, pm_qos = 1, pm_retain = 0, pm_payload = Some (str ''on''), pm_payload_len = 2\<rparr>"

lemma demo_duplex: "duplex list_platform ls_in ls_out ls_now"
  unfolding list_platform_def by (rule listed.duplex_axioms)

lemma demo_stream: "byte_stream list_platform ls_in"
  using demo_duplex by (rule duplex.axioms(1))

lemma demo_rest [simp]: "at_rest (demo_client bytes)" "send_rest (demo_client bytes)"
  by (simp_all add: at_rest_def send_rest_def demo_client_def)

lemma demo_numbered: "numbered demo_msg (demo_client bytes) = demo_msg\<lparr>pm_packet_id := 42\<rparr>"
  by (simp add: numbered_def demo_msg_def demo_client_def iotx_mc_get_next_packetid_def IOTX_MC_PACKET_ID_MAX_def)

lemma demo_packet: "publish_packet (str ''room/1'') (demo_msg\<lparr>pm_packet_id := 42\<rparr>)
    = [0x32, 12, 0, 6, 114, 111, 111, 109, 47, 49, 0, 42, 111, 110]"
  by code_simp

lemma demo_check: "iotx_mc_check_topic (Some (str ''room/1'')) TOPIC_NAME_TYPE = 0"
  by code_simp

lemma demo_may_send: "may_send (str ''room/1'') demo_msg (demo_client bytes)"
  unfolding may_send_def demo_numbered demo_check msg_ok_def demo_packet
  by (simp add: demo_client_def send_rest_def) (simp add: demo_msg_def str_def)

lemma demo_may_hear: "may_hear (str ''room/1'') 14 (demo_client bytes)"
  by (simp add: may_hear_def) (simp add: demo_client_def str_def identify_topic_def)

lemma demo_hears: "may_hear (str ''room/1'') (length (publish_packet (str ''room/1'') (numbered demo_msg (demo_client b)))) (demo_client bytes)"
proof -
  have "length (publish_packet (str ''room/1'') (demo_msg\<lparr>pm_packet_id := 42\<rparr>)) = 14" unfolding demo_packet by simp
  then show ?thesis unfolding demo_numbered using demo_may_hear by simp
qed

text \<open>A client with two waiting publications that has read a PUBACK for the first.\<close>

definition demo_waiting :: "list_sock mc" where
  "demo_waiting = (demo_client [])\<lparr>mc_buf_read := Some (packet 0x40 (be16 42)), mc_list_pub_wait_ack :=
      [\<lparr>pub_start_time = 1, pub_node_state = IOTX_MC_NODE_STATE_NORMANL, pub_msg_id = 42, pub_buf = [1]\<rparr>,
       \<lparr>pub_start_time = 2, pub_node_state = IOTX_MC_NODE_STATE_NORMANL, pub_msg_id = 43, pub_buf = [2]\<rparr>]\<rparr>"

end
