(* ===== verification/Sym_Value.thy ===== *)
theory Sym_Value
  imports Sym Lexer "HOL-Library.Signed_Division"
begin

text \<open>
  engine/lite_engine/core/be_symbol.c, continued: the values behind names, arrays,
  conversions, appending, comparing and copying, and the operators of the engine. A
  symbol pointer is its node number with 0 for a null pointer; None is a failed
  assertion, an undefined operation or a loop that does not end.
\<close>

section \<open>Floating point\<close>

text \<open>
  Doubles are eight bytes of data; the operations of the C library and of the processor
  on them are parameters.
\<close>

record flops =
  fl_of_int :: "int \<Rightarrow> byte list"
  fl_to_int :: "byte list \<Rightarrow> int"
  fl_arith :: "byte \<Rightarrow> byte list \<Rightarrow> byte list \<Rightarrow> byte list"
  fl_less :: "byte list \<Rightarrow> byte list \<Rightarrow> bool"
  fl_le :: "byte list \<Rightarrow> byte list \<Rightarrow> bool"
  fl_near :: "byte list \<Rightarrow> byte list \<Rightarrow> bool"
  fl_far :: "byte list \<Rightarrow> byte list \<Rightarrow> bool"
  fl_print :: "byte list \<Rightarrow> byte list"
  fl_parse :: "byte list \<Rightarrow> byte list"

text \<open>The tests on pointers are false for the null pointer.\<close>

definition node_is :: "(sym \<Rightarrow> bool) \<Rightarrow> sympool \<Rightarrow> nat \<Rightarrow> bool" where
  "node_is P p i \<longleftrightarrow> i \<noteq> 0 \<and> P (tab p i)"

definition symbol_is_native :: "sym \<Rightarrow> bool" where
  "symbol_is_native s \<longleftrightarrow> s_flags s AND 32 \<noteq> 0"

definition symbol_is_basic :: "sym \<Rightarrow> bool" where
  "symbol_is_basic s \<longleftrightarrow> symbol_is_number s \<or> symbol_is_string s"

definition max_chars :: "nat \<Rightarrow> sympool \<Rightarrow> nat option" where
  "max_chars i p = (if i = 0 then None else symbol_get_max_char_len (tab p i))"

definition new_float_symbol :: "byte list \<Rightarrow> sympool \<Rightarrow> (nat \<times> sympool) option" where
  "new_float_symbol d p = do {
     (i, p1) \<leftarrow> new_symbol_node p;
     Some (i, upd i (\<lambda>s. s\<lparr>s_flags := BE_SYM_FLOAT, s_data := d\<rparr>) p1)
   }"

section \<open>Values behind names\<close>

partial_function (option) value_loop :: "nat \<Rightarrow> nat \<Rightarrow> sympool \<Rightarrow> (nat \<times> sympool) option" where
  "value_loop a pa p =
     (if symbol_is_name (tab p pa) then do {
        let n = s_first (tab p pa);
        p1 \<leftarrow> (if pa \<noteq> a then symbol_unlock pa p else Some p);
        if n = 0 then Some (0, p1)
        else do { p2 \<leftarrow> symbol_lock n p1; value_loop a n p2 }
      }
      else if pa = a then map_option (Pair pa) (symbol_relock pa p)
      else Some (pa, p))"

definition get_symbol_value :: "nat \<Rightarrow> sympool \<Rightarrow> (nat \<times> sympool) option" where
  "get_symbol_value a p = (if a = 0 then Some (0, p) else value_loop a a p)"

definition unlock_symbol_value :: "nat \<Rightarrow> sympool \<Rightarrow> (nat \<times> sympool) option" where
  "unlock_symbol_value a p = do {
     (b, p1) \<leftarrow> get_symbol_value a p;
     map_option (Pair b) (symbol_unlock a p1)
   }"

definition get_root_node :: "sympool \<Rightarrow> (nat \<times> sympool) option" where
  "get_root_node p =
     (case find (\<lambda>i. s_flags (tab p i) = BE_SYM_ROOT) [1..<sym_size p] of
        Some i \<Rightarrow> map_option (Pair i) (symbol_lock i p)
      | None \<Rightarrow> do { (i, p1) \<leftarrow> new_symbol BE_SYM_ROOT p; map_option (Pair i) (INC_SYMBL_REF i p1) })"

section \<open>Arrays\<close>

partial_function (option) array_length_loop :: "nat \<Rightarrow> int \<Rightarrow> sympool \<Rightarrow> (int \<times> sympool) option" where
  "array_length_loop c longest p =
     (if c = 0 then Some (longest, p)
      else do {
        p1 \<leftarrow> symbol_lock c p;
        if \<not> symbol_is_int (tab p1 c) then None
        else do {
          let i = s64 (sym_int (tab p1 c) + 1);
          let next = s_next (tab p1 c);
          p2 \<leftarrow> symbol_unlock c p1;
          array_length_loop next (if longest < i then i else longest) p2
        }
      })"

definition get_symbol_array_length :: "nat \<Rightarrow> sympool \<Rightarrow> (int \<times> sympool) option" where
  "get_symbol_array_length v p = array_length_loop (s_first (tab p v)) 0 p"

partial_function (option) array_item_loop :: "nat \<Rightarrow> int \<Rightarrow> sympool \<Rightarrow> (nat \<times> sympool) option" where
  "array_item_loop c k p =
     (if c = 0 then Some (0, p)
      else do {
        p1 \<leftarrow> symbol_lock c p;
        if \<not> symbol_is_int (tab p1 c) then None
        else if sym_int (tab p1 c) = k then do {
          let item = s_first (tab p1 c);
          p2 \<leftarrow> symbol_lock item p1;
          map_option (Pair item) (symbol_unlock c p2)
        }
        else do {
          let next = s_next (tab p1 c);
          p2 \<leftarrow> symbol_unlock c p1;
          array_item_loop next k p2
        }
      })"

definition get_symbol_array_item :: "nat \<Rightarrow> int \<Rightarrow> sympool \<Rightarrow> (nat \<times> sympool) option" where
  "get_symbol_array_item arr k p = array_item_loop (s_first (tab p arr)) k p"

definition num_data :: "flops \<Rightarrow> sym \<Rightarrow> byte list" where
  "num_data F s = (if symbol_is_int s then fl_of_int F (sym_int s) else s_data s)"

definition type_equal :: "flops \<Rightarrow> nat \<Rightarrow> nat \<Rightarrow> sympool \<Rightarrow> (bool \<times> sympool) option" where
  "type_equal F = symbol_type_equal (\<lambda>s t. fl_near F (num_data F s) (num_data F t))"

partial_function (option) array_index_loop ::
  "flops \<Rightarrow> nat \<Rightarrow> nat \<Rightarrow> sympool \<Rightarrow> (nat \<times> sympool) option" where
  "array_index_loop F c value p =
     (if c = 0 then Some (0, p)
      else do {
        p1 \<leftarrow> symbol_lock c p;
        if \<not> symbol_is_name (tab p1 c) then None
        else do {
          let v = s_first (tab p1 c);
          p2 \<leftarrow> symbol_lock v p1;
          (eq, p3) \<leftarrow> type_equal F v value p2;
          p4 \<leftarrow> symbol_unlock v p3;
          if eq then Some (c, p4)
          else do {
            let next = s_next (tab p4 c);
            p5 \<leftarrow> symbol_unlock c p4;
            array_index_loop F next value p5
          }
        }
      })"

definition get_symbol_array_index :: "flops \<Rightarrow> nat \<Rightarrow> nat \<Rightarrow> sympool \<Rightarrow> (nat \<times> sympool) option" where
  "get_symbol_array_index F arr value p =
     (if \<not> (node_is symbol_is_array p arr \<or> node_is symbol_is_object p arr) then None
      else array_index_loop F (s_first (tab p arr)) value p)"

definition symbol_array_push :: "nat \<Rightarrow> nat \<Rightarrow> sympool \<Rightarrow> (int \<times> sympool) option" where
  "symbol_array_push arr value p =
     (if \<not> node_is symbol_is_array p arr then None
      else do {
        (k, p1) \<leftarrow> get_symbol_array_length arr p;
        (i, p2) \<leftarrow> new_int_symbol k p1;
        (idx, p3) \<leftarrow> new_named_symbol i value p2;
        p4 \<leftarrow> add_symbol_node arr idx p3;
        map_option (Pair (s64 (k + 1))) (symbol_unlock idx p4)
      })"

definition symbol_array_pop :: "nat \<Rightarrow> sympool \<Rightarrow> (nat \<times> sympool) option" where
  "symbol_array_pop arr p =
     (if \<not> node_is symbol_is_array p arr then None
      else if s_last (tab p arr) = 0 then Some (0, p)
      else do {
        let c = s_last (tab p arr);
        p1 \<leftarrow> symbol_lock c p;
        let p2 = (if s_first (tab p1 arr) = s_last (tab p1 arr)
                  then upd arr (\<lambda>s. s\<lparr>s_first := 0\<rparr>) p1 else p1);
        let p3 = upd arr (\<lambda>s. s\<lparr>s_last := s_prev (tab p2 c)\<rparr>) p2;
        p4 \<leftarrow> DEC_SYMBL_REF c p3;
        p5 \<leftarrow> (if s_prev (tab p4 c) \<noteq> 0 then do {
             let v = s_prev (tab p4 c);
             q \<leftarrow> symbol_lock v p4;
             symbol_unlock v (upd v (\<lambda>s. s\<lparr>s_next := 0\<rparr>) q)
           } else Some p4);
        Some (c, upd c (\<lambda>s. s\<lparr>s_prev := 0\<rparr>) p5)
      })"

section \<open>Conversions\<close>

definition get_symbol_int :: "flops \<Rightarrow> nat \<Rightarrow> sympool \<Rightarrow> (int \<times> sympool) option" where
  "get_symbol_int F v p =
     (let s = tab p v
      in if v = 0 then Some (0, p)
         else if symbol_is_int s then Some (sym_int s, p)
         else if symbol_is_null s then Some (0, p)
         else if symbol_is_float s then Some (fl_to_int F (s_data s), p)
         else do {
           (n, p1) \<leftarrow> (if symbol_is_string s then symbol_str_len v p else Some (0, p));
           if n \<noteq> 0 then Some (1, p1)
           else if symbol_is_object s \<and> s_first s \<noteq> 0 then Some (1, p1)
           else do {
             (k, p2) \<leftarrow> (if symbol_is_array s then get_symbol_array_length v p1 else Some (0, p1));
             Some (if k \<noteq> 0 \<or> symbol_is_function s then 1 else 0, p2)
           }
         })"

definition get_symbol_bool :: "flops \<Rightarrow> nat \<Rightarrow> sympool \<Rightarrow> (bool \<times> sympool) option" where
  "get_symbol_bool F v p = do { (k, p1) \<leftarrow> get_symbol_int F v p; Some (k \<noteq> 0, p1) }"

definition get_symbol_double :: "flops \<Rightarrow> nat \<Rightarrow> sympool \<Rightarrow> byte list" where
  "get_symbol_double F v p =
     (if node_is symbol_is_float p v then s_data (tab p v)
      else if node_is symbol_is_int p v then fl_of_int F (sym_int (tab p v))
      else fl_of_int F 0)"

definition get_symbol_value_int :: "flops \<Rightarrow> nat \<Rightarrow> sympool \<Rightarrow> (int \<times> sympool) option" where
  "get_symbol_value_int F v p = do {
     (a, p1) \<leftarrow> get_symbol_value v p;
     (k, p2) \<leftarrow> get_symbol_int F a p1;
     map_option (Pair k) (symbol_unlock a p2)
   }"

definition get_symbol_value_bool :: "flops \<Rightarrow> nat \<Rightarrow> sympool \<Rightarrow> (bool \<times> sympool) option" where
  "get_symbol_value_bool F v p = do { (k, p1) \<leftarrow> get_symbol_value_int F v p; Some (k \<noteq> 0, p1) }"

definition get_bool_symbol_and_unlock :: "flops \<Rightarrow> nat \<Rightarrow> sympool \<Rightarrow> (bool \<times> sympool) option" where
  "get_bool_symbol_and_unlock F v p = do {
     (b, p1) \<leftarrow> get_symbol_bool F v p;
     map_option (Pair b) (symbol_unlock v p1)
   }"

text \<open>The buffer has 256 bytes, of which 255 are offered.\<close>

definition str_to_symbol :: "flops \<Rightarrow> nat \<Rightarrow> bool \<Rightarrow> sympool \<Rightarrow> (nat \<times> sympool) option" where
  "str_to_symbol F s unlock p =
     (if node_is symbol_is_string p s \<or> node_is symbol_is_name p s then
        (if unlock then Some (s, p) else map_option (Pair s) (symbol_relock s p))
      else do {
        (buf, p1) \<leftarrow> symbol_to_str (fl_print F) s 255 p;
        p2 \<leftarrow> (if unlock then symbol_unlock s p1 else Some p1);
        new_str_symbol buf p2
      })"

section \<open>Appending and comparing strings\<close>

partial_function (option) last_block :: "nat \<Rightarrow> sympool \<Rightarrow> (nat \<times> sympool) option" where
  "last_block b p =
     (let n = s_last (tab p b)
      in if n = 0 then Some (b, p)
         else do { p1 \<leftarrow> symbol_unlock b p; p2 \<leftarrow> symbol_lock n p1; last_block n p2 })"

definition block_chars :: "nat \<Rightarrow> sympool \<Rightarrow> nat option" where
  "block_chars b p = map_option (\<lambda>n. length (takeWhile (\<lambda>c. c \<noteq> 0) (take n (sym_bytes (tab p b))))) (max_chars b p)"

definition add_ext :: "nat \<Rightarrow> sympool \<Rightarrow> (nat \<times> sympool) option" where
  "add_ext b p = do {
     (j, p1) \<leftarrow> new_symbol_node p;
     p2 \<leftarrow> INC_SYMBL_REF j p1;
     p3 \<leftarrow> symbol_unlock b (upd b (\<lambda>s. s\<lparr>s_last := j\<rparr>) (upd j (\<lambda>s. s\<lparr>s_flags := BE_SYM_STRING_EXT\<rparr>) p2));
     Some (j, p3)
   }"

partial_function (option) append_loop :: "byte list \<Rightarrow> nat \<Rightarrow> nat \<Rightarrow> sympool \<Rightarrow> sympool option" where
  "append_loop cs k b p =
     (if cs = [] then symbol_unlock b p
      else do {
        n \<leftarrow> max_chars b p;
        let p1 = upd b (\<lambda>s. set_sym_bytes (take k (sym_bytes s) @ take (n - k) (cs @ replicate n 0)) s) p;
        if drop (n - k) cs = [] then symbol_unlock b p1
        else do { (j, p2) \<leftarrow> add_ext b p1; append_loop (drop (n - k) cs) 0 j p2 }
      })"

definition symbol_str_append :: "nat \<Rightarrow> byte list \<Rightarrow> sympool \<Rightarrow> sympool option" where
  "symbol_str_append s cs p =
     (if \<not> node_is symbol_is_string p s then None
      else do {
        p1 \<leftarrow> symbol_relock s p;
        (b, p2) \<leftarrow> last_block s p1;
        k \<leftarrow> block_chars b p2;
        append_loop cs k b p2
      })"

text \<open>
  A cursor in a string: block and index. Moving it beyond the last block leaves it at
  the null pointer, whose capacity \<open>symbol_str_value_append\<close> asks for again.
\<close>

definition next_block :: "nat \<Rightarrow> sympool \<Rightarrow> (nat \<times> sympool) option" where
  "next_block b p =
     (let n = s_last (tab p b)
      in do { p1 \<leftarrow> symbol_unlock b p;
              if n = 0 then Some (0, p1) else map_option (Pair n) (symbol_lock n p1) })"

partial_function (option) skip_append :: "nat \<Rightarrow> int \<Rightarrow> sympool \<Rightarrow> (nat \<times> int \<times> sympool) option" where
  "skip_append b idx p = do {
     n \<leftarrow> max_chars b p;
     if idx < int n then Some (b, idx, p)
     else do { (b', p1) \<leftarrow> next_block b p; skip_append b' (idx - int n) p1 }
   }"

text \<open>
  The loop over the characters: \<open>b\<close> is the block to fill at index \<open>i\<close>, \<open>src\<close> and \<open>idx\<close> the
  cursor that reads, \<open>left\<close> the limit. The character that exhausts the limit is written.
\<close>

partial_function (option) copy_loop ::
  "nat \<Rightarrow> nat \<Rightarrow> nat \<Rightarrow> int \<Rightarrow> int \<Rightarrow> sympool \<Rightarrow> sympool option" where
  "copy_loop b i src idx left p = do {
     n \<leftarrow> max_chars b p;
     if i < n then
       (if src = 0 then copy_loop b (i + 1) 0 idx left (upd b (\<lambda>s. set_sym_bytes ((sym_bytes s)[i := 0]) s) p)
        else do {
          let c = src_at (sym_bytes (tab p src)) idx;
          m \<leftarrow> max_chars src p;
          (src', idx', left', p1) \<leftarrow>
            (if c \<noteq> 0 \<and> 1 < left then
               (if int m \<le> idx + 1 then do { (src', q) \<leftarrow> next_block src p; Some (src', 0, left - 1, q) }
                else Some (src, idx + 1, left - 1, p))
             else do {
               q \<leftarrow> symbol_unlock src p;
               Some (0, idx, if c \<noteq> 0 then left - 1 else left, q)
             });
          copy_loop b (i + 1) src' idx' left' (upd b (\<lambda>s. set_sym_bytes ((sym_bytes s)[i := c]) s) p1)
        })
     else if src = 0 then symbol_unlock b p
     else do { (j, p1) \<leftarrow> add_ext b p; copy_loop j 0 src idx left p1 }
   }"

definition symbol_str_value_append :: "nat \<Rightarrow> nat \<Rightarrow> int \<Rightarrow> int \<Rightarrow> sympool \<Rightarrow> sympool option" where
  "symbol_str_value_append s src idx left p =
     (if \<not> (node_is symbol_is_string p src \<or> node_is symbol_is_name p src) \<or> s = 0 then None
      else do {
        p1 \<leftarrow> symbol_relock src p;
        p2 \<leftarrow> symbol_relock s p1;
        if \<not> symbol_is_string (tab p2 s) then None
        else do {
          (b, p3) \<leftarrow> last_block s p2;
          k \<leftarrow> block_chars b p3;
          (idx1, p4) \<leftarrow> (if idx < 0 then do { (n, q) \<leftarrow> symbol_str_len src p3; Some (idx + int n, q) }
                         else Some (idx, p3));
          (src', idx2, p5) \<leftarrow> skip_append src idx1 p4;
          copy_loop b k src' idx2 left p5
        }
      })"

partial_function (option) skip_cmp :: "nat \<Rightarrow> int \<Rightarrow> sympool \<Rightarrow> (nat \<times> int \<times> sympool) option" where
  "skip_cmp b idx p =
     (if b = 0 then Some (0, idx, p)
      else do {
        n \<leftarrow> max_chars b p;
        if idx < int n then Some (b, idx, p)
        else do { (b', p1) \<leftarrow> next_block b p; skip_cmp b' (idx - int n) p1 }
      })"

definition char_at :: "nat \<Rightarrow> int \<Rightarrow> sympool \<Rightarrow> int" where
  "char_at b idx p = (if b = 0 then 0 else sint (src_at (sym_bytes (tab p b)) idx))"

partial_function (option) str_cmp_loop ::
  "nat \<Rightarrow> nat \<Rightarrow> int \<Rightarrow> int \<Rightarrow> bool \<Rightarrow> sympool \<Rightarrow> (int \<times> sympool) option" where
  "str_cmp_loop va vb ia ib e p = do {
     (va, ia, p1) \<leftarrow> skip_cmp va ia p;
     (vb, ib, p2) \<leftarrow> skip_cmp vb ib p1;
     let ca = char_at va ia p2;
     let cb = char_at vb ib p2;
     if ca \<noteq> cb \<or> ca = 0 then do {
       p3 \<leftarrow> symbol_unlock va p2;
       p4 \<leftarrow> symbol_unlock vb p3;
       Some (if ca \<noteq> cb \<and> \<not> ((ca = 0 \<or> cb = 0) \<and> e) then ca - cb else 0, p4)
     }
     else str_cmp_loop va vb (ia + 1) (ib + 1) e p2
   }"

definition symbol_str_cmp :: "nat \<Rightarrow> nat \<Rightarrow> int \<Rightarrow> int \<Rightarrow> bool \<Rightarrow> sympool \<Rightarrow> (int \<times> sympool) option" where
  "symbol_str_cmp va vb ia ib e p =
     (if \<not> (node_is symbol_is_string p va \<or> node_is symbol_is_name p va)
         \<or> \<not> (node_is symbol_is_string p vb \<or> node_is symbol_is_name p vb) then None
      else do {
        p1 \<leftarrow> symbol_relock va p;
        p2 \<leftarrow> symbol_relock vb p1;
        str_cmp_loop va vb ia ib e p2
      })"

section \<open>Copies\<close>

text \<open>
  \<open>symbol_cp\<close>, \<open>symbol_name_cp\<close> and the loop of the former over the children call each
  other. Only strings and extensions copy the blocks that follow.
\<close>

datatype copy = Cp nat | Name_Cp nat bool bool | Cp_Kids nat nat

definition fresh_copy :: "sym \<Rightarrow> sym \<Rightarrow> sym" where
  "fresh_copy src d =
     (if symbol_is_string_ext src
      then d\<lparr>s_data := s_data src, s_next := s_next src, s_prev := s_prev src, s_first := s_first src, s_last := 0\<rparr>
      else d\<lparr>s_data := s_data src, s_last := 0, s_first := 0, s_prev := 0, s_next := 0\<rparr>)"

partial_function (option) copy_symbol :: "copy \<Rightarrow> sympool \<Rightarrow> (nat \<times> sympool) option" where
  "copy_symbol j p = (case j of
     Cp src \<Rightarrow> do {
       (d, p1) \<leftarrow> new_symbol (s_flags (tab p src)) p;
       let p2 = upd d (fresh_copy (tab p1 src)) p1;
       p3 \<leftarrow> (if symbol_is_name (tab p2 src) \<and> s_first (tab p2 src) \<noteq> 0 then do {
            let c = s_first (tab p2 src);
            q \<leftarrow> symbol_lock c p2;
            (k, q1) \<leftarrow> copy_symbol (Cp c) q;
            q2 \<leftarrow> INC_SYMBL_REF k q1;
            q3 \<leftarrow> symbol_unlock k q2;
            symbol_unlock c (upd d (\<lambda>s. s\<lparr>s_first := k\<rparr>) q3)
          } else Some p2);
       if symbol_is_string (tab p3 src) \<or> symbol_is_string_ext (tab p3 src) then
         (if s_last (tab p3 src) = 0 then Some (d, p3)
          else do {
            let c = s_last (tab p3 src);
            q \<leftarrow> symbol_lock c p3;
            (k, q1) \<leftarrow> copy_symbol (Cp c) q;
            q2 \<leftarrow> INC_SYMBL_REF k q1;
            q3 \<leftarrow> symbol_unlock k q2;
            map_option (Pair d) (symbol_unlock c (upd d (\<lambda>s. s\<lparr>s_last := k\<rparr>) q3))
          })
       else if symbol_is_object (tab p3 src) \<or> symbol_is_function (tab p3 src) then
         copy_symbol (Cp_Kids d (s_first (tab p3 src))) p3
       else if symbol_is_basic (tab p3 src) then Some (d, p3) else None
     }
   | Cp_Kids d c \<Rightarrow>
       if c = 0 then Some (d, p)
       else do {
         p1 \<leftarrow> symbol_lock c p;
         (k, p2) \<leftarrow> copy_symbol (Name_Cp c True True) p1;
         p3 \<leftarrow> add_symbol_node d k p2;
         p4 \<leftarrow> symbol_unlock k p3;
         let next = s_next (tab p4 c);
         p5 \<leftarrow> symbol_unlock c p4;
         copy_symbol (Cp_Kids d next) p5
       }
   | Name_Cp src link keep \<Rightarrow> do {
       let f = s_flags (tab p src);
       (d, p1) \<leftarrow> new_symbol (if keep then f else f AND NOT BE_SYM_NAME) p;
       let p2 = upd d (\<lambda>s. s\<lparr>s_data := s_data (tab p1 src), s_last := 0, s_first := 0, s_prev := 0, s_next := 0\<rparr>) p1;
       p3 \<leftarrow> (if link \<and> s_first (tab p2 src) \<noteq> 0 then do {
            let v = s_first (tab p2 src);
            q \<leftarrow> INC_SYMBL_REF_BY_ID v p2;
            Some (upd d (\<lambda>s. s\<lparr>s_first := v\<rparr>) q)
          } else Some p2);
       if symbol_is_string (tab p3 src) then
         (if s_last (tab p3 src) = 0 then Some (d, p3)
          else do {
            let c = s_last (tab p3 src);
            q \<leftarrow> symbol_lock c p3;
            (k, q1) \<leftarrow> copy_symbol (Cp c) q;
            q2 \<leftarrow> INC_SYMBL_REF k q1;
            q3 \<leftarrow> symbol_unlock k q2;
            map_option (Pair d) (symbol_unlock c (upd d (\<lambda>s. s\<lparr>s_last := k\<rparr>) q3))
          })
       else if symbol_is_basic (tab p3 src) then Some (d, p3) else None
     })"

definition symbol_cp :: "nat \<Rightarrow> sympool \<Rightarrow> (nat \<times> sympool) option" where
  "symbol_cp src = copy_symbol (Cp src)"

definition symbol_name_cp :: "nat \<Rightarrow> bool \<Rightarrow> bool \<Rightarrow> sympool \<Rightarrow> (nat \<times> sympool) option" where
  "symbol_name_cp src link keep = copy_symbol (Name_Cp src link keep)"

section \<open>Children by value\<close>

partial_function (option) child_loop :: "flops \<Rightarrow> nat \<Rightarrow> nat \<Rightarrow> sympool \<Rightarrow> (nat \<times> sympool) option" where
  "child_loop F c name p =
     (if c = 0 then Some (0, p)
      else do {
        p1 \<leftarrow> symbol_lock c p;
        (eq, p2) \<leftarrow> type_equal F c name p1;
        if eq then Some (c, p2)
        else do {
          let next = s_next (tab p2 c);
          p3 \<leftarrow> symbol_unlock c p2;
          child_loop F next name p3
        }
      })"

definition lookup_child_symbol :: "flops \<Rightarrow> nat \<Rightarrow> nat \<Rightarrow> bool \<Rightarrow> sympool \<Rightarrow> (nat \<times> sympool) option" where
  "lookup_child_symbol F parent name add p = do {
     p1 \<leftarrow> symbol_lock parent p;
     (c, p2) \<leftarrow> child_loop F (s_first (tab p1 parent)) name p1;
     if c \<noteq> 0 then map_option (Pair c) (symbol_unlock parent p2)
     else do {
       (k, p3) \<leftarrow>
         (if \<not> add \<or> name = 0 then Some (0, p2)
          else if s_refs (tab p2 name) = 0 then do {
            (k, q) \<leftarrow> (if symbol_is_name (tab p2 name) then Some (name, p2) else new_named_symbol name 0 p2);
            q1 \<leftarrow> add_symbol_node parent k q;
            map_option (Pair k) (symbol_relock k q1)
          }
          else do {
            (j, q) \<leftarrow> symbol_cp name p2;
            (k, q1) \<leftarrow> new_named_symbol j 0 q;
            map_option (Pair k) (add_symbol_node parent k q1)
          });
       map_option (Pair k) (symbol_unlock parent p3)
     }
   }"

section \<open>Operators\<close>

text \<open>
  Integers are longs. Sums, differences, products and left shifts wrap, as compiled code does; the
  quotient of the least long by -1 and shifts by a count outside 0 to 63, which are
  undefined, are None. \<open>Unsupported\<close> stands for \<open>symbol_maths_op_error\<close>, which reports and
  returns the null pointer.
\<close>

datatype int_result = Int_value int | Bool_value bool | Unsupported

definition int_op :: "tok \<Rightarrow> int \<Rightarrow> int \<Rightarrow> int_result option" where
  "int_op op a b =
     (if op = TK 43 then Some (Int_value (s64 (a + b)))
      else if op = TK 45 then Some (Int_value (s64 (a - b)))
      else if op = TK 42 then Some (Int_value (s64 (a * b)))
      else if op = TK 47 then
        (if b = 0 then Some (Int_value 0) else if a = - 9223372036854775808 \<and> b = -1 then None else Some (Int_value (a sdiv b)))
      else if op = TK 38 then Some (Int_value (a AND b))
      else if op = TK 124 then Some (Int_value (a OR b))
      else if op = TK 94 then Some (Int_value (a XOR b))
      else if op = TK 37 then
        (if b = 0 then Some (Int_value 0) else if a = - 9223372036854775808 \<and> b = -1 then None else Some (Int_value (a smod b)))
      else if op = BE_TOKEN_OP_LEFT_SHIFT then (if 0 \<le> b \<and> b < 64 then Some (Int_value (s64 (a * 2 ^ nat b))) else None)
      else if op = BE_TOKEN_OP_RIGHT_SHIFT then (if 0 \<le> b \<and> b < 64 then Some (Int_value (a div 2 ^ nat b)) else None)
      else if op = BE_TOKEN_OP_RIGHT_SHIFT_UNSIGN then
        (if 0 \<le> b \<and> b < 64 then Some (Int_value (s64 (a mod 18446744073709551616 div 2 ^ nat b))) else None)
      else if op = BE_TOKEN_OP_EQUAL then Some (Bool_value (a = b))
      else if op = BE_TOKEN_OP_NEQUAL then Some (Bool_value (a \<noteq> b))
      else if op = TK 60 then Some (Bool_value (a < b))
      else if op = BE_TOKEN_OP_LESS_EQUAL then Some (Bool_value (a \<le> b))
      else if op = TK 62 then Some (Bool_value (b < a))
      else if op = BE_TOKEN_OP_MORE_EQUAL then Some (Bool_value (b \<le> a))
      else Some Unsupported)"

definition int_result_symbol :: "int_result \<Rightarrow> sympool \<Rightarrow> (nat \<times> sympool) option" where
  "int_result_symbol r p = (case r of Int_value k \<Rightarrow> new_int_symbol k p | Bool_value b \<Rightarrow> new_bool_symbol b p | Unsupported \<Rightarrow> Some (0, p))"

definition float_op :: "flops \<Rightarrow> tok \<Rightarrow> byte list \<Rightarrow> byte list \<Rightarrow> sympool \<Rightarrow> (nat \<times> sympool) option" where
  "float_op F op a b =
     (case op of
        TK c \<Rightarrow>
          if c = 43 \<or> c = 45 \<or> c = 42 \<or> c = 47 then new_float_symbol (fl_arith F c a b)
          else if c = 60 then new_bool_symbol (fl_less F a b)
          else if c = 62 then new_bool_symbol (fl_less F b a)
          else (\<lambda>p. Some (0, p))
      | BE_TOKEN_OP_EQUAL \<Rightarrow> new_bool_symbol (fl_near F a b)
      | BE_TOKEN_OP_NEQUAL \<Rightarrow> new_bool_symbol (fl_far F a b)
      | BE_TOKEN_OP_LESS_EQUAL \<Rightarrow> new_bool_symbol (fl_le F a b)
      | BE_TOKEN_OP_MORE_EQUAL \<Rightarrow> new_bool_symbol (fl_le F b a)
      | _ \<Rightarrow> (\<lambda>p. Some (0, p)))"

definition cmp_op :: "tok \<Rightarrow> int \<Rightarrow> sympool \<Rightarrow> (nat \<times> sympool) option" where
  "cmp_op op k =
     (case op of
        BE_TOKEN_OP_EQUAL \<Rightarrow> new_bool_symbol (k = 0)
      | BE_TOKEN_OP_NEQUAL \<Rightarrow> new_bool_symbol (k \<noteq> 0)
      | BE_TOKEN_OP_LESS_EQUAL \<Rightarrow> new_bool_symbol (k \<le> 0)
      | BE_TOKEN_OP_MORE_EQUAL \<Rightarrow> new_bool_symbol (0 \<le> k)
      | TK c \<Rightarrow>
          if c = 60 then new_bool_symbol (k < 0)
          else if c = 62 then new_bool_symbol (0 < k) else (\<lambda>p. Some (0, p))
      | _ \<Rightarrow> (\<lambda>p. Some (0, p)))"

abbreviation (input) APPEND_STR_MAX_LEN :: int where "APPEND_STR_MAX_LEN \<equiv> 2147483647"

definition string_op :: "flops \<Rightarrow> tok \<Rightarrow> nat \<Rightarrow> nat \<Rightarrow> sympool \<Rightarrow> (nat \<times> sympool) option" where
  "string_op F op a b p = do {
     (da, p1) \<leftarrow> str_to_symbol F a False p;
     (db, p2) \<leftarrow> str_to_symbol F b False p1;
     if op = TK 43 then do {
       (v, p3) \<leftarrow> symbol_cp da p2;
       p4 \<leftarrow> symbol_str_value_append v db 0 APPEND_STR_MAX_LEN p3;
       p5 \<leftarrow> symbol_unlock da p4;
       map_option (Pair v) (symbol_unlock db p5)
     }
     else do {
       (k, p3) \<leftarrow> symbol_str_cmp da db 0 0 False p2;
       p4 \<leftarrow> symbol_unlock da p3;
       p5 \<leftarrow> symbol_unlock db p4;
       cmp_op op k p5
     }
   }"

text \<open>The operators but \<open>===\<close> and \<open>!==\<close>. The second operand is not asked for null.\<close>

definition plain_op :: "flops \<Rightarrow> nat \<Rightarrow> nat \<Rightarrow> tok \<Rightarrow> sympool \<Rightarrow> (nat \<times> sympool) option" where
  "plain_op F a b op p =
     (if (a = 0 \<or> node_is symbol_is_null p a) \<and> (b = 0 \<or> node_is symbol_is_null p b) then
        (if op = BE_TOKEN_OP_EQUAL then new_bool_symbol True p
         else if op = BE_TOKEN_OP_NEQUAL then new_bool_symbol False p
         else Some (0, p))
      else if (node_is symbol_is_number p a \<or> a = 0 \<or> node_is symbol_is_null p a)
          \<and> (node_is symbol_is_number p b \<or> b = 0) then
        (if \<not> node_is symbol_is_float p a \<and> \<not> node_is symbol_is_float p b then do {
           (da, p1) \<leftarrow> get_symbol_int F a p;
           (db, p2) \<leftarrow> get_symbol_int F b p1;
           r \<leftarrow> int_op op da db;
           int_result_symbol r p2
         }
         else float_op F op (get_symbol_double F a p) (get_symbol_double F b p) p)
      else if node_is symbol_is_array p a \<or> node_is symbol_is_object p a
          \<or> node_is symbol_is_array p b \<or> node_is symbol_is_object p b then
        (if op = BE_TOKEN_OP_EQUAL then new_bool_symbol (a = b) p
         else if op = BE_TOKEN_OP_NEQUAL then new_bool_symbol (a \<noteq> b) p
         else Some (0, p))
      else string_op F op a b p)"

definition symbol_maths_op :: "flops \<Rightarrow> nat \<Rightarrow> nat \<Rightarrow> tok \<Rightarrow> sympool \<Rightarrow> (nat \<times> sympool) option" where
  "symbol_maths_op F a b op p =
     (if op = BE_TOKEN_OP_STRICT_EQUAL \<or> op = BE_TOKEN_OP_STRICT_NEQUAL then do {
        let eql = (if a \<noteq> 0 \<and> b \<noteq> 0 then sym_type (tab p a) = sym_type (tab p b) else (a = 0) = (b = 0));
        (eql', p1) \<leftarrow>
          (if eql then do {
             (c, q) \<leftarrow> plain_op F a b BE_TOKEN_OP_EQUAL p;
             (t, q1) \<leftarrow> get_symbol_bool F c q;
             map_option (Pair t) (symbol_unlock c q1)
           } else Some (False, p));
        new_bool_symbol (if op = BE_TOKEN_OP_STRICT_EQUAL then eql' else \<not> eql') p1
      }
      else plain_op F a b op p)"

definition symbol_value_maths_op :: "flops \<Rightarrow> nat \<Rightarrow> nat \<Rightarrow> tok \<Rightarrow> sympool \<Rightarrow> (nat \<times> sympool) option" where
  "symbol_value_maths_op F a b op p = do {
     (pa, p1) \<leftarrow> get_symbol_value a p;
     (pb, p2) \<leftarrow> get_symbol_value b p1;
     (res, p3) \<leftarrow> symbol_maths_op F pa pb op p2;
     p4 \<leftarrow> symbol_unlock pa p3;
     map_option (Pair res) (symbol_unlock pb p4)
   }"

end
