(* ===== verification/Exec.thy ===== *)
theory Exec
  imports Sym_Value Func_Code
begin

text \<open>
  engine/lite_engine/core/be_executor.c: the interpreter of the lite engine. It has no
  syntax tree: the functions parse and execute at once, with a flag that says whether to
  execute, and loops set the lexer back to the start of their parts. Every function and
  every loop that evaluates something is a job of one function \<open>exec\<close> with fuel; the rest
  of a function behind a loop belongs to the job of the loop. A result None is a failed
  assertion, an undefined operation or the end of the fuel.
\<close>

section \<open>The state\<close>

record jsctx =
  ctx_root :: nat
  zeroInt :: nat
  oneInt :: nat
  stringClass :: nat
  objectClass :: nat
  arrayClass :: nat
  intClass :: nat
  mathClass :: nat
  jsonClass :: nat
  processClass :: nat
  moduleClass :: nat

text \<open>\<open>vm_lex\<close> is the lexer that \<open>vm.lex\<close> points to; pointers to other lexers are kept as values.\<close>

record vm =
  vm_pool :: sympool
  vm_lex :: lexer
  vm_scopes :: "nat list"
  vm_exec :: "32 word"

abbreviation (input) EXEC_IDLE :: "32 word" where "EXEC_IDLE \<equiv> 0"
abbreviation (input) EXEC_NORMAL :: "32 word" where "EXEC_NORMAL \<equiv> 1"
abbreviation (input) EXEC_BREAK :: "32 word" where "EXEC_BREAK \<equiv> 2"
abbreviation (input) EXEC_CONTINUE :: "32 word" where "EXEC_CONTINUE \<equiv> 4"
abbreviation (input) EXEC_ERROR :: "32 word" where "EXEC_ERROR \<equiv> 16"
abbreviation (input) EXEC_RUN_MASK :: "32 word" where "EXEC_RUN_MASK \<equiv> 7"
abbreviation (input) EXEC_ERROR_MASK :: "32 word" where "EXEC_ERROR_MASK \<equiv> 24"
abbreviation (input) BE_JSE_PARSE_MAX_SCOPES :: nat where "BE_JSE_PARSE_MAX_SCOPES \<equiv> 32"
abbreviation (input) BE_JSE_PARSE_MAX_LOOPS :: int where "BE_JSE_PARSE_MAX_LOOPS \<equiv> 8192"
abbreviation (input) BE_SYM_NATIVE :: "32 word" where "BE_SYM_NATIVE \<equiv> 32"

datatype ejob =
    Base_Expr | Rel_Loop nat | Logic_Loop nat | Rel_Loop2 nat nat tok bool bool "32 word"
  | Precedent | Mul_Loop bool nat | Add_Loop nat | Mul_Loop2 nat nat tok
  | Postfix | Postfix_Loop bool nat
  | Factor | Access_Loop nat nat | Object_Loop nat | Array_Loop nat int
  | Param_Loop nat | Func_Def | Native_Path nat "byte list" "byte list" | Drop_Args nat
  | Call nat nat bool "nat list" | Arg_Loop nat nat nat nat | Extra_Loop nat nat nat | Skip_Args nat
  | Block | Block_Loop | Skip_Loop int | Block_Or_Stmt | Stmt
  | Var_Loop nat bool | Dot_Loop nat nat
  | While_Loop lexer lexer lexer bool bool int
  | For_In_Loop nat nat bool lexer lexer nat bool
  | For_Loop lexer lexer lexer lexer bool bool int
  | Case_Loop nat bool bool "32 word" | Case_Body nat bool bool "32 word" | Default_Loop "32 word"

type_synonym evaluator = "ejob \<Rightarrow> vm \<Rightarrow> (nat \<times> vm) option"

text \<open>
  The surroundings: the class of bytes outside the attribute table, floating point, the
  context of the executor, the bytes in the memory of a lexer that is not initialised,
  the built-in functions (\<open>handle_function_call\<close>: they get the evaluator for their
  arguments, the object and the name, and answer None for \<open>BE_JSE_FUNC_UNHANDLED\<close>) and
  the native callbacks.
\<close>

record jsenv =
  e_oob :: "byte \<Rightarrow> byte"
  e_fl :: flops
  e_ctx :: jsctx
  e_junk :: lexer
  e_builtin :: "evaluator \<Rightarrow> vm \<Rightarrow> nat \<Rightarrow> byte list \<Rightarrow> (nat option \<times> vm) option"
  e_native :: "byte list \<Rightarrow> nat \<Rightarrow> vm \<Rightarrow> vm option"

definition upd_pool :: "(sympool \<Rightarrow> sympool option) \<Rightarrow> vm \<Rightarrow> vm option" where
  "upd_pool f v = map_option (\<lambda>p. v\<lparr>vm_pool := p\<rparr>) (f (vm_pool v))"

definition ask_pool :: "(sympool \<Rightarrow> ('a \<times> sympool) option) \<Rightarrow> vm \<Rightarrow> ('a \<times> vm) option" where
  "ask_pool f v = map_option (\<lambda>(x, p). (x, v\<lparr>vm_pool := p\<rparr>)) (f (vm_pool v))"

definition node :: "vm \<Rightarrow> nat \<Rightarrow> sym" where
  "node v i = tab (vm_pool v) i"

definition is_kind :: "(sym \<Rightarrow> bool) \<Rightarrow> vm \<Rightarrow> nat \<Rightarrow> bool" where
  "is_kind P v i = node_is P (vm_pool v) i"

definition unlock :: "nat \<Rightarrow> vm \<Rightarrow> vm option" where
  "unlock i = upd_pool (symbol_unlock i)"

definition lock :: "nat \<Rightarrow> vm \<Rightarrow> vm option" where
  "lock i = upd_pool (symbol_lock i)"

definition be_jse_execute_error :: "vm \<Rightarrow> vm" where
  "be_jse_execute_error v = v\<lparr>vm_exec := (vm_exec v AND NOT EXEC_NORMAL) OR EXEC_ERROR\<rparr>"

definition set_vm_idle :: "vm \<Rightarrow> vm" where
  "set_vm_idle v = v\<lparr>vm_exec := vm_exec v AND NOT EXEC_RUN_MASK\<rparr>"

definition be_vm_has_error :: "vm \<Rightarrow> bool" where
  "be_vm_has_error v \<longleftrightarrow> vm_exec v AND EXEC_ERROR_MASK \<noteq> 0"

definition should_execute :: "vm \<Rightarrow> bool" where
  "should_execute v \<longleftrightarrow> vm_exec v AND EXEC_RUN_MASK = EXEC_NORMAL"

definition restore_exec :: "32 word \<Rightarrow> vm \<Rightarrow> vm" where
  "restore_exec old v = v\<lparr>vm_exec := (vm_exec v AND NOT EXEC_NORMAL) OR (old AND EXEC_NORMAL)\<rparr>"

definition tk :: "vm \<Rightarrow> tok" where
  "tk v = lx_tk (vm_lex v)"

definition token :: "vm \<Rightarrow> byte list" where
  "token v = lexer_get_token (vm_lex v)"

text \<open>
  \<open>be_amp_error_at\<close> and \<open>be_amp_warn_at\<close>: both look for the line and the column in the
  lexer and set the error flag.
\<close>

definition report_at :: "int \<Rightarrow> vm \<Rightarrow> vm option" where
  "report_at pos v = map_option (\<lambda>(line, col, l). be_jse_execute_error (v\<lparr>vm_lex := l\<rparr>))
     (lexer_dump_line_and_col (vm_lex v) pos)"

definition report_last :: "vm \<Rightarrow> vm option" where
  "report_last v = report_at (token_last_end (vm_lex v)) v"

text \<open>
  The macros \<open>LEXER_MATCH\<close>, \<open>LEXER_MATCH_WITH_RETURN\<close> and
  \<open>LEXER_MATCH_WITH_CLEAN_AND_RETURN\<close>: with another token the function returns \<open>r\<close>, with
  the expected one the rest \<open>k\<close> of the function follows.
\<close>

definition need_clean ::
  "jsenv \<Rightarrow> tok \<Rightarrow> (vm \<Rightarrow> vm option) \<Rightarrow> 'r \<Rightarrow> (vm \<Rightarrow> ('r \<times> vm) option) \<Rightarrow> vm \<Rightarrow> ('r \<times> vm) option" where
  "need_clean E t clean r k v = do {
     (ok, l) \<leftarrow> lexer_token_cmp (e_oob E) (vm_lex v) t;
     if ok then k (v\<lparr>vm_lex := l\<rparr>)
     else map_option (Pair r) (clean (be_jse_execute_error (v\<lparr>vm_lex := l\<rparr>)))
   }"

definition need :: "jsenv \<Rightarrow> tok \<Rightarrow> 'r \<Rightarrow> (vm \<Rightarrow> ('r \<times> vm) option) \<Rightarrow> vm \<Rightarrow> ('r \<times> vm) option" where
  "need E t = need_clean E t Some"

definition unlock2 :: "nat \<Rightarrow> nat \<Rightarrow> vm \<Rightarrow> vm option" where
  "unlock2 i j v = do { v1 \<leftarrow> unlock i v; unlock j v1 }"

section \<open>Scopes\<close>

definition be_jse_vm_scope_insert :: "nat \<Rightarrow> vm \<Rightarrow> (bool \<times> vm) option" where
  "be_jse_vm_scope_insert scope v =
     (if BE_JSE_PARSE_MAX_SCOPES \<le> length (vm_scopes v) then Some (False, be_jse_execute_error v)
      else do {
        v1 \<leftarrow> upd_pool (INC_SYMBL_REF_BY_ID scope) v;
        Some (True, v1\<lparr>vm_scopes := vm_scopes v1 @ [scope]\<rparr>)
      })"

definition be_jse_vm_scope_remove :: "vm \<Rightarrow> vm option" where
  "be_jse_vm_scope_remove v =
     (if vm_scopes v = [] then Some (be_jse_execute_error v)
      else upd_pool (DEC_SYMBL_REF_BY_ID (last (vm_scopes v))) (v\<lparr>vm_scopes := butlast (vm_scopes v)\<rparr>))"

definition symbol_replace :: "nat \<Rightarrow> nat \<Rightarrow> vm \<Rightarrow> vm option" where
  "symbol_replace dst src v =
     (if \<not> is_kind symbol_is_name v dst then map_option be_jse_execute_error (report_last v)
      else upd_pool (set_symbol_node_name dst src) v)"

text \<open>The list holds the innermost scope first.\<close>

fun lookup_scopes :: "nat list \<Rightarrow> nat \<Rightarrow> byte list \<Rightarrow> sympool \<Rightarrow> (nat \<times> sympool) option" where
  "lookup_scopes [] root name p = lookup_named_child_symbol root name False p"
| "lookup_scopes (s # ss) root name p = do {
     (r, p1) \<leftarrow> lookup_named_child_symbol s name False p;
     if r \<noteq> 0 then Some (r, p1) else lookup_scopes ss root name p1
   }"

definition lookup_symbol_in_scopes :: "jsenv \<Rightarrow> byte list \<Rightarrow> vm \<Rightarrow> (nat \<times> vm) option" where
  "lookup_symbol_in_scopes E name v =
     ask_pool (lookup_scopes (rev (vm_scopes v)) (ctx_root (e_ctx E)) name) v"

definition top_scope :: "jsenv \<Rightarrow> vm \<Rightarrow> nat" where
  "top_scope E v = (if vm_scopes v = [] then ctx_root (e_ctx E) else last (vm_scopes v))"

definition lookup_symbol_on_top :: "jsenv \<Rightarrow> byte list \<Rightarrow> bool \<Rightarrow> vm \<Rightarrow> (nat \<times> vm) option" where
  "lookup_symbol_on_top E name create v = ask_pool (lookup_named_child_symbol (top_scope E v) name create) v"

definition lookup_symbol_name_on_top :: "jsenv \<Rightarrow> nat \<Rightarrow> bool \<Rightarrow> vm \<Rightarrow> (nat \<times> vm) option" where
  "lookup_symbol_name_on_top E name create v =
     ask_pool (lookup_child_symbol (e_fl E) (top_scope E v) name create) v"

partial_function (option) lookup_child_in_parent ::
  "jsctx \<Rightarrow> nat \<Rightarrow> byte list \<Rightarrow> sympool \<Rightarrow> (nat \<times> sympool) option" where
  "lookup_child_in_parent c parent name p =
     (if node_is symbol_is_int p parent then lookup_named_child_symbol (intClass c) name False p
      else if node_is symbol_is_string p parent then lookup_named_child_symbol (stringClass c) name False p
      else if node_is symbol_is_array p parent then lookup_named_child_symbol (arrayClass c) name False p
      else if node_is symbol_is_object p parent then do {
        (n, p1) \<leftarrow> lookup_named_child_symbol parent (str ''prototype'') False p;
        (proto, p2) \<leftarrow> unlock_symbol_value n p1;
        if proto \<noteq> 0 then do {
          (child, p3) \<leftarrow> lookup_named_child_symbol proto name False p2;
          (child', p4) \<leftarrow> (if child \<noteq> 0 then Some (child, p3) else lookup_child_in_parent c proto name p3);
          map_option (Pair child') (symbol_unlock proto p4)
        }
        else lookup_named_child_symbol (objectClass c) name False p2
      }
      else Some (0, p))"

text \<open>The scopes as an array symbol, and back.\<close>

fun scope_items :: "nat list \<Rightarrow> int \<Rightarrow> nat \<Rightarrow> sympool \<Rightarrow> sympool option" where
  "scope_items [] i arr p = Some p"
| "scope_items (s # ss) i arr p = do {
     p1 \<leftarrow> symbol_lock s p;
     (k, p2) \<leftarrow> new_int_symbol i p1;
     (idx, p3) \<leftarrow> new_named_symbol k s p2;
     p4 \<leftarrow> symbol_unlock s p3;
     p5 \<leftarrow> add_symbol_node arr idx p4;
     p6 \<leftarrow> symbol_unlock idx p5;
     scope_items ss (i + 1) arr p6
   }"

definition get_symbol_from_scopes :: "vm \<Rightarrow> (nat \<times> vm) option" where
  "get_symbol_from_scopes v =
     (if vm_scopes v = [] then Some (0, v)
      else do {
        (arr, v1) \<leftarrow> ask_pool (new_symbol BE_SYM_ARRAY) v;
        map_option (Pair arr) (upd_pool (scope_items (vm_scopes v1) 0 arr) v1)
      })"

partial_function (option) store_scopes :: "nat \<Rightarrow> nat list \<Rightarrow> sympool \<Rightarrow> (nat list \<times> sympool) option" where
  "store_scopes c ss p =
     (if c = 0 then Some (ss, p)
      else do {
        p1 \<leftarrow> symbol_lock c p;
        let s = s_first (tab p1 c);
        p2 \<leftarrow> (if s = 0 then None else INC_SYMBL_REF_BY_ID s p1);
        let next = s_next (tab p2 c);
        p3 \<leftarrow> symbol_unlock c p2;
        store_scopes next (ss @ [s]) p3
      })"

definition store_symbol_into_scopes :: "nat \<Rightarrow> vm \<Rightarrow> vm option" where
  "store_symbol_into_scopes arr v = do {
     (ss, p) \<leftarrow> store_scopes (s_first (node v arr)) [] (vm_pool v);
     Some (v\<lparr>vm_pool := p, vm_scopes := ss\<rparr>)
   }"

end
