(* ===== verification/Exec_Expr.thy ===== *)
theory Exec_Expr
  imports Exec
begin

text \<open>
  be_executor.c: expressions and function calls. Each definition is a function of the
  source, or a loop of one with the code behind it; \<open>ev\<close> evaluates the jobs it calls.
\<close>

section \<open>Operators\<close>

definition maths :: "jsenv \<Rightarrow> nat \<Rightarrow> nat \<Rightarrow> tok \<Rightarrow> vm \<Rightarrow> (nat \<times> vm) option" where
  "maths E a b op = ask_pool (symbol_value_maths_op (e_fl E) a b op)"

definition value_bool :: "jsenv \<Rightarrow> nat \<Rightarrow> vm \<Rightarrow> (bool \<times> vm) option" where
  "value_bool E a = ask_pool (get_symbol_value_bool (e_fl E) a)"

text \<open>The result of an operator replaces its first operand, which is unlocked, while executing.\<close>

definition combine :: "jsenv \<Rightarrow> nat \<Rightarrow> nat \<Rightarrow> tok \<Rightarrow> vm \<Rightarrow> (nat \<times> vm) option" where
  "combine E a b op v =
     (if should_execute v then do {
        (res, v1) \<leftarrow> maths E a b op v;
        map_option (Pair res) (unlock a v1)
      } else Some (a, v))"

definition relational_op :: "tok \<Rightarrow> bool" where
  "relational_op t \<longleftrightarrow> t \<in> {BE_TOKEN_OP_EQUAL, BE_TOKEN_OP_NEQUAL, BE_TOKEN_OP_STRICT_EQUAL,
     BE_TOKEN_OP_STRICT_NEQUAL, BE_TOKEN_OP_LESS_EQUAL, BE_TOKEN_OP_MORE_EQUAL, TK 60, TK 62}"

definition postfix_op :: "tok \<Rightarrow> bool" where
  "postfix_op t \<longleftrightarrow> t \<in> {BE_TOKEN_OP_PLUS_PLUS, BE_TOKEN_OP_MINUS_MINUS}"

definition shift_op :: "tok \<Rightarrow> bool" where
  "shift_op t \<longleftrightarrow> t \<in> {BE_TOKEN_OP_LEFT_SHIFT, BE_TOKEN_OP_RIGHT_SHIFT, BE_TOKEN_OP_RIGHT_SHIFT_UNSIGN}"

definition bit_logic_op :: "tok \<Rightarrow> bool" where
  "bit_logic_op t \<longleftrightarrow> t \<in> {TK 38, TK 124, TK 94, BE_TOKEN_OP_LOGIC_AND, BE_TOKEN_OP_LOGIC_OR}"

definition assignment_op :: "tok \<Rightarrow> bool" where
  "assignment_op t \<longleftrightarrow> t \<in> {TK 61, BE_TOKEN_OP_PLUS_EQUAL, BE_TOKEN_OP_MINUS_EQUAL,
     BE_TOKEN_OP_MUL_EQUAL, BE_TOKEN_OP_DIV_EQUAL}"

definition mul_op :: "tok \<Rightarrow> bool" where
  "mul_op t \<longleftrightarrow> t \<in> {TK 42, TK 47, TK 37}"

definition add_op :: "tok \<Rightarrow> bool" where
  "add_op t \<longleftrightarrow> t \<in> {TK 43, TK 45}"

definition handle_postfix_syntax :: "jsenv \<Rightarrow> evaluator \<Rightarrow> vm \<Rightarrow> (nat \<times> vm) option" where
  "handle_postfix_syntax E ev v =
     (if tk v = TK 33 then need E (TK 33) 0 (\<lambda>v. do {
        (a, v) \<leftarrow> ev Factor v;
        ev (Postfix_Loop True a) v
      }) v
      else do { (a, v) \<leftarrow> ev Factor v; ev (Postfix_Loop False a) v })"

definition postfix_loop :: "jsenv \<Rightarrow> evaluator \<Rightarrow> bool \<Rightarrow> nat \<Rightarrow> vm \<Rightarrow> (nat \<times> vm) option" where
  "postfix_loop E ev invert a v =
     (if postfix_op (tk v) then do {
        let op = tk v;
        need E op 0 (\<lambda>v.
          if should_execute v then do {
            let one = oneInt (e_ctx E);
            v \<leftarrow> lock one v;
            (res, v) \<leftarrow> maths E a one (if op = BE_TOKEN_OP_PLUS_PLUS then TK 43 else TK 45) v;
            v \<leftarrow> unlock one v;
            (origin, v) \<leftarrow> ask_pool (get_symbol_value a) v;
            v \<leftarrow> symbol_replace a res v;
            v \<leftarrow> unlock res v;
            v \<leftarrow> unlock a v;
            ev (Postfix_Loop invert origin) v
          } else ev (Postfix_Loop invert a) v) v
      }
      else if invert \<and> should_execute v then do {
        let zero = zeroInt (e_ctx E);
        v \<leftarrow> lock zero v;
        (res, v) \<leftarrow> maths E a zero BE_TOKEN_OP_EQUAL v;
        v \<leftarrow> unlock zero v;
        map_option (Pair res) (unlock a v)
      }
      else Some (a, v))"

definition handle_precedent_expr :: "jsenv \<Rightarrow> evaluator \<Rightarrow> vm \<Rightarrow> (nat \<times> vm) option" where
  "handle_precedent_expr E ev v =
     (if tk v = TK 45 then need E (TK 45) 0 (\<lambda>v. do {
        (a, v) \<leftarrow> ev Postfix v;
        ev (Mul_Loop True a) v
      }) v
      else do { (a, v) \<leftarrow> ev Postfix v; ev (Mul_Loop False a) v })"

text \<open>The sign is applied whether or not the code is executed.\<close>

definition mul_loop :: "jsenv \<Rightarrow> evaluator \<Rightarrow> bool \<Rightarrow> nat \<Rightarrow> vm \<Rightarrow> (nat \<times> vm) option" where
  "mul_loop E ev negative a v =
     (if mul_op (tk v) then do {
        let op = tk v;
        need E op 0 (\<lambda>v. do {
          (b, v) \<leftarrow> ev Postfix v;
          (res, v) \<leftarrow> combine E a b op v;
          v \<leftarrow> unlock b v;
          ev (Mul_Loop negative res) v
        }) v
      }
      else if negative then do {
        let zero = zeroInt (e_ctx E);
        v \<leftarrow> lock zero v;
        (res, v) \<leftarrow> maths E zero a (TK 45) v;
        v \<leftarrow> unlock zero v;
        v \<leftarrow> unlock a v;
        ev (Add_Loop res) v
      }
      else ev (Add_Loop a) v)"

definition shift_part :: "jsenv \<Rightarrow> evaluator \<Rightarrow> nat \<Rightarrow> vm \<Rightarrow> (nat \<times> vm) option" where
  "shift_part E ev a v =
     (if shift_op (tk v) then do {
        let op = tk v;
        need E op 0 (\<lambda>v. do {
          (b, v) \<leftarrow> ev Base_Expr v;
          (res, v) \<leftarrow> combine E a b op v;
          map_option (Pair res) (unlock b v)
        }) v
      }
      else Some (a, v))"

definition add_loop :: "jsenv \<Rightarrow> evaluator \<Rightarrow> nat \<Rightarrow> vm \<Rightarrow> (nat \<times> vm) option" where
  "add_loop E ev a v =
     (if add_op (tk v) then do {
        let op = tk v;
        need E op 0 (\<lambda>v. do {
          (b, v) \<leftarrow> ev Postfix v;
          ev (Mul_Loop2 a b op) v
        }) v
      }
      else shift_part E ev a v)"

definition mul_loop2 :: "jsenv \<Rightarrow> evaluator \<Rightarrow> nat \<Rightarrow> nat \<Rightarrow> tok \<Rightarrow> vm \<Rightarrow> (nat \<times> vm) option" where
  "mul_loop2 E ev a b op v =
     (if mul_op (tk v) then do {
        let op2 = tk v;
        need E op2 0 (\<lambda>v. do {
          (c, v) \<leftarrow> ev Postfix v;
          (b', v) \<leftarrow> combine E b c op2 v;
          v \<leftarrow> unlock c v;
          ev (Mul_Loop2 a b' op) v
        }) v
      }
      else do {
        (res, v) \<leftarrow> combine E a b op v;
        v \<leftarrow> unlock b v;
        ev (Add_Loop res) v
      })"

definition handle_base_expr :: "jsenv \<Rightarrow> evaluator \<Rightarrow> vm \<Rightarrow> (nat \<times> vm) option" where
  "handle_base_expr E ev v = do { (a, v) \<leftarrow> ev Precedent v; ev (Rel_Loop a) v }"

definition rel_loop :: "jsenv \<Rightarrow> evaluator \<Rightarrow> nat \<Rightarrow> vm \<Rightarrow> (nat \<times> vm) option" where
  "rel_loop E ev a v =
     (if relational_op (tk v) then do {
        let op = tk v;
        need E op 0 (\<lambda>v. do {
          (b, v) \<leftarrow> ev Precedent v;
          (res, v) \<leftarrow> combine E a b op v;
          v \<leftarrow> unlock b v;
          ev (Rel_Loop res) v
        }) v
      }
      else ev (Logic_Loop a) v)"

definition assign_value :: "jsenv \<Rightarrow> nat \<Rightarrow> nat \<Rightarrow> tok \<Rightarrow> vm \<Rightarrow> vm option" where
  "assign_value E a b op v =
     (if op = TK 61 then symbol_replace a b v
      else do {
        (res, v) \<leftarrow> maths E a b
           (if op = BE_TOKEN_OP_PLUS_EQUAL then TK 43 else if op = BE_TOKEN_OP_MINUS_EQUAL then TK 45
            else if op = BE_TOKEN_OP_MUL_EQUAL then TK 42 else TK 47) v;
        v \<leftarrow> symbol_replace a res v;
        unlock res v
      })"

definition assign_part :: "jsenv \<Rightarrow> evaluator \<Rightarrow> nat \<Rightarrow> vm \<Rightarrow> (nat \<times> vm) option" where
  "assign_part E ev a v =
     (if assignment_op (tk v) then do {
        v \<leftarrow> (if should_execute v \<and> a \<noteq> 0 \<and> s_refs (node v a) = 0 then
               (if is_kind symbol_is_name v a then do {
                  let root = ctx_root (e_ctx E);
                  v \<leftarrow> lock root v;
                  v \<leftarrow> upd_pool (add_symbol_node root a) v;
                  unlock root v
                } else report_last v)
             else Some v);
        let op = tk v;
        need E op 0 (\<lambda>v. do {
          (b, v) \<leftarrow> ev Base_Expr v;
          (b, v) \<leftarrow> ask_pool (unlock_symbol_value b) v;
          v \<leftarrow> (if should_execute v \<and> a \<noteq> 0 then assign_value E a b op v else Some v);
          map_option (Pair a) (unlock b v)
        }) v
      }
      else Some (a, v))"

definition ternary_part :: "jsenv \<Rightarrow> evaluator \<Rightarrow> nat \<Rightarrow> vm \<Rightarrow> (nat \<times> vm) option" where
  "ternary_part E ev a v =
     (if tk v = TK 63 then need E (TK 63) 0 (\<lambda>v.
        if \<not> should_execute v then do {
          (x, v) \<leftarrow> ev Base_Expr v;
          v \<leftarrow> unlock x v;
          need E (TK 58) 0 (\<lambda>v. do {
            (y, v) \<leftarrow> ev Base_Expr v;
            v \<leftarrow> unlock y v;
            assign_part E ev a v
          }) v
        }
        else do {
          (first, v) \<leftarrow> value_bool E a v;
          v \<leftarrow> unlock a v;
          let old = vm_exec v;
          if first then do {
            (x, v) \<leftarrow> ev Base_Expr v;
            need E (TK 58) 0 (\<lambda>v. do {
              let old = vm_exec v;
              (y, v) \<leftarrow> ev Base_Expr (set_vm_idle v);
              v \<leftarrow> unlock y v;
              assign_part E ev x (restore_exec old v)
            }) v
          }
          else do {
            (x, v) \<leftarrow> ev Base_Expr (set_vm_idle v);
            v \<leftarrow> unlock x v;
            need E (TK 58) 0 (\<lambda>v. do {
              (y, v) \<leftarrow> ev Base_Expr v;
              assign_part E ev y v
            }) (restore_exec old v)
          }
        }) v
      else assign_part E ev a v)"

text \<open>All the bitwise and logical operators are applied from left to right, whatever their kind.\<close>

definition logic_loop :: "jsenv \<Rightarrow> evaluator \<Rightarrow> nat \<Rightarrow> vm \<Rightarrow> (nat \<times> vm) option" where
  "logic_loop E ev a v =
     (if bit_logic_op (tk v) then do {
        let op = tk v;
        need E op 0 (\<lambda>v. do {
          (t, v) \<leftarrow> (if op = BE_TOKEN_OP_LOGIC_AND \<or> op = BE_TOKEN_OP_LOGIC_OR then value_bool E a v
                     else Some (False, v));
          let boolean = (op = BE_TOKEN_OP_LOGIC_AND \<or> op = BE_TOKEN_OP_LOGIC_OR);
          let short = (op = BE_TOKEN_OP_LOGIC_AND \<and> \<not> t \<or> op = BE_TOKEN_OP_LOGIC_OR \<and> t);
          let op' = (if op = BE_TOKEN_OP_LOGIC_AND then TK 38 else if op = BE_TOKEN_OP_LOGIC_OR then TK 124 else op);
          let old = vm_exec v;
          (b, v) \<leftarrow> ev Precedent (if short then set_vm_idle v else v);
          ev (Rel_Loop2 a b op' short boolean old) v
        }) v
      }
      else ternary_part E ev a v)"

definition rel_loop2 ::
  "jsenv \<Rightarrow> evaluator \<Rightarrow> nat \<Rightarrow> nat \<Rightarrow> tok \<Rightarrow> bool \<Rightarrow> bool \<Rightarrow> 32 word \<Rightarrow> vm \<Rightarrow> (nat \<times> vm) option" where
  "rel_loop2 E ev a b op short boolean old v =
     (if relational_op (tk v) then do {
        let op2 = tk v;
        need E op2 0 (\<lambda>v. do {
          (c, v) \<leftarrow> ev Precedent v;
          (b', v) \<leftarrow> combine E b c op2 v;
          v \<leftarrow> unlock c v;
          ev (Rel_Loop2 a b' op short boolean old) v
        }) v
      }
      else do {
        let v = (if short then restore_exec old v else v);
        (a, b, v) \<leftarrow>
          (if should_execute v \<and> \<not> short \<and> boolean then do {
             (s, v) \<leftarrow> value_bool E a v;
             (newa, v) \<leftarrow> ask_pool (new_bool_symbol s) v;
             (t, v) \<leftarrow> value_bool E b v;
             (newb, v) \<leftarrow> ask_pool (new_bool_symbol t) v;
             v \<leftarrow> unlock a v;
             v \<leftarrow> unlock b v;
             Some (newa, newb, v)
           } else Some (a, b, v));
        (res, v) \<leftarrow> (if short then Some (a, v) else combine E a b op v);
        v \<leftarrow> unlock b v;
        ev (Logic_Loop res) v
      })"

section \<open>Functions\<close>

text \<open>The rest of a list of arguments, which nobody asked for.\<close>

definition drop_args :: "jsenv \<Rightarrow> evaluator \<Rightarrow> nat \<Rightarrow> vm \<Rightarrow> (nat \<times> vm) option" where
  "drop_args E ev r v =
     (if tk v \<noteq> TK 41 then need E (TK 44) 0 (\<lambda>v. do {
        (x, v) \<leftarrow> ev Base_Expr v;
        v \<leftarrow> unlock x v;
        ev (Drop_Args r) v
      }) v
      else need E (TK 41) 0 (\<lambda>v. Some (r, v)) v)"

definition be_jse_is_none_arg_function :: "jsenv \<Rightarrow> vm \<Rightarrow> (nat \<times> vm) option" where
  "be_jse_is_none_arg_function E v =
     need E BE_TOKEN_ID 0 (need E (TK 40) 0 (need E (TK 41) 0 (\<lambda>v. Some (1, v)))) v"

definition be_jse_handle_single_arg_function :: "jsenv \<Rightarrow> evaluator \<Rightarrow> vm \<Rightarrow> (nat \<times> vm) option" where
  "be_jse_handle_single_arg_function E ev v =
     need E BE_TOKEN_ID 0 (need E (TK 40) 0 (\<lambda>v. do {
       (r, v) \<leftarrow> (if tk v \<noteq> TK 41 then do {
            (x, v) \<leftarrow> ev Base_Expr v;
            ask_pool (unlock_symbol_value x) v
          } else Some (0, v));
       ev (Drop_Args r) v
     })) v"

text \<open>
  \<open>be_jse_handle_function\<close>: for each argument that is asked for, whether a name is kept;
  the values found so far, null for those that are missing.
\<close>

fun get_args :: "jsenv \<Rightarrow> evaluator \<Rightarrow> bool \<Rightarrow> bool list \<Rightarrow> nat list \<Rightarrow> vm \<Rightarrow> ((bool \<times> nat list) \<times> vm) option" where
  "get_args E ev first [] acc v = do {
     (r, v) \<leftarrow> ev (Drop_Args 1) v;
     Some ((r \<noteq> 0, acc), v)
   }"
| "get_args E ev first (keep # ks) acc v =
     (let arg = (\<lambda>v. do {
            (x, v) \<leftarrow> ev Base_Expr v;
            (y, v) \<leftarrow> (if keep then Some (x, v) else ask_pool (unlock_symbol_value x) v);
            get_args E ev False ks (acc @ [y]) v
          })
      in if tk v = TK 41 then get_args E ev False ks (acc @ [0]) v
         else if first then arg v
         else need E (TK 44) (False, acc) arg v)"

definition be_jse_handle_function ::
  "jsenv \<Rightarrow> evaluator \<Rightarrow> bool list \<Rightarrow> vm \<Rightarrow> ((bool \<times> nat list) \<times> vm) option" where
  "be_jse_handle_function E ev keeps v =
     need E BE_TOKEN_ID (False, []) (need E (TK 40) (False, []) (get_args E ev True keeps [])) v"

definition be_jse_handle_function_arguments :: "jsenv \<Rightarrow> evaluator \<Rightarrow> nat \<Rightarrow> vm \<Rightarrow> (nat \<times> vm) option" where
  "be_jse_handle_function_arguments E ev f v = need E (TK 40) 0 (ev (Param_Loop f)) v"

definition param_loop :: "jsenv \<Rightarrow> evaluator \<Rightarrow> nat \<Rightarrow> vm \<Rightarrow> (nat \<times> vm) option" where
  "param_loop E ev f v =
     (if tk v \<noteq> TK 41 then do {
        v \<leftarrow> (if f \<noteq> 0 then do {
               (n, v) \<leftarrow> ask_pool (add_symbol_node_name f 0 (token v)) v;
               unlock n (v\<lparr>vm_pool := upd n (\<lambda>s. s\<lparr>s_flags := BE_SYM_FUNCTION_ARGVS\<rparr>) (vm_pool v)\<rparr>)
             } else Some v);
        need E BE_TOKEN_ID 0 (\<lambda>v.
          if tk v \<noteq> TK 41 then need E (TK 44) 0 (ev (Param_Loop f)) v
          else ev (Param_Loop f) v) v
      }
      else need E (TK 41) 0 (\<lambda>v. Some (1, v)) v)"

definition add_name :: "nat \<Rightarrow> nat \<Rightarrow> string \<Rightarrow> vm \<Rightarrow> vm option" where
  "add_name parent child name v = do {
     (n, v) \<leftarrow> ask_pool (add_symbol_node_name parent child (str name)) v;
     unlock n v
   }"

definition handle_function_definition :: "jsenv \<Rightarrow> evaluator \<Rightarrow> vm \<Rightarrow> (nat \<times> vm) option" where
  "handle_function_definition E ev v = do {
     (f, v) \<leftarrow> (if should_execute v then ask_pool (new_symbol BE_SYM_FUNCTION) v else Some (0, v));
     (ok, v) \<leftarrow> be_jse_handle_function_arguments E ev f v;
     if ok = 0 then Some (0, v)
     else do {
       let begin = token_start (vm_lex v);
       let old = vm_exec v;
       (b, v) \<leftarrow> ev Block (set_vm_idle v);
       v \<leftarrow> unlock b v;
       let v = restore_exec old v;
       if should_execute v then do {
         s \<leftarrow> lx_src (vm_lex v);
         (code, v) \<leftarrow> ask_pool (new_func_code_symbol s (nat begin) (nat (token_last_end (vm_lex v) + 1))) v;
         v \<leftarrow> add_name f code ''#code#'' v;
         v \<leftarrow> unlock code v;
         (scope, v) \<leftarrow> get_symbol_from_scopes v;
         v \<leftarrow> (if scope \<noteq> 0 then do { v \<leftarrow> add_name f scope ''#scope#'' v; unlock scope v } else Some v);
         Some (f, v)
       }
       else Some (f, v)
     }
   }"

text \<open>The name of a native function may be a path of objects.\<close>

definition native_path :: "jsenv \<Rightarrow> evaluator \<Rightarrow> nat \<Rightarrow> byte list \<Rightarrow> byte list \<Rightarrow> vm \<Rightarrow> (nat \<times> vm) option" where
  "native_path E ev root name cb v =
     (if tk v = TK 46 then need E (TK 46) 0 (\<lambda>v. do {
        (link, v) \<leftarrow> ask_pool (lookup_named_child_symbol root name False) v;
        (link, v) \<leftarrow> (if link = 0 then do {
            (obj, v) \<leftarrow> ask_pool (new_symbol BE_SYM_OBJECT) v;
            (l, v) \<leftarrow> ask_pool (add_symbol_node_name root obj name) v;
            map_option (Pair l) (unlock obj v)
          } else Some (link, v));
        v \<leftarrow> unlock root v;
        (root', v) \<leftarrow> ask_pool (unlock_symbol_value link) v;
        let name' = token v;
        need E BE_TOKEN_ID 0 (ev (Native_Path root' name' cb)) v
      }) v
      else do {
        (f, v) \<leftarrow> ask_pool (new_symbol (BE_SYM_FUNCTION OR BE_SYM_NATIVE)) v;
        (ok, v) \<leftarrow> be_jse_handle_function_arguments E ev f
            (v\<lparr>vm_pool := upd f (\<lambda>s. s\<lparr>s_data := cb\<rparr>) (vm_pool v)\<rparr>);
        if be_vm_has_error v then map_option (Pair 0) (unlock2 root f v)
        else do {
          (n, v) \<leftarrow> ask_pool (add_symbol_node_name root f name) v;
          v \<leftarrow> unlock n v;
          map_option (Pair 1) (unlock2 root f v)
        }
      })"

definition be_jse_handle_native_function :: "jsenv \<Rightarrow> evaluator \<Rightarrow> byte list \<Rightarrow> vm \<Rightarrow> (nat \<times> vm) option" where
  "be_jse_handle_native_function E ev cb v = do {
     let root = ctx_root (e_ctx E);
     v \<leftarrow> lock root v;
     need E BE_TOKEN_KW_FUNCTION 0 (\<lambda>v. do {
       let name = token v;
       need E BE_TOKEN_ID 0 (ev (Native_Path root name cb)) v
     }) v
   }"

text \<open>
  A call: the symbol \<open>root\<close> of the call gets \<open>this\<close>, the arguments and the name that
  \<open>return\<close> sets, and is the scope of the body.
\<close>

definition run_body :: "jsenv \<Rightarrow> evaluator \<Rightarrow> nat \<Rightarrow> nat \<Rightarrow> vm \<Rightarrow> vm option" where
  "run_body E ev f root v = do {
     let old_scopes = vm_scopes v;
     (fs, v) \<leftarrow> ask_pool (lookup_named_child_symbol f (str ''#scope#'') False) v;
     v \<leftarrow> (if fs \<noteq> 0 then do {
            let arr = s_first (node v fs);
            v \<leftarrow> lock arr v;
            v \<leftarrow> store_symbol_into_scopes arr v;
            unlock2 arr fs v
          } else Some (v\<lparr>vm_scopes := []\<rparr>));
     (ok, v) \<leftarrow> be_jse_vm_scope_insert root v;
     v \<leftarrow> (if ok then do {
            (fc, v) \<leftarrow> ask_pool (lookup_named_child_symbol f (str ''#code#'') False) v;
            v \<leftarrow> (if fc \<noteq> 0 then do {
                   (code, v) \<leftarrow> ask_pool (unlock_symbol_value fc) v;
                   (len, v) \<leftarrow> ask_pool (symbol_str_len code) v;
                   (lex, v) \<leftarrow> (if 0 < len then do {
                        (txt, v) \<leftarrow> ask_pool (symbol_to_str (fl_print (e_fl E)) code len) v;
                        l \<leftarrow> be_jse_lexer_init (e_oob E) (e_junk E) (Some txt) 0 (-1);
                        Some (l, v)
                      } else do {
                        l \<leftarrow> be_jse_lexer_init (e_oob E) (e_junk E) None 0 0;
                        Some (l, v)
                      });
                   v \<leftarrow> unlock code v;
                   let old_lex = vm_lex v;
                   let old = vm_exec v;
                   (b, v) \<leftarrow> ev Block (v\<lparr>vm_lex := lex\<rparr>);
                   let has_error = be_vm_has_error v;
                   let v = (restore_exec old v)\<lparr>vm_lex := old_lex\<rparr>;
                   Some (if has_error then be_jse_execute_error v else v)
                 } else Some v);
            be_jse_vm_scope_remove v
          } else Some v);
     p \<leftarrow> foldl (\<lambda>q s. Option.bind q (DEC_SYMBL_REF_BY_ID s)) (Some (vm_pool v)) (vm_scopes v);
     Some (v\<lparr>vm_pool := p, vm_scopes := old_scopes\<rparr>)
   }"

definition call_body :: "jsenv \<Rightarrow> evaluator \<Rightarrow> nat \<Rightarrow> nat \<Rightarrow> nat \<Rightarrow> vm \<Rightarrow> (nat \<times> vm) option" where
  "call_body E ev f root this v = do {
     (rv, v) \<leftarrow> ask_pool (add_symbol_node_name root 0 (str ''return'')) v;
     v \<leftarrow> (if be_vm_has_error v then Some v
          else if is_kind symbol_is_native v f then e_native E (s_data (node v f)) root v
          else run_body E ev f root v);
     v \<leftarrow> (if this \<noteq> 0 then do { v \<leftarrow> upd_pool (remove_child_symbol root this) v; unlock this v } else Some v);
     (ret, v) \<leftarrow> ask_pool (unlock_symbol_value rv) v;
     v \<leftarrow> upd_pool (set_symbol_node_name rv 0) v;
     map_option (Pair ret) (unlock root v)
   }"

text \<open>The arguments of a call from C; a missing one is null, and those left over are unlocked.\<close>

partial_function (option) c_args_loop :: "nat \<Rightarrow> nat list \<Rightarrow> nat \<Rightarrow> sympool \<Rightarrow> sympool option" where
  "c_args_loop s args root p =
     (if s = 0 then foldl (\<lambda>q a. Option.bind q (symbol_unlock a)) (Some p) args
      else do {
        p1 \<leftarrow> symbol_lock s p;
        (args', p2) \<leftarrow> (if symbol_is_function_argv (tab p1 s) then do {
            (arg, q) \<leftarrow> (case args of a # _ \<Rightarrow> unlock_symbol_value a p1 | [] \<Rightarrow> new_symbol BE_SYM_NULL p1);
            (c, q1) \<leftarrow> symbol_cp s q;
            (n, q2) \<leftarrow> new_named_symbol c arg q1;
            q3 \<leftarrow> (if n \<noteq> 0 then do { q3 \<leftarrow> add_symbol_node root n q2; symbol_unlock n q3 } else Some q2);
            q4 \<leftarrow> symbol_unlock arg q3;
            Some (tl args, q4)
          } else Some (args, p1));
        let next = s_next (tab p2 s);
        p3 \<leftarrow> symbol_unlock s p2;
        c_args_loop next args' root p3
      })"

definition open_call :: "nat \<Rightarrow> vm \<Rightarrow> (nat \<times> nat \<times> vm) option" where
  "open_call parent v = do {
     (root, v) \<leftarrow> ask_pool (new_symbol BE_SYM_FUNCTION) v;
     (this, v) \<leftarrow> (if parent \<noteq> 0 then ask_pool (add_symbol_node_name root parent (str ''this'')) v else Some (0, v));
     Some (root, this, v)
   }"

definition be_jse_do_function_call ::
  "jsenv \<Rightarrow> evaluator \<Rightarrow> nat \<Rightarrow> nat \<Rightarrow> bool \<Rightarrow> nat list \<Rightarrow> vm \<Rightarrow> (nat \<times> vm) option" where
  "be_jse_do_function_call E ev f parent parsing args v = do {
     v \<leftarrow> (if should_execute v \<and> f = 0 then report_last v else Some v);
     if should_execute v \<and> f \<noteq> 0 then
       (if \<not> is_kind symbol_is_function v f then do {
          v \<leftarrow> report_last v;
          Some (0, be_jse_execute_error v)
        }
        else if parsing then need E (TK 40) 0 (\<lambda>v. do {
          (root, this, v) \<leftarrow> open_call parent v;
          ev (Arg_Loop f root this (s_first (node v f))) v
        }) v
        else do {
          (root, this, v) \<leftarrow> open_call parent v;
          v \<leftarrow> upd_pool (c_args_loop (s_first (node v f)) args root) v;
          call_body E ev f root this v
        })
     else if parsing then need E (TK 40) 0 (ev (Skip_Args f)) v
     else Some (0, v)
   }"

definition skip_args :: "jsenv \<Rightarrow> evaluator \<Rightarrow> nat \<Rightarrow> vm \<Rightarrow> (nat \<times> vm) option" where
  "skip_args E ev f v =
     (if tk v \<noteq> TK 41 then do {
        (x, v) \<leftarrow> ev Base_Expr v;
        v \<leftarrow> unlock x v;
        if tk v \<noteq> TK 41 then need E (TK 44) 0 (ev (Skip_Args f)) v else ev (Skip_Args f) v
      }
      else need E (TK 41) 0 (\<lambda>v. Some (f, v)) v)"

definition arg_loop :: "jsenv \<Rightarrow> evaluator \<Rightarrow> nat \<Rightarrow> nat \<Rightarrow> nat \<Rightarrow> nat \<Rightarrow> vm \<Rightarrow> (nat \<times> vm) option" where
  "arg_loop E ev f root this s v =
     (if \<not> be_vm_has_error v \<and> s \<noteq> 0 then do {
        v \<leftarrow> lock s v;
        let next = (\<lambda>v. do {
              let n = s_next (node v s);
              v \<leftarrow> unlock s v;
              ev (Arg_Loop f root this n) v
            });
        if symbol_is_function_argv (node v s) then do {
          (x, v) \<leftarrow> (if tk v \<noteq> TK 41 then ev Base_Expr v else Some (0, v));
          v \<leftarrow> (if should_execute v then do {
                 (y, v) \<leftarrow> ask_pool (get_symbol_value x) v;
                 (c, v) \<leftarrow> ask_pool (symbol_cp s) v;
                 (n, v) \<leftarrow> ask_pool (new_named_symbol c y) v;
                 v \<leftarrow> (if n \<noteq> 0 then upd_pool (add_symbol_node root n) v else Some (be_jse_execute_error v));
                 v \<leftarrow> unlock n v;
                 unlock y v
               } else Some v);
          v \<leftarrow> unlock x v;
          if tk v \<noteq> TK 41 then need E (TK 44) 0 next v else next v
        }
        else next v
      }
      else ev (Extra_Loop f root this) v)"

definition extra_loop :: "jsenv \<Rightarrow> evaluator \<Rightarrow> nat \<Rightarrow> nat \<Rightarrow> nat \<Rightarrow> vm \<Rightarrow> (nat \<times> vm) option" where
  "extra_loop E ev f root this v =
     (let arg = (\<lambda>v. do { (x, v) \<leftarrow> ev Base_Expr v; v \<leftarrow> unlock x v; ev (Extra_Loop f root this) v })
      in if tk v \<noteq> TK 41 then (if tk v \<noteq> TK 44 then arg v else need E (TK 44) 0 arg v)
         else need E (TK 41) 0 (call_body E ev f root this) v)"

end
