(* ===== verification/Exec_Factor.thy ===== *)
theory Exec_Factor
  imports Exec_Expr
begin

text \<open>
  be_executor.c: factors, that is literals, names with their accesses and calls, objects,
  arrays, functions and new objects.
\<close>

section \<open>Factors\<close>

definition name_symbol :: "byte list \<Rightarrow> vm \<Rightarrow> (nat \<times> vm) option" where
  "name_symbol w v = do {
     (s, v) \<leftarrow> ask_pool (new_str_symbol w) v;
     ask_pool (new_named_symbol s 0) v
   }"

definition id_factor :: "jsenv \<Rightarrow> evaluator \<Rightarrow> vm \<Rightarrow> (nat \<times> vm) option" where
  "id_factor E ev v = do {
     (a, v) \<leftarrow> (if should_execute v then lookup_symbol_in_scopes E (token v) v else Some (0, v));
     if should_execute v \<and> a = 0 then do {
       (r, v) \<leftarrow> e_builtin E ev v 0 (token v);
       (case r of
          Some b \<Rightarrow> ev (Access_Loop b 0) v
        | None \<Rightarrow> do {
            (n, v) \<leftarrow> name_symbol (token v) v;
            need E BE_TOKEN_ID 0 (ev (Access_Loop n 0)) v
          })
     }
     else need E BE_TOKEN_ID 0 (ev (Access_Loop a 0)) v
   }"

definition member_access :: "jsenv \<Rightarrow> evaluator \<Rightarrow> nat \<Rightarrow> nat \<Rightarrow> vm \<Rightarrow> (nat \<times> vm) option" where
  "member_access E ev a parent v =
     (if \<not> should_execute v then need E BE_TOKEN_ID a (ev (Access_Loop a parent)) v
      else do {
        let name = token v;
        (obj, v) \<leftarrow> ask_pool (get_symbol_value a) v;
        let go = (\<lambda>child v. do {
              v \<leftarrow> unlock parent v;
              v \<leftarrow> unlock a v;
              ev (Access_Loop child obj) v
            });
        let found = (\<lambda>child. need_clean E BE_TOKEN_ID (unlock2 parent a) child (go child));
        if is_kind symbol_is_object v obj \<or> is_kind symbol_is_string v obj \<or> is_kind symbol_is_array v obj
        then do {
          (child, v) \<leftarrow> ask_pool (lookup_named_child_symbol obj name False) v;
          (child, v) \<leftarrow> (if child = 0 then ask_pool (lookup_child_in_parent (e_ctx E) obj name) v
                         else Some (child, v));
          if child \<noteq> 0 then found child v
          else do {
            (r, v) \<leftarrow> e_builtin E ev v obj name;
            (case r of
               Some b \<Rightarrow> go b v
             | None \<Rightarrow>
                 if is_kind symbol_is_object v obj then do {
                   (c, v) \<leftarrow> ask_pool (add_symbol_node_name obj 0 (token v)) v;
                   found c v
                 }
                 else do { v \<leftarrow> report_last v; found 0 v })
          }
        }
        else do { v \<leftarrow> report_last v; go 0 v }
      })"

text \<open>A value that is no array and no object stays locked when it is indexed.\<close>

definition index_access :: "jsenv \<Rightarrow> evaluator \<Rightarrow> nat \<Rightarrow> nat \<Rightarrow> vm \<Rightarrow> (nat \<times> vm) option" where
  "index_access E ev a parent v = do {
     (index, v) \<leftarrow> ev Base_Expr v;
     need_clean E (TK 93) (unlock2 parent index) a (\<lambda>v.
       if should_execute v then do {
         (obj, v) \<leftarrow> ask_pool (get_symbol_value a) v;
         if is_kind symbol_is_array v obj \<or> is_kind symbol_is_object v obj then do {
           (iv, v) \<leftarrow> ask_pool (get_symbol_value index) v;
           (child, v) \<leftarrow> ask_pool (lookup_child_symbol (e_fl E) obj iv True) v;
           v \<leftarrow> unlock iv v;
           v \<leftarrow> unlock parent v;
           v \<leftarrow> unlock a v;
           v \<leftarrow> unlock index v;
           ev (Access_Loop child obj) v
         }
         else do {
           v \<leftarrow> report_last v;
           v \<leftarrow> unlock parent v;
           v \<leftarrow> unlock a v;
           v \<leftarrow> unlock index v;
           ev (Access_Loop 0 0) v
         }
       }
       else do { v \<leftarrow> unlock index v; ev (Access_Loop a parent) v }) v
   }"

definition access_loop :: "jsenv \<Rightarrow> evaluator \<Rightarrow> nat \<Rightarrow> nat \<Rightarrow> vm \<Rightarrow> (nat \<times> vm) option" where
  "access_loop E ev a parent v =
     (if tk v = TK 40 then do {
        (f, v) \<leftarrow> ask_pool (unlock_symbol_value a) v;
        (r, v) \<leftarrow> ev (Call f parent True []) v;
        v \<leftarrow> unlock f v;
        ev (Access_Loop r parent) v
      }
      else if tk v = TK 46 then need E (TK 46) 0 (member_access E ev a parent) v
      else if tk v = TK 91 then need E (TK 91) 0 (index_access E ev a parent) v
      else map_option (Pair a) (unlock parent v))"

definition object_loop :: "jsenv \<Rightarrow> evaluator \<Rightarrow> nat \<Rightarrow> vm \<Rightarrow> (nat \<times> vm) option" where
  "object_loop E ev c v =
     (if \<not> be_vm_has_error v \<and> tk v \<noteq> TK 125 then do {
        (n, v) \<leftarrow> (if should_execute v then ask_pool (new_str_symbol (token v)) v else Some (0, v));
        let next = (\<lambda>n v. do {
              v \<leftarrow> unlock n v;
              if tk v \<noteq> TK 125 then need E (TK 44) c (ev (Object_Loop c)) v else ev (Object_Loop c) v
            });
        need_clean E (if tk v = BE_TOKEN_STR then BE_TOKEN_STR else BE_TOKEN_ID) (unlock n) c
          (need_clean E (TK 58) (unlock n) c (\<lambda>v.
             if should_execute v then do {
               (x, v) \<leftarrow> ev Base_Expr v;
               if x = 0 then map_option (Pair c) (unlock n (be_jse_execute_error v))
               else do {
                 (y, v) \<leftarrow> ask_pool (unlock_symbol_value x) v;
                 (n, v) \<leftarrow> ask_pool (new_named_symbol n y) v;
                 v \<leftarrow> upd_pool (add_symbol_node c n) v;
                 v \<leftarrow> unlock y v;
                 next n v
               }
             }
             else next n v)) v
      }
      else need E (TK 125) c (\<lambda>v. Some (c, v)) v)"

text \<open>Without executing, the elements of an array are not parsed at all.\<close>

definition array_loop :: "jsenv \<Rightarrow> evaluator \<Rightarrow> nat \<Rightarrow> int \<Rightarrow> vm \<Rightarrow> (nat \<times> vm) option" where
  "array_loop E ev c i v =
     (if \<not> be_vm_has_error v \<and> tk v \<noteq> TK 93 then do {
        v \<leftarrow> (if should_execute v then do {
               (a, v) \<leftarrow> ev Base_Expr v;
               (x, v) \<leftarrow> ask_pool (unlock_symbol_value a) v;
               (k, v) \<leftarrow> ask_pool (new_int_symbol i) v;
               (n, v) \<leftarrow> ask_pool (new_named_symbol k x) v;
               v \<leftarrow> upd_pool (add_symbol_node c n) v;
               v \<leftarrow> unlock n v;
               unlock x v
             } else Some v);
        if tk v \<noteq> TK 93 then need E (TK 44) c (ev (Array_Loop c (i + 1))) v
        else ev (Array_Loop c (i + 1)) v
      }
      else need E (TK 93) c (\<lambda>v. Some (c, v)) v)"

definition new_object :: "jsenv \<Rightarrow> evaluator \<Rightarrow> vm \<Rightarrow> (nat \<times> vm) option" where
  "new_object E ev v =
     (let brackets = (\<lambda>k v. if tk v = TK 40 then need E (TK 40) 0 (need E (TK 41) 0 k) v else k v)
      in if should_execute v then do {
           (n, v) \<leftarrow> lookup_symbol_in_scopes E (token v) v;
           (cls, v) \<leftarrow> ask_pool (unlock_symbol_value n) v;
           v \<leftarrow> (if cls = 0 then report_at (token_start (vm_lex v)) v else Some v);
           need E BE_TOKEN_ID 0 (\<lambda>v.
             if is_kind symbol_is_function v cls then do {
               (obj, v) \<leftarrow> ask_pool (new_symbol BE_SYM_OBJECT) v;
               (r, v) \<leftarrow> ev (Call cls obj True []) v;
               v \<leftarrow> unlock r v;
               map_option (Pair obj) (unlock cls v)
             }
             else do {
               (obj, v) \<leftarrow> (if cls = arrayClass (e_ctx E) then ask_pool (new_symbol BE_SYM_ARRAY) v
                            else do {
                              (obj, v) \<leftarrow> ask_pool (new_symbol BE_SYM_OBJECT) v;
                              map_option (Pair obj) (add_name obj cls ''prototype'' v)
                            });
               brackets (\<lambda>v. map_option (Pair obj) (unlock cls v)) v
             }) v
         }
         else need E BE_TOKEN_ID 0 (brackets (need E BE_TOKEN_END 0 (\<lambda>v. Some (0, v)))) v)"

definition handle_factor_syntax :: "jsenv \<Rightarrow> evaluator \<Rightarrow> vm \<Rightarrow> (nat \<times> vm) option" where
  "handle_factor_syntax E ev v =
     (let t = tk v;
          literal = (\<lambda>make. need E t 0 (\<lambda>v. if should_execute v then ask_pool make v else Some (0, v)))
      in if t = TK 40 then need E (TK 40) 0 (\<lambda>v. do {
           (a, v) \<leftarrow> ev Base_Expr v;
           if be_vm_has_error v then Some (a, v) else need E (TK 41) a (\<lambda>v. Some (a, v)) v
         }) v
         else if t = BE_TOKEN_KW_TRUE then literal (new_bool_symbol True) v
         else if t = BE_TOKEN_KW_FALSE then literal (new_bool_symbol False) v
         else if t = BE_TOKEN_KW_NULL then literal (new_symbol BE_SYM_NULL) v
         else if t = BE_TOKEN_KW_UNDEFINED then need E t 0 (\<lambda>v. Some (0, v)) v
         else if t = BE_TOKEN_ID then id_factor E ev v
         else if t = BE_TOKEN_INT then
           (if should_execute v
            then need E t 0 (ask_pool (new_int_symbol (string_to_int (e_oob E) (token v)))) v
            else need E t 0 (\<lambda>v. Some (0, v)) v)
         else if t = BE_TOKEN_FLOAT then
           (if should_execute v
            then need E t 0 (ask_pool (new_float_symbol (fl_parse (e_fl E) (token v)))) v
            else need E t 0 (\<lambda>v. Some (0, v)) v)
         else if t = BE_TOKEN_STR then
           (if should_execute v then do {
              (a, v) \<leftarrow> ask_pool (new_str_symbol (token v)) v;
              need E t a (\<lambda>v. Some (a, v)) v
            }
            else need E t 0 (\<lambda>v. Some (0, v)) v)
         else if t = TK 123 then
           (if should_execute v then do {
              (c, v) \<leftarrow> ask_pool (new_symbol BE_SYM_OBJECT) v;
              need E t c (ev (Object_Loop c)) v
            }
            else ev Block v)
         else if t = TK 91 then do {
           (c, v) \<leftarrow> (if should_execute v then ask_pool (new_symbol BE_SYM_ARRAY) v else Some (0, v));
           need E t c (ev (Array_Loop c 0)) v
         }
         else if t = BE_TOKEN_KW_FUNCTION then need E t 0 (ev Func_Def) v
         else if t = BE_TOKEN_KW_NEW then need E t 0 (new_object E ev) v
         else need E BE_TOKEN_END 0 (\<lambda>v. Some (0, v)) v)"

end
