(* ===== verification/Exec_Stmt.thy ===== *)
theory Exec_Stmt
  imports Exec_Factor
begin

text \<open>
  be_executor.c: blocks and statements. Loops work on copies of the lexer that are set to
  the condition, the step and the body; they are values here, taken back after each use.
\<close>

definition handle_block_syntax :: "jsenv \<Rightarrow> evaluator \<Rightarrow> vm \<Rightarrow> (nat \<times> vm) option" where
  "handle_block_syntax E ev v =
     need E (TK 123) 0 (\<lambda>v. if should_execute v then ev Block_Loop v else ev (Skip_Loop 1) v) v"

definition block_loop :: "jsenv \<Rightarrow> evaluator \<Rightarrow> vm \<Rightarrow> (nat \<times> vm) option" where
  "block_loop E ev v =
     (if tk v \<noteq> BE_TOKEN_END \<and> tk v \<noteq> TK 125 then do {
        (s, v) \<leftarrow> ev Stmt v;
        v \<leftarrow> unlock s v;
        if be_vm_has_error v then Some (0, v) else ev Block_Loop v
      }
      else need E (TK 125) 0 (\<lambda>v. Some (0, v)) v)"

definition skip_braces :: "jsenv \<Rightarrow> evaluator \<Rightarrow> int \<Rightarrow> vm \<Rightarrow> (nat \<times> vm) option" where
  "skip_braces E ev brackets v =
     (if tk v \<noteq> BE_TOKEN_END \<and> brackets \<noteq> 0 then
        need E (tk v) 0
          (ev (Skip_Loop (brackets + (if tk v = TK 123 then 1 else if tk v = TK 125 then -1 else 0)))) v
      else Some (0, v))"

definition handle_block_or_statement :: "jsenv \<Rightarrow> evaluator \<Rightarrow> vm \<Rightarrow> (nat \<times> vm) option" where
  "handle_block_or_statement E ev v =
     (if tk v = TK 123 then ev Block v
      else do {
        (s, v) \<leftarrow> ev Stmt v;
        if tk v = TK 59 then need E (TK 59) 0 (\<lambda>v. Some (s, v)) v else Some (s, v)
      })"

section \<open>Declarations\<close>

definition var_loop :: "jsenv \<Rightarrow> evaluator \<Rightarrow> nat \<Rightarrow> bool \<Rightarrow> vm \<Rightarrow> (nat \<times> vm) option" where
  "var_loop E ev last_var comma v =
     (if comma \<and> tk v = BE_TOKEN_ID then do {
        (a, v) \<leftarrow> (if should_execute v then lookup_symbol_on_top E (token v) True v else Some (0, v));
        need_clean E BE_TOKEN_ID (unlock a) last_var (ev (Dot_Loop a last_var)) v
      }
      else Some (last_var, v))"

text \<open>The value of the initialiser may be a name, which then is the value of the new name.\<close>

definition dot_loop :: "jsenv \<Rightarrow> evaluator \<Rightarrow> nat \<Rightarrow> nat \<Rightarrow> vm \<Rightarrow> (nat \<times> vm) option" where
  "dot_loop E ev a last_var v =
     (if tk v = TK 46 then need_clean E (TK 46) (unlock a) last_var (\<lambda>v. do {
        (a', v) \<leftarrow> (if should_execute v then do {
             (c, v) \<leftarrow> ask_pool (lookup_named_child_symbol a (token v) True) v;
             map_option (Pair c) (unlock a v)
           } else Some (a, v));
        need_clean E BE_TOKEN_ID (unlock a') last_var (ev (Dot_Loop a' last_var)) v
      }) v
      else do {
        let next = (\<lambda>v. do {
              v \<leftarrow> unlock last_var v;
              if tk v = TK 44 then need E (TK 44) a (ev (Var_Loop a True)) v else ev (Var_Loop a False) v
            });
        if tk v = TK 61 then need_clean E (TK 61) (unlock a) last_var (\<lambda>v. do {
          (b, v) \<leftarrow> ev Base_Expr v;
          v \<leftarrow> (if should_execute v then symbol_replace a b v else Some v);
          v \<leftarrow> unlock b v;
          next v
        }) v
        else next v
      })"

section \<open>Conditions and loops\<close>

definition if_statement :: "jsenv \<Rightarrow> evaluator \<Rightarrow> vm \<Rightarrow> (nat \<times> vm) option" where
  "if_statement E ev v =
     (let branches = (\<lambda>var. need E (TK 41) 0 (\<lambda>v. do {
            (cond, v) \<leftarrow> (if should_execute v then value_bool E var v else Some (False, v));
            v \<leftarrow> unlock var v;
            let old = vm_exec v;
            (s, v) \<leftarrow> ev Block_Or_Stmt (if cond then v else set_vm_idle v);
            v \<leftarrow> unlock s v;
            let v = (if cond then v else restore_exec old v);
            if tk v = BE_TOKEN_KW_ELSE then need E BE_TOKEN_KW_ELSE 0 (\<lambda>v. do {
              let old = vm_exec v;
              (s, v) \<leftarrow> ev Block_Or_Stmt (if cond then set_vm_idle v else v);
              v \<leftarrow> unlock s v;
              Some (0, if cond then restore_exec old v else v)
            }) v
            else Some (0, v)
          }))
      in need E BE_TOKEN_KW_IF 0 (need E (TK 40) 0 (\<lambda>v. do {
           (var, v) \<leftarrow> ev Base_Expr v;
           if tk v = BE_TOKEN_KW_IN then need E BE_TOKEN_KW_IN 0 (\<lambda>v. do {
             (a, v) \<leftarrow> ev Precedent v;
             (array, v) \<leftarrow> ask_pool (unlock_symbol_value a) v;
             (x, v) \<leftarrow> ask_pool (get_symbol_value var) v;
             (var, v) \<leftarrow> (if should_execute v then do {
                  (found, v) \<leftarrow> ask_pool (get_symbol_array_index (e_fl E) array x) v;
                  v \<leftarrow> unlock2 found var v;
                  ask_pool (new_bool_symbol (found \<noteq> 0)) v
                } else Some (var, v));
             v \<leftarrow> unlock2 array x v;
             branches var v
           }) v
           else branches var v
         })) v)"

text \<open>After a body: \<open>continue\<close> and \<open>break\<close> become normal execution, the latter ends the loop.\<close>

definition after_body :: "bool \<Rightarrow> vm \<Rightarrow> bool \<times> vm" where
  "after_body had v =
     (let v1 = (if vm_exec v = EXEC_CONTINUE then v\<lparr>vm_exec := EXEC_NORMAL\<rparr> else v)
      in if vm_exec v1 = EXEC_BREAK then (True, v1\<lparr>vm_exec := EXEC_NORMAL\<rparr>) else (had, v1))"

definition copy_lexer :: "jsenv \<Rightarrow> int \<Rightarrow> vm \<Rightarrow> lexer option" where
  "copy_lexer E start v = be_jse_lexer_init2 (e_oob E) (e_junk E) (vm_lex v) start"

text \<open>The evaluation of a part that a copy of the lexer is set to; the copy is taken back.\<close>

definition run_part :: "jsenv \<Rightarrow> evaluator \<Rightarrow> ejob \<Rightarrow> lexer \<Rightarrow> vm \<Rightarrow> (nat \<times> lexer \<times> vm) option" where
  "run_part E ev j part v = do {
     l \<leftarrow> be_jse_lexer_reset (e_oob E) part;
     (x, v) \<leftarrow> ev j (v\<lparr>vm_lex := l\<rparr>);
     Some (x, vm_lex v, v)
   }"

definition first_body :: "evaluator \<Rightarrow> bool \<Rightarrow> vm \<Rightarrow> (bool \<times> vm) option" where
  "first_body ev cond v = do {
     let old = vm_exec v;
     (s, v) \<leftarrow> ev Block_Or_Stmt (if cond then v else set_vm_idle v);
     v \<leftarrow> unlock s v;
     let (had, v) = after_body False v;
     Some (had, if cond then v else restore_exec old v)
   }"

definition while_statement :: "jsenv \<Rightarrow> evaluator \<Rightarrow> vm \<Rightarrow> (nat \<times> vm) option" where
  "while_statement E ev v =
     need E BE_TOKEN_KW_WHILE 0 (need E (TK 40) 0 (\<lambda>v. do {
       let cond_start = token_start (vm_lex v);
       (c, v) \<leftarrow> ev Base_Expr v;
       (cond, v) \<leftarrow> (if should_execute v then value_bool E c v else Some (False, v));
       v \<leftarrow> unlock c v;
       cond_lex \<leftarrow> copy_lexer E cond_start v;
       need E (TK 41) 0 (\<lambda>v. do {
         let body_start = token_start (vm_lex v);
         (had, v) \<leftarrow> first_body ev cond v;
         body_lex \<leftarrow> copy_lexer E body_start v;
         ev (While_Loop cond_lex body_lex (vm_lex v) cond had BE_JSE_PARSE_MAX_LOOPS) v
       }) v
     })) v"

definition while_loop ::
  "jsenv \<Rightarrow> evaluator \<Rightarrow> lexer \<Rightarrow> lexer \<Rightarrow> lexer \<Rightarrow> bool \<Rightarrow> bool \<Rightarrow> int \<Rightarrow> vm \<Rightarrow> (nat \<times> vm) option" where
  "while_loop E ev cond_lex body_lex old_lex cond had count v =
     (let finish = (\<lambda>count v. do {
            let v = v\<lparr>vm_lex := old_lex\<rparr>;
            v \<leftarrow> (if count \<le> 0 then map_option be_jse_execute_error (report_last v) else Some v);
            Some (0, v)
          })
      in if had \<or> \<not> cond then finish count v
         else if count \<le> 0 then finish (count - 1) v
         else do {
           (c, cond_lex, v) \<leftarrow> run_part E ev Base_Expr cond_lex v;
           (cond, v) \<leftarrow> (if should_execute v then value_bool E c v else Some (False, v));
           v \<leftarrow> unlock c v;
           if cond then do {
             (s, body_lex, v) \<leftarrow> run_part E ev Block_Or_Stmt body_lex v;
             v \<leftarrow> unlock s v;
             let (had, v) = after_body had v;
             ev (While_Loop cond_lex body_lex old_lex cond had (count - 1)) v
           }
           else ev (While_Loop cond_lex body_lex old_lex cond had (count - 1)) v
         })"

definition for_in_statement :: "jsenv \<Rightarrow> evaluator \<Rightarrow> nat \<Rightarrow> vm \<Rightarrow> (nat \<times> vm) option" where
  "for_in_statement E ev var v =
     (if \<not> is_kind symbol_is_name v var then do {
        v \<leftarrow> unlock var v;
        v \<leftarrow> report_last v;
        Some (0, be_jse_execute_error v)
      }
      else do {
        let root = ctx_root (e_ctx E);
        let added = (should_execute v \<and> s_refs (node v var) = 0);
        v \<leftarrow> (if added then do {
               v \<leftarrow> lock root v;
               v \<leftarrow> upd_pool (add_symbol_node root var) v;
               unlock root v
             } else Some v);
        need E BE_TOKEN_KW_IN 0 (\<lambda>v. do {
          (a, v) \<leftarrow> ev Precedent v;
          (array, v) \<leftarrow> ask_pool (unlock_symbol_value a) v;
          need E (TK 41) 0 (\<lambda>v. do {
            let body_start = token_start (vm_lex v);
            let old = vm_exec v;
            (s, v) \<leftarrow> ev Block_Or_Stmt (set_vm_idle v);
            v \<leftarrow> unlock s v;
            let v = restore_exec old v;
            body_lex \<leftarrow> copy_lexer E body_start v;
            let old_lex = vm_lex v;
            (i, v) \<leftarrow>
              (if is_kind symbol_is_array v array \<or> is_kind symbol_is_object v array
               then Some (s_first (node v array), v)
               else do { v \<leftarrow> report_last v; Some (0, be_jse_execute_error v) });
            ev (For_In_Loop var array added body_lex old_lex i False) v
          }) v
        }) v
      })"

definition for_in_loop ::
  "jsenv \<Rightarrow> evaluator \<Rightarrow> nat \<Rightarrow> nat \<Rightarrow> bool \<Rightarrow> lexer \<Rightarrow> lexer \<Rightarrow> nat \<Rightarrow> bool \<Rightarrow> vm \<Rightarrow> (nat \<times> vm) option" where
  "for_in_loop E ev var array added body_lex old_lex i had v =
     (if should_execute v \<and> i \<noteq> 0 \<and> \<not> had then do {
        v \<leftarrow> lock i v;
        (k, v) \<leftarrow> ask_pool (symbol_name_cp i False False) v;
        if is_kind symbol_is_name v k \<or> s_refs (node v k) \<noteq> 0 then None
        else do {
          v \<leftarrow> upd_pool (set_symbol_node_name var k) v;
          v \<leftarrow> unlock k v;
          let next = s_next (node v i);
          v \<leftarrow> unlock i v;
          (s, body_lex, v) \<leftarrow> run_part E ev Block_Or_Stmt body_lex v;
          v \<leftarrow> unlock s v;
          let (had, v) = after_body had v;
          ev (For_In_Loop var array added body_lex old_lex next had) v
        }
      }
      else do {
        let root = ctx_root (e_ctx E);
        let v = v\<lparr>vm_lex := old_lex\<rparr>;
        v \<leftarrow> (if added then do {
               v \<leftarrow> lock root v;
               v \<leftarrow> upd_pool (remove_child_symbol root var) v;
               unlock root v
             } else Some v);
        map_option (Pair 0) (unlock2 var array v)
      })"

definition for_statement :: "jsenv \<Rightarrow> evaluator \<Rightarrow> nat \<Rightarrow> vm \<Rightarrow> (nat \<times> vm) option" where
  "for_statement E ev init v = do {
     v \<leftarrow> unlock init v;
     need E (TK 59) 0 (\<lambda>v. do {
       let cond_start = token_start (vm_lex v);
       (c, v) \<leftarrow> ev Base_Expr v;
       (cond, v) \<leftarrow> (if should_execute v then value_bool E c v else Some (False, v));
       v \<leftarrow> unlock c v;
       cond_lex \<leftarrow> copy_lexer E cond_start v;
       need E (TK 59) 0 (\<lambda>v. do {
         let iter_start = token_start (vm_lex v);
         let old = vm_exec v;
         (x, v) \<leftarrow> ev Base_Expr (set_vm_idle v);
         v \<leftarrow> unlock x v;
         let v = restore_exec old v;
         iter_lex \<leftarrow> copy_lexer E iter_start v;
         need E (TK 41) 0 (\<lambda>v. do {
           let body_start = token_start (vm_lex v);
           (had, v) \<leftarrow> first_body ev cond v;
           body_lex \<leftarrow> copy_lexer E body_start v;
           let old_lex = vm_lex v;
           (iter_lex, v) \<leftarrow>
             (if cond then do {
                (x, l, v) \<leftarrow> run_part E ev Base_Expr iter_lex v;
                map_option (Pair l) (unlock x v)
              } else Some (iter_lex, v));
           ev (For_Loop cond_lex iter_lex body_lex old_lex cond had BE_JSE_PARSE_MAX_LOOPS) v
         }) v
       }) v
     }) v
   }"

text \<open>The step is taken after the body even when that ended with a break.\<close>

definition for_loop ::
  "jsenv \<Rightarrow> evaluator \<Rightarrow> lexer \<Rightarrow> lexer \<Rightarrow> lexer \<Rightarrow> lexer \<Rightarrow> bool \<Rightarrow> bool \<Rightarrow> int \<Rightarrow> vm \<Rightarrow> (nat \<times> vm) option" where
  "for_loop E ev cond_lex iter_lex body_lex old_lex cond had count v =
     (let finish = (\<lambda>count v. do {
            let v = v\<lparr>vm_lex := old_lex\<rparr>;
            v \<leftarrow> (if count \<le> 0 then map_option be_jse_execute_error (report_last v) else Some v);
            Some (0, v)
          })
      in if had \<or> \<not> should_execute v \<or> \<not> cond then finish count v
         else if count \<le> 0 then finish (count - 1) v
         else do {
           (c, cond_lex, v) \<leftarrow> run_part E ev Base_Expr cond_lex v;
           (cond, v) \<leftarrow> value_bool E c v;
           v \<leftarrow> unlock c v;
           (body_lex, had, v) \<leftarrow>
             (if should_execute v \<and> cond then do {
                (s, l, v) \<leftarrow> run_part E ev Block_Or_Stmt body_lex v;
                v \<leftarrow> unlock s v;
                let (had, v) = after_body had v;
                Some (l, had, v)
              } else Some (body_lex, had, v));
           (iter_lex, v) \<leftarrow>
             (if should_execute v \<and> cond then do {
                (x, l, v) \<leftarrow> run_part E ev Base_Expr iter_lex v;
                map_option (Pair l) (unlock x v)
              } else Some (iter_lex, v));
           ev (For_Loop cond_lex iter_lex body_lex old_lex cond had (count - 1)) v
         })"

section \<open>Functions, jumps and switch\<close>

definition return_statement :: "jsenv \<Rightarrow> evaluator \<Rightarrow> vm \<Rightarrow> (nat \<times> vm) option" where
  "return_statement E ev v =
     need E BE_TOKEN_KW_RETURN 0 (\<lambda>v. do {
       (r, v) \<leftarrow> (if tk v \<noteq> TK 59 then do {
            (x, v) \<leftarrow> ev Base_Expr v;
            ask_pool (unlock_symbol_value x) v
          } else Some (0, v));
       v \<leftarrow> (if should_execute v then do {
              (rv, v) \<leftarrow> lookup_symbol_on_top E (str ''return'') False v;
              v \<leftarrow> (if rv \<noteq> 0 then do { v \<leftarrow> symbol_replace rv r v; unlock rv v }
                   else map_option be_jse_execute_error (report_last v));
              Some (set_vm_idle v)
            } else Some v);
       map_option (Pair 0) (unlock r v)
     }) v"

text \<open>A declaration of a function that is not executed is an error.\<close>

definition function_statement :: "jsenv \<Rightarrow> evaluator \<Rightarrow> vm \<Rightarrow> (nat \<times> vm) option" where
  "function_statement E ev v =
     need E BE_TOKEN_KW_FUNCTION 0 (\<lambda>v. do {
       (name, v) \<leftarrow> (if should_execute v then name_symbol (token v) v else Some (0, v));
       if name = 0 then Some (0, be_jse_execute_error v)
       else need E BE_TOKEN_ID 0 (\<lambda>v. do {
         (f, v) \<leftarrow> ev Func_Def v;
         (r, v) \<leftarrow> (if should_execute v then do {
              (old, v) \<leftarrow> lookup_symbol_name_on_top E name True v;
              v \<leftarrow> symbol_replace old f v;
              map_option (Pair old) (unlock name v)
            } else Some (name, v));
         map_option (Pair r) (unlock f v)
       }) v
     }) v"

definition jump_statement :: "jsenv \<Rightarrow> tok \<Rightarrow> 32 word \<Rightarrow> vm \<Rightarrow> (nat \<times> vm) option" where
  "jump_statement E t flag v =
     need E t 0 (\<lambda>v. Some (0, if should_execute v then v\<lparr>vm_exec := flag\<rparr> else v)) v"

definition switch_statement :: "jsenv \<Rightarrow> evaluator \<Rightarrow> vm \<Rightarrow> (nat \<times> vm) option" where
  "switch_statement E ev v =
     need E BE_TOKEN_KW_SWITCH 0 (need E (TK 40) 0 (\<lambda>v. do {
       (sw, v) \<leftarrow> ev Base_Expr v;
       need_clean E (TK 41) (unlock sw) 0 (need_clean E (TK 123) (unlock sw) 0 (\<lambda>v.
         let execute = should_execute v
         in ev (Case_Loop sw execute False (vm_exec v)) (if execute then v\<lparr>vm_exec := EXEC_IDLE\<rparr> else v))) v
     })) v"

definition case_loop :: "jsenv \<Rightarrow> evaluator \<Rightarrow> nat \<Rightarrow> bool \<Rightarrow> bool \<Rightarrow> 32 word \<Rightarrow> vm \<Rightarrow> (nat \<times> vm) option" where
  "case_loop E ev sw execute done_any old v =
     (if tk v = BE_TOKEN_KW_CASE then need_clean E BE_TOKEN_KW_CASE (unlock sw) 0 (\<lambda>v. do {
        let flags = vm_exec v;
        (test, v) \<leftarrow> ev Base_Expr (if execute then v\<lparr>vm_exec := EXEC_NORMAL\<rparr> else v);
        need_clean E (TK 58) (unlock2 sw test) 0 (\<lambda>v. do {
          (cond, v) \<leftarrow> (if execute then do {
               (r, v) \<leftarrow> maths E sw test BE_TOKEN_OP_EQUAL v;
               ask_pool (get_bool_symbol_and_unlock (e_fl E) r) v
             } else Some (False, v));
          v \<leftarrow> unlock test v;
          ev (Case_Body sw execute (done_any \<or> cond) old)
            (if cond \<and> vm_exec v = EXEC_IDLE then v\<lparr>vm_exec := EXEC_NORMAL\<rparr> else v)
        }) (v\<lparr>vm_exec := flags\<rparr>)
      }) v
      else do {
        v \<leftarrow> unlock sw v;
        let v = (if execute \<and> vm_exec v = EXEC_BREAK then v\<lparr>vm_exec := EXEC_NORMAL\<rparr> else v);
        let v = restore_exec old v;
        if tk v = BE_TOKEN_KW_DEFAULT then
          need E BE_TOKEN_KW_DEFAULT 0 (need E (TK 58) 0 (\<lambda>v.
            ev (Default_Loop (vm_exec v)) (if done_any then set_vm_idle v else v))) v
        else need E (TK 125) 0 (\<lambda>v. Some (0, v)) v
      })"

definition case_body :: "jsenv \<Rightarrow> evaluator \<Rightarrow> nat \<Rightarrow> bool \<Rightarrow> bool \<Rightarrow> 32 word \<Rightarrow> vm \<Rightarrow> (nat \<times> vm) option" where
  "case_body E ev sw execute done_any old v =
     (if tk v \<noteq> BE_TOKEN_END \<and> tk v \<noteq> BE_TOKEN_KW_CASE \<and> tk v \<noteq> BE_TOKEN_KW_DEFAULT \<and> tk v \<noteq> TK 125 then do {
        (s, v) \<leftarrow> ev Block_Or_Stmt v;
        v \<leftarrow> unlock s v;
        ev (Case_Body sw execute done_any old) v
      }
      else ev (Case_Loop sw execute done_any old) v)"

definition default_loop :: "jsenv \<Rightarrow> evaluator \<Rightarrow> 32 word \<Rightarrow> vm \<Rightarrow> (nat \<times> vm) option" where
  "default_loop E ev old v =
     (if tk v \<noteq> BE_TOKEN_END \<and> tk v \<noteq> TK 125 then do {
        (s, v) \<leftarrow> ev Block_Or_Stmt v;
        v \<leftarrow> unlock s v;
        ev (Default_Loop old) v
      }
      else need E (TK 125) 0 (\<lambda>v. Some (0, v)) (restore_exec old v))"

definition handle_statement_syntax :: "jsenv \<Rightarrow> evaluator \<Rightarrow> vm \<Rightarrow> (nat \<times> vm) option" where
  "handle_statement_syntax E ev v =
     (let t = tk v
      in if t = BE_TOKEN_ID \<or> t = BE_TOKEN_INT \<or> t = BE_TOKEN_FLOAT \<or> t = BE_TOKEN_STR \<or> t = TK 45 \<or> t = TK 40
         then ev Base_Expr v
         else if t = TK 123 then do { (b, v) \<leftarrow> ev Block v; Some (0, v) }
         else if t = TK 59 then need E (TK 59) 0 (\<lambda>v. Some (0, v)) v
         else if t = BE_TOKEN_KW_VAR then need E t 0 (ev (Var_Loop 0 True)) v
         else if t = BE_TOKEN_KW_IF then if_statement E ev v
         else if t = BE_TOKEN_KW_WHILE then while_statement E ev v
         else if t = BE_TOKEN_KW_FOR then need E t 0 (need E (TK 40) 0 (\<lambda>v. do {
           (s, v) \<leftarrow> ev Stmt v;
           if tk v = BE_TOKEN_KW_IN then for_in_statement E ev s v else for_statement E ev s v
         })) v
         else if t = BE_TOKEN_KW_RETURN then return_statement E ev v
         else if t = BE_TOKEN_KW_FUNCTION then function_statement E ev v
         else if t = BE_TOKEN_KW_CONTINUE then jump_statement E t EXEC_CONTINUE v
         else if t = BE_TOKEN_KW_BREAK then jump_statement E t EXEC_BREAK v
         else if t = BE_TOKEN_KW_SWITCH then switch_statement E ev v
         else need E BE_TOKEN_END 0 (\<lambda>v. Some (0, v)) v)"

section \<open>All jobs\<close>

definition handler :: "jsenv \<Rightarrow> evaluator \<Rightarrow> evaluator" where
  "handler E ev j = (case j of
     Base_Expr \<Rightarrow> handle_base_expr E ev
   | Rel_Loop a \<Rightarrow> rel_loop E ev a
   | Logic_Loop a \<Rightarrow> logic_loop E ev a
   | Rel_Loop2 a b op short boolean old \<Rightarrow> rel_loop2 E ev a b op short boolean old
   | Precedent \<Rightarrow> handle_precedent_expr E ev
   | Mul_Loop negative a \<Rightarrow> mul_loop E ev negative a
   | Add_Loop a \<Rightarrow> add_loop E ev a
   | Mul_Loop2 a b op \<Rightarrow> mul_loop2 E ev a b op
   | Postfix \<Rightarrow> handle_postfix_syntax E ev
   | Postfix_Loop invert a \<Rightarrow> postfix_loop E ev invert a
   | Factor \<Rightarrow> handle_factor_syntax E ev
   | Access_Loop a parent \<Rightarrow> access_loop E ev a parent
   | Object_Loop c \<Rightarrow> object_loop E ev c
   | Array_Loop c i \<Rightarrow> array_loop E ev c i
   | Param_Loop f \<Rightarrow> param_loop E ev f
   | Func_Def \<Rightarrow> handle_function_definition E ev
   | Native_Path root name cb \<Rightarrow> native_path E ev root name cb
   | Drop_Args r \<Rightarrow> drop_args E ev r
   | Call f parent parsing args \<Rightarrow> be_jse_do_function_call E ev f parent parsing args
   | Arg_Loop f root this s \<Rightarrow> arg_loop E ev f root this s
   | Extra_Loop f root this \<Rightarrow> extra_loop E ev f root this
   | Skip_Args f \<Rightarrow> skip_args E ev f
   | Block \<Rightarrow> handle_block_syntax E ev
   | Block_Loop \<Rightarrow> block_loop E ev
   | Skip_Loop n \<Rightarrow> skip_braces E ev n
   | Block_Or_Stmt \<Rightarrow> handle_block_or_statement E ev
   | Stmt \<Rightarrow> handle_statement_syntax E ev
   | Var_Loop l comma \<Rightarrow> var_loop E ev l comma
   | Dot_Loop a l \<Rightarrow> dot_loop E ev a l
   | While_Loop cl bl ol c h n \<Rightarrow> while_loop E ev cl bl ol c h n
   | For_In_Loop var array added bl ol i h \<Rightarrow> for_in_loop E ev var array added bl ol i h
   | For_Loop cl il bl ol c h n \<Rightarrow> for_loop E ev cl il bl ol c h n
   | Case_Loop sw execute d old \<Rightarrow> case_loop E ev sw execute d old
   | Case_Body sw execute d old \<Rightarrow> case_body E ev sw execute d old
   | Default_Loop old \<Rightarrow> default_loop E ev old)"

primrec exec :: "jsenv \<Rightarrow> nat \<Rightarrow> evaluator" where
  "exec E 0 = (\<lambda>j v. None)"
| "exec E (Suc n) = handler E (exec E n)"

end
