(* ===== verification/Exec_Pool.thy ===== *)
theory Exec_Pool
  imports Exec_Stmt Sym_Obj "HOL-Library.Multiset"
begin

text \<open>
  The symbol table while integer expressions are evaluated: the multiset of the references
  that the evaluation holds, each a node and its value, against the table at its start.
  The operations of be_symbol.c add and remove entries of this multiset.
\<close>

section \<open>Integers in nodes\<close>

definition in64 :: "int \<Rightarrow> bool" where
  "in64 k \<longleftrightarrow> - 9223372036854775808 \<le> k \<and> k < 9223372036854775808"

lemma in64_s64 [simp]: "in64 (s64 k)"
  by (simp add: in64_def s64_def)

lemma s64_in64: "in64 k \<Longrightarrow> s64 k = k"
  by (simp add: in64_def)

lemma in64_small [simp]: "in64 0" "in64 1"
  by (simp_all add: in64_def)

lemma horner_bytes: "horner_sum uint 256 (map (\<lambda>j. of_int (k div 256 ^ j) :: byte) [0..<n]) = k mod 256 ^ n"
proof (induction n arbitrary: k)
  case (Suc n)
  have "map (\<lambda>j. of_int (k div 256 ^ j) :: byte) [0..<Suc n] =
      of_int k # map (\<lambda>j. of_int (k div 256 div 256 ^ j)) [0..<n]"
    by (simp add: upt_conv_Cons map_Suc_upt [symmetric] zdiv_zmult2_eq del: upt_Suc map_Suc_upt)
  then have "horner_sum uint 256 (map (\<lambda>j. of_int (k div 256 ^ j) :: byte) [0..<Suc n]) =
      k mod 256 + 256 * (k div 256 mod 256 ^ n)"
    using Suc.IH [of "k div 256"] by (simp add: uint_word_of_int)
  also have "\<dots> = k mod 256 ^ Suc n" by (simp add: zmod_zmult2_eq add.commute)
  finally show ?case .
qed simp

lemma sym_int_le64: "s_data s = le64 k \<Longrightarrow> sym_int s = s64 k"
proof -
  assume s: "s_data s = le64 k"
  have "word_rcat (rev (le64 k)) = (word_of_int (k mod 256 ^ 8) :: 64 word)"
    using horner_bytes [of k 8] by (simp add: word_rcat_def le64_def del: upt_Suc)
  moreover have "take 8 (s_data s) = le64 k" by (simp add: s le64_def)
  ultimately have "sym_int s = sint (word_of_int (k mod 256 ^ 8) :: 64 word)"
    by (simp add: sym_int_def)
  also have "\<dots> = s64 k"
    by (simp add: sint_sbintrunc' s64_def signed_take_bit_eq_take_bit_shift take_bit_eq_mod mod_add_left_eq)
  finally show ?thesis .
qed

section \<open>Taking and freeing temporaries\<close>

definition int_node :: "int \<Rightarrow> sym" where
  "int_node k = zero_sym\<lparr>s_locks := 1, s_flags := BE_SYM_INTEGER, s_data := le64 k\<rparr>"

lemma int_node_sel [simp]:
  "s_locks (int_node k) = 1" "s_flags (int_node k) = BE_SYM_INTEGER" "s_refs (int_node k) = 0"
  "s_first (int_node k) = 0" "s_last (int_node k) = 0" "s_next (int_node k) = 0" "s_prev (int_node k) = 0"
  "s_data (int_node k) = le64 k"
  by (simp_all add: int_node_def zero_sym_def)

text \<open>A node with an integer that no name refers to.\<close>

definition temp_ok :: "sym \<Rightarrow> int \<Rightarrow> bool" where
  "temp_ok s k \<longleftrightarrow> s_flags s = BE_SYM_INTEGER \<and> sym_int s = k \<and> s_refs s = 0 \<and> s_first s = 0 \<and> s_last s = 0 \<and>
     s_next s = 0 \<and> s_prev s = 0"

lemma temp_int_node: "in64 k \<Longrightarrow> temp_ok (int_node k) k"
  using sym_int_le64 [of "int_node k" k] s64_in64 by (simp add: temp_ok_def)

lemma sym_int_same [simp]: "sym_int (s\<lparr>s_locks := n\<rparr>) = sym_int s" "sym_int (s\<lparr>s_refs := n\<rparr>) = sym_int s"
  by (simp_all add: sym_int_def)

lemma temp_locks [simp]: "temp_ok (s\<lparr>s_locks := n\<rparr>) k = temp_ok s k"
  by (simp add: temp_ok_def)

definition room :: "nat set \<Rightarrow> sympool \<Rightarrow> bool" where
  "room F p \<longleftrightarrow> (\<exists>fs. free_list p fs \<and> set fs = F)"

lemma room_nonzero: "room F p \<Longrightarrow> 0 \<notin> F"
  using free_list_nonzero by (auto simp: room_def)

lemma room_finite: "room F p \<Longrightarrow> finite F"
  by (auto simp: room_def)

lemma room_frame:
  assumes "room F p" and "sym_free q = sym_free p" and "\<And>i. i \<in> F \<Longrightarrow> tab q i = tab p i"
  shows "room F q"
proof -
  obtain fs where fs: "free_list p fs" "set fs = F" using assms(1) by (auto simp: room_def)
  have "free_from (tab q) k fs = free_from (tab p) k fs" for k
    using assms(3) fs(2) by (intro free_from_frame) auto
  then show ?thesis using fs assms(2) by (auto simp: room_def free_list_def)
qed

lemma room_upd: "room F p \<Longrightarrow> i \<notin> F \<Longrightarrow> room F (upd i f p)"
  by (erule room_frame) auto

lemma new_int_takes:
  assumes "room F p" and "F \<noteq> {}"
  shows "\<exists>i q. new_int_symbol k p = Some (i, q) \<and> i \<in> F \<and> room (F - {i}) q \<and> tab q = (tab p)(i := int_node k)"
proof -
  obtain i fs where fs: "free_list p (i # fs)" "set (i # fs) = F"
  proof -
    obtain gs where gs: "free_list p gs" "set gs = F" using assms(1) by (auto simp: room_def)
    then show ?thesis using assms(2) that by (cases gs) auto
  qed
  note n = new_node_free [OF fs(1)]
  let ?q = "upd i (\<lambda>s. s\<lparr>s_flags := BE_SYM_INTEGER, s_data := le64 k\<rparr>) (taken i p)"
  have "free_list ?q fs" using n(2,4) by (simp add: free_list_upd)
  moreover have "set fs = F - {i}" using fs(2) n(4) by auto
  ultimately have "room (F - {i}) ?q" by (auto simp: room_def)
  moreover have "new_int_symbol k p = Some (i, ?q)" using n(1) by (simp add: new_int_symbol_def)
  moreover have "tab ?q = (tab p)(i := int_node k)" by (simp add: int_node_def)
  ultimately show ?thesis using fs(2) by (metis list.set_intros(1))
qed

lemma unlock_keeps:
  assumes "s_locks (tab p i) = Suc l" and "0 < l \<or> 0 < s_refs (tab p i)"
  shows "symbol_unlock i p = Some (if i = 0 then p else upd i (\<lambda>s. s\<lparr>s_locks := l\<rparr>) p)"
  using assms by (auto simp: unlock_simps Let_def upd_def)

lemma unlock_zero [simp]: "symbol_unlock 0 p = Some p"
  by (simp add: unlock_simps)

lemma free_int:
  assumes "s_flags (tab p i) = BE_SYM_INTEGER" and "s_next (tab p i) = 0" and "s_prev (tab p i) = 0"
    and "s_first (tab p i) = 0" and "s_last (tab p i) = 0"
  shows "free_symbol_node i p = Some (release i (p\<lparr>sym_usage := sym_usage p - 1\<rparr>))"
  using assms unfolding free_symbol_node_def by (subst run.simps) (simp add: sym_kinds)

section \<open>Operators on integers\<close>

text \<open>The value of an operator, also of the two that compare strictly; None when it has none.\<close>

definition op_value :: "tok \<Rightarrow> int \<Rightarrow> int \<Rightarrow> int option" where
  "op_value op x y =
     (if op = BE_TOKEN_OP_STRICT_EQUAL then Some (if x = y then 1 else 0)
      else if op = BE_TOKEN_OP_STRICT_NEQUAL then Some (if x = y then 0 else 1)
      else case int_op op x y of Some (Int_value k) \<Rightarrow> Some k | Some (Bool_value b) \<Rightarrow> Some (if b then 1 else 0) | _ \<Rightarrow> None)"

lemma bits_in64:
  assumes "in64 a" and "in64 b"
  shows "in64 (a AND b)" "in64 (a OR b)" "in64 (a XOR b)"
proof -
  have t: "in64 k \<longleftrightarrow> signed_take_bit 63 k = k" for k :: int
    by (auto simp: in64_def signed_take_bit_int_eq_self_iff)
  show "in64 (a AND b)" "in64 (a OR b)" "in64 (a XOR b)"
    using assms unfolding t
    by (auto simp: bit_eq_iff bit_signed_take_bit_iff bit_and_iff bit_or_iff bit_xor_iff)
qed

lemma quotient_in64:
  assumes "in64 a" and "in64 b" and "b \<noteq> 0" and "\<not> (a = - 9223372036854775808 \<and> b = -1)"
  shows "in64 (a sdiv b)" "in64 (a smod b)"
proof -
  have q: "\<bar>a sdiv b\<bar> = \<bar>a\<bar> div \<bar>b\<bar>"
    using assms(3) by (cases "a = 0") (simp_all add: signed_divide_int_def abs_mult abs_sgn_eq pos_imp_zdiv_nonneg_iff)
  have le: "\<bar>a\<bar> div \<bar>b\<bar> \<le> \<bar>a\<bar>" using zdiv_mono2 [of "\<bar>a\<bar>" 1 "\<bar>b\<bar>"] assms(3) by simp
  show "in64 (a sdiv b)"
  proof (cases "a = - 9223372036854775808")
    case False
    then show ?thesis using q le assms(1) by (auto simp: in64_def)
  next
    case True
    then have "b \<noteq> -1" using assms(4) by simp
    then consider "b = 1" | "2 \<le> \<bar>b\<bar>" using assms(3) by linarith
    then show ?thesis
    proof cases
      case 2
      then have "\<bar>a\<bar> div \<bar>b\<bar> \<le> \<bar>a\<bar> div 2" by (intro zdiv_mono2) auto
      then show ?thesis using q True by (auto simp: in64_def)
    qed (simp add: True signed_divide_int_def in64_def)
  qed
  have "\<bar>a smod b\<bar> \<le> \<bar>a\<bar> mod \<bar>b\<bar>"
    using assms(3) by (simp add: signed_modulo_int_def abs_mult abs_sgn_eq pos_mod_sign)
  also have "\<dots> < \<bar>b\<bar>" using assms(3) by simp
  finally show "in64 (a smod b)" using assms(2) by (auto simp: in64_def)
qed

lemma op_value_in64:
  assumes "op_value op x y = Some k" and "in64 x" and "in64 y"
  shows "in64 k"
proof -
  have "in64 (x div 2 ^ n)" for n
  proof -
    have p: "(1 :: int) \<le> 2 ^ n" by simp
    have "x div 2 ^ n \<le> 9223372036854775807 div 2 ^ n" using assms(2) p by (intro zdiv_mono1) (auto simp: in64_def)
    moreover have "9223372036854775807 div 2 ^ n \<le> (9223372036854775807 :: int)" using zdiv_mono2 [of 9223372036854775807 1 "2 ^ n :: int"] p by simp
    moreover have "(- 9223372036854775808) div 2 ^ n \<le> x div 2 ^ n" using assms(2) p by (intro zdiv_mono1) (auto simp: in64_def)
    moreover have "- 9223372036854775808 \<le> (- 9223372036854775808 :: int) div 2 ^ n"
      using zdiv_mono2_neg [of "- 9223372036854775808" 1 "2 ^ n :: int"] p by simp
    ultimately show ?thesis by (simp add: in64_def)
  qed
  then show ?thesis
    using assms bits_in64 [OF assms(2,3)] quotient_in64 [OF assms(2,3)]
    by (auto simp: op_value_def int_op_def split: if_splits)
qed

section \<open>The references that are held\<close>

text \<open>Integers and integer variables among the nodes that are in use.\<close>

definition int_at :: "sympool \<Rightarrow> nat set \<Rightarrow> nat \<Rightarrow> int \<Rightarrow> bool" where
  "int_at p0 F0 c k \<longleftrightarrow> c \<noteq> 0 \<and> c \<notin> F0 \<and> s_flags (tab p0 c) = BE_SYM_INTEGER \<and>
     sym_int (tab p0 c) = k \<and> in64 k \<and> 0 < s_refs (tab p0 c)"

definition var_at :: "sympool \<Rightarrow> nat set \<Rightarrow> nat \<Rightarrow> int \<Rightarrow> bool" where
  "var_at p0 F0 n k \<longleftrightarrow> n \<noteq> 0 \<and> n \<notin> F0 \<and> s_flags (tab p0 n) = BE_SYM_STRING OR BE_SYM_NAME \<and>
     0 < s_refs (tab p0 n) \<and> int_at p0 F0 (s_first (tab p0 n)) k"

text \<open>References that are no names.\<close>

definition plain_ref :: "sympool \<Rightarrow> nat set \<Rightarrow> nat \<Rightarrow> bool" where
  "plain_ref p0 F0 c \<longleftrightarrow> c = 0 \<or> c \<in> F0 \<or> s_flags (tab p0 c) = BE_SYM_INTEGER"

type_synonym refs = "(nat \<times> int) multiset"

definition uses :: "refs \<Rightarrow> nat \<Rightarrow> nat" where
  "uses H i = count (image_mset fst H) i"

definition entry_ok :: "sympool \<Rightarrow> nat set \<Rightarrow> refs \<Rightarrow> sympool \<Rightarrow> nat \<Rightarrow> int \<Rightarrow> bool" where
  "entry_ok p0 F0 H p i k \<longleftrightarrow> in64 k \<and>
     (if i = 0 then k = 0
      else if i \<in> F0 then temp_ok (tab p i) k \<and> s_locks (tab p i) = uses H i
      else int_at p0 F0 i k \<or> var_at p0 F0 i k)"

text \<open>
  From the table \<open>p0\<close> with the free nodes \<open>F0\<close> on, the references \<open>H\<close> are held: those to
  nodes of \<open>F0\<close> are temporary integers, the others are locks of integers and variables.
\<close>

definition ints :: "sympool \<Rightarrow> nat set \<Rightarrow> refs \<Rightarrow> sympool \<Rightarrow> bool" where
  "ints p0 F0 H p \<longleftrightarrow> 0 \<notin> F0 \<and> finite F0 \<and> room (F0 - fst ` set_mset H) p \<and>
     (\<forall>i. i \<notin> F0 \<and> i \<noteq> 0 \<longrightarrow> tab p i = (tab p0 i)\<lparr>s_locks := s_locks (tab p0 i) + uses H i\<rparr>) \<and>
     (\<forall>(i, k)\<in>set_mset H. entry_ok p0 F0 H p i k)"

text \<open>There is room for \<open>n\<close> references.\<close>

definition fits :: "sympool \<Rightarrow> nat set \<Rightarrow> nat \<Rightarrow> bool" where
  "fits p0 F0 n \<longleftrightarrow> n \<le> card F0 \<and> n < 250 \<and> (\<forall>i. i \<notin> F0 \<and> i \<noteq> 0 \<longrightarrow> s_locks (tab p0 i) + n < 250)"

lemma fits_mono: "fits p0 F0 n \<Longrightarrow> m \<le> n \<Longrightarrow> fits p0 F0 m"
  unfolding fits_def by (metis add_le_cancel_left le_trans not_less order_le_less_trans)

lemma uses_simps [simp]:
  "uses {#} i = 0" "uses (add_mset x H) i = uses H i + (if fst x = i then 1 else 0)"
  by (simp_all add: uses_def)

lemma uses_le: "uses H i \<le> size H"
  unfolding uses_def by (metis count_le_size size_image_mset)

lemma uses_pos: "(i, k) \<in># H \<Longrightarrow> 0 < uses H i"
  unfolding uses_def by (metis count_greater_zero_iff fst_conv image_eqI set_image_mset)

lemma uses_zero: "uses H i = 0 \<longleftrightarrow> i \<notin> fst ` set_mset H"
  by (simp add: uses_def count_eq_zero_iff)

lemma ints_empty: "room F0 p \<Longrightarrow> ints p F0 {#} p"
  using room_nonzero room_finite by (auto simp: ints_def)

lemma ints_zero:
  assumes "ints p0 F0 H p"
  shows "ints p0 F0 (add_mset (0, 0) H) p"
proof -
  have F: "F0 - fst ` set_mset (add_mset (0, 0 :: int) H) = F0 - fst ` set_mset H" using assms by (auto simp: ints_def)
  have "entry_ok p0 F0 (add_mset (0, 0) H) p j m" if "(j, m) \<in># H" for j m
  proof -
    have "entry_ok p0 F0 H p j m" using that assms by (auto simp: ints_def)
    then show ?thesis by (auto simp: entry_ok_def)
  qed
  then show ?thesis using assms unfolding ints_def F by (auto simp: entry_ok_def)
qed

lemma ints_new:
  assumes "ints p0 F0 H p" and "fits p0 F0 (size H + 1)" and "in64 k"
  shows "\<exists>i q. new_int_symbol k p = Some (i, q) \<and> i \<noteq> 0 \<and> plain_ref p0 F0 i \<and> ints p0 F0 (add_mset (i, k) H) q"
proof -
  let ?F = "F0 - fst ` set_mset H"
  have "card (fst ` set_mset H) \<le> card (set_mset H)" by (rule card_image_le) simp
  also have "card (set_mset H) \<le> size H" by (metis size_multiset_overloaded_eq sum_mono card_eq_sum
      count_greater_eq_one_iff finite_set_mset sum.cong)
  finally have "card (fst ` set_mset H) < card F0" using assms(2) by (simp add: fits_def)
  then have "?F \<noteq> {}" by (metis Diff_eq_empty_iff card_mono finite_imageI finite_set_mset not_le)
  moreover have "room ?F p" using assms(1) by (simp add: ints_def)
  ultimately obtain i q where q: "new_int_symbol k p = Some (i, q)" "i \<in> ?F" "room (?F - {i}) q"
    "tab q = (tab p)(i := int_node k)" using new_int_takes by blast
  have i: "i \<in> F0" "i \<noteq> 0" "uses H i = 0" using q(2) assms(1) by (auto simp: ints_def uses_zero)
  have F: "F0 - fst ` set_mset (add_mset (i, k) H) = ?F - {i}" by auto
  have "entry_ok p0 F0 (add_mset (i, k) H) q j m" if "(j, m) \<in># H" for j m
  proof -
    have "j \<noteq> i" using that i(3) by (auto simp: uses_zero image_iff)
    moreover have "entry_ok p0 F0 H p j m" using that assms(1) by (auto simp: ints_def)
    ultimately show ?thesis using q(4) by (auto simp: entry_ok_def)
  qed
  moreover have "entry_ok p0 F0 (add_mset (i, k) H) q i k"
    using i q(4) assms(3) temp_int_node [OF assms(3)] by (simp add: entry_ok_def)
  ultimately have "ints p0 F0 (add_mset (i, k) H) q"
    using assms(1) q(3,4) i(1) unfolding ints_def F by auto
  then show ?thesis using q(1) i(1,2) by (auto simp: plain_ref_def)
qed

text \<open>A node that can be locked: one that is held, or an integer or a variable in use.\<close>

definition holdable :: "sympool \<Rightarrow> nat set \<Rightarrow> refs \<Rightarrow> nat \<Rightarrow> int \<Rightarrow> bool" where
  "holdable p0 F0 H i k \<longleftrightarrow> i \<noteq> 0 \<and> ((i, k) \<in># H \<or> int_at p0 F0 i k \<or> var_at p0 F0 i k)"

lemma holdable_add: "holdable p0 F0 H i k \<Longrightarrow> holdable p0 F0 (add_mset x H) i k"
  by (auto simp: holdable_def)

lemma int_at_sel: "int_at p0 F0 i k \<Longrightarrow> i \<noteq> 0 \<and> i \<notin> F0 \<and> in64 k"
  "var_at p0 F0 i k \<Longrightarrow> i \<noteq> 0 \<and> i \<notin> F0 \<and> in64 k"
  by (auto simp: int_at_def var_at_def)

lemma ints_lock:
  assumes "ints p0 F0 H p" and "fits p0 F0 (size H + 1)" and "holdable p0 F0 H i k"
  shows "symbol_lock i p = Some (locked i p)" "ints p0 F0 (add_mset (i, k) H) (locked i p)"
proof -
  have z: "i \<noteq> 0" using assms(3) by (simp add: holdable_def)
  have u: "uses H i + 1 < 250" using uses_le [of H i] assms(2) by (simp add: fits_def)
  have t: "s_locks (tab p i) = uses H i \<and> (i, k) \<in># H" if "i \<in> F0"
    using assms(1,3) that int_at_sel [of p0 F0 i k] by (auto simp: ints_def holdable_def entry_ok_def)
  have n: "s_locks (tab p i) = s_locks (tab p0 i) + uses H i" if "i \<notin> F0"
    using assms(1) that z by (simp add: ints_def)
  have l: "s_locks (tab p i) < 255"
  proof (cases "i \<in> F0")
    case False
    then have "s_locks (tab p0 i) + (size H + 1) < 250" using assms(2) z by (simp add: fits_def)
    then show ?thesis using n [OF False] uses_le [of H i] by linarith
  qed (use t u in auto)
  then show "symbol_lock i p = Some (locked i p)" using z by (simp add: symbol_lock_def locked_def upd_def)
  have F: "F0 - fst ` set_mset (add_mset (i, k) H) = F0 - fst ` set_mset H"
    using t by (cases "i \<in> F0") force+
  have i: "i \<notin> F0 - fst ` set_mset H" using t by (cases "i \<in> F0") force+
  have ok: "entry_ok p0 F0 (add_mset (i, k) H) (locked i p) j m" if "(j, m) \<in># H" for j m
  proof -
    have "entry_ok p0 F0 H p j m" using that assms(1) by (auto simp: ints_def)
    then show ?thesis by (auto simp: entry_ok_def locked_def)
  qed
  have "entry_ok p0 F0 (add_mset (i, k) H) (locked i p) i k"
  proof (cases "(i, k) \<in># H")
    case False
    then have "int_at p0 F0 i k \<or> var_at p0 F0 i k" using assms(3) by (simp add: holdable_def)
    then show ?thesis using int_at_sel [of p0 F0 i k] by (auto simp: entry_ok_def)
  qed (rule ok)
  moreover have "room (F0 - fst ` set_mset H) (locked i p)"
    using assms(1) i unfolding locked_def by (intro room_upd) (simp_all add: ints_def)
  ultimately show "ints p0 F0 (add_mset (i, k) H) (locked i p)"
    using assms(1) ok unfolding ints_def F by (auto simp: locked_def)
qed

lemma ints_unlock:
  assumes "ints p0 F0 (add_mset (i, k) H) p"
  shows "\<exists>q. symbol_unlock i p = Some q \<and> ints p0 F0 H q"
proof -
  note a = assms [unfolded ints_def]
  have e: "entry_ok p0 F0 (add_mset (i, k) H) p i k" using a by auto
  consider "i = 0" | "i \<noteq> 0" "i \<notin> F0" | "i \<in> F0" "i \<noteq> 0" by blast
  then show ?thesis
  proof cases
    case 1
    have "entry_ok p0 F0 H p j m" if "(j, m) \<in># H" for j m
    proof -
      have "entry_ok p0 F0 (add_mset (i, k) H) p j m" using a that by auto
      then show ?thesis using 1 by (auto simp: entry_ok_def)
    qed
    moreover have "F0 - fst ` set_mset (add_mset (i, k) H) = F0 - fst ` set_mset H" using 1 a by auto
    ultimately have "ints p0 F0 H p" using a 1 unfolding ints_def by auto
    then show ?thesis using 1 by simp
  next
    case 2
    have r: "0 < s_refs (tab p0 i)" using e 2 by (auto simp: entry_ok_def int_at_def var_at_def)
    have t: "tab p i = (tab p0 i)\<lparr>s_locks := s_locks (tab p0 i) + uses H i + 1\<rparr>" using a 2 by simp
    let ?q = "upd i (\<lambda>s. s\<lparr>s_locks := s_locks (tab p0 i) + uses H i\<rparr>) p"
    have "symbol_unlock i p = Some ?q" using 2 t r unlock_keeps [of p i] by simp
    moreover have "entry_ok p0 F0 H ?q j m" if "(j, m) \<in># H" for j m
    proof -
      have "entry_ok p0 F0 (add_mset (i, k) H) p j m" using a that by auto
      then show ?thesis using 2 by (auto simp: entry_ok_def)
    qed
    moreover have "F0 - fst ` set_mset (add_mset (i, k) H) = F0 - fst ` set_mset H" using 2 by auto
    moreover have "room (F0 - fst ` set_mset (add_mset (i, k) H)) ?q" using a 2 by (intro room_upd) auto
    ultimately show ?thesis using a t 2 by (intro exI [of _ ?q]) (auto simp: ints_def)
  next
    case 3
    have t: "s_locks (tab p i) = uses H i + 1" "temp_ok (tab p i) k" using e 3 by (simp_all add: entry_ok_def)
    let ?p = "upd i (\<lambda>s. s\<lparr>s_locks := uses H i\<rparr>) p"
    have d: "upd i (\<lambda>s. s\<lparr>s_locks := s_locks s - 1\<rparr>) p = ?p" using t by (simp add: upd_def)
    have other: "entry_ok p0 F0 H ?p j m" if "(j, m) \<in># H" for j m
    proof -
      have "entry_ok p0 F0 (add_mset (i, k) H) p j m" using a that by auto
      then show ?thesis using 3 t by (auto simp: entry_ok_def)
    qed
    have room: "room (F0 - fst ` set_mset (add_mset (i, k) H)) ?p" using a by (intro room_upd) auto
    show ?thesis
    proof (cases "uses H i = 0")
      case False
      have "symbol_unlock i p = Some ?p" using 3 t False unlock_keeps [of p i "uses H i"] by simp
      moreover have "F0 - fst ` set_mset (add_mset (i, k) H) = F0 - fst ` set_mset H"
        using False by (auto simp: uses_zero)
      ultimately show ?thesis using a other room 3 by (intro exI [of _ ?p]) (auto simp: ints_def)
    next
      case True
      let ?q = "release i (?p\<lparr>sym_usage := sym_usage p - 1\<rparr>)"
      have "symbol_unlock i p = Some ?q"
        using 3 t True free_int [of ?p i] unfolding unlock_simps d by (simp add: temp_ok_def)
      moreover have "F0 - fst ` set_mset H = insert i (F0 - fst ` set_mset (add_mset (i, k) H))"
        using True 3 by (auto simp: uses_zero)
      moreover have "room (insert i (F0 - fst ` set_mset (add_mset (i, k) H))) ?q"
      proof -
        obtain fs where fs: "free_list ?p fs" "set fs = F0 - fst ` set_mset (add_mset (i, k) H)"
          using room by (auto simp: room_def)
        have "free_list (?p\<lparr>sym_usage := sym_usage p - 1\<rparr>) fs" using fs(1) by (simp add: free_list_def)
        then have "free_list ?q (i # fs)" using 3(2) fs(2) by (intro release_free_list) auto
        moreover have "set (i # fs) = insert i (F0 - fst ` set_mset (add_mset (i, k) H))" using fs(2) by simp
        ultimately show ?thesis unfolding room_def by blast
      qed
      moreover have "entry_ok p0 F0 H ?q j m" if "(j, m) \<in># H" for j m
      proof -
        have "j \<noteq> i" using that True by (auto simp: uses_zero image_iff)
        then show ?thesis using other [OF that] by (auto simp: entry_ok_def)
      qed
      moreover have "tab ?q j = (tab p0 j)\<lparr>s_locks := s_locks (tab p0 j) + uses H j\<rparr>" if "j \<notin> F0" "j \<noteq> 0" for j
      proof -
        have "j \<noteq> i" using that 3 by auto
        then show ?thesis using a that by simp
      qed
      ultimately show ?thesis using a by (intro exI [of _ ?q]) (auto simp: ints_def)
    qed
  qed
qed

section \<open>Values of names\<close>

lemma int_flags_kinds:
  "s_flags s = BE_SYM_INTEGER \<Longrightarrow> symbol_is_int s \<and> symbol_is_number s \<and> \<not> symbol_is_float s \<and> \<not> symbol_is_null s
     \<and> \<not> symbol_is_name s \<and> sym_type s = BE_SYM_INTEGER"
  by (simp add: sym_kinds)

lemma plain_node:
  assumes "ints p0 F0 H p" and "(c, k) \<in># H" and "plain_ref p0 F0 c" and "c \<noteq> 0"
  shows "s_flags (tab p c) = BE_SYM_INTEGER" "sym_int (tab p c) = k"
proof -
  have e: "entry_ok p0 F0 H p c k" using assms(1,2) by (auto simp: ints_def)
  have "s_flags (tab p c) = BE_SYM_INTEGER \<and> sym_int (tab p c) = k"
  proof (cases "c \<in> F0")
    case True
    then show ?thesis using e assms(4) by (simp add: entry_ok_def temp_ok_def)
  next
    case False
    have "tab p c = (tab p0 c)\<lparr>s_locks := s_locks (tab p0 c) + uses H c\<rparr>"
      using assms(1,4) False by (simp add: ints_def)
    moreover have "int_at p0 F0 c k"
      using e False assms(3,4) by (auto simp: entry_ok_def plain_ref_def var_at_def)
    ultimately show ?thesis by (simp add: int_at_def sym_int_def)
  qed
  then show "s_flags (tab p c) = BE_SYM_INTEGER" "sym_int (tab p c) = k" by simp_all
qed

lemma plain_read:
  assumes "ints p0 F0 H p" and "(c, k) \<in># H" and "plain_ref p0 F0 c"
  shows "get_symbol_int G c p = Some (k, p)"
proof (cases "c = 0")
  case True
  have "entry_ok p0 F0 H p c k" using assms(1,2) by (auto simp: ints_def)
  then show ?thesis using True by (simp add: entry_ok_def get_symbol_int_def)
next
  case False
  then show ?thesis using plain_node [OF assms] int_flags_kinds by (simp add: get_symbol_int_def)
qed

lemma ints_value:
  assumes "ints p0 F0 H p" and "fits p0 F0 (size H + 1)" and "(i, k) \<in># H"
  shows "\<exists>c q. get_symbol_value i p = Some (c, q) \<and> (c = 0 \<longleftrightarrow> i = 0) \<and> plain_ref p0 F0 c \<and> ints p0 F0 (add_mset (c, k) H) q"
proof (cases "i = 0")
  case True
  then have "k = 0" using assms(1,3) by (auto simp: ints_def entry_ok_def)
  then have "ints p0 F0 (add_mset (i, k) H) p" using ints_zero [OF assms(1)] True by simp
  then show ?thesis using True by (simp add: get_symbol_value_def plain_ref_def)
next
  case False
  show ?thesis
  proof (cases "plain_ref p0 F0 i")
    case True
    have "\<not> symbol_is_name (tab p i)" using plain_node(1) [OF assms(1,3) True False] int_flags_kinds by blast
    moreover note ints_lock [OF assms(1,2), of i k]
    moreover have "holdable p0 F0 H i k" using False assms(3) by (simp add: holdable_def)
    ultimately have "get_symbol_value i p = Some (i, locked i p)" "ints p0 F0 (add_mset (i, k) H) (locked i p)"
      using False by (simp_all add: get_symbol_value_def value_loop.simps [of i i p] symbol_relock_def)
    then show ?thesis using True by blast
  next
    case np: False
    have e: "entry_ok p0 F0 H p i k" using assms(1,3) by (auto simp: ints_def)
    then have v: "var_at p0 F0 i k" using np False by (auto simp: entry_ok_def plain_ref_def int_at_def)
    define c where "c = s_first (tab p0 i)"
    have c: "int_at p0 F0 c k" "c \<noteq> 0" "c \<notin> F0" using v by (auto simp: var_at_def int_at_def c_def)
    have ti: "tab p i = (tab p0 i)\<lparr>s_locks := s_locks (tab p0 i) + uses H i\<rparr>"
      using assms(1) v by (auto simp: ints_def var_at_def)
    have tc: "tab p c = (tab p0 c)\<lparr>s_locks := s_locks (tab p0 c) + uses H c\<rparr>"
      using assms(1) c by (auto simp: ints_def)
    have ni: "symbol_is_name (tab p i)" using v ti by (simp add: var_at_def sym_kinds)
    have nc: "\<not> symbol_is_name (tab (locked c p) c)"
      using c(1) tc by (simp add: int_at_def sym_kinds locked_def)
    have ne: "c \<noteq> i" using ni nc by (auto simp: locked_def sym_kinds)
    have h: "holdable p0 F0 H c k" using c by (simp add: holdable_def)
    note l = ints_lock [OF assms(1,2) h]
    have "value_loop i i p = Some (c, locked c p)"
      using ni ne nc c(2) l(1) ti
      by (simp add: value_loop.simps [of i i p] value_loop.simps [of i "s_first (tab p0 i)" "locked (s_first (tab p0 i)) p"] c_def Let_def)
    then show ?thesis using l(2) False c np by (auto simp: get_symbol_value_def plain_ref_def int_at_def)
  qed
qed

section \<open>Operators on references\<close>

lemma plain_op_ints:
  assumes "ints p0 F0 H p" and "fits p0 F0 (size H + 1)" and "(a, x) \<in># H" and "(b, y) \<in># H"
    and "plain_ref p0 F0 a" and "plain_ref p0 F0 b" and "a \<noteq> 0"
    and "op \<noteq> BE_TOKEN_OP_STRICT_EQUAL" and "op \<noteq> BE_TOKEN_OP_STRICT_NEQUAL" and "op_value op x y = Some k"
  shows "\<exists>i q. plain_op G a b op p = Some (i, q) \<and> i \<noteq> 0 \<and> plain_ref p0 F0 i \<and> ints p0 F0 (add_mset (i, k) H) q"
proof -
  obtain r where r: "int_op op x y = Some r" "r = Int_value k \<or> (\<exists>t. r = Bool_value t \<and> k = (if t then 1 else 0))"
    using assms(8-10) by (auto simp: op_value_def split: option.splits int_result.splits)
  have "in64 x" "in64 y" using assms(1,3,4) by (auto simp: ints_def entry_ok_def)
  then have k: "in64 k" using op_value_in64 assms(10) by blast
  have a: "symbol_is_number (tab p a)" "\<not> symbol_is_float (tab p a)" "\<not> symbol_is_null (tab p a)"
    using plain_node [OF assms(1,3,5,7)] int_flags_kinds by blast+
  have b: "b = 0 \<or> symbol_is_number (tab p b)" "b \<noteq> 0 \<longrightarrow> \<not> symbol_is_float (tab p b)"
    using plain_node [OF assms(1,4,6)] int_flags_kinds by blast+
  have "plain_op G a b op p = int_result_symbol r p"
    using a b r(1) assms(7) plain_read [OF assms(1,3,5)] plain_read [OF assms(1,4,6)]
    by (auto simp: plain_op_def node_is_def)
  moreover have "int_result_symbol r p = new_int_symbol k p"
    using r(2) by (auto simp: int_result_symbol_def new_bool_symbol_def)
  ultimately show ?thesis using ints_new [OF assms(1,2) k] by simp
qed

lemma maths_op_ints:
  assumes "ints p0 F0 H p" and "fits p0 F0 (size H + 1)" and "(a, x) \<in># H" and "(b, y) \<in># H"
    and "plain_ref p0 F0 a" and "plain_ref p0 F0 b" and "a \<noteq> 0"
    and "b \<noteq> 0 \<or> op \<noteq> BE_TOKEN_OP_STRICT_EQUAL \<and> op \<noteq> BE_TOKEN_OP_STRICT_NEQUAL" and "op_value op x y = Some k"
  shows "\<exists>i q. symbol_maths_op G a b op p = Some (i, q) \<and> i \<noteq> 0 \<and> plain_ref p0 F0 i \<and> ints p0 F0 (add_mset (i, k) H) q"
proof (cases "op = BE_TOKEN_OP_STRICT_EQUAL \<or> op = BE_TOKEN_OP_STRICT_NEQUAL")
  case False
  then show ?thesis using plain_op_ints [OF assms(1-7) _ _ assms(9), of G] by (auto simp: symbol_maths_op_def)
next
  case True
  then have b: "b \<noteq> 0" using assms(8) by auto
  have t: "sym_type (tab p a) = sym_type (tab p b)"
    using plain_node [OF assms(1,3,5,7)] plain_node [OF assms(1,4,6) b] int_flags_kinds by metis
  have "op_value BE_TOKEN_OP_EQUAL x y = Some (if x = y then 1 else 0)" by (simp add: op_value_def int_op_def)
  from plain_op_ints [OF assms(1-7) _ _ this, of G] obtain c q where
    q: "plain_op G a b BE_TOKEN_OP_EQUAL p = Some (c, q)" "c \<noteq> 0" "ints p0 F0 (add_mset (c, if x = y then 1 else 0) H) q"
    "plain_ref p0 F0 c" by auto
  then have r: "get_symbol_bool G c q = Some (x = y, q)"
    using plain_read [OF q(3) _ q(4), of "if x = y then 1 else 0" G] by (simp add: get_symbol_bool_def)
  obtain q' where q': "symbol_unlock c q = Some q'" "ints p0 F0 H q'" using ints_unlock [OF q(3)] by blast
  have "in64 k" using assms(9) True by (auto simp: op_value_def split: if_splits)
  from ints_new [OF q'(2) assms(2) this] show ?thesis
    using True q r q'(1) assms(7,9) b t
    by (auto simp: symbol_maths_op_def op_value_def new_bool_symbol_def split: if_splits)
qed

lemma ints_maths:
  assumes "ints p0 F0 H p" and "fits p0 F0 (size H + 3)" and "(a, x) \<in># H" and "(b, y) \<in># H" and "a \<noteq> 0"
    and "b \<noteq> 0 \<or> op \<noteq> BE_TOKEN_OP_STRICT_EQUAL \<and> op \<noteq> BE_TOKEN_OP_STRICT_NEQUAL" and "op_value op x y = Some k"
  shows "\<exists>i q. symbol_value_maths_op G a b op p = Some (i, q) \<and> i \<noteq> 0 \<and> plain_ref p0 F0 i \<and> ints p0 F0 (add_mset (i, k) H) q"
proof -
  have f: "fits p0 F0 (size H + 1)" "fits p0 F0 (size H + 1 + 1)" "fits p0 F0 (size H + 1 + 1 + 1)"
    using fits_mono [OF assms(2)] by simp_all
  obtain c p1 where c: "get_symbol_value a p = Some (c, p1)" "c \<noteq> 0" "plain_ref p0 F0 c" "ints p0 F0 (add_mset (c, x) H) p1"
    using ints_value [OF assms(1) f(1) assms(3)] assms(5) by blast
  obtain d p2 where d: "get_symbol_value b p1 = Some (d, p2)" "d = 0 \<longleftrightarrow> b = 0" "plain_ref p0 F0 d"
    "ints p0 F0 (add_mset (d, y) (add_mset (c, x) H)) p2"
    using ints_value [OF c(4), of b y] f(2) assms(4) by auto
  obtain i p3 where i: "symbol_maths_op G c d op p2 = Some (i, p3)" "i \<noteq> 0 \<and> plain_ref p0 F0 i"
    "ints p0 F0 (add_mset (i, k) (add_mset (d, y) (add_mset (c, x) H))) p3"
    using maths_op_ints [OF d(4), of c x d y op k G] f(3) c(2,3) d(2,3) assms(6,7) by auto
  have "ints p0 F0 (add_mset (c, x) (add_mset (d, y) (add_mset (i, k) H))) p3"
    using i(3) by (simp add: add_mset_commute)
  then obtain p4 where p4: "symbol_unlock c p3 = Some p4" "ints p0 F0 (add_mset (d, y) (add_mset (i, k) H)) p4"
    using ints_unlock by blast
  obtain p5 where "symbol_unlock d p4 = Some p5" "ints p0 F0 (add_mset (i, k) H) p5"
    using ints_unlock [OF p4(2)] by blast
  then show ?thesis using c(1) d(1) i(1,2) p4(1) by (simp add: symbol_value_maths_op_def)
qed

lemma ints_value_bool:
  assumes "ints p0 F0 H p" and "fits p0 F0 (size H + 1)" and "(a, x) \<in># H"
  shows "\<exists>q. get_symbol_value_bool G a p = Some (x \<noteq> 0, q) \<and> ints p0 F0 H q"
proof -
  obtain c p1 where c: "get_symbol_value a p = Some (c, p1)" "plain_ref p0 F0 c" "ints p0 F0 (add_mset (c, x) H) p1"
    using ints_value [OF assms] by blast
  obtain q where "symbol_unlock c p1 = Some q" "ints p0 F0 H q" using ints_unlock [OF c(3)] by blast
  then show ?thesis
    using c plain_read [OF c(3), of c x G]
    by (simp add: get_symbol_value_bool_def get_symbol_value_int_def)
qed

end
