(* ===== verification/Exec_Env.thy ===== *)
theory Exec_Env
  imports Exec_Pool
begin

text \<open>
  Global integer variables: names of the root object whose values are integers, and their
  look up while an expression is evaluated.
\<close>

text \<open>
  \<open>globals p0 F0 root ks rho\<close>: the table \<open>p0\<close> with the free nodes \<open>F0\<close> has an object
  \<open>root\<close> with the children \<open>ks\<close>, and the variables \<open>rho\<close> are among them.
\<close>

definition globals :: "sympool \<Rightarrow> nat set \<Rightarrow> nat \<Rightarrow> kid list \<Rightarrow> (byte list \<rightharpoonup> int) \<Rightarrow> bool" where
  "globals p0 F0 root ks rho \<longleftrightarrow>
     object_at p0 root ks \<and> set (root # kid_nodes ks) \<inter> F0 = {} \<and> 0 < s_refs (tab p0 root) \<and>
     s_flags (tab p0 root) = BE_SYM_ROOT \<and>
     (\<forall>name k. rho name = Some k \<longrightarrow> (\<exists>n js. find_kid name ks = Some (n, js, name) \<and> var_at p0 F0 n k))"

lemma ints_other:
  assumes "ints p0 F0 H p" and "i \<noteq> 0" and "i \<notin> F0" and "\<not> symbol_is_name (tab p0 i)" and "s_flags (tab p0 i) \<noteq> BE_SYM_INTEGER"
  shows "tab p i = tab p0 i"
proof -
  have "i \<notin> fst ` set_mset H"
  proof
    assume "i \<in> fst ` set_mset H"
    then obtain k where "(i, k) \<in># H" by auto
    then have "int_at p0 F0 i k \<or> var_at p0 F0 i k" using assms(1-3) by (auto simp: ints_def entry_ok_def)
    then show False using assms(4,5) by (auto simp: int_at_def var_at_def sym_kinds)
  qed
  then show ?thesis using assms(1-3) by (simp add: ints_def flip: uses_zero)
qed

lemma kids_ints:
  assumes "ints p0 F0 H p" and "fits p0 F0 (size H)" and "kids p0 c ks" and "set (kid_nodes ks) \<inter> F0 = {}"
  shows "kids p c ks"
  using assms(3,4)
proof (induction ks arbitrary: c)
  case (Cons x ks)
  obtain k js nm where x: "x = (k, js, nm)" by (cases x)
  have k: "c = k" "kid_ok p0 k js nm" "kids p0 (s_next (tab p0 k)) ks" "k \<notin> F0" using Cons.prems by (auto simp: x)
  have ch: "str_chain p0 k js nm" "k \<noteq> 0" using k(2) by (auto simp: kid_ok_def str_chain_def)
  have t: "tab p k = (tab p0 k)\<lparr>s_locks := s_locks (tab p0 k) + uses H k\<rparr>" using assms(1) k(4) ch(2) by (simp add: ints_def)
  have "s_locks (tab p0 k) + size H < 250" using assms(2) k(4) ch(2) by (simp add: fits_def)
  then have l: "s_locks (tab p k) < 254" using t uses_le [of H k] by simp
  have js: "\<forall>j\<in>set js. tab p j = tab p0 j"
  proof
    fix j assume j: "j \<in> set js"
    have "j \<notin> F0" using j Cons.prems(2) by (auto simp: x)
    then show "tab p j = tab p0 j"
      using ch j by (intro ints_other [OF assms(1)]) (auto simp: str_chain_def ext_ok_def sym_kinds)
  qed
  have "kid_ok p k js nm"
    using k(2) js l t by (intro kid_ok_frame [OF k(2)]) (auto simp: same_str_def kid_ok_def)
  moreover have "kids p (s_next (tab p0 k)) ks" using k(3) Cons.prems(2) by (intro Cons.IH) (auto simp: x)
  ultimately show ?case using k(1) t by (simp add: x)
qed simp

lemma lookup_name:
  assumes "ints p0 F0 H p" and "fits p0 F0 (size H + 1)" and "globals p0 F0 root ks rho"
    and "find_kid name ks = Some (n, js, name)" and "var_at p0 F0 n k"
  shows "\<exists>q. lookup_named_child_symbol root name create p = Some (n, q) \<and> ints p0 F0 (add_mset (n, k) H) q"
proof -
  note g = assms(3) [unfolded globals_def]
  have r: "root \<noteq> 0" "root \<notin> F0" "set (kid_nodes ks) \<inter> F0 = {}" using g by (auto simp: object_at_def)
  have t: "tab p root = tab p0 root" using g r by (intro ints_other [OF assms(1)]) (auto simp: sym_kinds)
  have f: "fits p0 F0 (size H)" using fits_mono [OF assms(2)] by simp
  have k0: "kids p0 (s_first (tab p0 root)) ks" using g by (simp add: object_at_def)
  have kp: "kids p (s_first (tab p0 root)) ks" using kids_ints [OF assms(1) f k0 r(3)] .
  have ob: "object_at p root ks" using g kp t by (simp add: object_at_def)
  have h: "held p root" using assms(2) r g t by (auto simp: held_def fits_def)
  have z: "0 \<notin> set name" using find_kid_in [OF assms(4) k0] by (auto simp: kid_ok_def)
  have "holdable p0 F0 H n k" using assms(5) by (auto simp: holdable_def var_at_def)
  then show ?thesis
    using lookup_named_finds [OF ob h z assms(4)] ints_lock(2) [OF assms(1,2)] by auto
qed

lemma lookup_global:
  assumes "ints p0 F0 H p" and "fits p0 F0 (size H + 1)" and "globals p0 F0 root ks rho" and "rho name = Some k"
  shows "\<exists>n q. lookup_named_child_symbol root name create p = Some (n, q) \<and> n \<noteq> 0 \<and> ints p0 F0 (add_mset (n, k) H) q"
proof -
  obtain n js where n: "find_kid name ks = Some (n, js, name)" "var_at p0 F0 n k"
    using assms(3,4) unfolding globals_def by blast
  moreover have "n \<noteq> 0" using n(2) by (simp add: var_at_def)
  ultimately show ?thesis using lookup_name [OF assms(1-3) n] by blast
qed

end
