(* ===== verification/Lexer_Window.thy ===== *)
theory Lexer_Window
  imports Lexer_Trip
begin

text \<open>
  Positions: where the tokens of a source start and end, and lexers over a part of a source.
  A part of a source is set up at the start of a token and ends with a token, as the
  interpreter does for the parts of a loop; such a lexer reads the tokens of the part,
  also after it has been reset.
\<close>

section \<open>What reading a token leaves alone\<close>

definition frame :: "lexer \<Rightarrow> int \<times> int \<times> int \<times> byte list option" where
  "frame l = (token_end l, start_pos l, end_pos l, lx_src l)"

lemma frame_next [simp]: "frame (lexer_get_next_char l) = frame l"
  by (simp add: frame_def lexer_get_next_char_def split: option.split)

lemma frame_steps [simp]:
  "frame (append_char l c) = frame l" "frame (set_tk t l) = frame l" "frame (take_char l) = frame l"
  "frame (eat t l) = frame l" "frame (eat_if c t l) = frame l" "frame (l\<lparr>token_start := i\<rparr>) = frame l"
  "frame (l\<lparr>lx_tk := t, lx_token := w\<rparr>) = frame l"
proof -
  show a: "frame (append_char l c) = frame l" for l c by (simp add: frame_def append_char_def)
  show s: "frame (set_tk t l) = frame l" for l by (simp add: frame_def set_tk_def)
  show "frame (take_char l) = frame l" by (simp add: take_char_def a)
  show e: "frame (eat t l) = frame l" for l by (simp add: eat_def s)
  show "frame (eat_if c t l) = frame l" by (simp add: eat_if_def e)
qed (simp_all add: frame_def)

lemma frame_strings [simp]: "frame (dstring_step l) = frame l" "frame (sstring_step oob l) = frame l"
  by (simp_all add: dstring_step_def sstring_step_def sstring_escape_def Let_def)

lemma frame_while: "while_option b c l = Some l' \<Longrightarrow> (\<And>l. frame (c l) = frame l) \<Longrightarrow> frame l' = frame l"
  using while_option_rule [of "\<lambda>k. frame k = frame l" b c l l'] by simp

lemma frame_scan: "scan_token oob l = Some l' \<Longrightarrow> frame l' = frame l"
proof -
  have op: "frame (scan_operator l) = frame l" by (simp add: scan_operator_def Let_def)
  have word: "scan_word oob l = Some l' \<Longrightarrow> frame l' = frame l"
    by (auto simp: scan_word_def dest!: frame_while)
  have digits: "take_digits oob k = Some k' \<Longrightarrow> frame k' = frame k" for k k'
    by (auto simp: take_digits_def dest!: frame_while)
  have str: "scan_string q step l = Some l' \<Longrightarrow> (\<And>l. frame (step l) = frame l) \<Longrightarrow> frame l' = frame l" for q step
    by (auto simp: scan_string_def dest!: frame_while)
  have num: "scan_number oob l = Some l' \<Longrightarrow> frame l' = frame l"
    by (auto simp: scan_number_def Let_def split: if_splits bind_splits dest!: frame_while digits)
  show "scan_token oob l = Some l' \<Longrightarrow> frame l' = frame l"
    using op word str num by (auto simp: scan_token_def split: if_splits)
qed

lemma next_token_frame:
  assumes "next_token oob l = Some l'"
  shows "token_last_end l' = token_end l \<and> token_end l' = curr_pos l' - 3 \<and>
     start_pos l' = start_pos l \<and> end_pos l' = end_pos l \<and> lx_src l' = lx_src l"
proof (rule next_token.raw_induct [where P = "\<lambda>oob l l'. token_last_end l' = token_end l \<and> token_end l' = curr_pos l' - 3 \<and>
     start_pos l' = start_pos l \<and> end_pos l' = end_pos l \<and> lx_src l' = lx_src l", OF _ assms], goal_cases)
  case (1 f oob l l')
  note IH = 1(1)
  obtain k where k: "skip_whitespace oob (l\<lparr>lx_tk := BE_TOKEN_END, lx_token := []\<rparr>) = Some k"
    using 1(2) by (auto split: bind_splits)
  have fk: "frame k = frame l" using frame_while k unfolding skip_whitespace_def by fastforce
  consider j where "skip_line k = Some j" "f oob j = Some l'" | j where "skip_block k = Some j" "f oob j = Some l'"
    | j where "scan_token oob (k\<lparr>token_start := curr_pos k - 2\<rparr>) = Some j" "l' = token_done j"
    using 1(2) k by (auto split: bind_splits if_splits)
  then show ?case
  proof cases
    case (1 j)
    have "frame j = frame k" using 1(1) by (auto simp: skip_line_def dest!: frame_while)
    then show ?thesis using IH [OF 1(2)] fk by (simp add: frame_def)
  next
    case (2 j)
    have "frame j = frame k" using 2(1) by (auto simp: skip_block_def dest!: frame_while)
    then show ?thesis using IH [OF 2(2)] fk by (simp add: frame_def)
  next
    case (3 j)
    then show ?thesis using frame_scan [OF 3(1)] fk by (simp add: frame_def token_done_def)
  qed
qed

section \<open>Positions\<close>

lemma lexeme_text_nonempty: "lexeme_ok x \<Longrightarrow> lexeme_text x \<noteq> []"
proof (cases x)
  case (LOp t)
  assume "lexeme_ok x"
  then have "lexeme_ok (LOp t)" using LOp by simp
  then show ?thesis using LOp op_table_first by (cases rule: op_text_cases) fastforce+
qed auto

lemma view_end: "lx_view s ts l k w r \<Longrightarrow> min (end_pos l) (curr_pos l - 2) = end_pos l - int (length r)"
  by (auto simp: lx_view_def min_def)

lemma next_token_at:
  assumes v: "lx_view s ts l k w (concat (map gap_text gs) @ lexeme_text x @ r)"
    and gs: "list_all gap_ok gs" and x: "lexeme_ok x" and r: "separator (ch r 0)"
  shows "\<exists>l'. next_token oob l = Some l' \<and> lx_view s (token_start l') l' (lexeme_tok x) (lexeme_bytes x) r \<and>
    0 \<le> token_start l' \<and> token_start l' = end_pos l - int (length (lexeme_text x @ r)) \<and>
    drop (nat (token_start l')) (take (nat (end_pos l)) s) = lexeme_text x @ r"
proof -
  obtain l1 k1 w1 where l1: "next_token oob l = next_token oob l1" "lx_view s ts l1 k1 w1 (lexeme_text x @ r)"
    using next_token_gaps [OF v gs] by blast
  obtain l2 where l2: "next_token oob l1 = map_option token_done (scan_token oob l2)"
    "lx_view s (curr_pos l1 - 2) l2 BE_TOKEN_END [] (lexeme_text x @ r)"
    using next_token_here [OF l1(2)] lexeme_first [OF x r] by blast
  obtain l3 where l3: "scan_token oob l2 = Some l3" "lx_view s (curr_pos l1 - 2) l3 (lexeme_tok x) (lexeme_bytes x) r"
    using scan_lexeme_view [OF l2(2) x r] by blast
  have t: "next_token oob l = Some (token_done l3)" "next_token oob l1 = Some (token_done l3)" using l1(1) l2(1) l3(1) by simp_all
  have e: "end_pos l1 = end_pos l" using next_token_frame [OF t(1)] next_token_frame [OF t(2)] by simp
  have "lexeme_text x @ r \<noteq> []" using lexeme_text_nonempty [OF x] by simp
  then have "curr_pos l1 - 2 = end_pos l - int (length (lexeme_text x @ r))"
    using view_position [OF l1(2)] l1(2) e by (auto simp: lx_view_def of_nat_diff)
  moreover have "token_start (token_done l3) = curr_pos l1 - 2" using l3(2) by (simp add: lx_view_def token_done_def)
  moreover have "0 \<le> curr_pos l1 - 2" "drop (nat (curr_pos l1 - 2)) (take (nat (end_pos l)) s) = lexeme_text x @ r"
    using l1(2) e by (simp_all add: lx_view_def)
  ultimately show ?thesis using t(1) view_done [OF l3(2)] by (intro exI [of _ "token_done l3"]) simp
qed

lemma next_token_stop:
  assumes "lx_view s ts l k w (concat (map gap_text gs))" and "list_all gap_ok gs"
  shows "\<exists>l'. next_token oob l = Some l' \<and> lx_tk l' = BE_TOKEN_END"
  using next_token_end [OF assms] .

section \<open>Parts of a source\<close>

fun items_text :: "(gap list \<times> lexeme) list \<Rightarrow> byte list" where
  "items_text [] = []"
| "items_text ((gs, x) # xs) = concat (map gap_text (Space 32 # gs)) @ lexeme_text x @ items_text xs"

record window =
  w_src :: "byte list"
  w_start :: int
  w_end :: int
  w_items :: "(gap list \<times> lexeme) list"
  w_fin :: "gap list"

definition w_rest :: "window \<Rightarrow> nat \<Rightarrow> byte list" where
  "w_rest W k = items_text (drop k (w_items W)) @ concat (map gap_text (w_fin W))"

definition window_ok :: "window \<Rightarrow> bool" where
  "window_ok W \<longleftrightarrow> source_ok (w_items W) \<and> list_all gap_ok (w_fin W) \<and> separator (ch (concat (map gap_text (w_fin W))) 0) \<and>
     0 \<le> w_start W \<and> w_end W \<le> int (length (w_src W)) \<and> 0 \<le> w_end W \<and>
     drop (nat (w_start W)) (take (nat (w_end W)) (w_src W)) =
       (case w_items W of [] \<Rightarrow> concat (map gap_text (w_fin W))
        | (gs, x) # xs \<Rightarrow> concat (map gap_text gs) @ lexeme_text x @ w_rest W 1)"

text \<open>\<open>at_item W k l\<close>: the lexer over the part \<open>W\<close> holds its token \<open>k\<close>, or the end after the last.\<close>

definition over :: "window \<Rightarrow> lexer \<Rightarrow> bool" where
  "over W l \<longleftrightarrow> lx_src l = Some (w_src W) \<and> start_pos l = w_start W \<and> end_pos l = w_end W"

definition at_item :: "window \<Rightarrow> nat \<Rightarrow> lexer \<Rightarrow> bool" where
  "at_item W k l \<longleftrightarrow> over W l \<and> token_end l = curr_pos l - 3 \<and>
     (0 < k \<longrightarrow> min (w_end W) (token_last_end l + 1) = w_end W - int (length (w_rest W k))) \<and>
     (if k < length (w_items W) then
        (let x = snd (w_items W ! k); r = w_rest W (Suc k)
         in lx_view (w_src W) (token_start l) l (lexeme_tok x) (lexeme_bytes x) r \<and> 0 \<le> token_start l \<and>
            token_start l = w_end W - int (length (lexeme_text x @ r)) \<and>
            drop (nat (token_start l)) (take (nat (w_end W)) (w_src W)) = lexeme_text x @ r)
      else lx_tk l = BE_TOKEN_END)"

lemma separator_space: "separator (ch (32 # cs) 0)"
  by (simp add: separator_def ref_whitespace_def)

lemma rest_separator: "window_ok W \<Longrightarrow> separator (ch (w_rest W k) 0)"
proof (cases "drop k (w_items W)")
  case (Cons y ys)
  obtain gs x where "y = (gs, x)" by (cases y)
  then have "w_rest W k = 32 # concat (map gap_text gs) @ lexeme_text x @ items_text ys @ concat (map gap_text (w_fin W))"
    using Cons by (simp add: w_rest_def)
  then show ?thesis using separator_space by simp
qed (simp add: w_rest_def window_ok_def)

lemma rest_item:
  assumes "k < length (w_items W)"
  shows "w_rest W k = concat (map gap_text (Space 32 # fst (w_items W ! k))) @ lexeme_text (snd (w_items W ! k)) @ w_rest W (Suc k)"
proof -
  obtain gs x where x: "w_items W ! k = (gs, x)" by (cases "w_items W ! k")
  have "drop k (w_items W) = (gs, x) # drop (Suc k) (w_items W)" using Cons_nth_drop_Suc [OF assms] x by simp
  then show ?thesis by (simp add: w_rest_def x)
qed

lemma item_ok: "window_ok W \<Longrightarrow> k < length (w_items W) \<Longrightarrow> list_all gap_ok (fst (w_items W ! k)) \<and> lexeme_ok (snd (w_items W ! k))"
  by (auto simp: window_ok_def source_ok_def list_all_length split_beta)

lemma space_ok: "gap_ok (Space 32)"
  by (simp add: ref_whitespace_def)

text \<open>A token is read.\<close>

lemma read_item:
  assumes W: "window_ok W" and l: "over W l" and k: "k \<le> length (w_items W)" and gs: "list_all gap_ok gs"
    and v: "lx_view (w_src W) ts l t w (concat (map gap_text gs) @
      (if k < length (w_items W) then lexeme_text (snd (w_items W ! k)) @ w_rest W (Suc k) else []))"
    and last: "0 < k \<Longrightarrow> min (w_end W) (token_end l + 1) = w_end W - int (length (w_rest W k))"
  shows "\<exists>l'. next_token oob l = Some l' \<and> at_item W k l'"
proof (cases "k < length (w_items W)")
  case True
  let ?x = "snd (w_items W ! k)"
  have x: "lexeme_ok ?x" using item_ok [OF W True] by simp
  have v': "lx_view (w_src W) ts l t w (concat (map gap_text gs) @ lexeme_text ?x @ w_rest W (Suc k))" using v True by simp
  obtain l' where l': "next_token oob l = Some l'" "lx_view (w_src W) (token_start l') l' (lexeme_tok ?x) (lexeme_bytes ?x) (w_rest W (Suc k))"
    "0 \<le> token_start l'" "token_start l' = end_pos l - int (length (lexeme_text ?x @ w_rest W (Suc k)))"
    "drop (nat (token_start l')) (take (nat (end_pos l)) (w_src W)) = lexeme_text ?x @ w_rest W (Suc k)"
    using next_token_at [OF v' gs x rest_separator [OF W]] by blast
  have "over W l'" "token_end l' = curr_pos l' - 3" "token_last_end l' = token_end l"
    using next_token_frame [OF l'(1)] l by (auto simp: over_def)
  then show ?thesis using l' l last True by (auto simp: at_item_def over_def Let_def)
next
  case False
  then obtain l' where l': "next_token oob l = Some l'" "lx_tk l' = BE_TOKEN_END"
    using next_token_stop [OF _ gs] v by fastforce
  have "over W l'" "token_end l' = curr_pos l' - 3" "token_last_end l' = token_end l"
    using next_token_frame [OF l'(1)] l by (auto simp: over_def)
  then show ?thesis using l' last False by (auto simp: at_item_def)
qed

lemma next_item:
  assumes W: "window_ok W" and l: "at_item W k l" and k: "k < length (w_items W)"
  shows "\<exists>l'. next_token oob l = Some l' \<and> at_item W (Suc k) l'"
proof -
  let ?x = "snd (w_items W ! k)"
  have v: "lx_view (w_src W) (token_start l) l (lexeme_tok ?x) (lexeme_bytes ?x) (w_rest W (Suc k))" and o: "over W l"
    and e: "token_end l = curr_pos l - 3" using l k by (auto simp: at_item_def Let_def)
  have "min (w_end W) (token_end l + 1) = w_end W - int (length (w_rest W (Suc k)))"
    using view_end [OF v] o e by (simp add: over_def)
  moreover define gs where "gs = (if Suc k < length (w_items W) then Space 32 # fst (w_items W ! Suc k) else w_fin W)"
  moreover have "w_rest W (Suc k) = concat (map gap_text gs) @
      (if Suc k < length (w_items W) then lexeme_text (snd (w_items W ! Suc k)) @ w_rest W (Suc (Suc k)) else [])"
    using rest_item [of "Suc k" W] by (simp add: gs_def w_rest_def)
  moreover have "list_all gap_ok gs" using W item_ok [OF W, of "Suc k"] space_ok by (simp add: gs_def window_ok_def)
  ultimately show ?thesis using read_item [OF W o, of "Suc k" gs] v k by auto
qed

text \<open>A lexer that is set up for a part, or set back.\<close>

lemma start_view:
  assumes "lx_src m = Some s" and "0 \<le> start_pos m" and "0 \<le> end_pos m" and "end_pos m \<le> int (length s)"
  shows "\<exists>l. be_jse_lexer_reset oob m = next_token oob l \<and>
    lx_view s (token_start m) l (lx_tk m) (lx_token m) (drop (nat (start_pos m)) (take (nat (end_pos m)) s)) \<and> frame l = frame m"
proof -
  let ?l = "lexer_get_next_char (lexer_get_next_char (lexer_seekto_char m (start_pos m)))"
  let ?r = "drop (nat (start_pos m)) (take (nat (end_pos m)) s)"
  have c: "(if start_pos m < end_pos m then src_at s (start_pos m) else 0) = ch ?r 0"
    "(if start_pos m + 1 < end_pos m then src_at s (start_pos m + 1) else 0) = ch ?r 1"
    using assms(2-4) by (auto simp: ch_def src_at_def nat_add_distrib)
  have "lx_view s (token_start m) ?l (lx_tk m) (lx_token m) ?r"
    unfolding lx_view_def c [symmetric] using assms
    by (simp add: lexer_seekto_char_def lexer_get_next_char_def add.commute cong: if_cong split del: if_split)
  moreover have "frame ?l = frame m" using assms(1) by (simp add: frame_def lexer_seekto_char_def lexer_get_next_char_def)
  ultimately show ?thesis unfolding be_jse_lexer_reset_def by blast
qed

lemma reset_item:
  assumes W: "window_ok W" and m: "over W m"
  shows "\<exists>l'. be_jse_lexer_reset oob m = Some l' \<and> at_item W 0 l'"
proof -
  obtain l where l: "be_jse_lexer_reset oob m = next_token oob l" "frame l = frame m"
    "lx_view (w_src W) (token_start m) l (lx_tk m) (lx_token m) (drop (nat (start_pos m)) (take (nat (end_pos m)) (w_src W)))"
    using start_view [of m "w_src W" oob] W m by (auto simp: window_ok_def over_def)
  have o: "over W l" using l(2) m by (simp add: over_def frame_def)
  define gs where "gs = (case w_items W of [] \<Rightarrow> w_fin W | (gs, x) # xs \<Rightarrow> gs)"
  have "drop (nat (start_pos m)) (take (nat (end_pos m)) (w_src W)) = concat (map gap_text gs) @
      (if 0 < length (w_items W) then lexeme_text (snd (w_items W ! 0)) @ w_rest W (Suc 0) else [])"
    using W m by (auto simp: window_ok_def over_def gs_def split: list.splits)
  moreover have "list_all gap_ok gs" using W by (auto simp: window_ok_def source_ok_def gs_def split: list.splits)
  ultimately show ?thesis using read_item [OF W o, of 0 gs] l(1,3) by auto
qed

text \<open>The part of a source from one token up to another, as the interpreter takes it.\<close>

definition part :: "window \<Rightarrow> nat \<Rightarrow> nat \<Rightarrow> window" where
  "part W i j = \<lparr>w_src = w_src W, w_start = w_end W - int (length (lexeme_text (snd (w_items W ! i)) @ w_rest W (Suc i))),
     w_end = w_end W - int (length (w_rest W j)),
     w_items = ([], snd (w_items W ! i)) # take (j - Suc i) (drop (Suc i) (w_items W)), w_fin = []\<rparr>"

lemma items_text_append: "items_text (xs @ ys) = items_text xs @ items_text ys"
  by (induction xs rule: items_text.induct) simp_all

lemma part_rest:
  assumes "i < j" and "j \<le> length (w_items W)"
  shows "w_rest W (Suc i) = w_rest (part W i j) 1 @ w_rest W j"
proof -
  have "drop (Suc i) (w_items W) = take (j - Suc i) (drop (Suc i) (w_items W)) @ drop (j - Suc i) (drop (Suc i) (w_items W))"
    by (rule append_take_drop_id [symmetric])
  moreover have "drop (j - Suc i) (drop (Suc i) (w_items W)) = drop j (w_items W)" using assms by simp
  ultimately have "items_text (drop (Suc i) (w_items W)) = items_text (take (j - Suc i) (drop (Suc i) (w_items W))) @ items_text (drop j (w_items W))"
    by (metis items_text_append)
  then show ?thesis unfolding w_rest_def part_def by simp
qed

lemma part_ok:
  assumes W: "window_ok W" and l: "at_item W i l" and ij: "i < j" "j \<le> length (w_items W)"
  shows "window_ok (part W i j)" "w_start (part W i j) = token_start l"
proof -
  let ?x = "snd (w_items W ! i)" and ?P = "part W i j" and ?t = "take (nat (w_end W)) (w_src W)"
  have li: "0 \<le> token_start l" "token_start l = w_end W - int (length (lexeme_text ?x @ w_rest W (Suc i)))"
    "drop (nat (token_start l)) ?t = lexeme_text ?x @ w_rest W (Suc i)"
    using l ij by (auto simp: at_item_def Let_def)
  have e: "w_end W \<le> int (length (w_src W))" "0 \<le> w_end W" using W by (simp_all add: window_ok_def)
  show s: "w_start ?P = token_start l" using li(2) by (simp add: part_def)
  have r: "w_rest W (Suc i) = w_rest ?P 1 @ w_rest W j" using part_rest [OF ij] .
  have pe: "w_end ?P = w_end W - int (length (w_rest W j))" "w_src ?P = w_src W" by (simp_all add: part_def)
  have p0: "0 \<le> w_end ?P" "token_start l \<le> w_end ?P" using li(1,2) r pe(1) by simp_all
  have tk: "take (nat (w_end ?P)) (w_src W) = take (nat (w_end ?P)) ?t" using pe p0 by simp
  have "nat (w_end ?P) - nat (token_start l) = length (lexeme_text ?x @ w_rest ?P 1)"
    using li(1,2) r pe(1) p0 by simp
  then have "drop (nat (token_start l)) (take (nat (w_end ?P)) (w_src W)) = lexeme_text ?x @ w_rest ?P 1"
    unfolding tk drop_take [of "nat (token_start l)" "nat (w_end ?P)" ?t] li(3) r by simp
  moreover have "source_ok (w_items ?P)"
  proof -
    have "set (take (j - Suc i) (drop (Suc i) (w_items W))) \<subseteq> set (w_items W)"
      by (meson set_take_subset set_drop_subset order_trans)
    moreover have "source_ok (w_items W)" using W by (simp add: window_ok_def)
    ultimately have "source_ok (take (j - Suc i) (drop (Suc i) (w_items W)))" unfolding source_ok_def list_all_iff by blast
    then show ?thesis using item_ok [OF W, of i] ij by (simp add: source_ok_def part_def)
  qed
  moreover have "separator (ch [] 0)" by (simp add: separator_def ch_def)
  moreover have "w_items ?P = ([], ?x) # take (j - Suc i) (drop (Suc i) (w_items W))" "w_fin ?P = []" by (simp_all add: part_def)
  ultimately show "window_ok ?P" unfolding window_ok_def using li(1) s pe p0 e by simp
qed

lemma init2_part:
  assumes W: "window_ok W" and l: "at_item W i l" and l': "at_item W j l'" and ij: "i < j" "j \<le> length (w_items W)"
  shows "\<exists>m. be_jse_lexer_init2 oob junk l' (token_start l) = Some m \<and> at_item (part W i j) 0 m"
proof -
  let ?P = "part W i j"
  have o: "over W l'" and e: "min (w_end W) (token_last_end l' + 1) = w_end ?P"
    using l' ij(1) by (simp_all add: at_item_def part_def)
  define m where "m = junk\<lparr>lx_src := Some (w_src W), start_pos := token_start l, end_pos := w_end ?P, curr_pos := 0,
          lx_tk := TK 0, token_start := 0, token_end := 0, token_last_end := 0, lx_token := []\<rparr>"
  have P: "window_ok ?P" "w_start ?P = token_start l" using part_ok [OF W l ij] by blast+
  then have "over ?P m" by (simp add: over_def m_def part_def)
  then obtain k where k: "be_jse_lexer_reset oob m = Some k" "at_item ?P 0 k" using reset_item [OF P(1)] by blast
  have "(if end_pos l' \<le> token_last_end l' + 1 then end_pos l' else token_last_end l' + 1) = w_end ?P"
    using e o by (auto simp: over_def min_def)
  moreover have "0 \<le> w_end ?P" using P(1) by (simp add: window_ok_def)
  ultimately have "be_jse_lexer_init2 oob junk l' (token_start l) = be_jse_lexer_reset oob m"
    using o by (simp add: be_jse_lexer_init2_def be_jse_lexer_init_def m_def over_def Let_def)
  then show ?thesis using k by simp
qed

text \<open>The whole source.\<close>

definition whole :: "(gap list \<times> lexeme) list \<Rightarrow> window" where
  "whole xs = \<lparr>w_src = source_text xs, w_start = 0, w_end = int (length (source_text xs)), w_items = xs,
     w_fin = (if xs = [] then [] else [Space 32])\<rparr>"

lemma source_items: "32 # source_text xs = items_text xs @ [32]"
  by (induction xs rule: source_text.induct) simp_all

lemma whole_ok: "source_ok xs \<Longrightarrow> window_ok (whole xs)"
proof (cases xs)
  case (Cons y ys)
  obtain gs x where y: "y = (gs, x)" by (cases y)
  assume "source_ok xs"
  moreover have "w_rest (whole xs) 1 = items_text ys @ [32]" by (simp add: w_rest_def whole_def Cons)
  ultimately show ?thesis using source_items [of ys] separator_space [of "[]"] space_ok
    by (simp add: window_ok_def Cons y) (simp add: whole_def)
qed (simp add: window_ok_def whole_def source_ok_def separator_def ch_def)

lemma init_whole:
  assumes "source_ok xs"
  shows "\<exists>l. be_jse_lexer_init oob junk (Some (source_text xs)) 0 (-1) = Some l \<and> at_item (whole xs) 0 l"
proof -
  let ?s = "source_text xs"
  have "cstr ?s = ?s" using source_nonzero [OF assms] by (auto simp: cstr_def takeWhile_eq_all_conv)
  then have e: "be_jse_lexer_init oob junk (Some ?s) 0 (-1) = be_jse_lexer_reset oob
       (junk\<lparr>lx_src := Some ?s, start_pos := 0, end_pos := int (length ?s), curr_pos := 0,
          lx_tk := TK 0, token_start := 0, token_end := 0, token_last_end := 0, lx_token := []\<rparr>)"
    by (simp add: be_jse_lexer_init_def)
  show ?thesis unfolding e by (intro reset_item whole_ok assms) (simp add: over_def whole_def)
qed

text \<open>The tokens that a lexer over a part has before it.\<close>

definition lexeme_pair :: "gap list \<times> lexeme \<Rightarrow> tok \<times> byte list" where
  "lexeme_pair y = (lexeme_tok (snd y), lexeme_bytes (snd y))"

definition reads :: "window \<Rightarrow> (tok \<times> byte list) list \<Rightarrow> lexer \<Rightarrow> bool" where
  "reads W ts l \<longleftrightarrow> window_ok W \<and>
     (\<exists>k. k \<le> length (w_items W) \<and> at_item W k l \<and> ts = map lexeme_pair (drop k (w_items W)))"

definition w_tokens :: "window \<Rightarrow> (tok \<times> byte list) list" where
  "w_tokens W = map lexeme_pair (w_items W)"

lemma reads_token:
  assumes "reads W ((t, w) # ts) l"
  shows "lx_tk l = t" "lexer_get_token l = w" "\<exists>l'. next_token oob l = Some l' \<and> reads W ts l'"
proof -
  obtain k where k: "window_ok W" "at_item W k l" "k \<le> length (w_items W)" "(t, w) # ts = map lexeme_pair (drop k (w_items W))"
    using assms by (auto simp: reads_def)
  have len: "k < length (w_items W)" using k(4) by (metis Nil_is_map_conv drop_all list.discI not_le)
  then have d: "drop k (w_items W) = w_items W ! k # drop (Suc k) (w_items W)" by (simp add: Cons_nth_drop_Suc)
  have tw: "(t, w) = lexeme_pair (w_items W ! k)" "ts = map lexeme_pair (drop (Suc k) (w_items W))" using k(4) d by simp_all
  have v: "lx_view (w_src W) (token_start l) l t w (w_rest W (Suc k))"
    using k(2) len tw(1) by (auto simp: at_item_def Let_def lexeme_pair_def)
  then show "lx_tk l = t" by (simp add: lx_view_def)
  have "0 \<notin> set w" using lexeme_nonzero item_ok [OF k(1) len] tw(1) by (auto simp: lexeme_pair_def)
  then show "lexer_get_token l = w" using v by (auto simp: lx_view_def lexer_get_token_def cstr_def takeWhile_eq_all_conv)
  show "\<exists>l'. next_token oob l = Some l' \<and> reads W ts l'"
    using next_item [OF k(1,2) len] k(1) len tw(2) unfolding reads_def by (metis Suc_leI)
qed

lemma reads_end: "reads W [] l \<Longrightarrow> lx_tk l = BE_TOKEN_END"
  by (auto simp: reads_def at_item_def)

lemma reads_whole:
  assumes "source_ok xs"
  shows "\<exists>l. be_jse_lexer_init oob junk (Some (source_text xs)) 0 (-1) = Some l \<and> reads (whole xs) (map lexeme_pair xs) l"
proof -
  obtain l where l: "be_jse_lexer_init oob junk (Some (source_text xs)) 0 (-1) = Some l" "at_item (whole xs) 0 l"
    using init_whole [OF assms] by blast
  have "map lexeme_pair xs = map lexeme_pair (drop 0 (w_items (whole xs)))" by (simp add: whole_def)
  then show ?thesis using l whole_ok [OF assms] unfolding reads_def by blast
qed

text \<open>A part between two positions of the interpreter: it is read from its start, as often as it is reset.\<close>

lemma reads_part:
  assumes l: "reads W (ts @ us) l" and l': "reads W us l'" and ts: "ts \<noteq> []"
  shows "\<exists>P m. be_jse_lexer_init2 oob junk l' (token_start l) = Some m \<and> reads P ts m \<and> w_tokens P = ts"
proof -
  obtain i where i: "window_ok W" "at_item W i l" "i \<le> length (w_items W)" "ts @ us = map lexeme_pair (drop i (w_items W))"
    using l by (auto simp: reads_def)
  obtain j where j: "at_item W j l'" "j \<le> length (w_items W)" "us = map lexeme_pair (drop j (w_items W))"
    using l' by (auto simp: reads_def)
  have len: "length ts + length us = length (w_items W) - i" "length us = length (w_items W) - j" "0 < length ts"
    using arg_cong [OF i(4), of length] j(3) ts by simp_all
  have ij: "i < j" using len i(3) j(2) by linarith
  obtain m where m: "be_jse_lexer_init2 oob junk l' (token_start l) = Some m" "at_item (part W i j) 0 m"
    using init2_part [OF i(1,2) j(1) ij j(2)] by blast
  have d: "drop i (w_items W) = w_items W ! i # drop (Suc i) (w_items W)" using ij j(2) by (simp add: Cons_nth_drop_Suc)
  have n: "length ts = j - i" using len i(3) j(2) ij by linarith
  have "ts = take (length ts) (ts @ us)" by simp
  also have "\<dots> = take (j - i) (map lexeme_pair (drop i (w_items W)))" unfolding i(4) n ..
  also have "\<dots> = map lexeme_pair (w_items (part W i j))"
  proof -
    obtain d where "j - i = Suc d" "j - Suc i = d" using ij by (metis Suc_diff_Suc)
    then show ?thesis unfolding d part_def by (simp add: lexeme_pair_def take_map)
  qed
  finally have t: "ts = w_tokens (part W i j)" by (simp add: w_tokens_def)
  then have "reads (part W i j) ts m" unfolding reads_def w_tokens_def using m(2) part_ok(1) [OF i(1,2) ij j(2)] by (metis drop0 le0)
  then show ?thesis using m(1) t by auto
qed

lemma reads_reset:
  assumes "reads W us m"
  shows "\<exists>l. be_jse_lexer_reset oob m = Some l \<and> reads W (w_tokens W) l"
proof -
  have "window_ok W" "over W m" using assms by (auto simp: reads_def at_item_def)
  then show ?thesis using reset_item unfolding reads_def w_tokens_def by (metis drop0 le0)
qed

end
