(* ===== verification/Exec_Eval.thy ===== *)
theory Exec_Eval
  imports Exec_Env Lexer_Window
begin

text \<open>
  Integer expressions: their syntax with the levels of the parser, their values, and the
  steps of the interpreter on states that hold references to integers. That a job returns
  is stated as \<open>runs\<close>: every large enough fuel gives the result.
\<close>

section \<open>Expressions\<close>

datatype ex = Num nat | Bool bool | Var "byte list" | Paren ex | Not ex | Neg ex | Bin tok ex ex | Cond ex ex ex

type_synonym tkn = "tok \<times> byte list"

primrec ex_tokens :: "ex \<Rightarrow> tkn list" where
  "ex_tokens (Num n) = [(BE_TOKEN_INT, dec_nat n)]"
| "ex_tokens (Bool b) = [if b then (BE_TOKEN_KW_TRUE, str ''true'') else (BE_TOKEN_KW_FALSE, str ''false'')]"
| "ex_tokens (Var w) = [(BE_TOKEN_ID, w)]"
| "ex_tokens (Paren e) = (TK 40, []) # ex_tokens e @ [(TK 41, [])]"
| "ex_tokens (Not e) = (TK 33, []) # ex_tokens e"
| "ex_tokens (Neg e) = (TK 45, []) # ex_tokens e"
| "ex_tokens (Bin op a b) = ex_tokens a @ (op, []) # ex_tokens b"
| "ex_tokens (Cond c a b) = ex_tokens c @ (TK 63, []) # ex_tokens a @ (TK 58, []) # ex_tokens b"

text \<open>
  The levels: 0 factors, 1 with \<open>!\<close>, 2 products, 3 sums, 4 comparisons, 5 bitwise and
  logical operators, all of one precedence, 6 whole expressions. A shift takes a whole
  expression as its second operand.
\<close>

fun ex_ok :: "nat \<Rightarrow> ex \<Rightarrow> bool" where
  "ex_ok n (Num k) = (k < 9223372036854775808)"
| "ex_ok n (Bool b) = True"
| "ex_ok n (Var w) = True"
| "ex_ok n (Paren e) = ex_ok 6 e"
| "ex_ok n (Not e) = (1 \<le> n \<and> ex_ok 0 e)"
| "ex_ok n (Neg e) = (3 \<le> n \<and> ex_ok 2 e)"
| "ex_ok n (Bin op a b) =
     (if mul_op op then 2 \<le> n \<and> ex_ok 2 a \<and> ex_ok 1 b
      else if add_op op then 3 \<le> n \<and> ex_ok 3 a \<and> ex_ok 2 b
      else if relational_op op then 4 \<le> n \<and> ex_ok 4 a \<and> ex_ok 3 b
      else if bit_logic_op op then 5 \<le> n \<and> ex_ok 5 a \<and> ex_ok 4 b
      else shift_op op \<and> 6 \<le> n \<and> ex_ok 3 a \<and> ex_ok 6 b)"
| "ex_ok n (Cond c a b) = (6 \<le> n \<and> ex_ok 5 c \<and> ex_ok 6 a \<and> ex_ok 6 b)"

definition truth :: "bool \<Rightarrow> int" where
  "truth b = (if b then 1 else 0)"

text \<open>
  The value: wrapping arithmetic on longs, and conditions that leave out the operands that
  are not needed. Nothing when an operator has no value or a variable does not exist.
\<close>

fun ex_value :: "(byte list \<rightharpoonup> int) \<Rightarrow> ex \<Rightarrow> int option" where
  "ex_value rho (Num n) = Some (int n)"
| "ex_value rho (Bool b) = Some (truth b)"
| "ex_value rho (Var w) = rho w"
| "ex_value rho (Paren e) = ex_value rho e"
| "ex_value rho (Not e) = map_option (\<lambda>k. truth (k = 0)) (ex_value rho e)"
| "ex_value rho (Neg e) = map_option (\<lambda>k. s64 (- k)) (ex_value rho e)"
| "ex_value rho (Bin op a b) = do {
     x \<leftarrow> ex_value rho a;
     if op = BE_TOKEN_OP_LOGIC_AND then
       (if x = 0 then Some x else map_option (\<lambda>y. truth (y \<noteq> 0)) (ex_value rho b))
     else if op = BE_TOKEN_OP_LOGIC_OR then
       (if x \<noteq> 0 then Some x else map_option (\<lambda>y. truth (y \<noteq> 0)) (ex_value rho b))
     else do { y \<leftarrow> ex_value rho b; op_value op x y }
   }"
| "ex_value rho (Cond c a b) = do { k \<leftarrow> ex_value rho c; if k \<noteq> 0 then ex_value rho a else ex_value rho b }"

text \<open>The references that an evaluation holds at most.\<close>

primrec ex_refs :: "ex \<Rightarrow> nat" where
  "ex_refs (Num n) = 1"
| "ex_refs (Bool b) = 1"
| "ex_refs (Var w) = 1"
| "ex_refs (Paren e) = ex_refs e"
| "ex_refs (Not e) = max 5 (ex_refs e)"
| "ex_refs (Neg e) = max 5 (ex_refs e)"
| "ex_refs (Bin op a b) = max 5 (max (ex_refs a) (Suc (ex_refs b)))"
| "ex_refs (Cond c a b) = max (Suc (ex_refs c)) (max (Suc (ex_refs a)) (Suc (ex_refs b)))"

section \<open>Tokens\<close>

definition first_tok :: "tkn list \<Rightarrow> tok" where
  "first_tok ts = (case ts of [] \<Rightarrow> BE_TOKEN_END | (t, w) # _ \<Rightarrow> t)"

lemma first_tok_simps [simp]:
  "first_tok [] = BE_TOKEN_END" "first_tok ((t, w) # ts) = t"
  by (simp_all add: first_tok_def)

lemma reads_first: "reads W ts l \<Longrightarrow> lx_tk l = first_tok ts"
  using reads_end reads_token(1) by (cases ts) auto

section \<open>Jobs that return\<close>

definition runs :: "jsenv \<Rightarrow> ejob \<Rightarrow> vm \<Rightarrow> nat \<Rightarrow> vm \<Rightarrow> bool" where
  "runs E j v r v' \<longleftrightarrow> eventually (\<lambda>n. exec E n j v = Some (r, v')) sequentially"

lemma runs_fuel: "runs E j v r v' \<longleftrightarrow> (\<exists>n. \<forall>m\<ge>n. exec E m j v = Some (r, v'))"
  by (simp add: runs_def eventually_sequentially)

lemma runs_handler:
  "runs E j v r v' \<longleftrightarrow> eventually (\<lambda>n. handler E (exec E n) j v = Some (r, v')) sequentially"
  using eventually_sequentially_Suc [of "\<lambda>n. exec E n j v = Some (r, v')"] by (simp add: runs_def)

lemma runs0: "(\<And>ev. handler E ev j v = Some (r, v')) \<Longrightarrow> runs E j v r v'"
  by (simp add: runs_handler)

lemma runs1:
  assumes "runs E j1 v1 r1 w1" and "\<And>ev. ev j1 v1 = Some (r1, w1) \<Longrightarrow> handler E ev j v = Some (r, v')"
  shows "runs E j v r v'"
  unfolding runs_handler using assms(1) unfolding runs_def by (rule eventually_mono) (rule assms(2))

lemma runs2:
  assumes "runs E j1 v1 r1 w1" and "runs E j2 v2 r2 w2"
    and "\<And>ev. ev j1 v1 = Some (r1, w1) \<Longrightarrow> ev j2 v2 = Some (r2, w2) \<Longrightarrow> handler E ev j v = Some (r, v')"
  shows "runs E j v r v'"
  unfolding runs_handler using assms(1,2) unfolding runs_def by (rule eventually_elim2) (rule assms(3))

section \<open>States\<close>

text \<open>The lexer reads the part \<open>W\<close> of a source and has the tokens \<open>ts\<close> before it.\<close>

definition st :: "jsenv \<Rightarrow> window \<Rightarrow> sympool \<Rightarrow> nat set \<Rightarrow> 32 word \<Rightarrow> refs \<Rightarrow> tkn list \<Rightarrow> vm \<Rightarrow> bool" where
  "st E W p0 F0 x H ts v \<longleftrightarrow> ints p0 F0 H (vm_pool v) \<and> vm_scopes v = [] \<and> vm_exec v = x \<and>
     reads W ts (vm_lex v)"

lemma st_tk: "st E W p0 F0 x H ts v \<Longrightarrow> tk v = first_tok ts"
  unfolding st_def tk_def using reads_first by blast

lemma st_token: "st E W p0 F0 x H ((t, w) # ts) v \<Longrightarrow> token v = w"
  using reads_token(2) by (auto simp: st_def token_def)

lemma st_execute: "st E W p0 F0 x H ts v \<Longrightarrow> should_execute v \<longleftrightarrow> x AND 7 = 1"
  by (simp add: st_def should_execute_def)

lemma st_need:
  assumes "st E W p0 F0 x H ((t, w) # ts) v"
  shows "\<exists>v'. st E W p0 F0 x H ts v' \<and> (\<forall>r k. need E t (r :: nat) k v = k v')"
proof -
  obtain l' where "next_token (e_oob E) (vm_lex v) = Some l'" "reads W ts l'" "lx_tk (vm_lex v) = t"
    using assms reads_token unfolding st_def by meson
  then show ?thesis
    using assms by (intro exI [of _ "v\<lparr>vm_lex := l'\<rparr>"])
      (auto simp: need_def need_clean_def lexer_token_cmp_def st_def)
qed

lemma st_pool:
  assumes "st E W p0 F0 x H ts v" and "f (vm_pool v) = Some (i, q)" and "ints p0 F0 H' q"
  shows "\<exists>v'. ask_pool f v = Some (i, v') \<and> st E W p0 F0 x H' ts v'"
  using assms by (intro exI [of _ "v\<lparr>vm_pool := q\<rparr>"]) (simp add: ask_pool_def st_def)

lemma st_unlock:
  assumes "st E W p0 F0 x (add_mset (i, k) H) ts v"
  shows "\<exists>v'. unlock i v = Some v' \<and> st E W p0 F0 x H ts v'"
proof -
  obtain q where "symbol_unlock i (vm_pool v) = Some q" "ints p0 F0 H q"
    using ints_unlock [of p0 F0 i k H "vm_pool v"] assms unfolding st_def by blast
  then show ?thesis using assms by (intro exI [of _ "v\<lparr>vm_pool := q\<rparr>"]) (simp add: unlock_def upd_pool_def st_def)
qed

lemma st_new:
  assumes "st E W p0 F0 x H ts v" and "fits p0 F0 (size H + 1)" and "in64 k"
  shows "\<exists>i v'. ask_pool (new_int_symbol k) v = Some (i, v') \<and> i \<noteq> 0 \<and> st E W p0 F0 x (add_mset (i, k) H) ts v'"
proof -
  have "ints p0 F0 H (vm_pool v)" using assms(1) by (simp add: st_def)
  then obtain i q where q: "new_int_symbol k (vm_pool v) = Some (i, q)" "i \<noteq> 0" "ints p0 F0 (add_mset (i, k) H) q"
    using ints_new assms(2,3) by blast
  show ?thesis using st_pool [OF assms(1), of "new_int_symbol k", OF q(1,3)] q(2) by blast
qed

lemma st_new_bool:
  assumes "st E W p0 F0 x H ts v" and "fits p0 F0 (size H + 1)"
  shows "\<exists>i v'. ask_pool (new_bool_symbol b) v = Some (i, v') \<and> i \<noteq> 0 \<and> st E W p0 F0 x (add_mset (i, truth b) H) ts v'"
  using st_new [OF assms, of "truth b"] by (simp add: new_bool_symbol_def truth_def)

lemma st_lock:
  assumes "st E W p0 F0 x H ts v" and "fits p0 F0 (size H + 1)" and "int_at p0 F0 i k"
  shows "\<exists>v'. lock i v = Some v' \<and> st E W p0 F0 x (add_mset (i, k) H) ts v'"
proof -
  have "holdable p0 F0 H i k" using assms(3) by (simp add: holdable_def int_at_def)
  moreover have "ints p0 F0 H (vm_pool v)" using assms(1) by (simp add: st_def)
  ultimately have "symbol_lock i (vm_pool v) = Some (locked i (vm_pool v))"
    "ints p0 F0 (add_mset (i, k) H) (locked i (vm_pool v))" using ints_lock assms(2) by blast+
  then show ?thesis using assms(1) by (simp add: lock_def upd_pool_def st_def)
qed

lemma st_value_bool:
  assumes "st E W p0 F0 x H ts v" and "fits p0 F0 (size H + 1)" and "(a, k) \<in># H"
  shows "\<exists>v'. value_bool E a v = Some (k \<noteq> 0, v') \<and> st E W p0 F0 x H ts v'"
proof -
  obtain q where "get_symbol_value_bool (e_fl E) a (vm_pool v) = Some (k \<noteq> 0, q)" "ints p0 F0 H q"
    using ints_value_bool [of p0 F0 H "vm_pool v" a k] assms unfolding st_def by blast
  then show ?thesis using assms(1)
    by (intro exI [of _ "v\<lparr>vm_pool := q\<rparr>"]) (simp add: value_bool_def ask_pool_def st_def)
qed

lemma st_maths:
  assumes "st E W p0 F0 x H ts v" and "fits p0 F0 (size H + 3)" and "(a, k) \<in># H" and "(b, m) \<in># H" and "a \<noteq> 0"
    and "b \<noteq> 0 \<or> op \<noteq> BE_TOKEN_OP_STRICT_EQUAL \<and> op \<noteq> BE_TOKEN_OP_STRICT_NEQUAL" and "op_value op k m = Some z"
  shows "\<exists>i v'. maths E a b op v = Some (i, v') \<and> i \<noteq> 0 \<and> plain_ref p0 F0 i \<and> st E W p0 F0 x (add_mset (i, z) H) ts v'"
proof -
  have "ints p0 F0 H (vm_pool v)" using assms(1) by (simp add: st_def)
  from ints_maths [OF this assms(2-7), of "e_fl E"] obtain i q where
    q: "symbol_value_maths_op (e_fl E) a b op (vm_pool v) = Some (i, q)" "i \<noteq> 0 \<and> plain_ref p0 F0 i" "ints p0 F0 (add_mset (i, z) H) q"
    by blast
  show ?thesis using st_pool [OF assms(1), of "symbol_value_maths_op (e_fl E) a b op", OF q(1,3)] q(2) unfolding maths_def by blast
qed

text \<open>An operator: its operands are replaced by the result; without executing by the first.\<close>

definition mode :: "32 word \<Rightarrow> bool" where
  "mode x \<longleftrightarrow> x = 0 \<or> x = 1"

lemma mode_simps [simp]: "mode 0" "mode 1"
  by (simp_all add: mode_def)

lemma st_mode: "st E W p0 F0 x H ts v \<Longrightarrow> mode x \<Longrightarrow> should_execute v \<longleftrightarrow> x = 1"
  by (auto simp: st_execute mode_def)

lemma st_binary:
  assumes "st E W p0 F0 x (add_mset (b, m) (add_mset (a, k) H)) ts v" and "mode x" and "fits p0 F0 (size H + 5)"
    and "x = 1 \<Longrightarrow> a \<noteq> 0 \<and> b \<noteq> 0 \<and> op_value op k m = Some z"
  shows "\<exists>i v1 v2 y. combine E a b op v = Some (i, v1) \<and> unlock b v1 = Some v2 \<and>
    st E W p0 F0 x (add_mset (i, y) H) ts v2 \<and> (x = 1 \<longrightarrow> i \<noteq> 0 \<and> y = z)"
proof (cases "x = 1")
  case True
  then have z: "a \<noteq> 0" "b \<noteq> 0" "op_value op k m = Some z" using assms(4) by auto
  obtain i v1 where i: "maths E a b op v = Some (i, v1)" "i \<noteq> 0"
    "st E W p0 F0 x (add_mset (i, z) (add_mset (b, m) (add_mset (a, k) H))) ts v1"
    using st_maths [OF assms(1), of a k b m op z] assms(3) z by (auto simp: numeral_eq_Suc)
  have "st E W p0 F0 x (add_mset (a, k) (add_mset (b, m) (add_mset (i, z) H))) ts v1"
    using i(3) by (simp add: add_mset_commute)
  then obtain v2 where v2: "unlock a v1 = Some v2" "st E W p0 F0 x (add_mset (b, m) (add_mset (i, z) H)) ts v2"
    using st_unlock by blast
  obtain v3 where "unlock b v2 = Some v3" "st E W p0 F0 x (add_mset (i, z) H) ts v3"
    using st_unlock [OF v2(2)] by blast
  then show ?thesis
    using i(1,2) v2(1) st_mode [OF assms(1,2)] True by (auto simp: combine_def)
next
  case False
  obtain v2 where "unlock b v = Some v2" "st E W p0 F0 x (add_mset (a, k) H) ts v2"
    using st_unlock [OF assms(1)] by blast
  then show ?thesis using False st_mode [OF assms(1,2)] by (auto simp: combine_def)
qed

end
