(* ===== verification/Exec_Prec.thy ===== *)
theory Exec_Prec
  imports Exec_Eval
begin

text \<open>
  The functions of be_executor.c for expressions, level by level: on the tokens of an
  expression each returns a reference to its value and leaves the tokens behind it. The
  loops of the levels are followed in the form "the loop on the operand returns what the
  loop on the result returns".
\<close>

section \<open>What a level does\<close>

definition env_ok :: "jsenv \<Rightarrow> sympool \<Rightarrow> nat set \<Rightarrow> (byte list \<rightharpoonup> int) \<Rightarrow> bool" where
  "env_ok E p0 F0 rho \<longleftrightarrow> (\<exists>ks. globals p0 F0 (ctx_root (e_ctx E)) ks rho) \<and> int_at p0 F0 (zeroInt (e_ctx E)) 0"

text \<open>A token that ends an expression of level \<open>n\<close>.\<close>

definition stops :: "nat \<Rightarrow> tok \<Rightarrow> bool" where
  "stops n t \<longleftrightarrow> t \<noteq> TK 40 \<and> t \<noteq> TK 46 \<and> t \<noteq> TK 91 \<and> \<not> postfix_op t \<and> (2 \<le> n \<longrightarrow> \<not> mul_op t) \<and>
     (3 \<le> n \<longrightarrow> \<not> add_op t \<and> \<not> shift_op t) \<and> (4 \<le> n \<longrightarrow> \<not> relational_op t) \<and>
     (5 \<le> n \<longrightarrow> \<not> bit_logic_op t) \<and> (6 \<le> n \<longrightarrow> t \<noteq> TK 63 \<and> \<not> assignment_op t)"

lemma stops_mono: "stops n t \<Longrightarrow> m \<le> n \<Longrightarrow> stops m t"
  by (auto simp: stops_def)

text \<open>
  With \<open>x = 1\<close> the code is executed and the expression has a value; with \<open>x = 0\<close> it is only
  parsed.
\<close>

definition starts :: "jsenv \<Rightarrow> window \<Rightarrow> sympool \<Rightarrow> nat set \<Rightarrow> (byte list \<rightharpoonup> int) \<Rightarrow> nat \<Rightarrow> 32 word \<Rightarrow> ex \<Rightarrow> refs \<Rightarrow>
    tkn list \<Rightarrow> vm \<Rightarrow> bool" where
  "starts E W p0 F0 rho n x e H rest v \<longleftrightarrow> mode x \<and> (x = 1 \<longrightarrow> ex_value rho e \<noteq> None) \<and>
     fits p0 F0 (size H + ex_refs e) \<and> st E W p0 F0 x H (ex_tokens e @ rest) v \<and> stops n (first_tok rest)"

definition yields :: "jsenv \<Rightarrow> window \<Rightarrow> sympool \<Rightarrow> nat set \<Rightarrow> (byte list \<rightharpoonup> int) \<Rightarrow> 32 word \<Rightarrow> ex \<Rightarrow> refs \<Rightarrow>
    tkn list \<Rightarrow> nat \<Rightarrow> vm \<Rightarrow> bool" where
  "yields E W p0 F0 rho x e H rest r v \<longleftrightarrow>
     (\<exists>k. st E W p0 F0 x (add_mset (r, k) H) rest v \<and> (x = 1 \<longrightarrow> r \<noteq> 0 \<and> ex_value rho e = Some k))"

definition at_job :: "jsenv \<Rightarrow> window \<Rightarrow> sympool \<Rightarrow> nat set \<Rightarrow> (byte list \<rightharpoonup> int) \<Rightarrow> nat \<Rightarrow> ejob \<Rightarrow> ex \<Rightarrow> bool" where
  "at_job E W p0 F0 rho n j e \<longleftrightarrow> (\<forall>x H rest v. starts E W p0 F0 rho n x e H rest v \<longrightarrow>
     (\<exists>r v1. runs E j v r v1 \<and> yields E W p0 F0 rho x e H rest r v1))"

definition at_into :: "jsenv \<Rightarrow> window \<Rightarrow> sympool \<Rightarrow> nat set \<Rightarrow> (byte list \<rightharpoonup> int) \<Rightarrow> nat \<Rightarrow> ejob \<Rightarrow> (nat \<Rightarrow> ejob) \<Rightarrow> ex \<Rightarrow> bool" where
  "at_into E W p0 F0 rho n j K e \<longleftrightarrow> (\<forall>x H rest v. starts E W p0 F0 rho n x e H rest v \<longrightarrow>
     (\<exists>r v1. yields E W p0 F0 rho x e H rest r v1 \<and> (\<forall>R w. runs E (K r) v1 R w \<longrightarrow> runs E j v R w)))"

definition at_loop :: "jsenv \<Rightarrow> window \<Rightarrow> sympool \<Rightarrow> nat set \<Rightarrow> (byte list \<rightharpoonup> int) \<Rightarrow> nat \<Rightarrow> ejob \<Rightarrow> (nat \<Rightarrow> ejob) set \<Rightarrow> ex \<Rightarrow> bool" where
  "at_loop E W p0 F0 rho n j Ks e \<longleftrightarrow> (\<forall>x H rest v. starts E W p0 F0 rho n x e H rest v \<longrightarrow>
     (\<exists>r0 v0 r v1. runs E j v r0 v0 \<and> yields E W p0 F0 rho x e H rest r v1 \<and>
       (\<forall>K\<in>Ks. \<forall>R w. runs E (K r) v1 R w \<longrightarrow> runs E (K r0) v0 R w)))"

definition mul_loops :: "(nat \<Rightarrow> ejob) set" where
  "mul_loops = range Mul_Loop \<union> {\<lambda>b. Mul_Loop2 a b op | a op. True}"

definition rel_loops :: "(nat \<Rightarrow> ejob) set" where
  "rel_loops = {Rel_Loop} \<union> {\<lambda>b. Rel_Loop2 a b op short boolean old | a op short boolean old. True}"

lemma handlers [simp]:
  "handler E ev Base_Expr = handle_base_expr E ev" "handler E ev (Rel_Loop a) = rel_loop E ev a"
  "handler E ev (Logic_Loop a) = logic_loop E ev a"
  "handler E ev (Rel_Loop2 a b op short boolean old) = rel_loop2 E ev a b op short boolean old"
  "handler E ev Precedent = handle_precedent_expr E ev" "handler E ev (Mul_Loop negative a) = mul_loop E ev negative a"
  "handler E ev (Add_Loop a) = add_loop E ev a" "handler E ev (Mul_Loop2 a b op) = mul_loop2 E ev a b op"
  "handler E ev Postfix = handle_postfix_syntax E ev" "handler E ev (Postfix_Loop invert a) = postfix_loop E ev invert a"
  "handler E ev Factor = handle_factor_syntax E ev" "handler E ev (Access_Loop a parent) = access_loop E ev a parent"
  by (simp_all add: handler_def)

lemma unlock_null [simp]: "unlock 0 v = Some v"
  by (simp add: unlock_def upd_pool_def)

lemma st_zero: "st E W p0 F0 x H ts v \<Longrightarrow> st E W p0 F0 x (add_mset (0, 0) H) ts v"
  using ints_zero by (auto simp: st_def)

lemma st_error: "st E W p0 F0 x H ts v \<Longrightarrow> mode x \<Longrightarrow> \<not> be_vm_has_error v"
  by (auto simp: st_def be_vm_has_error_def mode_def)

section \<open>Factors\<close>

lemma factor_num:
  assumes "n < 9223372036854775808"
  shows "at_job E W p0 F0 rho 1 Factor (Num n)"
  unfolding at_job_def
proof (intro allI impI)
  fix x H rest v
  assume "starts E W p0 F0 rho 1 x (Num n) H rest v"
  then have s: "mode x" "fits p0 F0 (size H + 1)" "st E W p0 F0 x H ((BE_TOKEN_INT, dec_nat n) # rest) v"
    by (simp_all add: starts_def)
  obtain v1 where v1: "st E W p0 F0 x H rest v1" "\<And>r k. need E BE_TOKEN_INT (r :: nat) k v = k v1"
    using st_need [OF s(3)] by blast
  have i: "string_to_int (e_oob E) (token v) = int n" using string_to_int_dec [OF assms] st_token [OF s(3)] by simp
  show "\<exists>r v1. runs E Factor v r v1 \<and> yields E W p0 F0 rho x (Num n) H rest r v1"
  proof (cases "x = 1")
    case True
    have "in64 (int n)" using assms by (simp add: in64_def)
    then obtain r v2 where "ask_pool (new_int_symbol (int n)) v1 = Some (r, v2)" "r \<noteq> 0"
      "st E W p0 F0 x (add_mset (r, int n) H) rest v2" using st_new [OF v1(1) s(2)] by blast
    then show ?thesis
      using v1(2) i st_tk [OF s(3)] st_mode [OF s(3,1)] True
      by (intro exI [of _ r] exI [of _ v2] conjI runs0) (auto simp: handle_factor_syntax_def yields_def)
  next
    case False
    then show ?thesis
      using v1 st_tk [OF s(3)] st_mode [OF s(3,1)] st_zero [OF v1(1)]
      by (intro exI [of _ 0] exI [of _ v1] conjI runs0) (auto simp: handle_factor_syntax_def yields_def)
  qed
qed

lemma factor_bool: "at_job E W p0 F0 rho 1 Factor (Bool b)"
  unfolding at_job_def
proof (intro allI impI)
  fix x H rest v
  let ?t = "if b then BE_TOKEN_KW_TRUE else BE_TOKEN_KW_FALSE"
  assume "starts E W p0 F0 rho 1 x (Bool b) H rest v"
  then have s: "mode x" "fits p0 F0 (size H + 1)" "st E W p0 F0 x H ((?t, if b then str ''true'' else str ''false'') # rest) v"
    by (simp_all add: starts_def split: if_splits)
  obtain v1 where v1: "st E W p0 F0 x H rest v1" "\<And>r k. need E ?t (r :: nat) k v = k v1"
    using st_need [OF s(3)] by blast
  show "\<exists>r v1. runs E Factor v r v1 \<and> yields E W p0 F0 rho x (Bool b) H rest r v1"
  proof (cases "x = 1")
    case True
    obtain r v2 where "ask_pool (new_bool_symbol b) v1 = Some (r, v2)" "r \<noteq> 0"
      "st E W p0 F0 x (add_mset (r, truth b) H) rest v2" using st_new_bool [OF v1(1) s(2)] by blast
    then show ?thesis
      using v1(2) st_tk [OF s(3)] st_mode [OF v1(1) s(1)] True
      by (intro exI [of _ r] exI [of _ v2] conjI runs0) (cases b; auto simp: handle_factor_syntax_def yields_def)+
  next
    case False
    then show ?thesis
      using v1 st_tk [OF s(3)] st_mode [OF v1(1) s(1)] st_zero [OF v1(1)]
      by (intro exI [of _ 0] exI [of _ v1] conjI runs0) (cases b; auto simp: handle_factor_syntax_def yields_def)+
  qed
qed

lemma access_done:
  assumes "st E W p0 F0 x H rest v" and "stops n (first_tok rest)"
  shows "runs E (Access_Loop a 0) v a v"
  using st_tk [OF assms(1)] assms(2) by (intro runs0) (simp add: access_loop_def stops_def)

lemma factor_var:
  assumes "env_ok E p0 F0 rho"
  shows "at_job E W p0 F0 rho 1 Factor (Var w)"
  unfolding at_job_def
proof (intro allI impI)
  fix x H rest v
  assume "starts E W p0 F0 rho 1 x (Var w) H rest v"
  then have s: "mode x" "fits p0 F0 (size H + 1)" "st E W p0 F0 x H ((BE_TOKEN_ID, w) # rest) v"
    "x = 1 \<longrightarrow> rho w \<noteq> None" "stops 1 (first_tok rest)"
    by (simp_all add: starts_def)
  note t = st_tk [OF s(3)] st_mode [OF s(3,1)] st_token [OF s(3)]
  show "\<exists>r v1. runs E Factor v r v1 \<and> yields E W p0 F0 rho x (Var w) H rest r v1"
  proof (cases "x = 1")
    case True
    then obtain k where k: "rho w = Some k" using s(4) by auto
    obtain ks where "globals p0 F0 (ctx_root (e_ctx E)) ks rho" using assms by (auto simp: env_ok_def)
    moreover have i: "ints p0 F0 H (vm_pool v)" and sc: "vm_scopes v = []" using s(3) by (simp_all add: st_def)
    ultimately obtain r q where q: "lookup_named_child_symbol (ctx_root (e_ctx E)) w False (vm_pool v) = Some (r, q)"
      "r \<noteq> 0" "ints p0 F0 (add_mset (r, k) H) q"
      using lookup_global [OF i s(2), where rho = rho and name = w and k = k] k by blast
    from st_pool [OF s(3), of "lookup_named_child_symbol (ctx_root (e_ctx E)) w False", OF q(1,3)]
    obtain v1 where v1: "lookup_symbol_in_scopes E w v = Some (r, v1)"
      "st E W p0 F0 x (add_mset (r, k) H) ((BE_TOKEN_ID, w) # rest) v1"
      using that by (auto simp: lookup_symbol_in_scopes_def sc ask_pool_def)
    obtain v2 where v2: "st E W p0 F0 x (add_mset (r, k) H) rest v2" "\<And>r k. need E BE_TOKEN_ID (r :: nat) k v1 = k v2"
      using st_need [OF v1(2)] by blast
    have "runs E Factor v r v2"
      using t v1(1) v2(2) q(2) True
      by (intro runs1 [OF access_done [OF v2(1) s(5)]]) (simp add: handle_factor_syntax_def id_factor_def)
    then show ?thesis using v2(1) k q(2) by (auto simp: yields_def)
  next
    case False
    obtain v2 where v2: "st E W p0 F0 x H rest v2" "\<And>r k. need E BE_TOKEN_ID (r :: nat) k v = k v2"
      using st_need [OF s(3)] by blast
    have "runs E Factor v 0 v2"
      using t v2(2) False
      by (intro runs1 [OF access_done [OF v2(1) s(5)]]) (simp add: handle_factor_syntax_def id_factor_def)
    then show ?thesis using st_zero [OF v2(1)] False by (auto simp: yields_def)
  qed
qed

lemma starts_inner:
  assumes "starts E W p0 F0 rho n x e H rest v" and "ex_tokens e = (t, w) # ex_tokens f @ ts" and "ex_refs f \<le> ex_refs e"
    and "x = 1 \<longrightarrow> ex_value rho f \<noteq> None" and "stops m (first_tok (ts @ rest))"
  shows "tk v = t" "\<exists>v1. starts E W p0 F0 rho m x f H (ts @ rest) v1 \<and> (\<forall>r k. need E t (r :: nat) k v = k v1)"
proof -
  have s: "st E W p0 F0 x H ((t, w) # ex_tokens f @ ts @ rest) v" using assms(1,2) by (simp add: starts_def)
  then show "tk v = t" using st_tk by force
  have "fits p0 F0 (size H + ex_refs f)" using assms(1,3) fits_mono unfolding starts_def by (meson add_le_cancel_left)
  then show "\<exists>v1. starts E W p0 F0 rho m x f H (ts @ rest) v1 \<and> (\<forall>r k. need E t (r :: nat) k v = k v1)"
    using st_need [OF s] assms(1,4,5) unfolding starts_def by blast
qed

lemma factor_paren:
  assumes "at_job E W p0 F0 rho 6 Base_Expr e"
  shows "at_job E W p0 F0 rho 1 Factor (Paren e)"
  unfolding at_job_def
proof (intro allI impI)
  fix x H rest v
  assume a: "starts E W p0 F0 rho 1 x (Paren e) H rest v"
  then have m: "mode x" "x = 1 \<longrightarrow> ex_value rho e \<noteq> None" by (simp_all add: starts_def)
  have p: "stops 6 (TK 41)" by (simp add: stops_def postfix_op_def mul_op_def add_op_def shift_op_def
      relational_op_def bit_logic_op_def assignment_op_def)
  note i = starts_inner [OF a, of "TK 40" "[]" e "[(TK 41, [])]" 6]
  obtain v1 where v1: "starts E W p0 F0 rho 6 x e H ((TK 41, []) # rest) v1" "\<And>r k. need E (TK 40) (r :: nat) k v = k v1"
    using i(2) m p by auto
  obtain r v2 where v2: "runs E Base_Expr v1 r v2" "yields E W p0 F0 rho x e H ((TK 41, []) # rest) r v2"
    using assms v1(1) unfolding at_job_def by blast
  obtain k where k: "st E W p0 F0 x (add_mset (r, k) H) ((TK 41, []) # rest) v2" "x = 1 \<longrightarrow> r \<noteq> 0 \<and> ex_value rho e = Some k"
    using v2(2) by (auto simp: yields_def)
  obtain v3 where v3: "st E W p0 F0 x (add_mset (r, k) H) rest v3" "\<And>r k. need E (TK 41) (r :: nat) k v2 = k v3"
    using st_need [OF k(1)] by blast
  have "runs E Factor v r v3"
    using i(1) m p v1(2) v3(2) st_error [OF k(1) m(1)]
    by (intro runs1 [OF v2(1)]) (simp add: handle_factor_syntax_def)
  then show "\<exists>r v1. runs E Factor v r v1 \<and> yields E W p0 F0 rho x (Paren e) H rest r v1"
    using v3(1) k(2) by (auto simp: yields_def)
qed

section \<open>Postfix\<close>

lemma postfix_done:
  assumes "st E W p0 F0 x H rest v" and "stops n (first_tok rest)"
  shows "runs E (Postfix_Loop False a) v a v"
  using st_tk [OF assms(1)] assms(2) by (intro runs0) (simp add: postfix_loop_def stops_def)

lemma postfix_of_factor:
  assumes "at_job E W p0 F0 rho 1 Factor e" and "first_tok (ex_tokens e) \<noteq> TK 33" and "ex_tokens e \<noteq> []"
  shows "at_job E W p0 F0 rho 1 Postfix e"
  unfolding at_job_def
proof (intro allI impI)
  fix x H rest v
  assume a: "starts E W p0 F0 rho 1 x e H rest v"
  have t: "tk v \<noteq> TK 33"
  proof -
    have "tk v = first_tok (ex_tokens e @ rest)" using a st_tk by (auto simp: starts_def)
    then show ?thesis using assms(2,3) by (cases "ex_tokens e") (auto simp: first_tok_def)
  qed
  obtain r v1 where v1: "runs E Factor v r v1" "yields E W p0 F0 rho x e H rest r v1"
    using assms(1) a unfolding at_job_def by blast
  obtain k where k: "st E W p0 F0 x (add_mset (r, k) H) rest v1" using v1(2) by (auto simp: yields_def)
  have "stops 1 (first_tok rest)" using a by (simp add: starts_def)
  note d = postfix_done [OF k this, of r]
  have "runs E Postfix v r v1" using t by (intro runs2 [OF v1(1) d]) (simp add: handle_postfix_syntax_def)
  then show "\<exists>r v1. runs E Postfix v r v1 \<and> yields E W p0 F0 rho x e H rest r v1" using v1(2) by blast
qed

lemma fits_le: "fits p0 F0 (size H + n) \<Longrightarrow> m \<le> n \<Longrightarrow> fits p0 F0 (size H + m)"
  by (erule fits_mono) simp

lemma postfix_not:
  assumes "env_ok E p0 F0 rho" and "at_job E W p0 F0 rho 1 Factor e"
  shows "at_job E W p0 F0 rho 1 Postfix (Not e)"
  unfolding at_job_def
proof (intro allI impI)
  fix x H rest v
  assume a: "starts E W p0 F0 rho 1 x (Not e) H rest v"
  then have m: "mode x" "x = 1 \<longrightarrow> ex_value rho e \<noteq> None" "stops 1 (first_tok rest)" "fits p0 F0 (size H + max 5 (ex_refs e))"
    by (simp_all add: starts_def)
  note i = starts_inner [OF a, of "TK 33" "[]" e "[]" 1]
  obtain v1 where v1: "starts E W p0 F0 rho 1 x e H rest v1" "\<And>r k. need E (TK 33) (r :: nat) k v = k v1"
    using i(2) m by auto
  obtain r v2 where v2: "runs E Factor v1 r v2" "yields E W p0 F0 rho x e H rest r v2"
    using assms(2) v1(1) unfolding at_job_def by blast
  obtain k where k: "st E W p0 F0 x (add_mset (r, k) H) rest v2" "x = 1 \<longrightarrow> r \<noteq> 0 \<and> ex_value rho e = Some k"
    using v2(2) by (auto simp: yields_def)
  have p: "\<not> postfix_op (tk v2)" using st_tk [OF k(1)] m(3) by (simp add: stops_def)
  have t: "tk v = TK 33" using i(1) m by simp
  show "\<exists>r v1. runs E Postfix v r v1 \<and> yields E W p0 F0 rho x (Not e) H rest r v1"
  proof (cases "x = 1")
    case False
    have p1: "runs E (Postfix_Loop True r) v2 r v2"
      using p st_mode [OF k(1) m(1)] False by (intro runs0) (simp add: postfix_loop_def)
    have "runs E Postfix v r v2"
      using t v1(2) by (intro runs2 [OF v2(1) p1]) (simp add: handle_postfix_syntax_def)
    then show ?thesis using k(1) False by (auto simp: yields_def)
  next
    case True
    let ?z = "zeroInt (e_ctx E)"
    have z: "int_at p0 F0 ?z 0" using assms(1) by (simp add: env_ok_def)
    obtain v3 where v3: "lock ?z v2 = Some v3" "st E W p0 F0 x (add_mset (?z, 0) (add_mset (r, k) H)) rest v3"
      using st_lock [OF k(1) _ z] fits_le [OF m(4), of 2] by auto
    have o: "op_value BE_TOKEN_OP_EQUAL k 0 = Some (truth (k = 0))" by (simp add: op_value_def int_op_def truth_def)
    have nz: "r \<noteq> 0" "?z \<noteq> 0" "ex_value rho e = Some k" using k(2) True z by (simp_all add: int_at_def)
    obtain s v4 where v4: "maths E r ?z BE_TOKEN_OP_EQUAL v3 = Some (s, v4)" "s \<noteq> 0"
      "st E W p0 F0 x (add_mset (s, truth (k = 0)) (add_mset (?z, 0) (add_mset (r, k) H))) rest v4"
      using st_maths [OF v3(2), of r k ?z 0 BE_TOKEN_OP_EQUAL] o nz fits_le [OF m(4), of 5]
      by (auto simp: add.commute)
    have "st E W p0 F0 x (add_mset (?z, 0) (add_mset (r, k) (add_mset (s, truth (k = 0)) H))) rest v4"
      using v4(3) by (simp add: add_mset_commute)
    then obtain v5 where v5: "unlock ?z v4 = Some v5" "st E W p0 F0 x (add_mset (r, k) (add_mset (s, truth (k = 0)) H)) rest v5"
      using st_unlock by blast
    obtain v6 where v6: "unlock r v5 = Some v6" "st E W p0 F0 x (add_mset (s, truth (k = 0)) H) rest v6"
      using st_unlock [OF v5(2)] by blast
    have p1: "runs E (Postfix_Loop True r) v2 s v6"
      using p st_mode [OF k(1) m(1)] True v3(1) v4(1) v5(1) v6(1) by (intro runs0) (simp add: postfix_loop_def Let_def)
    have "runs E Postfix v s v6"
      using t v1(2) by (intro runs2 [OF v2(1) p1]) (simp add: handle_postfix_syntax_def)
    then show ?thesis using v6(2) v4(2) nz(3) by (auto simp: yields_def)
  qed
qed

section \<open>Products\<close>

lemma mul_of_postfix: "at_job E W p0 F0 rho 1 Postfix e \<Longrightarrow> at_loop E W p0 F0 rho 1 Postfix mul_loops e"
  unfolding at_job_def at_loop_def by blast

text \<open>The operands of an operator, and the operator.\<close>

lemma starts_left:
  assumes "starts E W p0 F0 rho n x (Bin op a b) H rest v" and "stops m op"
  shows "starts E W p0 F0 rho m x a H ((op, []) # ex_tokens b @ rest) v"
  using assms fits_le [of p0 F0 H "ex_refs (Bin op a b)" "ex_refs a"]
  by (auto simp: starts_def bind_eq_None_conv)

lemma starts_right:
  assumes "starts E W p0 F0 rho n x (Bin op a b) H rest v" and "stops m (first_tok rest)"
    and "st E W p0 F0 x (add_mset (r, k) H) ((op, []) # ex_tokens b @ rest) v1" and "x = 1 \<longrightarrow> ex_value rho b \<noteq> None"
  shows "tk v1 = op" "\<exists>v2. starts E W p0 F0 rho m x b (add_mset (r, k) H) rest v2 \<and> (\<forall>r k. need E op (r :: nat) k v1 = k v2)"
proof -
  show "tk v1 = op" using st_tk [OF assms(3)] by simp
  have "fits p0 F0 (size (add_mset (r, k) H) + ex_refs b)"
    using assms(1) fits_le [of p0 F0 H "ex_refs (Bin op a b)" "Suc (ex_refs b)"] by (auto simp: starts_def)
  then show "\<exists>v2. starts E W p0 F0 rho m x b (add_mset (r, k) H) rest v2 \<and> (\<forall>r k. need E op (r :: nat) k v1 = k v2)"
    using st_need [OF assms(3)] assms(1,2,4) unfolding starts_def by blast
qed

lemma starts_bin: "starts E W p0 F0 rho n x (Bin op a b) H rest v \<Longrightarrow> mode x \<and> fits p0 F0 (size H + 5) \<and> stops n (first_tok rest)"
  using fits_le [of p0 F0 H "ex_refs (Bin op a b)" 5] by (auto simp: starts_def)

text \<open>The result of a plain operator, from the references to its operands.\<close>

lemma plain_result:
  assumes "starts E W p0 F0 rho n x (Bin op a b) H rest v" and "op \<noteq> BE_TOKEN_OP_LOGIC_AND" and "op \<noteq> BE_TOKEN_OP_LOGIC_OR"
    and "x = 1 \<longrightarrow> r \<noteq> 0 \<and> ex_value rho a = Some k" and "yields E W p0 F0 rho x b (add_mset (r, k) H) rest s v1"
  shows "\<exists>i v2 v3. combine E r s op v1 = Some (i, v2) \<and> unlock s v2 = Some v3 \<and> yields E W p0 F0 rho x (Bin op a b) H rest i v3"
proof -
  obtain m where m: "st E W p0 F0 x (add_mset (s, m) (add_mset (r, k) H)) rest v1"
    "x = 1 \<longrightarrow> s \<noteq> 0 \<and> ex_value rho b = Some m" using assms(5) by (auto simp: yields_def)
  obtain z where z: "x = 1 \<longrightarrow> op_value op k m = Some z \<and> ex_value rho (Bin op a b) = Some z"
    using assms(1-4) m(2) by (auto simp: starts_def)
  obtain i v2 v3 y where "combine E r s op v1 = Some (i, v2)" "unlock s v2 = Some v3"
    "st E W p0 F0 x (add_mset (i, y) H) rest v3" "x = 1 \<longrightarrow> i \<noteq> 0 \<and> y = z"
    using st_binary [OF m(1), of op z] starts_bin [OF assms(1)] assms(4) m(2) z by blast
  then show ?thesis using z unfolding yields_def by blast
qed

lemma stops_ops:
  "mul_op op \<Longrightarrow> stops 1 op" "add_op op \<Longrightarrow> stops 2 op" "relational_op op \<Longrightarrow> stops 3 op"
  "bit_logic_op op \<Longrightarrow> stops 4 op" "shift_op op \<Longrightarrow> stops 2 op"
  by (auto simp: stops_def mul_op_def add_op_def relational_op_def bit_logic_op_def shift_op_def postfix_op_def)

lemma plain_ops:
  "mul_op op \<or> add_op op \<or> relational_op op \<or> shift_op op \<Longrightarrow> op \<noteq> BE_TOKEN_OP_LOGIC_AND \<and> op \<noteq> BE_TOKEN_OP_LOGIC_OR"
  by (auto simp: mul_op_def add_op_def relational_op_def shift_op_def)

lemma plain_second:
  assumes "starts E W p0 F0 rho n x (Bin op a b) H rest v" and "op \<noteq> BE_TOKEN_OP_LOGIC_AND" and "op \<noteq> BE_TOKEN_OP_LOGIC_OR" and "x = 1"
  shows "ex_value rho b \<noteq> None"
  using assms by (auto simp: starts_def bind_eq_None_conv)

text \<open>The loops that apply an operator and go on with the result.\<close>

lemma loop_bin:
  assumes "stops n op" and "op \<noteq> BE_TOKEN_OP_LOGIC_AND" and "op \<noteq> BE_TOKEN_OP_LOGIC_OR"
    and a: "at_loop E W p0 F0 rho n j Ks a" and b: "at_job E W p0 F0 rho n j b"
    and step: "\<And>ev K r v1 v2 q v3 i v4 v5. K \<in> Ks \<Longrightarrow> tk v1 = op \<Longrightarrow> (\<And>r k. need E op (r :: nat) k v1 = k v2) \<Longrightarrow>
      ev j v2 = Some (q, v3) \<Longrightarrow> combine E r q op v3 = Some (i, v4) \<Longrightarrow> unlock q v4 = Some v5 \<Longrightarrow>
      handler E ev (K r) v1 = ev (K i) v5"
  shows "at_loop E W p0 F0 rho n j Ks (Bin op a b)"
  unfolding at_loop_def
proof (intro allI impI)
  fix x H rest v
  assume s: "starts E W p0 F0 rho n x (Bin op a b) H rest v"
  obtain r0 v0 r v1 where a: "runs E j v r0 v0" "yields E W p0 F0 rho x a H ((op, []) # ex_tokens b @ rest) r v1"
    "\<forall>K\<in>Ks. \<forall>R w. runs E (K r) v1 R w \<longrightarrow> runs E (K r0) v0 R w"
    using a starts_left [OF s assms(1)] unfolding at_loop_def by blast
  obtain k where k: "st E W p0 F0 x (add_mset (r, k) H) ((op, []) # ex_tokens b @ rest) v1"
    "x = 1 \<longrightarrow> r \<noteq> 0 \<and> ex_value rho a = Some k" using a(2) by (auto simp: yields_def)
  have "stops n (first_tok rest)" "x = 1 \<longrightarrow> ex_value rho b \<noteq> None"
    using starts_bin [OF s] plain_second [OF s assms(2,3)] by auto
  note r = starts_right [OF s this(1) k(1) this(2)]
  obtain v2 where v2: "starts E W p0 F0 rho n x b (add_mset (r, k) H) rest v2" "\<And>r k. need E op (r :: nat) k v1 = k v2"
    using r(2) by blast
  obtain q v3 where b: "runs E j v2 q v3" "yields E W p0 F0 rho x b (add_mset (r, k) H) rest q v3"
    using b v2(1) unfolding at_job_def by blast
  obtain i v4 v5 where c: "combine E r q op v3 = Some (i, v4)" "unlock q v4 = Some v5"
    "yields E W p0 F0 rho x (Bin op a b) H rest i v5"
    using plain_result [OF s assms(2,3) k(2) b(2)] by blast
  have "runs E (K r0) v0 R w" if K: "K \<in> Ks" and run: "runs E (K i) v5 R w" for K R w
  proof -
    have "runs E (K r) v1 R w"
      by (intro runs2 [OF b(1) run]) (simp add: step [OF K r(1) v2(2) _ c(1,2)])
    then show ?thesis using a(3) K by blast
  qed
  then show "\<exists>r0 v0 r v1. runs E j v r0 v0 \<and> yields E W p0 F0 rho x (Bin op a b) H rest r v1 \<and>
      (\<forall>K\<in>Ks. \<forall>R w. runs E (K r) v1 R w \<longrightarrow> runs E (K r0) v0 R w)"
    using a(1) c(3) by blast
qed

lemma mul_bin:
  assumes "mul_op op" and "at_loop E W p0 F0 rho 1 Postfix mul_loops a" and "at_job E W p0 F0 rho 1 Postfix b"
  shows "at_loop E W p0 F0 rho 1 Postfix mul_loops (Bin op a b)"
  using stops_ops(1) [OF assms(1)] plain_ops [of op] assms
  by (intro loop_bin) (auto simp: mul_loops_def mul_loop_def mul_loop2_def)

section \<open>Comparisons\<close>

lemma rel_of_prec: "at_job E W p0 F0 rho 3 Precedent e \<Longrightarrow> at_loop E W p0 F0 rho 3 Precedent rel_loops e"
  unfolding at_job_def at_loop_def by blast

lemma rel_bin:
  assumes "relational_op op" and "at_loop E W p0 F0 rho 3 Precedent rel_loops a" and "at_job E W p0 F0 rho 3 Precedent b"
  shows "at_loop E W p0 F0 rho 3 Precedent rel_loops (Bin op a b)"
  using stops_ops(3) [OF assms(1)] plain_ops [of op] assms
  by (intro loop_bin) (auto simp: rel_loops_def rel_loop_def rel_loop2_def)

end
