(* ===== verification/Exec_Levels.thy ===== *)
theory Exec_Levels
  imports Exec_Prec
begin

text \<open>
  The levels above the products: sums with the sign, shifts, the bitwise and logical
  operators, conditions, and then all levels together.
\<close>

lemma starts_mono: "starts E W p0 F0 rho n x e H rest v \<Longrightarrow> m \<le> n \<Longrightarrow> starts E W p0 F0 rho m x e H rest v"
  by (auto simp: starts_def intro: stops_mono)

lemma starts_first:
  assumes "starts E W p0 F0 rho n x e H rest v" and "ex_tokens e \<noteq> []"
  shows "tk v = first_tok (ex_tokens e)"
proof -
  have "tk v = first_tok (ex_tokens e @ rest)" using assms(1) st_tk by (auto simp: starts_def)
  then show ?thesis using assms(2) by (cases "ex_tokens e") (auto simp: first_tok_def)
qed

lemma yields_tk: "yields E W p0 F0 rho x e H rest r v \<Longrightarrow> tk v = first_tok rest"
  using st_tk by (auto simp: yields_def)

section \<open>Sums\<close>

lemma add_of_mul:
  assumes "at_loop E W p0 F0 rho 1 Postfix mul_loops e" and "first_tok (ex_tokens e) \<noteq> TK 45" and "ex_tokens e \<noteq> []"
  shows "at_into E W p0 F0 rho 2 Precedent Add_Loop e"
  unfolding at_into_def
proof (intro allI impI)
  fix x H rest v
  assume s: "starts E W p0 F0 rho 2 x e H rest v"
  have "starts E W p0 F0 rho 1 x e H rest v" using starts_mono [OF s] by simp
  then obtain r0 v0 r v1 where a: "runs E Postfix v r0 v0" "yields E W p0 F0 rho x e H rest r v1"
    "\<forall>K\<in>mul_loops. \<forall>R w. runs E (K r) v1 R w \<longrightarrow> runs E (K r0) v0 R w"
    using assms(1) unfolding at_loop_def by blast
  have "\<not> mul_op (tk v1)" using yields_tk [OF a(2)] s by (simp add: starts_def stops_def)
  have "runs E Precedent v R w" if run: "runs E (Add_Loop r) v1 R w" for R w
  proof -
    have "runs E (Mul_Loop False r) v1 R w"
      using \<open>\<not> mul_op (tk v1)\<close> by (intro runs1 [OF run]) (simp add: mul_loop_def)
    then have m: "runs E (Mul_Loop False r0) v0 R w" using a(3) by (auto simp: mul_loops_def)
    show ?thesis
      using starts_first [OF s assms(3)] assms(2) by (intro runs2 [OF a(1) m]) (simp add: handle_precedent_expr_def)
  qed
  then show "\<exists>r v1. yields E W p0 F0 rho x e H rest r v1 \<and> (\<forall>R w. runs E (Add_Loop r) v1 R w \<longrightarrow> runs E Precedent v R w)"
    using a(2) by blast
qed

text \<open>The sign subtracts from the zero of the context.\<close>

lemma negate:
  assumes "env_ok E p0 F0 rho" and "st E W p0 F0 x (add_mset (r, k) H) rest v" and "fits p0 F0 (size H + 5)"
  shows "\<exists>v1 s v2 v3 v4. lock (zeroInt (e_ctx E)) v = Some v1 \<and> maths E (zeroInt (e_ctx E)) r (TK 45) v1 = Some (s, v2) \<and>
    unlock (zeroInt (e_ctx E)) v2 = Some v3 \<and> unlock r v3 = Some v4 \<and> s \<noteq> 0 \<and> st E W p0 F0 x (add_mset (s, s64 (- k)) H) rest v4"
proof -
  let ?z = "zeroInt (e_ctx E)"
  have z: "int_at p0 F0 ?z 0" using assms(1) by (simp add: env_ok_def)
  obtain v1 where v1: "lock ?z v = Some v1" "st E W p0 F0 x (add_mset (?z, 0) (add_mset (r, k) H)) rest v1"
    using st_lock [OF assms(2) _ z] fits_le [OF assms(3), of 2] by auto
  have o: "op_value (TK 45) 0 k = Some (s64 (- k))" by (simp add: op_value_def int_op_def)
  obtain s v2 where v2: "maths E ?z r (TK 45) v1 = Some (s, v2)" "s \<noteq> 0"
    "st E W p0 F0 x (add_mset (s, s64 (- k)) (add_mset (?z, 0) (add_mset (r, k) H))) rest v2"
    using st_maths [OF v1(2), of ?z 0 r k "TK 45"] o z assms(3) by (auto simp: add.commute int_at_def)
  have "st E W p0 F0 x (add_mset (?z, 0) (add_mset (r, k) (add_mset (s, s64 (- k)) H))) rest v2"
    using v2(3) by (simp add: add_mset_commute)
  then obtain v3 where v3: "unlock ?z v2 = Some v3" "st E W p0 F0 x (add_mset (r, k) (add_mset (s, s64 (- k)) H)) rest v3"
    using st_unlock by blast
  obtain v4 where "unlock r v3 = Some v4" "st E W p0 F0 x (add_mset (s, s64 (- k)) H) rest v4"
    using st_unlock [OF v3(2)] by blast
  then show ?thesis using v1(1) v2(1,2) v3(1) by blast
qed

lemma add_neg:
  assumes "env_ok E p0 F0 rho" and "at_loop E W p0 F0 rho 1 Postfix mul_loops e"
  shows "at_into E W p0 F0 rho 2 Precedent Add_Loop (Neg e)"
  unfolding at_into_def
proof (intro allI impI)
  fix x H rest v
  assume s: "starts E W p0 F0 rho 2 x (Neg e) H rest v"
  have f: "fits p0 F0 (size H + 5)" using s fits_le [of p0 F0 H "ex_refs (Neg e)" 5] by (simp add: starts_def)
  have e: "x = 1 \<longrightarrow> ex_value rho e \<noteq> None" "stops 1 (first_tok rest)"
    using s stops_mono [of 2 "first_tok rest" 1] by (auto simp: starts_def)
  note i = starts_inner [OF s, of "TK 45" "[]" e "[]" 1]
  obtain v' where v': "starts E W p0 F0 rho 1 x e H rest v'" "\<And>r k. need E (TK 45) (r :: nat) k v = k v'"
    using i(2) e by auto
  obtain r0 v0 r v1 where a: "runs E Postfix v' r0 v0" "yields E W p0 F0 rho x e H rest r v1"
    "\<forall>K\<in>mul_loops. \<forall>R w. runs E (K r) v1 R w \<longrightarrow> runs E (K r0) v0 R w"
    using assms(2) v'(1) unfolding at_loop_def by blast
  obtain k where k: "st E W p0 F0 x (add_mset (r, k) H) rest v1" "x = 1 \<longrightarrow> ex_value rho e = Some k"
    using a(2) by (auto simp: yields_def)
  have m: "\<not> mul_op (tk v1)" using yields_tk [OF a(2)] s by (simp add: starts_def stops_def)
  obtain v2 n v3 v4 v5 where n: "lock (zeroInt (e_ctx E)) v1 = Some v2" "maths E (zeroInt (e_ctx E)) r (TK 45) v2 = Some (n, v3)"
    "unlock (zeroInt (e_ctx E)) v3 = Some v4" "unlock r v4 = Some v5" "n \<noteq> 0" "st E W p0 F0 x (add_mset (n, s64 (- k)) H) rest v5"
    using negate [OF assms(1) k(1) f] by blast
  have "runs E Precedent v R w" if run: "runs E (Add_Loop n) v5 R w" for R w
  proof -
    have "runs E (Mul_Loop True r) v1 R w"
      using m n(1-4) by (intro runs1 [OF run]) (simp add: mul_loop_def Let_def)
    then have l: "runs E (Mul_Loop True r0) v0 R w" using a(3) by (auto simp: mul_loops_def)
    show ?thesis using i(1) e v'(2) by (intro runs2 [OF a(1) l]) (simp add: handle_precedent_expr_def)
  qed
  moreover have "yields E W p0 F0 rho x (Neg e) H rest n v5" using n(5,6) k(2) by (auto simp: yields_def)
  ultimately show "\<exists>r v1. yields E W p0 F0 rho x (Neg e) H rest r v1 \<and>
      (\<forall>R w. runs E (Add_Loop r) v1 R w \<longrightarrow> runs E Precedent v R w)" by blast
qed

lemma add_bin:
  assumes "add_op op" and "at_into E W p0 F0 rho 2 Precedent Add_Loop a" and "at_loop E W p0 F0 rho 1 Postfix mul_loops b"
  shows "at_into E W p0 F0 rho 2 Precedent Add_Loop (Bin op a b)"
  unfolding at_into_def
proof (intro allI impI)
  fix x H rest v
  assume s: "starts E W p0 F0 rho 2 x (Bin op a b) H rest v"
  have pl: "op \<noteq> BE_TOKEN_OP_LOGIC_AND" "op \<noteq> BE_TOKEN_OP_LOGIC_OR" using plain_ops [of op] assms(1) by auto
  obtain r v1 where a: "yields E W p0 F0 rho x a H ((op, []) # ex_tokens b @ rest) r v1"
    "\<And>R w. runs E (Add_Loop r) v1 R w \<Longrightarrow> runs E Precedent v R w"
    using assms(2) starts_left [OF s stops_ops(2) [OF assms(1)]] unfolding at_into_def by blast
  obtain k where k: "st E W p0 F0 x (add_mset (r, k) H) ((op, []) # ex_tokens b @ rest) v1"
    "x = 1 \<longrightarrow> r \<noteq> 0 \<and> ex_value rho a = Some k" using a(1) by (auto simp: yields_def)
  have "stops 1 (first_tok rest)" "x = 1 \<longrightarrow> ex_value rho b \<noteq> None"
    using starts_bin [OF s] stops_mono [of 2 "first_tok rest" 1] plain_second [OF s pl] by auto
  note t = starts_right [OF s this(1) k(1) this(2)]
  obtain v2 where v2: "starts E W p0 F0 rho 1 x b (add_mset (r, k) H) rest v2" "\<And>r k. need E op (r :: nat) k v1 = k v2"
    using t(2) by blast
  obtain q0 v3 q v4 where b: "runs E Postfix v2 q0 v3" "yields E W p0 F0 rho x b (add_mset (r, k) H) rest q v4"
    "\<forall>K\<in>mul_loops. \<forall>R w. runs E (K q) v4 R w \<longrightarrow> runs E (K q0) v3 R w"
    using assms(3) v2(1) unfolding at_loop_def by blast
  obtain i v5 v6 where c: "combine E r q op v4 = Some (i, v5)" "unlock q v5 = Some v6"
    "yields E W p0 F0 rho x (Bin op a b) H rest i v6"
    using plain_result [OF s pl k(2) b(2)] by blast
  have m: "\<not> mul_op (tk v4)" using yields_tk [OF b(2)] s by (simp add: starts_def stops_def)
  have "runs E Precedent v R w" if run: "runs E (Add_Loop i) v6 R w" for R w
  proof -
    have "runs E (Mul_Loop2 r q op) v4 R w"
      using m c(1,2) by (intro runs1 [OF run]) (simp add: mul_loop2_def)
    moreover have "(\<lambda>q. Mul_Loop2 r q op) \<in> mul_loops" by (auto simp: mul_loops_def)
    ultimately have l: "runs E (Mul_Loop2 r q0 op) v3 R w" using bspec [OF b(3), of "\<lambda>q. Mul_Loop2 r q op"] by simp
    have "runs E (Add_Loop r) v1 R w"
      using t(1) v2(2) assms(1) by (intro runs2 [OF b(1) l]) (simp add: add_loop_def Let_def)
    then show ?thesis by (rule a(2))
  qed
  then show "\<exists>r v1. yields E W p0 F0 rho x (Bin op a b) H rest r v1 \<and>
      (\<forall>R w. runs E (Add_Loop r) v1 R w \<longrightarrow> runs E Precedent v R w)" using c(3) by blast
qed

lemma prec_of_add:
  assumes "at_into E W p0 F0 rho 2 Precedent Add_Loop e"
  shows "at_job E W p0 F0 rho 3 Precedent e"
  unfolding at_job_def
proof (intro allI impI)
  fix x H rest v
  assume s: "starts E W p0 F0 rho 3 x e H rest v"
  have "starts E W p0 F0 rho 2 x e H rest v" using starts_mono [OF s] by simp
  then obtain r v1 where a: "yields E W p0 F0 rho x e H rest r v1" "\<And>R w. runs E (Add_Loop r) v1 R w \<Longrightarrow> runs E Precedent v R w"
    using assms unfolding at_into_def by blast
  have "runs E (Add_Loop r) v1 r v1"
    using yields_tk [OF a(1)] s by (intro runs0) (simp add: add_loop_def shift_part_def starts_def stops_def)
  then show "\<exists>r v1. runs E Precedent v r v1 \<and> yields E W p0 F0 rho x e H rest r v1" using a by blast
qed

section \<open>Bitwise and logical operators\<close>

lemma logic_of_rel:
  assumes "at_loop E W p0 F0 rho 3 Precedent rel_loops e"
  shows "at_into E W p0 F0 rho 4 Base_Expr Logic_Loop e"
  unfolding at_into_def
proof (intro allI impI)
  fix x H rest v
  assume s: "starts E W p0 F0 rho 4 x e H rest v"
  have "starts E W p0 F0 rho 3 x e H rest v" using starts_mono [OF s] by simp
  then obtain r0 v0 r v1 where a: "runs E Precedent v r0 v0" "yields E W p0 F0 rho x e H rest r v1"
    "\<forall>K\<in>rel_loops. \<forall>R w. runs E (K r) v1 R w \<longrightarrow> runs E (K r0) v0 R w"
    using assms unfolding at_loop_def by blast
  have n: "\<not> relational_op (tk v1)" using yields_tk [OF a(2)] s by (simp add: starts_def stops_def)
  have "runs E Base_Expr v R w" if run: "runs E (Logic_Loop r) v1 R w" for R w
  proof -
    have "runs E (Rel_Loop r) v1 R w" using n by (intro runs1 [OF run]) (simp add: rel_loop_def)
    then have l: "runs E (Rel_Loop r0) v0 R w" using a(3) by (auto simp: rel_loops_def)
    show ?thesis by (intro runs2 [OF a(1) l]) (simp add: handle_base_expr_def)
  qed
  then show "\<exists>r v1. yields E W p0 F0 rho x e H rest r v1 \<and>
      (\<forall>R w. runs E (Logic_Loop r) v1 R w \<longrightarrow> runs E Base_Expr v R w)" using a(2) by blast
qed

text \<open>Switching the execution off and on.\<close>

lemma st_idle: "st E W p0 F0 x H ts v \<Longrightarrow> mode x \<Longrightarrow> st E W p0 F0 0 H ts (set_vm_idle v)"
  by (auto simp: st_def set_vm_idle_def mode_def)

lemma st_restore: "st E W p0 F0 0 H ts v \<Longrightarrow> mode x \<Longrightarrow> st E W p0 F0 x H ts (restore_exec x v)"
  by (auto simp: st_def restore_exec_def mode_def)

definition logic_op :: "tok \<Rightarrow> bool" where
  "logic_op op \<longleftrightarrow> op = BE_TOKEN_OP_LOGIC_AND \<or> op = BE_TOKEN_OP_LOGIC_OR"

definition shorts :: "tok \<Rightarrow> int \<Rightarrow> bool" where
  "shorts op k \<longleftrightarrow> op = BE_TOKEN_OP_LOGIC_AND \<and> k = 0 \<or> op = BE_TOKEN_OP_LOGIC_OR \<and> k \<noteq> 0"

definition bit_of :: "tok \<Rightarrow> tok" where
  "bit_of op = (if op = BE_TOKEN_OP_LOGIC_AND then TK 38 else if op = BE_TOKEN_OP_LOGIC_OR then TK 124 else op)"

lemma logic_begin:
  assumes "st E W p0 F0 x (add_mset (r, k) H) ((op, []) # ts) v" and "mode x" and "fits p0 F0 (size H + 5)" and "bit_logic_op op"
  shows "\<exists>v1. st E W p0 F0 (if shorts op k then 0 else x) (add_mset (r, k) H) ts v1 \<and>
    (\<forall>ev. logic_loop E ev r v = do {
       (b, w) \<leftarrow> ev Precedent v1;
       ev (Rel_Loop2 r b (bit_of op) (shorts op k) (logic_op op) x) w
     })"
proof -
  obtain v0 where v0: "st E W p0 F0 x (add_mset (r, k) H) ts v0" "\<And>r k. need E op (r :: nat) k v = k v0"
    using st_need [OF assms(1)] by blast
  have t: "tk v = op" using st_tk [OF assms(1)] by simp
  obtain v1 where v1: "value_bool E r v0 = Some (k \<noteq> 0, v1)" "st E W p0 F0 x (add_mset (r, k) H) ts v1"
    using st_value_bool [OF v0(1), of r k] fits_le [OF assms(3), of 2] by auto
  show ?thesis
  proof (cases "logic_op op")
    case True
    have "vm_exec v1 = x" using v1(2) by (simp add: st_def)
    then show ?thesis
      using True t v0(2) v1 assms(4) st_idle [OF v1(2) assms(2)]
      by (intro exI [of _ "if shorts op k then set_vm_idle v1 else v1"])
        (auto simp: logic_loop_def logic_op_def shorts_def bit_of_def Let_def)
  next
    case False
    have "vm_exec v0 = x" using v0(1) by (simp add: st_def)
    then show ?thesis
      using False t v0 assms(4)
      by (intro exI [of _ v0]) (auto simp: logic_loop_def logic_op_def shorts_def bit_of_def Let_def)
  qed
qed

lemma and_or_truth:
  "truth b AND truth c = truth (b \<and> c)" "truth b OR truth c = truth (b \<or> c)"
  by (cases b; cases c; simp add: truth_def)+

text \<open>Both operands are turned into truth values.\<close>

lemma st_truths:
  assumes "st E W p0 F0 x (add_mset (q, m) (add_mset (r, k) H)) ts v" and "fits p0 F0 (size H + 5)"
  shows "\<exists>i j v1 v2 v3 v4 v5 v6. value_bool E r v = Some (k \<noteq> 0, v1) \<and> ask_pool (new_bool_symbol (k \<noteq> 0)) v1 = Some (i, v2) \<and>
    value_bool E q v2 = Some (m \<noteq> 0, v3) \<and> ask_pool (new_bool_symbol (m \<noteq> 0)) v3 = Some (j, v4) \<and>
    unlock r v4 = Some v5 \<and> unlock q v5 = Some v6 \<and> i \<noteq> 0 \<and> j \<noteq> 0 \<and>
    st E W p0 F0 x (add_mset (j, truth (m \<noteq> 0)) (add_mset (i, truth (k \<noteq> 0)) H)) ts v6"
proof -
  obtain v1 where v1: "value_bool E r v = Some (k \<noteq> 0, v1)" "st E W p0 F0 x (add_mset (q, m) (add_mset (r, k) H)) ts v1"
    using st_value_bool [OF assms(1), of r k] fits_le [OF assms(2), of 3] by (auto simp: numeral_eq_Suc)
  obtain i v2 where v2: "ask_pool (new_bool_symbol (k \<noteq> 0)) v1 = Some (i, v2)" "i \<noteq> 0"
    "st E W p0 F0 x (add_mset (i, truth (k \<noteq> 0)) (add_mset (q, m) (add_mset (r, k) H))) ts v2"
    using st_new_bool [OF v1(2), of "k \<noteq> 0"] fits_le [OF assms(2), of 3] by (auto simp: numeral_eq_Suc)
  obtain v3 where v3: "value_bool E q v2 = Some (m \<noteq> 0, v3)"
    "st E W p0 F0 x (add_mset (i, truth (k \<noteq> 0)) (add_mset (q, m) (add_mset (r, k) H))) ts v3"
    using st_value_bool [OF v2(3), of q m] fits_le [OF assms(2), of 4] by (auto simp: numeral_eq_Suc)
  obtain j v4 where v4: "ask_pool (new_bool_symbol (m \<noteq> 0)) v3 = Some (j, v4)" "j \<noteq> 0"
    "st E W p0 F0 x (add_mset (j, truth (m \<noteq> 0)) (add_mset (i, truth (k \<noteq> 0)) (add_mset (q, m) (add_mset (r, k) H)))) ts v4"
    using st_new_bool [OF v3(2), of "m \<noteq> 0"] fits_le [OF assms(2), of 4] by (auto simp: numeral_eq_Suc)
  have "st E W p0 F0 x (add_mset (r, k) (add_mset (q, m) (add_mset (j, truth (m \<noteq> 0)) (add_mset (i, truth (k \<noteq> 0)) H)))) ts v4"
    using v4(3) by (simp add: add_mset_commute)
  then obtain v5 where v5: "unlock r v4 = Some v5"
    "st E W p0 F0 x (add_mset (q, m) (add_mset (j, truth (m \<noteq> 0)) (add_mset (i, truth (k \<noteq> 0)) H))) ts v5"
    using st_unlock by blast
  obtain v6 where "unlock q v5 = Some v6" "st E W p0 F0 x (add_mset (j, truth (m \<noteq> 0)) (add_mset (i, truth (k \<noteq> 0)) H)) ts v6"
    using st_unlock [OF v5(2)] by blast
  then show ?thesis using v1(1) v2(1,2) v3(1) v4(1,2) v5(1) by blast
qed

end
