(* ===== verification/Exec_Full.thy ===== *)
theory Exec_Full
  imports Exec_Levels
begin

text \<open>
  The bitwise and logical operators, conditions and shifts, and the theorem about all
  expressions.
\<close>

section \<open>Bitwise and logical operators\<close>

lemma logic_end:
  assumes s: "starts E W p0 F0 rho n x (Bin op a b) H rest v" and op: "bit_logic_op op"
    and a: "x = 1 \<longrightarrow> r \<noteq> 0 \<and> ex_value rho a = Some k"
    and b: "yields E W p0 F0 rho (if shorts op k then 0 else x) b (add_mset (r, k) H) rest q v1"
    and n: "\<not> relational_op (tk v1)"
  shows "\<exists>i v2. (\<forall>ev. rel_loop2 E ev r q (bit_of op) (shorts op k) (logic_op op) x v1 = ev (Logic_Loop i) v2) \<and>
    yields E W p0 F0 rho x (Bin op a b) H rest i v2"
proof -
  have m: "mode x" "fits p0 F0 (size H + 5)" using starts_bin [OF s] by simp_all
  obtain y where y: "st E W p0 F0 (if shorts op k then 0 else x) (add_mset (q, y) (add_mset (r, k) H)) rest v1"
    "(if shorts op k then 0 else x) = 1 \<longrightarrow> q \<noteq> 0 \<and> ex_value rho b = Some y"
    using b by (auto simp: yields_def)
  show ?thesis
  proof (cases "shorts op k")
    case True
    have "st E W p0 F0 x (add_mset (q, y) (add_mset (r, k) H)) rest (restore_exec x v1)"
      using st_restore [OF _ m(1)] y(1) True by simp
    then obtain v2 where v2: "unlock q (restore_exec x v1) = Some v2" "st E W p0 F0 x (add_mset (r, k) H) rest v2"
      using st_unlock by blast
    have "x = 1 \<longrightarrow> ex_value rho (Bin op a b) = Some k" using a True by (auto simp: shorts_def)
    then have "yields E W p0 F0 rho x (Bin op a b) H rest r v2" using a v2(2) unfolding yields_def by blast
    then show ?thesis using True n v2(1) by (intro exI [of _ r] exI [of _ v2]) (simp add: rel_loop2_def Let_def)
  next
    case ns: False
    then have y: "st E W p0 F0 x (add_mset (q, y) (add_mset (r, k) H)) rest v1" "x = 1 \<longrightarrow> q \<noteq> 0 \<and> ex_value rho b = Some y"
      using y by simp_all
    show ?thesis
    proof (cases "logic_op op \<and> x = 1")
      case True
      have z: "ex_value rho (Bin op a b) = Some (truth (y \<noteq> 0))"
        using True a y(2) ns by (auto simp: logic_op_def shorts_def)
      have o: "op_value (bit_of op) (truth (k \<noteq> 0)) (truth (y \<noteq> 0)) = Some (truth (y \<noteq> 0))"
        using True ns by (auto simp: logic_op_def shorts_def bit_of_def op_value_def int_op_def truth_def)
      obtain i j w1 w2 w3 w4 w5 w6 where w: "value_bool E r v1 = Some (k \<noteq> 0, w1)" "ask_pool (new_bool_symbol (k \<noteq> 0)) w1 = Some (i, w2)"
        "value_bool E q w2 = Some (y \<noteq> 0, w3)" "ask_pool (new_bool_symbol (y \<noteq> 0)) w3 = Some (j, w4)"
        "unlock r w4 = Some w5" "unlock q w5 = Some w6" "i \<noteq> 0" "j \<noteq> 0"
        "st E W p0 F0 x (add_mset (j, truth (y \<noteq> 0)) (add_mset (i, truth (k \<noteq> 0)) H)) rest w6"
        using st_truths [OF y(1) m(2)] by blast
      obtain s u1 u2 where u: "combine E i j (bit_of op) w6 = Some (s, u1)" "unlock j u1 = Some u2"
        "st E W p0 F0 x (add_mset (s, truth (y \<noteq> 0)) H) rest u2" "s \<noteq> 0"
        using st_binary [OF w(9) m, of "bit_of op" "truth (y \<noteq> 0)"] w(7,8) o True by auto
      have "yields E W p0 F0 rho x (Bin op a b) H rest s u2" using u(3,4) z unfolding yields_def by blast
      moreover have "should_execute v1" using st_mode [OF y(1) m(1)] True by simp
      ultimately show ?thesis using True ns n w(1-6) u(1,2)
        by (intro exI [of _ s] exI [of _ u2]) (simp add: rel_loop2_def Let_def)
    next
      case False
      have "\<exists>z. x = 1 \<longrightarrow> op_value (bit_of op) k y = Some z \<and> ex_value rho (Bin op a b) = Some z"
        using False s a y(2) by (cases "x = 1") (auto simp: starts_def logic_op_def bit_of_def)
      then obtain z where z: "x = 1 \<longrightarrow> op_value (bit_of op) k y = Some z \<and> ex_value rho (Bin op a b) = Some z" by blast
      obtain i u1 u2 c where u: "combine E r q (bit_of op) v1 = Some (i, u1)" "unlock q u1 = Some u2"
        "st E W p0 F0 x (add_mset (i, c) H) rest u2" "x = 1 \<longrightarrow> i \<noteq> 0 \<and> c = z"
        using st_binary [OF y(1) m, of "bit_of op" z] a y(2) z by blast
      have "yields E W p0 F0 rho x (Bin op a b) H rest i u2" using u(3,4) z unfolding yields_def by blast
      moreover have "\<not> (should_execute v1 \<and> logic_op op)" using st_mode [OF y(1) m(1)] False by auto
      ultimately show ?thesis using ns n u(1,2)
        by (intro exI [of _ i] exI [of _ u2]) (auto simp: rel_loop2_def Let_def)
    qed
  qed
qed

lemma logic_bin:
  assumes "bit_logic_op op" and "at_into E W p0 F0 rho 4 Base_Expr Logic_Loop a" and "at_loop E W p0 F0 rho 3 Precedent rel_loops b"
  shows "at_into E W p0 F0 rho 4 Base_Expr Logic_Loop (Bin op a b)"
  unfolding at_into_def
proof (intro allI impI)
  fix x H rest v
  assume s: "starts E W p0 F0 rho 4 x (Bin op a b) H rest v"
  have m: "mode x" "fits p0 F0 (size H + 5)" using starts_bin [OF s] by simp_all
  obtain r v1 where a: "yields E W p0 F0 rho x a H ((op, []) # ex_tokens b @ rest) r v1"
    "\<And>R w. runs E (Logic_Loop r) v1 R w \<Longrightarrow> runs E Base_Expr v R w"
    using assms(2) starts_left [OF s stops_ops(4) [OF assms(1)]] unfolding at_into_def by blast
  obtain k where k: "st E W p0 F0 x (add_mset (r, k) H) ((op, []) # ex_tokens b @ rest) v1"
    "x = 1 \<longrightarrow> r \<noteq> 0 \<and> ex_value rho a = Some k" using a(1) by (auto simp: yields_def)
  define y where "y = (if shorts op k then 0 else x)"
  obtain v2 where v2: "st E W p0 F0 y (add_mset (r, k) H) (ex_tokens b @ rest) v2"
    "\<And>ev. logic_loop E ev r v1 = do { (b, w) \<leftarrow> ev Precedent v2; ev (Rel_Loop2 r b (bit_of op) (shorts op k) (logic_op op) x) w }"
    using logic_begin [OF k(1) m assms(1)] unfolding y_def by blast
  have "y = 1 \<longrightarrow> ex_value rho b \<noteq> None" using s k(2) by (auto simp: y_def shorts_def starts_def bind_eq_Some_conv split: if_splits)
  moreover have "fits p0 F0 (size (add_mset (r, k) H) + ex_refs b)"
    using s fits_le [of p0 F0 H "ex_refs (Bin op a b)" "Suc (ex_refs b)"] by (auto simp: starts_def)
  moreover have "stops 3 (first_tok rest)" using starts_bin [OF s] stops_mono [of 4 "first_tok rest" 3] by simp
  ultimately have "starts E W p0 F0 rho 3 y b (add_mset (r, k) H) rest v2"
    using v2(1) m(1) by (simp add: starts_def y_def)
  then obtain q0 v3 q v4 where b: "runs E Precedent v2 q0 v3" "yields E W p0 F0 rho y b (add_mset (r, k) H) rest q v4"
    "\<forall>K\<in>rel_loops. \<forall>R w. runs E (K q) v4 R w \<longrightarrow> runs E (K q0) v3 R w"
    using assms(3) unfolding at_loop_def by blast
  have n: "\<not> relational_op (tk v4)" using yields_tk [OF b(2)] s by (simp add: starts_def stops_def)
  obtain i v5 where i: "\<And>ev. rel_loop2 E ev r q (bit_of op) (shorts op k) (logic_op op) x v4 = ev (Logic_Loop i) v5"
    "yields E W p0 F0 rho x (Bin op a b) H rest i v5"
    using logic_end [OF s assms(1) k(2) b(2) [unfolded y_def] n] by blast
  let ?K = "\<lambda>c. Rel_Loop2 r c (bit_of op) (shorts op k) (logic_op op) x"
  have "runs E Base_Expr v R w" if run: "runs E (Logic_Loop i) v5 R w" for R w
  proof -
    have "runs E (?K q) v4 R w" by (intro runs1 [OF run]) (simp add: i(1))
    moreover have "?K \<in> rel_loops" unfolding rel_loops_def by blast
    ultimately have l: "runs E (?K q0) v3 R w" using bspec [OF b(3), of ?K] by simp
    have "runs E (Logic_Loop r) v1 R w" by (intro runs2 [OF b(1) l]) (simp add: v2(2))
    then show ?thesis by (rule a(2))
  qed
  then show "\<exists>r v1. yields E W p0 F0 rho x (Bin op a b) H rest r v1 \<and>
      (\<forall>R w. runs E (Logic_Loop r) v1 R w \<longrightarrow> runs E Base_Expr v R w)" using i(2) by blast
qed

section \<open>Whole expressions\<close>

lemma logic_done:
  assumes "stops 6 (tk v)"
  shows "runs E (Logic_Loop r) v r v"
  using assms by (intro runs0) (simp add: logic_loop_def ternary_part_def assign_part_def stops_def)

lemma base_of_logic:
  assumes "at_into E W p0 F0 rho 4 Base_Expr Logic_Loop e"
  shows "at_job E W p0 F0 rho 6 Base_Expr e"
  unfolding at_job_def
proof (intro allI impI)
  fix x H rest v
  assume s: "starts E W p0 F0 rho 6 x e H rest v"
  have "starts E W p0 F0 rho 4 x e H rest v" using starts_mono [OF s] by simp
  then obtain r v1 where a: "yields E W p0 F0 rho x e H rest r v1" "\<And>R w. runs E (Logic_Loop r) v1 R w \<Longrightarrow> runs E Base_Expr v R w"
    using assms unfolding at_into_def by blast
  have "runs E (Logic_Loop r) v1 r v1" using yields_tk [OF a(1)] s by (intro logic_done) (simp add: starts_def)
  then show "\<exists>r v1. runs E Base_Expr v r v1 \<and> yields E W p0 F0 rho x e H rest r v1" using a by blast
qed

lemma base_shift:
  assumes "shift_op op" and "at_into E W p0 F0 rho 2 Precedent Add_Loop a" and "at_job E W p0 F0 rho 6 Base_Expr b"
  shows "at_job E W p0 F0 rho 6 Base_Expr (Bin op a b)"
  unfolding at_job_def
proof (intro allI impI)
  fix x H rest v
  assume s: "starts E W p0 F0 rho 6 x (Bin op a b) H rest v"
  have pl: "op \<noteq> BE_TOKEN_OP_LOGIC_AND" "op \<noteq> BE_TOKEN_OP_LOGIC_OR" using plain_ops [of op] assms(1) by auto
  obtain r v1 where a: "yields E W p0 F0 rho x a H ((op, []) # ex_tokens b @ rest) r v1"
    "\<And>R w. runs E (Add_Loop r) v1 R w \<Longrightarrow> runs E Precedent v R w"
    using assms(2) starts_left [OF s stops_ops(5) [OF assms(1)]] unfolding at_into_def by blast
  obtain k where k: "st E W p0 F0 x (add_mset (r, k) H) ((op, []) # ex_tokens b @ rest) v1"
    "x = 1 \<longrightarrow> r \<noteq> 0 \<and> ex_value rho a = Some k" using a(1) by (auto simp: yields_def)
  have st6: "stops 6 (first_tok rest)" and vb: "x = 1 \<longrightarrow> ex_value rho b \<noteq> None"
    using starts_bin [OF s] plain_second [OF s pl] by auto
  note t = starts_right [OF s st6 k(1) vb]
  obtain v2 where v2: "starts E W p0 F0 rho 6 x b (add_mset (r, k) H) rest v2" "\<And>r k. need E op (r :: nat) k v1 = k v2"
    using t(2) by blast
  obtain q v3 where b: "runs E Base_Expr v2 q v3" "yields E W p0 F0 rho x b (add_mset (r, k) H) rest q v3"
    using assms(3) v2(1) unfolding at_job_def by blast
  obtain i v4 v5 where c: "combine E r q op v3 = Some (i, v4)" "unlock q v4 = Some v5"
    "yields E W p0 F0 rho x (Bin op a b) H rest i v5"
    using plain_result [OF s pl k(2) b(2)] by blast
  have "\<not> add_op op" using assms(1) by (auto simp: add_op_def shift_op_def)
  then have "runs E (Add_Loop r) v1 i v5"
    using t(1) v2(2) assms(1) c(1,2) by (intro runs1 [OF b(1)]) (simp add: add_loop_def shift_part_def Let_def)
  then have p: "runs E Precedent v i v5" by (rule a(2))
  have s5: "stops 6 (tk v5)" using yields_tk [OF c(3)] st6 by simp
  have "runs E (Rel_Loop i) v5 i v5" using s5 by (intro runs1 [OF logic_done [OF s5, of E i]]) (simp add: rel_loop_def stops_def)
  then have "runs E Base_Expr v i v5" by (rule runs2 [OF p]) (simp add: handle_base_expr_def)
  then show "\<exists>r v1. runs E Base_Expr v r v1 \<and> yields E W p0 F0 rho x (Bin op a b) H rest r v1" using c(3) by blast
qed

lemma ex_refs_pos: "0 < ex_refs e"
  by (induction e) auto

text \<open>The branches of a condition: one is executed, the other is only parsed.\<close>

lemma run_branch:
  assumes "at_job E W p0 F0 rho 6 Base_Expr e" and "st E W p0 F0 x H (ex_tokens e @ (TK 58, []) # ts) v" and "mode x"
    and "x = 1 \<longrightarrow> ex_value rho e \<noteq> None" and "fits p0 F0 (size H + ex_refs e)"
  shows "\<exists>r v1 v2 k. runs E Base_Expr v r v1 \<and> (\<forall>r k. need E (TK 58) (r :: nat) k v1 = k v2) \<and>
    st E W p0 F0 x (add_mset (r, k) H) ((TK 58, []) # ts) v1 \<and> st E W p0 F0 x (add_mset (r, k) H) ts v2 \<and>
    v2 = v1\<lparr>vm_lex := vm_lex v2\<rparr> \<and> (x = 1 \<longrightarrow> r \<noteq> 0 \<and> ex_value rho e = Some k)"
proof -
  have "stops 6 (TK 58)" by (simp add: stops_def postfix_op_def mul_op_def add_op_def shift_op_def
      relational_op_def bit_logic_op_def assignment_op_def)
  then have "starts E W p0 F0 rho 6 x e H ((TK 58, []) # ts) v" using assms(2-5) by (simp add: starts_def)
  then obtain r v1 where v1: "runs E Base_Expr v r v1" "yields E W p0 F0 rho x e H ((TK 58, []) # ts) r v1"
    using assms(1) unfolding at_job_def by blast
  obtain k where k: "st E W p0 F0 x (add_mset (r, k) H) ((TK 58, []) # ts) v1" "x = 1 \<longrightarrow> r \<noteq> 0 \<and> ex_value rho e = Some k"
    using v1(2) by (auto simp: yields_def)
  obtain l where l: "next_token (e_oob E) (vm_lex v1) = Some l" "reads W ts l" "lx_tk (vm_lex v1) = TK 58"
    using k(1) reads_token unfolding st_def by meson
  then have "\<forall>r k. need E (TK 58) (r :: nat) k v1 = k (v1\<lparr>vm_lex := l\<rparr>)"
    by (simp add: need_def need_clean_def lexer_token_cmp_def)
  moreover have "st E W p0 F0 x (add_mset (r, k) H) ts (v1\<lparr>vm_lex := l\<rparr>)" using k(1) l(2) by (simp add: st_def)
  ultimately show ?thesis using v1(1) k by (intro exI [of _ r] exI [of _ v1] exI [of _ "v1\<lparr>vm_lex := l\<rparr>"]) auto
qed

text \<open>The second branch is at the end of the expression.\<close>

lemma run_last:
  assumes "at_job E W p0 F0 rho 6 Base_Expr e" and "st E W p0 F0 x H (ex_tokens e @ rest) v" and "mode x" and "stops 6 (first_tok rest)"
    and "x = 1 \<longrightarrow> ex_value rho e \<noteq> None" and "fits p0 F0 (size H + ex_refs e)"
  shows "\<exists>r v1 k. runs E Base_Expr v r v1 \<and> st E W p0 F0 x (add_mset (r, k) H) rest v1 \<and>
    (x = 1 \<longrightarrow> r \<noteq> 0 \<and> ex_value rho e = Some k)"
proof -
  have "starts E W p0 F0 rho 6 x e H rest v" using assms(2-6) by (simp add: starts_def)
  then show ?thesis using assms(1) unfolding at_job_def yields_def by blast
qed

lemma ternary_idle:
  assumes a: "at_job E W p0 F0 rho 6 Base_Expr a" and b: "at_job E W p0 F0 rho 6 Base_Expr b"
    and v: "st E W p0 F0 0 (add_mset (r, k) H) ((TK 63, []) # ex_tokens a @ (TK 58, []) # ex_tokens b @ rest) v"
    and f: "fits p0 F0 (size H + max (Suc (ex_refs a)) (Suc (ex_refs b)))" and s: "stops 6 (first_tok rest)"
  shows "\<exists>w. runs E (Logic_Loop r) v r w \<and> st E W p0 F0 0 (add_mset (r, k) H) rest w"
proof -
  have fit: "fits p0 F0 (size (add_mset (r, k) H) + ex_refs a)" "fits p0 F0 (size (add_mset (r, k) H) + ex_refs b)"
    using fits_le [OF f, of "Suc (ex_refs a)"] fits_le [OF f, of "Suc (ex_refs b)"] by simp_all
  obtain v1 where v1: "st E W p0 F0 0 (add_mset (r, k) H) (ex_tokens a @ (TK 58, []) # ex_tokens b @ rest) v1"
    "\<And>r k. need E (TK 63) (r :: nat) k v = k v1" using st_need [OF v] by blast
  obtain q v2 m where v2: "runs E Base_Expr v1 q v2"
    "st E W p0 F0 0 (add_mset (q, m) (add_mset (r, k) H)) ((TK 58, []) # ex_tokens b @ rest) v2"
    using run_branch [OF a v1(1) mode_simps(1) _ fit(1)] by auto
  obtain v3 where v3: "unlock q v2 = Some v3" "st E W p0 F0 0 (add_mset (r, k) H) ((TK 58, []) # ex_tokens b @ rest) v3"
    using st_unlock [OF v2(2)] by blast
  obtain v4 where v4: "st E W p0 F0 0 (add_mset (r, k) H) (ex_tokens b @ rest) v4" "\<And>r k. need E (TK 58) (r :: nat) k v3 = k v4"
    using st_need [OF v3(2)] by blast
  obtain q' v5 m' where v5: "runs E Base_Expr v4 q' v5" "st E W p0 F0 0 (add_mset (q', m') (add_mset (r, k) H)) rest v5"
    using run_last [OF b v4(1) mode_simps(1) s _ fit(2)] by auto
  obtain v6 where v6: "unlock q' v5 = Some v6" "st E W p0 F0 0 (add_mset (r, k) H) rest v6" using st_unlock [OF v5(2)] by blast
  have "\<not> bit_logic_op (TK 63)" by (simp add: bit_logic_op_def)
  then have "runs E (Logic_Loop r) v r v6"
    using st_tk [OF v] st_mode [OF v1(1)] v1(2) v3(1) v4(2) v6(1) st_tk [OF v6(2)] s
    by (intro runs2 [OF v2(1) v5(1)]) (simp add: logic_loop_def ternary_part_def assign_part_def stops_def)
  then show ?thesis using v6(2) by blast
qed

lemma ternary_true:
  assumes a: "at_job E W p0 F0 rho 6 Base_Expr a" and b: "at_job E W p0 F0 rho 6 Base_Expr b"
    and v: "st E W p0 F0 1 (add_mset (r, k) H) ((TK 63, []) # ex_tokens a @ (TK 58, []) # ex_tokens b @ rest) v"
    and f: "fits p0 F0 (size H + max (Suc (ex_refs a)) (Suc (ex_refs b)))" and s: "stops 6 (first_tok rest)"
    and k: "k \<noteq> 0" and z: "ex_value rho a = Some z"
  shows "\<exists>i w. runs E (Logic_Loop r) v i w \<and> st E W p0 F0 1 (add_mset (i, z) H) rest w \<and> i \<noteq> 0"
proof -
  have fit: "fits p0 F0 (size H + ex_refs a)" "fits p0 F0 (size H + 2)" "fits p0 F0 (size H + Suc (ex_refs b))"
    using fits_le [OF f, of "ex_refs a"] fits_le [OF f, of "Suc (ex_refs b)"] fits_le [OF f, of 2] ex_refs_pos [of a] by simp_all
  obtain v1 where v1: "st E W p0 F0 1 (add_mset (r, k) H) (ex_tokens a @ (TK 58, []) # ex_tokens b @ rest) v1"
    "\<And>r k. need E (TK 63) (r :: nat) k v = k v1" using st_need [OF v] by blast
  obtain v2 where v2: "value_bool E r v1 = Some (True, v2)" "st E W p0 F0 1 (add_mset (r, k) H) (ex_tokens a @ (TK 58, []) # ex_tokens b @ rest) v2"
    using st_value_bool [OF v1(1), of r k] fit(2) k by auto
  obtain v3 where v3: "unlock r v2 = Some v3" "st E W p0 F0 1 H (ex_tokens a @ (TK 58, []) # ex_tokens b @ rest) v3"
    using st_unlock [OF v2(2)] by blast
  obtain i v4 v5 where v4: "runs E Base_Expr v3 i v4" "\<And>r k. need E (TK 58) (r :: nat) k v4 = k v5"
    "st E W p0 F0 1 (add_mset (i, z) H) (ex_tokens b @ rest) v5" "i \<noteq> 0"
    using run_branch [OF a v3(2) mode_simps(2) _ fit(1)] z by auto
  have i5: "st E W p0 F0 0 (add_mset (i, z) H) (ex_tokens b @ rest) (set_vm_idle v5)" using st_idle [OF v4(3)] by simp
  obtain q v6 m where v6: "runs E Base_Expr (set_vm_idle v5) q v6" "st E W p0 F0 0 (add_mset (q, m) (add_mset (i, z) H)) rest v6"
    using run_last [OF b i5 mode_simps(1) s] fit(3) by auto
  obtain v7 where v7: "unlock q v6 = Some v7" "st E W p0 F0 0 (add_mset (i, z) H) rest v7" using st_unlock [OF v6(2)] by blast
  have v8: "st E W p0 F0 1 (add_mset (i, z) H) rest (restore_exec 1 v7)" using st_restore [OF v7(2)] by simp
  have "vm_exec v5 = 1" using v4(3) by (simp add: st_def)
  then have "runs E (Logic_Loop r) v i (restore_exec 1 v7)"
    using st_tk [OF v] st_mode [OF v1(1)] v1(2) v2(1) v3(1) v4(2) v7(1) st_tk [OF v8] s
    by (intro runs2 [OF v4(1) v6(1)]) (simp add: logic_loop_def ternary_part_def assign_part_def stops_def bit_logic_op_def Let_def)
  then show ?thesis using v8 v4(4) by blast
qed

lemma ternary_false:
  assumes a: "at_job E W p0 F0 rho 6 Base_Expr a" and b: "at_job E W p0 F0 rho 6 Base_Expr b"
    and v: "st E W p0 F0 1 (add_mset (r, 0) H) ((TK 63, []) # ex_tokens a @ (TK 58, []) # ex_tokens b @ rest) v"
    and f: "fits p0 F0 (size H + max (Suc (ex_refs a)) (Suc (ex_refs b)))" and s: "stops 6 (first_tok rest)"
    and z: "ex_value rho b = Some z"
  shows "\<exists>i w. runs E (Logic_Loop r) v i w \<and> st E W p0 F0 1 (add_mset (i, z) H) rest w \<and> i \<noteq> 0"
proof -
  have fit: "fits p0 F0 (size H + ex_refs a)" "fits p0 F0 (size H + 2)" "fits p0 F0 (size H + ex_refs b)"
    using fits_le [OF f, of "ex_refs a"] fits_le [OF f, of "ex_refs b"] fits_le [OF f, of 2] ex_refs_pos [of a] by simp_all
  obtain v1 where v1: "st E W p0 F0 1 (add_mset (r, 0) H) (ex_tokens a @ (TK 58, []) # ex_tokens b @ rest) v1"
    "\<And>r k. need E (TK 63) (r :: nat) k v = k v1" using st_need [OF v] by blast
  obtain v2 where v2: "value_bool E r v1 = Some (False, v2)" "st E W p0 F0 1 (add_mset (r, 0) H) (ex_tokens a @ (TK 58, []) # ex_tokens b @ rest) v2"
    using st_value_bool [OF v1(1), of r 0] fit(2) by auto
  obtain v3 where v3: "unlock r v2 = Some v3" "st E W p0 F0 1 H (ex_tokens a @ (TK 58, []) # ex_tokens b @ rest) v3"
    using st_unlock [OF v2(2)] by blast
  have i3: "st E W p0 F0 0 H (ex_tokens a @ (TK 58, []) # ex_tokens b @ rest) (set_vm_idle v3)" using st_idle [OF v3(2)] by simp
  obtain q v4 m where v4: "runs E Base_Expr (set_vm_idle v3) q v4"
    "st E W p0 F0 0 (add_mset (q, m) H) ((TK 58, []) # ex_tokens b @ rest) v4"
    using run_branch [OF a i3 mode_simps(1) _ fit(1)] by auto
  obtain v5 where v5: "unlock q v4 = Some v5" "st E W p0 F0 0 H ((TK 58, []) # ex_tokens b @ rest) v5"
    using st_unlock [OF v4(2)] by blast
  have v6: "st E W p0 F0 1 H ((TK 58, []) # ex_tokens b @ rest) (restore_exec 1 v5)" using st_restore [OF v5(2)] by simp
  obtain v7 where v7: "st E W p0 F0 1 H (ex_tokens b @ rest) v7" "\<And>r k. need E (TK 58) (r :: nat) k (restore_exec 1 v5) = k v7"
    using st_need [OF v6] by blast
  obtain i v8 where v8: "runs E Base_Expr v7 i v8" "st E W p0 F0 1 (add_mset (i, z) H) rest v8" "i \<noteq> 0"
    using run_last [OF b v7(1) mode_simps(2) s _ fit(3)] z by auto
  have "vm_exec v3 = 1" using v3(2) by (simp add: st_def)
  then have "runs E (Logic_Loop r) v i v8"
    using st_tk [OF v] st_mode [OF v1(1)] v1(2) v2(1) v3(1) v5(1) v7(2) st_tk [OF v8(2)] s
    by (intro runs2 [OF v4(1) v8(1)]) (simp add: logic_loop_def ternary_part_def assign_part_def stops_def bit_logic_op_def Let_def)
  then show ?thesis using v8(2,3) by blast
qed

lemma base_cond:
  assumes c: "at_into E W p0 F0 rho 4 Base_Expr Logic_Loop c" and a: "at_job E W p0 F0 rho 6 Base_Expr a"
    and b: "at_job E W p0 F0 rho 6 Base_Expr b"
  shows "at_job E W p0 F0 rho 6 Base_Expr (Cond c a b)"
  unfolding at_job_def
proof (intro allI impI)
  fix x H rest v
  assume s: "starts E W p0 F0 rho 6 x (Cond c a b) H rest v"
  have st6: "stops 6 (first_tok rest)" and f: "fits p0 F0 (size H + ex_refs (Cond c a b))" and m: "mode x"
    using s by (auto simp: starts_def)
  have f2: "fits p0 F0 (size H + max (Suc (ex_refs a)) (Suc (ex_refs b)))" by (rule fits_le [OF f]) simp
  have "stops 4 (TK 63)" by (simp add: stops_def postfix_op_def mul_op_def add_op_def shift_op_def relational_op_def)
  then have "starts E W p0 F0 rho 4 x c H ((TK 63, []) # ex_tokens a @ (TK 58, []) # ex_tokens b @ rest) v"
    using s fits_le [OF f, of "ex_refs c"] by (auto simp: starts_def bind_eq_None_conv)
  then obtain r v1 where r: "yields E W p0 F0 rho x c H ((TK 63, []) # ex_tokens a @ (TK 58, []) # ex_tokens b @ rest) r v1"
    "\<And>R w. runs E (Logic_Loop r) v1 R w \<Longrightarrow> runs E Base_Expr v R w"
    using c unfolding at_into_def by blast
  obtain k where k: "st E W p0 F0 x (add_mset (r, k) H) ((TK 63, []) # ex_tokens a @ (TK 58, []) # ex_tokens b @ rest) v1"
    "x = 1 \<longrightarrow> r \<noteq> 0 \<and> ex_value rho c = Some k" using r(1) by (auto simp: yields_def)
  have "\<exists>i w. runs E (Logic_Loop r) v1 i w \<and> yields E W p0 F0 rho x (Cond c a b) H rest i w"
  proof (cases "x = 1")
    case False
    then have "x = 0" using m by (simp add: mode_def)
    then show ?thesis using ternary_idle [OF a b k(1) [unfolded \<open>x = 0\<close>] f2 st6] by (auto simp: yields_def)
  next
    case True
    note k1 = k(1) [unfolded True]
    have v: "ex_value rho (Cond c a b) = (if k \<noteq> 0 then ex_value rho a else ex_value rho b)" using k(2) True by simp
    obtain z where z: "ex_value rho (Cond c a b) = Some z" using s True by (auto simp: starts_def)
    show ?thesis
    proof (cases "k = 0")
      case False
      then show ?thesis using ternary_true [OF a b k1 f2 st6 False] v z True unfolding yields_def by fastforce
    next
      case k0: True
      then show ?thesis using ternary_false [OF a b k1 [unfolded k0] f2 st6] v z True unfolding yields_def by fastforce
    qed
  qed
  then show "\<exists>r v1. runs E Base_Expr v r v1 \<and> yields E W p0 F0 rho x (Cond c a b) H rest r v1" using r(2) by blast
qed

section \<open>All levels\<close>

definition all_levels :: "jsenv \<Rightarrow> window \<Rightarrow> sympool \<Rightarrow> nat set \<Rightarrow> (byte list \<rightharpoonup> int) \<Rightarrow> ex \<Rightarrow> bool" where
  "all_levels E W p0 F0 rho e \<longleftrightarrow>
     (ex_ok 0 e \<longrightarrow> at_job E W p0 F0 rho 1 Factor e) \<and> (ex_ok 1 e \<longrightarrow> at_job E W p0 F0 rho 1 Postfix e) \<and>
     (ex_ok 2 e \<longrightarrow> at_loop E W p0 F0 rho 1 Postfix mul_loops e) \<and>
     (ex_ok 3 e \<longrightarrow> at_into E W p0 F0 rho 2 Precedent Add_Loop e \<and> at_job E W p0 F0 rho 3 Precedent e) \<and>
     (ex_ok 4 e \<longrightarrow> at_loop E W p0 F0 rho 3 Precedent rel_loops e) \<and>
     (ex_ok 5 e \<longrightarrow> at_into E W p0 F0 rho 4 Base_Expr Logic_Loop e) \<and> (ex_ok 6 e \<longrightarrow> at_job E W p0 F0 rho 6 Base_Expr e)"

lemma ex_tokens_nonempty: "ex_tokens e \<noteq> []"
  by (induction e) auto

lemma first_tok_append: "ts \<noteq> [] \<Longrightarrow> first_tok (ts @ us) = first_tok ts"
  by (cases ts) (auto simp: first_tok_def)

lemma ex_first: "ex_ok n e \<Longrightarrow> n \<le> 2 \<Longrightarrow> first_tok (ex_tokens e) \<noteq> TK 45 \<and> (n = 0 \<longrightarrow> first_tok (ex_tokens e) \<noteq> TK 33)"
  by (induction e) (auto simp: first_tok_append ex_tokens_nonempty split: if_splits)

text \<open>What holds at one level holds at those above.\<close>

definition above_prec :: "jsenv \<Rightarrow> window \<Rightarrow> sympool \<Rightarrow> nat set \<Rightarrow> (byte list \<rightharpoonup> int) \<Rightarrow> ex \<Rightarrow> bool" where
  "above_prec E W p0 F0 rho e \<longleftrightarrow> at_loop E W p0 F0 rho 3 Precedent rel_loops e \<and>
     at_into E W p0 F0 rho 4 Base_Expr Logic_Loop e \<and> at_job E W p0 F0 rho 6 Base_Expr e"

lemma up_rel: "at_loop E W p0 F0 rho 3 Precedent rel_loops e \<Longrightarrow> above_prec E W p0 F0 rho e"
  using logic_of_rel base_of_logic by (auto simp: above_prec_def)

definition above_mul :: "jsenv \<Rightarrow> window \<Rightarrow> sympool \<Rightarrow> nat set \<Rightarrow> (byte list \<rightharpoonup> int) \<Rightarrow> ex \<Rightarrow> bool" where
  "above_mul E W p0 F0 rho e \<longleftrightarrow> at_into E W p0 F0 rho 2 Precedent Add_Loop e \<and> at_job E W p0 F0 rho 3 Precedent e \<and>
     above_prec E W p0 F0 rho e"

lemma up_add: "at_into E W p0 F0 rho 2 Precedent Add_Loop e \<Longrightarrow> above_mul E W p0 F0 rho e"
  using prec_of_add rel_of_prec up_rel by (auto simp: above_mul_def)

lemma up_mul: "at_loop E W p0 F0 rho 1 Postfix mul_loops e \<Longrightarrow> ex_ok 2 e \<Longrightarrow> above_mul E W p0 F0 rho e"
  using add_of_mul ex_first ex_tokens_nonempty up_add by blast

lemma up_postfix: "at_job E W p0 F0 rho 1 Postfix e \<Longrightarrow> ex_ok 1 e \<Longrightarrow> ex_ok 2 e \<Longrightarrow> all_levels E W p0 F0 rho e \<or> ex_ok 0 e"
  using mul_of_postfix [of E W p0 F0 rho e] up_mul [of E W p0 F0 rho e]
  by (auto simp: all_levels_def above_mul_def above_prec_def)

lemma up_factor:
  assumes "at_job E W p0 F0 rho 1 Factor e" and "ex_ok 0 e" and "ex_ok 2 e"
  shows "all_levels E W p0 F0 rho e"
proof -
  have "at_job E W p0 F0 rho 1 Postfix e"
    using postfix_of_factor [OF assms(1)] ex_first [OF assms(2)] ex_tokens_nonempty by simp
  then show ?thesis
    using assms mul_of_postfix [of E W p0 F0 rho e] up_mul [of E W p0 F0 rho e]
    by (auto simp: all_levels_def above_mul_def above_prec_def)
qed

lemma op_classes:
  "add_op op \<Longrightarrow> \<not> mul_op op" "relational_op op \<Longrightarrow> \<not> mul_op op \<and> \<not> add_op op"
  "bit_logic_op op \<Longrightarrow> \<not> mul_op op \<and> \<not> add_op op \<and> \<not> relational_op op"
  "shift_op op \<Longrightarrow> \<not> mul_op op \<and> \<not> add_op op \<and> \<not> relational_op op \<and> \<not> bit_logic_op op"
  by (auto simp: mul_op_def add_op_def relational_op_def bit_logic_op_def shift_op_def)

lemma levels_bin:
  assumes a: "all_levels E W p0 F0 rho a" and b: "all_levels E W p0 F0 rho b"
  shows "all_levels E W p0 F0 rho (Bin op a b)"
proof -
  let ?e = "Bin op a b"
  consider "mul_op op" | "add_op op" | "relational_op op" | "bit_logic_op op" | "shift_op op"
    | "\<not> mul_op op" "\<not> add_op op" "\<not> relational_op op" "\<not> bit_logic_op op" "\<not> shift_op op" by blast
  then show ?thesis
  proof cases
    case 1
    have "at_loop E W p0 F0 rho 1 Postfix mul_loops ?e \<and> above_mul E W p0 F0 rho ?e" if "ex_ok 2 a \<and> ex_ok 1 b"
      using mul_bin [OF 1] up_mul [of E W p0 F0 rho ?e] that a b 1 by (auto simp: all_levels_def)
    then show ?thesis using 1 by (auto simp: all_levels_def above_mul_def above_prec_def)
  next
    case 2
    have "above_mul E W p0 F0 rho ?e" if "ex_ok 3 a \<and> ex_ok 2 b"
      using add_bin [OF 2] up_add [of E W p0 F0 rho ?e] that a b by (auto simp: all_levels_def)
    then show ?thesis using 2 op_classes(1) [OF 2] by (auto simp: all_levels_def above_mul_def above_prec_def)
  next
    case 3
    have "above_prec E W p0 F0 rho ?e" if "ex_ok 4 a \<and> ex_ok 3 b"
      using rel_bin [OF 3] up_rel [of E W p0 F0 rho ?e] that a b by (auto simp: all_levels_def)
    then show ?thesis using 3 op_classes(2) [OF 3] by (auto simp: all_levels_def above_prec_def)
  next
    case 4
    have "at_into E W p0 F0 rho 4 Base_Expr Logic_Loop ?e \<and> at_job E W p0 F0 rho 6 Base_Expr ?e" if "ex_ok 5 a \<and> ex_ok 4 b"
      using logic_bin [OF 4] base_of_logic [of E W p0 F0 rho ?e] that a b by (auto simp: all_levels_def)
    then show ?thesis using 4 op_classes(3) [OF 4] by (auto simp: all_levels_def)
  next
    case 5
    have "at_job E W p0 F0 rho 6 Base_Expr ?e" if "ex_ok 3 a \<and> ex_ok 6 b"
      using base_shift [OF 5] that a b by (auto simp: all_levels_def)
    then show ?thesis using 5 op_classes(4) [OF 5] by (auto simp: all_levels_def)
  next
    case 6
    then show ?thesis by (simp add: all_levels_def)
  qed
qed

lemma levels:
  assumes "env_ok E p0 F0 rho"
  shows "all_levels E W p0 F0 rho e"
proof (induction e)
  case (Num n)
  then show ?case using up_factor [OF factor_num] by (cases "n < 9223372036854775808") (auto simp: all_levels_def)
next
  case (Bool b)
  then show ?case using up_factor [OF factor_bool] by simp
next
  case (Var w)
  then show ?case using up_factor [OF factor_var [OF assms]] by simp
next
  case (Paren e)
  then show ?case using up_factor [OF factor_paren, of E W p0 F0 rho e] by (cases "ex_ok 6 e") (auto simp: all_levels_def)
next
  case (Not e)
  then show ?case using up_postfix [OF postfix_not [OF assms], of W e] by (cases "ex_ok 0 e") (auto simp: all_levels_def)
next
  case (Neg e)
  then show ?case using up_add [OF add_neg [OF assms], of W e]
    by (cases "ex_ok 2 e") (auto simp: all_levels_def above_mul_def above_prec_def)
next
  case (Bin op a b)
  then show ?case by (rule levels_bin)
next
  case (Cond c a b)
  then show ?case using base_cond [of E W p0 F0 rho c a b] by (auto simp: all_levels_def)
qed

text \<open>A whole expression is evaluated.\<close>

lemma base_evaluates:
  assumes "env_ok E p0 F0 rho" and "ex_ok 6 e" and "ex_value rho e = Some k" and "fits p0 F0 (ex_refs e)"
    and "st E W p0 F0 1 {#} (ex_tokens e @ rest) v" and "stops 6 (first_tok rest)"
  shows "\<exists>r v1. runs E Base_Expr v r v1 \<and> r \<noteq> 0 \<and> st E W p0 F0 1 {#(r, k)#} rest v1"
proof -
  have "starts E W p0 F0 rho 6 1 e {#} rest v" using assms by (simp add: starts_def)
  then show ?thesis using levels [OF assms(1), of W e] assms(2,3) unfolding all_levels_def at_job_def yields_def by fastforce
qed

end
