(* ===== verification/Exec_Api.thy ===== *)
theory Exec_Api
  imports Exec_Stmt
begin

text \<open>
  be_executor.c and be.c: the context of the executor, the evaluation of texts, calls of
  functions from C, native functions and modules. The fuel \<open>n\<close> bounds the depth of the
  evaluation and the number of statements of a text.
\<close>

section \<open>The context\<close>

definition class_object :: "nat \<Rightarrow> string \<Rightarrow> sympool \<Rightarrow> (nat \<times> sympool) option" where
  "class_object root name p = do {
     (nm, p) \<leftarrow> lookup_named_child_symbol root (str name) True p;
     let p = upd nm (\<lambda>s. s\<lparr>s_flags := s_flags s OR BE_SYM_NATIVE\<rparr>) p;
     p \<leftarrow> (if s_first (tab p nm) = 0 then do {
            (obj, p) \<leftarrow> new_symbol BE_SYM_OBJECT p;
            p \<leftarrow> INC_SYMBL_REF obj p;
            p \<leftarrow> symbol_unlock obj p;
            Some (upd nm (\<lambda>s. s\<lparr>s_first := obj\<rparr>) p)
          } else Some p);
     let c = s_first (tab p nm);
     p \<leftarrow> INC_SYMBL_REF_BY_ID c p;
     map_option (Pair c) (symbol_unlock nm p)
   }"

definition kept_int :: "int \<Rightarrow> sympool \<Rightarrow> (nat \<times> sympool) option" where
  "kept_int k p = do {
     (i, p) \<leftarrow> new_int_symbol k p;
     p \<leftarrow> INC_SYMBL_REF i p;
     map_option (Pair i) (symbol_unlock i p)
   }"

definition be_jse_executor_init :: "sympool \<Rightarrow> (jsctx \<times> sympool) option" where
  "be_jse_executor_init p = do {
     (root, p) \<leftarrow> get_root_node p;
     p \<leftarrow> symbol_unlock root p;
     (zero, p) \<leftarrow> kept_int 0 p;
     (one, p) \<leftarrow> kept_int 1 p;
     (str_cls, p) \<leftarrow> class_object root ''String'' p;
     (obj_cls, p) \<leftarrow> class_object root ''Object'' p;
     (arr_cls, p) \<leftarrow> class_object root ''Array'' p;
     (int_cls, p) \<leftarrow> class_object root ''Integer'' p;
     (math_cls, p) \<leftarrow> class_object root ''Math'' p;
     (json_cls, p) \<leftarrow> class_object root ''JSON'' p;
     (proc_cls, p) \<leftarrow> class_object root ''process'' p;
     (mod_cls, p) \<leftarrow> class_object root ''Modules'' p;
     Some (\<lparr>ctx_root = root, zeroInt = zero, oneInt = one, stringClass = str_cls, objectClass = obj_cls,
        arrayClass = arr_cls, intClass = int_cls, mathClass = math_cls, jsonClass = json_cls,
        processClass = proc_cls, moduleClass = mod_cls\<rparr>, p)
   }"

definition be_jse_executor_deinit :: "jsctx \<Rightarrow> sympool \<Rightarrow> sympool option" where
  "be_jse_executor_deinit c p =
     foldl (\<lambda>q i. Option.bind q (DEC_SYMBL_REF_BY_ID i)) (Some p)
       [zeroInt c, oneInt c, stringClass c, objectClass c, arrayClass c, intClass c, mathClass c,
        jsonClass c, processClass c, moduleClass c, ctx_root c]"

text \<open>\<open>addons\<close> is \<open>jsengine_register_addons\<close>, which registers the bindings to the drivers.\<close>

definition jsengine_init :: "(jsctx \<Rightarrow> sympool \<Rightarrow> sympool option) \<Rightarrow> sympool \<Rightarrow> (jsctx \<times> sympool) option" where
  "jsengine_init addons p = do {
     p1 \<leftarrow> be_jse_symbol_table_init p;
     (c, p2) \<leftarrow> be_jse_executor_init p1;
     map_option (Pair c) (addons c p2)
   }"

definition jsengine_exit :: "jsctx \<Rightarrow> sympool \<Rightarrow> sympool option" where
  "jsengine_exit c p = map_option be_jse_symbol_table_deinit (be_jse_executor_deinit c p)"

definition jsengine_native_object_register :: "jsctx \<Rightarrow> string \<Rightarrow> sympool \<Rightarrow> (nat \<times> sympool) option" where
  "jsengine_native_object_register c name = class_object (ctx_root c) name"

section \<open>Texts\<close>

primrec top_loop :: "jsenv \<Rightarrow> nat \<Rightarrow> nat \<Rightarrow> nat \<Rightarrow> vm \<Rightarrow> (nat \<times> vm) option" where
  "top_loop E n 0 s v = None"
| "top_loop E n (Suc k) s v =
     (if be_vm_has_error v \<or> tk v = BE_TOKEN_END then Some (s, v)
      else do {
        v \<leftarrow> unlock s v;
        (s', v) \<leftarrow> handle_block_or_statement E (exec E n) v;
        top_loop E n k s' v
      })"

text \<open>
  \<open>be_jse_vm_init\<close>; after the evaluation the old state comes back with the pool of the
  new one and with its flags except \<open>EXEC_NORMAL\<close>. Scopes that are left fail an assertion.
\<close>

definition be_jse_vm_init :: "lexer \<Rightarrow> vm \<Rightarrow> vm" where
  "be_jse_vm_init l v = v\<lparr>vm_lex := l, vm_scopes := [], vm_exec := EXEC_NORMAL\<rparr>"

definition leave_vm :: "vm \<Rightarrow> vm \<Rightarrow> vm option" where
  "leave_vm old v =
     (if vm_scopes v \<noteq> [] then None
      else Some (old\<lparr>vm_pool := vm_pool v, vm_exec := vm_exec (restore_exec (vm_exec old) v)\<rparr>))"

definition be_jse_eval_string :: "jsenv \<Rightarrow> nat \<Rightarrow> byte list \<Rightarrow> vm \<Rightarrow> (nat \<times> vm) option" where
  "be_jse_eval_string E n s old = do {
     l \<leftarrow> be_jse_lexer_init (e_oob E) (e_junk E) (Some s) 0 (-1);
     (r, v) \<leftarrow> top_loop E n n 0 (be_jse_vm_init l old);
     v \<leftarrow> leave_vm old v;
     if r \<noteq> 0 then ask_pool (unlock_symbol_value r) v else Some (0, v)
   }"

definition jsengine_start :: "jsenv \<Rightarrow> nat \<Rightarrow> byte list \<Rightarrow> vm \<Rightarrow> vm option" where
  "jsengine_start E n s v = do { (r, v) \<leftarrow> be_jse_eval_string E n s v; unlock r v }"

text \<open>
  There is no lexer during a call from C, so that the report about a symbol that is no
  function fails.
\<close>

definition be_jse_execute_func :: "jsenv \<Rightarrow> nat \<Rightarrow> nat \<Rightarrow> nat list \<Rightarrow> vm \<Rightarrow> (bool \<times> vm) option" where
  "be_jse_execute_func E n f args old =
     (if f = 0 then map_option (Pair False)
        (foldl (\<lambda>q a. Option.bind q (unlock a)) (Some old) args)
      else if \<not> is_kind symbol_is_function old f then None
      else do {
        (r, v) \<leftarrow> exec E n (Call f 0 False args) (be_jse_vm_init (vm_lex old) old);
        (b, v) \<leftarrow> ask_pool (get_symbol_bool (e_fl E) r) v;
        v \<leftarrow> unlock r v;
        map_option (Pair b) (leave_vm old v)
      })"

definition be_jse_add_native_func :: "jsenv \<Rightarrow> nat \<Rightarrow> byte list \<Rightarrow> byte list \<Rightarrow> vm \<Rightarrow> (bool \<times> vm) option" where
  "be_jse_add_native_func E n desc cb old = do {
     l \<leftarrow> be_jse_lexer_init (e_oob E) (e_junk E) (Some desc) 0 (-1);
     (ok, v) \<leftarrow> be_jse_handle_native_function E (exec E n) cb (be_jse_vm_init l old);
     let v = (if ok \<noteq> 0 then v else be_jse_execute_error v);
     map_option (Pair (ok \<noteq> 0)) (leave_vm old v)
   }"

section \<open>Modules\<close>

definition jspEvaluateModule :: "jsenv \<Rightarrow> nat \<Rightarrow> byte list \<Rightarrow> vm \<Rightarrow> (nat \<times> vm) option" where
  "jspEvaluateModule E n s old = do {
     l \<leftarrow> be_jse_lexer_init (e_oob E) (e_junk E) (Some s) 0 (-1);
     (scope, v) \<leftarrow> ask_pool (new_symbol BE_SYM_OBJECT) (be_jse_vm_init l old);
     (exports, v) \<leftarrow> ask_pool (new_symbol BE_SYM_OBJECT) v;
     (name, v) \<leftarrow> ask_pool (add_symbol_node_name scope exports (str ''exports'')) v;
     v \<leftarrow> add_name scope scope ''module'' v;
     v \<leftarrow> unlock exports v;
     (ok, v) \<leftarrow> be_jse_vm_scope_insert scope v;
     (r, v) \<leftarrow> top_loop E n n 0 v;
     v \<leftarrow> be_jse_vm_scope_remove v;
     v \<leftarrow> leave_vm old v;
     (x, v) \<leftarrow> ask_pool (unlock_symbol_value r) v;
     v \<leftarrow> unlock2 x scope v;
     ask_pool (unlock_symbol_value name) v
   }"

definition jswrap_modules_getModuleList :: "jsctx \<Rightarrow> sympool \<Rightarrow> (nat \<times> sympool) option" where
  "jswrap_modules_getModuleList c p = do {
     (nm, p) \<leftarrow> lookup_named_child_symbol (moduleClass c) (str ''Modules'') True p;
     (m, p) \<leftarrow> (if s_first (tab p nm) = 0 then do {
          (obj, p) \<leftarrow> new_symbol BE_SYM_OBJECT p;
          p \<leftarrow> INC_SYMBL_REF obj p;
          p \<leftarrow> symbol_unlock obj p;
          map_option (Pair obj) (INC_SYMBL_REF_BY_ID obj (upd nm (\<lambda>s. s\<lparr>s_first := obj\<rparr>) p))
        } else Some (s_first (tab p nm), p));
     map_option (Pair m) (symbol_unlock nm p)
   }"

text \<open>\<open>load\<close> is the function that was registered to read the text of a module.\<close>

definition be_jse_require ::
  "jsenv \<Rightarrow> nat \<Rightarrow> (byte list \<Rightarrow> byte list option) \<Rightarrow> byte list \<Rightarrow> vm \<Rightarrow> (nat \<times> vm) option" where
  "be_jse_require E n load name v = do {
     (ml, v) \<leftarrow> ask_pool (jswrap_modules_getModuleList (e_ctx E)) v;
     (m, v) \<leftarrow> ask_pool (lookup_named_child_symbol ml name False) v;
     (found, v) \<leftarrow> ask_pool (unlock_symbol_value m) v;
     if found \<noteq> 0 then Some (found, v)
     else do {
       (x, v) \<leftarrow> (case load name of Some js \<Rightarrow> jspEvaluateModule E n js v | None \<Rightarrow> Some (0, v));
       if x = 0 then Some (0, v)
       else do {
         v \<leftarrow> lock ml v;
         (c, v) \<leftarrow> ask_pool (add_symbol_node_name ml x name) v;
         map_option (Pair x) (unlock2 ml c v)
       }
     }
   }"

definition be_jse_add_module :: "jsenv \<Rightarrow> nat \<Rightarrow> nat \<Rightarrow> nat \<Rightarrow> vm \<Rightarrow> (nat \<times> vm) option" where
  "be_jse_add_module E n ident code v = do {
     (ml, v) \<leftarrow> ask_pool (jswrap_modules_getModuleList (e_ctx E)) v;
     (len, v) \<leftarrow> ask_pool (symbol_str_len code) v;
     (js, v) \<leftarrow> ask_pool (symbol_to_str (fl_print (e_fl E)) code len) v;
     (x, v) \<leftarrow> jspEvaluateModule E n js v;
     if x \<noteq> 0 then do {
       (c, v) \<leftarrow> ask_pool (lookup_child_symbol (e_fl E) ml ident True) v;
       v \<leftarrow> upd_pool (set_symbol_node_name c x) v;
       v \<leftarrow> unlock c v;
       ask_pool (new_bool_symbol True) v
     }
     else ask_pool (new_bool_symbol False) v
   }"

end
