(* ===== verification/Exec_Run.thy ===== *)
theory Exec_Run
  imports Exec_Full Exec_Api
begin

text \<open>Texts that are one integer expression, from the source to the value.\<close>

section \<open>Statements\<close>

lemma more_handlers [simp]:
  "handler E ev Stmt = handle_statement_syntax E ev" "handler E ev Block_Or_Stmt = handle_block_or_statement E ev"
  by (simp_all add: handler_def)

text \<open>
  The first tokens that a statement takes for an expression: those of names, numbers, a
  sign and a parenthesis, but not \<open>true\<close>, \<open>false\<close> or \<open>!\<close>.
\<close>

definition statement_start :: "tok \<Rightarrow> bool" where
  "statement_start t \<longleftrightarrow> t = BE_TOKEN_ID \<or> t = BE_TOKEN_INT \<or> t = TK 45 \<or> t = TK 40"

lemma stmt_expression:
  assumes "runs E Base_Expr v r v1" and "statement_start (tk v)"
  shows "runs E Stmt v r v1"
  using assms(2) by (intro runs1 [OF assms(1)]) (auto simp: handle_statement_syntax_def statement_start_def)

lemma top_done: "be_vm_has_error v \<or> tk v = BE_TOKEN_END \<Longrightarrow> top_loop E n (Suc k) s v = Some (s, v)"
  by simp

section \<open>A text with one expression\<close>

lemma top_expression:
  assumes "env_ok E p0 F0 rho" and "ex_ok 6 e" and "ex_value rho e = Some k" and "fits p0 F0 (ex_refs e)"
    and "st E W p0 F0 1 {#} (ex_tokens e) v" and "statement_start (first_tok (ex_tokens e))"
  shows "\<exists>r v1. eventually (\<lambda>n. top_loop E n n 0 v = Some (r, v1)) sequentially \<and> r \<noteq> 0 \<and> st E W p0 F0 1 {#(r, k)#} [] v1"
proof -
  have "stops 6 BE_TOKEN_END" by (simp add: stops_def postfix_op_def mul_op_def add_op_def shift_op_def
      relational_op_def bit_logic_op_def assignment_op_def)
  then obtain r v1 where b: "runs E Base_Expr v r v1" "r \<noteq> 0" "st E W p0 F0 1 {#(r, k)#} [] v1"
    using base_evaluates [OF assms(1-4), of W "[]" v] assms(5) by auto
  have t: "tk v = first_tok (ex_tokens e)" using st_tk [OF assms(5)] .
  have e: "\<not> be_vm_has_error v" "\<not> be_vm_has_error v1" using st_error assms(5) b(3) by auto
  have ne: "tk v \<noteq> BE_TOKEN_END" "tk v \<noteq> TK 123" using assms(6) t by (auto simp: statement_start_def)
  have end1: "tk v1 = BE_TOKEN_END" using st_tk [OF b(3)] by simp
  have s: "runs E Stmt v r v1" using stmt_expression [OF b(1)] assms(6) t by simp
  have "eventually (\<lambda>n. handle_block_or_statement E (exec E n) v = Some (r, v1)) sequentially"
    using s unfolding runs_def by (rule eventually_mono) (simp add: handle_block_or_statement_def ne end1)
  moreover have "eventually (\<lambda>n. (2 :: nat) \<le> n) sequentially" by (rule eventually_ge_at_top)
  ultimately have "eventually (\<lambda>n. top_loop E n n 0 v = Some (r, v1)) sequentially"
  proof eventually_elim
    case (elim n)
    then obtain m where n: "n = Suc (Suc m)" using le_Suc_ex [of 2 n] by (auto simp: numeral_2_eq_2)
    show ?case using elim(1) e ne end1 unfolding n by (simp del: exec.simps)
  qed
  then show ?thesis using b by blast
qed

text \<open>The state in which a text is evaluated, after the lexer has read the first token.\<close>

lemma eval_start:
  assumes "source_ok xs" and "map (\<lambda>(gs, x). (lexeme_tok x, lexeme_bytes x)) xs = ts" and "room F0 (vm_pool old)"
  shows "\<exists>l. be_jse_lexer_init (e_oob E) (e_junk E) (Some (source_text xs)) 0 (-1) = Some l \<and>
    st E (whole xs) (vm_pool old) F0 1 {#} ts (be_jse_vm_init l old)"
proof -
  obtain l where "be_jse_lexer_init (e_oob E) (e_junk E) (Some (source_text xs)) 0 (-1) = Some l" "reads (whole xs) (map lexeme_pair xs) l"
    using reads_whole [OF assms(1)] by blast
  moreover have "map lexeme_pair xs = ts" using assms(2) unfolding lexeme_pair_def by (simp add: case_prod_unfold)
  ultimately show ?thesis using ints_empty [OF assms(3)] by (auto simp: st_def be_jse_vm_init_def)
qed

lemma eval_expression:
  assumes env: "env_ok E (vm_pool old) F0 rho" and room: "room F0 (vm_pool old)" and fits: "fits (vm_pool old) F0 (ex_refs e + 1)"
    and src: "source_ok xs" "map (\<lambda>(gs, x). (lexeme_tok x, lexeme_bytes x)) xs = ex_tokens e"
    and e: "ex_ok 6 e" "ex_value rho e = Some k" "statement_start (first_tok (ex_tokens e))"
  shows "\<exists>c v. eventually (\<lambda>n. be_jse_eval_string E n (source_text xs) old = Some (c, v)) sequentially \<and>
    c \<noteq> 0 \<and> plain_ref (vm_pool old) F0 c \<and> ints (vm_pool old) F0 {#(c, k)#} (vm_pool v) \<and> vm_scopes v = vm_scopes old"
proof -
  obtain l where l: "be_jse_lexer_init (e_oob E) (e_junk E) (Some (source_text xs)) 0 (-1) = Some l"
    "st E (whole xs) (vm_pool old) F0 1 {#} (ex_tokens e) (be_jse_vm_init l old)" using eval_start [OF src room] by blast
  have f: "fits (vm_pool old) F0 (ex_refs e)" using fits_mono [OF fits] by simp
  obtain r v1 where t: "eventually (\<lambda>n. top_loop E n n 0 (be_jse_vm_init l old) = Some (r, v1)) sequentially" "r \<noteq> 0"
    "st E (whole xs) (vm_pool old) F0 1 {#(r, k)#} [] v1"
    using top_expression [OF env e(1,2) f l(2) e(3)] by blast
  obtain v2 where v2: "leave_vm old v1 = Some v2" "vm_pool v2 = vm_pool v1" "vm_scopes v2 = vm_scopes old"
    using t(3) by (auto simp: leave_vm_def st_def)
  have i: "ints (vm_pool old) F0 {#(r, k)#} (vm_pool v2)" using t(3) v2(2) by (simp add: st_def)
  have f2: "fits (vm_pool old) F0 (size {#(r, k)#} + 1)" using fits_mono [OF fits] ex_refs_pos [of e] by simp
  obtain c q where c: "get_symbol_value r (vm_pool v2) = Some (c, q)" "c \<noteq> 0" "plain_ref (vm_pool old) F0 c"
    "ints (vm_pool old) F0 (add_mset (c, k) {#(r, k)#}) q"
    using ints_value [OF i f2, of r k] t(2) by auto
  have "ints (vm_pool old) F0 (add_mset (r, k) {#(c, k)#}) q" using c(4) by (simp add: add_mset_commute)
  then obtain q' where q': "symbol_unlock r q = Some q'" "ints (vm_pool old) F0 {#(c, k)#} q'" using ints_unlock by blast
  have "eventually (\<lambda>n. be_jse_eval_string E n (source_text xs) old = Some (c, v2\<lparr>vm_pool := q'\<rparr>)) sequentially"
    using t(1) by (rule eventually_mono)
      (simp add: be_jse_eval_string_def l(1) v2(1) t(2) ask_pool_def unlock_symbol_value_def c(1) q'(1))
  then show ?thesis using c(2,3) q'(2) v2(3) by (intro exI [of _ c] exI [of _ "v2\<lparr>vm_pool := q'\<rparr>"]) simp
qed

text \<open>What a reference to the result is: an integer symbol with the value, nothing else is changed.\<close>

lemma held_value:
  assumes "ints p0 F0 {#(c, k)#} p" and "c \<noteq> 0" and "plain_ref p0 F0 c"
  shows "s_flags (tab p c) = BE_SYM_INTEGER \<and> sym_int (tab p c) = k \<and> room (F0 - {c}) p \<and>
    (\<forall>i. i \<notin> F0 \<and> i \<noteq> 0 \<longrightarrow> tab p i = (tab p0 i)\<lparr>s_locks := s_locks (tab p0 i) + of_bool (i = c)\<rparr>)"
proof -
  have t: "tab p i = (tab p0 i)\<lparr>s_locks := s_locks (tab p0 i) + of_bool (i = c)\<rparr>" if "i \<notin> F0" "i \<noteq> 0" for i
    using assms(1) that by (auto simp: ints_def)
  have e: "entry_ok p0 F0 {#(c, k)#} p c k" and r: "room (F0 - {c}) p" using assms(1) by (simp_all add: ints_def)
  have "s_flags (tab p c) = BE_SYM_INTEGER \<and> sym_int (tab p c) = k"
  proof (cases "c \<in> F0")
    case True
    then show ?thesis using e assms(2) by (simp add: entry_ok_def temp_ok_def)
  next
    case False
    then have "int_at p0 F0 c k" using e assms(2,3) by (auto simp: entry_ok_def plain_ref_def var_at_def)
    then show ?thesis using t [OF False assms(2)] by (simp add: int_at_def sym_int_def)
  qed
  then show ?thesis using t r by blast
qed

end
