(* ===== verification/Exec_Store.thy ===== *)
theory Exec_Store
  imports Exec_Run
begin

text \<open>
  Assignments to global integer variables: what \<open>set_symbol_node_name\<close> does to the table,
  seen as an update of the store of the variables.
\<close>

section \<open>The store\<close>

definition referrers :: "sympool \<Rightarrow> kid list \<Rightarrow> nat \<Rightarrow> nat set" where
  "referrers p ks c = {n \<in> fst ` set ks. s_first (tab p n) = c}"

text \<open>The integers that nothing but names of the root refers to.\<close>

definition privates :: "sympool \<Rightarrow> kid list \<Rightarrow> nat set" where
  "privates p ks = {i. i \<noteq> 0 \<and> referrers p ks i \<noteq> {} \<and> s_flags (tab p i) = BE_SYM_INTEGER \<and>
     s_refs (tab p i) = card (referrers p ks i)}"

text \<open>
  The variables \<open>rho\<close> are names of the root object, whose children are \<open>ks\<close>; every integer
  in use counts at least the names of the root that refer to it; \<open>n\<close> references fit, besides
  one integer for every name.
\<close>

definition store_ok :: "jsenv \<Rightarrow> sympool \<Rightarrow> nat set \<Rightarrow> kid list \<Rightarrow> (byte list \<rightharpoonup> int) \<Rightarrow> nat \<Rightarrow> bool" where
  "store_ok E p F ks rho n \<longleftrightarrow>
     globals p F (ctx_root (e_ctx E)) ks rho \<and> int_at p F (zeroInt (e_ctx E)) 0 \<and> 0 \<notin> F \<and> finite F \<and>
     n + length ks \<le> card F + card (privates p ks) \<and> n < 250 \<and> length ks < 65000 \<and>
     (\<forall>i. i \<notin> F \<and> i \<noteq> 0 \<longrightarrow> s_locks (tab p i) + n < 250) \<and>
     (\<forall>a\<in>fst ` set ks. s_first (tab p a) \<notin> F) \<and>
     (\<forall>i. i \<notin> F \<and> i \<noteq> 0 \<and> s_flags (tab p i) = BE_SYM_INTEGER \<longrightarrow>
        s_next (tab p i) = 0 \<and> s_prev (tab p i) = 0 \<and> s_first (tab p i) = 0 \<and> s_last (tab p i) = 0 \<and> s_locks (tab p i) = 0 \<and>
        card (referrers p ks i) + (if i = zeroInt (e_ctx E) then 1 else 0) \<le> s_refs (tab p i) \<and>
        s_refs (tab p i) + length ks < 65000 + card (referrers p ks i))"

lemma store_env: "store_ok E p F ks rho n \<Longrightarrow> env_ok E p F rho"
  by (auto simp: store_ok_def env_ok_def)

lemma heads_card: "card (fst ` set ks) \<le> length ks"
  using card_image_le [of "set ks" fst] card_length [of ks] by simp

lemma referrers_card: "finite (referrers p ks i)" "card (referrers p ks i) \<le> length ks"
proof -
  have "referrers p ks i \<subseteq> fst ` set ks" by (auto simp: referrers_def)
  then have "card (referrers p ks i) \<le> card (fst ` set ks)" by (intro card_mono) simp_all
  then show "card (referrers p ks i) \<le> length ks" using heads_card [of ks] by simp
qed (simp add: referrers_def)

lemma privates_card: "finite (privates p ks)" "card (privates p ks) \<le> length ks"
proof -
  have sub: "privates p ks \<subseteq> (\<lambda>a. s_first (tab p a)) ` fst ` set ks" by (auto simp: privates_def referrers_def)
  show "finite (privates p ks)" by (rule finite_subset [OF sub]) simp
  have "card (privates p ks) \<le> card ((\<lambda>a. s_first (tab p a)) ` fst ` set ks)" using sub by (intro card_mono) simp_all
  also have "\<dots> \<le> card (fst ` set ks)" by (rule card_image_le) simp
  finally show "card (privates p ks) \<le> length ks" using heads_card [of ks] by simp
qed

lemma store_fits: "store_ok E p F ks rho n \<Longrightarrow> fits p F n"
  using privates_card(2) [of p ks] by (simp add: store_ok_def fits_def)

lemma store_refs:
  assumes "store_ok E p F ks rho n" and "i \<notin> F" and "i \<noteq> 0" and "s_flags (tab p i) = BE_SYM_INTEGER"
  shows "s_refs (tab p i) < 65000"
proof -
  have "s_refs (tab p i) + length ks < 65000 + card (referrers p ks i)" using assms unfolding store_ok_def by blast
  then show ?thesis using referrers_card(2) [of p ks i] by simp
qed

section \<open>Dropping a reference of an integer\<close>

lemma lock_ref: "(s :: sym)\<lparr>s_locks := n, s_refs := c\<rparr> = s\<lparr>s_refs := c, s_locks := n\<rparr>"
  by simp

lemma drop_lock: "s_locks (s :: sym) = 0 \<Longrightarrow> s\<lparr>s_refs := c, s_locks := 0\<rparr> = s\<lparr>s_refs := c\<rparr>"
  by simp

lemma dec_int:
  assumes "room G p" and "i \<notin> G" and "i \<noteq> 0" and "s_flags (tab p i) = BE_SYM_INTEGER" and "s_next (tab p i) = 0"
    and "s_prev (tab p i) = 0" and "s_first (tab p i) = 0" and "s_last (tab p i) = 0" and "0 < s_refs (tab p i)"
    and "s_locks (tab p i) < 255"
  shows "\<exists>q. DEC_SYMBL_REF_BY_ID i p = Some q \<and> (\<forall>j. j \<noteq> i \<longrightarrow> tab q j = tab p j) \<and>
    (if s_refs (tab p i) = 1 \<and> s_locks (tab p i) = 0 then room (insert i G) q
     else room G q \<and> tab q i = (tab p i)\<lparr>s_refs := s_refs (tab p i) - 1\<rparr>)"
proof -
  let ?r = "s_refs (tab p i) - 1"
  let ?q = "upd i (\<lambda>s. s\<lparr>s_refs := ?r\<rparr>) p"
  have l: "symbol_lock i p = Some (locked i p)" using assms by (simp add: symbol_lock_def locked_def upd_def)
  have d: "DEC_SYMBL_REF i (locked i p) = Some (locked i ?q)"
    using assms unfolding DEC_SYMBL_REF_def by (subst run.simps) (simp add: locked_def upd_def Let_def lock_ref)
  have e: "DEC_SYMBL_REF_BY_ID i p = symbol_unlock i (locked i ?q)"
    using l d by (simp add: DEC_SYMBL_REF_BY_ID_def)
  show ?thesis
  proof (cases "s_refs (tab p i) = 1 \<and> s_locks (tab p i) = 0")
    case False
    then have "held ?q i" using assms(3,9,10) by (auto simp: held_def)
    then have "symbol_unlock i (locked i ?q) = Some ?q" by (rule unlock_locked)
    then show ?thesis using e False room_upd [OF assms(1,2)] by (intro exI [of _ ?q]) auto
  next
    case True
    have u: "upd i (\<lambda>s. s\<lparr>s_locks := s_locks s - 1\<rparr>) (locked i ?q) = ?q"
      using True by (simp add: locked_def upd_def drop_lock)
    let ?z = "release i (?q\<lparr>sym_usage := sym_usage p - 1\<rparr>)"
    have "symbol_unlock i (locked i ?q) = Some ?z"
      using True assms free_int [of ?q i] unfolding unlock_simps u by (simp add: locked_def)
    moreover have "room (insert i G) ?z"
    proof -
      obtain fs where fs: "free_list ?q fs" "set fs = G" using room_upd [OF assms(1,2)] by (auto simp: room_def)
      have "free_list (?q\<lparr>sym_usage := sym_usage p - 1\<rparr>) fs" using fs(1) by (simp add: free_list_def)
      then have "free_list ?z (i # fs)" using assms(2,3) fs(2) by (intro release_free_list) auto
      moreover have "set (i # fs) = insert i G" using fs(2) by simp
      ultimately show ?thesis unfolding room_def by blast
    qed
    ultimately show ?thesis using e True by (intro exI [of _ ?z]) simp
  qed
qed

section \<open>The new store\<close>

text \<open>
  The table after the name \<open>a\<close> was set from the integer \<open>o\<close> to the integer in the node
  \<open>c\<close>, which is \<open>s\<close>, as it is without the references that are held.
\<close>

definition new_base :: "nat \<Rightarrow> nat \<Rightarrow> nat \<Rightarrow> sym \<Rightarrow> sympool \<Rightarrow> sympool" where
  "new_base a old c s p = p\<lparr>tab := (tab p)(old := (tab p old)\<lparr>s_refs := s_refs (tab p old) - 1\<rparr>,
     c := s\<lparr>s_refs := s_refs s + 1, s_locks := 0\<rparr>, a := (tab p a)\<lparr>s_first := c\<rparr>)\<rparr>"

definition new_free :: "nat \<Rightarrow> nat \<Rightarrow> sympool \<Rightarrow> nat set \<Rightarrow> nat set" where
  "new_free old c p F = (F - {c}) \<union> (if s_refs (tab p old) = 1 then {old} else {})"

lemma kid_node_flags:
  assumes "kids p c ks" and "i \<in> set (kid_nodes ks)"
  shows "s_flags (tab p i) \<noteq> BE_SYM_INTEGER" "s_flags (tab p i) \<noteq> BE_SYM_ROOT" "i \<noteq> 0"
  using assms
proof (induction ks arbitrary: c)
  case (Cons x ks)
  { case 1 then show ?case using Cons.IH(1) by (cases x) (auto simp: kid_ok_def str_chain_def ext_ok_def sym_kinds) }
  { case 2 then show ?case using Cons.IH(2) by (cases x) (auto simp: kid_ok_def str_chain_def ext_ok_def sym_kinds) }
  { case 3 then show ?case using Cons.IH(3) by (cases x) (auto simp: kid_ok_def str_chain_def ext_ok_def) }
qed auto

lemma kid_heads: "a \<in> fst ` set ks \<Longrightarrow> a \<in> set (kid_nodes ks)"
  by (force simp: kid_nodes_def)

lemma kids_distinct_heads: "distinct (kid_nodes ks) \<Longrightarrow> (a, js, nm) \<in> set ks \<Longrightarrow> (a, js', nm') \<in> set ks \<Longrightarrow> nm = nm'"
proof (induction ks)
  case (Cons x ks)
  have "(b, us, w) \<in> set ks \<Longrightarrow> b \<in> set (kid_nodes ks)" for b us w by (auto simp: kid_nodes_def)
  then show ?case using Cons by (cases x) (auto simp: kid_nodes_def)
qed simp

lemma find_kid_set: "find_kid name ks = Some x \<Longrightarrow> x \<in> set ks"
  unfolding find_kid_def by (metis find_Some_iff nth_mem)

text \<open>A list of children in which one name was given another value.\<close>

lemma kids_set_first:
  assumes "kids p c ks" and "\<And>i. i \<in> set (kid_nodes ks) \<Longrightarrow> i \<noteq> a \<Longrightarrow> tab p' i = tab p i"
    and "tab p' a = (tab p a)\<lparr>s_first := d\<rparr>" and "s_flags (tab p a) = BE_SYM_STRING OR BE_SYM_NAME"
  shows "kids p' c ks"
  using assms(1,2)
proof (induction ks arbitrary: c)
  case (Cons x ks)
  obtain k js nm where x: "x = (k, js, nm)" by (cases x)
  have k: "c = k" "kid_ok p k js nm" "kids p (s_next (tab p k)) ks" using Cons.prems by (auto simp: x)
  have js: "\<forall>j\<in>set js. tab p' j = tab p j"
  proof
    fix j assume j: "j \<in> set js"
    then have "s_flags (tab p j) = BE_SYM_STRING_EXT" using k(2) by (auto simp: kid_ok_def str_chain_def ext_ok_def)
    then have "j \<noteq> a" using assms(4) by auto
    then show "tab p' j = tab p j" using Cons.prems(2) j by (simp add: x)
  qed
  have s: "same_str (tab p k) (tab p' k) \<and> s_refs (tab p' k) = s_refs (tab p k) \<and> s_locks (tab p' k) = s_locks (tab p k) \<and>
      s_next (tab p' k) = s_next (tab p k)"
  proof (cases "k = a")
    case False
    then have "tab p' k = tab p k" using Cons.prems(2) by (simp add: x)
    then show ?thesis by (simp add: same_str_def)
  qed (simp add: same_str_def assms(3))
  have "kid_ok p' k js nm" using k(2) js s by (intro kid_ok_frame [OF k(2)]) (auto simp: kid_ok_def)
  moreover have "kids p' (s_next (tab p k)) ks" using k(3) Cons.prems(2) by (intro Cons.IH) (auto simp: x)
  ultimately show ?case using k(1) s by (simp add: x)
qed simp

text \<open>The integer in the node \<open>c\<close>, one in use or a temporary.\<close>

definition new_value :: "sympool \<Rightarrow> nat set \<Rightarrow> nat \<Rightarrow> sym \<Rightarrow> int \<Rightarrow> bool" where
  "new_value p F c s k \<longleftrightarrow> c \<noteq> 0 \<and> in64 k \<and> s_flags s = BE_SYM_INTEGER \<and> sym_int s = k \<and> s_first s = 0 \<and> s_last s = 0 \<and>
     s_next s = 0 \<and> s_prev s = 0 \<and> (if c \<in> F then s_refs s = 0 else int_at p F c k \<and> s = tab p c)"

lemma moved_one:
  assumes "a \<in> S" and "\<And>b. b \<in> S \<Longrightarrow> f b = (if b = a then c else g b)"
  shows "{b \<in> S. f b = i} = (if i = c then insert a {b \<in> S. g b = c} else {b \<in> S. g b = i} - {a})"
  using assms by auto

text \<open>A node that is taken is made up for by a private integer.\<close>

lemma new_base_privates:
  assumes ref: "\<And>i. referrers (new_base a old c s p) ks i = (if i = c then insert a (referrers p ks c) else referrers p ks i - {a})"
    and a: "a \<in> referrers p ks old" "s_flags (tab p a) \<noteq> BE_SYM_INTEGER" "a \<noteq> c"
    and old: "old \<noteq> c" "old \<noteq> 0" "s_flags (tab p old) = BE_SYM_INTEGER" "card (referrers p ks old) \<le> s_refs (tab p old)"
      "0 < s_refs (tab p old)" "old \<notin> F"
    and c: "c \<noteq> 0" "s_flags s = BE_SYM_INTEGER" "if c \<in> F then s_refs s = 0 \<and> referrers p ks c = {} else s = tab p c \<and> 0 < s_refs s"
    and F: "finite F"
  shows "card (new_free old c p F) + card (privates (new_base a old c s p) ks) = card F + card (privates p ks)"
proof -
  let ?p = "new_base a old c s p" and ?o = "if s_refs (tab p old) = 1 then {old} else {}" and ?c = "if c \<in> F then {c} else {}"
  have fin: "finite (referrers p ks i)" for i by (rule referrers_card)
  have oa: "old \<noteq> a" using a(2) old(3) by auto
  have anot: "a \<notin> referrers p ks i" if "i \<noteq> old" for i using a(1) that by (auto simp: referrers_def)
  have cd: "card (referrers p ks old) = Suc (card (referrers p ks old - {a}))" using fin a(1) by (metis card_Suc_Diff1)
  have tab: "s_refs (tab ?p old) = s_refs (tab p old) - 1" "s_flags (tab ?p old) = BE_SYM_INTEGER"
    "s_refs (tab ?p c) = s_refs s + 1" "s_flags (tab ?p c) = BE_SYM_INTEGER" "s_flags (tab ?p a) = s_flags (tab p a)"
    using old a c oa by (simp_all add: new_base_def)
  have tabi: "tab ?p i = tab p i" if "i \<noteq> a" "i \<noteq> c" "i \<noteq> old" for i using that by (simp add: new_base_def)
  have po: "old \<in> privates p ks \<longleftrightarrow> s_refs (tab p old) = card (referrers p ks old)"
    using old a(1) by (auto simp: privates_def)
  have one: "old \<in> privates p ks \<and> referrers p ks old - {a} = {}" if "s_refs (tab p old) = 1"
    using that cd old(4) fin [of old] po by auto
  have po': "old \<in> privates ?p ks \<longleftrightarrow> old \<in> privates p ks \<and> s_refs (tab p old) \<noteq> 1"
  proof -
    have e: "old \<in> privates ?p ks \<longleftrightarrow> referrers p ks old - {a} \<noteq> {} \<and> s_refs (tab p old) - 1 = card (referrers p ks old - {a})"
      using ref [of old] old(1,2) tab(1,2) by (simp add: privates_def)
    have z: "referrers p ks old - {a} = {} \<longleftrightarrow> card (referrers p ks old - {a}) = 0" using fin [of old] by simp
    show ?thesis unfolding e po z cd using old(5) by linarith
  qed
  have pc': "c \<in> privates ?p ks \<longleftrightarrow> c \<in> privates p ks \<or> c \<in> F"
  proof (cases "c \<in> F")
    case True
    then show ?thesis using c tab(3,4) ref [of c] by (simp add: privates_def)
  next
    case False
    have "card (insert a (referrers p ks c)) = Suc (card (referrers p ks c))"
      using anot [of c] old(1) fin [of c] by (simp add: card_insert_if)
    then show ?thesis using False c tab(3,4) ref [of c] by (auto simp: privates_def)
  qed
  have pi: "i \<in> privates ?p ks \<longleftrightarrow> i \<in> privates p ks" if "i \<noteq> c" "i \<noteq> old" for i
  proof (cases "i = a")
    case True
    then show ?thesis using tab(5) a(2) by (simp add: privates_def)
  next
    case False
    then show ?thesis using that tabi [OF False that] ref [of i] anot [OF that(2)] by (simp add: privates_def)
  qed
  have pr: "privates ?p ks = (privates p ks - ?o) \<union> ?c"
  proof (rule set_eqI)
    fix i
    consider "i = c" | "i = old" | "i \<noteq> c" "i \<noteq> old" by blast
    then show "i \<in> privates ?p ks \<longleftrightarrow> i \<in> (privates p ks - ?o) \<union> ?c"
      by cases (use po' pc' pi old(1) in simp_all)
  qed
  have cn: "c \<notin> privates p ks" if "c \<in> F" using that c(3) by (simp add: privates_def)
  have "card (privates ?p ks) + card ?o = card (privates p ks) + card ?c"
  proof -
    have "card ((privates p ks - ?o) \<union> ?c) = card (privates p ks - ?o) + card ?c"
      using cn privates_card(1) [of p ks] by (intro card_Un_disjoint) auto
    moreover have "card (privates p ks - ?o) + card ?o = card (privates p ks)"
      using one privates_card(1) [of p ks] card_Suc_Diff1 [of "privates p ks" old] by auto
    ultimately show ?thesis unfolding pr by simp
  qed
  moreover have "card (new_free old c p F) + card ?c = card F + card ?o"
  proof -
    have "card ((F - {c}) \<union> ?o) = card (F - {c}) + card ?o"
      using old(6) F by (intro card_Un_disjoint) auto
    moreover have "card (F - {c}) + card ?c = card F" using F card_Suc_Diff1 [of F c] by auto
    ultimately show ?thesis unfolding new_free_def by simp
  qed
  ultimately show ?thesis by simp
qed

lemma new_base_store:
  assumes store: "store_ok E p F ks rho n" and x: "find_kid x ks = Some (a, js, x)" "var_at p F a j"
    and old: "old = s_first (tab p a)" "old \<noteq> c" and c: "new_value p F c s k"
  shows "store_ok E (new_base a old c s p) (new_free old c p F) ks (rho(x \<mapsto> k)) n"
proof -
  let ?p = "new_base a old c s p" and ?F = "new_free old c p F" and ?z = "zeroInt (e_ctx E)" and ?root = "ctx_root (e_ctx E)"
  note s = store [unfolded store_ok_def]
  note g = conjunct1 [OF s, unfolded globals_def]
  have a: "a \<noteq> 0" "a \<notin> F" "s_flags (tab p a) = BE_SYM_STRING OR BE_SYM_NAME" "0 < s_refs (tab p a)" "int_at p F old j"
    using x(2) old(1) by (auto simp: var_at_def)
  have o: "old \<noteq> 0" "old \<notin> F" "s_flags (tab p old) = BE_SYM_INTEGER" "0 < s_refs (tab p old)" using a(5) by (auto simp: int_at_def)
  have ints: "s_next (tab p i) = 0 \<and> s_prev (tab p i) = 0 \<and> s_first (tab p i) = 0 \<and> s_last (tab p i) = 0 \<and> s_locks (tab p i) = 0 \<and>
        card (referrers p ks i) + (if i = ?z then 1 else 0) \<le> s_refs (tab p i) \<and>
        s_refs (tab p i) + length ks < 65000 + card (referrers p ks i)"
    if "i \<notin> F" "i \<noteq> 0" "s_flags (tab p i) = BE_SYM_INTEGER" for i using s that by blast
  have cn: "c \<noteq> 0" "in64 k" "s_flags s = BE_SYM_INTEGER" "sym_int s = k" using c by (simp_all add: new_value_def)
  have cF: "c \<notin> F \<Longrightarrow> int_at p F c k \<and> s = tab p c" "c \<in> F \<Longrightarrow> s_refs s = 0" using c by (auto simp: new_value_def)
  have ca: "c \<noteq> a" using cF(1) a(2,3) by (auto simp: int_at_def)
  have oa: "old \<noteq> a" using a(3) o(3) by auto
  have ta: "tab ?p a = (tab p a)\<lparr>s_first := c\<rparr>" and tc: "tab ?p c = s\<lparr>s_refs := s_refs s + 1, s_locks := 0\<rparr>"
    and to: "tab ?p old = (tab p old)\<lparr>s_refs := s_refs (tab p old) - 1\<rparr>"
    using ca oa old(2) by (simp_all add: new_base_def)
  have ti: "tab ?p i = tab p i" if "i \<noteq> a" "i \<noteq> c" "i \<noteq> old" for i using that by (simp add: new_base_def)
  have k0: "kids p (s_first (tab p ?root)) ks" "?root \<noteq> 0" "?root \<notin> set (kid_nodes ks)" "distinct (kid_nodes ks)"
    using g by (auto simp: object_at_def)
  have kF: "set (kid_nodes ks) \<inter> F = {}" "?root \<notin> F" using g by auto
  have kc: "i \<noteq> c \<and> i \<noteq> old" if "i \<in> set (kid_nodes ks)" for i
    using kid_node_flags(1) [OF k0(1) that] that kF(1) cF(1) o(3) by (auto simp: int_at_def)
  have tk: "tab ?p i = tab p i" if "i \<in> set (kid_nodes ks)" "i \<noteq> a" for i using kc [OF that(1)] that(2) ti by blast
  have rc: "?root \<noteq> c \<and> ?root \<noteq> old \<and> ?root \<noteq> a" using g kF(2) cF(1) o(3) a(3) by (auto simp: int_at_def)
  have tr: "tab ?p ?root = tab p ?root" using rc ti by blast
  have ak: "a \<in> fst ` set ks" using find_kid_set [OF x(1)] by force
  have F: "i \<in> ?F \<longleftrightarrow> i \<noteq> c \<and> (i \<in> F \<or> i = old \<and> s_refs (tab p old) = 1)" for i
    using old(2) by (auto simp: new_free_def)
  have other: "2 \<le> s_refs (tab p old)" if "b \<in> fst ` set ks" "b \<noteq> a" "s_first (tab p b) = old" for b
  proof -
    have "{a, b} \<subseteq> referrers p ks old" using that ak old(1) by (auto simp: referrers_def)
    then have "card {a, b} \<le> card (referrers p ks old)" by (intro card_mono) (simp_all add: referrers_def)
    then show ?thesis using ints [OF o(2,1,3)] that(2) by simp
  qed
  have at: "int_at ?p ?F i m" if i: "int_at p F i m" and two: "i = old \<Longrightarrow> 2 \<le> s_refs (tab p old)" for i m
  proof -
    consider "i = c" | "i = old" | "i \<noteq> c" "i \<noteq> old" by blast
    then show ?thesis
    proof cases
      case 1
      then have "c \<notin> F" "m = k" using i cF(1) by (auto simp: int_at_def)
      then show ?thesis using 1 i cF(1) tc F by (simp add: int_at_def sym_int_def)
    next
      case 2
      then show ?thesis using i two to F old(2) by (simp add: int_at_def)
    next
      case 3
      have "i \<noteq> a" using i a(3) by (auto simp: int_at_def)
      then show ?thesis using 3 i ti F by (simp add: int_at_def)
    qed
  qed
  have cat: "int_at ?p ?F c k" using cn tc F by (simp add: int_at_def sym_int_def)
  have ref: "referrers ?p ks i = (if i = c then insert a (referrers p ks c) else referrers p ks i - {a})" for i
  proof -
    have "s_first (tab ?p b) = (if b = a then c else s_first (tab p b))" if "b \<in> fst ` set ks" for b
      using ta tk [OF kid_heads [OF that]] by simp
    then show ?thesis using ak unfolding referrers_def by (intro moved_one) auto
  qed
  have fin: "finite (referrers p ks i)" for i by (simp add: referrers_def)
  have "globals ?p ?F ?root ks (rho(x \<mapsto> k))"
  proof -
    have "kids ?p (s_first (tab ?p ?root)) ks"
      unfolding tr using kids_set_first [OF k0(1) tk ta a(3)] by simp
    then have ob: "object_at ?p ?root ks" using g tr by (simp add: object_at_def)
    have dis: "set (?root # kid_nodes ks) \<inter> ?F = {}" using kF rc kc F by auto
    have vars: "\<exists>b us. find_kid y ks = Some (b, us, y) \<and> var_at ?p ?F b m" if y: "(rho(x \<mapsto> k)) y = Some m" for y m
    proof (cases "y = x")
      case True
      then have "m = k" using y by simp
      moreover have "a \<notin> ?F" using F a(2) oa by auto
      ultimately show ?thesis using True x(1) cat a ta by (auto simp: var_at_def)
    next
      case False
      then have "rho y = Some m" using y by simp
      then obtain b us where b: "find_kid y ks = Some (b, us, y)" "var_at p F b m" using g by blast
      have bk: "b \<in> fst ` set ks" using find_kid_set [OF b(1)] by force
      have ba: "b \<noteq> a" using kids_distinct_heads [OF k0(4)] find_kid_set [OF b(1)] find_kid_set [OF x(1)] False by blast
      have tb: "tab ?p b = tab p b" using tk [OF kid_heads [OF bk] ba] .
      have "b \<notin> ?F" using b(2) F kc [OF kid_heads [OF bk]] by (simp add: var_at_def)
      moreover have "int_at ?p ?F (s_first (tab p b)) m" using at [OF _ other [OF bk ba]] b(2) by (simp add: var_at_def)
      ultimately show ?thesis using b tb by (auto simp: var_at_def)
    qed
    show ?thesis unfolding globals_def using ob dis vars g tr by simp
  qed
  moreover have "int_at ?p ?F ?z 0"
  proof (rule at)
    show "int_at p F ?z 0" using s by simp
    assume z: "?z = old"
    have "{a} \<subseteq> referrers p ks old" using ak old(1) by (auto simp: referrers_def)
    then have "card {a} \<le> card (referrers p ks old)" using fin by (intro card_mono)
    then show "2 \<le> s_refs (tab p old)" using ints [OF o(2,1,3)] z by simp
  qed
  moreover have "n + length ks \<le> card ?F + card (privates ?p ks)"
  proof -
    have "a \<in> referrers p ks old" using ak old(1) by (simp add: referrers_def)
    moreover have "if c \<in> F then s_refs s = 0 \<and> referrers p ks c = {} else s = tab p c \<and> 0 < s_refs s"
      using cF store by (auto simp: referrers_def store_ok_def int_at_def)
    ultimately show ?thesis
      using new_base_privates [OF ref _ _ ca [symmetric] old(2) o(1,3) _ o(4,2) cn(1,3)] store a(3) ints [OF o(2,1,3)]
      unfolding store_ok_def by (simp add: split: if_splits)
  qed
  moreover have "n < 250" "length ks < 65000" using s by blast+
  moreover have "s_locks (tab ?p i) + n < 250" if "i \<notin> ?F" "i \<noteq> 0" for i
  proof (cases "i = c")
    case False
    then have "i \<notin> F" using that F by blast
    then have "s_locks (tab p i) + n < 250" using s that(2) by blast
    then show ?thesis using ta to ti False by (cases "i = a"; cases "i = old") auto
  qed (use tc s in simp)
  moreover have "0 \<notin> ?F" "finite ?F" using s o(1) by (auto simp: new_free_def)
  moreover have "s_first (tab ?p b) \<notin> ?F" if "b \<in> fst ` set ks" for b
  proof (cases "b = a")
    case False
    have n: "s_first (tab p b) \<notin> F" using s that by blast
    have tb: "tab ?p b = tab p b" using tk [OF kid_heads [OF that] False] .
    have "s_first (tab p b) = old \<longrightarrow> s_refs (tab p old) \<noteq> 1" using other [OF that False] by fastforce
    then show ?thesis unfolding tb F using n by blast
  qed (use ta F in simp)
  moreover have "s_next (tab ?p i) = 0 \<and> s_prev (tab ?p i) = 0 \<and> s_first (tab ?p i) = 0 \<and> s_last (tab ?p i) = 0 \<and>
      s_locks (tab ?p i) = 0 \<and> card (referrers ?p ks i) + (if i = ?z then 1 else 0) \<le> s_refs (tab ?p i) \<and>
      s_refs (tab ?p i) + length ks < 65000 + card (referrers ?p ks i)"
    if i: "i \<notin> ?F" "i \<noteq> 0" "s_flags (tab ?p i) = BE_SYM_INTEGER" for i
  proof -
    have ia: "i \<noteq> a" using i(3) ta a(3) by auto
    consider "i = c" "c \<in> F" | "i = c" "c \<notin> F" | "i = old" | "i \<noteq> c" "i \<noteq> old" by blast
    then show ?thesis
    proof cases
      case 1
      have "referrers p ks c = {}" using s 1 by (auto simp: referrers_def)
      moreover have "?z \<noteq> c" using s 1 by (auto simp: int_at_def)
      moreover have "length ks < 65000" using s by blast
      ultimately show ?thesis using 1 tc c ref [of c] by (simp add: new_value_def)
    next
      case 2
      have "a \<notin> referrers p ks c" using old by (auto simp: referrers_def)
      then have "card (insert a (referrers p ks c)) = Suc (card (referrers p ks c))" by (simp add: fin)
      then show ?thesis using 2 tc cF(1) ref [of c] ints [of c] by (auto simp: int_at_def)
    next
      case 3
      have "a \<in> referrers p ks old" using ak old(1) by (simp add: referrers_def)
      then have cd: "card (referrers p ks old) = Suc (card (referrers p ks old - {a}))"
        using fin by (metis card_Suc_Diff1)
      define d where "d = (if old = ?z then 1 else (0 :: nat))"
      have r: "referrers ?p ks old = referrers p ks old - {a}" using ref [of old] old(2) by simp
      have "card (referrers p ks old) + d \<le> s_refs (tab p old)" using ints [OF o(2,1,3)] by (simp add: d_def)
      then have n: "card (referrers p ks old - {a}) + d \<le> s_refs (tab p old) - 1" using cd by simp
      have "s_refs (tab p old) + length ks < 65000 + card (referrers p ks old)" using ints [OF o(2,1,3)] by simp
      then have "s_refs (tab p old) - 1 + length ks < 65000 + card (referrers p ks old - {a})" using cd o(4) by linarith
      then show ?thesis unfolding 3 to r d_def [symmetric] using n ints [OF o(2,1,3)] by simp
    next
      case 4
      have "i \<notin> F" using i(1) F 4 by blast
      moreover have "referrers p ks i - {a} = referrers p ks i" using 4(2) old by (auto simp: referrers_def)
      moreover have "referrers ?p ks i = referrers p ks i - {a}" using ref [of i] 4(1) by simp
      moreover have t: "tab ?p i = tab p i" using ti [OF ia] 4 by simp
      moreover note ints [of i] i(2,3)
      ultimately show ?thesis by simp
    qed
  qed
  ultimately show ?thesis unfolding store_ok_def by blast
qed

text \<open>A name is set while references are held, all but its own to integers.\<close>

lemma ints_same_table:
  assumes "ints p F H q" and "tab q1 = tab q" and "room (F - fst ` set_mset H) q1"
  shows "ints p F H q1"
  unfolding ints_def entry_ok_def assms(2) using assms(1) [unfolded ints_def entry_ok_def] assms(3) by blast

lemma assign_ints:
  assumes store: "store_ok E p F ks rho n" and q: "ints p F (add_mset (a, j) H) q" and a: "a \<notin> fst ` set_mset H"
    and c: "(c, k) \<in># H" "c \<noteq> 0" and plain_ref: "\<And>i m. (i, m) \<in># H \<Longrightarrow> plain_ref p F i"
    and x: "find_kid x ks = Some (a, js, x)" "var_at p F a j" and rho: "rho x = Some j" and fit: "size H < 200"
  shows "\<exists>q1 p' F'. set_symbol_node_name a c q = Some q1 \<and> store_ok E p' F' ks (rho(x \<mapsto> k)) n \<and>
    ints p' F' (add_mset (a, k) H) q1"
proof -
  define old where "old = s_first (tab p a)"
  note s = store [unfolded store_ok_def]
  have ao: "a \<noteq> 0" "a \<notin> F" "s_flags (tab p a) = BE_SYM_STRING OR BE_SYM_NAME" "0 < s_refs (tab p a)" "int_at p F old j"
    using x(2) by (auto simp: var_at_def old_def)
  have o: "old \<noteq> 0" "old \<notin> F" "s_flags (tab p old) = BE_SYM_INTEGER" "sym_int (tab p old) = j" "in64 j" "0 < s_refs (tab p old)"
    using ao(5) by (auto simp: int_at_def)
  have ua: "uses H a = 0" using a by (simp add: uses_zero)
  have out: "tab q i = (tab p i)\<lparr>s_locks := s_locks (tab p i) + uses (add_mset (a, j) H) i\<rparr>" if "i \<notin> F" "i \<noteq> 0" for i
    using q that unfolding ints_def by blast
  have qa: "tab q a = (tab p a)\<lparr>s_locks := s_locks (tab p a) + 1\<rparr>" using out [OF ao(2,1)] ua by simp
  have ca: "c \<noteq> a" using c(1) a by force
  have ent: "entry_ok p F (add_mset (a, j) H) q i m" if "(i, m) \<in># H" for i m using q that by (auto simp: ints_def)
  have oa: "old \<noteq> a" using ao(3) o(3) by auto
  have zo: "s_next (tab p old) = 0" "s_prev (tab p old) = 0" "s_first (tab p old) = 0" "s_last (tab p old) = 0" "s_locks (tab p old) = 0"
    using s o(1-3) by blast+
  have qo: "tab q old = (tab p old)\<lparr>s_locks := uses H old\<rparr>" using out [OF o(2,1)] oa zo(5) by simp
  have na: "symbol_is_name (tab q a)" "s_first (tab q a) = old" using qa ao(3) by (simp_all add: sym_kinds old_def)
  have uc: "0 < uses H c" using uses_pos [OF c(1)] .
  have uo: "uses H old < 255" using uses_le [of H old] fit by simp
  let ?G = "F - fst ` set_mset (add_mset (a, j) H)"
  have G: "room ?G q" "?G = F - fst ` set_mset H" using q ao(2) by (auto simp: ints_def)
  have oG: "old \<notin> ?G" using o(2) by simp
  have rq: "s_refs (tab q old) = s_refs (tab p old)" "s_locks (tab q old) = uses H old" using qo by simp_all
  obtain q0 where q0: "DEC_SYMBL_REF_BY_ID old q = Some q0" "\<And>i. i \<noteq> old \<Longrightarrow> tab q0 i = tab q i"
    "if s_refs (tab q old) = 1 \<and> s_locks (tab q old) = 0 then room (insert old ?G) q0
     else room ?G q0 \<and> tab q0 old = (tab q old)\<lparr>s_refs := s_refs (tab q old) - 1\<rparr>"
    using dec_int [OF G(1) oG o(1)] qo o(3,6) zo uo by auto
  define q1 where "q1 = upd a (\<lambda>s. s\<lparr>s_first := c\<rparr>) (upd c (\<lambda>s. s\<lparr>s_refs := u16 (s_refs s + 1)\<rparr>) q0)"
  have set: "set_symbol_node_name a c q = Some q1"
    using na ao(1) o(1) ca c(2) q0(1) by (simp add: set_symbol_node_name_def INC_SYMBL_REF_def q1_def)
  have cH: "c \<in> fst ` set_mset H" using c(1) by force
  have cG: "c \<notin> ?G" "a \<notin> ?G" using c(1) ao(2) by force+
  have room1: "room G' q0 \<Longrightarrow> c \<notin> G' \<Longrightarrow> a \<notin> G' \<Longrightarrow> room G' q1" for G'
    unfolding q1_def by (intro room_upd)
  have ta: "tab q1 a = (tab q a)\<lparr>s_first := c\<rparr>" using ca oa q0(2) by (simp add: q1_def)
  have t: "tab q1 i = tab q0 i" if "i \<noteq> a" "i \<noteq> c" for i using that by (simp add: q1_def)
  show ?thesis
  proof (cases "old = c")
    case True
    have k: "k = j" using ent [OF c(1)] True o(1-4) ao(5) by (auto simp: entry_ok_def int_at_def var_at_def)
    have r: "s_refs (tab p c) < 65000" using store_refs [OF store o(2,1,3)] True by simp
    have q0c: "room ?G q0" "tab q0 c = (tab q c)\<lparr>s_refs := s_refs (tab q c) - 1\<rparr>" using q0(3) uc rq True by auto
    have "tab q1 c = tab q c" using q0c(2) ca r o(6) rq(1) True by (simp add: q1_def u16_def)
    moreover have "tab q1 a = tab q a" using ta na(2) True by simp
    ultimately have t: "tab q1 = tab q" using t q0(2) True by (intro ext) metis
    have "room ?G q1" using room1 [OF q0c(1) cG] .
    then have "ints p F (add_mset (a, k) H) q1" using ints_same_table [OF q t] k by simp
    moreover have "rho(x \<mapsto> k) = rho" using k rho by auto
    ultimately show ?thesis using set store by auto
  next
    case False
    define s' where "s' = (if c \<in> F then tab q c else tab p c)"
    have kc: "in64 k" "plain_ref p F c" using ent [OF c(1)] plain_ref [OF c(1)] by (simp_all add: entry_ok_def)
    have c1: "temp_ok (tab q c) k \<and> s_locks (tab q c) = uses H c" if "c \<in> F"
      using ent [OF c(1)] that c(2) ca by (simp add: entry_ok_def)
    have c2: "int_at p F c k" if "c \<notin> F"
      using ent [OF c(1)] that c(2) kc(2) by (auto simp: entry_ok_def plain_ref_def var_at_def)
    have c3: "s_locks (tab p c) = 0 \<and> s_first (tab p c) = 0 \<and> s_last (tab p c) = 0 \<and> s_next (tab p c) = 0 \<and> s_prev (tab p c) = 0"
      if "c \<notin> F" using s c2 [OF that] c(2) that by (auto simp: int_at_def)
    have nv: "new_value p F c s' k"
      using c1 c2 c3 c(2) kc(1) by (auto simp: new_value_def s'_def temp_ok_def int_at_def)
    let ?p = "new_base a old c s' p" and ?F = "new_free old c p F"
    have store': "store_ok E ?p ?F ks (rho(x \<mapsto> k)) n"
      using new_base_store [OF store x _ False nv] by (simp add: old_def)
    have F: "i \<in> ?F \<longleftrightarrow> i \<noteq> c \<and> (i \<in> F \<or> i = old \<and> s_refs (tab p old) = 1)" for i
      using False by (auto simp: new_free_def)
    have u: "uses (add_mset (a, k) H) = uses (add_mset (a, j) H)" by (intro ext) simp
    have r: "s_refs (tab q c) < 65535"
    proof (cases "c \<in> F")
      case True
      then show ?thesis using c1 by (simp add: temp_ok_def)
    next
      case False
      then have "s_refs (tab p c) < 65000" using store_refs [OF store False c(2)] c2 by (simp add: int_at_def)
      then show ?thesis using out [OF False c(2)] by simp
    qed
    have tc: "tab q1 c = (tab q c)\<lparr>s_refs := s_refs (tab q c) + 1\<rparr>"
      using ca q0(2) [of c] False r by (simp add: q1_def u16_def)
    have to: "tab q1 old = tab q0 old" using t oa False by simp
    have ti: "tab q1 i = tab q i" if "i \<noteq> a" "i \<noteq> c" "i \<noteq> old" for i using t q0(2) that by simp
    have pa: "tab ?p a = (tab p a)\<lparr>s_first := c\<rparr>" "tab ?p c = s'\<lparr>s_refs := s_refs s' + 1, s_locks := 0\<rparr>"
      "tab ?p old = (tab p old)\<lparr>s_refs := s_refs (tab p old) - 1\<rparr>" using ca oa False by (simp_all add: new_base_def)
    have pi: "tab ?p i = tab p i" if "i \<noteq> a" "i \<noteq> c" "i \<noteq> old" for i using that by (simp add: new_base_def)
    have out': "tab q1 i = (tab ?p i)\<lparr>s_locks := s_locks (tab ?p i) + uses (add_mset (a, k) H) i\<rparr>" if i: "i \<notin> ?F" "i \<noteq> 0" for i
    proof -
      consider "i = a" | "i = c" "c \<in> F" | "i = c" "c \<notin> F" | "i = old" | "i \<noteq> a" "i \<noteq> c" "i \<noteq> old" by blast
      then show ?thesis
      proof cases
        case 1
        then show ?thesis using ta pa(1) qa ua by simp
      next
        case 2
        then show ?thesis using tc pa(2) c1 ca by (simp add: s'_def)
      next
        case 3
        then show ?thesis using tc pa(2) out [OF 3(2) c(2)] c3 ca by (simp add: s'_def)
      next
        case 4
        have "s_refs (tab p old) \<noteq> 1" using i(1) 4 F False by auto
        then have "tab q0 old = (tab q old)\<lparr>s_refs := s_refs (tab q old) - 1\<rparr>" using q0(3) rq by auto
        then show ?thesis using 4 to pa(3) qo oa zo(5) by simp
      next
        case 5
        then show ?thesis using ti pi u out i F by auto
      qed
    qed
    have H': "fst ` set_mset (add_mset (a, k) H) = insert a (fst ` set_mset H)" by simp
    have "room (?F - insert a (fst ` set_mset H)) q1"
    proof (cases "s_refs (tab p old) = 1 \<and> uses H old = 0")
      case True
      then have "?F - insert a (fst ` set_mset H) = insert old ?G"
        using F cH oa False ao(2) by (auto simp: uses_zero)
      moreover have "room (insert old ?G) q0" using q0(3) rq True by simp
      ultimately show ?thesis using room1 [of "insert old ?G"] cG False oa by auto
    next
      case n: False
      then have "?F - insert a (fst ` set_mset H) = ?G"
        using F cH oa False ao(2) o(2) by (auto simp: uses_zero)
      moreover have "room ?G q0" using q0(3) rq n by auto
      ultimately show ?thesis using room1 cG by simp
    qed
    moreover have "entry_ok ?p ?F (add_mset (a, k) H) q1 i m" if im: "(i, m) \<in># H" for i m
    proof -
      have ia: "i \<noteq> a" using im a by force
      have e: "entry_ok p F (add_mset (a, j) H) q i m" and pl: "plain_ref p F i" using ent plain_ref im by blast+
      have in64: "in64 m" using e by (simp add: entry_ok_def)
      consider "i = 0" | "i = c" | "i = old" "i \<noteq> 0" | "i \<noteq> 0" "i \<noteq> c" "i \<noteq> old" by blast
      then show ?thesis
      proof cases
        case 1
        then show ?thesis using e by (simp add: entry_ok_def)
      next
        case 2
        have "m = k" using e c1 c2 2 c(2) kc(2) by (cases "c \<in> F") (auto simp: entry_ok_def temp_ok_def int_at_def var_at_def)
        moreover have "int_at ?p ?F c k"
          using pa(2) nv F by (simp add: int_at_def new_value_def)
        ultimately show ?thesis using 2 c(2) in64 F by (simp add: entry_ok_def)
      next
        case 3
        have m: "m = j" using e 3 o by (auto simp: entry_ok_def int_at_def var_at_def)
        have "0 < uses H old" using uses_pos [OF im] 3 by simp
        then have tq: "tab q1 old = (tab q old)\<lparr>s_refs := s_refs (tab q old) - 1\<rparr>" using to q0(3) rq by auto
        show ?thesis
        proof (cases "s_refs (tab p old) = 1")
          case True
          then show ?thesis using 3 m F False tq qo o zo in64 oa by (auto simp: entry_ok_def temp_ok_def)
        next
          case n: False
          then have "int_at ?p ?F old j" using pa(3) o F by (auto simp: int_at_def)
          then show ?thesis using 3 m n F False o in64 by (auto simp: entry_ok_def)
        qed
      next
        case 4
        show ?thesis
        proof (cases "i \<in> F")
          case True
          then show ?thesis using 4 e ti [OF ia 4(2,3)] F ia by (simp add: entry_ok_def)
        next
          case n: False
          then have "int_at p F i m" using e pl 4 by (auto simp: entry_ok_def plain_ref_def var_at_def)
          then have "int_at ?p ?F i m" using pi [OF ia 4(2,3)] F 4 by (simp add: int_at_def)
          then show ?thesis using 4 n F in64 by (auto simp: entry_ok_def)
        qed
      qed
    qed
    moreover have "entry_ok ?p ?F (add_mset (a, k) H) q1 a k"
    proof -
      have "int_at ?p ?F c k" using pa(2) nv F by (simp add: int_at_def new_value_def)
      moreover have "a \<notin> ?F" using F ao(2) oa by auto
      ultimately show ?thesis using ao pa(1) kc(1) by (auto simp: entry_ok_def var_at_def)
    qed
    moreover have "0 \<notin> ?F" "finite ?F" using store' by (simp_all add: store_ok_def)
    ultimately have "ints ?p ?F (add_mset (a, k) H) q1" using out' unfolding ints_def H' by auto
    then show ?thesis using set store' by blast
  qed
qed

end
