(* ===== verification/Exec_Prog.thy ===== *)
theory Exec_Prog
  imports Exec_Store
begin

text \<open>
  Programs of assignments to global integer variables, conditionals, loops and blocks:
  their tokens, what they do to the store, and the steps of the interpreter.
\<close>

section \<open>Programs\<close>

datatype pstmt = Assign "byte list" tok ex | IfThen ex pstmt | IfElse ex pstmt pstmt | While ex pstmt | Braces "pstmt list"

fun st_tokens :: "pstmt \<Rightarrow> tkn list" where
  "st_tokens (Assign w op e) = (BE_TOKEN_ID, w) # (op, []) # ex_tokens e @ [(TK 59, [])]"
| "st_tokens (IfThen e s) = (BE_TOKEN_KW_IF, str ''if'') # (TK 40, []) # ex_tokens e @ (TK 41, []) # st_tokens s"
| "st_tokens (IfElse e s t) = (BE_TOKEN_KW_IF, str ''if'') # (TK 40, []) # ex_tokens e @ (TK 41, []) # st_tokens s @
     (BE_TOKEN_KW_ELSE, str ''else'') # st_tokens t"
| "st_tokens (While e s) = (BE_TOKEN_KW_WHILE, str ''while'') # (TK 40, []) # ex_tokens e @ (TK 41, []) # st_tokens s"
| "st_tokens (Braces ss) = (TK 123, []) # concat (map st_tokens ss) @ [(TK 125, [])]"

text \<open>An \<open>else\<close> belongs to the last \<open>if\<close> without one.\<close>

fun closed_st :: "pstmt \<Rightarrow> bool" where
  "closed_st (IfThen e s) = False"
| "closed_st (IfElse e s t) = closed_st t"
| "closed_st (While e s) = closed_st s"
| "closed_st s = True"

fun st_ok :: "pstmt \<Rightarrow> bool" where
  "st_ok (Assign w op e) = (assignment_op op \<and> ex_ok 6 e)"
| "st_ok (IfThen e s) = (ex_ok 6 e \<and> st_ok s)"
| "st_ok (IfElse e s t) = (ex_ok 6 e \<and> st_ok s \<and> closed_st s \<and> st_ok t)"
| "st_ok (While e s) = (ex_ok 6 e \<and> st_ok s)"
| "st_ok (Braces ss) = list_all st_ok ss"

definition assigned_op :: "tok \<Rightarrow> tok" where
  "assigned_op op = (if op = BE_TOKEN_OP_PLUS_EQUAL then TK 43 else if op = BE_TOKEN_OP_MINUS_EQUAL then TK 45
     else if op = BE_TOKEN_OP_MUL_EQUAL then TK 42 else TK 47)"

text \<open>The variable must exist.\<close>

definition assigned :: "(byte list \<rightharpoonup> int) \<Rightarrow> byte list \<Rightarrow> tok \<Rightarrow> ex \<Rightarrow> int option" where
  "assigned rho w op e = do {
     j \<leftarrow> rho w;
     k \<leftarrow> ex_value rho e;
     if op = TK 61 then Some k else op_value (assigned_op op) j k
   }"

text \<open>A loop whose body runs at most \<open>m\<close> times.\<close>

fun iterate :: "nat \<Rightarrow> ('a \<Rightarrow> int option) \<Rightarrow> ('a \<Rightarrow> 'a option) \<Rightarrow> 'a \<Rightarrow> 'a option" where
  "iterate 0 c b a = do { k \<leftarrow> c a; if k = 0 then Some a else None }"
| "iterate (Suc m) c b a = do { k \<leftarrow> c a; if k = 0 then Some a else do { a' \<leftarrow> b a; iterate m c b a' } }"

text \<open>The interpreter reports an error for a loop whose body runs 8192 times.\<close>

fun st_run :: "(byte list \<rightharpoonup> int) \<Rightarrow> pstmt \<Rightarrow> (byte list \<rightharpoonup> int) option"
  and seq_run :: "(byte list \<rightharpoonup> int) \<Rightarrow> pstmt list \<Rightarrow> (byte list \<rightharpoonup> int) option" where
  "st_run rho (Assign w op e) = do { m \<leftarrow> assigned rho w op e; Some (rho(w \<mapsto> m)) }"
| "st_run rho (IfThen e s) = do { k \<leftarrow> ex_value rho e; if k \<noteq> 0 then st_run rho s else Some rho }"
| "st_run rho (IfElse e s t) = do { k \<leftarrow> ex_value rho e; if k \<noteq> 0 then st_run rho s else st_run rho t }"
| "st_run rho (While e s) = iterate 8191 (\<lambda>r. ex_value r e) (\<lambda>r. st_run r s) rho"
| "st_run rho (Braces ss) = seq_run rho ss"
| "seq_run rho [] = Some rho"
| "seq_run rho (s # ss) = do { rho' \<leftarrow> st_run rho s; seq_run rho' ss }"

text \<open>The references that are held at most.\<close>

fun st_refs :: "pstmt \<Rightarrow> nat" where
  "st_refs (Assign w op e) = max 5 (Suc (ex_refs e))"
| "st_refs (IfThen e s) = max (Suc (ex_refs e)) (st_refs s)"
| "st_refs (IfElse e s t) = max (Suc (ex_refs e)) (max (st_refs s) (st_refs t))"
| "st_refs (While e s) = max (Suc (ex_refs e)) (st_refs s)"
| "st_refs (Braces ss) = foldr max (map st_refs ss) 0"

section \<open>Assignments\<close>

lemma stop_tokens: "stops 6 (TK 59)" "stops 6 (TK 41)" "stops 6 BE_TOKEN_END"
  by (simp_all add: stops_def postfix_op_def mul_op_def add_op_def shift_op_def relational_op_def
      bit_logic_op_def assignment_op_def)

text \<open>A name before an assignment goes through all levels as it is.\<close>

lemma name_to_logic:
  assumes "runs E Factor v a v1" and "tk v = BE_TOKEN_ID" and "assignment_op (tk v1)" and "runs E (Logic_Loop a) v1 R w"
  shows "runs E Base_Expr v R w"
proof -
  have t: "tk v1 \<noteq> TK 40" "\<not> postfix_op (tk v1)" "\<not> mul_op (tk v1)" "\<not> add_op (tk v1)" "\<not> shift_op (tk v1)" "\<not> relational_op (tk v1)"
    using assms(3) by (auto simp: assignment_op_def postfix_op_def mul_op_def add_op_def shift_op_def relational_op_def)
  have "runs E (Postfix_Loop False a) v1 a v1" using t by (intro runs0) (simp add: postfix_loop_def)
  then have p: "runs E Postfix v a v1"
    using assms(2) by (rule_tac runs2 [OF assms(1)]) (auto simp: handle_postfix_syntax_def)
  have l: "runs E (Add_Loop a) v1 a v1" using t by (intro runs0) (simp add: add_loop_def shift_part_def)
  have m: "runs E (Mul_Loop False a) v1 a v1" using t by (intro runs1 [OF l]) (simp add: mul_loop_def)
  have c: "runs E Precedent v a v1" using assms(2) by (intro runs2 [OF p m]) (simp add: handle_precedent_expr_def)
  have r: "runs E (Rel_Loop a) v1 R w" using t by (intro runs1 [OF assms(4)]) (simp add: rel_loop_def)
  show ?thesis by (intro runs2 [OF c r]) (simp add: handle_base_expr_def)
qed

text \<open>The value of an expression replaces the reference to it.\<close>

lemma st_take_value:
  assumes "st E W p0 F0 x (add_mset (b, k) H) ts v" and "fits p0 F0 (size H + 2)"
  shows "\<exists>c v1. ask_pool (unlock_symbol_value b) v = Some (c, v1) \<and> (c = 0 \<longleftrightarrow> b = 0) \<and> plain_ref p0 F0 c \<and>
    st E W p0 F0 x (add_mset (c, k) H) ts v1"
proof -
  have i: "ints p0 F0 (add_mset (b, k) H) (vm_pool v)" using assms(1) by (simp add: st_def)
  obtain c q where c: "get_symbol_value b (vm_pool v) = Some (c, q)" "c = 0 \<longleftrightarrow> b = 0" "plain_ref p0 F0 c"
    "ints p0 F0 (add_mset (c, k) (add_mset (b, k) H)) q"
    using ints_value [OF i, of b k] assms(2) by auto
  have "ints p0 F0 (add_mset (b, k) (add_mset (c, k) H)) q" using c(4) by (simp add: add_mset_commute)
  then obtain q' where q': "symbol_unlock b q = Some q'" "ints p0 F0 (add_mset (c, k) H) q'" using ints_unlock by blast
  have "unlock_symbol_value b (vm_pool v) = Some (c, q')" using c(1) q'(1) by (simp add: unlock_symbol_value_def)
  from st_pool [OF assms(1), of "unlock_symbol_value b", OF this q'(2)] show ?thesis using c(2,3) by blast
qed

text \<open>The name is set to a value that is held.\<close>

lemma st_replace:
  assumes store: "store_ok E p F ks rho n" and v: "st E W p F 1 (add_mset (a, j) H) ts v" and a: "a \<notin> fst ` set_mset H"
    and c: "(c, k) \<in># H" "c \<noteq> 0" and pl: "\<And>i m. (i, m) \<in># H \<Longrightarrow> plain_ref p F i"
    and w: "find_kid w ks = Some (a, js, w)" "var_at p F a j" and rho: "rho w = Some j" and fit: "size H < 200"
  shows "\<exists>v1 p' F'. symbol_replace a c v = Some v1 \<and> store_ok E p' F' ks (rho(w \<mapsto> k)) n \<and>
    st E W p' F' 1 (add_mset (a, k) H) ts v1"
proof -
  have i: "ints p F (add_mset (a, j) H) (vm_pool v)" using v by (simp add: st_def)
  obtain q p' F' where q: "set_symbol_node_name a c (vm_pool v) = Some q" "store_ok E p' F' ks (rho(w \<mapsto> k)) n"
    "ints p' F' (add_mset (a, k) H) q"
    using assign_ints [OF store i a c _ w rho fit] pl by blast
  have "a \<noteq> 0" "a \<notin> F" "s_flags (tab p a) = BE_SYM_STRING OR BE_SYM_NAME" using w(2) by (simp_all add: var_at_def)
  moreover from this have "tab (vm_pool v) a = (tab p a)\<lparr>s_locks := s_locks (tab p a) + uses (add_mset (a, j) H) a\<rparr>"
    using i by (simp add: ints_def)
  ultimately have "is_kind symbol_is_name v a" by (simp add: is_kind_def node_is_def sym_kinds)
  then show ?thesis
    using q v by (intro exI [of _ "v\<lparr>vm_pool := q\<rparr>"] exI [of _ p'] exI [of _ F'])
      (simp add: symbol_replace_def upd_pool_def st_def)
qed

lemma plain_var: "plain_ref p F c \<Longrightarrow> c \<noteq> 0 \<Longrightarrow> var_at p F a j \<Longrightarrow> c \<noteq> a"
  by (auto simp: plain_ref_def var_at_def)

lemma st_assign_value:
  assumes store: "store_ok E p F ks rho n" and v: "st E W p F 1 {#(c, k), (a, j)#} ts v" and c: "c \<noteq> 0" "plain_ref p F c"
    and w: "find_kid w ks = Some (a, js, w)" "var_at p F a j" and rho: "rho w = Some j" and fit: "5 \<le> n" and op: "assignment_op op"
    and m: "(if op = TK 61 then Some k else op_value (assigned_op op) j k) = Some m"
  shows "\<exists>v1 p' F'. assign_value E a c op v = Some v1 \<and> store_ok E p' F' ks (rho(w \<mapsto> m)) n \<and>
    st E W p' F' 1 {#(c, k), (a, m)#} ts v1"
proof (cases "op = TK 61")
  case True
  have "st E W p F 1 (add_mset (a, j) {#(c, k)#}) ts v" using v by (simp add: add_mset_commute)
  moreover have "a \<notin> fst ` set_mset {#(c, k)#}" using plain_var [OF c(2,1) w(2)] by auto
  ultimately obtain v1 p' F' where "symbol_replace a c v = Some v1" "store_ok E p' F' ks (rho(w \<mapsto> k)) n"
    "st E W p' F' 1 (add_mset (a, k) {#(c, k)#}) ts v1"
    using st_replace [OF store, of W a j "{#(c, k)#}" ts v c k w js] c w rho by auto
  then show ?thesis using True m by (auto simp: assign_value_def add_mset_commute)
next
  case False
  have az: "a \<noteq> 0" using w(2) by (simp add: var_at_def)
  have f: "fits p F (size {#(c, k), (a, j)#} + 3)" using store_fits [OF store] fits_mono [of p F n 5] fit by simp
  have o: "op_value (assigned_op op) j k = Some m" using m False by simp
  have ns: "assigned_op op \<noteq> BE_TOKEN_OP_STRICT_EQUAL \<and> assigned_op op \<noteq> BE_TOKEN_OP_STRICT_NEQUAL" by (simp add: assigned_op_def)
  obtain r v1 where r: "maths E a c (assigned_op op) v = Some (r, v1)" "r \<noteq> 0" "plain_ref p F r"
    "st E W p F 1 (add_mset (r, m) {#(c, k), (a, j)#}) ts v1"
    using st_maths [OF v f, of a j c k "assigned_op op" m] az ns o by auto
  have "st E W p F 1 (add_mset (a, j) {#(r, m), (c, k)#}) ts v1" using r(4) by (simp add: add_mset_commute)
  moreover have "a \<notin> fst ` set_mset {#(r, m), (c, k)#}" using plain_var [OF c(2,1) w(2)] plain_var [OF r(3,2) w(2)] by auto
  ultimately obtain v2 p' F' where v2: "symbol_replace a r v1 = Some v2" "store_ok E p' F' ks (rho(w \<mapsto> m)) n"
    "st E W p' F' 1 (add_mset (a, m) {#(r, m), (c, k)#}) ts v2"
    using st_replace [OF store, of W a j "{#(r, m), (c, k)#}" ts v1 r m w js] c r(2,3) w rho by auto
  have "st E W p' F' 1 (add_mset (r, m) {#(c, k), (a, m)#}) ts v2" using v2(3) by (simp add: add_mset_commute)
  then obtain v3 where "unlock r v2 = Some v3" "st E W p' F' 1 {#(c, k), (a, m)#} ts v3" using st_unlock by blast
  then show ?thesis using False r(1) v2(1,2) by (auto simp: assign_value_def assigned_op_def)
qed

text \<open>The reference to a name, before an assignment.\<close>

lemma factor_name:
  assumes v: "st E W p F 1 H ((BE_TOKEN_ID, w) # rest) v" and f: "fits p F (size H + 1)"
    and g: "globals p F (ctx_root (e_ctx E)) ks rho" and w: "find_kid w ks = Some (a, js, w)" "var_at p F a j"
    and rest: "stops 1 (first_tok rest)"
  shows "\<exists>v1. runs E Factor v a v1 \<and> st E W p F 1 (add_mset (a, j) H) rest v1"
proof -
  note t = st_tk [OF v] st_mode [OF v mode_simps(2)] st_token [OF v]
  have i: "ints p F H (vm_pool v)" and sc: "vm_scopes v = []" using v by (simp_all add: st_def)
  obtain q where q: "lookup_named_child_symbol (ctx_root (e_ctx E)) w False (vm_pool v) = Some (a, q)"
    "ints p F (add_mset (a, j) H) q" using lookup_name [OF i f g w] by blast
  from st_pool [OF v, of "lookup_named_child_symbol (ctx_root (e_ctx E)) w False", OF q]
  obtain v1 where v1: "lookup_symbol_in_scopes E w v = Some (a, v1)"
    "st E W p F 1 (add_mset (a, j) H) ((BE_TOKEN_ID, w) # rest) v1"
    using that by (auto simp: lookup_symbol_in_scopes_def sc ask_pool_def)
  obtain v2 where v2: "st E W p F 1 (add_mset (a, j) H) rest v2" "\<And>r k. need E BE_TOKEN_ID (r :: nat) k v1 = k v2"
    using st_need [OF v1(2)] by blast
  have "a \<noteq> 0" using w(2) by (simp add: var_at_def)
  then have "runs E Factor v a v2"
    using t v1(1) v2(2) by (intro runs1 [OF access_done [OF v2(1) rest]]) (simp add: handle_factor_syntax_def id_factor_def)
  then show ?thesis using v2(1) by blast
qed

text \<open>The expression behind the operator, in both modes.\<close>

lemma st_expression:
  assumes "env_ok E p F rho" and "ex_ok 6 e" and "mode x" and "x = 1 \<Longrightarrow> ex_value rho e = Some k" and "fits p F (size H + ex_refs e)"
    and "st E W p F x H (ex_tokens e @ rest) v" and "stops 6 (first_tok rest)"
  shows "\<exists>r j v1. runs E Base_Expr v r v1 \<and> st E W p F x (add_mset (r, j) H) rest v1 \<and> (x = 1 \<longrightarrow> r \<noteq> 0 \<and> j = k)"
proof -
  have "starts E W p F rho 6 x e H rest v" using assms by (simp add: starts_def)
  moreover have "at_job E W p F rho 6 Base_Expr e" using levels [OF assms(1), of W e] assms(2) by (simp add: all_levels_def)
  ultimately obtain r v1 where "runs E Base_Expr v r v1" "yields E W p F rho x e H rest r v1"
    unfolding at_job_def by blast
  then show ?thesis using assms(4) unfolding yields_def by fastforce
qed

lemma assignment_stops: "assignment_op op \<Longrightarrow> stops 1 op"
  by (auto simp: stops_def assignment_op_def postfix_op_def)

lemma assign_runs:
  assumes store: "store_ok E p F ks rho n" and v: "st E W p F 1 {#} (st_tokens (Assign w op e) @ rest) v"
    and ok: "st_ok (Assign w op e)" and m: "assigned rho w op e = Some m" and fit: "st_refs (Assign w op e) \<le> n"
  shows "\<exists>a v1 p' F'. runs E Base_Expr v a v1 \<and> store_ok E p' F' ks (rho(w \<mapsto> m)) n \<and>
    st E W p' F' 1 {#(a, m)#} ((TK 59, []) # rest) v1"
proof -
  have op: "assignment_op op" and eok: "ex_ok 6 e" using ok by simp_all
  obtain j k where jk: "rho w = Some j" "ex_value rho e = Some k"
    "(if op = TK 61 then Some k else op_value (assigned_op op) j k) = Some m"
    using m by (auto simp: assigned_def split: bind_splits)
  have g: "globals p F (ctx_root (e_ctx E)) ks rho" and f: "fits p F n"
    using store store_fits [OF store] by (simp_all add: store_ok_def)
  obtain a js where w: "find_kid w ks = Some (a, js, w)" "var_at p F a j" using g jk(1) unfolding globals_def by blast
  have a: "a \<noteq> 0" "a \<notin> F" "0 < s_refs (tab p a)" using w(2) by (simp_all add: var_at_def)
  let ?t1 = "(op, []) # ex_tokens e @ (TK 59, []) # rest"
  have v0: "st E W p F 1 {#} ((BE_TOKEN_ID, w) # ?t1) v" using v by simp
  have f1: "fits p F (size {#} + 1)" using fits_mono [OF f] fit by simp
  obtain v1 where v1: "runs E Factor v a v1" "st E W p F 1 (add_mset (a, j) {#}) ?t1 v1"
    using factor_name [OF v0 f1 g w] assignment_stops [OF op] by auto
  have t1: "tk v1 = op" using st_tk [OF v1(2)] by simp
  have na: "s_refs (node v1 a) \<noteq> 0" using v1(2) a by (auto simp: st_def ints_def node_def)
  obtain v2 where v2: "st E W p F 1 (add_mset (a, j) {#}) (ex_tokens e @ (TK 59, []) # rest) v2" "\<And>r k. need E op (r :: nat) k v1 = k v2"
    using st_need [OF v1(2)] by blast
  have f2: "fits p F (size (add_mset (a, j) {#}) + ex_refs e)" using fits_mono [OF f] fit by simp
  obtain b v3 where b: "runs E Base_Expr v2 b v3" "st E W p F 1 (add_mset (b, k) {#(a, j)#}) ((TK 59, []) # rest) v3" "b \<noteq> 0"
    using st_expression [OF store_env [OF store] eok, of 1 k "{#(a, j)#}" W "(TK 59, []) # rest" v2] jk(2) f2 v2(1) stop_tokens by auto
  have f3: "fits p F (size {#(a, j)#} + 2)" using fits_mono [OF f] fit by simp
  obtain c v4 where c: "ask_pool (unlock_symbol_value b) v3 = Some (c, v4)" "c \<noteq> 0" "plain_ref p F c"
    "st E W p F 1 (add_mset (c, k) {#(a, j)#}) ((TK 59, []) # rest) v4"
    using st_take_value [OF b(2) f3] b(3) by blast
  have fit5: "5 \<le> n" using fit by simp
  obtain v5 p' F' where v5: "assign_value E a c op v4 = Some v5" "store_ok E p' F' ks (rho(w \<mapsto> m)) n"
    "st E W p' F' 1 {#(c, k), (a, m)#} ((TK 59, []) # rest) v5"
    using st_assign_value [OF store c(4,2,3) w jk(1) fit5 op jk(3)] by blast
  obtain v6 where v6: "unlock c v5 = Some v6" "st E W p' F' 1 {#(a, m)#} ((TK 59, []) # rest) v6"
    using st_unlock [OF v5(3)] by blast
  have nl: "\<not> bit_logic_op op" "op \<noteq> TK 63" using op by (auto simp: assignment_op_def bit_logic_op_def)
  have x: "should_execute v1" "should_execute v4" using st_mode [OF v1(2)] st_mode [OF c(4)] by simp_all
  have "runs E (Logic_Loop a) v1 a v6"
    using t1 nl op na x v2(2) c(1) v5(1) v6(1) a(1)
    by (intro runs1 [OF b(1)]) (simp add: logic_loop_def ternary_part_def assign_part_def)
  then have "runs E Base_Expr v a v6" using name_to_logic [OF v1(1)] st_tk [OF v0] t1 op by simp
  then show ?thesis using v5(2) v6(2) by blast
qed

lemma assign_idle:
  assumes store: "store_ok E p F ks rho n" and v: "st E W p F 0 {#} (st_tokens (Assign w op e) @ rest) v"
    and ok: "st_ok (Assign w op e)" and fit: "st_refs (Assign w op e) \<le> n"
  shows "\<exists>a k v1. runs E Base_Expr v a v1 \<and> st E W p F 0 {#(a, k)#} ((TK 59, []) # rest) v1"
proof -
  have op: "assignment_op op" and eok: "ex_ok 6 e" using ok by simp_all
  have f: "fits p F n" using store_fits [OF store] .
  let ?t1 = "(op, []) # ex_tokens e @ (TK 59, []) # rest"
  have v0: "st E W p F 0 {#} ((BE_TOKEN_ID, w) # ?t1) v" using v by simp
  have "starts E W p F rho 1 0 (Var w) {#} ?t1 v"
    using v0 fits_mono [OF f, of 1] fit assignment_stops [OF op] by (simp add: starts_def)
  then obtain a k v1 where v1: "runs E Factor v a v1" "st E W p F 0 {#(a, k)#} ?t1 v1"
    using factor_var [OF store_env [OF store], of W w] unfolding at_job_def yields_def by blast
  have t1: "tk v1 = op" using st_tk [OF v1(2)] by simp
  obtain v2 where v2: "st E W p F 0 {#(a, k)#} (ex_tokens e @ (TK 59, []) # rest) v2" "\<And>r k. need E op (r :: nat) k v1 = k v2"
    using st_need [OF v1(2)] by blast
  have f2: "fits p F (size {#(a, k)#} + ex_refs e)" using fits_mono [OF f] fit by simp
  obtain b i v3 where b: "runs E Base_Expr v2 b v3" "st E W p F 0 (add_mset (b, i) {#(a, k)#}) ((TK 59, []) # rest) v3"
    using st_expression [OF store_env [OF store] eok mode_simps(1) _ f2 v2(1)] stop_tokens by auto
  have f3: "fits p F (size {#(a, k)#} + 2)" using fits_mono [OF f] fit by simp
  obtain c v4 where c: "ask_pool (unlock_symbol_value b) v3 = Some (c, v4)" "st E W p F 0 (add_mset (c, i) {#(a, k)#}) ((TK 59, []) # rest) v4"
    using st_take_value [OF b(2) f3] by blast
  obtain v6 where v6: "unlock c v4 = Some v6" "st E W p F 0 {#(a, k)#} ((TK 59, []) # rest) v6"
    using st_unlock [OF c(2)] by blast
  have nl: "\<not> bit_logic_op op" "op \<noteq> TK 63" using op by (auto simp: assignment_op_def bit_logic_op_def)
  have x: "\<not> should_execute v1" "\<not> should_execute v4" using st_mode [OF v1(2)] st_mode [OF c(2)] by simp_all
  have "runs E (Logic_Loop a) v1 a v6"
    using t1 nl op x v2(2) c(1) v6(1)
    by (intro runs1 [OF b(1)]) (simp add: logic_loop_def ternary_part_def assign_part_def)
  then have "runs E Base_Expr v a v6" using name_to_logic [OF v1(1)] st_tk [OF v0] t1 op by simp
  then show ?thesis using v6(2) by blast
qed

section \<open>Blocks that are skipped\<close>

lemma block_handlers [simp]:
  "handler E ev Block = handle_block_syntax E ev" "handler E ev Block_Loop = block_loop E ev"
  "handler E ev (Skip_Loop n) = skip_braces E ev n"
  by (simp_all add: handler_def)

definition passes :: "jsenv \<Rightarrow> window \<Rightarrow> tkn list \<Rightarrow> bool" where
  "passes E W ts \<longleftrightarrow> (\<forall>p F x H rest v b. st E W p F x H (ts @ rest) v \<and> 0 < b \<longrightarrow>
     (\<exists>v1. st E W p F x H rest v1 \<and> (\<forall>R w. runs E (Skip_Loop b) v1 R w \<longrightarrow> runs E (Skip_Loop b) v R w)))"

lemma passesD:
  assumes "passes E W ts" and "st E W p F x H (ts @ rest) v" and "0 < b"
  obtains v1 where "st E W p F x H rest v1" "\<And>R w. runs E (Skip_Loop b) v1 R w \<Longrightarrow> runs E (Skip_Loop b) v R w"
  using assms unfolding passes_def by blast

lemma passes_Nil [simp]: "passes E W []"
  unfolding passes_def by (intro allI impI) auto

lemma passes_append:
  assumes "passes E W ts" and "passes E W us"
  shows "passes E W (ts @ us)"
  unfolding passes_def
proof (intro allI impI)
  fix p F x H rest v b
  assume s: "st E W p F x H ((ts @ us) @ rest) v \<and> 0 < (b :: int)"
  then have v: "st E W p F x H (ts @ us @ rest) v" "0 < b" by simp_all
  obtain v1 where v1: "st E W p F x H (us @ rest) v1" "\<And>R w. runs E (Skip_Loop b) v1 R w \<Longrightarrow> runs E (Skip_Loop b) v R w"
    using passesD [OF assms(1) v] by blast
  obtain v2 where "st E W p F x H rest v2" "\<And>R w. runs E (Skip_Loop b) v2 R w \<Longrightarrow> runs E (Skip_Loop b) v1 R w"
    using passesD [OF assms(2) v1(1) v(2)] by blast
  then show "\<exists>v1. st E W p F x H rest v1 \<and> (\<forall>R w. runs E (Skip_Loop b) v1 R w \<longrightarrow> runs E (Skip_Loop b) v R w)"
    using v1(2) by blast
qed

lemma skip_token:
  assumes "st E W p F x H ((t, w) # rest) v" and "t \<noteq> BE_TOKEN_END" and "0 < b"
  shows "\<exists>v1. st E W p F x H rest v1 \<and> (\<forall>R u. runs E (Skip_Loop (b + (if t = TK 123 then 1 else if t = TK 125 then -1 else 0))) v1 R u \<longrightarrow>
    runs E (Skip_Loop b) v R u)"
proof -
  obtain v1 where v1: "st E W p F x H rest v1" "\<And>r k. need E t (r :: nat) k v = k v1"
    using st_need [OF assms(1)] by blast
  let ?b = "b + (if t = TK 123 then 1 else if t = TK 125 then -1 else 0)"
  have "tk v = t" using st_tk [OF assms(1)] by simp
  then have "runs E (Skip_Loop b) v R u" if "runs E (Skip_Loop ?b) v1 R u" for R u
    using assms(2,3) v1(2) by (intro runs1 [OF that]) (auto simp: skip_braces_def)
  then show ?thesis using v1(1) by blast
qed

lemma passes_token:
  assumes "t \<noteq> BE_TOKEN_END" and "t \<noteq> TK 123" and "t \<noteq> TK 125"
  shows "passes E W [(t, w)]"
  unfolding passes_def
proof (intro allI impI)
  fix p F x H rest v b
  assume "st E W p F x H ([(t, w)] @ rest) v \<and> (0 :: int) < b"
  then show "\<exists>v1. st E W p F x H rest v1 \<and> (\<forall>R w. runs E (Skip_Loop b) v1 R w \<longrightarrow> runs E (Skip_Loop b) v R w)"
    using skip_token [of E W p F x H t w rest v b] assms by simp
qed

lemma passes_Cons:
  assumes "t \<noteq> BE_TOKEN_END" and "t \<noteq> TK 123" and "t \<noteq> TK 125" and "passes E W ts"
  shows "passes E W ((t, w) # ts)"
  using passes_append [OF passes_token [OF assms(1-3)] assms(4)] by simp

lemma passes_braces:
  assumes "passes E W ts"
  shows "passes E W ((TK 123, []) # ts @ [(TK 125, [])])"
  unfolding passes_def
proof (intro allI impI)
  fix p F x H rest v b
  assume "st E W p F x H (((TK 123, []) # ts @ [(TK 125, [])]) @ rest) v \<and> (0 :: int) < b"
  then have v: "st E W p F x H ((TK 123, []) # ts @ (TK 125, []) # rest) v" "0 < b" by simp_all
  obtain v1 where v1: "st E W p F x H (ts @ (TK 125, []) # rest) v1"
    "\<And>R u. runs E (Skip_Loop (b + 1)) v1 R u \<Longrightarrow> runs E (Skip_Loop b) v R u"
    using skip_token [OF v(1) _ v(2)] by auto
  obtain v2 where v2: "st E W p F x H ((TK 125, []) # rest) v2"
    "\<And>R u. runs E (Skip_Loop (b + 1)) v2 R u \<Longrightarrow> runs E (Skip_Loop (b + 1)) v1 R u"
    using passesD [OF assms v1(1)] v(2) by (metis add_pos_pos zero_less_one)
  obtain v3 where "st E W p F x H rest v3" "\<And>R u. runs E (Skip_Loop b) v3 R u \<Longrightarrow> runs E (Skip_Loop (b + 1)) v2 R u"
    using skip_token [OF v2(1), of "b + 1"] v(2) by auto
  then show "\<exists>v1. st E W p F x H rest v1 \<and> (\<forall>R w. runs E (Skip_Loop b) v1 R w \<longrightarrow> runs E (Skip_Loop b) v R w)"
    using v1(2) v2(2) by blast
qed

lemma op_no_brace:
  assumes "mul_op op \<or> add_op op \<or> relational_op op \<or> bit_logic_op op \<or> shift_op op \<or> assignment_op op"
  shows "op \<noteq> BE_TOKEN_END" "op \<noteq> TK 123" "op \<noteq> TK 125"
  using assms by (auto simp: mul_op_def add_op_def relational_op_def bit_logic_op_def shift_op_def assignment_op_def)

lemma ex_passes: "ex_ok n e \<Longrightarrow> passes E W (ex_tokens e)"
proof (induction e arbitrary: n)
  case (Bin op a b)
  have op: "mul_op op \<or> add_op op \<or> relational_op op \<or> bit_logic_op op \<or> shift_op op \<or> assignment_op op"
    and "\<exists>i. ex_ok i a" "\<exists>i. ex_ok i b" using Bin.prems by (simp_all split: if_splits) blast+
  then have "passes E W (ex_tokens a)" "passes E W (ex_tokens b)" using Bin.IH by blast+
  then show ?case using passes_append [OF _ passes_Cons [OF op_no_brace [OF op]]] by simp
next
  case (Paren e)
  then have "passes E W (ex_tokens e)" by simp
  then show ?case by (simp add: passes_append passes_Cons)
next
  case (Cond c a b)
  then have "passes E W (ex_tokens c)" "passes E W (ex_tokens a)" "passes E W (ex_tokens b)" by auto
  then show ?case by (simp add: passes_append passes_Cons)
next
  case (Not e)
  then have "passes E W (ex_tokens e)" by auto
  then show ?case by (simp add: passes_Cons)
next
  case (Neg e)
  then have "passes E W (ex_tokens e)" by auto
  then show ?case by (simp add: passes_Cons)
qed (simp_all add: passes_token)

lemma st_passes: "st_ok s \<Longrightarrow> passes E W (st_tokens s)"
proof (induction s)
  case (Braces ss)
  have "list_all st_ok us \<Longrightarrow> set us \<subseteq> set ss \<Longrightarrow> passes E W (concat (map st_tokens us))" for us
    using Braces.IH by (induction us) (auto intro: passes_append)
  then show ?case using Braces.prems passes_braces by simp
next
  case (Assign w op e)
  then have "passes E W (ex_tokens e)" "op \<noteq> BE_TOKEN_END" "op \<noteq> TK 123" "op \<noteq> TK 125"
    using ex_passes op_no_brace [of op] by auto
  then show ?case by (simp add: passes_append passes_Cons passes_token)
next
  case (IfThen e s)
  then have "passes E W (ex_tokens e)" "passes E W (st_tokens s)" using ex_passes by auto
  then show ?case by (simp add: passes_append passes_Cons)
next
  case (While e s)
  then have "passes E W (ex_tokens e)" "passes E W (st_tokens s)" using ex_passes by auto
  then show ?case by (simp add: passes_append passes_Cons)
next
  case (IfElse e s t)
  then have "passes E W (ex_tokens e)" "passes E W (st_tokens s)" "passes E W (st_tokens t)" using ex_passes by auto
  then show ?case by (simp add: passes_append passes_Cons)
qed

lemma block_idle:
  assumes "passes E W ts" and "st E W p F 0 H ((TK 123, []) # ts @ (TK 125, []) # rest) v"
  shows "\<exists>v1. runs E Block v 0 v1 \<and> st E W p F 0 H rest v1"
proof -
  obtain v1 where v1: "st E W p F 0 H (ts @ (TK 125, []) # rest) v1" "\<And>r k. need E (TK 123) (r :: nat) k v = k v1"
    using st_need [OF assms(2)] by blast
  obtain v2 where v2: "st E W p F 0 H ((TK 125, []) # rest) v2"
    "\<And>R u. runs E (Skip_Loop 1) v2 R u \<Longrightarrow> runs E (Skip_Loop 1) v1 R u"
    using passesD [OF assms(1) v1(1), of 1] by auto
  obtain v3 where v3: "st E W p F 0 H rest v3" "\<And>R u. runs E (Skip_Loop 0) v3 R u \<Longrightarrow> runs E (Skip_Loop 1) v2 R u"
    using skip_token [OF v2(1), of 1] by auto
  have "runs E (Skip_Loop 0) v3 0 v3" by (intro runs0) (simp add: skip_braces_def)
  then have "runs E (Skip_Loop 1) v1 0 v3" using v2(2) v3(2) by blast
  moreover have "\<not> should_execute v1" using st_mode [OF v1(1)] by simp
  ultimately have "runs E Block v 0 v3"
    using v1(2) by (elim runs1) (simp add: handle_block_syntax_def)
  then show ?thesis using v3(1) by blast
qed

section \<open>Statements\<close>

text \<open>Between two statements nothing is held; a statement may return a reference.\<close>

definition between :: "jsenv \<Rightarrow> window \<Rightarrow> kid list \<Rightarrow> (byte list \<rightharpoonup> int) \<Rightarrow> nat \<Rightarrow> 32 word \<Rightarrow> tkn list \<Rightarrow> vm \<Rightarrow> bool" where
  "between E W ks rho n x ts v \<longleftrightarrow> (\<exists>p F. store_ok E p F ks rho n \<and> st E W p F x {#} ts v)"

definition returned :: "jsenv \<Rightarrow> window \<Rightarrow> kid list \<Rightarrow> (byte list \<rightharpoonup> int) \<Rightarrow> nat \<Rightarrow> 32 word \<Rightarrow> nat \<Rightarrow> tkn list \<Rightarrow> vm \<Rightarrow> bool" where
  "returned E W ks rho n x r ts v \<longleftrightarrow> (\<exists>p F k. store_ok E p F ks rho n \<and> st E W p F x {#(r, k)#} ts v)"

lemma between_returned: "between E W ks rho n x ts v \<Longrightarrow> returned E W ks rho n x 0 ts v"
  unfolding between_def returned_def using st_zero by blast

lemma returned_unlock:
  assumes "returned E W ks rho n x r ts v"
  shows "\<exists>v1. unlock r v = Some v1 \<and> between E W ks rho n x ts v1"
  using assms st_unlock unfolding between_def returned_def by blast

lemma between_tk: "between E W ks rho n x ts v \<Longrightarrow> tk v = first_tok ts"
  unfolding between_def using st_tk by blast

lemma returned_tk: "returned E W ks rho n x r ts v \<Longrightarrow> tk v = first_tok ts"
  unfolding returned_def using st_tk by blast

lemma between_need:
  assumes "between E W ks rho n x ((t, w) # ts) v"
  shows "\<exists>v1. between E W ks rho n x ts v1 \<and> (\<forall>r k. need E t (r :: nat) k v = k v1)"
  using assms st_need unfolding between_def by meson

lemma returned_need:
  assumes "returned E W ks rho n x r ((t, w) # ts) v"
  shows "\<exists>v1. returned E W ks rho n x r ts v1 \<and> (\<forall>r k. need E t (r :: nat) k v = k v1)"
  using assms st_need unfolding returned_def by meson

lemma between_exec: "between E W ks rho n x ts v \<Longrightarrow> vm_exec v = x"
  by (auto simp: between_def st_def)

lemma between_mode: "between E W ks rho n x ts v \<Longrightarrow> mode x \<Longrightarrow> should_execute v \<longleftrightarrow> x = 1"
  unfolding between_def using st_mode by blast

lemma between_error: "between E W ks rho n x ts v \<Longrightarrow> mode x \<Longrightarrow> \<not> be_vm_has_error v"
  unfolding between_def using st_error by blast

lemma between_idle: "between E W ks rho n x ts v \<Longrightarrow> mode x \<Longrightarrow> between E W ks rho n 0 ts (set_vm_idle v)"
  unfolding between_def using st_idle by blast

lemma between_restore: "between E W ks rho n 0 ts v \<Longrightarrow> mode x \<Longrightarrow> between E W ks rho n x ts (restore_exec x v)"
  unfolding between_def using st_restore by blast

text \<open>What a statement does as a whole, and where the function for statements stops.\<close>

definition outcome :: "32 word \<Rightarrow> (byte list \<rightharpoonup> int) \<Rightarrow> pstmt \<Rightarrow> (byte list \<rightharpoonup> int) \<Rightarrow> bool" where
  "outcome x rho s rho' \<longleftrightarrow> mode x \<and> (if x = 1 then st_run rho s = Some rho' else rho' = rho)"

definition follows :: "pstmt \<Rightarrow> tkn list \<Rightarrow> bool" where
  "follows s rest \<longleftrightarrow> first_tok rest \<noteq> TK 59 \<and> (closed_st s \<or> first_tok rest \<noteq> BE_TOKEN_KW_ELSE)"

definition st_does :: "jsenv \<Rightarrow> window \<Rightarrow> kid list \<Rightarrow> pstmt \<Rightarrow> bool" where
  "st_does E W ks s \<longleftrightarrow> (\<forall>x rho rho' n rest v. outcome x rho s rho' \<and> st_refs s \<le> n \<and> follows s rest \<and>
     between E W ks rho n x (st_tokens s @ rest) v \<longrightarrow>
     (\<exists>r v1. runs E Block_Or_Stmt v r v1 \<and> returned E W ks rho' n x r rest v1))"

definition st_end :: "pstmt \<Rightarrow> tkn list \<Rightarrow> tkn list" where
  "st_end s rest = (case s of Assign w op e \<Rightarrow> (TK 59, []) # rest | _ \<Rightarrow> rest)"

definition st_core :: "jsenv \<Rightarrow> window \<Rightarrow> kid list \<Rightarrow> pstmt \<Rightarrow> bool" where
  "st_core E W ks s \<longleftrightarrow> (\<forall>x rho rho' n rest v. outcome x rho s rho' \<and> st_refs s \<le> n \<and> follows s rest \<and>
     between E W ks rho n x (st_tokens s @ rest) v \<longrightarrow>
     (\<exists>r v1. runs E Stmt v r v1 \<and> returned E W ks rho' n x r (st_end s rest) v1))"

lemma st_doesD:
  assumes "st_does E W ks s" and "outcome x rho s rho'" and "st_refs s \<le> n" and "follows s rest"
    and "between E W ks rho n x (st_tokens s @ rest) v"
  shows "\<exists>r v1. runs E Block_Or_Stmt v r v1 \<and> returned E W ks rho' n x r rest v1"
  using assms unfolding st_does_def by blast

lemma st_coreD:
  assumes "st_core E W ks s" and "outcome x rho s rho'" and "st_refs s \<le> n" and "follows s rest"
    and "between E W ks rho n x (st_tokens s @ rest) v"
  shows "\<exists>r v1. runs E Stmt v r v1 \<and> returned E W ks rho' n x r (st_end s rest) v1"
  using assms unfolding st_core_def by blast

lemma st_first:
  "first_tok (st_tokens s @ rest) = (case s of Assign w op e \<Rightarrow> BE_TOKEN_ID | Braces ss \<Rightarrow> TK 123 | While e s \<Rightarrow> BE_TOKEN_KW_WHILE | _ \<Rightarrow> BE_TOKEN_KW_IF)"
  by (cases s) auto

lemma st_follows: "follows s (st_tokens u @ rest)" "follows s [(TK 125, [])]" "follows s ((TK 125, []) # rest)" "follows s []"
  by (simp_all add: follows_def st_first split: pstmt.splits)

lemma assign_core:
  assumes "st_ok (Assign w op e)"
  shows "st_core E W ks (Assign w op e)"
  unfolding st_core_def
proof (intro allI impI)
  fix x rho rho' n rest v
  let ?s = "Assign w op e"
  assume a: "outcome x rho ?s rho' \<and> st_refs ?s \<le> n \<and> follows ?s rest \<and>
     between E W ks rho n x (st_tokens ?s @ rest) v"
  then obtain p F where pF: "store_ok E p F ks rho n" "st E W p F x {#} (st_tokens ?s @ rest) v"
    by (auto simp: between_def)
  have r: "st_refs ?s \<le> n" and m: "mode x" using a by (auto simp: outcome_def)
  have "\<exists>r v1. runs E Base_Expr v r v1 \<and> returned E W ks rho' n x r (st_end ?s rest) v1"
  proof (cases "x = 1")
    case True
    then obtain k where "assigned rho w op e = Some k" "rho' = rho(w \<mapsto> k)" using a by (auto simp: outcome_def split: bind_splits)
    moreover have v: "st E W p F 1 {#} (st_tokens ?s @ rest) v" using pF(2) True by simp
    ultimately obtain i v1 p' F' where "runs E Base_Expr v i v1" "store_ok E p' F' ks rho' n"
      "st E W p' F' x {#(i, k)#} (st_end ?s rest) v1"
      using assign_runs [OF pF(1) v assms _ r] True by (auto simp: st_end_def)
    then show ?thesis unfolding returned_def by blast
  next
    case False
    then have x: "x = 0" "rho' = rho" using a m by (auto simp: outcome_def mode_def)
    have v: "st E W p F 0 {#} (st_tokens ?s @ rest) v" using pF(2) x by simp
    have so: "store_ok E p F ks rho n" by (rule pF(1))
    obtain i k v1 where "runs E Base_Expr v i v1" "st E W p F x {#(i, k)#} (st_end ?s rest) v1"
      using assign_idle [OF so v assms r] x by (auto simp: st_end_def)
    then show ?thesis using so x(2) unfolding returned_def by blast
  qed
  moreover have "statement_start (tk v)" using st_tk [OF pF(2)] by (simp add: statement_start_def)
  ultimately show "\<exists>r v1. runs E Stmt v r v1 \<and> returned E W ks rho' n x r (st_end ?s rest) v1"
    using stmt_expression by blast
qed

text \<open>From the function for statements to the one for statements or blocks, and to blocks.\<close>

lemma core_does:
  assumes "st_core E W ks s" and "\<not> (\<exists>ss. s = Braces ss)"
  shows "st_does E W ks s"
  unfolding st_does_def
proof (intro allI impI)
  fix x rho rho' n rest v
  assume a: "outcome x rho s rho' \<and> st_refs s \<le> n \<and> follows s rest \<and>
     between E W ks rho n x (st_tokens s @ rest) v"
  then obtain r v1 where v1: "runs E Stmt v r v1" "returned E W ks rho' n x r (st_end s rest) v1"
    using st_coreD [OF assms(1)] by blast
  have t: "tk v \<noteq> TK 123" using between_tk a assms(2) by (cases s) (auto simp: st_first)
  show "\<exists>r v1. runs E Block_Or_Stmt v r v1 \<and> returned E W ks rho' n x r rest v1"
  proof (cases "\<exists>w op e. s = Assign w op e")
    case True
    then have "returned E W ks rho' n x r ((TK 59, []) # rest) v1" using v1(2) by (auto simp: st_end_def)
    moreover from this obtain v2 where "returned E W ks rho' n x r rest v2" "\<And>r k. need E (TK 59) (r :: nat) k v1 = k v2"
      using returned_need by blast
    ultimately show ?thesis using t returned_tk [of E W ks rho' n x r "(TK 59, []) # rest" v1]
      by (intro exI [of _ r] exI [of _ v2] conjI runs1 [OF v1(1)]) (auto simp: handle_block_or_statement_def)
  next
    case False
    then have e: "st_end s rest = rest" by (simp add: st_end_def split: pstmt.split)
    then have "tk v1 \<noteq> TK 59" using returned_tk [OF v1(2)] a by (simp add: follows_def)
    then have "runs E Block_Or_Stmt v r v1" using t by (intro runs1 [OF v1(1)]) (simp add: handle_block_or_statement_def)
    then show ?thesis using v1(2) e by auto
  qed
qed

lemma core_flows:
  assumes "st_core E W ks s" and "outcome 1 rho s rho'" and "st_refs s \<le> n" and "follows s rest"
    and "between E W ks rho n 1 (st_tokens s @ rest) v"
  shows "\<exists>v1. between E W ks rho' n 1 rest v1 \<and> (\<forall>R w. runs E Block_Loop v1 R w \<longrightarrow> runs E Block_Loop v R w)"
proof -
  obtain r v1 where v1: "runs E Stmt v r v1" "returned E W ks rho' n 1 r (st_end s rest) v1"
    using st_coreD [OF assms] by blast
  obtain v2 where v2: "unlock r v1 = Some v2" "between E W ks rho' n 1 (st_end s rest) v2" using returned_unlock [OF v1(2)] by blast
  have t: "tk v \<noteq> BE_TOKEN_END" "tk v \<noteq> TK 125" using between_tk [OF assms(5)] by (simp_all add: st_first split: pstmt.splits)
  have go: "runs E Block_Loop v R w" if "runs E Block_Loop v2 R w" for R w
    using t v2(1) between_error [OF v2(2)] by (intro runs2 [OF v1(1) that]) (simp add: block_loop_def)
  show ?thesis
  proof (cases "\<exists>w op e. s = Assign w op e")
    case True
    then have b: "between E W ks rho' n 1 ((TK 59, []) # rest) v2" using v2(2) by (auto simp: st_end_def)
    then obtain v3 where v3: "between E W ks rho' n 1 rest v3" "\<And>r k. need E (TK 59) (r :: nat) k v2 = k v3"
      using between_need by blast
    have t2: "tk v2 = TK 59" using between_tk [OF b] by simp
    have s: "runs E Stmt v2 0 v3" using t2 v3(2) by (intro runs0) (simp add: handle_statement_syntax_def)
    have "runs E Block_Loop v2 R w" if "runs E Block_Loop v3 R w" for R w
      using t2 between_error [OF v3(1)] by (intro runs2 [OF s that]) (simp add: block_loop_def)
    then show ?thesis using v3(1) go by blast
  next
    case False
    then have e: "st_end s rest = rest" by (simp add: st_end_def split: pstmt.split)
    then show ?thesis using v2(2) go by auto
  qed
qed

section \<open>Conditionals and blocks\<close>

text \<open>A branch is executed or skipped.\<close>

lemma branch:
  assumes s: "st_does E W ks s" and m: "mode x" and o: "outcome (if live then x else 0) rho s rho'" and refs: "st_refs s \<le> n"
    and f: "follows s rest" and v: "between E W ks rho n x (st_tokens s @ rest) v"
  shows "\<exists>r w w1. runs E Block_Or_Stmt (if live then v else set_vm_idle v) r w \<and> unlock r w = Some w1 \<and>
    between E W ks rho' n x rest (if live then w1 else restore_exec (vm_exec v) w1) \<and> mode (vm_exec w1)"
proof -
  let ?x = "if live then x else 0" and ?v = "if live then v else set_vm_idle v"
  have "between E W ks rho n ?x (st_tokens s @ rest) ?v" using v between_idle [OF v m] by simp
  then obtain r w where w: "runs E Block_Or_Stmt ?v r w" "returned E W ks rho' n ?x r rest w"
    using st_doesD [OF s o refs f] by blast
  obtain w1 where w1: "unlock r w = Some w1" "between E W ks rho' n ?x rest w1" using returned_unlock [OF w(2)] by blast
  have "between E W ks rho' n x rest (if live then w1 else restore_exec (vm_exec v) w1)"
    using w1(2) between_restore [OF _ m] between_exec [OF v] by (cases live) auto
  moreover have "mode (vm_exec w1)" using between_exec [OF w1(2)] m by simp
  ultimately show ?thesis using w(1) w1(1) by blast
qed

definition else_part :: "jsenv \<Rightarrow> evaluator \<Rightarrow> bool \<Rightarrow> vm \<Rightarrow> (nat \<times> vm) option" where
  "else_part E ev cond v = do {
     let old = vm_exec v;
     (s, v) \<leftarrow> ev Block_Or_Stmt (if cond then set_vm_idle v else v);
     v \<leftarrow> unlock s v;
     Some (0, if cond then restore_exec old v else v)
   }"

definition then_part :: "jsenv \<Rightarrow> evaluator \<Rightarrow> bool \<Rightarrow> vm \<Rightarrow> (nat \<times> vm) option" where
  "then_part E ev cond v = do {
     let old = vm_exec v;
     (s, v) \<leftarrow> ev Block_Or_Stmt (if cond then v else set_vm_idle v);
     v \<leftarrow> unlock s v;
     let v = (if cond then v else restore_exec old v);
     if tk v = BE_TOKEN_KW_ELSE then need E BE_TOKEN_KW_ELSE 0 (else_part E ev cond) v else Some (0, v)
   }"

lemma condition_runs:
  assumes ok: "ex_ok 6 e" and m: "mode x" and k: "x = 1 \<Longrightarrow> ex_value rho e = Some k" and refs: "Suc (ex_refs e) \<le> n"
    and v: "between E W ks rho n x ((BE_TOKEN_KW_IF, str ''if'') # (TK 40, []) # ex_tokens e @ (TK 41, []) # rest) v"
  shows "\<exists>v0 r w v1. runs E Base_Expr v0 r w \<and> between E W ks rho n x rest v1 \<and>
    (\<forall>ev. ev Base_Expr v0 = Some (r, w) \<longrightarrow> if_statement E ev v = then_part E ev (x = 1 \<and> k \<noteq> 0) v1)"
proof -
  let ?t = "(TK 41, []) # rest"
  obtain p F where pF: "store_ok E p F ks rho n"
    "st E W p F x {#} ((BE_TOKEN_KW_IF, str ''if'') # (TK 40, []) # ex_tokens e @ ?t) v"
    using v by (auto simp: between_def)
  have fit: "fits p F n" using store_fits [OF pF(1)] .
  obtain v1 where v1: "st E W p F x {#} ((TK 40, []) # ex_tokens e @ ?t) v1" "\<And>r k. need E BE_TOKEN_KW_IF (r :: nat) k v = k v1"
    using st_need [OF pF(2)] by blast
  obtain v2 where v2: "st E W p F x {#} (ex_tokens e @ ?t) v2" "\<And>r k. need E (TK 40) (r :: nat) k v1 = k v2"
    using st_need [OF v1(1)] by blast
  have f1: "fits p F (size {#} + ex_refs e)" using fits_mono [OF fit] refs by simp
  obtain r j v3 where v3: "runs E Base_Expr v2 r v3" "st E W p F x (add_mset (r, j) {#}) ?t v3" "x = 1 \<Longrightarrow> r \<noteq> 0 \<and> j = k"
    using st_expression [OF store_env [OF pF(1)] ok m k f1 v2(1)] stop_tokens by auto
  obtain v4 where v4: "st E W p F x {#(r, j)#} rest v4" "\<And>r k. need E (TK 41) (r :: nat) k v3 = k v4"
    using st_need [OF v3(2)] by blast
  have f2: "fits p F (size {#(r, j)#} + 1)" using fits_mono [OF fit] refs ex_refs_pos [of e] by simp
  have "\<exists>v5. (if should_execute v4 then value_bool E r v4 else Some (False, v4)) = Some (x = 1 \<and> k \<noteq> 0, v5) \<and>
      st E W p F x {#(r, j)#} rest v5"
    using st_value_bool [OF v4(1) f2, of r j] v3(3) st_mode [OF v4(1) m] v4(1) by auto
  then obtain v5 where v5: "(if should_execute v4 then value_bool E r v4 else Some (False, v4)) = Some (x = 1 \<and> k \<noteq> 0, v5)"
    "st E W p F x {#(r, j)#} rest v5" by blast
  obtain v6 where v6: "unlock r v5 = Some v6" "st E W p F x {#} rest v6" using st_unlock [OF v5(2)] by blast
  have "tk v3 \<noteq> BE_TOKEN_KW_IN" using st_tk [OF v3(2)] by simp
  then have "if_statement E ev v = then_part E ev (x = 1 \<and> k \<noteq> 0) v6" if "ev Base_Expr v2 = Some (r, v3)" for ev
    using that v1(2) v2(2) v4(2) v5(1) v6(1)
    unfolding if_statement_def then_part_def else_part_def by (simp add: Let_def cong: if_cong)
  then show ?thesis using v3(1) v6(2) pF(1) unfolding between_def by blast
qed

lemma runs3:
  assumes "runs E j1 v1 r1 w1" and "runs E j2 v2 r2 w2" and "runs E j3 v3 r3 w3"
    and "\<And>ev. ev j1 v1 = Some (r1, w1) \<Longrightarrow> ev j2 v2 = Some (r2, w2) \<Longrightarrow> ev j3 v3 = Some (r3, w3) \<Longrightarrow> handler E ev j v = Some (r, v')"
  shows "runs E j v r v'"
  unfolding runs_handler using assms(1-3) unfolding runs_def
proof eventually_elim
  case (elim n)
  then show ?case by (rule assms(4))
qed

lemma if_value:
  assumes "outcome x rho (IfThen e s) rho' \<or> outcome x rho (IfElse e s t) rho'"
  shows "\<exists>k. x = 1 \<longrightarrow> ex_value rho e = Some k"
  using assms by (cases "ex_value rho e") (auto simp: outcome_def)

lemma if_stmt:
  assumes "runs E Base_Expr v0 r w" and "\<And>ev. ev Base_Expr v0 = Some (r, w) \<Longrightarrow> if_statement E ev v = then_part E ev c v1"
    and "tk v = BE_TOKEN_KW_IF" and "runs E Block_Or_Stmt (if c then v1 else set_vm_idle v1) s u" and "unlock s u = Some u1"
    and "u2 = (if c then u1 else restore_exec (vm_exec v1) u1)" and "tk u2 \<noteq> BE_TOKEN_KW_ELSE"
  shows "runs E Stmt v 0 u2"
  using assms(2,3,5-7) by (intro runs2 [OF assms(1,4)]) (simp add: handle_statement_syntax_def then_part_def)

lemma if_else_stmt:
  assumes "runs E Base_Expr v0 r w" and "\<And>ev. ev Base_Expr v0 = Some (r, w) \<Longrightarrow> if_statement E ev v = then_part E ev c v1"
    and "tk v = BE_TOKEN_KW_IF" and "runs E Block_Or_Stmt (if c then v1 else set_vm_idle v1) s u" and "unlock s u = Some u1"
    and "u2 = (if c then u1 else restore_exec (vm_exec v1) u1)" and "tk u2 = BE_TOKEN_KW_ELSE"
    and "\<And>r k. need E BE_TOKEN_KW_ELSE (r :: nat) k u2 = k u3"
    and "runs E Block_Or_Stmt (if \<not> c then u3 else set_vm_idle u3) s' y" and "unlock s' y = Some y1"
    and "y2 = (if \<not> c then y1 else restore_exec (vm_exec u3) y1)"
  shows "runs E Stmt v 0 y2"
proof -
  have n: "(if \<not> c then u3 else set_vm_idle u3) = (if c then set_vm_idle u3 else u3)" by simp
  show ?thesis
    using assms(2,3,5-8,10,11)
    by (intro runs3 [OF assms(1,4) assms(9) [unfolded n]]) (simp add: handle_statement_syntax_def then_part_def else_part_def)
qed

lemma if_core:
  assumes ok: "st_ok (IfThen e s)" and s: "st_does E W ks s"
  shows "st_core E W ks (IfThen e s)"
  unfolding st_core_def
proof (intro allI impI)
  fix x rho rho' n rest v
  let ?s = "IfThen e s"
  assume a: "outcome x rho ?s rho' \<and> st_refs ?s \<le> n \<and> follows ?s rest \<and>
     between E W ks rho n x (st_tokens ?s @ rest) v"
  then have m: "mode x" and f: "follows s rest" "first_tok rest \<noteq> BE_TOKEN_KW_ELSE" and eok: "ex_ok 6 e"
    and b: "between E W ks rho n x ((BE_TOKEN_KW_IF, str ''if'') # (TK 40, []) # ex_tokens e @ (TK 41, []) # st_tokens s @ rest) v"
    using ok by (auto simp: outcome_def follows_def)
  obtain k where k: "x = 1 \<Longrightarrow> ex_value rho e = Some k" using a if_value by blast
  let ?c = "x = 1 \<and> k \<noteq> 0"
  have refs: "Suc (ex_refs e) \<le> n" "st_refs s \<le> n" using a by auto
  obtain v0 r w v1 where v1: "runs E Base_Expr v0 r w" "between E W ks rho n x (st_tokens s @ rest) v1"
    "\<And>ev. ev Base_Expr v0 = Some (r, w) \<Longrightarrow> if_statement E ev v = then_part E ev ?c v1"
    using condition_runs [OF eok m k refs(1) b] by blast
  have o: "outcome (if ?c then x else 0) rho s rho'" using a k by (auto simp: outcome_def split: if_splits)
  obtain i u u1 where u: "runs E Block_Or_Stmt (if ?c then v1 else set_vm_idle v1) i u" "unlock i u = Some u1"
    "between E W ks rho' n x rest (if ?c then u1 else restore_exec (vm_exec v1) u1)"
    using branch [OF s m o refs(2) f(1) v1(2)] by blast
  have "tk (if ?c then u1 else restore_exec (vm_exec v1) u1) \<noteq> BE_TOKEN_KW_ELSE" using between_tk [OF u(3)] f(2) by simp
  moreover have "tk v = BE_TOKEN_KW_IF" using between_tk [OF b] by simp
  ultimately have "runs E Stmt v 0 (if ?c then u1 else restore_exec (vm_exec v1) u1)"
    using if_stmt [OF v1(1,3) _ u(1,2) refl] by blast
  then show "\<exists>r v1. runs E Stmt v r v1 \<and> returned E W ks rho' n x r (st_end ?s rest) v1"
    using between_returned [OF u(3)] by (auto simp: st_end_def)
qed

lemma if_else_core:
  assumes ok: "st_ok (IfElse e s t)" and s: "st_does E W ks s" and t: "st_does E W ks t"
  shows "st_core E W ks (IfElse e s t)"
  unfolding st_core_def
proof (intro allI impI)
  fix x rho rho' n rest v
  let ?s = "IfElse e s t" and ?else = "(BE_TOKEN_KW_ELSE, str ''else'') # st_tokens t @ rest"
  assume a: "outcome x rho ?s rho' \<and> st_refs ?s \<le> n \<and> follows ?s rest \<and>
     between E W ks rho n x (st_tokens ?s @ rest) v"
  then have m: "mode x" and f: "follows s ?else" "follows t rest" and eok: "ex_ok 6 e"
    and b: "between E W ks rho n x ((BE_TOKEN_KW_IF, str ''if'') # (TK 40, []) # ex_tokens e @ (TK 41, []) # st_tokens s @ ?else) v"
    using ok by (auto simp: outcome_def follows_def add.commute add.left_commute)
  obtain k where k: "x = 1 \<Longrightarrow> ex_value rho e = Some k" using a if_value by blast
  let ?c = "x = 1 \<and> k \<noteq> 0"
  have refs: "Suc (ex_refs e) \<le> n" "st_refs s \<le> n" "st_refs t \<le> n" using a by auto
  obtain v0 r w v1 where v1: "runs E Base_Expr v0 r w" "between E W ks rho n x (st_tokens s @ ?else) v1"
    "\<And>ev. ev Base_Expr v0 = Some (r, w) \<Longrightarrow> if_statement E ev v = then_part E ev ?c v1"
    using condition_runs [OF eok m k refs(1) b] by blast
  define rho1 where "rho1 = (if ?c then rho' else rho)"
  have o: "outcome (if ?c then x else 0) rho s rho1" "outcome (if \<not> ?c then x else 0) rho1 t rho'"
    using a m k by (auto simp: outcome_def rho1_def split: if_splits)
  obtain i u u1 where u: "runs E Block_Or_Stmt (if ?c then v1 else set_vm_idle v1) i u" "unlock i u = Some u1"
    "between E W ks rho1 n x ?else (if ?c then u1 else restore_exec (vm_exec v1) u1)"
    using branch [OF s m o(1) refs(2) f(1) v1(2)] by blast
  obtain u3 where u3: "between E W ks rho1 n x (st_tokens t @ rest) u3"
    "\<And>r k. need E BE_TOKEN_KW_ELSE (r :: nat) k (if ?c then u1 else restore_exec (vm_exec v1) u1) = k u3"
    using between_need [OF u(3)] by blast
  obtain i' y y1 where y: "runs E Block_Or_Stmt (if \<not> ?c then u3 else set_vm_idle u3) i' y" "unlock i' y = Some y1"
    "between E W ks rho' n x rest (if \<not> ?c then y1 else restore_exec (vm_exec u3) y1)"
    using branch [OF t m o(2) refs(3) f(2) u3(1)] by blast
  have "tk (if ?c then u1 else restore_exec (vm_exec v1) u1) = BE_TOKEN_KW_ELSE" using between_tk [OF u(3)] by simp
  moreover have "tk v = BE_TOKEN_KW_IF" using between_tk [OF b] by simp
  ultimately have "runs E Stmt v 0 (if \<not> ?c then y1 else restore_exec (vm_exec u3) y1)"
    using if_else_stmt [OF v1(1,3) _ u(1,2) refl _ u3(2) y(1,2) refl] by blast
  then show "\<exists>r v1. runs E Stmt v r v1 \<and> returned E W ks rho' n x r (st_end ?s rest) v1"
    using between_returned [OF y(3)] by (auto simp: st_end_def)
qed

text \<open>A block runs its statements in order.\<close>

lemma block_loop_runs:
  assumes "\<And>s. s \<in> set ss \<Longrightarrow> st_core E W ks s" and "seq_run rho ss = Some rho'" and "\<And>s. s \<in> set ss \<Longrightarrow> st_refs s \<le> n"
    and "between E W ks rho n 1 (concat (map st_tokens ss) @ (TK 125, []) # rest) v"
  shows "\<exists>v1. runs E Block_Loop v 0 v1 \<and> between E W ks rho' n 1 rest v1"
  using assms
proof (induction ss arbitrary: rho v)
  case Nil
  then have b: "between E W ks rho' n 1 ((TK 125, []) # rest) v" by simp
  obtain v1 where "between E W ks rho' n 1 rest v1" "\<And>r k. need E (TK 125) (r :: nat) k v = k v1" using between_need [OF b] by blast
  then show ?case using between_tk [OF b] by (intro exI [of _ v1] conjI runs0) (simp_all add: block_loop_def)
next
  case (Cons s ss)
  let ?rest = "concat (map st_tokens ss) @ (TK 125, []) # rest"
  obtain rho1 where rho1: "st_run rho s = Some rho1" "seq_run rho1 ss = Some rho'" using Cons.prems(2) by (auto split: bind_splits)
  have o: "outcome 1 rho s rho1" using rho1(1) by (simp add: outcome_def)
  have f: "follows s ?rest" by (cases ss) (simp_all add: st_follows)
  have b: "between E W ks rho n 1 (st_tokens s @ ?rest) v"
    using Cons.prems(4) by simp
  have "st_refs s \<le> n" using Cons.prems(3) [of s] by simp
  then obtain v1 where v1: "between E W ks rho1 n 1 ?rest v1"
    "\<And>R w. runs E Block_Loop v1 R w \<Longrightarrow> runs E Block_Loop v R w"
    using core_flows [OF Cons.prems(1) [of s] o _ f b] by auto
  obtain v2 where "runs E Block_Loop v1 0 v2" "between E W ks rho' n 1 rest v2"
    using Cons.IH [OF Cons.prems(1) rho1(2) Cons.prems(3) v1(1)] by auto
  then show ?case using v1(2) by blast
qed

lemma refs_of_block: "s \<in> set ss \<Longrightarrow> st_refs s \<le> st_refs (Braces ss)"
  by (induction ss) auto

lemma block_runs:
  assumes ok: "st_ok (Braces ss)" and cores: "\<And>s. s \<in> set ss \<Longrightarrow> st_core E W ks s" and o: "outcome x rho (Braces ss) rho'"
    and refs: "st_refs (Braces ss) \<le> n" and v: "between E W ks rho n x (st_tokens (Braces ss) @ rest) v"
  shows "\<exists>v1. runs E Block v 0 v1 \<and> between E W ks rho' n x rest v1"
proof (cases "x = 1")
  case True
  have b: "between E W ks rho n 1 ((TK 123, []) # concat (map st_tokens ss) @ (TK 125, []) # rest) v"
    using v True by simp
  obtain v1 where v1: "between E W ks rho n 1 (concat (map st_tokens ss) @ (TK 125, []) # rest) v1"
    "\<And>r k. need E (TK 123) (r :: nat) k v = k v1" using between_need [OF b] by blast
  have "st_refs s \<le> n" if "s \<in> set ss" for s using refs_of_block [OF that] refs by (rule order_trans)
  moreover have "seq_run rho ss = Some rho'" using o True by (simp add: outcome_def)
  ultimately obtain v2 where v2: "runs E Block_Loop v1 0 v2" "between E W ks rho' n 1 rest v2"
    using block_loop_runs [OF cores _ _ v1(1)] by blast
  have "runs E Block v 0 v2"
    using v1(2) between_mode [OF v1(1)] by (intro runs1 [OF v2(1)]) (simp add: handle_block_syntax_def)
  then show ?thesis using v2(2) True by auto
next
  case False
  then have x: "x = 0" "rho' = rho" using o by (auto simp: outcome_def mode_def)
  obtain p F where pF: "store_ok E p F ks rho n"
    "st E W p F 0 {#} ((TK 123, []) # concat (map st_tokens ss) @ (TK 125, []) # rest) v"
    using v x by (auto simp: between_def)
  have "list_all st_ok us \<Longrightarrow> passes E W (concat (map st_tokens us))" for us
    by (induction us) (auto intro: passes_append st_passes)
  then obtain v1 where "runs E Block v 0 v1" "st E W p F 0 {#} rest v1"
    using block_idle [OF _ pF(2)] ok by auto
  moreover have "store_ok E p F ks rho n" by (rule pF(1))
  ultimately show ?thesis using x unfolding between_def by blast
qed

section \<open>Loops\<close>

lemma between_lex: "between E W ks rho n x ts v \<Longrightarrow> reads W ts (vm_lex v)"
  by (auto simp: between_def st_def)

lemma between_switch: "between E W ks rho n x ts v \<Longrightarrow> reads P us l \<Longrightarrow> between E P ks rho n x us (v\<lparr>vm_lex := l\<rparr>)"
  by (auto simp: between_def st_def)

lemma unlock_lex: "unlock r v = Some v1 \<Longrightarrow> vm_lex v1 = vm_lex v"
  by (auto simp: unlock_def upd_pool_def map_option_case split: option.splits)

lemma cond_runs:
  assumes ok: "ex_ok 6 e" and m: "mode x" and k: "x = 1 \<Longrightarrow> ex_value rho e = Some k" and refs: "Suc (ex_refs e) \<le> n"
    and v: "between E W ks rho n x (ex_tokens e @ ts) v" and ts: "stops 6 (first_tok ts)"
  shows "\<exists>r w w1 w2. runs E Base_Expr v r w \<and> reads W ts (vm_lex w) \<and>
    (if should_execute w then value_bool E r w else Some (False, w)) = Some (x = 1 \<and> k \<noteq> 0, w1) \<and>
    unlock r w1 = Some w2 \<and> between E W ks rho n x ts w2"
proof -
  obtain p F where pF: "store_ok E p F ks rho n" "st E W p F x {#} (ex_tokens e @ ts) v" using v by (auto simp: between_def)
  have fit: "fits p F n" using store_fits [OF pF(1)] .
  have f1: "fits p F (size {#} + ex_refs e)" using fits_mono [OF fit] refs by simp
  obtain r j w where w: "runs E Base_Expr v r w" "st E W p F x (add_mset (r, j) {#}) ts w" "x = 1 \<Longrightarrow> r \<noteq> 0 \<and> j = k"
    using st_expression [OF store_env [OF pF(1)] ok m k f1 pF(2) ts] by auto
  have f2: "fits p F (size {#(r, j)#} + 1)" using fits_mono [OF fit] refs ex_refs_pos [of e] by simp
  have "\<exists>w1. (if should_execute w then value_bool E r w else Some (False, w)) = Some (x = 1 \<and> k \<noteq> 0, w1) \<and>
      st E W p F x {#(r, j)#} ts w1"
    using st_value_bool [OF w(2) f2, of r j] w(3) st_mode [OF w(2) m] w(2) by auto
  then obtain w1 where w1: "(if should_execute w then value_bool E r w else Some (False, w)) = Some (x = 1 \<and> k \<noteq> 0, w1)"
    "st E W p F x {#(r, j)#} ts w1" by blast
  obtain w2 where w2: "unlock r w1 = Some w2" "st E W p F x {#} ts w2" using st_unlock [OF w1(2)] by blast
  have "reads W ts (vm_lex w)" using w(2) by (simp add: st_def)
  then show ?thesis using w(1) w1(1) w2 pF(1) unfolding between_def by blast
qed

text \<open>A part is evaluated from its start.\<close>

lemma part_start:
  assumes "between E W ks rho n x ts v" and "reads P us m" and "w_tokens P = ps"
  shows "\<exists>l. be_jse_lexer_reset (e_oob E) m = Some l \<and> between E P ks rho n x ps (v\<lparr>vm_lex := l\<rparr>)"
  using reads_reset [OF assms(2), of "e_oob E"] between_switch [OF assms(1)] assms(3) by blast

lemma normal_after: "mode (vm_exec v) \<Longrightarrow> after_body had v = (had, v)"
  by (auto simp: after_body_def mode_def)

lemma loop_handler [simp]:
  "handler E ev (While_Loop cl bl ol c h k) = while_loop E ev cl bl ol c h k"
  by (simp add: handler_def)

lemma loop_ends:
  assumes "between E P ks rho n x us v" and "reads W ts ol" and "0 < cnt"
  shows "runs E (While_Loop cl bl ol False False cnt) v 0 (v\<lparr>vm_lex := ol\<rparr>) \<and> between E W ks rho n x ts (v\<lparr>vm_lex := ol\<rparr>)"
  using between_switch [OF assms(1,2)] assms(3) by (auto intro!: runs0 simp: while_loop_def Let_def)

text \<open>From a state before the condition the loop takes as many rounds as the abstract one.\<close>

lemma while_rounds:
  assumes ok: "ex_ok 6 e" "Suc (ex_refs e) \<le> n" "st_refs s \<le> n" and body: "\<And>P. st_does E P ks s"
    and parts: "w_tokens C = ex_tokens e" "w_tokens B = st_tokens s" and old: "reads W rest ol"
    and it: "iterate m (\<lambda>r. ex_value r e) (\<lambda>r. st_run r s) rho = Some rho'"
    and v: "between E P ks rho n 1 ts v" "reads C cs cl" "reads B bs bl" and cnt: "int m + 1 < cnt"
  shows "\<exists>v1. runs E (While_Loop cl bl ol True False cnt) v 0 v1 \<and> between E W ks rho' n 1 rest v1"
  using it v cnt
proof (induction m arbitrary: rho v cl bl cs bs ts cnt P)
  case 0
  then obtain k where k: "ex_value rho e = Some k" "k = 0" "rho' = rho" by (auto split: bind_splits if_splits)
  obtain l where l: "be_jse_lexer_reset (e_oob E) cl = Some l" "between E C ks rho n 1 (ex_tokens e) (v\<lparr>vm_lex := l\<rparr>)"
    using part_start [OF 0(2,3) parts(1)] by blast
  obtain r w w1 w2 where w: "runs E Base_Expr (v\<lparr>vm_lex := l\<rparr>) r w"
    "(if should_execute w then value_bool E r w else Some (False, w)) = Some (False, w1)" "unlock r w1 = Some w2"
    "between E C ks rho n 1 [] w2"
    using cond_runs [OF ok(1) mode_simps(2) _ ok(2), of rho k E C ks "[]" "v\<lparr>vm_lex := l\<rparr>"] l(2) k stop_tokens by auto
  have c: "0 < cnt - 1" "0 < cnt" using 0(5) by simp_all
  note z = loop_ends [OF w(4) old c(1), of "vm_lex w" bl]
  have "runs E (While_Loop cl bl ol True False cnt) v 0 (w2\<lparr>vm_lex := ol\<rparr>)"
    using l(1) w(2,3) c by (intro runs2 [OF w(1) conjunct1 [OF z]]) (simp add: while_loop_def run_part_def)
  then show ?case using z k(3) by blast
next
  case (Suc m)
  then obtain k where k: "ex_value rho e = Some k" by (auto split: bind_splits)
  obtain l where l: "be_jse_lexer_reset (e_oob E) cl = Some l" "between E C ks rho n 1 (ex_tokens e) (v\<lparr>vm_lex := l\<rparr>)"
    using part_start [OF Suc.prems(2,3) parts(1)] by blast
  obtain r w w1 w2 where w: "runs E Base_Expr (v\<lparr>vm_lex := l\<rparr>) r w" "reads C [] (vm_lex w)"
    "(if should_execute w then value_bool E r w else Some (False, w)) = Some (k \<noteq> 0, w1)" "unlock r w1 = Some w2"
    "between E C ks rho n 1 [] w2"
    using cond_runs [OF ok(1) mode_simps(2) _ ok(2), of rho k E C ks "[]" "v\<lparr>vm_lex := l\<rparr>"] l(2) k stop_tokens by auto
  have c: "0 < cnt - 1" "0 < cnt" "int m + 1 < cnt - 1" using Suc.prems(5) by simp_all
  show ?case
  proof (cases "k = 0")
    case True
    note z = loop_ends [OF w(5) old c(1), of "vm_lex w" bl]
    have "runs E (While_Loop cl bl ol True False cnt) v 0 (w2\<lparr>vm_lex := ol\<rparr>)"
      using l(1) w(3,4) c True by (intro runs2 [OF w(1) conjunct1 [OF z]]) (simp add: while_loop_def run_part_def)
    moreover have "rho' = rho" using Suc.prems(1) k True by simp
    ultimately show ?thesis using z by blast
  next
    case False
    obtain rho1 where rho1: "st_run rho s = Some rho1" "iterate m (\<lambda>r. ex_value r e) (\<lambda>r. st_run r s) rho1 = Some rho'"
      using Suc.prems(1) k False by (auto split: bind_splits)
    obtain l2 where l2: "be_jse_lexer_reset (e_oob E) bl = Some l2" "between E B ks rho n 1 (st_tokens s) (w2\<lparr>vm_lex := l2\<rparr>)"
      using part_start [OF w(5) Suc.prems(4) parts(2)] by blast
    have o: "outcome 1 rho s rho1" using rho1(1) by (simp add: outcome_def)
    obtain i y where y: "runs E Block_Or_Stmt (w2\<lparr>vm_lex := l2\<rparr>) i y" "returned E B ks rho1 n 1 i [] y"
      using st_doesD [OF body [of B] o ok(3) st_follows(4), of "w2\<lparr>vm_lex := l2\<rparr>"] l2(2) by auto
    obtain y1 where y1: "unlock i y = Some y1" "between E B ks rho1 n 1 [] y1" using returned_unlock [OF y(2)] by blast
    have yl: "reads B [] (vm_lex y)" using y(2) by (auto simp: returned_def st_def)
    obtain v1 where v1: "runs E (While_Loop (vm_lex w) (vm_lex y) ol True False (cnt - 1)) y1 0 v1" "between E W ks rho' n 1 rest v1"
      using Suc.IH [OF rho1(2) y1(2) w(2) yl c(3)] by blast
    have "mode (vm_exec y1)" using between_exec [OF y1(2)] by simp
    then have "runs E (While_Loop cl bl ol True False cnt) v 0 v1"
      using l(1) w(3,4) c False l2(1) y1(1)
      by (intro runs3 [OF w(1) y(1) v1(1)]) (simp add: while_loop_def run_part_def normal_after)
    then show ?thesis using v1(2) by blast
  qed
qed

lemma while_stmt:
  assumes "runs E Base_Expr v2 r w" and "runs E Block_Or_Stmt (if c then v3 else set_vm_idle v3) i u"
    and "runs E (While_Loop cl bl (vm_lex u2) c False 8192) u2 0 z"
    and "tk v = BE_TOKEN_KW_WHILE" and "\<And>r k. need E BE_TOKEN_KW_WHILE (r :: nat) k v = k v1" and "\<And>r k. need E (TK 40) (r :: nat) k v1 = k v2"
    and "(if should_execute w then value_bool E r w else Some (False, w)) = Some (c, w1)" and "unlock r w1 = Some w2"
    and "copy_lexer E (token_start (vm_lex v2)) w2 = Some cl" and "\<And>r k. need E (TK 41) (r :: nat) k w2 = k v3"
    and "unlock i u = Some u1" and "after_body False u1 = (False, u1)" and "u2 = (if c then u1 else restore_exec (vm_exec v3) u1)"
    and "copy_lexer E (token_start (vm_lex v3)) u2 = Some bl"
  shows "runs E Stmt v 0 z"
  using assms(4-) by (intro runs3 [OF assms(1-3)]) (simp add: handle_statement_syntax_def while_statement_def first_body_def Let_def cong: if_cong)

lemma part_of:
  assumes "between E W ks rho n x (ts @ us) v" and "between E W ks' rho' n' x' us w" and "ts \<noteq> []"
  shows "\<exists>P m. copy_lexer E (token_start (vm_lex v)) w = Some m \<and> reads P ts m \<and> w_tokens P = ts"
  unfolding copy_lexer_def using reads_part [OF between_lex [OF assms(1)] between_lex [OF assms(2)] assms(3)] by blast

lemma ex_tokens_not_empty: "ex_tokens e \<noteq> []"
  by (induction e) simp_all

lemma st_tokens_not_empty: "st_tokens s \<noteq> []"
  by (cases s) simp_all

lemma while_core:
  assumes ok: "st_ok (While e s)" and s: "\<And>P. st_does E P ks s"
  shows "st_core E W ks (While e s)"
  unfolding st_core_def
proof (intro allI impI)
  fix x rho rho' n rest v
  let ?s = "While e s" and ?t = "(TK 41, []) # st_tokens s @ rest"
  assume a: "outcome x rho ?s rho' \<and> st_refs ?s \<le> n \<and> follows ?s rest \<and>
     between E W ks rho n x (st_tokens ?s @ rest) v"
  then have m: "mode x" and f: "follows s rest" and eok: "ex_ok 6 e" and refs: "Suc (ex_refs e) \<le> n" "st_refs s \<le> n"
    and b: "between E W ks rho n x ((BE_TOKEN_KW_WHILE, str ''while'') # (TK 40, []) # ex_tokens e @ ?t) v"
    using ok by (auto simp: outcome_def follows_def)
  have it: "iterate (Suc 8190) (\<lambda>r. ex_value r e) (\<lambda>r. st_run r s) rho = Some rho'" if "x = 1"
    using a that by (simp add: outcome_def)
  then have "\<exists>k. x = 1 \<longrightarrow> ex_value rho e = Some k" by (cases "ex_value rho e"; cases "x = 1") (auto simp: eval_nat_numeral)
  then obtain k where k: "x = 1 \<Longrightarrow> ex_value rho e = Some k" by blast
  let ?c = "x = 1 \<and> k \<noteq> 0"
  have z: "rho' = rho" if "x = 1" "k = 0" using it [unfolded iterate.simps] k that by simp
  obtain v1 where v1: "between E W ks rho n x ((TK 40, []) # ex_tokens e @ ?t) v1" "\<And>r k. need E BE_TOKEN_KW_WHILE (r :: nat) k v = k v1"
    using between_need [OF b] by blast
  obtain v2 where v2: "between E W ks rho n x (ex_tokens e @ ?t) v2" "\<And>r k. need E (TK 40) (r :: nat) k v1 = k v2"
    using between_need [OF v1(1)] by blast
  obtain r w w1 w2 where w: "runs E Base_Expr v2 r w"
    "(if should_execute w then value_bool E r w else Some (False, w)) = Some (?c, w1)" "unlock r w1 = Some w2" "between E W ks rho n x ?t w2"
    using cond_runs [OF eok m k refs(1) v2(1)] stop_tokens by auto
  obtain C cl where cl: "copy_lexer E (token_start (vm_lex v2)) w2 = Some cl" "reads C (ex_tokens e) cl" "w_tokens C = ex_tokens e"
    using part_of [OF v2(1) w(4) ex_tokens_not_empty] by blast
  obtain v3 where v3: "between E W ks rho n x (st_tokens s @ rest) v3" "\<And>r k. need E (TK 41) (r :: nat) k w2 = k v3"
    using between_need [OF w(4)] by blast
  obtain rho1 where o: "outcome (if ?c then x else 0) rho s rho1"
    and rho1: "if ?c then iterate 8190 (\<lambda>r. ex_value r e) (\<lambda>r. st_run r s) rho1 = Some rho' else rho' = rho \<and> rho1 = rho"
  proof (cases ?c)
    case True
    then obtain rho1 where "st_run rho s = Some rho1" "iterate 8190 (\<lambda>r. ex_value r e) (\<lambda>r. st_run r s) rho1 = Some rho'"
      using it [unfolded iterate.simps] k by (auto split: bind_splits)
    then show ?thesis using that [of rho1] True by (simp add: outcome_def)
  next
    case False
    then have "rho' = rho" using a z m by (auto simp: outcome_def mode_def)
    then show ?thesis using that [of rho] False by (simp add: outcome_def)
  qed
  obtain i u u1 where u: "runs E Block_Or_Stmt (if ?c then v3 else set_vm_idle v3) i u" "unlock i u = Some u1"
    "between E W ks rho1 n x rest (if ?c then u1 else restore_exec (vm_exec v3) u1)" "mode (vm_exec u1)"
    using branch [OF s m o refs(2) f v3(1)] by blast
  define u2 where "u2 = (if ?c then u1 else restore_exec (vm_exec v3) u1)"
  have bu: "between E W ks rho1 n x rest u2" using u(3) by (simp add: u2_def)
  obtain B bl where bl: "copy_lexer E (token_start (vm_lex v3)) u2 = Some bl" "reads B (st_tokens s) bl" "w_tokens B = st_tokens s"
    using part_of [OF v3(1) bu st_tokens_not_empty] by blast
  have "\<exists>z. runs E (While_Loop cl bl (vm_lex u2) ?c False 8192) u2 0 z \<and> between E W ks rho' n x rest z"
  proof (cases ?c)
    case True
    then have it: "iterate 8190 (\<lambda>r. ex_value r e) (\<lambda>r. st_run r s) rho1 = Some rho'" "x = 1" using rho1 by simp_all
    have b1: "between E W ks rho1 n 1 rest u2" using bu it(2) by simp
    show ?thesis
      using while_rounds [OF eok refs s cl(3) bl(3) between_lex [OF b1] it(1) b1 cl(2) bl(2), of 8192] True by auto
  next
    case False
    then show ?thesis using loop_ends [OF bu between_lex [OF bu], of 8192 cl bl] rho1 by auto
  qed
  then obtain z where z: "runs E (While_Loop cl bl (vm_lex u2) ?c False 8192) u2 0 z" "between E W ks rho' n x rest z" by blast
  have "runs E Stmt v 0 z"
    using while_stmt [OF w(1) u(1) z(1) _ v1(2) v2(2) w(2,3) cl(1) v3(2) u(2) normal_after [OF u(4)] u2_def bl(1)] between_tk [OF b] by simp
  then show "\<exists>r v1. runs E Stmt v r v1 \<and> returned E W ks rho' n x r (st_end ?s rest) v1"
    using between_returned [OF z(2)] by (auto simp: st_end_def)
qed

lemma statements_run: "st_ok s \<Longrightarrow> st_core E W ks s \<and> st_does E W ks s"
proof (induction s arbitrary: W)
  case (Assign w op e)
  then show ?case using assign_core core_does by blast
next
  case (IfThen e s)
  then show ?case using if_core core_does by fastforce
next
  case (IfElse e s t)
  then show ?case using if_else_core core_does by fastforce
next
  case (While e s)
  then have "\<And>P. st_does E P ks s" by simp
  then show ?case using while_core [OF While.prems] core_does by blast
next
  case (Braces ss)
  then have cores: "\<And>s. s \<in> set ss \<Longrightarrow> st_core E W ks s" by (auto simp: list_all_iff)
  have b: "\<exists>v1. runs E Block v 0 v1 \<and> returned E W ks rho' n x 0 rest v1 \<and> tk v = TK 123"
    if "outcome x rho (Braces ss) rho' \<and> st_refs (Braces ss) \<le> n \<and> follows (Braces ss) rest \<and>
     between E W ks rho n x (st_tokens (Braces ss) @ rest) v" for x rho rho' n rest v
    using block_runs [OF Braces.prems cores] that between_returned between_tk by fastforce
  have s: "runs E Stmt v 0 v1 \<and> runs E Block_Or_Stmt v 0 v1" if "runs E Block v 0 v1" "tk v = TK 123" for v v1
    using that(2) runs1 [OF that(1)] by (simp add: handle_statement_syntax_def handle_block_or_statement_def)
  have "st_end (Braces ss) rest = rest" for rest by (simp add: st_end_def)
  then show ?case unfolding st_core_def st_does_def using b s by metis
qed

section \<open>Programs\<close>

lemma store_frame:
  assumes "store_ok E p F ks rho n" and "\<And>i. i \<notin> F \<Longrightarrow> i \<noteq> 0 \<Longrightarrow> tab q i = tab p i"
  shows "store_ok E q F ks rho n"
proof -
  let ?root = "ctx_root (e_ctx E)"
  note s = assms(1) [unfolded store_ok_def]
  note g = conjunct1 [OF s, unfolded globals_def]
  have k0: "kids p (s_first (tab p ?root)) ks" "?root \<noteq> 0" using g by (auto simp: object_at_def)
  have kt: "tab q i = tab p i" if "i \<in> set (kid_nodes ks)" for i
    using assms(2) [of i] that kid_node_flags(3) [OF k0(1) that] g by auto
  have rt: "tab q ?root = tab p ?root" using assms(2) [of ?root] k0(2) g by auto
  have ia: "int_at p F i k \<Longrightarrow> int_at q F i k" for i k using assms(2) [of i] by (auto simp: int_at_def)
  have va: "var_at p F i k \<Longrightarrow> var_at q F i k" for i k using assms(2) [of i] ia by (auto simp: var_at_def)
  have "object_at q ?root ks" using object_frame [of p ?root ks q] g kt rt by simp
  moreover have "\<exists>i js. find_kid name ks = Some (i, js, name) \<and> var_at q F i k" if "rho name = Some k" for name k
    using g that va by blast
  ultimately have gl: "globals q F ?root ks rho" using g rt by (auto simp: globals_def)
  have ref: "referrers q ks i = referrers p ks i" for i
    unfolding referrers_def using kt kid_heads by (metis (no_types, lifting))
  have pr: "privates q ks = privates p ks"
  proof (rule set_eqI)
    fix i
    have "i \<notin> F" if "referrers p ks i \<noteq> {}" using that s by (auto simp: referrers_def)
    then show "i \<in> privates q ks \<longleftrightarrow> i \<in> privates p ks"
      using assms(2) [of i] by (cases "referrers p ks i = {}"; cases "i = 0") (simp_all add: privates_def ref)
  qed
  have hd: "\<forall>a\<in>fst ` set ks. s_first (tab q a) \<notin> F" using s kt kid_heads by metis
  show ?thesis
    unfolding store_ok_def ref pr using gl hd s ia assms(2) by auto
qed

lemma top_runs:
  assumes "list_all st_ok ss" and "seq_run rho ss = Some rho'" and "\<And>s. s \<in> set ss \<Longrightarrow> st_refs s \<le> n"
    and "returned E W ks rho n 1 i (concat (map st_tokens ss)) v"
  shows "\<exists>r v1. eventually (\<lambda>m. \<forall>k>length ss. top_loop E m k i v = Some (r, v1)) sequentially \<and> returned E W ks rho' n 1 r [] v1"
  using assms
proof (induction ss arbitrary: rho i v)
  case Nil
  then have "tk v = BE_TOKEN_END" using returned_tk by fastforce
  then have "top_loop E m k i v = Some (i, v)" if "0 < k" for m k using that by (cases k) simp_all
  then show ?case using Nil by (auto intro!: exI [of _ i] exI [of _ v])
next
  case (Cons s ss)
  let ?rest = "concat (map st_tokens ss)"
  obtain rho1 where rho1: "st_run rho s = Some rho1" "seq_run rho1 ss = Some rho'" using Cons.prems(2) by (auto split: bind_splits)
  have o: "outcome 1 rho s rho1" using rho1(1) by (simp add: outcome_def)
  have f: "follows s ?rest" by (cases ss) (simp_all add: st_follows)
  have b: "returned E W ks rho n 1 i (st_tokens s @ ?rest) v"
    using Cons.prems(4) by simp
  obtain v1 where v1: "unlock i v = Some v1" "between E W ks rho n 1 (st_tokens s @ ?rest) v1"
    using returned_unlock [OF b] by blast
  have "st_does E W ks s" using statements_run Cons.prems(1) by simp
  moreover have "st_refs s \<le> n" using Cons.prems(3) [of s] by simp
  ultimately obtain r v2 where v2: "runs E Block_Or_Stmt v1 r v2" "returned E W ks rho1 n 1 r ?rest v2"
    using st_doesD [OF _ o _ f v1(2)] by blast
  obtain r' v3 where v3: "eventually (\<lambda>m. \<forall>k>length ss. top_loop E m k r v2 = Some (r', v3)) sequentially"
    "returned E W ks rho' n 1 r' [] v3"
    using Cons.IH [OF _ rho1(2) _ v2(2)] Cons.prems(1,3) by auto
  have e: "\<not> be_vm_has_error v" using b st_error by (auto simp: returned_def)
  have t: "tk v \<noteq> BE_TOKEN_END" using returned_tk [OF b] by (simp add: st_first split: pstmt.splits)
  have "eventually (\<lambda>m. handle_block_or_statement E (exec E m) v1 = Some (r, v2)) sequentially"
    using v2(1) [unfolded runs_handler] by simp
  from this v3(1) have "eventually (\<lambda>m. \<forall>k>length (s # ss). top_loop E m k i v = Some (r', v3)) sequentially"
  proof eventually_elim
    case (elim m)
    have "top_loop E m k i v = Some (r', v3)" if "length (s # ss) < k" for k
      using that elim e t v1(1) by (cases k) simp_all
    then show ?case by blast
  qed
  then show ?case using v3(2) by blast
qed

lemma run_program:
  assumes store: "store_ok E (vm_pool old) F ks rho n" and room: "room F (vm_pool old)"
    and src: "source_ok xs" "map (\<lambda>(gs, x). (lexeme_tok x, lexeme_bytes x)) xs = concat (map st_tokens ss)"
    and ok: "list_all st_ok ss" "seq_run rho ss = Some rho'" "\<And>s. s \<in> set ss \<Longrightarrow> st_refs s \<le> n" "2 \<le> n"
  shows "\<exists>v F'. eventually (\<lambda>m. jsengine_start E m (source_text xs) old = Some v) sequentially \<and>
    store_ok E (vm_pool v) F' ks rho' n \<and> room F' (vm_pool v) \<and> vm_scopes v = vm_scopes old \<and> vm_lex v = vm_lex old"
proof -
  obtain l where l: "be_jse_lexer_init (e_oob E) (e_junk E) (Some (source_text xs)) 0 (-1) = Some l"
    "st E (whole xs) (vm_pool old) F 1 {#} (concat (map st_tokens ss)) (be_jse_vm_init l old)" using eval_start [OF src room] by blast
  have "between E (whole xs) ks rho n 1 (concat (map st_tokens ss)) (be_jse_vm_init l old)"
    using l(2) store unfolding between_def by blast
  from top_runs [OF ok(1-3) between_returned [OF this]] obtain r v1 where
    t: "eventually (\<lambda>m. \<forall>k>length ss. top_loop E m k 0 (be_jse_vm_init l old) = Some (r, v1)) sequentially"
    "returned E (whole xs) ks rho' n 1 r [] v1" by blast
  then obtain p F' k where pF: "store_ok E p F' ks rho' n" "st E (whole xs) p F' 1 {#(r, k)#} [] v1" by (auto simp: returned_def)
  obtain v2 where v2: "leave_vm old v1 = Some v2" "vm_pool v2 = vm_pool v1" "vm_scopes v2 = vm_scopes old" "vm_lex v2 = vm_lex old"
    using pF(2) by (auto simp: leave_vm_def st_def)
  have i: "ints p F' {#(r, k)#} (vm_pool v2)" using pF(2) v2(2) by (simp add: st_def)
  have f: "fits p F' (size {#(r, k)#} + 1)" using store_fits [OF pF(1)] ok(4) fits_mono [of p F' n "size {#(r, k)#} + 1"] by simp
  obtain c q where c: "get_symbol_value r (vm_pool v2) = Some (c, q)" "c = 0 \<longleftrightarrow> r = 0" "ints p F' (add_mset (c, k) {#(r, k)#}) q"
    using ints_value [OF i f, of r k] by auto
  have "ints p F' (add_mset (r, k) {#(c, k)#}) q" using c(3) by (simp add: add_mset_commute)
  then obtain q1 where q1: "symbol_unlock r q = Some q1" "ints p F' (add_mset (c, k) {#}) q1" using ints_unlock by blast
  obtain q2 where q2: "symbol_unlock c q1 = Some q2" "ints p F' {#} q2" using ints_unlock [OF q1(2)] by blast
  obtain q3 where q3: "symbol_unlock r (vm_pool v2) = Some q3" "ints p F' {#} q3" using ints_unlock i by blast
  define v where "v = (if r = 0 then v2 else v2\<lparr>vm_pool := q2\<rparr>)"
  have iv: "ints p F' {#} (vm_pool v)" using q2(2) q3 by (cases "r = 0") (auto simp: v_def)
  have start: "eventually (\<lambda>m. jsengine_start E m (source_text xs) old = Some v) sequentially"
    using t(1) eventually_gt_at_top [of "length ss"]
  proof eventually_elim
    case (elim m)
    then have "top_loop E m m 0 (be_jse_vm_init l old) = Some (r, v1)" by blast
    then show ?case
      using c q1(1) q2(1) by (simp add: jsengine_start_def be_jse_eval_string_def l(1) v2(1) ask_pool_def unlock_symbol_value_def
          unlock_def upd_pool_def v_def)
  qed
  have tv: "\<And>i. i \<notin> F' \<Longrightarrow> i \<noteq> 0 \<Longrightarrow> tab (vm_pool v) i = tab p i" using iv by (simp add: ints_def)
  have "store_ok E (vm_pool v) F' ks rho' n" using store_frame [OF pF(1) tv] by blast
  moreover have "room F' (vm_pool v)" using iv by (simp add: ints_def)
  moreover have "vm_scopes v = vm_scopes old" "vm_lex v = vm_lex old" using v2 by (simp_all add: v_def)
  ultimately show ?thesis using start by blast
qed

end
