(* ===== verification/Exec_Demo.thy ===== *)
theory Exec_Demo
  imports Exec_Prog
begin

text \<open>
  A concrete program of the lite engine and a symbol table to run it on: nodes 1 to 40 are
  free, node 100 is the root object, 101 the shared zero, 102 and 103 are the names x and
  y, and 104 and 105 their values.
\<close>

definition js_free :: "nat list" where
  "js_free = [1..<41]"

definition js_name :: "byte \<Rightarrow> nat \<Rightarrow> nat \<Rightarrow> sym" where
  "js_name c next val = zero_sym\<lparr>s_flags := BE_SYM_STRING OR BE_SYM_NAME, s_refs := 1, s_data := c # replicate 7 0,
     s_next := next, s_first := val\<rparr>"

definition js_int :: "int \<Rightarrow> sym" where
  "js_int k = zero_sym\<lparr>s_flags := BE_SYM_INTEGER, s_refs := 1, s_data := le64 k\<rparr>"

definition js_pool :: sympool where
  "js_pool = \<lparr>tab = (\<lambda>i. if i = 100 then zero_sym\<lparr>s_flags := BE_SYM_ROOT, s_refs := 1, s_first := 102, s_last := 103\<rparr>
     else if i = 101 then js_int 0 else if i = 102 then js_name 120 103 104 else if i = 103 then js_name 121 0 105
     else if i = 104 then js_int 5 else if i = 105 then js_int 0
     else zero_sym\<lparr>s_refs := SYM_TABLE_UNUSED_REF, s_next := (if i < 40 then i + 1 else 0)\<rparr>),
     sym_size = 512, sym_free = 1, sym_usage = 6, sym_max_usage = 6\<rparr>"

definition js_kids :: "kid list" where
  "js_kids = [(102, [], str ''x''), (103, [], str ''y'')]"

definition js_vars :: "int \<Rightarrow> int \<Rightarrow> byte list \<rightharpoonup> int" where
  "js_vars a b = [str ''x'' \<mapsto> a, str ''y'' \<mapsto> b]"

text \<open>The parts of the environment that the program does not use are arbitrary.\<close>

definition js_env :: "flops \<Rightarrow> lexer \<Rightarrow> jsenv" where
  "js_env fl junk = \<lparr>e_oob = (\<lambda>_. 0), e_fl = fl,
     e_ctx = \<lparr>ctx_root = 100, zeroInt = 101, oneInt = 0, stringClass = 0, objectClass = 0, arrayClass = 0, intClass = 0, mathClass = 0,
       jsonClass = 0, processClass = 0, moduleClass = 0\<rparr>,
     e_junk = junk, e_builtin = (\<lambda>_ v _ _. Some (None, v)), e_native = (\<lambda>_ _ v. Some v)\<rparr>"

definition js_vm :: "lexer \<Rightarrow> vm" where
  "js_vm l = \<lparr>vm_pool = js_pool, vm_lex = l, vm_scopes = [], vm_exec = EXEC_NORMAL\<rparr>"

section \<open>The table\<close>

lemma js_room: "room (set js_free) js_pool"
  unfolding room_def js_free_def
  by (rule exI [of _ "[1..<41]"]) (simp add: js_pool_def free_list_def upt_rec)

lemma js_in_free [simp]: "i \<in> set js_free \<longleftrightarrow> 1 \<le> i \<and> i < 41"
  by (auto simp: js_free_def)

lemma js_int_value [simp]: "sym_int (js_int 0) = 0" "sym_int (js_int 5) = 5"
  by (simp_all add: js_int_def sym_int_le64 in64_def)

lemma js_int_sel [simp]:
  "s_flags (js_int k) = BE_SYM_INTEGER" "s_refs (js_int k) = 1" "s_locks (js_int k) = 0" "s_next (js_int k) = 0"
  "s_prev (js_int k) = 0" "s_first (js_int k) = 0" "s_last (js_int k) = 0"
  by (simp_all add: js_int_def zero_sym_def)

lemma js_name_sel [simp]:
  "s_flags (js_name c n v) = BE_SYM_STRING OR BE_SYM_NAME" "s_refs (js_name c n v) = 1" "s_locks (js_name c n v) = 0"
  "s_next (js_name c n v) = n" "s_first (js_name c n v) = v" "s_last (js_name c n v) = 0"
  by (simp_all add: js_name_def zero_sym_def)

lemma js_tab [simp]:
  "tab js_pool 100 = zero_sym\<lparr>s_flags := BE_SYM_ROOT, s_refs := 1, s_first := 102, s_last := 103\<rparr>"
  "tab js_pool 101 = js_int 0" "tab js_pool 102 = js_name 120 103 104" "tab js_pool 103 = js_name 121 0 105"
  "tab js_pool 104 = js_int 5" "tab js_pool 105 = js_int 0"
  by (simp_all add: js_pool_def)

lemma js_other:
  "i \<notin> {100, 101, 102, 103, 104, 105} \<Longrightarrow> s_flags (tab js_pool i) = 0 \<and> s_locks (tab js_pool i) = 0"
  by (simp add: js_pool_def zero_sym_def)

lemma js_chain: "kid_ok js_pool 102 [] (str ''x'')" "kid_ok js_pool 103 [] (str ''y'')"
  by (simp_all add: kid_ok_def str_chain_def sym_kinds) (simp_all add: js_name_def sym_bytes_def)

lemma js_root: "object_at js_pool 100 js_kids"
  using js_chain by (simp add: object_at_def js_kids_def zero_sym_def)

lemma js_ints: "int_at js_pool (set js_free) 101 0" "int_at js_pool (set js_free) 104 5" "int_at js_pool (set js_free) 105 0"
  by (simp_all add: int_at_def in64_def)

lemma js_globals: "globals js_pool (set js_free) 100 js_kids (js_vars 5 0)"
  using js_root js_ints
  by (auto simp: globals_def js_kids_def var_at_def js_vars_def zero_sym_def split: if_splits)

lemma js_referrers: "referrers js_pool js_kids i = (if i = 104 then {102} else if i = 105 then {103} else {})"
  by (auto simp: referrers_def js_kids_def)

lemma js_privates: "privates js_pool js_kids = {104, 105}"
  by (auto simp: privates_def js_referrers split: if_splits)

lemma js_store: "store_ok (js_env fl junk) js_pool (set js_free) js_kids (js_vars 5 0) 20"
proof -
  have c: "card (set js_free) = 40" by (simp add: js_free_def)
  have l: "s_locks (tab js_pool i) + 20 < 250" for i
    using js_other [of i] by (cases "i \<in> {100, 101, 102, 103, 104, 105}") (auto simp: zero_sym_def)
  have three: "i = 101 \<or> i = 104 \<or> i = 105" if "s_flags (tab js_pool i) = BE_SYM_INTEGER" for i
    using js_other [of i] that by (cases "i \<in> {100, 101, 102, 103, 104, 105}") (auto simp: zero_sym_def)
  have "s_next (tab js_pool i) = 0 \<and> s_prev (tab js_pool i) = 0 \<and> s_first (tab js_pool i) = 0 \<and> s_last (tab js_pool i) = 0 \<and>
      s_locks (tab js_pool i) = 0 \<and> card (referrers js_pool js_kids i) + (if i = 101 then 1 else 0) \<le> s_refs (tab js_pool i) \<and>
      s_refs (tab js_pool i) + length js_kids < 65000 + card (referrers js_pool js_kids i)"
    if "s_flags (tab js_pool i) = BE_SYM_INTEGER" for i
    using three [OF that] by (elim disjE) (simp_all add: js_referrers, simp_all add: js_kids_def)
  moreover have "length js_kids = 2" "\<forall>a\<in>fst ` set js_kids. s_first (tab js_pool a) \<notin> set js_free" by (simp_all add: js_kids_def)
  ultimately show ?thesis
    unfolding store_ok_def using js_globals js_ints(1) c l
    by (simp add: js_env_def js_privates)
qed

lemma js_start: "store_ok (js_env fl junk) (vm_pool (js_vm l)) (set js_free) js_kids (js_vars 5 0) 20"
  "room (set js_free) (vm_pool (js_vm l))"
  using js_store js_room by (simp_all add: js_vm_def)

section \<open>The program\<close>

definition js_source :: "(gap list \<times> lexeme) list" where
  "js_source = map (Pair [])
     [LWord (str ''while''), LOp (TK 40), LWord (str ''x''), LOp (TK 62), LInt (str ''0''), LOp (TK 41), LOp (TK 123),
      LWord (str ''y''), LOp BE_TOKEN_OP_PLUS_EQUAL, LWord (str ''x''), LOp (TK 59),
      LWord (str ''x''), LOp BE_TOKEN_OP_MINUS_EQUAL, LInt (str ''1''), LOp (TK 59), LOp (TK 125),
      LWord (str ''if''), LOp (TK 40), LWord (str ''y''), LOp BE_TOKEN_OP_EQUAL, LInt (str ''15''), LOp (TK 41),
      LWord (str ''x''), LOp (TK 61), LInt (str ''7''), LOp (TK 59),
      LWord (str ''else''), LWord (str ''x''), LOp (TK 61), LInt (str ''8''), LOp (TK 59)]"

definition js_program :: "pstmt list" where
  "js_program =
     [While (Bin (TK 62) (Var (str ''x'')) (Num 0))
        (Braces [Assign (str ''y'') BE_TOKEN_OP_PLUS_EQUAL (Var (str ''x'')), Assign (str ''x'') BE_TOKEN_OP_MINUS_EQUAL (Num 1)]),
      IfElse (Bin BE_TOKEN_OP_EQUAL (Var (str ''y'')) (Num 15)) (Assign (str ''x'') (TK 61) (Num 7)) (Assign (str ''x'') (TK 61) (Num 8))]"

lemma js_text: "source_text js_source = str ''while ( x > 0 ) { y += x ; x -= 1 ; } if ( y == 15 ) x = 7 ; else x = 8 ; ''"
  by (simp add: js_source_def op_text_def op_table_def)

lemma js_source_ok: "source_ok js_source"
  by (simp add: js_source_def source_ok_def op_table_def ref_alpha_def ref_numeric_def punct_def)

lemma js_tokens: "map (\<lambda>(gs, x). (lexeme_tok x, lexeme_bytes x)) js_source = concat (map st_tokens js_program)"
  by (simp add: js_source_def js_program_def keyword_of_def keyword_table_def dec_nat.simps)

lemma js_program_ok: "list_all st_ok js_program"
  by (simp add: js_program_def assignment_op_def mul_op_def add_op_def relational_op_def)

lemma iterate_numeral: "iterate (numeral m) c b a =
    do { k \<leftarrow> c a; if k = 0 then Some a else do { a' \<leftarrow> b a; iterate (pred_numeral m) c b a' } }"
  by (simp add: numeral_eq_Suc)

lemma js_program_run: "seq_run (js_vars 5 0) js_program = Some (js_vars 7 15)"
  by (simp add: js_program_def iterate_numeral assigned_def assigned_op_def js_vars_def op_value_def int_op_def s64_def)
    (rule fun_upd_twist, simp)

lemma js_program_refs: "s \<in> set js_program \<Longrightarrow> st_refs s \<le> 20"
  by (auto simp: js_program_def)

section \<open>An expression\<close>

definition js_expr :: ex where
  "js_expr = Bin BE_TOKEN_OP_LOGIC_AND
     (Bin (TK 62) (Bin (TK 45) (Bin (TK 42) (Var (str ''x'')) (Num 2)) (Var (str ''y''))) (Num 3)) (Var (str ''x''))"

definition js_expr_source :: "(gap list \<times> lexeme) list" where
  "js_expr_source = map (Pair [])
     [LWord (str ''x''), LOp (TK 42), LInt (str ''2''), LOp (TK 45), LWord (str ''y''), LOp (TK 62), LInt (str ''3''),
      LOp BE_TOKEN_OP_LOGIC_AND, LWord (str ''x'')]"

lemma js_expr_facts:
  "source_ok js_expr_source" "map (\<lambda>(gs, x). (lexeme_tok x, lexeme_bytes x)) js_expr_source = ex_tokens js_expr"
  "ex_ok 6 js_expr" "ex_value (js_vars 5 0) js_expr = Some 1" "statement_start (first_tok (ex_tokens js_expr))" "ex_refs js_expr < 20"
  "source_text js_expr_source = str ''x * 2 - y > 3 && x ''"
  by (simp_all add: js_expr_def js_expr_source_def source_ok_def op_table_def op_text_def ref_alpha_def ref_numeric_def punct_def
      keyword_of_def keyword_table_def dec_nat.simps js_vars_def op_value_def int_op_def s64_def statement_start_def
      mul_op_def add_op_def relational_op_def bit_logic_op_def truth_def)

end
