(* ===== verification/More_Facts.thy ===== *)
theory More_Facts
  imports Kv_Demo Kv_Crc Und_Demo Ymodem Json Lexer_Trip Sym_Demo Mqtt_Demo Exec_Demo
begin

text \<open>
  Further facts about the components: smaller contracts, checksum strength, and inputs on
  which the code does not do what it is meant to do.
\<close>

text \<open>
  On the flash driver model of the development a value that was set is read back: after
  a successful kv_item_set every kv_item_get with a buffer that is large enough returns
  the value, whatever garbage collection, block change or deletion the set caused.
\<close>

theorem kv_flash_get_after_set:
  assumes "flash_holds (\<lambda>f. f) sz w m" "flash_key_ok k" "flash_val_ok v"
    and "flash_set (nor_hal sz) (sz div KV_BLOCK_SIZE) k v w = Some (0, w')"
    and "length v \<le> len" "0 < len"
  shows "\<exists>w''. flash_get (nor_hal sz) (sz div KV_BLOCK_SIZE) k len w' = Some (Some v, w'')
     \<and> flash_holds (\<lambda>f. f) sz w'' (m(k \<mapsto> v))"
  by (rule nor.fkv.get_after_set [OF assms])

lemma kv_flash_get_after_set_demo:
  "\<exists>w''. flash_get (nor_hal 16384) (16384 div KV_BLOCK_SIZE) demo_key 64 demo_world1 = Some (Some demo_val, w'')
     \<and> flash_holds (\<lambda>f. f) 16384 w'' (Map.empty(demo_key \<mapsto> demo_val))"
  by (rule kv_flash_get_after_set [where w = demo_world])
    (use demo_facts(3) demo1_facts(1) in \<open>simp_all add: flash_holds_def flash_key_ok_def flash_val_ok_def
       flash_set_def demo_key_def demo_val_def demo_hal_def\<close>)

text \<open>
  The CRC-8 that calc_crc8 computes byte by byte is the remainder of the polynomial
  division of the message followed by eight zero bits by 0x31: the bit-serial long
  division.
\<close>

theorem calc_crc8_is_remainder:
  "calc_crc8 buf = foldl (crc_serial 0x31) 0 (msg_bits buf @ replicate 8 False)"
  by (rule crc8_remainder)

text \<open>
  The CRC-8 detects every corruption confined to one byte: two buffers that agree
  except at one position have the same checksum only when they agree there too.
\<close>

theorem calc_crc8_detects_byte:
  "calc_crc8 (xs @ a # zs) = calc_crc8 (xs @ b # zs) \<longleftrightarrow> a = b"
  by (rule crc8_detects)

text \<open>
  When the file does not exist, kv_open creates it with 384 rows of two empty slots and
  the store represents the empty map.
\<close>

theorem lk_open_creates:
  assumes "lk_healthy w" "lk_rows w = None"
  shows "\<exists>w'. kv_open w = (True, w') \<and> lk_holds w' Map.empty
     \<and> lk_rows w' = Some (replicate TABLE_COL_SIZE (replicate TABLE_ROW_SIZE zero_slot))"
  using kv_open_fresh [OF assms] by (simp add: empty_row_def)

lemma lk_open_creates_demo:
  "\<exists>w'. kv_open lk_blank = (True, w') \<and> lk_holds w' Map.empty
     \<and> lk_rows w' = Some (replicate TABLE_COL_SIZE (replicate TABLE_ROW_SIZE zero_slot))"
  by (rule lk_open_creates) (simp_all add: lk_blank_def lk_healthy_def)

text \<open>
  The Linux file store: a value stored under a key of 128 bytes or more is reported as
  stored, but the key is cut to 127 bytes, so reading it back with the same key reports
  -1.
\<close>

theorem lk_long_key_lost:
  assumes "lk_holds w Map.empty" "lk_rows w = Some (replicate TABLE_COL_SIZE (replicate TABLE_ROW_SIZE zero_slot))"
    and "ITEM_MAX_KEY_LEN \<le> length key" "0 < length val" "length val \<le> ITEM_MAX_VAL_LEN"
  shows "\<exists>w1 w2. amp_kv_set (Some key) (Some val) (int (length val)) w = (0, w1)
     \<and> amp_kv_get (Some key) True (Some 512) w1 = (-1, None, Some 512, w2)"
  using assms by (intro long_key_lost) (simp_all add: lk_holds_def lk_val_ok_def empty_row_def)

lemma lk_long_key_lost_demo:
  "\<exists>w1 w2. amp_kv_set (Some (replicate 128 65)) (Some [1]) (int (length [1 :: byte])) lk_demo = (0, w1)
     \<and> amp_kv_get (Some (replicate 128 65)) True (Some 512) w1 = (-1, None, Some 512, w2)"
  by (rule lk_long_key_lost [OF lk_demo_facts(2)]) (simp_all add: lk_demo_facts(3) empty_row_def)

text \<open>
  The 68 bytes that are stored for a well-formed capture target decode to the target
  (16 bit size and index, eight captures of a 32 bit counter and a signed 32 bit
  reason).
\<close>

theorem und_target_bytes_roundtrip:
  assumes "cap_ok t"
  shows "dec_target (enc_target t) = t \<and> length (enc_target t) = und_target_len"
  using dec_enc_target [OF assms] length_enc_target [OF cap_ok_len(1) [OF assms]] by simp

lemma und_target_bytes_roundtrip_demo:
  "dec_target (enc_target demo_target) = demo_target \<and> length (enc_target demo_target) = und_target_len"
  by (rule und_target_bytes_roundtrip [OF demo_target_ok])

text \<open>
  A reply deletes all captures, in memory and (through the store's delete) on flash,
  also when new captures arrived after the report was sent (state RESYNC): the state
  goes on to UPDATE, but what it should report is gone.
\<close>

theorem und_reply_drops_new_captures:
  assumes "und_target_report_reply kv True w = Some w'" "rep_ready w" "cap_ready w"
    and "rep_update w = UND_CAP_STATE_RESYNC"
  shows "cap_targets w' = replicate UND_TARGETS None \<and> rep_update w' = UND_CAP_STATE_UPDATE"
  using reply_result [OF assms(1-3)] assms(4) by simp

lemma und_reply_drops_new_captures_demo:
  "\<exists>w'. und_target_report_reply lk_ops True (und_demo\<lparr>rep_update := UND_CAP_STATE_RESYNC\<rparr>) = Some w'
     \<and> cap_targets w' = replicate UND_TARGETS None \<and> rep_update w' = UND_CAP_STATE_UPDATE"
proof -
  obtain w' where w': "und_target_report_reply lk_ops True (und_demo\<lparr>rep_update := UND_CAP_STATE_RESYNC\<rparr>) = Some w'"
    using lk_reply_total by blast
  have "cap_targets w' = replicate UND_TARGETS None \<and> rep_update w' = UND_CAP_STATE_UPDATE"
    by (rule und_reply_drops_new_captures [OF w']) (simp_all add: und_demo_def)
  with w' show ?thesis by blast
qed

text \<open>
  A package of 1249 bytes or more is built and kept, but never sent: the envelope makes
  the packet longer than the 1344 bytes that und_conn_send accepts, so a pass of the
  report sends nothing and keeps the buffer.
\<close>

theorem und_oversized_never_sent:
  assumes "report_body kv env w = Some w'" "und_build_package env w = Some (r, w1)"
    and "rep_buf w1 = Some b" "1249 \<le> length b" "length b < UND_REPORT_TARGET_BUF_LEN"
  shows "und_sent w' = und_sent w \<and> rep_buf w' = Some b
    \<and> (rep_update w' = rep_update w \<or> rep_update w' = UND_CAP_STATE_UPDATE)"
  by (rule oversized_not_sent [OF assms])

lemma und_oversized_never_sent_demo:
  "\<exists>w' b. report_body lk_ops und_demo_env und_demo_sent = Some w' \<and> und_sent w' = [] \<and> rep_buf w' = Some b
     \<and> length b = 1281"
proof -
  obtain r w1 b where w1: "und_build_package und_demo_env und_demo_sent = Some (r, w1)" "rep_buf w1 = Some b"
    "length b = 1281"
    using und_demo_build by blast
  obtain w' where w': "report_body lk_ops und_demo_env und_demo_sent = Some w'"
    using lk_report_total [OF w1(1)] by blast
  have "und_sent w' = und_sent und_demo_sent \<and> rep_buf w' = Some b
    \<and> (rep_update w' = rep_update und_demo_sent \<or> rep_update w' = UND_CAP_STATE_UPDATE)"
    by (rule und_oversized_never_sent [OF w' w1(1,2)]) (simp_all add: w1(3))
  with w' w1(3) show ?thesis by (auto simp: und_demo_sent_def und_demo_def und_blank_def)
qed

text \<open>
  While the device is connected, a pass of the report task that ends in a state other
  than INIT leaves the report timer stopped (the macro that would restart it is not
  defined in und_report.c): an unsent or unanswered report is not retried until the
  next update.
\<close>

theorem und_report_stops_timer:
  assumes "und_targets_report kv env w = Some w'" "rep_ready w" "0 < ue_connected env"
    and "rep_update w' \<noteq> UND_CAP_STATE_INIT"
  shows "sch_armed w' = None"
  by (rule report_stops_timer [OF assms])

lemma und_report_stops_timer_demo:
  "\<exists>w'. und_targets_report lk_ops und_demo_env und_demo_sent = Some w' \<and> sch_armed w' = None"
proof -
  obtain w' where w': "und_targets_report lk_ops und_demo_env und_demo_sent = Some w'"
    using und_demo_report by blast
  have ready: "rep_ready und_demo_sent" "rep_update und_demo_sent = UND_CAP_STATE_UPDATE"
    by (simp_all add: und_demo_sent_def und_demo_def)
  have "rep_update w' \<noteq> UND_CAP_STATE_INIT"
    using targets_report_state [OF w' ready(1)] ready(2) by auto
  with und_report_stops_timer [OF w' ready(1)] w' show ?thesis by (auto simp: und_demo_env_def)
qed

text \<open>
  The CRC-16 detects every corruption that is confined to one byte of a block.
\<close>

theorem crc16_detects_byte:
  "crc16_computer (xs @ a # zs) = crc16_computer (xs @ b # zs) \<longleftrightarrow> a = b"
  by (rule crc16_detects)

text \<open>
  On every text and window, also malformed ones, each key and value that
  json_parse_name_value hands to its callback lies inside the window, the key before
  the value.
\<close>

theorem json_items_in_window:
  assumes "json_parse_name_value m p len json_collect [] = Some (ret, its)" and "it \<in> set its"
  shows "p < ji_key it \<and> ji_key it + ji_klen it < ji_val it \<and> ji_val it + ji_vlen it \<le> p + len"
  using json_collect_window [OF assms] by (simp add: in_window_def)

lemma json_items_in_window_demo:
  "ji_val (member_item 1 (str ''a'') (JNum (str ''7''))) + 1 \<le> 7"
proof -
  let ?v = "JObj [(str ''a'', JNum (str ''7''))]"
  have "json_parse_name_value (jtext ?v) 0 (length (jtext ?v)) json_collect [] =
      Some (0, [member_item 1 (str ''a'') (JNum (str ''7''))])"
    using json_parse_members [of "[(str ''a'', JNum (str ''7''))]" "jtext ?v" 0 json_collect "[]"]
      reads_self [of "[]" "jtext ?v" "[]"]
    by (simp add: members_ok_def plain_def number_def num_char_def is_digit_def member_item_def json_collect_def)
  then show ?thesis
    using json_items_in_window [of "jtext ?v" 0 "length (jtext ?v)" 0 "[member_item 1 (str ''a'') (JNum (str ''7''))]"
        "member_item 1 (str ''a'') (JNum (str ''7''))"]
    by (simp add: quoted_def member_item_def)
qed

text \<open>
  A text that ends right after the opening quote of a value makes json_parse_name_value
  read the byte after the terminating zero: the returned pointer is one past it and the
  loop of json_object_for_each_kv looks at it.
\<close>

theorem json_truncated_text_leaves_buffer:
  assumes "34 \<notin> set k" and "0 \<notin> set k"
  shows "json_parse_name_value (123 # quoted k @ [58, 34]) 0 (length k + 5) cb d = None"
  using assms by (intro json_truncated_reads_outside) (simp add: plain_def)

lemma json_truncated_text_leaves_buffer_demo:
  "json_parse_name_value (str ''{'' @ quoted (str ''a'') @ [58, 34]) 0 6 json_collect [] = None"
  using json_truncated_text_leaves_buffer [of "str ''a''" json_collect "[]"] by simp

text \<open>
  Null values are not known to the reader: for a key whose value is null it returns the
  name of the next member as a string.
\<close>

theorem json_null_value_is_next_key:
  assumes "34 \<notin> set k" "0 \<notin> set k" "k \<noteq> []" "34 \<notin> set k2" "0 \<notin> set k2" "k2 \<noteq> []"
    and "m = 123 # quoted k @ 58 # str ''null,'' @ quoted k2 @ 58 # rest"
  shows "json_get_value_by_name_len m 0 (length m) k = Some (Some (length k + 10, length k2, JSTRING))"
  by (rule json_null_takes_next_key [OF _ _ _ _ assms(7)]) (use assms in \<open>simp_all add: plain_def\<close>)

lemma json_null_value_is_next_key_demo:
  "let m = 123 # quoted (str ''a'') @ 58 # str ''null,'' @ quoted (str ''b'') @ 58 # str ''1}''
   in json_get_value_by_name_len m 0 (length m) (str ''a'') = Some (Some (11, 1, JSTRING))"
  unfolding Let_def
  by (subst json_null_value_is_next_key [where ?k2.0 = "str ''b''" and rest = "str ''1}''"]) simp_all

text \<open>
  Whatever the source holds, next_token leaves at most 63 bytes in the token array of
  64, so that the terminating zero which lexer_get_token writes is inside it, and a
  token other than the end consumes input.
\<close>

theorem lexer_token_fits:
  assumes "lx_src l = Some s"
  shows "\<exists>l'. next_token oob l = Some l' \<and> length (lx_token l') < MAX_TOKEN_LENGTH \<and>
    (lx_tk l' = BE_TOKEN_END \<or> lx_measure l' < lx_measure l)"
  using next_token_returns [OF assms refl] by (auto simp: lx_ok_def)

lemma lexer_token_fits_demo:
  "\<exists>l'. next_token no_oob (last_lexer (replicate 100 97)) = Some l' \<and> length (lx_token l') < 64"
  using lexer_token_fits [of "last_lexer (replicate 100 97)" "replicate 100 97" no_oob]
  by (auto simp: last_lexer_def)

text \<open>
  The switch over the first character in next_token (with comparisons from the second
  character on) is the look-up in the list of the nineteen keywords that the disabled
  code above it spells out.
\<close>

theorem keyword_switch_is_table:
  assumes "0 \<notin> set t" and "t \<noteq> []"
  shows "keyword_switch t = (case map_of keyword_table t of None \<Rightarrow> BE_TOKEN_ID | Some k \<Rightarrow> k)"
  using keyword_switch_table [OF assms] by (simp add: keyword_of_def)

lemma keyword_switch_is_table_demo:
  "keyword_switch (str ''continue'') = BE_TOKEN_KW_CONTINUE \<and> keyword_switch (str ''continues'') = BE_TOKEN_ID"
  using keyword_switch_is_table [of "str ''continue''"] keyword_switch_is_table [of "str ''continues''"]
  by (simp add: keyword_table_def)

text \<open>
  On ASCII the attribute table of be_utils.c gives the character classes of the range
  tests it replaces: digits, hexadecimal digits and letters with the underscore are the
  same; white space also has the vertical tab and the form feed.
\<close>

theorem char_table_is_ranges:
  assumes "unat c < 128"
  shows "is_numeric oob c = ref_numeric c \<and> is_hex_decimal oob c = ref_hex_decimal c \<and>
    is_alpha oob c = ref_alpha c \<and> is_whitespace oob c = (ref_whitespace c \<or> c = 11 \<or> c = 12)"
  using table_ascii [OF assms] by blast

lemma char_table_is_ranges_demo: "is_alpha no_oob 95 \<and> is_whitespace no_oob 11 \<and> \<not> is_numeric no_oob 65"
  using char_table_is_ranges [of 95 no_oob] char_table_is_ranges [of 11 no_oob] char_table_is_ranges [of 65 no_oob]
  by (simp add: ref_alpha_def ref_numeric_def)

text \<open>
  A word of 63 or more characters becomes an identifier with its first 63 characters:
  two names that agree on these are the same identifier.
\<close>

theorem lexer_cuts_long_words:
  assumes "lx_view s ts l k v (w @ r)" and "63 \<le> length w" and "ref_alpha (hd w)"
    and "list_all (\<lambda>c. ref_alpha c \<or> ref_numeric c) w" and "separator (ch r 0)"
  shows "\<exists>l' p. next_token oob l = Some l' \<and> lx_view s p l' BE_TOKEN_ID (take 63 w) r"
  by (rule next_token_long [OF assms(1) _ assms(5)]) (use assms in \<open>simp add: long_word_def\<close>)

lemma lexer_cuts_long_words_demo:
  "\<exists>l' p. next_token no_oob ((blank_lexer 97)\<lparr>next_char := 97, lx_src := Some (replicate 70 97), end_pos := 70, curr_pos := 2\<rparr>)
     = Some l' \<and> lx_view (replicate 70 97) p l' BE_TOKEN_ID (replicate 63 97) []"
  using lexer_cuts_long_words [of "replicate 70 97" 0
      "(blank_lexer 97)\<lparr>next_char := 97, lx_src := Some (replicate 70 97), end_pos := 70, curr_pos := 2\<rparr>"
      "TK 0" "[]" "replicate 70 97" "[]" no_oob]
  by (simp add: lx_view_def blank_lexer_def ch_def ref_alpha_def list_all_iff separator_def)

text \<open>
  The executor starts a lexer without a source for a function with an empty body
  (be_jse_lexer_init with a null pointer); the look-ahead characters are then whatever
  the memory held, and if that is a letter the call never returns.
\<close>

theorem lexer_null_source_loops:
  assumes "is_alpha oob (curr_char l)" "\<not> is_whitespace oob (curr_char l)" "curr_char l \<noteq> 47"
  shows "be_jse_lexer_init oob l None 0 0 = None"
  using assms reset_null [of "l\<lparr>lx_src := None, start_pos := 0, end_pos := 0, curr_pos := 0, lx_tk := TK 0,
      token_start := 0, token_end := 0, token_last_end := 0, lx_token := []\<rparr>" oob]
  by (simp add: be_jse_lexer_init_def)

lemma lexer_null_source_loops_demo: "be_jse_lexer_init no_oob (blank_lexer 97) None 0 0 = None"
  using lexer_null_source_loops [of no_oob "blank_lexer 97"] class_ref(1,8) [of 97 no_oob]
  by (simp add: blank_lexer_def ref_alpha_def)

text \<open>
  lexer_dump_line_and_col leaves the lexer as it was, but it starts to count with the
  look-ahead character of the place it comes from: in front of the last byte of a
  source every error is reported at line 1, column 1.
\<close>

theorem lexer_position_at_end:
  assumes "s \<noteq> []"
  shows "lexer_dump_line_and_col (last_lexer s) char_pos = Some (1, 1, last_lexer s)"
  using dump_at_end [OF last_lexer_view [OF assms]] by (simp add: last_lexer_def blank_lexer_def)

lemma lexer_position_at_end_demo:
  "lexer_dump_line_and_col (last_lexer [97, 10, 98, 10, 99]) 4 = Some (1, 1, last_lexer [97, 10, 98, 10, 99])"
  using lexer_position_at_end [of "[97, 10, 98, 10, 99]" 4] by simp

text \<open>
  string_to_int reads the decimal text of every number below 2 to the 63 back as the
  number.
\<close>

theorem string_to_int_reads_decimal:
  assumes "n < 9223372036854775808"
  shows "string_to_int oob (dec_nat n) = int n"
  by (rule string_to_int_dec [OF assms])

lemma string_to_int_reads_decimal_demo: "string_to_int no_oob (str ''1024'') = 1024"
  using string_to_int_reads_decimal [of 1024 no_oob] by (simp add: dec_nat.simps)

text \<open>
  When the name is not there and creation is asked for, lookup_named_child_symbol
  appends a new name (a string symbol from the free list, with no value) to the names
  of the object: it is returned with one lock and one reference, the free list loses
  exactly its nodes, and the next look-up finds it.
\<close>

theorem symbol_lookup_creates:
  assumes "object_at p ob ks" and "held p ob" and "0 \<notin> set name" and "find_kid name ks = None"
    and "free_list p (i # fs)" and "length name \<le> 8 + 14 * length fs"
    and "set (ob # kid_nodes ks) \<inter> set (i # fs) = {}"
  shows "\<exists>js fs' p'. lookup_named_child_symbol ob name True p = Some (i, p') \<and> fs = js @ fs' \<and>
    object_at p' ob (ks @ [(i, js, name)]) \<and> free_list p' fs' \<and>
    s_refs (tab p' i) = 1 \<and> s_locks (tab p' i) = 1 \<and> s_first (tab p' i) = 0 \<and>
    lookup_named_child_symbol ob name False p' = Some (i, locked i p')"
proof -
  obtain js fs' p' where p': "fs = js @ fs'" "lookup_named_child_symbol ob name True p = Some (i, p')"
    "object_at p' ob (ks @ [(i, js, name)])" "free_list p' fs'" "held p' ob"
    "s_refs (tab p' i) = 1" "s_locks (tab p' i) = 1" "s_first (tab p' i) = 0"
    using lookup_named_creates [OF assms] by blast
  have "find_kid name (ks @ [(i, js, name)]) = Some (i, js, name)"
    using assms(4) by (induction ks) (auto split: if_splits)
  then show ?thesis using p' lookup_named_finds [OF p'(3,5) assms(3)] by blast
qed

lemma symbol_lookup_creates_demo:
  "\<exists>p'. lookup_named_child_symbol 9 (str ''length of it'') True demo_pool = Some (1, p') \<and>
    lookup_named_child_symbol 9 (str ''length of it'') False p' = Some (1, locked 1 p')"
  using symbol_lookup_creates [OF demo_object, of "str ''length of it''" 1 "[2, 3, 4, 5, 6]"] demo_free by auto

text \<open>
  symbol_type_equal does not return for two different string symbols that agree on
  their first 22 characters: after the first extensions it takes the successors of the
  first nodes again, so it compares the same two extensions for ever.
\<close>

theorem symbol_type_equal_hangs:
  assumes "str_chain p a js xs" and "str_chain p b ks ys" and "distinct (a # js @ b # ks)"
    and "0 \<notin> set xs" and "22 \<le> length xs" and "22 \<le> length ys" and "take 22 xs = take 22 ys"
  shows "symbol_type_equal feq a b p = None"
  by (rule type_equal_hangs [OF assms])

lemma symbol_type_equal_hangs_demo: "symbol_type_equal (\<lambda>_ _. False) 1 3 long_pool = None"
  by (rule symbol_type_equal_hangs [OF long_chains]) simp_all

text \<open>
  MQTTPacket_encode writes a remaining length below 256 MB in one to four bytes, and
  MQTTPacket_decodeBuf reads the same length and the same number of bytes; nothing
  around the field changes.
\<close>

theorem mqtt_length_roundtrip:
  assumes "n < 268435456" and "MQTTPacket_encode (int n) (b, p) = Some (b', p')"
  shows "p < p' \<and> p' \<le> p + 4 \<and> MQTTPacket_decodeBuf b' p = Some (int (p' - p), int n) \<and>
    take p b' = take p b \<and> drop p' b' = drop p' b"
  by (rule length_roundtrip [OF assms])

lemma mqtt_length_roundtrip_demo: "MQTTPacket_decodeBuf [0, 0xC1, 0x02, 0] 1 = Some (2, 321)"
proof -
  have "MQTTPacket_encode (int 321) ([0, 0, 0, 0], 1) = Some ([0, 0xC1, 0x02, 0], 3)" by code_simp
  from mqtt_length_roundtrip [OF _ this] show ?thesis by simp
qed

text \<open>
  The identifiers that iotx_mc_get_next_packetid gives lie between 1 and 65535, and of
  65535 calls in a row no two give the same one.
\<close>

theorem mqtt_packet_ids_distinct:
  assumes "mc_packet_id c \<le> 65535" and "i < j" and "j < i + 65535"
  shows "fst (iotx_mc_get_next_packetid (((\<lambda>c. snd (iotx_mc_get_next_packetid c)) ^^ i) c)) \<in> {1..65535} \<and>
    fst (iotx_mc_get_next_packetid (((\<lambda>c. snd (iotx_mc_get_next_packetid c)) ^^ i) c))
      \<noteq> fst (iotx_mc_get_next_packetid (((\<lambda>c. snd (iotx_mc_get_next_packetid c)) ^^ j) c))"
  using nth_packetid [OF assms(1)] ids_from_inj [OF assms(2,3)] by (simp add: ids_from_def Suc_le_eq)

lemma mqtt_packet_ids_distinct_demo:
  "fst (iotx_mc_get_next_packetid (demo_client [])) \<noteq> fst (iotx_mc_get_next_packetid (snd (iotx_mc_get_next_packetid (demo_client []))))"
  using mqtt_packet_ids_distinct [of "demo_client []" 0 1] by (simp add: demo_client_def)

text \<open>
  MQTTUnsubscribe keeps only the handlers whose filter neither equals the topic nor
  matches it as a topic name: unsubscribing one topic also removes the handlers of
  wildcard filters that the client is still subscribed to.
\<close>

theorem mqtt_unsubscribe_drops_other_filters:
  "drop_handles t nodes = Some (filter (\<lambda>h. th_filter h \<noteq> t \<and> \<not> text_match (th_filter h) t) nodes)"
  using drop_handles_filter [of t nodes] by (simp add: hears_def)

text \<open>
  iotx_mc_check_topic never looks at a last level of one character behind a level that
  is not empty: a topic to publish on may end in a wildcard, and any byte passes.
\<close>

theorem mqtt_last_level_unchecked:
  assumes "y \<noteq> SLASH" and "length p \<le> 124"
  shows "iotx_mc_check_topic (Some (p @ [y, SLASH, x])) ty = iotx_mc_check_topic (Some (p @ [y, SLASH])) ty"
  by (rule check_topic_tail [OF assms])

lemma mqtt_last_level_unchecked_demo: "iotx_mc_check_topic (Some (str ''room/#'')) TOPIC_NAME_TYPE = 0"
proof -
  have "iotx_mc_check_topic (Some (str ''roo'' @ [109, SLASH])) TOPIC_NAME_TYPE = 0" by code_simp
  moreover have "str ''room/#'' = str ''roo'' @ [109, SLASH, HASH]" by code_simp
  ultimately show ?thesis using mqtt_last_level_unchecked [of 109 "str ''roo''" HASH TOPIC_NAME_TYPE]
    by (simp add: str_def)
qed

end
