(* ===== verification/Spec2Isabelle.thy ===== *)
theory Spec2Isabelle
  imports More_Facts
begin

text \<open>
  A model of the storage, diagnosis, recovery, messaging, text reading and interpreter table code of the HaaS
  mini-program runtime, with its correctness theorems.

  Parts and theories. \<open>Prelude\<close> has bytes, C integers with their wrap-around, slices
  and C strings; \<open>Crc\<close> the two forms of a cyclic redundancy check and their equivalence.

  The flash key-value store (components/kv): \<open>Kv_Types\<close> holds the headers, the
  management structure and the platform services (kv_types.h, kv_adapt.c), \<open>Kv_Ops\<close> and
  \<open>Kv_Api\<close> the functions of kv.c in the order of the file. A function takes and returns
  the world (\<open>kv_world\<close>: \<open>g_kv_mgr\<close>, the device, the heap, the mutex, the started GC
  tasks); None is a call that does not return. \<open>Kv_Flash\<close> states what the driver
  promises as the locale \<open>flash_dev\<close> and interprets it by NOR flash. \<open>Kv_Layout\<close>,
  \<open>Kv_Find\<close>, \<open>Kv_Refine\<close> and \<open>Kv_Gc\<close> relate flash and management structure to a
  list of blocks of items (\<open>kv_inv\<close>) and follow every operation through it; \<open>Kv_Spec\<close>
  states the contracts over maps (\<open>kv_holds\<close>); \<open>Kv_Boot\<close> follows the recovery scan of a restart; \<open>Kv_Crc\<close> is the CRC-8; \<open>Kv_Demo\<close> has
  concrete stores.

  \<open>Store\<close> states the interface of a key-value store as the locales \<open>kv_store\<close> and
  \<open>kv_store_del\<close>. \<open>Kv_Store\<close> shows that the flash store provides it; \<open>Linux_Kv\<close>
  models adapter/platform/linux/amp_kv.c and shows the same for the file store, except
  for deletion, which breaks the law.

  The diagnosis component (components/und) is a client of the store: \<open>Und_Cap\<close> models
  und_manage.c (captures), \<open>Und_Report\<close> und_packet.c, und_report.c, und_sched.c,
  und_adapter.c and und.c; \<open>Und_Save\<close> proves persistence inside the locale,
  \<open>Und_Machine\<close> counting, buffer bounds (the bytes written are kept as they lie, so an
  overflow shows) and the report state machine, call by call and over sequences of calls; \<open>Und_Demo\<close> has
  concrete states.

  \<open>Ymodem\<close> models services/recovery/ymodem.c: the CRC-16, the parsing of blocks and the
  receiver as a step function that is run until it returns.

  \<open>Json\<close> models linkkit/infra/infra_json_parser.c (the part that is compiled without
  WITH_JSON_KEYS_OF): pointers into the text are indices, and a loop that would look past
  the terminating zero is None. A type of JSON values with its text is the specification;
  the look-up along a path is proved against it, and the window of every item for any text.

  \<open>Lexer\<close> models engine/lite_engine/core/be_lex.c with the character table and
  string_to_int of be_utils.c: every while loop is \<open>while_option\<close>, \<open>next_token\<close> a
  partial function, and the theory proves that they return. \<open>Lexer_Spec\<close> follows the
  rest of the source through the loops and reads single lexemes, gaps and keywords;
  \<open>Lexer_Trip\<close> reads whole sources, and has the cases in which the lexer errs.

  \<open>Sym\<close> models engine/lite_engine/core/be_symbol.c: the table of reference-counted nodes,
  the locks, and the functions on strings, names and objects; the functions that free
  nodes call each other and are the jobs of one partial function (\<open>run\<close>). \<open>Sym_Pool\<close>
  has the free list and the growth of the table, \<open>Sym_Str\<close> strings as chains of nodes
  (\<open>str_chain\<close>), their creation, comparison and release, \<open>Sym_Read\<close> the other readers,
  \<open>Sym_Obj\<close> the names of an object as a list (\<open>object_at\<close>) with look-up and creation,
  \<open>Func_Code\<close> the removal of comments from function texts, whose correctness rests on
  the lexer; \<open>Sym_Demo\<close> has concrete tables.

  \<open>Sym_Value\<close> is the rest of be_symbol.c: values behind names, arrays, conversions, appending
  and comparing strings, copies and the operators; floating point is the parameter \<open>flops\<close>.

  The executor (be_executor.c, be.c) parses and executes at once. \<open>Exec\<close> has the state \<open>vm\<close>
  (table, lexer, scopes, flags), the macros and the scopes, \<open>Exec_Expr\<close> the levels of
  expressions and calls, \<open>Exec_Factor\<close> factors and accesses, \<open>Exec_Stmt\<close> statements and
  \<open>exec\<close>, which ties every function and every loop (a job of type \<open>ejob\<close>) together,
  \<open>Exec_Api\<close> what C calls: start and end, texts, functions, native functions, modules. The
  built-in functions and the native callbacks are parameters in \<open>jsenv\<close>. \<open>Exec_Pool\<close> says
  which integers a pool holds for whom (\<open>ints\<close>), \<open>Exec_Env\<close> which variables (\<open>globals\<close>);
  \<open>Exec_Eval\<close> has integer expressions with their tokens and values, \<open>Exec_Prec\<close>,
  \<open>Exec_Levels\<close> and \<open>Exec_Full\<close> follow the interpreter through the levels (\<open>yields\<close>) to
  \<open>base_evaluates\<close>, \<open>Exec_Run\<close> goes from the text to the value, \<open>Exec_Store\<close> shows that
  setting a variable refines the update of a map (\<open>store_ok\<close>), and \<open>Exec_Prog\<close> follows
  programs of assignments, conditionals, loops and blocks (\<open>pstmt\<close>) against their abstract
  run (\<open>seq_run\<close>, end to end \<open>run_program\<close>); a loop evaluates its condition and its body
  over copies of the lexer, which \<open>Lexer_Window\<close> describes as windows of the source that
  are read again from their start. \<open>Exec_Demo\<close> has a concrete program and table.

  The MQTT client (linkkit/mqtt): \<open>Mqtt_Packet\<close> models the packet library (MQTTPacket.c, the
  serializers and deserializers); a writer runs on a buffer and a position, an access outside
  is None. \<open>Mqtt_Wire\<close> gives every writer in closed form (\<open>emits\<close>, collection \<open>wire\<close>),
  \<open>Mqtt_Trip\<close> the readers and round trips. \<open>Mqtt_Topic\<close> is the match of topics with the
  standard as its specification. \<open>Mqtt_Client\<close>, \<open>Mqtt_Handle\<close>, \<open>Mqtt_Api\<close> and
  \<open>Mqtt_Conn\<close> are iotx_mqtt_client.c over a record \<open>mc\<close> with the timers of infra_timer.c
  and infra_strtok; the stream, clock and heap below are the parameter \<open>platform\<close>.
  \<open>Mqtt_Stream\<close> states what a stream promises (locale \<open>byte_stream\<close>) and what reading leaves
  alone (\<open>untouched\<close>) and follows the reading of packets; \<open>Mqtt_Flow\<close> adds writing and time
  (\<open>duplex\<close>), delivery and the queue of publications; \<open>Mqtt_Rules\<close> has identifiers,
  handlers, the check of topics and the public publish; \<open>Mqtt_Inv\<close> the invariant over
  all public calls. \<open>Tcp\<close> models the reads and writes of adapter/platform/linux/network/amp_tcp.c
  over a socket (locales \<open>socket\<close>, \<open>prompt_socket\<close>), and \<open>Mqtt_Tcp\<close> shows that the client
  above them has its stream, with a socket of lists as the concrete instance for \<open>Mqtt_Demo\<close>.

  Bounds. The refinement of the flash store holds for 2 to 15 blocks of 4096 bytes, the
  sizes for which \<open>kv_size_t\<close> is 16 bits wide and an address never wraps. The CRC-16
  loop runs 8 rounds because its guard bit reaches bit 16 then. Loops that may not end
  (\<open>kv_calc_scan\<close>, \<open>kv_gc_scan\<close>, \<open>ym_run\<close>, \<open>next_token\<close>) are partial functions into option, and
  the theorems say when they return.

  Allocations: \<open>kv_holds\<close> contains \<open>heap_ok\<close>, \<open>lk_holds\<close> contains \<open>lk_healthy\<close> and
  \<open>byte_stream\<close> contains \<open>malloc_ok\<close>: memory (and for the file store the file) is there
  whenever it is asked for. The definitions have the failing branches, the theorems about
  these predicates do not. The lengths of \<open>Tcp\<close> are natural numbers below 2 to the 31st.

  Remaining lengths of MQTT packets are below 268435456, the limit of four length bytes.
  \<open>send_loop\<close>, \<open>skip_loop\<close>, \<open>cycle_loop\<close> and the loops of \<open>Tcp\<close> depend on the platform and are
  partial functions; the theorems over \<open>duplex\<close> and \<open>prompt_socket\<close> show that they return.

  The symbol table grows in blocks of 512 nodes up to 65024, beyond which it does not return.
  A program may hold fewer than 250 references at once (the locks of a node are 8 bits), and
  a loop of the engine runs its body at most 8191 times before it reports an error.

  The functions of the executor call each other without a measure: \<open>exec E n\<close> has fuel \<open>n\<close>,
  the depth of calls, and a theorem about a result holds from some fuel on (\<open>eventually\<close>).

  Not modelled: of the lite engine the text of JSON values, \<open>get_symbol_ref_count\<close>, the dumps,
  \<open>be_array_symbol_to_buffer\<close>, the asynchronous calls, be_module.c and the bindings; the vendored libraries (duktape, mbedtls, cJSON, xz, nanopb,
  http_parser), the bindings and drivers, the device model and OTA above MQTT, and the
  JavaScript files. Of the MQTT client: initialisation and release, the synchronous
  subscribe, mqtt_api.c, zipped topics, the asynchronous stack, the mutexes, and calls from
  inside callbacks. The encryption of kv_secure.c is a parameter.
\<close>

section \<open>The flash key-value store\<close>

text \<open>
  C1. kv_item_set refines the update of a map: on every flash device that keeps the NOR
  contract, from a state that represents the map m, a call that returns either succeeds
  and represents m updated at the key, or reports KV_ERR_NO_SPACE and still represents
  m; this includes a pending garbage collection, the choice of the block, the deletion
  of the old item and the CRC and header bytes. Every allocation succeeds (heap_ok,
  part of kv_holds).
\<close>

theorem kv_set_refines:
  assumes "flash_dev hal mem (n * KV_BLOCK_SIZE)" "kv_holds mem n w m"
    and "0 < length key" "length key \<le> KV_MAX_KEY_LEN"
    and "0 < len" "len \<le> 512" "len \<le> int (length val)"
    and "kv_item_set hal n (Some key) (Some val) len w = Some (res, w')"
  shows "res = KV_OK \<and> kv_holds mem n w' (m(key \<mapsto> take (nat len) val))
     \<or> res = KV_ERR_NO_SPACE \<and> kv_holds mem n w' m"
  by (rule flash_dev.set_contract [OF assms(1,2) refl assms(3-8)])

lemma kv_set_refines_demo:
  "0 = KV_OK \<and> kv_holds (\<lambda>f. f) 4 demo_world1 (Map.empty(demo_key \<mapsto> take (nat 4) demo_val))
     \<or> 0 = KV_ERR_NO_SPACE \<and> kv_holds (\<lambda>f. f) 4 demo_world1 Map.empty"
  by (rule kv_set_refines [OF demo_dev demo_facts(3) _ _ _ _ _ demo1_facts(1)])
    (simp_all add: demo_key_def demo_val_def)

text \<open>
  C2. kv_item_get returns exactly what the represented map has: KV_ERR_NOT_FOUND for an
  absent key, KV_ERR_NO_SPACE with the needed length for a buffer that is too small,
  otherwise the value and its length; the store still represents the same map and the
  mutex is free again. Every allocation succeeds (heap_ok, part of kv_holds).
\<close>

theorem kv_get_exact:
  assumes "flash_dev hal mem (n * KV_BLOCK_SIZE)" "kv_holds mem n w m" "0 < bl"
  shows "\<exists>w'. kv_holds mem n w' m \<and> kv_item_get hal n (Some key) (Some bl) w =
    Some (case m key of
        None \<Rightarrow> (KV_ERR_NOT_FOUND, None, Some bl, w')
      | Some v \<Rightarrow> if bl < int (length v) then (KV_ERR_NO_SPACE, None, Some (int (length v)), w')
                 else (KV_OK, Some v, Some (int (length v)), w'))"
  by (rule flash_dev.get_contract [OF assms(1,2) refl assms(3)])

lemma kv_get_exact_demo:
  "\<exists>w'. kv_item_get demo_hal 4 (Some demo_key) (Some 64) demo_world1
     = Some (KV_OK, Some demo_val, Some 4, w')"
  using kv_get_exact [OF demo_dev demo1_facts(2), of 64 demo_key] by (auto simp: demo_val_def)

text \<open>
  C3. kv_item_delete removes the key from the represented map: it reports KV_OK when
  the key was bound and KV_ERR_NOT_FOUND when it was not, and the state represents the
  map without the key, all other bindings untouched. Every allocation succeeds
  (heap_ok, part of kv_holds).
\<close>

theorem kv_delete_refines:
  assumes "flash_dev hal mem (n * KV_BLOCK_SIZE)" "kv_holds mem n w m"
  shows "\<exists>w'. kv_item_delete hal n key w
      = Some (if m key = None then KV_ERR_NOT_FOUND else KV_OK, w') \<and> kv_holds mem n w' (m(key := None))"
  by (rule flash_dev.delete_contract [OF assms(1,2) refl])

lemma kv_delete_refines_demo:
  "\<exists>w'. kv_item_delete demo_hal 4 demo_key demo_world1 = Some (KV_OK, w')
     \<and> kv_holds (\<lambda>f. f) 4 w' Map.empty"
  using kv_delete_refines [OF demo_dev demo1_facts(2), of demo_key] by simp

text \<open>
  C4. The garbage collection task, when one was started, always returns, clears
  gc_trigger, releases the mutex and keeps the represented map: copying the live items
  of a dirty block into the reserved clean block and formatting the dirty one loses and
  duplicates nothing. Every allocation succeeds (heap_ok, part of kv_holds).
\<close>

theorem kv_gc_preserves_map:
  assumes "flash_dev hal mem (n * KV_BLOCK_SIZE)" "kv_holds mem n w m" "0 < w_gc_tasks w"
  shows "\<exists>w'. run_gc hal n w = Some w' \<and> kv_holds mem n w' m \<and> \<not> gc_trigger (w_mgr w')"
  by (rule flash_dev.run_gc_contract [OF assms(1,2) refl assms(3)])

lemma kv_gc_preserves_map_demo:
  "\<exists>w'. run_gc demo_hal 4 (kv_trigger_gc demo_world1) = Some w'
     \<and> kv_holds (\<lambda>f. f) 4 w' [demo_key \<mapsto> demo_val] \<and> \<not> gc_trigger (w_mgr w')"
  by (rule kv_gc_preserves_map [OF demo_dev demo1_triggered])

text \<open>
  C5. A restart keeps the map: from any consistent flash with a clean block (used and
  dirty blocks with live and deleted items, as left by earlier calls), kv_init on a
  fresh management structure reads every block, runs the recovery callback on every
  live item, rebuilds the block table, the clean count and the write position, and the
  store then represents the map it represented before, with no byte of the flash
  changed. The offset of a replaced item that an item carries must not lead to bytes
  that look like a live item of the key (it may be stale after a collection). Every
  allocation succeeds (heap_ok, part of kv_holds).
\<close>

theorem kv_restart_keeps_map:
  assumes "flash_dev hal mem (n * KV_BLOCK_SIZE)"
    and "kv_inv mem n w blks" "unique_keys blks" "0 < clean_blk_nums (w_mgr w)"
    and "origins_ok (mem (w_flash w)) (n * KV_BLOCK_SIZE) blks"
    and "mem (w_flash w0) = mem (w_flash w)" "heap_ok w0" "\<not> inited (w_mgr w0)"
  shows "\<exists>w'. kv_init hal n True True w0 = (KV_OK, w') \<and> inited (w_mgr w')
    \<and> mem (w_flash w') = mem (w_flash w) \<and> kv_holds mem n w' (kv_lookup blks)"
  by (rule flash_dev.restart_contract [OF assms(1) refl assms(2-8)])

lemma kv_restart_keeps_map_demo:
  "\<exists>w'. kv_init demo_hal 4 True True (blank_world\<lparr>w_flash := used_mem\<rparr>) = (KV_OK, w') \<and> inited (w_mgr w')
    \<and> w_flash w' = used_mem \<and> kv_holds (\<lambda>f. f) 4 w' [demo_key \<mapsto> demo_val]"
  using kv_restart_keeps_map [OF demo_dev used_inv used_facts(1), of "blank_world\<lparr>w_flash := used_mem\<rparr>"]
    used_facts(2,3) by (simp add: used_world_def blank_world_def heap_ok_def)

text \<open>
  C6. With more than two blocks, no collection pending and some block with more free
  bytes than the aligned item needs, kv_item_set returns KV_OK and the key is bound to
  the value: the search for a position ends, takes a block (a clean one included) and
  the write goes through. Every allocation succeeds (heap_ok, part of kv_holds).
\<close>

theorem kv_set_with_room_succeeds:
  assumes "flash_dev hal mem (n * KV_BLOCK_SIZE)" "kv_holds mem n w m" "2 < n"
    and "0 < length key" "length key \<le> KV_MAX_KEY_LEN"
    and "0 < len" "len \<le> 512" "len \<le> int (length val)"
    and "\<not> gc_trigger (w_mgr w)"
    and "c < n" "KV_ALIGN (KV_ITEM_HDR_SIZE + length key + nat len) < bi_space (get_info w c)"
  shows "\<exists>w'. kv_item_set hal n (Some key) (Some val) len w = Some (KV_OK, w')
     \<and> kv_holds mem n w' (m(key \<mapsto> take (nat len) val))"
  using flash_dev.set_room_contract [OF assms(1,2) refl assms(3-10)] assms(11)
  by (simp add: get_info_def)

lemma kv_set_with_room_succeeds_demo:
  "\<exists>w'. kv_item_set demo_hal 4 (Some demo_key) (Some demo_val) 4 demo_world = Some (KV_OK, w')
     \<and> kv_holds (\<lambda>f. f) 4 w' (Map.empty(demo_key \<mapsto> take (nat 4) demo_val))"
  by (rule kv_set_with_room_succeeds [OF demo_dev demo_facts(3), where c = 1])
    (use demo_facts(4) demo_facts(6) [of 1] in \<open>simp_all add: demo_key_def demo_val_def get_info_def KV_ALIGN_def\<close>)

text \<open>
  C7. kv_item_store returns unless the allocation succeeds, the write position lies in
  block 0, there are more than two blocks and no block has room: then the loop of
  kv_calc_position, which compares i with blk_idx before i is wrapped to 0, never ends
  (the code is called with the mutex held).
\<close>

theorem kv_store_returns_iff:
  assumes "n \<le> 15" "write_pos (w_mgr w) div KV_BLOCK_SIZE < n"
  shows "kv_item_store hal n key val len origin_off w = None \<longleftrightarrow>
    fst (kv_malloc w) \<and> write_pos (w_mgr w) div KV_BLOCK_SIZE = 0 \<and> 2 < n
    \<and> (\<forall>b<n. bi_space (get_info w b) \<le> u16 (KV_ALIGN (KV_ITEM_HDR_SIZE + u8 (length key) + u16 len)))"
  by (rule store_none [OF assms])

lemma kv_store_returns_iff_demo:
  "kv_item_store demo_hal 4 demo_key demo_val 4 0 full_world = None"
  using kv_store_returns_iff [of 4 full_world demo_hal demo_key demo_val 4 0]
  by (simp add: full_world_def blank_world_def kv_malloc_def get_info_def demo_key_def KV_ALIGN_def)

text \<open>
  C8. kv_init on flash without block headers formats every block, succeeds, takes block
  0 into use at offset 4 and yields a store that represents the empty map with all
  blocks free.
\<close>

theorem kv_init_on_blank_flash:
  assumes "flash_dev hal mem (n * KV_BLOCK_SIZE)" "2 \<le> n" "n \<le> 15" "heap_ok w" "\<not> inited (w_mgr w)"
    and "\<forall>b<n. mem (w_flash w) (blk_base b) \<noteq> KV_BLOCK_MAGIC_NUM"
  shows "\<exists>w'. kv_init hal n True True w = (KV_OK, w') \<and> inited (w_mgr w') \<and> kv_holds mem n w' Map.empty
     \<and> write_pos (w_mgr w') = KV_BLOCK_HDR_SIZE
     \<and> (\<forall>b<n. bi_space (get_info w' b) = KV_BLOCK_SIZE - KV_BLOCK_HDR_SIZE)"
  using flash_dev.init_blank_contract [OF assms(1-3) refl assms(4-6)] by (auto simp: get_info_def)

lemma kv_init_on_blank_flash_demo:
  "\<exists>w'. kv_init demo_hal 4 True True blank_world = (KV_OK, w') \<and> inited (w_mgr w')
     \<and> kv_holds (\<lambda>f. f) 4 w' Map.empty \<and> write_pos (w_mgr w') = KV_BLOCK_HDR_SIZE
     \<and> (\<forall>b<4. bi_space (get_info w' b) = KV_BLOCK_SIZE - KV_BLOCK_HDR_SIZE)"
  by (rule kv_init_on_blank_flash [OF demo_dev]) (simp_all add: blank_world_def heap_ok_def)

text \<open>
  C9. When the encryption fails, kv_item_secure_set returns (unless its parameters are
  refused) with the mutex held: afterwards every kv_item_get with a buffer, every
  kv_item_delete, and every kv_item_set and kv_item_secure_set whose own parameters are
  accepted (any key, value and length, also one that first runs the pending collection)
  blocks for ever.
\<close>

theorem kv_secure_set_keeps_mutex:
  assumes "encrypt (take (nat len) val) = None" "res \<noteq> KV_ERR_INVALID_PARAM"
    and "kv_item_secure_set hal n encrypt (Some key) (Some val) len w = Some (res, w')"
  shows "(\<forall>k bl. 0 < bl \<longrightarrow> kv_item_get hal n (Some k) (Some bl) w' = None)
     \<and> (\<forall>k. kv_item_delete hal n k w' = None)
     \<and> (\<forall>k v l. length k \<le> KV_MAX_KEY_LEN \<longrightarrow> 0 < l \<longrightarrow> l \<le> int KV_MAX_VAL_LEN \<longrightarrow>
          kv_item_set hal n (Some k) (Some v) l w' = None
          \<and> (\<forall>enc. kv_item_secure_set hal n enc (Some k) (Some v) l w' = None))"
  using secure_set_leak [OF assms]
  by (simp add: held_get held_delete held_set held_secure_set set_params_bad_def)

lemma kv_secure_set_keeps_mutex_demo:
  "\<exists>w'. kv_item_secure_set demo_hal 4 (\<lambda>_. None) (Some demo_key) (Some demo_val) 4 demo_world
        = Some (KV_ERR_ENCRYPT, w')
     \<and> kv_item_get demo_hal 4 (Some demo_key) (Some 64) w' = None \<and> kv_item_delete demo_hal 4 demo_key w' = None
     \<and> kv_item_set demo_hal 4 (Some [98]) (Some [1]) 1 w' = None"
proof -
  obtain w' where w': "kv_item_secure_set demo_hal 4 (\<lambda>_. None) (Some demo_key) (Some demo_val) 4 demo_world
        = Some (KV_ERR_ENCRYPT, w')"
    using demo_secure_fails by blast
  from kv_secure_set_keeps_mutex [OF _ _ w'] w' show ?thesis by auto
qed

section \<open>The MQTT client and the TCP stream\<close>

text \<open>
  C10. Over streams that work in time, wrapper_mqtt_publish sends exactly the PUBLISH
  packet of the message; when another client receives these bytes, one iotx_mc_cycle
  takes them from the stream, calls every handler whose filter hears the topic (or the
  default handler) once with the same topic and payload, and acknowledges a message of
  quality 1. Allocations succeed (malloc_ok, part of the contract of the stream).
\<close>

theorem mqtt_publish_reaches_handlers:
  assumes "duplex pa sa oa ka" and "duplex pb sb ob kb" and "may_send t msg a"
    and "may_hear t (length (publish_packet t (numbered msg a))) b"
  shows "\<exists>id a'. wrapper_mqtt_publish pa (Some t) (Some msg) a = Some (int id, a') \<and>
    oa (mc_net a') = oa (mc_net a) @ publish_packet t (numbered msg a) \<and>
    (\<forall>rest. sb (mc_net b) = publish_packet t (numbered msg a) @ rest \<longrightarrow>
      (\<exists>b' tail. iotx_mc_cycle pb timer b = Some (0, b') \<and> sb (mc_net b') = rest \<and>
        mc_calls b' = mc_calls (deliver t (heard 0 (pm_qos msg) (pm_retain msg) (pm_packet_id (numbered msg a)) t
          (take (pm_payload_len msg) (the (pm_payload msg))) tail) b) \<and>
        ob (mc_net b') = ob (mc_net b) @ (if pm_qos msg = 1 then packet (ack_header PUBACK 0) (be16 id) else [])))"
  by (rule send_then_hear [OF assms])

lemma mqtt_publish_reaches_handlers_demo:
  "\<exists>id a' b'. wrapper_mqtt_publish list_platform (Some (str ''room/1'')) (Some demo_msg) (demo_client []) = Some (int id, a') \<and>
    ls_out (mc_net a') = [0x32, 12, 0, 6, 114, 111, 111, 109, 47, 49, 0, 42, 111, 110] \<and>
    iotx_mc_cycle list_platform 0 (demo_client (ls_out (mc_net a'))) = Some (0, b') \<and>
    map (the \<circ> h_fp \<circ> fst) (mc_calls b') = [1, 3] \<and> ls_in (mc_net b') = []"
proof -
  let ?p = "[0x32, 12, 0, 6, 114, 111, 111, 109, 47, 49, 0, 42, 111, 110] :: byte list"
  have k: "told (str ''room/1'') demo_handles = [\<lparr>h_fp = Some 1, pcontext = 5\<rparr>, \<lparr>h_fp = Some 3, pcontext = 7\<rparr>]"
    by code_simp
  have net: "ls_out (mc_net (demo_client x)) = []" "ls_in (mc_net (demo_client x)) = x"
    "mc_calls (demo_client x) = []" "mc_list_sub_handle (demo_client x) = demo_handles" for x
    by (simp_all add: demo_client_def)
  obtain id a' where a: "wrapper_mqtt_publish list_platform (Some (str ''room/1'')) (Some demo_msg) (demo_client []) = Some (int id, a')"
      "ls_out (mc_net a') = ?p"
    and b: "\<forall>rest. ?p = ?p @ rest \<longrightarrow> (\<exists>b' tail. iotx_mc_cycle list_platform 0 (demo_client ?p) = Some (0, b') \<and>
      ls_in (mc_net b') = rest \<and> mc_calls b' = mc_calls (deliver (str ''room/1'') (heard 0 (pm_qos demo_msg) (pm_retain demo_msg)
        (pm_packet_id (demo_msg\<lparr>pm_packet_id := 42\<rparr>)) (str ''room/1'')
          (take (pm_payload_len demo_msg) (the (pm_payload demo_msg))) tail) (demo_client ?p)))"
    using mqtt_publish_reaches_handlers [OF demo_duplex demo_duplex demo_may_send demo_hears, of "[]" ?p 0]
    unfolding demo_numbered demo_packet net append_Nil by blast
  obtain b' msg where r: "iotx_mc_cycle list_platform 0 (demo_client ?p) = Some (0, b')" "ls_in (mc_net b') = []"
    "mc_calls b' = mc_calls (deliver (str ''room/1'') msg (demo_client ?p))"
    using b [rule_format, of "[]"] by (metis append_Nil2)
  have "map (the \<circ> h_fp \<circ> fst) (mc_calls b') = [1, 3]"
    unfolding r(3) by (simp only: deliver_def called_def Let_def net k) simp
  then show ?thesis using a r(1,2) by metis
qed

text \<open>
  C11. On any platform the list of publications that wait for an acknowledgement is a
  queue of identifiers and packets: a publish of quality above 0 appends its packet
  exactly when it reports success, a PUBACK removes the packets of its identifier and
  no others, and the periodic processing, which sends again and removes acknowledged
  nodes, loses nothing and keeps the order.
\<close>

theorem mqtt_pending_is_queue:
  assumes "msg_ok t msg" and "0 < pm_qos msg" and "pid < 65536" and "length extra < 268435454"
  shows "(MQTTPublish pf t msg c = Some (rc, c') \<longrightarrow>
      (if rc = 0 then pending c' = pending c @ [(pm_packet_id msg, publish_packet t msg)] else rc < 0 \<and> pending c' = pending c)) \<and>
    (mc_buf_read d = Some (packet h (be16 pid @ extra) @ tail) \<longrightarrow>
      (\<exists>d'. iotx_mc_handle_recv_PUBACK d = Some (0, d') \<and> pending d' = filter (\<lambda>(i, _). i \<noteq> pid) (pending d))) \<and>
    (MQTTPubInfoProc pf e = Some (rc2, e') \<longrightarrow> pending e' = pending e)"
  using publish_pending [of pf t msg c rc c', OF _ assms(1,2)] recv_PUBACK [of d h pid extra tail, OF _ assms(4,3)]
    proc_pending(1) by auto

lemma mqtt_pending_is_queue_demo:
  "\<exists>d'. iotx_mc_handle_recv_PUBACK demo_waiting = Some (0, d') \<and> pending d' = [(43, [2])]"
proof -
  have "msg_ok (str ''room/1'') (demo_msg\<lparr>pm_packet_id := 42\<rparr>)"
    using demo_may_send [of "[]"] unfolding may_send_def demo_numbered by simp
  moreover have "mc_buf_read demo_waiting = Some (packet 0x40 (be16 42 @ []) @ [])"
    "pending demo_waiting = [(42, [1]), (43, [2])]" by (simp_all add: demo_waiting_def)
  ultimately show ?thesis
    using mqtt_pending_is_queue [of "str ''room/1''" "demo_msg\<lparr>pm_packet_id := 42\<rparr>" 42 "[]" list_platform demo_waiting 0 demo_waiting
      demo_waiting "0x40" "[]"] by (simp add: demo_msg_def)
qed

text \<open>
  C12. Whatever the platform does, no sequence of the public calls connect, publish,
  subscribe, unsubscribe, yield and disconnect breaks the invariant of the client: the
  packet identifier has 16 bits, at most ten publications wait, their identifiers have
  16 bits, and no handler is twice in the list.
\<close>

theorem mqtt_client_keeps_invariant:
  assumes "mqtt_reaches pf c c'" and "client_ok c"
  shows "client_ok c'"
  by (rule reaches_ok [OF assms])

lemma mqtt_client_keeps_invariant_demo:
  "\<exists>rc c'. wrapper_mqtt_publish list_platform (Some (str ''room/1'')) (Some demo_msg) (demo_client []) = Some (rc, c') \<and> client_ok c'"
proof -
  obtain id c' where r: "wrapper_mqtt_publish list_platform (Some (str ''room/1'')) (Some demo_msg) (demo_client []) = Some (int id, c')"
    using send_then_hear [OF demo_duplex demo_duplex demo_may_send demo_hears] by blast
  have "mqtt_reaches list_platform (demo_client []) c'"
    by (rule mqtt_reaches.call [OF mqtt_reaches.stay, of "Publish (Some (str ''room/1'')) (Some demo_msg)"])
      (use r in \<open>simp_all add: demo_msg_def\<close>)
  moreover have "client_ok (demo_client [])" by (simp add: client_ok_def demo_client_def demo_handles_def)
  ultimately show ?thesis using r mqtt_client_keeps_invariant by blast
qed

text \<open>
  C13. When the stream begins with a packet of any size below 256 MB,
  iotx_mc_read_packet takes exactly this packet: a packet that fits is in the buffer
  with its type, a larger one is read and dropped with one overflow event, and in both
  cases the next packet is at the head of the stream. Allocations succeed (malloc_ok,
  part of the contract of the stream).
\<close>

theorem mqtt_packets_stay_framed:
  assumes "byte_stream pf stream" and "stream (mc_net c) = packet h body @ rest" and "length body < 268435456"
    and "mc_buf_read c = None" and "5 \<le> mc_buf_size_read_max c"
  shows "\<exists>ty c'. iotx_mc_read_packet pf timer c = Some (0, ty, c') \<and> stream (mc_net c') = rest \<and>
    (if length (packet h body) \<le> mc_buf_size_read_max c \<or> body = []
     then ty = MQTT_HEADER_GET_TYPE h \<and> (\<exists>tail. mc_buf_read c' = Some (packet h body @ tail)) \<and> mc_calls c' = mc_calls c
     else ty = 0 \<and> mc_calls c' = mc_calls c @ (if h_fp (mc_handle_event c) = None then [] else [(mc_handle_event c, EVENT_BUFFER_OVERFLOW)]))"
proof (cases "length (packet h body) \<le> mc_buf_size_read_max c \<or> body = []")
  case True
  then show ?thesis using byte_stream.read_packet_fits [OF assms True, of timer] by auto
next
  case False
  then have long: "mc_buf_size_read_max c < length (packet h body)" "body \<noteq> []" by auto
  then obtain n b k where "stream n = rest" "iotx_mc_read_packet pf timer c = Some (0, 0,
      handle_event (mc_handle_event c) EVENT_BUFFER_OVERFLOW (c\<lparr>mc_net := n, mc_buf_read := b, mc_buf_size_read := k\<rparr>))"
    using byte_stream.read_packet_skips [OF assms, of timer] by blast
  then show ?thesis using False by (simp add: handle_event_def)
qed

lemma mqtt_packets_stay_framed_demo:
  "\<exists>ty c'. iotx_mc_read_packet list_platform 0 (demo_client (packet 0x30 (replicate 100 7) @ [0xD0, 0])) = Some (0, ty, c') \<and>
    ls_in (mc_net c') = [0xD0, 0]"
proof -
  have "ls_in (mc_net (demo_client (packet 0x30 (replicate 100 7) @ [0xD0, 0]))) = packet 0x30 (replicate 100 7) @ [0xD0, 0]"
    "mc_buf_read (demo_client (packet 0x30 (replicate 100 7) @ [0xD0, 0])) = None"
    "5 \<le> mc_buf_size_read_max (demo_client (packet 0x30 (replicate 100 7) @ [0xD0, 0]))"
    by (simp_all add: demo_client_def)
  then show ?thesis
    using mqtt_packets_stay_framed [OF demo_stream, of "demo_client (packet 0x30 (replicate 100 7) @ [0xD0, 0])" "0x30" "replicate 100 7"]
    by (metis (no_types, lifting) length_replicate numeral_less_iff rel_simps)
qed

text \<open>
  C14. For a valid filter iotx_mc_is_topic_matched decides the matching of the MQTT
  standard level by level, except that the code never lets a wildcard stand for an
  empty level or for nothing.
\<close>

theorem mqtt_topic_match_is_standard:
  assumes "ls_data t = Some d" and "0 \<le> ls_len t" and "ls_len t \<le> int (length d)" and "filter_ok (levels f)"
  shows "iotx_mc_is_topic_matched (Some f) (Some t) = Some
    (mqtt_match (levels f) (levels (take (nat (ls_len t)) d)) \<and>
     wildcards_filled (levels f) (levels (take (nat (ls_len t)) d)))"
  by (rule topic_matched_iff [OF refl assms])

lemma mqtt_topic_match_is_standard_demo:
  "iotx_mc_is_topic_matched (Some (str ''a/+/c/#'')) (Some \<lparr>cstring = None, ls_len = 9, ls_data = Some (str ''a/b/c/d/eZZ'')\<rparr>) = Some True \<and>
   iotx_mc_is_topic_matched (Some (str ''a/#'')) (Some \<lparr>cstring = None, ls_len = 1, ls_data = Some (str ''a'')\<rparr>) = Some False"
proof -
  have "filter_ok (levels (str ''a/+/c/#''))" "filter_ok (levels (str ''a/#''))" by code_simp+
  moreover have "mqtt_match (levels (str ''a/+/c/#'')) (levels (take 9 (str ''a/b/c/d/eZZ'')))" by code_simp
  moreover have "wildcards_filled (levels (str ''a/+/c/#'')) (levels (take 9 (str ''a/b/c/d/eZZ'')))" by code_simp
  moreover have "\<not> wildcards_filled (levels (str ''a/#'')) (levels (take 1 (str ''a'')))" by code_simp
  ultimately show ?thesis
    using mqtt_topic_match_is_standard [of "\<lparr>cstring = None, ls_len = 9, ls_data = Some (str ''a/b/c/d/eZZ'')\<rparr>" _ "str ''a/+/c/#''"]
      mqtt_topic_match_is_standard [of "\<lparr>cstring = None, ls_len = 1, ls_data = Some (str ''a'')\<rparr>" _ "str ''a/#''"]
    by (simp add: str_def)
qed

text \<open>
  C15. A PUBLISH packet that MQTTSerialize_publish wrote, within the buffer, is read
  back by MQTTDeserialize_publish, whatever follows it: flags, quality, identifier,
  topic and payload are the same.
\<close>

theorem mqtt_publish_roundtrip:
  assumes "str_ok topic" and "plen \<le> length payload" and "pid < 65536"
    and "dup \<le> 1" and "0 \<le> qos" and "qos \<le> 3" and "retained \<le> 1"
    and "length (publish_body qos pid topic (take plen payload)) < 268435456" and "buflen \<le> int (length buf)"
    and "MQTTSerialize_publish buf buflen dup qos retained (int pid) topic payload (int plen) = Some (rc, b)" and "0 < rc"
  shows "rc \<le> buflen \<and> drop (nat rc) b = drop (nat rc) buf \<and>
    (\<exists>out'. MQTTDeserialize_publish out (take (nat rc) b @ tail) = Some (1, out') \<and>
      po_dup out' = dup \<and> po_qos out' = qos \<and> po_retained out' = retained \<and>
      (0 < qos \<longrightarrow> po_packetid out' = int pid) \<and> str_bytes (po_topic out') = str_bytes topic \<and>
      po_payloadlen out' = int plen \<and> map_option (take plen) (po_payload out') = Some (take plen payload))"
  by (rule publish_roundtrip [OF assms])

lemma mqtt_publish_roundtrip_demo:
  "\<exists>rc b out'. MQTTSerialize_publish (replicate 20 0) 20 0 1 0 7 (cstring_of (str ''t/1'')) [104, 105] 2 = Some (rc, b) \<and>
    MQTTDeserialize_publish publish_zero (take (nat rc) b) = Some (1, out') \<and> po_packetid out' = 7"
proof -
  have ok: "str_ok (cstring_of (str ''t/1''))" by (simp add: str_ok_def cstring_of_def MQTTString_initializer_def str_def)
  have small: "length (publish_body 1 7 (cstring_of (str ''t/1'')) (take 2 [104, 105])) < 268435456"
    by (simp add: publish_body_def str_bytes_def cstring_of_def MQTTString_initializer_def str_def)
  have run: "MQTTSerialize_publish (replicate 20 0) 20 0 1 0 (int 7) (cstring_of (str ''t/1'')) [104, 105] (int 2)
    = Some (11, [0x32, 9, 0, 3, 116, 47, 49, 0, 7, 104, 105] @ replicate 9 0)" by code_simp
  show ?thesis
    using mqtt_publish_roundtrip [OF ok _ _ _ _ _ _ small _ run, of publish_zero "[]"] run by fastforce
qed

text \<open>
  C16. Every serializer either reports that the buffer is too short and leaves it
  alone, or writes exactly its packet, within buflen, and returns its length: PUBLISH,
  acknowledgements, SUBSCRIBE, UNSUBSCRIBE, CONNECT and the packets without a body.
\<close>

theorem mqtt_serializers_in_bounds:
  assumes "buflen \<le> int (length buf)" and "str_ok topic" and "plen \<le> length payload"
    and "length (publish_body qos pid topic (take plen payload)) < 268435456"
    and "list_all (\<lambda>(f, _). str_ok f) subs" and "length (be16 pid @ subs_body subs) < 268435456"
    and "list_all str_ok fs" and "length (be16 pid @ filters_body fs) < 268435456"
    and "connect_ok d" and "length (connect_body d) < 268435456"
  shows "emits buf buflen (packet (publish_header dup qos retained) (publish_body qos pid topic (take plen payload)))
      (MQTTSerialize_publish buf buflen dup qos retained (int pid) topic payload (int plen)) \<and>
    emits buf buflen (packet (ack_header ty dup) (be16 pid)) (MQTTSerialize_ack buf buflen ty dup (int pid)) \<and>
    emits buf buflen (packet (request_header SUBSCRIBE dup) (be16 pid @ subs_body subs))
      (MQTTSerialize_subscribe buf buflen dup (int pid) subs) \<and>
    emits buf buflen (packet (request_header UNSUBSCRIBE dup) (be16 pid @ filters_body fs))
      (MQTTSerialize_unsubscribe buf buflen dup (int pid) fs) \<and>
    emits buf buflen (packet (MQTT_HEADER_SET_TYPE 0 CONNECT) (connect_body d)) (MQTTSerialize_connect buf buflen d) \<and>
    emits buf buflen (packet (MQTT_HEADER_SET_TYPE 0 ty) []) (MQTTSerialize_zero buf buflen ty)"
  using publish_wire [OF assms(2,3) refl assms(4,1)] ack_wire [OF assms(1)] subscribe_wire [OF assms(5) refl assms(6,1)]
    unsubscribe_wire [OF assms(7) refl assms(8,1)] connect_wire [OF assms(9) refl assms(10,1)] zero_wire [OF assms(1)]
  by blast

lemma mqtt_serializers_in_bounds_demo:
  "emits (replicate 40 0) 40 (packet (MQTT_HEADER_SET_TYPE 0 CONNECT) (connect_body demo_connect))
     (MQTTSerialize_connect (replicate 40 0) 40 demo_connect)"
proof -
  have "connect_ok demo_connect" "str_ok (cstring_of (str ''a''))"
    by (simp_all add: connect_ok_def demo_connect_def str_ok_def cstring_of_def MQTTString_initializer_def str_def)
  moreover have "length (connect_body demo_connect) < 268435456"
    by (simp add: connect_body_def demo_connect_def str_field_def str_bytes_def cstring_of_def MQTTString_initializer_def str_def)
  ultimately show ?thesis
    using mqtt_serializers_in_bounds [of 40 "replicate 40 0" "cstring_of (str ''a'')" 0 "[]" 0 0 "[]" "[]" demo_connect]
    by (simp add: publish_body_def str_bytes_def cstring_of_def MQTTString_initializer_def str_def)
qed

text \<open>
  C17. Over any stream socket of the system amp_tcp_read returns the next bytes of the
  peer, in order and each once, never more than asked for, and amp_tcp_write hands a
  prefix of the buffer to the peer, whose length it returns unless it reports an error.
\<close>

theorem tcp_stream_in_order:
  assumes "socket os sent stream"
  shows "(amp_tcp_read os fd len t n = Some ((rc, bs), n') \<longrightarrow> stream n = bs @ stream n' \<and> length bs \<le> len \<and>
      sent n' = sent n \<and> (if bs = [] then rc \<le> 0 else rc = int (length bs))) \<and>
    (amp_tcp_write os fd buf t m = Some (rc2, m') \<longrightarrow>
      (\<exists>k\<le>length buf. sent m' = sent m @ take k buf \<and> stream m' = stream m \<and> (rc2 = int k \<or> rc2 = -1)))"
  using socket.tcp_read_takes [OF assms, of fd len t n rc bs n'] socket.tcp_write_puts [OF assms, of fd buf t m rc2 m']
  by auto

lemma tcp_stream_in_order_demo:
  "\<exists>k\<le>9. \<exists>rc m'. amp_tcp_write list_os 3 (replicate 9 1) 5 \<lparr>ls_in = [], ls_out = [], ls_now = 0\<rparr> = Some (rc, m') \<and>
    ls_out m' = replicate k 1"
proof -
  obtain m' where "amp_tcp_write list_os 3 (replicate 9 1) 5 \<lparr>ls_in = [], ls_out = [], ls_now = 0\<rparr> = Some (9, m')"
    using listed.tcp_write_full [of 3 5 "replicate 9 1" "\<lparr>ls_in = [], ls_out = [], ls_now = 0\<rparr>"] by (auto simp: FD_SETSIZE_def)
  with tcp_stream_in_order [OF listed.socket_axioms, where fd = 3 and buf = "replicate 9 1" and t = 5
      and m = "\<lparr>ls_in = [], ls_out = [], ls_now = 0\<rparr>" and ?rc2.0 = 9 and m' = m'] show ?thesis by (auto simp: min_def)
qed

text \<open>
  C18. On a socket whose bytes are ready and whose time passes only while a call waits,
  amp_tcp_read returns, and when the bytes are there it returns all of them;
  amp_tcp_write hands over the whole buffer.
\<close>

theorem tcp_socket_drives_client:
  assumes "prompt_socket os sent stream clock" and "fd < FD_SETSIZE" and "0 < t"
  shows "amp_tcp_read os fd len t n \<noteq> None \<and>
    (0 < len \<and> len \<le> length (stream n) \<longrightarrow>
      (\<exists>n'. amp_tcp_read os fd len t n = Some ((int len, take len (stream n)), n') \<and> stream n' = drop len (stream n))) \<and>
    (\<exists>n'. amp_tcp_write os fd buf t n = Some (int (length buf), n') \<and> sent n' = sent n @ buf)"
  using prompt_socket.tcp_read_ends [OF assms(1)] prompt_socket.tcp_read_full [OF assms]
    prompt_socket.tcp_write_full [OF assms, of buf n] by blast

lemma tcp_socket_drives_client_demo:
  "\<exists>n'. amp_tcp_read list_os 3 10 5 \<lparr>ls_in = replicate 20 8, ls_out = [], ls_now = 0\<rparr> = Some ((10, replicate 10 8), n')"
  using tcp_socket_drives_client [OF listed.prompt_socket_axioms, of 3 5 10 "\<lparr>ls_in = replicate 20 8, ls_out = [], ls_now = 0\<rparr>" "[]"]
  by (auto simp: FD_SETSIZE_def)

section \<open>Captures, reports and the serial receiver\<close>

text \<open>
  C19. Diagnosis captures over the file store: when the save task has written all
  changed targets, a restart (und_cap_manage_init on the same store) rebuilds exactly
  the targets that were in memory, by replaying the stored counters through
  und_update_cap. Memory and file operations succeed (lk_healthy, part of lk_holds).
\<close>

theorem und_captures_survive_restart:
  assumes "cap_ready w" "length (cap_targets w) = 6" "length (cap_wb w) = 6" "lk_holds (uw_store w) m"
    and "\<forall>i<6. case cap_targets w ! i of
        None \<Rightarrow> \<not> cap_wb w ! i \<and> m (und_kv_key i) = None
      | Some t \<Rightarrow> cap_ok t \<and> 0 < ct_idx t \<and> (cap_wb w ! i \<or> m (und_kv_key i) = Some (enc_target t))"
    and "und_cap_manage_save_task lk_ops w = Some w1" "cap_save_armed w1 = None"
    and "uw_store w2 = uw_store w1" "\<not> cap_ready w2" "\<forall>i. uw_alloc w2 i" "cap_wb w2 = replicate 6 False"
  shows "\<exists>w3. und_cap_manage_init lk_ops w2 = Some (UND_SUCCESS, w3) \<and> cap_targets w3 = cap_targets w"
  using lkv.saved_restored [OF lk_und_keys lk_target_val assms(1-5)] assms(6-11)
  unfolding lk_ops_def by blast

lemma und_captures_survive_restart_demo:
  "\<exists>w1 w3. und_cap_manage_save_task lk_ops und_demo = Some w1
     \<and> und_cap_manage_init lk_ops (und_blank\<lparr>uw_store := uw_store w1\<rparr>) = Some (UND_SUCCESS, w3)
     \<and> cap_targets w3 = cap_targets und_demo"
proof -
  obtain w1 where w1: "und_cap_manage_save_task lk_ops und_demo = Some w1" "cap_save_armed w1 = None"
    using und_demo_save by blast
  have "\<exists>w3. und_cap_manage_init lk_ops (und_blank\<lparr>uw_store := uw_store w1\<rparr>) = Some (UND_SUCCESS, w3)
     \<and> cap_targets w3 = cap_targets und_demo"
    by (rule und_captures_survive_restart [where m = Map.empty, OF _ _ _ _ _ w1])
      (use lk_demo_facts(2) demo_target_ok in \<open>auto simp: und_demo_def und_blank_def nth_list_update
         demo_target_def split: option.splits if_splits\<close>)
  with w1(1) show ?thesis by blast
qed

text \<open>
  C20. und_build_package never writes past the report buffer: whatever captures are
  packed on top of an earlier failed report, the text in the buffer of 1344 bytes stays
  below its size.
\<close>

theorem und_report_buffer_bound:
  assumes "und_build_package env w = Some (r, w')" "rep_buf w' = Some b'"
    and "\<And>b. rep_buf w = Some b \<Longrightarrow> length b < UND_REPORT_TARGET_BUF_LEN"
  shows "length b' < UND_REPORT_TARGET_BUF_LEN"
  by (rule build_package_bound [OF assms(1,3,2)])

lemma und_report_buffer_bound_demo:
  "\<exists>r w' b'. und_build_package und_demo_env und_demo_sent = Some (r, w') \<and> rep_buf w' = Some b'
     \<and> length b' < UND_REPORT_TARGET_BUF_LEN"
proof -
  obtain r w' b' where w': "und_build_package und_demo_env und_demo_sent = Some (r, w')" "rep_buf w' = Some b'"
    using und_demo_build by blast
  from und_report_buffer_bound [OF w'] have "length b' < UND_REPORT_TARGET_BUF_LEN"
    by (simp add: und_demo_sent_def)
  with w' show ?thesis by blast
qed

text \<open>
  C21. A successful und_update_cap on a target in use adds exactly one to the count of
  the reported reason, changes no other count and no other target, and keeps the target
  well formed (pairwise different reasons, the ring of captures without gaps).
\<close>

theorem und_update_counts_once:
  assumes "cap_ready w" "i < UND_TARGETS" "cap_targets w ! i = Some t" "cap_ok t"
    and "- (2 ^ 31) \<le> r" "r < 2 ^ 31" "captured (Some t) r < 2 ^ 32 - 1"
    and "und_update_cap (int i) r wb w = (UND_SUCCESS, w')"
  shows "\<exists>t'. cap_targets w' = (cap_targets w)[i := Some t'] \<and> cap_ok t'
     \<and> (\<forall>q. captured (Some t') q = captured (Some t) q + (if q = r then 1 else 0))"
  by (rule update_counts [OF assms])

lemma und_update_counts_once_demo:
  "\<exists>w' t'. und_update_cap (int 1) 5 True und_demo = (UND_SUCCESS, w')
     \<and> cap_targets w' = (cap_targets und_demo)[1 := Some t'] \<and> cap_ok t'
     \<and> captured (Some t') 5 = captured (Some demo_target) 5 + 1"
proof -
  obtain w' where w': "und_update_cap (int 1) 5 True und_demo = (UND_SUCCESS, w')"
    using update_cap_ready [of und_demo 1 demo_target 5 True]
    by (simp add: und_demo_def bump_def demo_target_def)
  have "\<exists>t'. cap_targets w' = (cap_targets und_demo)[1 := Some t'] \<and> cap_ok t'
     \<and> (\<forall>q. captured (Some t') q = captured (Some demo_target) q + (if q = 5 then 1 else 0))"
    by (rule und_update_counts_once [OF _ _ _ demo_target_ok _ _ _ w'])
      (simp_all add: und_demo_def und_blank_def demo_target_def captured_def)
  then show ?thesis using w' by auto
qed

text \<open>
  C22. A complete YMODEM transfer (header with name and size, data blocks of 128 or
  1024 bytes with their CRC, two EOT, empty header) is received: ymodem_recv_file
  returns YMODEM_OK, hands exactly the payloads to the writer in order, records the
  announced size, consumes the whole line and gives the answers C ACK C ACK* NAK ACK C
  ACK. The block numbers are arbitrary: they are not checked.
\<close>

theorem ymodem_transfer_received:
  assumes "ym_fits name sz" "\<forall>(k, p)\<in>set blocks. length p = 128 \<or> length p = 1024"
    and "uart_in w = line_of (ym_transfer name sz blocks)"
  shows "ymodem_recv_file w = Some (YMODEM_OK, w\<lparr>uart_in := [],
     uart_out := uart_out w @ ym_answers (length blocks),
     ymodem_written := ymodem_written w @ map snd blocks, ymodem_flash_size := sz\<rparr>)"
  by (rule transfer_received [OF assms])

lemma ymodem_transfer_received_demo:
  "ymodem_recv_file \<lparr>uart_in = line_of (ym_transfer (str ''a.bin'') 200 [(1, replicate 128 7), (1, replicate 128 7)]),
      uart_out = [], ymodem_written = [], ymodem_flash_size = 0\<rparr>
   = Some (YMODEM_OK, \<lparr>uart_in = [], uart_out = ym_answers 2,
       ymodem_written = [replicate 128 7, replicate 128 7], ymodem_flash_size = 200\<rparr>)"
  using ymodem_transfer_received [of "str ''a.bin''" 200 "[(1, replicate 128 7), (1, replicate 128 7)]"]
  by (simp add: ym_fits_def dec_nat.simps flip: numeral_2_eq_2)

section \<open>The lexer, the symbol table and the JSON reader\<close>

text \<open>
  C23. A source text that is written from lexemes (words, decimal numbers, strings in
  double quotes with their escapes, operators and punctuation) with white space and
  comments before them and a space after them is read back by be_jse_lexer_init and
  next_token as exactly these tokens: kind (keyword or identifier, integer, string,
  operator) and bytes, in order, up to the end.
\<close>

theorem lexer_reads_source:
  assumes "source_ok xs"
  shows "\<exists>l'. be_jse_lexer_init oob l (Some (source_text xs)) 0 (-1) = Some l' \<and>
    token_list oob (length xs) l' = Some (map (\<lambda>(gs, x). (lexeme_tok x, lexeme_bytes x)) xs)"
  by (rule lexer_reads_source_lemma [OF assms])

lemma lexer_reads_source_demo:
  "\<exists>l'. be_jse_lexer_init no_oob (blank_lexer 0) (Some (str ''/*x*/ var s = '' @ [34, 92, 34, 34, 32] @ str ''== 42 '')) 0 (-1) = Some l' \<and>
    token_list no_oob (Suc (Suc (Suc (Suc (Suc (Suc 0)))))) l' = Some [(BE_TOKEN_KW_VAR, str ''var''), (BE_TOKEN_ID, str ''s''), (TK 61, []),
      (BE_TOKEN_STR, [34]), (BE_TOKEN_OP_EQUAL, []), (BE_TOKEN_INT, str ''42'')]"
  using lexer_reads_source [of "[([Block_comment (str ''x''), Space 32], LWord (str ''var'')), ([], LWord (str ''s'')),
      ([], LOp (TK 61)), ([], LStr [34]), ([], LOp BE_TOKEN_OP_EQUAL), ([], LInt (str ''42''))]" no_oob "blank_lexer 0"]
  by (simp add: source_ok_def ref_whitespace_def ref_alpha_def ref_numeric_def punct_def op_table_def
      op_text_def dquote_def keyword_of_def keyword_table_def del: token_list.simps)

text \<open>
  C24. On every source text (any bytes, any end position) a lexer returns from every
  call of next_token and reports the end of the source after finitely many tokens, at
  most one more than its measure (twice the bytes left plus the look-ahead).
\<close>

theorem lexer_reaches_end:
  assumes "lx_src l = Some s"
  shows "\<exists>ts. token_list oob (Suc (lx_measure l)) l = Some ts"
  using assms by (rule token_list_ends) simp

lemma lexer_reaches_end_demo:
  "\<exists>ts. token_list no_oob (Suc (lx_measure (last_lexer (str ''a!'')))) (last_lexer (str ''a!'')) = Some ts"
  using lexer_reaches_end [of "last_lexer (str ''a!'')" "str ''a!''" no_oob] by (simp add: last_lexer_def)

text \<open>
  C25. The names of an object are a list of string symbols linked by their siblings;
  lookup_named_child_symbol without creation is the search for the first equal name in
  this list: it returns that child, locked once, or no child with the table unchanged.
\<close>

theorem symbol_lookup_is_find:
  assumes "object_at p ob ks" and "held p ob" and "0 \<notin> set name"
  shows "lookup_named_child_symbol ob name False p =
    (case find_kid name ks of None \<Rightarrow> Some (0, p) | Some (k, _) \<Rightarrow> Some (k, locked k p))"
proof (cases "find_kid name ks")
  case None
  then show ?thesis using lookup_named_misses [OF assms None] by simp
next
  case (Some c)
  obtain k js nm where c: "c = (k, js, nm)" by (cases c)
  have "nm = name" using find_kid_in [of name ks k js nm p] Some c assms(1) by (auto simp: object_at_def)
  then show ?thesis using lookup_named_finds [OF assms] Some c by simp
qed

lemma symbol_lookup_is_find_demo:
  "lookup_named_child_symbol 5 (replicate 22 97) False long_pool = Some (1, locked 1 long_pool) \<and>
   lookup_named_child_symbol 5 (replicate 21 97) False long_pool = Some (0, long_pool)"
  using symbol_lookup_is_find [OF long_object long_held(2), of "replicate 22 97"]
    symbol_lookup_is_find [OF long_object long_held(2), of "replicate 21 97"]
  by (simp add: replicate_eq_replicate)

text \<open>
  C26. A string that new_str_symbol makes from free nodes is kept in the first free
  node and extensions of 14 bytes; when its only lock is released, every node it took
  returns to the free list in the old order, the usage counter is back, and no other
  node has changed.
\<close>

theorem symbol_string_recycled:
  assumes "free_list p (i # fs)" and "length cs \<le> 8 + 14 * length fs"
  shows "\<exists>js q p'. new_str_symbol cs p = Some (i, q) \<and> str_chain q i js cs \<and> symbol_unlock i q = Some p' \<and>
    free_list p' (i # fs) \<and> sym_usage p' = sym_usage p \<and> (\<forall>k. k \<notin> set (i # fs) \<longrightarrow> tab p' k = tab p k)"
  by (rule string_returns_nodes [OF assms])

lemma symbol_string_recycled_demo:
  "\<exists>q p'. new_str_symbol (str ''a string of three blocks'') demo_pool = Some (1, q) \<and> symbol_unlock 1 q = Some p' \<and>
    free_list p' [1, 2, 3, 4, 5, 6]"
  using symbol_string_recycled [of demo_pool 1 "[2, 3, 4, 5, 6]" "str ''a string of three blocks''"] demo_free by auto

text \<open>
  C27. On a string symbol with its extensions, symbol_str_equal is equality with the C
  string, symbol_str_len the length and symbol_to_str the text cut to the given length;
  all three leave the table, with its locks, as it was.
\<close>

theorem symbol_string_reads:
  assumes "str_chain p i js cs" and "held p i" and "0 \<notin> set cs" and "0 \<notin> set xs"
  shows "symbol_str_equal i xs p = Some (cs = xs, p) \<and> symbol_str_len i p = Some (length cs, p) \<and>
    symbol_to_str ftoa i m p = Some (take m cs, p)"
  using str_equal_compares [OF assms] str_len_counts [OF assms(1-3)] to_str_writes [OF assms(1-3)] by blast

lemma symbol_string_reads_demo:
  "symbol_str_equal 1 (replicate 21 97) long_pool = Some (False, long_pool) \<and>
   symbol_str_len 1 long_pool = Some (22, long_pool) \<and>
   symbol_to_str (\<lambda>_. []) 1 10 long_pool = Some (replicate 10 97, long_pool)"
  using symbol_string_reads [OF long_chains(1) long_held(1), of "replicate 21 97" "\<lambda>_. []" 10]
  by (simp add: replicate_eq_replicate)

text \<open>
  C28. The text of a function that new_func_code_symbol stores, with comments and
  repeated blanks removed, is lexed to the same tokens as the source it was cut from,
  for sources written from lexemes, white space and comments in which every lexeme is
  followed by a blank and no two stars follow each other (without the blank it fails:
  return/*c*/x is stored as returnx).
\<close>

theorem func_code_keeps_tokens:
  assumes "source_ok xs" and "source_plain xs" and "free_list p (i # fs)"
    and "length (source_text xs) \<le> 8 + 14 * length fs"
  shows "\<exists>q js cs ts. new_func_code_symbol (pre @ source_text xs @ post) (length pre)
      (length pre + length (source_text xs)) p = Some (i, q) \<and> str_chain q i js cs \<and>
    reads_tokens oob l (source_text xs) (length xs) ts \<and> reads_tokens oob l cs (length xs) ts"
  by (rule func_code_tokens [OF assms])

lemma func_code_keeps_tokens_demo:
  "\<exists>q js cs ts. new_func_code_symbol (str ''f(){'' @ str ''/*c*/ return x '' @ str ''}'')
      (length (str ''f(){'')) (length (str ''f(){'') + length (str ''/*c*/ return x '')) demo_pool = Some (1, q) \<and>
    str_chain q 1 js cs \<and> reads_tokens no_oob (blank_lexer 0) (str ''/*c*/ return x '') (Suc (Suc 0)) ts \<and>
    reads_tokens no_oob (blank_lexer 0) cs (Suc (Suc 0)) ts"
  using func_code_keeps_tokens [of "[([Block_comment (str ''c''), Space 32], LWord (str ''return'')), ([], LWord (str ''x''))]"
      demo_pool 1 "[2, 3, 4, 5, 6]" "str ''f(){''" "str ''}''" no_oob "blank_lexer 0"] demo_free
  by (simp add: source_ok_def source_plain_def ref_whitespace_def ref_alpha_def)

text \<open>
  C29. LITE_json_value_of follows a dotted path through the text of a JSON object: it
  returns the text of the value that the path leads to (a string without its quotes),
  and the null pointer when a key on the way is missing. A key is looked up from the
  left and members with an empty text are passed over. The texts are those without
  white space, escapes and null values.
\<close>

theorem json_path_lookup:
  assumes "jwf v" and "path_ok ks" and "jpath_objects v ks"
  shows "LITE_json_value_of True (dotted ks) (jtext v) = Some (map_option jcontent (jwalk v ks))"
  by (rule LITE_json_value_of_path [OF assms])

lemma json_path_lookup_demo:
  "LITE_json_value_of True (dotted [str ''a'', str ''c''])
     (jtext (JObj [(str ''b'', JNum (str ''12'')), (str ''a'', JObj [(str ''c'', JStr (str ''x}''))])]))
   = Some (Some (str ''x}''))"
  using json_path_lookup [of "JObj [(str ''b'', JNum (str ''12'')), (str ''a'', JObj [(str ''c'', JStr (str ''x}''))])]"
      "[str ''a'', str ''c'']"]
  by (simp add: plain_def number_def num_char_def is_digit_def path_ok_def jget_def)

section \<open>The interpreter of the lite engine\<close>

text \<open>
  C30. The interpreter of the lite engine runs whole programs correctly: for a source
  text (every lexeme followed by a blank, with any white space and comments before the
  lexemes) whose tokens are a sequence of statements - assignments with =, +=, -=, *=
  and /= to existing global integer variables, if, if-else and while statements whose
  bodies are statements or blocks, over all integer expressions of the grammar -
  jsengine_start returns with every large enough fuel, and afterwards the global
  variables hold exactly what the abstract run of the program on a map from names to 64
  bit integers gives, the symbol table is well formed with the same room for later
  evaluations (the nodes of replaced values and of all temporaries are free again), and
  the scopes and the lexer of the machine are back. The run must be defined: used
  variables exist, no division by zero, and no loop body runs more than 8191 times (the
  limit of the engine is 8192).
\<close>

theorem exec_program_runs:
  assumes "store_ok E (vm_pool old) F ks rho n" "room F (vm_pool old)" "2 \<le> n"
    and "source_ok xs" "map (\<lambda>(gs, x). (lexeme_tok x, lexeme_bytes x)) xs = concat (map st_tokens ss)"
    and "list_all st_ok ss" "\<And>s. s \<in> set ss \<Longrightarrow> st_refs s \<le> n" "seq_run rho ss = Some rho'"
  shows "\<exists>v F'. (\<exists>m0. \<forall>m\<ge>m0. jsengine_start E m (source_text xs) old = Some v)
    \<and> store_ok E (vm_pool v) F' ks rho' n \<and> room F' (vm_pool v)
    \<and> vm_scopes v = vm_scopes old \<and> vm_lex v = vm_lex old"
  using run_program [OF assms(1,2,4,5,6,8,7,3)] by (simp add: eventually_sequentially)

lemma exec_program_runs_demo:
  "\<forall>fl l. \<exists>v F' m0. (\<forall>m\<ge>m0. jsengine_start (js_env fl l) m
      (str ''while ( x > 0 ) { y += x ; x -= 1 ; } if ( y == 15 ) x = 7 ; else x = 8 ; '') (js_vm l) = Some v)
    \<and> store_ok (js_env fl l) (vm_pool v) F' js_kids (js_vars 7 15) 20"
proof (intro allI)
  fix fl l
  have "(2 :: nat) \<le> 20" by simp
  from exec_program_runs [OF js_start this js_source_ok js_tokens js_program_ok js_program_refs js_program_run, of fl l l]
  obtain v F' m0 where "\<forall>m\<ge>m0. jsengine_start (js_env fl l) m (source_text js_source) (js_vm l) = Some v"
    "store_ok (js_env fl l) (vm_pool v) F' js_kids (js_vars 7 15) 20" by blast
  then show "\<exists>v F' m0. (\<forall>m\<ge>m0. jsengine_start (js_env fl l) m
      (str ''while ( x > 0 ) { y += x ; x -= 1 ; } if ( y == 15 ) x = 7 ; else x = 8 ; '') (js_vm l) = Some v)
    \<and> store_ok (js_env fl l) (vm_pool v) F' js_kids (js_vars 7 15) 20"
    unfolding js_text by blast
qed

text \<open>
  C31. The value of expressions: for a text whose tokens are an expression of the
  grammar (decimal numbers, true and false, global integer variables, parentheses,
  unary ! and -, arithmetic, shifts, comparisons, bitwise and logical operators and ?:,
  placed by the precedence levels of the parser) that starts with a name, a number, a
  minus or a parenthesis, be_jse_eval_string returns with every large enough fuel a
  locked integer symbol that holds the value of the abstract evaluation (wrapping 64
  bit arithmetic, the logical operators and ?: evaluate only what they need); no other
  symbol in use is changed and all other free nodes are free again.
\<close>

theorem exec_expression_value:
  assumes "store_ok E (vm_pool old) F ks rho n" "room F (vm_pool old)" "ex_refs e < n"
    and "source_ok xs" "map (\<lambda>(gs, x). (lexeme_tok x, lexeme_bytes x)) xs = ex_tokens e"
    and "ex_ok 6 e" "ex_value rho e = Some k" "statement_start (first_tok (ex_tokens e))"
  shows "\<exists>c v. (\<exists>m0. \<forall>m\<ge>m0. be_jse_eval_string E m (source_text xs) old = Some (c, v)) \<and> c \<noteq> 0
    \<and> s_flags (tab (vm_pool v) c) = BE_SYM_INTEGER \<and> sym_int (tab (vm_pool v) c) = k
    \<and> room (F - {c}) (vm_pool v) \<and> vm_scopes v = vm_scopes old
    \<and> (\<forall>i. i \<notin> F \<and> i \<noteq> 0 \<longrightarrow> tab (vm_pool v) i =
        (tab (vm_pool old) i)\<lparr>s_locks := s_locks (tab (vm_pool old) i) + of_bool (i = c)\<rparr>)"
proof -
  have f: "fits (vm_pool old) F (ex_refs e + 1)" using fits_mono [OF store_fits [OF assms(1)]] assms(3) by simp
  obtain c v where v: "eventually (\<lambda>m. be_jse_eval_string E m (source_text xs) old = Some (c, v)) sequentially"
    "c \<noteq> 0" "plain_ref (vm_pool old) F c" "ints (vm_pool old) F {#(c, k)#} (vm_pool v)" "vm_scopes v = vm_scopes old"
    using eval_expression [OF store_env [OF assms(1)] assms(2) f assms(4-8)] by blast
  obtain m0 where "\<forall>m\<ge>m0. be_jse_eval_string E m (source_text xs) old = Some (c, v)"
    using v(1) unfolding eventually_sequentially by blast
  then show ?thesis
    using v(2,5) held_value [OF v(4,2,3)] by (intro exI [of _ c] exI [of _ v]) blast
qed

lemma exec_expression_value_demo:
  "\<forall>fl l. \<exists>c v m0. (\<forall>m\<ge>m0. be_jse_eval_string (js_env fl l) m (str ''x * 2 - y > 3 && x '') (js_vm l) = Some (c, v))
    \<and> sym_int (tab (vm_pool v) c) = 1"
proof (intro allI)
  fix fl l
  from exec_expression_value [OF js_start js_expr_facts(6,1-5), of fl l l]
  obtain c v m0 where "\<forall>m\<ge>m0. be_jse_eval_string (js_env fl l) m (source_text js_expr_source) (js_vm l) = Some (c, v)"
    "sym_int (tab (vm_pool v) c) = 1" by blast
  then show "\<exists>c v m0. (\<forall>m\<ge>m0. be_jse_eval_string (js_env fl l) m (str ''x * 2 - y > 3 && x '') (js_vm l) = Some (c, v))
    \<and> sym_int (tab (vm_pool v) c) = 1" unfolding js_expr_facts(7) by blast
qed

section \<open>The file key-value store\<close>

text \<open>
  C32. The Linux file store (memory and file operations succeed): amp_kv_set with a key
  below 128 bytes and a value of at most 512 bytes fails with -1 exactly when every
  slot of the row of the key is taken by another key, so never for a key that is
  already bound, and then leaves the map as it was; otherwise it returns 0 and binds
  the key in the represented map.
\<close>

theorem lk_set_refines:
  assumes "lk_holds w m" "length k < ITEM_MAX_KEY_LEN" "0 < length v" "length v \<le> ITEM_MAX_VAL_LEN"
    and "amp_kv_set (Some k) (Some v) (int (length v)) w = (r, w')"
  shows "if row_full w k then r = -1 \<and> m k = None \<and> lk_holds w' m
    else r = 0 \<and> lk_holds w' (m(k \<mapsto> v))"
  using lk_set_contract [OF assms(1) _ _ assms(5)] lk_set_code [OF assms(1) _ assms(5)]
    present_not_full [OF assms(1)] assms(2-4)
  by (cases "m k") (auto simp: lk_key_ok_def lk_val_ok_def split: if_splits)

lemma lk_set_refines_demo:
  "\<exists>w'. amp_kv_set (Some (str ''A'')) (Some (str ''1'')) 1 lk_demo = (0, w')
     \<and> lk_holds w' (Map.empty(str ''A'' \<mapsto> str ''1''))"
proof -
  obtain w' where w': "amp_kv_set (Some (str ''A'')) (Some (str ''1'')) (int (length (str ''1''))) lk_demo = (0, w')"
    using lk_demo_set [of "str ''1''" "str ''A''"] by auto
  from lk_set_refines [OF lk_demo_facts(2) _ _ _ w'] w' show ?thesis by (auto split: if_splits)
qed

text \<open>
  C33. The Linux file store: amp_kv_get returns -1 for an absent key and otherwise the
  first bytes of the value, as many as the buffer holds, and sets the length to that
  number; the map is unchanged. Memory and file operations succeed (lk_healthy, part of
  lk_holds).
\<close>

theorem lk_get_exact:
  assumes "lk_holds w m" "0 < len"
  shows "\<exists>w'. lk_holds w' m \<and> amp_kv_get (Some k) True (Some len) w =
    (case m k of None \<Rightarrow> (-1, None, Some len, w')
     | Some v \<Rightarrow> (0, Some (take (nat len) v), Some (min len (int (length v))), w'))"
  by (rule lk_get_contract [OF assms])

lemma lk_get_exact_demo:
  "\<exists>w'. amp_kv_get (Some (str ''A'')) True (Some 512) lk_demo = (-1, None, Some 512, w')"
  using lk_get_exact [OF lk_demo_facts(2), of 512 "str ''A''"] by auto

text \<open>
  C34. The Linux file store, newly created: when two keys have the same hash, deleting
  the one in the first slot hides the other: its value was stored and read back before,
  and after the deletion amp_kv_get reports -1 for it (the search stops at the emptied
  slot). Memory and file operations succeed (lk_healthy, part of lk_holds).
\<close>

theorem lk_delete_hides_colliding_key:
  assumes "lk_holds w Map.empty" "lk_rows w = Some (replicate TABLE_COL_SIZE (replicate TABLE_ROW_SIZE zero_slot))"
    and "hash_gen a = hash_gen b" "a \<noteq> b" "length a < ITEM_MAX_KEY_LEN" "length b < ITEM_MAX_KEY_LEN"
    and "0 < length va" "length va \<le> ITEM_MAX_VAL_LEN" "0 < length vb" "length vb \<le> ITEM_MAX_VAL_LEN"
  shows "\<exists>w1 w2 w3 w4 w5. amp_kv_set (Some a) (Some va) (int (length va)) w = (0, w1)
     \<and> amp_kv_set (Some b) (Some vb) (int (length vb)) w1 = (0, w2)
     \<and> amp_kv_get (Some b) True (Some 512) w2 = (0, Some vb, Some (int (length vb)), w3)
     \<and> amp_kv_del (Some a) w2 = (0, w4)
     \<and> amp_kv_get (Some b) True (Some 512) w4 = (-1, None, Some 512, w5)"
  using assms by (intro rm_hides) (simp_all add: lk_holds_def lk_key_ok_def lk_val_ok_def empty_row_def)

lemma lk_delete_hides_colliding_key_demo:
  "\<exists>w1 w2 w3 w4 w5. amp_kv_set (Some (str ''A'')) (Some [1]) (int (length [1 :: byte])) lk_demo = (0, w1)
     \<and> amp_kv_set (Some (str ''#>'')) (Some [2]) (int (length [2 :: byte])) w1 = (0, w2)
     \<and> amp_kv_get (Some (str ''#>'')) True (Some 512) w2 = (0, Some [2], Some (int (length [2 :: byte])), w3)
     \<and> amp_kv_del (Some (str ''A'')) w2 = (0, w4)
     \<and> amp_kv_get (Some (str ''#>'')) True (Some 512) w4 = (-1, None, Some 512, w5)"
  by (rule lk_delete_hides_colliding_key [OF lk_demo_facts(2)])
    (simp_all add: lk_demo_facts(3) empty_row_def demo_collision)

section \<open>Reports and checksums\<close>

text \<open>
  C35. The report state, call by call (the mutex of the report exists). An update turns
  INIT into UPDATE and REPORT into RESYNC, keeps the other two, and changes nothing
  else. A message that is not a received publish changes nothing; a received reply
  turns RESYNC into UPDATE and REPORT into INIT and keeps the other two. A pass of the
  report task enters REPORT exactly when a packet was published, otherwise UPDATE when
  it ran with fewer than 128 bytes left in the kept buffer (which it drops), and
  otherwise keeps the state. In particular only an update enters RESYNC and only a
  received reply enters INIT, both from REPORT, and only a task that published a packet
  enters REPORT.
\<close>

theorem und_report_state_machine:
  assumes "rep_ready w"
  shows "und_update_report w = (UND_SUCCESS, w\<lparr>rep_update := after_update (rep_update w)\<rparr>)
     \<and> und_target_report_reply kv False w = Some w
     \<and> (\<forall>w'. und_target_report_reply kv True w = Some w' \<longrightarrow> rep_update w' = after_reply (rep_update w))
     \<and> (\<forall>env w'. und_targets_report kv env w = Some w' \<longrightarrow> rep_update w' =
          after_task (packet_sent env w w') (task_runs env w \<and> buffer_full w) (rep_update w))
     \<and> (\<forall>c w'. run_call kv c w = Some w' \<longrightarrow> rep_update w' \<noteq> rep_update w \<longrightarrow>
          (rep_update w' = UND_CAP_STATE_RESYNC \<longrightarrow> c = Update_Call \<and> rep_update w = UND_CAP_STATE_REPORT)
        \<and> (rep_update w' = UND_CAP_STATE_INIT \<longrightarrow> c = Reply_Call True \<and> rep_update w = UND_CAP_STATE_REPORT)
        \<and> (rep_update w' = UND_CAP_STATE_REPORT \<longrightarrow> (\<exists>env. c = Task_Call env \<and> packet_sent env w w')))"
  by (intro conjI [OF update_state [OF assms]] conjI [OF no_reply] conjI [OF allI] conjI [OF allI [OF allI]] allI impI)
    (erule (1) entered [OF _ assms] | simp add: reply_state [OF _ assms] task_state [OF _ assms])+

lemma und_report_state_machine_demo:
  "rep_update (snd (und_update_report (und_demo\<lparr>rep_update := UND_CAP_STATE_REPORT\<rparr>))) = UND_CAP_STATE_RESYNC"
  using und_report_state_machine [of "und_demo\<lparr>rep_update := UND_CAP_STATE_REPORT\<rparr>"] by (simp add: und_demo_def)



text \<open>
  C37. ymodem_data_parse hands a payload to the writer only when the received bytes are
  a block number with its complement, the payload and the CRC-16 of the payload;
  exactly that payload is written, once.
\<close>

theorem ymodem_writes_only_checked_blocks:
  assumes "ymodem_written (snd (ymodem_data_parse t w)) \<noteq> ymodem_written w"
  shows "\<exists>k k' p. fst (ymodem_data_parse t w) = YMODEM_OK \<and> length p = block_len t - 4
       \<and> unat k + unat k' = 255
       \<and> fst (ymodem_recv_bytes (block_len t) UART_RECV_TIMEOUT w) = k # k' # p @ crc16_bytes p
       \<and> ymodem_written (snd (ymodem_data_parse t w)) = ymodem_written w @ [p]"
  by (rule data_parse_writes [OF assms])

lemma ymodem_writes_only_checked_blocks_demo:
  "\<exists>k k' p. length p = 128 \<and> unat k + unat k' = 255
     \<and> fst (ymodem_recv_bytes (block_len YMODEM_SOH) UART_RECV_TIMEOUT demo_line) = k # k' # p @ crc16_bytes p"
  using ymodem_writes_only_checked_blocks [of YMODEM_SOH demo_line] demo_line_parse by (auto simp: block_len_def)

text \<open>
  C38. The CRC-16 of ymodem.c (UpdateCRC16 over the message and two zero bytes, with
  its guard bit loop in 32 bit words) is the remainder of the polynomial division of
  the message followed by sixteen zero bits by 0x1021.
\<close>

theorem crc16_is_remainder:
  "crc16_computer bs = foldl (crc_serial 0x1021) 0 (msg_bits bs @ replicate 16 False)"
  by (rule crc16_serial)

section \<open>Limits\<close>

text \<open>
  C39. With no free node and a table of k blocks of 512 nodes, new_symbol_node enlarges
  the table by one block when k is below 127 (amp_realloc and amp_calloc succeed): the
  new size is 512 more, the call returns the first node of the new block, cleared and
  locked once, the other 511 nodes of the block are the free list in ascending order,
  and every old node is as it was. With 127 blocks (65024 nodes) the 16-bit loop
  counter of symbol_table_init never reaches its bound and the call does not return.
\<close>

theorem symbol_table_grows:
  assumes "sym_free p = 0" and "sym_size p = 512 * k" and "0 < k"
  shows "(k < 127 \<longrightarrow> (\<exists>p'. new_symbol_node p = Some (512 * k + 1, p') \<and> sym_size p' = 512 * (k + 1)
      \<and> free_list p' [512 * k + 2..<512 * (k + 1) + 1]
      \<and> tab p' (512 * k + 1) = zero_sym\<lparr>s_locks := 1\<rparr> \<and> (\<forall>i\<le>512 * k. tab p' i = tab p i)))
    \<and> (k = 127 \<longrightarrow> new_symbol_node p = None)"
proof (intro conjI impI)
  assume "k < 127"
  from new_node_grows [OF assms this] obtain p' where p': "new_symbol_node p = Some (sym_size p + 1, p')"
    "free_list p' [sym_size p + 2..<sym_size p + 513]" "sym_size p' = sym_size p + 512"
    "tab p' (sym_size p + 1) = zero_sym\<lparr>s_locks := 1\<rparr>" "\<forall>i\<le> sym_size p. tab p' i = tab p i" by blast
  have "sym_size p + 513 = 512 * (k + 1) + 1" using assms(2) by simp
  with p' show "\<exists>p'. new_symbol_node p = Some (512 * k + 1, p') \<and> sym_size p' = 512 * (k + 1)
      \<and> free_list p' [512 * k + 2..<512 * (k + 1) + 1]
      \<and> tab p' (512 * k + 1) = zero_sym\<lparr>s_locks := 1\<rparr> \<and> (\<forall>i\<le>512 * k. tab p' i = tab p i)"
    using assms(2) by (intro exI [of _ p']) (auto simp: add.commute)
next
  assume "k = 127"
  then show "new_symbol_node p = None" using new_node_hangs [OF assms(1)] assms(2) by simp
qed

lemma symbol_table_grows_demo:
  "(\<exists>p'. new_symbol_node (demo_pool\<lparr>sym_free := 0, sym_size := 512\<rparr>) = Some (513, p') \<and> sym_size p' = 1024)
    \<and> new_symbol_node (demo_pool\<lparr>sym_free := 0, sym_size := 65024\<rparr>) = None"
  using symbol_table_grows [of "demo_pool\<lparr>sym_free := 0, sym_size := 512\<rparr>" 1]
    symbol_table_grows [of "demo_pool\<lparr>sym_free := 0, sym_size := 65024\<rparr>" 127] by auto

text \<open>
  C40. A PUBACK without an identifier (two bytes from the server) counts as read: one
  iotx_mc_cycle then uses a packet identifier that was never set.
\<close>

theorem mqtt_short_puback_undefined:
  assumes "byte_stream pf stream" and "stream (mc_net c) = [0x40, 0] @ rest" and "at_rest c"
    and "mc_client_state c = IOTX_MC_STATE_CONNECTED" and "mc_keepalive_probes c \<le> 2" and "5 \<le> mc_buf_size_read_max c"
  shows "iotx_mc_cycle pf timer c = None"
proof -
  have p: "packet 0x40 [] = [0x40, 0]" by (simp add: packet_def varint.simps [of 0])
  have ty: "MQTT_HEADER_GET_TYPE 0x40 = PUBACK" by code_simp
  obtain n tail k where r: "iotx_mc_read_packet pf timer c = Some (0, PUBACK,
      c\<lparr>mc_net := n, mc_buf_read := Some (0x40 # of_nat 0 # tail), mc_buf_size_read := k\<rparr>)"
    using byte_stream.read_packet_fits [OF assms(1), of c "0x40" "[]" rest timer] assms(2,3,6)
    by (auto simp: p ty at_rest_def)
  show ?thesis
    using assms(4,5) r short_accepted(1) [OF refl, of 0 "0x40" tail]
    by (simp add: iotx_mc_cycle_def IOTX_MC_KEEPALIVE_PROBE_MAX_def handle_packet_def iotx_mc_handle_recv_PUBACK_def mqtt_types)
qed

lemma mqtt_short_puback_undefined_demo: "iotx_mc_cycle list_platform 0 (demo_client [0x40, 0]) = None"
  using mqtt_short_puback_undefined [OF demo_stream, of "demo_client [0x40, 0]" "[]"]
    demo_rest [of "[0x40, 0]"] by (simp add: demo_client_def del: demo_rest)

end
